(* ===== verification/Prelude.thy ===== *)
theory Prelude
  imports Main "HOL-Library.AList" "HOL-Library.Char_ord" "HOL-Library.List_Lexorder"
begin

text \<open>
  What the component theories share: names for the identifier types, the JavaScript string
  and array operations the sources use, insertion-ordered maps, and a model of JSON values
  with \<^verbatim>\<open>JSON.stringify\<close>.

  A JavaScript string is a list of UTF-16 code units; the model's \<^typ>\<open>string\<close> has one
  \<^typ>\<open>char\<close> per code unit. The literals of the sources outside Latin-1, the ellipsis
  U+2026, the arrow U+2192 and the dash U+2014, are the named single characters \<open>ellipsis\<close>,
  \<open>arrow\<close> and \<open>em_dash\<close>.
  A JavaScript \<^verbatim>\<open>Map\<close> whose iteration order matters is an association list with
  \<^const>\<open>AList.update\<close>, which, like \<^verbatim>\<open>Map.set\<close>, keeps the position of a key
  that is already there; a map that is only looked up is a partial function.
\<close>

named_theorems js_simps \<open>unfolding rules for the JavaScript operations\<close>
named_theorems chain_intros \<open>introduction rules for hash chains\<close>
named_theorems inv_intros \<open>the preservation lemmas of the component invariants\<close>

type_synonym session_id = string
type_synonym run_id = string
type_synonym thread_id = string
type_synonym message_id = string
type_synonym tool_call_id = string
type_synonym ('k, 'v) js_map = "('k \<times> 'v) list"

subsection \<open>Strings\<close>

text \<open>The white space \<^verbatim>\<open>String.prototype.trim\<close> strips, in Latin-1.\<close>

definition js_space :: "char \<Rightarrow> bool" where
  "js_space c \<longleftrightarrow> of_char c \<in> {9, 10, 11, 12, 13, 32, 160 :: nat}"

definition trim_end :: "string \<Rightarrow> string" where
  "trim_end s = rev (dropWhile js_space (rev s))"

definition trim :: "string \<Rightarrow> string" where
  "trim s = trim_end (dropWhile js_space s)"

text \<open>\<^verbatim>\<open>s.indexOf(p)\<close>: \<^const>\<open>None\<close> stands for \<open>-1\<close>.\<close>

fun indexOf :: "'a list \<Rightarrow> 'a list \<Rightarrow> nat option" where
  "indexOf [] p = (if p = [] then Some 0 else None)"
| "indexOf (c # cs) p =
     (if take (length p) (c # cs) = p then Some 0 else map_option Suc (indexOf cs p))"

definition str_includes :: "string \<Rightarrow> string \<Rightarrow> bool" where
  "str_includes s p \<longleftrightarrow> indexOf s p \<noteq> None"

definition starts_with :: "string \<Rightarrow> string \<Rightarrow> bool" where
  "starts_with s p \<longleftrightarrow> take (length p) s = p"

text \<open>\<^verbatim>\<open>xs.join(sep)\<close>\<close>

fun join :: "'a list \<Rightarrow> 'a list list \<Rightarrow> 'a list" where
  "join sep [] = []"
| "join sep [x] = x"
| "join sep (x # y # ys) = x @ sep @ join sep (y # ys)"

definition ellipsis :: string where
  "ellipsis = [CHR 0x85]"

definition arrow :: string where
  "arrow = [CHR 0x1A]"

definition em_dash :: string where
  "em_dash = [CHR 0x97]"

definition newline :: string where
  "newline = [CHR 0x0A]"

text \<open>Decimal rendering, as a template literal renders an integer.\<close>

fun show_nat :: "nat \<Rightarrow> string" where
  "show_nat n = (if n < 10 then [char_of (48 + n)] else show_nat (n div 10) @ [char_of (48 + n mod 10)])"

definition show_int :: "int \<Rightarrow> string" where
  "show_int i = (if i < 0 then CHR ''-'' # show_nat (nat (- i)) else show_nat (nat i))"

declare show_nat.simps [simp del]

lemma indexOf_Some_split:
  "indexOf s p = Some i \<Longrightarrow> \<exists>b. s = take i s @ p @ b \<and> i + length p \<le> length s"
proof (induction s p arbitrary: i rule: indexOf.induct)
  case (1 p)
  then show ?case by (simp split: if_splits)
next
  case (2 c cs p)
  show ?case
  proof (cases "take (length p) (c # cs) = p")
    case True
    with "2.prems" have "i = 0" by simp
    moreover have "c # cs = p @ drop (length p) (c # cs)"
      using True append_take_drop_id [of "length p" "c # cs"] by simp
    moreover have "length p \<le> length (c # cs)"
      using True by (metis length_take min.cobounded2 nat_le_linear min.absorb1)
    ultimately show ?thesis by auto
  next
    case False
    with "2.prems" obtain j where "indexOf cs p = Some j" "i = Suc j" by auto
    with "2.IH" [OF False, of j] show ?thesis by auto
  qed
qed

lemma indexOf_None_iff: "indexOf s p = None \<longleftrightarrow> \<not> (\<exists>a b. s = a @ p @ b)"
proof (induction s p rule: indexOf.induct)
  case (1 p)
  then show ?case by simp
next
  case (2 c cs p)
  show ?case
  proof (cases "take (length p) (c # cs) = p")
    case True
    then have "c # cs = [] @ p @ drop (length p) (c # cs)"
      using append_take_drop_id [of "length p" "c # cs"] by simp
    then have "\<exists>a b. c # cs = a @ p @ b" by blast
    with True show ?thesis by simp
  next
    case False
    have "(\<exists>a b. c # cs = a @ p @ b) \<longleftrightarrow> (\<exists>a b. cs = a @ p @ b)"
    proof
      assume "\<exists>a b. c # cs = a @ p @ b"
      then obtain a b where ab: "c # cs = a @ p @ b" by blast
      with False have "a \<noteq> []" by auto
      with ab show "\<exists>a b. cs = a @ p @ b" by (cases a) auto
    next
      assume "\<exists>a b. cs = a @ p @ b"
      then obtain a b where "c # cs = (c # a) @ p @ b" by auto
      then show "\<exists>a b. c # cs = a @ p @ b" by blast
    qed
    with "2.IH" [OF False] False show ?thesis by simp
  qed
qed

lemma indexOf_append_Some: "indexOf a tag = Some i \<Longrightarrow> indexOf (a @ b) tag = Some i"
proof (induction a arbitrary: i)
  case Nil
  then show ?case by (cases b) (auto split: if_splits)
next
  case (Cons c a)
  show ?case
  proof (cases "take (length tag) (c # a) = tag")
    case True
    then have "length tag \<le> length (c # a)" by (metis length_take min.cobounded1 min.commute)
    then have "take (length tag) ((c # a) @ b) = tag" using True by (subst take_append) simp
    with Cons.prems True show ?thesis by simp
  next
    case False
    with Cons.prems obtain k where k: "indexOf a tag = Some k" "i = Suc k" by auto
    have "take (length tag) ((c # a) @ b) \<noteq> tag"
    proof
      assume eq: "take (length tag) ((c # a) @ b) = tag"
      have "length tag \<le> length a" using indexOf_Some_split [OF k(1)] by auto
      then have "take (length tag) (c # a) = tag" using eq by (subst (asm) take_append) simp
      with False show False by contradiction
    qed
    with Cons.IH [OF k(1)] k(2) show ?thesis by simp
  qed
qed

lemma join_map_append: "ys \<noteq> [] \<Longrightarrow> join sep (x # ys) = x @ sep @ join sep ys"
  by (cases ys) auto

subsection \<open>Arrays\<close>

text \<open>\<^verbatim>\<open>xs.findIndex(P)\<close>\<close>

fun find_index :: "('a \<Rightarrow> bool) \<Rightarrow> 'a list \<Rightarrow> nat option" where
  "find_index P [] = None"
| "find_index P (x # xs) = (if P x then Some 0 else map_option Suc (find_index P xs))"

text \<open>The positions at which \<open>P\<close> holds, in order, as a counting loop collects them.\<close>

fun positions :: "('a \<Rightarrow> bool) \<Rightarrow> 'a list \<Rightarrow> nat list" where
  "positions P [] = []"
| "positions P (x # xs) = (if P x then [0] else []) @ map Suc (positions P xs)"

lemma find_index_None [simp]: "find_index P xs = None \<longleftrightarrow> (\<forall>x \<in> set xs. \<not> P x)"
  by (induction xs) auto

lemma find_index_Some:
  "find_index P xs = Some i \<longleftrightarrow> i < length xs \<and> P (xs ! i) \<and> (\<forall>j < i. \<not> P (xs ! j))"
proof (induction xs arbitrary: i)
  case Nil
  then show ?case by simp
next
  case (Cons x xs)
  then show ?case
    by (cases i) (auto simp: less_Suc_eq_0_disj)
qed

lemma length_positions: "length (positions P xs) = length (filter P xs)"
  by (induction xs) auto

lemma positions_append:
  "positions P (xs @ ys) = positions P xs @ map (\<lambda>i. length xs + i) (positions P ys)"
  by (induction xs) (auto simp: o_def)

lemma positions_Nil [simp]: "positions P xs = [] \<longleftrightarrow> filter P xs = []"
  by (metis length_0_conv length_positions)

lemma mem_positions: "i \<in> set (positions P xs) \<longleftrightarrow> i < length xs \<and> P (xs ! i)"
proof (induction xs arbitrary: i)
  case Nil
  then show ?case by simp
next
  case (Cons x xs)
  then show ?case by (cases i) (auto simp: image_iff)
qed

lemma sorted_positions: "sorted_wrt (<) (positions P xs)"
  by (induction xs) (auto simp: sorted_wrt_map)

text \<open>What lies from the \<open>k\<close>-th marked position on holds \<open>length - k\<close> marks.\<close>

lemma filter_drop_positions:
  "k < length (positions P xs) \<Longrightarrow>
    length (filter P (drop (positions P xs ! k) xs)) = length (positions P xs) - k"
proof (induction xs arbitrary: k)
  case Nil
  then show ?case by simp
next
  case (Cons x xs)
  show ?case
  proof (cases "P x")
    case True
    with Cons show ?thesis by (cases k) (auto simp: length_positions)
  next
    case False
    with Cons show ?thesis by auto
  qed
qed

subsection \<open>JSON\<close>

text \<open>\<open>JNum\<close> is an integral number, \<open>JDec\<close> any other one, given by the text it prints as.\<close>

datatype json =
    JNull
  | JBool bool
  | JNum int
  | JDec string
  | JStr string
  | JArr "json list"
  | JObj "(string \<times> json) list"

definition hex_digit :: "nat \<Rightarrow> char" where
  "hex_digit n = char_of (if n < 10 then 48 + n else 87 + n)"

text \<open>The escapes of \<^verbatim>\<open>JSON.stringify\<close> for one code unit.\<close>

definition json_escape :: "char \<Rightarrow> string" where
  "json_escape c =
     (let n = of_char c :: nat in
      if n = 34 then [CHR 0x5C, CHR 0x22]
      else if n = 92 then [CHR 0x5C, CHR 0x5C]
      else if n = 8 then [CHR 0x5C, CHR ''b'']
      else if n = 12 then [CHR 0x5C, CHR ''f'']
      else if n = 10 then [CHR 0x5C, CHR ''n'']
      else if n = 13 then [CHR 0x5C, CHR ''r'']
      else if n = 9 then [CHR 0x5C, CHR ''t'']
      else if n < 32 then [CHR 0x5C, CHR ''u'', CHR ''0'', CHR ''0'', hex_digit (n div 16), hex_digit (n mod 16)]
      else [c])"

definition json_quote :: "string \<Rightarrow> string" where
  "json_quote s = CHR 0x22 # concat (map json_escape s) @ [CHR 0x22]"

fun stringify :: "json \<Rightarrow> string" where
  "stringify JNull = ''null''"
| "stringify (JBool b) = (if b then ''true'' else ''false'')"
| "stringify (JNum i) = show_int i"
| "stringify (JDec s) = s"
| "stringify (JStr s) = json_quote s"
| "stringify (JArr xs) = ''['' @ join '','' (map stringify xs) @ '']''"
| "stringify (JObj kvs) =
     ''{'' @ join '','' (map (\<lambda>(k, v). json_quote k @ '':'' @ stringify v) kvs) @ ''}''"

subsection \<open>Insertion-ordered maps\<close>

lemma map_of_update [simp]: "map_of (AList.update k v m) = (map_of m)(k \<mapsto> v)"
  by (simp add: update_conv')

lemma map_of_delete [simp]: "map_of (AList.delete k m) = (map_of m)(k := None)"
  by (simp add: delete_conv')

end
