(* ===== verification/Agui_Events.thy ===== *)
theory Agui_Events
  imports Prelude
begin

text \<open>
  The AG-UI event union of \<^verbatim>\<open>services/agent-host/src/bridge.ts\<close>, with the source's
  discriminants as constructors, the JSON object each event is (what the log stores and the
  checksum hashes), and the rolling checksum of \<^verbatim>\<open>agui/integrity.ts\<close>.
  \<^verbatim>\<open>RUN_ERROR\<close> carries an optional run id: the declared type has none, but every
  reader of the log looks for one.
  SHA-256 (\<^verbatim>\<open>node:crypto\<close>) is the parameter \<open>sha\<close> of the definitions.
\<close>

subsection \<open>Events\<close>

datatype agui_interrupt = AguiInterrupt
  (int_id: string)
  (int_reason: string)
  (int_message: "string option")
  (int_toolCallId: "string option")
  (int_metadata: "(string \<times> json) list option")

datatype run_outcome = OutcomeSuccess | OutcomeInterrupt "agui_interrupt list"

datatype interrupt_policy = PolicyTimeout | PolicyThinking | PolicyToolCall

datatype text_role = RoleAssistant | RoleUser

datatype queue_entry = QueueEntry
  (qe_id: string)
  (qe_text: string)
  (qe_priority: int)
  (qe_interrupt: "interrupt_policy option")
  (qe_source: "string option")

datatype image_ref = ImageRef (img_assetId: string) (img_mimeType: string) (img_url: string)

datatype agui_base =
    RUN_STARTED thread_id run_id "string option" "int option"
  | RUN_FINISHED thread_id run_id "json option" "run_outcome option" "bool option" "bool option"
  | RUN_ERROR string "string option" "run_id option"
  | RUN_RETRYING thread_id nat nat nat "string option"
  | CANCEL_REQUESTED thread_id run_id
  | TEXT_MESSAGE_START message_id text_role
  | TEXT_MESSAGE_CONTENT message_id string
  | TEXT_MESSAGE_END message_id
  | TOOL_CALL_START tool_call_id string
  | TOOL_CALL_ARGS tool_call_id string
  | TOOL_CALL_END tool_call_id
  | TOOL_CALL_RESULT tool_call_id message_id string
  | REASONING_START message_id
  | REASONING_MESSAGE_START message_id
  | REASONING_MESSAGE_CONTENT message_id string
  | REASONING_MESSAGE_END message_id
  | REASONING_END message_id
  | PERMISSION_RESOLVED tool_call_id "string option"
  | QUEUE_UPDATED "queue_entry list"
  | MESSAGE_IMAGES message_id "image_ref list"
  | CONTEXT_USAGE nat nat
  | COMPACTION_MARKER string nat nat
  | SYSTEM_MESSAGE message_id string string

record agui_event =
  ev_base :: agui_base
  ev_ts :: "int option"

abbreviation ev :: "agui_base \<Rightarrow> agui_event" where
  "ev b \<equiv> \<lparr>ev_base = b, ev_ts = None\<rparr>"

definition is_run_started :: "agui_event \<Rightarrow> bool" where
  "is_run_started e = (case ev_base e of RUN_STARTED _ _ _ _ \<Rightarrow> True | _ \<Rightarrow> False)"

definition is_terminal :: "agui_event \<Rightarrow> bool" where
  "is_terminal e =
     (case ev_base e of RUN_FINISHED _ _ _ _ _ _ \<Rightarrow> True | RUN_ERROR _ _ _ \<Rightarrow> True | _ \<Rightarrow> False)"

text \<open>\<^verbatim>\<open>(e as { runId?: string }).runId\<close>: the run id an event carries, if any.\<close>

definition event_run_id :: "agui_event \<Rightarrow> run_id option" where
  "event_run_id e =
     (case ev_base e of
        RUN_STARTED _ r _ _ \<Rightarrow> Some r
      | RUN_FINISHED _ r _ _ _ _ \<Rightarrow> Some r
      | RUN_ERROR _ _ r \<Rightarrow> r
      | CANCEL_REQUESTED _ r \<Rightarrow> Some r
      | _ \<Rightarrow> None)"

text \<open>\<^verbatim>\<open>(e as { messageId?: string }).messageId\<close>\<close>

definition event_message_id :: "agui_event \<Rightarrow> message_id option" where
  "event_message_id e =
     (case ev_base e of
        TEXT_MESSAGE_START m _ \<Rightarrow> Some m
      | TEXT_MESSAGE_CONTENT m _ \<Rightarrow> Some m
      | TEXT_MESSAGE_END m \<Rightarrow> Some m
      | TOOL_CALL_RESULT _ m _ \<Rightarrow> Some m
      | REASONING_START m \<Rightarrow> Some m
      | REASONING_MESSAGE_START m \<Rightarrow> Some m
      | REASONING_MESSAGE_CONTENT m _ \<Rightarrow> Some m
      | REASONING_MESSAGE_END m \<Rightarrow> Some m
      | REASONING_END m \<Rightarrow> Some m
      | MESSAGE_IMAGES m _ \<Rightarrow> Some m
      | SYSTEM_MESSAGE m _ _ \<Rightarrow> Some m
      | _ \<Rightarrow> None)"

subsection \<open>The JSON object an event is\<close>

definition opt_field :: "string \<Rightarrow> ('a \<Rightarrow> json) \<Rightarrow> 'a option \<Rightarrow> (string \<times> json) list" where
  "opt_field k f x = (case x of None \<Rightarrow> [] | Some v \<Rightarrow> [(k, f v)])"

definition policy_name :: "interrupt_policy \<Rightarrow> string" where
  "policy_name p =
     (case p of PolicyTimeout \<Rightarrow> ''timeout'' | PolicyThinking \<Rightarrow> ''thinking'' | PolicyToolCall \<Rightarrow> ''tool-call'')"

definition role_name :: "text_role \<Rightarrow> string" where
  "role_name r = (case r of RoleAssistant \<Rightarrow> ''assistant'' | RoleUser \<Rightarrow> ''user'')"

definition jnat :: "nat \<Rightarrow> json" where
  "jnat n = JNum (int n)"

definition interrupt_obj :: "agui_interrupt \<Rightarrow> json" where
  "interrupt_obj i = JObj
     ([(''id'', JStr (int_id i)), (''reason'', JStr (int_reason i))]
      @ opt_field ''message'' JStr (int_message i)
      @ opt_field ''toolCallId'' JStr (int_toolCallId i)
      @ opt_field ''metadata'' JObj (int_metadata i))"

definition outcome_obj :: "run_outcome \<Rightarrow> json" where
  "outcome_obj out =
     (case out of
        OutcomeSuccess \<Rightarrow> JObj [(''type'', JStr ''success'')]
      | OutcomeInterrupt is \<Rightarrow>
          JObj [(''type'', JStr ''interrupt''), (''interrupts'', JArr (map interrupt_obj is))])"

definition queue_entry_obj :: "queue_entry \<Rightarrow> json" where
  "queue_entry_obj q = JObj
     ([(''id'', JStr (qe_id q)), (''text'', JStr (qe_text q)), (''priority'', JNum (qe_priority q))]
      @ opt_field ''interrupt'' (JStr \<circ> policy_name) (qe_interrupt q)
      @ opt_field ''source'' JStr (qe_source q))"

definition image_obj :: "image_ref \<Rightarrow> json" where
  "image_obj i = JObj
     [(''assetId'', JStr (img_assetId i)), (''mimeType'', JStr (img_mimeType i)), (''url'', JStr (img_url i))]"

fun base_obj :: "agui_base \<Rightarrow> (string \<times> json) list" where
  "base_obj (RUN_STARTED t r h g) =
     [(''type'', JStr ''RUN_STARTED''), (''threadId'', JStr t), (''runId'', JStr r)]
     @ opt_field ''host'' JStr h @ opt_field ''gen'' JNum g"
| "base_obj (RUN_FINISHED t r res out c i) =
     [(''type'', JStr ''RUN_FINISHED''), (''threadId'', JStr t), (''runId'', JStr r)]
     @ opt_field ''result'' id res @ opt_field ''outcome'' outcome_obj out
     @ opt_field ''cancelled'' JBool c @ opt_field ''interrupted'' JBool i"
| "base_obj (RUN_ERROR m c r) =
     [(''type'', JStr ''RUN_ERROR''), (''message'', JStr m)]
     @ opt_field ''code'' JStr c @ opt_field ''runId'' JStr r"
| "base_obj (RUN_RETRYING t a m d c) =
     [(''type'', JStr ''RUN_RETRYING''), (''threadId'', JStr t), (''attempt'', jnat a), (''max'', jnat m),
      (''delayMs'', jnat d)] @ opt_field ''code'' JStr c"
| "base_obj (CANCEL_REQUESTED t r) =
     [(''type'', JStr ''CANCEL_REQUESTED''), (''threadId'', JStr t), (''runId'', JStr r)]"
| "base_obj (TEXT_MESSAGE_START m r) =
     [(''type'', JStr ''TEXT_MESSAGE_START''), (''messageId'', JStr m), (''role'', JStr (role_name r))]"
| "base_obj (TEXT_MESSAGE_CONTENT m d) =
     [(''type'', JStr ''TEXT_MESSAGE_CONTENT''), (''messageId'', JStr m), (''delta'', JStr d)]"
| "base_obj (TEXT_MESSAGE_END m) = [(''type'', JStr ''TEXT_MESSAGE_END''), (''messageId'', JStr m)]"
| "base_obj (TOOL_CALL_START t n) =
     [(''type'', JStr ''TOOL_CALL_START''), (''toolCallId'', JStr t), (''toolCallName'', JStr n)]"
| "base_obj (TOOL_CALL_ARGS t d) =
     [(''type'', JStr ''TOOL_CALL_ARGS''), (''toolCallId'', JStr t), (''delta'', JStr d)]"
| "base_obj (TOOL_CALL_END t) = [(''type'', JStr ''TOOL_CALL_END''), (''toolCallId'', JStr t)]"
| "base_obj (TOOL_CALL_RESULT t m c) =
     [(''type'', JStr ''TOOL_CALL_RESULT''), (''toolCallId'', JStr t), (''messageId'', JStr m), (''content'', JStr c)]"
| "base_obj (REASONING_START m) = [(''type'', JStr ''REASONING_START''), (''messageId'', JStr m)]"
| "base_obj (REASONING_MESSAGE_START m) =
     [(''type'', JStr ''REASONING_MESSAGE_START''), (''messageId'', JStr m), (''role'', JStr ''reasoning'')]"
| "base_obj (REASONING_MESSAGE_CONTENT m d) =
     [(''type'', JStr ''REASONING_MESSAGE_CONTENT''), (''messageId'', JStr m), (''delta'', JStr d)]"
| "base_obj (REASONING_MESSAGE_END m) = [(''type'', JStr ''REASONING_MESSAGE_END''), (''messageId'', JStr m)]"
| "base_obj (REASONING_END m) = [(''type'', JStr ''REASONING_END''), (''messageId'', JStr m)]"
| "base_obj (PERMISSION_RESOLVED t x) =
     [(''type'', JStr ''PERMISSION_RESOLVED''), (''toolCallId'', JStr t),
      (''optionId'', case x of None \<Rightarrow> JNull | Some v \<Rightarrow> JStr v)]"
| "base_obj (QUEUE_UPDATED is) = [(''type'', JStr ''QUEUE_UPDATED''), (''items'', JArr (map queue_entry_obj is))]"
| "base_obj (MESSAGE_IMAGES m is) =
     [(''type'', JStr ''MESSAGE_IMAGES''), (''messageId'', JStr m), (''images'', JArr (map image_obj is))]"
| "base_obj (CONTEXT_USAGE u w) =
     [(''type'', JStr ''CONTEXT_USAGE''), (''usedTokens'', jnat u), (''contextWindow'', jnat w)]"
| "base_obj (COMPACTION_MARKER s n k) =
     [(''type'', JStr ''COMPACTION_MARKER''), (''summary'', JStr s), (''summarizedTurns'', jnat n), (''keptRuns'', jnat k)]"
| "base_obj (SYSTEM_MESSAGE m s t) =
     [(''type'', JStr ''SYSTEM_MESSAGE''), (''messageId'', JStr m), (''source'', JStr s), (''text'', JStr t)]"

definition event_obj :: "agui_event \<Rightarrow> (string \<times> json) list" where
  "event_obj e = base_obj (ev_base e) @ opt_field ''ts'' JNum (ev_ts e)"

subsection \<open>The rolling checksum (agui/integrity.ts)\<close>

definition EMPTY_CHECKSUM :: string where
  "EMPTY_CHECKSUM = replicate 64 (CHR ''0'')"

text \<open>
  Canonical JSON of an object: its keys sorted by code unit, then stringified. No event key
  is an array index, so the rebuilt object enumerates its keys in the order they are set.
\<close>

definition canonicalize :: "(string \<times> json) list \<Rightarrow> string" where
  "canonicalize obj = stringify (JObj (sort_key fst obj))"

definition chainNext :: "(string \<Rightarrow> string) \<Rightarrow> string \<Rightarrow> agui_event \<Rightarrow> string" where
  "chainNext sha prev e = sha (prev @ canonicalize (event_obj e))"

fun chainAll :: "(string \<Rightarrow> string) \<Rightarrow> string \<Rightarrow> agui_event list \<Rightarrow> string" where
  "chainAll sha seed [] = seed"
| "chainAll sha seed (e # es) = chainAll sha (chainNext sha seed e) es"

text \<open>\<^verbatim>\<open>createChecksumChain\<close>: its state is the current checksum.\<close>

definition chain_push :: "(string \<Rightarrow> string) \<Rightarrow> string \<Rightarrow> agui_event \<Rightarrow> string \<times> string \<times> string" where
  "chain_push sha current e = (let next = chainNext sha current e in (next, current, next))"

text \<open>A stored event with the two checksums of its row (\<^verbatim>\<open>ChecksummedEvent\<close>).\<close>

datatype checksummed = Checksummed (cs_event: agui_event) (cs_prev: string) (cs_checksum: string)

text \<open>
  The chain property of a log: every entry links to the checksum before it and carries the
  checksum through itself.
\<close>

fun linked :: "(string \<Rightarrow> string) \<Rightarrow> string \<Rightarrow> checksummed list \<Rightarrow> bool" where
  "linked sha c [] = True"
| "linked sha c (r # rs) =
     (cs_prev r = c \<and> cs_checksum r = chainNext sha c (cs_event r) \<and> linked sha (cs_checksum r) rs)"

text \<open>The checksum a linked log ends on.\<close>

fun last_checksum :: "string \<Rightarrow> checksummed list \<Rightarrow> string" where
  "last_checksum c [] = c"
| "last_checksum c (r # rs) = last_checksum (cs_checksum r) rs"

lemma chainAll_append [simp]: "chainAll sha c (xs @ ys) = chainAll sha (chainAll sha c xs) ys"
  by (induction xs arbitrary: c) auto

lemma last_checksum_append [simp]: "last_checksum c (xs @ ys) = last_checksum (last_checksum c xs) ys"
  by (induction xs arbitrary: c) auto

lemma linked_append [chain_intros]:
  "linked sha c (xs @ ys) \<longleftrightarrow> linked sha c xs \<and> linked sha (last_checksum c xs) ys"
  by (induction xs arbitrary: c) auto

lemma linked_last_checksum: "linked sha c rs \<Longrightarrow> last_checksum c rs = chainAll sha c (map cs_event rs)"
  by (induction rs arbitrary: c) auto

lemma linked_snoc [chain_intros]:
  "linked sha c rs \<Longrightarrow> r = Checksummed e (last_checksum c rs) (chainNext sha (last_checksum c rs) e) \<Longrightarrow>
    linked sha c (rs @ [r])"
  by (simp add: linked_append)

text \<open>In a linked log, the checksum before position \<open>i\<close> is the one the \<open>i\<close>-th entry links to.\<close>

lemma linked_prev_nth:
  "linked sha c rs \<Longrightarrow> i < length rs \<Longrightarrow> cs_prev (rs ! i) = last_checksum c (take i rs)"
proof (induction rs arbitrary: c i)
  case Nil
  then show ?case by simp
next
  case (Cons r rs)
  then show ?case by (cases i) auto
qed

lemma last_checksum_take_nth:
  "i < length rs \<Longrightarrow> last_checksum c (take (Suc i) rs) = cs_checksum (rs ! i)"
  by (simp add: take_Suc_conv_app_nth)

lemma distinct_keys_event_obj: "distinct (map fst (event_obj e))"
  by (cases "ev_base e") (auto simp: event_obj_def opt_field_def split: option.splits)

lemma sort_key_perm_unique:
  assumes "distinct (map fst xs)" and "set xs = set ys" and "distinct (map fst ys)"
  shows "sort_key fst xs = sort_key (fst :: _ \<Rightarrow> 'k::linorder) ys"
proof (rule map_sorted_distinct_set_unique [where f = fst])
  show "inj_on fst (set (sort_key fst xs) \<union> set (sort_key fst ys))"
    using assms by (simp add: distinct_map)
  show "sorted (map fst (sort_key fst xs))" by simp
  show "distinct (map fst (sort_key fst xs))"
    using assms(1) by (metis distinct_map distinct_sort set_sort)
  show "sorted (map fst (sort_key fst ys))" by simp
  show "distinct (map fst (sort_key fst ys))"
    using assms(3) by (metis distinct_map distinct_sort set_sort)
  show "set (sort_key fst xs) = set (sort_key fst ys)"
    using assms(2) by simp
qed

end
