(* ===== verification/Pg_Schema.thy ===== *)
theory Pg_Schema
  imports Agui_Events
begin

text \<open>
  The tables of the \<^verbatim>\<open>agent_host\<close> database the modelled stores read and write
  (\<^verbatim>\<open>lib/ts/scooter-schema/src/agent_host.ts\<close>), as lists of rows, and the few statements
  over them: a \<^verbatim>\<open>select ... where ... order by seq\<close>, and an insert that respects the
  primary key \<^verbatim>\<open>(conversation_id, seq)\<close>. Only the columns the modelled code touches
  are kept.
\<close>

record conversation_row =
  cr_id :: session_id
  cr_model :: "string option"
  cr_owner :: "string option"
  cr_parentId :: "string option"
  cr_sandboxRef :: "string option"
  cr_creatorPod :: "string option"
  cr_phase :: "string option"
  cr_hostPod :: "string option"
  cr_hostGeneration :: int
  cr_visibility :: string

record event_row =
  er_conversation :: session_id
  er_seq :: int
  er_event :: agui_event
  er_checksum :: string
  er_prev :: string

type_synonym conversations = "conversation_row list"
type_synonym conversation_events = "event_row list"

definition conversation_of :: "conversations \<Rightarrow> session_id \<Rightarrow> conversation_row option" where
  "conversation_of cs cid = find (\<lambda>r. cr_id r = cid) cs"

text \<open>\<^verbatim>\<open>where conversation_id = id\<close>, in insertion order.\<close>

definition rows_of :: "conversation_events \<Rightarrow> session_id \<Rightarrow> event_row list" where
  "rows_of es cid = filter (\<lambda>r. er_conversation r = cid) es"

definition order_by_seq :: "event_row list \<Rightarrow> event_row list" where
  "order_by_seq rs = sort_key er_seq rs"

definition order_by_seq_desc :: "event_row list \<Rightarrow> event_row list" where
  "order_by_seq_desc rs = rev (sort_key er_seq rs)"

definition event_at :: "conversation_events \<Rightarrow> session_id \<Rightarrow> int \<Rightarrow> event_row option" where
  "event_at es cid seq = find (\<lambda>r. er_conversation r = cid \<and> er_seq r = seq) es"

text \<open>The row as the reader of the chain sees it.\<close>

definition row_cs :: "event_row \<Rightarrow> checksummed" where
  "row_cs r = Checksummed (er_event r) (er_prev r) (er_checksum r)"

lemma row_cs_sel [simp]:
  "cs_event (row_cs r) = er_event r" "cs_prev (row_cs r) = er_prev r" "cs_checksum (row_cs r) = er_checksum r"
  by (simp_all add: row_cs_def)

lemma rows_of_append [simp]: "rows_of (es @ fs) cid = rows_of es cid @ rows_of fs cid"
  by (simp add: rows_of_def)

lemma rows_of_filter_neq:
  "rows_of (filter (\<lambda>r. er_conversation r \<noteq> x) es) cid = (if cid = x then [] else rows_of es cid)"
  by (induction es) (auto simp: rows_of_def)

lemma conversation_of_filter_neq:
  "conversation_of (filter (\<lambda>r. cr_id r \<noteq> x) cs) cid = (if cid = x then None else conversation_of cs cid)"
  by (induction cs) (auto simp: conversation_of_def find_None_iff)

lemma event_at_rows_of: "event_at es cid seq = find (\<lambda>r. er_seq r = seq) (rows_of es cid)"
  by (induction es) (auto simp: event_at_def rows_of_def)

text \<open>
  A conversation's rows form a log: their sequence numbers are \<open>1, 2, ...\<close> in the order they
  were inserted, and their checksums form a chain from the seed.
\<close>

definition log_ok :: "(string \<Rightarrow> string) \<Rightarrow> event_row list \<Rightarrow> bool" where
  "log_ok sha rs \<longleftrightarrow>
     map er_seq rs = [1..int (length rs)] \<and> linked sha EMPTY_CHECKSUM (map row_cs rs)"

lemma log_ok_Nil [simp]: "log_ok sha []"
  by (simp add: log_ok_def)

lemma log_ok_seq_nth: "log_ok sha rs \<Longrightarrow> i < length rs \<Longrightarrow> er_seq (rs ! i) = int i + 1"
  by (metis (no_types, lifting) log_ok_def nth_map nth_upto add.commute length_map
      int_ops(2) of_nat_less_iff zless_imp_add1_zle)

lemma log_ok_sorted: "log_ok sha rs \<Longrightarrow> order_by_seq rs = rs"
  unfolding order_by_seq_def by (rule sort_key_id_if_sorted) (simp add: log_ok_def)

lemma find_seq_aux:
  "map er_seq rs = [lo..lo + int (length rs) - 1] \<Longrightarrow>
    find (\<lambda>r. er_seq r = s) rs =
      (if lo \<le> s \<and> s < lo + int (length rs) then Some (rs ! nat (s - lo)) else None)"
proof (induction rs arbitrary: lo)
  case Nil
  then show ?case by simp
next
  case (Cons r rs)
  from Cons.prems have r: "er_seq r = lo" and rs: "map er_seq rs = [lo + 1..(lo + 1) + int (length rs) - 1]"
    by (auto simp: upto_rec1 [of lo])
  have "nat (s - lo) = Suc (nat (s - (lo + 1)))" if "lo < s" using that by auto
  with Cons.IH [OF rs] r show ?case by auto
qed

lemma log_ok_find:
  "log_ok sha rs \<Longrightarrow>
    find (\<lambda>r. er_seq r = s) rs = (if 1 \<le> s \<and> s \<le> int (length rs) then Some (rs ! nat (s - 1)) else None)"
  using find_seq_aux [of rs 1 s] by (auto simp: log_ok_def)

text \<open>A log grows by the entry that links to its last checksum.\<close>

lemma log_ok_snoc [chain_intros]:
  assumes "log_ok sha rs" and "er_seq r = int (length rs) + 1"
    and "er_prev r = last_checksum EMPTY_CHECKSUM (map row_cs rs)"
    and "er_checksum r = chainNext sha (er_prev r) (er_event r)"
  shows "log_ok sha (rs @ [r])"
proof -
  have "[1..int (length rs)] @ [int (length rs) + 1] = [1..int (length (rs @ [r]))]"
    using upto_rec2 [of 1 "int (length rs) + 1"] by (simp add: add.commute)
  with assms show ?thesis
    by (simp add: log_ok_def linked_append row_cs_def)
qed

end
