(* ===== verification/Event_Store.thy ===== *)
theory Event_Store
  imports Pg_Schema
begin

text \<open>
  The conversation event log, \<^verbatim>\<open>services/agent-host/src/session/eventStore.ts\<close>: the
  append with its fence, its optimistic sequence number and its three answers (committed, own
  earlier write, refused), the readers, and the backfill.

  An append awaits the database three times, so it is three definitions: \<open>append_begin\<close> reads
  the head and fixes what the statement will carry, \<open>insert_stmt\<close> is the
  \<^verbatim>\<open>insert ... select ... on conflict do nothing\<close>, and \<open>append_settle\<close> acts on its row
  count. \<open>append_fail\<close> is the \<^verbatim>\<open>catch\<close>. \<open>appendEvent\<close> composes them when no other
  writer comes between; \<open>Event_Store_Steps\<close> interleaves them across pods. The
  per-conversation promise chain is a queue there. What the listeners and hooks are called
  with is recorded in the state, oldest first. The log lines are not modelled; the refusal
  counter that samples them is.
\<close>

subsection \<open>State\<close>

record append_fence =
  fence_pod :: string
  fence_generation :: "session_id \<Rightarrow> int option"

datatype store_error = SecondWriter int | DbError

record event_store =
  es_heads :: "session_id \<rightharpoonup> int \<times> string"
  es_refusals :: "session_id \<rightharpoonup> nat"
  es_appended :: "(session_id \<times> checksummed) list"
  es_errors :: "(session_id \<times> store_error) list"
  es_fenced :: "session_id list"

definition createPgEventStore :: event_store where
  "createPgEventStore =
     \<lparr>es_heads = Map.empty, es_refusals = Map.empty, es_appended = [], es_errors = [], es_fenced = []\<rparr>"

text \<open>What one append carries from its head read to its statement and its settling.\<close>

record pending_append =
  pa_event :: agui_event
  pa_prev :: string
  pa_seq :: int
  pa_checksum :: string
  pa_presented :: "int option"

subsection \<open>Appending\<close>

text \<open>\<^verbatim>\<open>fenceClause\<close>: the row must name this pod, at the generation presented when there is one.\<close>

definition fenceClause :: "append_fence option \<Rightarrow> conversations \<Rightarrow> session_id \<Rightarrow> int option \<Rightarrow> bool" where
  "fenceClause fence cs cid gen =
     (case fence of
        None \<Rightarrow> True
      | Some f \<Rightarrow>
          (case conversation_of cs cid of
             None \<Rightarrow> False
           | Some r \<Rightarrow>
               cr_hostPod r = Some (fence_pod f)
               \<and> (case gen of None \<Rightarrow> True | Some g \<Rightarrow> cr_hostGeneration r = g)))"

text \<open>\<^verbatim>\<open>refusalCause\<close>: which refusal it was.\<close>

datatype refusal_cause = RowDeleted | ClaimedElsewhere "string option" int

definition refusalCause :: "conversations \<Rightarrow> session_id \<Rightarrow> refusal_cause" where
  "refusalCause cs cid =
     (case conversation_of cs cid of
        None \<Rightarrow> RowDeleted
      | Some r \<Rightarrow> ClaimedElsewhere (cr_hostPod r) (cr_hostGeneration r))"

definition onFenced :: "event_store \<Rightarrow> session_id \<Rightarrow> event_store" where
  "onFenced st cid =
     (let n = (case es_refusals st cid of None \<Rightarrow> 0 | Some k \<Rightarrow> k) + 1 in
      st\<lparr>es_heads := (es_heads st)(cid := None),
         es_fenced := es_fenced st @ [cid],
         es_refusals := (es_refusals st)(cid \<mapsto> n)\<rparr>)"

text \<open>Whether a refusal is logged: the first, then every hundredth.\<close>

definition refusal_logged :: "nat \<Rightarrow> bool" where
  "refusal_logged n \<longleftrightarrow> n = 1 \<or> n mod 100 = 0"

definition head :: "event_store \<Rightarrow> conversation_events \<Rightarrow> session_id \<Rightarrow> event_store \<times> int \<times> string" where
  "head st es cid =
     (case es_heads st cid of
        Some h \<Rightarrow> (st, h)
      | None \<Rightarrow>
          let seeded = (case take 1 (order_by_seq_desc (rows_of es cid)) of
                          [] \<Rightarrow> (0, EMPTY_CHECKSUM)
                        | r # _ \<Rightarrow> (er_seq r, er_checksum r))
          in (st\<lparr>es_heads := (es_heads st)(cid \<mapsto> seeded)\<rparr>, seeded))"

definition append_begin ::
  "(string \<Rightarrow> string) \<Rightarrow> event_store \<Rightarrow> conversation_events \<Rightarrow> session_id \<Rightarrow> agui_event \<Rightarrow> int option
    \<Rightarrow> event_store \<times> pending_append" where
  "append_begin sha st es cid e presented =
     (case head st es cid of
        (st', s, c) \<Rightarrow>
          (st', \<lparr>pa_event = e, pa_prev = c, pa_seq = s + 1, pa_checksum = chainNext sha c e,
                 pa_presented = presented\<rparr>))"

definition row_of_append :: "session_id \<Rightarrow> pending_append \<Rightarrow> event_row" where
  "row_of_append cid p =
     \<lparr>er_conversation = cid, er_seq = pa_seq p, er_event = pa_event p, er_checksum = pa_checksum p,
      er_prev = pa_prev p\<rparr>"

text \<open>The insert: the new table and the row count.\<close>

definition insert_stmt ::
  "append_fence option \<Rightarrow> conversations \<Rightarrow> conversation_events \<Rightarrow> session_id \<Rightarrow> pending_append
    \<Rightarrow> conversation_events \<times> nat" where
  "insert_stmt fence cs es cid p =
     (if fenceClause fence cs cid (pa_presented p) \<and> event_at es cid (pa_seq p) = None
      then (es @ [row_of_append cid p], 1) else (es, 0))"

definition append_committed :: "event_store \<Rightarrow> session_id \<Rightarrow> pending_append \<Rightarrow> event_store" where
  "append_committed st cid p =
     st\<lparr>es_heads := (es_heads st)(cid \<mapsto> (pa_seq p, pa_checksum p)),
        es_refusals := (es_refusals st)(cid := None),
        es_appended := es_appended st @ [(cid, Checksummed (pa_event p) (pa_prev p) (pa_checksum p))]\<rparr>"

definition append_fail :: "event_store \<Rightarrow> session_id \<Rightarrow> store_error \<Rightarrow> event_store" where
  "append_fail st cid err =
     st\<lparr>es_errors := es_errors st @ [(cid, err)], es_heads := (es_heads st)(cid := None)\<rparr>"

datatype append_result = Appended | Refused | Rejected store_error

definition append_settle ::
  "event_store \<Rightarrow> conversation_events \<Rightarrow> session_id \<Rightarrow> pending_append \<Rightarrow> nat \<Rightarrow> event_store \<times> append_result" where
  "append_settle st es cid p rowCount =
     (if rowCount = 0 then
        (case event_at es cid (pa_seq p) of
           Some r \<Rightarrow>
             if er_checksum r = pa_checksum p then (append_committed st cid p, Appended)
             else (append_fail st cid (SecondWriter (pa_seq p)), Rejected (SecondWriter (pa_seq p)))
         | None \<Rightarrow> (onFenced st cid, Refused))
      else (append_committed st cid p, Appended))"

text \<open>One append with no other writer between its statements and no database failure.\<close>

definition appendEvent ::
  "(string \<Rightarrow> string) \<Rightarrow> append_fence option \<Rightarrow> event_store \<Rightarrow> conversations \<Rightarrow> conversation_events
    \<Rightarrow> session_id \<Rightarrow> agui_event \<Rightarrow> event_store \<times> conversation_events \<times> append_result" where
  "appendEvent sha fence st cs es cid e =
     (let presented = Option.bind fence (\<lambda>f. fence_generation f cid);
          (st1, p) = append_begin sha st es cid e presented;
          (es1, n) = insert_stmt fence cs es cid p;
          (st2, res) = append_settle st1 es1 cid p n
      in (st2, es1, res))"

text \<open>The promise chain: appends of one conversation run one after the other; a failed one does not break the chain.\<close>

fun appendAll ::
  "(string \<Rightarrow> string) \<Rightarrow> append_fence option \<Rightarrow> event_store \<Rightarrow> conversations \<Rightarrow> conversation_events
    \<Rightarrow> session_id \<Rightarrow> agui_event list \<Rightarrow> event_store \<times> conversation_events" where
  "appendAll sha fence st cs es cid [] = (st, es)"
| "appendAll sha fence st cs es cid (e # rest) =
     (case appendEvent sha fence st cs es cid e of
        (st', es', _) \<Rightarrow> appendAll sha fence st' cs es' cid rest)"

definition removeConversation ::
  "event_store \<Rightarrow> conversation_events \<Rightarrow> session_id \<Rightarrow> event_store \<times> conversation_events" where
  "removeConversation st es cid =
     (st\<lparr>es_heads := (es_heads st)(cid := None)\<rparr>, filter (\<lambda>r. er_conversation r \<noteq> cid) es)"

subsection \<open>Reading\<close>

definition readEventsWithChecksum :: "conversation_events \<Rightarrow> session_id \<Rightarrow> checksummed list" where
  "readEventsWithChecksum es cid = map row_cs (order_by_seq (rows_of es cid))"

definition readEvents :: "conversation_events \<Rightarrow> session_id \<Rightarrow> agui_event list" where
  "readEvents es cid = map cs_event (readEventsWithChecksum es cid)"

definition readEventsTail :: "conversation_events \<Rightarrow> session_id \<Rightarrow> int \<Rightarrow> agui_event list" where
  "readEventsTail es cid runs =
     (if runs \<le> 0 then []
      else
        let boundary = take 1 (drop (nat (runs - 1))
              (order_by_seq_desc (filter (is_run_started \<circ> er_event) (rows_of es cid))));
            from = (case boundary of [] \<Rightarrow> 0 | r # _ \<Rightarrow> er_seq r)
        in map er_event (order_by_seq (filter (\<lambda>r. from \<le> er_seq r) (rows_of es cid))))"

text \<open>\<^verbatim>\<open>trimToBoundary\<close>: drop what precedes the first event that can open a message.\<close>

definition opens_message :: "agui_event \<Rightarrow> bool" where
  "opens_message e =
     (case ev_base e of
        RUN_STARTED _ _ _ _ \<Rightarrow> True
      | TEXT_MESSAGE_START _ _ \<Rightarrow> True
      | TOOL_CALL_START _ _ \<Rightarrow> True
      | SYSTEM_MESSAGE _ _ _ \<Rightarrow> True
      | _ \<Rightarrow> False)"

definition trimToBoundary :: "agui_event list \<Rightarrow> agui_event list" where
  "trimToBoundary events =
     (case find_index opens_message events of None \<Rightarrow> [] | Some i \<Rightarrow> if i = 0 then events else drop i events)"

definition readEventsTailByCount :: "conversation_events \<Rightarrow> session_id \<Rightarrow> int \<Rightarrow> agui_event list" where
  "readEventsTailByCount es cid limit =
     (if limit \<le> 0 then []
      else trimToBoundary (map er_event (rev (take (nat limit) (order_by_seq_desc (rows_of es cid))))))"

record event_page =
  pg_events :: "agui_event list"
  pg_firstSeq :: int
  pg_done :: bool

definition readEventsBefore :: "conversation_events \<Rightarrow> session_id \<Rightarrow> int \<Rightarrow> int \<Rightarrow> event_page" where
  "readEventsBefore es cid beforeSeq limit =
     (if limit \<le> 0 \<or> beforeSeq \<le> 1 then \<lparr>pg_events = [], pg_firstSeq = beforeSeq, pg_done = True\<rparr>
      else
        let rows = rev (take (nat limit) (order_by_seq_desc (filter (\<lambda>r. er_seq r < beforeSeq) (rows_of es cid))));
            firstSeq = (case rows of [] \<Rightarrow> beforeSeq | r # _ \<Rightarrow> er_seq r)
        in \<lparr>pg_events = map er_event rows, pg_firstSeq = firstSeq,
            pg_done = (int (length rows) < limit \<or> firstSeq \<le> 1)\<rparr>)"

text \<open>A client that pages backwards until \<^verbatim>\<open>done\<close>, prepending each page.\<close>

fun page_back :: "nat \<Rightarrow> conversation_events \<Rightarrow> session_id \<Rightarrow> int \<Rightarrow> int \<Rightarrow> agui_event list option" where
  "page_back 0 es cid beforeSeq limit = None"
| "page_back (Suc fuel) es cid beforeSeq limit =
     (let p = readEventsBefore es cid beforeSeq limit in
      if pg_done p then Some (pg_events p)
      else map_option (\<lambda>older. older @ pg_events p) (page_back fuel es cid (pg_firstSeq p) limit))"

subsection \<open>Backfill\<close>

text \<open>
  \<^verbatim>\<open>backfillConversation\<close>: the loop over the lines, with the checksum, the sequence number
  and the table as its state. \<open>parse\<close> is \<^verbatim>\<open>JSON.parse\<close>, \<^const>\<open>None\<close> where it throws; the
  insert has no conflict clause, so a taken key throws too.
\<close>

datatype backfill_error = BadLine string | DuplicateKey int

fun backfill_loop ::
  "(string \<Rightarrow> string) \<Rightarrow> (string \<Rightarrow> agui_event option) \<Rightarrow> conversation_events \<Rightarrow> session_id \<Rightarrow> string \<Rightarrow> int
    \<Rightarrow> string list \<Rightarrow> backfill_error + conversation_events \<times> int \<times> string" where
  "backfill_loop sha parse es cid checksum seq [] = Inr (es, seq, checksum)"
| "backfill_loop sha parse es cid checksum seq (line # lines) =
     (if trim line = [] then backfill_loop sha parse es cid checksum seq lines
      else
        (case parse line of
           None \<Rightarrow> Inl (BadLine line)
         | Some e \<Rightarrow>
             let checksum' = chainNext sha checksum e; seq' = seq + 1 in
             (case event_at es cid seq' of
                Some _ \<Rightarrow> Inl (DuplicateKey seq')
              | None \<Rightarrow>
                  backfill_loop sha parse
                    (es @ [\<lparr>er_conversation = cid, er_seq = seq', er_event = e, er_checksum = checksum',
                            er_prev = checksum\<rparr>])
                    cid checksum' seq' lines)))"

definition backfillConversation ::
  "(string \<Rightarrow> string) \<Rightarrow> (string \<Rightarrow> agui_event option) \<Rightarrow> conversation_events \<Rightarrow> session_id
    \<Rightarrow> string list \<Rightarrow> backfill_error + conversation_events \<times> int \<times> string" where
  "backfillConversation sha parse es cid lines = backfill_loop sha parse es cid EMPTY_CHECKSUM 0 lines"

subsection \<open>What a head and a pending append know of the log\<close>

definition head_ok :: "event_row list \<Rightarrow> int \<times> string \<Rightarrow> bool" where
  "head_ok rs h \<longleftrightarrow>
     0 \<le> fst h \<and> fst h \<le> int (length rs)
     \<and> snd h = last_checksum EMPTY_CHECKSUM (map row_cs (take (nat (fst h)) rs))"

definition pending_ok :: "(string \<Rightarrow> string) \<Rightarrow> event_row list \<Rightarrow> pending_append \<Rightarrow> bool" where
  "pending_ok sha rs p \<longleftrightarrow>
     1 \<le> pa_seq p \<and> pa_seq p \<le> int (length rs) + 1
     \<and> pa_prev p = last_checksum EMPTY_CHECKSUM (map row_cs (take (nat (pa_seq p - 1)) rs))
     \<and> pa_checksum p = chainNext sha (pa_prev p) (pa_event p)"

definition heads_ok :: "event_row list \<Rightarrow> event_store \<Rightarrow> session_id \<Rightarrow> bool" where
  "heads_ok rs st cid = (case es_heads st cid of None \<Rightarrow> True | Some h \<Rightarrow> head_ok rs h)"

text \<open>The head of a log: its length and its last checksum.\<close>

definition log_head :: "event_row list \<Rightarrow> int \<times> string" where
  "log_head rs = (int (length rs), last_checksum EMPTY_CHECKSUM (map row_cs rs))"

lemma head_ok_append [inv_intros]: "head_ok rs h \<Longrightarrow> head_ok (rs @ xs) h"
  by (auto simp: head_ok_def)

lemma pending_ok_append [inv_intros]: "pending_ok sha rs p \<Longrightarrow> pending_ok sha (rs @ xs) p"
  by (auto simp: pending_ok_def)

lemma heads_ok_append [inv_intros]: "heads_ok rs st cid \<Longrightarrow> heads_ok (rs @ xs) st cid"
  by (auto simp: heads_ok_def head_ok_append split: option.splits)

lemma head_ok_log_head [inv_intros]: "head_ok rs (log_head rs)"
  by (simp add: head_ok_def log_head_def)

lemma last_row_log_head:
  assumes "log_ok sha rs" and "rs \<noteq> []"
  shows "(er_seq (last rs), er_checksum (last rs)) = log_head rs"
proof -
  from assms(2) obtain xs r where rs: "rs = xs @ [r]" by (cases rs rule: rev_cases) auto
  from log_ok_seq_nth [OF assms(1), of "length xs"] have "er_seq r = int (length rs)"
    by (simp add: rs add.commute)
  then show ?thesis by (simp add: rs log_head_def)
qed

text \<open>The head read is sound, and a head seeded from the table is the log's own.\<close>

lemma head_seeded:
  assumes "log_ok sha (rows_of es cid)" and "es_heads st cid = None"
  shows "head st es cid =
    (st\<lparr>es_heads := (es_heads st)(cid \<mapsto> log_head (rows_of es cid))\<rparr>, log_head (rows_of es cid))"
proof (cases "rows_of es cid = []")
  case True
  with assms show ?thesis
    by (simp add: head_def order_by_seq_desc_def log_head_def Let_def)
next
  case False
  have "order_by_seq_desc (rows_of es cid) = rev (rows_of es cid)"
    using log_ok_sorted [OF assms(1)] by (simp add: order_by_seq_desc_def order_by_seq_def)
  with False have "take 1 (order_by_seq_desc (rows_of es cid)) = [last (rows_of es cid)]"
    by (metis One_nat_def hd_rev rev_is_Nil_conv take_Suc take0)
  then show ?thesis
    using assms last_row_log_head [OF assms(1) False] by (simp add: head_def Let_def)
qed

lemma head_ok_head [inv_intros]:
  assumes "log_ok sha (rows_of es cid)" and "heads_ok (rows_of es cid) st cid"
    and "head st es cid = (st', h)"
  shows "head_ok (rows_of es cid) h" and "heads_ok (rows_of es cid) st' cid"
proof -
  have "head_ok (rows_of es cid) h \<and> es_heads st' cid = Some h"
  proof (cases "es_heads st cid")
    case None
    with assms show ?thesis by (auto simp: head_seeded intro: head_ok_log_head)
  next
    case (Some k)
    with assms show ?thesis by (auto simp: head_def heads_ok_def)
  qed
  then show "head_ok (rows_of es cid) h" and "heads_ok (rows_of es cid) st' cid"
    by (auto simp: heads_ok_def)
qed

lemma append_begin_other:
  "append_begin sha st es cid e g = (st', p) \<Longrightarrow>
    (\<forall>d. d \<noteq> cid \<longrightarrow> es_heads st' d = es_heads st d) \<and> es_appended st' = es_appended st
    \<and> es_fenced st' = es_fenced st \<and> es_errors st' = es_errors st \<and> es_refusals st' = es_refusals st"
  by (auto simp: append_begin_def head_def Let_def split: prod.splits option.splits)

lemma append_begin_ok [inv_intros]:
  assumes "log_ok sha (rows_of es cid)" and "heads_ok (rows_of es cid) st cid"
    and "append_begin sha st es cid e g = (st', p)"
  shows "pending_ok sha (rows_of es cid) p" and "heads_ok (rows_of es cid) st' cid"
proof -
  obtain s c where h: "head st es cid = (st', s, c)"
    using assms(3) by (auto simp: append_begin_def split: prod.splits)
  from head_ok_head [OF assms(1,2) h]
  have "head_ok (rows_of es cid) (s, c)" and "heads_ok (rows_of es cid) st' cid" by auto
  with h assms(3) show "pending_ok sha (rows_of es cid) p" and "heads_ok (rows_of es cid) st' cid"
    by (auto simp: append_begin_def pending_ok_def head_ok_def)
qed

subsection \<open>The statement keeps the log a log\<close>

lemma rows_of_row_of_append [simp]:
  "rows_of [row_of_append cid p] d = (if d = cid then [row_of_append cid p] else [])"
  by (simp add: rows_of_def row_of_append_def)

lemma insert_stmt_rows_other:
  "d \<noteq> cid \<Longrightarrow> rows_of (fst (insert_stmt fence cs es cid p)) d = rows_of es d"
  by (simp add: insert_stmt_def)

lemma insert_stmt_grows: "\<exists>xs. rows_of (fst (insert_stmt fence cs es cid p)) d = rows_of es d @ xs"
  by (simp add: insert_stmt_def)

lemma insert_stmt_fenced: "\<not> fenceClause fence cs cid (pa_presented p) \<Longrightarrow> insert_stmt fence cs es cid p = (es, 0)"
  by (simp add: insert_stmt_def)

lemma event_at_free_iff:
  "log_ok sha (rows_of es cid) \<Longrightarrow> pending_ok sha (rows_of es cid) p \<Longrightarrow>
    event_at es cid (pa_seq p) = None \<longleftrightarrow> pa_seq p = int (length (rows_of es cid)) + 1"
  by (auto simp: event_at_rows_of log_ok_find pending_ok_def)

lemma insert_stmt_log_ok [inv_intros]:
  assumes "log_ok sha (rows_of es cid)" and "pending_ok sha (rows_of es cid) p"
  shows "log_ok sha (rows_of (fst (insert_stmt fence cs es cid p)) cid)"
proof (cases "fenceClause fence cs cid (pa_presented p) \<and> event_at es cid (pa_seq p) = None")
  case True
  with assms have s: "pa_seq p = int (length (rows_of es cid)) + 1"
    using event_at_free_iff by blast
  have "log_ok sha (rows_of es cid @ [row_of_append cid p])"
    using assms s by (intro log_ok_snoc) (auto simp: row_of_append_def pending_ok_def)
  with True show ?thesis by (simp add: insert_stmt_def)
next
  case False
  with assms show ?thesis by (auto simp: insert_stmt_def)
qed

text \<open>A statement that took a row leaves it where the pending append said.\<close>

lemma insert_stmt_row:
  assumes "log_ok sha (rows_of es cid)" and "pending_ok sha (rows_of es cid) p"
    and "insert_stmt fence cs es cid p = (es', Suc n)"
  shows "rows_of es' cid = rows_of es cid @ [row_of_append cid p]"
    and "pa_seq p = int (length (rows_of es cid)) + 1"
  using assms event_at_free_iff [OF assms(1,2)]
  by (auto simp: insert_stmt_def split: if_splits)

subsection \<open>A sole writer\<close>

definition head_current :: "event_row list \<Rightarrow> event_store \<Rightarrow> session_id \<Rightarrow> bool" where
  "head_current rs st cid = (case es_heads st cid of None \<Rightarrow> True | Some h \<Rightarrow> h = log_head rs)"

lemma append_begin_current:
  assumes "log_ok sha (rows_of es cid)" and "head_current (rows_of es cid) st cid"
  shows "append_begin sha st es cid e g =
    (st\<lparr>es_heads := (es_heads st)(cid \<mapsto> log_head (rows_of es cid))\<rparr>,
     \<lparr>pa_event = e, pa_prev = snd (log_head (rows_of es cid)), pa_seq = int (length (rows_of es cid)) + 1,
      pa_checksum = chainNext sha (snd (log_head (rows_of es cid))) e, pa_presented = g\<rparr>)"
proof (cases "es_heads st cid")
  case None
  with assms show ?thesis by (simp add: append_begin_def head_seeded log_head_def)
next
  case (Some h)
  with assms(2) have "h = log_head (rows_of es cid)" by (simp add: head_current_def)
  moreover from Some have "(es_heads st)(cid \<mapsto> h) = es_heads st" by (simp add: fun_upd_idem)
  ultimately show ?thesis using Some by (simp add: append_begin_def head_def log_head_def)
qed

lemma appendEvent_owner:
  assumes "log_ok sha (rows_of es cid)" and "head_current (rows_of es cid) st cid"
    and "fenceClause fence cs cid (Option.bind fence (\<lambda>f. fence_generation f cid))"
  obtains st' es' r where "appendEvent sha fence st cs es cid e = (st', es', Appended)"
    and "rows_of es' cid = rows_of es cid @ [r]" and "er_event r = e"
    and "log_ok sha (rows_of es' cid)" and "head_current (rows_of es' cid) st' cid"
    and "es_appended st' = es_appended st @ [(cid, row_cs r)]"
proof -
  let ?rs = "rows_of es cid"
  let ?p = "\<lparr>pa_event = e, pa_prev = snd (log_head ?rs), pa_seq = int (length ?rs) + 1,
      pa_checksum = chainNext sha (snd (log_head ?rs)) e,
      pa_presented = Option.bind fence (\<lambda>f. fence_generation f cid)\<rparr>"
  let ?r = "row_of_append cid ?p"
  have p: "pending_ok sha ?rs ?p" by (simp add: pending_ok_def log_head_def)
  have free: "event_at es cid (pa_seq ?p) = None"
    using event_at_free_iff [OF assms(1) p] by simp
  have ins: "insert_stmt fence cs es cid ?p = (es @ [?r], 1)"
    using assms(3) free by (simp add: insert_stmt_def)
  have rows: "rows_of (es @ [?r]) cid = ?rs @ [?r]"
    by simp
  have ok: "log_ok sha (?rs @ [?r])"
    using insert_stmt_log_ok [OF assms(1) p, of fence cs] by (simp add: ins rows)
  have "log_head (?rs @ [?r]) = (int (length ?rs) + 1, er_checksum ?r)"
    by (simp add: log_head_def)
  with ok rows assms show ?thesis
    by (intro that [of _ "es @ [?r]" ?r])
      (auto simp: appendEvent_def append_begin_current ins append_settle_def append_committed_def
        head_current_def row_of_append_def row_cs_def)
qed

lemma appendEvent_grows:
  "appendEvent sha fence st cs es cid e = (st', es', res) \<Longrightarrow> \<exists>xs. rows_of es' d = rows_of es d @ xs"
  using insert_stmt_grows [of fence cs es cid _ d]
  by (auto simp: appendEvent_def Let_def split: prod.splits) (metis fst_conv)

lemma appendAll_grows:
  "appendAll sha fence st cs es cid events = (st', es') \<Longrightarrow> \<exists>xs. rows_of es' d = rows_of es d @ xs"
proof (induction events arbitrary: st es)
  case Nil
  then show ?case by simp
next
  case (Cons e events)
  obtain st1 es1 r where step: "appendEvent sha fence st cs es cid e = (st1, es1, r)"
    by (cases "appendEvent sha fence st cs es cid e") auto
  with Cons.prems have "appendAll sha fence st1 cs es1 cid events = (st', es')" by simp
  from Cons.IH [OF this] appendEvent_grows [OF step, of d] show ?case by auto
qed

lemma appendAll_owner:
  assumes "log_ok sha (rows_of es cid)" and "head_current (rows_of es cid) st cid"
    and "fenceClause fence cs cid (Option.bind fence (\<lambda>f. fence_generation f cid))"
    and "appendAll sha fence st cs es cid events = (st', es')"
  shows "map er_event (rows_of es' cid) = map er_event (rows_of es cid) @ events
    \<and> log_ok sha (rows_of es' cid)
    \<and> map snd (es_appended st') = map snd (es_appended st) @ map row_cs (drop (length (rows_of es cid)) (rows_of es' cid))"
  using assms
proof (induction events arbitrary: st es)
  case Nil
  then show ?case by simp
next
  case (Cons e events)
  obtain st1 es1 r where step: "appendEvent sha fence st cs es cid e = (st1, es1, Appended)"
    and rows: "rows_of es1 cid = rows_of es cid @ [r]" and re: "er_event r = e"
    and ok: "log_ok sha (rows_of es1 cid)" and cur: "head_current (rows_of es1 cid) st1 cid"
    and app: "es_appended st1 = es_appended st @ [(cid, row_cs r)]"
    using appendEvent_owner [OF Cons.prems(1,2,3)] by metis
  from step Cons.prems(4) have rest: "appendAll sha fence st1 cs es1 cid events = (st', es')" by simp
  have IH: "map er_event (rows_of es' cid) = map er_event (rows_of es1 cid) @ events"
    "log_ok sha (rows_of es' cid)"
    "map snd (es_appended st') = map snd (es_appended st1) @ map row_cs (drop (length (rows_of es1 cid)) (rows_of es' cid))"
    using Cons.IH [OF ok cur Cons.prems(3) rest] by auto
  from appendAll_grows [OF rest, of cid]
  obtain xs where "rows_of es' cid = rows_of es1 cid @ xs" by blast
  with IH rows re app show ?case by simp
qed

lemma readEvents_log_ok: "log_ok sha (rows_of es cid) \<Longrightarrow> readEvents es cid = map er_event (rows_of es cid)"
  by (simp add: readEvents_def readEventsWithChecksum_def log_ok_sorted o_def)

end
