(* ===== verification/Event_Store_Steps.thy ===== *)
theory Event_Store_Steps
  imports Event_Store
begin

text \<open>
  Several agent-host pods over one database. Each pod keeps its own event store, a queue of
  appends per conversation (the promise chain of \<^verbatim>\<open>appendEvent\<close>) and the append that is
  between two of its database calls. A step is one call of one pod, one database failure, or a
  change of the \<^verbatim>\<open>conversations\<close> rows by the router or the controller, in any order. A
  statement whose reply is lost may have committed and is sent again (\<open>insert_unseen\<close>); the
  generation presented is whatever the pod believes at that moment.

  Ending a conversation deletes its row for good, and its event rows are dropped after that.
  The store forgets its chain then; a chain already under way is left in place here, since
  the fence refuses whatever it still sends.
\<close>

datatype inflight = AtInsert pending_append | AtSettle pending_append nat

record pod_state =
  ps_store :: event_store
  ps_queue :: "session_id \<Rightarrow> agui_event list"
  ps_inflight :: "session_id \<rightharpoonup> inflight"

record world =
  w_conversations :: conversations
  w_events :: conversation_events
  w_ended :: "session_id set"
  w_pods :: "string \<Rightarrow> pod_state"

definition init_pod :: pod_state where
  "init_pod = \<lparr>ps_store = createPgEventStore, ps_queue = (\<lambda>_. []), ps_inflight = Map.empty\<rparr>"

definition init_world :: "conversations \<Rightarrow> world" where
  "init_world cs = \<lparr>w_conversations = cs, w_events = [], w_ended = {}, w_pods = (\<lambda>_. init_pod)\<rparr>"

text \<open>The fence a pod presents: its name. The generation travels in the pending append.\<close>

definition pod_fence :: "string \<Rightarrow> append_fence option" where
  "pod_fence p = Some \<lparr>fence_pod = p, fence_generation = (\<lambda>_. None)\<rparr>"

abbreviation set_pod :: "world \<Rightarrow> string \<Rightarrow> pod_state \<Rightarrow> world" where
  "set_pod w p ps \<equiv> w\<lparr>w_pods := (w_pods w)(p := ps)\<rparr>"

inductive store_step :: "(string \<Rightarrow> string) \<Rightarrow> world \<Rightarrow> world \<Rightarrow> bool" for sha where
  call_append:
    "ps = w_pods w p \<Longrightarrow>
     store_step sha w (set_pod w p (ps\<lparr>ps_queue := (ps_queue ps)(cid := ps_queue ps cid @ [e])\<rparr>))"
| begin_append:
    "ps = w_pods w p \<Longrightarrow> ps_inflight ps cid = None \<Longrightarrow> ps_queue ps cid = e # q \<Longrightarrow>
     append_begin sha (ps_store ps) (w_events w) cid e g = (st', pa) \<Longrightarrow>
     store_step sha w (set_pod w p (ps\<lparr>ps_store := st', ps_queue := (ps_queue ps)(cid := q),
       ps_inflight := (ps_inflight ps)(cid \<mapsto> AtInsert pa)\<rparr>))"
| insert:
    "ps = w_pods w p \<Longrightarrow> ps_inflight ps cid = Some (AtInsert pa) \<Longrightarrow>
     insert_stmt (pod_fence p) (w_conversations w) (w_events w) cid pa = (es', n) \<Longrightarrow>
     store_step sha w (set_pod (w\<lparr>w_events := es'\<rparr>) p (ps\<lparr>ps_inflight := (ps_inflight ps)(cid \<mapsto> AtSettle pa n)\<rparr>))"
| insert_unseen:
    "ps = w_pods w p \<Longrightarrow> ps_inflight ps cid = Some (AtInsert pa) \<Longrightarrow>
     insert_stmt (pod_fence p) (w_conversations w) (w_events w) cid pa = (es', n) \<Longrightarrow>
     store_step sha w (w\<lparr>w_events := es'\<rparr>)"
| settle:
    "ps = w_pods w p \<Longrightarrow> ps_inflight ps cid = Some (AtSettle pa n) \<Longrightarrow>
     append_settle (ps_store ps) (w_events w) cid pa n = (st', res) \<Longrightarrow>
     store_step sha w (set_pod w p (ps\<lparr>ps_store := st', ps_inflight := (ps_inflight ps)(cid := None)\<rparr>))"
| db_failure:
    "ps = w_pods w p \<Longrightarrow> ps_inflight ps cid = Some f \<Longrightarrow>
     store_step sha w (set_pod w p (ps\<lparr>ps_store := append_fail (ps_store ps) cid DbError,
       ps_inflight := (ps_inflight ps)(cid := None)\<rparr>))"
| assign:
    "\<forall>cid \<in> w_ended w. conversation_of cs' cid = None \<Longrightarrow> store_step sha w (w\<lparr>w_conversations := cs'\<rparr>)"
| end_conversation:
    "store_step sha w (w\<lparr>w_conversations := filter (\<lambda>r. cr_id r \<noteq> cid) (w_conversations w),
       w_ended := insert cid (w_ended w)\<rparr>)"
| remove:
    "ps = w_pods w p \<Longrightarrow> cid \<in> w_ended w \<Longrightarrow>
     removeConversation (ps_store ps) (w_events w) cid = (st', es') \<Longrightarrow>
     store_step sha w (set_pod (w\<lparr>w_events := es'\<rparr>) p (ps\<lparr>ps_store := st'\<rparr>))"

inductive store_reachable :: "(string \<Rightarrow> string) \<Rightarrow> world \<Rightarrow> bool" for sha where
  start: "store_reachable sha (init_world cs)"
| step: "store_reachable sha w \<Longrightarrow> store_step sha w w' \<Longrightarrow> store_reachable sha w'"

subsection \<open>The invariant\<close>

definition inflight_ok :: "(string \<Rightarrow> string) \<Rightarrow> event_row list \<Rightarrow> session_id \<Rightarrow> inflight \<Rightarrow> bool" where
  "inflight_ok sha rs cid f =
     (case f of
        AtInsert pa \<Rightarrow> pending_ok sha rs pa
      | AtSettle pa n \<Rightarrow>
          pending_ok sha rs pa
          \<and> (n \<noteq> 0 \<longrightarrow> pa_seq pa \<le> int (length rs) \<and> rs ! nat (pa_seq pa - 1) = row_of_append cid pa))"

text \<open>A listener was told only of checksums that a row of the table carries.\<close>

definition told_ok :: "event_row list \<Rightarrow> event_store \<Rightarrow> session_id \<Rightarrow> bool" where
  "told_ok rs st cid \<longleftrightarrow>
     (\<forall>c. (cid, c) \<in> set (es_appended st) \<longrightarrow>
        (\<exists>r \<in> set rs. er_prev r = cs_prev c \<and> er_checksum r = cs_checksum c))"

definition pod_ok :: "(string \<Rightarrow> string) \<Rightarrow> event_row list \<Rightarrow> pod_state \<Rightarrow> session_id \<Rightarrow> bool" where
  "pod_ok sha rs ps cid \<longleftrightarrow>
     heads_ok rs (ps_store ps) cid \<and> told_ok rs (ps_store ps) cid
     \<and> (case ps_inflight ps cid of None \<Rightarrow> True | Some f \<Rightarrow> inflight_ok sha rs cid f)"

definition world_ok :: "(string \<Rightarrow> string) \<Rightarrow> world \<Rightarrow> bool" where
  "world_ok sha w \<longleftrightarrow>
     (\<forall>cid. log_ok sha (rows_of (w_events w) cid)
        \<and> (cid \<in> w_ended w \<longrightarrow> conversation_of (w_conversations w) cid = None)
        \<and> (cid \<notin> w_ended w \<longrightarrow> (\<forall>p. pod_ok sha (rows_of (w_events w) cid) (w_pods w p) cid)))"

lemmas pod_ok_defs = pod_ok_def inflight_ok_def told_ok_def

lemma nth_append_less: "i < length rs \<Longrightarrow> (rs @ xs) ! i = rs ! i"
  by (simp add: nth_append)

lemma inflight_ok_append [inv_intros]: "inflight_ok sha rs cid f \<Longrightarrow> inflight_ok sha (rs @ xs) cid f"
proof (cases f)
  case (AtSettle pa n)
  assume ok: "inflight_ok sha rs cid f"
  have "(rs @ xs) ! nat (pa_seq pa - 1) = rs ! nat (pa_seq pa - 1)"
    if "1 \<le> pa_seq pa" "pa_seq pa \<le> int (length rs)"
    using that by (intro nth_append_less) linarith
  with ok AtSettle show ?thesis
    by (auto simp: inflight_ok_def pending_ok_append) (auto simp: pending_ok_def)
qed (auto simp: inflight_ok_def pending_ok_append)

lemma told_ok_append [inv_intros]: "told_ok rs st cid \<Longrightarrow> told_ok (rs @ xs) st cid"
  by (auto simp: told_ok_def)

lemma pod_ok_append [inv_intros]: "pod_ok sha rs ps cid \<Longrightarrow> pod_ok sha (rs @ xs) ps cid"
  by (auto simp: pod_ok_def heads_ok_append told_ok_append inflight_ok_append split: option.splits)

lemma pod_ok_init: "pod_ok sha rs init_pod cid"
  by (simp add: pod_ok_def heads_ok_def told_ok_def init_pod_def createPgEventStore_def)

lemma world_ok_init: "world_ok sha (init_world cs)"
  by (simp add: world_ok_def init_world_def pod_ok_init rows_of_def)

lemma world_okD:
  assumes "world_ok sha w"
  shows "log_ok sha (rows_of (w_events w) cid)"
    and "cid \<in> w_ended w \<Longrightarrow> conversation_of (w_conversations w) cid = None"
    and "cid \<notin> w_ended w \<Longrightarrow> pod_ok sha (rows_of (w_events w) cid) (w_pods w p) cid"
  using assms by (auto simp: world_ok_def)

lemma pod_ok_inflightD: "pod_ok sha rs ps cid \<Longrightarrow> ps_inflight ps cid = Some f \<Longrightarrow> inflight_ok sha rs cid f"
  by (simp add: pod_ok_def)

text \<open>A pod's state may change at one conversation only; the others keep what they had.\<close>

lemma world_ok_set_pod:
  assumes "world_ok sha w"
    and "\<And>d. d \<notin> w_ended w \<Longrightarrow> pod_ok sha (rows_of (w_events w) d) ps' d"
  shows "world_ok sha (set_pod w p ps')"
  using assms by (auto simp: world_ok_def)

lemma pod_ok_upd_other:
  assumes "pod_ok sha rs ps d" and "ps_inflight ps' d = ps_inflight ps d"
    and "es_heads (ps_store ps') d = es_heads (ps_store ps) d"
    and "\<And>c. (d, c) \<in> set (es_appended (ps_store ps')) \<Longrightarrow> (d, c) \<in> set (es_appended (ps_store ps))"
  shows "pod_ok sha rs ps' d"
  using assms by (auto simp: pod_ok_def heads_ok_def told_ok_def)

text \<open>The statement: the table grows at one conversation, and what was known stays known.\<close>

lemma world_ok_insert:
  assumes ok: "world_ok sha w" and inf: "ps_inflight (w_pods w p) cid = Some (AtInsert pa)"
    and ins: "insert_stmt (pod_fence p) (w_conversations w) (w_events w) cid pa = (es', n)"
  shows "world_ok sha (w\<lparr>w_events := es'\<rparr>)"
    and "cid \<notin> w_ended w \<Longrightarrow> inflight_ok sha (rows_of es' cid) cid (AtSettle pa n)"
proof -
  have grows: "\<exists>xs. rows_of es' d = rows_of (w_events w) d @ xs" for d
    using insert_stmt_grows [of "pod_fence p" "w_conversations w" "w_events w" cid pa d] ins by simp
  have pend: "pending_ok sha (rows_of (w_events w) cid) pa" if "cid \<notin> w_ended w"
    using pod_ok_inflightD [OF world_okD(3) [OF ok that] inf] by (simp add: inflight_ok_def)
  have gone: "es' = w_events w" if "cid \<in> w_ended w"
  proof -
    have "conversation_of (w_conversations w) cid = None" using ok that by (simp add: world_ok_def)
    then have "\<not> fenceClause (pod_fence p) (w_conversations w) cid (pa_presented pa)"
      by (simp add: fenceClause_def pod_fence_def)
    with ins show ?thesis by (simp add: insert_stmt_fenced)
  qed
  have log: "log_ok sha (rows_of es' d)" for d
  proof (cases "d = cid \<and> cid \<notin> w_ended w")
    case True
    with ok pend have "log_ok sha (rows_of (fst (insert_stmt (pod_fence p) (w_conversations w) (w_events w) cid pa)) cid)"
      by (intro insert_stmt_log_ok) (auto simp: world_ok_def)
    with True ins show ?thesis by simp
  next
    case False
    with ok gone ins insert_stmt_rows_other [of d cid] show ?thesis
      by (cases "d = cid") (auto simp: world_ok_def, metis fst_conv)
  qed
  have "pod_ok sha (rows_of es' d) (w_pods w q) d" if "d \<notin> w_ended w" for d q
    using world_okD(3) [OF ok that, of q] grows [of d] by (auto intro: pod_ok_append)
  with log world_okD(2) [OF ok] show "world_ok sha (w\<lparr>w_events := es'\<rparr>)"
    by (simp add: world_ok_def)
  assume "cid \<notin> w_ended w"
  note p = pend [OF this]
  show "inflight_ok sha (rows_of es' cid) cid (AtSettle pa n)"
  proof (cases n)
    case 0
    with p grows [of cid] show ?thesis by (auto simp: inflight_ok_def intro: pending_ok_append)
  next
    case (Suc m)
    have "rows_of es' cid = rows_of (w_events w) cid @ [row_of_append cid pa]"
      and "pa_seq pa = int (length (rows_of (w_events w) cid)) + 1"
      using insert_stmt_row [OF _ p, of "pod_fence p" "w_conversations w" es' m] ok ins Suc
      by (auto simp: world_ok_def)
    with p show ?thesis by (auto simp: inflight_ok_def intro: pending_ok_append)
  qed
qed

text \<open>Settling: the new head and the listener's event are of the log.\<close>

lemma settle_committed:
  assumes log: "log_ok sha rs" and p: "pending_ok sha rs pa" and st: "told_ok rs st cid"
    and row: "1 \<le> pa_seq pa" "pa_seq pa \<le> int (length rs)"
    and ck: "er_checksum (rs ! nat (pa_seq pa - 1)) = pa_checksum pa"
  shows "heads_ok rs (append_committed st cid pa) cid" and "told_ok rs (append_committed st cid pa) cid"
proof -
  let ?i = "nat (pa_seq pa - 1)"
  have i: "?i < length rs" and si: "nat (pa_seq pa) = Suc ?i" using row by linarith+
  have "last_checksum EMPTY_CHECKSUM (take (Suc ?i) (map row_cs rs)) = cs_checksum (map row_cs rs ! ?i)"
    using i by (intro last_checksum_take_nth) simp
  with i ck have "last_checksum EMPTY_CHECKSUM (map row_cs (take (Suc ?i) rs)) = pa_checksum pa"
    by (simp add: take_map)
  with row si show "heads_ok rs (append_committed st cid pa) cid"
    by (simp add: append_committed_def heads_ok_def head_ok_def)
  have "cs_prev (map row_cs rs ! ?i) = last_checksum EMPTY_CHECKSUM (take ?i (map row_cs rs))"
    using log i by (intro linked_prev_nth [of sha]) (auto simp: log_ok_def)
  with i p have "er_prev (rs ! ?i) = pa_prev pa"
    by (simp add: pending_ok_def take_map)
  with st i ck show "told_ok rs (append_committed st cid pa) cid"
    by (auto simp: told_ok_def append_committed_def)
qed

lemma settle_ok:
  assumes log: "log_ok sha rs" and rs: "rs = rows_of es cid" and st: "heads_ok rs st cid" "told_ok rs st cid"
    and inf: "inflight_ok sha rs cid (AtSettle pa n)"
    and settle: "append_settle st es cid pa n = (st', res)"
  shows "heads_ok rs st' cid \<and> told_ok rs st' cid"
proof -
  have p: "pending_ok sha rs pa" using inf by (simp add: inflight_ok_def)
  have drop: "heads_ok rs (append_fail st cid x) cid \<and> told_ok rs (append_fail st cid x) cid"
    "heads_ok rs (onFenced st cid) cid \<and> told_ok rs (onFenced st cid) cid" for x
    using st by (auto simp: append_fail_def onFenced_def heads_ok_def told_ok_def Let_def)
  show ?thesis
  proof (cases "n = 0")
    case True
    show ?thesis
    proof (cases "event_at es cid (pa_seq pa)")
      case None
      with True settle drop show ?thesis by (auto simp: append_settle_def)
    next
      case (Some r)
      then have r: "1 \<le> pa_seq pa" "pa_seq pa \<le> int (length rs)" "r = rs ! nat (pa_seq pa - 1)"
        using log rs by (auto simp: event_at_rows_of log_ok_find split: if_splits)
      show ?thesis
      proof (cases "er_checksum r = pa_checksum pa")
        case True
        with \<open>n = 0\<close> Some settle have "st' = append_committed st cid pa" by (simp add: append_settle_def)
        with settle_committed [OF log p st(2) r(1,2)] True r(3) show ?thesis by simp
      next
        case False
        with \<open>n = 0\<close> Some settle drop show ?thesis by (auto simp: append_settle_def)
      qed
    qed
  next
    case False
    with settle have "st' = append_committed st cid pa" by (simp add: append_settle_def)
    moreover have "pa_seq pa \<le> int (length rs)" "rs ! nat (pa_seq pa - 1) = row_of_append cid pa"
      using inf False by (auto simp: inflight_ok_def)
    moreover have "1 \<le> pa_seq pa" using p by (simp add: pending_ok_def)
    ultimately show ?thesis
      using settle_committed [OF log p st(2)] by (simp add: row_of_append_def)
  qed
qed

subsection \<open>Every step keeps it\<close>

lemma store_step_world_ok [inv_intros]:
  assumes "store_step sha w w'" and ok: "world_ok sha w"
  shows "world_ok sha w'"
  using assms(1)
proof cases
  case (call_append ps p cid e)
  then show ?thesis
    using ok by (auto intro!: world_ok_set_pod pod_ok_upd_other [OF world_okD(3) [OF ok, of _ p]])
next
  case (begin_append ps p cid e q g st' pa)
  have "pod_ok sha (rows_of (w_events w) d) (ps\<lparr>ps_store := st', ps_queue := (ps_queue ps)(cid := q),
      ps_inflight := (ps_inflight ps)(cid \<mapsto> AtInsert pa)\<rparr>) d" if "d \<notin> w_ended w" for d
  proof (cases "d = cid")
    case True
    have old: "pod_ok sha (rows_of (w_events w) cid) ps cid"
      using world_okD(3) [OF ok that, of p] begin_append(2) True by simp
    with append_begin_ok [OF world_okD(1) [OF ok] _ begin_append(5)] append_begin_other [OF begin_append(5)]
    show ?thesis using True by (auto simp: pod_ok_defs)
  next
    case False
    with append_begin_other [OF begin_append(5)] show ?thesis
      by (intro pod_ok_upd_other [OF world_okD(3) [OF ok that, of p]]) (auto simp: begin_append(2))
  qed
  with begin_append(1) show ?thesis by (auto intro!: world_ok_set_pod [OF ok])
next
  case (insert ps p cid pa es' n)
  note ins = world_ok_insert [OF ok insert(3) [unfolded insert(2)] insert(4)]
  let ?w1 = "w\<lparr>w_events := es'\<rparr>"
  have "pod_ok sha (rows_of es' d) (ps\<lparr>ps_inflight := (ps_inflight ps)(cid \<mapsto> AtSettle pa n)\<rparr>) d"
    if "d \<notin> w_ended w" for d
  proof -
    have "pod_ok sha (rows_of es' d) ps d"
      using world_okD(3) [OF ins(1), of d p] that insert(2) by simp
    with ins(2) that show ?thesis by (auto simp: pod_ok_def heads_ok_def told_ok_def)
  qed
  then have "world_ok sha (set_pod ?w1 p (ps\<lparr>ps_inflight := (ps_inflight ps)(cid \<mapsto> AtSettle pa n)\<rparr>))"
    by (intro world_ok_set_pod [OF ins(1)]) simp
  with insert(1) show ?thesis by simp
next
  case (insert_unseen ps p cid pa es' n)
  then show ?thesis using world_ok_insert(1) [OF ok, of p cid pa es' n] by simp
next
  case (settle ps p cid pa n st' res)
  have "pod_ok sha (rows_of (w_events w) d) (ps\<lparr>ps_store := st', ps_inflight := (ps_inflight ps)(cid := None)\<rparr>) d"
    if "d \<notin> w_ended w" for d
  proof (cases "d = cid")
    case True
    have old: "pod_ok sha (rows_of (w_events w) cid) ps cid"
      using world_okD(3) [OF ok that, of p] settle(2) True by simp
    with settle(3) have "inflight_ok sha (rows_of (w_events w) cid) cid (AtSettle pa n)" by (simp add: pod_ok_def)
    with settle_ok [OF world_okD(1) [OF ok] refl _ _ _ settle(4)] old True show ?thesis
      by (simp add: pod_ok_def)
  next
    case False
    with settle(4) show ?thesis
      by (intro pod_ok_upd_other [OF world_okD(3) [OF ok that, of p]])
        (auto simp: settle(2) append_settle_def append_committed_def append_fail_def onFenced_def Let_def
          split: if_splits option.splits)
  qed
  with settle(1) show ?thesis by (auto intro!: world_ok_set_pod [OF ok])
next
  case (db_failure ps p cid f)
  have "pod_ok sha (rows_of (w_events w) d) (ps\<lparr>ps_store := append_fail (ps_store ps) cid DbError,
      ps_inflight := (ps_inflight ps)(cid := None)\<rparr>) d" if "d \<notin> w_ended w" for d
    using world_okD(3) [OF ok that, of p] db_failure(2)
    by (auto simp: pod_ok_def append_fail_def heads_ok_def told_ok_def)
  with db_failure(1) show ?thesis by (auto intro!: world_ok_set_pod [OF ok])
next
  case (assign cs')
  with ok show ?thesis by (auto simp: world_ok_def)
next
  case (end_conversation cid)
  with ok show ?thesis by (auto simp: world_ok_def conversation_of_filter_neq)
next
  case (remove ps p cid st' es')
  have rows: "rows_of es' d = (if d = cid then [] else rows_of (w_events w) d)" for d
    using remove(4) rows_of_filter_neq [of cid "w_events w" d] by (auto simp: removeConversation_def)
  let ?w1 = "w\<lparr>w_events := es'\<rparr>"
  have w1: "world_ok sha ?w1" using ok remove(3) rows by (auto simp: world_ok_def)
  have "pod_ok sha (rows_of es' d) (ps\<lparr>ps_store := st'\<rparr>) d" if "d \<notin> w_ended w" for d
    using world_okD(3) [OF w1, of d p] that remove(2,3,4)
    by (auto intro!: pod_ok_upd_other [of _ _ "w_pods w p"] simp: removeConversation_def)
  then have "world_ok sha (set_pod ?w1 p (ps\<lparr>ps_store := st'\<rparr>))"
    by (intro world_ok_set_pod [OF w1]) simp
  with remove(1) show ?thesis by simp
qed

lemma reachable_world_ok: "store_reachable sha w \<Longrightarrow> world_ok sha w"
  by (induction rule: store_reachable.induct) (auto intro: world_ok_init store_step_world_ok)

end
