(* ===== verification/Event_Window.thy ===== *)
theory Event_Window
  imports Event_Store
begin

text \<open>
  Windows of a log: \<^verbatim>\<open>session/eventWindow.ts\<close> (cuts on run boundaries, over an array of
  events) and what the readers of the event store return on a log that is in order.

  \<^verbatim>\<open>Array.prototype.sort\<close> is stable; it is modelled by insertion from the right, which
  gives the same result whenever the comparator is consistent. With some events stamped and
  some not, the comparator of \<^verbatim>\<open>orderByTime\<close> need not be (\<open>time_cmp_cycle\<close>), and the
  result is then the engine's choice; the lemmas are about logs whose events all carry a
  time stamp, or none.
\<close>

subsection \<open>eventWindow.ts\<close>

fun js_insert :: "('a \<Rightarrow> 'a \<Rightarrow> int) \<Rightarrow> 'a \<Rightarrow> 'a list \<Rightarrow> 'a list" where
  "js_insert cmp x [] = [x]"
| "js_insert cmp x (y # ys) = (if cmp x y \<le> 0 then x # y # ys else y # js_insert cmp x ys)"

definition js_sort :: "('a \<Rightarrow> 'a \<Rightarrow> int) \<Rightarrow> 'a list \<Rightarrow> 'a list" where
  "js_sort cmp xs = foldr (js_insert cmp) xs []"

definition time_cmp :: "agui_event \<times> nat \<Rightarrow> agui_event \<times> nat \<Rightarrow> int" where
  "time_cmp a b =
     (case (ev_ts (fst a), ev_ts (fst b)) of
        (Some ta, Some tb) \<Rightarrow> if ta \<noteq> tb then ta - tb else int (snd a) - int (snd b)
      | _ \<Rightarrow> int (snd a) - int (snd b))"

definition orderByTime :: "agui_event list \<Rightarrow> agui_event list" where
  "orderByTime events =
     (if \<not> (\<exists>e \<in> set events. ev_ts e \<noteq> None) then events
      else map fst (js_sort time_cmp (zip events [0..<length events])))"

definition tailByRuns :: "agui_event list \<Rightarrow> int \<Rightarrow> agui_event list" where
  "tailByRuns events runs =
     (if runs \<le> 0 then []
      else
        let ordered = orderByTime events;
            starts = positions is_run_started ordered
        in if int (length starts) \<le> runs
           then drop (case starts of [] \<Rightarrow> 0 | s # _ \<Rightarrow> s) ordered
           else drop (starts ! (length starts - nat runs)) ordered)"

definition runCount :: "agui_event list \<Rightarrow> nat" where
  "runCount events = foldl (\<lambda>n e. n + (if is_run_started e then 1 else 0)) 0 events"

definition splitByRuns :: "agui_event list \<Rightarrow> int \<Rightarrow> agui_event list \<times> agui_event list" where
  "splitByRuns events keepRuns =
     (let ordered = orderByTime events;
          starts = positions is_run_started ordered
      in if keepRuns \<le> 0 then (ordered, [])
         else if int (length starts) \<le> keepRuns then ([], ordered)
         else let cutp = starts ! (length starts - nat keepRuns) in (take cutp ordered, drop cutp ordered))"

subsection \<open>Ordering by time\<close>

lemma time_cmp_cycle:
  "let a = (\<lparr>ev_base = TEXT_MESSAGE_END ''a'', ev_ts = Some 2\<rparr>, 0::nat);
       b = (\<lparr>ev_base = TEXT_MESSAGE_END ''b'', ev_ts = None\<rparr>, 1);
       c = (\<lparr>ev_base = TEXT_MESSAGE_END ''c'', ev_ts = Some 1\<rparr>, 2)
   in time_cmp a b < 0 \<and> time_cmp b c < 0 \<and> time_cmp c a < 0"
  by (simp add: time_cmp_def)

definition stamped :: "agui_event list \<Rightarrow> bool" where
  "stamped events = list_all (\<lambda>e. ev_ts e \<noteq> None) events"

definition unstamped :: "agui_event list \<Rightarrow> bool" where
  "unstamped events = list_all (\<lambda>e. ev_ts e = None) events"

definition ts_key :: "agui_event \<Rightarrow> int" where
  "ts_key e = (case ev_ts e of None \<Rightarrow> 0 | Some t \<Rightarrow> t)"

lemma map_fst_js_insert:
  assumes "ev_ts e \<noteq> None" and "\<forall>(x, j) \<in> set ps. ev_ts x \<noteq> None \<and> k < j"
  shows "map fst (js_insert time_cmp (e, k) ps) = insort_key ts_key e (map fst ps)
    \<and> set (js_insert time_cmp (e, k) ps) = insert (e, k) (set ps)"
  using assms
proof (induction ps)
  case Nil
  then show ?case by simp
next
  case (Cons p ps)
  obtain x j where p: "p = (x, j)" by (cases p)
  with Cons.prems obtain te tx where "ev_ts e = Some te" "ev_ts x = Some tx" "k < j" by auto
  then have "time_cmp (e, k) p \<le> 0 \<longleftrightarrow> ts_key e \<le> ts_key x"
    by (auto simp: time_cmp_def ts_key_def p)
  with Cons p show ?case by auto
qed

lemma js_sort_stamped:
  "stamped es \<Longrightarrow>
    map fst (js_sort time_cmp (zip es [k..<k + length es])) = sort_key ts_key es
    \<and> set (js_sort time_cmp (zip es [k..<k + length es])) = set (zip es [k..<k + length es])"
proof (induction es arbitrary: k)
  case Nil
  then show ?case by (simp add: js_sort_def)
next
  case (Cons e es)
  let ?z = "zip es [Suc k..<Suc k + length es]"
  have st: "stamped es" and e: "ev_ts e \<noteq> None" using Cons.prems by (auto simp: stamped_def)
  note IH = Cons.IH [OF st, of "Suc k"]
  have zip: "zip (e # es) [k..<k + length (e # es)] = (e, k) # ?z"
    by (simp add: upt_rec)
  have "\<forall>(x, j) \<in> set ?z. ev_ts x \<noteq> None \<and> k < j"
    using st by (auto simp: stamped_def list_all_iff set_zip simp del: upt_Suc)
  then have "\<forall>(x, j) \<in> set (js_sort time_cmp ?z). ev_ts x \<noteq> None \<and> k < j"
    using conjunct2 [OF IH] by blast
  note ins = map_fst_js_insert [OF e this]
  have sort: "js_sort time_cmp ((e, k) # ?z) = js_insert time_cmp (e, k) (js_sort time_cmp ?z)"
    by (simp add: js_sort_def)
  have "map fst (js_sort time_cmp ((e, k) # ?z)) = sort_key ts_key (e # es)"
    unfolding sort using ins IH by (simp del: upt_Suc)
  moreover have "set (js_sort time_cmp ((e, k) # ?z)) = set ((e, k) # ?z)"
    unfolding sort using ins IH by (simp del: upt_Suc)
  ultimately show ?case unfolding zip by (rule conjI)
qed

lemma orderByTime_unstamped: "unstamped es \<Longrightarrow> orderByTime es = es"
  by (auto simp: orderByTime_def unstamped_def list_all_iff)

lemma orderByTime_stamped: "stamped es \<Longrightarrow> orderByTime es = sort_key ts_key es"
  using js_sort_stamped [of es 0]
  by (cases es) (auto simp: orderByTime_def stamped_def js_sort_def)

text \<open>A log already in order of its stamps is left alone.\<close>

definition in_order :: "agui_event list \<Rightarrow> bool" where
  "in_order es \<longleftrightarrow> unstamped es \<or> (stamped es \<and> sorted (map ts_key es))"

lemma orderByTime_in_order: "in_order es \<Longrightarrow> orderByTime es = es"
  by (auto simp: in_order_def orderByTime_unstamped orderByTime_stamped sort_key_id_if_sorted)

lemma runCount_length: "runCount es = length (filter is_run_started es)"
proof -
  have "foldl (\<lambda>n e. n + (if is_run_started e then 1 else 0)) k es = k + length (filter is_run_started es)" for k
    by (induction es arbitrary: k) auto
  then show ?thesis by (simp add: runCount_def)
qed

subsection \<open>Cutting on run boundaries\<close>

lemma positions_hd_marks:
  "p \<in> set (positions P xs) \<Longrightarrow> drop p xs \<noteq> [] \<and> P (hd (drop p xs))"
  by (auto simp: mem_positions hd_drop_conv_nth)

lemma cut_at_last_runs:
  assumes "0 < k" and "k \<le> length (positions P xs)"
  defines "cutp \<equiv> positions P xs ! (length (positions P xs) - k)"
  shows "length (filter P (drop cutp xs)) = k" and "drop cutp xs \<noteq> []" and "P (hd (drop cutp xs))"
proof -
  have i: "length (positions P xs) - k < length (positions P xs)" using assms(1,2) by linarith
  with assms(1,2) show "length (filter P (drop cutp xs)) = k"
    using filter_drop_positions [OF i] by (simp add: cutp_def)
  have "cutp \<in> set (positions P xs)" using i by (simp add: cutp_def)
  then show "drop cutp xs \<noteq> []" and "P (hd (drop cutp xs))"
    using positions_hd_marks by blast+
qed

lemma positions_first: "positions P xs = s # ss \<Longrightarrow> filter P (take s xs) = []"
proof (induction xs arbitrary: s ss)
  case Nil
  then show ?case by simp
next
  case (Cons x xs)
  then show ?case by (cases "positions P xs") (auto split: if_splits)
qed

subsection \<open>The readers of the store on a log in order\<close>

lemma filter_seq_ge_aux:
  "map f rs = [lo..lo + int (length rs) - 1] \<Longrightarrow> filter (\<lambda>r. b \<le> f r) rs = drop (nat (b - lo)) rs"
proof (induction rs arbitrary: lo)
  case Nil
  then show ?case by simp
next
  case (Cons r rs)
  from Cons.prems have r: "f r = lo" and rs: "map f rs = [lo + 1..(lo + 1) + int (length rs) - 1]"
    by (auto simp: upto_rec1 [of lo])
  show ?case
  proof (cases "b \<le> lo")
    case True
    with Cons.IH [OF rs] r show ?thesis by simp
  next
    case False
    then have "nat (b - lo) = Suc (nat (b - (lo + 1)))" by linarith
    with Cons.IH [OF rs] r False show ?thesis by simp
  qed
qed

lemma filter_seq_lt_aux:
  "map f rs = [lo..lo + int (length rs) - 1] \<Longrightarrow> filter (\<lambda>r. f r < b) rs = take (nat (b - lo)) rs"
proof (induction rs arbitrary: lo)
  case Nil
  then show ?case by simp
next
  case (Cons r rs)
  from Cons.prems have r: "f r = lo" and rs: "map f rs = [lo + 1..(lo + 1) + int (length rs) - 1]"
    by (auto simp: upto_rec1 [of lo])
  show ?case
  proof (cases "b \<le> lo")
    case True
    with Cons.IH [OF rs] r show ?thesis by simp
  next
    case False
    then have "nat (b - lo) = Suc (nat (b - (lo + 1)))" by linarith
    with Cons.IH [OF rs] r False show ?thesis by simp
  qed
qed

lemma log_ok_filter_ge: "log_ok sha rs \<Longrightarrow> filter (\<lambda>r. b \<le> er_seq r) rs = drop (nat (b - 1)) rs"
  using filter_seq_ge_aux [of er_seq rs 1 b] by (simp add: log_ok_def)

lemma log_ok_filter_lt: "log_ok sha rs \<Longrightarrow> filter (\<lambda>r. er_seq r < b) rs = take (nat (b - 1)) rs"
  using filter_seq_lt_aux [of er_seq rs 1 b] by (simp add: log_ok_def)

lemma sort_key_filter_sorted:
  "sorted (map f xs) \<Longrightarrow> sort_key f (filter P xs) = filter P xs"
  by (intro sort_key_id_if_sorted) (rule sorted_filter)

lemma log_ok_sorted_seq: "log_ok sha rs \<Longrightarrow> sorted (map er_seq rs)"
  by (simp add: log_ok_def)

lemma filter_conv_positions: "filter P xs = map ((!) xs) (positions P xs)"
  by (induction xs) (auto simp: o_def)

lemma positions_map: "positions P (map f xs) = positions (P \<circ> f) xs"
  by (induction xs) auto

lemma take1_drop_rev:
  "take 1 (drop n (rev xs)) = (if n < length xs then [xs ! (length xs - Suc n)] else [])"
proof (cases "n < length xs")
  case True
  then have "drop n (rev xs) = rev xs ! n # drop (Suc n) (rev xs)"
    by (simp add: Cons_nth_drop_Suc)
  with True show ?thesis by (simp add: rev_nth)
next
  case False
  then show ?thesis by simp
qed


lemma readEventsTail_log_ok:
  assumes ok: "log_ok sha (rows_of es cid)"
  defines "lg \<equiv> map er_event (rows_of es cid)"
  shows "readEventsTail es cid runs =
    (if runs \<le> 0 then []
     else if int (runCount lg) < runs then lg
     else drop (positions is_run_started lg ! (runCount lg - nat runs)) lg)"
proof (cases "runs \<le> 0")
  case True
  then show ?thesis by (simp add: readEventsTail_def)
next
  case False
  let ?rs = "rows_of es cid" and ?P = "is_run_started \<circ> er_event"
  let ?ps = "positions ?P ?rs"
  have pos: "positions is_run_started lg = ?ps" by (simp add: lg_def positions_map)
  have len: "runCount lg = length ?ps"
    by (simp add: runCount_length lg_def filter_map length_positions)
  have flt: "order_by_seq_desc (filter ?P ?rs) = rev (map ((!) ?rs) ?ps)"
    unfolding order_by_seq_desc_def
    using sort_key_filter_sorted [OF log_ok_sorted_seq [OF ok], of ?P] filter_conv_positions [of ?P ?rs]
    by simp
  have srt: "order_by_seq (filter Q ?rs) = filter Q ?rs" for Q
    unfolding order_by_seq_def by (rule sort_key_filter_sorted [OF log_ok_sorted_seq [OF ok]])
  show ?thesis
  proof (cases "int (length ?ps) < runs")
    case True
    then have "\<not> nat (runs - 1) < length ?ps" by linarith
    then have "take 1 (drop (nat (runs - 1)) (order_by_seq_desc (filter ?P ?rs))) = []"
      unfolding flt take1_drop_rev by simp
    moreover have "filter (\<lambda>r. 0 \<le> er_seq r) ?rs = ?rs"
      using log_ok_filter_ge [OF ok, of 0] by simp
    ultimately have "readEventsTail es cid runs = lg" using False
      by (simp add: readEventsTail_def lg_def log_ok_sorted [OF ok] del: drop_eq_Nil take_eq_Nil)
    with False True show ?thesis by (simp add: len)
  next
    case le: False
    let ?p = "?ps ! (length ?ps - nat runs)"
    have i: "nat (runs - 1) < length ?ps" and j: "length ?ps - Suc (nat (runs - 1)) = length ?ps - nat runs"
      using False le by linarith+
    then have k: "length ?ps - nat runs < length ?ps" by linarith
    then have p: "?p < length ?rs" using nth_mem [OF k] by (simp add: mem_positions)
    have "take 1 (drop (nat (runs - 1)) (order_by_seq_desc (filter ?P ?rs))) = [?rs ! ?p]"
      unfolding flt take1_drop_rev using i k by (simp add: j)
    moreover have "filter (\<lambda>r. er_seq (?rs ! ?p) \<le> er_seq r) ?rs = drop ?p ?rs"
      using log_ok_filter_ge [OF ok, of "er_seq (?rs ! ?p)"] log_ok_seq_nth [OF ok p] by simp
    ultimately show ?thesis using False le
      by (simp add: readEventsTail_def len srt pos) (simp add: lg_def drop_map)
  qed
qed

text \<open>One page of history, on a log: the last \<open>limit\<close> entries before \<open>beforeSeq\<close>.\<close>

lemma readEventsBefore_log_ok:
  assumes ok: "log_ok sha (rows_of es cid)" and "0 < limit" and "1 < b"
  defines "lg \<equiv> map er_event (rows_of es cid)"
  defines "m \<equiv> min (nat (b - 1)) (length lg)"
  defines "k \<equiv> m - nat limit"
  shows "readEventsBefore es cid b limit =
    \<lparr>pg_events = drop k (take m lg), pg_firstSeq = (if m = 0 then b else int k + 1), pg_done = (k = 0)\<rparr>"
proof -
  let ?rs = "rows_of es cid"
  let ?page = "drop k (take m ?rs)"
  have len: "length lg = length ?rs" by (simp add: lg_def)
  have "filter (\<lambda>r. er_seq r < b) ?rs = take (nat (b - 1)) ?rs"
    by (rule log_ok_filter_lt [OF ok])
  also have "\<dots> = take m ?rs" by (simp add: m_def len min_def)
  finally have flt: "filter (\<lambda>r. er_seq r < b) ?rs = take m ?rs" .
  have "order_by_seq_desc (filter (\<lambda>r. er_seq r < b) ?rs) = rev (filter (\<lambda>r. er_seq r < b) ?rs)"
    unfolding order_by_seq_desc_def by (simp add: sort_key_filter_sorted [OF log_ok_sorted_seq [OF ok]])
  then have rows: "rev (take (nat limit) (order_by_seq_desc (filter (\<lambda>r. er_seq r < b) ?rs))) = ?page"
    by (simp add: flt take_rev k_def m_def len)
  have m_le: "m \<le> length ?rs" by (simp add: m_def len)
  have first: "(case ?page of [] \<Rightarrow> b | r # _ \<Rightarrow> er_seq r) = (if m = 0 then b else int k + 1)"
  proof (cases "m = 0")
    case False
    then have "k < m" using assms(2) by (simp add: k_def)
    then have "?page = ?rs ! k # drop (Suc k) (take m ?rs)"
      using m_le by (simp add: Cons_nth_drop_Suc [symmetric])
    with False \<open>k < m\<close> m_le show ?thesis by (simp add: log_ok_seq_nth [OF ok])
  qed simp
  have "int (length ?page) < limit \<or> (if m = 0 then b else int k + 1) \<le> 1 \<longleftrightarrow> k = 0"
    using assms(2) m_le by (auto simp: k_def)
  then show ?thesis
    using assms(2,3) rows first
    by (simp add: readEventsBefore_def Let_def lg_def drop_map take_map)
qed

lemma page_back_log_ok:
  assumes ok: "log_ok sha (rows_of es cid)" and "0 < limit"
  shows "min (nat (b - 1)) (length (rows_of es cid)) < fuel \<Longrightarrow>
    page_back fuel es cid b limit = Some (take (nat (b - 1)) (map er_event (rows_of es cid)))"
proof (induction fuel arbitrary: b)
  case 0
  then show ?case by simp
next
  case (Suc fuel)
  show ?case
  proof (cases "1 < b")
    case False
    then show ?thesis by (simp add: readEventsBefore_def)
  next
    case True
    let ?lg = "map er_event (rows_of es cid)"
    let ?m = "min (nat (b - 1)) (length ?lg)"
    let ?k = "?m - nat limit"
    note page = readEventsBefore_log_ok [OF ok assms(2) True]
    have tk: "take ?m ?lg = take (nat (b - 1)) ?lg" by (simp add: min_def)
    show ?thesis
    proof (cases "?k = 0")
      case True
      then show ?thesis using tk by (simp add: page)
    next
      case False
      then have first: "pg_firstSeq (readEventsBefore es cid b limit) = int ?k + 1" by (simp add: page)
      have "min (nat (int ?k + 1 - 1)) (length (rows_of es cid)) < fuel"
        using Suc.prems False assms(2) by simp
      from Suc.IH [OF this] have "page_back fuel es cid (int ?k + 1) limit = Some (take ?k ?lg)" by simp
      moreover have "take ?k ?lg @ drop ?k (take ?m ?lg) = take ?m ?lg"
        using append_take_drop_id [of ?k "take ?m ?lg"] by (simp add: min_def)
      ultimately show ?thesis using False tk first by (simp add: page)
    qed
  qed
qed

lemma find_index_dropWhile:
  "(case find_index P xs of None \<Rightarrow> [] | Some i \<Rightarrow> drop i xs) = dropWhile (\<lambda>x. \<not> P x) xs"
proof (induction xs)
  case Nil
  then show ?case by simp
next
  case (Cons x xs)
  then show ?case by (cases "find_index P xs") (auto simp del: find_index_None)
qed

lemma trimToBoundary_dropWhile: "trimToBoundary es = dropWhile (\<lambda>e. \<not> opens_message e) es"
  unfolding trimToBoundary_def find_index_dropWhile [symmetric]
  by (cases "find_index opens_message es") (simp_all del: find_index_None)

subsection \<open>Backfill\<close>

definition line_events :: "(string \<Rightarrow> agui_event option) \<Rightarrow> string list \<Rightarrow> agui_event list" where
  "line_events parse lines = map (the \<circ> parse) (filter (\<lambda>l. trim l \<noteq> []) lines)"

lemma backfill_loop_ok:
  "log_ok sha (rows_of es cid) \<Longrightarrow> seq = int (length (rows_of es cid)) \<Longrightarrow>
   checksum = last_checksum EMPTY_CHECKSUM (map row_cs (rows_of es cid)) \<Longrightarrow>
   \<forall>l \<in> set lines. trim l \<noteq> [] \<longrightarrow> parse l \<noteq> None \<Longrightarrow>
   \<exists>es' seq' cs'. backfill_loop sha parse es cid checksum seq lines = Inr (es', seq', cs')
     \<and> log_ok sha (rows_of es' cid)
     \<and> map er_event (rows_of es' cid) = map er_event (rows_of es cid) @ line_events parse lines
     \<and> seq' = int (length (rows_of es' cid))
     \<and> cs' = last_checksum EMPTY_CHECKSUM (map row_cs (rows_of es' cid))
     \<and> (\<forall>other. other \<noteq> cid \<longrightarrow> rows_of es' other = rows_of es other)"
proof (induction lines arbitrary: es checksum seq)
  case Nil
  then show ?case by (simp add: line_events_def)
next
  case (Cons l lines)
  show ?case
  proof (cases "trim l = []")
    case True
    have "\<forall>l \<in> set lines. trim l \<noteq> [] \<longrightarrow> parse l \<noteq> None" using Cons.prems(4) by simp
    from Cons.IH [OF Cons.prems(1-3) this] True show ?thesis by (simp add: line_events_def)
  next
    case False
    then obtain e where e: "parse l = Some e" using Cons.prems(4) by auto
    let ?r = "\<lparr>er_conversation = cid, er_seq = seq + 1, er_event = e,
               er_checksum = chainNext sha checksum e, er_prev = checksum\<rparr>"
    let ?es = "es @ [?r]"
    have free: "event_at es cid (seq + 1) = None"
      using log_ok_find [OF Cons.prems(1)] Cons.prems(2) by (simp add: event_at_rows_of)
    have rows: "rows_of ?es cid = rows_of es cid @ [?r]" by (simp add: rows_of_def)
    have ok: "log_ok sha (rows_of ?es cid)"
      unfolding rows using Cons.prems(1-3) by (intro log_ok_snoc) simp_all
    have seq: "seq + 1 = int (length (rows_of ?es cid))" unfolding rows using Cons.prems(2) by simp
    have cs: "chainNext sha checksum e = last_checksum EMPTY_CHECKSUM (map row_cs (rows_of ?es cid))"
      unfolding rows by simp
    have all: "\<forall>l \<in> set lines. trim l \<noteq> [] \<longrightarrow> parse l \<noteq> None" using Cons.prems(4) by simp
    have step: "backfill_loop sha parse es cid checksum seq (l # lines)
        = backfill_loop sha parse ?es cid (chainNext sha checksum e) (seq + 1) lines"
      using False e free by (simp add: Let_def)
    have le: "line_events parse (l # lines) = e # line_events parse lines"
      using False e by (simp add: line_events_def)
    have oth: "rows_of ?es other = rows_of es other" if "other \<noteq> cid" for other
      using that by (simp add: rows_of_def)
    from Cons.IH [OF ok seq cs all] show ?thesis
      unfolding step le using rows oth by auto
  qed
qed


subsection \<open>Properties\<close>

definition demo_rows :: conversation_events where
  "demo_rows =
     (let e1 = ev (RUN_STARTED ''t'' ''r1'' None None); e2 = ev (TEXT_MESSAGE_END ''m'');
          e3 = ev (RUN_STARTED ''t'' ''r2'' None None);
          c1 = chainNext trim EMPTY_CHECKSUM e1; c2 = chainNext trim c1 e2; c3 = chainNext trim c2 e3
      in [\<lparr>er_conversation = ''c'', er_seq = 1, er_event = e1, er_checksum = c1, er_prev = EMPTY_CHECKSUM\<rparr>,
          \<lparr>er_conversation = ''c'', er_seq = 2, er_event = e2, er_checksum = c2, er_prev = c1\<rparr>,
          \<lparr>er_conversation = ''c'', er_seq = 3, er_event = e3, er_checksum = c3, er_prev = c2\<rparr>])"

lemma demo_rows_simps:
  "rows_of demo_rows ''c'' = demo_rows" "log_ok trim demo_rows"
  "map er_event demo_rows =
    [ev (RUN_STARTED ''t'' ''r1'' None None), ev (TEXT_MESSAGE_END ''m''), ev (RUN_STARTED ''t'' ''r2'' None None)]"
  by (simp_all add: demo_rows_def rows_of_def log_ok_def row_cs_def Let_def upto.simps)

text \<open>
  The tail of a log by runs, read with one boundary query: it is a suffix of
  the log; when the log has at least the runs asked for it begins with a \<^verbatim>\<open>RUN_STARTED\<close> and
  holds exactly that many, so no message of the window is cut; otherwise it is the whole log.
\<close>

theorem readEventsTail_window:
  assumes "log_ok sha (rows_of es cid)" and "0 < runs"
  shows "\<exists>pre. readEvents es cid = pre @ readEventsTail es cid runs
    \<and> (if runs \<le> int (runCount (readEvents es cid))
       then readEventsTail es cid runs \<noteq> [] \<and> is_run_started (hd (readEventsTail es cid runs))
         \<and> int (runCount (readEventsTail es cid runs)) = runs
       else pre = [])"
proof -
  let ?lg = "readEvents es cid"
  have lg: "?lg = map er_event (rows_of es cid)" by (rule readEvents_log_ok [OF assms(1)])
  note tail = readEventsTail_log_ok [OF assms(1), of runs, folded lg]
  show ?thesis
  proof (cases "runs \<le> int (runCount ?lg)")
    case False
    with tail assms(2) show ?thesis by simp
  next
    case True
    let ?cut = "positions is_run_started ?lg ! (runCount ?lg - nat runs)"
    have len: "runCount ?lg = length (positions is_run_started ?lg)"
      by (simp add: runCount_length length_positions)
    from True assms(2) have t: "readEventsTail es cid runs = drop ?cut ?lg" using tail by simp
    have "0 < nat runs" "nat runs \<le> length (positions is_run_started ?lg)"
      using True assms(2) len by linarith+
    from cut_at_last_runs [OF this] have "length (filter is_run_started (drop ?cut ?lg)) = nat runs"
      "drop ?cut ?lg \<noteq> []" "is_run_started (hd (drop ?cut ?lg))" by (simp_all add: len)
    moreover have "?lg = take ?cut ?lg @ drop ?cut ?lg" by simp
    ultimately show ?thesis using True assms(2) unfolding t by (metis runCount_length int_nat_eq less_le_not_le)
  qed
qed

theorem readEventsTail_window_witness:
  "readEventsTail demo_rows ''c'' 1 = [ev (RUN_STARTED ''t'' ''r2'' None None)]
   \<and> is_run_started (hd (readEventsTail demo_rows ''c'' 1))"
  using readEventsTail_window [of trim demo_rows "''c''" 1] readEvents_log_ok [of trim demo_rows "''c''"]
    readEventsTail_log_ok [of trim demo_rows "''c''" 1]
  by (auto simp: demo_rows_simps runCount_def is_run_started_def)

text \<open>
  The window the store computes in SQL is the window \<^verbatim>\<open>tailByRuns\<close>
  computes over the whole array, for every log that is in time order and has the runs asked for.
\<close>

theorem readEventsTail_is_tailByRuns:
  assumes "log_ok sha (rows_of es cid)" and "in_order (readEvents es cid)"
    and "runs \<le> int (runCount (readEvents es cid))"
  shows "readEventsTail es cid runs = tailByRuns (readEvents es cid) runs"
proof -
  let ?lg = "readEvents es cid"
  have lg: "?lg = map er_event (rows_of es cid)" by (rule readEvents_log_ok [OF assms(1)])
  have len: "runCount ?lg = length (positions is_run_started ?lg)"
    by (simp add: runCount_length length_positions)
  have "runs = int (runCount ?lg) \<Longrightarrow> 0 < runs \<Longrightarrow>
      (case positions is_run_started ?lg of [] \<Rightarrow> 0 | s # _ \<Rightarrow> s) = positions is_run_started ?lg ! 0"
    using len by (cases "positions is_run_started ?lg") auto
  with readEventsTail_log_ok [OF assms(1), of runs, folded lg] assms(3) show ?thesis
    by (auto simp: tailByRuns_def orderByTime_in_order [OF assms(2)] len Let_def)
qed

theorem readEventsTail_is_tailByRuns_witness:
  "readEventsTail demo_rows ''c'' 2 = tailByRuns (map er_event demo_rows) 2"
  using readEventsTail_is_tailByRuns [of trim demo_rows "''c''" 2] readEvents_log_ok [of trim demo_rows "''c''"]
  by (auto simp: demo_rows_simps in_order_def unstamped_def runCount_def is_run_started_def)

text \<open>
  C14 (roundtrip, termination). Paging backwards through a conversation from any cursor, with any
  positive page size, ends, and the pages put together are exactly the log before the cursor: no
  event is lost or repeated at a page boundary.
\<close>

theorem paging_recovers_log:
  assumes "log_ok sha (rows_of es cid)" and "0 < limit"
  shows "\<exists>fuel. page_back fuel es cid beforeSeq limit = Some (take (nat (beforeSeq - 1)) (readEvents es cid))"
proof
  show "page_back (Suc (length (rows_of es cid))) es cid beforeSeq limit
      = Some (take (nat (beforeSeq - 1)) (readEvents es cid))"
    unfolding readEvents_log_ok [OF assms(1)] by (rule page_back_log_ok [OF assms]) simp
qed

theorem paging_recovers_log_witness:
  "\<exists>fuel. page_back fuel demo_rows ''c'' 4 2 = Some (map er_event demo_rows)"
  using paging_recovers_log [of trim demo_rows "''c''" 2 4] readEvents_log_ok [of trim demo_rows "''c''"]
  by (simp add: demo_rows_simps)

text \<open>
  Backfilling a conversation's file into an empty log: blank lines are skipped,
  every other line becomes one row in order, and the checksum returned is the checksum of the
  whole log, so a reader of the rows verifies it.
\<close>

theorem backfill_roundtrip:
  assumes "rows_of es cid = []" and "\<forall>l \<in> set lines. trim l \<noteq> [] \<longrightarrow> parse l \<noteq> None"
  shows "\<exists>es'. backfillConversation sha parse es cid lines
      = Inr (es', int (length (line_events parse lines)), chainAll sha EMPTY_CHECKSUM (line_events parse lines))
    \<and> readEvents es' cid = line_events parse lines
    \<and> linked sha EMPTY_CHECKSUM (readEventsWithChecksum es' cid)
    \<and> (\<forall>other. other \<noteq> cid \<longrightarrow> readEvents es' other = readEvents es other)"
proof -
  obtain es' seq' cs' where b: "backfill_loop sha parse es cid EMPTY_CHECKSUM 0 lines = Inr (es', seq', cs')"
    and ok: "log_ok sha (rows_of es' cid)" and evs: "map er_event (rows_of es' cid) = line_events parse lines"
    and seq: "seq' = int (length (rows_of es' cid))"
    and cs: "cs' = last_checksum EMPTY_CHECKSUM (map row_cs (rows_of es' cid))"
    and oth: "\<forall>other. other \<noteq> cid \<longrightarrow> rows_of es' other = rows_of es other"
    using backfill_loop_ok [of sha es cid 0 EMPTY_CHECKSUM lines parse] assms by auto
  from ok have l: "linked sha EMPTY_CHECKSUM (map row_cs (rows_of es' cid))" by (simp add: log_ok_def)
  from linked_last_checksum [OF l] evs have "cs' = chainAll sha EMPTY_CHECKSUM (line_events parse lines)"
    by (simp add: cs o_def)
  moreover from evs have "seq' = int (length (line_events parse lines))" by (simp add: seq flip: evs)
  moreover have "linked sha EMPTY_CHECKSUM (readEventsWithChecksum es' cid)"
    using l by (simp add: readEventsWithChecksum_def log_ok_sorted [OF ok])
  ultimately show ?thesis
    using b evs oth readEvents_log_ok [OF ok]
    by (auto simp: backfillConversation_def readEvents_def readEventsWithChecksum_def)
qed

theorem backfill_roundtrip_witness:
  "\<exists>es'. backfillConversation trim (\<lambda>l. Some (ev (TEXT_MESSAGE_END l))) [] ''c'' [''x'', '' '', ''y'']
      = Inr (es', 2, chainAll trim EMPTY_CHECKSUM [ev (TEXT_MESSAGE_END ''x''), ev (TEXT_MESSAGE_END ''y'')])"
  using backfill_roundtrip [of "[]" "''c''" "[''x'', '' '', ''y'']" "\<lambda>l. Some (ev (TEXT_MESSAGE_END l))" trim]
  by (auto simp: rows_of_def line_events_def trim_def trim_end_def js_space_def)

end
