(* ===== verification/Event_Log.thy ===== *)
theory Event_Log
  imports Event_Store_Steps Event_Window
begin

text \<open>
  What the rest of the host relies on of the conversation event log, as an interface: an append
  puts the event at the end of what a read returns. The interface is discharged for the PostgreSQL store of a pod
  that holds the conversation; compaction is a client of it. The second half holds the
  properties of the log: its integrity under any interleaving of pods, the fence, retried
  statements, and the windows the readers return.
\<close>

subsection \<open>The interface\<close>

locale event_log =
  fixes append :: "'s \<Rightarrow> 'e \<Rightarrow> 's"
    and read :: "'s \<Rightarrow> 'e list"
    and usable :: "'s \<Rightarrow> bool"
  assumes usable_append: "usable s \<Longrightarrow> usable (append s e)"
    and read_append: "usable s \<Longrightarrow> read (append s e) = read s @ [e]"
begin

lemma appends: "usable s \<Longrightarrow> usable (foldl append s es) \<and> read (foldl append s es) = read s @ es"
proof (induction es arbitrary: s)
  case Nil
  then show ?case by simp
next
  case (Cons e es)
  have "usable (append s e)" using Cons.prems by (rule usable_append)
  from Cons.IH [OF this] show ?case using Cons.prems by (simp add: read_append)
qed

lemma append_only: "usable s \<Longrightarrow> take (length (read s)) (read (foldl append s es)) = read s"
  by (simp add: appends)

end

definition pg_append ::
  "(string \<Rightarrow> string) \<Rightarrow> append_fence option \<Rightarrow> conversations \<Rightarrow> session_id
    \<Rightarrow> event_store \<times> conversation_events \<Rightarrow> agui_event \<Rightarrow> event_store \<times> conversation_events" where
  "pg_append sha fence cs cid s e =
     (case appendEvent sha fence (fst s) cs (snd s) cid e of (st, es, _) \<Rightarrow> (st, es))"

definition pg_usable ::
  "(string \<Rightarrow> string) \<Rightarrow> append_fence option \<Rightarrow> conversations \<Rightarrow> session_id
    \<Rightarrow> event_store \<times> conversation_events \<Rightarrow> bool" where
  "pg_usable sha fence cs cid s \<longleftrightarrow>
     log_ok sha (rows_of (snd s) cid) \<and> head_current (rows_of (snd s) cid) (fst s) cid
     \<and> fenceClause fence cs cid (Option.bind fence (\<lambda>f. fence_generation f cid))"

lemma pg_append_usable:
  assumes "pg_usable sha fence cs cid s"
  shows "pg_usable sha fence cs cid (pg_append sha fence cs cid s e)
    \<and> readEvents (snd (pg_append sha fence cs cid s e)) cid = readEvents (snd s) cid @ [e]"
proof -
  have ok: "log_ok sha (rows_of (snd s) cid)" and cur: "head_current (rows_of (snd s) cid) (fst s) cid"
    and f: "fenceClause fence cs cid (Option.bind fence (\<lambda>f. fence_generation f cid))"
    using assms by (auto simp: pg_usable_def)
  obtain st' es' r where "appendEvent sha fence (fst s) cs (snd s) cid e = (st', es', Appended)"
    and "rows_of es' cid = rows_of (snd s) cid @ [r]" and "er_event r = e"
    and "log_ok sha (rows_of es' cid)" and "head_current (rows_of es' cid) st' cid"
    by (rule appendEvent_owner [OF ok cur f])
  then show ?thesis
    using ok f readEvents_log_ok [of sha es' cid] readEvents_log_ok [OF ok]
    by (simp add: pg_append_def pg_usable_def)
qed

interpretation pg: event_log "pg_append sha fence cs cid" "\<lambda>s. readEvents (snd s) cid" "pg_usable sha fence cs cid"
  for sha fence cs cid
  by unfold_locales (simp_all add: pg_append_usable)

lemma appendAll_foldl:
  "appendAll sha fence st cs es cid events = foldl (pg_append sha fence cs cid) (st, es) events"
proof (induction events arbitrary: st es)
  case Nil
  then show ?case by simp
next
  case (Cons e events)
  then show ?case by (simp add: pg_append_def split: prod.splits)
qed

subsection \<open>A small world\<close>

text \<open>Two pods and a conversation, for the examples: \<open>demo_sha\<close> stands for the hash.\<close>

definition demo_row :: "string option \<Rightarrow> int \<Rightarrow> conversation_row" where
  "demo_row pod gen =
     \<lparr>cr_id = ''c1'', cr_model = None, cr_owner = Some ''ann'', cr_parentId = None, cr_sandboxRef = None,
      cr_creatorPod = Some ''a'', cr_phase = None, cr_hostPod = pod, cr_hostGeneration = gen, cr_visibility = ''private''\<rparr>"

definition demo_sha :: "string \<Rightarrow> string" where
  "demo_sha s = show_nat (length s)"

definition demo_pa :: pending_append where
  "demo_pa = \<lparr>pa_event = ev (RUN_STARTED ''t'' ''r1'' None None), pa_prev = EMPTY_CHECKSUM, pa_seq = 1,
          pa_checksum = chainNext demo_sha EMPTY_CHECKSUM (ev (RUN_STARTED ''t'' ''r1'' None None)), pa_presented = Some 1\<rparr>"

definition demo_w0 :: world where
  "demo_w0 = init_world [demo_row (Some ''a'') 1]"

definition demo_w1 :: world where
  "demo_w1 = set_pod demo_w0 ''a'' (init_pod\<lparr>ps_queue := (\<lambda>_. [])(''c1'' := [pa_event demo_pa])\<rparr>)"

definition demo_w2 :: world where
  "demo_w2 = set_pod demo_w1 ''a'' (init_pod\<lparr>ps_store := createPgEventStore\<lparr>es_heads := [''c1'' \<mapsto> (0, EMPTY_CHECKSUM)]\<rparr>,
      ps_queue := (\<lambda>_. [])(''c1'' := []), ps_inflight := [''c1'' \<mapsto> AtInsert demo_pa]\<rparr>)"

definition demo_w3 :: world where
  "demo_w3 = set_pod (demo_w2\<lparr>w_events := [row_of_append ''c1'' demo_pa]\<rparr>) ''a''
     ((w_pods demo_w2 ''a'')\<lparr>ps_inflight := [''c1'' \<mapsto> AtSettle demo_pa 1]\<rparr>)"

lemma demo_w0_w1: "store_step demo_sha demo_w0 demo_w1"
  using store_step.call_append [of "w_pods demo_w0 ''a''" demo_w0 "''a''" demo_sha "''c1''" "pa_event demo_pa"]
  by (simp add: demo_w1_def demo_w0_def init_world_def init_pod_def)

lemma demo_w1_w2: "store_step demo_sha demo_w1 demo_w2"
proof -
  have "append_begin demo_sha (ps_store (w_pods demo_w1 ''a'')) (w_events demo_w1) ''c1'' (pa_event demo_pa) (Some 1)
      = (createPgEventStore\<lparr>es_heads := [''c1'' \<mapsto> (0, EMPTY_CHECKSUM)]\<rparr>, demo_pa)"
    by (simp add: append_begin_def head_def demo_w1_def demo_w0_def init_world_def init_pod_def createPgEventStore_def
        order_by_seq_desc_def rows_of_def demo_pa_def Let_def)
  from store_step.begin_append [OF refl _ _ this, of "[]"] show ?thesis
    by (simp add: demo_w2_def demo_w1_def demo_w0_def init_world_def init_pod_def)
qed

lemma demo_w2_w3: "store_step demo_sha demo_w2 demo_w3"
proof -
  have "insert_stmt (pod_fence ''a'') (w_conversations demo_w2) (w_events demo_w2) ''c1'' demo_pa = ([row_of_append ''c1'' demo_pa], 1)"
    by (simp add: insert_stmt_def fenceClause_def pod_fence_def conversation_of_def demo_row_def demo_pa_def event_at_def
        demo_w2_def demo_w1_def demo_w0_def init_world_def)
  from store_step.insert [OF refl _ this] show ?thesis
    by (simp add: demo_w3_def demo_w2_def)
qed

lemma demo_w3_reachable: "store_reachable demo_sha demo_w3"
  using demo_w0_w1 demo_w1_w2 demo_w2_w3 by (metis store_reachable.intros demo_w0_def)

lemma demo_w3_log: "rows_of (w_events demo_w3) ''c1'' = [row_of_append ''c1'' demo_pa]" "w_ended demo_w3 = {}"
  by (simp_all add: demo_w3_def rows_of_def row_of_append_def demo_w2_def demo_w1_def demo_w0_def init_world_def)


definition demo_w4 :: world where
  "demo_w4 = set_pod demo_w3 ''a''
     ((w_pods demo_w3 ''a'')\<lparr>ps_store := append_committed (ps_store (w_pods demo_w3 ''a'')) ''c1'' demo_pa,
       ps_inflight := (ps_inflight (w_pods demo_w3 ''a''))(''c1'' := None)\<rparr>)"

lemma demo_w4_reachable: "store_reachable demo_sha demo_w4"
proof -
  have "append_settle (ps_store (w_pods demo_w3 ''a'')) (w_events demo_w3) ''c1'' demo_pa 1
      = (append_committed (ps_store (w_pods demo_w3 ''a'')) ''c1'' demo_pa, Appended)"
    by (simp add: append_settle_def)
  from store_step.settle [OF refl _ this] have "store_step demo_sha demo_w3 demo_w4"
    by (simp add: demo_w4_def demo_w3_def)
  with demo_w3_reachable show ?thesis by (rule store_reachable.step)
qed

subsection \<open>Integrity of the log under concurrent pods\<close>

text \<open>
  C1 (invariant). Whatever the pods do and in whatever order, including lost replies, failed
  statements, reassignments and ended conversations, the rows of every conversation are
  numbered 1, 2, 3, ... without a gap or a duplicate, in the order they were committed, and every
  row's checksum is the hash of the row before it and its own event: what a client reads is one
  unbroken chain that ends on the checksum of the whole log.
\<close>

theorem concurrent_log_integrity:
  assumes "store_reachable sha w"
  shows "map er_seq (rows_of (w_events w) cid) = [1..int (length (rows_of (w_events w) cid))]
    \<and> linked sha EMPTY_CHECKSUM (readEventsWithChecksum (w_events w) cid)
    \<and> last_checksum EMPTY_CHECKSUM (readEventsWithChecksum (w_events w) cid)
       = chainAll sha EMPTY_CHECKSUM (readEvents (w_events w) cid)"
proof -
  have ok: "log_ok sha (rows_of (w_events w) cid)"
    by (rule world_okD(1) [OF reachable_world_ok [OF assms]])
  then have l: "linked sha EMPTY_CHECKSUM (readEventsWithChecksum (w_events w) cid)"
    by (simp add: readEventsWithChecksum_def log_ok_sorted) (simp add: log_ok_def)
  with ok linked_last_checksum [OF l] show ?thesis
    by (simp add: readEvents_def) (simp add: log_ok_def)
qed

theorem concurrent_log_integrity_witness:
  "linked demo_sha EMPTY_CHECKSUM (readEventsWithChecksum (w_events demo_w3) ''c1'')
   \<and> length (rows_of (w_events demo_w3) ''c1'') = 1"
  using concurrent_log_integrity [OF demo_w3_reachable, of "''c1''"] by (simp add: demo_w3_log)

text \<open>
  C32 (safety). A listener on any pod is only ever told of entries that are in the log: each
  entry a pod announced for a conversation that has not ended links to the same checksum and
  carries the same checksum as a row of the table.
\<close>

theorem listeners_told_committed:
  assumes "store_reachable sha w" and "cid \<notin> w_ended w"
    and "(cid, c) \<in> set (es_appended (ps_store (w_pods w p)))"
  shows "\<exists>r \<in> set (rows_of (w_events w) cid). er_prev r = cs_prev c \<and> er_checksum r = cs_checksum c"
  using world_okD(3) [OF reachable_world_ok [OF assms(1)] assms(2), of p] assms(3)
  by (auto simp: pod_ok_def told_ok_def)

theorem listeners_told_committed_witness:
  "\<exists>r \<in> set (rows_of (w_events demo_w4) ''c1''). er_prev r = EMPTY_CHECKSUM \<and> er_checksum r = pa_checksum demo_pa"
proof -
  let ?c = "Checksummed (pa_event demo_pa) (pa_prev demo_pa) (pa_checksum demo_pa)"
  have "(''c1'', ?c) \<in> set (es_appended (ps_store (w_pods demo_w4 ''a'')))"
    by (simp add: demo_w4_def append_committed_def)
  moreover have "''c1'' \<notin> w_ended demo_w4" using demo_w3_log(2) by (simp add: demo_w4_def)
  ultimately show ?thesis
    using listeners_told_committed [OF demo_w4_reachable, of "''c1''" ?c "''a''"] by (simp add: demo_pa_def)
qed

text \<open>
  C3 (safety). Only the pod a conversation is assigned to can extend its log: a step that makes
  the log longer is the statement of a pod that the conversation's row names as its host, at the
  generation the pod presented if it presented one, and it adds exactly that pod's one event.
\<close>

theorem only_assigned_pod_appends:
  assumes "store_step sha w w'"
    and "length (rows_of (w_events w) cid) < length (rows_of (w_events w') cid)"
  shows "\<exists>p pa row. ps_inflight (w_pods w p) cid = Some (AtInsert pa)
    \<and> rows_of (w_events w') cid = rows_of (w_events w) cid @ [row_of_append cid pa]
    \<and> conversation_of (w_conversations w) cid = Some row \<and> cr_hostPod row = Some p
    \<and> (\<forall>g. pa_presented pa = Some g \<longrightarrow> cr_hostGeneration row = g)"
proof -
  have stmt: ?thesis
    if inf: "ps_inflight (w_pods w p) d = Some (AtInsert pa)" and es: "w_events w' = es'"
      and ins: "insert_stmt (pod_fence p) (w_conversations w) (w_events w) d pa = (es', n)" for p d pa es' n
  proof -
    have f: "fenceClause (pod_fence p) (w_conversations w) d (pa_presented pa)"
      and es': "es' = w_events w @ [row_of_append d pa]"
      using ins assms(2) es by (auto simp: insert_stmt_def split: if_splits)
    have rows: "rows_of es' cid = rows_of (w_events w) cid @ (if cid = d then [row_of_append d pa] else [])"
      unfolding es' by simp
    from rows assms(2) es have "cid = d" by (auto split: if_splits)
    with f inf rows es show ?thesis
      by (auto simp: fenceClause_def pod_fence_def split: option.splits)
  qed
  from assms(1) show ?thesis
  proof cases
    case (remove ps p c st' es')
    with assms(2) show ?thesis
      by (auto simp: removeConversation_def rows_of_filter_neq split: if_splits)
  qed (use assms(2) stmt in auto)
qed

theorem only_assigned_pod_appends_witness:
  "\<exists>p pa row. ps_inflight (w_pods demo_w2 p) ''c1'' = Some (AtInsert pa)
    \<and> conversation_of (w_conversations demo_w2) ''c1'' = Some row \<and> cr_hostPod row = Some p"
  using only_assigned_pod_appends [OF demo_w2_w3, of "''c1''"] demo_w3_log(1)
  by (force simp: demo_w2_def demo_w1_def demo_w0_def init_world_def rows_of_def)

subsection \<open>The branches of an append\<close>

text \<open>
  A pod that holds the conversation and is its only writer: what it appends
  is what a reader then reads, in order, after what was there.
\<close>

theorem append_then_read:
  assumes "log_ok sha (rows_of es cid)" and "head_current (rows_of es cid) st cid"
    and "fenceClause fence cs cid (Option.bind fence (\<lambda>f. fence_generation f cid))"
  shows "readEvents (snd (appendAll sha fence st cs es cid events)) cid = readEvents es cid @ events"
  using pg.appends [of sha fence cs cid "(st, es)" events] assms
  by (simp add: appendAll_foldl pg_usable_def)

theorem append_then_read_witness:
  "readEvents (snd (appendAll demo_sha None createPgEventStore [] [] ''c1''
      [ev (TEXT_MESSAGE_END ''a''), ev (TEXT_MESSAGE_END ''b'')])) ''c1''
   = [ev (TEXT_MESSAGE_END ''a''), ev (TEXT_MESSAGE_END ''b'')]"
  using append_then_read [of demo_sha "[]" "''c1''" createPgEventStore None "[]"
      "[ev (TEXT_MESSAGE_END ''a''), ev (TEXT_MESSAGE_END ''b'')]"]
  by (simp add: rows_of_def head_current_def createPgEventStore_def fenceClause_def readEvents_def
      readEventsWithChecksum_def order_by_seq_def)

text \<open>
  A statement whose reply was lost and that is sent again commits once: the
  second one changes nothing, whoever holds the conversation by then, and it is settled as
  appended because the row carries the append's own checksum.
\<close>

theorem retried_append_commits_once:
  assumes "insert_stmt fence cs es cid p = (es', 1)"
  shows "insert_stmt fence cs' es' cid p = (es', 0)
    \<and> append_settle st es' cid p 0 = (append_committed st cid p, Appended)"
proof -
  have free: "event_at es cid (pa_seq p) = None" and es': "es' = es @ [row_of_append cid p]"
    using assms by (auto simp: insert_stmt_def split: if_splits)
  from free have "event_at es' cid (pa_seq p) = Some (row_of_append cid p)"
    unfolding es' event_at_def by (induction es) (auto simp: row_of_append_def split: if_splits)
  then show ?thesis by (simp add: insert_stmt_def append_settle_def row_of_append_def)
qed

theorem retried_append_commits_once_witness:
  "append_settle createPgEventStore [row_of_append ''c1'' demo_pa] ''c1'' demo_pa 0
   = (append_committed createPgEventStore ''c1'' demo_pa, Appended)"
  using retried_append_commits_once [of None "[]" "[]" "''c1''" demo_pa "[row_of_append ''c1'' demo_pa]" "[]" createPgEventStore]
  by (simp add: insert_stmt_def fenceClause_def event_at_def)

text \<open>
  C33 (error). An append the fence refuses, whatever head the pod has cached: the log is untouched, and
  what follows depends on the number the append was given. Where no row has it, the pod is told that
  it was fenced, no listener hears of the event and the cached head is dropped; so it is whenever
  the head is current. Where the head is stale and another event has the number, the append is
  rejected as a second writer instead, again without a word to the listeners and with the head
  dropped, but the fencing is not reported. Where the row is this very append, committed before, it is announced.
\<close>

theorem fenced_append_refused:
  assumes "\<not> fenceClause fence cs cid (Option.bind fence (\<lambda>f. fence_generation f cid))"
    and "append_begin sha st es cid e (Option.bind fence (\<lambda>f. fence_generation f cid)) = (st1, p)"
  shows "(\<exists>st' res. appendEvent sha fence st cs es cid e = (st', es, res)
      \<and> (case event_at es cid (pa_seq p) of
           None \<Rightarrow> res = Refused \<and> es_fenced st' = es_fenced st @ [cid] \<and> es_appended st' = es_appended st \<and> es_heads st' cid = None
         | Some r \<Rightarrow>
             es_fenced st' = es_fenced st
             \<and> (if er_checksum r = pa_checksum p
                then res = Appended \<and> es_appended st' = es_appended st @ [(cid, Checksummed e (pa_prev p) (er_checksum r))]
                else res = Rejected (SecondWriter (pa_seq p)) \<and> es_appended st' = es_appended st \<and> es_heads st' cid = None)))
    \<and> (log_ok sha (rows_of es cid) \<and> head_current (rows_of es cid) st cid \<longrightarrow> event_at es cid (pa_seq p) = None)"
proof -
  let ?g = "Option.bind fence (\<lambda>f. fence_generation f cid)"
  have p: "pa_presented p = ?g" "pa_event p = e" using assms(2) by (auto simp: append_begin_def split: prod.splits)
  have ins: "insert_stmt fence cs es cid p = (es, 0)" using assms(1) p(1) by (simp add: insert_stmt_def)
  have run: "appendEvent sha fence st cs es cid e = (fst (append_settle st1 es cid p 0), es, snd (append_settle st1 es cid p 0))"
    by (simp add: appendEvent_def assms(2) ins split_beta)
  have free: "event_at es cid (pa_seq p) = None" if "log_ok sha (rows_of es cid)" "head_current (rows_of es cid) st cid"
  proof -
    have "pa_seq p = int (length (rows_of es cid)) + 1" using append_begin_current [OF that, of e ?g] assms(2) by auto
    then show ?thesis using log_ok_find [OF that(1)] by (simp add: event_at_rows_of)
  qed
  show ?thesis
    using append_begin_other [OF assms(2)] run free
    by (auto simp: append_settle_def onFenced_def append_committed_def append_fail_def Let_def p split: option.split)
qed

theorem fenced_append_refused_witness:
  "(\<exists>st'. appendEvent demo_sha (pod_fence ''b'') createPgEventStore [demo_row (Some ''a'') 1] [] ''c1'' (pa_event demo_pa)
      = (st', [], Refused) \<and> es_fenced st' = [''c1''])
   \<and> (\<exists>st'. appendEvent demo_sha (pod_fence ''b'') (createPgEventStore\<lparr>es_heads := [''c1'' \<mapsto> (0, ''stale'')]\<rparr>) [demo_row (Some ''a'') 1]
        [row_of_append ''c1'' demo_pa] ''c1'' (ev (TEXT_MESSAGE_END ''a''))
      = (st', [row_of_append ''c1'' demo_pa], Rejected (SecondWriter 1)) \<and> es_fenced st' = [])"
proof
  have f: "\<not> fenceClause (pod_fence ''b'') [demo_row (Some ''a'') 1] ''c1'' (Option.bind (pod_fence ''b'') (\<lambda>f. fence_generation f ''c1''))"
    by (simp add: fenceClause_def pod_fence_def conversation_of_def demo_row_def)
  obtain st1 p where b: "append_begin demo_sha createPgEventStore [] ''c1'' (pa_event demo_pa)
      (Option.bind (pod_fence ''b'') (\<lambda>f. fence_generation f ''c1'')) = (st1, p)" by fastforce
  show "\<exists>st'. appendEvent demo_sha (pod_fence ''b'') createPgEventStore [demo_row (Some ''a'') 1] [] ''c1'' (pa_event demo_pa)
      = (st', [], Refused) \<and> es_fenced st' = [''c1'']"
    using fenced_append_refused [OF f b] by (auto simp: event_at_def createPgEventStore_def)
  let ?st = "createPgEventStore\<lparr>es_heads := [''c1'' \<mapsto> (0, ''stale'')]\<rparr>"
  let ?e = "ev (TEXT_MESSAGE_END ''a'')"
  have ne: "er_checksum (row_of_append ''c1'' demo_pa) \<noteq> chainNext demo_sha ''stale'' ?e" by code_simp
  have b2: "append_begin demo_sha ?st [row_of_append ''c1'' demo_pa] ''c1'' ?e (Option.bind (pod_fence ''b'') (\<lambda>f. fence_generation f ''c1''))
      = (?st, \<lparr>pa_event = ?e, pa_prev = ''stale'', pa_seq = 1, pa_checksum = chainNext demo_sha ''stale'' ?e, pa_presented = None\<rparr>)"
    by (simp add: append_begin_def head_def pod_fence_def)
  have at: "event_at [row_of_append ''c1'' demo_pa] ''c1'' 1 = Some (row_of_append ''c1'' demo_pa)"
    by (simp add: event_at_def row_of_append_def demo_pa_def)
  show "\<exists>st'. appendEvent demo_sha (pod_fence ''b'') ?st [demo_row (Some ''a'') 1] [row_of_append ''c1'' demo_pa] ''c1'' ?e
      = (st', [row_of_append ''c1'' demo_pa], Rejected (SecondWriter 1)) \<and> es_fenced st' = []"
    using fenced_append_refused [OF f b2] ne at by (auto simp: createPgEventStore_def)
qed

text \<open>
  A pod whose cached head another writer has overtaken: its append is
  rejected as a second writer and changes nothing, and because the head is dropped the very next
  append reads it anew and commits at the end of the log.
\<close>

theorem stale_head_recovers:
  assumes ok: "log_ok sha (rows_of es cid)" and hd: "es_heads st cid = Some (s, c)" and "0 \<le> s"
    and lt: "s < int (length (rows_of es cid))"
    and ne: "er_checksum (rows_of es cid ! nat s) \<noteq> chainNext sha c e"
    and f: "fenceClause fence cs cid (Option.bind fence (\<lambda>f. fence_generation f cid))"
  shows "\<exists>st1 st2 es2. appendEvent sha fence st cs es cid e = (st1, es, Rejected (SecondWriter (s + 1)))
    \<and> appendEvent sha fence st1 cs es cid e = (st2, es2, Appended)
    \<and> readEvents es2 cid = readEvents es cid @ [e]"
proof -
  let ?p = "\<lparr>pa_event = e, pa_prev = c, pa_seq = s + 1, pa_checksum = chainNext sha c e,
             pa_presented = Option.bind fence (\<lambda>f. fence_generation f cid)\<rparr>"
  have taken: "event_at es cid (s + 1) = Some (rows_of es cid ! nat s)"
    using log_ok_find [OF ok, of "s + 1"] assms(3) lt by (simp add: event_at_rows_of)
  let ?st1 = "append_fail st cid (SecondWriter (s + 1))"
  have first: "appendEvent sha fence st cs es cid e = (?st1, es, Rejected (SecondWriter (s + 1)))"
    using taken ne hd
    by (simp add: appendEvent_def append_begin_def head_def insert_stmt_def append_settle_def)
  have cur: "head_current (rows_of es cid) ?st1 cid" by (simp add: head_current_def append_fail_def)
  obtain st2 es2 r where "appendEvent sha fence ?st1 cs es cid e = (st2, es2, Appended)"
    "rows_of es2 cid = rows_of es cid @ [r]" "er_event r = e" "log_ok sha (rows_of es2 cid)"
    by (rule appendEvent_owner [OF ok cur f])
  with first readEvents_log_ok [OF ok] readEvents_log_ok [of sha es2 cid] show ?thesis by auto
qed

theorem stale_head_recovers_witness:
  "\<exists>st1. appendEvent demo_sha None (createPgEventStore\<lparr>es_heads := [''c1'' \<mapsto> (0, ''stale'')]\<rparr>) []
      [row_of_append ''c1'' demo_pa] ''c1'' (ev (TEXT_MESSAGE_END ''a''))
    = (st1, [row_of_append ''c1'' demo_pa], Rejected (SecondWriter 1))"
proof -
  have rows: "rows_of [row_of_append ''c1'' demo_pa] ''c1'' = [row_of_append ''c1'' demo_pa]" by simp
  have ok: "log_ok demo_sha [row_of_append ''c1'' demo_pa]"
    by (simp add: log_ok_def row_cs_def row_of_append_def demo_pa_def)
  have ne: "er_checksum (rows_of [row_of_append ''c1'' demo_pa] ''c1'' ! nat 0)
      \<noteq> chainNext demo_sha ''stale'' (ev (TEXT_MESSAGE_END ''a''))"
    unfolding rows by code_simp
  show ?thesis
    using stale_head_recovers [of demo_sha "[row_of_append ''c1'' demo_pa]" "''c1''"
        "createPgEventStore\<lparr>es_heads := [''c1'' \<mapsto> (0, ''stale'')]\<rparr>" 0 "''stale''" "ev (TEXT_MESSAGE_END ''a'')" None "[]"]
      ok ne by (auto simp: fenceClause_def)
qed

end
