(* ===== verification/Transcript.thy ===== *)
theory Transcript
  imports Agui_Events
begin

text \<open>
  The plain-text transcript of a log, \<^verbatim>\<open>agent/transcript.ts\<close>: the fold of events into turns
  and the history preamble a revived session starts from. The state of the fold is the three
  maps and the array of the source; a tool's accumulator holds the position of its turn.
\<close>

subsection \<open>transcript.ts\<close>

datatype turn_role = TurnUser | TurnAssistant | TurnTool | TurnSystem

record transcript_turn =
  tt_role :: turn_role
  tt_text :: string

record tool_acc =
  ta_name :: string
  ta_args :: string
  ta_index :: nat

record fold_state =
  fs_role :: "message_id \<rightharpoonup> text_role"
  fs_buf :: "message_id \<rightharpoonup> string"
  fs_tool :: "tool_call_id \<rightharpoonup> tool_acc"
  fs_turns :: "transcript_turn list"

definition TOOL_FIELD_MAX :: nat where
  "TOOL_FIELD_MAX = 800"

definition clip :: "string \<Rightarrow> nat \<Rightarrow> string" where
  "clip s mx =
     (let t = trim s in
      if length t \<le> mx then t
      else take mx t @ ellipsis @ '' ('' @ show_nat (length t - mx) @ '' more chars)'')"

definition renderTool :: "string \<Rightarrow> string \<Rightarrow> string option \<Rightarrow> string" where
  "renderTool name args result =
     (let a = trim args;
          hd = (if a \<noteq> [] then name @ ''('' @ clip a TOOL_FIELD_MAX @ '')'' else name)
      in case result of
           Some r \<Rightarrow> hd @ '' '' @ arrow @ '' '' @ clip r TOOL_FIELD_MAX
         | None \<Rightarrow> hd)"

definition turn_of_role :: "text_role \<Rightarrow> turn_role" where
  "turn_of_role r = (case r of RoleAssistant \<Rightarrow> TurnAssistant | RoleUser \<Rightarrow> TurnUser)"

definition tool_turn :: "tool_acc \<Rightarrow> string option \<Rightarrow> transcript_turn" where
  "tool_turn t result = \<lparr>tt_role = TurnTool, tt_text = renderTool (ta_name t) (ta_args t) result\<rparr>"

definition push_turn :: "fold_state \<Rightarrow> transcript_turn \<Rightarrow> fold_state" where
  "push_turn s t = s\<lparr>fs_turns := fs_turns s @ [t]\<rparr>"

definition fold_step :: "fold_state \<Rightarrow> agui_event \<Rightarrow> fold_state" where
  "fold_step s e =
     (case ev_base e of
        TEXT_MESSAGE_START m r \<Rightarrow> s\<lparr>fs_role := (fs_role s)(m \<mapsto> r), fs_buf := (fs_buf s)(m \<mapsto> [])\<rparr>
      | TEXT_MESSAGE_CONTENT m d \<Rightarrow>
          (case fs_buf s m of None \<Rightarrow> s | Some prev \<Rightarrow> s\<lparr>fs_buf := (fs_buf s)(m \<mapsto> prev @ d)\<rparr>)
      | TEXT_MESSAGE_END m \<Rightarrow>
          let text = trim (case fs_buf s m of None \<Rightarrow> [] | Some b \<Rightarrow> b);
              s' = (case fs_role s m of
                      Some r \<Rightarrow> if text \<noteq> [] then push_turn s \<lparr>tt_role = turn_of_role r, tt_text = text\<rparr> else s
                    | None \<Rightarrow> s)
          in s'\<lparr>fs_role := (fs_role s')(m := None), fs_buf := (fs_buf s')(m := None)\<rparr>
      | TOOL_CALL_START tc name \<Rightarrow>
          let entry = \<lparr>ta_name = name, ta_args = [], ta_index = length (fs_turns s)\<rparr>
          in push_turn (s\<lparr>fs_tool := (fs_tool s)(tc \<mapsto> entry)\<rparr>) (tool_turn entry None)
      | TOOL_CALL_ARGS tc d \<Rightarrow>
          (case fs_tool s tc of
             None \<Rightarrow> s
           | Some t \<Rightarrow>
               let t' = t\<lparr>ta_args := ta_args t @ d\<rparr>
               in s\<lparr>fs_tool := (fs_tool s)(tc \<mapsto> t'), fs_turns := (fs_turns s)[ta_index t := tool_turn t' None]\<rparr>)
      | TOOL_CALL_RESULT tc _ content \<Rightarrow>
          (case fs_tool s tc of
             None \<Rightarrow> s
           | Some t \<Rightarrow> s\<lparr>fs_turns := (fs_turns s)[ta_index t := tool_turn t (Some content)]\<rparr>)
      | SYSTEM_MESSAGE _ source text \<Rightarrow>
          let t = trim text
          in if t \<noteq> [] then push_turn s \<lparr>tt_role = TurnSystem,
                 tt_text = ''('' @ source @ '') '' @ clip t (TOOL_FIELD_MAX * 2)\<rparr>
             else s
      | _ \<Rightarrow> s)"

definition fold_init :: fold_state where
  "fold_init = \<lparr>fs_role = Map.empty, fs_buf = Map.empty, fs_tool = Map.empty, fs_turns = []\<rparr>"

definition foldTurns :: "agui_event list \<Rightarrow> transcript_turn list" where
  "foldTurns events = fs_turns (foldl fold_step fold_init events)"

definition ROLE_LABEL :: "turn_role \<Rightarrow> string" where
  "ROLE_LABEL r =
     (case r of TurnUser \<Rightarrow> ''User'' | TurnAssistant \<Rightarrow> ''Assistant'' | TurnTool \<Rightarrow> ''Tool'' | TurnSystem \<Rightarrow> ''System'')"

datatype framing = Resumed | CatchUp

definition preamble_body :: "transcript_turn list \<Rightarrow> nat \<Rightarrow> string" where
  "preamble_body turns maxChars =
     (let body = join (newline @ newline) (map (\<lambda>t. ROLE_LABEL (tt_role t) @ '': '' @ tt_text t) turns)
      in if length body > maxChars
         then ellipsis @ ''(earlier messages omitted)'' @ ellipsis @ newline @ newline
              @ drop (length body - maxChars) body
         else body)"

definition preamble_open :: "framing \<Rightarrow> string" where
  "preamble_open f =
     (case f of
        CatchUp \<Rightarrow>
          ''[Turns you missed '' @ em_dash @ '' since your last reply, another session (a different model or ''
          @ ''provider) handled these turns of this same conversation. Treat their work as done by ''
          @ ''you; do NOT redo it. Lines prefixed `Tool:` record a tool call and its result.]'' @ newline @ newline
      | Resumed \<Rightarrow>
          ''[Previous conversation '' @ em_dash @ '' this session was resumed and you have no memory of it. ''
          @ ''Continue from here; do NOT re-introduce yourself or repeat prior work. Lines prefixed ''
          @ ''`Tool:` record work already done (a tool call and its result).]'' @ newline @ newline)"

definition preamble_close :: "framing \<Rightarrow> string" where
  "preamble_close f =
     newline @ newline @
     (case f of
        CatchUp \<Rightarrow> ''[End of missed turns. The new message follows.]''
      | Resumed \<Rightarrow> ''[End of previous conversation. The user'' @ [CHR 0x27] @ ''s new message follows.]'')"

definition buildHistoryPreamble :: "agui_event list \<Rightarrow> nat \<Rightarrow> framing \<Rightarrow> string" where
  "buildHistoryPreamble events maxChars f =
     (let turns = foldTurns events in
      if turns = [] then [] else preamble_open f @ preamble_body turns maxChars @ preamble_close f)"

subsection \<open>The fold\<close>

lemma foldTurns_append_state:
  "foldTurns (pre @ es) = fs_turns (foldl fold_step (foldl fold_step fold_init pre) es)"
  by (simp add: foldTurns_def)

text \<open>A tool's accumulator points at a tool turn of the array.\<close>

definition tools_ok :: "fold_state \<Rightarrow> bool" where
  "tools_ok s \<longleftrightarrow>
     (\<forall>tc t. fs_tool s tc = Some t \<longrightarrow>
        ta_index t < length (fs_turns s) \<and> tt_role (fs_turns s ! ta_index t) = TurnTool)"

lemma tools_ok_init [inv_intros]: "tools_ok fold_init"
  by (simp add: tools_ok_def fold_init_def)

lemma tools_ok_push [inv_intros]: "tools_ok s \<Longrightarrow> tools_ok (push_turn s t)"
  by (auto simp: tools_ok_def push_turn_def nth_append less_SucI)

lemma tools_ok_set_turn:
  "tools_ok s \<Longrightarrow> fs_tool s tc = Some t \<Longrightarrow> ta_index t' = ta_index t \<Longrightarrow>
    tools_ok (s\<lparr>fs_tool := (fs_tool s)(tc \<mapsto> t'), fs_turns := (fs_turns s)[ta_index t := tool_turn u r]\<rparr>)"
  by (auto simp: tools_ok_def tool_turn_def nth_list_update)

lemma tools_ok_cong: "fs_tool s = fs_tool s' \<Longrightarrow> fs_turns s = fs_turns s' \<Longrightarrow> tools_ok s = tools_ok s'"
  by (simp add: tools_ok_def)

lemma tools_ok_result:
  "tools_ok s \<Longrightarrow> fs_tool s tc = Some t \<Longrightarrow>
    tools_ok (s\<lparr>fs_turns := (fs_turns s)[ta_index t := tool_turn t r]\<rparr>)"
  by (auto simp: tools_ok_def tool_turn_def nth_list_update)

lemma tools_ok_start:
  "tools_ok s \<Longrightarrow>
    tools_ok (push_turn (s\<lparr>fs_tool := (fs_tool s)(tc \<mapsto> \<lparr>ta_name = n, ta_args = [], ta_index = length (fs_turns s)\<rparr>)\<rparr>)
      (tool_turn u r))"
  by (auto simp: tools_ok_def push_turn_def tool_turn_def nth_append less_SucI)

lemma tools_ok_step [inv_intros]:
  assumes "tools_ok s"
  shows "tools_ok (fold_step s e)"
proof (cases "ev_base e")
  case (TEXT_MESSAGE_END m)
  let ?text = "trim (case fs_buf s m of None \<Rightarrow> [] | Some b \<Rightarrow> b)"
  have "tools_ok (case fs_role s m of
      Some r \<Rightarrow> if ?text \<noteq> [] then push_turn s \<lparr>tt_role = turn_of_role r, tt_text = ?text\<rparr> else s | None \<Rightarrow> s)"
    using assms tools_ok_push by (auto split: option.splits)
  then show ?thesis using TEXT_MESSAGE_END by (simp add: fold_step_def Let_def tools_ok_def)
next
  case (TOOL_CALL_START tc n)
  then show ?thesis using tools_ok_start [OF assms] by (simp add: fold_step_def Let_def)
next
  case (TOOL_CALL_ARGS tc d)
  then show ?thesis
    using assms tools_ok_set_turn [OF assms] by (simp add: fold_step_def Let_def split: option.split)
next
  case (TOOL_CALL_RESULT tc m c)
  then show ?thesis
    using assms tools_ok_result [OF assms] by (simp add: fold_step_def split: option.split)
next
  case (SYSTEM_MESSAGE m src t)
  then show ?thesis using assms tools_ok_push [OF assms] by (simp add: fold_step_def Let_def)
next
  case (TEXT_MESSAGE_CONTENT m d)
  then show ?thesis using assms by (simp add: fold_step_def tools_ok_def split: option.split)
qed (use assms in \<open>simp_all add: fold_step_def tools_ok_def\<close>)

lemma tools_ok_fold: "tools_ok s \<Longrightarrow> tools_ok (foldl fold_step s es)"
  by (induction es arbitrary: s) (auto intro: tools_ok_step)

text \<open>Splitting a delta in two makes no difference to the state.\<close>

lemma fold_step_content_split:
  "fold_step (fold_step s \<lparr>ev_base = TEXT_MESSAGE_CONTENT m a, ev_ts = x\<rparr>) \<lparr>ev_base = TEXT_MESSAGE_CONTENT m b, ev_ts = y\<rparr>
   = fold_step s \<lparr>ev_base = TEXT_MESSAGE_CONTENT m (a @ b), ev_ts = z\<rparr>"
  by (simp add: fold_step_def split: option.split)

lemma fold_step_args_split:
  "fold_step (fold_step s \<lparr>ev_base = TOOL_CALL_ARGS tc a, ev_ts = x\<rparr>) \<lparr>ev_base = TOOL_CALL_ARGS tc b, ev_ts = y\<rparr>
   = fold_step s \<lparr>ev_base = TOOL_CALL_ARGS tc (a @ b), ev_ts = z\<rparr>"
  by (simp add: fold_step_def Let_def split: option.split)

lemma fold_contents:
  "fs_buf s m = Some b \<Longrightarrow>
    foldl fold_step s (map (\<lambda>d. ev (TEXT_MESSAGE_CONTENT m d)) ds) = s\<lparr>fs_buf := (fs_buf s)(m \<mapsto> b @ concat ds)\<rparr>"
proof (induction ds arbitrary: s b)
  case Nil
  then have "(fs_buf s)(m \<mapsto> b) = fs_buf s" by (simp add: fun_upd_idem)
  then show ?case by simp
next
  case (Cons d ds)
  let ?s = "s\<lparr>fs_buf := (fs_buf s)(m \<mapsto> b @ d)\<rparr>"
  have "fold_step s (ev (TEXT_MESSAGE_CONTENT m d)) = ?s"
    using Cons.prems by (simp add: fold_step_def)
  moreover have "fs_buf ?s m = Some (b @ d)" by simp
  ultimately show ?case using Cons.IH [of ?s "b @ d"] by (simp cong: if_cong)
qed

lemma length_preamble_body: "length (preamble_body turns maxChars) \<le> maxChars + 30"
  by (simp add: preamble_body_def Let_def ellipsis_def newline_def)

lemma preamble_frame_length:
  "length (preamble_open f) \<le> 290" "length (preamble_close f) \<le> 70"
  by (cases f; simp add: preamble_open_def preamble_close_def newline_def em_dash_def)+


subsection \<open>Properties\<close>

text \<open>
  A text message streamed in any number of pieces becomes one turn: the
  trimmed concatenation of its deltas under its role, or no turn when that is empty, after the
  turns of what came before.
\<close>

theorem foldTurns_message:
  "foldTurns (pre @ ev (TEXT_MESSAGE_START m r) # map (\<lambda>d. ev (TEXT_MESSAGE_CONTENT m d)) ds @ [ev (TEXT_MESSAGE_END m)])
   = foldTurns pre
     @ (if trim (concat ds) = [] then [] else [\<lparr>tt_role = turn_of_role r, tt_text = trim (concat ds)\<rparr>])"
proof -
  let ?s = "foldl fold_step fold_init pre"
  let ?s1 = "?s\<lparr>fs_role := (fs_role ?s)(m \<mapsto> r), fs_buf := (fs_buf ?s)(m \<mapsto> [])\<rparr>"
  have "fold_step ?s (ev (TEXT_MESSAGE_START m r)) = ?s1" by (simp add: fold_step_def)
  moreover have "foldl fold_step ?s1 (map (\<lambda>d. ev (TEXT_MESSAGE_CONTENT m d)) ds)
      = ?s1\<lparr>fs_buf := (fs_buf ?s1)(m \<mapsto> concat ds)\<rparr>"
    using fold_contents [of ?s1 m "[]" ds] by simp
  ultimately show ?thesis
    unfolding foldTurns_append_state by (simp add: fold_step_def push_turn_def Let_def foldTurns_def)
qed

text \<open>
  How a stream was cut into events is invisible in the transcript: replacing
  one text delta, or one piece of a tool call's arguments, by two consecutive pieces gives the
  same turns, wherever it stands in the log.
\<close>

theorem foldTurns_chunking:
  "foldTurns (pre @ ev (TEXT_MESSAGE_CONTENT m (a @ b)) # post)
     = foldTurns (pre @ ev (TEXT_MESSAGE_CONTENT m a) # ev (TEXT_MESSAGE_CONTENT m b) # post)
   \<and> foldTurns (pre @ ev (TOOL_CALL_ARGS tc (a @ b)) # post)
     = foldTurns (pre @ ev (TOOL_CALL_ARGS tc a) # ev (TOOL_CALL_ARGS tc b) # post)"
proof -
  let ?s = "foldl fold_step fold_init pre"
  have "fold_step (fold_step ?s (ev (TEXT_MESSAGE_CONTENT m a))) (ev (TEXT_MESSAGE_CONTENT m b))
      = fold_step ?s (ev (TEXT_MESSAGE_CONTENT m (a @ b)))" by (rule fold_step_content_split)
  moreover have "fold_step (fold_step ?s (ev (TOOL_CALL_ARGS tc a))) (ev (TOOL_CALL_ARGS tc b))
      = fold_step ?s (ev (TOOL_CALL_ARGS tc (a @ b)))" by (rule fold_step_args_split)
  ultimately show ?thesis by (simp add: foldTurns_append_state)
qed

text \<open>
  After any log, every open tool accumulator addresses a turn that is in the array
  and is a tool turn, so writing its arguments or its result back never touches another turn or
  extends the array.
\<close>

theorem tool_backfill_in_range:
  assumes "fs_tool (foldl fold_step fold_init events) tc = Some t"
  shows "ta_index t < length (foldTurns events) \<and> tt_role (foldTurns events ! ta_index t) = TurnTool"
  using tools_ok_fold [OF tools_ok_init, of events] assms by (simp add: tools_ok_def foldTurns_def)

theorem tool_backfill_in_range_witness:
  "tt_role (foldTurns [ev (TOOL_CALL_START ''t1'' ''sh''), ev (TOOL_CALL_ARGS ''t1'' ''ls'')] ! 0) = TurnTool"
  using tool_backfill_in_range [of "[ev (TOOL_CALL_START ''t1'' ''sh''), ev (TOOL_CALL_ARGS ''t1'' ''ls'')]" "''t1''"
      "\<lparr>ta_name = ''sh'', ta_args = ''ls'', ta_index = 0\<rparr>"]
  by (simp add: fold_step_def fold_init_def push_turn_def Let_def)

text \<open>
  The preamble of a revived session is empty exactly when there is nothing to
  tell, and is never longer than the body's limit plus a fixed frame, however long the log.
\<close>

theorem preamble_bounded:
  "length (buildHistoryPreamble events maxChars f) \<le> maxChars + 390
   \<and> (buildHistoryPreamble events maxChars f = [] \<longleftrightarrow> foldTurns events = [])"
proof -
  have "preamble_open f \<noteq> []" by (cases f) (simp_all add: preamble_open_def)
  moreover have "length (preamble_open f @ preamble_body t maxChars @ preamble_close f) \<le> maxChars + 390" for t
    using length_preamble_body [of t maxChars] preamble_frame_length [of f] by simp
  ultimately show ?thesis by (simp add: buildHistoryPreamble_def Let_def)
qed

end
