(* ===== verification/Compaction.thy ===== *)
theory Compaction
  imports Event_Log Transcript
begin

text \<open>
  Conversation compaction, \<^verbatim>\<open>session/compaction.ts\<close>. The store is the pair of its read and
  its append, as the source takes any \<^verbatim>\<open>ConversationStore\<close>; the summarizer is a parameter
  that answers or throws (\<^const>\<open>None\<close>). \<^verbatim>\<open>Math.ceil(total * 0.3)\<close> is the integer ceiling of
  three tenths: the double nearest to 0.3 is just below it and a product rounds to at most the
  exact integer.
\<close>

subsection \<open>compaction.ts\<close>

definition COMPACT_MIN_KEEP_RUNS :: nat where "COMPACT_MIN_KEEP_RUNS = 2"
definition COMPACT_MIN_TOTAL_RUNS :: nat where "COMPACT_MIN_TOTAL_RUNS = 4"

record compaction_result =
  cp_summary :: string
  cp_summarizedTurns :: nat
  cp_keptRuns :: nat

datatype compaction_error = SummarizerFailed | EmptySummary

definition keepRunsFor :: "nat \<Rightarrow> nat" where
  "keepRunsFor tot = max COMPACT_MIN_KEEP_RUNS ((3 * tot + 9) div 10)"

definition summary_turn :: "transcript_turn \<Rightarrow> text_role \<times> string" where
  "summary_turn t =
     (case tt_role t of
        TurnTool \<Rightarrow> (RoleAssistant, tt_text t)
      | TurnSystem \<Rightarrow> (RoleUser, ''[System] '' @ tt_text t)
      | TurnUser \<Rightarrow> (RoleUser, tt_text t)
      | TurnAssistant \<Rightarrow> (RoleAssistant, tt_text t))"

definition compactConversation ::
  "('s \<Rightarrow> agui_event list) \<Rightarrow> ('s \<Rightarrow> agui_event \<Rightarrow> 's) \<Rightarrow> ((text_role \<times> string) list \<Rightarrow> string option) \<Rightarrow> int
    \<Rightarrow> 's \<Rightarrow> 's \<times> (compaction_error + compaction_result option)" where
  "compactConversation read put summarize now s =
     (let events = read s; tot = runCount events in
      if tot < COMPACT_MIN_TOTAL_RUNS then (s, Inr None)
      else
        let keptRuns = keepRunsFor tot; (older, recent) = splitByRuns events (int keptRuns) in
        if older = [] then (s, Inr None)
        else
          let oldTurns = map summary_turn (foldTurns older) in
          if oldTurns = [] then (s, Inr None)
          else
            (case summarize oldTurns of
               None \<Rightarrow> (s, Inl SummarizerFailed)
             | Some summary \<Rightarrow>
                 if trim summary = [] then (s, Inl EmptySummary)
                 else
                   (put s \<lparr>ev_base = COMPACTION_MARKER summary (length oldTurns) (runCount recent), ev_ts = Some now\<rparr>,
                    Inr (Some \<lparr>cp_summary = summary, cp_summarizedTurns = length oldTurns, cp_keptRuns = keptRuns\<rparr>))))"

definition is_marker :: "agui_event \<Rightarrow> bool" where
  "is_marker e = (case ev_base e of COMPACTION_MARKER _ _ _ \<Rightarrow> True | _ \<Rightarrow> False)"

definition marker_summary :: "agui_event \<Rightarrow> string" where
  "marker_summary e = (case ev_base e of COMPACTION_MARKER s _ _ \<Rightarrow> s | _ \<Rightarrow> [])"

fun last_marker :: "agui_event list \<Rightarrow> nat \<Rightarrow> nat option \<Rightarrow> nat option" where
  "last_marker [] i acc = acc"
| "last_marker (e # es) i acc = last_marker es (i + 1) (if is_marker e then Some i else acc)"

definition recap_turn :: "nat \<Rightarrow> string \<Rightarrow> agui_event list" where
  "recap_turn i summary =
     (let mid = ''compaction-'' @ show_nat i in
      [ev (TEXT_MESSAGE_START mid RoleAssistant),
       ev (TEXT_MESSAGE_CONTENT mid (''[Recap of earlier conversation]'' @ newline @ summary)),
       ev (TEXT_MESSAGE_END mid)])"

definition historyAfterCompaction :: "agui_event list \<Rightarrow> agui_event list" where
  "historyAfterCompaction events =
     (case last_marker events 0 None of
        None \<Rightarrow> events
      | Some i \<Rightarrow> recap_turn i (marker_summary (events ! i)) @ drop (i + 1) events)"

subsection \<open>Lemmas\<close>

lemma last_marker_none: "\<not> list_ex is_marker es \<Longrightarrow> last_marker es i acc = acc"
  by (induction es arbitrary: i acc) auto

lemma last_marker_split:
  "is_marker m \<Longrightarrow> \<not> list_ex is_marker post \<Longrightarrow> last_marker (pre @ m # post) i acc = Some (i + length pre)"
  by (induction pre arbitrary: i acc) (auto simp: last_marker_none)

lemma historyAfterCompaction_split:
  "is_marker m \<Longrightarrow> \<not> list_ex is_marker post \<Longrightarrow>
    historyAfterCompaction (pre @ m # post) = recap_turn (length pre) (marker_summary m) @ post"
  by (simp add: historyAfterCompaction_def last_marker_split)

lemma keepRunsFor_less: "4 \<le> n \<Longrightarrow> keepRunsFor n < n"
  by (simp add: keepRunsFor_def COMPACT_MIN_KEEP_RUNS_def)

lemma splitByRuns_in_order:
  assumes "in_order events" and "0 < keep" and "keep \<le> runCount events"
  shows "fst (splitByRuns events (int keep)) @ snd (splitByRuns events (int keep)) = events
    \<and> (keep < runCount events \<longrightarrow> runCount (snd (splitByRuns events (int keep))) = keep)"
proof -
  have len: "runCount events = length (positions is_run_started events)"
    by (simp add: runCount_length length_positions)
  have "length (filter is_run_started
      (drop (positions is_run_started events ! (length (positions is_run_started events) - keep)) events)) = keep"
    using cut_at_last_runs(1) [OF assms(2), of is_run_started events] assms(3) by (simp add: len)
  with assms show ?thesis
    by (simp add: splitByRuns_def orderByTime_in_order Let_def len) (simp add: runCount_length)
qed

lemma compact_cases:
  assumes "compactConversation read put sm now s = (s', r)"
  obtains (kept) "s' = s" "r = Inr None \<or> (\<exists>err. r = Inl err)"
  | (marked) older recent summary where
      "splitByRuns (read s) (int (keepRunsFor (runCount (read s)))) = (older, recent)"
      "4 \<le> runCount (read s)" "older \<noteq> []" "foldTurns older \<noteq> []" "trim summary \<noteq> []"
      "sm (map summary_turn (foldTurns older)) = Some summary"
      "s' = put s \<lparr>ev_base = COMPACTION_MARKER summary (length (foldTurns older)) (runCount recent), ev_ts = Some now\<rparr>"
      "r = Inr (Some \<lparr>cp_summary = summary, cp_summarizedTurns = length (foldTurns older),
                      cp_keptRuns = keepRunsFor (runCount (read s))\<rparr>)"
proof (cases "s' = s \<and> (r = Inr None \<or> (\<exists>err. r = Inl err))")
  case True
  with kept show ?thesis by blast
next
  case False
  obtain older recent where sp: "splitByRuns (read s) (int (keepRunsFor (runCount (read s)))) = (older, recent)"
    by fastforce
  from assms False show ?thesis
    using marked [OF sp]
    by (auto simp: compactConversation_def Let_def sp COMPACT_MIN_TOTAL_RUNS_def split: if_splits option.splits)
qed


lemma is_marker_simp [simp]: "is_marker \<lparr>ev_base = COMPACTION_MARKER a b c, ev_ts = t\<rparr>"
  "marker_summary \<lparr>ev_base = COMPACTION_MARKER a b c, ev_ts = t\<rparr> = a"
  by (simp_all add: is_marker_def marker_summary_def)

text \<open>What compaction does to any store that keeps the log's interface.\<close>

locale agui_log = event_log append read usable
  for append :: "'s \<Rightarrow> agui_event \<Rightarrow> 's" and read :: "'s \<Rightarrow> agui_event list" and usable :: "'s \<Rightarrow> bool"
begin

lemma compact_read:
  assumes "usable s" and "compactConversation read append sm now s = (s', r)"
  shows "usable s' \<and> (case r of
      Inr (Some res) \<Rightarrow> \<exists>m. is_marker m \<and> marker_summary m = cp_summary res \<and> read s' = read s @ [m]
    | _ \<Rightarrow> read s' = read s)"
  using assms(2)
proof (cases rule: compact_cases)
  case kept
  with assms(1) show ?thesis by auto
next
  case (marked older recent summary)
  with assms(1) show ?thesis by (auto simp: usable_append read_append)
qed

lemma resume_after_compact:
  assumes "usable s" and "compactConversation read append sm now s = (s', Inr (Some res))"
    and "\<not> list_ex is_marker later"
  shows "historyAfterCompaction (read (foldl append s' later)) = recap_turn (length (read s)) (cp_summary res) @ later"
proof -
  from compact_read [OF assms(1,2)] obtain m where "usable s'" and m: "is_marker m" "marker_summary m = cp_summary res"
    and rd: "read s' = read s @ [m]" by auto
  with appends [of s' later] have "read (foldl append s' later) = read s @ m # later" by simp
  with historyAfterCompaction_split [OF m(1) assms(3)] m(2) show ?thesis by simp
qed

end

interpretation pg: agui_log "pg_append sha fence cs cid" "\<lambda>s. readEvents (snd s) cid" "pg_usable sha fence cs cid"
  for sha fence cs cid
  by unfold_locales

subsection \<open>Properties\<close>

definition demo_run :: "string \<Rightarrow> agui_event list" where
  "demo_run r = [ev (RUN_STARTED ''t'' r None None), ev (TEXT_MESSAGE_START r RoleUser),
     ev (TEXT_MESSAGE_CONTENT r r), ev (TEXT_MESSAGE_END r)]"

definition demo_state :: "event_store \<times> conversation_events" where
  "demo_state = foldl (pg_append demo_sha None [] ''c1'') (createPgEventStore, [])
     (concat (map demo_run [''a'', ''b'', ''c'', ''d'']))"

lemma demo_state_log:
  "pg_usable demo_sha None [] ''c1'' demo_state"
  "readEvents (snd demo_state) ''c1'' = concat (map demo_run [''a'', ''b'', ''c'', ''d''])"
proof -
  have u: "pg_usable demo_sha None [] ''c1'' (createPgEventStore, [])"
    by (simp add: pg_usable_def rows_of_def head_current_def createPgEventStore_def fenceClause_def)
  have e: "readEvents [] ''c1'' = []"
    by (simp add: readEvents_def readEventsWithChecksum_def order_by_seq_def rows_of_def)
  show "pg_usable demo_sha None [] ''c1'' demo_state"
    "readEvents (snd demo_state) ''c1'' = concat (map demo_run [''a'', ''b'', ''c'', ''d''])"
    unfolding demo_state_def
    using pg.appends [OF u, of "concat (map demo_run [''a'', ''b'', ''c'', ''d''])"]
    by (simp_all only: e snd_conv append_Nil)
qed

text \<open>
  Compaction never loses the log: on the store of the pod that holds the
  conversation, a compaction that declines or fails leaves what is read unchanged, and one that
  succeeds adds exactly one marker at the end, carrying the summary.
\<close>

theorem compaction_non_destructive:
  assumes "pg_usable sha fence cs cid s"
    and "compactConversation (\<lambda>s. readEvents (snd s) cid) (pg_append sha fence cs cid) sm now s = (s', r)"
  shows "case r of
      Inr (Some res) \<Rightarrow> \<exists>m. is_marker m \<and> marker_summary m = cp_summary res
        \<and> readEvents (snd s') cid = readEvents (snd s) cid @ [m]
    | _ \<Rightarrow> readEvents (snd s') cid = readEvents (snd s) cid"
  using pg.compact_read [OF assms] by blast

theorem compaction_non_destructive_witness:
  "readEvents (snd (fst (compactConversation (\<lambda>s. readEvents (snd s) ''c1'') (pg_append demo_sha None [] ''c1'')
      (\<lambda>_. None) 7 demo_state))) ''c1'' = concat (map demo_run [''a'', ''b'', ''c'', ''d''])"
proof -
  obtain s' r where c: "compactConversation (\<lambda>s. readEvents (snd s) ''c1'') (pg_append demo_sha None [] ''c1'')
      (\<lambda>_. None) 7 demo_state = (s', r)" by fastforce
  then have "r = Inr None \<or> (\<exists>err. r = Inl err)" by (cases rule: compact_cases) auto
  with compaction_non_destructive [OF demo_state_log(1) c] demo_state_log(2) c show ?thesis by auto
qed

text \<open>
  What is summarized and what is kept partition the log: for a log in time
  order that is compacted, the older part followed by the recent part is the whole log, and the
  recent part holds exactly the number of runs reported as kept, at least two and fewer than all.
\<close>

theorem compaction_split:
  assumes "in_order events" and "4 \<le> runCount events"
    and "splitByRuns events (int (keepRunsFor (runCount events))) = (older, recent)"
  shows "older @ recent = events \<and> runCount recent = keepRunsFor (runCount events)
    \<and> 2 \<le> keepRunsFor (runCount events) \<and> runCount recent < runCount events"
proof -
  have "2 \<le> keepRunsFor (runCount events)" by (simp add: keepRunsFor_def COMPACT_MIN_KEEP_RUNS_def)
  moreover have "keepRunsFor (runCount events) < runCount events" by (rule keepRunsFor_less [OF assms(2)])
  ultimately show ?thesis
    using splitByRuns_in_order [OF assms(1), of "keepRunsFor (runCount events)"] assms(3) by simp
qed

theorem compaction_split_witness:
  "runCount (snd (splitByRuns (concat (map demo_run [''a'', ''b'', ''c'', ''d''])) 2)) = 2"
proof -
  let ?lg = "concat (map demo_run [''a'', ''b'', ''c'', ''d''])"
  have "in_order ?lg" by (simp add: in_order_def unstamped_def demo_run_def)
  moreover have n: "runCount ?lg = 4" by (simp add: runCount_def demo_run_def is_run_started_def)
  moreover have k: "keepRunsFor 4 = 2" by (simp add: keepRunsFor_def COMPACT_MIN_KEEP_RUNS_def)
  ultimately show ?thesis
    using compaction_split [of ?lg "fst (splitByRuns ?lg 2)" "snd (splitByRuns ?lg 2)"] by simp
qed

text \<open>
  The runs counted as kept are not kept: the marker is appended after them, and a
  session revived later resumes from the recap and what follows the marker only, so the history it
  gets is the same whatever the kept runs held, and none of them reached the summarizer.
\<close>

theorem compaction_drops_kept_runs:
  assumes "pg_usable sha fence cs cid s"
    and "compactConversation (\<lambda>s. readEvents (snd s) cid) (pg_append sha fence cs cid) sm now s
       = (s', Inr (Some res))"
    and "\<not> list_ex is_marker later"
  shows "historyAfterCompaction (readEvents (snd (foldl (pg_append sha fence cs cid) s' later)) cid)
      = recap_turn (length (readEvents (snd s) cid)) (cp_summary res) @ later
    \<and> sm (map summary_turn (foldTurns
         (fst (splitByRuns (readEvents (snd s) cid) (int (cp_keptRuns res)))))) = Some (cp_summary res)"
proof
  show "historyAfterCompaction (readEvents (snd (foldl (pg_append sha fence cs cid) s' later)) cid)
      = recap_turn (length (readEvents (snd s) cid)) (cp_summary res) @ later"
    by (rule pg.resume_after_compact [OF assms])
  from assms(2) show "sm (map summary_turn (foldTurns
         (fst (splitByRuns (readEvents (snd s) cid) (int (cp_keptRuns res)))))) = Some (cp_summary res)"
    by (cases rule: compact_cases) auto
qed

theorem compaction_drops_kept_runs_witness:
  "historyAfterCompaction (readEvents (snd (fst (compactConversation (\<lambda>s. readEvents (snd s) ''c1'')
      (pg_append demo_sha None [] ''c1'') (\<lambda>_. Some ''S'') 7 demo_state))) ''c1'') = recap_turn 16 ''S''"
proof -
  let ?lg = "concat (map demo_run [''a'', ''b'', ''c'', ''d''])"
  let ?c = "compactConversation (\<lambda>s. readEvents (snd s) ''c1'') (pg_append demo_sha None [] ''c1'') (\<lambda>_. Some ''S'') 7 demo_state"
  let ?m = "\<lparr>ev_base = COMPACTION_MARKER ''S'' 2 2, ev_ts = Some 7\<rparr>"
  have n: "runCount ?lg = 4" by (simp add: runCount_def demo_run_def is_run_started_def)
  have k: "keepRunsFor 4 = 2" by (simp add: keepRunsFor_def COMPACT_MIN_KEEP_RUNS_def)
  have sp: "splitByRuns ?lg 2 = (concat (map demo_run [''a'', ''b'']), concat (map demo_run [''c'', ''d'']))"
    by (simp add: splitByRuns_def orderByTime_def demo_run_def is_run_started_def Let_def)
  have ft: "foldTurns (concat (map demo_run [''a'', ''b''])) = [\<lparr>tt_role = TurnUser, tt_text = ''a''\<rparr>, \<lparr>tt_role = TurnUser, tt_text = ''b''\<rparr>]"
    by (simp add: foldTurns_def fold_init_def fold_step_def demo_run_def push_turn_def turn_of_role_def
        trim_def trim_end_def js_space_def Let_def)
  have rc: "runCount (concat (map demo_run [''c'', ''d''])) = 2"
    by (simp add: runCount_def demo_run_def is_run_started_def)
  have ne: "concat (map demo_run [''a'', ''b'']) \<noteq> []" by (simp add: demo_run_def)
  have tr: "trim ''S'' \<noteq> []" by (simp add: trim_def trim_end_def js_space_def)
  have c: "?c = (pg_append demo_sha None [] ''c1'' demo_state ?m,
      Inr (Some \<lparr>cp_summary = ''S'', cp_summarizedTurns = 2, cp_keptRuns = 2\<rparr>))"
    unfolding compactConversation_def Let_def demo_state_log(2) n k of_nat_numeral sp prod.case ft rc
    using ne tr by (simp add: COMPACT_MIN_TOTAL_RUNS_def numeral_2_eq_2)
  have "length ?lg = 16" by (simp add: demo_run_def)
  then show ?thesis
    using compaction_drops_kept_runs [OF demo_state_log(1) c, of "[]"] by (simp add: demo_state_log(2) c)
qed

end
