(* ===== verification/Ownership.thy ===== *)
theory Ownership
  imports Event_Store_Steps
begin

text \<open>
  Who may write: \<^verbatim>\<open>session/ownershipGuard.ts\<close> (the cache of assignments and its decisions),
  \<^verbatim>\<open>session/pgOwnershipGuard.ts\<close> (feeding it from the rows), and the two places of
  \<^verbatim>\<open>session/manager.ts\<close> that act on the guard: the write pre-filter of the event log and the
  admission of a revive pushed by the controller. The two callbacks of the tracker are recorded
  in order. The queue of reads is explicit: a call queues a read, the read at the front is issued when the one
  before is answered, and its answer is a step of its own. The LISTEN connection and its timers are
  not modelled: a notification, a resync and a confirmation are the calls they make.
\<close>

subsection \<open>ownershipGuard.ts\<close>

record assignment =
  as_hostPod :: string
  as_generation :: int

datatype own_event = Gained session_id int | Lost session_id

record tracker =
  tr_self :: string
  tr_assignments :: "(session_id, assignment) js_map"
  tr_claimedGen :: "session_id \<rightharpoonup> int"
  tr_fired :: "own_event list"

definition new_tracker :: "string \<Rightarrow> tracker" where
  "new_tracker pod = \<lparr>tr_self = pod, tr_assignments = [], tr_claimedGen = Map.empty, tr_fired = []\<rparr>"

definition cached :: "tracker \<Rightarrow> session_id \<Rightarrow> assignment option" where
  "cached t cid = map_of (tr_assignments t) cid"

text \<open>\<^verbatim>\<open>this.assignments.get(id)?.hostPod === this.selfPod\<close>\<close>

definition owns :: "tracker \<Rightarrow> session_id \<Rightarrow> bool" where
  "owns t cid = (case cached t cid of None \<Rightarrow> False | Some a \<Rightarrow> as_hostPod a = tr_self t)"

definition fire :: "own_event \<Rightarrow> tracker \<Rightarrow> tracker" where
  "fire x t = t\<lparr>tr_fired := tr_fired t @ [x]\<rparr>"

definition observe :: "tracker \<Rightarrow> session_id \<Rightarrow> assignment option \<Rightarrow> tracker" where
  "observe t cid a =
     (let was = owns t cid in
      case a of
        None \<Rightarrow>
          let t' = t\<lparr>tr_assignments := AList.delete cid (tr_assignments t),
                     tr_claimedGen := (tr_claimedGen t)(cid := None)\<rparr>
          in if was then fire (Lost cid) t' else t'
      | Some x \<Rightarrow>
          let mine = (as_hostPod x = tr_self t);
              t1 = t\<lparr>tr_assignments := AList.update cid x (tr_assignments t)\<rparr>;
              t2 = (if mine \<and> tr_claimedGen t cid = None
                    then t1\<lparr>tr_claimedGen := (tr_claimedGen t1)(cid \<mapsto> as_generation x)\<rparr> else t1);
              t3 = (if mine \<and> \<not> was then fire (Gained cid (as_generation x)) t2 else t2)
          in if \<not> mine \<and> was then fire (Lost cid) t3 else t3)"

definition observedGeneration :: "tracker \<Rightarrow> session_id \<Rightarrow> int option" where
  "observedGeneration t cid = map_option as_generation (cached t cid)"

definition adoptAssignment :: "tracker \<Rightarrow> session_id \<Rightarrow> int \<Rightarrow> tracker" where
  "adoptAssignment t cid generation = observe t cid (Some \<lparr>as_hostPod = tr_self t, as_generation = generation\<rparr>)"

definition cachedIds :: "tracker \<Rightarrow> session_id list" where
  "cachedIds t = map fst (tr_assignments t)"

definition canWrite :: "tracker \<Rightarrow> session_id \<Rightarrow> tracker \<times> bool" where
  "canWrite t cid =
     (case cached t cid of
        None \<Rightarrow> (t, True)
      | Some a \<Rightarrow>
          if as_hostPod a \<noteq> tr_self t then (t, False)
          else
            (case tr_claimedGen t cid of
               Some g \<Rightarrow>
                 if as_generation a > g
                 then (t\<lparr>tr_claimedGen := (tr_claimedGen t)(cid \<mapsto> as_generation a)\<rparr>, True) else (t, True)
             | None \<Rightarrow> (t\<lparr>tr_claimedGen := (tr_claimedGen t)(cid \<mapsto> as_generation a)\<rparr>, True)))"

text \<open>\<^verbatim>\<open>allowAllGuard\<close>: no state, always yes.\<close>

definition allowAll_canWrite :: "unit \<Rightarrow> session_id \<Rightarrow> unit \<times> bool" where
  "allowAll_canWrite g cid = (g, True)"

definition allowAll_owns :: "unit \<Rightarrow> session_id \<Rightarrow> bool" where
  "allowAll_owns g cid = True"

subsection \<open>pgOwnershipGuard.ts\<close>

record assignment_row =
  ar_id :: session_id
  ar_hostPod :: "string option"
  ar_generation :: int

text \<open>
  The functions waiting in \<^verbatim>\<open>queue\<close>, and the read the one at its front has issued and not been
  answered yet: with the ids a flush took, every assigned row, or the row of one confirmation.
\<close>

datatype queued_read = QFlush | QResync | QConfirm session_id

datatype read_call = RFlush "session_id list" | RResync | RConfirm session_id

record pg_tracker =
  pt_tracker :: tracker
  pt_pending :: "session_id list"
  pt_flushScheduled :: bool
  pt_queue :: "queued_read list"
  pt_reading :: "read_call option"

definition new_pg_tracker :: "string \<Rightarrow> pg_tracker" where
  "new_pg_tracker pod =
     \<lparr>pt_tracker = new_tracker pod, pt_pending = [], pt_flushScheduled = False, pt_queue = [], pt_reading = None\<rparr>"

text \<open>\<^verbatim>\<open>createPgAssignmentSource.read\<close>: the rows of the ids, or every assigned row.\<close>

definition read_assignments :: "conversations \<Rightarrow> session_id list option \<Rightarrow> assignment_row list" where
  "read_assignments cs ids =
     map (\<lambda>r. \<lparr>ar_id = cr_id r, ar_hostPod = cr_hostPod r, ar_generation = cr_hostGeneration r\<rparr>)
       (filter (\<lambda>r. case ids of Some xs \<Rightarrow> cr_id r \<in> set xs | None \<Rightarrow> cr_hostPod r \<noteq> None) cs)"

text \<open>An empty host name is falsy, like a null one.\<close>

definition row_assignment :: "assignment_row \<Rightarrow> assignment option" where
  "row_assignment r =
     (case ar_hostPod r of
        Some (c # p) \<Rightarrow> Some \<lparr>as_hostPod = c # p, as_generation = ar_generation r\<rparr>
      | _ \<Rightarrow> None)"

definition observeRow :: "tracker \<Rightarrow> assignment_row \<Rightarrow> tracker" where
  "observeRow t r = observe t (ar_id r) (row_assignment r)"

definition apply_rows :: "tracker \<Rightarrow> session_id list \<Rightarrow> assignment_row list \<Rightarrow> tracker" where
  "apply_rows t ids rows =
     (let byId = map_of (rev (map (\<lambda>r. (ar_id r, r)) rows)) in
      foldl (\<lambda>t cid. observeRow t (case byId cid of Some r \<Rightarrow> r | None \<Rightarrow> \<lparr>ar_id = cid, ar_hostPod = None, ar_generation = 0\<rparr>)) t ids)"

definition resync_rows :: "tracker \<Rightarrow> assignment_row list \<Rightarrow> tracker" where
  "resync_rows t rows =
     (let seen = set (map ar_id rows); t1 = foldl observeRow t rows in
      foldl (\<lambda>t cid. if cid \<notin> seen then observe t cid None else t) t1 (cachedIds t1))"

text \<open>The calls only queue their reads.\<close>

definition enqueue :: "queued_read \<Rightarrow> pg_tracker \<Rightarrow> pg_tracker" where
  "enqueue q g = g\<lparr>pt_queue := pt_queue g @ [q]\<rparr>"

definition notify :: "pg_tracker \<Rightarrow> session_id \<Rightarrow> pg_tracker" where
  "notify g cid =
     (let g' = g\<lparr>pt_pending := List.insert cid (pt_pending g)\<rparr> in
      if pt_flushScheduled g then g' else enqueue QFlush (g'\<lparr>pt_flushScheduled := True\<rparr>))"

definition resync :: "pg_tracker \<Rightarrow> pg_tracker" where
  "resync g = enqueue QResync g"

definition confirmOwns :: "pg_tracker \<Rightarrow> session_id \<Rightarrow> pg_tracker" where
  "confirmOwns g cid = enqueue (QConfirm cid) g"

text \<open>
  The queue runs its next function once the one before has settled. A flush takes the pending ids
  before it reads; with none there is nothing to read.
\<close>

definition flush_pending :: "pg_tracker \<Rightarrow> pg_tracker" where
  "flush_pending g =
     (let ids = pt_pending g; g' = g\<lparr>pt_flushScheduled := False, pt_pending := []\<rparr>
      in if ids = [] then g' else g'\<lparr>pt_reading := Some (RFlush ids)\<rparr>)"

definition start_read :: "pg_tracker \<Rightarrow> pg_tracker" where
  "start_read g =
     (case pt_queue g of
        [] \<Rightarrow> g
      | q # qs \<Rightarrow>
          let g' = g\<lparr>pt_queue := qs\<rparr> in
          case q of
            QFlush \<Rightarrow> flush_pending g'
          | QResync \<Rightarrow> g'\<lparr>pt_reading := Some RResync\<rparr>
          | QConfirm cid \<Rightarrow> g'\<lparr>pt_reading := Some (RConfirm cid)\<rparr>)"

text \<open>
  The answer of the read in flight, the rows as they were when the database ran it, \<^const>\<open>None\<close> when it
  fails. A failure is logged, and the ids a flush took are given up until the next resync. The
  second component is what a confirmation answers its caller.
\<close>

definition read_done :: "pg_tracker \<Rightarrow> conversations option \<Rightarrow> pg_tracker \<times> bool option" where
  "read_done g db =
     (case pt_reading g of
        None \<Rightarrow> (g, None)
      | Some rd \<Rightarrow>
          let g' = g\<lparr>pt_reading := None\<rparr> in
          case db of
            None \<Rightarrow> (g', case rd of RConfirm cid \<Rightarrow> Some False | _ \<Rightarrow> None)
          | Some cs \<Rightarrow>
              (case rd of
                 RFlush ids \<Rightarrow> (g'\<lparr>pt_tracker := apply_rows (pt_tracker g) ids (read_assignments cs (Some ids))\<rparr>, None)
               | RResync \<Rightarrow> (g'\<lparr>pt_tracker := resync_rows (pt_tracker g) (read_assignments cs None)\<rparr>, None)
               | RConfirm cid \<Rightarrow>
                   let t = apply_rows (pt_tracker g) [cid] (read_assignments cs (Some [cid]))
                   in (g'\<lparr>pt_tracker := t\<rparr>, Some (owns t cid))))"

subsection \<open>The users of the guard in manager.ts\<close>

text \<open>
  The pre-filter of \<^verbatim>\<open>wireEventLog\<close>: append, or drop and count; the first drop of a
  conversation also stops its local run.
\<close>

datatype persist_action = AppendIt | DropIt nat | DropAndStop

definition persist_event :: "tracker \<Rightarrow> (session_id \<rightharpoonup> nat) \<Rightarrow> session_id \<Rightarrow> tracker \<times> (session_id \<rightharpoonup> nat) \<times> persist_action" where
  "persist_event t drops cid =
     (case canWrite t cid of
        (t', True) \<Rightarrow> (t', drops, AppendIt)
      | (t', False) \<Rightarrow>
          let n = (case drops cid of None \<Rightarrow> 0 | Some k \<Rightarrow> k) + 1
          in (t', drops(cid \<mapsto> n), if n = 1 then DropAndStop else DropIt n))"

text \<open>\<^verbatim>\<open>reviveFromMirror\<close>: whether a push is acted on.\<close>

definition admit_push :: "tracker \<Rightarrow> session_id \<Rightarrow> int \<Rightarrow> tracker \<times> bool" where
  "admit_push t cid expectedGen =
     (case canWrite t cid of
        (t', True) \<Rightarrow> (t', True)
      | (t', False) \<Rightarrow>
          let observed = observedGeneration t' cid;
              pushIsNewer = (expectedGen > 0 \<and> (case observed of None \<Rightarrow> True | Some o' \<Rightarrow> expectedGen > o'))
          in if \<not> pushIsNewer then (t', False) else (adoptAssignment t' cid expectedGen, True))"

subsection \<open>The guard's interface\<close>

text \<open>
  What its clients rely on: a decision does not change who is taken to own what, and an owned
  conversation may be written.
\<close>

locale ownership_guard =
  fixes can :: "'g \<Rightarrow> session_id \<Rightarrow> 'g \<times> bool"
    and own :: "'g \<Rightarrow> session_id \<Rightarrow> bool"
  assumes can_keeps: "own (fst (can g x)) y = own g y"
    and can_stable: "snd (can (fst (can g x)) y) = snd (can g y)"
    and own_can: "own g x \<Longrightarrow> snd (can g x)"
begin

text \<open>A burst of events of one conversation gets one verdict, however long it is.\<close>

primrec verdicts :: "'g \<Rightarrow> session_id list \<Rightarrow> 'g \<times> bool list" where
  "verdicts g [] = (g, [])"
| "verdicts g (x # xs) = (let (g', b) = can g x; (g'', bs) = verdicts g' xs in (g'', b # bs))"

lemma verdicts_uniform: "snd (verdicts g xs) = map (\<lambda>x. snd (can g x)) xs"
proof (induction xs arbitrary: g)
  case Nil
  then show ?case by simp
next
  case (Cons x xs)
  have "snd (verdicts (fst (can g x)) xs) = map (\<lambda>y. snd (can g y)) xs"
    using Cons.IH [of "fst (can g x)"] by (simp add: can_stable)
  then show ?case by (simp add: split_beta Let_def)
qed

lemma verdicts_keep: "own (fst (verdicts g xs)) y = own g y"
  by (induction xs arbitrary: g) (simp_all add: split_beta Let_def can_keeps)

lemma owned_never_dropped: "own g x \<Longrightarrow> set (snd (verdicts g (replicate n x))) \<subseteq> {True}"
  by (auto simp: verdicts_uniform own_can)

end

lemma canWrite_assignments [simp]:
  "tr_assignments (fst (canWrite t cid)) = tr_assignments t" "tr_self (fst (canWrite t cid)) = tr_self t"
  "tr_fired (fst (canWrite t cid)) = tr_fired t"
  by (auto simp: canWrite_def split: option.splits)

lemma snd_canWrite: "snd (canWrite t cid) \<longleftrightarrow> cached t cid = None \<or> owns t cid"
  by (auto simp: canWrite_def owns_def split: option.splits)

lemma cached_canWrite [simp]: "cached (fst (canWrite t cid)) d = cached t d"
  by (simp add: cached_def)

interpretation tracker: ownership_guard canWrite owns
  by unfold_locales (auto simp: snd_canWrite owns_def split: option.splits)

interpretation allow_all: ownership_guard allowAll_canWrite allowAll_owns
  by unfold_locales (auto simp: allowAll_canWrite_def allowAll_owns_def)

subsection \<open>Observing\<close>

lemma observe_self [simp]: "tr_self (observe t cid a) = tr_self t"
  by (cases a) (simp_all add: observe_def Let_def fire_def)

lemma cached_observe [simp]: "cached (observe t cid a) = (cached t)(cid := a)"
  by (cases a) (auto simp: observe_def Let_def fire_def cached_def fun_eq_iff)

lemma owns_observe:
  "owns (observe t cid a) d =
    (if d = cid then (case a of None \<Rightarrow> False | Some x \<Rightarrow> as_hostPod x = tr_self t) else owns t d)"
  by (simp add: owns_def split: option.splits)

definition own_change :: "session_id \<Rightarrow> bool \<Rightarrow> bool \<Rightarrow> int \<Rightarrow> own_event list" where
  "own_change cid was now gen = (if was = now then [] else if now then [Gained cid gen] else [Lost cid])"

lemma observe_fired:
  "tr_fired (observe t cid a) = tr_fired t
     @ own_change cid (owns t cid) (owns (observe t cid a) cid) (case a of None \<Rightarrow> 0 | Some x \<Rightarrow> as_generation x)"
  unfolding owns_observe
  by (cases a) (auto simp: observe_def Let_def fire_def own_change_def)

text \<open>Which conversations the callbacks say are held, and whether they ever repeat themselves.\<close>

fun told_held :: "own_event list \<Rightarrow> session_id \<Rightarrow> bool" where
  "told_held [] cid = False"
| "told_held (x # xs) cid =
     (case x of
        Gained d _ \<Rightarrow> if d = cid then True else told_held xs cid
      | Lost d \<Rightarrow> if d = cid then False else told_held xs cid)"

fun alternating :: "own_event list \<Rightarrow> bool" where
  "alternating [] = True"
| "alternating (x # xs) =
     (alternating xs \<and> (case x of Gained d _ \<Rightarrow> \<not> told_held xs d | Lost d \<Rightarrow> told_held xs d))"

text \<open>The callbacks so far, newest first, agree with the cache.\<close>

definition fired_ok :: "tracker \<Rightarrow> bool" where
  "fired_ok t \<longleftrightarrow> alternating (rev (tr_fired t)) \<and> (\<forall>cid. told_held (rev (tr_fired t)) cid = owns t cid)"

lemma fired_ok_new [inv_intros]: "fired_ok (new_tracker pod)"
  by (simp add: fired_ok_def new_tracker_def owns_def cached_def)

lemma fired_ok_observe [inv_intros]: "fired_ok t \<Longrightarrow> fired_ok (observe t cid a)"
  by (auto simp: fired_ok_def observe_fired own_change_def owns_observe)

lemma fired_ok_canWrite [inv_intros]: "fired_ok t \<Longrightarrow> fired_ok (fst (canWrite t cid))"
  by (simp add: fired_ok_def tracker.can_keeps)

lemma fired_ok_foldl:
  "fired_ok t \<Longrightarrow> (\<And>t x. fired_ok t \<Longrightarrow> fired_ok (f t x)) \<Longrightarrow> fired_ok (foldl f t xs)"
  by (induction xs arbitrary: t) auto

text \<open>A claim is only held for a cached conversation.\<close>

definition claims_ok :: "tracker \<Rightarrow> bool" where
  "claims_ok t \<longleftrightarrow> (\<forall>cid. tr_claimedGen t cid \<noteq> None \<longrightarrow> cached t cid \<noteq> None)"

lemma claims_ok_observe [inv_intros]: "claims_ok t \<Longrightarrow> claims_ok (observe t cid a)"
  by (cases a) (auto simp: claims_ok_def observe_def Let_def fire_def cached_def)

lemma claims_ok_canWrite [inv_intros]: "claims_ok t \<Longrightarrow> claims_ok (fst (canWrite t cid))"
  by (auto simp: claims_ok_def canWrite_def cached_def split: option.splits)


subsection \<open>The cache after a read of the rows\<close>

definition row_of :: "conversation_row \<Rightarrow> assignment_row" where
  "row_of r = \<lparr>ar_id = cr_id r, ar_hostPod = cr_hostPod r, ar_generation = cr_hostGeneration r\<rparr>"

text \<open>What the cache should hold for a conversation.\<close>

definition fresh :: "tracker \<Rightarrow> conversations \<Rightarrow> session_id \<Rightarrow> bool" where
  "fresh t cs cid \<longleftrightarrow> cached t cid = Option.bind (conversation_of cs cid) (\<lambda>r. row_assignment (row_of r))"

lemma find_read_assignments:
  "distinct (map cr_id cs) \<Longrightarrow>
    List.find (\<lambda>r. ar_id r = cid) (read_assignments cs ids) =
    (case conversation_of cs cid of
       None \<Rightarrow> None
     | Some r \<Rightarrow> if (case ids of Some xs \<Rightarrow> cid \<in> set xs | None \<Rightarrow> cr_hostPod r \<noteq> None) then Some (row_of r) else None)"
proof (induction cs)
  case Nil
  then show ?case by (simp add: read_assignments_def conversation_of_def)
next
  case (Cons r cs)
  show ?case
  proof (cases "cr_id r = cid")
    case True
    with Cons.prems have "conversation_of cs cid = None"
      by (auto simp: conversation_of_def find_None_iff image_iff)
    with Cons True show ?thesis
      by (auto simp: read_assignments_def conversation_of_def row_of_def split: option.splits)
  next
    case False
    with Cons show ?thesis
      by (auto simp: read_assignments_def conversation_of_def row_of_def split: option.splits)
  qed
qed

lemma distinct_read_assignments:
  "distinct (map cr_id cs) \<Longrightarrow> distinct (map ar_id (read_assignments cs ids))"
  by (induction cs) (auto simp: read_assignments_def)

lemma ar_id_find: "List.find (\<lambda>r. ar_id r = cid) rows = Some r \<Longrightarrow> ar_id r = cid"
  by (auto simp: find_Some_iff)

lemma cached_foldl_observeRow:
  "distinct (map ar_id rows) \<Longrightarrow>
    cached (foldl observeRow t rows) cid =
    (case List.find (\<lambda>r. ar_id r = cid) rows of Some r \<Rightarrow> row_assignment r | None \<Rightarrow> cached t cid)"
proof (induction rows arbitrary: t)
  case Nil
  then show ?case by simp
next
  case (Cons r rows)
  have "List.find (\<lambda>r. ar_id r = cid) rows = None" if "ar_id r = cid"
    using Cons.prems that by (auto simp: find_None_iff image_iff)
  with Cons show ?case by (auto simp: observeRow_def split: option.splits)
qed

lemma cached_drop_unseen:
  "cached (foldl (\<lambda>t cid. if cid \<notin> seen then observe t cid None else t) t ids) d =
    (if d \<in> set ids \<and> d \<notin> seen then None else cached t d)"
  by (induction ids arbitrary: t) auto

lemma mem_cachedIds: "d \<in> set (cachedIds t) \<longleftrightarrow> cached t d \<noteq> None"
  by (simp add: cachedIds_def cached_def map_of_eq_None_iff)

lemma resync_rows_fresh:
  assumes "distinct (map cr_id cs)"
  shows "fresh (resync_rows t (read_assignments cs None)) cs cid"
proof -
  let ?rows = "read_assignments cs None"
  let ?t1 = "foldl observeRow t ?rows"
  have "cached (resync_rows t ?rows) cid = (if cid \<in> set (map ar_id ?rows) then cached ?t1 cid else None)"
    by (auto simp: resync_rows_def Let_def cached_drop_unseen mem_cachedIds)
  moreover have "cid \<in> set (map ar_id ?rows) \<longleftrightarrow> List.find (\<lambda>r. ar_id r = cid) ?rows \<noteq> None"
    by (auto simp: find_None_iff image_iff)
  ultimately show ?thesis
    using cached_foldl_observeRow [OF distinct_read_assignments [OF assms], of t None cid]
    by (auto simp: fresh_def find_read_assignments [OF assms] row_assignment_def row_of_def split: option.splits)
qed

lemma map_of_rev_find:
  "distinct (map ar_id rows) \<Longrightarrow>
    map_of (rev (map (\<lambda>r. (ar_id r, r)) rows)) cid = List.find (\<lambda>r. ar_id r = cid) rows"
proof (induction rows)
  case Nil
  then show ?case by simp
next
  case (Cons r rows)
  then have "List.find (\<lambda>x. ar_id x = ar_id r) rows = None" by (auto simp: find_None_iff image_iff)
  with Cons show ?case by (auto simp: map_add_def split: option.splits)
qed

lemma apply_rows_cached:
  assumes "distinct (map cr_id cs)"
  shows "cached (apply_rows t ids (read_assignments cs (Some xs))) cid =
    (if cid \<in> set ids
     then (if cid \<in> set xs then Option.bind (conversation_of cs cid) (\<lambda>r. row_assignment (row_of r)) else None)
     else cached t cid)"
proof -
  let ?byId = "map_of (rev (map (\<lambda>r. (ar_id r, r)) (read_assignments cs (Some xs))))"
  have by_id: "?byId d = (case conversation_of cs d of None \<Rightarrow> None | Some r \<Rightarrow> if d \<in> set xs then Some (row_of r) else None)" for d
    using map_of_rev_find [OF distinct_read_assignments [OF assms]] find_read_assignments [OF assms, of d "Some xs"]
    by (auto split: option.splits)
  have cr: "cr_id r = d" if "conversation_of cs d = Some r" for d r
    using that by (auto simp: conversation_of_def find_Some_iff)
  have step: "cached (observeRow u (case ?byId d of Some r \<Rightarrow> r | None \<Rightarrow> \<lparr>ar_id = d, ar_hostPod = None, ar_generation = 0\<rparr>))
      = (cached u)(d := if d \<in> set xs then Option.bind (conversation_of cs d) (\<lambda>r. row_assignment (row_of r)) else None)" for u d
    using cr [of d] by (auto simp: observeRow_def by_id row_of_def row_assignment_def split: option.splits)
  show ?thesis
    unfolding apply_rows_def Let_def
    by (induction ids arbitrary: t) (auto simp: step)
qed

subsection \<open>Every way the guard changes\<close>

inductive guard_step :: "pg_tracker \<Rightarrow> pg_tracker \<Rightarrow> bool" where
  notified: "guard_step g (notify g cid)"
| resynced: "guard_step g (resync g)"
| confirming: "guard_step g (confirmOwns g cid)"
| reading: "pt_reading g = None \<Longrightarrow> guard_step g (start_read g)"
| answered: "pt_reading g \<noteq> None \<Longrightarrow> guard_step g (fst (read_done g db))"
| asked: "guard_step g (g\<lparr>pt_tracker := fst (canWrite (pt_tracker g) cid)\<rparr>)"
| pushed: "guard_step g (g\<lparr>pt_tracker := fst (admit_push (pt_tracker g) cid gen)\<rparr>)"

inductive guard_reachable :: "string \<Rightarrow> pg_tracker \<Rightarrow> bool" for pod where
  start: "guard_reachable pod (new_pg_tracker pod)"
| step: "guard_reachable pod g \<Longrightarrow> guard_step g g' \<Longrightarrow> guard_reachable pod g'"

text \<open>The flag is up exactly while a flush waits in the queue, and ids wait only for a flush.\<close>

definition flush_ok :: "pg_tracker \<Rightarrow> bool" where
  "flush_ok g \<longleftrightarrow> (pt_pending g \<noteq> [] \<longrightarrow> pt_flushScheduled g)
     \<and> filter ((=) QFlush) (pt_queue g) = (if pt_flushScheduled g then [QFlush] else [])"

definition guard_ok :: "pg_tracker \<Rightarrow> bool" where
  "guard_ok g \<longleftrightarrow> fired_ok (pt_tracker g) \<and> claims_ok (pt_tracker g) \<and> flush_ok g"

lemma flush_ok_enqueue:
  "flush_ok g \<Longrightarrow> q \<noteq> QFlush \<Longrightarrow> flush_ok (enqueue q g)"
  by (auto simp: flush_ok_def enqueue_def)

lemma flush_ok_notify: "flush_ok g \<Longrightarrow> flush_ok (notify g cid)"
  by (auto simp: flush_ok_def notify_def enqueue_def Let_def)

lemma flush_ok_start_read: "flush_ok g \<Longrightarrow> flush_ok (start_read g)"
  by (auto simp: flush_ok_def start_read_def flush_pending_def Let_def split: list.splits queued_read.splits if_splits)

lemma read_done_keeps [simp]:
  "pt_pending (fst (read_done g db)) = pt_pending g" "pt_flushScheduled (fst (read_done g db)) = pt_flushScheduled g"
  "pt_queue (fst (read_done g db)) = pt_queue g" "pt_reading (fst (read_done g db)) = None"
  by (auto simp: read_done_def Let_def split: option.splits read_call.splits)

abbreviation tracker_ok :: "tracker \<Rightarrow> bool" where
  "tracker_ok t \<equiv> fired_ok t \<and> claims_ok t"

lemma tracker_ok_foldl:
  "tracker_ok t \<Longrightarrow> (\<And>t x. tracker_ok t \<Longrightarrow> tracker_ok (f t x)) \<Longrightarrow> tracker_ok (foldl f t xs)"
  by (induction xs arbitrary: t) auto

lemma tracker_ok_observe: "tracker_ok t \<Longrightarrow> tracker_ok (observe t cid a)"
  by (simp add: fired_ok_observe claims_ok_observe)

lemma tracker_ok_apply: "tracker_ok t \<Longrightarrow> tracker_ok (apply_rows t ids rows)"
  unfolding apply_rows_def Let_def by (rule tracker_ok_foldl) (simp_all add: observeRow_def tracker_ok_observe)

lemma tracker_ok_resync: "tracker_ok t \<Longrightarrow> tracker_ok (resync_rows t rows)"
proof -
  assume "tracker_ok t"
  then have "tracker_ok (foldl observeRow t rows)"
    by (rule tracker_ok_foldl) (simp add: observeRow_def tracker_ok_observe)
  then show ?thesis
    unfolding resync_rows_def Let_def by (rule tracker_ok_foldl) (simp add: tracker_ok_observe)
qed

lemma tracker_ok_canWrite: "tracker_ok t \<Longrightarrow> tracker_ok (fst (canWrite t cid))"
  by (simp add: fired_ok_canWrite claims_ok_canWrite)

lemma tracker_ok_push: "tracker_ok t \<Longrightarrow> tracker_ok (fst (admit_push t cid gen))"
  using tracker_ok_canWrite [of t cid]
  by (auto simp: admit_push_def adoptAssignment_def Let_def tracker_ok_observe split: prod.splits bool.splits)

lemma tracker_ok_read_done: "tracker_ok (pt_tracker g) \<Longrightarrow> tracker_ok (pt_tracker (fst (read_done g db)))"
  using tracker_ok_apply [of "pt_tracker g"] tracker_ok_resync [of "pt_tracker g"]
  by (auto simp: read_done_def Let_def split: option.splits read_call.splits)

lemma foldl_self:
  "(\<And>t x. tr_self (f t x) = tr_self t) \<Longrightarrow> tr_self (foldl f t xs) = tr_self t"
  by (induction xs arbitrary: t) auto

lemma read_done_self [simp]: "tr_self (pt_tracker (fst (read_done g db))) = tr_self (pt_tracker g)"
  by (auto simp: read_done_def apply_rows_def resync_rows_def observeRow_def Let_def foldl_self
      split: option.splits read_call.splits)

lemma start_read_tracker [simp]: "pt_tracker (start_read g) = pt_tracker g"
  by (auto simp: start_read_def flush_pending_def Let_def split: list.splits queued_read.splits)

lemma guard_step_ok [inv_intros]:
  assumes "guard_step g g'" and "guard_ok g"
  shows "guard_ok g'"
  using assms
proof cases
  case (notified cid)
  with assms(2) flush_ok_notify [of g cid] show ?thesis by (simp add: guard_ok_def notify_def enqueue_def Let_def)
next
  case resynced
  with assms(2) flush_ok_enqueue [of g QResync] show ?thesis by (simp add: guard_ok_def resync_def enqueue_def)
next
  case (confirming cid)
  with assms(2) flush_ok_enqueue [of g "QConfirm cid"] show ?thesis by (simp add: guard_ok_def confirmOwns_def enqueue_def)
next
  case reading
  with assms(2) flush_ok_start_read [of g] show ?thesis by (simp add: guard_ok_def)
next
  case (answered db)
  with assms(2) tracker_ok_read_done [of g db] show ?thesis by (simp add: guard_ok_def flush_ok_def)
next
  case (asked cid)
  with assms(2) tracker_ok_canWrite [of "pt_tracker g" cid] show ?thesis by (simp add: guard_ok_def flush_ok_def)
next
  case (pushed cid gen)
  with assms(2) tracker_ok_push [of "pt_tracker g" cid gen] show ?thesis by (simp add: guard_ok_def flush_ok_def)
qed

lemma guard_reachable_ok: "guard_reachable pod g \<Longrightarrow> guard_ok g"
proof (induction rule: guard_reachable.induct)
  case start
  then show ?case
    by (simp add: guard_ok_def flush_ok_def new_pg_tracker_def fired_ok_new) (simp add: claims_ok_def new_tracker_def)
next
  case (step g g')
  then show ?case by (blast intro: guard_step_ok)
qed

subsection \<open>What becomes of a notification\<close>

text \<open>
  A read that names the conversation is still to come: it is among the ids the queued flush will
  take, or among those of the read in flight. \<^verbatim>\<open>reads_before\<close> counts the turns of the queue until the
  read is in flight.
\<close>

definition reading_of :: "pg_tracker \<Rightarrow> session_id \<Rightarrow> bool" where
  "reading_of g cid = (case pt_reading g of Some (RFlush ids) \<Rightarrow> cid \<in> set ids | _ \<Rightarrow> False)"

definition awaits_read :: "pg_tracker \<Rightarrow> session_id \<Rightarrow> bool" where
  "awaits_read g cid \<longleftrightarrow> cid \<in> set (pt_pending g) \<and> QFlush \<in> set (pt_queue g) \<or> reading_of g cid"

definition reads_before :: "pg_tracker \<Rightarrow> session_id \<Rightarrow> nat" where
  "reads_before g cid =
     (if reading_of g cid then 0
      else 2 * length (takeWhile ((\<noteq>) QFlush) (pt_queue g)) + (if pt_reading g = None then 1 else 2))"

lemma takeWhile_queue: "QFlush \<in> set qs \<Longrightarrow> takeWhile ((\<noteq>) QFlush) (qs @ rest) = takeWhile ((\<noteq>) QFlush) qs"
  by (rule takeWhile_append1) auto

lemma enqueue_awaits:
  "awaits_read g cid \<Longrightarrow> awaits_read (enqueue q g) cid \<and> reads_before (enqueue q g) cid = reads_before g cid"
  by (auto simp: awaits_read_def reads_before_def enqueue_def reading_of_def takeWhile_queue split: option.splits read_call.splits)

lemma notify_awaits:
  assumes "flush_ok g" shows "awaits_read (notify g cid) cid"
proof -
  have "QFlush \<in> set (pt_queue g)" if "pt_flushScheduled g"
  proof -
    from assms that have "filter ((=) QFlush) (pt_queue g) = [QFlush]" by (simp add: flush_ok_def)
    then have "QFlush \<in> set (filter ((=) QFlush) (pt_queue g))" by simp
    then show ?thesis by simp
  qed
  then show ?thesis by (auto simp: awaits_read_def notify_def enqueue_def Let_def)
qed

lemma notify_keeps_awaits:
  "awaits_read g cid \<Longrightarrow> awaits_read (notify g d) cid \<and> reads_before (notify g d) cid \<le> reads_before g cid"
  by (auto simp: awaits_read_def reads_before_def notify_def enqueue_def reading_of_def Let_def takeWhile_queue
      split: option.splits read_call.splits)

lemma start_read_awaits:
  assumes "awaits_read g cid" and "pt_reading g = None"
  shows "awaits_read (start_read g) cid \<and> reads_before (start_read g) cid < reads_before g cid"
proof -
  from assms have p: "cid \<in> set (pt_pending g)" "QFlush \<in> set (pt_queue g)" by (auto simp: awaits_read_def reading_of_def)
  then obtain q qs where q: "pt_queue g = q # qs" by (cases "pt_queue g") auto
  show ?thesis
    using p q assms(2) by (cases q) (auto simp: awaits_read_def reads_before_def reading_of_def start_read_def flush_pending_def Let_def)
qed

lemma read_done_awaits:
  assumes "awaits_read g cid" and "pt_reading g \<noteq> None" and "\<not> reading_of g cid"
  shows "awaits_read (fst (read_done g db)) cid \<and> reads_before (fst (read_done g db)) cid < reads_before g cid"
  using assms by (auto simp: awaits_read_def reads_before_def reading_of_def)

lemma read_done_fresh:
  assumes "reading_of g cid" and "distinct (map cr_id cs)"
  shows "fresh (pt_tracker (fst (read_done g (Some cs)))) cs cid"
  using assms by (auto simp: reading_of_def read_done_def fresh_def apply_rows_cached split: option.splits read_call.splits)

lemma guard_step_awaits:
  assumes "guard_step g g'" and "awaits_read g cid"
  shows "awaits_read g' cid \<and> reads_before g' cid \<le> reads_before g cid
    \<or> reading_of g cid \<and> (\<exists>db. g' = fst (read_done g db))"
  using assms
proof cases
  case (notified d)
  with assms(2) notify_keeps_awaits show ?thesis by simp
next
  case resynced
  with assms(2) enqueue_awaits show ?thesis by (simp add: resync_def)
next
  case (confirming d)
  with assms(2) enqueue_awaits show ?thesis by (simp add: confirmOwns_def)
next
  case reading
  with assms(2) start_read_awaits show ?thesis by (simp add: less_imp_le)
next
  case (answered db)
  with assms(2) read_done_awaits [of g cid db] show ?thesis by (cases "reading_of g cid") auto
qed (use assms(2) in \<open>simp_all add: awaits_read_def reads_before_def reading_of_def\<close>)

subsection \<open>Properties\<close>

lemma row_assignment_SomeD:
  "row_assignment r = Some a \<Longrightarrow> ar_hostPod r = Some (as_hostPod a) \<and> ar_generation r = as_generation a \<and> as_hostPod a \<noteq> []"
  by (auto simp: row_assignment_def split: option.splits list.splits)

definition demo_conv :: "string option \<Rightarrow> int \<Rightarrow> conversation_row" where
  "demo_conv pod gen =
     \<lparr>cr_id = ''c1'', cr_model = None, cr_owner = Some ''ann'', cr_parentId = None, cr_sandboxRef = None,
      cr_creatorPod = None, cr_phase = None, cr_hostPod = pod, cr_hostGeneration = gen, cr_visibility = ''shared''\<rparr>"

text \<open>
  C10 (invariant). Whatever notifications, resyncs, confirmations, answers, failed reads, questions and
  pushes arrive and in whatever order: the gained and lost callbacks of each conversation strictly
  alternate, beginning with a gain, and the last one says what the cache says, so a listener that
  starts on a gain and stops on a loss never starts twice. A notification is not lost: once the
  conversation is notified a read that names it is to come, no step takes that away but the answer
  of that very read, and none moves it back in the queue, while every turn of the queue brings it
  nearer. If that read succeeds, the cache holds for the conversation what its row said; if it
  fails the ids it took are given up, until the next notification or resync.
\<close>

theorem ownership_callbacks_alternate:
  assumes "guard_reachable pod g"
  shows "alternating (rev (tr_fired (pt_tracker g)))
    \<and> told_held (rev (tr_fired (pt_tracker g))) cid = owns (pt_tracker g) cid
    \<and> awaits_read (notify g cid) cid
    \<and> (guard_step g g' \<longrightarrow> awaits_read g cid \<longrightarrow>
          awaits_read g' cid \<and> reads_before g' cid \<le> reads_before g cid
        \<or> reading_of g cid \<and> (\<exists>db. g' = fst (read_done g db)))
    \<and> (awaits_read g cid \<longrightarrow> \<not> reading_of g cid \<longrightarrow>
        (if pt_reading g = None then reads_before (start_read g) cid < reads_before g cid
         else reads_before (fst (read_done g db)) cid < reads_before g cid))
    \<and> (reading_of g cid \<longrightarrow> distinct (map cr_id cs) \<longrightarrow> fresh (pt_tracker (fst (read_done g (Some cs)))) cs cid)"
  using guard_reachable_ok [OF assms] notify_awaits [of g cid] guard_step_awaits [of g g' cid] start_read_awaits [of g cid]
    read_done_awaits [of g cid db] read_done_fresh [of g cid cs]
  by (simp add: guard_ok_def fired_ok_def)

theorem ownership_callbacks_alternate_witness:
  "let g = start_read (notify (new_pg_tracker ''a'') ''c1''); cs = [demo_conv (Some ''a'') 1]
   in reading_of g ''c1'' \<and> fresh (pt_tracker (fst (read_done g (Some cs)))) cs ''c1''
    \<and> told_held (rev (tr_fired (pt_tracker (fst (read_done g (Some cs)))))) ''c1''"
proof -
  define g where "g = start_read (notify (new_pg_tracker ''a'') ''c1'')"
  have "pt_reading (notify (new_pg_tracker ''a'') ''c1'') = None"
    by (simp add: notify_def enqueue_def new_pg_tracker_def Let_def)
  then have r: "guard_reachable ''a'' g"
    unfolding g_def by (blast intro: guard_reachable.intros guard_step.intros)
  have rd: "reading_of g ''c1''" "pt_reading g \<noteq> None" "tr_self (pt_tracker g) = ''a''"
    by (simp_all add: g_def reading_of_def start_read_def notify_def enqueue_def flush_pending_def new_pg_tracker_def
        new_tracker_def Let_def)
  let ?cs = "[demo_conv (Some ''a'') 1]"
  have f: "fresh (pt_tracker (fst (read_done g (Some ?cs)))) ?cs ''c1''"
    using ownership_callbacks_alternate [OF r, of "''c1''" g None ?cs] rd(1) by simp
  have "guard_reachable ''a'' (fst (read_done g (Some ?cs)))"
    using r rd(2) by (blast intro: guard_reachable.intros guard_step.intros)
  from ownership_callbacks_alternate [OF this, of "''c1''"]
  have "told_held (rev (tr_fired (pt_tracker (fst (read_done g (Some ?cs)))))) ''c1''
      = owns (pt_tracker (fst (read_done g (Some ?cs)))) ''c1''" by blast
  moreover have "tr_self (pt_tracker (fst (read_done g (Some ?cs)))) = ''a''"
    by (simp add: rd(3))
  ultimately show ?thesis
    using f rd(1) unfolding g_def [symmetric] Let_def
    by (simp add: fresh_def owns_def demo_conv_def conversation_of_def row_assignment_def row_of_def)
qed

text \<open>
  A resync makes the cache say, for every conversation, exactly what its row
  says: assigned to the row's host at the row's generation, and nothing for an unassigned or
  deleted one, whatever the cache held before; in particular the pod takes itself to own
  precisely the conversations whose row names it.
\<close>

theorem resync_refreshes_cache:
  assumes "pt_reading g = Some RResync" and "distinct (map cr_id cs)" and "tr_self (pt_tracker g) \<noteq> []"
  shows "fresh (pt_tracker (fst (read_done g (Some cs)))) cs cid
    \<and> (owns (pt_tracker (fst (read_done g (Some cs)))) cid \<longleftrightarrow>
        (case conversation_of cs cid of
           None \<Rightarrow> False
         | Some r \<Rightarrow> cr_hostPod r = Some (tr_self (pt_tracker g))))"
proof -
  have f: "fresh (resync_rows (pt_tracker g) (read_assignments cs None)) cs cid" by (rule resync_rows_fresh [OF assms(2)])
  have t: "pt_tracker (fst (read_done g (Some cs))) = resync_rows (pt_tracker g) (read_assignments cs None)"
    by (simp add: read_done_def assms(1))
  from f assms(3) read_done_self [of g "Some cs"] show ?thesis
    by (auto simp: t fresh_def owns_def row_assignment_def row_of_def split: option.splits list.splits)
qed

text \<open>
  C34 (equivalence). The pre-filter agrees with the authority: while the cache is fresh for a
  conversation, the pod never drops an event the row would let it append, and an event of a
  conversation it owns passes the fence of the append statement at the generation it presents.
\<close>

theorem guard_agrees_with_fence:
  assumes "fresh t cs cid"
  shows "(fenceClause (pod_fence (tr_self t)) cs cid g \<longrightarrow> snd (canWrite t cid))
    \<and> (owns t cid \<longrightarrow>
        fenceClause (Some \<lparr>fence_pod = tr_self t, fence_generation = observedGeneration t\<rparr>) cs cid
          (observedGeneration t cid))"
proof (cases "conversation_of cs cid")
  case None
  with assms show ?thesis by (simp add: fresh_def fenceClause_def pod_fence_def owns_def)
next
  case (Some r)
  with assms have c: "cached t cid = row_assignment (row_of r)" by (simp add: fresh_def)
  have "snd (canWrite t cid)" if "cr_hostPod r = Some (tr_self t)"
    using that by (cases "tr_self t") (simp_all add: snd_canWrite c owns_def row_assignment_def row_of_def)
  moreover have "cr_hostPod r = Some (tr_self t) \<and> observedGeneration t cid = Some (cr_hostGeneration r)" if "owns t cid"
  proof -
    from that obtain a where a: "row_assignment (row_of r) = Some a" "as_hostPod a = tr_self t"
      by (auto simp: owns_def c split: option.splits)
    with row_assignment_SomeD [OF a(1)] show ?thesis by (simp add: observedGeneration_def c row_of_def)
  qed
  ultimately show ?thesis using Some by (simp add: fenceClause_def pod_fence_def)
qed

theorem guard_agrees_with_fence_witness:
  "fenceClause (Some \<lparr>fence_pod = ''a'', fence_generation = (\<lambda>_. Some 2)\<rparr>) [demo_conv (Some ''a'') 2] ''c1'' (Some 2)
   \<and> snd (canWrite (observe (new_tracker ''a'') ''c1'' (Some \<lparr>as_hostPod = ''a'', as_generation = 2\<rparr>)) ''c1'')"
  using guard_agrees_with_fence [of "observe (new_tracker ''a'') ''c1'' (Some \<lparr>as_hostPod = ''a'', as_generation = 2\<rparr>)"
      "[demo_conv (Some ''a'') 2]" "''c1''" "Some 2"]
  by (simp add: fresh_def demo_conv_def conversation_of_def row_assignment_def row_of_def fenceClause_def pod_fence_def
      new_tracker_def owns_def observedGeneration_def)

text \<open>
  A revive pushed by the controller is refused exactly when the cache holds the
  conversation for another pod and the pushed generation is not positive or not newer than the
  cached one; an accepted push leaves the pod able to write.
\<close>

theorem admit_push_fences_stale:
  "(\<not> snd (admit_push t cid gen) \<longleftrightarrow>
      (case cached t cid of
         None \<Rightarrow> False
       | Some a \<Rightarrow> as_hostPod a \<noteq> tr_self t \<and> (gen \<le> 0 \<or> gen \<le> as_generation a)))
   \<and> snd (canWrite (fst (admit_push t cid gen)) cid) = snd (admit_push t cid gen)"
proof (cases "snd (canWrite t cid)")
  case True
  then have "admit_push t cid gen = (fst (canWrite t cid), True)"
    by (auto simp: admit_push_def split: prod.splits)
  with True show ?thesis by (auto simp: snd_canWrite owns_def tracker.can_stable split: option.splits)
next
  case False
  then obtain a where a: "cached t cid = Some a" "as_hostPod a \<noteq> tr_self t"
    by (auto simp: snd_canWrite owns_def split: option.splits)
  then have cw: "canWrite t cid = (t, False)" by (simp add: canWrite_def)
  show ?thesis
    using a by (auto simp: admit_push_def cw observedGeneration_def adoptAssignment_def Let_def snd_canWrite owns_def)
qed

end
