(* ===== verification/Conversation_Registry.thy ===== *)
theory Conversation_Registry
  imports Pg_Schema
begin

text \<open>
  The registry of conversations (\<^verbatim>\<open>session/pgConversationRegistry.ts\<close> over the
  \<^verbatim>\<open>conversations\<close> rows, and the single-replica \<^verbatim>\<open>noopRegistry\<close> of
  \<^verbatim>\<open>session/conversationRegistry.ts\<close>), the resume guard that reads it
  (\<^verbatim>\<open>session/resumeGuard.ts\<close>), and the access decision of \<^verbatim>\<open>session/visibility.ts\<close>
  and \<^verbatim>\<open>session/access.ts\<close>. A write is best effort: its statement may fail (the flag
  \<open>ok\<close>) and then changes nothing.
\<close>

subsection \<open>The registry\<close>

record conversation_spec =
  sp_model :: "string option"
  sp_owner :: "string option"
  sp_parentId :: "string option"
  sp_sandboxRef :: "string option"
  sp_creatorPod :: "string option"
  sp_private :: bool

datatype conversation_phase = PhaseAssigned | PhaseSuspended

record conversation_record =
  rc_id :: session_id
  rc_spec :: conversation_spec
  rc_phase :: "conversation_phase option"
  rc_hostPod :: "string option"
  rc_generation :: int

text \<open>\<^verbatim>\<open>x ? { k: x } : {}\<close>: an empty string is left out like a null.\<close>

definition truthy :: "string option \<Rightarrow> string option" where
  "truthy x = (case x of Some (c # cs) \<Rightarrow> Some (c # cs) | _ \<Rightarrow> None)"

definition phase_of :: "string option \<Rightarrow> conversation_phase option" where
  "phase_of x =
     (if x = Some ''Assigned'' then Some PhaseAssigned
      else if x = Some ''Suspended'' then Some PhaseSuspended else None)"

definition phase_text :: "conversation_phase \<Rightarrow> string" where
  "phase_text p = (case p of PhaseAssigned \<Rightarrow> ''Assigned'' | PhaseSuspended \<Rightarrow> ''Suspended'')"

definition toRecord :: "conversation_row \<Rightarrow> conversation_record" where
  "toRecord r =
     \<lparr>rc_id = cr_id r,
      rc_spec = \<lparr>sp_model = truthy (cr_model r), sp_owner = truthy (cr_owner r), sp_parentId = truthy (cr_parentId r),
        sp_sandboxRef = truthy (cr_sandboxRef r), sp_creatorPod = truthy (cr_creatorPod r),
        sp_private = (cr_visibility r = ''private'')\<rparr>,
      rc_phase = phase_of (cr_phase r), rc_hostPod = truthy (cr_hostPod r), rc_generation = cr_hostGeneration r\<rparr>"

definition bestEffort :: "bool \<Rightarrow> (conversations \<Rightarrow> conversations) \<Rightarrow> conversations \<Rightarrow> conversations" where
  "bestEffort ok run cs = (if ok then run cs else cs)"

definition update_where :: "session_id \<Rightarrow> (conversation_row \<Rightarrow> conversation_row) \<Rightarrow> conversations \<Rightarrow> conversations" where
  "update_where cid f cs = map (\<lambda>r. if cr_id r = cid then f r else r) cs"

definition register :: "bool \<Rightarrow> conversations \<Rightarrow> session_id \<Rightarrow> conversation_spec \<Rightarrow> conversations" where
  "register ok cs cid spec =
     (let sb = truthy (sp_sandboxRef spec); cp = truthy (sp_creatorPod spec) in
      if sb = None \<and> cp = None then cs
      else bestEffort ok (update_where cid (\<lambda>r.
             r\<lparr>cr_sandboxRef := (if sb = None then cr_sandboxRef r else sb),
               cr_creatorPod := (if cp = None then cr_creatorPod r else cp)\<rparr>)) cs)"

definition setPhase :: "bool \<Rightarrow> conversations \<Rightarrow> session_id \<Rightarrow> conversation_phase \<Rightarrow> conversations" where
  "setPhase ok cs cid phase = bestEffort ok (update_where cid (\<lambda>r. r\<lparr>cr_phase := Some (phase_text phase)\<rparr>)) cs"

definition remove_row :: "bool \<Rightarrow> conversations \<Rightarrow> session_id \<Rightarrow> conversations" where
  "remove_row ok cs cid = bestEffort ok (filter (\<lambda>r. cr_id r \<noteq> cid)) cs"

definition list_rows :: "conversations \<Rightarrow> conversation_record list" where
  "list_rows cs = map toRecord cs"

definition get_row :: "conversations \<Rightarrow> session_id \<Rightarrow> conversation_record option" where
  "get_row cs cid = (case filter (\<lambda>r. cr_id r = cid) cs of [] \<Rightarrow> None | r # _ \<Rightarrow> Some (toRecord r))"

definition noop_write :: "bool \<Rightarrow> unit \<Rightarrow> session_id \<Rightarrow> 'x \<Rightarrow> unit" where
  "noop_write ok u cid x = ()"

definition noop_remove :: "bool \<Rightarrow> unit \<Rightarrow> session_id \<Rightarrow> unit" where
  "noop_remove ok u cid = ()"

definition noop_list :: "unit \<Rightarrow> conversation_record list" where
  "noop_list u = []"

definition noop_get :: "unit \<Rightarrow> session_id \<Rightarrow> conversation_record option" where
  "noop_get u cid = None"

subsection \<open>resumeGuard.ts\<close>

datatype resume_outcome = RefusedEndedHere | RefusedNoRow | Resumed

text \<open>
  \<open>row\<close> is what the registry's read answers: \<^const>\<open>None\<close> without a registry, \<^const>\<open>Inl\<close>
  when the read throws.
\<close>

definition resumeUnlessEnded :: "bool \<Rightarrow> (unit + conversation_record option) option \<Rightarrow> resume_outcome" where
  "resumeUnlessEnded ended row =
     (if ended then RefusedEndedHere
      else case row of
             None \<Rightarrow> Resumed
           | Some (Inl _) \<Rightarrow> Resumed
           | Some (Inr r) \<Rightarrow> if r = None then RefusedNoRow else Resumed)"

subsection \<open>visibility.ts and access.ts\<close>

record access_facts =
  af_owner :: "string option"
  af_private :: bool

record caller =
  ca_anonymous :: bool
  ca_id :: string

definition isVisibility :: "string \<Rightarrow> bool" where
  "isVisibility v \<longleftrightarrow> v = ''shared'' \<or> v = ''private''"

definition canAccess :: "access_facts \<Rightarrow> caller option \<Rightarrow> bool" where
  "canAccess conv c =
     (if \<not> af_private conv then True
      else case c of
             None \<Rightarrow> False
           | Some u \<Rightarrow> \<not> ca_anonymous u \<and> ca_id u \<noteq> [] \<and> af_owner conv = Some (ca_id u))"

datatype access_verdict = Allow | Deny | Unknown

text \<open>
  \<open>readAccess\<close> is the optional store read, \<^const>\<open>Inl\<close> when it throws; \<open>trusted\<close> the optional
  service check, \<^const>\<open>None\<close> inside when it throws. A failed store read is the error result.
\<close>

definition createAccessCheck ::
  "(session_id \<Rightarrow> unit + access_facts option) option \<Rightarrow> (session_id \<Rightarrow> access_facts option) \<Rightarrow> bool option option
    \<Rightarrow> session_id \<Rightarrow> caller option \<Rightarrow> unit + access_verdict" where
  "createAccessCheck readAccess memory trusted cid user =
     (case (case readAccess of None \<Rightarrow> Inr None | Some rd \<Rightarrow> rd cid) of
        Inl e \<Rightarrow> Inl e
      | Inr stored \<Rightarrow>
          (case (case stored of None \<Rightarrow> memory cid | Some f \<Rightarrow> Some f) of
             None \<Rightarrow> Inr Unknown
           | Some facts \<Rightarrow>
               if canAccess facts user then Inr Allow
               else if (case trusted of Some (Some b) \<Rightarrow> b | _ \<Rightarrow> False) then Inr Allow
               else Inr Deny))"

subsection \<open>The registry's interface\<close>

locale conversation_registry =
  fixes reg :: "bool \<Rightarrow> 's \<Rightarrow> session_id \<Rightarrow> conversation_spec \<Rightarrow> 's"
    and phase :: "bool \<Rightarrow> 's \<Rightarrow> session_id \<Rightarrow> conversation_phase \<Rightarrow> 's"
    and rem :: "bool \<Rightarrow> 's \<Rightarrow> session_id \<Rightarrow> 's"
    and list :: "'s \<Rightarrow> conversation_record list"
    and get :: "'s \<Rightarrow> session_id \<Rightarrow> conversation_record option"
  assumes reg_exists: "get (reg ok s x sp) y = None \<longleftrightarrow> get s y = None"
    and phase_exists: "get (phase ok s x p) y = None \<longleftrightarrow> get s y = None"
    and phase_read: "get s x \<noteq> None \<Longrightarrow> map_option rc_phase (get (phase True s x p) x) = Some (Some p)"
    and remove_read: "get (rem True s x) x = None"
    and remove_keeps: "get s y = None \<Longrightarrow> get (rem ok s x) y = None"
    and list_get: "(\<exists>r \<in> set (list s). rc_id r = x) \<longleftrightarrow> get s x \<noteq> None"
begin

text \<open>Any sequence of later writes, successful or not, on any conversations.\<close>

inductive later :: "'s \<Rightarrow> 's \<Rightarrow> bool" where
  same: "later s s"
| then_reg: "later s t \<Longrightarrow> later s (reg ok t x sp)"
| then_phase: "later s t \<Longrightarrow> later s (phase ok t x p)"
| then_remove: "later s t \<Longrightarrow> later s (rem ok t x)"

lemma later_absent: "later s t \<Longrightarrow> get s y = None \<Longrightarrow> get t y = None"
  by (induction rule: later.induct) (auto simp: reg_exists phase_exists remove_keeps)

lemma removed_stays_removed:
  assumes "later (rem True s x) t"
  shows "get t x = None" and "\<not> (\<exists>r \<in> set (list t). rc_id r = x)"
    and "resumeUnlessEnded e (Some (Inr (get t x))) \<noteq> Resumed"
proof -
  show g: "get t x = None" by (rule later_absent [OF assms remove_read])
  then show "\<not> (\<exists>r \<in> set (list t). rc_id r = x)" by (simp add: list_get)
  from g show "resumeUnlessEnded e (Some (Inr (get t x))) \<noteq> Resumed" by (simp add: resumeUnlessEnded_def)
qed

end

lemma truthy_SomeD: "truthy x = Some y \<Longrightarrow> x = Some y"
  by (auto simp: truthy_def split: option.splits list.splits)

lemma filter_update_where:
  "(\<And>r. cr_id (f r) = cr_id r) \<Longrightarrow>
    filter (\<lambda>r. cr_id r = y) (update_where x f cs) = map (\<lambda>r. if cr_id r = x then f r else r) (filter (\<lambda>r. cr_id r = y) cs)"
  by (induction cs) (auto simp: update_where_def)

lemma get_row_update:
  "(\<And>r. cr_id (f r) = cr_id r) \<Longrightarrow>
    get_row (update_where x f cs) y =
    (case filter (\<lambda>r. cr_id r = y) cs of [] \<Rightarrow> None | r # _ \<Rightarrow> Some (toRecord (if y = x then f r else r)))"
  unfolding get_row_def
  by (simp add: filter_update_where split: list.split) (auto simp: filter_eq_Cons_iff)

lemma get_row_None: "get_row cs y = None \<longleftrightarrow> (\<forall>r \<in> set cs. cr_id r \<noteq> y)"
proof -
  have "get_row cs y = None \<longleftrightarrow> filter (\<lambda>r. cr_id r = y) cs = []"
    by (cases "filter (\<lambda>r. cr_id r = y) cs") (simp_all add: get_row_def)
  then show ?thesis by (simp add: filter_empty_conv)
qed

lemma get_row_update_None: "(\<And>r. cr_id (f r) = cr_id r) \<Longrightarrow> get_row (update_where x f cs) y = None \<longleftrightarrow> get_row cs y = None"
  by (simp add: get_row_update) (simp add: get_row_def split: list.split)

lemma phase_of_text [simp]: "phase_of (Some (phase_text p)) = Some p"
  by (cases p) (simp_all add: phase_of_def phase_text_def)

interpretation pg: conversation_registry register setPhase remove_row list_rows get_row
proof unfold_locales
  show "get_row (register ok s x sp) y = None \<longleftrightarrow> get_row s y = None" for ok s x sp y
    by (simp add: register_def bestEffort_def Let_def get_row_update_None)
  show "get_row (setPhase ok s x p) y = None \<longleftrightarrow> get_row s y = None" for ok s x p y
    by (simp add: setPhase_def bestEffort_def get_row_update_None)
  show "map_option rc_phase (get_row (setPhase True s x p) x) = Some (Some p)" if "get_row s x \<noteq> None" for s x p
    using that by (simp add: setPhase_def bestEffort_def get_row_update)
      (auto simp: get_row_def toRecord_def split: list.splits)
  show "get_row (remove_row True s x) x = None" for s x
    by (simp add: remove_row_def bestEffort_def get_row_None)
  show "get_row (remove_row ok s x) y = None" if "get_row s y = None" for ok s x y
    using that by (simp add: remove_row_def bestEffort_def get_row_None)
  show "(\<exists>r \<in> set (list_rows s). rc_id r = x) \<longleftrightarrow> get_row s x \<noteq> None" for s x
    by (auto simp: list_rows_def toRecord_def get_row_None)
qed

interpretation noop: conversation_registry noop_write noop_write noop_remove noop_list noop_get
  by unfold_locales (simp_all add: noop_get_def noop_list_def)


subsection \<open>Properties\<close>

text \<open>
  C35 (safety). An ended conversation stays down: once its row is deleted, no sequence of later
  registrations, phase writes or deletions by any pod, on any conversation, brings it back. An exec
  that is still polling for its pod is refused on the pod that ended it, and elsewhere by the missing
  row; it recreates the sandbox only where that pod has no tombstone and the registry is not
  configured or its read fails, as the guard means it to.
\<close>

theorem ended_conversation_stays_down:
  assumes "pg.later (remove_row True cs cid) cs'"
    and "answer \<in> {None, Some (Inl ()), Some (Inr (get_row cs' cid))}"
  shows "get_row cs' cid = None \<and> cid \<notin> rc_id ` set (list_rows cs')
    \<and> (resumeUnlessEnded endedHere answer = Resumed \<longleftrightarrow> \<not> endedHere \<and> (answer = None \<or> answer = Some (Inl ())))"
  using pg.removed_stays_removed [OF assms(1)] assms(2) by (auto simp: resumeUnlessEnded_def)

theorem ended_conversation_stays_down_witness:
  "get_row (setPhase True (remove_row True [] ''c'') ''c'' PhaseAssigned) ''c'' = None
   \<and> resumeUnlessEnded False (Some (Inr (get_row (setPhase True (remove_row True [] ''c'') ''c'' PhaseAssigned) ''c''))) \<noteq> Resumed"
  using ended_conversation_stays_down [OF pg.later.then_phase [OF pg.later.same],
      where answer = "Some (Inr (get_row (setPhase True (remove_row True [] ''c'') ''c'' PhaseAssigned) ''c''))" and endedHere = False]
  by simp

text \<open>
  Publishing a phase is read back from the row, leaves every other field of
  the record as it was, and touches no other conversation; when the write fails nothing changes.
\<close>

theorem setPhase_read_back:
  assumes "get_row cs cid = Some r"
  shows "get_row (setPhase ok cs cid p) cid = Some (if ok then r\<lparr>rc_phase := Some p\<rparr> else r)
    \<and> (d \<noteq> cid \<longrightarrow> get_row (setPhase ok cs cid p) d = get_row cs d)"
proof -
  obtain row rest where f: "filter (\<lambda>r. cr_id r = cid) cs = row # rest" and r: "r = toRecord row"
    using assms by (auto simp: get_row_def split: list.splits)
  have "get_row (setPhase ok cs cid p) cid = Some (if ok then r\<lparr>rc_phase := Some p\<rparr> else r)"
    using assms by (simp add: setPhase_def bestEffort_def get_row_update f r toRecord_def)
  moreover have "get_row (setPhase ok cs cid p) d = get_row cs d" if "d \<noteq> cid"
    using that by (simp add: setPhase_def bestEffort_def get_row_update) (simp add: get_row_def split: list.split)
  ultimately show ?thesis by blast
qed

definition demo_reg :: conversation_row where
  "demo_reg = \<lparr>cr_id = ''c'', cr_model = None, cr_owner = None, cr_parentId = None, cr_sandboxRef = Some ''sb'',
     cr_creatorPod = None, cr_phase = Some ''Pending'', cr_hostPod = None, cr_hostGeneration = 0, cr_visibility = ''shared''\<rparr>"

theorem setPhase_read_back_witness:
  "map_option rc_phase (get_row (setPhase True [demo_reg] ''c'' PhaseSuspended) ''c'') = Some (Some PhaseSuspended)"
  using setPhase_read_back [of "[demo_reg]" "''c''" "toRecord demo_reg" True PhaseSuspended "''d''"]
  by (simp add: get_row_def demo_reg_def)

text \<open>
  A private conversation is opened only to its owner or to a verified service: an
  allow on private facts means that the caller is identified, not anonymous and the recorded
  owner, or that the service check answered yes; the facts are the store's whenever it has any,
  and a store that cannot be read yields an error, never a verdict.
\<close>

theorem private_access_needs_owner:
  assumes "createAccessCheck readAccess memory trusted cid user = Inr Allow"
  shows "\<exists>facts. (case readAccess of
        None \<Rightarrow> memory cid = Some facts
      | Some rd \<Rightarrow> rd cid = Inr (Some facts) \<or> rd cid = Inr None \<and> memory cid = Some facts)
    \<and> (\<not> af_private facts \<or> trusted = Some (Some True)
       \<or> (\<exists>u. user = Some u \<and> \<not> ca_anonymous u \<and> ca_id u \<noteq> [] \<and> af_owner facts = Some (ca_id u)))"
proof -
  have fin: "\<not> af_private f \<or> trusted = Some (Some True)
       \<or> (\<exists>u. user = Some u \<and> \<not> ca_anonymous u \<and> ca_id u \<noteq> [] \<and> af_owner f = Some (ca_id u))"
    if "(if canAccess f user then Inr Allow
               else if (case trusted of Some (Some b) \<Rightarrow> b | _ \<Rightarrow> False) then Inr Allow
               else Inr Deny) = (Inr Allow :: unit + access_verdict)" for f
    using that by (auto simp: canAccess_def split: if_splits option.splits)
  let ?stored = "case readAccess of None \<Rightarrow> Inr None | Some rd \<Rightarrow> rd cid"
  from assms obtain stored where st: "?stored = Inr stored"
    by (cases ?stored) (simp_all add: createAccessCheck_def)
  with assms obtain f where f: "(case stored of None \<Rightarrow> memory cid | Some f \<Rightarrow> Some f) = Some f"
    by (cases "case stored of None \<Rightarrow> memory cid | Some f \<Rightarrow> Some f") (simp_all add: createAccessCheck_def)
  from assms have "\<not> af_private f \<or> trusted = Some (Some True)
       \<or> (\<exists>u. user = Some u \<and> \<not> ca_anonymous u \<and> ca_id u \<noteq> [] \<and> af_owner f = Some (ca_id u))"
    by (intro fin) (simp add: createAccessCheck_def st f)
  moreover have "case readAccess of
        None \<Rightarrow> memory cid = Some f
      | Some rd \<Rightarrow> rd cid = Inr (Some f) \<or> rd cid = Inr None \<and> memory cid = Some f"
    using st f by (cases readAccess; cases stored) simp_all
  ultimately show ?thesis by blast
qed

theorem private_access_needs_owner_witness:
  "\<exists>facts. Some \<lparr>af_owner = Some ''ann'', af_private = True\<rparr> = Some facts
    \<and> (\<not> af_private facts \<or> (\<exists>u. Some \<lparr>ca_anonymous = False, ca_id = ''ann''\<rparr> = Some u \<and> af_owner facts = Some (ca_id u)))"
  using private_access_needs_owner [of None "\<lambda>_. Some \<lparr>af_owner = Some ''ann'', af_private = True\<rparr>" None "''c''"
      "Some \<lparr>ca_anonymous = False, ca_id = ''ann''\<rparr>"]
  by (simp add: createAccessCheck_def canAccess_def)

end
