(* ===== verification/Messages_Snapshot.thy ===== *)
theory Messages_Snapshot
  imports Agui_Events
begin

text \<open>
  The message snapshot a client paints first, \<^verbatim>\<open>agent/messagesSnapshot.ts\<close>: the fold of a
  log into messages and the cut of the initial window. The source keeps references to message and
  call objects; here a message is referred to by its index in \<^verbatim>\<open>out\<close>, and an emitted call by
  the index of its message and its place among the calls of that message.
\<close>

subsection \<open>foldToMessages\<close>

datatype snapshot_role = SnapUser | SnapAssistant | SnapTool | SnapReasoning

record snapshot_call =
  sc_id :: tool_call_id
  sc_name :: string
  sc_arguments :: string

record snapshot_message =
  sm_id :: message_id
  sm_role :: snapshot_role
  sm_content :: string
  sm_toolCalls :: "snapshot_call list"
  sm_toolCallId :: "tool_call_id option"
  sm_createdAt :: "int option"

record snap_state =
  ss_out :: "snapshot_message list"
  ss_byId :: "message_id \<rightharpoonup> nat"
  ss_toolToAssistant :: "tool_call_id \<rightharpoonup> nat"
  ss_toolName :: "tool_call_id \<rightharpoonup> string"
  ss_toolArgs :: "tool_call_id \<rightharpoonup> string"
  ss_emittedCalls :: "tool_call_id \<rightharpoonup> nat \<times> nat"
  ss_openAssistant :: "nat option"
  ss_sysAt :: "(message_id \<times> int) list"

definition snap_init :: snap_state where
  "snap_init = \<lparr>ss_out = [], ss_byId = Map.empty, ss_toolToAssistant = Map.empty, ss_toolName = Map.empty,
     ss_toolArgs = Map.empty, ss_emittedCalls = Map.empty, ss_openAssistant = None, ss_sysAt = []\<rparr>"

text \<open>\<^verbatim>\<open>open\<close>: the new message's index is the old length.\<close>

definition snap_open :: "int option \<Rightarrow> snap_state \<Rightarrow> message_id \<Rightarrow> snapshot_role \<Rightarrow> snap_state" where
  "snap_open ts s m role =
     s\<lparr>ss_out := ss_out s @ [\<lparr>sm_id = m, sm_role = role, sm_content = [], sm_toolCalls = [], sm_toolCallId = None, sm_createdAt = ts\<rparr>],
       ss_byId := (ss_byId s)(m \<mapsto> length (ss_out s))\<rparr>"

definition upd_msg :: "nat \<Rightarrow> (snapshot_message \<Rightarrow> snapshot_message) \<Rightarrow> snap_state \<Rightarrow> snap_state" where
  "upd_msg i f s = s\<lparr>ss_out := (ss_out s)[i := f (ss_out s ! i)]\<rparr>"

definition push_call :: "nat \<Rightarrow> snapshot_call \<Rightarrow> snap_state \<Rightarrow> snap_state" where
  "push_call i c s = upd_msg i (\<lambda>m. m\<lparr>sm_toolCalls := sm_toolCalls m @ [c]\<rparr>) s"

definition the_or :: "'a \<Rightarrow> 'a option \<Rightarrow> 'a" where
  "the_or d x = (case x of None \<Rightarrow> d | Some v \<Rightarrow> v)"

text \<open>\<^verbatim>\<open>byId.get(id) ?? open(id, role)\<close>, then \<^verbatim>\<open>content += delta\<close>.\<close>

definition snap_content :: "int option \<Rightarrow> snap_state \<Rightarrow> message_id \<Rightarrow> snapshot_role \<Rightarrow> string \<Rightarrow> snap_state" where
  "snap_content ts s m role d =
     (let (i, s') = (case ss_byId s m of Some i \<Rightarrow> (i, s) | None \<Rightarrow> (length (ss_out s), snap_open ts s m role))
      in upd_msg i (\<lambda>x. x\<lparr>sm_content := sm_content x @ d\<rparr>) s')"

definition snap_tool_end :: "int option \<Rightarrow> snap_state \<Rightarrow> tool_call_id \<Rightarrow> snap_state" where
  "snap_tool_end ts s tc =
     (let host = (case ss_toolToAssistant s tc of Some i \<Rightarrow> Some i | None \<Rightarrow> ss_openAssistant s);
          call = \<lparr>sc_id = tc, sc_name = the_or [] (ss_toolName s tc), sc_arguments = the_or [] (ss_toolArgs s tc)\<rparr>;
          (i, s') = (case host of
                       Some i \<Rightarrow> (i, s)
                     | None \<Rightarrow> (length (ss_out s), snap_open ts s (''asst-'' @ tc) SnapAssistant))
      in (push_call i call s')\<lparr>ss_emittedCalls := (ss_emittedCalls s')(tc \<mapsto> (i, length (sm_toolCalls (ss_out s' ! i))))\<rparr>)"

definition snap_tool_args :: "snap_state \<Rightarrow> tool_call_id \<Rightarrow> string \<Rightarrow> snap_state" where
  "snap_tool_args s tc d =
     (let acc = the_or [] (ss_toolArgs s tc) @ d; s' = s\<lparr>ss_toolArgs := (ss_toolArgs s)(tc \<mapsto> acc)\<rparr>
      in case ss_emittedCalls s tc of
           None \<Rightarrow> s'
         | Some (i, k) \<Rightarrow>
             upd_msg i (\<lambda>m. m\<lparr>sm_toolCalls := (sm_toolCalls m)[k := (sm_toolCalls m ! k)\<lparr>sc_arguments := acc\<rparr>]\<rparr>) s')"

definition snap_tool_result :: "int option \<Rightarrow> snap_state \<Rightarrow> tool_call_id \<Rightarrow> string \<Rightarrow> snap_state" where
  "snap_tool_result ts s tc content =
     (let s1 = (if ss_toolName s tc \<noteq> None then s
                else
                  let (i, s') = (case ss_openAssistant s of
                                   Some i \<Rightarrow> (i, s)
                                 | None \<Rightarrow> (length (ss_out s), snap_open ts s (''asst-'' @ tc) SnapAssistant))
                  in (push_call i \<lparr>sc_id = tc, sc_name = [], sc_arguments = []\<rparr> s')\<lparr>ss_toolName := (ss_toolName s')(tc \<mapsto> [])\<rparr>)
      in upd_msg (length (ss_out s1)) (\<lambda>m. m\<lparr>sm_toolCallId := Some tc, sm_content := content\<rparr>)
           (snap_open ts s1 (''tool-'' @ tc) SnapTool))"

definition snap_step :: "bool \<Rightarrow> snap_state \<Rightarrow> agui_event \<Rightarrow> snap_state" where
  "snap_step anchors s e =
     (case ev_base e of
        TEXT_MESSAGE_START m r \<Rightarrow>
          let s' = snap_open (ev_ts e) s m (if r = RoleUser then SnapUser else SnapAssistant)
          in if r = RoleUser then s' else s'\<lparr>ss_openAssistant := Some (length (ss_out s))\<rparr>
      | REASONING_START m \<Rightarrow> snap_open (ev_ts e) s m SnapReasoning
      | REASONING_MESSAGE_START m \<Rightarrow> snap_open (ev_ts e) s m SnapReasoning
      | TEXT_MESSAGE_END m \<Rightarrow>
          (case ss_openAssistant s of
             Some i \<Rightarrow> if sm_id (ss_out s ! i) = m then s\<lparr>ss_openAssistant := None\<rparr> else s
           | None \<Rightarrow> s)
      | TEXT_MESSAGE_CONTENT m d \<Rightarrow> snap_content (ev_ts e) s m SnapAssistant d
      | REASONING_MESSAGE_CONTENT m d \<Rightarrow> snap_content (ev_ts e) s m SnapReasoning d
      | TOOL_CALL_START tc name \<Rightarrow>
          let s' = s\<lparr>ss_toolName := (ss_toolName s)(tc \<mapsto> name)\<rparr>
          in (case ss_openAssistant s of
                Some i \<Rightarrow> s'\<lparr>ss_toolToAssistant := (ss_toolToAssistant s)(tc \<mapsto> i)\<rparr>
              | None \<Rightarrow> s')
      | TOOL_CALL_ARGS tc d \<Rightarrow> snap_tool_args s tc d
      | TOOL_CALL_END tc \<Rightarrow> snap_tool_end (ev_ts e) s tc
      | TOOL_CALL_RESULT tc _ content \<Rightarrow> snap_tool_result (ev_ts e) s tc content
      | SYSTEM_MESSAGE m _ _ \<Rightarrow>
          if anchors \<and> m \<noteq> [] then s\<lparr>ss_sysAt := ss_sysAt s @ [(m, int (length (ss_out s)) - 1)]\<rparr> else s
      | _ \<Rightarrow> s)"

definition kept :: "snapshot_message \<Rightarrow> bool" where
  "kept m \<longleftrightarrow> sm_content m \<noteq> [] \<or> sm_toolCalls m \<noteq> [] \<or> sm_role m = SnapTool"

text \<open>The anchor of a system message: the nearest kept message at or before the index.\<close>

fun nearest_kept :: "snapshot_message list \<Rightarrow> nat \<Rightarrow> message_id option" where
  "nearest_kept out 0 = None"
| "nearest_kept out (Suc i) = (if kept (out ! i) then Some (sm_id (out ! i)) else nearest_kept out i)"

definition anchor_map :: "snap_state \<Rightarrow> (message_id, message_id option) js_map" where
  "anchor_map s = foldl (\<lambda>m (x, at). AList.update x (nearest_kept (ss_out s) (nat (at + 1))) m) [] (ss_sysAt s)"

definition foldToMessages :: "bool \<Rightarrow> agui_event list \<Rightarrow> snapshot_message list \<times> (message_id, message_id option) js_map" where
  "foldToMessages anchors events =
     (let s = foldl (snap_step anchors) snap_init events in (filter kept (ss_out s), anchor_map s))"

subsection \<open>The initial window\<close>

definition INITIAL_SNAPSHOT_MESSAGES :: int where
  "INITIAL_SNAPSHOT_MESSAGES = 200"

definition opens_snapshot :: "agui_event \<Rightarrow> bool" where
  "opens_snapshot e =
     (case ev_base e of
        TEXT_MESSAGE_START _ _ \<Rightarrow> True | REASONING_START _ \<Rightarrow> True | REASONING_MESSAGE_START _ \<Rightarrow> True
      | TOOL_CALL_RESULT _ _ _ \<Rightarrow> True | _ \<Rightarrow> False)"

record snapshot_split =
  sp_tail :: "agui_event list"
  sp_fromSeq :: int
  sp_hasOlder :: bool

text \<open>The backward loop: \<open>es\<close> is the rest of the log in reverse, so its length is the next index plus one.\<close>

fun cut_scan :: "int \<Rightarrow> agui_event list \<Rightarrow> int \<Rightarrow> nat" where
  "cut_scan messages [] seen = 0"
| "cut_scan messages (e # es) seen =
     (if opens_snapshot e then
        (if seen + 1 > messages then length es else cut_scan messages es (seen + 1))
      else cut_scan messages es seen)"

definition splitForInitialSnapshot :: "agui_event list \<Rightarrow> int \<Rightarrow> snapshot_split" where
  "splitForInitialSnapshot events messages =
     (let whole = \<lparr>sp_tail = events, sp_fromSeq = 1, sp_hasOlder = False\<rparr> in
      if messages \<le> 0 \<or> events = [] then whole
      else
        let cutp = cut_scan messages (rev events) 0 in
        if cutp = 0 then whole
        else
          let boundary = (case find_index is_run_started (drop cutp events) of None \<Rightarrow> cutp | Some i \<Rightarrow> cutp + i) in
          if boundary = 0 then whole
          else \<lparr>sp_tail = drop boundary events, sp_fromSeq = int boundary + 1, sp_hasOlder = True\<rparr>)"

definition alignPageToRun :: "agui_event list \<Rightarrow> nat" where
  "alignPageToRun events = (case find_index is_run_started events of None \<Rightarrow> 0 | Some i \<Rightarrow> if i > 0 then i else 0)"


subsection \<open>Results are carried by calls\<close>

definition call_ids :: "snapshot_message \<Rightarrow> tool_call_id set" where
  "call_ids m = sc_id ` set (sm_toolCalls m)"

definition carried :: "snapshot_message list \<Rightarrow> nat \<Rightarrow> tool_call_id \<Rightarrow> bool" where
  "carried out n tc \<longleftrightarrow> (\<exists>j < n. j < length out \<and> tc \<in> call_ids (out ! j))"

definition paired :: "snapshot_message list \<Rightarrow> bool" where
  "paired out \<longleftrightarrow>
     (\<forall>i < length out. sm_role (out ! i) = SnapTool \<longrightarrow>
        (\<exists>tc. sm_toolCallId (out ! i) = Some tc \<and> carried out i tc))"

text \<open>Messages are only added, and those there keep their role, their call id and their calls.\<close>

definition grows :: "snapshot_message list \<Rightarrow> snapshot_message list \<Rightarrow> bool" where
  "grows out out' \<longleftrightarrow>
     length out \<le> length out' \<and>
     (\<forall>i < length out. sm_role (out' ! i) = sm_role (out ! i) \<and> sm_toolCallId (out' ! i) = sm_toolCallId (out ! i)
        \<and> call_ids (out ! i) \<subseteq> call_ids (out' ! i))"

lemma grows_refl [simp]: "grows out out"
  by (simp add: grows_def)

lemma grows_carried: "grows out out' \<Longrightarrow> carried out n tc \<Longrightarrow> carried out' n tc"
  by (fastforce simp: grows_def carried_def)

lemma grows_paired:
  assumes "paired out" and "grows out out'"
    and "\<And>i. length out \<le> i \<Longrightarrow> i < length out' \<Longrightarrow> sm_role (out' ! i) = SnapTool \<Longrightarrow>
      \<exists>tc. sm_toolCallId (out' ! i) = Some tc \<and> carried out' i tc"
  shows "paired out'"
  unfolding paired_def
proof (intro allI impI)
  fix i assume i: "i < length out'" and tool: "sm_role (out' ! i) = SnapTool"
  show "\<exists>tc. sm_toolCallId (out' ! i) = Some tc \<and> carried out' i tc"
  proof (cases "i < length out")
    case True
    with assms(1,2) tool have "\<exists>tc. sm_toolCallId (out ! i) = Some tc \<and> carried out i tc"
      by (simp add: grows_def paired_def)
    with True assms(2) show ?thesis by (auto simp: grows_def intro: grows_carried [OF assms(2)])
  next
    case False
    with assms(3) i tool show ?thesis by simp
  qed
qed

lemma grows_open: "grows (ss_out s) (ss_out (snap_open ts s m r))"
  by (simp add: grows_def snap_open_def nth_append)

lemma paired_open: "paired (ss_out s) \<Longrightarrow> r \<noteq> SnapTool \<Longrightarrow> paired (ss_out (snap_open ts s m r))"
  by (rule grows_paired [OF _ grows_open]) (auto simp: snap_open_def nth_append)

lemma grows_upd:
  assumes "\<And>m. sm_role (f m) = sm_role m" "\<And>m. sm_toolCallId (f m) = sm_toolCallId m" "\<And>m. call_ids m \<subseteq> call_ids (f m)"
  shows "grows (ss_out s) (ss_out (upd_msg i f s))"
proof -
  have upd: "(ss_out s)[i := f (ss_out s ! i)] ! j = (if j = i then f (ss_out s ! j) else ss_out s ! j)"
    if "j < length (ss_out s)" for j using that by (cases "j = i") simp_all
  show ?thesis using assms by (simp add: grows_def upd_msg_def upd)
qed

lemma paired_upd:
  assumes "paired (ss_out s)"
    and "\<And>m. sm_role (f m) = sm_role m" "\<And>m. sm_toolCallId (f m) = sm_toolCallId m" "\<And>m. call_ids m \<subseteq> call_ids (f m)"
  shows "paired (ss_out (upd_msg i f s))"
  by (rule grows_paired [OF assms(1) grows_upd [OF assms(2-4)]]) (simp_all add: upd_msg_def)

lemma call_ids_push: "call_ids (m\<lparr>sm_toolCalls := sm_toolCalls m @ [c]\<rparr>) = insert (sc_id c) (call_ids m)"
  by (simp add: call_ids_def)

lemma call_ids_patch:
  "call_ids (m\<lparr>sm_toolCalls := (sm_toolCalls m)[k := (sm_toolCalls m ! k)\<lparr>sc_arguments := a\<rparr>]\<rparr>) = call_ids m"
proof (cases "k < length (sm_toolCalls m)")
  case True
  let ?xs = "sm_toolCalls m"
  have "map sc_id (?xs[k := (?xs ! k)\<lparr>sc_arguments := a\<rparr>]) = (map sc_id ?xs)[k := sc_id (?xs ! k)]"
    by (simp add: map_update)
  also have "\<dots> = map sc_id ?xs" using True by (metis list_update_id nth_map)
  finally have "set (map sc_id (?xs[k := (?xs ! k)\<lparr>sc_arguments := a\<rparr>])) = set (map sc_id ?xs)" by simp
  then show ?thesis by (simp add: call_ids_def)
qed (simp add: call_ids_def list_update_beyond)

lemma call_ids_content [simp]: "call_ids (m\<lparr>sm_content := d\<rparr>) = call_ids m" "call_ids (m\<lparr>sm_toolCallId := t\<rparr>) = call_ids m"
  by (simp_all add: call_ids_def)

definition snap_ok :: "tool_call_id set \<Rightarrow> snap_state \<Rightarrow> bool" where
  "snap_ok pend s \<longleftrightarrow>
     paired (ss_out s)
     \<and> (\<forall>i. ss_openAssistant s = Some i \<longrightarrow> i < length (ss_out s))
     \<and> (\<forall>tc i. ss_toolToAssistant s tc = Some i \<longrightarrow> i < length (ss_out s))
     \<and> (\<forall>tc. ss_toolName s tc \<noteq> None \<and> tc \<notin> pend \<longrightarrow> carried (ss_out s) (length (ss_out s)) tc)"

text \<open>The calls started and not ended after an event; a result is in order when its call is not among them.\<close>

definition pend_step :: "tool_call_id set \<Rightarrow> agui_event \<Rightarrow> tool_call_id set" where
  "pend_step pend e =
     (case ev_base e of TOOL_CALL_START tc _ \<Rightarrow> insert tc pend | TOOL_CALL_END tc \<Rightarrow> pend - {tc} | _ \<Rightarrow> pend)"

fun results_ended :: "tool_call_id set \<Rightarrow> agui_event list \<Rightarrow> bool" where
  "results_ended pend [] = True"
| "results_ended pend (e # es) =
     ((case ev_base e of TOOL_CALL_RESULT tc _ _ \<Rightarrow> tc \<notin> pend | _ \<Rightarrow> True) \<and> results_ended (pend_step pend e) es)"

lemma carried_mono: "carried out n tc \<Longrightarrow> n \<le> n' \<Longrightarrow> carried out n' tc"
  unfolding carried_def by (meson less_le_trans)

lemma snap_ok_grow:
  assumes "snap_ok pend s" and "grows (ss_out s) (ss_out s')" and "paired (ss_out s')"
    and "\<And>i. ss_openAssistant s' = Some i \<Longrightarrow> ss_openAssistant s = Some i \<or> i < length (ss_out s')"
    and "\<And>tc i. ss_toolToAssistant s' tc = Some i \<Longrightarrow> ss_toolToAssistant s tc = Some i \<or> i < length (ss_out s')"
    and "\<And>tc. ss_toolName s' tc \<noteq> None \<Longrightarrow> tc \<notin> pend' \<Longrightarrow>
      (ss_toolName s tc \<noteq> None \<and> tc \<notin> pend) \<or> carried (ss_out s') (length (ss_out s')) tc"
  shows "snap_ok pend' s'"
proof -
  have len: "length (ss_out s) \<le> length (ss_out s')" using assms(2) by (simp add: grows_def)
  have "carried (ss_out s') (length (ss_out s')) tc" if "ss_toolName s' tc \<noteq> None" "tc \<notin> pend'" for tc
    using assms(6) [OF that] assms(1) grows_carried [OF assms(2)] carried_mono [OF _ len]
    by (auto simp: snap_ok_def)
  moreover have "i < length (ss_out s')" if "ss_openAssistant s' = Some i" for i
  proof -
    have "i < length (ss_out s) \<or> i < length (ss_out s')"
      using assms(1) assms(4) [OF that] by (auto simp: snap_ok_def)
    with len show ?thesis by linarith
  qed
  moreover have "i < length (ss_out s')" if "ss_toolToAssistant s' tc = Some i" for tc i
  proof -
    have "i < length (ss_out s) \<or> i < length (ss_out s')"
      using assms(1) assms(5) [OF that] by (auto simp: snap_ok_def)
    with len show ?thesis by linarith
  qed
  ultimately show ?thesis using assms(3) by (simp add: snap_ok_def)
qed

lemma snap_open_sel [simp]:
  "ss_openAssistant (snap_open ts s m r) = ss_openAssistant s"
  "ss_toolToAssistant (snap_open ts s m r) = ss_toolToAssistant s"
  "ss_toolName (snap_open ts s m r) = ss_toolName s"
  "length (ss_out (snap_open ts s m r)) = Suc (length (ss_out s))"
  by (simp_all add: snap_open_def)

lemma upd_msg_sel [simp]:
  "ss_openAssistant (upd_msg i f s) = ss_openAssistant s" "ss_toolToAssistant (upd_msg i f s) = ss_toolToAssistant s"
  "ss_toolName (upd_msg i f s) = ss_toolName s" "length (ss_out (upd_msg i f s)) = length (ss_out s)"
  by (simp_all add: upd_msg_def)

lemma snap_ok_open: "snap_ok pend s \<Longrightarrow> r \<noteq> SnapTool \<Longrightarrow> snap_ok pend (snap_open ts s m r)"
proof (rule snap_ok_grow [OF _ grows_open])
  assume "snap_ok pend s" "r \<noteq> SnapTool"
  then show "paired (ss_out (snap_open ts s m r))" by (auto simp: snap_ok_def intro: paired_open)
qed auto

lemma snap_ok_upd:
  assumes "snap_ok pend s"
    and "\<And>m. sm_role (f m) = sm_role m" "\<And>m. sm_toolCallId (f m) = sm_toolCallId m" "\<And>m. call_ids m \<subseteq> call_ids (f m)"
  shows "snap_ok pend (upd_msg i f s)"
proof (rule snap_ok_grow [OF assms(1) grows_upd [OF assms(2-4)]])
  have "paired (ss_out s)" using assms(1) by (simp add: snap_ok_def)
  then show "paired (ss_out (upd_msg i f s))" by (rule paired_upd [OF _ assms(2-4)])
qed auto

lemma snap_ok_content: "snap_ok pend s \<Longrightarrow> r \<noteq> SnapTool \<Longrightarrow> snap_ok pend (snap_content ts s m r d)"
  by (auto simp: snap_content_def split: option.split intro!: snap_ok_upd snap_ok_open)

text \<open>The host of a call exists, and the call is in it afterwards.\<close>

lemma snap_ok_push_call:
  assumes "snap_ok pend s" and "i < length (ss_out s)"
  shows "snap_ok pend (push_call i c s)" and "carried (ss_out (push_call i c s)) (length (ss_out s)) (sc_id c)"
proof -
  show "snap_ok pend (push_call i c s)"
    unfolding push_call_def by (rule snap_ok_upd [OF assms(1)]) (auto simp: call_ids_push)
  show "carried (ss_out (push_call i c s)) (length (ss_out s)) (sc_id c)"
    using assms(2) by (auto simp: carried_def push_call_def upd_msg_def call_ids_push)
qed


lemma snap_ok_cong:
  "snap_ok pend s \<Longrightarrow> ss_out s' = ss_out s \<Longrightarrow> ss_openAssistant s' = ss_openAssistant s \<Longrightarrow>
    ss_toolToAssistant s' = ss_toolToAssistant s \<Longrightarrow> ss_toolName s' = ss_toolName s \<Longrightarrow> snap_ok pend s'"
  by (simp add: snap_ok_def)

text \<open>The host a call goes to: one that is open, or a new carrier.\<close>

lemma snap_ok_host:
  assumes "snap_ok pend s" and "\<And>i. host = Some i \<Longrightarrow> i < length (ss_out s)"
    and "(i, s') = (case host of Some i \<Rightarrow> (i, s) | None \<Rightarrow> (length (ss_out s), snap_open ts s m SnapAssistant))"
  shows "snap_ok pend s' \<and> i < length (ss_out s') \<and> ss_toolName s' = ss_toolName s"
  using assms by (cases host) (auto intro: snap_ok_open)

lemma snap_ok_name:
  assumes "snap_ok pend s" and "carried (ss_out s) (length (ss_out s)) tc"
  shows "snap_ok (pend - {tc}) (s\<lparr>ss_toolName := (ss_toolName s)(tc \<mapsto> n)\<rparr>)"
    and "snap_ok (pend - {tc}) (s\<lparr>ss_emittedCalls := x\<rparr>)"
  using assms by (auto simp: snap_ok_def)

lemma snap_ok_tool_end:
  assumes "snap_ok pend s"
  shows "snap_ok (pend - {tc}) (snap_tool_end ts s tc)"
proof -
  let ?host = "case ss_toolToAssistant s tc of Some i \<Rightarrow> Some i | None \<Rightarrow> ss_openAssistant s"
  let ?call = "\<lparr>sc_id = tc, sc_name = the_or [] (ss_toolName s tc), sc_arguments = the_or [] (ss_toolArgs s tc)\<rparr>"
  obtain i s' where hs: "(i, s') = (case ?host of
      Some i \<Rightarrow> (i, s) | None \<Rightarrow> (length (ss_out s), snap_open ts s (''asst-'' @ tc) SnapAssistant))"
    by (metis surj_pair)
  have "i < length (ss_out s)" if "?host = Some i" for i
    using that assms by (auto simp: snap_ok_def split: option.splits)
  from snap_ok_host [OF assms this hs] have ok: "snap_ok pend s'" "i < length (ss_out s')" by auto
  from snap_ok_push_call [OF ok, of ?call]
  have "snap_ok pend (push_call i ?call s')" "carried (ss_out (push_call i ?call s')) (length (ss_out (push_call i ?call s'))) tc"
    by (simp_all add: push_call_def)
  from snap_ok_name(2) [OF this] show ?thesis
    unfolding snap_tool_end_def Let_def hs [symmetric] by simp
qed

lemma snap_ok_tool_result:
  assumes "snap_ok pend s" and "tc \<notin> pend"
  shows "snap_ok pend (snap_tool_result ts s tc content)"
proof -
  define s1 where "s1 = (if ss_toolName s tc \<noteq> None then s
      else let (i, s') = (case ss_openAssistant s of
                                   Some i \<Rightarrow> (i, s)
                                 | None \<Rightarrow> (length (ss_out s), snap_open ts s (''asst-'' @ tc) SnapAssistant))
           in (push_call i \<lparr>sc_id = tc, sc_name = [], sc_arguments = []\<rparr> s')\<lparr>ss_toolName := (ss_toolName s')(tc \<mapsto> [])\<rparr>)"
  have s1: "snap_ok pend s1 \<and> carried (ss_out s1) (length (ss_out s1)) tc"
  proof (cases "ss_toolName s tc")
    case (Some n)
    with assms show ?thesis by (auto simp: s1_def snap_ok_def)
  next
    case None
    obtain i s' where hs: "(i, s') = (case ss_openAssistant s of
        Some i \<Rightarrow> (i, s) | None \<Rightarrow> (length (ss_out s), snap_open ts s (''asst-'' @ tc) SnapAssistant))"
      by (metis surj_pair)
    have "i < length (ss_out s)" if "ss_openAssistant s = Some i" for i
      using that assms by (auto simp: snap_ok_def)
    from snap_ok_host [OF assms(1) this hs] have ok: "snap_ok pend s'" "i < length (ss_out s')" by auto
    let ?p = "push_call i \<lparr>sc_id = tc, sc_name = [], sc_arguments = []\<rparr> s'"
    from snap_ok_push_call [OF ok, of "\<lparr>sc_id = tc, sc_name = [], sc_arguments = []\<rparr>"]
    have p: "snap_ok pend ?p" "carried (ss_out ?p) (length (ss_out ?p)) tc" by (simp_all add: push_call_def)
    have "s1 = ?p\<lparr>ss_toolName := (ss_toolName s')(tc \<mapsto> [])\<rparr>"
      using None unfolding s1_def hs [symmetric] by simp
    moreover have "ss_toolName ?p = ss_toolName s'" by (simp add: push_call_def)
    ultimately show ?thesis
      using p snap_ok_name(1) [OF p, of "[]"] assms(2) by simp
  qed
  let ?f = "\<lambda>m. m\<lparr>sm_toolCallId := Some tc, sm_content := content\<rparr>"
  let ?s2 = "snap_open ts s1 (''tool-'' @ tc) SnapTool"
  let ?s3 = "upd_msg (length (ss_out s1)) ?f ?s2"
  have out: "ss_out ?s3 = ss_out s1 @ [?f (ss_out ?s2 ! length (ss_out s1))]"
    by (simp add: upd_msg_def snap_open_def)
  have g: "grows (ss_out s1) (ss_out ?s3)" unfolding out by (simp add: grows_def nth_append)
  have "paired (ss_out ?s3)"
  proof (rule grows_paired [OF _ g])
    show "paired (ss_out s1)" using s1 by (simp add: snap_ok_def)
    fix i assume "length (ss_out s1) \<le> i" "i < length (ss_out ?s3)"
    then have "i = length (ss_out s1)" by (simp add: out)
    moreover have "sm_toolCallId (ss_out ?s3 ! length (ss_out s1)) = Some tc" unfolding out by simp
    moreover have "carried (ss_out ?s3) (length (ss_out s1)) tc" by (rule grows_carried [OF g conjunct2 [OF s1]])
    ultimately show "\<exists>tc. sm_toolCallId (ss_out ?s3 ! i) = Some tc \<and> carried (ss_out ?s3) i tc" by blast
  qed
  then have "snap_ok pend ?s3" by (rule snap_ok_grow [OF conjunct1 [OF s1] g]) auto
  then show ?thesis by (simp add: snap_tool_result_def Let_def s1_def)
qed

lemma snap_ok_tool_args: "snap_ok pend s \<Longrightarrow> snap_ok pend (snap_tool_args s tc d)"
  unfolding snap_tool_args_def Let_def
  by (auto split: option.split prod.split intro!: snap_ok_upd simp: call_ids_patch intro: snap_ok_cong)

lemma snap_ok_step:
  assumes "snap_ok pend s" and "\<And>tc m c. ev_base e = TOOL_CALL_RESULT tc m c \<Longrightarrow> tc \<notin> pend"
  shows "snap_ok (pend_step pend e) (snap_step a s e)"
proof (cases "ev_base e")
  case (TEXT_MESSAGE_START m r)
  have ok: "snap_ok pend (snap_open (ev_ts e) s m (if r = RoleUser then SnapUser else SnapAssistant))"
    using assms(1) by (intro snap_ok_open) auto
  with TEXT_MESSAGE_START show ?thesis
    by (simp add: snap_step_def pend_step_def Let_def) (auto simp: snap_ok_def)
next
  case (TOOL_CALL_START tc n)
  with assms(1) show ?thesis
    by (auto simp: snap_step_def pend_step_def snap_ok_def Let_def split: option.split)
next
  case (TOOL_CALL_END tc)
  with snap_ok_tool_end [OF assms(1)] show ?thesis by (simp add: snap_step_def pend_step_def)
next
  case (TOOL_CALL_RESULT tc m c)
  with snap_ok_tool_result [OF assms(1)] assms(2) show ?thesis by (simp add: snap_step_def pend_step_def)
next
  case (TEXT_MESSAGE_END m)
  with assms(1) show ?thesis by (auto simp: snap_step_def pend_step_def snap_ok_def split: option.split)
next
  case (SYSTEM_MESSAGE m x y)
  with assms(1) show ?thesis by (auto simp: snap_step_def pend_step_def snap_ok_def)
qed (use assms(1) in \<open>simp_all add: snap_step_def pend_step_def snap_ok_open snap_ok_content snap_ok_tool_args\<close>)

lemma snap_ok_fold:
  "snap_ok pend s \<Longrightarrow> results_ended pend es \<Longrightarrow> \<exists>pend'. snap_ok pend' (foldl (snap_step a) s es)"
proof (induction es arbitrary: pend s)
  case Nil
  then show ?case by auto
next
  case (Cons e es)
  have "snap_ok (pend_step pend e) (snap_step a s e)"
    using Cons.prems by (intro snap_ok_step) auto
  with Cons show ?case by auto
qed

lemma snap_ok_init: "snap_ok {} snap_init"
  by (simp add: snap_ok_def snap_init_def paired_def)


lemma paired_split:
  "paired out \<longleftrightarrow>
    (\<forall>pre m post. out = pre @ m # post \<and> sm_role m = SnapTool \<longrightarrow>
      (\<exists>tc. sm_toolCallId m = Some tc \<and> (\<exists>c \<in> set pre. tc \<in> call_ids c)))"
  (is "_ \<longleftrightarrow> ?R")
proof
  assume p: "paired out"
  show ?R
  proof (intro allI impI, elim conjE)
    fix pre m post assume out: "out = pre @ m # post" and tool: "sm_role m = SnapTool"
    from p have "length pre < length out \<longrightarrow> sm_role (out ! length pre) = SnapTool \<longrightarrow>
        (\<exists>tc. sm_toolCallId (out ! length pre) = Some tc \<and> carried out (length pre) tc)"
      unfolding paired_def by blast
    with out tool obtain tc where "sm_toolCallId m = Some tc" "carried out (length pre) tc" by auto
    moreover from this(2) have "\<exists>c \<in> set pre. tc \<in> call_ids c"
      by (auto simp: carried_def out nth_append intro: nth_mem)
    ultimately show "\<exists>tc. sm_toolCallId m = Some tc \<and> (\<exists>c \<in> set pre. tc \<in> call_ids c)" by blast
  qed
next
  assume R: ?R
  show "paired out"
    unfolding paired_def
  proof (intro allI impI)
    fix i assume i: "i < length out" and tool: "sm_role (out ! i) = SnapTool"
    have "out = take i out @ out ! i # drop (Suc i) out" using i by (rule id_take_nth_drop)
    with R tool obtain tc where "sm_toolCallId (out ! i) = Some tc" "\<exists>c \<in> set (take i out). tc \<in> call_ids c" by blast
    with i show "\<exists>tc. sm_toolCallId (out ! i) = Some tc \<and> carried out i tc"
      by (auto simp: carried_def in_set_conv_nth) (meson less_trans)
  qed
qed

lemma filter_split_at: "filter P xs = pre @ m # post \<Longrightarrow> \<exists>us vs. xs = us @ m # vs \<and> pre = filter P us"
proof (induction xs arbitrary: pre)
  case Nil
  then show ?case by simp
next
  case (Cons x xs)
  show ?case
  proof (cases "P x \<and> pre = []")
    case True
    with Cons.prems have "x # xs = [] @ m # xs" by simp
    with True show ?thesis by (metis filter.simps(1))
  next
    case False
    then obtain pre' where "filter P xs = pre' @ m # post" and "pre = (if P x then x # pre' else pre')"
      using Cons.prems by (cases pre) (auto split: if_splits)
    with Cons.IH obtain us vs where "xs = us @ m # vs" "pre' = filter P us" by blast
    then have "x # xs = (x # us) @ m # vs" and "pre = filter P (x # us)"
      using \<open>pre = _\<close> by simp_all
    then show ?thesis by blast
  qed
qed

lemma paired_filter_kept: "paired out \<Longrightarrow> paired (filter kept out)"
proof -
  assume p: "paired out"
  show ?thesis
    unfolding paired_split
  proof (intro allI impI, elim conjE)
    fix pre m post assume f: "filter kept out = pre @ m # post" and tool: "sm_role m = SnapTool"
    from filter_split_at [OF f] obtain us vs where "out = us @ m # vs" and pre: "pre = filter kept us" by blast
    with p tool obtain tc c where "sm_toolCallId m = Some tc" "c \<in> set us" "tc \<in> call_ids c"
      unfolding paired_split by blast
    moreover from this(3) have "kept c" by (auto simp: kept_def call_ids_def)
    ultimately show "\<exists>tc. sm_toolCallId m = Some tc \<and> (\<exists>c \<in> set pre. tc \<in> call_ids c)"
      using pre by auto
  qed
qed

subsection \<open>The cut\<close>

lemma cut_scan_count:
  "0 \<le> seen \<Longrightarrow> seen \<le> messages \<Longrightarrow>
    int (length (filter opens_snapshot (drop (cut_scan messages (rev es) seen) es))) \<le> messages + 1 - seen
    \<and> cut_scan messages (rev es) seen \<le> length es"
proof (induction es arbitrary: seen rule: rev_induct)
  case Nil
  then show ?case by simp
next
  case (snoc e es)
  show ?case
  proof (cases "opens_snapshot e")
    case True
    show ?thesis
    proof (cases "seen + 1 > messages")
      case True
      with \<open>opens_snapshot e\<close> snoc.prems show ?thesis by simp
    next
      case False
      with \<open>opens_snapshot e\<close> snoc.IH [of "seen + 1"] snoc.prems show ?thesis by simp
    qed
  next
    case False
    with snoc.IH [of seen] snoc.prems show ?thesis by simp
  qed
qed

subsection \<open>Properties\<close>

text \<open>
  Every tool result of a snapshot is preceded by an assistant message that
  carries the call of the same id, whatever part of the log was folded, as long as no result
  arrives between the start and the end of its own call: a result whose call is missing from the
  window gets a synthesized carrier, and dropping empty messages never drops a carrier.
\<close>

theorem tool_results_have_calls:
  assumes "results_ended {} events" and "fst (foldToMessages a events) = pre @ m # post" and "sm_role m = SnapTool"
  shows "\<exists>tc. sm_toolCallId m = Some tc \<and> (\<exists>c \<in> set pre. tc \<in> call_ids c)"
proof -
  obtain pend where "snap_ok pend (foldl (snap_step a) snap_init events)"
    using snap_ok_fold [OF snap_ok_init assms(1)] by blast
  then have "paired (filter kept (ss_out (foldl (snap_step a) snap_init events)))"
    by (intro paired_filter_kept) (simp add: snap_ok_def)
  with assms(2,3) show ?thesis unfolding paired_split by (simp add: foldToMessages_def Let_def)
qed

theorem tool_results_have_calls_witness:
  "\<exists>tc. Some ''t1'' = Some tc
    \<and> (\<exists>c \<in> set (take 1 (fst (foldToMessages False [ev (TOOL_CALL_RESULT ''t1'' ''m'' ''ok'')]))). tc \<in> call_ids c)"
proof -
  let ?f = "fst (foldToMessages False [ev (TOOL_CALL_RESULT ''t1'' ''m'' ''ok'')])"
  have f: "?f = take 1 ?f @ ?f ! 1 # []" and r: "sm_role (?f ! 1) = SnapTool" "sm_toolCallId (?f ! 1) = Some ''t1''"
    by (simp_all add: foldToMessages_def snap_step_def snap_tool_result_def snap_init_def snap_open_def push_call_def
        upd_msg_def kept_def Let_def)
  from tool_results_have_calls [OF _ f r(1)] r(2) show ?thesis by simp
qed

text \<open>
  A log cut between the start and the end of a call that already has its result
  yields a result with no call before it: the carrier is only synthesized when the start is
  missing too.
\<close>

theorem result_between_start_and_end_uncarried:
  "map sm_role (fst (foldToMessages False [ev (TOOL_CALL_START tc n), ev (TOOL_CALL_RESULT tc m (c # cs))])) = [SnapTool]"
  by (simp add: foldToMessages_def snap_step_def snap_tool_result_def snap_init_def snap_open_def upd_msg_def kept_def Let_def)

text \<open>
  The initial window is a suffix of the log, its first event has the reported
  sequence number, older history is announced exactly when something was cut off, and it opens
  at most one message more than was asked for.
\<close>

theorem initial_snapshot_window:
  assumes "0 < messages"
  shows "let w = splitForInitialSnapshot events messages in
    1 \<le> sp_fromSeq w \<and> sp_tail w = drop (nat (sp_fromSeq w - 1)) events
    \<and> (sp_hasOlder w \<longleftrightarrow> 1 < sp_fromSeq w)
    \<and> int (length (filter opens_snapshot (sp_tail w))) \<le> messages + 1"
proof -
  let ?c = "cut_scan messages (rev events) 0"
  have cnt: "int (length (filter opens_snapshot (drop ?c events))) \<le> messages + 1"
    using cut_scan_count [of 0 messages events] assms by simp
  have "length (filter opens_snapshot (drop (?c + i) events)) \<le> length (filter opens_snapshot (drop ?c events))" for i
    by (metis add.commute append_take_drop_id drop_drop filter_append length_append le_add2)
  with cnt have "int (length (filter opens_snapshot (drop (?c + i) events))) \<le> messages + 1" for i
    by (meson of_nat_mono order_trans)
  with cnt show ?thesis
    using assms by (auto simp: splitForInitialSnapshot_def Let_def split: option.splits)
qed

theorem initial_snapshot_window_witness:
  "sp_hasOlder (splitForInitialSnapshot [ev (TEXT_MESSAGE_START ''a'' RoleUser), ev (TEXT_MESSAGE_START ''b'' RoleUser),
      ev (RUN_STARTED ''t'' ''r'' None None), ev (TEXT_MESSAGE_START ''c'' RoleUser)] 1)
   \<longleftrightarrow> 1 < sp_fromSeq (splitForInitialSnapshot [ev (TEXT_MESSAGE_START ''a'' RoleUser), ev (TEXT_MESSAGE_START ''b'' RoleUser),
      ev (RUN_STARTED ''t'' ''r'' None None), ev (TEXT_MESSAGE_START ''c'' RoleUser)] 1)"
  using initial_snapshot_window [OF zero_less_one, of "[ev (TEXT_MESSAGE_START ''a'' RoleUser), ev (TEXT_MESSAGE_START ''b'' RoleUser),
      ev (RUN_STARTED ''t'' ''r'' None None), ev (TEXT_MESSAGE_START ''c'' RoleUser)]"]
  unfolding Let_def by blast

end
