(* ===== verification/Integrity_Stream.thy ===== *)
theory Integrity_Stream
  imports Messages_Snapshot
begin

text \<open>
  The integrity stream of a conversation, both ends: the handler of
  \<^verbatim>\<open>GET /conversations/:id/events.integrity\<close> in \<^verbatim>\<open>api/management.ts\<close> (subscribe,
  flush, replay as a snapshot, deliver what arrived meanwhile, go live) and the client of
  \<^verbatim>\<open>services/ui/src/integrityStream.ts\<close>. The set of event types the snapshot stands for
  comes from the enum of \<^verbatim>\<open>@ag-ui/core\<close> and is the parameter \<open>isMessageEvent\<close>. The
  connection, its heartbeat and its ownership timer are not modelled.
\<close>

subsection \<open>The server's side\<close>

datatype ui_event =
    Plain agui_event
  | Anchored agui_event "message_id option"
  | MessagesSnapshot "snapshot_message list" "int option"

datatype integrity_frame =
    EventFrame ui_event "(string \<times> string) option"
  | SyncedFrame

record stream_state =
  st_seen :: "string set"
  st_live :: bool
  st_buffer :: "checksummed list"
  st_sent :: "integrity_frame list"

definition stream_open :: stream_state where
  "stream_open = \<lparr>st_seen = {}, st_live = False, st_buffer = [], st_sent = []\<rparr>"

definition send_live :: "stream_state \<Rightarrow> checksummed \<Rightarrow> stream_state" where
  "send_live st c =
     (if cs_checksum c \<in> st_seen st then st
      else st\<lparr>st_seen := insert (cs_checksum c) (st_seen st),
              st_sent := st_sent st @ [EventFrame (Plain (cs_event c)) (Some (cs_prev c, cs_checksum c))]\<rparr>)"

text \<open>The store's listener.\<close>

definition stream_append :: "stream_state \<Rightarrow> checksummed \<Rightarrow> stream_state" where
  "stream_append st c = (if \<not> st_live st then st\<lparr>st_buffer := st_buffer st @ [c]\<rparr> else send_live st c)"

definition sys_frame :: "(message_id, message_id option) js_map \<Rightarrow> agui_event \<Rightarrow> ui_event" where
  "sys_frame anchors e =
     (case ev_base e of
        SYSTEM_MESSAGE m _ _ \<Rightarrow>
          (case map_of anchors m of Some a \<Rightarrow> if m \<noteq> [] then Anchored e a else Plain e | None \<Rightarrow> Plain e)
      | _ \<Rightarrow> Plain e)"

definition is_system_message :: "agui_event \<Rightarrow> bool" where
  "is_system_message e = (case ev_base e of SYSTEM_MESSAGE _ _ _ \<Rightarrow> True | _ \<Rightarrow> False)"

definition stream_replay :: "(agui_event \<Rightarrow> bool) \<Rightarrow> stream_state \<Rightarrow> checksummed list \<Rightarrow> stream_state" where
  "stream_replay isMessageEvent st rows =
     (let history = map cs_event rows;
          w = splitForInitialSnapshot history INITIAL_SNAPSHOT_MESSAGES;
          messages = fst (foldToMessages False (sp_tail w));
          snap = (if messages \<noteq> []
                  then [EventFrame (MessagesSnapshot messages (if sp_hasOlder w then Some (sp_fromSeq w) else None)) None]
                  else []);
          anchors = (if list_ex is_system_message history then snd (foldToMessages True history) else [])
      in st\<lparr>st_seen := st_seen st \<union> cs_checksum ` set rows,
            st_sent := st_sent st @ snap
              @ map (\<lambda>e. EventFrame (sys_frame anchors e) None) (filter (\<lambda>e. \<not> isMessageEvent e) history)\<rparr>)"

definition stream_go_live :: "stream_state \<Rightarrow> stream_state" where
  "stream_go_live st =
     (let st' = foldl send_live st (st_buffer st)
      in st'\<lparr>st_live := True, st_sent := st_sent st' @ [SyncedFrame]\<rparr>)"

text \<open>
  One connection: appends announced before the read has finished, the rows read, appends
  announced before the handler goes live, and those after.
\<close>

definition stream_run ::
  "(agui_event \<Rightarrow> bool) \<Rightarrow> checksummed list \<Rightarrow> checksummed list \<Rightarrow> checksummed list \<Rightarrow> checksummed list \<Rightarrow> stream_state" where
  "stream_run isMessageEvent before rows meanwhile after =
     foldl stream_append
       (stream_go_live
          (foldl stream_append (stream_replay isMessageEvent (foldl stream_append stream_open before) rows) meanwhile))
       after"

subsection \<open>The client's side (integrityStream.ts)\<close>

record ui_message =
  um_id :: message_id
  um_role :: text_role
  um_content :: string

record client_state =
  cl_order :: "message_id list"
  cl_byId :: "message_id \<rightharpoonup> ui_message"
  cl_running :: string
  cl_synced :: bool

definition client_reset :: client_state where
  "client_reset = \<lparr>cl_order = [], cl_byId = Map.empty, cl_running = EMPTY_CHECKSUM, cl_synced = False\<rparr>"

definition foldEvent :: "agui_event \<Rightarrow> client_state \<Rightarrow> client_state" where
  "foldEvent e s =
     (case ev_base e of
        TEXT_MESSAGE_START m r \<Rightarrow>
          if m \<noteq> [] \<and> cl_byId s m = None
          then s\<lparr>cl_byId := (cl_byId s)(m \<mapsto> \<lparr>um_id = m, um_role = r, um_content = []\<rparr>), cl_order := cl_order s @ [m]\<rparr>
          else s
      | TEXT_MESSAGE_CONTENT m d \<Rightarrow>
          if m \<noteq> [] then
            (case cl_byId s m of
               None \<Rightarrow> s
             | Some x \<Rightarrow> s\<lparr>cl_byId := (cl_byId s)(m \<mapsto> x\<lparr>um_content := um_content x @ d\<rparr>)\<rparr>)
          else s
      | _ \<Rightarrow> s)"

definition client_snapshot :: "client_state \<Rightarrow> ui_message list" where
  "client_snapshot s = filter (\<lambda>m. trim (um_content m) \<noteq> []) (map (\<lambda>m. the (cl_byId s m)) (cl_order s))"

datatype apply_outcome = ApplyOk | ApplyGap

definition plain_event :: "ui_event \<Rightarrow> agui_event option" where
  "plain_event e = (case e of Plain x \<Rightarrow> Some x | Anchored x _ \<Rightarrow> Some x | MessagesSnapshot _ _ \<Rightarrow> None)"

definition client_apply :: "client_state \<Rightarrow> integrity_frame \<Rightarrow> client_state \<times> apply_outcome" where
  "client_apply s f =
     (case f of
        SyncedFrame \<Rightarrow> (s\<lparr>cl_synced := True\<rparr>, ApplyOk)
      | EventFrame e sums \<Rightarrow>
          (case sums of
             Some (prev, c) \<Rightarrow>
               if prev \<noteq> cl_running s then (s, ApplyGap)
               else
                 let s' = (case plain_event e of Some x \<Rightarrow> foldEvent x s | None \<Rightarrow> s)
                 in (if c \<noteq> [] then s'\<lparr>cl_running := c\<rparr> else s', ApplyOk)
           | None \<Rightarrow> (case plain_event e of Some x \<Rightarrow> foldEvent x s | None \<Rightarrow> s, ApplyOk)))"

text \<open>Frames until the first gap, as the inner loop applies them.\<close>

fun client_run :: "client_state \<Rightarrow> integrity_frame list \<Rightarrow> client_state \<times> apply_outcome" where
  "client_run s [] = (s, ApplyOk)"
| "client_run s (f # fs) =
     (case client_apply s f of (s', ApplyGap) \<Rightarrow> (s', ApplyGap) | (s', ApplyOk) \<Rightarrow> client_run s' fs)"

subsection \<open>Replay and live never lose or repeat an event\<close>

definition live_frame :: "checksummed \<Rightarrow> integrity_frame" where
  "live_frame c = EventFrame (Plain (cs_event c)) (Some (cs_prev c, cs_checksum c))"

lemma foldl_send_live:
  "distinct (map cs_checksum xs) \<Longrightarrow>
    foldl send_live st xs =
      st\<lparr>st_seen := st_seen st \<union> cs_checksum ` set xs,
         st_sent := st_sent st @ map live_frame (filter (\<lambda>c. cs_checksum c \<notin> st_seen st) xs)\<rparr>"
proof (induction xs arbitrary: st)
  case Nil
  then show ?case by simp
next
  case (Cons c xs)
  have ne: "filter (\<lambda>x. cs_checksum x \<noteq> cs_checksum c \<and> cs_checksum x \<notin> st_seen st) xs
      = filter (\<lambda>x. cs_checksum x \<notin> st_seen st) xs"
    using Cons.prems by (auto intro!: filter_cong simp: image_iff)
  show ?case
  proof (cases "cs_checksum c \<in> st_seen st")
    case True
    with Cons show ?thesis by (simp add: send_live_def insert_absorb)
  next
    case False
    with Cons ne show ?thesis by (simp add: send_live_def live_frame_def)
  qed
qed

lemma foldl_append_buffer:
  "\<not> st_live st \<Longrightarrow> foldl stream_append st xs = st\<lparr>st_buffer := st_buffer st @ xs\<rparr>"
  by (induction xs arbitrary: st) (simp_all add: stream_append_def)

lemma foldl_append_live: "st_live st \<Longrightarrow> foldl stream_append st xs = foldl send_live st xs"
proof (induction xs arbitrary: st)
  case Nil
  then show ?case by simp
next
  case (Cons c xs)
  have "st_live (send_live st c)" using Cons.prems by (simp add: send_live_def)
  with Cons show ?case by (simp add: stream_append_def)
qed

lemma filter_unseen_suffix:
  assumes "distinct (map cs_checksum L)" and "m \<le> n"
  shows "filter (\<lambda>c. cs_checksum c \<notin> cs_checksum ` set (take n L)) (drop m L) = drop n L"
proof -
  have d: "drop m L = take (n - m) (drop m L) @ drop n L"
    using assms(2) by (metis append_take_drop_id drop_drop le_add_diff_inverse2)
  have "set (take (n - m) (drop m L)) \<subseteq> set (take n L)"
    using assms(2) by (metis drop_take set_drop_subset)
  then have a: "filter (\<lambda>c. cs_checksum c \<notin> cs_checksum ` set (take n L)) (take (n - m) (drop m L)) = []"
    by (auto simp: filter_empty_conv)
  have "distinct (map cs_checksum (take n L) @ map cs_checksum (drop n L))"
    using assms(1) by (simp add: map_append [symmetric] del: map_append)
  then have b: "filter (\<lambda>c. cs_checksum c \<notin> cs_checksum ` set (take n L)) (drop n L) = drop n L"
    by (intro filter_True) auto
  show ?thesis by (subst d) (simp add: a b)
qed

lemma stream_run_parts:
  assumes "distinct (map cs_checksum (before @ meanwhile @ after))"
  shows "(\<forall>f \<in> set (st_sent (stream_replay isMsg stream_open rows)). \<exists>e. f = EventFrame e None)
    \<and> st_sent (stream_run isMsg before rows meanwhile after) =
      st_sent (stream_replay isMsg stream_open rows) @ map live_frame (filter (\<lambda>c. cs_checksum c \<notin> cs_checksum ` set rows) (before @ meanwhile))
      @ [SyncedFrame] @ map live_frame (filter (\<lambda>c. cs_checksum c \<notin> cs_checksum ` set rows) after)"
proof -
  let ?s1 = "foldl stream_append stream_open before"
  let ?s2 = "stream_replay isMsg ?s1 rows"
  let ?s3 = "foldl stream_append ?s2 meanwhile"
  let ?s4 = "stream_go_live ?s3"
  have s1: "?s1 = stream_open\<lparr>st_buffer := before\<rparr>"
    using foldl_append_buffer [of stream_open before] by (simp add: stream_open_def)
  have s2: "\<not> st_live ?s2" "st_buffer ?s2 = before" "st_seen ?s2 = cs_checksum ` set rows"
    unfolding s1 by (simp_all add: stream_replay_def stream_open_def Let_def)
  have s2': "st_sent ?s2 = st_sent (stream_replay isMsg stream_open rows)"
    unfolding s1 by (simp add: stream_replay_def stream_open_def Let_def)
  have h: "\<forall>f \<in> set (st_sent ?s2). \<exists>e. f = EventFrame e None"
    unfolding s1 by (auto simp: stream_replay_def stream_open_def Let_def)
  have s3: "?s3 = ?s2\<lparr>st_buffer := before @ meanwhile\<rparr>"
    using foldl_append_buffer [OF s2(1)] s2(2) by simp
  have d1: "distinct (map cs_checksum (before @ meanwhile))" and d2: "distinct (map cs_checksum after)"
    using assms by auto
  have s4: "st_live ?s4" "st_seen ?s4 = cs_checksum ` set rows \<union> cs_checksum ` set (before @ meanwhile)"
    "st_sent ?s4 = st_sent ?s2 @ map live_frame (filter (\<lambda>c. cs_checksum c \<notin> cs_checksum ` set rows) (before @ meanwhile)) @ [SyncedFrame]"
    unfolding stream_go_live_def s3 using foldl_send_live [OF d1] s2(3) by (simp_all add: Let_def)
  have "filter (\<lambda>c. cs_checksum c \<notin> st_seen ?s4) after = filter (\<lambda>c. cs_checksum c \<notin> cs_checksum ` set rows) after"
    using assms s4(2) by (intro filter_cong) (auto simp: image_iff)
  then have "st_sent (foldl stream_append ?s4 after)
      = st_sent ?s4 @ map live_frame (filter (\<lambda>c. cs_checksum c \<notin> cs_checksum ` set rows) after)"
    using foldl_append_live [OF s4(1)] foldl_send_live [OF d2] by simp
  with h s4(3) show ?thesis by (simp add: stream_run_def s2')
qed

lemma stream_run_sent:
  assumes "distinct (map cs_checksum (before @ meanwhile @ after))"
  shows "\<exists>head. (\<forall>f \<in> set head. \<exists>e. f = EventFrame e None)
    \<and> st_sent (stream_run isMsg before rows meanwhile after) =
      head @ map live_frame (filter (\<lambda>c. cs_checksum c \<notin> cs_checksum ` set rows) (before @ meanwhile))
      @ [SyncedFrame] @ map live_frame (filter (\<lambda>c. cs_checksum c \<notin> cs_checksum ` set rows) after)"
  using stream_run_parts [OF assms] by blast

subsection \<open>The client accepts a prefix of the log\<close>

lemma cl_running_foldEvent [simp]: "cl_running (foldEvent e s) = cl_running s"
  by (auto simp: foldEvent_def split: agui_base.splits option.splits)

lemma client_run_head:
  "\<forall>f \<in> set head. \<exists>e. f = EventFrame e None \<Longrightarrow>
    \<exists>s'. client_run s (head @ fs) = client_run s' fs \<and> cl_running s' = cl_running s"
proof (induction head arbitrary: s)
  case Nil
  then show ?case by auto
next
  case (Cons f head)
  then obtain e where f: "f = EventFrame e None" by auto
  let ?s = "case plain_event e of Some x \<Rightarrow> foldEvent x s | None \<Rightarrow> s"
  have "client_apply s f = (?s, ApplyOk)" by (simp add: f client_apply_def)
  moreover have "cl_running ?s = cl_running s" by (simp split: option.split)
  ultimately show ?case using Cons.IH [of ?s] Cons.prems by auto
qed

lemma client_apply_live:
  "client_apply s (live_frame c) =
    (if cs_prev c \<noteq> cl_running s then (s, ApplyGap)
     else (let s' = foldEvent (cs_event c) s in if cs_checksum c \<noteq> [] then s'\<lparr>cl_running := cs_checksum c\<rparr> else s', ApplyOk))"
  by (simp add: client_apply_def live_frame_def plain_event_def Let_def)

text \<open>A checksum of a log with no repetition names its position.\<close>

lemma last_checksum_position:
  assumes "distinct (c # map cs_checksum rs)" and "i \<le> length rs" and "j \<le> length rs"
    and "last_checksum c (take i rs) = last_checksum c (take j rs)"
  shows "i = j"
proof -
  have nth: "last_checksum c (take k rs) = (c # map cs_checksum rs) ! k" if "k \<le> length rs" for k
    using that last_checksum_take_nth [of "k - 1" rs c] by (cases k) auto
  with assms show ?thesis by (metis le_imp_less_Suc length_Cons length_map nth_eq_iff_index_eq)
qed

lemma client_run_prefix:
  assumes lk: "linked sha EMPTY_CHECKSUM rs" and d: "distinct (EMPTY_CHECKSUM # map cs_checksum rs)"
    and ne: "\<forall>r \<in> set rs. cs_checksum r \<noteq> []"
  shows "set xs \<subseteq> set rs \<Longrightarrow> i \<le> length rs \<Longrightarrow> cl_running s = last_checksum EMPTY_CHECKSUM (take i rs) \<Longrightarrow>
    snd (client_run s (map live_frame xs)) = ApplyOk \<longleftrightarrow> xs = take (length xs) (drop i rs)"
proof (induction xs arbitrary: s i)
  case Nil
  then show ?case by simp
next
  case (Cons x xs)
  from Cons.prems obtain j where j: "j < length rs" "x = rs ! j" by (auto simp: in_set_conv_nth)
  have prev: "cs_prev x = last_checksum EMPTY_CHECKSUM (take j rs)" using linked_prev_nth [OF lk j(1)] j(2) by simp
  show ?case
  proof (cases "j = i")
    case True
    let ?s = "(foldEvent (cs_event x) s)\<lparr>cl_running := cs_checksum x\<rparr>"
    have "cs_checksum x \<noteq> []" using ne j by auto
    then have ap: "client_apply s (live_frame x) = (?s, ApplyOk)"
      using prev True Cons.prems(3) by (simp add: client_apply_live Let_def)
    have "last_checksum EMPTY_CHECKSUM (take (Suc i) rs) = cs_checksum x"
      using j True last_checksum_take_nth by blast
    then have "snd (client_run ?s (map live_frame xs)) = ApplyOk \<longleftrightarrow> xs = take (length xs) (drop (Suc i) rs)"
      using Cons.prems j True by (intro Cons.IH) auto
    moreover have "drop i rs = x # drop (Suc i) rs" using j True by (simp add: Cons_nth_drop_Suc)
    ultimately show ?thesis using ap by simp
  next
    case False
    then have "cs_prev x \<noteq> cl_running s"
      using last_checksum_position [OF d, of j i] prev Cons.prems j by auto
    moreover have "x \<noteq> rs ! i" if "i < length rs"
      using False that j d nth_eq_iff_index_eq [of "map cs_checksum rs" i j] by auto
    ultimately show ?thesis
      by (cases "i < length rs") (auto simp: client_apply_live Cons_nth_drop_Suc [symmetric])
  qed
qed


subsection \<open>Properties\<close>






text \<open>
  C36 (safety). A client that checks the chain accepts exactly a prefix of the log: fed any
  selection of frames of a log whose checksums are all different, in any order and with any of
  them missing or repeated, it reports no gap if and only if it was fed the log from its
  beginning without a hole.
\<close>

theorem client_accepts_only_prefix:
  assumes "linked sha EMPTY_CHECKSUM rs" and "distinct (EMPTY_CHECKSUM # map cs_checksum rs)"
    and "\<forall>r \<in> set rs. cs_checksum r \<noteq> []" and "set xs \<subseteq> set rs"
  shows "snd (client_run client_reset (map live_frame xs)) = ApplyOk \<longleftrightarrow> xs = take (length xs) rs"
  using client_run_prefix [OF assms(1-3) assms(4), of 0 client_reset] by (simp add: client_reset_def)

definition demo_chain :: "checksummed list" where
  "demo_chain =
     (let e1 = ev (TEXT_MESSAGE_END ''a''); e2 = ev (TEXT_MESSAGE_END ''b'');
          c1 = chainNext (\<lambda>s. show_nat (length s)) EMPTY_CHECKSUM e1; c2 = chainNext (\<lambda>s. show_nat (length s)) c1 e2
      in [Checksummed e1 EMPTY_CHECKSUM c1, Checksummed e2 c1 c2])"

theorem client_accepts_only_prefix_witness:
  "snd (client_run client_reset (map live_frame [demo_chain ! 1])) = ApplyOk
   \<longleftrightarrow> [demo_chain ! 1] = take 1 demo_chain"
proof -
  have l: "linked (\<lambda>s. show_nat (length s)) EMPTY_CHECKSUM demo_chain" by (simp add: demo_chain_def Let_def)
  have d: "distinct (EMPTY_CHECKSUM # map cs_checksum demo_chain)" by code_simp
  have n: "\<forall>r \<in> set demo_chain. cs_checksum r \<noteq> []" by code_simp
  have m: "set [demo_chain ! 1] \<subseteq> set demo_chain" by (simp add: demo_chain_def Let_def)
  have one: "length [demo_chain ! 1] = 1" by simp
  from client_accepts_only_prefix [OF l d n m] show ?thesis unfolding one .
qed

text \<open>
  The two ends do not fit: the replay's frames carry no checksum, so after the
  replay of a non-empty log the checking client still holds the seed and takes the first live
  event for a gap, always.
\<close>

theorem snapshot_replay_then_gap:
  assumes "linked sha EMPTY_CHECKSUM L" and "distinct (EMPTY_CHECKSUM # map cs_checksum L)"
    and "0 < n" and "n < length L"
  shows "snd (client_run client_reset (st_sent (stream_run isMsg [] (take n L) [] (drop n L)))) = ApplyGap"
proof -
  have d: "distinct (map cs_checksum ([] @ [] @ drop n L))"
    using assms(2) by (simp add: distinct_drop drop_map [symmetric])
  have f: "filter (\<lambda>c. cs_checksum c \<notin> cs_checksum ` set (take n L)) (drop n L) = drop n L"
    using filter_unseen_suffix [of L n n] assms(2) by simp
  obtain head where h: "\<forall>f \<in> set head. \<exists>e. f = EventFrame e None"
    and sent: "st_sent (stream_run isMsg [] (take n L) [] (drop n L)) = head @ SyncedFrame # map live_frame (drop n L)"
    using stream_run_sent [OF d, of isMsg "take n L"] by (auto simp: f)
  have dr: "drop n L = L ! n # drop (Suc n) L" using assms(4) by (simp add: Cons_nth_drop_Suc)
  have "cs_prev (L ! n) = last_checksum EMPTY_CHECKSUM (take n L)" by (rule linked_prev_nth [OF assms(1,4)])
  with last_checksum_position [OF assms(2), of n 0] assms(3,4) have gap: "cs_prev (L ! n) \<noteq> EMPTY_CHECKSUM" by auto
  obtain s' where "client_run client_reset (st_sent (stream_run isMsg [] (take n L) [] (drop n L)))
      = client_run s' (SyncedFrame # map live_frame (drop n L))" "cl_running s' = EMPTY_CHECKSUM"
    unfolding sent using client_run_head [OF h, of client_reset "SyncedFrame # map live_frame (drop n L)"]
    by (auto simp: client_reset_def)
  with gap show ?thesis by (simp add: dr client_apply_def [of _ SyncedFrame] client_apply_live)
qed

theorem snapshot_replay_then_gap_witness:
  "snd (client_run client_reset (st_sent (stream_run (\<lambda>_. True) [] (take 1 demo_chain) [] (drop 1 demo_chain)))) = ApplyGap"
proof -
  have "linked (\<lambda>s. show_nat (length s)) EMPTY_CHECKSUM demo_chain" by (simp add: demo_chain_def Let_def)
  moreover have "distinct (EMPTY_CHECKSUM # map cs_checksum demo_chain)" by code_simp
  moreover have "1 < length demo_chain" by (simp add: demo_chain_def Let_def)
  ultimately show ?thesis using snapshot_replay_then_gap [of "\<lambda>s. show_nat (length s)" demo_chain 1] by simp
qed

end
