(* ===== verification/Dangling_Run.thy ===== *)
theory Dangling_Run
  imports Agui_Events
begin

text \<open>
  Interrupted runs, found in the event log: \<^verbatim>\<open>session/danglingRun.ts\<close>. The backward loop
  of \<^verbatim>\<open>danglingRunInfo\<close> is a recursion over the reversed log with the loop's three
  variables as arguments; an empty run id is falsy, as in the source.
\<close>

subsection \<open>danglingRun.ts\<close>

record run_origin =
  ro_host :: string
  ro_gen :: "int option"

record dangling_run_info =
  di_runId :: run_id
  di_threadId :: thread_id
  di_cancelRequested :: bool
  di_host :: "string option"

definition isOwnRun :: "string option \<Rightarrow> int option \<Rightarrow> run_origin option \<Rightarrow> bool" where
  "isOwnRun started_host started_gen self =
     (case (self, started_host) of
        (Some s, Some host) \<Rightarrow>
          if host \<noteq> ro_host s then False
          else (case (ro_gen s, started_gen) of (Some g, Some sg) \<Rightarrow> \<not> sg < g | _ \<Rightarrow> True)
      | _ \<Rightarrow> False)"

text \<open>\<^verbatim>\<open>if (runId)\<close>: a run id that is there and not empty.\<close>

definition truthy_run_id :: "agui_event \<Rightarrow> run_id option" where
  "truthy_run_id e = (case event_run_id e of Some r \<Rightarrow> if r = [] then None else Some r | None \<Rightarrow> None)"

fun dangling_scan ::
  "run_origin option \<Rightarrow> agui_event list \<Rightarrow> run_id option \<Rightarrow> run_id set \<Rightarrow> bool \<Rightarrow> dangling_run_info option" where
  "dangling_scan self [] cancelled ended endedUnnamed = None"
| "dangling_scan self (e # es) cancelled ended endedUnnamed =
     (if is_terminal e then
        (case truthy_run_id e of
           Some r \<Rightarrow> dangling_scan self es cancelled (insert r ended) endedUnnamed
         | None \<Rightarrow> dangling_scan self es cancelled ended True)
      else
        (case ev_base e of
           CANCEL_REQUESTED _ r \<Rightarrow> dangling_scan self es (Some r) ended endedUnnamed
         | RUN_STARTED t r host gen \<Rightarrow>
             if endedUnnamed \<or> r \<in> ended then None
             else if isOwnRun host gen self then None
             else Some \<lparr>di_runId = r, di_threadId = t, di_cancelRequested = (cancelled = Some r), di_host = host\<rparr>
         | _ \<Rightarrow> dangling_scan self es cancelled ended endedUnnamed))"

definition danglingRunInfo :: "agui_event list \<Rightarrow> run_origin option \<Rightarrow> dangling_run_info option" where
  "danglingRunInfo events self = dangling_scan self (rev events) None {} False"

definition hasDanglingRun :: "agui_event list \<Rightarrow> run_origin option \<Rightarrow> bool" where
  "hasDanglingRun events self \<longleftrightarrow> danglingRunInfo events self \<noteq> None"

fun completed_scan :: "agui_event list \<Rightarrow> bool" where
  "completed_scan [] = False"
| "completed_scan (e # es) =
     (if is_terminal e then True else if is_run_started e then False else completed_scan es)"

definition lastRunCompleted :: "agui_event list \<Rightarrow> bool" where
  "lastRunCompleted events = completed_scan (rev events)"

record orphan_run =
  or_runId :: run_id
  or_threadId :: thread_id

type_synonym orphan_state = "(run_id, thread_id \<times> bool) js_map \<times> run_id set"

definition orphan_step :: "run_origin option \<Rightarrow> orphan_state \<Rightarrow> agui_event \<Rightarrow> orphan_state" where
  "orphan_step self s e =
     (case s of (started, ended) \<Rightarrow>
        (case truthy_run_id e of
           None \<Rightarrow> s
         | Some r \<Rightarrow>
             (case ev_base e of
                RUN_STARTED t _ host gen \<Rightarrow> (AList.update r (t, isOwnRun host gen self) started, ended)
              | _ \<Rightarrow> if is_terminal e then (started, insert r ended) else s)))"

definition orphanRuns :: "agui_event list \<Rightarrow> run_origin option \<Rightarrow> orphan_run list" where
  "orphanRuns events self =
     (case foldl (orphan_step self) ([], {}) events of (started, ended) \<Rightarrow>
        map (\<lambda>(r, t, own). \<lparr>or_runId = r, or_threadId = t\<rparr>)
          (filter (\<lambda>(r, t, own). r \<notin> ended \<and> \<not> own) started))"

subsection \<open>The backward scan\<close>

text \<open>Whether a terminal ends the run \<open>r\<close> when it comes after the run's start.\<close>

definition ends_run :: "run_id \<Rightarrow> agui_event \<Rightarrow> bool" where
  "ends_run r e \<longleftrightarrow> is_terminal e \<and> (truthy_run_id e = None \<or> truthy_run_id e = Some r)"

definition first_cancel :: "agui_event list \<Rightarrow> run_id option" where
  "first_cancel es =
     (case List.find (\<lambda>e. case ev_base e of CANCEL_REQUESTED _ _ \<Rightarrow> True | _ \<Rightarrow> False) es of
        None \<Rightarrow> None | Some e \<Rightarrow> event_run_id e)"

lemma is_terminal_base [simp]:
  "is_terminal \<lparr>ev_base = RUN_FINISHED t r a b c d, ev_ts = ts\<rparr>"
  "is_terminal \<lparr>ev_base = RUN_ERROR m code r', ev_ts = ts\<rparr>"
  "\<not> is_terminal \<lparr>ev_base = RUN_STARTED t r h g, ev_ts = ts\<rparr>"
  "\<not> is_terminal \<lparr>ev_base = CANCEL_REQUESTED t r, ev_ts = ts\<rparr>"
  by (simp_all add: is_terminal_def)

lemma not_both_marks: "is_terminal e \<Longrightarrow> \<not> is_run_started e"
  by (cases "ev_base e") (auto simp: is_terminal_def is_run_started_def)

text \<open>What the loop knows after passing \<open>post\<close>, the part of the log behind the last start.\<close>

lemma first_cancel_snoc:
  "first_cancel (es @ [e]) =
     (if first_cancel es \<noteq> None then first_cancel es
      else case ev_base e of CANCEL_REQUESTED _ r \<Rightarrow> Some r | _ \<Rightarrow> None)"
  by (induction es)
    (auto simp: first_cancel_def event_run_id_def split: agui_base.splits option.splits)

lemma first_cancel_Cons:
  "first_cancel (e # es) = (case ev_base e of CANCEL_REQUESTED _ r \<Rightarrow> Some r | _ \<Rightarrow> first_cancel es)"
  by (cases "ev_base e") (auto simp: first_cancel_def event_run_id_def)

lemma dangling_scan_post:
  "\<forall>e \<in> set post. \<not> is_run_started e \<Longrightarrow>
   dangling_scan self (rev post @ es) None ended unnamed =
   dangling_scan self es (first_cancel post)
     (ended \<union> {r. \<exists>e \<in> set post. is_terminal e \<and> truthy_run_id e = Some r})
     (unnamed \<or> (\<exists>e \<in> set post. is_terminal e \<and> truthy_run_id e = None))"
proof (induction post arbitrary: es)
  case Nil
  then show ?case by (simp add: first_cancel_def)
next
  case (Cons e post)
  have IH: "dangling_scan self (rev post @ e # es) None ended unnamed =
   dangling_scan self (e # es) (first_cancel post)
     (ended \<union> {r. \<exists>e \<in> set post. is_terminal e \<and> truthy_run_id e = Some r})
     (unnamed \<or> (\<exists>e \<in> set post. is_terminal e \<and> truthy_run_id e = None))"
    using Cons by simp
  show ?case
  proof (cases "is_terminal e")
    case True
    then have "first_cancel (e # post) = first_cancel post"
      by (cases "ev_base e") (auto simp: first_cancel_Cons is_terminal_def)
    moreover have "insert r (ended \<union> {r. \<exists>e \<in> set post. is_terminal e \<and> truthy_run_id e = Some r})
        = ended \<union> {r. \<exists>e' \<in> set (e # post). is_terminal e' \<and> truthy_run_id e' = Some r}"
      if "truthy_run_id e = Some r" for r using that True by auto
    ultimately show ?thesis using IH True by (cases "truthy_run_id e") (simp_all add: Un_commute)
  next
    case False
    have "\<not> is_run_started e" using Cons.prems by simp
    with False IH show ?thesis
      by (cases "ev_base e") (auto simp: first_cancel_Cons is_terminal_def is_run_started_def)
  qed
qed

lemma danglingRunInfo_split:
  assumes "\<forall>e \<in> set post. \<not> is_run_started e"
  shows "danglingRunInfo (pre @ \<lparr>ev_base = RUN_STARTED t r host gen, ev_ts = ts\<rparr> # post) self =
    (if (\<exists>e \<in> set post. ends_run r e) \<or> isOwnRun host gen self then None
     else Some \<lparr>di_runId = r, di_threadId = t, di_cancelRequested = (first_cancel post = Some r), di_host = host\<rparr>)"
  unfolding danglingRunInfo_def
  using dangling_scan_post [OF assms, of self "\<lparr>ev_base = RUN_STARTED t r host gen, ev_ts = ts\<rparr> # rev pre" "{}" False]
  by (auto simp: ends_run_def)

lemma danglingRunInfo_no_run:
  assumes "\<forall>e \<in> set post. \<not> is_run_started e"
  shows "danglingRunInfo post self = None"
  unfolding danglingRunInfo_def using dangling_scan_post [OF assms, of self "[]" "{}" False] by simp

text \<open>Every log has no start, or a last one.\<close>

lemma last_start_cases:
  obtains "\<forall>e \<in> set events. \<not> is_run_started e"
  | pre t r host gen ts post where "events = pre @ \<lparr>ev_base = RUN_STARTED t r host gen, ev_ts = ts\<rparr> # post"
      and "\<forall>e \<in> set post. \<not> is_run_started e"
proof (cases "\<exists>e \<in> set events. is_run_started e")
  case True
  then obtain pre e post where split: "events = pre @ e # post" "is_run_started e"
      "\<forall>e \<in> set post. \<not> is_run_started e"
    using split_list_last_prop [of events is_run_started] by blast
  from split(2) obtain t r host gen where "ev_base e = RUN_STARTED t r host gen"
    by (auto simp: is_run_started_def split: agui_base.splits)
  then have "e = \<lparr>ev_base = RUN_STARTED t r host gen, ev_ts = ev_ts e\<rparr>" by simp
  with split that(2) show ?thesis by metis
next
  case False
  with that(1) show ?thesis by blast
qed

subsection \<open>The forward fold\<close>

definition run_ended :: "agui_event list \<Rightarrow> run_id \<Rightarrow> bool" where
  "run_ended events r \<longleftrightarrow> (\<exists>e \<in> set events. is_terminal e \<and> truthy_run_id e = Some r)"

lemma orphan_step_ended:
  "snd (orphan_step self s e) = snd s \<union> {r. is_terminal e \<and> truthy_run_id e = Some r}"
  by (cases s; cases "ev_base e")
    (auto simp: orphan_step_def is_terminal_def split: option.splits)

lemma orphan_fold_ended:
  "snd (foldl (orphan_step self) s events) = snd s \<union> {r. run_ended events r}"
proof (induction events arbitrary: s)
  case Nil
  then show ?case by (simp add: run_ended_def)
next
  case (Cons e events)
  then show ?case by (auto simp: orphan_step_ended run_ended_def)
qed

text \<open>The entry a run's last start leaves.\<close>

definition start_entry :: "run_origin option \<Rightarrow> agui_event \<Rightarrow> (run_id \<times> thread_id \<times> bool) option" where
  "start_entry self e =
     (case ev_base e of
        RUN_STARTED t r host gen \<Rightarrow> if r = [] then None else Some (r, t, isOwnRun host gen self)
      | _ \<Rightarrow> None)"

lemma orphan_step_started:
  "fst (orphan_step self s e) =
     (case start_entry self e of None \<Rightarrow> fst s | Some (r, v) \<Rightarrow> AList.update r v (fst s))"
  by (cases s; cases "ev_base e")
    (auto simp: orphan_step_def start_entry_def truthy_run_id_def event_run_id_def is_terminal_def split: option.splits)

lemma orphan_fold_map_of:
  "map_of (fst (foldl (orphan_step self) s events)) =
     map_of (fst s) ++ map_of (rev (List.map_filter (start_entry self) events))"
proof (induction events arbitrary: s)
  case Nil
  then show ?case by (simp add: map_filter_def)
next
  case (Cons e events)
  then show ?case
    by (cases "start_entry self e")
      (auto simp: orphan_step_started map_filter_def map_add_def fun_eq_iff split: option.splits prod.splits)
qed

lemma orphan_fold_distinct:
  "distinct (map fst (fst s)) \<Longrightarrow> distinct (map fst (fst (foldl (orphan_step self) s events)))"
proof (induction events arbitrary: s)
  case Nil
  then show ?case by simp
next
  case (Cons e events)
  have "distinct (map fst (fst (orphan_step self s e)))"
    using Cons.prems by (auto simp: orphan_step_started distinct_update split: option.splits)
  then show ?case using Cons.IH by simp
qed

lemma mem_orphanRuns:
  "\<lparr>or_runId = r, or_threadId = t\<rparr> \<in> set (orphanRuns events self) \<longleftrightarrow>
    map_of (rev (List.map_filter (start_entry self) events)) r = Some (t, False) \<and> \<not> run_ended events r"
proof -
  obtain started ended where f: "foldl (orphan_step self) ([], {}) events = (started, ended)" by fastforce
  have m: "map_of started = map_of (rev (List.map_filter (start_entry self) events))"
    using orphan_fold_map_of [of self "([], {})" events] by (simp add: f)
  have e: "ended = {r. run_ended events r}" using orphan_fold_ended [of self "([], {})" events] by (simp add: f)
  have d: "distinct (map fst started)" using orphan_fold_distinct [of "([], {})" self events] by (simp add: f)
  have "(r, t, False) \<in> set started \<longleftrightarrow> map_of started r = Some (t, False)"
    using d by (metis map_of_SomeD map_of_is_SomeI)
  then show ?thesis by (force simp: orphanRuns_def f m e)
qed


subsection \<open>Properties\<close>

text \<open>
  A conversation is reported as interrupted exactly when its last run has no
  terminal after its start, named or unnamed, and was not started by the pod that asks at the
  generation it holds; a terminal of an older run that comes late does not hide it.
\<close>

theorem hasDanglingRun_iff:
  "hasDanglingRun events self \<longleftrightarrow>
    (\<exists>pre t r host gen ts post. events = pre @ \<lparr>ev_base = RUN_STARTED t r host gen, ev_ts = ts\<rparr> # post
      \<and> \<not> list_ex is_run_started post \<and> \<not> list_ex (ends_run r) post \<and> \<not> isOwnRun host gen self)"
  (is "_ \<longleftrightarrow> ?R")
proof
  assume dang: "hasDanglingRun events self"
  show ?R
  proof (rule last_start_cases [of events])
    assume "\<forall>e \<in> set events. \<not> is_run_started e"
    with dang show ?R by (simp add: hasDanglingRun_def danglingRunInfo_no_run)
  next
    fix pre t r host gen ts post
    assume ev: "events = pre @ \<lparr>ev_base = RUN_STARTED t r host gen, ev_ts = ts\<rparr> # post"
      and post: "\<forall>e \<in> set post. \<not> is_run_started e"
    from dang have "\<not> (\<exists>e \<in> set post. ends_run r e)" and "\<not> isOwnRun host gen self"
      unfolding hasDanglingRun_def ev danglingRunInfo_split [OF post] by (auto split: if_splits)
    with ev post show ?R unfolding list_ex_iff by blast
  qed
next
  assume ?R
  then obtain pre t r host gen ts post
    where ev: "events = pre @ \<lparr>ev_base = RUN_STARTED t r host gen, ev_ts = ts\<rparr> # post"
      and post: "\<forall>e \<in> set post. \<not> is_run_started e" and "\<not> (\<exists>e \<in> set post. ends_run r e)" "\<not> isOwnRun host gen self"
    unfolding list_ex_iff by blast
  then show "hasDanglingRun events self"
    unfolding hasDanglingRun_def ev danglingRunInfo_split [OF post] by simp
qed

text \<open>
  The interrupted run the resume path acts on is among the orphan runs the
  hand-off closes: both readings of the log agree on it, when its id is not empty and no
  earlier event already ended a run of that id.
\<close>

theorem dangling_run_is_orphan:
  assumes "danglingRunInfo events self = Some d" and "di_runId d \<noteq> []" and "\<not> run_ended events (di_runId d)"
  shows "\<lparr>or_runId = di_runId d, or_threadId = di_threadId d\<rparr> \<in> set (orphanRuns events self)"
proof (rule last_start_cases [of events])
  assume "\<forall>e \<in> set events. \<not> is_run_started e"
  with assms(1) show ?thesis by (simp add: danglingRunInfo_no_run)
next
  fix pre t r host gen ts post
  assume ev: "events = pre @ \<lparr>ev_base = RUN_STARTED t r host gen, ev_ts = ts\<rparr> # post"
    and post: "\<forall>e \<in> set post. \<not> is_run_started e"
  from assms(1) have d: "di_runId d = r" "di_threadId d = t" and own: "\<not> isOwnRun host gen self"
    unfolding ev danglingRunInfo_split [OF post] by (auto split: if_splits)
  have "List.map_filter (start_entry self) post = []"
    using post by (induction post) (auto simp: map_filter_def start_entry_def is_run_started_def split: agui_base.splits)
  moreover have "start_entry self \<lparr>ev_base = RUN_STARTED t r host gen, ev_ts = ts\<rparr> = Some (r, t, False)"
    using assms(2) d own by (simp add: start_entry_def)
  ultimately have "map_of (rev (List.map_filter (start_entry self) events)) r = Some (t, False)"
    by (auto simp: ev map_filter_def)
  with assms(3) d show ?thesis by (simp add: mem_orphanRuns)
qed

theorem dangling_run_is_orphan_witness:
  "\<lparr>or_runId = ''r1'', or_threadId = ''t''\<rparr>
    \<in> set (orphanRuns [ev (RUN_STARTED ''t'' ''r1'' (Some ''pod-a'') (Some 3)), ev (TEXT_MESSAGE_END ''m'')]
        (Some \<lparr>ro_host = ''pod-a'', ro_gen = Some 4\<rparr>))"
  using dangling_run_is_orphan
    [of "[ev (RUN_STARTED ''t'' ''r1'' (Some ''pod-a'') (Some 3)), ev (TEXT_MESSAGE_END ''m'')]"
      "Some \<lparr>ro_host = ''pod-a'', ro_gen = Some 4\<rparr>"
      "\<lparr>di_runId = ''r1'', di_threadId = ''t'', di_cancelRequested = False, di_host = Some ''pod-a''\<rparr>"]
  by (simp add: danglingRunInfo_def is_terminal_def isOwnRun_def run_ended_def)

text \<open>
  The two readings disagree on a run that failed: an error event carries no run id,
  so the forward reading never counts it as that run's terminal and reports the run as an orphan,
  while the backward reading takes it as the end of the last run.
\<close>

theorem errored_run_reported_as_orphan:
  "let events = [ev (RUN_STARTED t (c # r) host gen), ev (RUN_ERROR m code None)] in
     \<not> hasDanglingRun events None \<and> lastRunCompleted events
     \<and> orphanRuns events None = [\<lparr>or_runId = c # r, or_threadId = t\<rparr>]"
  by (simp add: hasDanglingRun_def danglingRunInfo_def lastRunCompleted_def orphanRuns_def orphan_step_def
      truthy_run_id_def event_run_id_def isOwnRun_def Let_def)

end
