(* ===== verification/Integrity_Agent.thy ===== *)
theory Integrity_Agent
  imports Integrity_Stream Dangling_Run
begin

text \<open>
  The state the browser derives from the integrity stream beside the messages,
  \<^verbatim>\<open>services/ui/src/integrityAgent.ts\<close>: one definition per \<^verbatim>\<open>track*\<close> method (the new
  state and whether it changed), the per-frame callback that runs them in order, what a new
  connection resets, the splitting of the byte stream into frames, the idle watchdog and the
  retries of a cancel. \<open>now\<close> is the clock. The base class that folds the messages is a library
  and is not modelled.
\<close>

subsection \<open>State\<close>

record system_chip =
  sy_id :: message_id
  sy_source :: string
  sy_text :: string
  sy_after :: "message_id option"

record agent_state =
  ag_running :: bool
  ag_activeToolName :: "string option"
  ag_runStartedAt :: "int option"
  ag_contextUsed :: "nat option"
  ag_contextWindow :: "nat option"
  ag_systemMessages :: "system_chip list"
  ag_lastMessageId :: "message_id option"
  ag_lastRunError :: "string option"
  ag_retrying :: "(nat \<times> nat) option"
  ag_queued :: "queue_entry list"
  ag_historyCursor :: int
  ag_messageImages :: "message_id \<rightharpoonup> image_ref list"
  ag_messageTimes :: "message_id \<rightharpoonup> int"
  ag_pendingApprovals :: "(string, agui_interrupt) js_map"
  ag_replaying :: bool
  ag_foldEpoch :: nat
  ag_notified :: nat

definition agent_init :: agent_state where
  "agent_init =
     \<lparr>ag_running = False, ag_activeToolName = None, ag_runStartedAt = None, ag_contextUsed = None, ag_contextWindow = None,
      ag_systemMessages = [], ag_lastMessageId = None, ag_lastRunError = None, ag_retrying = None, ag_queued = [],
      ag_historyCursor = 1, ag_messageImages = Map.empty, ag_messageTimes = Map.empty, ag_pendingApprovals = [],
      ag_replaying = False, ag_foldEpoch = 0, ag_notified = 0\<rparr>"

subsection \<open>The trackers\<close>

definition is_ext :: "agui_event \<Rightarrow> bool" where
  "is_ext e = (case event_run_id e of None \<Rightarrow> False | Some r \<Rightarrow> starts_with r ''ext-'')"

definition trackRunning :: "int \<Rightarrow> agent_state \<Rightarrow> ui_event \<Rightarrow> agent_state \<times> bool" where
  "trackRunning now s u =
     (case plain_event u of
        None \<Rightarrow> (s, False)
      | Some e \<Rightarrow>
          if is_ext e then (s, False)
          else
            let s' = (case ev_base e of
                        RUN_STARTED _ _ _ _ \<Rightarrow>
                          s\<lparr>ag_running := True, ag_runStartedAt := Some (the_or now (ev_ts e)), ag_activeToolName := None\<rparr>
                      | RUN_FINISHED _ _ _ _ _ _ \<Rightarrow>
                          s\<lparr>ag_running := False, ag_activeToolName := None, ag_runStartedAt := None\<rparr>
                      | RUN_ERROR _ _ _ \<Rightarrow>
                          s\<lparr>ag_running := False, ag_activeToolName := None, ag_runStartedAt := None\<rparr>
                      | TOOL_CALL_START _ n \<Rightarrow> s\<lparr>ag_activeToolName := Some n\<rparr>
                      | TOOL_CALL_END _ \<Rightarrow> s\<lparr>ag_activeToolName := None\<rparr>
                      | _ \<Rightarrow> s)
            in (s', ag_running s' \<noteq> ag_running s \<or> ag_activeToolName s' \<noteq> ag_activeToolName s))"

definition trackContext :: "agent_state \<Rightarrow> ui_event \<Rightarrow> agent_state \<times> bool" where
  "trackContext s u =
     (case map_option ev_base (plain_event u) of
        Some (CONTEXT_USAGE used win) \<Rightarrow>
          (s\<lparr>ag_contextUsed := Some used, ag_contextWindow := Some win\<rparr>, ag_contextUsed s \<noteq> Some used)
      | _ \<Rightarrow> (s, False))"

text \<open>\<^verbatim>\<open>contextTokens\<close>: nothing while either is unknown or the window is 0.\<close>

definition contextTokens :: "agent_state \<Rightarrow> (nat \<times> nat) option" where
  "contextTokens s =
     (case (ag_contextUsed s, ag_contextWindow s) of
        (Some u, Some w) \<Rightarrow> if w = 0 then None else Some (u, w)
      | _ \<Rightarrow> None)"

definition trackSystemMessage :: "agent_state \<Rightarrow> ui_event \<Rightarrow> agent_state \<times> bool" where
  "trackSystemMessage s u =
     (case u of
        MessagesSnapshot ms _ \<Rightarrow>
          ((if ms = [] then s else s\<lparr>ag_lastMessageId := Some (sm_id (last ms))\<rparr>), False)
      | _ \<Rightarrow>
          (case map_option ev_base (plain_event u) of
             Some (TEXT_MESSAGE_START m _) \<Rightarrow> ((if m = [] then s else s\<lparr>ag_lastMessageId := Some m\<rparr>), False)
           | Some (TOOL_CALL_START t _) \<Rightarrow> ((if t = [] then s else s\<lparr>ag_lastMessageId := Some t\<rparr>), False)
           | Some (SYSTEM_MESSAGE m src txt) \<Rightarrow>
               if m = [] \<or> m \<in> sy_id ` set (ag_systemMessages s) then (s, False)
               else
                 (s\<lparr>ag_systemMessages := ag_systemMessages s @
                     [\<lparr>sy_id = m, sy_source = src, sy_text = txt,
                       sy_after = (case u of Anchored _ a \<Rightarrow> a | _ \<Rightarrow> ag_lastMessageId s)\<rparr>]\<rparr>, True)
           | _ \<Rightarrow> (s, False)))"

definition trackRunError :: "agent_state \<Rightarrow> ui_event \<Rightarrow> agent_state \<times> bool" where
  "trackRunError s u =
     (case plain_event u of
        None \<Rightarrow> (s, False)
      | Some e \<Rightarrow>
          if is_ext e then (s, False)
          else
            let (nxt, retry) =
                  (case ev_base e of
                     RUN_STARTED _ _ _ _ \<Rightarrow> (None, None)
                   | RUN_RETRYING _ attempt mx _ _ \<Rightarrow> (ag_lastRunError s, Some (attempt, mx))
                   | RUN_ERROR m _ _ \<Rightarrow> (Some m, None)
                   | _ \<Rightarrow> (ag_lastRunError s, ag_retrying s))
            in (s\<lparr>ag_retrying := retry, ag_lastRunError := nxt\<rparr>, nxt \<noteq> ag_lastRunError s \<or> retry \<noteq> ag_retrying s))"

definition trackImages :: "agent_state \<Rightarrow> ui_event \<Rightarrow> agent_state \<times> bool" where
  "trackImages s u =
     (case map_option ev_base (plain_event u) of
        Some (MESSAGE_IMAGES m imgs) \<Rightarrow>
          if m = [] \<or> imgs = [] then (s, False)
          else (s\<lparr>ag_messageImages := (ag_messageImages s)(m \<mapsto> imgs)\<rparr>, True)
      | _ \<Rightarrow> (s, False))"

fun recordMessageTimes :: "agent_state \<Rightarrow> snapshot_message list \<Rightarrow> agent_state \<times> bool" where
  "recordMessageTimes s [] = (s, False)"
| "recordMessageTimes s (m # ms) =
     (case sm_createdAt m of
        Some t \<Rightarrow>
          if ag_messageTimes s (sm_id m) = None
          then (fst (recordMessageTimes (s\<lparr>ag_messageTimes := (ag_messageTimes s)(sm_id m \<mapsto> t)\<rparr>) ms), True)
          else recordMessageTimes s ms
      | None \<Rightarrow> recordMessageTimes s ms)"

definition opening_id :: "agui_event \<Rightarrow> message_id option" where
  "opening_id e =
     (case ev_base e of
        TEXT_MESSAGE_START m _ \<Rightarrow> Some m | REASONING_START m \<Rightarrow> Some m | REASONING_MESSAGE_START m \<Rightarrow> Some m
      | TOOL_CALL_START t _ \<Rightarrow> Some t | _ \<Rightarrow> None)"

definition trackTimes :: "agent_state \<Rightarrow> ui_event \<Rightarrow> agent_state \<times> bool" where
  "trackTimes s u =
     (case u of
        MessagesSnapshot ms _ \<Rightarrow> recordMessageTimes s ms
      | _ \<Rightarrow>
          (case plain_event u of
             None \<Rightarrow> (s, False)
           | Some e \<Rightarrow>
               (case (ev_ts e, opening_id e) of
                  (Some t, Some m) \<Rightarrow>
                    if m = [] \<or> ag_messageTimes s m \<noteq> None then (s, False)
                    else (s\<lparr>ag_messageTimes := (ag_messageTimes s)(m \<mapsto> t)\<rparr>, True)
                | _ \<Rightarrow> (s, False))))"

definition same_queue :: "queue_entry list \<Rightarrow> queue_entry list \<Rightarrow> bool" where
  "same_queue xs ys \<longleftrightarrow> map (\<lambda>q. (qe_id q, qe_text q)) xs = map (\<lambda>q. (qe_id q, qe_text q)) ys"

definition trackQueue :: "agent_state \<Rightarrow> ui_event \<Rightarrow> agent_state \<times> bool" where
  "trackQueue s u =
     (case map_option ev_base (plain_event u) of
        Some (QUEUE_UPDATED items) \<Rightarrow>
          if same_queue items (ag_queued s) then (s, False) else (s\<lparr>ag_queued := items\<rparr>, True)
      | _ \<Rightarrow> (s, False))"

definition getQueuedMessages :: "agent_state \<Rightarrow> queue_entry list" where
  "getQueuedMessages s = (if ag_running s then ag_queued s else [])"

definition trackHistoryCursor :: "agent_state \<Rightarrow> ui_event \<Rightarrow> agent_state \<times> bool" where
  "trackHistoryCursor s u =
     (case u of
        MessagesSnapshot _ fromSeq \<Rightarrow>
          let nxt = the_or 1 fromSeq
          in if nxt = ag_historyCursor s then (s, False) else (s\<lparr>ag_historyCursor := nxt\<rparr>, True)
      | _ \<Rightarrow> (s, False))"

definition hasOlderHistory :: "agent_state \<Rightarrow> bool" where
  "hasOlderHistory s \<longleftrightarrow> ag_historyCursor s > 1"

definition notifyMessages :: "agent_state \<Rightarrow> agent_state" where
  "notifyMessages s = s\<lparr>ag_notified := Suc (ag_notified s)\<rparr>"

definition pendingSignature :: "agent_state \<Rightarrow> string" where
  "pendingSignature s = join '','' (sort (map fst (ag_pendingApprovals s)))"

definition trackInterrupt :: "agent_state \<Rightarrow> ui_event \<Rightarrow> agent_state" where
  "trackInterrupt s u =
     (case map_option ev_base (plain_event u) of
        Some (PERMISSION_RESOLVED t _) \<Rightarrow>
          if t = [] then s
          else
            let s' = s\<lparr>ag_pendingApprovals := AList.delete t (ag_pendingApprovals s)\<rparr>
            in if pendingSignature s \<noteq> pendingSignature s' then notifyMessages s' else s'
      | Some (RUN_FINISHED _ _ _ (Some (OutcomeInterrupt ints)) _ _) \<Rightarrow>
          let s' = s\<lparr>ag_pendingApprovals := foldl (\<lambda>m i. AList.update (int_id i) i m) (ag_pendingApprovals s) ints\<rparr>
          in if pendingSignature s \<noteq> pendingSignature s' then notifyMessages s' else s'
      | _ \<Rightarrow> s)"

text \<open>The callback of a frame: the interrupts first, then the trackers whose change is announced.\<close>

definition on_frame :: "int \<Rightarrow> agent_state \<Rightarrow> ui_event \<Rightarrow> agent_state" where
  "on_frame now s u =
     (let s0 = trackInterrupt s u;
          (s1, c1) = trackRunning now s0 u;
          (s2, c2) = trackRunError s1 u;
          (s3, c3) = trackQueue s2 u;
          (s4, c4) = trackImages s3 u;
          (s5, c5) = trackTimes s4 u;
          (s6, c6) = trackContext s5 u;
          (s7, c7) = trackSystemMessage s6 u;
          (s8, c8) = trackHistoryCursor s7 u;
          changed = (c1 \<or> c2 \<or> c3 \<or> c4 \<or> c5 \<or> c6 \<or> c7 \<or> c8)
      in if changed \<and> \<not> ag_replaying s8 then notifyMessages s8 else s8)"

text \<open>What a new connection resets before its replay.\<close>

definition begin_connection :: "agent_state \<Rightarrow> agent_state" where
  "begin_connection s =
     s\<lparr>ag_pendingApprovals := [], ag_lastRunError := None, ag_queued := [], ag_historyCursor := 1,
       ag_systemMessages := [], ag_lastMessageId := None, ag_replaying := True, ag_foldEpoch := Suc (ag_foldEpoch s)\<rparr>"

subsection \<open>Frames out of bytes\<close>

text \<open>The inner loop of \<^verbatim>\<open>readConnection\<close>: cut the buffer at blank lines.\<close>

function sse_cut :: "string \<Rightarrow> string list \<times> string" where
  "sse_cut buf =
     (case indexOf buf (newline @ newline) of
        None \<Rightarrow> ([], buf)
      | Some i \<Rightarrow> (case sse_cut (drop (i + 2) buf) of (fs, rest) \<Rightarrow> (take i buf # fs, rest)))"
  by pat_completeness auto
termination
proof (relation "measure length")
  fix buf i assume "indexOf buf (newline @ newline) = Some i"
  from indexOf_Some_split [OF this] show "(drop (i + 2) buf, buf) \<in> measure length"
    by (auto simp: newline_def)
qed simp

declare sse_cut.simps [simp del]

fun sse_feed :: "string \<Rightarrow> string list \<Rightarrow> string list \<times> string" where
  "sse_feed buf [] = ([], buf)"
| "sse_feed buf (chunk # chunks) =
     (case sse_cut (buf @ chunk) of (fs, rest) \<Rightarrow> (case sse_feed rest chunks of (gs, rest') \<Rightarrow> (fs @ gs, rest')))"

subsection \<open>The idle watchdog and the retries of a cancel\<close>

record watchdog =
  wd_lastActivityAt :: int
  wd_livenessHealed :: bool
  wd_healedKey :: "string option"

definition interrupt_key :: "agent_state \<Rightarrow> string option" where
  "interrupt_key s = (if ag_pendingApprovals s = [] then None else Some (pendingSignature s))"

text \<open>One tick: the new watchdog state, and whether the connection is aborted. \<^verbatim>\<open>idleMs * 2.4\<close> is kept exact.\<close>

definition watchdog_tick :: "int \<Rightarrow> int \<Rightarrow> agent_state \<Rightarrow> watchdog \<Rightarrow> watchdog \<times> bool" where
  "watchdog_tick idleMs now s w =
     (let silent = now - wd_lastActivityAt w; key = interrupt_key s;
          interruptStuck = (key \<noteq> None \<and> key \<noteq> wd_healedKey w);
          connectionDead = (silent * 10 \<ge> idleMs * 24 \<and> \<not> wd_livenessHealed w)
      in if silent < idleMs then (w, False)
         else if \<not> ag_running s \<and> \<not> interruptStuck \<and> \<not> connectionDead then (w, False)
         else
           (w\<lparr>wd_healedKey := (if interruptStuck then key else wd_healedKey w),
              wd_livenessHealed := True, wd_lastActivityAt := now\<rparr>, True))"

datatype cancel_result = CancelOk | CancelFailed nat

text \<open>\<^verbatim>\<open>cancel\<close>: the statuses are what the server answers attempt by attempt; 2xx is ok.\<close>

fun cancel_loop :: "nat \<Rightarrow> nat \<Rightarrow> nat list \<Rightarrow> cancel_result" where
  "cancel_loop 0 lst statuses = CancelFailed lst"
| "cancel_loop (Suc n) lst [] = CancelFailed lst"
| "cancel_loop (Suc n) lst (c # cs) =
     (if 200 \<le> c \<and> c < 300 then CancelOk
      else if c \<noteq> 404 then CancelFailed c else cancel_loop n c cs)"

definition agent_cancel :: "nat list \<Rightarrow> cancel_result" where
  "agent_cancel statuses = cancel_loop 9 0 statuses"


subsection \<open>What each tracker leaves alone\<close>

abbreviation plain_base :: "ui_event \<Rightarrow> agui_base option" where
  "plain_base u \<equiv> map_option ev_base (plain_event u)"

lemma recordMessageTimes_eq: "\<exists>ts. fst (recordMessageTimes s ms) = s\<lparr>ag_messageTimes := ts\<rparr>"
proof (induction ms arbitrary: s)
  case Nil
  have "s = s\<lparr>ag_messageTimes := ag_messageTimes s\<rparr>" by simp
  then show ?case by (metis fst_conv recordMessageTimes.simps(1))
next
  case (Cons m ms)
  show ?case
  proof (cases "sm_createdAt m")
    case None
    with Cons show ?thesis by simp
  next
    case (Some t)
    obtain ts where "fst (recordMessageTimes (s\<lparr>ag_messageTimes := (ag_messageTimes s)(sm_id m \<mapsto> t)\<rparr>) ms)
        = s\<lparr>ag_messageTimes := (ag_messageTimes s)(sm_id m \<mapsto> t)\<rparr>\<lparr>ag_messageTimes := ts\<rparr>"
      using Cons.IH by blast
    with Some Cons show ?thesis by auto
  qed
qed

lemma trackTimes_eq: "\<exists>ts. fst (trackTimes s u) = s\<lparr>ag_messageTimes := ts\<rparr>"
proof -
  have same: "\<exists>ts. s = s\<lparr>ag_messageTimes := ts\<rparr>" by (rule exI [of _ "ag_messageTimes s"]) simp
  show ?thesis
    using same recordMessageTimes_eq [of s]
    by (auto simp: trackTimes_def split: ui_event.splits option.splits prod.splits)
qed

text \<open>The part of the state a reconnect rebuilds.\<close>

record log_view =
  lv_pending :: "(string, agui_interrupt) js_map"
  lv_runError :: "string option"
  lv_queued :: "queue_entry list"
  lv_cursor :: int
  lv_system :: "system_chip list"
  lv_anchor :: "message_id option"

definition log_view_of :: "agent_state \<Rightarrow> log_view" where
  "log_view_of s = \<lparr>lv_pending = ag_pendingApprovals s, lv_runError = ag_lastRunError s, lv_queued = ag_queued s,
     lv_cursor = ag_historyCursor s, lv_system = ag_systemMessages s, lv_anchor = ag_lastMessageId s\<rparr>"

definition pending_step :: "(string, agui_interrupt) js_map \<Rightarrow> ui_event \<Rightarrow> (string, agui_interrupt) js_map" where
  "pending_step m u =
     (case plain_base u of
        Some (PERMISSION_RESOLVED t _) \<Rightarrow> if t = [] then m else AList.delete t m
      | Some (RUN_FINISHED _ _ _ (Some (OutcomeInterrupt ints)) _ _) \<Rightarrow> foldl (\<lambda>m i. AList.update (int_id i) i m) m ints
      | _ \<Rightarrow> m)"

definition run_step :: "bool \<Rightarrow> ui_event \<Rightarrow> bool" where
  "run_step r u =
     (case plain_event u of
        None \<Rightarrow> r
      | Some e \<Rightarrow> if is_ext e then r else if is_run_started e then True else if is_terminal e then False else r)"

definition error_step :: "string option \<Rightarrow> ui_event \<Rightarrow> string option" where
  "error_step x u =
     (case plain_event u of
        None \<Rightarrow> x
      | Some e \<Rightarrow>
          if is_ext e then x
          else (case ev_base e of RUN_STARTED _ _ _ _ \<Rightarrow> None | RUN_ERROR m _ _ \<Rightarrow> Some m | _ \<Rightarrow> x))"

lemma trackInterrupt_sel [simp]:
  "ag_pendingApprovals (trackInterrupt s u) = pending_step (ag_pendingApprovals s) u"
  "ag_running (trackInterrupt s u) = ag_running s" "ag_lastRunError (trackInterrupt s u) = ag_lastRunError s"
  "ag_queued (trackInterrupt s u) = ag_queued s" "ag_historyCursor (trackInterrupt s u) = ag_historyCursor s"
  "ag_systemMessages (trackInterrupt s u) = ag_systemMessages s" "ag_lastMessageId (trackInterrupt s u) = ag_lastMessageId s"
  by (auto simp: trackInterrupt_def pending_step_def notifyMessages_def Let_def split: option.splits agui_base.splits run_outcome.splits)

lemma trackRunning_sel [simp]:
  "ag_running (fst (trackRunning now s u)) = run_step (ag_running s) u"
  "ag_pendingApprovals (fst (trackRunning now s u)) = ag_pendingApprovals s"
  "ag_lastRunError (fst (trackRunning now s u)) = ag_lastRunError s"
  "ag_queued (fst (trackRunning now s u)) = ag_queued s" "ag_historyCursor (fst (trackRunning now s u)) = ag_historyCursor s"
  "ag_systemMessages (fst (trackRunning now s u)) = ag_systemMessages s"
  "ag_lastMessageId (fst (trackRunning now s u)) = ag_lastMessageId s"
  by (auto simp: trackRunning_def run_step_def is_run_started_def is_terminal_def Let_def split: option.splits agui_base.splits)

lemma trackRunError_sel [simp]:
  "ag_lastRunError (fst (trackRunError s u)) = error_step (ag_lastRunError s) u"
  "ag_running (fst (trackRunError s u)) = ag_running s" "ag_pendingApprovals (fst (trackRunError s u)) = ag_pendingApprovals s"
  "ag_queued (fst (trackRunError s u)) = ag_queued s" "ag_historyCursor (fst (trackRunError s u)) = ag_historyCursor s"
  "ag_systemMessages (fst (trackRunError s u)) = ag_systemMessages s"
  "ag_lastMessageId (fst (trackRunError s u)) = ag_lastMessageId s"
  by (auto simp: trackRunError_def error_step_def Let_def split: option.splits agui_base.splits)

lemma trackImages_context_sel [simp]:
  "ag_running (fst (trackImages s u)) = ag_running s" "ag_running (fst (trackContext s u)) = ag_running s"
  "log_view_of (fst (trackImages s u)) = log_view_of s" "log_view_of (fst (trackContext s u)) = log_view_of s"
  by (auto simp: trackImages_def trackContext_def log_view_of_def split: option.splits agui_base.splits)

lemma trackTimes_sel [simp]:
  "ag_running (fst (trackTimes s u)) = ag_running s" "log_view_of (fst (trackTimes s u)) = log_view_of s"
  using trackTimes_eq [of s u] by (auto simp: log_view_of_def)

lemma trackQueue_running [simp]: "ag_running (fst (trackQueue s u)) = ag_running s"
  by (auto simp: trackQueue_def split: option.splits agui_base.splits)

lemma trackSystem_cursor_running [simp]:
  "ag_running (fst (trackSystemMessage s u)) = ag_running s" "ag_running (fst (trackHistoryCursor s u)) = ag_running s"
  by (auto simp: trackSystemMessage_def trackHistoryCursor_def Let_def split: ui_event.splits option.splits agui_base.splits)

lemma notify_sel [simp]:
  "ag_running (notifyMessages s) = ag_running s" "log_view_of (notifyMessages s) = log_view_of s"
  by (simp_all add: notifyMessages_def log_view_of_def)

text \<open>Each tracker maps equal views to equal views.\<close>

lemma log_view_of_cong:
  assumes "log_view_of s = log_view_of t"
  shows "log_view_of (trackInterrupt s u) = log_view_of (trackInterrupt t u)"
    and "log_view_of (fst (trackRunning n s u)) = log_view_of (fst (trackRunning n' t u))"
    and "log_view_of (fst (trackRunError s u)) = log_view_of (fst (trackRunError t u))"
    and "log_view_of (fst (trackQueue s u)) = log_view_of (fst (trackQueue t u))"
    and "log_view_of (fst (trackSystemMessage s u)) = log_view_of (fst (trackSystemMessage t u))"
    and "log_view_of (fst (trackHistoryCursor s u)) = log_view_of (fst (trackHistoryCursor t u))"
proof -
  show "log_view_of (trackInterrupt s u) = log_view_of (trackInterrupt t u)"
    "log_view_of (fst (trackRunning n s u)) = log_view_of (fst (trackRunning n' t u))"
    "log_view_of (fst (trackRunError s u)) = log_view_of (fst (trackRunError t u))"
    using assms by (simp_all add: log_view_of_def)
  show "log_view_of (fst (trackQueue s u)) = log_view_of (fst (trackQueue t u))"
    using assms by (auto simp: trackQueue_def log_view_of_def split: option.splits agui_base.splits)
  show "log_view_of (fst (trackSystemMessage s u)) = log_view_of (fst (trackSystemMessage t u))"
    using assms by (auto simp: trackSystemMessage_def log_view_of_def split: ui_event.splits option.splits agui_base.splits)
  show "log_view_of (fst (trackHistoryCursor s u)) = log_view_of (fst (trackHistoryCursor t u))"
    using assms by (auto simp: trackHistoryCursor_def log_view_of_def Let_def split: ui_event.splits)
qed

definition tracked :: "int \<Rightarrow> agent_state \<Rightarrow> ui_event \<Rightarrow> agent_state" where
  "tracked n s u =
     fst (trackHistoryCursor (fst (trackSystemMessage (fst (trackContext (fst (trackTimes (fst (trackImages
       (fst (trackQueue (fst (trackRunError (fst (trackRunning n (trackInterrupt s u) u)) u)) u)) u)) u)) u)) u)) u)"

lemma on_frame_tracked: "on_frame n s u = tracked n s u \<or> on_frame n s u = notifyMessages (tracked n s u)"
  by (simp add: on_frame_def tracked_def Let_def split_beta)

lemma on_frame_running [simp]: "ag_running (on_frame n s u) = run_step (ag_running s) u"
  using on_frame_tracked [of n s u] by (auto simp: tracked_def)

lemma log_view_of_on_frame: "log_view_of (on_frame n s u) = log_view_of (tracked n s u)"
  using on_frame_tracked [of n s u] by auto

lemma on_frame_view:
  assumes "log_view_of s = log_view_of t"
  shows "log_view_of (on_frame n s u) = log_view_of (on_frame n' t u)"
proof -
  note step = log_view_of_cong
  have "log_view_of (fst (trackQueue (fst (trackRunError (fst (trackRunning n (trackInterrupt s u) u)) u)) u))
      = log_view_of (fst (trackQueue (fst (trackRunError (fst (trackRunning n' (trackInterrupt t u) u)) u)) u))"
    by (intro step assms)
  then have "log_view_of (tracked n s u) = log_view_of (tracked n' t u)"
    unfolding tracked_def by (intro step(6) step(5)) simp
  then show ?thesis by (simp add: log_view_of_on_frame)
qed

lemma lv_pending_cong: "log_view_of s = log_view_of t \<Longrightarrow> ag_pendingApprovals s = ag_pendingApprovals t"
  by (simp add: log_view_of_def)

lemma on_frame_pending [simp]: "ag_pendingApprovals (on_frame n s u) = pending_step (ag_pendingApprovals s) u"
proof -
  let ?q = "fst (trackQueue (fst (trackRunError (fst (trackRunning n (trackInterrupt s u) u)) u)) u)"
  have "ag_pendingApprovals ?q = pending_step (ag_pendingApprovals s) u"
    by (auto simp: trackQueue_def split: option.splits agui_base.splits)
  moreover have "ag_pendingApprovals (fst (trackImages x u)) = ag_pendingApprovals x"
    "ag_pendingApprovals (fst (trackContext x u)) = ag_pendingApprovals x"
    "ag_pendingApprovals (fst (trackTimes x u)) = ag_pendingApprovals x" for x
    by (rule lv_pending_cong, simp)+
  moreover have "ag_pendingApprovals (fst (trackSystemMessage x u)) = ag_pendingApprovals x"
    "ag_pendingApprovals (fst (trackHistoryCursor x u)) = ag_pendingApprovals x" for x
    by (auto simp: trackSystemMessage_def trackHistoryCursor_def Let_def split: ui_event.splits option.splits agui_base.splits)
  ultimately have "ag_pendingApprovals (tracked n s u) = pending_step (ag_pendingApprovals s) u"
    by (simp add: tracked_def)
  then show ?thesis using lv_pending_cong [OF log_view_of_on_frame [of n s u]] by simp
qed

lemma foldl_on_frame:
  "ag_running (foldl (on_frame n) s us) = foldl run_step (ag_running s) us"
  "ag_pendingApprovals (foldl (on_frame n) s us) = foldl pending_step (ag_pendingApprovals s) us"
  by (induction us arbitrary: s) simp_all

text \<open>Which interrupts a frame raises and settles.\<close>

definition raises :: "ui_event \<Rightarrow> string \<Rightarrow> bool" where
  "raises u x =
     (case plain_base u of
        Some (RUN_FINISHED _ _ _ (Some (OutcomeInterrupt ints)) _ _) \<Rightarrow> x \<in> int_id ` set ints
      | _ \<Rightarrow> False)"

definition settles :: "ui_event \<Rightarrow> string \<Rightarrow> bool" where
  "settles u x = (case plain_base u of Some (PERMISSION_RESOLVED t _) \<Rightarrow> t = x \<and> t \<noteq> [] | _ \<Rightarrow> False)"

lemma dom_foldl_update:
  "dom (map_of (foldl (\<lambda>m i. AList.update (k i) i m) m xs)) = dom (map_of m) \<union> k ` set xs"
  by (induction xs arbitrary: m) auto

lemma dom_pending_step:
  "x \<in> dom (map_of (pending_step m u)) \<longleftrightarrow> raises u x \<or> (x \<in> dom (map_of m) \<and> \<not> settles u x)"
  using dom_foldl_update [of int_id m]
  by (auto simp: pending_step_def raises_def settles_def split: option.splits agui_base.splits run_outcome.splits)

lemma pending_fold:
  "x \<in> dom (map_of (foldl pending_step m us)) \<longleftrightarrow>
    (\<exists>pre u post. us = pre @ u # post \<and> raises u x \<and> \<not> list_ex (\<lambda>v. settles v x) post)
    \<or> (x \<in> dom (map_of m) \<and> \<not> list_ex (\<lambda>v. settles v x) us)"
proof (induction us rule: rev_induct)
  case Nil
  then show ?case by simp
next
  case (snoc v us)
  have excl: "\<not> (raises v x \<and> settles v x)"
    by (auto simp: raises_def settles_def split: option.splits agui_base.splits)
  have "(\<exists>pre u post. us @ [v] = pre @ u # post \<and> raises u x \<and> \<not> list_ex (\<lambda>w. settles w x) post) \<longleftrightarrow>
      raises v x \<or> (\<exists>pre u post. us = pre @ u # post \<and> raises u x \<and> \<not> list_ex (\<lambda>w. settles w x) post) \<and> \<not> settles v x"
    (is "?L \<longleftrightarrow> ?R")
  proof
    assume ?L
    then obtain pre u post where e: "us @ [v] = pre @ u # post" "raises u x" "\<not> list_ex (\<lambda>w. settles w x) post" by blast
    show ?R
    proof (cases post rule: rev_cases)
      case Nil
      with e show ?thesis by simp
    next
      case (snoc post' w)
      with e have "us = pre @ u # post'" "w = v" by auto
      with e snoc show ?thesis by auto
    qed
  next
    assume ?R
    then show ?L
    proof
      assume "raises v x"
      then show ?L by (intro exI [of _ us] exI [of _ v] exI [of _ "[]"]) simp
    next
      assume "(\<exists>pre u post. us = pre @ u # post \<and> raises u x \<and> \<not> list_ex (\<lambda>w. settles w x) post) \<and> \<not> settles v x"
      then obtain pre u post where "us = pre @ u # post" "raises u x" "\<not> list_ex (\<lambda>w. settles w x) post" "\<not> settles v x"
        by blast
      then show ?L by (intro exI [of _ pre] exI [of _ u] exI [of _ "post @ [v]"]) simp
    qed
  qed
  with snoc excl show ?case by (auto simp: dom_pending_step)
qed


lemma sse_cut_append:
  "sse_cut (a @ b) = (case sse_cut a of (fs, rest) \<Rightarrow> (case sse_cut (rest @ b) of (gs, rest') \<Rightarrow> (fs @ gs, rest')))"
proof (induction a rule: sse_cut.induct)
  case (1 a)
  show ?case
  proof (cases "indexOf a (newline @ newline)")
    case None
    then have "sse_cut a = ([], a)" by (subst sse_cut.simps) simp
    then show ?thesis by (simp add: split_beta)
  next
    case (Some i)
    have len: "i + 2 \<le> length a" using indexOf_Some_split [OF Some] by (auto simp: newline_def)
    have hit: "indexOf (a @ b) (newline @ newline) = Some i" by (rule indexOf_append_Some [OF Some])
    have a: "sse_cut a = (case sse_cut (drop (i + 2) a) of (fs, rest) \<Rightarrow> (take i a # fs, rest))"
      by (subst sse_cut.simps) (simp add: Some)
    have ab: "sse_cut (a @ b) = (case sse_cut (drop (i + 2) a @ b) of (fs, rest) \<Rightarrow> (take i a # fs, rest))"
      by (subst sse_cut.simps) (use hit len in simp)
    show ?thesis unfolding a ab using "1.IH" [OF Some] by (simp add: split_beta)
  qed
qed

lemma sse_feed_whole:
  "snd (sse_cut buf) = buf \<Longrightarrow> fst (sse_cut buf) = [] \<Longrightarrow> sse_feed buf chunks = sse_cut (buf @ concat chunks)"
proof (induction chunks arbitrary: buf)
  case Nil
  then show ?case by (simp add: prod_eq_iff)
next
  case (Cons c chunks)
  obtain fs rest where c: "sse_cut (buf @ c) = (fs, rest)" by fastforce
  have idem: "sse_cut rest = ([], rest)" if "sse_cut x = (fs, rest)" for x fs rest
    using that
  proof (induction x arbitrary: fs rule: sse_cut.induct)
    case (1 x)
    then show ?case
      by (cases "indexOf x (newline @ newline)") (auto simp: sse_cut.simps [of x] sse_cut.simps [of rest] split: prod.splits)
  qed
  from idem [OF c] have "sse_feed rest chunks = sse_cut (rest @ concat chunks)" by (intro Cons.IH) simp_all
  then show ?case using sse_cut_append [of "buf @ c" "concat chunks"] c by simp
qed

lemma run_step_fold:
  assumes "\<not> list_ex is_ext es"
  shows "foldl run_step r (map Plain es) =
    (if list_ex is_run_started es \<or> list_ex is_terminal es then list_ex is_run_started es \<and> \<not> lastRunCompleted es else r)"
  using assms
proof (induction es rule: rev_induct)
  case Nil
  then show ?case by simp
next
  case (snoc e es)
  then show ?case
    using not_both_marks [of e]
    by (auto simp: run_step_def plain_event_def lastRunCompleted_def)
qed

subsection \<open>Properties\<close>

lemma run_step_skips_ext: "foldl run_step r (map Plain es) = foldl run_step r (map Plain (filter (\<lambda>e. \<not> is_ext e) es))"
  by (induction es arbitrary: r) (simp_all add: run_step_def plain_event_def)

text \<open>
  C37 (equivalence). The browser and the server agree on whether a run is in flight. Out-of-band
  events (those of an \<^verbatim>\<open>ext-\<close> run) aside: after a replay of a log that has a run, whatever
  the view held before, the Stop button is shown exactly when the server's completion detector
  does not take the last run to be complete; it is not shown after a log that only ends runs; and a log
  without a run's start or end leaves the button as it was.
\<close>

theorem running_agrees_with_server:
  "let own = filter (\<lambda>e. \<not> is_ext e) es
   in ag_running (foldl (on_frame now) (begin_connection s) (map Plain es)) =
        (if list_ex is_run_started own then \<not> lastRunCompleted own
         else if list_ex is_terminal own then False else ag_running s)"
proof -
  define own where "own = filter (\<lambda>e. \<not> is_ext e) es"
  have "\<not> list_ex is_ext own" by (auto simp: own_def list_ex_iff)
  from run_step_fold [OF this] show ?thesis
    unfolding Let_def own_def [symmetric]
    by (simp add: foldl_on_frame run_step_skips_ext [of _ es] own_def [symmetric] begin_connection_def)
qed

text \<open>
  The detector does not know out-of-band events: an interrupt raised by the host while a run is in
  flight makes it take the run to be complete.
\<close>

lemma external_interrupt_looks_complete:
  "let es = [ev (RUN_STARTED ''t'' ''r1'' None None), ev (RUN_FINISHED ''t'' ''ext-1'' None (Some (OutcomeInterrupt [])) None None)]
   in lastRunCompleted es \<and> ag_running (foldl (on_frame 5) (begin_connection agent_init) (map Plain es))"
  by code_simp

text \<open>
  After a replay the pending approvals are exactly those the log left open:
  an interrupt is offered to the user if and only if some finished run raised it and no later
  event settled it; run boundaries change nothing.
\<close>

theorem pending_interrupts_are_open_ones:
  "x \<in> set (map fst (ag_pendingApprovals (foldl (on_frame now) (begin_connection s) us))) \<longleftrightarrow>
    (\<exists>pre u post. us = pre @ u # post \<and> raises u x \<and> \<not> list_ex (\<lambda>v. settles v x) post)"
  using pending_fold [of x "[]" us]
  by (simp add: foldl_on_frame begin_connection_def dom_map_of_conv_image_fst)

text \<open>
  A reconnect rebuilds the view from the log alone: pending approvals, the
  error banner, the queue, the paging cursor and the system messages with their positions come
  out the same from the same frames whatever the view and the clock were before.
\<close>

theorem reconnect_rebuilds_view:
  "log_view_of (foldl (on_frame now) (begin_connection s) us) =
   log_view_of (foldl (on_frame now') (begin_connection t) us)"
proof -
  have "log_view_of a = log_view_of b \<Longrightarrow>
      log_view_of (foldl (on_frame now) a us) = log_view_of (foldl (on_frame now') b us)" for a b
  proof (induction us arbitrary: a b)
    case Nil
    then show ?case by simp
  next
    case (Cons u us)
    then show ?case using on_frame_view [OF Cons.prems, of now u now'] by simp
  qed
  then show ?thesis by (simp add: begin_connection_def log_view_of_def)
qed

text \<open>
  How the network cuts the byte stream is invisible: reading any sequence of
  chunks yields the frames, and leaves the unfinished rest, of the same bytes read at once.
\<close>

theorem sse_chunking:
  "sse_feed [] chunks = sse_cut (concat chunks)"
  using sse_feed_whole [of "[]" chunks] by (simp add: sse_cut.simps [of "[]"] newline_def)

text \<open>
  The idle watchdog: a run whose stream has been silent for the idle
  period is always reconnected, and without a run a reconnect is not repeated for the same set of
  pending approvals however long the silence lasts.
\<close>

theorem watchdog_heals_once:
  "(ag_running s \<and> idleMs \<le> now - wd_lastActivityAt w \<longrightarrow> snd (watchdog_tick idleMs now s w))
   \<and> (\<not> ag_running s \<and> snd (watchdog_tick idleMs now s w) \<longrightarrow>
       watchdog_tick idleMs later s (fst (watchdog_tick idleMs now s w)) = (fst (watchdog_tick idleMs now s w), False))"
  by (auto simp: watchdog_tick_def Let_def)

theorem watchdog_heals_once_witness:
  "snd (watchdog_tick 25 100 (agent_init\<lparr>ag_running := True\<rparr>) \<lparr>wd_lastActivityAt = 0, wd_livenessHealed = True, wd_healedKey = None\<rparr>)"
  using watchdog_heals_once [of "agent_init\<lparr>ag_running := True\<rparr>" 25 100 "\<lparr>wd_lastActivityAt = 0, wd_livenessHealed = True, wd_healedKey = None\<rparr>"]
  by simp

end
