(* ===== verification/Bridge_Text.thy ===== *)
theory Bridge_Text
  imports Agui_Events
begin

text \<open>
  The pure helpers of \<^verbatim>\<open>services/agent-host/src/bridge.ts\<close>: the names and notes of uploaded
  files, the texts a prompt is put together from, the user-facing error messages, the bound on
  interrupt requests, and the recognition of terminal handoffs. A regular expression is the
  predicate on characters or strings it denotes.
\<close>

text \<open>An optional string as a condition: absent and empty are false.\<close>

definition truthy :: "string option \<Rightarrow> bool" where
  "truthy s = (case s of None \<Rightarrow> False | Some t \<Rightarrow> t \<noteq> [])"

subsection \<open>Uploaded files\<close>

definition UPLOADS_DIR :: string where "UPLOADS_DIR = ''/workspace/uploads''"

text \<open>\<^verbatim>\<open>name.split(/[\\/]/)\<close>\<close>

definition is_slash :: "char \<Rightarrow> bool" where
  "is_slash c \<longleftrightarrow> c = CHR 0x2F \<or> c = CHR 0x5C"

fun split_path :: "string \<Rightarrow> string list" where
  "split_path [] = [[]]"
| "split_path (c # cs) =
     (if is_slash c then [] # split_path cs
      else case split_path cs of [] \<Rightarrow> [[c]] | p # ps \<Rightarrow> (c # p) # ps)"

text \<open>\<^verbatim>\<open>[A-Za-z0-9._-]\<close>\<close>

definition safe_char :: "char \<Rightarrow> bool" where
  "safe_char c =
     (let n = of_char c :: nat in
      (65 \<le> n \<and> n \<le> 90) \<or> (97 \<le> n \<and> n \<le> 122) \<or> (48 \<le> n \<and> n \<le> 57) \<or> n = 46 \<or> n = 95 \<or> n = 45)"

definition or_file :: "string \<Rightarrow> string" where
  "or_file s = (if s = [] then ''file'' else s)"

definition safeUploadName :: "string \<Rightarrow> string" where
  "safeUploadName name =
     (let base = or_file (last (split_path name));
          cleaned = dropWhile (\<lambda>c. c = CHR ''.'') (map (\<lambda>c. if safe_char c then c else CHR ''_'') base)
      in or_file cleaned)"

text \<open>
  \<^verbatim>\<open>writeUploadedFile\<close>: the path written, or the error of the sandbox. The sandbox is the
  parameter \<open>write\<close>, which gives the error of a failed write.
\<close>

definition writeUploadedFile :: "(string \<Rightarrow> string \<Rightarrow> string option) \<Rightarrow> string \<Rightarrow> string \<Rightarrow> string + string" where
  "writeUploadedFile write name data =
     (let path = UPLOADS_DIR @ ''/'' @ safeUploadName name
      in case write path data of Some err \<Rightarrow> Inl err | None \<Rightarrow> Inr path)"

definition buildFileNote :: "string list \<Rightarrow> string" where
  "buildFileNote paths =
     ''The following file attachment(s) have been saved into your sandbox:'' @ newline
     @ join newline (map (\<lambda>p. ''- '' @ p) paths)"

subsection \<open>Prompt texts\<close>

definition decorateSystemMessage :: "string \<Rightarrow> string \<Rightarrow> string" where
  "decorateSystemMessage source text =
     ''[System message'' @ (if source \<noteq> [] then '' from '' @ source else []) @ '' '' @ em_dash
     @ '' this is an automated platform event, not the user speaking. Act on it if relevant to your task; ''
     @ ''do NOT reply to the user just to acknowledge it.]'' @ newline @ newline @ text"

definition eventsAfterRun :: "agui_event list \<Rightarrow> run_id option \<Rightarrow> agui_event list" where
  "eventsAfterRun events runId =
     (case runId of
        None \<Rightarrow> events
      | Some r \<Rightarrow>
          (case find_index (\<lambda>e. event_run_id e = Some r) (rev events) of
             None \<Rightarrow> events
           | Some k \<Rightarrow> drop (length events - k) events))"

definition combineTexts :: "string list \<Rightarrow> string" where
  "combineTexts texts =
     (case texts of
        [t] \<Rightarrow> t
      | _ \<Rightarrow>
          ''The user sent several messages while you were working '' @ em_dash
          @ '' handle them together as one request:'' @ newline @ newline
          @ join (newline @ newline)
              (map (\<lambda>(i, t). ''[Message '' @ show_nat (i + 1) @ '']'' @ newline @ t) (enumerate 0 texts)))"

subsection \<open>Errors\<close>

text \<open>\<^verbatim>\<open>toLowerCase\<close> on the ASCII letters, the only ones the searched words have.\<close>

definition lower_char :: "char \<Rightarrow> char" where
  "lower_char c = (let n = of_char c :: nat in if 65 \<le> n \<and> n \<le> 90 then char_of (n + 32) else c)"

definition lower :: "string \<Rightarrow> string" where
  "lower s = map lower_char s"

definition clarifyRunError :: "string \<Rightarrow> string" where
  "clarifyRunError raw =
     (let m = lower raw;
          contextOverflow =
            str_includes m ''context_length_exceeded'' \<or> str_includes m ''prompt is too long''
            \<or> str_includes m ''too many tokens''
            \<or> (str_includes m ''context''
               \<and> (str_includes m ''exceed'' \<or> str_includes m ''too long'' \<or> str_includes m ''maximum''))
      in if contextOverflow then
           ''This conversation is too long '' @ em_dash @ '' its context window is full and couldn't be ''
           @ ''compacted further. Start a new chat to continue.''
         else raw)"

definition DIAGNOSTIC_MAX :: nat where "DIAGNOSTIC_MAX = 300"

definition providerDiagnostic :: "string list \<Rightarrow> string option" where
  "providerDiagnostic lines =
     (let clean = filter (\<lambda>l. l \<noteq> []) (map trim lines);
          pick =
            (case find (\<lambda>l. str_includes l ''ede_diagnostic'') (rev clean) of
               Some l \<Rightarrow> Some l
             | None \<Rightarrow>
                 find (\<lambda>l. list_ex (str_includes (lower l)) [''error'', ''fail'', ''refus'', ''denied'']) (rev clean))
      in case pick of
           None \<Rightarrow> None
         | Some l \<Rightarrow> Some (if length l > DIAGNOSTIC_MAX then take DIAGNOSTIC_MAX l @ ellipsis else l))"

definition deadOnArrivalMessage :: "string option \<Rightarrow> string" where
  "deadOnArrivalMessage diagnostic =
     ''The agent didn't respond '' @ em_dash @ '' it started but produced nothing. This has several ''
     @ ''possible causes: a sandbox/platform version skew (the sandbox pod is running an ''
     @ ''image from before the last upgrade), a model or credential error (e.g. the ''
     @ ''Bedrock role can't be assumed), or the agent stalling on a tool permission ''
     @ ''prompt nobody can answer. ''
     @ (if truthy diagnostic then ''The agent's last diagnostic was: '' @ the diagnostic @ ''. '' else [])
     @ ''Try again; if it persists, check the agent-host logs.''"

text \<open>\<^verbatim>\<open>/unknown session|not connected|disconnected/i.test(raw)\<close>\<close>

definition session_invalid :: "string \<Rightarrow> bool" where
  "session_invalid raw = list_ex (str_includes (lower raw)) [''unknown session'', ''not connected'', ''disconnected'']"

subsection \<open>Requests and tool content\<close>

definition MAX_REQUEST_DATA_BYTES :: nat where "MAX_REQUEST_DATA_BYTES = 64 * 1024"

datatype interrupt_request = InterruptRequest (req_kind: string) (req_data: "json option")

text \<open>Data received as JSON always serializes, so the \<^verbatim>\<open>catch\<close> is not reached.\<close>

definition boundedRequest :: "interrupt_request option \<Rightarrow> interrupt_request option" where
  "boundedRequest req =
     (case req of
        None \<Rightarrow> None
      | Some r \<Rightarrow>
          if length (stringify (case req_data r of None \<Rightarrow> JNull | Some d \<Rightarrow> d)) \<le> MAX_REQUEST_DATA_BYTES
          then Some r else None)"

text \<open>Property access on a JSON value; \<^const>\<open>None\<close> is \<^verbatim>\<open>undefined\<close>.\<close>

fun json_field :: "string \<Rightarrow> json \<Rightarrow> json option" where
  "json_field k (JObj kvs) = map_of (rev kvs) k"
| "json_field k _ = None"

fun isTerminalHandoff :: "json option \<Rightarrow> bool" where
  "isTerminalHandoff (Some (JArr cs)) =
     (cs \<noteq> []
      \<and> list_all (\<lambda>c. json_field ''type'' c = Some (JStr ''terminal'') \<and> json_field ''terminalId'' c \<noteq> None) cs)"
| "isTerminalHandoff _ = False"

fun handoffTerminalIds :: "json option \<Rightarrow> string list" where
  "handoffTerminalIds (Some (JArr cs)) =
     concat (map (\<lambda>c. case json_field ''terminalId'' c of Some (JStr t) \<Rightarrow> [t] | _ \<Rightarrow> []) cs)"
| "handoffTerminalIds _ = []"

definition ends_with :: "string \<Rightarrow> string \<Rightarrow> bool" where
  "ends_with s p \<longleftrightarrow> length p \<le> length s \<and> drop (length s - length p) s = p"

definition formatCommand :: "string \<Rightarrow> string list \<Rightarrow> string" where
  "formatCommand command args =
     (if (command = ''sh'' \<or> command = ''bash'' \<or> ends_with command ''/sh'' \<or> ends_with command ''/bash'')
         \<and> 2 \<le> length args \<and> args ! 0 = ''-c''
      then args ! 1
      else trim (join '' '' (command # args)))"

datatype content_block = TextBlock string | ImageBlock string string | ResourceLink string

fun blockText :: "content_block \<Rightarrow> string" where
  "blockText (TextBlock t) = t"
| "blockText (ImageBlock _ _) = []"
| "blockText (ResourceLink _) = []"

subsection \<open>Properties\<close>

lemma split_path_ne [simp]: "split_path s \<noteq> []"
  by (cases s) (auto split: list.splits)

lemma split_path_no_slash: "p \<in> set (split_path s) \<Longrightarrow> list_all (\<lambda>c. \<not> is_slash c) p"
proof (induction s arbitrary: p)
  case Nil
  then show ?case by simp
next
  case (Cons c cs)
  obtain q qs where sp: "split_path cs = q # qs" by (cases "split_path cs") auto
  have "list_all (\<lambda>c. \<not> is_slash c) q" using Cons.IH [of q] sp by simp
  with Cons sp show ?case by (cases "is_slash c") auto
qed

lemma safe_char_not_slash: "safe_char c \<Longrightarrow> \<not> is_slash c"
  by (auto simp: safe_char_def is_slash_def Let_def)

abbreviation cleaned_name :: "string \<Rightarrow> string" where
  "cleaned_name base \<equiv>
     dropWhile (\<lambda>c. c = CHR ''.'') (map (\<lambda>c. if safe_char c then c else CHR ''_'') base)"

lemma or_file_chars: "list_all safe_char s \<Longrightarrow> list_all safe_char (or_file s)"
  by (simp add: or_file_def safe_char_def)

lemma or_file_ne: "s \<noteq> [] \<Longrightarrow> or_file s = s"
  by (simp add: or_file_def)

lemma cleaned_name_chars: "list_all safe_char (cleaned_name base)"
proof -
  have "safe_char (CHR ''_'')" by (simp add: safe_char_def)
  then have "\<forall>c \<in> set (map (\<lambda>c. if safe_char c then c else CHR ''_'') base). safe_char c" by auto
  then show ?thesis unfolding list_all_iff by (meson set_dropWhileD)
qed

lemma safeUploadName_chars: "list_all safe_char (safeUploadName name)"
  unfolding safeUploadName_def Let_def by (intro or_file_chars cleaned_name_chars)

lemma or_file_no_dot: "s = [] \<or> hd s \<noteq> CHR ''.'' \<Longrightarrow> or_file s \<noteq> [] \<and> hd (or_file s) \<noteq> CHR ''.''"
  by (auto simp: or_file_def)

lemma dropWhile_hd: "dropWhile P xs = [] \<or> \<not> P (hd (dropWhile P xs))"
  using hd_dropWhile by blast

lemma safeUploadName_no_dot: "safeUploadName name \<noteq> [] \<and> hd (safeUploadName name) \<noteq> CHR ''.''"
  unfolding safeUploadName_def Let_def by (intro or_file_no_dot dropWhile_hd)

lemma cleaned_name_id:
  assumes "list_all safe_char s" and "hd s \<noteq> CHR ''.''"
  shows "cleaned_name s = s"
proof -
  have "map (\<lambda>c. if safe_char c then c else CHR ''_'') s = s"
    using assms(1) by (auto simp: list_all_iff intro: map_idI)
  moreover have "dropWhile (\<lambda>c. c = CHR ''.'') s = s"
    using assms(2) by (cases s) auto
  ultimately show ?thesis by simp
qed

text \<open>
  No attachment escapes the upload directory: whatever the name, the file written is
  directly in the directory, under a name of letters, digits, dots, dashes and underscores that
  is not empty, does not begin with a dot and holds no slash; and a name that is already of
  this form is kept.
\<close>

theorem upload_stays_in_directory:
  "list_all safe_char (safeUploadName name) \<and> list_all (\<lambda>c. \<not> is_slash c) (safeUploadName name)
   \<and> safeUploadName name \<noteq> [] \<and> hd (safeUploadName name) \<noteq> CHR ''.''
   \<and> (writeUploadedFile write name data = Inr path) =
       (write path data = None \<and> path = UPLOADS_DIR @ ''/'' @ safeUploadName name)
   \<and> safeUploadName (safeUploadName name) = safeUploadName name"
proof -
  let ?n = "safeUploadName name"
  have slash: "list_all (\<lambda>c. \<not> is_slash c) ?n"
    using safeUploadName_chars safe_char_not_slash by (auto simp: list_all_iff)
  have "split_path s = [s]" if "list_all (\<lambda>c. \<not> is_slash c) s" for s
    using that by (induction s) auto
  then have sp: "split_path ?n = [?n]" using slash by simp
  have "safeUploadName ?n = or_file (cleaned_name (or_file ?n))"
    using sp by (simp only: safeUploadName_def [of ?n] Let_def last.simps simp_thms if_True)
  also have "\<dots> = ?n"
    using safeUploadName_chars safeUploadName_no_dot
    by (simp only: or_file_ne cleaned_name_id not_False_eq_True simp_thms)
  finally have "safeUploadName ?n = ?n" .
  then show ?thesis
    using safeUploadName_chars safeUploadName_no_dot slash
    by (auto simp: writeUploadedFile_def Let_def split: option.splits)
qed

text \<open>
  What a returning session missed: the events after the last event of the run it served, or the
  whole log when that run is not there.
\<close>

lemma eventsAfterRun_split:
  "(\<forall>e \<in> set b. event_run_id e \<noteq> Some r) \<Longrightarrow> event_run_id x = Some r \<Longrightarrow>
    eventsAfterRun (a @ x # b) (Some r) = b"
proof -
  assume b: "\<forall>e \<in> set b. event_run_id e \<noteq> Some r" and x: "event_run_id x = Some r"
  have "find_index (\<lambda>e. event_run_id e = Some r) (rev b @ x # rev a) = Some (length b)"
    unfolding find_index_Some using b x by (auto simp: nth_append) (metis length_rev nth_mem set_rev)
  then show ?thesis by (simp add: eventsAfterRun_def)
qed

lemma eventsAfterRun_absent:
  "(\<forall>e \<in> set es. event_run_id e \<noteq> Some r) \<Longrightarrow> eventsAfterRun es (Some r) = es"
proof -
  assume "\<forall>e \<in> set es. event_run_id e \<noteq> Some r"
  then have "find_index (\<lambda>e. event_run_id e = Some r) (rev es) = None" by simp
  then show ?thesis by (simp add: eventsAfterRun_def del: find_index_None)
qed

lemma providerDiagnostic_bounded:
  "providerDiagnostic lines = Some d \<Longrightarrow> length d \<le> DIAGNOSTIC_MAX + 1"
  by (auto simp: providerDiagnostic_def Let_def ellipsis_def split: option.splits if_splits)

lemma boundedRequest_bounded:
  "boundedRequest req = Some r \<Longrightarrow>
    req = Some r \<and> length (stringify (case req_data r of None \<Rightarrow> JNull | Some d \<Rightarrow> d)) \<le> MAX_REQUEST_DATA_BYTES"
  by (auto simp: boundedRequest_def split: option.splits if_splits)

end
