(* ===== verification/Title_Marker.thy ===== *)
theory Title_Marker
  imports Prelude
begin

text \<open>
  The title marker of a streamed assistant message, \<^verbatim>\<open>agent/titleMarker.ts\<close>: a scanner
  that strips \<^verbatim>\<open><title>...</title>\<close> from the text however the stream is cut. The
  \<^verbatim>\<open>while\<close> loop over the buffer is the function \<open>scan\<close>; it ends because every turn of the
  loop either empties the buffer or removes a tag from it.
\<close>

subsection \<open>titleMarker.ts\<close>

definition OPEN_TAG :: string where "OPEN_TAG = ''<title>''"
definition CLOSE_TAG :: string where "CLOSE_TAG = ''</title>''"

record extractor =
  te_pending :: string
  te_inTitle :: bool
  te_titleBuf :: string
  te_reported :: bool

definition createTitleExtractor :: extractor where
  "createTitleExtractor = \<lparr>te_pending = [], te_inTitle = False, te_titleBuf = [], te_reported = False\<rparr>"

text \<open>The counting-down loop of \<^verbatim>\<open>partialTagSuffix\<close>.\<close>

fun suffix_from :: "string \<Rightarrow> string \<Rightarrow> nat \<Rightarrow> nat" where
  "suffix_from s tag 0 = 0"
| "suffix_from s tag (Suc n) =
     (if drop (length s - Suc n) s = take (Suc n) tag then Suc n else suffix_from s tag n)"

definition partialTagSuffix :: "string \<Rightarrow> string \<Rightarrow> nat" where
  "partialTagSuffix s tag = suffix_from s tag (min (length s) (length tag - 1))"

function scan :: "extractor \<Rightarrow> string \<Rightarrow> extractor \<times> string \<times> string option" where
  "scan st buf =
     (if buf = [] then (st, [], None)
      else if te_inTitle st then
        (case indexOf buf CLOSE_TAG of
           None \<Rightarrow>
             let hold = partialTagSuffix buf CLOSE_TAG in
             (st\<lparr>te_titleBuf := te_titleBuf st @ take (length buf - hold) buf,
                 te_pending := drop (length buf - hold) buf\<rparr>, [], None)
         | Some close \<Rightarrow>
             let title = trim (te_titleBuf st @ take close buf);
                 (st', out, later) =
                   scan (st\<lparr>te_inTitle := False, te_reported := True, te_titleBuf := []\<rparr>)
                     (drop (close + length CLOSE_TAG) buf)
             in (st', out, if te_reported st then later else Some title))
      else
        (case indexOf buf OPEN_TAG of
           None \<Rightarrow>
             let hold = partialTagSuffix buf OPEN_TAG in
             (st\<lparr>te_pending := drop (length buf - hold) buf\<rparr>, take (length buf - hold) buf, None)
         | Some at \<Rightarrow>
             let (st', out, later) = scan (st\<lparr>te_inTitle := True\<rparr>) (drop (at + length OPEN_TAG) buf)
             in (st', take at buf @ out, later)))"
  by pat_completeness auto
termination
  by (relation "measure (\<lambda>(st, buf). length buf)") (auto simp: OPEN_TAG_def CLOSE_TAG_def)

declare scan.simps [simp del]

definition push :: "extractor \<Rightarrow> string \<Rightarrow> extractor \<times> string \<times> string option" where
  "push st delta = scan (st\<lparr>te_pending := []\<rparr>) (te_pending st @ delta)"

text \<open>A whole stream: the texts in order, and the titles reported.\<close>

fun push_all :: "extractor \<Rightarrow> string list \<Rightarrow> extractor \<times> string \<times> string list" where
  "push_all st [] = (st, [], [])"
| "push_all st (d # ds) =
     (case push st d of (st1, t1, r1) \<Rightarrow>
        (case push_all st1 ds of (st2, t2, r2) \<Rightarrow>
           (st2, t1 @ t2, (case r1 of None \<Rightarrow> [] | Some t \<Rightarrow> [t]) @ r2)))"

subsection \<open>Occurrences of a tag\<close>

lemma indexOf_skip:
  "\<forall>j < length q. take (length tag) (drop j (q @ r)) \<noteq> tag \<Longrightarrow>
    indexOf (q @ r) tag = map_option ((+) (length q)) (indexOf r tag)"
proof (induction q)
  case Nil
  then show ?case by (cases "indexOf r tag") simp_all
next
  case (Cons c q)
  have "\<forall>j < length q. take (length tag) (drop j (q @ r)) \<noteq> tag"
    using Cons.prems by (metis append_Cons drop_Suc_Cons length_Cons not_less_eq)
  moreover have "take (length tag) ((c # q) @ r) \<noteq> tag" using Cons.prems by force
  ultimately show ?case using Cons.IH by (cases "indexOf r tag") simp_all
qed

lemma indexOf_None_take: "indexOf s tag = None \<Longrightarrow> j \<le> length s \<Longrightarrow> take (length tag) (drop j s) \<noteq> tag"
  using indexOf_None_iff [of s tag]
  by (metis append_take_drop_id)

lemma suffix_from_le: "suffix_from s tag n \<le> n"
  by (induction n) auto

lemma suffix_from_match: "drop (length s - suffix_from s tag n) s = take (suffix_from s tag n) tag"
  by (induction n) auto

lemma suffix_from_max: "k \<le> n \<Longrightarrow> drop (length s - k) s = take k tag \<Longrightarrow> k \<le> suffix_from s tag n"
  by (induction n) (auto simp: le_Suc_eq)

lemma partialTagSuffix_le: "partialTagSuffix s tag \<le> length s" "tag \<noteq> [] \<Longrightarrow> partialTagSuffix s tag < length tag"
proof -
  have le: "partialTagSuffix s tag \<le> min (length s) (length tag - 1)"
    unfolding partialTagSuffix_def by (rule suffix_from_le)
  then show "partialTagSuffix s tag \<le> length s" by simp
  from le show "partialTagSuffix s tag < length tag" if "tag \<noteq> []"
    using that by (cases tag) auto
qed

lemma partialTagSuffix_match: "drop (length s - partialTagSuffix s tag) s = take (partialTagSuffix s tag) tag"
  by (simp add: partialTagSuffix_def suffix_from_match)

lemma partialTagSuffix_max:
  "k \<le> length s \<Longrightarrow> k < length tag \<Longrightarrow> drop (length s - k) s = take k tag \<Longrightarrow> k \<le> partialTagSuffix s tag"
  by (simp add: partialTagSuffix_def suffix_from_max)

text \<open>Everything that can still belong to a tag is in the part held back.\<close>

lemma hold_indexOf:
  assumes "tag \<noteq> []" and "indexOf a tag = None"
  defines "q \<equiv> take (length a - partialTagSuffix a tag) a" and "p \<equiv> drop (length a - partialTagSuffix a tag) a"
  shows "indexOf (a @ b) tag = map_option ((+) (length q)) (indexOf (p @ b) tag)"
proof -
  have a: "a = q @ p" by (simp add: q_def p_def)
  have "take (length tag) (drop j (a @ b)) \<noteq> tag" if j: "j < length q" for j
  proof
    assume occ: "take (length tag) (drop j (a @ b)) = tag"
    have jl: "j < length a" using j by (simp add: q_def)
    show False
    proof (cases "length tag \<le> length a - j")
      case True
      with occ jl have "take (length tag) (drop j a) = tag" by simp
      with indexOf_None_take [OF assms(2), of j] jl show False by simp
    next
      case False
      let ?n = "length a - j"
      have "tag = take (length tag) (drop j a @ b)" using occ jl by simp
      then have "tag = drop j a @ take (length tag - ?n) b" using False by simp
      then have "drop j a = take ?n tag" by (metis append_eq_conv_conj length_drop)
      then have "drop (length a - ?n) a = take ?n tag" using jl by simp
      then have "?n \<le> partialTagSuffix a tag" using False by (intro partialTagSuffix_max) auto
      with j show False by (simp add: q_def)
    qed
  qed
  then show ?thesis using indexOf_skip [of q tag "p @ b"] a by simp
qed

lemma hold_partial:
  fixes a b tag :: string
  assumes "tag \<noteq> []"
  defines "p \<equiv> drop (length a - partialTagSuffix a tag) a"
  shows "partialTagSuffix (a @ b) tag = partialTagSuffix (p @ b) tag"
proof (rule antisym)
  let ?N = "partialTagSuffix (a @ b) tag" and ?M = "partialTagSuffix (p @ b) tag"
  let ?k = "length a - partialTagSuffix a tag"
  have a: "a = take ?k a @ p" by (simp add: p_def)
  have lp: "length p = partialTagSuffix a tag" using partialTagSuffix_le(1) [of a tag] by (simp add: p_def)
  have suf: "drop (length (a @ b) - n) (a @ b) = drop (length (p @ b) - n) (p @ b)" if "n \<le> length (p @ b)" for n
  proof -
    have ab: "a @ b = take ?k a @ (p @ b)" using a by simp
    have "length (a @ b) - n = length (take ?k a) + (length (p @ b) - n)"
      using that by (simp only: ab length_append)
    then show ?thesis unfolding ab by simp
  qed
  show "?M \<le> ?N"
    using partialTagSuffix_le(1) [of "p @ b" tag] partialTagSuffix_le(2) [OF assms(1), of "p @ b"]
      partialTagSuffix_match [of "p @ b" tag] suf [of ?M] lp partialTagSuffix_le(1) [of a tag]
    by (intro partialTagSuffix_max) auto
  show "?N \<le> ?M"
  proof (cases "?N \<le> length (p @ b)")
    case True
    with suf partialTagSuffix_match [of "a @ b" tag] partialTagSuffix_le(2) [OF assms(1)] show ?thesis
      by (intro partialTagSuffix_max) auto
  next
    case False
    let ?n = "?N - length b"
    have n: "partialTagSuffix a tag < ?n" "?n \<le> length a" "?n < length tag"
      using False lp partialTagSuffix_le(1) [of "a @ b" tag] partialTagSuffix_le(2) [OF assms(1), of "a @ b"] by auto
    have "drop (length a - ?n) a @ b = take ?N tag"
      using partialTagSuffix_match [of "a @ b" tag] n False by simp
    then have "drop (length a - ?n) a = take ?n tag"
      by (metis append_eq_conv_conj length_drop diff_diff_cancel n(2) take_take min.absorb1 diff_le_self)
    then have "?n \<le> partialTagSuffix a tag" using n by (intro partialTagSuffix_max) auto
    with n(1) show ?thesis by simp
  qed
qed


subsection \<open>Cutting the stream\<close>

definition then_push :: "extractor \<times> string \<times> string option \<Rightarrow> string \<Rightarrow> extractor \<times> string \<times> string option" where
  "then_push r b =
     (case r of (st1, o1, t1) \<Rightarrow>
        (case push st1 b of (st2, o2, t2) \<Rightarrow> (st2, o1 @ o2, case t1 of None \<Rightarrow> t2 | Some t \<Rightarrow> Some t)))"

lemma tags_nonempty [simp]: "OPEN_TAG \<noteq> []" "CLOSE_TAG \<noteq> []"
  by (simp_all add: OPEN_TAG_def CLOSE_TAG_def)

lemma scan_Nil [simp]: "scan st [] = (st, [], None)"
  by (simp add: scan.simps)

lemma scan_title_hold:
  "buf \<noteq> [] \<Longrightarrow> te_inTitle st \<Longrightarrow> indexOf buf CLOSE_TAG = None \<Longrightarrow>
    scan st buf =
      (st\<lparr>te_titleBuf := te_titleBuf st @ take (length buf - partialTagSuffix buf CLOSE_TAG) buf,
          te_pending := drop (length buf - partialTagSuffix buf CLOSE_TAG) buf\<rparr>, [], None)"
  by (subst scan.simps) (simp add: Let_def)

lemma scan_title_close:
  "buf \<noteq> [] \<Longrightarrow> te_inTitle st \<Longrightarrow> indexOf buf CLOSE_TAG = Some i \<Longrightarrow>
    scan st buf =
      (case scan (st\<lparr>te_inTitle := False, te_reported := True, te_titleBuf := []\<rparr>) (drop (i + length CLOSE_TAG) buf) of
         (st', out, later) \<Rightarrow> (st', out, if te_reported st then later else Some (trim (te_titleBuf st @ take i buf))))"
  by (subst scan.simps) (simp add: Let_def)

lemma scan_text_hold:
  "buf \<noteq> [] \<Longrightarrow> \<not> te_inTitle st \<Longrightarrow> indexOf buf OPEN_TAG = None \<Longrightarrow>
    scan st buf =
      (st\<lparr>te_pending := drop (length buf - partialTagSuffix buf OPEN_TAG) buf\<rparr>,
       take (length buf - partialTagSuffix buf OPEN_TAG) buf, None)"
  by (subst scan.simps) (simp add: Let_def)

lemma scan_text_open:
  "buf \<noteq> [] \<Longrightarrow> \<not> te_inTitle st \<Longrightarrow> indexOf buf OPEN_TAG = Some i \<Longrightarrow>
    scan st buf =
      (case scan (st\<lparr>te_inTitle := True\<rparr>) (drop (i + length OPEN_TAG) buf) of
         (st', out, later) \<Rightarrow> (st', take i buf @ out, later))"
  by (subst scan.simps) (simp add: Let_def)

lemmas scan_unfold = scan_title_hold scan_title_close scan_text_hold scan_text_open

lemma tag_lengths [simp]: "0 < length OPEN_TAG" "0 < length CLOSE_TAG"
  by simp_all

text \<open>One induction for the facts about the scanner: on the buffer's length, by its four cases.\<close>

lemma scan_cases_induct [case_names Nil title_hold title_close text_hold text_open]:
  assumes "\<And>st. P st []"
    and "\<And>st buf. buf \<noteq> [] \<Longrightarrow> te_inTitle st \<Longrightarrow> indexOf buf CLOSE_TAG = None \<Longrightarrow> P st buf"
    and "\<And>st buf i. buf \<noteq> [] \<Longrightarrow> te_inTitle st \<Longrightarrow> indexOf buf CLOSE_TAG = Some i \<Longrightarrow>
      P (st\<lparr>te_inTitle := False, te_reported := True, te_titleBuf := []\<rparr>) (drop (i + length CLOSE_TAG) buf) \<Longrightarrow> P st buf"
    and "\<And>st buf. buf \<noteq> [] \<Longrightarrow> \<not> te_inTitle st \<Longrightarrow> indexOf buf OPEN_TAG = None \<Longrightarrow> P st buf"
    and "\<And>st buf i. buf \<noteq> [] \<Longrightarrow> \<not> te_inTitle st \<Longrightarrow> indexOf buf OPEN_TAG = Some i \<Longrightarrow>
      P (st\<lparr>te_inTitle := True\<rparr>) (drop (i + length OPEN_TAG) buf) \<Longrightarrow> P st buf"
  shows "P st buf"
proof (induction "length buf" arbitrary: st buf rule: less_induct)
  case less
  show ?case
  proof (cases "buf = []")
    case True
    with assms(1) show ?thesis by simp
  next
    case False
    have shorter: "length (drop (i + length t) buf) < length buf" if "t \<noteq> []" for i and t :: string
      using False that by (cases t) auto
    show ?thesis
    proof (cases "te_inTitle st")
      case True
      with False assms(2,3) less shorter show ?thesis
        by (cases "indexOf buf CLOSE_TAG") (auto intro: tags_nonempty)
    next
      case nt: False
      with False assms(4,5) less shorter show ?thesis
        by (cases "indexOf buf OPEN_TAG") (auto intro: tags_nonempty)
    qed
  qed
qed

text \<open>The state knows whether a title was reported, so a later one is not.\<close>

lemma scan_reported:
  "te_reported st \<Longrightarrow> te_reported (fst (scan st buf)) \<and> snd (snd (scan st buf)) = None"
  by (induction st buf rule: scan_cases_induct) (simp_all add: scan_unfold split_beta)

lemma scan_reports:
  "snd (snd (scan st buf)) = Some t \<Longrightarrow> te_reported (fst (scan st buf))"
proof (induction st buf rule: scan_cases_induct)
  case (title_close st buf i)
  then show ?case
    using scan_reported [of "st\<lparr>te_inTitle := False, te_reported := True, te_titleBuf := []\<rparr>"]
    by (simp add: scan_unfold split_beta)
qed (simp_all add: scan_unfold split_beta)

lemma scan_nohit:
  assumes "te_pending st = []" and "a \<noteq> []"
    and "indexOf a (if te_inTitle st then CLOSE_TAG else OPEN_TAG) = None"
  shows "scan st (a @ b) = then_push (scan st a) b"
proof -
  let ?tag = "if te_inTitle st then CLOSE_TAG else OPEN_TAG"
  let ?k = "length a - partialTagSuffix a ?tag"
  define q where "q = take ?k a"
  define p where "p = drop ?k a"
  have tag: "?tag \<noteq> []" by simp
  have idx: "indexOf (a @ b) ?tag = map_option ((+) (length q)) (indexOf (p @ b) ?tag)"
    unfolding q_def p_def by (rule hold_indexOf [OF tag assms(3)])
  have part: "partialTagSuffix (a @ b) ?tag = partialTagSuffix (p @ b) ?tag"
    unfolding p_def by (rule hold_partial [OF tag])
  have ab: "a @ b = q @ (p @ b)" by (simp add: q_def p_def)
  have len: "length (a @ b) - partialTagSuffix (p @ b) ?tag
      = length q + (length (p @ b) - partialTagSuffix (p @ b) ?tag)"
    using partialTagSuffix_le(1) [of "p @ b" ?tag] by (simp only: ab length_append)
  have tk: "take (length q + n) (a @ b) = q @ take n (p @ b)" and dr: "drop (length q + n) (a @ b) = drop n (p @ b)" for n
    by (simp_all only: ab) simp_all
  have ne: "a @ b \<noteq> []" using assms(2) by simp
  show ?thesis
  proof (cases "te_inTitle st")
    case True
    let ?st1 = "st\<lparr>te_titleBuf := te_titleBuf st @ q\<rparr>"
    have first: "scan st a = (?st1\<lparr>te_pending := p\<rparr>, [], None)"
      using True assms by (simp add: scan_title_hold q_def p_def)
    have "scan st (a @ b) = scan ?st1 (p @ b)"
    proof (cases "p @ b = []")
      case nil: True
      with ab have "a @ b = a" "q = a" by auto
      with first nil assms(1) show ?thesis by simp
    next
      case False
      show ?thesis
      proof (cases "indexOf (p @ b) CLOSE_TAG")
        case None
        with idx True have "indexOf (a @ b) CLOSE_TAG = None" by simp
        with None False True ne part len tk dr show ?thesis by (simp add: scan_title_hold del: append_is_Nil_conv length_append take_append drop_append)
      next
        case (Some i)
        with idx True have "indexOf (a @ b) CLOSE_TAG = Some (length q + i)" by simp
        with Some False True ne tk dr [of "i + length CLOSE_TAG"] show ?thesis
          by (simp add: scan_title_close add.assoc split_beta del: append_is_Nil_conv take_append drop_append)
      qed
    qed
    moreover have "?st1\<lparr>te_pending := []\<rparr> = ?st1" using assms(1) by (cases st) simp
    ultimately show ?thesis using first by (simp add: then_push_def push_def split_beta)
  next
    case False
    have first: "scan st a = (st\<lparr>te_pending := p\<rparr>, q, None)"
      using False assms by (simp add: scan_text_hold q_def p_def)
    have "scan st (a @ b) = (case scan st (p @ b) of (st', out, t) \<Rightarrow> (st', q @ out, t))"
    proof (cases "p @ b = []")
      case nil: True
      with ab have "a @ b = a" "q = a" by auto
      with first nil assms(1) show ?thesis by simp
    next
      case ne2: False
      show ?thesis
      proof (cases "indexOf (p @ b) OPEN_TAG")
        case None
        with idx False have "indexOf (a @ b) OPEN_TAG = None" by simp
        with None False ne2 ne part len tk dr show ?thesis by (simp add: scan_text_hold del: append_is_Nil_conv length_append take_append drop_append)
      next
        case (Some i)
        with idx False have "indexOf (a @ b) OPEN_TAG = Some (length q + i)" by simp
        with Some False ne2 ne tk dr [of "i + length OPEN_TAG"] show ?thesis
          by (simp add: scan_text_open add.assoc split_beta del: append_is_Nil_conv take_append drop_append)
      qed
    qed
    moreover have "st\<lparr>te_pending := []\<rparr> = st" using assms(1) by (cases st) simp
    ultimately show ?thesis using first by (simp add: then_push_def push_def split_beta)
  qed
qed

lemma scan_append: "te_pending st = [] \<Longrightarrow> scan st (a @ b) = then_push (scan st a) b"
proof (induction st a rule: scan_cases_induct)
  case (Nil st)
  then have "st\<lparr>te_pending := []\<rparr> = st" by (cases st) simp
  then have "push st b = scan st b" using Nil by (simp only: push_def append_Nil)
  then show ?case by (simp add: then_push_def split_beta)
next
  case (title_hold st a)
  then show ?case by (intro scan_nohit) simp_all
next
  case (text_hold st a)
  then show ?case by (intro scan_nohit) simp_all
next
  case (title_close st a i)
  have len: "i + length CLOSE_TAG \<le> length a" using indexOf_Some_split [OF title_close(3)] by auto
  then have "i + length CLOSE_TAG - length a = 0" "i - length a = 0" by simp_all
  with title_close indexOf_append_Some [OF title_close(3), of b] show ?case
    by (simp add: scan_title_close then_push_def split_beta cong: option.case_cong)
next
  case (text_open st a i)
  have len: "i + length OPEN_TAG \<le> length a" using indexOf_Some_split [OF text_open(3)] by auto
  then have "i + length OPEN_TAG - length a = 0" "i - length a = 0" by simp_all
  with text_open indexOf_append_Some [OF text_open(3), of b] show ?case
    by (simp add: scan_text_open then_push_def split_beta cong: option.case_cong)
qed

lemma push_append: "push st (a @ b) = then_push (push st a) b"
  by (simp add: push_def scan_append [of "st\<lparr>te_pending := []\<rparr>" "te_pending st @ a" b, simplified])

text \<open>The title, if any, of a stream given whole.\<close>

lemma push_all_whole:
  "ds \<noteq> [] \<Longrightarrow>
    push_all st ds = (case push st (concat ds) of (st', text, t) \<Rightarrow> (st', text, case t of None \<Rightarrow> [] | Some x \<Rightarrow> [x]))"
proof (induction ds arbitrary: st)
  case Nil
  then show ?case by simp
next
  case (Cons d ds)
  show ?case
  proof (cases "ds = []")
    case True
    then show ?thesis by (simp add: split_beta)
  next
    case False
    obtain st1 t1 r1 where p1: "push st d = (st1, t1, r1)" by (cases "push st d") auto
    obtain st2 t2 r2 where p2: "push st1 (concat ds) = (st2, t2, r2)" by (cases "push st1 (concat ds)") auto
    have "r2 = None" if "r1 \<noteq> None"
    proof -
      from that p1 have "te_reported st1"
        using scan_reports [of "st\<lparr>te_pending := []\<rparr>" "te_pending st @ d"] by (auto simp: push_def)
      then show ?thesis
        using scan_reported [of "st1\<lparr>te_pending := []\<rparr>" "te_pending st1 @ concat ds"] p2 by (simp add: push_def)
    qed
    with Cons.IH [OF False, of st1] p1 p2 show ?thesis
      by (auto simp: push_append then_push_def split: option.splits)
  qed
qed

subsection \<open>Properties\<close>

text \<open>
  C40 (equivalence). Where the stream is cut makes no difference: the text shown, the title
  reported, and the scanner's state after any sequence of deltas are those of the deltas joined
  and given at once; the title is reported at most once.
\<close>

theorem title_extraction_chunking:
  assumes "concat ds = concat ds'" and "ds \<noteq> []" and "ds' \<noteq> []"
  shows "push_all createTitleExtractor ds = push_all createTitleExtractor ds'
    \<and> length (snd (snd (push_all createTitleExtractor ds))) \<le> 1"
  using assms by (auto simp: push_all_whole split_beta split: option.split)

theorem title_extraction_chunking_witness:
  "push_all createTitleExtractor [''ok <ti'', ''tle>Fi'', ''x</title>go''] =
   push_all createTitleExtractor [''ok <title>Fix</title>go'']"
  using title_extraction_chunking [of "[''ok <ti'', ''tle>Fi'', ''x</title>go'']" "[''ok <title>Fix</title>go'']"] by simp

text \<open>
  A marker in an otherwise tag-free message is removed and reported: the text
  shown is the text before and after it, and the title is the trimmed text between the tags.
\<close>

theorem title_extracted:
  assumes "indexOf (pre @ OPEN_TAG) OPEN_TAG = Some (length pre)"
    and "indexOf (t @ CLOSE_TAG) CLOSE_TAG = Some (length t)"
    and "indexOf post OPEN_TAG = None" and "partialTagSuffix post OPEN_TAG = 0"
  shows "snd (push createTitleExtractor (pre @ OPEN_TAG @ t @ CLOSE_TAG @ post)) = (pre @ post, Some (trim t))"
proof -
  let ?st = "createTitleExtractor" and ?rest = "t @ CLOSE_TAG @ post"
  have st: "te_pending ?st = []" "\<not> te_inTitle ?st" "te_titleBuf ?st = []" "\<not> te_reported ?st"
    by (simp_all add: createTitleExtractor_def)
  have o: "indexOf (pre @ OPEN_TAG @ ?rest) OPEN_TAG = Some (length pre)"
    using indexOf_append_Some [OF assms(1), of ?rest] by simp
  have c: "indexOf ?rest CLOSE_TAG = Some (length t)"
    using indexOf_append_Some [OF assms(2), of post] by simp
  have fin: "snd (scan s post) = (post, None)" if "\<not> te_inTitle s" for s
    using that assms(3,4) by (cases "post = []") (simp_all add: scan_text_hold)
  have "?st\<lparr>te_pending := []\<rparr> = ?st" using st(1) by (simp add: createTitleExtractor_def)
  then show ?thesis
    using st fin by (simp add: push_def scan_text_open [OF _ _ o] scan_title_close [OF _ _ c] split_beta)
qed

theorem title_extracted_witness:
  "snd (push createTitleExtractor ''<title> Fix it </title>ok'') = (''ok'', Some ''Fix it'')"
proof -
  have "indexOf ([] @ OPEN_TAG) OPEN_TAG = Some (length [])" by (simp add: OPEN_TAG_def)
  moreover have "indexOf ('' Fix it '' @ CLOSE_TAG) CLOSE_TAG = Some (length '' Fix it '')" by (simp add: CLOSE_TAG_def)
  moreover have "indexOf ''ok'' OPEN_TAG = None" by (simp add: OPEN_TAG_def)
  moreover have "partialTagSuffix ''ok'' OPEN_TAG = 0" by (simp add: OPEN_TAG_def partialTagSuffix_def numeral_eq_Suc)
  ultimately have "snd (push createTitleExtractor ([] @ OPEN_TAG @ '' Fix it '' @ CLOSE_TAG @ ''ok''))
      = ([] @ ''ok'', Some (trim '' Fix it ''))" by (rule title_extracted)
  then show ?thesis by (simp add: OPEN_TAG_def CLOSE_TAG_def trim_def trim_end_def js_space_def)
qed

text \<open>
  The end of a message is not flushed: a message that ends in a possible beginning
  of the tag is shown without it, and what was held back comes out at the front of the next
  message of the conversation.
\<close>

theorem held_back_tail_moves_to_next_message:
  "let (st, shown, _) = push createTitleExtractor ''if a <''; (_, next, _) = push st ''Done.''
   in shown = ''if a '' \<and> next = ''<Done.''"
  by code_simp

end
