(* ===== verification/Models.thy ===== *)
theory Models
  imports Prelude "HOL-Library.Word"
begin

unbundle bit_operations_syntax

text \<open>
  The model catalog, \<^verbatim>\<open>services/agent-host/src/agent/models.ts\<close>: building it from the
  environment, the deployment default, which models a provider may run, and the choice of a
  model for a run. The text of \<^verbatim>\<open>AGENT_MODELS_JSON\<close> enters parsed: \<^const>\<open>None\<close> stands
  for a \<^verbatim>\<open>JSON.parse\<close> that threw. The hash is computed on 32-bit words, as
  \<^verbatim>\<open>Math.imul\<close> and the final \<^verbatim>\<open>>>> 0\<close> do.
\<close>

subsection \<open>The catalog\<close>

record model_info =
  mi_id :: string
  mi_hint :: string
  mi_default :: bool
  mi_providers :: "string list"
  mi_defaultFor :: "string list"
  mi_priority :: int
  mi_priorities :: "(string, int) js_map"
  mi_contextLimit :: "int option"

record model_catalog =
  cat_models :: "model_info list"
  cat_defaultId :: "string option"

definition DEFAULT_PRIORITY :: int where "DEFAULT_PRIORITY = 100"

definition json_get :: "string \<Rightarrow> json \<Rightarrow> json option" where
  "json_get k j = (case j of JObj kvs \<Rightarrow> map_of (rev kvs) k | _ \<Rightarrow> None)"

definition safe_integer :: "int \<Rightarrow> bool" where
  "safe_integer i \<longleftrightarrow> \<bar>i\<bar> \<le> 2 ^ 53 - 1"

fun isInt :: "json option \<Rightarrow> bool" where
  "isInt (Some (JNum i)) = safe_integer i"
| "isInt _ = False"

fun isPositiveInt :: "json option \<Rightarrow> bool" where
  "isPositiveInt (Some (JNum i)) = (safe_integer i \<and> i > 0)"
| "isPositiveInt _ = False"

fun num_of :: "json option \<Rightarrow> int" where
  "num_of (Some (JNum i)) = i"
| "num_of _ = 0"

fun strings_of :: "json option \<Rightarrow> string list" where
  "strings_of (Some (JArr xs)) = concat (map (\<lambda>x. case x of JStr s \<Rightarrow> [s] | _ \<Rightarrow> []) xs)"
| "strings_of _ = []"

fun string_or_empty :: "json option \<Rightarrow> string" where
  "string_or_empty (Some (JStr s)) = s"
| "string_or_empty _ = []"

text \<open>
  \<^verbatim>\<open>Object.fromEntries\<close> keeps the last value of a repeated key; the entries of a parsed object
  already have distinct keys.
\<close>

definition from_entries :: "(string \<times> int) list \<Rightarrow> (string, int) js_map" where
  "from_entries es = foldl (\<lambda>m (k, v). AList.update k v m) [] es"

fun parsePriorities :: "json option \<Rightarrow> string list \<Rightarrow> (string, int) js_map" where
  "parsePriorities (Some (JObj kvs)) defaultFor =
     from_entries (concat (map (\<lambda>(k, v). if isInt (Some v) then [(k, num_of (Some v))] else []) kvs))"
| "parsePriorities _ defaultFor = from_entries (map (\<lambda>p. (p, DEFAULT_PRIORITY)) defaultFor)"

text \<open>One row of the JSON array; a row without a non-empty string id is skipped.\<close>

definition parse_model :: "json \<Rightarrow> model_info option" where
  "parse_model m =
     (case json_get ''id'' m of
        Some (JStr i) \<Rightarrow>
          if i = [] then None
          else
            let isDefault = (json_get ''default'' m = Some (JBool True));
                dfor = strings_of (json_get ''defaultFor'' m)
            in Some \<lparr>mi_id = i, mi_hint = string_or_empty (json_get ''hint'' m), mi_default = isDefault,
                     mi_providers = strings_of (json_get ''providers'' m), mi_defaultFor = dfor,
                     mi_priority =
                       (if isInt (json_get ''priority'' m) then num_of (json_get ''priority'' m)
                        else if isDefault then DEFAULT_PRIORITY else 0),
                     mi_priorities = parsePriorities (json_get ''priorities'' m) dfor,
                     mi_contextLimit =
                       (if isPositiveInt (json_get ''contextLimit'' m)
                        then Some (num_of (json_get ''contextLimit'' m)) else None)\<rparr>
      | _ \<Rightarrow> None)"

text \<open>\<^verbatim>\<open>models.reduce((a, b) => (b.priority > a.priority ? b : a))\<close>\<close>

definition higher :: "model_info \<Rightarrow> model_info \<Rightarrow> model_info" where
  "higher a b = (if mi_priority b > mi_priority a then b else a)"

definition default_model :: "model_info list \<Rightarrow> string option \<Rightarrow> model_info" where
  "default_model models fallback =
     (case find mi_default models of
        Some m \<Rightarrow> m
      | None \<Rightarrow>
          (case (if fallback \<noteq> None \<and> fallback \<noteq> Some [] then find (\<lambda>m. Some (mi_id m) = fallback) models else None) of
             Some m \<Rightarrow> m
           | None \<Rightarrow> foldl higher (hd models) (tl models)))"

definition withDefault :: "model_info list \<Rightarrow> string option \<Rightarrow> model_catalog" where
  "withDefault models fallback =
     (if models = [] then \<lparr>cat_models = [], cat_defaultId = fallback\<rparr>
      else
        let i = mi_id (default_model models fallback)
        in \<lparr>cat_models = map (\<lambda>m. m\<lparr>mi_default := (mi_id m = i)\<rparr>) models, cat_defaultId = Some i\<rparr>)"

text \<open>\<^verbatim>\<open>s.split(",")\<close>\<close>

fun split_comma :: "string \<Rightarrow> string list" where
  "split_comma [] = [[]]"
| "split_comma (c # cs) =
     (if c = CHR '','' then [] # split_comma cs
      else case split_comma cs of [] \<Rightarrow> [[c]] | p # ps \<Rightarrow> (c # p) # ps)"

record models_env =
  env_modelsJson :: "string option"
  env_parsed :: "json option"
  env_gooseModel :: "string option"
  env_availableModels :: "string option"

definition legacy_catalog :: "models_env \<Rightarrow> model_catalog" where
  "legacy_catalog env =
     (let legacyDefault =
            (case env_gooseModel env of None \<Rightarrow> None | Some s \<Rightarrow> if trim s = [] then None else Some (trim s));
          listed =
            filter (\<lambda>s. s \<noteq> []) (map trim (split_comma (case env_availableModels env of None \<Rightarrow> [] | Some s \<Rightarrow> s)));
          ids = (case legacyDefault of
                   Some i \<Rightarrow> if i \<in> set listed then listed else i # listed
                 | None \<Rightarrow> listed)
      in withDefault
           (map (\<lambda>i. \<lparr>mi_id = i, mi_hint = [], mi_default = (Some i = legacyDefault), mi_providers = [],
                      mi_defaultFor = [], mi_priority = (if Some i = legacyDefault then DEFAULT_PRIORITY else 0),
                      mi_priorities = [], mi_contextLimit = None\<rparr>) ids)
           legacyDefault)"

definition catalogFromEnv :: "models_env \<Rightarrow> model_catalog" where
  "catalogFromEnv env =
     (case env_modelsJson env of
        Some json \<Rightarrow>
          if trim json \<noteq> [] then
            (case env_parsed env of
               Some parsed \<Rightarrow>
                 withDefault (List.map_filter parse_model (case parsed of JArr xs \<Rightarrow> xs | _ \<Rightarrow> [])) None
             | None \<Rightarrow> legacy_catalog env)
          else legacy_catalog env
      | None \<Rightarrow> legacy_catalog env)"

subsection \<open>Lookups\<close>

definition contextLimitOf :: "model_catalog \<Rightarrow> string option \<Rightarrow> int option" where
  "contextLimitOf cat i =
     (case i of
        None \<Rightarrow> None
      | Some x \<Rightarrow> Option.bind (find (\<lambda>m. mi_id m = x) (cat_models cat)) mi_contextLimit)"

definition availableIds :: "model_catalog \<Rightarrow> string list" where
  "availableIds cat = map mi_id (cat_models cat)"

definition isOffered :: "model_catalog \<Rightarrow> string \<Rightarrow> bool" where
  "isOffered cat i = list_ex (\<lambda>m. mi_id m = i) (cat_models cat)"

definition resolveModel :: "string option \<Rightarrow> model_catalog \<Rightarrow> string option" where
  "resolveModel requested cat =
     (case requested of
        Some r \<Rightarrow> if r \<noteq> [] \<and> isOffered cat r then Some r else cat_defaultId cat
      | None \<Rightarrow> cat_defaultId cat)"

definition modelAllowedFor :: "model_catalog \<Rightarrow> string \<Rightarrow> string option \<Rightarrow> bool" where
  "modelAllowedFor cat i tag =
     (case find (\<lambda>m. mi_id m = i) (cat_models cat) of
        None \<Rightarrow> False
      | Some m \<Rightarrow>
          (case tag of
             None \<Rightarrow> True
           | Some t \<Rightarrow> if t = [] \<or> mi_providers m = [] then True else t \<in> set (mi_providers m)))"

definition priorityOf :: "model_info \<Rightarrow> string option \<Rightarrow> int" where
  "priorityOf m tag =
     (case tag of
        None \<Rightarrow> mi_priority m
      | Some t \<Rightarrow> (case map_of (mi_priorities m) t of Some p \<Rightarrow> p | None \<Rightarrow> mi_priority m))"

subsection \<open>The choice for a run\<close>

definition FNV_OFFSET :: "32 word" where "FNV_OFFSET = 0x811c9dc5"
definition FNV_PRIME :: "32 word" where "FNV_PRIME = 0x01000193"

definition hash32 :: "string \<Rightarrow> 32 word" where
  "hash32 s = foldl (\<lambda>h c. (h XOR of_nat (of_char c)) * FNV_PRIME) FNV_OFFSET s"

text \<open>
  The loop: the best rank so far (\<^const>\<open>None\<close> is minus infinity) and the ids that have it.
\<close>

definition tie_step :: "model_catalog \<Rightarrow> string option \<Rightarrow> int option \<times> string list \<Rightarrow> model_info \<Rightarrow> int option \<times> string list" where
  "tie_step cat tag acc m =
     (case acc of (best, tied) \<Rightarrow>
        if \<not> modelAllowedFor cat (mi_id m) tag then acc
        else
          let p = priorityOf m tag
          in case best of
               None \<Rightarrow> (Some p, [mi_id m])
             | Some q \<Rightarrow>
                 if p > q then (Some p, [mi_id m]) else if p = q then (best, tied @ [mi_id m]) else acc)"

definition tied_models :: "model_catalog \<Rightarrow> string option \<Rightarrow> string list" where
  "tied_models cat tag = snd (foldl (tie_step cat tag) (None, []) (cat_models cat))"

text \<open>
  \<^verbatim>\<open>Math.floor(roll * tied.length)\<close> with \<^verbatim>\<open>roll\<close> a 32-bit number divided by \<open>2^32\<close>: both
  operations are exact in double precision for fewer than \<open>2^21\<close> models. Without a seed the
  32 bits are those of \<^verbatim>\<open>Math.random()\<close>, the parameter \<open>random\<close>.
\<close>

definition sample :: "32 word \<Rightarrow> string list \<Rightarrow> string" where
  "sample roll tied = tied ! ((unat roll * length tied) div 2 ^ 32)"

definition defaultFor :: "32 word \<Rightarrow> model_catalog \<Rightarrow> string option \<Rightarrow> string option \<Rightarrow> string option" where
  "defaultFor random cat tag seed =
     (let tied = tied_models cat tag
      in case tied of
           [] \<Rightarrow> None
         | [x] \<Rightarrow> Some x
         | _ \<Rightarrow> Some (sample (case seed of None \<Rightarrow> random | Some s \<Rightarrow> hash32 s) tied))"

subsection \<open>Properties\<close>

lemma sample_mem: "tied \<noteq> [] \<Longrightarrow> sample roll tied \<in> set tied"
proof -
  assume ne: "tied \<noteq> []"
  have "unat roll < 2 ^ LENGTH(32)" by (rule unsigned_less)
  then have "unat roll < 2 ^ 32" by simp
  then have "unat roll * length tied < 2 ^ 32 * length tied" using ne by simp
  then have "(unat roll * length tied) div 2 ^ 32 < length tied" by (simp add: less_mult_imp_div_less mult.commute)
  then show ?thesis by (simp add: sample_def)
qed

lemma tie_step_simps:
  "\<not> modelAllowedFor cat (mi_id m) tag \<Longrightarrow> tie_step cat tag acc m = acc"
  "modelAllowedFor cat (mi_id m) tag \<Longrightarrow> tie_step cat tag (None, tied) m = (Some (priorityOf m tag), [mi_id m])"
  "modelAllowedFor cat (mi_id m) tag \<Longrightarrow> tie_step cat tag (Some q, tied) m =
     (if priorityOf m tag > q then (Some (priorityOf m tag), [mi_id m])
      else if priorityOf m tag = q then (Some q, tied @ [mi_id m]) else (Some q, tied))"
  by (simp_all add: tie_step_def Let_def split: prod.splits)

lemma foldl_tie:
  "foldl (tie_step cat tag) (None, []) ms =
     (let allowed = filter (\<lambda>m. modelAllowedFor cat (mi_id m) tag) ms
      in if allowed = [] then (None, [])
         else let best = Max ((\<lambda>m. priorityOf m tag) ` set allowed)
              in (Some best, map mi_id (filter (\<lambda>m. priorityOf m tag = best) allowed)))"
proof (induction ms rule: rev_induct)
  case Nil
  then show ?case by simp
next
  case (snoc m ms)
  define allowed where "allowed = filter (\<lambda>m. modelAllowedFor cat (mi_id m) tag) ms"
  define best where "best = Max ((\<lambda>m. priorityOf m tag) ` set allowed)"
  have IH: "foldl (tie_step cat tag) (None, []) ms =
      (if allowed = [] then (None, []) else (Some best, map mi_id (filter (\<lambda>m. priorityOf m tag = best) allowed)))"
    using snoc by (simp add: allowed_def best_def Let_def)
  show ?case
  proof (cases "modelAllowedFor cat (mi_id m) tag")
    case False
    then show ?thesis using snoc by (simp add: tie_step_simps Let_def)
  next
    case True
    show ?thesis
    proof (cases "allowed = []")
      case True': True
      then show ?thesis using IH True by (simp add: tie_step_simps Let_def allowed_def [symmetric])
    next
      case False
      then have fin: "finite ((\<lambda>m. priorityOf m tag) ` set allowed)" "(\<lambda>m. priorityOf m tag) ` set allowed \<noteq> {}"
        by auto
      have max: "Max (insert (priorityOf m tag) ((\<lambda>m. priorityOf m tag) ` set allowed)) = max (priorityOf m tag) best"
        unfolding best_def using fin by (rule Max_insert)
      have lt: "filter (\<lambda>x. priorityOf x tag = priorityOf m tag) allowed = []" if "priorityOf m tag > best"
      proof -
        have "priorityOf x tag \<noteq> priorityOf m tag" if "x \<in> set allowed" for x
        proof -
          have "priorityOf x tag \<le> best" unfolding best_def using that fin(1) by (intro Max_ge) auto
          with \<open>priorityOf m tag > best\<close> show ?thesis by simp
        qed
        then show ?thesis by (simp add: filter_empty_conv)
      qed
      show ?thesis
        using IH True False max lt
        by (simp add: tie_step_simps Let_def allowed_def [symmetric] max_def)
    qed
  qed
qed

text \<open>
  The model chosen for a run absent a choice: there is one exactly when the
  provider offers any model of the catalog, and it is an offered model, allowed for the provider,
  whose rank no allowed model exceeds; with a seed it does not depend on chance, so a conversation
  keeps its model across runs.
\<close>

theorem defaultFor_best:
  "(defaultFor random cat tag seed = None) = (filter (\<lambda>m. modelAllowedFor cat (mi_id m) tag) (cat_models cat) = [])
   \<and> (case defaultFor random cat tag seed of
        None \<Rightarrow> True
      | Some i \<Rightarrow>
          modelAllowedFor cat i tag
          \<and> list_ex (\<lambda>m. mi_id m = i \<and>
               list_all (\<lambda>m'. \<not> (modelAllowedFor cat (mi_id m') tag \<and> priorityOf m tag < priorityOf m' tag)) (cat_models cat))
             (cat_models cat))
   \<and> defaultFor random cat tag (Some s) = defaultFor random' cat tag (Some s)"
proof -
  define allowed where "allowed = filter (\<lambda>m. modelAllowedFor cat (mi_id m) tag) (cat_models cat)"
  define best where "best = Max ((\<lambda>m. priorityOf m tag) ` set allowed)"
  have tied: "tied_models cat tag =
      (if allowed = [] then [] else map mi_id (filter (\<lambda>m. priorityOf m tag = best) allowed))"
    by (simp add: tied_models_def foldl_tie allowed_def best_def Let_def)
  have ne: "tied_models cat tag \<noteq> []" if "allowed \<noteq> []"
  proof -
    have "best \<in> (\<lambda>m. priorityOf m tag) ` set allowed"
      unfolding best_def using that by (intro Max_in) auto
    then show ?thesis using that tied by (auto simp: filter_empty_conv)
  qed
  have none: "(defaultFor random cat tag seed = None) = (allowed = [])"
    using ne tied by (auto simp: defaultFor_def Let_def split: list.splits)
  have mem: "i \<in> set (tied_models cat tag)" if "defaultFor random cat tag seed = Some i" for i
  proof (cases "\<exists>x. tied_models cat tag = [x]")
    case True
    with that show ?thesis by (auto simp: defaultFor_def)
  next
    case False
    have "tied_models cat tag \<noteq> []" using that by (auto simp: defaultFor_def)
    with False that obtain roll where "i = sample roll (tied_models cat tag)"
      by (auto simp: defaultFor_def Let_def split: list.splits)
    with \<open>tied_models cat tag \<noteq> []\<close> show ?thesis by (simp add: sample_mem)
  qed
  have good: "modelAllowedFor cat i tag
      \<and> list_ex (\<lambda>m. mi_id m = i \<and>
           list_all (\<lambda>m'. \<not> (modelAllowedFor cat (mi_id m') tag \<and> priorityOf m tag < priorityOf m' tag)) (cat_models cat))
         (cat_models cat)" if chosen: "defaultFor random cat tag seed = Some i" for i
  proof -
    obtain m where m: "m \<in> set allowed" "mi_id m = i" "priorityOf m tag = best"
      using mem [OF chosen] tied by (auto split: if_splits)
    have "priorityOf m' tag \<le> best" if "m' \<in> set allowed" for m'
      unfolding best_def using that by simp
    with m show ?thesis unfolding list_ex_iff list_all_iff not_less [symmetric] by (auto simp: allowed_def)
  qed
  have "defaultFor random cat tag (Some s) = defaultFor random' cat tag (Some s)"
    unfolding defaultFor_def by (simp only: option.case)
  then show ?thesis using none good by (auto simp: allowed_def [symmetric] split: option.split)
qed

text \<open>The deployment default is an offered model, so a request always resolves to an offered one.\<close>

lemma foldl_higher_mem: "foldl higher m ms \<in> set (m # ms)"
  by (induction ms arbitrary: m) (auto simp: higher_def)

lemma default_model_mem: "models \<noteq> [] \<Longrightarrow> default_model models fallback \<in> set models"
  using foldl_higher_mem [of "hd models" "tl models"]
  by (auto simp: default_model_def find_Some_iff split: option.splits if_splits dest: nth_mem)

lemma resolveModel_offered:
  "models \<noteq> [] \<Longrightarrow>
    \<exists>i. resolveModel requested (withDefault models fallback) = Some i \<and> isOffered (withDefault models fallback) i"
proof -
  assume ne: "models \<noteq> []"
  then have "isOffered (withDefault models fallback) (mi_id (default_model models fallback))"
    using default_model_mem [OF ne] by (auto simp: isOffered_def withDefault_def Let_def list_ex_iff)
  with ne show ?thesis
    by (auto simp: resolveModel_def withDefault_def Let_def split: option.split)
qed

end
