(* ===== verification/Providers.thy ===== *)
theory Providers
  imports Models
begin

text \<open>
  Provider selection, \<^verbatim>\<open>services/agent-host/src/acp/provider.ts\<close>. A provider is an object whose
  \<^verbatim>\<open>eligible\<close> method is code of its own, so it is a field that gives the answer for a context;
  \<^const>\<open>None\<close> stands for a method that threw.
\<close>

record run_context =
  rc_conversationId :: string
  rc_owner :: "string option"
  rc_source :: "string option"
  rc_humanInitiated :: "bool option"
  rc_model :: "string option"
  rc_provider :: "string option"

datatype provider_kind = Goose | Claude

record acp_provider =
  pv_ref :: nat
  pv_id :: string
  pv_kind :: provider_kind
  pv_priority :: int
  pv_modelTag :: "string option"
  pv_ownMcpServers :: "string option"
  pv_eligible :: "run_context \<Rightarrow> bool option"

text \<open>\<open>pv_ref\<close> is the identity of the provider object, which \<^verbatim>\<open>p !== hit\<close> compares.\<close>

definition reorderPicked :: "acp_provider list \<Rightarrow> string \<Rightarrow> acp_provider list" where
  "reorderPicked providers picked =
     (case find (\<lambda>p. pv_id p = picked) providers of
        None \<Rightarrow> providers
      | Some hit \<Rightarrow> hit # filter (\<lambda>p. pv_ref p \<noteq> pv_ref hit) providers)"

definition outranks :: "acp_provider \<Rightarrow> acp_provider \<Rightarrow> bool" where
  "outranks p best \<longleftrightarrow>
     pv_priority p > pv_priority best \<or> (pv_priority p = pv_priority best \<and> pv_id p < pv_id best)"

definition is_eligible :: "run_context \<Rightarrow> acp_provider \<Rightarrow> bool" where
  "is_eligible ctx p = (case pv_eligible p ctx of Some ok \<Rightarrow> ok | None \<Rightarrow> False)"

definition picked :: "run_context \<Rightarrow> string option" where
  "picked ctx = (case rc_provider ctx of None \<Rightarrow> None | Some p \<Rightarrow> if p = [] then None else Some p)"

fun pick_scan :: "run_context \<Rightarrow> acp_provider option \<Rightarrow> acp_provider list \<Rightarrow> acp_provider option" where
  "pick_scan ctx best [] = best"
| "pick_scan ctx best (p # ps) =
     (if \<not> is_eligible ctx p then pick_scan ctx best ps
      else if picked ctx = Some (pv_id p) then Some p
      else pick_scan ctx
             (case best of None \<Rightarrow> Some p | Some q \<Rightarrow> if outranks p q then Some p else best) ps)"

definition pickAcpProvider :: "acp_provider list \<Rightarrow> run_context \<Rightarrow> acp_provider option" where
  "pickAcpProvider providers ctx =
     pick_scan ctx None (case picked ctx of None \<Rightarrow> providers | Some p \<Rightarrow> reorderPicked providers p)"

subsection \<open>Properties\<close>

lemma set_reorderPicked:
  assumes "distinct (map pv_ref providers)"
  shows "set (reorderPicked providers p) = set providers"
proof (cases "find (\<lambda>q. pv_id q = p) providers")
  case None
  then show ?thesis by (simp add: reorderPicked_def)
next
  case (Some hit)
  then have hit: "hit \<in> set providers" by (auto simp: find_Some_iff)
  have "q = hit" if "q \<in> set providers" "pv_ref q = pv_ref hit" for q
    using assms hit that by (auto simp: distinct_map dest: inj_onD)
  with hit Some show ?thesis by (auto simp: reorderPicked_def)
qed

lemma pick_scan_None:
  "pick_scan ctx best ps = None \<longleftrightarrow> best = None \<and> \<not> list_ex (is_eligible ctx) ps"
  by (induction ctx best ps rule: pick_scan.induct) (auto split: option.splits)

lemma outranks_negtrans: "\<not> outranks a b \<Longrightarrow> \<not> outranks b c \<Longrightarrow> \<not> outranks a c"
  unfolding outranks_def by (metis less_trans linorder_neqE not_less_iff_gr_or_eq)

lemma outranks_asym: "outranks a b \<Longrightarrow> \<not> outranks b a"
  by (auto simp: outranks_def)

text \<open>Without a pick among them, the scan is a maximum over the eligible ones and the best so far.\<close>

lemma pick_scan_best:
  "\<not> list_ex (\<lambda>p. is_eligible ctx p \<and> picked ctx = Some (pv_id p)) ps \<Longrightarrow> pick_scan ctx best ps = Some r \<Longrightarrow>
    (best = Some r \<or> (r \<in> set ps \<and> is_eligible ctx r))
    \<and> (\<forall>p \<in> set ps. is_eligible ctx p \<longrightarrow> \<not> outranks p r)
    \<and> (\<forall>q. best = Some q \<longrightarrow> \<not> outranks q r)"
proof (induction ctx best ps rule: pick_scan.induct)
  case (1 ctx best)
  then show ?case by (auto simp: outranks_def)
next
  case (2 ctx best p ps)
  show ?case
  proof (cases "is_eligible ctx p")
    case False
    with 2 show ?thesis by auto
  next
    case True
    with 2 have np: "picked ctx \<noteq> Some (pv_id p)" by auto
    let ?best = "case best of None \<Rightarrow> Some p | Some q \<Rightarrow> if outranks p q then Some p else best"
    have IH: "(?best = Some r \<or> (r \<in> set ps \<and> is_eligible ctx r))
        \<and> (\<forall>p \<in> set ps. is_eligible ctx p \<longrightarrow> \<not> outranks p r) \<and> (\<forall>q. ?best = Some q \<longrightarrow> \<not> outranks q r)"
      using 2 True np by auto
    have "\<not> outranks p r"
    proof (cases best)
      case None
      then show ?thesis using IH by simp
    next
      case (Some q)
      then show ?thesis using IH outranks_negtrans [of p q r] by (cases "outranks p q") auto
    qed
    moreover have "\<not> outranks q r" if "best = Some q" for q
      using IH that outranks_negtrans [of q p r] outranks_asym [of p q] by (cases "outranks p q") auto
    ultimately show ?thesis using IH True by (auto split: option.splits if_splits)
  qed
qed

lemma pick_scan_picked:
  "list_ex (\<lambda>p. is_eligible ctx p \<and> picked ctx = Some (pv_id p)) ps \<Longrightarrow>
    \<exists>p. pick_scan ctx best ps = Some p \<and> p \<in> set ps \<and> is_eligible ctx p \<and> picked ctx = Some (pv_id p)"
  by (induction ctx best ps rule: pick_scan.induct) (auto split: option.splits)

text \<open>
  The provider of a run: there is none exactly when no provider is eligible, one
  whose eligibility check throws counts as not eligible, an eligible provider the user picked wins
  whatever the priorities, and otherwise the one chosen is eligible and no eligible provider has a
  higher priority, or the same and a smaller id.
\<close>

theorem pickAcpProvider_spec:
  assumes "distinct (map pv_ref providers)"
  shows "(pickAcpProvider providers ctx = None) = (\<not> list_ex (is_eligible ctx) providers)
   \<and> (case pickAcpProvider providers ctx of
        None \<Rightarrow> True
      | Some r \<Rightarrow>
          r \<in> set providers \<and> pv_eligible r ctx = Some True
          \<and> (if list_ex (\<lambda>p. is_eligible ctx p \<and> picked ctx = Some (pv_id p)) providers
             then picked ctx = Some (pv_id r)
             else list_all (\<lambda>p. \<not> (is_eligible ctx p \<and> outranks p r)) providers))"
proof -
  define ps where "ps = (case picked ctx of None \<Rightarrow> providers | Some p \<Rightarrow> reorderPicked providers p)"
  have set: "set ps = set providers"
    using set_reorderPicked [OF assms] by (simp add: ps_def split: option.split)
  then have ex: "list_ex P ps = list_ex P providers" for P by (simp add: list_ex_iff)
  have pick: "pickAcpProvider providers ctx = pick_scan ctx None ps" by (simp add: pickAcpProvider_def ps_def)
  have elig: "is_eligible ctx r = (pv_eligible r ctx = Some True)" for r
    by (simp add: is_eligible_def split: option.split)
  show ?thesis
  proof (cases "pick_scan ctx None ps")
    case None
    then show ?thesis using pick_scan_None [of ctx None ps] by (simp add: pick ex)
  next
    case (Some r)
    then have some: "list_ex (is_eligible ctx) providers"
      using pick_scan_None [of ctx None ps] by (auto simp: ex)
    show ?thesis
    proof (cases "list_ex (\<lambda>p. is_eligible ctx p \<and> picked ctx = Some (pv_id p)) providers")
      case True
      then show ?thesis
        using pick_scan_picked [of ctx ps None] Some some set by (auto simp: pick ex elig)
    next
      case False
      then show ?thesis
        using pick_scan_best [of ctx ps None r] Some some set by (auto simp: pick ex elig list_all_iff)
    qed
  qed
qed

text \<open>A picked provider that is eligible, and one that throws.\<close>

theorem pickAcpProvider_spec_witness:
  "let mk = (\<lambda>n i pr e. \<lparr>pv_ref = n, pv_id = i, pv_kind = Goose, pv_priority = pr, pv_modelTag = None,
                        pv_ownMcpServers = None, pv_eligible = e\<rparr>);
       ps = [mk 0 ''floor'' 0 (\<lambda>_. Some True), mk 1 ''byoc'' 20 (\<lambda>_. None), mk 2 ''remote'' 10 (\<lambda>_. Some True)];
       ctx = \<lparr>rc_conversationId = ''c'', rc_owner = None, rc_source = None, rc_humanInitiated = None,
              rc_model = None, rc_provider = Some ''floor''\<rparr>
   in distinct (map pv_ref ps)
      \<and> map_option pv_id (pickAcpProvider ps ctx) = Some ''floor''
      \<and> (pickAcpProvider ps ctx = None) = (\<not> list_ex (is_eligible ctx) ps)"
proof -
  define mk where
    "mk = (\<lambda>n i pr e. \<lparr>pv_ref = n, pv_id = i, pv_kind = Goose, pv_priority = pr, pv_modelTag = None,
                        pv_ownMcpServers = None, pv_eligible = e\<rparr>)"
  define ps where "ps = [mk 0 ''floor'' 0 (\<lambda>_. Some True), mk 1 ''byoc'' 20 (\<lambda>_. None), mk 2 ''remote'' 10 (\<lambda>_. Some True)]"
  have "distinct (map pv_ref ps)" by (simp add: ps_def mk_def)
  note spec = pickAcpProvider_spec [OF this]
  show ?thesis
    unfolding Let_def mk_def [symmetric] ps_def [symmetric]
    using spec \<open>distinct (map pv_ref ps)\<close>
    by (simp add: pickAcpProvider_def picked_def)
      (simp add: ps_def mk_def reorderPicked_def is_eligible_def picked_def)
qed

end
