(* ===== verification/Bridge_State.thy ===== *)
theory Bridge_State
  imports Bridge_Text Title_Marker Providers
begin

text \<open>
  The state of one session bridge (\<^verbatim>\<open>createSessionBridge\<close> of
  \<^verbatim>\<open>services/agent-host/src/bridge.ts\<close>) and the operations its parts share: drawing ids,
  stamping, emitting and persisting events, closing open messages, noting activity, cancelling.

  \<^item> The closure variables of \<^verbatim>\<open>createSessionBridge\<close> are the fields of \<open>bridge\<close>. The local
    variables of the one run and the one pump loop that can be in progress (\<^verbatim>\<open>runPrompt\<close> and
    \<^verbatim>\<open>pump\<close>) are fields too, with \<open>b_pc\<close> the await the code is at.
  \<^item> \<^verbatim>\<open>randomUUID\<close> is the parameter \<open>d_uuid\<close>: its \<open>n\<close>-th draw. Where it matters that draws
    differ, that is a hypothesis.
  \<^item> What the bridge does to the outside is recorded in order: events broadcast (\<open>b_out\<close>) and
    events given to the store (\<open>b_log\<close>), calls to agent clients (\<open>b_calls\<close>), promises of
    \<^verbatim>\<open>prompt()\<close> settled (\<open>b_settled\<close>), answers to agents (\<open>b_answers\<close>) and to external
    askers (\<open>b_external\<close>), titles reported, runs reported to the metrics hook.
  \<^item> The clock and the generation the pod owns the conversation at are read from \<open>b_now\<close> and
    \<open>b_generation\<close>.
\<close>

subsection \<open>Inputs and queue items\<close>

record prompt_image =
  pi_assetId :: string
  pi_mimeType :: string

record prompt_file =
  pf_name :: string
  pf_data :: string
  pf_mimeType :: string

record prompt_input =
  in_threadId :: thread_id
  in_text :: string
  in_images :: "prompt_image list"
  in_files :: "prompt_file list"
  in_source :: "string option"
  in_humanInitiated :: "bool option"

definition PRIORITY_NORMAL :: int where "PRIORITY_NORMAL = 0"
definition PRIORITY_INTERRUPT :: int where "PRIORITY_INTERRUPT = 10"

text \<open>
  \<open>qi_ref\<close> is the identity of the item object, which \<^verbatim>\<open>q !== item\<close> and
  \<^verbatim>\<open>queue.indexOf(b)\<close> compare.
\<close>

record queue_item =
  qi_ref :: nat
  qi_id :: string
  qi_input :: prompt_input
  qi_priority :: int
  qi_interrupt :: interrupt_policy
  qi_enqueuedAt :: int

subsection \<open>Run state\<close>

datatype tool_info = ToolInfo (ti_name: string) (ti_input: "json option")

record run_state =
  rs_runId :: run_id
  rs_threadId :: thread_id
  rs_openText :: "message_id option"
  rs_openReasoning :: "message_id option"
  rs_toolMessage :: "tool_call_id \<rightharpoonup> message_id"
  rs_argsEmitted :: "tool_call_id list"
  rs_ended :: bool
  rs_cancelled :: bool
  rs_startedAt :: int
  rs_inFlightTools :: nat
  rs_cancelWhenToolsIdle :: bool
  rs_terminalPending :: "tool_call_id list"
  rs_sawActivity :: bool
  rs_activityTimer :: bool
  rs_livenessTimer :: bool
  rs_terminated :: bool
  rs_retryable :: bool
  rs_lastText :: string
  rs_hookFeedback :: "string list"
  rs_pendingHooks :: "nat list"
  rs_toolInfo :: "tool_call_id \<rightharpoonup> tool_info"
  rs_source :: "string option"

subsection \<open>Sessions and pending requests\<close>

text \<open>\<open>rd_client\<close> is the identity of the client object, and so of the session record.\<close>

record ready_session =
  rd_client :: nat
  rd_acpSessionId :: string
  rd_mcpFingerprint :: string
  rd_skillsFingerprint :: string
  rd_historySeeded :: bool
  rd_sessionStartFired :: bool
  rd_lastRunId :: "run_id option"

text \<open>
  \<open>p_run\<close> is the run the asking handler captured; \<open>p_external\<close> says that the entry has an
  \<^verbatim>\<open>onExternal\<close> callback and no blocked handler.
\<close>

record pending =
  p_run :: "(thread_id \<times> run_id) option"
  p_validOptions :: "string list"
  p_external :: bool
  p_abandoned :: bool

datatype permission_answer = AnswerCancelled | AnswerOption string "(string \<times> json) list option"

datatype client_call =
    KillActiveTerminals nat bool "string option"
  | CancelSession nat string
  | SendPrompt nat "string option" "content_block list"
  | CloseClient nat

datatype settlement = Resolved run_id | Rejected string

record approver_identity =
  ap_id :: string
  ap_email :: "string option"
  ap_name :: "string option"

subsection \<open>The bridge\<close>

record bridge_deps =
  d_conversationId :: string
  d_selfPod :: "string option"
  d_hooks :: bool
  d_loadHistory :: bool
  d_readAsset :: bool
  d_priorityInterruptMs :: int
  d_firstActivityTimeoutMs :: int
  d_livenessProbeMs :: int
  d_retryMax :: nat
  d_retryBaseMs :: nat
  d_retryCapMs :: nat
  d_maxStopBlocks :: nat
  d_uuid :: "nat \<Rightarrow> string"

text \<open>
  The await the pump is suspended at. The number at \<open>AtPrompt\<close>, \<open>AtDrain\<close>, \<open>AtSettle\<close> and
  \<open>AtStop\<close> is the loop's \<^verbatim>\<open>stopBlocks\<close>.
\<close>

datatype pump_pc =
    PumpIdle
  | AtResolve
  | AtPrepare
  | AtSessionStart
  | AtSubmit
  | AtPrompt nat
  | AtDrain nat string
  | AtSettle nat string "nat list"
  | AtStop nat string "string list"
  | AtBackoff

record bridge =
  b_uuids :: nat
  b_now :: int
  b_generation :: "int option"
  b_out :: "agui_event list"
  b_log :: "agui_event list"
  b_queue :: "queue_item list"
  b_pumping :: bool
  b_runningBatch :: "queue_item list"
  b_run :: "run_state option"
  b_terminalCommands :: "string \<rightharpoonup> string"
  b_closed :: bool
  b_started :: bool
  b_interruptTimer :: "int option"
  b_sessions :: "(string, ready_session) js_map"
  b_client :: "nat option"
  b_acpSession :: "string option"
  b_providerId :: string
  b_providerKind :: "provider_kind option"
  b_currentReady :: "ready_session option"
  b_lastRunReady :: "nat option"
  b_diagnostics :: "string list"
  b_pending :: "(tool_call_id, pending) js_map"
  b_extractor :: extractor
  b_markedTitle :: bool
  b_titles :: "string list"
  b_calls :: "client_call list"
  b_answers :: "(tool_call_id \<times> permission_answer) list"
  b_external :: "(tool_call_id \<times> string option \<times> approver_identity option) list"
  b_settled :: "(nat \<times> settlement) list"
  b_completions :: "bool list"
  b_hookCalls :: "(nat \<times> string \<times> run_id) list"
  b_hookCount :: nat
  b_pc :: pump_pc
  b_batch :: "queue_item list"
  b_attempt :: nat
  b_outcomeError :: bool
  b_wedged :: bool
  b_thisTurn :: "message_id list"
  b_blocks :: "content_block list"
  b_tailBlocks :: "content_block list"
  b_lastRun :: run_id
  b_combined :: string
  b_hookContext :: "string list"

definition createSessionBridge :: bridge where
  "createSessionBridge = \<lparr>
     b_uuids = 0, b_now = 0, b_generation = None, b_out = [], b_log = [], b_queue = [], b_pumping = False,
     b_runningBatch = [], b_run = None, b_terminalCommands = Map.empty, b_closed = False, b_started = False,
     b_interruptTimer = None, b_sessions = [], b_client = None, b_acpSession = None, b_providerId = [],
     b_providerKind = None, b_currentReady = None, b_lastRunReady = None, b_diagnostics = [], b_pending = [],
     b_extractor = createTitleExtractor, b_markedTitle = False, b_titles = [], b_calls = [], b_answers = [],
     b_external = [], b_settled = [], b_completions = [], b_hookCalls = [], b_hookCount = 0, b_pc = PumpIdle,
     b_batch = [], b_attempt = 0, b_outcomeError = False, b_wedged = False, b_thisTurn = [], b_blocks = [], b_tailBlocks = [], b_lastRun = [],
     b_combined = [], b_hookContext = []\<rparr>"

text \<open>The options a bridge has when its dependencies set none; \<^verbatim>\<open>randomUUID\<close> stays a parameter.\<close>

definition default_deps :: "string \<Rightarrow> (nat \<Rightarrow> string) \<Rightarrow> bridge_deps" where
  "default_deps conversationId uuid = \<lparr>
     d_conversationId = conversationId, d_selfPod = None, d_hooks = False, d_loadHistory = False,
     d_readAsset = False, d_priorityInterruptMs = 0, d_firstActivityTimeoutMs = 60000,
     d_livenessProbeMs = 30000, d_retryMax = 5, d_retryBaseMs = 500, d_retryCapMs = 30000,
     d_maxStopBlocks = 3, d_uuid = uuid\<rparr>"

text \<open>The state a run begins with (the literal of \<^verbatim>\<open>runPrompt\<close>).\<close>

definition fresh_run :: "run_id \<Rightarrow> prompt_input \<Rightarrow> int \<Rightarrow> run_state" where
  "fresh_run runId input now = \<lparr>
     rs_runId = runId, rs_threadId = in_threadId input, rs_openText = None, rs_openReasoning = None,
     rs_toolMessage = Map.empty, rs_argsEmitted = [], rs_ended = False, rs_cancelled = False,
     rs_startedAt = now, rs_inFlightTools = 0, rs_cancelWhenToolsIdle = False, rs_terminalPending = [],
     rs_sawActivity = False, rs_activityTimer = False, rs_livenessTimer = False, rs_terminated = False,
     rs_retryable = False, rs_lastText = [], rs_hookFeedback = [], rs_pendingHooks = [],
     rs_toolInfo = Map.empty, rs_source = in_source input\<rparr>"

subsection \<open>Ids and events\<close>

text \<open>\<^verbatim>\<open>nextId\<close>: the id, and the state with one more draw made.\<close>

definition mint :: "bridge_deps \<Rightarrow> string \<Rightarrow> nat \<Rightarrow> string" where
  "mint d prefix n = prefix @ ''-'' @ d_uuid d n"

definition nextId :: "bridge_deps \<Rightarrow> string \<Rightarrow> bridge \<Rightarrow> string \<times> bridge" where
  "nextId d prefix b = (mint d prefix (b_uuids b), b\<lparr>b_uuids := Suc (b_uuids b)\<rparr>)"

definition stamp :: "bridge_deps \<Rightarrow> bridge \<Rightarrow> agui_event \<Rightarrow> agui_event" where
  "stamp d b event =
     (let e = (if ev_ts event = None then event\<lparr>ev_ts := Some (b_now b)\<rparr> else event)
      in case ev_base e of
           RUN_STARTED t r None g \<Rightarrow>
             if truthy (d_selfPod d) then e\<lparr>ev_base := RUN_STARTED t r (d_selfPod d) (b_generation b)\<rparr> else e
         | _ \<Rightarrow> e)"

definition emit :: "bridge_deps \<Rightarrow> agui_base \<Rightarrow> bridge \<Rightarrow> bridge" where
  "emit d base b =
     (let e = stamp d b (ev base) in b\<lparr>b_out := b_out b @ [e], b_log := b_log b @ [e]\<rparr>)"

definition persist :: "bridge_deps \<Rightarrow> agui_base \<Rightarrow> bridge \<Rightarrow> bridge" where
  "persist d base b = b\<lparr>b_log := b_log b @ [stamp d b (ev base)]\<rparr>"

definition emitTitle :: "string \<Rightarrow> bridge \<Rightarrow> bridge" where
  "emitTitle title b =
     (if title = [] then b else b\<lparr>b_markedTitle := True, b_titles := b_titles b @ [title]\<rparr>)"

definition RUN_DIAGNOSTICS_MAX :: nat where "RUN_DIAGNOSTICS_MAX = 5"

definition noteRunDiagnostic :: "string \<Rightarrow> bridge \<Rightarrow> bridge" where
  "noteRunDiagnostic line b =
     (if line = [] then b
      else let ds = b_diagnostics b @ [line]
           in b\<lparr>b_diagnostics := (if length ds > RUN_DIAGNOSTICS_MAX then tl ds else ds)\<rparr>)"

subsection \<open>The current run\<close>

text \<open>An assignment to fields of the current run's state object.\<close>

definition upd_run :: "(run_state \<Rightarrow> run_state) \<Rightarrow> bridge \<Rightarrow> bridge" where
  "upd_run f b = b\<lparr>b_run := map_option f (b_run b)\<rparr>"

definition closeOpenText :: "bridge_deps \<Rightarrow> bridge \<Rightarrow> bridge" where
  "closeOpenText d b =
     (case Option.bind (b_run b) rs_openText of
        None \<Rightarrow> b
      | Some m \<Rightarrow> upd_run (\<lambda>st. st\<lparr>rs_openText := None\<rparr>) (emit d (TEXT_MESSAGE_END m) b))"

definition closeOpenReasoning :: "bridge_deps \<Rightarrow> bridge \<Rightarrow> bridge" where
  "closeOpenReasoning d b =
     (case Option.bind (b_run b) rs_openReasoning of
        None \<Rightarrow> b
      | Some m \<Rightarrow>
          upd_run (\<lambda>st. st\<lparr>rs_openReasoning := None\<rparr>)
            (emit d (REASONING_END m) (emit d (REASONING_MESSAGE_END m) b)))"

definition noteActivity :: "bridge \<Rightarrow> bridge" where
  "noteActivity b =
     upd_run (\<lambda>st. if rs_sawActivity st then st else st\<lparr>rs_sawActivity := True, rs_activityTimer := False\<rparr>) b"

text \<open>
  \<^verbatim>\<open>self.cancel\<close>. The client and the session are bound before the first await, so both calls
  are recorded together; a failed kill is only logged.
\<close>

definition bridge_cancel :: "bridge_deps \<Rightarrow> bool \<Rightarrow> bridge \<Rightarrow> bridge" where
  "bridge_cancel d userInitiated b =
     (case (b_run b, b_client b) of
        (Some st, Some c) \<Rightarrow>
          let b1 = upd_run (\<lambda>st. st\<lparr>rs_cancelled := True\<rparr>) b;
              b2 = (if userInitiated then emit d (CANCEL_REQUESTED (rs_threadId st) (rs_runId st)) b1 else b1)
          in b2\<lparr>b_calls := b_calls b2 @ [KillActiveTerminals c userInitiated (b_acpSession b)]
                 @ (if truthy (b_acpSession b) then [CancelSession c (the (b_acpSession b))] else [])\<rparr>
      | _ \<Rightarrow> b)"

subsection \<open>Frames\<close>

text \<open>What each operation leaves alone.\<close>

lemma emit_frame [simp]:
  "b_uuids (emit d e b) = b_uuids b"
  "b_now (emit d e b) = b_now b"
  "b_generation (emit d e b) = b_generation b"
  "b_queue (emit d e b) = b_queue b"
  "b_pumping (emit d e b) = b_pumping b"
  "b_runningBatch (emit d e b) = b_runningBatch b"
  "b_run (emit d e b) = b_run b"
  "b_terminalCommands (emit d e b) = b_terminalCommands b"
  "b_closed (emit d e b) = b_closed b"
  "b_started (emit d e b) = b_started b"
  "b_interruptTimer (emit d e b) = b_interruptTimer b"
  "b_sessions (emit d e b) = b_sessions b"
  "b_client (emit d e b) = b_client b"
  "b_acpSession (emit d e b) = b_acpSession b"
  "b_providerId (emit d e b) = b_providerId b"
  "b_providerKind (emit d e b) = b_providerKind b"
  "b_currentReady (emit d e b) = b_currentReady b"
  "b_lastRunReady (emit d e b) = b_lastRunReady b"
  "b_diagnostics (emit d e b) = b_diagnostics b"
  "b_pending (emit d e b) = b_pending b"
  "b_extractor (emit d e b) = b_extractor b"
  "b_markedTitle (emit d e b) = b_markedTitle b"
  "b_titles (emit d e b) = b_titles b"
  "b_calls (emit d e b) = b_calls b"
  "b_answers (emit d e b) = b_answers b"
  "b_external (emit d e b) = b_external b"
  "b_settled (emit d e b) = b_settled b"
  "b_completions (emit d e b) = b_completions b"
  "b_hookCalls (emit d e b) = b_hookCalls b"
  "b_hookCount (emit d e b) = b_hookCount b"
  "b_pc (emit d e b) = b_pc b"
  "b_batch (emit d e b) = b_batch b"
  "b_attempt (emit d e b) = b_attempt b"
  "b_outcomeError (emit d e b) = b_outcomeError b"
  "b_wedged (emit d e b) = b_wedged b"
  "b_thisTurn (emit d e b) = b_thisTurn b"
  "b_blocks (emit d e b) = b_blocks b"
  "b_tailBlocks (emit d e b) = b_tailBlocks b"
  "b_lastRun (emit d e b) = b_lastRun b"
  "b_combined (emit d e b) = b_combined b"
  "b_hookContext (emit d e b) = b_hookContext b"
  by (simp_all add: emit_def Let_def)

lemma persist_frame [simp]:
  "b_uuids (persist d e b) = b_uuids b"
  "b_now (persist d e b) = b_now b"
  "b_generation (persist d e b) = b_generation b"
  "b_out (persist d e b) = b_out b"
  "b_queue (persist d e b) = b_queue b"
  "b_pumping (persist d e b) = b_pumping b"
  "b_runningBatch (persist d e b) = b_runningBatch b"
  "b_run (persist d e b) = b_run b"
  "b_terminalCommands (persist d e b) = b_terminalCommands b"
  "b_closed (persist d e b) = b_closed b"
  "b_started (persist d e b) = b_started b"
  "b_interruptTimer (persist d e b) = b_interruptTimer b"
  "b_sessions (persist d e b) = b_sessions b"
  "b_client (persist d e b) = b_client b"
  "b_acpSession (persist d e b) = b_acpSession b"
  "b_providerId (persist d e b) = b_providerId b"
  "b_providerKind (persist d e b) = b_providerKind b"
  "b_currentReady (persist d e b) = b_currentReady b"
  "b_lastRunReady (persist d e b) = b_lastRunReady b"
  "b_diagnostics (persist d e b) = b_diagnostics b"
  "b_pending (persist d e b) = b_pending b"
  "b_extractor (persist d e b) = b_extractor b"
  "b_markedTitle (persist d e b) = b_markedTitle b"
  "b_titles (persist d e b) = b_titles b"
  "b_calls (persist d e b) = b_calls b"
  "b_answers (persist d e b) = b_answers b"
  "b_external (persist d e b) = b_external b"
  "b_settled (persist d e b) = b_settled b"
  "b_completions (persist d e b) = b_completions b"
  "b_hookCalls (persist d e b) = b_hookCalls b"
  "b_hookCount (persist d e b) = b_hookCount b"
  "b_pc (persist d e b) = b_pc b"
  "b_batch (persist d e b) = b_batch b"
  "b_attempt (persist d e b) = b_attempt b"
  "b_outcomeError (persist d e b) = b_outcomeError b"
  "b_wedged (persist d e b) = b_wedged b"
  "b_thisTurn (persist d e b) = b_thisTurn b"
  "b_blocks (persist d e b) = b_blocks b"
  "b_tailBlocks (persist d e b) = b_tailBlocks b"
  "b_lastRun (persist d e b) = b_lastRun b"
  "b_combined (persist d e b) = b_combined b"
  "b_hookContext (persist d e b) = b_hookContext b"
  by (simp_all add: persist_def)

lemma upd_run_frame [simp]:
  "b_uuids (upd_run f b) = b_uuids b"
  "b_now (upd_run f b) = b_now b"
  "b_generation (upd_run f b) = b_generation b"
  "b_out (upd_run f b) = b_out b"
  "b_log (upd_run f b) = b_log b"
  "b_queue (upd_run f b) = b_queue b"
  "b_pumping (upd_run f b) = b_pumping b"
  "b_runningBatch (upd_run f b) = b_runningBatch b"
  "b_terminalCommands (upd_run f b) = b_terminalCommands b"
  "b_closed (upd_run f b) = b_closed b"
  "b_started (upd_run f b) = b_started b"
  "b_interruptTimer (upd_run f b) = b_interruptTimer b"
  "b_sessions (upd_run f b) = b_sessions b"
  "b_client (upd_run f b) = b_client b"
  "b_acpSession (upd_run f b) = b_acpSession b"
  "b_providerId (upd_run f b) = b_providerId b"
  "b_providerKind (upd_run f b) = b_providerKind b"
  "b_currentReady (upd_run f b) = b_currentReady b"
  "b_lastRunReady (upd_run f b) = b_lastRunReady b"
  "b_diagnostics (upd_run f b) = b_diagnostics b"
  "b_pending (upd_run f b) = b_pending b"
  "b_extractor (upd_run f b) = b_extractor b"
  "b_markedTitle (upd_run f b) = b_markedTitle b"
  "b_titles (upd_run f b) = b_titles b"
  "b_calls (upd_run f b) = b_calls b"
  "b_answers (upd_run f b) = b_answers b"
  "b_external (upd_run f b) = b_external b"
  "b_settled (upd_run f b) = b_settled b"
  "b_completions (upd_run f b) = b_completions b"
  "b_hookCalls (upd_run f b) = b_hookCalls b"
  "b_hookCount (upd_run f b) = b_hookCount b"
  "b_pc (upd_run f b) = b_pc b"
  "b_batch (upd_run f b) = b_batch b"
  "b_attempt (upd_run f b) = b_attempt b"
  "b_outcomeError (upd_run f b) = b_outcomeError b"
  "b_wedged (upd_run f b) = b_wedged b"
  "b_thisTurn (upd_run f b) = b_thisTurn b"
  "b_blocks (upd_run f b) = b_blocks b"
  "b_tailBlocks (upd_run f b) = b_tailBlocks b"
  "b_lastRun (upd_run f b) = b_lastRun b"
  "b_combined (upd_run f b) = b_combined b"
  "b_hookContext (upd_run f b) = b_hookContext b"
  by (simp_all add: upd_run_def)

lemma emitTitle_frame [simp]:
  "b_uuids (emitTitle t b) = b_uuids b"
  "b_now (emitTitle t b) = b_now b"
  "b_generation (emitTitle t b) = b_generation b"
  "b_out (emitTitle t b) = b_out b"
  "b_log (emitTitle t b) = b_log b"
  "b_queue (emitTitle t b) = b_queue b"
  "b_pumping (emitTitle t b) = b_pumping b"
  "b_runningBatch (emitTitle t b) = b_runningBatch b"
  "b_run (emitTitle t b) = b_run b"
  "b_terminalCommands (emitTitle t b) = b_terminalCommands b"
  "b_closed (emitTitle t b) = b_closed b"
  "b_started (emitTitle t b) = b_started b"
  "b_interruptTimer (emitTitle t b) = b_interruptTimer b"
  "b_sessions (emitTitle t b) = b_sessions b"
  "b_client (emitTitle t b) = b_client b"
  "b_acpSession (emitTitle t b) = b_acpSession b"
  "b_providerId (emitTitle t b) = b_providerId b"
  "b_providerKind (emitTitle t b) = b_providerKind b"
  "b_currentReady (emitTitle t b) = b_currentReady b"
  "b_lastRunReady (emitTitle t b) = b_lastRunReady b"
  "b_diagnostics (emitTitle t b) = b_diagnostics b"
  "b_pending (emitTitle t b) = b_pending b"
  "b_extractor (emitTitle t b) = b_extractor b"
  "b_calls (emitTitle t b) = b_calls b"
  "b_answers (emitTitle t b) = b_answers b"
  "b_external (emitTitle t b) = b_external b"
  "b_settled (emitTitle t b) = b_settled b"
  "b_completions (emitTitle t b) = b_completions b"
  "b_hookCalls (emitTitle t b) = b_hookCalls b"
  "b_hookCount (emitTitle t b) = b_hookCount b"
  "b_pc (emitTitle t b) = b_pc b"
  "b_batch (emitTitle t b) = b_batch b"
  "b_attempt (emitTitle t b) = b_attempt b"
  "b_outcomeError (emitTitle t b) = b_outcomeError b"
  "b_wedged (emitTitle t b) = b_wedged b"
  "b_thisTurn (emitTitle t b) = b_thisTurn b"
  "b_blocks (emitTitle t b) = b_blocks b"
  "b_tailBlocks (emitTitle t b) = b_tailBlocks b"
  "b_lastRun (emitTitle t b) = b_lastRun b"
  "b_combined (emitTitle t b) = b_combined b"
  "b_hookContext (emitTitle t b) = b_hookContext b"
  by (simp_all add: emitTitle_def)

lemma noteRunDiagnostic_frame [simp]:
  "b_uuids (noteRunDiagnostic l b) = b_uuids b"
  "b_now (noteRunDiagnostic l b) = b_now b"
  "b_generation (noteRunDiagnostic l b) = b_generation b"
  "b_out (noteRunDiagnostic l b) = b_out b"
  "b_log (noteRunDiagnostic l b) = b_log b"
  "b_queue (noteRunDiagnostic l b) = b_queue b"
  "b_pumping (noteRunDiagnostic l b) = b_pumping b"
  "b_runningBatch (noteRunDiagnostic l b) = b_runningBatch b"
  "b_run (noteRunDiagnostic l b) = b_run b"
  "b_terminalCommands (noteRunDiagnostic l b) = b_terminalCommands b"
  "b_closed (noteRunDiagnostic l b) = b_closed b"
  "b_started (noteRunDiagnostic l b) = b_started b"
  "b_interruptTimer (noteRunDiagnostic l b) = b_interruptTimer b"
  "b_sessions (noteRunDiagnostic l b) = b_sessions b"
  "b_client (noteRunDiagnostic l b) = b_client b"
  "b_acpSession (noteRunDiagnostic l b) = b_acpSession b"
  "b_providerId (noteRunDiagnostic l b) = b_providerId b"
  "b_providerKind (noteRunDiagnostic l b) = b_providerKind b"
  "b_currentReady (noteRunDiagnostic l b) = b_currentReady b"
  "b_lastRunReady (noteRunDiagnostic l b) = b_lastRunReady b"
  "b_pending (noteRunDiagnostic l b) = b_pending b"
  "b_extractor (noteRunDiagnostic l b) = b_extractor b"
  "b_markedTitle (noteRunDiagnostic l b) = b_markedTitle b"
  "b_titles (noteRunDiagnostic l b) = b_titles b"
  "b_calls (noteRunDiagnostic l b) = b_calls b"
  "b_answers (noteRunDiagnostic l b) = b_answers b"
  "b_external (noteRunDiagnostic l b) = b_external b"
  "b_settled (noteRunDiagnostic l b) = b_settled b"
  "b_completions (noteRunDiagnostic l b) = b_completions b"
  "b_hookCalls (noteRunDiagnostic l b) = b_hookCalls b"
  "b_hookCount (noteRunDiagnostic l b) = b_hookCount b"
  "b_pc (noteRunDiagnostic l b) = b_pc b"
  "b_batch (noteRunDiagnostic l b) = b_batch b"
  "b_attempt (noteRunDiagnostic l b) = b_attempt b"
  "b_outcomeError (noteRunDiagnostic l b) = b_outcomeError b"
  "b_wedged (noteRunDiagnostic l b) = b_wedged b"
  "b_thisTurn (noteRunDiagnostic l b) = b_thisTurn b"
  "b_blocks (noteRunDiagnostic l b) = b_blocks b"
  "b_tailBlocks (noteRunDiagnostic l b) = b_tailBlocks b"
  "b_lastRun (noteRunDiagnostic l b) = b_lastRun b"
  "b_combined (noteRunDiagnostic l b) = b_combined b"
  "b_hookContext (noteRunDiagnostic l b) = b_hookContext b"
  by (simp_all add: noteRunDiagnostic_def Let_def)

lemma noteActivity_frame [simp]:
  "b_uuids (noteActivity b) = b_uuids b"
  "b_now (noteActivity b) = b_now b"
  "b_generation (noteActivity b) = b_generation b"
  "b_out (noteActivity b) = b_out b"
  "b_log (noteActivity b) = b_log b"
  "b_queue (noteActivity b) = b_queue b"
  "b_pumping (noteActivity b) = b_pumping b"
  "b_runningBatch (noteActivity b) = b_runningBatch b"
  "b_terminalCommands (noteActivity b) = b_terminalCommands b"
  "b_closed (noteActivity b) = b_closed b"
  "b_started (noteActivity b) = b_started b"
  "b_interruptTimer (noteActivity b) = b_interruptTimer b"
  "b_sessions (noteActivity b) = b_sessions b"
  "b_client (noteActivity b) = b_client b"
  "b_acpSession (noteActivity b) = b_acpSession b"
  "b_providerId (noteActivity b) = b_providerId b"
  "b_providerKind (noteActivity b) = b_providerKind b"
  "b_currentReady (noteActivity b) = b_currentReady b"
  "b_lastRunReady (noteActivity b) = b_lastRunReady b"
  "b_diagnostics (noteActivity b) = b_diagnostics b"
  "b_pending (noteActivity b) = b_pending b"
  "b_extractor (noteActivity b) = b_extractor b"
  "b_markedTitle (noteActivity b) = b_markedTitle b"
  "b_titles (noteActivity b) = b_titles b"
  "b_calls (noteActivity b) = b_calls b"
  "b_answers (noteActivity b) = b_answers b"
  "b_external (noteActivity b) = b_external b"
  "b_settled (noteActivity b) = b_settled b"
  "b_completions (noteActivity b) = b_completions b"
  "b_hookCalls (noteActivity b) = b_hookCalls b"
  "b_hookCount (noteActivity b) = b_hookCount b"
  "b_pc (noteActivity b) = b_pc b"
  "b_batch (noteActivity b) = b_batch b"
  "b_attempt (noteActivity b) = b_attempt b"
  "b_outcomeError (noteActivity b) = b_outcomeError b"
  "b_wedged (noteActivity b) = b_wedged b"
  "b_thisTurn (noteActivity b) = b_thisTurn b"
  "b_blocks (noteActivity b) = b_blocks b"
  "b_tailBlocks (noteActivity b) = b_tailBlocks b"
  "b_lastRun (noteActivity b) = b_lastRun b"
  "b_combined (noteActivity b) = b_combined b"
  "b_hookContext (noteActivity b) = b_hookContext b"
  by (simp_all add: noteActivity_def)

lemma closeOpenText_frame [simp]:
  "b_uuids (closeOpenText d b) = b_uuids b"
  "b_now (closeOpenText d b) = b_now b"
  "b_generation (closeOpenText d b) = b_generation b"
  "b_queue (closeOpenText d b) = b_queue b"
  "b_pumping (closeOpenText d b) = b_pumping b"
  "b_runningBatch (closeOpenText d b) = b_runningBatch b"
  "b_terminalCommands (closeOpenText d b) = b_terminalCommands b"
  "b_closed (closeOpenText d b) = b_closed b"
  "b_started (closeOpenText d b) = b_started b"
  "b_interruptTimer (closeOpenText d b) = b_interruptTimer b"
  "b_sessions (closeOpenText d b) = b_sessions b"
  "b_client (closeOpenText d b) = b_client b"
  "b_acpSession (closeOpenText d b) = b_acpSession b"
  "b_providerId (closeOpenText d b) = b_providerId b"
  "b_providerKind (closeOpenText d b) = b_providerKind b"
  "b_currentReady (closeOpenText d b) = b_currentReady b"
  "b_lastRunReady (closeOpenText d b) = b_lastRunReady b"
  "b_diagnostics (closeOpenText d b) = b_diagnostics b"
  "b_pending (closeOpenText d b) = b_pending b"
  "b_extractor (closeOpenText d b) = b_extractor b"
  "b_markedTitle (closeOpenText d b) = b_markedTitle b"
  "b_titles (closeOpenText d b) = b_titles b"
  "b_calls (closeOpenText d b) = b_calls b"
  "b_answers (closeOpenText d b) = b_answers b"
  "b_external (closeOpenText d b) = b_external b"
  "b_settled (closeOpenText d b) = b_settled b"
  "b_completions (closeOpenText d b) = b_completions b"
  "b_hookCalls (closeOpenText d b) = b_hookCalls b"
  "b_hookCount (closeOpenText d b) = b_hookCount b"
  "b_pc (closeOpenText d b) = b_pc b"
  "b_batch (closeOpenText d b) = b_batch b"
  "b_attempt (closeOpenText d b) = b_attempt b"
  "b_outcomeError (closeOpenText d b) = b_outcomeError b"
  "b_wedged (closeOpenText d b) = b_wedged b"
  "b_thisTurn (closeOpenText d b) = b_thisTurn b"
  "b_blocks (closeOpenText d b) = b_blocks b"
  "b_tailBlocks (closeOpenText d b) = b_tailBlocks b"
  "b_lastRun (closeOpenText d b) = b_lastRun b"
  "b_combined (closeOpenText d b) = b_combined b"
  "b_hookContext (closeOpenText d b) = b_hookContext b"
  by (simp_all add: closeOpenText_def split: option.split)

lemma closeOpenReasoning_frame [simp]:
  "b_uuids (closeOpenReasoning d b) = b_uuids b"
  "b_now (closeOpenReasoning d b) = b_now b"
  "b_generation (closeOpenReasoning d b) = b_generation b"
  "b_queue (closeOpenReasoning d b) = b_queue b"
  "b_pumping (closeOpenReasoning d b) = b_pumping b"
  "b_runningBatch (closeOpenReasoning d b) = b_runningBatch b"
  "b_terminalCommands (closeOpenReasoning d b) = b_terminalCommands b"
  "b_closed (closeOpenReasoning d b) = b_closed b"
  "b_started (closeOpenReasoning d b) = b_started b"
  "b_interruptTimer (closeOpenReasoning d b) = b_interruptTimer b"
  "b_sessions (closeOpenReasoning d b) = b_sessions b"
  "b_client (closeOpenReasoning d b) = b_client b"
  "b_acpSession (closeOpenReasoning d b) = b_acpSession b"
  "b_providerId (closeOpenReasoning d b) = b_providerId b"
  "b_providerKind (closeOpenReasoning d b) = b_providerKind b"
  "b_currentReady (closeOpenReasoning d b) = b_currentReady b"
  "b_lastRunReady (closeOpenReasoning d b) = b_lastRunReady b"
  "b_diagnostics (closeOpenReasoning d b) = b_diagnostics b"
  "b_pending (closeOpenReasoning d b) = b_pending b"
  "b_extractor (closeOpenReasoning d b) = b_extractor b"
  "b_markedTitle (closeOpenReasoning d b) = b_markedTitle b"
  "b_titles (closeOpenReasoning d b) = b_titles b"
  "b_calls (closeOpenReasoning d b) = b_calls b"
  "b_answers (closeOpenReasoning d b) = b_answers b"
  "b_external (closeOpenReasoning d b) = b_external b"
  "b_settled (closeOpenReasoning d b) = b_settled b"
  "b_completions (closeOpenReasoning d b) = b_completions b"
  "b_hookCalls (closeOpenReasoning d b) = b_hookCalls b"
  "b_hookCount (closeOpenReasoning d b) = b_hookCount b"
  "b_pc (closeOpenReasoning d b) = b_pc b"
  "b_batch (closeOpenReasoning d b) = b_batch b"
  "b_attempt (closeOpenReasoning d b) = b_attempt b"
  "b_outcomeError (closeOpenReasoning d b) = b_outcomeError b"
  "b_wedged (closeOpenReasoning d b) = b_wedged b"
  "b_thisTurn (closeOpenReasoning d b) = b_thisTurn b"
  "b_blocks (closeOpenReasoning d b) = b_blocks b"
  "b_tailBlocks (closeOpenReasoning d b) = b_tailBlocks b"
  "b_lastRun (closeOpenReasoning d b) = b_lastRun b"
  "b_combined (closeOpenReasoning d b) = b_combined b"
  "b_hookContext (closeOpenReasoning d b) = b_hookContext b"
  by (simp_all add: closeOpenReasoning_def split: option.split)

lemma bridge_cancel_frame [simp]:
  "b_uuids (bridge_cancel d u b) = b_uuids b"
  "b_now (bridge_cancel d u b) = b_now b"
  "b_generation (bridge_cancel d u b) = b_generation b"
  "b_queue (bridge_cancel d u b) = b_queue b"
  "b_pumping (bridge_cancel d u b) = b_pumping b"
  "b_runningBatch (bridge_cancel d u b) = b_runningBatch b"
  "b_terminalCommands (bridge_cancel d u b) = b_terminalCommands b"
  "b_closed (bridge_cancel d u b) = b_closed b"
  "b_started (bridge_cancel d u b) = b_started b"
  "b_interruptTimer (bridge_cancel d u b) = b_interruptTimer b"
  "b_sessions (bridge_cancel d u b) = b_sessions b"
  "b_client (bridge_cancel d u b) = b_client b"
  "b_acpSession (bridge_cancel d u b) = b_acpSession b"
  "b_providerId (bridge_cancel d u b) = b_providerId b"
  "b_providerKind (bridge_cancel d u b) = b_providerKind b"
  "b_currentReady (bridge_cancel d u b) = b_currentReady b"
  "b_lastRunReady (bridge_cancel d u b) = b_lastRunReady b"
  "b_diagnostics (bridge_cancel d u b) = b_diagnostics b"
  "b_pending (bridge_cancel d u b) = b_pending b"
  "b_extractor (bridge_cancel d u b) = b_extractor b"
  "b_markedTitle (bridge_cancel d u b) = b_markedTitle b"
  "b_titles (bridge_cancel d u b) = b_titles b"
  "b_answers (bridge_cancel d u b) = b_answers b"
  "b_external (bridge_cancel d u b) = b_external b"
  "b_settled (bridge_cancel d u b) = b_settled b"
  "b_completions (bridge_cancel d u b) = b_completions b"
  "b_hookCalls (bridge_cancel d u b) = b_hookCalls b"
  "b_hookCount (bridge_cancel d u b) = b_hookCount b"
  "b_pc (bridge_cancel d u b) = b_pc b"
  "b_batch (bridge_cancel d u b) = b_batch b"
  "b_attempt (bridge_cancel d u b) = b_attempt b"
  "b_outcomeError (bridge_cancel d u b) = b_outcomeError b"
  "b_wedged (bridge_cancel d u b) = b_wedged b"
  "b_thisTurn (bridge_cancel d u b) = b_thisTurn b"
  "b_blocks (bridge_cancel d u b) = b_blocks b"
  "b_tailBlocks (bridge_cancel d u b) = b_tailBlocks b"
  "b_lastRun (bridge_cancel d u b) = b_lastRun b"
  "b_combined (bridge_cancel d u b) = b_combined b"
  "b_hookContext (bridge_cancel d u b) = b_hookContext b"
  by (simp_all add: bridge_cancel_def Let_def split: option.split)

lemma b_run_upd_run [simp]: "b_run (upd_run f b) = map_option f (b_run b)"
  by (simp add: upd_run_def)

lemma b_out_emit: "b_out (emit d base b) = b_out b @ [stamp d b (ev base)]"
  by (simp add: emit_def Let_def)

lemma b_log_emit: "b_log (emit d base b) = b_log b @ [stamp d b (ev base)]"
  by (simp add: emit_def Let_def)

lemma b_log_persist: "b_log (persist d base b) = b_log b @ [stamp d b (ev base)]"
  by (simp add: persist_def)

text \<open>Stamping keeps the event, but for the origin of a run's start.\<close>

lemma ev_base_stamp:
  "ev_base (stamp d b (ev base)) =
     (case base of
        RUN_STARTED t r None g \<Rightarrow>
          if truthy (d_selfPod d) then RUN_STARTED t r (d_selfPod d) (b_generation b) else base
      | _ \<Rightarrow> base)"
  by (auto simp: stamp_def Let_def split: agui_base.split option.split)

end
