(* ===== verification/Bridge_Queue.thy ===== *)
theory Bridge_Queue
  imports Bridge_State "HOL-Library.Product_Lexorder" "HOL-Library.Multiset"
begin

text \<open>
  The run queue of \<^verbatim>\<open>bridge.ts\<close>: its snapshot event, the choice of the next item, the batch the
  pump takes, preemption of the running turn by a waiting priority item, draining, and the
  observers \<^verbatim>\<open>queueState\<close> and \<^verbatim>\<open>shouldYieldToQueue\<close>. An armed timer is the delay it was
  armed with.
\<close>

subsection \<open>The queue\<close>

definition queue_entry_of :: "queue_item \<Rightarrow> queue_entry" where
  "queue_entry_of q = QueueEntry (qi_id q) (in_text (qi_input q)) (qi_priority q)
     (if qi_priority q \<ge> PRIORITY_INTERRUPT then Some (qi_interrupt q) else None)
     (if truthy (in_source (qi_input q)) then in_source (qi_input q) else None)"

definition queue_snapshot :: "queue_item list \<Rightarrow> queue_entry list" where
  "queue_snapshot q = map queue_entry_of (sort_key (\<lambda>i. (- qi_priority i, qi_enqueuedAt i)) q)"

definition emitQueueSnapshot :: "bridge_deps \<Rightarrow> bridge \<Rightarrow> bridge" where
  "emitQueueSnapshot d b = emit d (QUEUE_UPDATED (queue_snapshot (b_queue b))) b"

text \<open>The \<^verbatim>\<open>reduce\<close>: a later item replaces the best so far only when it is strictly better.\<close>

definition better :: "queue_item \<Rightarrow> queue_item \<Rightarrow> bool" where
  "better it best \<longleftrightarrow>
     qi_priority it > qi_priority best \<or> (qi_priority it = qi_priority best \<and> qi_enqueuedAt it < qi_enqueuedAt best)"

definition pick_better :: "queue_item \<Rightarrow> queue_item \<Rightarrow> queue_item" where
  "pick_better best it = (if better it best then it else best)"

fun topPriorityItem :: "queue_item list \<Rightarrow> queue_item option" where
  "topPriorityItem [] = None"
| "topPriorityItem (q # qs) = Some (foldl pick_better q qs)"

text \<open>The batch of the pump: the top item and the rest of its tier, in the order they were queued.\<close>

definition coalesce :: "queue_item \<Rightarrow> queue_item list \<Rightarrow> queue_item list" where
  "coalesce item queue =
     sort_key qi_enqueuedAt
       (item # filter (\<lambda>q. qi_ref q \<noteq> qi_ref item \<and> qi_priority q = qi_priority item) queue)"

text \<open>\<^verbatim>\<open>queue.splice(queue.indexOf(b), 1)\<close> for an item that is in the queue.\<close>

fun splice_out :: "queue_item \<Rightarrow> queue_item list \<Rightarrow> queue_item list" where
  "splice_out b [] = []"
| "splice_out b (q # qs) = (if qi_ref q = qi_ref b then qs else q # splice_out b qs)"

definition take_batch :: "queue_item list \<Rightarrow> (queue_item list \<times> queue_item list) option" where
  "take_batch queue =
     (case topPriorityItem queue of
        None \<Rightarrow> None
      | Some item \<Rightarrow>
          let batch = coalesce item queue in Some (batch, foldl (\<lambda>q b. splice_out b q) queue batch))"

definition top_priority :: "queue_item list \<Rightarrow> int" where
  "top_priority q = (case topPriorityItem q of None \<Rightarrow> 0 | Some i \<Rightarrow> qi_priority i)"

definition shouldYieldToQueue :: "bridge \<Rightarrow> bool" where
  "shouldYieldToQueue b \<longleftrightarrow> top_priority (b_queue b) \<ge> PRIORITY_INTERRUPT"

record queue_state =
  qs_running :: bool
  qs_currentRunMs :: int
  qs_queued :: nat
  qs_maxQueuedPriority :: int

text \<open>A start at time 0 reads as no start (\<^verbatim>\<open>currentRun?.startedAt ?\<close>).\<close>

definition queueState :: "bridge \<Rightarrow> queue_state" where
  "queueState b = \<lparr>
     qs_running = (b_run b \<noteq> None),
     qs_currentRunMs =
       (case b_run b of
          Some st \<Rightarrow> if rs_startedAt st \<noteq> 0 then b_now b - rs_startedAt st else 0
        | None \<Rightarrow> 0),
     qs_queued = length (b_queue b),
     qs_maxQueuedPriority = top_priority (b_queue b)\<rparr>"

subsection \<open>Preemption\<close>

definition clearInterruptTimer :: "bridge \<Rightarrow> bridge" where
  "clearInterruptTimer b = b\<lparr>b_interruptTimer := None\<rparr>"

definition armTimeoutFallback :: "bridge_deps \<Rightarrow> queue_item \<Rightarrow> bridge \<Rightarrow> bridge" where
  "armTimeoutFallback d head b =
     (if d_priorityInterruptMs d \<le> 0 then b
      else b\<lparr>b_interruptTimer := Some (max 0 (d_priorityInterruptMs d - (b_now b - qi_enqueuedAt head)))\<rparr>)"

text \<open>The timer's callback.\<close>

definition interrupt_timer_fires :: "bridge_deps \<Rightarrow> bridge \<Rightarrow> bridge" where
  "interrupt_timer_fires d b =
     (let b1 = b\<lparr>b_interruptTimer := None\<rparr>
      in if b_run b1 \<noteq> None \<and> shouldYieldToQueue b1 then bridge_cancel d False b1 else b1)"

definition applyPreemption :: "bridge_deps \<Rightarrow> bridge \<Rightarrow> bridge" where
  "applyPreemption d b0 =
     (let b = clearInterruptTimer b0
      in case (b_run b, topPriorityItem (b_queue b)) of
           (Some st, Some head) \<Rightarrow>
             if qi_priority head < PRIORITY_INTERRUPT then b
             else (case qi_interrupt head of
                     PolicyToolCall \<Rightarrow> bridge_cancel d False b
                   | PolicyThinking \<Rightarrow>
                       if rs_inFlightTools st = 0 then bridge_cancel d False b
                       else armTimeoutFallback d head (upd_run (\<lambda>st. st\<lparr>rs_cancelWhenToolsIdle := True\<rparr>) b)
                   | PolicyTimeout \<Rightarrow> armTimeoutFallback d head b)
         | _ \<Rightarrow> b)"

subsection \<open>Draining\<close>

record drained_item =
  dr_text :: string
  dr_priority :: int
  dr_source :: "string option"
  dr_humanInitiated :: "bool option"

definition drained_of :: "queue_item \<Rightarrow> drained_item" where
  "drained_of q = \<lparr>dr_text = in_text (qi_input q), dr_priority = qi_priority q,
     dr_source = in_source (qi_input q), dr_humanInitiated = in_humanInitiated (qi_input q)\<rparr>"

definition drainQueue :: "bridge_deps \<Rightarrow> bridge \<Rightarrow> drained_item list \<times> bridge" where
  "drainQueue d b =
     (let inFlight = b_runningBatch b;
          waiting = b_queue b;
          b1 = b\<lparr>b_runningBatch := [], b_queue := []\<rparr>
      in if waiting = [] \<and> inFlight = [] then ([], b1)
         else
           let b2 = emitQueueSnapshot d b1;
               b3 = b2\<lparr>b_settled := b_settled b2 @ map (\<lambda>q. (qi_ref q,
                        Rejected ''the conversation was suspended before this queued message could run'')) waiting\<rparr>
           in (map drained_of (inFlight @ waiting), b3))"

subsection \<open>The next batch\<close>

lemma better_trans: "better a b \<Longrightarrow> better b c \<Longrightarrow> better a c"
  by (auto simp: better_def)

lemma topPriorityItem_None [simp]: "topPriorityItem q = None \<longleftrightarrow> q = []"
  by (cases q) auto

text \<open>
  The item chosen splits the queue: nothing is better than it, and what stands before it is worse.
\<close>

lemma reduce_split:
  "\<exists>xs ys. q # qs = xs @ foldl pick_better q qs # ys
     \<and> (\<forall>x \<in> set xs. better (foldl pick_better q qs) x)
     \<and> (\<forall>y \<in> set ys. \<not> better y (foldl pick_better q qs))"
proof (induction qs rule: rev_induct)
  case Nil
  show ?case by (intro exI [of _ "[]"]) simp
next
  case (snoc z qs)
  define top where "top = foldl pick_better q qs"
  obtain xs ys where IH: "q # qs = xs @ top # ys" "\<forall>x \<in> set xs. better top x" "\<forall>y \<in> set ys. \<not> better y top"
    using snoc unfolding top_def by blast
  have step: "foldl pick_better q (qs @ [z]) = pick_better top z" by (simp add: top_def)
  show ?case
  proof (cases "better z top")
    case True
    have "better z x" if "\<not> better x top" for x
      using True that by (auto simp: better_def)
    moreover have "better z x" if "better top x" for x
      using True that better_trans by blast
    ultimately have "\<forall>x \<in> set (q # qs). better z x"
      unfolding IH(1) using IH(2,3) True by auto
    then show ?thesis
      unfolding step using True by (intro exI [of _ "q # qs"] exI [of _ "[]"]) (simp add: pick_better_def)
  next
    case False
    then have "q # qs @ [z] = xs @ pick_better top z # (ys @ [z])" "pick_better top z = top"
      using IH(1) by (simp_all add: pick_better_def)
    with IH(2,3) False show ?thesis
      unfolding step by (intro exI [of _ xs] exI [of _ "ys @ [z]"]) auto
  qed
qed

lemma topPriorityItem_split:
  assumes "topPriorityItem queue = Some item"
  obtains xs ys where "queue = xs @ item # ys" "\<forall>x \<in> set xs. better item x" "\<forall>y \<in> set ys. \<not> better y item"
proof -
  obtain q qs where queue: "queue = q # qs" using assms by (cases queue) auto
  then have "item = foldl pick_better q qs" using assms by simp
  with reduce_split [of q qs] queue that show ?thesis by blast
qed

lemma top_priority_max:
  assumes "topPriorityItem queue = Some item" and "q \<in> set queue"
  shows "qi_priority q \<le> qi_priority item"
proof -
  obtain xs ys where "queue = xs @ item # ys" "\<forall>x \<in> set xs. better item x" "\<forall>y \<in> set ys. \<not> better y item"
    using assms(1) by (rule topPriorityItem_split)
  with assms(2) show ?thesis by (auto simp: better_def)
qed

text \<open>Moving an element to the front past strictly later ones does not show after a stable sort.\<close>

lemma insort_key_first:
  "\<forall>x \<in> set xs. f a < f x \<Longrightarrow> insort_key f a (sort_key f (xs @ ys)) = sort_key f (xs @ a # ys)"
proof (induction xs)
  case Nil
  then show ?case by simp
next
  case (Cons x xs)
  then have "f a \<noteq> f x" by auto
  then have "insort_key f a (insort_key f x zs) = insort_key f x (insort_key f a zs)" for zs
    using insort_key_left_comm [of f x a zs] by simp
  with Cons show ?case by simp
qed

lemma coalesce_tier:
  assumes "topPriorityItem queue = Some item" and "distinct (map qi_ref queue)"
  shows "coalesce item queue = sort_key qi_enqueuedAt (filter (\<lambda>q. qi_priority q = qi_priority item) queue)"
proof -
  let ?tier = "\<lambda>q. qi_priority q = qi_priority item"
  obtain xs ys where split: "queue = xs @ item # ys" "\<forall>x \<in> set xs. better item x" "\<forall>y \<in> set ys. \<not> better y item"
    using assms(1) by (rule topPriorityItem_split)
  have refs: "\<forall>q \<in> set xs \<union> set ys. qi_ref q \<noteq> qi_ref item"
    using assms(2) unfolding split(1) by (auto simp: image_iff)
  have other: "filter (\<lambda>q. qi_ref q \<noteq> qi_ref item \<and> ?tier q) queue = filter ?tier xs @ filter ?tier ys"
    unfolding split(1) using refs by (simp cong: filter_cong)
  have later: "\<forall>x \<in> set (filter ?tier xs). qi_enqueuedAt item < qi_enqueuedAt x"
    using split(2) by (auto simp: better_def)
  have "coalesce item queue = insort_key qi_enqueuedAt item (sort_key qi_enqueuedAt (filter ?tier xs @ filter ?tier ys))"
    unfolding coalesce_def other by simp
  also have "\<dots> = sort_key qi_enqueuedAt (filter ?tier xs @ item # filter ?tier ys)"
    using later by (rule insort_key_first)
  finally show ?thesis using split(1) by simp
qed

lemma splice_out_filter:
  "distinct (map qi_ref queue) \<Longrightarrow> splice_out b queue = filter (\<lambda>q. qi_ref q \<noteq> qi_ref b) queue"
proof (induction queue)
  case Nil
  then show ?case by simp
next
  case (Cons q queue)
  have "filter (\<lambda>x. qi_ref x \<noteq> qi_ref q) queue = queue"
    using Cons.prems by (auto simp: filter_id_conv image_iff)
  with Cons show ?case by auto
qed

lemma splice_out_all:
  "distinct (map qi_ref queue) \<Longrightarrow>
    foldl (\<lambda>q b. splice_out b q) queue batch = filter (\<lambda>q. qi_ref q \<notin> qi_ref ` set batch) queue"
proof (induction batch arbitrary: queue)
  case Nil
  then show ?case by simp
next
  case (Cons b batch)
  have "distinct (map qi_ref (filter P queue))" for P using Cons.prems by (rule distinct_map_filter)
  then show ?case
    using Cons by (auto simp: splice_out_filter conj_commute intro!: filter_cong)
qed

lemma filter_refs_of_filter:
  assumes "distinct (map qi_ref queue)"
  shows "filter (\<lambda>q. qi_ref q \<notin> qi_ref ` set (filter P queue)) queue = filter (\<lambda>q. \<not> P q) queue"
proof (rule filter_cong [OF refl])
  fix q assume "q \<in> set queue"
  then have "q' = q" if "q' \<in> set queue" "qi_ref q' = qi_ref q" for q'
    using assms that by (auto simp: distinct_map dest: inj_onD)
  then show "(qi_ref q \<notin> qi_ref ` set (filter P queue)) = (\<not> P q)"
    using \<open>q \<in> set queue\<close> by auto
qed

text \<open>
  The batch taken from a queue of distinct items: the whole tier of the highest priority and
  nothing else, ordered by the time of queueing with ties in queue order, and what stays is the
  rest of the queue in its order.
\<close>

lemma take_batch_tier:
  assumes "distinct (map qi_ref queue)" and "queue \<noteq> []"
  shows "\<exists>item. topPriorityItem queue = Some item \<and> item \<in> set queue \<and>
    (\<forall>q \<in> set queue. qi_priority q \<le> qi_priority item) \<and>
    take_batch queue =
      Some (sort_key qi_enqueuedAt (filter (\<lambda>q. qi_priority q = qi_priority item) queue),
            filter (\<lambda>q. qi_priority q \<noteq> qi_priority item) queue)"
proof -
  obtain item where item: "topPriorityItem queue = Some item"
    using assms(2) by (metis topPriorityItem_None not_None_eq)
  have "set (coalesce item queue) = set (filter (\<lambda>q. qi_priority q = qi_priority item) queue)"
    by (simp add: coalesce_tier [OF item assms(1)])
  moreover have "item \<in> set queue"
    by (rule topPriorityItem_split [OF item]) auto
  ultimately show ?thesis
    using item top_priority_max [OF item] assms(1)
    by (auto simp: take_batch_def Let_def splice_out_all coalesce_tier [OF item assms(1)]
        filter_refs_of_filter simp del: set_filter)
qed

lemma take_batch_SomeE:
  assumes "distinct (map qi_ref queue)" and "take_batch queue = Some (batch, rest)"
  obtains item where "topPriorityItem queue = Some item" "item \<in> set queue"
    "\<forall>q \<in> set queue. qi_priority q \<le> qi_priority item"
    "batch = sort_key qi_enqueuedAt (filter (\<lambda>q. qi_priority q = qi_priority item) queue)"
    "rest = filter (\<lambda>q. qi_priority q \<noteq> qi_priority item) queue"
proof -
  have "queue \<noteq> []" using assms(2) by (auto simp: take_batch_def)
  from take_batch_tier [OF assms(1) this] assms(2) that show ?thesis by (metis option.inject prod.inject)
qed

lemma take_batch_ne:
  assumes "distinct (map qi_ref queue)" and "take_batch queue = Some (batch, rest)"
  shows "batch \<noteq> []"
proof (rule take_batch_SomeE [OF assms])
  fix item
  assume "item \<in> set queue"
    and batch: "batch = sort_key qi_enqueuedAt (filter (\<lambda>q. qi_priority q = qi_priority item) queue)"
  then have "item \<in> set batch" by simp
  then show ?thesis by auto
qed

text \<open>Nothing is lost or duplicated when a batch is taken.\<close>

lemma take_batch_mset:
  assumes "distinct (map qi_ref queue)" and "take_batch queue = Some (batch, rest)"
  shows "mset batch + mset rest = mset queue"
proof -
  obtain item where "topPriorityItem queue = Some item"
      "batch = sort_key qi_enqueuedAt (filter (\<lambda>q. qi_priority q = qi_priority item) queue)"
      "rest = filter (\<lambda>q. qi_priority q \<noteq> qi_priority item) queue"
    using assms by (rule take_batch_SomeE)
  then show ?thesis by (simp add: mset_filter)
qed

text \<open>
  C12 (functional). The batch the pump takes from a queue: the whole tier of the highest priority and
  nothing else, in the order of queueing with ties in queue order; what stays waiting is the rest of
  the queue, in its order and all of lower priority, and nothing is lost or duplicated.
\<close>

theorem next_batch_is_top_tier:
  assumes "distinct (map qi_ref queue)" and "take_batch queue = Some (batch, rest)"
  shows "batch \<noteq> []
    \<and> batch = sort_key qi_enqueuedAt (filter (\<lambda>q. qi_priority q = qi_priority (hd batch)) queue)
    \<and> rest = filter (\<lambda>q. qi_priority q < qi_priority (hd batch)) queue
    \<and> mset batch + mset rest = mset queue"
proof (rule take_batch_SomeE [OF assms])
  fix item
  assume item: "\<forall>q \<in> set queue. qi_priority q \<le> qi_priority item"
    and batch: "batch = sort_key qi_enqueuedAt (filter (\<lambda>q. qi_priority q = qi_priority item) queue)"
    and rest: "rest = filter (\<lambda>q. qi_priority q \<noteq> qi_priority item) queue"
  have ne: "batch \<noteq> []" using assms by (rule take_batch_ne)
  then have "hd batch \<in> set batch" by simp
  then have hd: "qi_priority (hd batch) = qi_priority item" unfolding batch by simp
  have "rest = filter (\<lambda>q. qi_priority q < qi_priority item) queue"
    unfolding rest using item by (intro filter_cong) (auto simp: less_le)
  with ne batch hd take_batch_mset [OF assms] show ?thesis by simp
qed

text \<open>Two normal messages and an interrupt: the interrupt runs alone.\<close>

theorem next_batch_is_top_tier_witness:
  "let i = (\<lambda>n p t. \<lparr>qi_ref = n, qi_id = [], qi_input = \<lparr>in_threadId = ''t1'', in_text = [], in_images = [], in_files = [],
                in_source = None, in_humanInitiated = None\<rparr>, qi_priority = p, qi_interrupt = PolicyThinking, qi_enqueuedAt = t\<rparr>)
   in take_batch [i 0 0 5, i 1 10 6, i 2 0 4] = Some ([i 1 10 6], [i 0 0 5, i 2 0 4])
      \<and> mset [i 1 10 6] + mset [i 0 0 5, i 2 0 4] = mset [i 0 0 5, i 1 10 6, i 2 0 4]"
proof -
  define i where "i = (\<lambda>n p t. \<lparr>qi_ref = n, qi_id = [], qi_input = \<lparr>in_threadId = ''t1'', in_text = [], in_images = [],
      in_files = [], in_source = None, in_humanInitiated = None\<rparr>, qi_priority = p, qi_interrupt = PolicyThinking, qi_enqueuedAt = t\<rparr>)"
  have taken: "take_batch [i 0 0 5, i 1 10 6, i 2 0 4] = Some ([i 1 10 6], [i 0 0 5, i 2 0 4])"
    by (simp add: take_batch_def i_def pick_better_def better_def coalesce_def)
  have dist: "distinct (map qi_ref [i 0 0 5, i 1 10 6, i 2 0 4])" by (simp add: i_def)
  show ?thesis
    unfolding Let_def i_def [symmetric] using taken next_batch_is_top_tier [OF dist taken] by blast
qed

end
