(* ===== verification/Bridge_Updates.thy ===== *)
theory Bridge_Updates
  imports Bridge_State
begin

text \<open>
  The translation of the agent's session updates into AG-UI events, \<^verbatim>\<open>handleUpdate\<close> of
  \<^verbatim>\<open>bridge.ts\<close>, one definition per case of its switch, and what the event stream looks like
  however the agent orders its updates: messages properly bracketed, arguments shown once.
\<close>

subsection \<open>Updates\<close>

datatype session_update =
    AgentMessageChunk content_block
  | AgentThoughtChunk content_block
  | ToolCall tool_call_id string "json option"
  | ToolCallUpdate tool_call_id string "json option" "json option" "json option"
  | Plan "json list"
  | ContextUsage nat nat

text \<open>Whether a \<^verbatim>\<open>rawInput\<close> says anything: absent, null and empty objects and arrays do not.\<close>

fun useful_input :: "json option \<Rightarrow> bool" where
  "useful_input None = False"
| "useful_input (Some JNull) = False"
| "useful_input (Some (JObj kvs)) = (kvs \<noteq> [])"
| "useful_input (Some (JArr xs)) = (xs \<noteq> [])"
| "useful_input (Some _) = True"

definition emitArgsOnce :: "bridge_deps \<Rightarrow> tool_call_id \<Rightarrow> json option \<Rightarrow> bridge \<Rightarrow> bridge" where
  "emitArgsOnce d toolCallId rawInput b =
     (case b_run b of
        None \<Rightarrow> b
      | Some st \<Rightarrow>
          if toolCallId \<in> set (rs_argsEmitted st) then b
          else if \<not> useful_input rawInput then b
          else emit d (TOOL_CALL_ARGS toolCallId (stringify (the rawInput)))
                 (upd_run (\<lambda>st. st\<lparr>rs_argsEmitted := toolCallId # rs_argsEmitted st\<rparr>) b))"

subsection \<open>The cases of handleUpdate\<close>

definition on_message_chunk :: "bridge_deps \<Rightarrow> content_block \<Rightarrow> bridge \<Rightarrow> bridge" where
  "on_message_chunk d content b0 =
     (let b1 = closeOpenReasoning d b0;
          (ex, text, title) = push (b_extractor b1) (blockText content);
          b2 = b1\<lparr>b_extractor := ex\<rparr>;
          b3 = (case title of None \<Rightarrow> b2 | Some t \<Rightarrow> emitTitle t b2)
      in if text = [] then b3
         else
           let (m, b4) =
                 (case Option.bind (b_run b3) rs_openText of
                    Some m \<Rightarrow> (m, b3)
                  | None \<Rightarrow>
                      let (m, b') = nextId d ''msg'' b3
                      in (m, emit d (TEXT_MESSAGE_START m RoleAssistant)
                               (upd_run (\<lambda>st. st\<lparr>rs_openText := Some m\<rparr>) b')))
           in upd_run (\<lambda>st. st\<lparr>rs_lastText := rs_lastText st @ text\<rparr>) (emit d (TEXT_MESSAGE_CONTENT m text) b4))"

definition on_thought_chunk :: "bridge_deps \<Rightarrow> content_block \<Rightarrow> bridge \<Rightarrow> bridge" where
  "on_thought_chunk d content b0 =
     (let b1 = closeOpenText d b0;
          (m, b2) =
            (case Option.bind (b_run b1) rs_openReasoning of
               Some m \<Rightarrow> (m, b1)
             | None \<Rightarrow>
                 let (m, b') = nextId d ''reason'' b1
                 in (m, emit d (REASONING_MESSAGE_START m)
                          (emit d (REASONING_START m) (upd_run (\<lambda>st. st\<lparr>rs_openReasoning := Some m\<rparr>) b'))))
      in emit d (REASONING_MESSAGE_CONTENT m (blockText content)) b2)"

definition on_plan :: "bridge_deps \<Rightarrow> json list \<Rightarrow> bridge \<Rightarrow> bridge" where
  "on_plan d entries b0 =
     (let (mid, b1) = nextId d ''reason'' (closeOpenText d b0);
          b2 = emit d (REASONING_MESSAGE_START mid) (emit d (REASONING_START mid) b1);
          b3 = emit d (REASONING_MESSAGE_CONTENT mid (stringify (JArr entries))) b2
      in emit d (REASONING_END mid) (emit d (REASONING_MESSAGE_END mid) b3))"

definition on_tool_call :: "bridge_deps \<Rightarrow> tool_call_id \<Rightarrow> string \<Rightarrow> json option \<Rightarrow> bridge \<Rightarrow> bridge" where
  "on_tool_call d toolCallId title rawInput b0 =
     (let b1 = emit d (TOOL_CALL_START toolCallId title) (closeOpenReasoning d (closeOpenText d b0));
          b2 = upd_run (\<lambda>st. st\<lparr>rs_toolInfo := (rs_toolInfo st)(toolCallId \<mapsto> ToolInfo title rawInput)\<rparr>) b1;
          b3 = emit d (TOOL_CALL_END toolCallId) (emitArgsOnce d toolCallId rawInput b2);
          (m, b4) = nextId d ''msg'' b3
      in upd_run (\<lambda>st. st\<lparr>rs_toolMessage := (rs_toolMessage st)(toolCallId \<mapsto> m),
                          rs_inFlightTools := Suc (rs_inFlightTools st)\<rparr>) b4)"

text \<open>The command stashed for the first of the handed-off terminals that has one, which it consumes.\<close>

fun consume_command :: "string list \<Rightarrow> (string \<rightharpoonup> string) \<Rightarrow> string option \<times> (string \<rightharpoonup> string)" where
  "consume_command [] cmds = (None, cmds)"
| "consume_command (t # ts) cmds =
     (case cmds t of Some c \<Rightarrow> (Some c, cmds(t := None)) | None \<Rightarrow> consume_command ts cmds)"

definition on_handoff :: "bridge_deps \<Rightarrow> tool_call_id \<Rightarrow> json option \<Rightarrow> bridge \<Rightarrow> bridge" where
  "on_handoff d toolCallId content b =
     (let b1 = upd_run (\<lambda>st. st\<lparr>rs_terminalPending := List.insert toolCallId (rs_terminalPending st)\<rparr>) b
      in case consume_command (handoffTerminalIds content) (b_terminalCommands b1) of
           (None, _) \<Rightarrow> b1
         | (Some cmd, cmds) \<Rightarrow>
             emitArgsOnce d toolCallId (Some (JObj [(''command'', JStr cmd)])) (b1\<lparr>b_terminalCommands := cmds\<rparr>))"

text \<open>One tool call fewer in flight; a deferred interrupt fires when it was the last.\<close>

definition tool_done :: "bridge_deps \<Rightarrow> bridge \<Rightarrow> bridge" where
  "tool_done d b =
     (case b_run b of
        None \<Rightarrow> b
      | Some st \<Rightarrow>
          if rs_inFlightTools st > 0 then
            let n = rs_inFlightTools st - 1;
                b1 = upd_run (\<lambda>st. st\<lparr>rs_inFlightTools := n\<rparr>) b
            in if rs_cancelWhenToolsIdle st \<and> n = 0
               then bridge_cancel d False (upd_run (\<lambda>st. st\<lparr>rs_cancelWhenToolsIdle := False\<rparr>) b1)
               else b1
          else b)"

fun result_text :: "json option \<Rightarrow> string" where
  "result_text None = stringify (JStr [])"
| "result_text (Some JNull) = stringify (JStr [])"
| "result_text (Some (JStr s)) = s"
| "result_text (Some j) = stringify j"

definition on_finish :: "bridge_deps \<Rightarrow> tool_call_id \<Rightarrow> json option \<Rightarrow> tool_info option \<Rightarrow> bridge \<Rightarrow> bridge" where
  "on_finish d toolCallId resultContent info b =
     (let b1 = upd_run (\<lambda>st. st\<lparr>rs_terminalPending := removeAll toolCallId (rs_terminalPending st)\<rparr>) b;
          b2 = tool_done d b1;
          (m, b3) =
            (case Option.bind (b_run b2) (\<lambda>st. rs_toolMessage st toolCallId) of
               Some m \<Rightarrow> (m, b2)
             | None \<Rightarrow> nextId d ''msg'' b2);
          b4 = emit d (TOOL_CALL_RESULT toolCallId m (result_text resultContent)) b3
      in case (info, b_run b4) of
           (Some i, Some st) \<Rightarrow>
             if d_hooks d \<and> b_providerKind b4 = Some Goose then
               let k = b_hookCount b4
               in upd_run (\<lambda>st. st\<lparr>rs_pendingHooks := rs_pendingHooks st @ [k]\<rparr>)
                    (b4\<lparr>b_hookCalls := b_hookCalls b4 @ [(k, ti_name i, rs_runId st)], b_hookCount := Suc k\<rparr>)
             else b4
         | _ \<Rightarrow> b4)"

definition on_tool_call_update ::
  "bridge_deps \<Rightarrow> tool_call_id \<Rightarrow> string \<Rightarrow> json option \<Rightarrow> json option \<Rightarrow> json option \<Rightarrow> bridge \<Rightarrow> bridge" where
  "on_tool_call_update d toolCallId status content rawInput rawOutput b0 =
     (let b1 = emitArgsOnce d toolCallId rawInput b0;
          info0 = Option.bind (b_run b1) (\<lambda>st. rs_toolInfo st toolCallId);
          info = map_option (\<lambda>i. if rawInput \<noteq> None \<and> ti_input i = None then ToolInfo (ti_name i) rawInput else i) info0;
          b2 = upd_run (\<lambda>st. st\<lparr>rs_toolInfo := (rs_toolInfo st)(toolCallId := info)\<rparr>) b1;
          resultContent = (if content \<noteq> None then content else rawOutput);
          hasRealContent = (resultContent \<noteq> None \<and> \<not> isTerminalHandoff resultContent)
      in if isTerminalHandoff content then on_handoff d toolCallId content b2
         else
           let terminalWasPending =
                 (case b_run b2 of None \<Rightarrow> False | Some st \<Rightarrow> toolCallId \<in> set (rs_terminalPending st));
               isFinish =
                 hasRealContent \<or> ((status = ''completed'' \<or> status = ''failed'') \<and> terminalWasPending)
           in if \<not> isFinish then b2 else on_finish d toolCallId resultContent info b2)"

fun dispatch_update :: "bridge_deps \<Rightarrow> session_update \<Rightarrow> bridge \<Rightarrow> bridge" where
  "dispatch_update d (AgentMessageChunk c) b = on_message_chunk d c b"
| "dispatch_update d (AgentThoughtChunk c) b = on_thought_chunk d c b"
| "dispatch_update d (Plan es) b = on_plan d es b"
| "dispatch_update d (ToolCall t n i) b = on_tool_call d t n i b"
| "dispatch_update d (ToolCallUpdate t s c i r) b = on_tool_call_update d t s c i r b"
| "dispatch_update d (ContextUsage u w) b = emit d (CONTEXT_USAGE u w) b"

definition handleUpdate :: "bridge_deps \<Rightarrow> session_update \<Rightarrow> bridge \<Rightarrow> bridge" where
  "handleUpdate d u b =
     (case b_run b of
        None \<Rightarrow> b
      | Some st \<Rightarrow> if rs_ended st then b else dispatch_update d u (noteActivity b))"

text \<open>
  The subscription of \<^verbatim>\<open>readyProvider\<close>: an update of another session is dropped. (With no
  current run there is nothing to update.)
\<close>

definition on_session_update :: "bridge_deps \<Rightarrow> string \<Rightarrow> session_update \<Rightarrow> bridge \<Rightarrow> bridge" where
  "on_session_update d sid u b =
     (if sid \<noteq> [] \<and> truthy (b_acpSession b) \<and> Some sid \<noteq> b_acpSession b then b else handleUpdate d u b)"

definition on_terminal_created :: "string \<Rightarrow> string \<Rightarrow> string list \<Rightarrow> bridge \<Rightarrow> bridge" where
  "on_terminal_created terminalId command args b =
     b\<lparr>b_terminalCommands := (b_terminalCommands b)(terminalId \<mapsto> formatCommand command args)\<rparr>"

subsection \<open>The shape of the stream\<close>

text \<open>
  A reader of the broadcast events: the open text message, the open reasoning messages, innermost
  first, and whether everything so far was in order. A text message starts when nothing is open, its
  content and end are of the open message; reasoning starts when no text is open and at most one
  reasoning message is, and its contents and end are of the innermost one; a tool call starts when
  nothing is open.
\<close>

type_synonym scan_state = "message_id option \<times> message_id list \<times> bool"

fun stream_scan :: "scan_state \<Rightarrow> agui_base \<Rightarrow> scan_state" where
  "stream_scan (t, rs, ok) (TEXT_MESSAGE_START m _) = (Some m, rs, ok \<and> t = None \<and> rs = [])"
| "stream_scan (t, rs, ok) (TEXT_MESSAGE_CONTENT m _) = (t, rs, ok \<and> t = Some m)"
| "stream_scan (t, rs, ok) (TEXT_MESSAGE_END m) = (None, rs, ok \<and> t = Some m)"
| "stream_scan (t, rs, ok) (REASONING_START m) = (t, m # rs, ok \<and> t = None \<and> length rs \<le> 1)"
| "stream_scan (t, rs, ok) (REASONING_MESSAGE_START m) = (t, rs, ok \<and> take 1 rs = [m])"
| "stream_scan (t, rs, ok) (REASONING_MESSAGE_CONTENT m _) = (t, rs, ok \<and> take 1 rs = [m])"
| "stream_scan (t, rs, ok) (REASONING_MESSAGE_END m) = (t, rs, ok \<and> take 1 rs = [m])"
| "stream_scan (t, rs, ok) (REASONING_END m) = (t, drop 1 rs, ok \<and> take 1 rs = [m])"
| "stream_scan (t, rs, ok) (TOOL_CALL_START _ _) = (t, rs, ok \<and> t = None \<and> rs = [])"
| "stream_scan s _ = s"

definition stream_state :: "agui_event list \<Rightarrow> scan_state" where
  "stream_state es = foldl stream_scan (None, [], True) (map ev_base es)"

definition opt_list :: "'a option \<Rightarrow> 'a list" where
  "opt_list x = (case x of None \<Rightarrow> [] | Some y \<Rightarrow> [y])"

text \<open>The reader's view is the run's own: what the run takes to be open is what is open.\<close>

definition stream_agrees :: "bridge \<Rightarrow> bool" where
  "stream_agrees b =
     (case b_run b of
        None \<Rightarrow> False
      | Some st \<Rightarrow> stream_state (b_out b) = (rs_openText st, opt_list (rs_openReasoning st), True))"

text \<open>How often the arguments of a call were shown.\<close>

definition args_shown :: "tool_call_id \<Rightarrow> agui_event list \<Rightarrow> nat" where
  "args_shown t es =
     length (filter (\<lambda>e. case ev_base e of TOOL_CALL_ARGS t' _ \<Rightarrow> t' = t | _ \<Rightarrow> False) es)"

lemma stream_state_emit:
  "stream_state (b_out (emit d base b)) = stream_scan (stream_state (b_out b)) base"
proof -
  have "stream_scan s (ev_base (stamp d b (ev base))) = stream_scan s base" for s
    by (cases base) (auto simp: ev_base_stamp split: option.split)
  then show ?thesis by (simp add: b_out_emit stream_state_def)
qed

lemma args_shown_emit:
  "args_shown t (b_out (emit d base b)) =
     args_shown t (b_out b) + (case base of TOOL_CALL_ARGS t' _ \<Rightarrow> if t' = t then 1 else 0 | _ \<Rightarrow> 0)"
  by (cases base) (auto simp: b_out_emit args_shown_def ev_base_stamp split: option.split)

text \<open>
  The invariant of the translation: the reader agrees with the run, and the arguments shown are
  those of the calls noted in \<^verbatim>\<open>argsEmitted\<close>, once each, on top of what was shown before the run.
\<close>

definition stream_inv :: "(tool_call_id \<Rightarrow> nat) \<Rightarrow> bridge \<Rightarrow> bool" where
  "stream_inv before b =
     (case b_run b of
        None \<Rightarrow> False
      | Some st \<Rightarrow>
          stream_state (b_out b) = (rs_openText st, opt_list (rs_openReasoning st), True)
          \<and> (\<forall>t. args_shown t (b_out b) = before t + (if t \<in> set (rs_argsEmitted st) then 1 else 0)))"

text \<open>Neither the events of a neutral kind nor updates of other fields of the run disturb it.\<close>

lemma stream_inv_upd:
  assumes "\<And>st. rs_openText (f st) = rs_openText st" and "\<And>st. rs_openReasoning (f st) = rs_openReasoning st"
    and "\<And>st. rs_argsEmitted (f st) = rs_argsEmitted st"
  shows "stream_inv before (upd_run f b) = stream_inv before b"
  using assms by (auto simp: stream_inv_def split: option.splits)

lemma stream_inv_cong:
  "b_run b' = b_run b \<Longrightarrow> b_out b' = b_out b \<Longrightarrow> stream_inv before b' = stream_inv before b"
  by (simp add: stream_inv_def split: option.split)

lemma stream_inv_fields [simp]:
  "stream_inv before (b\<lparr>b_uuids := n\<rparr>) = stream_inv before b"
  "stream_inv before (b\<lparr>b_terminalCommands := cmds\<rparr>) = stream_inv before b"
  "stream_inv before (b\<lparr>b_hookCalls := hs, b_hookCount := n\<rparr>) = stream_inv before b"
  by (rule stream_inv_cong; simp)+

lemma stream_inv_emit:
  "stream_inv before b \<Longrightarrow> stream_inv before (emit d (TOOL_CALL_END t) b)"
  "stream_inv before b \<Longrightarrow> stream_inv before (emit d (TOOL_CALL_RESULT t m r) b)"
  "stream_inv before b \<Longrightarrow> stream_inv before (emit d (CONTEXT_USAGE u w) b)"
  by (auto simp: stream_inv_def stream_state_emit args_shown_emit split: option.splits)

lemma stream_inv_closeOpenText:
  "stream_inv before b \<Longrightarrow>
    stream_inv before (closeOpenText d b) \<and> Option.bind (b_run (closeOpenText d b)) rs_openText = None
    \<and> Option.bind (b_run (closeOpenText d b)) rs_openReasoning = Option.bind (b_run b) rs_openReasoning"
  by (auto simp: stream_inv_def closeOpenText_def stream_state_emit args_shown_emit split: option.splits)

lemma stream_inv_closeOpenReasoning:
  "stream_inv before b \<Longrightarrow>
    stream_inv before (closeOpenReasoning d b) \<and> Option.bind (b_run (closeOpenReasoning d b)) rs_openReasoning = None
    \<and> Option.bind (b_run (closeOpenReasoning d b)) rs_openText = Option.bind (b_run b) rs_openText"
  by (auto simp: stream_inv_def closeOpenReasoning_def stream_state_emit args_shown_emit opt_list_def
      split: option.splits)

lemma stream_inv_emitArgsOnce: "stream_inv before b \<Longrightarrow> stream_inv before (emitArgsOnce d t i b)"
  by (auto simp: stream_inv_def emitArgsOnce_def stream_state_emit args_shown_emit split: option.splits)

lemma stream_inv_cancel: "stream_inv before b \<Longrightarrow> stream_inv before (bridge_cancel d False b)"
  by (auto simp: stream_inv_def bridge_cancel_def Let_def split: option.splits)

lemma stream_inv_noteActivity: "stream_inv before b \<Longrightarrow> stream_inv before (noteActivity b)"
  by (auto simp: stream_inv_def noteActivity_def split: option.splits)

lemma stream_inv_emitTitle: "stream_inv before (emitTitle t b) = stream_inv before b"
  by (auto simp: stream_inv_def emitTitle_def split: option.splits)

text \<open>The cases of the switch.\<close>

lemma stream_inv_show_text:
  assumes "stream_inv before b" and "Option.bind (b_run b) rs_openReasoning = None"
  shows "stream_inv before
           (let (m, b4) =
                  (case Option.bind (b_run b) rs_openText of
                     Some m \<Rightarrow> (m, b)
                   | None \<Rightarrow>
                       let (m, b') = nextId d ''msg'' b
                       in (m, emit d (TEXT_MESSAGE_START m RoleAssistant)
                                (upd_run (\<lambda>st. st\<lparr>rs_openText := Some m\<rparr>) b')))
            in upd_run (\<lambda>st. st\<lparr>rs_lastText := rs_lastText st @ shown\<rparr>) (emit d (TEXT_MESSAGE_CONTENT m shown) b4))"
  using assms
  by (auto simp: nextId_def stream_inv_def stream_state_emit args_shown_emit opt_list_def split: option.splits)

lemma stream_inv_on_message_chunk:
  assumes "stream_inv before b"
  shows "stream_inv before (on_message_chunk d c b)"
proof -
  define b1 where "b1 = closeOpenReasoning d b"
  obtain ex shown title where push: "push (b_extractor b1) (blockText c) = (ex, shown, title)"
    by (metis prod_cases3)
  define b3 where "b3 = (case title of None \<Rightarrow> b1\<lparr>b_extractor := ex\<rparr> | Some t \<Rightarrow> emitTitle t (b1\<lparr>b_extractor := ex\<rparr>))"
  have same: "b_run b3 = b_run b1" "b_out b3 = b_out b1" unfolding b3_def by (auto split: option.splits)
  have inv3: "stream_inv before b3" "Option.bind (b_run b3) rs_openReasoning = None"
    using stream_inv_closeOpenReasoning [OF assms, of d] same stream_inv_cong [OF same, of before]
    by (auto simp: b1_def)
  have "on_message_chunk d c b = (if shown = [] then b3 else
           (let (m, b4) =
                  (case Option.bind (b_run b3) rs_openText of
                     Some m \<Rightarrow> (m, b3)
                   | None \<Rightarrow>
                       let (m, b') = nextId d ''msg'' b3
                       in (m, emit d (TEXT_MESSAGE_START m RoleAssistant)
                                (upd_run (\<lambda>st. st\<lparr>rs_openText := Some m\<rparr>) b')))
            in upd_run (\<lambda>st. st\<lparr>rs_lastText := rs_lastText st @ shown\<rparr>) (emit d (TEXT_MESSAGE_CONTENT m shown) b4)))"
    using push unfolding on_message_chunk_def b1_def [symmetric] b3_def by (simp add: Let_def)
  then show ?thesis using inv3 stream_inv_show_text [OF inv3, of d shown] by presburger
qed

lemma stream_inv_on_thought_chunk:
  assumes "stream_inv before b"
  shows "stream_inv before (on_thought_chunk d c b)"
proof -
  define b1 where "b1 = closeOpenText d b"
  have "stream_inv before b1" "Option.bind (b_run b1) rs_openText = None"
    using stream_inv_closeOpenText [OF assms, of d] by (auto simp: b1_def)
  then show ?thesis
    unfolding on_thought_chunk_def b1_def [symmetric]
    by (auto simp: nextId_def stream_inv_def stream_state_emit args_shown_emit opt_list_def Let_def
        split: option.splits)
qed

lemma stream_inv_on_plan:
  assumes "stream_inv before b"
  shows "stream_inv before (on_plan d es b)"
proof -
  define b1 where "b1 = closeOpenText d b"
  have "stream_inv before b1" "Option.bind (b_run b1) rs_openText = None"
    using stream_inv_closeOpenText [OF assms, of d] by (auto simp: b1_def)
  then show ?thesis
    unfolding on_plan_def b1_def [symmetric]
    by (auto simp: nextId_def stream_inv_def stream_state_emit args_shown_emit opt_list_def Let_def split: option.splits)
qed

lemma stream_inv_nextId: "stream_inv before (snd (nextId d p b)) = stream_inv before b"
  by (rule stream_inv_cong) (simp_all add: nextId_def)

lemma stream_inv_on_tool_call:
  assumes "stream_inv before b"
  shows "stream_inv before (on_tool_call d t n i b)"
proof -
  define b1 where "b1 = closeOpenReasoning d (closeOpenText d b)"
  have b1: "stream_inv before b1" "Option.bind (b_run b1) rs_openText = None"
      "Option.bind (b_run b1) rs_openReasoning = None"
    using stream_inv_closeOpenText [OF assms, of d] stream_inv_closeOpenReasoning [of before "closeOpenText d b" d]
    by (auto simp: b1_def)
  then have "stream_inv before (emit d (TOOL_CALL_START t n) b1)"
    by (auto simp: stream_inv_def stream_state_emit args_shown_emit opt_list_def split: option.splits)
  then show ?thesis
    unfolding on_tool_call_def b1_def [symmetric] Let_def nextId_def
    by (auto simp: stream_inv_upd intro!: stream_inv_emitArgsOnce stream_inv_emit)
qed

lemma stream_inv_on_handoff: "stream_inv before b \<Longrightarrow> stream_inv before (on_handoff d t c b)"
  unfolding on_handoff_def Let_def
  by (auto simp: stream_inv_upd intro!: stream_inv_emitArgsOnce split: prod.splits option.splits)

lemma stream_inv_tool_done: "stream_inv before b \<Longrightarrow> stream_inv before (tool_done d b)"
  unfolding tool_done_def Let_def
  by (auto simp: stream_inv_upd intro!: stream_inv_cancel split: option.splits)

lemma stream_inv_on_finish:
  assumes "stream_inv before b"
  shows "stream_inv before (on_finish d t r info b)"
proof -
  define b2 where
    "b2 = tool_done d (upd_run (\<lambda>st. st\<lparr>rs_terminalPending := removeAll t (rs_terminalPending st)\<rparr>) b)"
  have b2: "stream_inv before b2"
    using assms unfolding b2_def by (intro stream_inv_tool_done) (simp add: stream_inv_upd)
  obtain m b3 where b3: "(case Option.bind (b_run b2) (\<lambda>st. rs_toolMessage st t) of
      Some m \<Rightarrow> (m, b2) | None \<Rightarrow> nextId d ''msg'' b2) = (m, b3)" by (metis surj_pair)
  then have "stream_inv before b3" using b2 by (auto simp: nextId_def split: option.splits)
  then have "stream_inv before (emit d (TOOL_CALL_RESULT t m (result_text r)) b3)" by (rule stream_inv_emit)
  then show ?thesis
    unfolding on_finish_def b2_def [symmetric] Let_def b3
    by (auto simp: stream_inv_upd split: option.splits)
qed

lemma stream_inv_on_tool_call_update:
  assumes "stream_inv before b"
  shows "stream_inv before (on_tool_call_update d t s c i r b)"
proof -
  have "stream_inv before (upd_run (\<lambda>st. st\<lparr>rs_toolInfo := (rs_toolInfo st)(t := info)\<rparr>) (emitArgsOnce d t i b))"
    for info
    using stream_inv_emitArgsOnce [OF assms] by (simp add: stream_inv_upd)
  then show ?thesis
    unfolding on_tool_call_update_def Let_def
    by (simp add: stream_inv_on_handoff stream_inv_on_finish)
qed

lemmas stream_inv_cases =
  stream_inv_on_message_chunk stream_inv_on_thought_chunk stream_inv_on_plan stream_inv_on_tool_call
  stream_inv_on_tool_call_update stream_inv_emit

lemma stream_inv_handleUpdate: "stream_inv before b \<Longrightarrow> stream_inv before (handleUpdate d u b)"
  by (cases u) (auto simp: handleUpdate_def stream_inv_cases stream_inv_noteActivity split: option.split)

lemma stream_inv_on_session_update: "stream_inv before b \<Longrightarrow> stream_inv before (on_session_update d sid u b)"
  by (simp add: on_session_update_def stream_inv_handleUpdate)

text \<open>The updates an agent sends in a turn, in the order they arrive.\<close>

definition on_session_updates :: "bridge_deps \<Rightarrow> (string \<times> session_update) list \<Rightarrow> bridge \<Rightarrow> bridge" where
  "on_session_updates d us b = foldl (\<lambda>b (sid, u). on_session_update d sid u b) b us"

lemma stream_inv_updates: "stream_inv before b \<Longrightarrow> stream_inv before (on_session_updates d us b)"
  by (induction us arbitrary: b) (auto simp: on_session_updates_def stream_inv_on_session_update)

text \<open>
  C13 (invariant). Whatever updates an agent sends, in whatever order and from whatever sessions,
  the stream stays well formed: beginning with nothing open, no text message starts before the one
  before it ended, contents and ends are of the message open innermost, text and reasoning do not
  overlap and a tool call starts when neither is open. Reasoning opens within reasoning only in passing: after each update at most one
  reasoning message is open, so the one that a plan nests in an open thought is closed by the same
  update. The arguments of a tool call are shown at most once in the run, and closing what is open, as the
  end of every run does, leaves nothing open.
\<close>

theorem updates_well_bracketed:
  assumes "b_run b = Some st" and "rs_openText st = None" and "rs_openReasoning st = None"
    and "rs_argsEmitted st = []" and "stream_state (b_out b) = (None, [], True)"
  shows "stream_state (b_out (closeOpenReasoning d (closeOpenText d (on_session_updates d us b)))) = (None, [], True)
    \<and> snd (snd (stream_state (b_out (on_session_updates d us b))))
    \<and> length (fst (snd (stream_state (b_out (on_session_updates d us b))))) \<le> 1
    \<and> args_shown t (b_out (on_session_updates d us b)) \<le> args_shown t (b_out b) + 1"
proof -
  define before where "before t = args_shown t (b_out b)" for t
  have inv: "stream_inv before (on_session_updates d us b)"
    using assms by (intro stream_inv_updates) (simp add: stream_inv_def opt_list_def before_def)
  define b1 where "b1 = closeOpenText d (on_session_updates d us b)"
  have b1: "stream_inv before b1" "Option.bind (b_run b1) rs_openText = None"
    using stream_inv_closeOpenText [OF inv, of d] by (auto simp: b1_def)
  then have "stream_inv before (closeOpenReasoning d b1)"
      "Option.bind (b_run (closeOpenReasoning d b1)) rs_openReasoning = None"
      "Option.bind (b_run (closeOpenReasoning d b1)) rs_openText = None"
    using stream_inv_closeOpenReasoning [OF b1(1), of d] by auto
  then have "stream_state (b_out (closeOpenReasoning d b1)) = (None, [], True)"
    by (auto simp: stream_inv_def opt_list_def split: option.splits)
  with inv show ?thesis
    unfolding b1_def by (auto simp: stream_inv_def before_def opt_list_def split: option.splits)
qed

text \<open>A run that thinks, speaks, calls a tool and sends its arguments twice.\<close>

theorem updates_well_bracketed_witness:
  "let d = default_deps ''t1'' (\<lambda>n. replicate n (CHR ''u''));
       input = \<lparr>in_threadId = ''t1'', in_text = ''hi'', in_images = [], in_files = [], in_source = None,
                in_humanInitiated = None\<rparr>;
       b = createSessionBridge\<lparr>b_run := Some (fresh_run ''run-1'' input 0)\<rparr>;
       us = [(''s'', AgentThoughtChunk (TextBlock ''hm'')), (''s'', AgentMessageChunk (TextBlock ''ok'')),
             (''s'', ToolCall ''c1'' ''shell'' None),
             (''s'', ToolCallUpdate ''c1'' ''running'' None (Some (JStr ''ls'')) None),
             (''s'', ToolCallUpdate ''c1'' ''completed'' (Some (JStr ''out'')) (Some (JStr ''ls'')) None)]
   in stream_state (b_out (closeOpenReasoning d (closeOpenText d (on_session_updates d us b)))) = (None, [], True)
      \<and> args_shown ''c1'' (b_out (on_session_updates d us b)) \<le> 1"
proof -
  define input where
    "input = \<lparr>in_threadId = ''t1'', in_text = ''hi'', in_images = [], in_files = [], in_source = None,
              in_humanInitiated = None\<rparr>"
  have run: "b_run (createSessionBridge\<lparr>b_run := Some (fresh_run ''run-1'' input 0)\<rparr>)
      = Some (fresh_run ''run-1'' input 0)" by simp
  have none: "stream_state (b_out (createSessionBridge\<lparr>b_run := Some (fresh_run ''run-1'' input 0)\<rparr>))
      = (None, [], True)" "args_shown t (b_out (createSessionBridge\<lparr>b_run := Some (fresh_run ''run-1'' input 0)\<rparr>)) = 0"
    for t
    by (simp_all add: createSessionBridge_def stream_state_def args_shown_def)
  show ?thesis
    unfolding Let_def input_def [symmetric]
    using updates_well_bracketed [OF run _ _ _ none(1)] none(2)
    by (metis (no_types, lifting) add_0 fresh_run_def run_state.select_convs(3) run_state.select_convs(4)
        run_state.select_convs(6))
qed

text \<open>
  A plan that arrives while the agent thinks: its reasoning message is opened inside the thought's,
  which the message before it was not closed for.
\<close>

lemma plan_nests_in_thought:
  assumes "b_run b = Some st" and "rs_openText st = None" and "rs_openReasoning st = Some r"
  shows "\<exists>m t. map ev_base (drop (length (b_out b)) (b_out (on_plan d es b))) =
      [REASONING_START m, REASONING_MESSAGE_START m, REASONING_MESSAGE_CONTENT m t, REASONING_MESSAGE_END m, REASONING_END m]
    \<and> map_option rs_openReasoning (b_run (on_plan d es b)) = Some (Some r)"
  using assms by (auto simp: on_plan_def closeOpenText_def nextId_def emit_def stamp_def Let_def)

end
