(* ===== verification/Bridge_Permissions.thy ===== *)
theory Bridge_Permissions
  imports Bridge_State
begin

text \<open>
  Permission and option requests of \<^verbatim>\<open>bridge.ts\<close>: the handler an agent's request runs, the
  user's answer, interrupts raised from outside, and the settling of requests whose session is
  gone. The handler is in two parts, before and after its await: the request is emitted as an
  interrupt and registered; when its promise is resolved the rest runs at once.
\<close>

subsection \<open>Requests\<close>

record permission_option =
  po_optionId :: string
  po_name :: string
  po_kind :: string

record permission_request =
  pr_toolCallId :: tool_call_id
  pr_title :: "string option"
  pr_options :: "permission_option list"
  pr_request :: "interrupt_request option"

definition option_obj :: "permission_option \<Rightarrow> json" where
  "option_obj o' = JObj [(''optionId'', JStr (po_optionId o')), (''name'', JStr (po_name o')), (''kind'', JStr (po_kind o'))]"

definition options_field :: "permission_option list \<Rightarrow> string \<times> json" where
  "options_field os = (''options'', JArr (map option_obj os))"

text \<open>The handler up to its await.\<close>

definition onPermissionRequest :: "bridge_deps \<Rightarrow> permission_request \<Rightarrow> bridge \<Rightarrow> bridge" where
  "onPermissionRequest d req b =
     (let run = map_option (\<lambda>st. (rs_threadId st, rs_runId st)) (b_run b);
          b1 = (if run \<noteq> None then closeOpenReasoning d (closeOpenText d (noteActivity b)) else b);
          request = boundedRequest (pr_request req);
          b2 = b1\<lparr>b_pending := AList.update (pr_toolCallId req)
                    \<lparr>p_run = run, p_validOptions = map po_optionId (pr_options req), p_external = False,
                     p_abandoned = False\<rparr> (b_pending b1)\<rparr>;
          meta = options_field (pr_options req)
                 # (case request of
                      None \<Rightarrow> []
                    | Some r \<Rightarrow> (''kind'', JStr (req_kind r)) # opt_field ''data'' (\<lambda>j. j) (req_data r))
      in emit d (RUN_FINISHED
            (case run of Some (t, _) \<Rightarrow> t | None \<Rightarrow> d_conversationId d)
            (case run of Some (_, r) \<Rightarrow> r | None \<Rightarrow> ''run'')
            None
            (Some (OutcomeInterrupt
               [AguiInterrupt (pr_toolCallId req) ''confirmation''
                  (Some (case pr_title req of Some t \<Rightarrow> t | None \<Rightarrow> ''The agent needs your choice''))
                  (Some (pr_toolCallId req)) (Some meta)]))
            None None) b2)"

text \<open>\<^verbatim>\<open>run.ended = false\<close> on the captured run, which matters only while it is the current one.\<close>

definition reopen_run :: "run_id \<Rightarrow> bridge \<Rightarrow> bridge" where
  "reopen_run r b = upd_run (\<lambda>st. if rs_runId st = r then st\<lparr>rs_ended := False\<rparr> else st) b"

text \<open>The handler after its await.\<close>

definition permission_resumes ::
  "bridge_deps \<Rightarrow> tool_call_id \<Rightarrow> (thread_id \<times> run_id) option \<Rightarrow> string option \<Rightarrow> (string \<times> json) list option
     \<Rightarrow> bridge \<Rightarrow> bridge" where
  "permission_resumes d toolCallId run optionId result b =
     (let abandoned = (case map_of (b_pending b) toolCallId of Some p \<Rightarrow> p_abandoned p | None \<Rightarrow> False);
          b1 = persist d (PERMISSION_RESOLVED toolCallId optionId)
                 (b\<lparr>b_pending := AList.delete toolCallId (b_pending b)\<rparr>);
          b2 = (case run of
                  Some (t, r) \<Rightarrow>
                    if abandoned then b1 else reopen_run r (emit d (RUN_STARTED t r None None) b1)
                | None \<Rightarrow> b1)
      in b2\<lparr>b_answers := b_answers b2 @
              [(toolCallId, if truthy optionId then AnswerOption (the optionId) result else AnswerCancelled)]\<rparr>)"

definition answerPermission ::
  "bridge_deps \<Rightarrow> tool_call_id \<Rightarrow> string \<Rightarrow> approver_identity option \<Rightarrow> (string \<times> json) list option
     \<Rightarrow> bridge \<Rightarrow> bool \<times> bridge" where
  "answerPermission d toolCallId optionId approver result b =
     (case map_of (b_pending b) toolCallId of
        None \<Rightarrow> (False, b)
      | Some p \<Rightarrow>
          let chosen = (if optionId \<in> set (p_validOptions p) then Some optionId else None)
          in if p_external p then
               let b1 = persist d (PERMISSION_RESOLVED toolCallId chosen)
                          (b\<lparr>b_pending := AList.delete toolCallId (b_pending b)\<rparr>)
               in (True, b1\<lparr>b_external := b_external b1 @ [(toolCallId, chosen, approver)]\<rparr>)
             else
               (True, permission_resumes d toolCallId (p_run p) chosen (if truthy chosen then result else None) b))"

definition raiseInterrupt ::
  "bridge_deps \<Rightarrow> string \<Rightarrow> string \<Rightarrow> permission_option list \<Rightarrow> (string \<times> json) list \<Rightarrow> bridge \<Rightarrow> bridge" where
  "raiseInterrupt d i message options metadata b =
     emit d (RUN_FINISHED (d_conversationId d) (''ext-'' @ i) None
         (Some (OutcomeInterrupt
            [AguiInterrupt i ''confirmation'' (Some message) None
               (Some (AList.update (fst (options_field options)) (snd (options_field options)) metadata))])) None None)
       (b\<lparr>b_pending := AList.update i
            \<lparr>p_run = None, p_validOptions = map po_optionId options, p_external = True, p_abandoned = False\<rparr>
            (b_pending b)\<rparr>)"

subsection \<open>Sessions that are gone\<close>

definition abandon_one :: "bridge_deps \<Rightarrow> bridge \<Rightarrow> tool_call_id \<times> pending \<Rightarrow> bridge" where
  "abandon_one d b entry =
     permission_resumes d (fst entry) (p_run (snd entry)) None None
       (b\<lparr>b_pending := AList.update (fst entry) ((snd entry)\<lparr>p_abandoned := True\<rparr>) (b_pending b)\<rparr>)"

definition abandonAgentPermissions :: "bridge_deps \<Rightarrow> bridge \<Rightarrow> bridge" where
  "abandonAgentPermissions d b =
     foldl (abandon_one d) b (filter (\<lambda>(_, p). \<not> p_external p \<and> \<not> p_abandoned p) (b_pending b))"

definition dropCachedSession :: "bridge_deps \<Rightarrow> bridge \<Rightarrow> bridge" where
  "dropCachedSession d b =
     (let b1 = abandonAgentPermissions d b
      in if b_providerId b1 = [] then b1
         else b1\<lparr>b_sessions := AList.delete (b_providerId b1) (b_sessions b1)\<rparr>)"

subsection \<open>Properties\<close>

definition resolutions :: "tool_call_id \<Rightarrow> agui_event list \<Rightarrow> string option list" where
  "resolutions t es =
     List.map_filter (\<lambda>e. case ev_base e of PERMISSION_RESOLVED t' x \<Rightarrow> if t' = t then Some x else None | _ \<Rightarrow> None) es"

lemma resolutions_append [simp]: "resolutions t (xs @ ys) = resolutions t xs @ resolutions t ys"
  by (simp add: resolutions_def List.map_filter_def)

lemma resolutions_one:
  "resolutions t [stamp d b (ev base)] = (case base of PERMISSION_RESOLVED t' x \<Rightarrow> if t' = t then [x] else [] | _ \<Rightarrow> [])"
  by (cases base) (auto simp: resolutions_def List.map_filter_simps ev_base_stamp split: option.split)

lemma resolutions_emit:
  "resolutions t (b_log (emit d base b)) =
     resolutions t (b_log b) @ (case base of PERMISSION_RESOLVED t' x \<Rightarrow> if t' = t then [x] else [] | _ \<Rightarrow> [])"
  "resolutions t (b_log (persist d base b)) =
     resolutions t (b_log b) @ (case base of PERMISSION_RESOLVED t' x \<Rightarrow> if t' = t then [x] else [] | _ \<Rightarrow> [])"
  by (simp_all only: b_log_emit b_log_persist resolutions_append resolutions_one)

lemma permission_resumes_pending:
  "b_pending (permission_resumes d t run x r b) = AList.delete t (b_pending b)"
  by (simp add: permission_resumes_def Let_def reopen_run_def split: option.split)

lemma permission_resumes_answers:
  "b_answers (permission_resumes d t run x r b) =
     b_answers b @ [(t, if truthy x then AnswerOption (the x) r else AnswerCancelled)]"
  by (simp add: permission_resumes_def Let_def reopen_run_def split: option.split)

lemma permission_resumes_external: "b_external (permission_resumes d t run x r b) = b_external b"
  by (simp add: permission_resumes_def Let_def reopen_run_def split: option.split)

lemma permission_resumes_resolutions:
  "resolutions t' (b_log (permission_resumes d t run x r b)) = resolutions t' (b_log b) @ (if t' = t then [x] else [])"
  by (auto simp: permission_resumes_def Let_def reopen_run_def resolutions_emit
      split: option.split)

text \<open>
  A pending request is answered exactly once and only with what it offered: the
  answer is accepted, the request is no longer pending, exactly one resolution of it is recorded,
  which carries the option if it was offered and nothing otherwise; the asker gets that same choice
  (a cancellation when the option was not offered); and a second answer is refused and changes
  nothing.
\<close>

theorem permission_answered_once:
  assumes "map_of (b_pending b) t = Some p" and "x \<noteq> []"
  shows "fst (answerPermission d t x approver result b)
    \<and> map_of (b_pending (snd (answerPermission d t x approver result b))) t = None
    \<and> resolutions t (b_log (snd (answerPermission d t x approver result b))) =
        resolutions t (b_log b) @ [if x \<in> set (p_validOptions p) then Some x else None]
    \<and> (if p_external p
       then b_external (snd (answerPermission d t x approver result b)) =
              b_external b @ [(t, if x \<in> set (p_validOptions p) then Some x else None, approver)]
       else b_answers (snd (answerPermission d t x approver result b)) =
              b_answers b @ [(t, if x \<in> set (p_validOptions p) then AnswerOption x result else AnswerCancelled)])
    \<and> answerPermission d t y approver' result' (snd (answerPermission d t x approver result b)) =
        (False, snd (answerPermission d t x approver result b))"
proof -
  have gone: "map_of (b_pending (snd (answerPermission d t x approver result b))) t = None"
    using assms(1) by (simp add: answerPermission_def Let_def permission_resumes_pending)
  moreover have "answerPermission d t y approver' result' b' = (False, b')" if "map_of (b_pending b') t = None" for b'
    using that by (simp add: answerPermission_def)
  ultimately show ?thesis
    using assms
    by (simp add: answerPermission_def [of d t x] Let_def permission_resumes_resolutions permission_resumes_answers
        resolutions_emit truthy_def)
qed

theorem permission_answered_once_witness:
  "let d = default_deps ''t1'' (\<lambda>n. replicate n (CHR ''u''));
       req = \<lparr>pr_toolCallId = ''c1'', pr_title = None,
              pr_options = [\<lparr>po_optionId = ''yes'', po_name = ''Allow'', po_kind = ''allow_once''\<rparr>], pr_request = None\<rparr>;
       b = onPermissionRequest d req createSessionBridge
   in fst (answerPermission d ''c1'' ''yes'' None None b)
      \<and> b_answers (snd (answerPermission d ''c1'' ''yes'' None None b)) = [(''c1'', AnswerOption ''yes'' None)]
      \<and> fst (answerPermission d ''c1'' ''yes'' None None (snd (answerPermission d ''c1'' ''yes'' None None b))) = False"
proof -
  define d where "d = default_deps ''t1'' (\<lambda>n. replicate n (CHR ''u''))"
  define b where "b = onPermissionRequest d \<lparr>pr_toolCallId = ''c1'', pr_title = None,
      pr_options = [\<lparr>po_optionId = ''yes'', po_name = ''Allow'', po_kind = ''allow_once''\<rparr>], pr_request = None\<rparr>
      createSessionBridge"
  have pend: "map_of (b_pending b) ''c1'' =
      Some \<lparr>p_run = None, p_validOptions = [''yes''], p_external = False, p_abandoned = False\<rparr>"
    and none: "b_answers b = []"
    by (simp_all add: b_def onPermissionRequest_def createSessionBridge_def Let_def)
  have ne: "''yes'' \<noteq> []" by simp
  show ?thesis
    unfolding Let_def d_def [symmetric] b_def [symmetric]
    using permission_answered_once [OF pend ne, of d None None "''yes''" None None] none by simp
qed

text \<open>
  Abandoning settles every agent request and leaves the external ones: afterwards only external
  requests are pending, each as it was.
\<close>

lemma abandon_fold_pending:
  assumes "distinct (map fst entries)"
  shows "map_of (b_pending (foldl (abandon_one d) b entries)) t =
      (if t \<in> fst ` set entries then None else map_of (b_pending b) t)"
  using assms
proof (induction entries arbitrary: b)
  case Nil
  then show ?case by simp
next
  case (Cons e entries)
  have "map_of (b_pending (abandon_one d b e)) t = (if t = fst e then None else map_of (b_pending b) t)"
    by (simp add: abandon_one_def permission_resumes_pending)
  with Cons show ?case by (auto simp: image_iff)
qed

lemma abandon_leaves_external:
  assumes "distinct (map fst (b_pending b))"
    and "\<And>t p. map_of (b_pending b) t = Some p \<Longrightarrow> \<not> p_abandoned p"
  shows "map_of (b_pending (abandonAgentPermissions d b)) t =
      (case map_of (b_pending b) t of Some p \<Rightarrow> if p_external p then Some p else None | None \<Rightarrow> None)"
proof -
  let ?es = "filter (\<lambda>(_, p). \<not> p_external p \<and> \<not> p_abandoned p) (b_pending b)"
  have dist: "distinct (map fst ?es)" using assms(1) by (rule distinct_map_filter)
  have "t \<in> fst ` set ?es \<longleftrightarrow> (\<exists>p. map_of (b_pending b) t = Some p \<and> \<not> p_external p)"
    using assms by (force simp: map_of_eq_Some_iff)
  then show ?thesis
    using abandon_fold_pending [OF dist, of d b t] by (auto simp: abandonAgentPermissions_def split: option.split)
qed

end
