(* ===== verification/Bridge_Sessions.thy ===== *)
theory Bridge_Sessions
  imports Bridge_Permissions
begin

text \<open>
  The agent sessions of a bridge (\<^verbatim>\<open>bridge.ts\<close>): one ready session per provider, built on first
  use, dropped when its client died or when the servers or skills it was started with changed.
  What the outside answers during a resolution is a \<open>session_env\<close>: whether a client is alive,
  the fingerprints of the servers and skills now (or the error reading them threw), and the
  outcome of creating a client and of opening a session on it.
\<close>

record session_env =
  se_providers :: "acp_provider list"
  se_owner :: "string option"
  se_model :: "string option"
  se_pickedProvider :: "string option"
  se_catalog :: "model_catalog option"
  se_random :: "32 word"
  se_alive :: "nat \<Rightarrow> bool"
  se_resolveMcp :: bool
  se_mcp :: "string + string"
  se_staticMcp :: string
  se_skills :: "string + string"
  se_createClient :: "string + nat"
  se_newSession :: "string option \<Rightarrow> string + string"

definition runContextFor :: "session_env \<Rightarrow> bridge_deps \<Rightarrow> prompt_input option \<Rightarrow> run_context" where
  "runContextFor env d input = \<lparr>
     rc_conversationId = d_conversationId d, rc_owner = se_owner env,
     rc_source = Option.bind input in_source,
     rc_humanInitiated = Option.bind input in_humanInitiated,
     rc_model = se_model env, rc_provider = se_pickedProvider env\<rparr>"

text \<open>The model a provider's session runs.\<close>

definition session_model :: "session_env \<Rightarrow> bridge_deps \<Rightarrow> acp_provider \<Rightarrow> string option" where
  "session_model env d p =
     (case se_catalog env of
        None \<Rightarrow> se_model env
      | Some cat \<Rightarrow>
          (case se_model env of
             Some m \<Rightarrow>
               if m \<noteq> [] \<and> modelAllowedFor cat m (pv_modelTag p) then Some m
               else defaultFor (se_random env) cat (pv_modelTag p) (Some (d_conversationId d))
           | None \<Rightarrow> defaultFor (se_random env) cat (pv_modelTag p) (Some (d_conversationId d))))"

text \<open>The fingerprint of the servers a new session of the provider is offered, if they can be resolved.\<close>

definition offered_mcp :: "session_env \<Rightarrow> acp_provider \<Rightarrow> string + string" where
  "offered_mcp env p =
     (case pv_ownMcpServers p of
        Some fp \<Rightarrow> Inr fp
      | None \<Rightarrow> if se_resolveMcp env then se_mcp env else Inr (se_staticMcp env))"

definition readyProvider :: "session_env \<Rightarrow> bridge_deps \<Rightarrow> acp_provider \<Rightarrow> bridge \<Rightarrow> string + ready_session \<times> bridge" where
  "readyProvider env d p b =
     (case map_of (b_sessions b) (pv_id p) of
        Some r \<Rightarrow> Inr (r, b)
      | None \<Rightarrow>
          (case se_skills env of
             Inl err \<Rightarrow> Inl err
           | Inr skills \<Rightarrow>
               (case se_createClient env of
                  Inl err \<Rightarrow> Inl err
                | Inr c \<Rightarrow>
                    (case offered_mcp env p of
                       Inl err \<Rightarrow> Inl err
                     | Inr mcp \<Rightarrow>
                         (case se_newSession env (session_model env d p) of
                            Inl err \<Rightarrow> Inl err
                          | Inr sid \<Rightarrow>
                              let r = \<lparr>rd_client = c, rd_acpSessionId = sid, rd_mcpFingerprint = mcp,
                                       rd_skillsFingerprint = skills, rd_historySeeded = False,
                                       rd_sessionStartFired = False, rd_lastRunId = None\<rparr>
                              in Inr (r, b\<lparr>b_sessions := AList.update (pv_id p) r (b_sessions b)\<rparr>))))))"

text \<open>Dropping a provider's session and closing its client.\<close>

definition drop_session :: "string \<Rightarrow> ready_session \<Rightarrow> bridge \<Rightarrow> bridge" where
  "drop_session providerId r b =
     b\<lparr>b_sessions := AList.delete providerId (b_sessions b), b_calls := b_calls b @ [CloseClient (rd_client r)]\<rparr>"

definition dropSessionIfDead :: "session_env \<Rightarrow> string \<Rightarrow> bridge \<Rightarrow> bridge" where
  "dropSessionIfDead env providerId b =
     (case map_of (b_sessions b) providerId of
        None \<Rightarrow> b
      | Some r \<Rightarrow> if se_alive env (rd_client r) then b else drop_session providerId r b)"

definition dropSessionIfMcpChanged :: "session_env \<Rightarrow> string \<Rightarrow> bridge \<Rightarrow> bridge" where
  "dropSessionIfMcpChanged env providerId b =
     (if \<not> se_resolveMcp env then b
      else (case map_of (b_sessions b) providerId of
              None \<Rightarrow> b
            | Some r \<Rightarrow>
                (case se_mcp env of
                   Inl _ \<Rightarrow> b
                 | Inr fp \<Rightarrow> if fp = rd_mcpFingerprint r then b else drop_session providerId r b)))"

definition dropSessionIfSkillsChanged :: "session_env \<Rightarrow> string \<Rightarrow> bridge \<Rightarrow> bridge" where
  "dropSessionIfSkillsChanged env providerId b =
     (case map_of (b_sessions b) providerId of
        None \<Rightarrow> b
      | Some r \<Rightarrow>
          (case se_skills env of
             Inl _ \<Rightarrow> b
           | Inr fp \<Rightarrow> if fp = rd_skillsFingerprint r then b else drop_session providerId r b))"

text \<open>
  \<^verbatim>\<open>resolveForRun\<close>: the error it throws, with the drops it made, or the bridge pointed at the
  ready session.
\<close>

definition resolveForRun :: "session_env \<Rightarrow> bridge_deps \<Rightarrow> prompt_input option \<Rightarrow> bridge \<Rightarrow> (string \<times> bridge) + bridge" where
  "resolveForRun env d input b =
     (case pickAcpProvider (se_providers env) (runContextFor env d input) of
        None \<Rightarrow>
          Inl (''no ACP provider eligible (source='' @ (case Option.bind input in_source of Some s \<Rightarrow> s | None \<Rightarrow> ''-'')
               @ '', owner='' @ (case se_owner env of Some s \<Rightarrow> s | None \<Rightarrow> ''-'') @ '')'', b)
      | Some p \<Rightarrow>
          let b1 = dropSessionIfSkillsChanged env (pv_id p)
                     (dropSessionIfMcpChanged env (pv_id p) (dropSessionIfDead env (pv_id p) b))
          in case readyProvider env d p b1 of
               Inl err \<Rightarrow> Inl (err, b1)
             | Inr (r, b2) \<Rightarrow>
                 Inr (b2\<lparr>b_client := Some (rd_client r), b_acpSession := Some (rd_acpSessionId r),
                         b_providerId := pv_id p, b_providerKind := Some (pv_kind p), b_currentReady := Some r\<rparr>))"

text \<open>
  A field of the current session record is set; the cached entry is the same object while it is
  still in the cache.
\<close>

definition upd_ready :: "(ready_session \<Rightarrow> ready_session) \<Rightarrow> bridge \<Rightarrow> bridge" where
  "upd_ready f b =
     (case b_currentReady b of
        None \<Rightarrow> b
      | Some r \<Rightarrow>
          b\<lparr>b_currentReady := Some (f r),
            b_sessions := map (\<lambda>(k, s). (k, if rd_client s = rd_client r then f s else s)) (b_sessions b)\<rparr>)"

text \<open>\<^verbatim>\<open>stop()\<close>'s part on sessions: all cached clients are closed and the cache emptied.\<close>

definition close_sessions :: "bridge \<Rightarrow> bridge" where
  "close_sessions b =
     b\<lparr>b_calls := b_calls b @ map (\<lambda>(_, r). CloseClient (rd_client r)) (b_sessions b),
       b_sessions := [], b_client := None, b_acpSession := None, b_started := False\<rparr>"

subsection \<open>Properties\<close>

text \<open>When the current session still fits.\<close>

definition session_fits :: "session_env \<Rightarrow> ready_session \<Rightarrow> bool" where
  "session_fits env r \<longleftrightarrow>
     se_alive env (rd_client r)
     \<and> (\<not> se_resolveMcp env \<or> isl (se_mcp env) \<or> projr (se_mcp env) = rd_mcpFingerprint r)
     \<and> (isl (se_skills env) \<or> projr (se_skills env) = rd_skillsFingerprint r)"

lemma drop_session_gone: "map_of (b_sessions (drop_session pid r b)) pid = None"
  by (simp add: drop_session_def)

lemma drops_none:
  "map_of (b_sessions b) pid = None \<Longrightarrow>
    dropSessionIfSkillsChanged env pid (dropSessionIfMcpChanged env pid b) = b"
  by (simp add: dropSessionIfSkillsChanged_def dropSessionIfMcpChanged_def)

lemma drops_spec:
  assumes "map_of (b_sessions b) pid = Some r"
  shows "dropSessionIfSkillsChanged env pid (dropSessionIfMcpChanged env pid (dropSessionIfDead env pid b)) =
     (if session_fits env r then b else drop_session pid r b)"
proof (cases "se_alive env (rd_client r)")
  case False
  then have "dropSessionIfDead env pid b = drop_session pid r b" using assms by (simp add: dropSessionIfDead_def)
  with False show ?thesis by (simp add: drops_none drop_session_gone session_fits_def)
next
  case True
  then have dead: "dropSessionIfDead env pid b = b" using assms by (simp add: dropSessionIfDead_def)
  show ?thesis
  proof (cases "\<not> se_resolveMcp env \<or> isl (se_mcp env) \<or> projr (se_mcp env) = rd_mcpFingerprint r")
    case False
    then have "dropSessionIfMcpChanged env pid b = drop_session pid r b"
      using assms by (cases "se_mcp env") (simp_all add: dropSessionIfMcpChanged_def)
    moreover have "\<not> session_fits env r" using False by (simp add: session_fits_def)
    ultimately show ?thesis
      by (simp add: dead dropSessionIfSkillsChanged_def drop_session_gone)
  next
    case mcp: True
    then have "dropSessionIfMcpChanged env pid b = b"
      using assms by (cases "se_mcp env") (auto simp: dropSessionIfMcpChanged_def)
    then show ?thesis
      using assms True mcp
      by (cases "se_skills env") (simp_all add: dead dropSessionIfSkillsChanged_def session_fits_def)
  qed
qed

lemma readyProvider_new:
  assumes "map_of (b_sessions b) (pv_id p) = None"
  shows "case readyProvider env d p b of
      Inl _ \<Rightarrow> True
    | Inr (r, b') \<Rightarrow>
        b_calls b' = b_calls b \<and> map_of (b_sessions b') (pv_id p) = Some r
        \<and> offered_mcp env p = Inr (rd_mcpFingerprint r) \<and> se_skills env = Inr (rd_skillsFingerprint r)
        \<and> \<not> rd_historySeeded r"
  using assms by (simp add: readyProvider_def Let_def split: sum.split)

text \<open>
  A provider's session is kept exactly as long as it fits: when the chosen
  provider has a cached session, a resolution uses that session and closes nothing if its client is
  alive and neither the servers nor the skills are known to have changed (reading them may fail);
  otherwise it closes the client, and the run gets a session that was opened with the servers
  offered and the skills of now, or fails.
\<close>

theorem session_kept_while_it_fits:
  assumes "pickAcpProvider (se_providers env) (runContextFor env d input) = Some p"
    and "map_of (b_sessions b) (pv_id p) = Some r"
  shows "if session_fits env r
    then resolveForRun env d input b =
      Inr (b\<lparr>b_client := Some (rd_client r), b_acpSession := Some (rd_acpSessionId r), b_providerId := pv_id p,
             b_providerKind := Some (pv_kind p), b_currentReady := Some r\<rparr>)
    else (case resolveForRun env d input b of
            Inl (err, b') \<Rightarrow> b_calls b' = b_calls b @ [CloseClient (rd_client r)]
              \<and> map_of (b_sessions b') (pv_id p) = None
          | Inr b' \<Rightarrow> b_calls b' = b_calls b @ [CloseClient (rd_client r)]
              \<and> map_of (b_sessions b') (pv_id p) = b_currentReady b'
              \<and> map_option (Inr \<circ> rd_mcpFingerprint) (b_currentReady b') = Some (offered_mcp env p)
              \<and> map_option (Inr \<circ> rd_skillsFingerprint) (b_currentReady b') = Some (se_skills env)
              \<and> map_option rd_historySeeded (b_currentReady b') = Some False)"
proof (cases "session_fits env r")
  case True
  then show ?thesis
    using assms by (simp add: resolveForRun_def drops_spec Let_def readyProvider_def)
next
  case False
  define b1 where "b1 = drop_session (pv_id p) r b"
  have b1: "b_calls b1 = b_calls b @ [CloseClient (rd_client r)]" "map_of (b_sessions b1) (pv_id p) = None"
    by (simp_all add: b1_def drop_session_def)
  have "dropSessionIfSkillsChanged env (pv_id p)
      (dropSessionIfMcpChanged env (pv_id p) (dropSessionIfDead env (pv_id p) b)) = b1"
    using drops_spec [OF assms(2), of env] False by (simp add: b1_def)
  then have "resolveForRun env d input b =
      (case readyProvider env d p b1 of
         Inl err \<Rightarrow> Inl (err, b1)
       | Inr (r, b2) \<Rightarrow> Inr (b2\<lparr>b_client := Some (rd_client r), b_acpSession := Some (rd_acpSessionId r),
           b_providerId := pv_id p, b_providerKind := Some (pv_kind p), b_currentReady := Some r\<rparr>))"
    using assms(1) by (simp add: resolveForRun_def)
  then show ?thesis
    using False readyProvider_new [OF b1(2), of env d] b1 by (auto split: sum.splits)
qed

text \<open>A live session whose skills changed is replaced.\<close>

theorem session_kept_while_it_fits_witness:
  "let d = default_deps ''t1'' (\<lambda>n. replicate n (CHR ''u''));
       p = \<lparr>pv_ref = 0, pv_id = ''floor'', pv_kind = Goose, pv_priority = 0, pv_modelTag = None,
            pv_ownMcpServers = None, pv_eligible = (\<lambda>_. Some True)\<rparr>;
       env = \<lparr>se_providers = [p], se_owner = None, se_model = None, se_pickedProvider = None, se_catalog = None,
              se_random = 0, se_alive = (\<lambda>_. True), se_resolveMcp = False, se_mcp = Inr [], se_staticMcp = ''m'',
              se_skills = Inr ''new'', se_createClient = Inr 2, se_newSession = (\<lambda>_. Inr ''s2'')\<rparr>;
       r = \<lparr>rd_client = 1, rd_acpSessionId = ''s1'', rd_mcpFingerprint = ''m'', rd_skillsFingerprint = ''old'',
            rd_historySeeded = True, rd_sessionStartFired = True, rd_lastRunId = None\<rparr>;
       b = createSessionBridge\<lparr>b_sessions := [(''floor'', r)]\<rparr>
   in \<not> session_fits env r
      \<and> (case resolveForRun env d None b of
           Inl _ \<Rightarrow> False
         | Inr b' \<Rightarrow> b_calls b' = [CloseClient 1] \<and> map_option rd_client (b_currentReady b') = Some 2)"
proof -
  define p where "p = \<lparr>pv_ref = 0, pv_id = ''floor'', pv_kind = Goose, pv_priority = 0, pv_modelTag = None,
            pv_ownMcpServers = None, pv_eligible = (\<lambda>_. Some True)\<rparr>"
  define env where "env = \<lparr>se_providers = [p], se_owner = None, se_model = None, se_pickedProvider = None, se_catalog = None,
              se_random = 0, se_alive = (\<lambda>_. True), se_resolveMcp = False, se_mcp = Inr [], se_staticMcp = ''m'',
              se_skills = Inr ''new'', se_createClient = Inr 2, se_newSession = (\<lambda>_. Inr ''s2'')\<rparr>"
  define r where "r = \<lparr>rd_client = 1, rd_acpSessionId = ''s1'', rd_mcpFingerprint = ''m'', rd_skillsFingerprint = ''old'',
            rd_historySeeded = True, rd_sessionStartFired = True, rd_lastRunId = None\<rparr>"
  define b where "b = createSessionBridge\<lparr>b_sessions := [(''floor'', r)]\<rparr>"
  define d where "d = default_deps ''t1'' (\<lambda>n. replicate n (CHR ''u''))"
  have pick: "pickAcpProvider (se_providers env) (runContextFor env d None) = Some p"
    by (simp add: pickAcpProvider_def picked_def runContextFor_def env_def p_def is_eligible_def)
  have cached: "map_of (b_sessions b) (pv_id p) = Some r" by (simp add: b_def p_def)
  have misfit: "\<not> session_fits env r" by (simp add: session_fits_def env_def r_def)
  have ok: "case resolveForRun env d None b of Inl _ \<Rightarrow> False | Inr b' \<Rightarrow> map_option rd_client (b_currentReady b') = Some 2"
    using pick drops_spec [OF cached, of env] misfit
    by (simp add: resolveForRun_def readyProvider_def Let_def drop_session_def b_def p_def env_def
        offered_mcp_def createSessionBridge_def)
  have calls: "b_calls b = []" "rd_client r = 1" by (simp_all add: b_def createSessionBridge_def r_def)
  show ?thesis
    unfolding Let_def d_def [symmetric] p_def [symmetric] env_def [symmetric] r_def [symmetric] b_def [symmetric]
    using session_kept_while_it_fits [OF pick cached] misfit ok calls by (auto split: sum.splits)
qed

text \<open>
  With a resolver configured, a provider that has servers of its own never keeps its session: the
  fingerprint of its own set is compared with that of the resolver's.
\<close>

lemma own_servers_never_fit:
  assumes "map_of (b_sessions b) (pv_id p) = None" and "readyProvider env d p b = Inr (r, b')"
    and "pv_ownMcpServers p = Some own" and "se_resolveMcp env'" and "se_mcp env' = Inr fp" and "fp \<noteq> own"
  shows "\<not> session_fits env' r"
  using assms by (auto simp: readyProvider_def offered_mcp_def session_fits_def Let_def
      split: option.splits sum.splits)

end
