(* ===== verification/Bridge_Run.thy ===== *)
theory Bridge_Run
  imports Bridge_Queue Bridge_Updates Bridge_Sessions Transcript
begin

text \<open>
  A run and the pump that drives it: \<^verbatim>\<open>runPrompt\<close>, \<^verbatim>\<open>pump\<close>, \<^verbatim>\<open>prompt\<close> and \<^verbatim>\<open>stop\<close> of
  \<^verbatim>\<open>bridge.ts\<close>. The code between two awaits is one definition, and \<open>step\<close> at the end says
  which input resumes which await; everything else that may happen to a bridge (timers, agent
  updates, permission requests and answers, new prompts, a cancel) is an input too, accepted at
  any await. What the outside answers is carried by the input.
\<close>

subsection \<open>Hooks\<close>

datatype hook_decision = HookAllow | HookBlock | HookError | HookStop

record hook_outcome =
  ho_block :: "string option"
  ho_context :: "string list"
  ho_systemMessages :: "string list"
  ho_stop :: "string option"
  ho_runs :: "(string \<times> hook_decision) list"

definition emitHookNote :: "bridge_deps \<Rightarrow> string \<Rightarrow> bridge \<Rightarrow> bridge" where
  "emitHookNote d note b = (let (m, b1) = nextId d ''sys'' b in emit d (SYSTEM_MESSAGE m ''hook'' note) b1)"

text \<open>What \<^verbatim>\<open>fireHooks\<close> does with the outcome of an event's hooks.\<close>

definition fireHooks :: "bridge_deps \<Rightarrow> string \<Rightarrow> hook_outcome \<Rightarrow> bridge \<Rightarrow> bridge" where
  "fireHooks d event out b =
     (let b1 = foldl (\<lambda>b m. emitHookNote d m b) b (ho_systemMessages out);
          refusers = map fst (filter (\<lambda>(_, dec). dec = HookBlock \<or> dec = HookStop) (ho_runs out))
      in if truthy (ho_block out) then
           emitHookNote d (event @ '' hook '' @ join '', '' refusers @ '': '' @ the (ho_block out)) b1
         else if truthy (ho_stop out) then
           emitHookNote d (event @ '' hook '' @ join '', '' refusers @ '' ended the turn: '' @ the (ho_stop out)) b1
         else b1)"

text \<open>
  The end of a tool hook: its notes, and with \<^verbatim>\<open>defer\<close> its feedback to the run that asked, if
  that is still the current one.
\<close>

definition runToolHook :: "bridge_deps \<Rightarrow> string \<Rightarrow> string \<Rightarrow> hook_outcome \<Rightarrow> bool \<Rightarrow> run_id option \<Rightarrow> bridge \<Rightarrow> bridge" where
  "runToolHook d event toolName out defer run b =
     (let b1 = fireHooks d event out b;
          refusal =
            (if truthy (ho_block out) then
               [(if event = ''PreToolUse'' then ''A hook refused your '' else ''Hook feedback on your '')
                @ toolName @ '' call: '' @ the (ho_block out)]
             else [])
      in if defer
         then upd_run (\<lambda>st. if Some (rs_runId st) = run
                            then st\<lparr>rs_hookFeedback := rs_hookFeedback st @ refusal @ ho_context out\<rparr> else st) b1
         else b1)"

subsection \<open>The pump between runs\<close>

text \<open>\<^verbatim>\<open>encodeURIComponent\<close> of code units below 256, as the bytes of their UTF-8 form.\<close>

definition uri_plain :: "char \<Rightarrow> bool" where
  "uri_plain c =
     (let n = of_char c :: nat in
      (65 \<le> n \<and> n \<le> 90) \<or> (97 \<le> n \<and> n \<le> 122) \<or> (48 \<le> n \<and> n \<le> 57) \<or> n \<in> {33, 39, 40, 41, 42, 45, 46, 95, 126})"

definition percent :: "nat \<Rightarrow> string" where
  "percent n = (let up = (\<lambda>k. char_of (if k < 10 then 48 + k else 55 + k)) in [CHR ''%'', up (n div 16), up (n mod 16)])"

definition encodeURIComponent :: "string \<Rightarrow> string" where
  "encodeURIComponent s =
     concat (map (\<lambda>c. let n = of_char c :: nat in
        if uri_plain c then [c]
        else if n < 128 then percent n
        else percent (192 + n div 64) @ percent (128 + n mod 64)) s)"

definition image_ref_of :: "prompt_input \<Rightarrow> prompt_image \<Rightarrow> image_ref" where
  "image_ref_of i img = ImageRef (pi_assetId img) (pi_mimeType img)
     (''/conversations/'' @ encodeURIComponent (in_threadId i) @ ''/assets/'' @ encodeURIComponent (pi_assetId img))"

text \<open>One message of the batch, written to the log.\<close>

definition persist_input :: "bridge_deps \<Rightarrow> bridge \<Rightarrow> prompt_input \<Rightarrow> bridge" where
  "persist_input d b i =
     (if truthy (in_source i) then
        let (m, b1) = nextId d ''sys'' b
        in persist d (SYSTEM_MESSAGE m (the (in_source i)) (in_text i)) (b1\<lparr>b_thisTurn := b_thisTurn b1 @ [m]\<rparr>)
      else
        let (m, b1) = nextId d ''user'' b;
            b2 = persist d (TEXT_MESSAGE_START m RoleUser) (b1\<lparr>b_thisTurn := b_thisTurn b1 @ [m]\<rparr>);
            b3 = persist d (TEXT_MESSAGE_END m) (persist d (TEXT_MESSAGE_CONTENT m (in_text i)) b2)
        in if in_images i = [] then b3
           else persist d (MESSAGE_IMAGES m (map (image_ref_of i) (in_images i))) b3)"

definition arm_activity :: "bridge_deps \<Rightarrow> bridge \<Rightarrow> bridge" where
  "arm_activity d b = (if d_firstActivityTimeoutMs d \<le> 0 then b else upd_run (\<lambda>st. st\<lparr>rs_activityTimer := True\<rparr>) b)"

text \<open>The beginning of \<^verbatim>\<open>runPrompt\<close> on the current batch, up to its first await.\<close>

definition begin_run :: "bridge_deps \<Rightarrow> bool \<Rightarrow> bridge \<Rightarrow> bridge" where
  "begin_run d alreadyPersisted b =
     (let input = qi_input (hd (b_batch b));
          (runId, b1) = nextId d ''run'' b;
          b2 = b1\<lparr>b_run := Some (fresh_run runId input (b_now b1)), b_outcomeError := False, b_wedged := False,
                  b_thisTurn := [], b_hookContext := [], b_lastRun := runId\<rparr>;
          b3 = emit d (RUN_STARTED (in_threadId input) runId None None) b2;
          b4 = arm_activity d b3;
          b5 = (if d_livenessProbeMs d > 0 then upd_run (\<lambda>st. st\<lparr>rs_livenessTimer := True\<rparr>) b4 else b4);
          b6 = foldl (persist_input d) b5 (if alreadyPersisted then [] else map qi_input (b_batch b5))
      in b6\<lparr>b_pc := AtResolve\<rparr>)"

text \<open>The head of the pump's loop: take the next batch and start its run, or stop.\<close>

definition pump_loop :: "bridge_deps \<Rightarrow> bridge \<Rightarrow> bridge" where
  "pump_loop d b =
     (case take_batch (b_queue b) of
        None \<Rightarrow> clearInterruptTimer (b\<lparr>b_pumping := False, b_pc := PumpIdle, b_batch := []\<rparr>)
      | Some (batch, rest) \<Rightarrow>
          begin_run d False
            (clearInterruptTimer (emitQueueSnapshot d
              (b\<lparr>b_queue := rest, b_runningBatch := batch, b_batch := batch, b_attempt := 0\<rparr>))))"

definition batch_done :: "bridge_deps \<Rightarrow> bridge \<Rightarrow> bridge" where
  "batch_done d b =
     (let b1 = b\<lparr>b_settled := b_settled b @ map (\<lambda>q. (qi_ref q, Resolved (b_lastRun b))) (b_batch b),
                 b_batch := [], b_runningBatch := []\<rparr>
      in pump_loop d (applyPreemption d b1))"

definition retry_delay :: "bridge_deps \<Rightarrow> nat \<Rightarrow> nat" where
  "retry_delay d attempt = min (d_retryBaseMs d * 2 ^ (attempt - 1)) (d_retryCapMs d)"

text \<open>After a run: back off for a retry while the budget lasts, or settle the batch.\<close>

definition after_run :: "bridge_deps \<Rightarrow> bool \<Rightarrow> bridge \<Rightarrow> bridge" where
  "after_run d retryable b =
     (let attempt = Suc (b_attempt b)
      in if retryable \<and> attempt \<le> d_retryMax d then
           (emit d (RUN_RETRYING (in_threadId (qi_input (hd (b_batch b)))) attempt (d_retryMax d)
              (retry_delay d attempt) None) b)\<lparr>b_attempt := attempt, b_pc := AtBackoff\<rparr>
         else batch_done d b)"

text \<open>The \<^verbatim>\<open>finally\<close> of \<^verbatim>\<open>runPrompt\<close> and the return to the pump.\<close>

definition run_returns :: "bridge_deps \<Rightarrow> bool \<Rightarrow> bridge \<Rightarrow> bridge" where
  "run_returns d retryable b =
     after_run d retryable (b\<lparr>b_run := None, b_completions := b_completions b @ [\<not> b_outcomeError b]\<rparr>)"

definition run_retryable :: "bridge \<Rightarrow> bool" where
  "run_retryable b = (case b_run b of None \<Rightarrow> False | Some st \<Rightarrow> rs_retryable st)"

definition close_open :: "bridge_deps \<Rightarrow> bridge \<Rightarrow> bridge" where
  "close_open d b = closeOpenReasoning d (closeOpenText d b)"

text \<open>The end of a run whose prompt returned.\<close>

definition finish_run :: "bridge_deps \<Rightarrow> string \<Rightarrow> bridge \<Rightarrow> bridge" where
  "finish_run d stopReason b0 =
     (let b = close_open d (upd_run (\<lambda>st. st\<lparr>rs_ended := True\<rparr>) b0)
      in case b_run b of
           None \<Rightarrow> b
         | Some st \<Rightarrow>
             let b1 =
               (if rs_terminated st then b
                else
                  let b' = upd_run (\<lambda>st. st\<lparr>rs_terminated := True\<rparr>) b
                  in if rs_cancelled st \<or> stopReason = ''cancelled''
                     then emit d (RUN_FINISHED (rs_threadId st) (rs_runId st) None None (Some True) None) b'
                     else if stopReason = ''error''
                     then (emit d (RUN_ERROR ''agent reported an error'' (Some stopReason) None) b')\<lparr>b_outcomeError := True\<rparr>
                     else emit d (RUN_FINISHED (rs_threadId st) (rs_runId st) None None None None) b')
             in run_returns d (rs_retryable st) b1)"

definition INTERRUPTED_NOTE :: string where
  "INTERRUPTED_NOTE = '' The turn was interrupted after it had started working, so it was not retried automatically; send a message to continue.''"

text \<open>The \<^verbatim>\<open>catch\<close> of \<^verbatim>\<open>runPrompt\<close>.\<close>

definition run_throws :: "bridge_deps \<Rightarrow> string \<Rightarrow> bridge \<Rightarrow> bridge" where
  "run_throws d raw b0 =
     (let b = noteRunDiagnostic raw (close_open d (upd_run (\<lambda>st. st\<lparr>rs_ended := True\<rparr>) b0))
      in case b_run b of
           None \<Rightarrow> b
         | Some st \<Rightarrow>
             if rs_terminated st then run_returns d (rs_retryable st) b
             else
               let b' = upd_run (\<lambda>st. st\<lparr>rs_terminated := True\<rparr>) b
               in if rs_cancelled st then
                    run_returns d (rs_retryable st)
                      (emit d (RUN_FINISHED (rs_threadId st) (rs_runId st) None None (Some True) None) b')
                  else
                    let replaySafe = (\<not> rs_sawActivity st);
                        b1 = (emit d (RUN_ERROR
                                (if replaySafe then clarifyRunError raw else clarifyRunError raw @ INTERRUPTED_NOTE)
                                None None) b')\<lparr>b_outcomeError := True\<rparr>;
                        b2 = upd_run (\<lambda>st. st\<lparr>rs_retryable := replaySafe\<rparr>) b1;
                        b3 = (if session_invalid raw \<and> b_providerId b2 \<noteq> []
                              then b2\<lparr>b_sessions := AList.delete (b_providerId b2) (b_sessions b2)\<rparr> else b2)
                    in run_returns d replaySafe b3)"

subsection \<open>Watchdogs\<close>

text \<open>What both do when they end a run: the terminal event is theirs, and the pump may retry.\<close>

definition wedge_run :: "bridge_deps \<Rightarrow> string \<Rightarrow> string \<Rightarrow> bridge \<Rightarrow> bridge" where
  "wedge_run d message code b0 =
     (let b1 = close_open d (upd_run (\<lambda>st. st\<lparr>rs_ended := True, rs_terminated := True\<rparr>) b0);
          b2 = (emit d (RUN_ERROR message (Some code) None) b1)\<lparr>b_outcomeError := True\<rparr>;
          b3 = upd_run (\<lambda>st. st\<lparr>rs_retryable := True\<rparr>) b2
      in (bridge_cancel d False (dropCachedSession d b3))\<lparr>b_wedged := True\<rparr>)"

text \<open>
  The dead-on-arrival timer; \<open>recent\<close> is what the client's \<^verbatim>\<open>recentDiagnostics\<close> gives.
\<close>

definition activity_timer_fires :: "bridge_deps \<Rightarrow> string list \<Rightarrow> bridge \<Rightarrow> bridge" where
  "activity_timer_fires d recent b =
     (case b_run b of
        None \<Rightarrow> b
      | Some st \<Rightarrow>
          let b1 = upd_run (\<lambda>st. st\<lparr>rs_activityTimer := False\<rparr>) b
          in if rs_sawActivity st \<or> rs_ended st then b1
             else wedge_run d
                    (deadOnArrivalMessage (providerDiagnostic
                       (b_diagnostics b @ (if b_client b = None then [] else recent))))
                    ''no_activity_timeout'' b1)"

definition DIED_MESSAGE :: string where
  "DIED_MESSAGE =
     ''The agent process exited unexpectedly mid-task. The run was ended so the ''
     @ ''conversation isn't stuck; your next message will start a fresh run. If this ''
     @ ''recurs, check the agent-host logs.''"

definition liveness_timer_fires :: "bridge_deps \<Rightarrow> bool \<Rightarrow> bridge \<Rightarrow> bridge" where
  "liveness_timer_fires d alive b =
     (case b_run b of
        None \<Rightarrow> b
      | Some st \<Rightarrow>
          if rs_ended st \<or> rs_terminated st then upd_run (\<lambda>st. st\<lparr>rs_livenessTimer := False\<rparr>) b
          else if b_client b = None \<or> alive then b
          else wedge_run d DIED_MESSAGE ''agent_process_died'' (upd_run (\<lambda>st. st\<lparr>rs_livenessTimer := False\<rparr>) b))"

subsection \<open>The awaits of a run\<close>

definition send_prompt :: "bridge_deps \<Rightarrow> content_block list \<Rightarrow> nat \<Rightarrow> bridge \<Rightarrow> bridge" where
  "send_prompt d blocks stopBlocks b =
     (let b1 = upd_run (\<lambda>st. st\<lparr>rs_lastText := []\<rparr>) b
      in case b_client b1 of
           None \<Rightarrow> run_throws d ''Cannot read properties of undefined (reading 'prompt')'' b1
         | Some c \<Rightarrow> b1\<lparr>b_calls := b_calls b1 @ [SendPrompt c (b_acpSession b1) blocks], b_pc := AtPrompt stopBlocks\<rparr>)"

text \<open>\<^verbatim>\<open>start()\<close> when it has not run, then the resolution for this run's context.\<close>

definition on_resolved :: "bridge_deps \<Rightarrow> session_env \<Rightarrow> session_env \<Rightarrow> bridge \<Rightarrow> bridge" where
  "on_resolved d env0 env b =
     (case (if b_started b then Inr b
            else map_sum id (\<lambda>b'. b'\<lparr>b_started := True\<rparr>) (resolveForRun env0 d None b)) of
        Inl (err, b1) \<Rightarrow> run_throws d err b1
      | Inr b1 \<Rightarrow>
          (case resolveForRun env d (Some (qi_input (hd (b_batch b1)))) b1 of
             Inl (err, b2) \<Rightarrow> run_throws d err b2
           | Inr b2 \<Rightarrow> b2\<lparr>b_pc := AtPrepare\<rparr>))"

definition PREAMBLE_MAX :: nat where "PREAMBLE_MAX = 48000"

text \<open>
  The history block: a session that has not seen the conversation gets all of it, one that was not
  the last to serve a run what it missed; \<^const>\<open>None\<close> is a history that could not be read.
\<close>

definition needs_history :: "bridge_deps \<Rightarrow> bridge \<Rightarrow> bool" where
  "needs_history d b =
     (case b_currentReady b of
        None \<Rightarrow> False
      | Some r \<Rightarrow> d_loadHistory d \<and> (\<not> rd_historySeeded r \<or> b_lastRunReady b \<noteq> Some (rd_client r)))"

definition history_preamble :: "bridge_deps \<Rightarrow> agui_event list option \<Rightarrow> bridge \<Rightarrow> string" where
  "history_preamble d history b =
     (case (b_currentReady b, history) of
        (Some r, Some all) \<Rightarrow>
          if needs_history d b then
            let events = filter (\<lambda>e. (case event_message_id e of Some m \<Rightarrow> m | None \<Rightarrow> []) \<notin> set (b_thisTurn b)) all
            in if \<not> rd_historySeeded r then buildHistoryPreamble events PREAMBLE_MAX Resumed
               else buildHistoryPreamble (eventsAfterRun events (rd_lastRunId r)) PREAMBLE_MAX CatchUp
          else []
      | _ \<Rightarrow> [])"

definition prompt_text :: "prompt_input \<Rightarrow> string" where
  "prompt_text i = (if truthy (in_source i) then decorateSystemMessage (the (in_source i)) (in_text i) else in_text i)"

text \<open>The image blocks; \<open>assets\<close> gives the base64 data and type of a readable asset.\<close>

definition image_blocks :: "bridge_deps \<Rightarrow> (string \<Rightarrow> (string \<times> string) option) \<Rightarrow> prompt_input list \<Rightarrow> content_block list" where
  "image_blocks d assets inputs =
     (if d_readAsset d
      then concat (map (\<lambda>img. case assets (pi_assetId img) of Some (x, m) \<Rightarrow> [ImageBlock x m] | None \<Rightarrow> [])
             (concat (map in_images inputs)))
      else [])"

definition saved_files :: "(string \<Rightarrow> string \<Rightarrow> string option) \<Rightarrow> prompt_input list \<Rightarrow> string list" where
  "saved_files write inputs =
     concat (map (\<lambda>f. case writeUploadedFile write (pf_name f) (pf_data f) of Inr p \<Rightarrow> [p] | Inl _ \<Rightarrow> [])
       (concat (map in_files inputs)))"

definition on_prepared ::
  "bridge_deps \<Rightarrow> agui_event list option \<Rightarrow> (string \<Rightarrow> (string \<times> string) option) \<Rightarrow> (string \<Rightarrow> string \<Rightarrow> string option)
     \<Rightarrow> bridge \<Rightarrow> bridge" where
  "on_prepared d history assets write b =
     (let inputs = map qi_input (b_batch b);
          preamble = history_preamble d history b;
          seeded = needs_history d b;
          b1 = upd_ready (\<lambda>r. r\<lparr>rd_historySeeded := rd_historySeeded r \<or> seeded, rd_lastRunId := Some (b_lastRun b)\<rparr>) b;
          b2 = (case b_currentReady b1 of None \<Rightarrow> b1 | Some r \<Rightarrow> b1\<lparr>b_lastRunReady := Some (rd_client r)\<rparr>);
          combined = combineTexts (map prompt_text inputs);
          saved = saved_files write inputs;
          b3 = b2\<lparr>b_combined := combined,
                  b_blocks := (if preamble = [] then [TextBlock combined] else [TextBlock preamble, TextBlock combined]),
                  b_tailBlocks := (if saved = [] then [] else [TextBlock (buildFileNote saved)])
                                  @ image_blocks d assets inputs\<rparr>
      in if \<not> d_hooks d then send_prompt d (b_blocks b3 @ b_tailBlocks b3) 0 b3
         else
           let b4 = upd_run (\<lambda>st. st\<lparr>rs_activityTimer := False\<rparr>) b3
           in case b_currentReady b4 of
                None \<Rightarrow> b4\<lparr>b_pc := AtSubmit\<rparr>
              | Some r \<Rightarrow>
                  if rd_sessionStartFired r then b4\<lparr>b_pc := AtSubmit\<rparr>
                  else (upd_ready (\<lambda>r. r\<lparr>rd_sessionStartFired := True\<rparr>) b4)\<lparr>b_pc := AtSessionStart\<rparr>)"

definition on_session_start :: "bridge_deps \<Rightarrow> string + hook_outcome \<Rightarrow> bridge \<Rightarrow> bridge" where
  "on_session_start d res b =
     (case res of
        Inl err \<Rightarrow> run_throws d err b
      | Inr out \<Rightarrow>
          let b1 = fireHooks d ''SessionStart'' out b
          in b1\<lparr>b_hookContext := b_hookContext b1 @ ho_context out, b_pc := AtSubmit\<rparr>)"

definition refused :: "hook_outcome \<Rightarrow> bool" where
  "refused out \<longleftrightarrow> truthy (ho_block out) \<or> truthy (ho_stop out)"

definition on_submit :: "bridge_deps \<Rightarrow> string + hook_outcome \<Rightarrow> bridge \<Rightarrow> bridge" where
  "on_submit d res b =
     (case res of
        Inl err \<Rightarrow> run_throws d err b
      | Inr out \<Rightarrow>
          let b1 = fireHooks d ''UserPromptSubmit'' out b
          in case b_run b1 of
               None \<Rightarrow> b1
             | Some st \<Rightarrow>
                 if refused out then
                   run_returns d False
                     (emit d (RUN_FINISHED (rs_threadId st) (rs_runId st) None None None None)
                       (upd_run (\<lambda>st. st\<lparr>rs_ended := True, rs_terminated := True\<rparr>) b1))
                 else
                   let b2 = b1\<lparr>b_hookContext := b_hookContext b1 @ ho_context out\<rparr>;
                       b3 = (if \<not> rs_sawActivity st \<and> \<not> rs_ended st then arm_activity d b2 else b2);
                       hookBlocks = (if b_hookContext b3 = [] then []
                                     else [TextBlock (decorateSystemMessage ''hook'' (join (newline @ newline) (b_hookContext b3)))])
                   in send_prompt d (b_blocks b3 @ hookBlocks @ b_tailBlocks b3) 0 b3)"

definition stops_here :: "string \<Rightarrow> run_state \<Rightarrow> bool" where
  "stops_here stopReason st \<longleftrightarrow>
     rs_cancelled st \<or> rs_terminated st \<or> stopReason = ''cancelled'' \<or> stopReason = ''error''"

text \<open>The awaited tool hooks are done: end the turn, or ask the Stop hooks.\<close>

definition on_settled :: "bridge_deps \<Rightarrow> nat \<Rightarrow> string \<Rightarrow> bridge \<Rightarrow> bridge" where
  "on_settled d stopBlocks stopReason b =
     (case b_run b of
        None \<Rightarrow> b
      | Some st \<Rightarrow>
          if stops_here stopReason st \<or> \<not> d_hooks d then finish_run d stopReason b
          else
            let b1 = upd_run (\<lambda>st. st\<lparr>rs_hookFeedback := []\<rparr>) b
            in if b_queue b \<noteq> [] then finish_run d stopReason b1
               else b1\<lparr>b_pc := AtStop stopBlocks stopReason (rs_hookFeedback st)\<rparr>)"

text \<open>
  The Stop hooks answered, \<^const>\<open>None\<close> when there are none: \<^verbatim>\<open>stopContinuation\<close> and the rest of
  the loop's body.
\<close>

definition on_stop_hooks :: "bridge_deps \<Rightarrow> nat \<Rightarrow> string \<Rightarrow> string list \<Rightarrow> string + hook_outcome option \<Rightarrow> bridge \<Rightarrow> bridge" where
  "on_stop_hooks d stopBlocks stopReason feedback res b =
     (case res of
        Inl err \<Rightarrow> run_throws d err b
      | Inr out \<Rightarrow>
          let b1 = (case out of Some o' \<Rightarrow> fireHooks d ''Stop'' o' b | None \<Rightarrow> b);
              stopped = (case out of Some o' \<Rightarrow> truthy (ho_stop o') | None \<Rightarrow> False);
              reason = (case out of Some o' \<Rightarrow> if truthy (ho_block o') then [the (ho_block o')] else [] | None \<Rightarrow> []);
              parts = feedback @ reason
          in if stopped \<or> parts = [] then finish_run d stopReason b1
             else if stopBlocks \<ge> d_maxStopBlocks d then
               finish_run d stopReason
                 (emitHookNote d (''Hooks sent the agent back '' @ show_nat (d_maxStopBlocks d)
                    @ '' times this turn; letting it stop.'') b1)
             else
               (case b_run b1 of
                  None \<Rightarrow> b1
                | Some st \<Rightarrow>
                    if rs_cancelled st \<or> rs_terminated st then finish_run d stopReason b1
                    else send_prompt d [TextBlock (decorateSystemMessage ''hook'' (join (newline @ newline) parts))]
                           (Suc stopBlocks) (close_open d b1)))"

definition on_backoff :: "bridge_deps \<Rightarrow> bridge \<Rightarrow> bridge" where
  "on_backoff d b = (if b_closed b then batch_done d b else begin_run d True b)"

subsection \<open>Calls from outside\<close>

definition bridge_prompt :: "bridge_deps \<Rightarrow> prompt_input \<Rightarrow> int \<Rightarrow> interrupt_policy \<Rightarrow> bridge \<Rightarrow> bridge" where
  "bridge_prompt d input priority interrupt b =
     (let ref = b_uuids b;
          (i, b1) = nextId d ''queue'' b;
          item = \<lparr>qi_ref = ref, qi_id = i, qi_input = input, qi_priority = priority, qi_interrupt = interrupt,
                  qi_enqueuedAt = b_now b1\<rparr>;
          b2 = emitQueueSnapshot d (b1\<lparr>b_queue := b_queue b1 @ [item]\<rparr>);
          b3 = (if priority \<ge> PRIORITY_INTERRUPT then applyPreemption d b2 else b2)
      in if b_pumping b3 then b3 else pump_loop d (b3\<lparr>b_pumping := True\<rparr>))"

definition bridge_stop :: "bridge_deps \<Rightarrow> bridge \<Rightarrow> bridge" where
  "bridge_stop d b = close_sessions (snd (drainQueue d (clearInterruptTimer (b\<lparr>b_closed := True\<rparr>))))"

text \<open>The end of an outstanding tool hook, \<^const>\<open>None\<close> when it failed.\<close>

definition hook_call_settles :: "bridge_deps \<Rightarrow> nat \<Rightarrow> hook_outcome option \<Rightarrow> bridge \<Rightarrow> bridge" where
  "hook_call_settles d k res b =
     (case map_of (b_hookCalls b) k of
        None \<Rightarrow> b
      | Some (toolName, run) \<Rightarrow>
          let b1 = b\<lparr>b_hookCalls := AList.delete k (b_hookCalls b)\<rparr>
          in case res of None \<Rightarrow> b1 | Some out \<Rightarrow> runToolHook d ''PostToolUse'' toolName out True (Some run) b1)"

subsection \<open>The bridge as a machine\<close>

datatype bridge_input =
    InClock int "int option"
  | InPrompt prompt_input int interrupt_policy
  | InUpdate string session_update
  | InTerminal string string "string list"
  | InPermission permission_request
  | InAnswer tool_call_id string "approver_identity option" "(string \<times> json) list option"
  | InRaise string string "permission_option list" "(string \<times> json) list"
  | InActivityTimer "string list"
  | InLivenessTimer bool
  | InInterruptTimer
  | InCancel bool
  | InToolHook string string hook_outcome bool
  | InHookDone nat "hook_outcome option"
  | InResolved session_env session_env
  | InPrepared "agui_event list option" "string \<Rightarrow> (string \<times> string) option" "string \<Rightarrow> string \<Rightarrow> string option"
  | InSessionStart "string + hook_outcome"
  | InSubmit "string + hook_outcome"
  | InPromptReturned string
  | InPromptRejected string
  | InAbandoned
  | InLateRejection string
  | InDrained
  | InSettled
  | InStopHooks "string + hook_outcome option"
  | InBackoff
  | InDrainQueue
  | InStop

definition when_ok :: "bool \<Rightarrow> bridge \<Rightarrow> bridge option" where
  "when_ok c b = (if c then Some b else None)"

text \<open>\<^const>\<open>None\<close>: the input cannot arrive in this state.\<close>

fun step :: "bridge_deps \<Rightarrow> bridge_input \<Rightarrow> bridge \<Rightarrow> bridge option" where
  "step d (InClock now gen) b = Some (b\<lparr>b_now := now, b_generation := gen\<rparr>)"
| "step d (InPrompt i p pol) b = Some (bridge_prompt d i p pol b)"
| "step d (InUpdate sid u) b = Some (on_session_update d sid u b)"
| "step d (InTerminal t c as) b = Some (on_terminal_created t c as b)"
| "step d (InPermission req) b = Some (onPermissionRequest d req b)"
| "step d (InAnswer t x ap r) b = Some (snd (answerPermission d t x ap r b))"
| "step d (InRaise i m os meta) b = Some (raiseInterrupt d i m os meta b)"
| "step d (InActivityTimer recent) b =
     when_ok (case b_run b of Some st \<Rightarrow> rs_activityTimer st | None \<Rightarrow> False) (activity_timer_fires d recent b)"
| "step d (InLivenessTimer alive) b =
     when_ok (case b_run b of Some st \<Rightarrow> rs_livenessTimer st | None \<Rightarrow> False) (liveness_timer_fires d alive b)"
| "step d InInterruptTimer b = when_ok (b_interruptTimer b \<noteq> None) (interrupt_timer_fires d b)"
| "step d (InCancel user) b = Some (bridge_cancel d user b)"
| "step d (InToolHook e n out df) b =
     when_ok (d_hooks d) (runToolHook d e n out df (map_option rs_runId (b_run b)) b)"
| "step d (InHookDone k res) b = Some (hook_call_settles d k res b)"
| "step d (InResolved env0 env) b = when_ok (b_pc b = AtResolve) (on_resolved d env0 env b)"
| "step d (InPrepared h as w) b = when_ok (b_pc b = AtPrepare) (on_prepared d h as w b)"
| "step d (InSessionStart res) b = when_ok (b_pc b = AtSessionStart) (on_session_start d res b)"
| "step d (InSubmit res) b = when_ok (b_pc b = AtSubmit) (on_submit d res b)"
| "step d (InPromptReturned reason) b =
     (case b_pc b of AtPrompt n \<Rightarrow> Some (b\<lparr>b_pc := AtDrain n reason\<rparr>) | _ \<Rightarrow> None)"
| "step d (InPromptRejected err) b = (case b_pc b of AtPrompt n \<Rightarrow> Some (run_throws d err b) | _ \<Rightarrow> None)"
| "step d InAbandoned b =
     (case b_pc b of AtPrompt n \<Rightarrow> when_ok (b_wedged b) (run_returns d (run_retryable b) b) | _ \<Rightarrow> None)"
| "step d (InLateRejection err) b = Some (noteRunDiagnostic err b)"
| "step d InDrained b =
     (case b_pc b of
        AtDrain n reason \<Rightarrow>
          Some ((upd_run (\<lambda>st. st\<lparr>rs_pendingHooks := []\<rparr>) b)\<lparr>b_pc := AtSettle n reason
                  (case b_run b of Some st \<Rightarrow> rs_pendingHooks st | None \<Rightarrow> [])\<rparr>)
      | _ \<Rightarrow> None)"
| "step d InSettled b =
     (case b_pc b of
        AtSettle n reason ks \<Rightarrow>
          when_ok (list_all (\<lambda>k. map_of (b_hookCalls b) k = None) ks) (on_settled d n reason b)
      | _ \<Rightarrow> None)"
| "step d (InStopHooks res) b =
     (case b_pc b of AtStop n reason fb \<Rightarrow> Some (on_stop_hooks d n reason fb res b) | _ \<Rightarrow> None)"
| "step d InBackoff b = when_ok (b_pc b = AtBackoff) (on_backoff d b)"
| "step d InDrainQueue b = Some (snd (drainQueue d b))"
| "step d InStop b = Some (bridge_stop d b)"

text \<open>A history of inputs, each of which could arrive.\<close>

fun runs_to :: "bridge_deps \<Rightarrow> bridge_input list \<Rightarrow> bridge \<Rightarrow> bridge option" where
  "runs_to d [] b = Some b"
| "runs_to d (i # is) b = (case step d i b of None \<Rightarrow> None | Some b' \<Rightarrow> runs_to d is b')"

lemma runs_to_snoc: "runs_to d (is @ [i]) b = Option.bind (runs_to d is b) (step d i)"
  by (induction "is" arbitrary: b) (auto split: option.splits)

end
