(* ===== verification/Bridge_Steps.thy ===== *)
theory Bridge_Steps
  imports Bridge_Run
begin

text \<open>
  What holds of a bridge after any history of inputs: runs never overlap and each ends with exactly
  one terminal event, no queued message is lost or settled twice, and retries stay within their
  budget; and the three histories in which the code does not do what it means to.
\<close>

subsection \<open>Runs in the log\<close>

text \<open>
  A reader of the log: the runs started, the run that is live, and whether everything so far was in
  order. The first start of a run is in order when no run is live, a start of a run seen before
  changes nothing, and an end is in order when it ends the live run. The interrupt that asks for a
  permission is not an end.
\<close>

type_synonym run_view = "run_id list \<times> run_id option \<times> bool"

fun run_scan :: "run_view \<Rightarrow> agui_base \<Rightarrow> run_view" where
  "run_scan (seen, live, ok) (RUN_STARTED t r h g) =
     (if r \<in> set seen then (seen, live, ok) else (r # seen, Some r, ok \<and> live = None))"
| "run_scan (seen, live, ok) (RUN_FINISHED t r res out c i) =
     (case out of
        Some (OutcomeInterrupt _) \<Rightarrow> (seen, live, ok)
      | _ \<Rightarrow> (seen, None, ok \<and> live = Some r))"
| "run_scan (seen, live, ok) (RUN_ERROR m c r) = (seen, None, ok \<and> live \<noteq> None)"
| "run_scan s _ = s"

definition run_view_of :: "agui_event list \<Rightarrow> run_view" where
  "run_view_of es = foldl run_scan ([], None, True) (map ev_base es)"

definition ends_own_run :: "agui_event \<Rightarrow> bool" where
  "ends_own_run e =
     (case ev_base e of
        RUN_FINISHED _ _ _ out _ _ \<Rightarrow> (case out of Some (OutcomeInterrupt _) \<Rightarrow> False | _ \<Rightarrow> True)
      | RUN_ERROR _ _ _ \<Rightarrow> True
      | _ \<Rightarrow> False)"

lemma run_scan_counts:
  "snd (snd (run_view_of es)) \<Longrightarrow>
    length (fst (run_view_of es)) = length (filter ends_own_run es) + (if fst (snd (run_view_of es)) = None then 0 else 1)"
proof (induction es rule: rev_induct)
  case Nil
  then show ?case by (simp add: run_view_of_def)
next
  case (snoc e es)
  obtain seen live ok where v: "run_view_of es = (seen, live, ok)" by (metis prod_cases3)
  have "run_view_of (es @ [e]) = run_scan (seen, live, ok) (ev_base e)"
    using v by (simp add: run_view_of_def)
  with snoc v show ?case
    by (cases "ev_base e") (auto simp: ends_own_run_def split: if_splits option.splits run_outcome.splits)
qed

lemma run_scan_RUN_STARTED_origin: "run_scan v (RUN_STARTED t r h g) = run_scan v (RUN_STARTED t r h' g')"
  by (cases v) simp

lemma run_view_stamp:
  "run_view_of (es @ [stamp d b (ev base)]) = run_scan (run_view_of es) base"
proof -
  have "run_scan v (ev_base (stamp d b (ev base))) = run_scan v base" for v
    using run_scan_RUN_STARTED_origin by (cases base; cases v) (auto simp: ev_base_stamp split: option.split)
  then show ?thesis by (simp add: run_view_of_def)
qed

lemma run_view_emit: "run_view_of (b_log (emit d base b)) = run_scan (run_view_of (b_log b)) base"
  by (simp add: b_log_emit run_view_stamp)

lemma run_view_persist: "run_view_of (b_log (persist d base b)) = run_scan (run_view_of (b_log b)) base"
  by (simp add: b_log_persist run_view_stamp)

subsection \<open>Contents within runs\<close>

text \<open>
  What belongs to a run: the messages of its input, and what the agent says, thinks and does. A run is
  open from a start, or from the start that reopens it after an answered permission, to the next end.
  In a log in order, contents come only while a run is open, and a question is put for a run that was
  started, or for none: \<^verbatim>\<open>raiseInterrupt\<close> gives its questions ids of their own, beginning with \<^verbatim>\<open>ext-\<close>, and
  a permission asked for outside any run has the id \<^verbatim>\<open>run\<close>.
\<close>

fun run_content :: "agui_base \<Rightarrow> bool" where
  "run_content (TEXT_MESSAGE_START m ro) = True"
| "run_content (TEXT_MESSAGE_CONTENT m x) = True"
| "run_content (MESSAGE_IMAGES m imgs) = True"
| "run_content (REASONING_START m) = True"
| "run_content (REASONING_MESSAGE_START m) = True"
| "run_content (REASONING_MESSAGE_CONTENT m x) = True"
| "run_content (TOOL_CALL_START t n) = True"
| "run_content (TOOL_CALL_ARGS t x) = True"
| "run_content (TOOL_CALL_END t) = True"
| "run_content (TOOL_CALL_RESULT t m y) = True"
| "run_content (CONTEXT_USAGE u w) = True"
| "run_content _ = False"

fun open_scan :: "bool \<Rightarrow> agui_event \<Rightarrow> bool" where
  "open_scan op e = (if is_run_started e then True else if ends_own_run e then False else op)"

definition run_open :: "agui_event list \<Rightarrow> bool" where
  "run_open es = foldl open_scan False es"

definition no_run_id :: "run_id \<Rightarrow> bool" where
  "no_run_id r \<longleftrightarrow> take 4 r = ''ext-'' \<or> r = ''run''"

fun log_allowed :: "run_id list \<Rightarrow> bool \<Rightarrow> agui_base \<Rightarrow> bool" where
  "log_allowed seen op (RUN_FINISHED t r res (Some (OutcomeInterrupt ints)) c i) = (r \<in> set seen \<or> no_run_id r)"
| "log_allowed seen op base = (run_content base \<longrightarrow> op)"

definition runs_in_order :: "agui_event list \<Rightarrow> bool" where
  "runs_in_order es = (\<forall>i < length es. log_allowed (fst (run_view_of (take i es))) (run_open (take i es)) (ev_base (es ! i)))"

lemma runs_in_order_Nil [simp]: "runs_in_order []" "\<not> run_open []"
  by (simp_all add: runs_in_order_def run_open_def)

lemma runs_in_order_snoc:
  "runs_in_order (es @ [e]) \<longleftrightarrow> runs_in_order es \<and> log_allowed (fst (run_view_of es)) (run_open es) (ev_base e)"
  by (auto simp: runs_in_order_def nth_append less_Suc_eq)

lemma run_open_snoc: "run_open (es @ [e]) = open_scan (run_open es) e"
  by (simp add: run_open_def)

lemma seen_grows: "set (fst (run_view_of es)) \<subseteq> set (fst (run_view_of (es @ es')))"
proof (induction es' rule: rev_induct)
  case (snoc e es')
  have "set (fst (run_scan v base)) \<supseteq> set (fst v)" for v base
    by (cases "(v, base)" rule: run_scan.cases) (auto split: option.splits run_outcome.splits)
  moreover have "run_view_of ((es @ es') @ [e]) = run_scan (run_view_of (es @ es')) (ev_base e)" by (simp add: run_view_of_def)
  ultimately show ?case using snoc by fastforce
qed simp

lemma log_allowed_mono:
  "log_allowed seen op base \<Longrightarrow> set seen \<subseteq> set seen' \<Longrightarrow> (op \<longrightarrow> op') \<Longrightarrow> log_allowed seen' op' base"
  by (cases "(seen, op, base)" rule: log_allowed.cases) auto

text \<open>A run that is still taking updates.\<close>

definition takes_updates :: "bridge \<Rightarrow> bool" where
  "takes_updates b = (case b_run b of None \<Rightarrow> False | Some st \<Rightarrow> \<not> rs_ended st)"

text \<open>What may be logged from a state on, until a run begins or ends.\<close>

definition may_log :: "bridge \<Rightarrow> agui_base \<Rightarrow> bool" where
  "may_log b base \<longleftrightarrow> \<not> ends_own_run (ev base) \<and> log_allowed (fst (run_view_of (b_log b))) (takes_updates b) base"

definition adds_to_log :: "bridge \<Rightarrow> bridge \<Rightarrow> bool" where
  "adds_to_log b b' \<longleftrightarrow> (\<exists>es. b_log b' = b_log b @ es \<and> (\<forall>e \<in> set es. may_log b (ev_base e)))"

lemma adds_to_log_same [simp]: "b_log b' = b_log b \<Longrightarrow> adds_to_log b b'"
  by (simp add: adds_to_log_def)

lemma adds_to_log_fields [simp]:
  "adds_to_log a (b\<lparr>b_uuids := n\<rparr>) = adds_to_log a b" "adds_to_log a (b\<lparr>b_pending := p\<rparr>) = adds_to_log a b"
  "adds_to_log a (b\<lparr>b_pumping := x\<rparr>) = adds_to_log a b" "adds_to_log (a\<lparr>b_pumping := x\<rparr>) b = adds_to_log a b"
  by (simp_all add: adds_to_log_def may_log_def takes_updates_def)

lemma ends_own_run_base: "ev_base e = base \<Longrightarrow> ends_own_run e = ends_own_run (ev base)"
  by (simp add: ends_own_run_def)

lemma may_log_stamp: "may_log a (ev_base (stamp d b (ev base))) = may_log a base"
  by (cases base) (auto simp: ev_base_stamp may_log_def ends_own_run_def split: option.split)

lemma adds_to_log_emit: "adds_to_log a b \<Longrightarrow> may_log a base \<Longrightarrow> adds_to_log a (emit d base b)"
  using may_log_stamp [of a d b base] by (auto simp: adds_to_log_def b_log_emit)

lemma adds_to_log_persist: "adds_to_log a b \<Longrightarrow> may_log a base \<Longrightarrow> adds_to_log a (persist d base b)"
  using may_log_stamp [of a d b base] by (auto simp: adds_to_log_def b_log_persist)

lemma adds_to_log_order:
  assumes "adds_to_log b b'" and "runs_in_order (b_log b)" and "takes_updates b \<longrightarrow> run_open (b_log b)"
  shows "runs_in_order (b_log b') \<and> (run_open (b_log b) \<longrightarrow> run_open (b_log b'))"
proof -
  obtain es where es: "b_log b' = b_log b @ es" "\<forall>e \<in> set es. may_log b (ev_base e)" using assms(1) by (auto simp: adds_to_log_def)
  have "runs_in_order (b_log b @ es) \<and> (run_open (b_log b) \<longrightarrow> run_open (b_log b @ es))"
    using es(2)
  proof (induction es rule: rev_induct)
    case (snoc e es)
    have "\<not> ends_own_run e" and a: "log_allowed (fst (run_view_of (b_log b))) (takes_updates b) (ev_base e)"
      using snoc.prems ends_own_run_base [of e] by (auto simp: may_log_def)
    moreover have "log_allowed (fst (run_view_of (b_log b @ es))) (run_open (b_log b @ es)) (ev_base e)"
      by (rule log_allowed_mono [OF a seen_grows]) (use snoc assms(3) in auto)
    ultimately show ?case using snoc by (simp add: runs_in_order_snoc run_open_snoc flip: append_assoc)
  qed (use assms in simp)
  then show ?thesis by (simp add: es(1))
qed

subsection \<open>Quiet operations\<close>

text \<open>
  An operation is quiet when it neither starts nor ends a run and leaves the queue, the batch and
  the await alone. Requests may be settled but not added, activity may be noted, a run may be
  marked as ended. What is logged are contents of a run that was taking updates, and what belongs to no run.
\<close>

definition same_run :: "run_state option \<Rightarrow> run_state option \<Rightarrow> bool" where
  "same_run r r' =
     (case (r, r') of
        (None, None) \<Rightarrow> True
      | (Some st, Some st') \<Rightarrow>
          rs_runId st' = rs_runId st \<and> rs_threadId st' = rs_threadId st \<and> rs_terminated st' = rs_terminated st
          \<and> (rs_ended st \<longrightarrow> rs_ended st') \<and> (rs_sawActivity st \<longrightarrow> rs_sawActivity st')
      | _ \<Rightarrow> False)"

definition quiet :: "bridge \<Rightarrow> bridge \<Rightarrow> bool" where
  "quiet b b' \<longleftrightarrow>
     run_view_of (b_log b') = run_view_of (b_log b) \<and> adds_to_log b b' \<and> same_run (b_run b) (b_run b')
     \<and> set (b_pending b') \<subseteq> set (b_pending b) \<and> b_uuids b \<le> b_uuids b' \<and> b_pc b' = b_pc b
     \<and> b_wedged b' = b_wedged b \<and> b_queue b' = b_queue b \<and> b_batch b' = b_batch b
     \<and> b_runningBatch b' = b_runningBatch b \<and> b_settled b' = b_settled b \<and> b_pumping b' = b_pumping b
     \<and> b_attempt b' = b_attempt b"

lemma same_run_refl [simp]: "same_run r r"
  by (auto simp: same_run_def split: option.split)

lemma same_run_trans: "same_run a b \<Longrightarrow> same_run b c \<Longrightarrow> same_run a c"
  by (auto simp: same_run_def split: option.splits)

lemma quiet_refl [simp]: "quiet b b"
  by (simp add: quiet_def)

lemma takes_updates_same: "same_run (b_run a) (b_run b) \<Longrightarrow> takes_updates b \<Longrightarrow> takes_updates a"
  by (auto simp: takes_updates_def same_run_def split: option.splits)

lemma adds_to_log_trans:
  assumes "adds_to_log a b" and "adds_to_log b c" and "run_view_of (b_log b) = run_view_of (b_log a)" and "takes_updates b \<longrightarrow> takes_updates a"
  shows "adds_to_log a c"
proof -
  have "may_log a base" if "may_log b base" for base
    using that assms(3,4) log_allowed_mono [OF _ subset_refl, of _ "takes_updates b" base "takes_updates a"] by (auto simp: may_log_def)
  then show ?thesis using assms(1,2) unfolding adds_to_log_def by (metis Un_iff append.assoc set_append)
qed

lemma quiet_trans: "quiet a b \<Longrightarrow> quiet b c \<Longrightarrow> quiet a c"
proof -
  assume q: "quiet a b" "quiet b c"
  then have "adds_to_log a c"
    using takes_updates_same [of a b] by (intro adds_to_log_trans [of a b c]) (auto simp: quiet_def)
  with q show ?thesis unfolding quiet_def using same_run_trans by (metis order_trans)
qed

text \<open>An update of fields the notion does not look at.\<close>

lemma quiet_fields [simp]:
  "quiet a (b\<lparr>b_now := x0\<rparr>) = quiet a b"
  "quiet a (b\<lparr>b_generation := x1\<rparr>) = quiet a b"
  "quiet a (b\<lparr>b_out := x2\<rparr>) = quiet a b"
  "quiet a (b\<lparr>b_terminalCommands := x3\<rparr>) = quiet a b"
  "quiet a (b\<lparr>b_closed := x4\<rparr>) = quiet a b"
  "quiet a (b\<lparr>b_started := x5\<rparr>) = quiet a b"
  "quiet a (b\<lparr>b_interruptTimer := x6\<rparr>) = quiet a b"
  "quiet a (b\<lparr>b_sessions := x7\<rparr>) = quiet a b"
  "quiet a (b\<lparr>b_client := x8\<rparr>) = quiet a b"
  "quiet a (b\<lparr>b_acpSession := x9\<rparr>) = quiet a b"
  "quiet a (b\<lparr>b_providerId := x10\<rparr>) = quiet a b"
  "quiet a (b\<lparr>b_providerKind := x11\<rparr>) = quiet a b"
  "quiet a (b\<lparr>b_currentReady := x12\<rparr>) = quiet a b"
  "quiet a (b\<lparr>b_lastRunReady := x13\<rparr>) = quiet a b"
  "quiet a (b\<lparr>b_diagnostics := x14\<rparr>) = quiet a b"
  "quiet a (b\<lparr>b_extractor := x15\<rparr>) = quiet a b"
  "quiet a (b\<lparr>b_markedTitle := x16\<rparr>) = quiet a b"
  "quiet a (b\<lparr>b_titles := x17\<rparr>) = quiet a b"
  "quiet a (b\<lparr>b_calls := x18\<rparr>) = quiet a b"
  "quiet a (b\<lparr>b_answers := x19\<rparr>) = quiet a b"
  "quiet a (b\<lparr>b_external := x20\<rparr>) = quiet a b"
  "quiet a (b\<lparr>b_completions := x21\<rparr>) = quiet a b"
  "quiet a (b\<lparr>b_hookCalls := x22\<rparr>) = quiet a b"
  "quiet a (b\<lparr>b_hookCount := x23\<rparr>) = quiet a b"
  "quiet a (b\<lparr>b_outcomeError := x24\<rparr>) = quiet a b"
  "quiet a (b\<lparr>b_thisTurn := x25\<rparr>) = quiet a b"
  "quiet a (b\<lparr>b_blocks := x26\<rparr>) = quiet a b"
  "quiet a (b\<lparr>b_tailBlocks := x27\<rparr>) = quiet a b"
  "quiet a (b\<lparr>b_lastRun := x28\<rparr>) = quiet a b"
  "quiet a (b\<lparr>b_combined := x29\<rparr>) = quiet a b"
  "quiet a (b\<lparr>b_hookContext := x30\<rparr>) = quiet a b"
  by (simp_all add: quiet_def adds_to_log_def)

named_theorems quiet_intros \<open>operations that are quiet\<close>

lemma quiet_upd_run:
  assumes "\<And>st. rs_runId (f st) = rs_runId st" "\<And>st. rs_threadId (f st) = rs_threadId st"
    "\<And>st. rs_terminated (f st) = rs_terminated st" "\<And>st. rs_ended st \<Longrightarrow> rs_ended (f st)"
    "\<And>st. rs_sawActivity st \<Longrightarrow> rs_sawActivity (f st)"
  shows "quiet b (upd_run f b)"
  using assms by (auto simp: quiet_def same_run_def split: option.split)

lemma quiet_uuids: "n \<ge> b_uuids b \<Longrightarrow> quiet b (b\<lparr>b_uuids := n\<rparr>)"
  by (simp add: quiet_def)

lemma quiet_nextId: "nextId d p b = (i, b') \<Longrightarrow> quiet b b'"
  by (auto simp: nextId_def intro: quiet_uuids)

text \<open>Composition, in the shape the operations have.\<close>

lemma quiet_emit_after: "quiet a b \<Longrightarrow> (\<And>s. run_scan s base = s) \<Longrightarrow> may_log a base \<Longrightarrow> quiet a (emit d base b)"
  by (simp add: quiet_def run_view_emit adds_to_log_emit)

lemma quiet_persist_after: "quiet a b \<Longrightarrow> (\<And>s. run_scan s base = s) \<Longrightarrow> may_log a base \<Longrightarrow> quiet a (persist d base b)"
  by (simp add: quiet_def run_view_persist adds_to_log_persist)

lemma may_log_other [simp]:
  "may_log b (TEXT_MESSAGE_END m)" "may_log b (REASONING_MESSAGE_END m)" "may_log b (REASONING_END m)"
  "may_log b (PERMISSION_RESOLVED t o')" "may_log b (QUEUE_UPDATED q)" "may_log b (SYSTEM_MESSAGE m x y)"
  "may_log b (CANCEL_REQUESTED t r)" "may_log b (RUN_RETRYING t a mx dl code)"
  by (simp_all add: may_log_def ends_own_run_def)

lemma may_log_content [simp]: "takes_updates b \<Longrightarrow> run_content base \<Longrightarrow> may_log b base"
  by (cases base) (simp_all add: may_log_def ends_own_run_def)

lemma quiet_upd_after:
  assumes "quiet a b" and "\<And>st. rs_runId (f st) = rs_runId st" "\<And>st. rs_threadId (f st) = rs_threadId st"
    "\<And>st. rs_terminated (f st) = rs_terminated st" "\<And>st. rs_ended st \<Longrightarrow> rs_ended (f st)"
    "\<And>st. rs_sawActivity st \<Longrightarrow> rs_sawActivity (f st)"
  shows "quiet a (upd_run f b)"
  by (rule quiet_trans [OF assms(1) quiet_upd_run]) (use assms in auto)

lemma neutral_bases [simp]:
  "run_scan s (TEXT_MESSAGE_START m ro) = s" "run_scan s (TEXT_MESSAGE_CONTENT m x) = s"
  "run_scan s (TEXT_MESSAGE_END m) = s" "run_scan s (TOOL_CALL_START t n) = s" "run_scan s (TOOL_CALL_ARGS t x) = s"
  "run_scan s (TOOL_CALL_END t) = s" "run_scan s (TOOL_CALL_RESULT t m y) = s" "run_scan s (REASONING_START m) = s"
  "run_scan s (REASONING_MESSAGE_START m) = s" "run_scan s (REASONING_MESSAGE_CONTENT m x) = s"
  "run_scan s (REASONING_MESSAGE_END m) = s" "run_scan s (REASONING_END m) = s"
  "run_scan s (PERMISSION_RESOLVED t o') = s" "run_scan s (QUEUE_UPDATED q) = s" "run_scan s (MESSAGE_IMAGES m imgs) = s"
  "run_scan s (CONTEXT_USAGE u w) = s" "run_scan s (SYSTEM_MESSAGE m x y) = s" "run_scan s (CANCEL_REQUESTED t r) = s"
  "run_scan s (RUN_RETRYING t a mx dl code) = s"
  "run_scan s (RUN_FINISHED t r res (Some (OutcomeInterrupt ints)) c i) = s"
  by (cases s; simp)+

lemmas quiet_ops = quiet_emit_after quiet_persist_after quiet_upd_after

lemma quiet_closeOpenText [quiet_intros]: "quiet b (closeOpenText d b)"
  by (auto simp: closeOpenText_def intro!: quiet_ops split: option.split)

lemma quiet_closeOpenReasoning [quiet_intros]: "quiet b (closeOpenReasoning d b)"
  by (auto simp: closeOpenReasoning_def intro!: quiet_ops split: option.split)

lemma quiet_noteActivity [quiet_intros]: "quiet b (noteActivity b)"
  unfolding noteActivity_def by (rule quiet_upd_run) auto

lemma quiet_bridge_cancel [quiet_intros]: "quiet b (bridge_cancel d u b)"
  by (auto simp: bridge_cancel_def Let_def intro!: quiet_ops split: option.split)

lemma quiet_emitArgsOnce: "quiet a b \<Longrightarrow> takes_updates a \<Longrightarrow> quiet a (emitArgsOnce d t i b)"
  by (auto simp: emitArgsOnce_def intro!: quiet_ops split: option.split)

lemma quiet_emitTitle [quiet_intros]: "quiet b (emitTitle t b)"
  by (simp add: emitTitle_def)

lemma quiet_noteRunDiagnostic [quiet_intros]: "quiet b (noteRunDiagnostic l b)"
  by (simp add: noteRunDiagnostic_def Let_def)

lemma quiet_close_open [quiet_intros]: "quiet b (close_open d b)"
  unfolding close_open_def by (meson quiet_trans quiet_closeOpenText quiet_closeOpenReasoning)

lemmas quiet_chain = quiet_ops
  quiet_closeOpenText [THEN quiet_trans [rotated]] quiet_closeOpenReasoning [THEN quiet_trans [rotated]]
  quiet_noteActivity [THEN quiet_trans [rotated]] quiet_bridge_cancel [THEN quiet_trans [rotated]]
  quiet_emitTitle [THEN quiet_trans [rotated]]
  quiet_noteRunDiagnostic [THEN quiet_trans [rotated]] quiet_close_open [THEN quiet_trans [rotated]]

subsubsection \<open>Updates\<close>

lemma quiet_nextId_after: "quiet a b \<Longrightarrow> nextId d p b = (i, b') \<Longrightarrow> quiet a b'"
  using quiet_trans quiet_nextId by blast

lemma quiet_nextId_snd: "quiet a b \<Longrightarrow> quiet a (snd (nextId d p b))"
  by (metis quiet_nextId_after surjective_pairing)

lemma quiet_uuids_Suc: "quiet a b \<Longrightarrow> b_uuids b \<le> n \<Longrightarrow> quiet a (b\<lparr>b_uuids := n\<rparr>)"
  by (simp add: quiet_def)

lemma b_uuids_emitArgsOnce [simp]: "b_uuids (emitArgsOnce d t i b) = b_uuids b"
  by (simp add: emitArgsOnce_def split: option.split)

lemma quiet_on_message_chunk: "takes_updates b \<Longrightarrow> quiet b (on_message_chunk d c b)"
  unfolding on_message_chunk_def Let_def nextId_def
  by (auto intro!: quiet_chain quiet_uuids_Suc split: prod.splits option.splits)

lemma quiet_on_thought_chunk: "takes_updates b \<Longrightarrow> quiet b (on_thought_chunk d c b)"
  unfolding on_thought_chunk_def Let_def nextId_def
  by (auto intro!: quiet_chain quiet_uuids_Suc split: prod.splits option.splits)

lemma quiet_on_plan: "takes_updates b \<Longrightarrow> quiet b (on_plan d es b)"
  unfolding on_plan_def Let_def nextId_def
  by (auto intro!: quiet_chain quiet_uuids_Suc)

lemma quiet_on_tool_call: "takes_updates b \<Longrightarrow> quiet b (on_tool_call d t n i b)"
  unfolding on_tool_call_def Let_def nextId_def
  by (auto intro!: quiet_chain quiet_emitArgsOnce quiet_uuids_Suc)

lemma quiet_on_handoff: "quiet a b \<Longrightarrow> takes_updates a \<Longrightarrow> quiet a (on_handoff d t c b)"
  unfolding on_handoff_def Let_def
  by (auto intro!: quiet_chain quiet_emitArgsOnce split: prod.splits option.splits)

lemma quiet_tool_done: "quiet b (tool_done d b)"
  unfolding tool_done_def Let_def
  by (auto intro!: quiet_chain split: option.splits)

lemma quiet_on_finish:
  assumes "quiet a b" and "takes_updates a"
  shows "quiet a (on_finish d t r info b)"
proof -
  define b2 where
    "b2 = tool_done d (upd_run (\<lambda>st. st\<lparr>rs_terminalPending := removeAll t (rs_terminalPending st)\<rparr>) b)"
  have b2: "quiet a b2"
    unfolding b2_def by (rule quiet_trans [OF _ quiet_tool_done]) (use assms(1) in \<open>auto intro!: quiet_chain\<close>)
  obtain m b3 where b3: "(case Option.bind (b_run b2) (\<lambda>st. rs_toolMessage st t) of
      Some m \<Rightarrow> (m, b2) | None \<Rightarrow> nextId d ''msg'' b2) = (m, b3)" by (metis surj_pair)
  then have "quiet a b3" using b2 quiet_nextId_after by (auto split: option.splits)
  then show ?thesis
    using assms(2) unfolding on_finish_def b2_def [symmetric] Let_def b3
    by (auto intro!: quiet_chain split: option.splits)
qed

lemma quiet_on_tool_call_update:
  assumes "takes_updates b"
  shows "quiet b (on_tool_call_update d t s c i r b)"
proof -
  have "quiet b (upd_run (\<lambda>st. st\<lparr>rs_toolInfo := (rs_toolInfo st)(t := info)\<rparr>) (emitArgsOnce d t i b))" for info
    using assms by (auto intro!: quiet_chain quiet_emitArgsOnce)
  then show ?thesis
    unfolding on_tool_call_update_def Let_def
    using quiet_on_handoff [OF _ assms] quiet_on_finish [OF _ assms] by auto
qed

lemma takes_updates_noteActivity: "takes_updates (noteActivity b) = takes_updates b"
  by (simp add: takes_updates_def noteActivity_def split: option.split)

lemma quiet_on_session_update [quiet_intros]: "quiet b (on_session_update d sid u b)"
proof -
  have "quiet x (dispatch_update d u x)" if "takes_updates x" for x
    using that by (cases u) (auto simp: quiet_on_message_chunk quiet_on_thought_chunk quiet_on_plan quiet_on_tool_call
        quiet_on_tool_call_update intro!: quiet_chain)
  then have "quiet b (dispatch_update d u (noteActivity b))" if "takes_updates b"
    using that quiet_noteActivity [of b] quiet_trans by (simp add: takes_updates_noteActivity)
  then show ?thesis by (auto simp: on_session_update_def handleUpdate_def takes_updates_def split: option.split)
qed

subsubsection \<open>Hooks, queue, sessions\<close>

lemma quiet_emitHookNote [quiet_intros]: "quiet b (emitHookNote d x b)"
  unfolding emitHookNote_def Let_def nextId_def by (auto intro!: quiet_chain quiet_uuids_Suc)

lemma quiet_foldl: "(\<And>b x. quiet b (f b x)) \<Longrightarrow> quiet b (foldl f b xs)"
  by (induction xs arbitrary: b) (auto intro: quiet_trans)

lemma quiet_fireHooks [quiet_intros]: "quiet b (fireHooks d e out b)"
proof -
  have "quiet b (foldl (\<lambda>b m. emitHookNote d m b) b (ho_systemMessages out))"
    by (rule quiet_foldl) (rule quiet_emitHookNote)
  then show ?thesis
    unfolding fireHooks_def Let_def using quiet_trans [OF _ quiet_emitHookNote] by auto
qed

lemma quiet_runToolHook [quiet_intros]: "quiet b (runToolHook d e n out df r b)"
  unfolding runToolHook_def Let_def
  by (auto intro!: quiet_chain quiet_fireHooks split: if_splits)

lemma quiet_hook_call_settles [quiet_intros]: "quiet b (hook_call_settles d k res b)"
  unfolding hook_call_settles_def Let_def
  by (auto intro!: quiet_runToolHook [THEN quiet_trans [rotated]] split: option.split)

lemma quiet_armTimeoutFallback: "quiet a b \<Longrightarrow> quiet a (armTimeoutFallback d i b)"
  by (simp add: armTimeoutFallback_def)

lemma quiet_applyPreemption [quiet_intros]: "quiet b (applyPreemption d b)"
  unfolding applyPreemption_def clearInterruptTimer_def Let_def
  by (auto intro!: quiet_chain quiet_armTimeoutFallback split: option.splits interrupt_policy.splits)

lemma quiet_interrupt_timer_fires [quiet_intros]: "quiet b (interrupt_timer_fires d b)"
  unfolding interrupt_timer_fires_def Let_def by (auto intro!: quiet_chain)

lemma quiet_persist_input: "quiet a b \<Longrightarrow> takes_updates a \<Longrightarrow> quiet a (persist_input d b i)"
  unfolding persist_input_def Let_def nextId_def by (auto intro!: quiet_chain quiet_uuids_Suc)

lemma quiet_persist_inputs: "quiet a b \<Longrightarrow> takes_updates a \<Longrightarrow> quiet a (foldl (persist_input d) b is)"
  by (induction "is" arbitrary: b) (auto intro: quiet_persist_input)

lemma quiet_upd_ready [quiet_intros]: "quiet b (upd_ready f b)"
  by (simp add: upd_ready_def split: option.split)

lemma quiet_drop_session: "quiet a b \<Longrightarrow> quiet a (drop_session pid r b)"
  by (simp add: drop_session_def)

lemma quiet_drops:
  "quiet b (dropSessionIfSkillsChanged env pid (dropSessionIfMcpChanged env pid (dropSessionIfDead env pid b)))"
proof -
  have "quiet x (dropSessionIfDead env pid x)" "quiet x (dropSessionIfMcpChanged env pid x)"
      "quiet x (dropSessionIfSkillsChanged env pid x)" for x
    by (auto simp: dropSessionIfDead_def dropSessionIfMcpChanged_def dropSessionIfSkillsChanged_def
        intro!: quiet_drop_session split: option.split sum.split)
  then show ?thesis by (meson quiet_trans)
qed

lemma quiet_readyProvider: "readyProvider env d p b = Inr (r, b') \<Longrightarrow> quiet b b'"
  by (auto simp: readyProvider_def Let_def split: option.splits sum.splits)

lemma quiet_resolveForRun:
  "case resolveForRun env d input b of Inl (err, b') \<Rightarrow> quiet b b' | Inr b' \<Rightarrow> quiet b b'"
proof (cases "pickAcpProvider (se_providers env) (runContextFor env d input)")
  case None
  then show ?thesis by (simp add: resolveForRun_def)
next
  case (Some p)
  define b1 where "b1 = dropSessionIfSkillsChanged env (pv_id p)
      (dropSessionIfMcpChanged env (pv_id p) (dropSessionIfDead env (pv_id p) b))"
  have "quiet b b1" unfolding b1_def by (rule quiet_drops)
  then show ?thesis
    using Some quiet_readyProvider [of env d p b1]
    by (auto simp: resolveForRun_def Let_def b1_def [symmetric] intro: quiet_trans split: sum.split)
qed

subsubsection \<open>Settling requests\<close>

lemma set_delete_subset: "set (AList.delete k m) \<subseteq> set m"
  by (auto simp: AList.delete_eq)

lemma set_update_subset: "set (AList.update k v m) \<subseteq> insert (k, v) (set m)"
  by (induction m) auto

lemma set_delete_update: "set (AList.delete k (AList.update k v m)) \<subseteq> set m"
  by (induction m) (auto simp: AList.delete_eq)

lemma quiet_abandon_one: "quiet b (abandon_one d b e)"
proof -
  define b1 where "b1 = b\<lparr>b_pending := AList.delete (fst e)
      (AList.update (fst e) ((snd e)\<lparr>p_abandoned := True\<rparr>) (b_pending b))\<rparr>"
  have "quiet b b1" using set_delete_update [of "fst e"] by (simp add: b1_def quiet_def)
  then have "quiet b (persist d (PERMISSION_RESOLVED (fst e) None) b1)" by (auto intro!: quiet_chain)
  then show ?thesis
    by (auto simp: abandon_one_def permission_resumes_def Let_def b1_def split: option.split)
qed

lemma quiet_dropCachedSession [quiet_intros]: "quiet b (dropCachedSession d b)"
proof -
  have "quiet b (abandonAgentPermissions d b)"
    unfolding abandonAgentPermissions_def by (rule quiet_foldl) (rule quiet_abandon_one)
  then show ?thesis by (simp add: dropCachedSession_def Let_def)
qed

subsection \<open>The log invariant\<close>

text \<open>
  The reader's live run is the bridge's: the current run until its terminal event. The runs seen are
  ids drawn so far, the current one and those that pending requests will reopen among them. A run
  that was terminated and reopened has shown activity, so the dead-on-arrival timer is silent for it.
  The log is in order, and a run that takes updates is open there.
\<close>

definition live_run :: "bridge \<Rightarrow> run_id option" where
  "live_run b =
     (case b_run b of None \<Rightarrow> None | Some st \<Rightarrow> if rs_terminated st then None else Some (rs_runId st))"

definition reopens_ok :: "bridge \<Rightarrow> (thread_id \<times> run_id) option \<Rightarrow> bool" where
  "reopens_ok b run =
     (case run of
        None \<Rightarrow> True
      | Some (_, r) \<Rightarrow>
          r \<in> set (fst (run_view_of (b_log b)))
          \<and> (\<forall>st. b_run b = Some st \<and> rs_runId st = r \<longrightarrow> rs_sawActivity st))"

definition log_inv :: "bridge_deps \<Rightarrow> bridge \<Rightarrow> bool" where
  "log_inv d b \<longleftrightarrow>
     snd (snd (run_view_of (b_log b))) \<and> fst (snd (run_view_of (b_log b))) = live_run b
     \<and> (\<forall>r \<in> set (fst (run_view_of (b_log b))). \<exists>k < b_uuids b. r = mint d ''run'' k)
     \<and> (\<forall>st. b_run b = Some st \<longrightarrow>
          rs_runId st \<in> set (fst (run_view_of (b_log b)))
          \<and> (rs_terminated st \<and> \<not> rs_ended st \<longrightarrow> rs_sawActivity st)
          \<and> (b_wedged b \<longrightarrow> rs_terminated st))
     \<and> (\<forall>t p. (t, p) \<in> set (b_pending b) \<longrightarrow> reopens_ok b (p_run p))
     \<and> runs_in_order (b_log b) \<and> (takes_updates b \<longrightarrow> run_open (b_log b))"

lemma log_inv_cong:
  assumes "b_log b' = b_log b" "b_run b' = b_run b" "b_uuids b' = b_uuids b" "b_wedged b' = b_wedged b"
    "b_pending b' = b_pending b"
  shows "log_inv d b' = log_inv d b"
proof -
  have "reopens_ok b' = reopens_ok b" "live_run b' = live_run b" "takes_updates b' = takes_updates b"
    using assms(1,2) by (auto simp: reopens_ok_def [abs_def] live_run_def takes_updates_def)
  with assms show ?thesis by (simp add: log_inv_def)
qed

lemma live_run_same: "same_run (b_run b) (b_run b') \<Longrightarrow> live_run b' = live_run b"
  by (auto simp: live_run_def same_run_def split: option.splits)

lemma live_run_quiet: "quiet b b' \<Longrightarrow> live_run b' = live_run b"
  by (simp add: quiet_def live_run_same)

lemma reopens_ok_quiet: "quiet b b' \<Longrightarrow> reopens_ok b run \<Longrightarrow> reopens_ok b' run"
  by (auto simp: reopens_ok_def quiet_def same_run_def split: option.splits)

lemma log_inv_quiet: "log_inv d b \<Longrightarrow> quiet b b' \<Longrightarrow> log_inv d b'"
proof -
  assume inv: "log_inv d b" and q: "quiet b b'"
  have view: "run_view_of (b_log b') = run_view_of (b_log b)" "live_run b' = live_run b" "b_uuids b \<le> b_uuids b'"
      "b_wedged b' = b_wedged b"
    using q by (auto simp: quiet_def intro: live_run_same)
  have run: "\<exists>st0. b_run b = Some st0 \<and> rs_runId st = rs_runId st0 \<and> rs_terminated st = rs_terminated st0
      \<and> (rs_ended st0 \<longrightarrow> rs_ended st) \<and> (rs_sawActivity st0 \<longrightarrow> rs_sawActivity st)" if "b_run b' = Some st" for st
    using q that by (auto simp: quiet_def same_run_def split: option.splits)
  have pend: "reopens_ok b' (p_run p)" if "(t, p) \<in> set (b_pending b')" for t p
    using q that inv reopens_ok_quiet [OF q] by (auto simp: quiet_def log_inv_def)
  have order: "runs_in_order (b_log b')" "takes_updates b' \<longrightarrow> run_open (b_log b')"
    using q inv adds_to_log_order [of b b'] takes_updates_same [of b b'] by (auto simp: quiet_def log_inv_def)
  have ids: "\<exists>k < b_uuids b'. r = mint d ''run'' k" if "r \<in> set (fst (run_view_of (b_log b)))" for r
    using inv that view(3) unfolding log_inv_def by (meson order_less_le_trans)
  have cur: "rs_runId st \<in> set (fst (run_view_of (b_log b))) \<and> (rs_terminated st \<and> \<not> rs_ended st \<longrightarrow> rs_sawActivity st)
      \<and> (b_wedged b \<longrightarrow> rs_terminated st)" if "b_run b' = Some st" for st
    using run [OF that] inv unfolding log_inv_def by metis
  have "snd (snd (run_view_of (b_log b)))" "fst (snd (run_view_of (b_log b))) = live_run b"
    using inv by (simp_all add: log_inv_def)
  then show ?thesis
    unfolding log_inv_def view(1,2,4) using ids cur pend order by blast
qed

text \<open>The terminal event of the current run.\<close>

definition terminal_of :: "run_state \<Rightarrow> agui_base \<Rightarrow> bool" where
  "terminal_of st base \<longleftrightarrow>
     (\<exists>m c. base = RUN_ERROR m c None) \<or> (\<exists>t c. base = RUN_FINISHED t (rs_runId st) None None c None)"

lemma log_inv_terminal:
  assumes "log_inv d b" and "b_run b = Some st" and "\<not> rs_terminated st"
    and "rs_runId (g st) = rs_runId st" and "rs_terminated (g st)" and "rs_ended (g st)"
    and "\<And>st. rs_sawActivity (g st) = rs_sawActivity st"
    and "quiet (upd_run g b) b1" and "terminal_of st base"
  shows "log_inv d (emit d base b1)"
proof -
  obtain seen where view: "run_view_of (b_log b) = (seen, Some (rs_runId st), True)"
    using assms(1-3) by (cases "run_view_of (b_log b)") (auto simp: log_inv_def live_run_def)
  have "run_view_of (b_log b1) = run_view_of (b_log b)" using assms(8) by (simp add: quiet_def)
  then have view1: "run_view_of (b_log (emit d base b1)) = (seen, None, True)"
    using view assms(9) by (auto simp: run_view_emit terminal_of_def)
  obtain st1 where run1: "b_run b1 = Some st1" "rs_runId st1 = rs_runId st" "rs_terminated st1" "rs_ended st1"
      "rs_sawActivity st \<longrightarrow> rs_sawActivity st1"
    using assms(2,4-8) by (auto simp: quiet_def same_run_def split: option.splits)
  have uuids: "b_uuids b \<le> b_uuids b1" using assms(8) by (simp add: quiet_def)
  have pend: "reopens_ok (emit d base b1) (p_run p)" if "(t, p) \<in> set (b_pending b1)" for t p
  proof -
    have "(t, p) \<in> set (b_pending b)" using assms(8) that by (auto simp: quiet_def)
    then have "reopens_ok b (p_run p)" using assms(1) by (auto simp: log_inv_def)
    then show ?thesis
      using run1 assms(2) view view1 by (auto simp: reopens_ok_def split: option.splits)
  qed
  have "\<forall>r \<in> set seen. \<exists>k < b_uuids b. r = mint d ''run'' k" "rs_runId st \<in> set seen"
    using assms(1,2) view by (auto simp: log_inv_def)
  moreover from this(1) have "\<forall>r \<in> set seen. \<exists>k < b_uuids b1. r = mint d ''run'' k"
    using uuids order_less_le_trans by blast
  moreover have "runs_in_order (b_log (emit d base b1))"
  proof -
    have "runs_in_order (b_log b1)"
      using assms(1,2,6,8) adds_to_log_order [of "upd_run g b" b1] by (simp add: quiet_def log_inv_def takes_updates_def)
    moreover have "log_allowed seen op base" for seen op using assms(9) by (auto simp: terminal_of_def)
    ultimately show ?thesis using assms(9) by (auto simp: b_log_emit runs_in_order_snoc ev_base_stamp terminal_of_def)
  qed
  ultimately show ?thesis
    using view1 run1 pend by (auto simp: log_inv_def live_run_def takes_updates_def)
qed

lemma terminated_live_None: "b_run b = Some st \<Longrightarrow> rs_terminated st \<Longrightarrow> live_run b = None"
  by (simp add: live_run_def)

text \<open>The current run is let go once it is terminated.\<close>

lemma log_inv_run_gone:
  assumes "log_inv d b" and "live_run b = None"
  shows "log_inv d (b\<lparr>b_run := None, b_completions := c\<rparr>)"
  using assms by (auto simp: log_inv_def live_run_def reopens_ok_def takes_updates_def split: option.splits)

lemma mint_inj: "inj (d_uuid d) \<Longrightarrow> mint d p k = mint d p k' \<Longrightarrow> k = k'"
  by (auto simp: mint_def dest: injD)

text \<open>A new run, when none is live.\<close>

definition start_run :: "bridge_deps \<Rightarrow> bridge \<Rightarrow> bridge" where
  "start_run d b =
     (let input = qi_input (hd (b_batch b)); r = mint d ''run'' (b_uuids b)
      in emit d (RUN_STARTED (in_threadId input) r None None)
           (b\<lparr>b_uuids := Suc (b_uuids b), b_run := Some (fresh_run r input (b_now b)), b_outcomeError := False,
              b_wedged := False, b_thisTurn := [], b_hookContext := [], b_lastRun := r\<rparr>))"

lemma begin_run_start:
  "\<exists>tail. begin_run d ap b = tail\<lparr>b_pc := AtResolve\<rparr> \<and> quiet (start_run d b) tail"
proof -
  define mid where "mid = (if d_livenessProbeMs d > 0
      then upd_run (\<lambda>st. st\<lparr>rs_livenessTimer := True\<rparr>) (arm_activity d (start_run d b))
      else arm_activity d (start_run d b))"
  have "begin_run d ap b =
      (foldl (persist_input d) mid (if ap then [] else map qi_input (b_batch mid)))\<lparr>b_pc := AtResolve\<rparr>"
    unfolding begin_run_def start_run_def nextId_def Let_def mid_def by simp
  moreover have q: "quiet (start_run d b) mid"
    unfolding mid_def arm_activity_def by (auto intro!: quiet_upd_after)
  have "takes_updates (start_run d b)" by (simp add: takes_updates_def start_run_def fresh_run_def Let_def)
  with q have "quiet (start_run d b) (foldl (persist_input d) mid xs)" for xs
    by (rule quiet_persist_inputs)
  ultimately show ?thesis by blast
qed

lemma log_inv_begin_run:
  assumes "log_inv d b" and "b_run b = None" and "inj (d_uuid d)"
  shows "log_inv d (begin_run d ap b)"
proof -
  define r where "r = mint d ''run'' (b_uuids b)"
  define b3 where "b3 = start_run d b"
  obtain seen where view: "run_view_of (b_log b) = (seen, None, True)"
    using assms(1,2) by (cases "run_view_of (b_log b)") (auto simp: log_inv_def live_run_def)
  have ids: "\<forall>r' \<in> set seen. \<exists>k < b_uuids b. r' = mint d ''run'' k"
    using assms(1) view by (auto simp: log_inv_def)
  then have fresh: "r \<notin> set seen" using mint_inj [OF assms(3)] by (auto simp: r_def)
  have view3: "run_view_of (b_log b3) = (r # seen, Some r, True)"
    using view fresh by (simp add: b3_def start_run_def r_def Let_def run_view_emit)
  have "reopens_ok b3 (p_run p)" if "(t, p) \<in> set (b_pending b)" for t p
  proof -
    have "reopens_ok b (p_run p)" using assms(1) that by (auto simp: log_inv_def)
    then show ?thesis
      using view view3 fresh by (auto simp: reopens_ok_def b3_def start_run_def Let_def r_def fresh_run_def split: option.splits)
  qed
  moreover have "\<forall>r' \<in> set (r # seen). \<exists>k < Suc (b_uuids b). r' = mint d ''run'' k"
    using ids less_SucI unfolding r_def by (metis lessI set_ConsD)
  moreover have "runs_in_order (b_log b3)" "run_open (b_log b3)"
    using assms(1) by (auto simp: log_inv_def b3_def start_run_def Let_def b_log_emit runs_in_order_snoc run_open_snoc ev_base_stamp is_run_started_def)
  ultimately have inv3: "log_inv d b3"
    using view3 by (auto simp: log_inv_def live_run_def b3_def start_run_def Let_def r_def fresh_run_def)
  obtain tail where tail: "begin_run d ap b = tail\<lparr>b_pc := AtResolve\<rparr>" "quiet b3 tail"
    using begin_run_start [of d ap b] unfolding b3_def by blast
  have "log_inv d tail" using inv3 tail(2) by (rule log_inv_quiet)
  then show ?thesis unfolding tail(1) by (subst log_inv_cong [of _ tail]) simp_all
qed

lemma log_inv_fields:
  "log_inv d (b\<lparr>b_pc := pc\<rparr>) = log_inv d b"
  "log_inv d (b\<lparr>b_attempt := a\<rparr>) = log_inv d b"
  "log_inv d (b\<lparr>b_queue := q\<rparr>) = log_inv d b"
  "log_inv d (b\<lparr>b_batch := q\<rparr>) = log_inv d b"
  "log_inv d (b\<lparr>b_runningBatch := q\<rparr>) = log_inv d b"
  "log_inv d (b\<lparr>b_settled := s\<rparr>) = log_inv d b"
  "log_inv d (b\<lparr>b_pumping := p\<rparr>) = log_inv d b"
  by (rule log_inv_cong; simp)+

text \<open>What is done to the queue between runs is quiet for the log.\<close>

lemma log_inv_pump_loop:
  assumes "log_inv d b" and "b_run b = None" and "inj (d_uuid d)"
  shows "log_inv d (pump_loop d b)"
proof (cases "take_batch (b_queue b)")
  case None
  then show ?thesis
    using assms(1) by (subst log_inv_cong [of _ b]) (simp_all add: pump_loop_def clearInterruptTimer_def)
next
  case (Some br)
  then obtain batch rest where br: "take_batch (b_queue b) = Some (batch, rest)" by (cases br) auto
  define b1 where "b1 = b\<lparr>b_queue := rest, b_runningBatch := batch, b_batch := batch, b_attempt := 0\<rparr>"
  define b2 where "b2 = clearInterruptTimer (emitQueueSnapshot d b1)"
  have "log_inv d b1" using assms(1) by (simp add: b1_def log_inv_fields)
  moreover have "quiet b1 b2"
    by (auto simp: b2_def clearInterruptTimer_def emitQueueSnapshot_def intro!: quiet_chain)
  ultimately have "log_inv d b2" by (rule log_inv_quiet)
  moreover have "b_run b2 = None"
    using assms(2) by (simp add: b2_def b1_def clearInterruptTimer_def emitQueueSnapshot_def)
  ultimately have "log_inv d (begin_run d False b2)" using assms(3) by (rule log_inv_begin_run)
  then show ?thesis by (simp add: pump_loop_def br b2_def b1_def)
qed

lemma same_run_None: "same_run None r \<Longrightarrow> r = None"
  by (auto simp: same_run_def split: option.splits)

lemma log_inv_batch_done:
  assumes "log_inv d b" and "b_run b = None" and "inj (d_uuid d)"
  shows "log_inv d (batch_done d b)"
proof -
  define b1 where "b1 = b\<lparr>b_settled := b_settled b @ map (\<lambda>q. (qi_ref q, Resolved (b_lastRun b))) (b_batch b),
      b_batch := [], b_runningBatch := []\<rparr>"
  have "log_inv d b1" using assms(1) by (simp add: b1_def log_inv_fields)
  then have "log_inv d (applyPreemption d b1)" using quiet_applyPreemption by (rule log_inv_quiet)
  moreover have "b_run (applyPreemption d b1) = None"
    using quiet_applyPreemption [of b1 d] assms(2) by (auto simp: quiet_def b1_def dest: same_run_None)
  ultimately show ?thesis
    using log_inv_pump_loop assms(3) by (simp add: batch_done_def b1_def)
qed

lemma log_inv_run_returns:
  assumes "log_inv d b" and "live_run b = None" and "inj (d_uuid d)"
  shows "log_inv d (run_returns d rt b)"
proof -
  define b1 where "b1 = b\<lparr>b_run := None, b_completions := b_completions b @ [\<not> b_outcomeError b]\<rparr>"
  have b1: "log_inv d b1" "b_run b1 = None"
    using log_inv_run_gone [OF assms(1,2)] by (simp_all add: b1_def)
  have "log_inv d (emit d (RUN_RETRYING t a m dl c) b1)" for t a m dl c
    by (rule log_inv_quiet [OF b1(1)]) (auto intro!: quiet_chain)
  then show ?thesis
    using log_inv_batch_done [OF b1 assms(3)]
    by (auto simp: run_returns_def after_run_def Let_def b1_def [symmetric] log_inv_fields)
qed

text \<open>The ends of a run.\<close>

lemma ended_closed:
  assumes "b_run (close_open d (upd_run (\<lambda>st. st\<lparr>rs_ended := True\<rparr>) b)) = Some st"
  shows "rs_ended st"
  using quiet_close_open [of "upd_run (\<lambda>st. st\<lparr>rs_ended := True\<rparr>) b" d] assms
  by (auto simp: quiet_def same_run_def split: option.splits)

lemma quiet_ended_closed: "quiet b (close_open d (upd_run (\<lambda>st. st\<lparr>rs_ended := True\<rparr>) b))"
  by (rule quiet_trans [OF quiet_upd_run quiet_close_open]) auto

text \<open>A run marked ended gets its terminal event and is returned.\<close>

lemma log_inv_end:
  assumes "log_inv d b" and "b_run b = Some st" and "rs_ended st" and "\<not> rs_terminated st" and "terminal_of st base"
    and "inj (d_uuid d)" and "quiet (emit d base (upd_run (\<lambda>st. st\<lparr>rs_terminated := True\<rparr>) b)) b'"
  shows "log_inv d (run_returns d rt b')"
proof -
  let ?b1 = "emit d base (upd_run (\<lambda>st. st\<lparr>rs_terminated := True\<rparr>) b)"
  have "log_inv d ?b1"
    using assms(1,2,4)
    by (rule log_inv_terminal [where g = "\<lambda>st. st\<lparr>rs_terminated := True\<rparr>"]) (use assms in auto)
  moreover have "live_run ?b1 = None" using assms(2) by (simp add: live_run_def)
  ultimately have "log_inv d b'" "live_run b' = None"
    using assms(7) log_inv_quiet live_run_quiet by metis+
  then show ?thesis using assms(6) by (rule log_inv_run_returns)
qed

lemma log_inv_finish_run:
  assumes "log_inv d b0" and "inj (d_uuid d)"
  shows "log_inv d (finish_run d reason b0)"
proof -
  define b where "b = close_open d (upd_run (\<lambda>st. st\<lparr>rs_ended := True\<rparr>) b0)"
  have inv: "log_inv d b" unfolding b_def using assms(1) quiet_ended_closed by (rule log_inv_quiet)
  show ?thesis
  proof (cases "b_run b")
    case None
    then show ?thesis using inv by (simp add: finish_run_def b_def [symmetric] Let_def)
  next
    case (Some st)
    have ended: "rs_ended st" using Some unfolding b_def by (rule ended_closed)
    have fin: "log_inv d (run_returns d rt (emit d (RUN_FINISHED t (rs_runId st) None None c None)
        (upd_run (\<lambda>st. st\<lparr>rs_terminated := True\<rparr>) b)))" if "\<not> rs_terminated st" for rt t c
      by (rule log_inv_end [OF inv Some ended that _ assms(2) quiet_refl]) (simp add: terminal_of_def)
    have err: "log_inv d (run_returns d rt b')" if "\<not> rs_terminated st"
        "quiet (emit d (RUN_ERROR m c None) (upd_run (\<lambda>st. st\<lparr>rs_terminated := True\<rparr>) b)) b'" for rt m c b'
      by (rule log_inv_end [OF inv Some ended that(1) _ assms(2) that(2)]) (simp add: terminal_of_def)
    have err0: "log_inv d (run_returns d rt ((emit d (RUN_ERROR m c None)
        (upd_run (\<lambda>st. st\<lparr>rs_terminated := True\<rparr>) b))\<lparr>b_outcomeError := True\<rparr>))" if "\<not> rs_terminated st" for rt m c
      by (rule err [OF that, of m c]) simp
    have "log_inv d (run_returns d rt b)" if "rs_terminated st" for rt
      using inv Some that assms(2) by (intro log_inv_run_returns) (simp_all add: live_run_def)
    then show ?thesis
      using Some by (auto simp: finish_run_def b_def [symmetric] Let_def intro: fin err0)
  qed
qed

lemma log_inv_run_throws:
  assumes "log_inv d b0" and "inj (d_uuid d)"
  shows "log_inv d (run_throws d raw b0)"
proof -
  define b where "b = noteRunDiagnostic raw (close_open d (upd_run (\<lambda>st. st\<lparr>rs_ended := True\<rparr>) b0))"
  have inv: "log_inv d b"
    unfolding b_def
    by (rule log_inv_quiet [OF assms(1)]) (rule quiet_trans [OF quiet_ended_closed quiet_noteRunDiagnostic])
  show ?thesis
  proof (cases "b_run b")
    case None
    then show ?thesis using inv by (simp add: run_throws_def b_def [symmetric] Let_def)
  next
    case (Some st)
    then have ended: "rs_ended st" unfolding b_def using ended_closed by simp
    have fin: "log_inv d (run_returns d rt (emit d (RUN_FINISHED t (rs_runId st) None None c None)
        (upd_run (\<lambda>st. st\<lparr>rs_terminated := True\<rparr>) b)))" if "\<not> rs_terminated st" for rt t c
      by (rule log_inv_end [OF inv Some ended that _ assms(2) quiet_refl]) (simp add: terminal_of_def)
    have err: "log_inv d (run_returns d rt b')" if "\<not> rs_terminated st"
        "quiet (emit d (RUN_ERROR m c None) (upd_run (\<lambda>st. st\<lparr>rs_terminated := True\<rparr>) b)) b'" for rt m c b'
      by (rule log_inv_end [OF inv Some ended that(1) _ assms(2) that(2)]) (simp add: terminal_of_def)
    have "log_inv d (run_returns d rt b)" if "rs_terminated st" for rt
      using inv Some that assms(2) by (intro log_inv_run_returns) (simp_all add: live_run_def)
    moreover have "log_inv d (run_returns d rt (upd_run (\<lambda>st. st\<lparr>rs_retryable := c\<rparr>)
        ((emit d (RUN_ERROR m None None) (upd_run (\<lambda>st. st\<lparr>rs_terminated := True\<rparr>) b))\<lparr>b_outcomeError := True\<rparr>)))"
      if "\<not> rs_terminated st" for rt m c
      by (rule err [OF that, of m None]) (auto intro!: quiet_upd_after)
    moreover have "log_inv d (run_returns d rt ((upd_run (\<lambda>st. st\<lparr>rs_retryable := c\<rparr>)
        ((emit d (RUN_ERROR m None None) (upd_run (\<lambda>st. st\<lparr>rs_terminated := True\<rparr>) b))\<lparr>b_outcomeError := True\<rparr>))\<lparr>b_sessions := ss\<rparr>))"
      if "\<not> rs_terminated st" for rt m c ss
      by (rule err [OF that, of m None]) (auto intro!: quiet_upd_after)
    ultimately show ?thesis
      using Some by (simp add: run_throws_def b_def [symmetric] Let_def fin)
  qed
qed

lemma log_inv_wedge_run:
  assumes "log_inv d b" and "b_run b = Some st" and "\<not> rs_terminated st"
  shows "log_inv d (wedge_run d m c b)"
proof -
  define b1 where "b1 = close_open d (upd_run (\<lambda>st. st\<lparr>rs_ended := True, rs_terminated := True\<rparr>) b)"
  define b2 where "b2 = emit d (RUN_ERROR m (Some c) None) b1"
  define b3 where "b3 = bridge_cancel d False (dropCachedSession d
      (upd_run (\<lambda>st. st\<lparr>rs_retryable := True\<rparr>) (b2\<lparr>b_outcomeError := True\<rparr>)))"
  have inv2: "log_inv d b2"
    unfolding b2_def b1_def using assms(1-3)
    by (rule log_inv_terminal [where g = "\<lambda>st. st\<lparr>rs_ended := True, rs_terminated := True\<rparr>"])
      (auto simp: terminal_of_def intro: quiet_close_open)
  have q: "quiet b2 b3"
    unfolding b3_def
    by (rule quiet_trans [OF _ quiet_bridge_cancel], rule quiet_trans [OF _ quiet_dropCachedSession])
      (auto intro!: quiet_upd_after)
  have "quiet (upd_run (\<lambda>st. st\<lparr>rs_ended := True, rs_terminated := True\<rparr>) b) b1"
    unfolding b1_def by (rule quiet_close_open)
  then have ended: "\<exists>st. b_run b2 = Some st \<and> rs_terminated st"
    using assms(2) by (auto simp: quiet_def same_run_def b2_def split: option.splits)
  have "log_inv d b3" using inv2 q by (rule log_inv_quiet)
  moreover have "\<exists>st. b_run b3 = Some st \<and> rs_terminated st"
    using q ended by (auto simp: quiet_def same_run_def split: option.splits)
  ultimately have "log_inv d (b3\<lparr>b_wedged := True\<rparr>)"
    by (auto simp: log_inv_def live_run_def reopens_ok_def takes_updates_def split: option.splits)
  then show ?thesis by (simp add: wedge_run_def Let_def b3_def b2_def b1_def)
qed

lemma log_inv_activity_timer:
  assumes "log_inv d b"
  shows "log_inv d (activity_timer_fires d recent b)"
proof (cases "b_run b")
  case None
  then show ?thesis using assms by (simp add: activity_timer_fires_def)
next
  case (Some st)
  define b1 where "b1 = upd_run (\<lambda>st. st\<lparr>rs_activityTimer := False\<rparr>) b"
  have inv1: "log_inv d b1" unfolding b1_def by (rule log_inv_quiet [OF assms]) (auto intro!: quiet_upd_after)
  have run1: "b_run b1 = Some (st\<lparr>rs_activityTimer := False\<rparr>)" using Some by (simp add: b1_def)
  have "rs_terminated st \<Longrightarrow> rs_sawActivity st \<or> rs_ended st" using assms Some by (auto simp: log_inv_def)
  then show ?thesis
    using inv1 Some log_inv_wedge_run [OF inv1 run1]
    by (auto simp: activity_timer_fires_def Let_def b1_def [symmetric])
qed

lemma log_inv_liveness_timer:
  assumes "log_inv d b"
  shows "log_inv d (liveness_timer_fires d alive b)"
proof (cases "b_run b")
  case None
  then show ?thesis using assms by (simp add: liveness_timer_fires_def)
next
  case (Some st)
  define b1 where "b1 = upd_run (\<lambda>st. st\<lparr>rs_livenessTimer := False\<rparr>) b"
  have inv1: "log_inv d b1" unfolding b1_def by (rule log_inv_quiet [OF assms]) (auto intro!: quiet_upd_after)
  have run1: "b_run b1 = Some (st\<lparr>rs_livenessTimer := False\<rparr>)" using Some by (simp add: b1_def)
  then show ?thesis
    using inv1 assms Some log_inv_wedge_run [OF inv1 run1]
    by (auto simp: liveness_timer_fires_def b1_def [symmetric])
qed

text \<open>Requests and answers.\<close>

lemma log_inv_add_pending:
  assumes "log_inv d b" and "reopens_ok b (p_run p)"
  shows "log_inv d (b\<lparr>b_pending := AList.update t p (b_pending b)\<rparr>)"
proof -
  have "reopens_ok (b\<lparr>b_pending := AList.update t p (b_pending b)\<rparr>) = reopens_ok b"
    by (simp add: reopens_ok_def [abs_def])
  moreover have "takes_updates (b\<lparr>b_pending := AList.update t p (b_pending b)\<rparr>) = takes_updates b" by (simp add: takes_updates_def)
  ultimately show ?thesis
    using assms set_update_subset [of t p "b_pending b"]
    by (fastforce simp: log_inv_def live_run_def)
qed

lemma may_log_interrupt:
  "may_log b (RUN_FINISHED t r res (Some (OutcomeInterrupt ints)) c i) \<longleftrightarrow> r \<in> set (fst (run_view_of (b_log b))) \<or> no_run_id r"
  by (simp add: may_log_def ends_own_run_def)

lemma log_inv_onPermissionRequest:
  assumes "log_inv d b"
  shows "log_inv d (onPermissionRequest d req b)"
proof -
  define run where "run = map_option (\<lambda>st. (rs_threadId st, rs_runId st)) (b_run b)"
  define b1 where "b1 = (if run \<noteq> None then closeOpenReasoning d (closeOpenText d (noteActivity b)) else b)"
  define p where "p = \<lparr>p_run = run, p_validOptions = map po_optionId (pr_options req), p_external = False, p_abandoned = False\<rparr>"
  have q: "quiet (noteActivity b) (closeOpenReasoning d (closeOpenText d (noteActivity b)))"
    by (rule quiet_trans [OF quiet_closeOpenText quiet_closeOpenReasoning])
  then have "quiet b b1" unfolding b1_def using quiet_noteActivity quiet_trans by auto
  then have inv1: "log_inv d b1" using assms log_inv_quiet by blast
  have ok: "reopens_ok b1 run"
  proof (cases "b_run b")
    case None
    then show ?thesis by (simp add: run_def reopens_ok_def)
  next
    case (Some st)
    have "b_run (noteActivity b) = Some (if rs_sawActivity st then st else st\<lparr>rs_sawActivity := True, rs_activityTimer := False\<rparr>)"
      using Some by (simp add: noteActivity_def)
    then obtain st1 where st1: "b_run b1 = Some st1" "rs_runId st1 = rs_runId st" "rs_sawActivity st1"
      using q Some by (auto simp: quiet_def same_run_def b1_def run_def split: option.splits if_splits)
    moreover have "rs_runId st1 \<in> set (fst (run_view_of (b_log b1)))" using inv1 st1(1) by (auto simp: log_inv_def)
    ultimately show ?thesis using Some by (auto simp: run_def reopens_ok_def)
  qed
  then have "log_inv d (b1\<lparr>b_pending := AList.update (pr_toolCallId req) p (b_pending b1)\<rparr>)"
    using inv1 by (intro log_inv_add_pending) (simp_all add: p_def)
  then show ?thesis
    unfolding onPermissionRequest_def Let_def run_def [symmetric] b1_def [symmetric] p_def [symmetric]
    by (rule log_inv_quiet) (use ok in \<open>auto intro!: quiet_chain simp: may_log_interrupt reopens_ok_def no_run_id_def split: option.splits\<close>)
qed

lemma log_inv_reopen_run:
  assumes "log_inv d b" and "\<And>st. b_run b = Some st \<Longrightarrow> rs_runId st = r \<Longrightarrow> rs_sawActivity st" and "run_open (b_log b)"
  shows "log_inv d (reopen_run r b)"
proof -
  have "reopens_ok (reopen_run r b) x = reopens_ok b x" for x
    by (cases "b_run b") (auto simp: reopens_ok_def reopen_run_def split: option.split)
  moreover have "live_run (reopen_run r b) = live_run b"
    by (simp add: live_run_def reopen_run_def split: option.split)
  ultimately show ?thesis
    using assms by (auto simp: log_inv_def reopen_run_def)
qed

lemma log_inv_permission_resumes:
  assumes "log_inv d b" and "reopens_ok b run"
  shows "log_inv d (permission_resumes d t run x res b)"
proof -
  define b1 where "b1 = persist d (PERMISSION_RESOLVED t x) (b\<lparr>b_pending := AList.delete t (b_pending b)\<rparr>)"
  have "quiet b (b\<lparr>b_pending := AList.delete t (b_pending b)\<rparr>)"
    using set_delete_subset [of t "b_pending b"] by (simp add: quiet_def)
  then have q1: "quiet b b1" unfolding b1_def by (auto intro!: quiet_chain)
  then have inv1: "log_inv d b1" and ok1: "reopens_ok b1 run"
    using assms log_inv_quiet reopens_ok_quiet by blast+
  have re: "log_inv d (reopen_run r (emit d (RUN_STARTED th r None None) b1))" if "run = Some (th, r)" for th r
  proof -
    have "r \<in> set (fst (run_view_of (b_log b1)))" using ok1 that by (simp add: reopens_ok_def)
    then have "quiet b1 (emit d (RUN_STARTED th r None None) b1)"
      by (cases "run_view_of (b_log b1)") (simp add: quiet_def run_view_emit adds_to_log_emit may_log_def ends_own_run_def)
    then have "log_inv d (emit d (RUN_STARTED th r None None) b1)" using inv1 log_inv_quiet by blast
    then show ?thesis
      by (rule log_inv_reopen_run) (use ok1 that in \<open>auto simp: reopens_ok_def b_log_emit run_open_snoc ev_base_stamp is_run_started_def\<close>)
  qed
  have answers: "log_inv d (b'\<lparr>b_answers := as\<rparr>) = log_inv d b'" for b' as
    by (rule log_inv_cong) simp_all
  show ?thesis
    unfolding permission_resumes_def Let_def b1_def [symmetric]
    using inv1 re by (auto simp: answers split: option.split)
qed

lemma log_inv_answerPermission:
  assumes "log_inv d b"
  shows "log_inv d (snd (answerPermission d t x ap res b))"
proof (cases "map_of (b_pending b) t")
  case None
  then show ?thesis using assms by (simp add: answerPermission_def)
next
  case (Some p)
  then have ok: "reopens_ok b (p_run p)" using assms map_of_SomeD [OF Some] by (auto simp: log_inv_def)
  have "quiet b (b\<lparr>b_pending := AList.delete t (b_pending b)\<rparr>)"
    using set_delete_subset [of t "b_pending b"] by (simp add: quiet_def)
  then have "log_inv d ((persist d (PERMISSION_RESOLVED t c) (b\<lparr>b_pending := AList.delete t (b_pending b)\<rparr>))
      \<lparr>b_external := e\<rparr>)" for c e
    by (intro log_inv_quiet [OF assms]) (auto intro!: quiet_chain)
  then show ?thesis
    using Some log_inv_permission_resumes [OF assms ok] by (auto simp: answerPermission_def Let_def)
qed

lemma log_inv_raiseInterrupt:
  assumes "log_inv d b"
  shows "log_inv d (raiseInterrupt d i m os meta b)"
proof -
  have "log_inv d (b\<lparr>b_pending := AList.update i
      \<lparr>p_run = None, p_validOptions = map po_optionId os, p_external = True, p_abandoned = False\<rparr> (b_pending b)\<rparr>)"
    by (rule log_inv_add_pending [OF assms]) (simp add: reopens_ok_def)
  then show ?thesis
    unfolding raiseInterrupt_def by (rule log_inv_quiet) (auto intro!: quiet_emit_after simp: may_log_interrupt no_run_id_def)
qed

end
