(* ===== verification/Bridge_Pump.thy ===== *)
theory Bridge_Pump
  imports Bridge_Steps
begin

text \<open>
  The pump of a bridge over any history of inputs: every message given to \<^verbatim>\<open>prompt()\<close> is waiting,
  in the running batch or settled, never two of these, and retries stay within their budget. With
  the log invariant of \<open>Bridge_Steps\<close> this gives the theorems on histories at the end.
\<close>

subsection \<open>The pump invariant\<close>

definition accounted :: "bridge \<Rightarrow> nat list" where
  "accounted b = map qi_ref (b_queue b) @ map qi_ref (b_batch b) @ map fst (b_settled b)"

definition in_run :: "pump_pc \<Rightarrow> bool" where
  "in_run pc \<longleftrightarrow> pc \<noteq> PumpIdle \<and> pc \<noteq> AtBackoff"

definition pump_inv :: "bridge_deps \<Rightarrow> nat \<Rightarrow> bridge \<Rightarrow> bool" where
  "pump_inv d n b \<longleftrightarrow>
     distinct (accounted b) \<and> length (accounted b) = n \<and> (\<forall>r \<in> set (accounted b). r < b_uuids b)
     \<and> b_pumping b = (b_pc b \<noteq> PumpIdle) \<and> (b_pc b = PumpIdle \<longrightarrow> b_queue b = [] \<and> b_batch b = [])
     \<and> (b_pc b \<noteq> PumpIdle \<longrightarrow> b_batch b \<noteq> []) \<and> (b_runningBatch b = [] \<or> b_runningBatch b = b_batch b)
     \<and> b_attempt b \<le> d_retryMax d \<and> (b_run b \<noteq> None) = in_run (b_pc b)"

text \<open>Operations that leave the pump alone.\<close>

definition pump_same :: "bridge \<Rightarrow> bridge \<Rightarrow> bool" where
  "pump_same b b' \<longleftrightarrow>
     b_uuids b \<le> b_uuids b' \<and> (b_run b' = None) = (b_run b = None) \<and> b_pc b' = b_pc b \<and> b_queue b' = b_queue b
     \<and> b_batch b' = b_batch b \<and> b_runningBatch b' = b_runningBatch b \<and> b_settled b' = b_settled b
     \<and> b_pumping b' = b_pumping b \<and> b_attempt b' = b_attempt b"

lemma pump_same_refl [simp]: "pump_same b b"
  by (simp add: pump_same_def)

lemma pump_same_trans: "pump_same a b \<Longrightarrow> pump_same b c \<Longrightarrow> pump_same a c"
  by (simp add: pump_same_def)

lemma pump_same_quiet: "quiet b b' \<Longrightarrow> pump_same b b'"
  by (auto simp: quiet_def pump_same_def same_run_def split: option.splits)

lemma pump_same_emit: "pump_same a b \<Longrightarrow> pump_same a (emit d base b)"
  by (simp add: pump_same_def)

lemma pump_same_upd_run: "pump_same a b \<Longrightarrow> pump_same a (upd_run f b)"
  by (simp add: pump_same_def)

lemma pump_same_after_quiet: "pump_same a b \<Longrightarrow> quiet b b' \<Longrightarrow> pump_same a b'"
  using pump_same_trans pump_same_quiet by blast

lemma pump_same_fields [simp]:
  "pump_same a (b\<lparr>b_outcomeError := e\<rparr>) = pump_same a b"
  "pump_same a (b\<lparr>b_sessions := ss\<rparr>) = pump_same a b"
  "pump_same a (b\<lparr>b_wedged := w\<rparr>) = pump_same a b"
  "pump_same a (b\<lparr>b_pending := p\<rparr>) = pump_same a b"
  "pump_same a (b\<lparr>b_answers := as\<rparr>) = pump_same a b"
  "pump_same a (b\<lparr>b_external := es\<rparr>) = pump_same a b"
  "pump_same a (b\<lparr>b_now := now\<rparr>) = pump_same a b"
  "pump_same a (b\<lparr>b_generation := g\<rparr>) = pump_same a b"
  "pump_same a (b\<lparr>b_terminalCommands := t\<rparr>) = pump_same a b"
  by (simp_all add: pump_same_def)

lemmas pump_same_intros = pump_same_emit pump_same_upd_run
  pump_same_after_quiet [OF _ quiet_close_open] pump_same_after_quiet [OF _ quiet_noteRunDiagnostic]

lemma accounted_same: "pump_same b b' \<Longrightarrow> accounted b' = accounted b"
  by (simp add: pump_same_def accounted_def)

lemma pump_inv_same: "pump_inv d n b \<Longrightarrow> pump_same b b' \<Longrightarrow> pump_inv d n b'"
  using accounted_same [of b b'] by (auto simp: pump_inv_def pump_same_def intro: order_less_le_trans)

lemma pump_inv_quiet: "pump_inv d n b \<Longrightarrow> quiet b b' \<Longrightarrow> pump_inv d n b'"
  using pump_inv_same pump_same_quiet by blast

text \<open>Another await of the same run.\<close>

lemma pump_inv_pc: "pump_inv d n b \<Longrightarrow> in_run (b_pc b) \<Longrightarrow> in_run pc \<Longrightarrow> pump_inv d n (b\<lparr>b_pc := pc\<rparr>)"
  by (auto simp: pump_inv_def accounted_def in_run_def)

subsection \<open>Between batches\<close>

definition between :: "bridge_deps \<Rightarrow> nat \<Rightarrow> bridge \<Rightarrow> bool" where
  "between d n b \<longleftrightarrow>
     distinct (accounted b) \<and> length (accounted b) = n \<and> (\<forall>r \<in> set (accounted b). r < b_uuids b)
     \<and> b_pumping b \<and> b_batch b = [] \<and> b_runningBatch b = [] \<and> b_attempt b \<le> d_retryMax d \<and> b_run b = None"

lemma between_quiet: "between d n b \<Longrightarrow> quiet b b' \<Longrightarrow> between d n b'"
  using accounted_same [OF pump_same_quiet, of b b']
  by (auto simp: between_def quiet_def intro: order_less_le_trans dest: same_run_None)

lemma begin_run_pump:
  "b_pc (begin_run d ap b) = AtResolve \<and> b_run (begin_run d ap b) \<noteq> None \<and> b_uuids b \<le> b_uuids (begin_run d ap b)
   \<and> b_queue (begin_run d ap b) = b_queue b \<and> b_batch (begin_run d ap b) = b_batch b
   \<and> b_runningBatch (begin_run d ap b) = b_runningBatch b \<and> b_settled (begin_run d ap b) = b_settled b
   \<and> b_pumping (begin_run d ap b) = b_pumping b \<and> b_attempt (begin_run d ap b) = b_attempt b"
proof -
  obtain tail where tail: "begin_run d ap b = tail\<lparr>b_pc := AtResolve\<rparr>" "quiet (start_run d b) tail"
    using begin_run_start by blast
  have "b_run (start_run d b) \<noteq> None \<and> Suc (b_uuids b) = b_uuids (start_run d b)
      \<and> b_queue (start_run d b) = b_queue b \<and> b_batch (start_run d b) = b_batch b
      \<and> b_runningBatch (start_run d b) = b_runningBatch b \<and> b_settled (start_run d b) = b_settled b
      \<and> b_pumping (start_run d b) = b_pumping b \<and> b_attempt (start_run d b) = b_attempt b"
    by (simp add: start_run_def Let_def)
  with pump_same_quiet [OF tail(2)] show ?thesis unfolding tail(1) by (auto simp: pump_same_def)
qed

lemma pump_inv_begin_run:
  assumes "distinct (accounted b)" "length (accounted b) = n" "\<forall>r \<in> set (accounted b). r < b_uuids b"
    "b_pumping b" "b_batch b \<noteq> []" "b_runningBatch b = [] \<or> b_runningBatch b = b_batch b" "b_attempt b \<le> d_retryMax d"
  shows "pump_inv d n (begin_run d ap b)"
proof -
  have "accounted (begin_run d ap b) = accounted b" using begin_run_pump [of d ap b] by (simp add: accounted_def)
  then show ?thesis
    using assms begin_run_pump [of d ap b] by (auto simp: pump_inv_def in_run_def intro: order_less_le_trans)
qed

lemma pump_inv_pump_loop:
  assumes "between d n b"
  shows "pump_inv d n (pump_loop d b)"
proof (cases "take_batch (b_queue b)")
  case None
  then have "b_queue b = []" by (auto simp: take_batch_def Let_def split: option.splits)
  then show ?thesis
    using assms None
    by (auto simp: pump_loop_def clearInterruptTimer_def pump_inv_def between_def accounted_def in_run_def)
next
  case (Some br)
  then obtain batch rest where br: "take_batch (b_queue b) = Some (batch, rest)" by (cases br) auto
  define b2 where "b2 = clearInterruptTimer (emitQueueSnapshot d
      (b\<lparr>b_queue := rest, b_runningBatch := batch, b_batch := batch, b_attempt := 0\<rparr>))"
  have dist: "distinct (map qi_ref (b_queue b))" using assms by (simp add: between_def accounted_def)
  have "mset batch + mset rest = mset (b_queue b)" using dist br by (rule take_batch_mset)
  then have "mset (map qi_ref batch) + mset (map qi_ref rest) = mset (map qi_ref (b_queue b))"
    by (metis image_mset_union mset_map)
  moreover have "accounted b = map qi_ref (b_queue b) @ map fst (b_settled b)"
    using assms by (simp add: between_def accounted_def)
  ultimately have ms: "mset (accounted b2) = mset (accounted b)"
    by (simp add: accounted_def b2_def clearInterruptTimer_def emitQueueSnapshot_def union_commute)
  have acc: "distinct (accounted b2)" "length (accounted b2) = n" "\<forall>r \<in> set (accounted b2). r < b_uuids b2"
    using assms mset_eq_imp_distinct_iff [OF ms] mset_eq_length [OF ms] mset_eq_setD [OF ms]
    by (auto simp: between_def b2_def clearInterruptTimer_def emitQueueSnapshot_def)
  have "batch \<noteq> []" using dist br by (rule take_batch_ne)
  then have "pump_inv d n (begin_run d False b2)"
    using acc assms
    by (intro pump_inv_begin_run) (auto simp: between_def b2_def clearInterruptTimer_def emitQueueSnapshot_def)
  then show ?thesis by (simp add: pump_loop_def br b2_def)
qed

text \<open>A batch whose run is over and not yet settled.\<close>

definition resting :: "bridge_deps \<Rightarrow> nat \<Rightarrow> bridge \<Rightarrow> bool" where
  "resting d n b \<longleftrightarrow>
     distinct (accounted b) \<and> length (accounted b) = n \<and> (\<forall>r \<in> set (accounted b). r < b_uuids b)
     \<and> b_pumping b \<and> b_batch b \<noteq> [] \<and> (b_runningBatch b = [] \<or> b_runningBatch b = b_batch b)
     \<and> b_attempt b \<le> d_retryMax d \<and> b_run b = None"

lemma resting_backoff: "pump_inv d n b \<Longrightarrow> b_pc b = AtBackoff \<Longrightarrow> resting d n b"
  by (auto simp: pump_inv_def resting_def in_run_def)

lemma pump_inv_batch_done:
  assumes "resting d n b"
  shows "pump_inv d n (batch_done d b)"
proof -
  define b1 where "b1 = b\<lparr>b_settled := b_settled b @ map (\<lambda>q. (qi_ref q, Resolved (b_lastRun b))) (b_batch b),
      b_batch := [], b_runningBatch := []\<rparr>"
  have ms: "mset (accounted b1) = mset (accounted b)"
    by (simp add: accounted_def b1_def comp_def)
  have "between d n b1"
    using assms mset_eq_imp_distinct_iff [OF ms] mset_eq_length [OF ms] mset_eq_setD [OF ms]
    by (auto simp: between_def resting_def b1_def)
  then have "between d n (applyPreemption d b1)" using quiet_applyPreemption by (rule between_quiet)
  then show ?thesis by (simp add: batch_done_def b1_def pump_inv_pump_loop)
qed

lemma pump_inv_run_returns:
  assumes "pump_inv d n b" and "in_run (b_pc b)"
  shows "pump_inv d n (run_returns d rt b)"
proof -
  define b1 where "b1 = b\<lparr>b_run := None, b_completions := b_completions b @ [\<not> b_outcomeError b]\<rparr>"
  have rest: "resting d n b1"
    using assms by (auto simp: b1_def pump_inv_def resting_def accounted_def in_run_def)
  then have "pump_inv d n ((emit d base b1)\<lparr>b_attempt := a, b_pc := AtBackoff\<rparr>)" if "a \<le> d_retryMax d" for base a
    using that by (auto simp: resting_def pump_inv_def accounted_def in_run_def)
  then show ?thesis
    using pump_inv_batch_done [OF rest] by (auto simp: run_returns_def after_run_def Let_def b1_def [symmetric])
qed

subsection \<open>The awaits\<close>

lemma same_returns:
  assumes "pump_inv d n b" and "in_run (b_pc b)" and "pump_same b b'"
  shows "pump_inv d n (run_returns d rt b')"
  using assms by (intro pump_inv_run_returns) (auto intro: pump_inv_same simp: pump_same_def)

lemma pump_inv_finish_run:
  assumes "pump_inv d n b0" and "in_run (b_pc b0)"
  shows "pump_inv d n (finish_run d reason b0)"
proof -
  define b where "b = close_open d (upd_run (\<lambda>st. st\<lparr>rs_ended := True\<rparr>) b0)"
  have "pump_same b0 b" unfolding b_def by (auto intro!: pump_same_intros)
  then show ?thesis
    using pump_inv_same [OF assms(1)]
    by (auto simp: finish_run_def b_def [symmetric] Let_def intro!: same_returns [OF assms] pump_same_intros
        split: option.split)
qed

lemma pump_inv_run_throws:
  assumes "pump_inv d n b0" and "in_run (b_pc b0)"
  shows "pump_inv d n (run_throws d raw b0)"
proof -
  define b where "b = noteRunDiagnostic raw (close_open d (upd_run (\<lambda>st. st\<lparr>rs_ended := True\<rparr>) b0))"
  have "pump_same b0 b" unfolding b_def by (auto intro!: pump_same_intros)
  then show ?thesis
    using pump_inv_same [OF assms(1)]
    by (auto simp: run_throws_def b_def [symmetric] Let_def intro!: same_returns [OF assms] pump_same_intros
        split: option.split)
qed

lemma pump_same_wedge_run: "pump_same b (wedge_run d m c b)"
  unfolding wedge_run_def Let_def
  by (auto intro!: pump_same_intros pump_same_after_quiet [OF _ quiet_bridge_cancel]
      pump_same_after_quiet [OF _ quiet_dropCachedSession])

lemma pump_same_timers:
  "pump_same b (activity_timer_fires d recent b)" "pump_same b (liveness_timer_fires d alive b)"
  by (auto simp: activity_timer_fires_def liveness_timer_fires_def Let_def
      intro!: pump_same_upd_run pump_same_trans [OF _ pump_same_wedge_run] split: option.split)

lemma pump_inv_send_prompt:
  assumes "pump_inv d n b" and "in_run (b_pc b)"
  shows "pump_inv d n (send_prompt d blocks k b)"
proof -
  define b1 where "b1 = upd_run (\<lambda>st. st\<lparr>rs_lastText := []\<rparr>) b"
  have inv1: "pump_inv d n b1" "in_run (b_pc b1)"
    using assms pump_inv_same [OF assms(1) pump_same_upd_run [OF pump_same_refl]] by (simp_all add: b1_def)
  have "pump_inv d n (b1\<lparr>b_calls := c\<rparr>)" for c
    using inv1(1) by (rule pump_inv_quiet) simp
  then have "pump_inv d n (b1\<lparr>b_calls := c, b_pc := AtPrompt k\<rparr>)" for c
    using pump_inv_pc [of d n "b1\<lparr>b_calls := c\<rparr>" "AtPrompt k"] inv1(2) by (simp add: in_run_def)
  then show ?thesis
    using pump_inv_run_throws [OF inv1]
    by (simp add: send_prompt_def Let_def b1_def [symmetric] split: option.split)
qed

lemma pump_inv_on_resolved:
  assumes "pump_inv d n b" and "in_run (b_pc b)"
  shows "pump_inv d n (on_resolved d env0 env b)"
proof -
  define r0 where "r0 = (if b_started b then Inr b
      else map_sum id (\<lambda>b'. b'\<lparr>b_started := True\<rparr>) (resolveForRun env0 d None b))"
  have r0: "case r0 of Inl (e, b') \<Rightarrow> quiet b b' | Inr b' \<Rightarrow> quiet b b'"
    using quiet_resolveForRun [where env = env0 and d = d and input = None and b = b] by (auto simp: r0_def split: sum.splits)
  have keep: "pump_inv d n b'" "in_run (b_pc b')" if "quiet b b'" for b'
    using assms pump_inv_quiet that by (auto simp: quiet_def)
  show ?thesis
  proof (cases r0)
    case (Inl eb)
    then show ?thesis
      using r0 keep pump_inv_run_throws by (cases eb) (auto simp: on_resolved_def r0_def [symmetric])
  next
    case (Inr b1)
    then have "quiet b b1" using r0 by simp
    then have "case resolveForRun env d (Some (qi_input (hd (b_batch b1)))) b1 of
        Inl (e, b') \<Rightarrow> quiet b b' | Inr b' \<Rightarrow> quiet b b'"
      using quiet_resolveForRun [where env = env and d = d and input = "Some (qi_input (hd (b_batch b1)))" and b = b1] quiet_trans
      by (fastforce split: sum.splits)
    then show ?thesis
      using Inr keep
      by (auto simp: on_resolved_def r0_def [symmetric] in_run_def [of AtPrepare]
          intro!: pump_inv_run_throws pump_inv_pc split: sum.splits)
  qed
qed

lemma quiet_prepared: "\<exists>b3. quiet b b3 \<and>
    on_prepared d history assets write b =
      (if \<not> d_hooks d then send_prompt d (b_blocks b3 @ b_tailBlocks b3) 0 b3
       else
         let b4 = upd_run (\<lambda>st. st\<lparr>rs_activityTimer := False\<rparr>) b3
         in case b_currentReady b4 of
              None \<Rightarrow> b4\<lparr>b_pc := AtSubmit\<rparr>
            | Some r \<Rightarrow>
                if rd_sessionStartFired r then b4\<lparr>b_pc := AtSubmit\<rparr>
                else (upd_ready (\<lambda>r. r\<lparr>rd_sessionStartFired := True\<rparr>) b4)\<lparr>b_pc := AtSessionStart\<rparr>)"
proof -
  let ?b1 = "upd_ready (\<lambda>r. r\<lparr>rd_historySeeded := rd_historySeeded r \<or> needs_history d b,
      rd_lastRunId := Some (b_lastRun b)\<rparr>) b"
  let ?b2 = "case b_currentReady ?b1 of None \<Rightarrow> ?b1 | Some r \<Rightarrow> ?b1\<lparr>b_lastRunReady := Some (rd_client r)\<rparr>"
  have "quiet b ?b1" by (rule quiet_upd_ready)
  then have q2: "quiet b ?b2" by (auto split: option.split)
  then have "quiet b (?b2\<lparr>b_combined := c, b_blocks := x, b_tailBlocks := y\<rparr>)" for c x y by simp
  then show ?thesis unfolding on_prepared_def Let_def by blast
qed

lemma pump_inv_on_prepared:
  assumes "pump_inv d n b" and "in_run (b_pc b)"
  shows "pump_inv d n (on_prepared d history assets write b)"
proof -
  obtain b3 where b3: "quiet b b3" "on_prepared d history assets write b =
      (if \<not> d_hooks d then send_prompt d (b_blocks b3 @ b_tailBlocks b3) 0 b3
       else
         let b4 = upd_run (\<lambda>st. st\<lparr>rs_activityTimer := False\<rparr>) b3
         in case b_currentReady b4 of
              None \<Rightarrow> b4\<lparr>b_pc := AtSubmit\<rparr>
            | Some r \<Rightarrow>
                if rd_sessionStartFired r then b4\<lparr>b_pc := AtSubmit\<rparr>
                else (upd_ready (\<lambda>r. r\<lparr>rd_sessionStartFired := True\<rparr>) b4)\<lparr>b_pc := AtSessionStart\<rparr>)"
    using quiet_prepared [of b d history assets "write"] by blast
  define b4 where "b4 = upd_run (\<lambda>st. st\<lparr>rs_activityTimer := False\<rparr>) b3"
  have q4: "quiet b b4" unfolding b4_def using b3(1) by (auto intro!: quiet_upd_after)
  have "quiet b (upd_ready f b4)" for f using q4 quiet_upd_ready quiet_trans by blast
  moreover have "pump_inv d n (b'\<lparr>b_pc := AtSubmit\<rparr>)" "pump_inv d n (b'\<lparr>b_pc := AtSessionStart\<rparr>)" if "quiet b b'" for b'
    using pump_inv_quiet [OF assms(1) that] assms(2) that by (auto simp: in_run_def quiet_def intro!: pump_inv_pc)
  ultimately show ?thesis
    unfolding b3(2) Let_def b4_def [symmetric]
    using q4 pump_inv_quiet [OF assms(1) b3(1)] assms(2) b3(1)
    by (auto simp: quiet_def intro!: pump_inv_send_prompt split: option.split)
qed

lemma pump_inv_on_session_start:
  assumes "pump_inv d n b" and "in_run (b_pc b)"
  shows "pump_inv d n (on_session_start d res b)"
proof -
  have q: "quiet b ((fireHooks d e out b)\<lparr>b_hookContext := c\<rparr>)" for e out c by (simp add: quiet_fireHooks)
  have "pump_inv d n ((fireHooks d e out b)\<lparr>b_hookContext := c, b_pc := AtSubmit\<rparr>)" for e out c
    using pump_inv_pc [OF pump_inv_quiet [OF assms(1) q]] assms(2) quiet_fireHooks [of b d e out]
    by (simp add: in_run_def quiet_def)
  then show ?thesis
    using pump_inv_run_throws [OF assms] by (auto simp: on_session_start_def Let_def split: sum.split)
qed

lemma pump_inv_on_submit:
  assumes "pump_inv d n b" and "in_run (b_pc b)"
  shows "pump_inv d n (on_submit d res b)"
proof (cases res)
  case (Inl err)
  then show ?thesis using pump_inv_run_throws [OF assms] by (simp add: on_submit_def)
next
  case (Inr out)
  define b1 where "b1 = fireHooks d ''UserPromptSubmit'' out b"
  have same1: "pump_same b b1" unfolding b1_def by (rule pump_same_quiet [OF quiet_fireHooks])
  have inv1: "pump_inv d n b1" using assms(1) same1 by (rule pump_inv_same)
  have run1: "in_run (b_pc b1)" using assms(2) same1 by (simp add: pump_same_def)
  have "pump_inv d n (run_returns d False (emit d base (upd_run f b1)))" for base f
    by (rule same_returns [OF inv1 run1]) (auto intro!: pump_same_intros)
  moreover have "pump_inv d n (send_prompt d blocks k b3)" if "quiet b1 b3" for blocks k b3
    using pump_inv_quiet [OF inv1 that] run1 that by (intro pump_inv_send_prompt) (auto simp: quiet_def)
  moreover have "quiet b1 (arm_activity d (b1\<lparr>b_hookContext := c\<rparr>))" "quiet b1 (b1\<lparr>b_hookContext := c\<rparr>)" for c
    by (auto simp: arm_activity_def intro!: quiet_upd_after)
  ultimately show ?thesis
    using Inr inv1 by (simp add: on_submit_def Let_def b1_def [symmetric] split: option.split)
qed

lemma pump_inv_on_settled:
  assumes "pump_inv d n b" and "in_run (b_pc b)"
  shows "pump_inv d n (on_settled d k reason b)"
proof -
  have "quiet b (upd_run (\<lambda>st. st\<lparr>rs_hookFeedback := []\<rparr>) b)" by (auto intro!: quiet_upd_after)
  then have inv1: "pump_inv d n (upd_run (\<lambda>st. st\<lparr>rs_hookFeedback := []\<rparr>) b)"
    using assms(1) pump_inv_quiet by blast
  show ?thesis
    using pump_inv_finish_run [OF assms] pump_inv_finish_run [OF inv1] pump_inv_pc [OF inv1] assms
    by (auto simp: on_settled_def Let_def in_run_def split: option.split)
qed

lemma pump_inv_on_stop_hooks:
  assumes "pump_inv d n b" and "in_run (b_pc b)"
  shows "pump_inv d n (on_stop_hooks d k reason fb res b)"
proof (cases res)
  case (Inl err)
  then show ?thesis using pump_inv_run_throws [OF assms] by (simp add: on_stop_hooks_def)
next
  case (Inr out)
  define b1 where "b1 = (case out of Some o' \<Rightarrow> fireHooks d ''Stop'' o' b | None \<Rightarrow> b)"
  have q1: "quiet b b1" by (simp add: b1_def quiet_fireHooks split: option.split)
  have fin: "pump_inv d n (finish_run d reason b')" if "quiet b b'" for b'
    using pump_inv_quiet [OF assms(1) that] assms(2) that by (intro pump_inv_finish_run) (auto simp: quiet_def)
  have send: "pump_inv d n (send_prompt d blocks m b')" if "quiet b b'" for blocks m b'
    using pump_inv_quiet [OF assms(1) that] assms(2) that by (intro pump_inv_send_prompt) (auto simp: quiet_def)
  have "quiet b (emitHookNote d x b1)" "quiet b (close_open d b1)" for x
    using q1 quiet_emitHookNote quiet_close_open quiet_trans by blast+
  then show ?thesis
    using Inr fin send q1 pump_inv_quiet [OF assms(1) q1]
    by (auto simp: on_stop_hooks_def Let_def b1_def [symmetric] split: option.split)
qed

lemma pump_inv_on_backoff:
  assumes "pump_inv d n b" and "b_pc b = AtBackoff"
  shows "pump_inv d n (on_backoff d b)"
  using pump_inv_batch_done [OF resting_backoff [OF assms]] resting_backoff [OF assms]
  by (auto simp: on_backoff_def resting_def intro: pump_inv_begin_run)

subsection \<open>Calls from outside\<close>

lemma accounted_enqueue:
  "distinct (accounted b) \<Longrightarrow> \<forall>r \<in> set (accounted b). r < b_uuids b \<Longrightarrow> qi_ref item = b_uuids b \<Longrightarrow>
    distinct (accounted (b\<lparr>b_uuids := Suc (b_uuids b), b_queue := b_queue b @ [item]\<rparr>))
    \<and> length (accounted (b\<lparr>b_uuids := Suc (b_uuids b), b_queue := b_queue b @ [item]\<rparr>)) = Suc (length (accounted b))
    \<and> (\<forall>r \<in> set (accounted (b\<lparr>b_uuids := Suc (b_uuids b), b_queue := b_queue b @ [item]\<rparr>)). r < Suc (b_uuids b))"
  by (auto simp: accounted_def ball_Un intro: less_SucI)

lemma pump_inv_bridge_prompt:
  assumes "pump_inv d n b"
  shows "pump_inv d (Suc n) (bridge_prompt d input pr pol b)"
proof -
  define item where "item = \<lparr>qi_ref = b_uuids b, qi_id = mint d ''queue'' (b_uuids b), qi_input = input,
      qi_priority = pr, qi_interrupt = pol, qi_enqueuedAt = b_now b\<rparr>"
  define b1 where "b1 = b\<lparr>b_uuids := Suc (b_uuids b), b_queue := b_queue b @ [item]\<rparr>"
  define b3 where "b3 = (if pr \<ge> PRIORITY_INTERRUPT then applyPreemption d (emitQueueSnapshot d b1)
      else emitQueueSnapshot d b1)"
  have q3: "quiet b1 b3"
  proof -
    have "quiet b1 (emitQueueSnapshot d b1)"
      unfolding emitQueueSnapshot_def by (auto intro!: quiet_emit_after)
    then show ?thesis unfolding b3_def using quiet_applyPreemption quiet_trans by auto
  qed
  have eq: "bridge_prompt d input pr pol b = (if b_pumping b3 then b3 else pump_loop d (b3\<lparr>b_pumping := True\<rparr>))"
    by (simp add: bridge_prompt_def nextId_def Let_def b3_def b1_def item_def)
  have acc: "distinct (accounted b1)" "length (accounted b1) = Suc n" "\<forall>r \<in> set (accounted b1). r < b_uuids b1"
    using assms accounted_enqueue [of b item] by (auto simp: pump_inv_def b1_def item_def)
  show ?thesis
  proof (cases "b_pumping b")
    case True
    then have "pump_inv d (Suc n) b1"
      using assms acc by (auto simp: pump_inv_def b1_def)
    then have "pump_inv d (Suc n) b3" using q3 by (rule pump_inv_quiet)
    moreover have "b_pumping b3" using q3 True by (simp add: quiet_def b1_def)
    ultimately show ?thesis by (simp add: eq)
  next
    case False
    then have "between d (Suc n) (b1\<lparr>b_pumping := True\<rparr>)"
      using assms acc by (auto simp: between_def pump_inv_def b1_def accounted_def in_run_def)
    moreover have "quiet (b1\<lparr>b_pumping := True\<rparr>) (b3\<lparr>b_pumping := True\<rparr>)"
      using q3 by (simp add: quiet_def)
    ultimately have "between d (Suc n) (b3\<lparr>b_pumping := True\<rparr>)" by (rule between_quiet)
    moreover have "\<not> b_pumping b3" using q3 False by (simp add: quiet_def b1_def)
    ultimately show ?thesis by (simp add: eq pump_inv_pump_loop)
  qed
qed

lemma pump_inv_drainQueue:
  assumes "pump_inv d n b"
  shows "pump_inv d n (snd (drainQueue d b))"
proof -
  define b3 where "b3 = (emitQueueSnapshot d (b\<lparr>b_runningBatch := [], b_queue := []\<rparr>))
      \<lparr>b_settled := b_settled b @ map (\<lambda>q. (qi_ref q,
          Rejected ''the conversation was suspended before this queued message could run'')) (b_queue b)\<rparr>"
  have ms: "mset (accounted b3) = mset (accounted b)"
    by (simp add: accounted_def b3_def emitQueueSnapshot_def comp_def)
  have "pump_inv d n b3"
    using assms mset_eq_imp_distinct_iff [OF ms] mset_eq_length [OF ms] mset_eq_setD [OF ms]
    by (auto simp: pump_inv_def b3_def emitQueueSnapshot_def)
  moreover have "pump_inv d n (b\<lparr>b_runningBatch := [], b_queue := []\<rparr>)" if "b_queue b = []"
    using assms that by (auto simp: pump_inv_def accounted_def)
  ultimately show ?thesis
    by (simp add: drainQueue_def Let_def b3_def emitQueueSnapshot_def)
qed

lemma quiet_stop_parts:
  "quiet b (clearInterruptTimer (b\<lparr>b_closed := True\<rparr>))" "quiet b (close_sessions b)"
  by (simp_all add: clearInterruptTimer_def close_sessions_def)

lemma pump_inv_bridge_stop: "pump_inv d n b \<Longrightarrow> pump_inv d n (bridge_stop d b)"
  unfolding bridge_stop_def
  by (rule pump_inv_quiet [OF pump_inv_drainQueue [OF pump_inv_quiet [OF _ quiet_stop_parts(1)]] quiet_stop_parts(2)])

lemma pump_same_permissions:
  "pump_same b (onPermissionRequest d req b)" "pump_same b (permission_resumes d t run x res b)"
  "pump_same b (snd (answerPermission d t y ap res b))" "pump_same b (raiseInterrupt d i m os meta b)"
proof -
  have persist: "pump_same b (persist d base b')" if "pump_same b b'" for base b'
    using that by (simp add: pump_same_def)
  have "pump_same b (closeOpenReasoning d (closeOpenText d (noteActivity b)))"
    by (rule pump_same_quiet) (auto intro!: quiet_chain)
  then show "pump_same b (onPermissionRequest d req b)"
    by (simp add: onPermissionRequest_def Let_def pump_same_emit)
  show resumes: "pump_same b (permission_resumes d t run x res b)" for t run x res
    by (auto simp: permission_resumes_def Let_def reopen_run_def intro!: pump_same_intros persist split: option.split)
  show "pump_same b (snd (answerPermission d t y ap res b))"
    using resumes by (auto simp: answerPermission_def Let_def intro!: persist split: option.split)
  show "pump_same b (raiseInterrupt d i m os meta b)"
    by (simp add: raiseInterrupt_def pump_same_emit)
qed

definition prompts_in :: "bridge_input list \<Rightarrow> nat" where
  "prompts_in is = length (filter (\<lambda>i. case i of InPrompt _ _ _ \<Rightarrow> True | _ \<Rightarrow> False) is)"

lemma quiet_late: "quiet b (noteRunDiagnostic err b)" "quiet b (on_terminal_created t c as b)"
  by (simp_all add: quiet_noteRunDiagnostic on_terminal_created_def)

lemma pump_inv_step:
  assumes "pump_inv d n b" and "step d i b = Some b'"
  shows "pump_inv d (n + prompts_in [i]) b'"
proof -
  note same = pump_inv_same [OF assms(1)] and quietly = pump_inv_quiet [OF assms(1)]
  have run: "in_run (b_pc b)" if "b_pc b = pc" "in_run pc" for pc using that by simp
  show ?thesis
  proof (cases i)
    case (InPrompt x p pol)
    then show ?thesis using assms pump_inv_bridge_prompt by (auto simp: prompts_in_def)
  next
    case InDrained
    then obtain k reason where pc: "b_pc b = AtDrain k reason" using assms(2) by (auto split: pump_pc.splits)
    have "pump_inv d n (upd_run (\<lambda>st. st\<lparr>rs_pendingHooks := []\<rparr>) b)"
      by (rule quietly) (auto intro!: quiet_upd_after)
    then show ?thesis
      using assms(2) InDrained pc pump_inv_pc by (auto simp: prompts_in_def in_run_def)
  next
    case InAbandoned
    then show ?thesis
      using assms pump_inv_run_returns by (auto simp: prompts_in_def when_ok_def in_run_def split: pump_pc.splits if_splits)
  next
    case InSettled
    then show ?thesis
      using assms pump_inv_on_settled by (auto simp: prompts_in_def when_ok_def in_run_def split: pump_pc.splits if_splits)
  qed (use assms run in \<open>auto simp: prompts_in_def when_ok_def in_run_def split: pump_pc.splits if_splits
        intro!: pump_inv_on_resolved pump_inv_on_prepared pump_inv_on_session_start pump_inv_on_submit
          pump_inv_run_throws pump_inv_on_stop_hooks pump_inv_on_backoff pump_inv_drainQueue pump_inv_bridge_stop pump_inv_pc
        intro: same quietly pump_same_permissions pump_same_timers quiet_late quiet_on_session_update
          quiet_interrupt_timer_fires quiet_bridge_cancel quiet_runToolHook quiet_hook_call_settles\<close>)
qed

lemma pump_inv_init: "pump_inv d 0 createSessionBridge"
  by (simp add: pump_inv_def createSessionBridge_def accounted_def in_run_def)

lemma prompts_in_append: "prompts_in (xs @ ys) = prompts_in xs + prompts_in ys"
  by (simp add: prompts_in_def)

lemma pump_inv_runs_to: "runs_to d is createSessionBridge = Some b \<Longrightarrow> pump_inv d (prompts_in is) b"
proof (induction "is" arbitrary: b rule: rev_induct)
  case Nil
  then show ?case using pump_inv_init by (simp add: prompts_in_def)
next
  case (snoc i "is")
  then obtain b0 where "runs_to d is createSessionBridge = Some b0" "step d i b0 = Some b"
    by (auto simp: runs_to_snoc bind_eq_Some_conv)
  with snoc.IH pump_inv_step show ?case by (metis prompts_in_append)
qed

subsection \<open>The log over a history\<close>

text \<open>
  A hook that refuses a prompt whose run a watchdog has ended already: the one input that makes a
  second terminal event.
\<close>

definition late_refusal :: "bridge_input \<Rightarrow> bridge \<Rightarrow> bool" where
  "late_refusal i b =
     (case (i, b_run b) of (InSubmit (Inr out), Some st) \<Rightarrow> refused out \<and> rs_terminated st | _ \<Rightarrow> False)"

fun no_late_refusal :: "bridge_deps \<Rightarrow> bridge_input list \<Rightarrow> bridge \<Rightarrow> bool" where
  "no_late_refusal d [] b = True"
| "no_late_refusal d (i # is) b =
     (\<not> late_refusal i b \<and> (case step d i b of None \<Rightarrow> True | Some b' \<Rightarrow> no_late_refusal d is b'))"

lemma no_late_refusal_snoc:
  "no_late_refusal d (is @ [i]) b \<Longrightarrow> runs_to d is b = Some b' \<Longrightarrow> no_late_refusal d is b \<and> \<not> late_refusal i b'"
  by (induction "is" arbitrary: b) (auto split: option.splits)

lemma log_inv_pc: "log_inv d (b\<lparr>b_pc := pc\<rparr>) = log_inv d b"
  by (rule log_inv_fields)

lemma log_inv_send_prompt:
  assumes "log_inv d b" and "inj (d_uuid d)"
  shows "log_inv d (send_prompt d blocks k b)"
proof -
  define b1 where "b1 = upd_run (\<lambda>st. st\<lparr>rs_lastText := []\<rparr>) b"
  have inv1: "log_inv d b1" unfolding b1_def by (rule log_inv_quiet [OF assms(1)]) (auto intro!: quiet_upd_after)
  have "log_inv d (b1\<lparr>b_calls := c\<rparr>)" for c by (rule log_inv_quiet [OF inv1]) simp
  then show ?thesis
    using log_inv_run_throws [OF inv1 assms(2)] log_inv_pc [of d "AtPrompt k" "b1\<lparr>b_calls := c\<rparr>" for c]
    by (simp add: send_prompt_def Let_def b1_def [symmetric] split: option.split)
qed

lemma log_inv_on_resolved:
  assumes "log_inv d b" and "inj (d_uuid d)"
  shows "log_inv d (on_resolved d env0 env b)"
proof -
  define r0 where "r0 = (if b_started b then Inr b
      else map_sum id (\<lambda>b'. b'\<lparr>b_started := True\<rparr>) (resolveForRun env0 d None b))"
  have r0: "case r0 of Inl (e, b') \<Rightarrow> quiet b b' | Inr b' \<Rightarrow> quiet b b'"
    using quiet_resolveForRun [where env = env0 and d = d and input = None and b = b]
    by (auto simp: r0_def split: sum.splits)
  note keep = log_inv_quiet [OF assms(1)]
  show ?thesis
  proof (cases r0)
    case (Inl eb)
    then show ?thesis
      using r0 keep log_inv_run_throws assms(2) by (cases eb) (auto simp: on_resolved_def r0_def [symmetric])
  next
    case (Inr b1)
    then have "quiet b b1" using r0 by simp
    then have "case resolveForRun env d (Some (qi_input (hd (b_batch b1)))) b1 of
        Inl (e, b') \<Rightarrow> log_inv d b' | Inr b' \<Rightarrow> log_inv d b'"
      using quiet_resolveForRun [where env = env and d = d and input = "Some (qi_input (hd (b_batch b1)))" and b = b1]
        keep log_inv_quiet by (auto split: sum.splits)
    then show ?thesis
      using Inr assms(2)
      by (auto simp: on_resolved_def r0_def [symmetric] log_inv_pc intro!: log_inv_run_throws split: sum.splits)
  qed
qed

lemma log_inv_on_prepared:
  assumes "log_inv d b" and "inj (d_uuid d)"
  shows "log_inv d (on_prepared d history assets write b)"
proof -
  obtain b3 where b3: "quiet b b3" "on_prepared d history assets write b =
      (if \<not> d_hooks d then send_prompt d (b_blocks b3 @ b_tailBlocks b3) 0 b3
       else
         let b4 = upd_run (\<lambda>st. st\<lparr>rs_activityTimer := False\<rparr>) b3
         in case b_currentReady b4 of
              None \<Rightarrow> b4\<lparr>b_pc := AtSubmit\<rparr>
            | Some r \<Rightarrow>
                if rd_sessionStartFired r then b4\<lparr>b_pc := AtSubmit\<rparr>
                else (upd_ready (\<lambda>r. r\<lparr>rd_sessionStartFired := True\<rparr>) b4)\<lparr>b_pc := AtSessionStart\<rparr>)"
    using quiet_prepared [of b d history assets "write"] by blast
  define b4 where "b4 = upd_run (\<lambda>st. st\<lparr>rs_activityTimer := False\<rparr>) b3"
  have inv: "log_inv d b3" "log_inv d b4"
    using b3(1) by (auto simp: b4_def intro!: log_inv_quiet [OF assms(1)] quiet_upd_after)
  have "log_inv d (upd_ready f b4)" for f using inv(2) quiet_upd_ready by (rule log_inv_quiet)
  then show ?thesis
    unfolding b3(2) Let_def b4_def [symmetric]
    using inv log_inv_send_prompt [OF inv(1) assms(2)] by (simp add: log_inv_pc split: option.split)
qed

lemma log_inv_on_session_start:
  assumes "log_inv d b" and "inj (d_uuid d)"
  shows "log_inv d (on_session_start d res b)"
proof -
  have "log_inv d ((fireHooks d e out b)\<lparr>b_hookContext := c\<rparr>)" for e out c
    by (rule log_inv_quiet [OF assms(1)]) (simp add: quiet_fireHooks)
  then have "log_inv d ((fireHooks d e out b)\<lparr>b_hookContext := c, b_pc := AtSubmit\<rparr>)" for e out c
    using log_inv_pc [of d AtSubmit "(fireHooks d e out b)\<lparr>b_hookContext := c\<rparr>"] by simp
  then show ?thesis
    using log_inv_run_throws [OF assms] by (auto simp: on_session_start_def Let_def split: sum.split)
qed

lemma log_inv_on_submit:
  assumes "log_inv d b" and "inj (d_uuid d)" and "\<not> late_refusal (InSubmit res) b"
  shows "log_inv d (on_submit d res b)"
proof (cases res)
  case (Inl err)
  then show ?thesis using log_inv_run_throws [OF assms(1,2)] by (simp add: on_submit_def)
next
  case (Inr out)
  define b1 where "b1 = fireHooks d ''UserPromptSubmit'' out b"
  have q1: "quiet b b1" unfolding b1_def by (rule quiet_fireHooks)
  then have inv1: "log_inv d b1" using assms(1) log_inv_quiet by blast
  have refuse: "log_inv d (run_returns d False
      (emit d (RUN_FINISHED (rs_threadId st) (rs_runId st) None None None None)
        (upd_run (\<lambda>st. st\<lparr>rs_ended := True, rs_terminated := True\<rparr>) b1)))"
    if "b_run b1 = Some st" "refused out" for st
  proof -
    have live: "\<not> rs_terminated st"
      using assms(3) Inr that q1 by (auto simp: late_refusal_def quiet_def same_run_def split: option.splits)
    have "log_inv d (emit d (RUN_FINISHED (rs_threadId st) (rs_runId st) None None None None)
        (upd_run (\<lambda>st. st\<lparr>rs_ended := True, rs_terminated := True\<rparr>) b1))"
      using inv1 that(1) live
      by (rule log_inv_terminal [where g = "\<lambda>st. st\<lparr>rs_ended := True, rs_terminated := True\<rparr>"])
        (auto simp: terminal_of_def)
    then show ?thesis using assms(2) that(1) by (intro log_inv_run_returns) (simp_all add: live_run_def)
  qed
  have "quiet b1 (arm_activity d (b1\<lparr>b_hookContext := c\<rparr>))" "quiet b1 (b1\<lparr>b_hookContext := c\<rparr>)" for c
    by (auto simp: arm_activity_def intro!: quiet_upd_after)
  then have "log_inv d (send_prompt d blocks k (arm_activity d (b1\<lparr>b_hookContext := c\<rparr>)))"
      "log_inv d (send_prompt d blocks k (b1\<lparr>b_hookContext := c\<rparr>))" for blocks k c
    using inv1 log_inv_quiet log_inv_send_prompt assms(2) by blast+
  then show ?thesis
    using Inr inv1 refuse by (simp add: on_submit_def Let_def b1_def [symmetric] split: option.split)
qed

lemma log_inv_on_settled:
  assumes "log_inv d b" and "inj (d_uuid d)"
  shows "log_inv d (on_settled d k reason b)"
proof -
  have "log_inv d (upd_run (\<lambda>st. st\<lparr>rs_hookFeedback := []\<rparr>) b)"
    by (rule log_inv_quiet [OF assms(1)]) (auto intro!: quiet_upd_after)
  then show ?thesis
    using assms log_inv_finish_run by (auto simp: on_settled_def Let_def log_inv_pc split: option.split)
qed

lemma log_inv_on_stop_hooks:
  assumes "log_inv d b" and "inj (d_uuid d)"
  shows "log_inv d (on_stop_hooks d k reason fb res b)"
proof (cases res)
  case (Inl err)
  then show ?thesis using log_inv_run_throws [OF assms] by (simp add: on_stop_hooks_def)
next
  case (Inr out)
  define b1 where "b1 = (case out of Some o' \<Rightarrow> fireHooks d ''Stop'' o' b | None \<Rightarrow> b)"
  have "quiet b b1" by (simp add: b1_def quiet_fireHooks split: option.split)
  then have inv1: "log_inv d b1" using assms(1) log_inv_quiet by blast
  then have "log_inv d (emitHookNote d x b1)" "log_inv d (close_open d b1)" for x
    using quiet_emitHookNote quiet_close_open log_inv_quiet by blast+
  then show ?thesis
    using Inr inv1 assms(2) log_inv_finish_run log_inv_send_prompt
    by (auto simp: on_stop_hooks_def Let_def b1_def [symmetric] split: option.split)
qed

lemma log_inv_bridge_prompt:
  assumes "log_inv d b" and "pump_inv d n b" and "inj (d_uuid d)"
  shows "log_inv d (bridge_prompt d input pr pol b)"
proof -
  define item where "item = \<lparr>qi_ref = b_uuids b, qi_id = mint d ''queue'' (b_uuids b), qi_input = input,
      qi_priority = pr, qi_interrupt = pol, qi_enqueuedAt = b_now b\<rparr>"
  define b1 where "b1 = b\<lparr>b_uuids := Suc (b_uuids b), b_queue := b_queue b @ [item]\<rparr>"
  define b3 where "b3 = (if pr \<ge> PRIORITY_INTERRUPT then applyPreemption d (emitQueueSnapshot d b1)
      else emitQueueSnapshot d b1)"
  have "log_inv d (b\<lparr>b_uuids := Suc (b_uuids b)\<rparr>)" by (rule log_inv_quiet [OF assms(1)]) (simp add: quiet_uuids)
  then have "log_inv d b1" by (subst log_inv_cong [of _ "b\<lparr>b_uuids := Suc (b_uuids b)\<rparr>"]) (simp_all add: b1_def)
  moreover have q1: "quiet b1 (emitQueueSnapshot d b1)"
    unfolding emitQueueSnapshot_def by (auto intro!: quiet_emit_after)
  then have q3: "quiet b1 b3" unfolding b3_def using quiet_applyPreemption quiet_trans by auto
  ultimately have inv3: "log_inv d b3" using log_inv_quiet by blast
  have "b_run (b3\<lparr>b_pumping := True\<rparr>) = None" if "\<not> b_pumping b3"
  proof -
    have "\<not> b_pumping b" using q3 that by (simp add: quiet_def b1_def)
    then have "b_run b = None" using assms(2) by (auto simp: pump_inv_def in_run_def)
    then show ?thesis using q3 by (auto simp: quiet_def b1_def dest: same_run_None)
  qed
  then have "log_inv d (if b_pumping b3 then b3 else pump_loop d (b3\<lparr>b_pumping := True\<rparr>))"
    using inv3 log_inv_pump_loop [of d "b3\<lparr>b_pumping := True\<rparr>"] assms(3) by (simp add: log_inv_fields)
  moreover have "bridge_prompt d input pr pol b = (if b_pumping b3 then b3 else pump_loop d (b3\<lparr>b_pumping := True\<rparr>))"
    by (simp add: bridge_prompt_def nextId_def Let_def b3_def b1_def item_def)
  ultimately show ?thesis by simp
qed

lemma log_inv_drainQueue:
  assumes "log_inv d b"
  shows "log_inv d (snd (drainQueue d b))"
proof -
  define b1 where "b1 = b\<lparr>b_runningBatch := [], b_queue := []\<rparr>"
  have inv1: "log_inv d b1" using assms by (simp add: b1_def log_inv_fields)
  have "log_inv d (emitQueueSnapshot d b1)"
    by (rule log_inv_quiet [OF inv1]) (auto simp: emitQueueSnapshot_def intro!: quiet_emit_after)
  then show ?thesis using inv1 by (simp add: drainQueue_def Let_def b1_def [symmetric] log_inv_fields)
qed

lemma log_inv_bridge_stop: "log_inv d b \<Longrightarrow> log_inv d (bridge_stop d b)"
  unfolding bridge_stop_def
  by (rule log_inv_quiet [OF log_inv_drainQueue [OF log_inv_quiet [OF _ quiet_stop_parts(1)]] quiet_stop_parts(2)])

lemma log_inv_step:
  assumes "log_inv d b" and "pump_inv d n b" and "inj (d_uuid d)" and "\<not> late_refusal i b" and "step d i b = Some b'"
  shows "log_inv d b'"
proof -
  note quietly = log_inv_quiet [OF assms(1)]
  show ?thesis
  proof (cases i)
    case InAbandoned
    then have "b_wedged b" "b' = run_returns d (run_retryable b) b"
      using assms(5) by (auto simp: when_ok_def split: pump_pc.splits if_splits)
    moreover have "live_run b = None" using assms(1) \<open>b_wedged b\<close> by (auto simp: log_inv_def live_run_def split: option.splits)
    ultimately show ?thesis using log_inv_run_returns assms(1,3) by blast
  next
    case InBackoff
    then have "b_pc b = AtBackoff" "b' = on_backoff d b" using assms(5) by (auto simp: when_ok_def split: if_splits)
    moreover from this have "b_run b = None" using assms(2) by (auto simp: pump_inv_def in_run_def)
    ultimately show ?thesis
      using assms(1,3) log_inv_batch_done log_inv_begin_run by (auto simp: on_backoff_def)
  next
    case InDrained
    have "log_inv d (upd_run (\<lambda>st. st\<lparr>rs_pendingHooks := []\<rparr>) b)"
      by (rule quietly) (auto intro!: quiet_upd_after)
    then show ?thesis using assms(5) InDrained by (auto simp: log_inv_pc split: pump_pc.splits)
  next
    case (InSubmit res)
    then show ?thesis using assms log_inv_on_submit by (auto simp: when_ok_def split: if_splits)
  qed (use assms in \<open>auto simp: when_ok_def log_inv_pc split: pump_pc.splits if_splits
        intro!: log_inv_on_resolved log_inv_on_prepared log_inv_on_session_start log_inv_run_throws log_inv_on_settled
          log_inv_on_stop_hooks log_inv_bridge_prompt log_inv_drainQueue log_inv_bridge_stop log_inv_activity_timer
          log_inv_liveness_timer log_inv_onPermissionRequest log_inv_answerPermission log_inv_raiseInterrupt
        intro: quietly quiet_late quiet_on_session_update
          quiet_interrupt_timer_fires quiet_bridge_cancel quiet_runToolHook quiet_hook_call_settles\<close>)
qed

lemma log_inv_init: "log_inv d createSessionBridge"
  by (simp add: log_inv_def createSessionBridge_def run_view_of_def live_run_def takes_updates_def)

lemma log_inv_runs_to:
  "inj (d_uuid d) \<Longrightarrow> no_late_refusal d is createSessionBridge \<Longrightarrow> runs_to d is createSessionBridge = Some b \<Longrightarrow>
    log_inv d b"
proof (induction "is" arbitrary: b rule: rev_induct)
  case Nil
  then show ?case using log_inv_init by simp
next
  case (snoc i "is")
  then obtain b0 where b0: "runs_to d is createSessionBridge = Some b0" "step d i b0 = Some b"
    by (auto simp: runs_to_snoc bind_eq_Some_conv)
  have "no_late_refusal d is createSessionBridge" "\<not> late_refusal i b0"
    using no_late_refusal_snoc [OF snoc.prems(2) b0(1)] by simp_all
  then show ?case
    using snoc.IH [OF snoc.prems(1) _ b0(1)] log_inv_step [OF _ pump_inv_runs_to [OF b0(1)] snoc.prems(1) _ b0(2)]
    by blast
qed

end
