(* ===== verification/Bridge_Histories.thy ===== *)
theory Bridge_Histories
  imports Bridge_Pump Dangling_Run
begin

text \<open>
  The theorems on histories of a bridge: what holds after any sequence of inputs, and the three
  histories in which the code does not do what it means to.
\<close>

subsection \<open>Concrete histories\<close>

text \<open>The provider a bridge has when it is given one client (\<^verbatim>\<open>acpClient\<close>).\<close>

definition default_provider :: "provider_kind \<Rightarrow> acp_provider" where
  "default_provider kind = \<lparr>pv_ref = 0, pv_id = ''default'', pv_kind = kind, pv_priority = 0, pv_modelTag = None,
     pv_ownMcpServers = None, pv_eligible = (\<lambda>_. Some True)\<rparr>"

definition plain_env :: "nat \<Rightarrow> session_env" where
  "plain_env c = \<lparr>se_providers = [default_provider Goose], se_owner = None, se_model = None, se_pickedProvider = None,
     se_catalog = None, se_random = 0, se_alive = (\<lambda>_. True), se_resolveMcp = False, se_mcp = Inr [], se_staticMcp = [],
     se_skills = Inr [], se_createClient = Inr c, se_newSession = (\<lambda>_. Inr ''s1'')\<rparr>"

definition plain_deps :: bridge_deps where
  "plain_deps = default_deps ''t1'' (\<lambda>n. replicate n (CHR ''u''))"

definition say :: "string \<Rightarrow> bridge_input" where
  "say x = InPrompt \<lparr>in_threadId = ''t1'', in_text = x, in_images = [], in_files = [], in_source = None,
     in_humanInitiated = None\<rparr> PRIORITY_NORMAL PolicyThinking"

definition ready_up :: "bridge_input list" where
  "ready_up = [InResolved (plain_env 1) (plain_env 1), InPrepared None (\<lambda>_. None) (\<lambda>_ _. None)]"

definition wrap_up :: "string \<Rightarrow> bridge_input list" where
  "wrap_up reason = [InPromptReturned reason, InDrained, InSettled]"

lemma inj_unary: "inj (\<lambda>n. replicate n (CHR ''u''))"
  by (rule injI) (metis length_replicate)

lemmas run_defs =
  plain_deps_def default_deps_def plain_env_def default_provider_def say_def ready_up_def wrap_up_def
  createSessionBridge_def createTitleExtractor_def bridge_prompt_def nextId_def mint_def emitQueueSnapshot_def queue_snapshot_def
  queue_entry_of_def emit_def persist_def stamp_def truthy_def applyPreemption_def clearInterruptTimer_def pump_loop_def
  take_batch_def coalesce_def PRIORITY_NORMAL_def PRIORITY_INTERRUPT_def begin_run_def fresh_run_def arm_activity_def
  persist_input_def upd_run_def on_resolved_def resolveForRun_def pickAcpProvider_def picked_def runContextFor_def
  is_eligible_def dropSessionIfDead_def dropSessionIfMcpChanged_def dropSessionIfSkillsChanged_def readyProvider_def
  offered_mcp_def session_model_def on_prepared_def history_preamble_def needs_history_def upd_ready_def prompt_text_def
  saved_files_def image_blocks_def combineTexts_def send_prompt_def on_settled_def stops_here_def finish_run_def
  close_open_def closeOpenText_def closeOpenReasoning_def run_returns_def after_run_def batch_done_def when_ok_def

lemmas permission_defs = onPermissionRequest_def noteActivity_def boundedRequest_def options_field_def option_obj_def
  bridge_cancel_def

subsection \<open>One end for every run\<close>

text \<open>
  C2 (invariant). Whatever happens to a bridge and in whatever order (prompts, agent updates,
  permission requests and answers, timers, a cancel, hooks, retries, a stop), runs do not overlap in
  the log and every run ends with exactly one terminal event, which is its own; the number of ends is
  the number of runs begun, less the one still in progress. Nothing of a run comes before its start or
  after its end: the messages of its input and whatever the agent says, thinks and does are logged only
  while a run is open, begun or reopened by an answered permission. The questions are the
  \<^verbatim>\<open>RUN_FINISHED\<close> events that end nothing: each is of a run that was started, or of none, with an id that
  says so. Ids are assumed not to repeat, and no hook refuses a prompt whose run a watchdog has ended
  already.
\<close>

theorem every_run_ends_once:
  assumes "runs_to d is createSessionBridge = Some b" and "inj (d_uuid d)"
    and "no_late_refusal d is createSessionBridge"
  shows "snd (snd (run_view_of (b_log b)))
    \<and> fst (snd (run_view_of (b_log b))) = live_run b
    \<and> length (filter ends_own_run (b_log b)) + (if live_run b = None then 0 else 1) = length (fst (run_view_of (b_log b)))
    \<and> (b_pc b = PumpIdle \<or> b_pc b = AtBackoff \<longrightarrow> live_run b = None)
    \<and> runs_in_order (b_log b)"
proof -
  have inv: "log_inv d b" using assms by (blast intro: log_inv_runs_to)
  have pump: "pump_inv d (prompts_in is) b" using assms(1) by (rule pump_inv_runs_to)
  have "live_run b = None" if "b_pc b = PumpIdle \<or> b_pc b = AtBackoff"
    using pump that by (auto simp: pump_inv_def in_run_def live_run_def)
  then show ?thesis
    using inv run_scan_counts [of "b_log b"] by (auto simp: log_inv_def split: if_splits)
qed

text \<open>A turn that ends as it should.\<close>

theorem every_run_ends_once_witness:
  "case runs_to plain_deps (say ''hi'' # ready_up @ wrap_up ''end_turn'') createSessionBridge of
     None \<Rightarrow> False
   | Some b \<Rightarrow> length (fst (run_view_of (b_log b))) = length (filter ends_own_run (b_log b)) \<and> runs_in_order (b_log b) \<and> b_pc b = PumpIdle"
proof -
  obtain b where b: "runs_to plain_deps (say ''hi'' # ready_up @ wrap_up ''end_turn'') createSessionBridge = Some b"
      "b_pc b = PumpIdle"
    by (simp add: run_defs Let_def cong: let_weak_cong)
  have "inj (d_uuid plain_deps)" by (simp add: plain_deps_def default_deps_def inj_unary)
  moreover have "no_late_refusal plain_deps (say ''hi'' # ready_up @ wrap_up ''end_turn'') createSessionBridge"
    by (simp add: run_defs late_refusal_def Let_def cong: let_weak_cong)
  ultimately show ?thesis
    using every_run_ends_once [OF b(1)] b by (simp split: if_splits)
qed

subsection \<open>No message lost\<close>

text \<open>
  C4 (safety). Every message given to \<^verbatim>\<open>prompt()\<close> is accounted for exactly once, after any history:
  it is waiting, or in the batch that is running, or its promise has been settled, once; when the pump
  is idle all of them have been settled; and the pump never makes more retries of a batch than its
  budget allows.
\<close>

theorem prompts_settled_once:
  assumes "runs_to d is createSessionBridge = Some b"
  shows "distinct (map qi_ref (b_queue b) @ map qi_ref (b_batch b) @ map fst (b_settled b))
    \<and> length (b_queue b) + length (b_batch b) + length (b_settled b) = prompts_in is
    \<and> (b_pc b = PumpIdle \<longrightarrow> length (b_settled b) = prompts_in is)
    \<and> b_attempt b \<le> d_retryMax d"
  using pump_inv_runs_to [OF assms] by (auto simp: pump_inv_def accounted_def)

text \<open>Two messages, the second while the first is running.\<close>

theorem prompts_settled_once_witness:
  "case runs_to plain_deps (say ''hi'' # ready_up @ [say ''more''] @ wrap_up ''end_turn'' @ ready_up @ wrap_up ''end_turn'')
          createSessionBridge of
     None \<Rightarrow> False
   | Some b \<Rightarrow> length (b_settled b) = 2 \<and> distinct (map fst (b_settled b))"
proof -
  let ?is = "say ''hi'' # ready_up @ [say ''more''] @ wrap_up ''end_turn'' @ ready_up @ wrap_up ''end_turn''"
  obtain b where b: "runs_to plain_deps ?is createSessionBridge = Some b" "b_pc b = PumpIdle"
    by (simp add: run_defs Let_def cong: let_weak_cong)
  have "prompts_in ?is = 2" by (simp add: prompts_in_def say_def ready_up_def wrap_up_def)
  then show ?thesis using prompts_settled_once [OF b(1)] b by simp
qed

subsection \<open>Where the code does not do what it means to\<close>

lemma dangling_after_start:
  "ev_base e = RUN_STARTED th r h g \<Longrightarrow>
    danglingRunInfo (log @ [e]) None = Some \<lparr>di_runId = r, di_threadId = th, di_cancelRequested = False, di_host = h\<rparr>"
  by (simp add: danglingRunInfo_def is_terminal_def isOwnRun_def)

lemma ev_base_stamp_start: "\<exists>h g. ev_base (stamp d b (ev (RUN_STARTED th r None None))) = RUN_STARTED th r h g"
  by (simp add: ev_base_stamp)

text \<open>
  A permission answered after its run is over reopens the run: the request of a run that
  was stopped stays pending, and the answer writes a start of that run with no end after it, so the
  log of an idle bridge ends in a run that any other pod takes for interrupted, without the user's
  stop.
\<close>

theorem late_answer_reopens_finished_run:
  assumes "map_of (b_pending b) t = Some p" and "\<not> p_external p" and "\<not> p_abandoned p"
    and "p_run p = Some (th, r)" and "b_run b = None"
  shows "b_run (snd (answerPermission d t x ap res b)) = None
    \<and> map_option di_runId (danglingRunInfo (b_log (snd (answerPermission d t x ap res b))) None) = Some r
    \<and> map_option di_cancelRequested (danglingRunInfo (b_log (snd (answerPermission d t x ap res b))) None) = Some False"
proof -
  obtain log b' where log: "b_log (snd (answerPermission d t x ap res b)) =
      log @ [stamp d b' (ev (RUN_STARTED th r None None))]"
    using assms by (auto simp: answerPermission_def permission_resumes_def Let_def reopen_run_def b_log_emit)
  have "b_run (snd (answerPermission d t x ap res b)) = None"
    using assms by (simp add: answerPermission_def permission_resumes_def Let_def reopen_run_def)
  moreover obtain h g where "ev_base (stamp d b' (ev (RUN_STARTED th r None None))) = RUN_STARTED th r h g"
    using ev_base_stamp_start by blast
  ultimately show ?thesis using log dangling_after_start by simp
qed

definition ask_permission :: bridge_input where
  "ask_permission = InPermission \<lparr>pr_toolCallId = ''c1'', pr_title = None,
     pr_options = [\<lparr>po_optionId = ''yes'', po_name = ''Allow'', po_kind = ''allow_once''\<rparr>], pr_request = None\<rparr>"

text \<open>The user stops the run while it waits for a permission, and answers afterwards.\<close>

theorem late_answer_reopens_finished_run_witness:
  "case runs_to plain_deps (say ''hi'' # ready_up @ [ask_permission, InCancel True] @ wrap_up ''cancelled'') createSessionBridge of
     None \<Rightarrow> False
   | Some b \<Rightarrow>
       b_pc b = PumpIdle
       \<and> danglingRunInfo (b_log b) None = None
       \<and> danglingRunInfo (b_log (snd (answerPermission plain_deps ''c1'' ''yes'' None None b))) None \<noteq> None"
proof -
  obtain b p th r where b: "runs_to plain_deps (say ''hi'' # ready_up @ [ask_permission, InCancel True] @ wrap_up ''cancelled'')
        createSessionBridge = Some b"
      "b_pc b = PumpIdle" "danglingRunInfo (b_log b) None = None"
      "map_of (b_pending b) ''c1'' = Some p" "\<not> p_external p" "\<not> p_abandoned p" "p_run p = Some (th, r)" "b_run b = None"
    by (simp add: run_defs permission_defs ask_permission_def Let_def danglingRunInfo_def is_terminal_def truthy_run_id_def
        event_run_id_def cong: let_weak_cong)
  show ?thesis
    using late_answer_reopens_finished_run [OF b(4-8), of plain_deps "''yes''" None None] b(1-3)
    by auto
qed

definition hooked_deps :: bridge_deps where
  "hooked_deps = plain_deps\<lparr>d_hooks := True\<rparr>"

definition hook_refuses :: hook_outcome where
  "hook_refuses = \<lparr>ho_block = Some ''no'', ho_context = [], ho_systemMessages = [], ho_stop = None,
     ho_runs = [(''guard'', HookBlock)]\<rparr>"

definition hook_allows :: hook_outcome where
  "hook_allows = \<lparr>ho_block = None, ho_context = [], ho_systemMessages = [], ho_stop = None, ho_runs = []\<rparr>"

lemmas hook_defs = hooked_deps_def hook_refuses_def hook_allows_def on_session_start_def on_submit_def fireHooks_def
  emitHookNote_def refused_def
lemmas wedge_defs = activity_timer_fires_def wedge_run_def dropCachedSession_def abandonAgentPermissions_def
  bridge_cancel_def providerDiagnostic_def retry_delay_def

text \<open>
  A hook that refuses a prompt whose run a watchdog has ended gives the run a second
  terminal event: the dead-on-arrival timer fires while the agent is being set up, the set-up ends,
  and the refusal ends the run again.
\<close>

theorem late_refusal_ends_run_twice:
  "case runs_to hooked_deps
          (say ''hi'' # [InActivityTimer []] @ ready_up @ [InSessionStart (Inr hook_allows), InSubmit (Inr hook_refuses)])
          createSessionBridge of
     None \<Rightarrow> False
   | Some b \<Rightarrow>
       length (fst (run_view_of (b_log b))) = 1 \<and> length (filter ends_own_run (b_log b)) = 2
       \<and> \<not> snd (snd (run_view_of (b_log b)))"
  by (simp add: run_defs hook_defs wedge_defs Let_def run_view_of_def ends_own_run_def cong: let_weak_cong)

text \<open>
  A run that the dead-on-arrival timer ends while its agent is still being set up sends
  its prompt nevertheless, and the retry sends it again: the agent gets the user's message twice.
\<close>

theorem wedged_setup_prompts_twice:
  "case runs_to plain_deps
          (say ''hi'' # [InActivityTimer []] @ ready_up @ [InAbandoned, InBackoff] @ ready_up)
          createSessionBridge of
     None \<Rightarrow> False
   | Some b \<Rightarrow>
       filter (\<lambda>c. case c of SendPrompt _ _ _ \<Rightarrow> True | _ \<Rightarrow> False) (b_calls b) =
         [SendPrompt 1 (Some ''s1'') [TextBlock ''hi''], SendPrompt 1 (Some ''s1'') [TextBlock ''hi'']]"
  by (simp add: run_defs wedge_defs on_backoff_def run_retryable_def Let_def cong: let_weak_cong)

end
