(* ===== verification/Async.thy ===== *)
theory Async
  imports Main "HOL-Library.AList"
begin

text \<open>
  Asynchronous functions on one thread. A \<^verbatim>\<open>proc\<close> is the rest of an \<^verbatim>\<open>async\<close> function: it
  reads and writes the shared state, and between two awaits nothing else runs. An \<open>Await\<close> hands a
  request to the outside (a database, a cluster, a timer, an agent) and goes on with its answer,
  \<^const>\<open>Inl\<close> a rejection; \<open>Spawn\<close> calls another async function, which runs to its first await
  before the caller goes on, and yields its promise; \<open>Join\<close> awaits such a promise.

  The event loop keeps the suspended functions, the settled promises and the requests issued so far.
  Which suspended function goes on next is not determined: any answer may come at any time.

  The last part is a rely-guarantee logic for such programs: \<open>ok G R p s\<close> says that \<open>p\<close>, run from
  \<open>s\<close>, changes the state only along \<open>G\<close> and issues a request \<open>q\<close> only in a state \<open>s'\<close> with
  \<open>R s' q\<close>, whatever the others do along \<open>G\<close> while it is suspended.
\<close>

subsection \<open>Programs\<close>

datatype ('s, 'q, 'r, 'e, 'v) proc =
    Return 'v
  | Throw 'e
  | Read "'s \<Rightarrow> ('s, 'q, 'r, 'e, 'v) proc"
  | Write "'s \<Rightarrow> 's" "('s, 'q, 'r, 'e, 'v) proc"
  | Await 'q "'e + 'r \<Rightarrow> ('s, 'q, 'r, 'e, 'v) proc"
  | Spawn "('s, 'q, 'r, 'e, 'v) proc" "nat \<Rightarrow> ('s, 'q, 'r, 'e, 'v) proc"
  | Join nat "'e + 'v \<Rightarrow> ('s, 'q, 'r, 'e, 'v) proc"

primrec bind :: "('s, 'q, 'r, 'e, 'v) proc \<Rightarrow> ('v \<Rightarrow> ('s, 'q, 'r, 'e, 'v) proc) \<Rightarrow> ('s, 'q, 'r, 'e, 'v) proc" where
  "bind (Return v) f = f v"
| "bind (Throw e) f = Throw e"
| "bind (Read k) f = Read (\<lambda>s. bind (k s) f)"
| "bind (Write g p) f = Write g (bind p f)"
| "bind (Await q k) f = Await q (\<lambda>r. bind (k r) f)"
| "bind (Spawn p k) f = Spawn p (\<lambda>n. bind (k n) f)"
| "bind (Join n k) f = Join n (\<lambda>r. bind (k r) f)"

text \<open>Both ends of a function: \<open>settle p f g\<close> goes on with \<open>f\<close> when \<open>p\<close> returns and with \<open>g\<close> when it throws.\<close>

primrec settle ::
  "('s, 'q, 'r, 'e, 'v) proc \<Rightarrow> ('v \<Rightarrow> ('s, 'q, 'r, 'e, 'v) proc) \<Rightarrow> ('e \<Rightarrow> ('s, 'q, 'r, 'e, 'v) proc)
    \<Rightarrow> ('s, 'q, 'r, 'e, 'v) proc" where
  "settle (Return v) f g = f v"
| "settle (Throw e) f g = g e"
| "settle (Read k) f g = Read (\<lambda>s. settle (k s) f g)"
| "settle (Write h p) f g = Write h (settle p f g)"
| "settle (Await q k) f g = Await q (\<lambda>r. settle (k r) f g)"
| "settle (Spawn p k) f g = Spawn p (\<lambda>n. settle (k n) f g)"
| "settle (Join n k) f g = Join n (\<lambda>r. settle (k r) f g)"

text \<open>\<^verbatim>\<open>await f()\<close> of a request, a rejection propagating.\<close>

definition request :: "'q \<Rightarrow> ('r \<Rightarrow> ('s, 'q, 'r, 'e, 'v) proc) \<Rightarrow> ('s, 'q, 'r, 'e, 'v) proc" where
  "request q k = Await q (\<lambda>r. case r of Inl e \<Rightarrow> Throw e | Inr x \<Rightarrow> k x)"

text \<open>\<^verbatim>\<open>for (const x of xs) await f(x)\<close>, the list read before the loop.\<close>

primrec for_each :: "('a \<Rightarrow> ('s, 'q, 'r, 'e, 'v) proc) \<Rightarrow> 'a list \<Rightarrow> ('s, 'q, 'r, 'e, 'v) proc \<Rightarrow> ('s, 'q, 'r, 'e, 'v) proc" where
  "for_each f [] k = k"
| "for_each f (x # xs) k = bind (f x) (\<lambda>_. for_each f xs k)"

subsection \<open>The event loop\<close>

record ('s, 'q, 'r, 'e, 'v) loop =
  lp_state :: 's
  lp_tasks :: "(nat \<times> ('s, 'q, 'r, 'e, 'v) proc) list"
  lp_done :: "(nat \<times> ('e + 'v)) list"
  lp_next :: nat
  lp_issued :: "'q list"

definition new_loop :: "'s \<Rightarrow> ('s, 'q, 'r, 'e, 'v) loop" where
  "new_loop s = \<lparr>lp_state = s, lp_tasks = [], lp_done = [], lp_next = 0, lp_issued = []\<rparr>"

fun park :: "nat \<Rightarrow> ('s, 'q, 'r, 'e, 'v) proc \<Rightarrow> ('s, 'q, 'r, 'e, 'v) loop \<Rightarrow> ('s, 'q, 'r, 'e, 'v) loop" where
  "park n (Return v) c = c\<lparr>lp_done := (n, Inr v) # lp_done c\<rparr>"
| "park n (Throw e) c = c\<lparr>lp_done := (n, Inl e) # lp_done c\<rparr>"
| "park n p c = c\<lparr>lp_tasks := lp_tasks c @ [(n, p)]\<rparr>"

text \<open>Run to the next await.\<close>

primrec advance ::
  "('s, 'q, 'r, 'e, 'v) proc \<Rightarrow> ('s, 'q, 'r, 'e, 'v) loop \<Rightarrow> ('s, 'q, 'r, 'e, 'v) proc \<times> ('s, 'q, 'r, 'e, 'v) loop" where
  "advance (Return v) c = (Return v, c)"
| "advance (Throw e) c = (Throw e, c)"
| "advance (Read k) c = advance (k (lp_state c)) c"
| "advance (Write f p) c = advance p (c\<lparr>lp_state := f (lp_state c)\<rparr>)"
| "advance (Await q k) c = (Await q k, c\<lparr>lp_issued := lp_issued c @ [q]\<rparr>)"
| "advance (Spawn p k) c =
     (let n = lp_next c; r = advance p (c\<lparr>lp_next := Suc n\<rparr>)
      in advance (k n) (park n (fst r) (snd r)))"
| "advance (Join n k) c = (Join n k, c)"

definition continue ::
  "nat \<Rightarrow> ('s, 'q, 'r, 'e, 'v) proc \<Rightarrow> ('s, 'q, 'r, 'e, 'v) loop \<Rightarrow> ('s, 'q, 'r, 'e, 'v) loop" where
  "continue n p c = (let r = advance p c in park n (fst r) (snd r))"

text \<open>What happens to a loop: a call from outside, an answer to a suspended function, or the delivery of a settled promise.\<close>

datatype ('c, 'e, 'r) event = Call 'c | Answer nat "'e + 'r" | Deliver nat

fun loop_step ::
  "('q \<Rightarrow> 'r \<Rightarrow> bool) \<Rightarrow> ('c \<Rightarrow> ('s, 'q, 'r, 'e, 'v) proc) \<Rightarrow> ('c, 'e, 'r) event
    \<Rightarrow> ('s, 'q, 'r, 'e, 'v) loop \<Rightarrow> ('s, 'q, 'r, 'e, 'v) loop option" where
  "loop_step fits ops (Call x) c = Some (continue (lp_next c) (ops x) (c\<lparr>lp_next := Suc (lp_next c)\<rparr>))"
| "loop_step fits ops (Answer n r) c =
     (case map_of (lp_tasks c) n of
        Some (Await q k) \<Rightarrow>
          if (case r of Inl _ \<Rightarrow> True | Inr x \<Rightarrow> fits q x)
          then Some (continue n (k r) (c\<lparr>lp_tasks := AList.delete n (lp_tasks c)\<rparr>)) else None
      | _ \<Rightarrow> None)"
| "loop_step fits ops (Deliver n) c =
     (case map_of (lp_tasks c) n of
        Some (Join m k) \<Rightarrow>
          (case map_of (lp_done c) m of
             Some r \<Rightarrow> Some (continue n (k r) (c\<lparr>lp_tasks := AList.delete n (lp_tasks c)\<rparr>))
           | None \<Rightarrow> None)
      | _ \<Rightarrow> None)"

primrec loop_run ::
  "('q \<Rightarrow> 'r \<Rightarrow> bool) \<Rightarrow> ('c \<Rightarrow> ('s, 'q, 'r, 'e, 'v) proc) \<Rightarrow> ('c, 'e, 'r) event list
    \<Rightarrow> ('s, 'q, 'r, 'e, 'v) loop \<Rightarrow> ('s, 'q, 'r, 'e, 'v) loop option" where
  "loop_run fits ops [] c = Some c"
| "loop_run fits ops (x # xs) c = Option.bind (loop_step fits ops x c) (loop_run fits ops xs)"

lemma loop_run_append:
  "loop_run fits ops (xs @ ys) c = Option.bind (loop_run fits ops xs c) (loop_run fits ops ys)"
  by (induction xs arbitrary: c) (auto simp: bind_assoc split: Option.bind_splits)

lemma map_of_AList_delete: "map_of (AList.delete n xs) m = (if m = n then None else map_of xs m)"
  by (simp add: delete_conv)

subsection \<open>Rely and guarantee\<close>

primrec ok ::
  "('s \<Rightarrow> 's \<Rightarrow> bool) \<Rightarrow> ('s \<Rightarrow> 'q \<Rightarrow> bool) \<Rightarrow> ('s, 'q, 'r, 'e, 'v) proc \<Rightarrow> 's \<Rightarrow> bool" where
  "ok G R (Return v) s = True"
| "ok G R (Throw e) s = True"
| "ok G R (Read k) s = ok G R (k s) s"
| "ok G R (Write f p) s = (G s (f s) \<and> ok G R p (f s))"
| "ok G R (Await q k) s = (R s q \<and> (\<forall>r s'. G s s' \<longrightarrow> ok G R (k r) s'))"
| "ok G R (Spawn p k) s = (ok G R p s \<and> (\<forall>n s'. G s s' \<longrightarrow> ok G R (k n) s'))"
| "ok G R (Join n k) s = (\<forall>r s'. G s s' \<longrightarrow> ok G R (k r) s')"

text \<open>A suspended function goes on well from every state the others can reach.\<close>

fun waits :: "('s \<Rightarrow> 's \<Rightarrow> bool) \<Rightarrow> ('s \<Rightarrow> 'q \<Rightarrow> bool) \<Rightarrow> 's \<Rightarrow> ('s, 'q, 'r, 'e, 'v) proc \<Rightarrow> bool" where
  "waits G R s (Await q k) = (\<forall>r s'. G s s' \<longrightarrow> ok G R (k r) s')"
| "waits G R s (Join n k) = (\<forall>r s'. G s s' \<longrightarrow> ok G R (k r) s')"
| "waits G R s _ = True"

definition loop_ok :: "('s \<Rightarrow> 's \<Rightarrow> bool) \<Rightarrow> ('s \<Rightarrow> 'q \<Rightarrow> bool) \<Rightarrow> ('s, 'q, 'r, 'e, 'v) loop \<Rightarrow> bool" where
  "loop_ok G R c \<longleftrightarrow> list_all (\<lambda>t. waits G R (lp_state c) (snd t)) (lp_tasks c)"

text \<open>The requests issued between two loops, each in a state on the way.\<close>

definition issues_ok :: "('s \<Rightarrow> 's \<Rightarrow> bool) \<Rightarrow> ('s \<Rightarrow> 'q \<Rightarrow> bool) \<Rightarrow> ('s, 'q, 'r, 'e, 'v) loop \<Rightarrow> ('s, 'q, 'r, 'e, 'v) loop \<Rightarrow> bool" where
  "issues_ok G R c c' \<longleftrightarrow>
     (\<exists>qs. lp_issued c' = lp_issued c @ qs \<and> (\<forall>q \<in> set qs. \<exists>s. G (lp_state c) s \<and> G s (lp_state c') \<and> R s q))"

locale guarantee =
  fixes G :: "'s \<Rightarrow> 's \<Rightarrow> bool" and R :: "'s \<Rightarrow> 'q \<Rightarrow> bool"
  assumes G_refl: "G s s" and G_trans: "G s t \<Longrightarrow> G t u \<Longrightarrow> G s u"
begin

lemma ok_bind: "ok G R p s \<Longrightarrow> (\<And>v s'. G s s' \<Longrightarrow> ok G R (f v) s') \<Longrightarrow> ok G R (bind p f) s"
proof (induction p arbitrary: s)
  case (Write g p)
  then show ?case by simp (meson G_trans)
next
  case (Await q k)
  then show ?case by simp (meson G_trans rangeI)
next
  case (Spawn p k)
  then show ?case by simp (meson G_trans rangeI)
next
  case (Join n k)
  then show ?case by simp (meson G_trans rangeI)
qed (simp_all add: G_refl)

lemma ok_settle:
  "ok G R p s \<Longrightarrow> (\<And>v s'. G s s' \<Longrightarrow> ok G R (f v) s') \<Longrightarrow> (\<And>e s'. G s s' \<Longrightarrow> ok G R (g e) s')
    \<Longrightarrow> ok G R (settle p f g) s"
proof (induction p arbitrary: s)
  case (Write h p)
  then show ?case by simp (meson G_trans)
next
  case (Await q k)
  then show ?case by simp (meson G_trans rangeI)
next
  case (Spawn p k)
  then show ?case by simp (meson G_trans rangeI)
next
  case (Join n k)
  then show ?case by simp (meson G_trans rangeI)
qed (simp_all add: G_refl)

lemma ok_request: "R s q \<Longrightarrow> (\<And>r s'. G s s' \<Longrightarrow> ok G R (k r) s') \<Longrightarrow> ok G R (request q k) s"
  by (simp add: request_def split: sum.split)

lemma ok_for_each:
  "(\<And>x s'. x \<in> set xs \<Longrightarrow> G s s' \<Longrightarrow> ok G R (f x) s') \<Longrightarrow> (\<And>s'. G s s' \<Longrightarrow> ok G R k s') \<Longrightarrow> ok G R (for_each f xs k) s"
proof (induction xs arbitrary: s)
  case (Cons x xs)
  have "ok G R (f x) s" using Cons.prems(1) G_refl by simp
  moreover have "ok G R (for_each f xs k) s'" if "G s s'" for s'
    using that Cons.prems by (intro Cons.IH) (auto intro: G_trans)
  ultimately show ?case by (simp add: ok_bind)
qed (simp add: G_refl)

lemma waits_mono: "waits G R s p \<Longrightarrow> G s s' \<Longrightarrow> waits G R s' p"
  by (cases p) (auto intro: G_trans)

lemma loop_ok_later:
  "loop_ok G R c \<Longrightarrow> G (lp_state c) s \<Longrightarrow> list_all (\<lambda>t. waits G R s (snd t)) (lp_tasks c)"
  by (auto simp: loop_ok_def list_all_iff intro: waits_mono)

lemma loop_ok_park: "loop_ok G R c \<Longrightarrow> waits G R (lp_state c) p \<Longrightarrow> loop_ok G R (park n p c)"
  by (cases p) (auto simp: loop_ok_def)

lemma park_simps: "lp_state (park n p c) = lp_state c" "lp_issued (park n p c) = lp_issued c"
  by (cases p; simp)+

lemma issues_ok_refl: "lp_issued c' = lp_issued c \<Longrightarrow> issues_ok G R c c'"
  by (simp add: issues_ok_def)

lemma issues_ok_trans:
  assumes "issues_ok G R c c'" and "issues_ok G R c' c''" and "G (lp_state c) (lp_state c')" and "G (lp_state c') (lp_state c'')"
  shows "issues_ok G R c c''"
proof -
  obtain qs qs' where qs: "lp_issued c' = lp_issued c @ qs" "lp_issued c'' = lp_issued c' @ qs'"
      "\<forall>q \<in> set qs. \<exists>s. G (lp_state c) s \<and> G s (lp_state c') \<and> R s q"
      "\<forall>q \<in> set qs'. \<exists>s. G (lp_state c') s \<and> G s (lp_state c'') \<and> R s q"
    using assms(1,2) by (auto simp: issues_ok_def)
  then have "\<forall>q \<in> set (qs @ qs'). \<exists>s. G (lp_state c) s \<and> G s (lp_state c'') \<and> R s q"
    using assms(3,4) unfolding set_append ball_Un by (blast intro: G_trans)
  with qs(1,2) show ?thesis by (auto simp: issues_ok_def)
qed

definition moves :: "('s, 'q, 'r, 'e, 'v) loop \<Rightarrow> ('s, 'q, 'r, 'e, 'v) loop \<Rightarrow> bool" where
  "moves c c' \<longleftrightarrow> G (lp_state c) (lp_state c') \<and> issues_ok G R c c' \<and> loop_ok G R c'"

lemma moves_trans: "moves c c' \<Longrightarrow> moves c' c'' \<Longrightarrow> moves c c''"
  unfolding moves_def using G_trans issues_ok_trans by blast

lemma moves_write:
  "loop_ok G R c \<Longrightarrow> G (lp_state c) s \<Longrightarrow> moves c (c\<lparr>lp_state := s\<rparr>)"
  using loop_ok_later by (auto simp: moves_def issues_ok_refl loop_ok_def)

lemma advance_moves:
  "loop_ok G R c \<Longrightarrow> ok G R p (lp_state c) \<Longrightarrow>
    moves c (snd (advance p c)) \<and> waits G R (lp_state (snd (advance p c))) (fst (advance p c))"
proof (induction p arbitrary: c)
  case (Read k)
  then show ?case by simp
next
  case (Write f p)
  let ?c = "c\<lparr>lp_state := f (lp_state c)\<rparr>"
  have m: "moves c ?c" using Write.prems by (intro moves_write) simp_all
  then have "moves ?c (snd (advance p ?c)) \<and> waits G R (lp_state (snd (advance p ?c))) (fst (advance p ?c))"
    using Write by (intro Write.IH) (simp_all add: moves_def)
  with m show ?case using moves_trans by auto
next
  case (Await q k)
  let ?c = "c\<lparr>lp_issued := lp_issued c @ [q]\<rparr>"
  have "issues_ok G R c ?c" using Await.prems G_refl by (auto simp: issues_ok_def)
  then show ?case using Await.prems G_refl by (auto simp: moves_def loop_ok_def)
next
  case (Spawn p k)
  define n where "n = lp_next c"
  define c1 where "c1 = c\<lparr>lp_next := Suc n\<rparr>"
  define c2 where "c2 = park n (fst (advance p c1)) (snd (advance p c1))"
  have "moves c c1" using Spawn.prems by (simp add: moves_def c1_def G_refl issues_ok_refl loop_ok_def)
  moreover have p: "moves c1 (snd (advance p c1)) \<and> waits G R (lp_state (snd (advance p c1))) (fst (advance p c1))"
    using Spawn.prems by (intro Spawn.IH(1)) (simp_all add: c1_def loop_ok_def)
  moreover have "moves (snd (advance p c1)) c2"
    using p by (auto simp: moves_def c2_def park_simps G_refl issues_ok_refl intro: loop_ok_park)
  ultimately have m: "moves c c2" using moves_trans by blast
  then have "moves c2 (snd (advance (k n) c2)) \<and> waits G R (lp_state (snd (advance (k n) c2))) (fst (advance (k n) c2))"
    using Spawn.prems by (intro Spawn.IH(2)) (auto simp: moves_def)
  with m show ?case
    using moves_trans by (auto simp: Let_def n_def c1_def c2_def)
qed (simp_all add: moves_def G_refl issues_ok_refl)

lemma continue_moves: "loop_ok G R c \<Longrightarrow> ok G R p (lp_state c) \<Longrightarrow> moves c (continue n p c)"
  using advance_moves [of c p]
  by (auto simp: moves_def continue_def Let_def park_simps issues_ok_def intro: loop_ok_park)

lemma loop_ok_new [simp]: "loop_ok G R (new_loop s)"
  by (simp add: loop_ok_def new_loop_def)

lemma loop_ok_delete: "loop_ok G R c \<Longrightarrow> loop_ok G R (c\<lparr>lp_tasks := AList.delete n (lp_tasks c)\<rparr>)"
  by (auto simp: loop_ok_def list_all_iff AList.delete_eq)

lemma loop_step_moves:
  assumes "loop_step fits ops x c = Some c'" and "loop_ok G R c"
    and ops: "\<And>y s. x = Call y \<Longrightarrow> G (lp_state c) s \<Longrightarrow> ok G R (ops y) s"
  shows "moves c c'"
proof (cases x)
  case (Call y)
  let ?c = "c\<lparr>lp_next := Suc (lp_next c)\<rparr>"
  have "loop_ok G R ?c" using assms(2) by (simp add: loop_ok_def)
  moreover have "ok G R (ops y) (lp_state ?c)" using ops Call G_refl by simp
  ultimately have "moves ?c (continue (lp_next c) (ops y) ?c)" by (rule continue_moves)
  with assms(1) Call show ?thesis by (auto simp: moves_def issues_ok_def)
next
  case (Answer n r)
  let ?c = "c\<lparr>lp_tasks := AList.delete n (lp_tasks c)\<rparr>"
  obtain q k where t: "map_of (lp_tasks c) n = Some (Await q k)" and c': "c' = continue n (k r) ?c"
    using assms(1) Answer by (auto split: option.splits proc.splits if_splits)
  have "waits G R (lp_state c) (Await q k)"
    using map_of_SomeD [OF t] assms(2) by (auto simp: loop_ok_def list_all_iff)
  then have "ok G R (k r) (lp_state ?c)" using G_refl by simp
  then have "moves ?c c'" unfolding c' by (rule continue_moves [OF loop_ok_delete [OF assms(2)]])
  then show ?thesis by (auto simp: moves_def issues_ok_def)
next
  case (Deliver n)
  let ?c = "c\<lparr>lp_tasks := AList.delete n (lp_tasks c)\<rparr>"
  obtain m k r where t: "map_of (lp_tasks c) n = Some (Join m k)" and c': "c' = continue n (k r) ?c"
    using assms(1) Deliver by (auto split: option.splits proc.splits)
  have "waits G R (lp_state c) (Join m k)"
    using map_of_SomeD [OF t] assms(2) by (auto simp: loop_ok_def list_all_iff)
  then have "ok G R (k r) (lp_state ?c)" using G_refl by simp
  then have "moves ?c c'" unfolding c' by (rule continue_moves [OF loop_ok_delete [OF assms(2)]])
  then show ?thesis by (auto simp: moves_def issues_ok_def)
qed

lemma loop_run_moves:
  assumes "loop_run fits ops xs c = Some c'" and "loop_ok G R c"
    and "\<And>x s. Call x \<in> set xs \<Longrightarrow> G (lp_state c) s \<Longrightarrow> ok G R (ops x) s"
  shows "moves c c'"
  using assms
proof (induction xs arbitrary: c)
  case Nil
  then show ?case by (simp add: moves_def G_refl issues_ok_refl)
next
  case (Cons x xs)
  obtain c1 where c1: "loop_step fits ops x c = Some c1" and rest: "loop_run fits ops xs c1 = Some c'"
    using Cons.prems(1) by (auto split: Option.bind_splits)
  have m: "moves c c1" using Cons.prems(3) by (intro loop_step_moves [OF c1 Cons.prems(2)]) auto
  then have "moves c1 c'"
    using Cons.prems(3) by (intro Cons.IH [OF rest]) (auto simp: moves_def intro: G_trans)
  with m show ?case by (rule moves_trans)
qed

end

end
