(* ===== verification/Session_State.thy ===== *)
theory Session_State
  imports Async Bridge_Run Conversation_Registry Ownership Dangling_Run "HOL-Library.Word"
begin

text \<open>
  The state of the session manager (\<^verbatim>\<open>createSessionManager\<close> of
  \<^verbatim>\<open>services/agent-host/src/session/manager.ts\<close>), what it asks of its surroundings, and the
  synchronous helpers its operations share.

  \<^item> A conversation's \<^verbatim>\<open>Entry\<close> is an object that several suspended functions may hold while
    another drops it from the map: entries live in a store of objects (\<open>m_objs\<close>), and the map
    \<^verbatim>\<open>entries\<close> and the functions hold their numbers. A bridge is an object likewise
    (\<open>m_bridges\<close>), whose state is the bridge of \<^verbatim>\<open>Bridge_State\<close>.
  \<^item> What is awaited is a request: calls of the sandbox provisioner, of the conversation store, of
    the registry, of a bridge, timers. An answer may be a rejection. The store is the Postgres store,
    which has every optional operation.
  \<^item> A call of an async function that nothing awaits and whose first segment only reads
    (\<^verbatim>\<open>stopLocalRun\<close> and \<^verbatim>\<open>finishDeferredStop\<close> called from the event handler, the callback
    given to \<^verbatim>\<open>provisioner.restart\<close>) is posted, and begins at some later time.
\<close>

subsection \<open>Data\<close>

record sandbox_ref =
  sr_name :: string
  sr_namespace :: string
  sr_podIP :: "string option"

datatype conversation_status = StRunning | StSuspended | StEnded
datatype visibility = Shared | Private
datatype model_set_by = ByUser | ByAgent

record entry =
  e_id :: session_id
  e_threadId :: thread_id
  e_sandbox :: sandbox_ref
  e_bridge :: "nat option"
  e_status :: conversation_status
  e_title :: string
  e_createdAt :: int
  e_lastActivityAt :: int
  e_model :: "string option"
  e_modelSetBy :: "model_set_by option"
  e_pickedProvider :: "string option"
  e_owner :: "string option"
  e_parentId :: "session_id option"
  e_userTitled :: bool
  e_starred :: bool
  e_visibility :: "visibility option"
  e_pendingQueue :: "drained_item list option"
  e_stopAfterRun :: bool

record conversation_meta =
  cm_id :: session_id
  cm_threadId :: thread_id
  cm_title :: string
  cm_createdAt :: int
  cm_lastActivityAt :: int
  cm_model :: "string option"
  cm_modelSetBy :: "model_set_by option"
  cm_owner :: "string option"
  cm_parentId :: "session_id option"
  cm_userTitled :: bool
  cm_starred :: bool
  cm_visibility :: "visibility option"
  cm_pendingQueue :: "drained_item list option"

record router_meta =
  rm_title :: string
  rm_userTitled :: bool
  rm_starred :: bool

record pending_restart =
  rp_image :: "(string \<times> string) option"
  rp_template :: "string list option"
  rp_env :: "bool option"
  rp_size :: "bool option"

record restart_result =
  rr_fromImage :: "string option"
  rr_toImage :: "string option"
  rr_imageCurrent :: bool
  rr_sizeApplied :: bool
  rr_ready :: bool

text \<open>What a bridge is built with.\<close>

record bridge_args =
  ba_conversationId :: session_id
  ba_sandbox :: sandbox_ref
  ba_model :: "string option"
  ba_pickedProvider :: "string option"
  ba_owner :: "string option"

text \<open>
  A bridge object: \<open>bo_entry\<close> is the entry whose handler is subscribed to its events, \<open>bo_reports\<close>
  the subagent and parent whose completion it reports.
\<close>

record bridge_obj =
  bo_args :: bridge_args
  bo_bridge :: bridge
  bo_entry :: "nat option"
  bo_reports :: "(session_id \<times> session_id) option"

record manager_deps =
  md_selfPod :: "string option"
  md_bridgeDeps :: "bridge_args \<Rightarrow> bridge_deps"
  md_handoffGraceMs :: int
  md_jobProbe :: bool
  md_canRestart :: bool
  md_fuel :: nat

datatype posted = PostStop session_id | PostDeferredStop nat | PostRestartRunning nat bool

record manager =
  m_now :: int
  m_entries :: "(session_id, nat) js_map"
  m_objs :: "nat \<Rightarrow> entry"
  m_nextObj :: nat
  m_ended :: "session_id list"
  m_reviving :: "(session_id, nat) js_map"
  m_reconciling :: "session_id list"
  m_drops :: "session_id \<rightharpoonup> nat"
  m_lastRefresh :: "session_id \<rightharpoonup> int"
  m_bridges :: "nat \<Rightarrow> bridge_obj"
  m_nextBridge :: nat
  m_guard :: "tracker option"
  m_posted :: "posted list"
  m_completions :: "(session_id \<times> session_id) list"
  m_revived :: "session_id list"
  m_cycled :: "sandbox_ref list"
  m_resumeQueue :: "session_id list"
  m_resumed :: "session_id list"

subsection \<open>Requests and answers\<close>

datatype mgr_request =
    QTick
  | QSleep int
  | QSaveMeta conversation_meta
  | QSetVisibility session_id visibility
  | QListMetas
  | QReadRouterMeta session_id
  | QTouchActivity session_id int
  | QReadLastActivity session_id
  | QRemoveConversation session_id
  | QAppend session_id agui_event
  | QReadEvents session_id
  | QReadTail session_id nat
  | QRegister session_id conversation_spec
  | QSetPhase session_id conversation_phase
  | QRemoveRow session_id
  | QGetRow session_id
  | QListRows
  | QCreate string thread_id
  | QResume sandbox_ref thread_id
  | QSuspend sandbox_ref
  | QDestroy sandbox_ref
  | QReconcile
  | QPendingRestart sandbox_ref
  | QRestart sandbox_ref
  | QBridgeStart nat
  | QBridgeStop nat
  | QBridgeCancel nat
  | QRunEnd nat nat
  | QConfirmOwns session_id
  | QBackgroundJob session_id

datatype mgr_response =
    is_ROk: ROk
  | is_RRef: RRef sandbox_ref
  | is_RMetas: RMetas "conversation_meta list"
  | is_RRouterMeta: RRouterMeta "router_meta option"
  | is_RTime: RTime "int option"
  | is_REvents: REvents "agui_event list"
  | is_RRow: RRow "conversation_record option"
  | is_RRows: RRows "conversation_record list"
  | is_RSandboxes: RSandboxes "(sandbox_ref \<times> bool) list"
  | is_RPending: RPending "pending_restart option"
  | is_RRestart: RRestart restart_result
  | is_RSession: RSession session_env
  | is_RBool: RBool bool

datatype mgr_error =
    UnknownConversation session_id
  | UnknownParent session_id
  | ConversationEnded session_id
  | NoRootConversation session_id
  | PrivateNeedsOwner
  | SubagentVisibility
  | CannotRestart
  | NoSandboxYet
  | BusySandbox session_id
  | Rejection string

text \<open>What the answer to a request looks like.\<close>

definition answer_fits :: "mgr_request \<Rightarrow> mgr_response \<Rightarrow> bool" where
  "answer_fits q r =
     (case q of
        QCreate _ _ \<Rightarrow> is_RRef r
      | QResume _ _ \<Rightarrow> is_RRef r
      | QListMetas \<Rightarrow> is_RMetas r
      | QReadRouterMeta _ \<Rightarrow> is_RRouterMeta r
      | QReadLastActivity _ \<Rightarrow> is_RTime r
      | QReadEvents _ \<Rightarrow> is_REvents r
      | QReadTail _ _ \<Rightarrow> is_REvents r
      | QGetRow _ \<Rightarrow> is_RRow r
      | QListRows \<Rightarrow> is_RRows r
      | QReconcile \<Rightarrow> is_RSandboxes r
      | QPendingRestart _ \<Rightarrow> is_RPending r
      | QRestart _ \<Rightarrow> is_RRestart r
      | QBridgeStart _ \<Rightarrow> is_RSession r
      | QConfirmOwns _ \<Rightarrow> is_RBool r
      | QBackgroundJob _ \<Rightarrow> is_RBool r
      | _ \<Rightarrow> is_ROk r)"

text \<open>
  The values the operations return; \<open>VEntry\<close> an entry object or none, \<open>VRun\<close> the promise of a run
  (bridge and queue item), \<open>VStopped\<close> whether the stop was deferred.
\<close>

datatype mgr_value =
    VUnit
  | VBool bool
  | VConv entry
  | VEntry "nat option"
  | VIds "session_id list"
  | VRun "(nat \<times> nat) option"
  | VPending "pending_restart option"
  | VStopped bool "pending_restart option"
  | VRestarted restart_result

type_synonym mgr_proc = "(manager, mgr_request, mgr_response, mgr_error, mgr_value) proc"
type_synonym mgr_loop = "(manager, mgr_request, mgr_response, mgr_error, mgr_value) loop"

subsection \<open>Names\<close>

definition PLACEHOLDER_TITLE :: string where "PLACEHOLDER_TITLE = ''New chat''"

definition isPlaceholderTitle :: "string \<Rightarrow> bool" where
  "isPlaceholderTitle title \<longleftrightarrow> trim title = [] \<or> title = PLACEHOLDER_TITLE"

text \<open>\<^verbatim>\<open>n.toString(36)\<close>\<close>

definition digit36 :: "nat \<Rightarrow> char" where
  "digit36 d = (if d < 10 then char_of (48 + d) else char_of (87 + d))"

fun toString36 :: "nat \<Rightarrow> string" where
  "toString36 n = (if n < 36 then [digit36 n] else toString36 (n div 36) @ [digit36 (n mod 36)])"

declare toString36.simps [simp del]

text \<open>\<^verbatim>\<open>h = (h * 31 + charCode) | 0\<close>: 32-bit wrap-around.\<close>

definition short_hash :: "thread_id \<Rightarrow> 32 word" where
  "short_hash threadId = foldl (\<lambda>h c. h * 31 + of_nat (of_char c)) 0 threadId"

definition shortId :: "thread_id \<Rightarrow> string" where
  "shortId threadId = toString36 (nat \<bar>sint (short_hash threadId)\<bar>)"

definition conv_name :: "thread_id \<Rightarrow> string" where
  "conv_name threadId = ''conv-'' @ shortId threadId"

text \<open>\<^verbatim>\<open>{ name, namespace: "" }\<close>: a Sandbox that is not known to exist.\<close>

definition placeholder_ref :: "string \<Rightarrow> sandbox_ref" where
  "placeholder_ref name = \<lparr>sr_name = name, sr_namespace = [], sr_podIP = None\<rparr>"

subsection \<open>Entries\<close>

definition blank_entry :: entry where
  "blank_entry = \<lparr>e_id = [], e_threadId = [], e_sandbox = placeholder_ref [], e_bridge = None, e_status = StSuspended,
     e_title = [], e_createdAt = 0, e_lastActivityAt = 0, e_model = None, e_modelSetBy = None,
     e_pickedProvider = None, e_owner = None, e_parentId = None, e_userTitled = False, e_starred = False,
     e_visibility = None, e_pendingQueue = None, e_stopAfterRun = False\<rparr>"

definition blank_bridge :: bridge_obj where
  "blank_bridge = \<lparr>bo_args = \<lparr>ba_conversationId = [], ba_sandbox = placeholder_ref [], ba_model = None,
     ba_pickedProvider = None, ba_owner = None\<rparr>, bo_bridge = createSessionBridge, bo_entry = None, bo_reports = None\<rparr>"

definition createSessionManager :: "tracker option \<Rightarrow> manager" where
  "createSessionManager guard = \<lparr>m_now = 0, m_entries = [], m_objs = (\<lambda>_. blank_entry), m_nextObj = 0, m_ended = [],
     m_reviving = [], m_reconciling = [], m_drops = Map.empty, m_lastRefresh = Map.empty,
     m_bridges = (\<lambda>_. blank_bridge), m_nextBridge = 0, m_guard = guard, m_posted = [], m_completions = [],
     m_revived = [], m_cycled = [], m_resumeQueue = [], m_resumed = []\<rparr>"

definition lookup :: "manager \<Rightarrow> session_id \<Rightarrow> nat option" where
  "lookup m cid = map_of (m_entries m) cid"

definition set_entry :: "session_id \<Rightarrow> nat \<Rightarrow> manager \<Rightarrow> manager" where
  "set_entry cid r m = m\<lparr>m_entries := AList.update cid r (m_entries m)\<rparr>"

definition delete_entry :: "session_id \<Rightarrow> manager \<Rightarrow> manager" where
  "delete_entry cid m = m\<lparr>m_entries := AList.delete cid (m_entries m)\<rparr>"

definition upd_entry :: "nat \<Rightarrow> (entry \<Rightarrow> entry) \<Rightarrow> manager \<Rightarrow> manager" where
  "upd_entry r f m = m\<lparr>m_objs := (m_objs m)(r := f (m_objs m r))\<rparr>"

definition new_entry :: "entry \<Rightarrow> manager \<Rightarrow> manager" where
  "new_entry e m = m\<lparr>m_objs := (m_objs m)(m_nextObj m := e), m_nextObj := Suc (m_nextObj m)\<rparr>"

definition upd_bridge :: "nat \<Rightarrow> (bridge_obj \<Rightarrow> bridge_obj) \<Rightarrow> manager \<Rightarrow> manager" where
  "upd_bridge n f m = m\<lparr>m_bridges := (m_bridges m)(n := f (m_bridges m n))\<rparr>"

definition new_bridge :: "bridge_args \<Rightarrow> manager \<Rightarrow> manager" where
  "new_bridge args m = m\<lparr>m_bridges := (m_bridges m)(m_nextBridge m :=
       \<lparr>bo_args = args, bo_bridge = createSessionBridge, bo_entry = None, bo_reports = None\<rparr>),
     m_nextBridge := Suc (m_nextBridge m)\<rparr>"

text \<open>An empty parent id is falsy.\<close>

definition parent_of :: "entry \<Rightarrow> session_id option" where
  "parent_of e = Conversation_Registry.truthy (e_parentId e)"

definition meta_of :: "entry \<Rightarrow> conversation_meta" where
  "meta_of e = \<lparr>cm_id = e_id e, cm_threadId = e_threadId e, cm_title = e_title e, cm_createdAt = e_createdAt e,
     cm_lastActivityAt = e_lastActivityAt e, cm_model = e_model e, cm_modelSetBy = e_modelSetBy e,
     cm_owner = e_owner e, cm_parentId = e_parentId e, cm_userTitled = e_userTitled e, cm_starred = e_starred e,
     cm_visibility = e_visibility e, cm_pendingQueue = e_pendingQueue e\<rparr>"

definition hydrated_entry :: "conversation_meta \<Rightarrow> (sandbox_ref \<times> bool) option \<Rightarrow> string \<Rightarrow> entry" where
  "hydrated_entry m onCluster name = \<lparr>e_id = cm_id m, e_threadId = cm_threadId m,
     e_sandbox = (case onCluster of Some (ref, _) \<Rightarrow> ref | None \<Rightarrow> placeholder_ref name), e_bridge = None,
     e_status = (case onCluster of Some (_, True) \<Rightarrow> StRunning | _ \<Rightarrow> StSuspended),
     e_title = cm_title m, e_createdAt = cm_createdAt m, e_lastActivityAt = cm_lastActivityAt m,
     e_model = cm_model m, e_modelSetBy = cm_modelSetBy m, e_pickedProvider = None, e_owner = cm_owner m,
     e_parentId = cm_parentId m, e_userTitled = cm_userTitled m, e_starred = cm_starred m,
     e_visibility = cm_visibility m, e_pendingQueue = cm_pendingQueue m, e_stopAfterRun = False\<rparr>"

text \<open>The metadata of a conversation adopted from its registry record.\<close>

definition meta_of_record :: "int \<Rightarrow> conversation_record \<Rightarrow> conversation_meta" where
  "meta_of_record now c = \<lparr>cm_id = rc_id c, cm_threadId = rc_id c, cm_title = [], cm_createdAt = now,
     cm_lastActivityAt = now, cm_model = sp_model (rc_spec c), cm_modelSetBy = None, cm_owner = sp_owner (rc_spec c),
     cm_parentId = sp_parentId (rc_spec c), cm_userTitled = False, cm_starred = False,
     cm_visibility = (if sp_private (rc_spec c) then Some Private else None), cm_pendingQueue = None\<rparr>"

subsection \<open>Ancestors\<close>

text \<open>
  \<^verbatim>\<open>sandboxNameOf\<close>: at most 32 steps up, stopping at a broken chain; \<open>up\<close> gives an ancestor's
  thread and parent.
\<close>

fun climb_lineage ::
  "nat \<Rightarrow> (session_id \<rightharpoonup> thread_id \<times> session_id option) \<Rightarrow> thread_id \<times> session_id option \<Rightarrow> thread_id" where
  "climb_lineage 0 up cur = fst cur"
| "climb_lineage (Suc n) up cur =
     (case Conversation_Registry.truthy (snd cur) of
        None \<Rightarrow> fst cur
      | Some p \<Rightarrow> (case up p of None \<Rightarrow> fst cur | Some u \<Rightarrow> climb_lineage n up u))"

definition sandboxNameOf ::
  "manager \<Rightarrow> (session_id \<rightharpoonup> thread_id \<times> session_id option) \<Rightarrow> thread_id \<times> session_id option \<Rightarrow> string" where
  "sandboxNameOf m other cur =
     conv_name (climb_lineage 32
       (\<lambda>p. case lookup m p of Some r \<Rightarrow> Some (e_threadId (m_objs m r), e_parentId (m_objs m r)) | None \<Rightarrow> other p) cur)"

text \<open>
  The loops from an entry to its root, at most \<open>n\<close> steps; \<^const>\<open>None\<close> is a missing ancestor. After
  32 steps the loop ends wherever it is.
\<close>

fun climb :: "nat \<Rightarrow> manager \<Rightarrow> nat \<Rightarrow> nat option" where
  "climb 0 m r = Some r"
| "climb (Suc n) m r =
     (case parent_of (m_objs m r) of
        None \<Rightarrow> Some r
      | Some p \<Rightarrow> (case lookup m p of None \<Rightarrow> None | Some u \<Rightarrow> climb n m u))"

definition rootEntry :: "manager \<Rightarrow> nat \<Rightarrow> nat option" where
  "rootEntry m r = climb 32 m r"

definition is_busy :: "manager \<Rightarrow> nat \<Rightarrow> bool" where
  "is_busy m r =
     (case e_bridge (m_objs m r) of
        None \<Rightarrow> False
      | Some n \<Rightarrow> let qs = queueState (bo_bridge (m_bridges m n)) in qs_running qs \<or> qs_queued qs > 0)"

text \<open>The \<^verbatim>\<open>shares\<close> of \<^verbatim>\<open>otherBusyOnSandbox\<close>: the walk visits at most 32 entries.\<close>

fun shares :: "nat \<Rightarrow> manager \<Rightarrow> session_id \<Rightarrow> nat \<Rightarrow> bool" where
  "shares 0 m root r = False"
| "shares (Suc n) m root r =
     (if e_id (m_objs m r) = root then True
      else case parent_of (m_objs m r) of
             None \<Rightarrow> False
           | Some p \<Rightarrow> (case lookup m p of None \<Rightarrow> False | Some u \<Rightarrow> shares n m root u))"

definition otherBusyOnSandbox :: "manager \<Rightarrow> nat \<Rightarrow> session_id \<Rightarrow> nat option" where
  "otherBusyOnSandbox m root self =
     find (\<lambda>r. e_id (m_objs m r) \<noteq> self \<and> e_status (m_objs m r) \<noteq> StEnded
             \<and> shares 32 m (e_id (m_objs m root)) r \<and> is_busy m r) (map snd (m_entries m))"

definition clearDeferredStops :: "nat \<Rightarrow> manager \<Rightarrow> manager" where
  "clearDeferredStops root m =
     m\<lparr>m_objs := (\<lambda>r. if r \<in> snd ` set (m_entries m) \<and> e_stopAfterRun (m_objs m r)
                          \<and> (rootEntry m r = Some root \<or> rootEntry m r = None)
                       then (m_objs m r)\<lparr>e_stopAfterRun := False\<rparr> else m_objs m r)\<rparr>"

text \<open>\<^verbatim>\<open>hasLiveDescendant\<close> of the sweeps; the recursion is bounded by \<open>n\<close>.\<close>

fun hasLiveDescendant :: "nat \<Rightarrow> manager \<Rightarrow> session_id \<Rightarrow> bool" where
  "hasLiveDescendant 0 m cid = False"
| "hasLiveDescendant (Suc n) m cid =
     list_ex (\<lambda>r. e_parentId (m_objs m r) = Some cid
               \<and> (e_status (m_objs m r) \<noteq> StEnded \<or> hasLiveDescendant n m (e_id (m_objs m r))))
       (map snd (m_entries m))"

subsection \<open>Tombstones\<close>

definition ENDED_TOMBSTONES :: nat where "ENDED_TOMBSTONES = 4096"

definition tombstone :: "session_id \<Rightarrow> manager \<Rightarrow> manager" where
  "tombstone cid m =
     (let kept = (if length (m_ended m) \<ge> ENDED_TOMBSTONES then tl (m_ended m) else m_ended m)
      in m\<lparr>m_ended := (if cid \<in> set kept then kept else kept @ [cid])\<rparr>)"

definition isEnded :: "manager \<Rightarrow> session_id \<Rightarrow> bool" where
  "isEnded m cid \<longleftrightarrow> cid \<in> set (m_ended m)"

subsection \<open>The ownership guard\<close>

text \<open>\<^const>\<open>None\<close> is \<^verbatim>\<open>allowAllGuard\<close>, which has no \<^verbatim>\<open>owns\<close> and no \<^verbatim>\<open>adoptAssignment\<close>.\<close>

definition guard_canWrite :: "manager \<Rightarrow> session_id \<Rightarrow> manager \<times> bool" where
  "guard_canWrite m cid =
     (case m_guard m of
        None \<Rightarrow> (m, True)
      | Some t \<Rightarrow> let (t', okay) = canWrite t cid in (m\<lparr>m_guard := Some t'\<rparr>, okay))"

definition guard_owns :: "manager \<Rightarrow> session_id \<Rightarrow> bool option" where
  "guard_owns m cid = map_option (\<lambda>t. owns t cid) (m_guard m)"

definition guard_observed :: "manager \<Rightarrow> session_id \<Rightarrow> int option" where
  "guard_observed m cid = Option.bind (m_guard m) (\<lambda>t. observedGeneration t cid)"

subsection \<open>The human trigger\<close>

definition HUMAN_TRIGGER_SOURCES :: "string list" where
  "HUMAN_TRIGGER_SOURCES = [''ui'', ''slack'', ''github'', ''gitlab'']"

definition isHumanTrigger :: "string option \<Rightarrow> bool" where
  "isHumanTrigger source = (case source of None \<Rightarrow> True | Some s \<Rightarrow> s \<in> set HUMAN_TRIGGER_SOURCES)"

definition DERIVED_SOURCES :: "string list" where
  "DERIVED_SOURCES = [''resume'', ''subagent'', ''background job'', ''parent-clarification'']"

fun trigger_scan :: "agui_event list \<Rightarrow> bool" where
  "trigger_scan [] = False"
| "trigger_scan (e # es) =
     (case ev_base e of
        TEXT_MESSAGE_START _ role \<Rightarrow> if role = RoleUser then True else trigger_scan es
      | SYSTEM_MESSAGE _ source _ \<Rightarrow>
          if source \<noteq> ''hook'' \<and> source \<notin> set DERIVED_SOURCES then isHumanTrigger (Some source) else trigger_scan es
      | _ \<Rightarrow> trigger_scan es)"

definition humanTriggerFromLog :: "agui_event list \<Rightarrow> bool" where
  "humanTriggerFromLog events = trigger_scan (rev events)"

end
