(* ===== verification/Session_Ops.thy ===== *)
theory Session_Ops
  imports Session_State
begin

text \<open>
  The operations of the session manager (\<^verbatim>\<open>session/manager.ts\<close>) as async functions: one definition
  per function of the source, each await a suspension point. \<open>deps\<close> are the manager's dependencies.
\<close>

subsection \<open>Shared steps\<close>

definition the_entry :: "session_id \<Rightarrow> (nat \<Rightarrow> mgr_proc) \<Rightarrow> mgr_proc" where
  "the_entry cid k = Read (\<lambda>m. case lookup m cid of None \<Rightarrow> Throw (UnknownConversation cid) | Some r \<Rightarrow> k r)"

definition obj :: "nat \<Rightarrow> (entry \<Rightarrow> mgr_proc) \<Rightarrow> mgr_proc" where
  "obj r k = Read (\<lambda>m. k (m_objs m r))"

definition change :: "nat \<Rightarrow> (entry \<Rightarrow> entry) \<Rightarrow> mgr_proc \<Rightarrow> mgr_proc" where
  "change r f k = Write (upd_entry r f) k"

definition clock :: "(int \<Rightarrow> mgr_proc) \<Rightarrow> mgr_proc" where
  "clock k = Read (\<lambda>m. k (m_now m))"

text \<open>A call nobody awaits: of an async function, or of one request.\<close>

definition forget :: "mgr_proc \<Rightarrow> mgr_proc \<Rightarrow> mgr_proc" where
  "forget p k = Spawn p (\<lambda>_. k)"

definition tell :: "mgr_request \<Rightarrow> mgr_proc \<Rightarrow> mgr_proc" where
  "tell q k = Spawn (Await q (\<lambda>_. Return VUnit)) (\<lambda>_. k)"

definition can_write :: "session_id \<Rightarrow> (bool \<Rightarrow> mgr_proc) \<Rightarrow> mgr_proc" where
  "can_write cid k = Read (\<lambda>m. Write (\<lambda>m. fst (guard_canWrite m cid)) (k (snd (guard_canWrite m cid))))"

text \<open>An await whose failure is swallowed.\<close>

definition attempt :: "mgr_request \<Rightarrow> mgr_proc \<Rightarrow> mgr_proc" where
  "attempt q k = Await q (\<lambda>_. k)"

definition saveMeta :: "nat \<Rightarrow> mgr_proc \<Rightarrow> mgr_proc" where
  "saveMeta r k = Read (\<lambda>m.
     if isEnded m (e_id (m_objs m r)) then request QTick (\<lambda>_. k)
     else request (QSaveMeta (meta_of (m_objs m r))) (\<lambda>_. k))"

definition touch :: "nat \<Rightarrow> mgr_proc \<Rightarrow> mgr_proc" where
  "touch r k = clock (\<lambda>now. change r (\<lambda>e. e\<lparr>e_lastActivityAt := now\<rparr>) (forget (saveMeta r (Return VUnit)) k))"

definition post :: "posted \<Rightarrow> manager \<Rightarrow> manager" where
  "post p m = m\<lparr>m_posted := m_posted m @ [p]\<rparr>"

subsection \<open>Bridges\<close>

text \<open>The end of a run, as opposed to an interrupt's pause.\<close>

definition ends_run_event :: "agui_event \<Rightarrow> bool" where
  "ends_run_event e =
     (case ev_base e of
        RUN_FINISHED _ _ _ outcome _ _ \<Rightarrow> (case outcome of Some (OutcomeInterrupt _) \<Rightarrow> False | _ \<Rightarrow> True)
      | RUN_ERROR _ _ _ \<Rightarrow> True
      | _ \<Rightarrow> False)"

text \<open>The handler \<^verbatim>\<open>wireEventLog\<close> subscribes for an entry.\<close>

definition on_persist :: "nat \<Rightarrow> agui_event \<Rightarrow> mgr_proc \<Rightarrow> mgr_proc" where
  "on_persist r event k = Read (\<lambda>m.
     let cid = e_id (m_objs m r);
         n = (case m_drops m cid of None \<Rightarrow> 0 | Some j \<Rightarrow> j) + 1
     in change r (\<lambda>e. e\<lparr>e_lastActivityAt := m_now m\<rparr>)
          (Write (if e_stopAfterRun (m_objs m r) \<and> ends_run_event event then post (PostDeferredStop r) else (\<lambda>m. m))
            (can_write cid (\<lambda>okay.
               if okay then tell (QAppend cid event) k
               else Write (\<lambda>m. m\<lparr>m_drops := (m_drops m)(cid \<mapsto> n)\<rparr>)
                      (Write (if n = 1 then post (PostStop cid) else (\<lambda>m. m)) k)))))"

primrec on_persist_all :: "nat \<Rightarrow> agui_event list \<Rightarrow> mgr_proc \<Rightarrow> mgr_proc" where
  "on_persist_all r [] k = k"
| "on_persist_all r (e # es) k = on_persist r e (on_persist_all r es k)"

text \<open>
  A synchronous call of a bridge's method: the events it persists reach the entry's handler, those it
  broadcasts the completion listener of a subagent.
\<close>

definition with_bridge :: "manager_deps \<Rightarrow> nat \<Rightarrow> (bridge_deps \<Rightarrow> bridge \<Rightarrow> bridge) \<Rightarrow> mgr_proc \<Rightarrow> mgr_proc" where
  "with_bridge deps n f k = Read (\<lambda>m.
     let o' = m_bridges m n;
         b = (bo_bridge o')\<lparr>b_now := m_now m\<rparr>;
         b' = f (md_bridgeDeps deps (bo_args o')) b;
         done = length (filter ends_run_event (drop (length (b_out b)) (b_out b')));
         install = Write (upd_bridge n (\<lambda>o'. o'\<lparr>bo_bridge := b'\<rparr>))
           (Write (\<lambda>m. m\<lparr>m_completions := m_completions m @
               (case bo_reports o' of None \<Rightarrow> [] | Some x \<Rightarrow> replicate done x)\<rparr>) k)
     in case bo_entry o' of
          None \<Rightarrow> install
        | Some r \<Rightarrow> on_persist_all r (drop (length (b_log b)) (b_log b')) install)"

definition wireEventLog :: "nat \<Rightarrow> mgr_proc \<Rightarrow> mgr_proc" where
  "wireEventLog r k = obj r (\<lambda>e.
     case e_bridge e of None \<Rightarrow> k | Some n \<Rightarrow> Write (upd_bridge n (\<lambda>o'. o'\<lparr>bo_entry := Some r\<rparr>)) k)"

text \<open>\<^verbatim>\<open>entry.bridge = bridgeFactory({...})\<close>: whatever bridge was there is replaced. A creation
  passes the model it was given and no provider, a revive the entry's model and provider.\<close>

definition build_bridge :: "nat \<Rightarrow> string option option \<Rightarrow> mgr_proc \<Rightarrow> mgr_proc" where
  "build_bridge r chosen k = Read (\<lambda>m.
     let e = m_objs m r
     in Write (new_bridge \<lparr>ba_conversationId = e_id e, ba_sandbox = e_sandbox e, ba_model = (case chosen of None \<Rightarrow> e_model e | Some model \<Rightarrow> model),
            ba_pickedProvider = (if chosen = None then e_pickedProvider e else None), ba_owner = e_owner e\<rparr>)
          (change r (\<lambda>e. e\<lparr>e_bridge := Some (m_nextBridge m)\<rparr>) k))"

text \<open>
  \<^verbatim>\<open>entry.bridge?.prompt(input, opts)\<close>: the continuation gets the run's promise, or \<^const>\<open>None\<close>
  without a bridge.
\<close>

definition say_to ::
  "manager_deps \<Rightarrow> nat \<Rightarrow> prompt_input \<Rightarrow> int option \<Rightarrow> interrupt_policy option \<Rightarrow> ((nat \<times> nat) option \<Rightarrow> mgr_proc) \<Rightarrow> mgr_proc" where
  "say_to deps r input priority interrupt k = Read (\<lambda>m.
     case e_bridge (m_objs m r) of
       None \<Rightarrow> k None
     | Some n \<Rightarrow>
         let ref = b_uuids (bo_bridge (m_bridges m n))
         in with_bridge deps n
              (\<lambda>d. bridge_prompt d input (case priority of None \<Rightarrow> PRIORITY_NORMAL | Some p \<Rightarrow> p)
                     (case interrupt of None \<Rightarrow> PolicyThinking | Some p \<Rightarrow> p))
              (k (Some (n, ref))))"

definition await_run :: "(nat \<times> nat) option \<Rightarrow> mgr_proc \<Rightarrow> mgr_proc" where
  "await_run run k = (case run of None \<Rightarrow> attempt QTick k | Some (n, ref) \<Rightarrow> request (QRunEnd n ref) (\<lambda>_. k))"

text \<open>\<^verbatim>\<open>await bridge.stop()\<close> of a bridge that may be absent.\<close>

definition stop_bridge :: "manager_deps \<Rightarrow> nat option \<Rightarrow> mgr_proc \<Rightarrow> mgr_proc" where
  "stop_bridge deps b k =
     (case b of
        None \<Rightarrow> attempt QTick k
      | Some n \<Rightarrow> with_bridge deps n bridge_stop (request (QBridgeStop n) (\<lambda>_. k)))"

subsection \<open>Stopping a run this pod must not run\<close>

definition await_revive :: "session_id \<Rightarrow> mgr_proc \<Rightarrow> mgr_proc" where
  "await_revive cid k = Read (\<lambda>m.
     case map_of (m_reviving m) cid of None \<Rightarrow> attempt QTick k | Some p \<Rightarrow> Join p (\<lambda>_. k))"

definition stopLocalRun :: "manager_deps \<Rightarrow> session_id \<Rightarrow> mgr_proc" where
  "stopLocalRun deps cid =
     await_revive cid (Read (\<lambda>m.
       case lookup m cid of
         None \<Rightarrow> Return VUnit
       | Some r \<Rightarrow>
           (case e_bridge (m_objs m r) of
              None \<Rightarrow> Return VUnit
            | Some n \<Rightarrow>
                change r (\<lambda>e. e\<lparr>e_bridge := None, e_status := StSuspended\<rparr>)
                  (with_bridge deps n (\<lambda>d. bridge_cancel d False)
                    (attempt (QBridgeCancel n)
                      (with_bridge deps n bridge_stop
                        (attempt (QBridgeStop n) (Return VUnit))))))))"

definition relinquish :: "manager_deps \<Rightarrow> session_id \<Rightarrow> mgr_proc" where
  "relinquish deps cid =
     await_revive cid (Read (\<lambda>m. if guard_owns m cid = Some True then Return VUnit else stopLocalRun deps cid))"

subsection \<open>Closing and triggers\<close>

definition finished_event :: "thread_id \<Rightarrow> run_id \<Rightarrow> bool option \<Rightarrow> bool option \<Rightarrow> int \<Rightarrow> agui_event" where
  "finished_event th r cancelled interrupted now =
     \<lparr>ev_base = RUN_FINISHED th r None None cancelled interrupted, ev_ts = Some now\<rparr>"

text \<open>The continuation gets whether the run was closed.\<close>

definition closeIfSuspended :: "session_id \<Rightarrow> dangling_run_info \<Rightarrow> (bool \<Rightarrow> mgr_proc) \<Rightarrow> mgr_proc" where
  "closeIfSuspended cid run k =
     Await (QGetRow cid) (\<lambda>res.
       case res of
         Inr (RRow (Some rec)) \<Rightarrow>
           if rc_phase rec = Some PhaseSuspended
           then clock (\<lambda>now. request (QAppend cid (finished_event (di_threadId run) (di_runId run) (Some True) None now))
                  (\<lambda>_. k True))
           else k False
       | _ \<Rightarrow> k False)"

definition inheritedHumanTrigger :: "nat \<Rightarrow> (bool \<Rightarrow> mgr_proc) \<Rightarrow> mgr_proc" where
  "inheritedHumanTrigger r k = Read (\<lambda>m.
     case climb 32 m r of
       None \<Rightarrow> attempt QTick (k False)
     | Some root \<Rightarrow>
         if parent_of (m_objs m root) \<noteq> None then attempt QTick (k False)
         else request (QReadEvents (e_id (m_objs m root)))
                (\<lambda>x. case x of REvents es \<Rightarrow> k (humanTriggerFromLog es) | _ \<Rightarrow> k False))"

definition refresh_router_meta :: "nat \<Rightarrow> mgr_proc" where
  "refresh_router_meta r = obj r (\<lambda>e.
     request (QReadRouterMeta (e_id e)) (\<lambda>x.
       case x of
         RRouterMeta (Some rm) \<Rightarrow>
           change r (\<lambda>e. e\<lparr>e_starred := rm_starred rm, e_userTitled := rm_userTitled rm,
               e_title := (if rm_userTitled rm then rm_title rm else e_title e)\<rparr>) (Return VUnit)
       | _ \<Rightarrow> Return VUnit))"

definition applyModelSwitch ::
  "manager_deps \<Rightarrow> nat \<Rightarrow> string option \<Rightarrow> string option \<Rightarrow> model_set_by \<Rightarrow> mgr_proc \<Rightarrow> mgr_proc" where
  "applyModelSwitch deps r model provider setBy k = obj r (\<lambda>e.
     let providerMoved = (provider \<noteq> None \<and> provider \<noteq> e_pickedProvider e)
     in if (model = None \<or> model = e_model e) \<and> \<not> providerMoved then attempt QTick k
        else
          change r (\<lambda>e. if model \<noteq> None \<and> model \<noteq> e_model e then e\<lparr>e_model := model, e_modelSetBy := Some setBy\<rparr> else e)
            (change r (\<lambda>e. if provider \<noteq> None then e\<lparr>e_pickedProvider := provider\<rparr> else e)
              (case e_bridge e of
                 None \<Rightarrow> saveMeta r k
               | Some n \<Rightarrow>
                   change r (\<lambda>e. e\<lparr>e_bridge := None\<rparr>)
                     (with_bridge deps n bridge_stop (tell (QBridgeStop n) (saveMeta r k))))))"

subsection \<open>Reviving\<close>

text \<open>The texts of the user's and the platform's messages already in the log.\<close>

definition logged_step :: "message_id list \<times> string list \<Rightarrow> agui_event \<Rightarrow> message_id list \<times> string list" where
  "logged_step st e =
     (case ev_base e of
        SYSTEM_MESSAGE _ source t \<Rightarrow> if source \<noteq> ''hook'' then (fst st, t # snd st) else st
      | TEXT_MESSAGE_START i role \<Rightarrow> if role = RoleUser \<and> i \<noteq> [] then (i # fst st, snd st) else st
      | TEXT_MESSAGE_CONTENT i delta \<Rightarrow> if i \<in> set (fst st) then (fst st, delta # snd st) else st
      | _ \<Rightarrow> st)"

definition loggedUserTexts :: "agui_event list \<Rightarrow> string list" where
  "loggedUserTexts tail = snd (foldl logged_step ([], []) tail)"

definition replay_input :: "entry \<Rightarrow> drained_item \<Rightarrow> prompt_input" where
  "replay_input e item = \<lparr>in_threadId = e_threadId e, in_text = dr_text item, in_images = [], in_files = [],
     in_source = dr_source item, in_humanInitiated = dr_humanInitiated item\<rparr>"

primrec replay :: "manager_deps \<Rightarrow> nat \<Rightarrow> drained_item list \<Rightarrow> mgr_proc \<Rightarrow> mgr_proc" where
  "replay deps r [] k = k"
| "replay deps r (item # items) k = obj r (\<lambda>e.
     say_to deps r (replay_input e item) (if dr_priority item \<noteq> 0 then Some (dr_priority item) else None) None
       (\<lambda>_. replay deps r items k))"

definition entry_spec :: "manager_deps \<Rightarrow> entry \<Rightarrow> conversation_spec" where
  "entry_spec deps e = \<lparr>sp_model = e_model e, sp_owner = e_owner e, sp_parentId = e_parentId e,
     sp_sandboxRef = Some (sr_name (e_sandbox e)), sp_creatorPod = md_selfPod deps, sp_private = False\<rparr>"

text \<open>The last part of \<^verbatim>\<open>revive\<close>: the drained messages come back and the phase is published.\<close>

definition revive_finish :: "manager_deps \<Rightarrow> session_id \<Rightarrow> nat \<Rightarrow> drained_item list \<Rightarrow> mgr_proc" where
  "revive_finish deps cid r pending = obj r (\<lambda>e.
     let publish = can_write cid (\<lambda>okay.
           if okay then tell (QSetPhase cid PhaseAssigned) (obj r (\<lambda>e. Return (VConv e)))
           else obj r (\<lambda>e. Return (VConv e)))
     in if pending \<noteq> [] \<or> (case e_pendingQueue e of Some (x # xs) \<Rightarrow> True | _ \<Rightarrow> False)
        then change r (\<lambda>e. e\<lparr>e_pendingQueue := Some []\<rparr>) (saveMeta r (replay deps r pending publish))
        else publish)"

definition revive_requeue :: "manager_deps \<Rightarrow> session_id \<Rightarrow> nat \<Rightarrow> mgr_proc" where
  "revive_requeue deps cid r = obj r (\<lambda>e.
     case e_pendingQueue e of
       Some (x # xs) \<Rightarrow>
         Await (QReadTail cid 3) (\<lambda>res.
           revive_finish deps cid r
             (case res of
                Inr (REvents tail) \<Rightarrow> filter (\<lambda>p. dr_text p \<notin> set (loggedUserTexts tail)) (x # xs)
              | _ \<Rightarrow> x # xs))
     | _ \<Rightarrow> revive_finish deps cid r [])"

text \<open>After \<^verbatim>\<open>bridge.start()\<close>: the host re-raises what is pending.\<close>

definition revive_started :: "manager_deps \<Rightarrow> session_id \<Rightarrow> nat \<Rightarrow> mgr_proc" where
  "revive_started deps cid r = obj r (\<lambda>e.
     Write (\<lambda>m. if e_bridge e \<noteq> None then m\<lparr>m_revived := m_revived m @ [cid]\<rparr> else m) (revive_requeue deps cid r))"

text \<open>\<^verbatim>\<open>bridge.start()\<close> of a new bridge: its first session is resolved.\<close>

definition start_bridge :: "manager_deps \<Rightarrow> nat \<Rightarrow> mgr_proc \<Rightarrow> mgr_proc" where
  "start_bridge deps n k = request (QBridgeStart n) (\<lambda>x. Read (\<lambda>m.
     case x of
       RSession env \<Rightarrow>
         (case resolveForRun env (md_bridgeDeps deps (bo_args (m_bridges m n))) None (bo_bridge (m_bridges m n)) of
            Inl (err, b') \<Rightarrow> Write (upd_bridge n (\<lambda>o'. o'\<lparr>bo_bridge := b'\<rparr>)) (Throw (Rejection err))
          | Inr b' \<Rightarrow> Write (upd_bridge n (\<lambda>o'. o'\<lparr>bo_bridge := b'\<lparr>b_started := True\<rparr>\<rparr>)) k)
     | _ \<Rightarrow> Throw (Rejection [])))"

text \<open>After the sandbox is up: a new bridge, the registration, the metadata, the agent.\<close>

definition revive_attach :: "manager_deps \<Rightarrow> session_id \<Rightarrow> nat \<Rightarrow> mgr_proc" where
  "revive_attach deps cid r =
     build_bridge r None
       (change r (\<lambda>e. e\<lparr>e_status := StRunning\<rparr>)
         (obj r (\<lambda>e. tell (QRegister cid (entry_spec deps e))
           (clock (\<lambda>now. change r (\<lambda>e. e\<lparr>e_lastActivityAt := now\<rparr>)
             (wireEventLog r
               (saveMeta r
                 (obj r (\<lambda>e.
                   case e_bridge e of
                     None \<Rightarrow> attempt QTick (revive_started deps cid r)
                   | Some n \<Rightarrow> start_bridge deps n (revive_started deps cid r))))))))))"

text \<open>\<^verbatim>\<open>end()\<close> may have landed while the sandbox was being provisioned.\<close>

definition revive_check :: "manager_deps \<Rightarrow> session_id \<Rightarrow> nat \<Rightarrow> mgr_proc" where
  "revive_check deps cid r = Read (\<lambda>m.
     if isEnded m cid
     then (if parent_of (m_objs m r) \<noteq> None then Throw (ConversationEnded cid)
           else attempt (QDestroy (e_sandbox (m_objs m r))) (Throw (ConversationEnded cid)))
     else revive_attach deps cid r)"

definition revive_body :: "manager_deps \<Rightarrow> (session_id \<Rightarrow> mgr_proc) \<Rightarrow> session_id \<Rightarrow> mgr_proc" where
  "revive_body deps revive_root cid = the_entry cid (\<lambda>r. Read (\<lambda>m.
     if isEnded m cid then Throw (ConversationEnded cid)
     else if parent_of (m_objs m r) \<noteq> None then
       (case climb 32 m r of
          None \<Rightarrow> Throw (NoRootConversation cid)
        | Some root \<Rightarrow>
            if parent_of (m_objs m root) \<noteq> None then Throw (NoRootConversation cid)
            else
              let adopt = Read (\<lambda>m. change r (\<lambda>e. e\<lparr>e_sandbox := e_sandbox (m_objs m root)\<rparr>) (revive_check deps cid r))
              in if e_status (m_objs m root) \<noteq> StRunning
                 then bind (revive_root (e_id (m_objs m root))) (\<lambda>_. adopt)
                 else adopt)
     else
       request (if sr_namespace (e_sandbox (m_objs m r)) \<noteq> []
                then QResume (e_sandbox (m_objs m r)) (e_threadId (m_objs m r))
                else QCreate (shortId (e_threadId (m_objs m r))) (e_threadId (m_objs m r)))
         (\<lambda>x. case x of RRef ref \<Rightarrow> change r (\<lambda>e. e\<lparr>e_sandbox := ref\<rparr>) (revive_check deps cid r)
                     | _ \<Rightarrow> Throw (Rejection []))))"

text \<open>One revive at a time: a second caller shares the promise of the first.\<close>

definition single_flight :: "session_id \<Rightarrow> mgr_proc \<Rightarrow> mgr_proc" where
  "single_flight cid body = Read (\<lambda>m.
     case map_of (m_reviving m) cid of
       Some p \<Rightarrow> Join p (\<lambda>res. case res of Inl e \<Rightarrow> Throw e | Inr v \<Rightarrow> Return v)
     | None \<Rightarrow>
         Spawn body (\<lambda>p.
           Write (\<lambda>m. m\<lparr>m_reviving := AList.update cid p (m_reviving m)\<rparr>)
             (Join p (\<lambda>res.
               Write (\<lambda>m. if map_of (m_reviving m) cid = Some p
                          then m\<lparr>m_reviving := AList.delete cid (m_reviving m)\<rparr> else m)
                 (case res of Inl e \<Rightarrow> Throw e | Inr v \<Rightarrow> Return v)))))"

text \<open>The root has no parent, so its own revive never asks for another one.\<close>

definition revive_root :: "manager_deps \<Rightarrow> session_id \<Rightarrow> mgr_proc" where
  "revive_root deps cid = single_flight cid (revive_body deps (\<lambda>root. Throw (NoRootConversation root)) cid)"

definition revive :: "manager_deps \<Rightarrow> session_id \<Rightarrow> mgr_proc" where
  "revive deps cid = single_flight cid (revive_body deps (revive_root deps) cid)"

end
