(* ===== verification/Session_Api.thy ===== *)
theory Session_Api
  imports Session_Ops
begin

text \<open>
  The rest of the session manager (\<^verbatim>\<open>session/manager.ts\<close>): adoption of conversations, prompts,
  creation and the end of a conversation, suspension and the sandbox controls, the sweeps, and the
  calls from outside as one type of events.
\<close>

subsection \<open>Prompts and dangling runs\<close>

definition RESUME_NUDGE :: string where
  "RESUME_NUDGE = ''[System: this conversation was interrupted by a restart while you were working. ''
     @ ''Continue where you left off '' @ em_dash @ '' do NOT restart the task, re-introduce yourself, or ''
     @ ''repeat a message/comment you already posted. If you had already finished, a brief ''
     @ ''status is fine.]''"

definition MODEL_SWITCH_NUDGE :: string where
  "MODEL_SWITCH_NUDGE = ''[System: your model was switched at your request; the previous turn was ended to ''
     @ ''apply it. Continue where you left off on the new model '' @ em_dash @ '' do NOT restart the task, ''
     @ ''re-introduce yourself, or repeat anything you already did or posted.]''"

record prompt_args =
  pa_text :: string
  pa_model :: "string option"
  pa_priority :: "int option"
  pa_interrupt :: "interrupt_policy option"
  pa_images :: "prompt_image list"
  pa_files :: "prompt_file list"
  pa_source :: "string option"
  pa_provider :: "string option"

definition plain_prompt :: "string \<Rightarrow> string option \<Rightarrow> prompt_args" where
  "plain_prompt text source = \<lparr>pa_text = text, pa_model = None, pa_priority = None, pa_interrupt = None,
     pa_images = [], pa_files = [], pa_source = source, pa_provider = None\<rparr>"

definition input_of :: "thread_id \<Rightarrow> prompt_args \<Rightarrow> bool option \<Rightarrow> prompt_input" where
  "input_of th a human = \<lparr>in_threadId = th, in_text = pa_text a, in_images = pa_images a, in_files = pa_files a,
     in_source = pa_source a, in_humanInitiated = human\<rparr>"

definition mgr_prompt :: "manager_deps \<Rightarrow> session_id \<Rightarrow> prompt_args \<Rightarrow> mgr_proc" where
  "mgr_prompt deps cid a = the_entry cid (\<lambda>r.
     touch r (applyModelSwitch deps r (pa_model a) None ByUser (obj r (\<lambda>e.
       let deliver = (\<lambda>human. obj r (\<lambda>e.
             say_to deps r (input_of (e_threadId e) a human) (pa_priority a) (pa_interrupt a)
               (\<lambda>run. await_run run (Return VUnit))));
           trigger =
             (if (case pa_source a of Some s \<Rightarrow> s \<in> set DERIVED_SOURCES | None \<Rightarrow> False)
              then inheritedHumanTrigger r (\<lambda>human. deliver (Some human)) else deliver None)
       in if e_bridge e = None then bind (revive deps cid) (\<lambda>_. trigger) else trigger))))"

text \<open>\<open>after\<close>: what the log says once the hand-off grace is over.\<close>

definition resume_dangling :: "manager_deps \<Rightarrow> session_id \<Rightarrow> run_origin option \<Rightarrow> dangling_run_info \<Rightarrow> mgr_proc" where
  "resume_dangling deps cid self run =
     (let nudge = forget (mgr_prompt deps cid (plain_prompt RESUME_NUDGE (Some ''resume''))) (Return VUnit)
      in if md_handoffGraceMs deps > 0 \<and> di_host run \<noteq> None \<and> di_host run \<noteq> md_selfPod deps
         then request (QSleep (md_handoffGraceMs deps)) (\<lambda>_. Read (\<lambda>m.
                if guard_owns m cid = Some False then Return VUnit
                else request (QReadEvents cid) (\<lambda>x.
                       case x of
                         REvents es \<Rightarrow>
                           if map_option di_runId (danglingRunInfo es self) \<noteq> Some (di_runId run) then Return VUnit else nudge
                       | _ \<Rightarrow> Return VUnit)))
         else nudge)"

definition settle_dangling :: "manager_deps \<Rightarrow> session_id \<Rightarrow> run_origin option \<Rightarrow> dangling_run_info option \<Rightarrow> mgr_proc" where
  "settle_dangling deps cid self dangling =
     (case dangling of
        None \<Rightarrow> Return VUnit
      | Some run \<Rightarrow>
          if di_cancelRequested run
          then clock (\<lambda>now. request (QAppend cid (finished_event (di_threadId run) (di_runId run) (Some True) None now))
                 (\<lambda>_. Return VUnit))
          else Read (\<lambda>m.
                 if (case lookup m cid of None \<Rightarrow> True | Some r \<Rightarrow> e_bridge (m_objs m r) = None)
                 then closeIfSuspended cid run (\<lambda>closed.
                        if closed then Return VUnit else resume_dangling deps cid self run)
                 else resume_dangling deps cid self run))"

text \<open>Orphans are closed in order, then the dangling run is settled; a failure is logged and ends the check.\<close>

primrec close_orphans :: "session_id \<Rightarrow> orphan_run list \<Rightarrow> mgr_proc \<Rightarrow> mgr_proc" where
  "close_orphans cid [] k = k"
| "close_orphans cid (o' # os) k =
     clock (\<lambda>now. request (QAppend cid (finished_event (or_threadId o') (or_runId o') None (Some True) now))
       (\<lambda>_. close_orphans cid os k))"

definition reconcile_body :: "manager_deps \<Rightarrow> session_id \<Rightarrow> int option \<Rightarrow> mgr_proc" where
  "reconcile_body deps cid expectedGen =
     (let self = map_option (\<lambda>pod. \<lparr>ro_host = pod, ro_gen = expectedGen\<rparr>) (Conversation_Registry.truthy (md_selfPod deps))
      in request (QReadEvents cid) (\<lambda>x.
           case x of
             REvents es \<Rightarrow>
               let inFlight = map_option di_runId (danglingRunInfo es self);
                   orphans = filter (\<lambda>o'. Some (or_runId o') \<noteq> inFlight) (orphanRuns es self)
               in close_orphans cid orphans (settle_dangling deps cid self (danglingRunInfo es self))
           | _ \<Rightarrow> Return VUnit))"

definition reconcileDanglingRun :: "manager_deps \<Rightarrow> session_id \<Rightarrow> int option \<Rightarrow> mgr_proc" where
  "reconcileDanglingRun deps cid expectedGen = Read (\<lambda>m.
     if cid \<in> set (m_reconciling m) then Return VUnit
     else
       let release = Write (\<lambda>m. m\<lparr>m_reconciling := removeAll cid (m_reconciling m)\<rparr>) (Return VUnit)
       in Write (\<lambda>m. m\<lparr>m_reconciling := m_reconciling m @ [cid]\<rparr>)
            (settle (reconcile_body deps cid expectedGen) (\<lambda>_. release) (\<lambda>_. release)))"

subsection \<open>Adopting a conversation\<close>

text \<open>\<^verbatim>\<open>hydrateEntry\<close>: the continuation gets the entry's object.\<close>

definition hydrateEntry :: "conversation_meta \<Rightarrow> (sandbox_ref \<times> bool) option \<Rightarrow> string \<Rightarrow> (nat \<Rightarrow> mgr_proc) \<Rightarrow> mgr_proc" where
  "hydrateEntry cm onCluster name k = Read (\<lambda>m.
     Write (new_entry (hydrated_entry cm onCluster name)) (Write (set_entry (cm_id cm) (m_nextObj m)) (k (m_nextObj m))))"

definition meta_lineage :: "conversation_meta list \<Rightarrow> session_id \<rightharpoonup> thread_id \<times> session_id option" where
  "meta_lineage metas pid = map_option (\<lambda>x. (cm_threadId x, cm_parentId x)) (find (\<lambda>x. cm_id x = pid) (rev metas))"

text \<open>After the awaits of \<^verbatim>\<open>hydrateByThread\<close>: another caller may have adopted the conversation meanwhile.\<close>

definition hydrate_adopt ::
  "manager_deps \<Rightarrow> bool \<Rightarrow> conversation_meta \<Rightarrow> string \<Rightarrow> (sandbox_ref \<times> bool) option \<Rightarrow> mgr_proc" where
  "hydrate_adopt deps fromStore cm name onCluster = Read (\<lambda>m.
     case lookup m (cm_id cm) of
       Some r \<Rightarrow> Return (VEntry (Some r))
     | None \<Rightarrow>
         if isEnded m (cm_id cm) then Return (VEntry None)
         else
           hydrateEntry cm onCluster name (\<lambda>r. can_write (cm_id cm) (\<lambda>okay.
             if okay
             then forget (reconcileDanglingRun deps (cm_id cm) None)
                    (if fromStore then Return (VEntry (Some r))
                     else forget (saveMeta r (Return VUnit)) (Return (VEntry (Some r))))
             else Return (VEntry (Some r)))))"

definition hydrate_found :: "manager_deps \<Rightarrow> conversation_meta list \<Rightarrow> bool \<Rightarrow> conversation_meta \<Rightarrow> mgr_proc" where
  "hydrate_found deps metas fromStore cm = Read (\<lambda>m.
     case lookup m (cm_id cm) of
       Some r \<Rightarrow> Return (VEntry (Some r))
     | None \<Rightarrow>
         if isEnded m (cm_id cm) then Return (VEntry None)
         else
           let name = sandboxNameOf m (meta_lineage metas) (cm_threadId cm, cm_parentId cm)
           in Await QReconcile (\<lambda>res. hydrate_adopt deps fromStore cm name
                (case res of Inr (RSandboxes ss) \<Rightarrow> find (\<lambda>s. sr_name (fst s) = name) ss | _ \<Rightarrow> None)))"

definition hydrateByThread :: "manager_deps \<Rightarrow> thread_id \<Rightarrow> mgr_proc" where
  "hydrateByThread deps threadId =
     Await QListMetas (\<lambda>res.
       case res of
         Inr (RMetas metas) \<Rightarrow>
           (case find (\<lambda>x. cm_threadId x = threadId) metas of
              Some cm \<Rightarrow> hydrate_found deps metas True cm
            | None \<Rightarrow>
                Await (QGetRow threadId) (\<lambda>row.
                  case row of
                    Inr (RRow (Some c)) \<Rightarrow>
                      clock (\<lambda>now.
                        let found = hydrate_found deps metas False (meta_of_record now c)
                        in if Conversation_Registry.truthy (sp_sandboxRef (rc_spec c)) = None
                           then tell (QRegister (rc_id c) ((rc_spec c)\<lparr>sp_sandboxRef := Some (conv_name (rc_id c)),
                                       sp_creatorPod := md_selfPod deps, sp_private := False\<rparr>)) found
                           else found)
                  | _ \<Rightarrow> Return (VEntry None)))
       | _ \<Rightarrow> Return (VEntry None))"

definition ensureReadable :: "manager_deps \<Rightarrow> session_id \<Rightarrow> mgr_proc" where
  "ensureReadable deps cid = Read (\<lambda>m.
     if lookup m cid \<noteq> None then Return (VBool True)
     else bind (hydrateByThread deps cid) (\<lambda>v. Return (VBool (v \<noteq> VEntry None))))"

definition reviveFromMirror :: "manager_deps \<Rightarrow> session_id \<Rightarrow> int \<Rightarrow> mgr_proc" where
  "reviveFromMirror deps cid expectedGen = can_write cid (\<lambda>okay. Read (\<lambda>m.
     let observed = guard_observed m cid;
         newer = (expectedGen > 0 \<and> (case observed of None \<Rightarrow> True | Some g \<Rightarrow> expectedGen > g));
         go = Read (\<lambda>m.
           if lookup m cid \<noteq> None then reconcileDanglingRun deps cid (Some expectedGen)
           else bind (hydrateByThread deps cid) (\<lambda>v.
                  if v = VEntry None then Return VUnit
                  else bind (revive deps cid) (\<lambda>_. reconcileDanglingRun deps cid (Some expectedGen))))
     in if okay then go
        else if \<not> newer \<or> m_guard m = None then Return VUnit
        else Write (\<lambda>m. m\<lparr>m_guard := map_option (\<lambda>t. adoptAssignment t cid expectedGen) (m_guard m)\<rparr>) go))"

subsection \<open>Prompts by thread\<close>

definition queue_on :: "manager_deps \<Rightarrow> thread_id \<Rightarrow> prompt_args \<Rightarrow> nat \<Rightarrow> mgr_proc" where
  "queue_on deps threadId a r =
     applyModelSwitch deps r (pa_model a) (pa_provider a) ByUser (obj r (\<lambda>e.
       let deliver = touch r (say_to deps r (input_of threadId a None)
             (case pa_priority a of Some p \<Rightarrow> if p \<noteq> 0 then Some p else None | None \<Rightarrow> None)
             (case pa_priority a of Some p \<Rightarrow> if p \<noteq> 0 then Some PolicyThinking else None | None \<Rightarrow> None)
             (\<lambda>run. Return (VRun run)))
       in if e_bridge e = None then bind (revive deps (e_id e)) (\<lambda>_. deliver) else deliver))"

definition queueByThread :: "manager_deps \<Rightarrow> thread_id \<Rightarrow> prompt_args \<Rightarrow> mgr_proc" where
  "queueByThread deps threadId a = Read (\<lambda>m.
     case find (\<lambda>r. e_threadId (m_objs m r) = threadId) (map snd (m_entries m)) of
       Some r \<Rightarrow> queue_on deps threadId a r
     | None \<Rightarrow>
         bind (hydrateByThread deps threadId) (\<lambda>v.
           case v of VEntry (Some r) \<Rightarrow> queue_on deps threadId a r | _ \<Rightarrow> Throw (UnknownConversation threadId)))"

definition promptByThread :: "manager_deps \<Rightarrow> thread_id \<Rightarrow> prompt_args \<Rightarrow> mgr_proc" where
  "promptByThread deps threadId a =
     bind (queueByThread deps threadId a) (\<lambda>v. case v of VRun run \<Rightarrow> await_run run (Return VUnit) | _ \<Rightarrow> Return VUnit)"

definition enqueueByThread :: "manager_deps \<Rightarrow> thread_id \<Rightarrow> string \<Rightarrow> string option \<Rightarrow> int option \<Rightarrow> mgr_proc" where
  "enqueueByThread deps threadId text source priority =
     bind (queueByThread deps threadId ((plain_prompt text source)\<lparr>pa_priority := priority\<rparr>)) (\<lambda>v.
       case v of VRun (Some (n, ref)) \<Rightarrow> tell (QRunEnd n ref) (Return VUnit) | _ \<Rightarrow> Return VUnit)"

definition switchModelNow :: "manager_deps \<Rightarrow> session_id \<Rightarrow> string \<Rightarrow> mgr_proc" where
  "switchModelNow deps cid model = the_entry cid (\<lambda>r. obj r (\<lambda>e.
     if Some model = e_model e then Return (VBool False)
     else touch r (obj r (\<lambda>e.
       let switch = applyModelSwitch deps r (Some model) None ByAgent
             (bind (mgr_prompt deps cid (plain_prompt MODEL_SWITCH_NUDGE (Some ''resume''))) (\<lambda>_. Return (VBool True)))
       in case e_bridge e of
            None \<Rightarrow> attempt QTick switch
          | Some n \<Rightarrow> with_bridge deps n (\<lambda>d. bridge_cancel d False) (attempt (QBridgeCancel n) switch)))))"

end
