(* ===== verification/Session_Lifecycle.thy ===== *)
theory Session_Lifecycle
  imports Session_Api
begin

text \<open>
  The session manager's operations on whole conversations (\<^verbatim>\<open>session/manager.ts\<close>): creation,
  subagents, suspension, the end, the sandbox controls, titles and visibility, what a pod does at
  boot, and the sweeps; and the manager as an event loop.

  A \<^verbatim>\<open>for\<close> loop over the live map that awaits in its body (\<open>for_live\<close>) and the recursion of
  \<^verbatim>\<open>end()\<close> over subagents are bounded by \<open>md_fuel\<close>. The two lists the workers of
  \<^verbatim>\<open>resumeInterrupted\<close> share are fields of the manager.
\<close>

subsection \<open>Creation\<close>

definition fresh_entry :: "thread_id \<Rightarrow> string option \<Rightarrow> string option \<Rightarrow> visibility \<Rightarrow> int \<Rightarrow> entry" where
  "fresh_entry threadId model owner vis now = blank_entry\<lparr>e_id := threadId, e_threadId := threadId,
     e_sandbox := placeholder_ref (conv_name threadId), e_status := StRunning, e_title := PLACEHOLDER_TITLE,
     e_createdAt := now, e_lastActivityAt := now, e_model := model, e_owner := owner,
     e_visibility := (if vis = Private then Some Private else None),
     e_modelSetBy := (if Conversation_Registry.truthy model \<noteq> None then Some ByUser else None)\<rparr>"

text \<open>A new entry in the map; the continuation gets its object.\<close>

definition add_entry :: "entry \<Rightarrow> (nat \<Rightarrow> mgr_proc) \<Rightarrow> mgr_proc" where
  "add_entry e k = Read (\<lambda>m. Write (new_entry e) (Write (set_entry (e_id e) (m_nextObj m)) (k (m_nextObj m))))"

definition mgr_start :: "manager_deps \<Rightarrow> thread_id \<Rightarrow> string option \<Rightarrow> string option \<Rightarrow> visibility \<Rightarrow> mgr_proc" where
  "mgr_start deps threadId model owner vis =
     (if vis = Private \<and> Conversation_Registry.truthy owner = None then Throw PrivateNeedsOwner
      else clock (\<lambda>now. add_entry (fresh_entry threadId model owner vis now) (\<lambda>r.
        let provision =
              obj r (\<lambda>e. request (QRegister threadId ((entry_spec deps e)\<lparr>sp_model := model, sp_parentId := None\<rparr>)) (\<lambda>_.
                request (QCreate (shortId threadId) threadId) (\<lambda>x.
                  case x of
                    RRef ref \<Rightarrow>
                      change r (\<lambda>e. e\<lparr>e_sandbox := ref\<rparr>)
                        (build_bridge r (Some model) (wireEventLog r (saveMeta r (obj r (\<lambda>e. Return (VConv e))))))
                  | _ \<Rightarrow> Throw (Rejection []))))
        in saveMeta r (if vis = Private then request (QSetVisibility threadId vis) (\<lambda>_. provision) else provision))))"

definition SUBAGENT_FRAME :: string where
  "SUBAGENT_FRAME = newline @ newline @ ''---'' @ newline
     @ ''(You are a subagent. Do the task above, then END your turn with a ''
     @ ''concise summary of what you found or did '' @ em_dash @ '' that final message is returned ''
     @ ''to the agent that spawned you.)''"

record child_args =
  ca_prompt :: string
  ca_title :: "string option"
  ca_model :: "string option"

definition child_entry :: "entry \<Rightarrow> session_id \<Rightarrow> thread_id \<Rightarrow> child_args \<Rightarrow> int \<Rightarrow> entry" where
  "child_entry parent parentId childThreadId args now = blank_entry\<lparr>e_id := childThreadId, e_threadId := childThreadId,
     e_sandbox := e_sandbox parent, e_status := StRunning,
     e_title := (case ca_title args of None \<Rightarrow> ''Subagent'' | Some t \<Rightarrow> t),
     e_createdAt := now, e_lastActivityAt := now,
     e_model := (case ca_model args of None \<Rightarrow> e_model parent | Some x \<Rightarrow> Some x),
     e_owner := e_owner parent, e_parentId := Some parentId,
     e_visibility := (if e_visibility parent = Some Private then Some Private else None)\<rparr>"

definition spawnChild :: "manager_deps \<Rightarrow> session_id \<Rightarrow> thread_id \<Rightarrow> child_args \<Rightarrow> mgr_proc" where
  "spawnChild deps parentId childThreadId args = Read (\<lambda>m.
     case lookup m parentId of
       None \<Rightarrow> Throw (UnknownParent parentId)
     | Some p \<Rightarrow>
         let model = (case ca_model args of None \<Rightarrow> e_model (m_objs m p) | Some x \<Rightarrow> Some x)
         in add_entry (child_entry (m_objs m p) parentId childThreadId args (m_now m)) (\<lambda>r.
           saveMeta r (obj r (\<lambda>e. request (QRegister childThreadId ((entry_spec deps e)\<lparr>sp_model := model\<rparr>)) (\<lambda>_.
             build_bridge r (Some model) (wireEventLog r (obj r (\<lambda>e.
               Write (case e_bridge e of
                        None \<Rightarrow> (\<lambda>m. m)
                      | Some n \<Rightarrow> upd_bridge n (\<lambda>o'. o'\<lparr>bo_reports := Some (childThreadId, parentId)\<rparr>))
                 (saveMeta r (inheritedHumanTrigger r (\<lambda>human.
                   say_to deps r \<lparr>in_threadId = childThreadId, in_text = ca_prompt args @ SUBAGENT_FRAME, in_images = [],
                                 in_files = [], in_source = None, in_humanInitiated = Some human\<rparr> None None
                     (\<lambda>_. obj r (\<lambda>e. Return (VConv e))))))))))))))"

subsection \<open>Suspension and the end\<close>

definition mgr_suspend :: "manager_deps \<Rightarrow> session_id \<Rightarrow> mgr_proc" where
  "mgr_suspend deps cid = the_entry cid (\<lambda>r. Read (\<lambda>m.
     let e = m_objs m r;
         drained =
           (case e_bridge e of
              None \<Rightarrow> []
            | Some n \<Rightarrow> fst (drainQueue (md_bridgeDeps deps (bo_args (m_bridges m n))) ((bo_bridge (m_bridges m n))\<lparr>b_now := m_now m\<rparr>)));
         quiesce = obj r (\<lambda>e. stop_bridge deps (e_bridge e) (obj r (\<lambda>e.
           let finish =
                 change r (\<lambda>e. e\<lparr>e_bridge := None, e_status := StSuspended\<rparr>)
                   (can_write cid (\<lambda>okay. if okay then tell (QSetPhase cid PhaseSuspended) (Return VUnit) else Return VUnit))
           in if parent_of e = None then request (QSuspend (e_sandbox e)) (\<lambda>_. finish) else finish)));
         keep =
           (if drained = [] then quiesce
            else change r (\<lambda>e. e\<lparr>e_pendingQueue := Some ((case e_pendingQueue e of None \<Rightarrow> [] | Some q \<Rightarrow> q) @ drained)\<rparr>)
                   (saveMeta r quiesce))
     in case e_bridge e of None \<Rightarrow> keep | Some n \<Rightarrow> with_bridge deps n (\<lambda>d b. snd (drainQueue d b)) keep))"

text \<open>\<^verbatim>\<open>endSubtree\<close>: this conversation and its subagents; \<open>fuel\<close> bounds the depth of the tree.\<close>

primrec endSubtree :: "manager_deps \<Rightarrow> nat \<Rightarrow> session_id \<Rightarrow> bool \<Rightarrow> mgr_proc \<Rightarrow> mgr_proc" where
  "endSubtree deps 0 target destroyPod k = Throw (Rejection ''out of fuel'')"
| "endSubtree deps (Suc fuel) target destroyPod k = Read (\<lambda>m.
     case lookup m target of
       None \<Rightarrow> k
     | Some r \<Rightarrow>
         Write (tombstone target) (Read (\<lambda>m.
           let children = map (\<lambda>c. e_id (m_objs m c))
                 (filter (\<lambda>c. e_parentId (m_objs m c) = Some target) (map snd (m_entries m)));
               drop =
                 change r (\<lambda>e. e\<lparr>e_bridge := None, e_status := StEnded\<rparr>)
                   (Write (delete_entry target) (request (QRemoveConversation target) (\<lambda>_. k)))
           in for_each (\<lambda>c. endSubtree deps fuel c False (Return VUnit)) children
                (attempt (QRemoveRow target)
                  (obj r (\<lambda>e. stop_bridge deps (e_bridge e)
                    (obj r (\<lambda>e. if destroyPod then request (QDestroy (e_sandbox e)) (\<lambda>_. drop) else drop))))))))"

definition mgr_end :: "manager_deps \<Rightarrow> session_id \<Rightarrow> mgr_proc" where
  "mgr_end deps cid = the_entry cid (\<lambda>r. obj r (\<lambda>e.
     endSubtree deps (md_fuel deps) cid (e_parentId e = None) (Return VUnit)))"

subsection \<open>Sandbox controls\<close>

definition REFRESH_SANDBOX_MS :: int where "REFRESH_SANDBOX_MS = 5000"

definition refreshSandbox :: "session_id \<Rightarrow> mgr_proc" where
  "refreshSandbox cid = Read (\<lambda>m.
     case lookup m cid of
       None \<Rightarrow> Return VUnit
     | Some r \<Rightarrow>
         let e = m_objs m r; last = (case m_lastRefresh m cid of None \<Rightarrow> 0 | Some t \<Rightarrow> t)
         in if e_bridge e \<noteq> None \<or> e_status e = StEnded \<or> m_now m - last < REFRESH_SANDBOX_MS then Return VUnit
            else
              Write (\<lambda>m. m\<lparr>m_lastRefresh := (m_lastRefresh m)(cid \<mapsto> m_now m)\<rparr>)
                (Await QReconcile (\<lambda>res. obj r (\<lambda>e.
                   case res of
                     Inr (RSandboxes ss) \<Rightarrow>
                       (case find (\<lambda>s. sr_name (fst s) = sr_name (e_sandbox e)) ss of
                          None \<Rightarrow> Return VUnit
                        | Some (ref, running) \<Rightarrow>
                            change r (\<lambda>e. e\<lparr>e_sandbox := ref, e_status := (if running then StRunning else StSuspended)\<rparr>)
                              (Return VUnit))
                   | _ \<Rightarrow> Return VUnit))))"

text \<open>Waiting for the bridge to clear its run: at most 50 times 100 ms.\<close>

primrec await_idle :: "nat \<Rightarrow> nat \<Rightarrow> mgr_proc \<Rightarrow> mgr_proc" where
  "await_idle 0 r k = k"
| "await_idle (Suc n) r k = Read (\<lambda>m.
     if (case e_bridge (m_objs m r) of
           None \<Rightarrow> False
         | Some b \<Rightarrow> qs_running (queueState (bo_bridge (m_bridges m b))))
     then request (QSleep 100) (\<lambda>_. await_idle n r k) else k)"

definition finishDeferredStop :: "manager_deps \<Rightarrow> nat \<Rightarrow> mgr_proc" where
  "finishDeferredStop deps r = await_idle 50 r (obj r (\<lambda>e.
     if \<not> e_stopAfterRun e then Return VUnit
     else change r (\<lambda>e. e\<lparr>e_stopAfterRun := False\<rparr>) (Read (\<lambda>m.
       if lookup m (e_id e) \<noteq> Some r \<or> e_status (m_objs m r) = StEnded then Return VUnit
       else
         (case rootEntry m r of
            None \<Rightarrow> Return VUnit
          | Some root \<Rightarrow>
              if e_status (m_objs m root) \<noteq> StRunning \<or> otherBusyOnSandbox m root [] \<noteq> None then Return VUnit
              else settle (mgr_suspend deps (e_id (m_objs m root))) (\<lambda>_. Return VUnit) (\<lambda>_. Return VUnit))))))"

definition pendingRestart :: "session_id \<Rightarrow> mgr_proc" where
  "pendingRestart cid = Read (\<lambda>m.
     case lookup m cid of
       None \<Rightarrow> Return (VPending None)
     | Some r \<Rightarrow>
         if e_status (m_objs m r) = StEnded then Return (VPending None)
         else
           (case rootEntry m r of
              None \<Rightarrow> Throw (NoRootConversation cid)
            | Some root \<Rightarrow>
                if sr_namespace (e_sandbox (m_objs m root)) = [] then Return (VPending None)
                else request (QPendingRestart (e_sandbox (m_objs m root)))
                       (\<lambda>x. case x of RPending p \<Rightarrow> Return (VPending p) | _ \<Rightarrow> Return (VPending None))))"

text \<open>The guards that \<^verbatim>\<open>restartSandbox\<close> and \<^verbatim>\<open>stopSandbox\<close> share.\<close>

definition live_entry :: "session_id \<Rightarrow> (nat \<Rightarrow> mgr_proc) \<Rightarrow> mgr_proc" where
  "live_entry cid k = the_entry cid (\<lambda>r. obj r (\<lambda>e. if e_status e = StEnded then Throw (ConversationEnded cid) else k r))"

definition the_root :: "session_id \<Rightarrow> nat \<Rightarrow> (nat \<Rightarrow> mgr_proc) \<Rightarrow> mgr_proc" where
  "the_root cid r k = Read (\<lambda>m. case rootEntry m r of None \<Rightarrow> Throw (NoRootConversation cid) | Some root \<Rightarrow> k root)"

definition unless_busy :: "nat \<Rightarrow> session_id \<Rightarrow> mgr_proc \<Rightarrow> mgr_proc" where
  "unless_busy root cid k = Read (\<lambda>m.
     case otherBusyOnSandbox m root cid of Some other \<Rightarrow> Throw (BusySandbox (e_id (m_objs m other))) | None \<Rightarrow> k)"

definition cycled :: "nat \<Rightarrow> mgr_proc \<Rightarrow> mgr_proc" where
  "cycled root k = Write (\<lambda>m. m\<lparr>m_cycled := m_cycled m @ [e_sandbox (m_objs m root)]\<rparr>) k"

definition restartSandbox :: "manager_deps \<Rightarrow> session_id \<Rightarrow> mgr_proc" where
  "restartSandbox deps cid = live_entry cid (\<lambda>r.
     if \<not> md_canRestart deps then Throw CannotRestart
     else the_root cid r (\<lambda>root. obj root (\<lambda>e.
       if sr_namespace (e_sandbox e) = [] then Throw NoSandboxYet
       else unless_busy root cid
         (touch root (Write (clearDeferredStops root) (obj root (\<lambda>e.
           Write (post (PostRestartRunning root (e_status e = StSuspended)))
             (request (QRestart (e_sandbox e)) (\<lambda>x.
               case x of
                 RRestart result \<Rightarrow>
                   cycled root (obj root (\<lambda>e.
                     if e_status e = StSuspended
                     then bind (revive deps (e_id e)) (\<lambda>_. Return (VRestarted result))
                     else Return (VRestarted result)))
               | _ \<Rightarrow> Throw (Rejection []))))))))))"

text \<open>The callback \<^verbatim>\<open>onRunning\<close>: the row is claimed before the controller suspends it again.\<close>

definition restart_running :: "manager_deps \<Rightarrow> nat \<Rightarrow> bool \<Rightarrow> mgr_proc" where
  "restart_running deps root wasSuspended = obj root (\<lambda>e.
     if \<not> wasSuspended then Return VUnit
     else can_write (e_id e) (\<lambda>okay.
       if \<not> okay then Return VUnit
       else forget (request (QRegister (e_id e) \<lparr>sp_model = None, sp_owner = None, sp_parentId = None,
                       sp_sandboxRef = Some (sr_name (e_sandbox e)), sp_creatorPod = md_selfPod deps, sp_private = False\<rparr>)
                     (\<lambda>_. request (QSetPhase (e_id e) PhaseAssigned) (\<lambda>_. Return VUnit)))
              (Return VUnit)))"

definition stopSandbox :: "manager_deps \<Rightarrow> session_id \<Rightarrow> mgr_proc" where
  "stopSandbox deps cid = live_entry cid (\<lambda>r. the_root cid r (\<lambda>root. unless_busy root cid (obj root (\<lambda>re.
     let decide = (\<lambda>pending. Read (\<lambda>m.
           if e_status (m_objs m root) \<noteq> StRunning then Return (VStopped False pending)
           else if \<not> is_busy m r then
             bind (mgr_suspend deps (e_id (m_objs m root))) (\<lambda>_. cycled root (Return (VStopped False pending)))
           else
             request (QSuspend (e_sandbox (m_objs m root))) (\<lambda>_. cycled root
               (change r (\<lambda>e. e\<lparr>e_stopAfterRun := True\<rparr>) (Return (VStopped True pending))))))
     in if sr_namespace (e_sandbox re) = [] then decide None
        else Await (QPendingRestart (e_sandbox re)) (\<lambda>res. decide (case res of Inr (RPending p) \<Rightarrow> p | _ \<Rightarrow> None))))))"

definition noteSandboxResumed :: "session_id \<Rightarrow> mgr_proc" where
  "noteSandboxResumed cid = Read (\<lambda>m.
     case lookup m cid of
       None \<Rightarrow> Return VUnit
     | Some r \<Rightarrow> (case rootEntry m r of None \<Rightarrow> Return VUnit | Some root \<Rightarrow> Write (clearDeferredStops root) (Return VUnit)))"

subsection \<open>Activity, titles, visibility\<close>

definition touchById :: "session_id \<Rightarrow> mgr_proc" where
  "touchById cid = Read (\<lambda>m.
     Write (case lookup m cid of
              None \<Rightarrow> (\<lambda>m. m)
            | Some r \<Rightarrow> upd_entry r (\<lambda>e. e\<lparr>e_lastActivityAt := max (e_lastActivityAt e) (m_now m)\<rparr>))
       (tell (QTouchActivity cid (m_now m)) (Return VUnit)))"

definition getByShortId :: "manager_deps \<Rightarrow> string \<Rightarrow> mgr_proc" where
  "getByShortId deps hash = Read (\<lambda>m.
     case find (\<lambda>r. shortId (e_threadId (m_objs m r)) = hash) (map snd (m_entries m)) of
       Some r \<Rightarrow> Return (VEntry (Some r))
     | None \<Rightarrow>
         Await QListMetas (\<lambda>res.
           case res of
             Inr (RMetas metas) \<Rightarrow>
               (case find (\<lambda>x. shortId (cm_threadId x) = hash) metas of
                  None \<Rightarrow> Return (VEntry None)
                | Some cm \<Rightarrow>
                    bind (hydrateByThread deps (cm_threadId cm)) (\<lambda>v.
                      if v \<noteq> VEntry None then Return v else Read (\<lambda>m. Return (VEntry (lookup m (cm_id cm))))))
           | _ \<Rightarrow> Return (VEntry None)))"

text \<open>\<^verbatim>\<open>get\<close> and \<^verbatim>\<open>list\<close>, newest first.\<close>

definition mgr_get :: "manager \<Rightarrow> session_id \<Rightarrow> entry option" where
  "mgr_get m cid = map_option (m_objs m) (lookup m cid)"

definition mgr_list :: "manager \<Rightarrow> entry list" where
  "mgr_list m = sort_key (\<lambda>e. - e_createdAt e) (map (m_objs m) (map snd (m_entries m)))"

definition setTitle :: "session_id \<Rightarrow> string \<Rightarrow> bool \<Rightarrow> mgr_proc" where
  "setTitle cid title forced = Read (\<lambda>m.
     case lookup m cid of
       None \<Rightarrow> Return VUnit
     | Some r \<Rightarrow>
         let decide = obj r (\<lambda>e.
               if e_userTitled e \<or> (\<not> forced \<and> \<not> isPlaceholderTitle (e_title e)) then Return VUnit
               else change r (\<lambda>e. e\<lparr>e_title := title\<rparr>) (saveMeta r (Return VUnit)))
         in settle (refresh_router_meta r) (\<lambda>_. decide) (\<lambda>_. decide))"

definition refreshRouterMeta :: "session_id \<Rightarrow> mgr_proc" where
  "refreshRouterMeta cid = Read (\<lambda>m. case lookup m cid of None \<Rightarrow> Return VUnit | Some r \<Rightarrow> refresh_router_meta r)"

text \<open>The tree of a conversation: passes over the entries until one adds nothing.\<close>

definition grow_tree :: "session_id list \<Rightarrow> session_id \<times> session_id option \<Rightarrow> session_id list" where
  "grow_tree tree e =
     (case Conversation_Registry.truthy (snd e) of
        None \<Rightarrow> tree
      | Some p \<Rightarrow> if p \<in> set tree \<and> fst e \<notin> set tree then tree @ [fst e] else tree)"

lemma grow_pass_mono: "set tree \<subseteq> set (foldl grow_tree tree es)"
proof (induction es arbitrary: tree)
  case (Cons e es)
  have "set tree \<subseteq> set (grow_tree tree e)" by (auto simp: grow_tree_def split: option.split)
  with Cons.IH [of "grow_tree tree e"] show ?case by auto
qed simp

lemma grow_pass_bound: "set (foldl grow_tree tree es) \<subseteq> set tree \<union> fst ` set es"
proof (induction es arbitrary: tree)
  case (Cons e es)
  have "set (grow_tree tree e) \<subseteq> set tree \<union> {fst e}" by (auto simp: grow_tree_def split: option.split)
  with Cons.IH [of "grow_tree tree e"] show ?case by auto
qed simp

lemma grow_pass_same: "set (foldl grow_tree tree es) \<subseteq> set tree \<Longrightarrow> foldl grow_tree tree es = tree"
proof (induction es arbitrary: tree)
  case (Cons e es)
  have "set (grow_tree tree e) \<subseteq> set tree"
    using Cons.prems grow_pass_mono [of "grow_tree tree e" es] by auto
  then have "grow_tree tree e = tree" by (auto simp: grow_tree_def split: option.splits if_splits)
  with Cons show ?case by simp
qed simp

function conversation_tree :: "(session_id \<times> session_id option) list \<Rightarrow> session_id list \<Rightarrow> session_id list" where
  "conversation_tree es tree =
     (let tree' = foldl grow_tree tree es in if tree' = tree then tree else conversation_tree es tree')"
  by auto

termination
proof (relation "measure (\<lambda>(es, tree). card (fst ` set es - set tree))")
  fix es and tree tree' :: "session_id list"
  assume t: "tree' = foldl grow_tree tree es" "tree' \<noteq> tree"
  then obtain x where "x \<in> set tree'" "x \<notin> set tree" using grow_pass_same [of tree es] by blast
  moreover have "x \<in> fst ` set es" using calculation t(1) grow_pass_bound [of tree es] by auto
  ultimately have "fst ` set es - set tree' \<subset> fst ` set es - set tree"
    using t(1) grow_pass_mono [of tree es] by auto
  then show "((es, tree'), es, tree) \<in> measure (\<lambda>(es, tree). card (fst ` set es - set tree))"
    by (simp add: psubset_card_mono)
qed simp

declare conversation_tree.simps [simp del]

primrec set_visibilities :: "visibility \<Rightarrow> session_id list \<Rightarrow> mgr_proc \<Rightarrow> mgr_proc" where
  "set_visibilities vis [] k = k"
| "set_visibilities vis (t # ts) k = Read (\<lambda>m.
     case lookup m t of
       None \<Rightarrow> Throw (Rejection ''TypeError'')
     | Some r \<Rightarrow> change r (\<lambda>e. e\<lparr>e_visibility := Some vis\<rparr>) (forget (saveMeta r (Return VUnit)) (set_visibilities vis ts k)))"

definition setVisibility :: "session_id \<Rightarrow> visibility \<Rightarrow> mgr_proc" where
  "setVisibility cid vis = the_entry cid (\<lambda>r. obj r (\<lambda>e.
     if parent_of e \<noteq> None then Throw SubagentVisibility
     else if vis = Private \<and> Conversation_Registry.truthy (e_owner e) = None then Throw PrivateNeedsOwner
     else request (QSetVisibility cid vis) (\<lambda>_. Read (\<lambda>m.
       set_visibilities vis
         (conversation_tree (map (\<lambda>r. (e_id (m_objs m r), e_parentId (m_objs m r))) (map snd (m_entries m))) [cid])
         (Return VUnit)))))"

end
