(* ===== verification/Session_Manager.thy ===== *)
theory Session_Manager
  imports Session_Lifecycle
begin

text \<open>
  What the session manager does at boot and in its sweeps (\<^verbatim>\<open>session/manager.ts\<close>), and the manager
  as an event loop: \<open>mgr_call\<close> is everything that can be called from outside, with the outside's own
  moves (time passing, an assignment observed, a bridge taking a step, a posted call beginning).
\<close>

subsection \<open>Boot\<close>

definition record_lineage :: "conversation_meta list \<Rightarrow> conversation_record list \<Rightarrow> session_id \<rightharpoonup> thread_id \<times> session_id option" where
  "record_lineage metas crs pid =
     (case meta_lineage metas pid of
        Some x \<Rightarrow> Some x
      | None \<Rightarrow> map_option (\<lambda>c. (pid, sp_parentId (rc_spec c))) (find (\<lambda>c. rc_id c = pid) (rev crs)))"

text \<open>\<^verbatim>\<open>live.get(name)\<close>: the last Sandbox of a name wins.\<close>

definition live_sandbox :: "(sandbox_ref \<times> bool) list \<Rightarrow> string \<Rightarrow> (sandbox_ref \<times> bool) option" where
  "live_sandbox ss name = find (\<lambda>s. sr_name (fst s) = name) (rev ss)"

primrec adopt_metas ::
  "(session_id \<rightharpoonup> thread_id \<times> session_id option) \<Rightarrow> (sandbox_ref \<times> bool) list \<Rightarrow> conversation_meta list \<Rightarrow> mgr_proc \<Rightarrow> mgr_proc" where
  "adopt_metas lineage ss [] k = k"
| "adopt_metas lineage ss (cm # cms) k = Read (\<lambda>m.
     if lookup m (cm_id cm) \<noteq> None then adopt_metas lineage ss cms k
     else
       let name = sandboxNameOf m lineage (cm_threadId cm, cm_parentId cm)
       in hydrateEntry cm (live_sandbox ss name) name (\<lambda>r. obj r (\<lambda>e.
            if e_status e = StSuspended
            then can_write (e_id e) (\<lambda>okay.
                   if okay then tell (QSetPhase (e_id e) PhaseSuspended) (adopt_metas lineage ss cms k)
                   else adopt_metas lineage ss cms k)
            else adopt_metas lineage ss cms k)))"

text \<open>The record is authoritative over a possibly stale meta.\<close>

definition adopted_meta :: "conversation_meta list \<Rightarrow> int \<Rightarrow> conversation_record \<Rightarrow> conversation_meta" where
  "adopted_meta metas now c =
     (let cm = (case find (\<lambda>x. cm_id x = rc_id c) (rev metas) of Some x \<Rightarrow> x | None \<Rightarrow> meta_of_record now c);
          s = rc_spec c
      in cm\<lparr>cm_owner := (if Conversation_Registry.truthy (sp_owner s) \<noteq> None then sp_owner s else cm_owner cm),
            cm_model := (if Conversation_Registry.truthy (sp_model s) \<noteq> None then sp_model s else cm_model cm),
            cm_visibility := (if sp_private s then Some Private else cm_visibility cm)\<rparr>)"

primrec adopt_records ::
  "conversation_meta list \<Rightarrow> (session_id \<rightharpoonup> thread_id \<times> session_id option) \<Rightarrow> (sandbox_ref \<times> bool) list
    \<Rightarrow> conversation_record list \<Rightarrow> mgr_proc \<Rightarrow> mgr_proc" where
  "adopt_records metas lineage ss [] k = k"
| "adopt_records metas lineage ss (c # cs) k = Read (\<lambda>m.
     if lookup m (rc_id c) \<noteq> None then adopt_records metas lineage ss cs k
     else
       let cm = adopted_meta metas (m_now m) c;
           name =
             (if Conversation_Registry.truthy (cm_parentId cm) \<noteq> None
              then sandboxNameOf m lineage (cm_threadId cm, cm_parentId cm)
              else (case sp_sandboxRef (rc_spec c) of Some x \<Rightarrow> x | None \<Rightarrow> conv_name (cm_threadId cm)))
       in hydrateEntry cm (live_sandbox ss name) name (\<lambda>r.
            Write (set_entry (rc_id c) r) (adopt_records metas lineage ss cs k)))"

text \<open>Five attempts to read the Sandboxes, with backoff; after the last failure all count as suspended.\<close>

fun reconcile_retry :: "nat \<Rightarrow> nat \<Rightarrow> ((sandbox_ref \<times> bool) list \<Rightarrow> mgr_proc) \<Rightarrow> mgr_proc" where
  "reconcile_retry 0 tried k = k []"
| "reconcile_retry (Suc n) tried k =
     Await QReconcile (\<lambda>res.
       case res of
         Inr (RSandboxes ss) \<Rightarrow> k ss
       | _ \<Rightarrow> if n = 0 then k [] else request (QSleep (250 * 2 ^ tried)) (\<lambda>_. reconcile_retry n (Suc tried) k))"

definition hydrate :: "manager_deps \<Rightarrow> mgr_proc" where
  "hydrate deps =
     request QListMetas (\<lambda>x.
       let metas = (case x of RMetas l \<Rightarrow> l | _ \<Rightarrow> []);
           go = (\<lambda>crs.
             let mine = filter (\<lambda>c. rc_hostPod c \<noteq> None \<and> rc_hostPod c = md_selfPod deps) crs;
                 lineage = record_lineage metas crs
             in reconcile_retry 5 0 (\<lambda>ss.
                  adopt_metas lineage ss metas (adopt_records metas lineage ss mine (Return VUnit))))
       in if Conversation_Registry.truthy (md_selfPod deps) \<noteq> None
          then request QListRows (\<lambda>y. go (case y of RRows l \<Rightarrow> l | _ \<Rightarrow> []))
          else go [])"

text \<open>
  \<^verbatim>\<open>for (const entry of entries.values())\<close> with awaits in the body: entries added meanwhile are
  visited, removed ones are not. \<open>f\<close> threads a value through the loop.
\<close>

primrec for_live :: "nat \<Rightarrow> nat list \<Rightarrow> (nat \<Rightarrow> mgr_value \<Rightarrow> mgr_proc) \<Rightarrow> mgr_value \<Rightarrow> (mgr_value \<Rightarrow> mgr_proc) \<Rightarrow> mgr_proc" where
  "for_live 0 visited f v k = k v"
| "for_live (Suc n) visited f v k = Read (\<lambda>m.
     case find (\<lambda>r. r \<notin> set visited) (map snd (m_entries m)) of
       None \<Rightarrow> k v
     | Some r \<Rightarrow> bind (f r v) (\<lambda>v'. for_live n (r # visited) f v' k))"

definition add_id :: "session_id \<Rightarrow> mgr_value \<Rightarrow> mgr_value" where
  "add_id cid v = (case v of VIds ids \<Rightarrow> VIds (ids @ [cid]) | _ \<Rightarrow> VIds [cid])"

definition interrupted_candidate :: "nat \<Rightarrow> mgr_value \<Rightarrow> mgr_proc" where
  "interrupted_candidate r v = Read (\<lambda>m.
     let cid = e_id (m_objs m r)
     in if e_status (m_objs m r) = StEnded then Return v
        else if guard_observed m cid \<noteq> None \<and> guard_owns m cid \<noteq> Some True then Return v
        else settle
          (request (QReadEvents cid) (\<lambda>x.
            case x of
              REvents es \<Rightarrow>
                (case danglingRunInfo es None of
                   None \<Rightarrow> Return v
                 | Some run \<Rightarrow>
                     if di_cancelRequested run
                     then clock (\<lambda>now. request (QAppend cid (finished_event (di_threadId run) (di_runId run) (Some True) None now))
                            (\<lambda>_. Return v))
                     else closeIfSuspended cid run (\<lambda>closed. Return (if closed then v else add_id cid v)))
            | _ \<Rightarrow> Return v))
          Return (\<lambda>_. Return v))"

text \<open>A worker: take the next candidate until none is left.\<close>

primrec resume_worker :: "manager_deps \<Rightarrow> nat \<Rightarrow> mgr_proc" where
  "resume_worker deps 0 = Return VUnit"
| "resume_worker deps (Suc n) = Read (\<lambda>m.
     case m_resumeQueue m of
       [] \<Rightarrow> Return VUnit
     | cid # rest \<Rightarrow>
         Write (\<lambda>m. m\<lparr>m_resumeQueue := rest\<rparr>)
           (if cid = [] then Return VUnit else settle (mgr_prompt deps cid (plain_prompt RESUME_NUDGE (Some ''resume'')))
             (\<lambda>_. Write (\<lambda>m. m\<lparr>m_resumed := m_resumed m @ [cid]\<rparr>) (resume_worker deps n))
             (\<lambda>_. resume_worker deps n)))"

primrec run_workers :: "manager_deps \<Rightarrow> nat \<Rightarrow> nat \<Rightarrow> mgr_proc \<Rightarrow> mgr_proc" where
  "run_workers deps len 0 k = k"
| "run_workers deps len (Suc n) k =
     Spawn (resume_worker deps len) (\<lambda>p. run_workers deps len n (Join p (\<lambda>_. k)))"

definition resumeInterrupted :: "manager_deps \<Rightarrow> int \<Rightarrow> mgr_proc" where
  "resumeInterrupted deps concurrency =
     for_live (md_fuel deps) [] interrupted_candidate (VIds []) (\<lambda>v.
       case v of
         VIds (x # xs) \<Rightarrow>
           Write (\<lambda>m. m\<lparr>m_resumeQueue := x # xs, m_resumed := []\<rparr>)
             (run_workers deps (Suc (length (x # xs))) (min (nat (max 1 concurrency)) (length (x # xs)))
               (Read (\<lambda>m. Return (VIds (m_resumed m)))))
       | _ \<Rightarrow> Return (VIds []))"

subsection \<open>Sweeps\<close>

text \<open>One entry of \<^verbatim>\<open>sweepIdle\<close>, after its checks on time: the shared pod, the queue, the row, the jobs.\<close>

definition idle_suspend :: "manager_deps \<Rightarrow> nat \<Rightarrow> mgr_value \<Rightarrow> mgr_proc" where
  "idle_suspend deps r v = Read (\<lambda>m.
     let cid = e_id (m_objs m r);
         finish = settle (mgr_suspend deps cid) (\<lambda>_. Return (add_id cid v)) (\<lambda>_. Return v);
         probe =
           (if md_jobProbe deps
            then Await (QBackgroundJob cid) (\<lambda>res. if res = Inr (RBool True) then Return v else finish) else finish)
     in if hasLiveDescendant (md_fuel deps) m cid \<or> is_busy m r then Return v
        else if m_guard m = None then probe
        else request (QConfirmOwns cid) (\<lambda>x. if x = RBool True then probe else Return v))"

definition sweep_one :: "manager_deps \<Rightarrow> int \<Rightarrow> int \<Rightarrow> nat \<Rightarrow> mgr_value \<Rightarrow> mgr_proc" where
  "sweep_one deps idleMs now r v = obj r (\<lambda>e.
     if e_status e \<noteq> StRunning then Return v
     else Read (\<lambda>m.
       let check = (\<lambda>mine.
             if \<not> mine \<or> now - e_lastActivityAt e < idleMs then Return v
             else Await (QReadLastActivity (e_id e)) (\<lambda>res.
               change r (\<lambda>e. case res of
                           Inr (RTime (Some t)) \<Rightarrow> if t > e_lastActivityAt e then e\<lparr>e_lastActivityAt := t\<rparr> else e
                         | _ \<Rightarrow> e)
                 (obj r (\<lambda>e. if now - e_lastActivityAt e < idleMs then Return v else idle_suspend deps r v))))
       in case guard_owns m (e_id e) of Some mine \<Rightarrow> check mine | None \<Rightarrow> can_write (e_id e) check))"

definition sweepIdle :: "manager_deps \<Rightarrow> int \<Rightarrow> int \<Rightarrow> mgr_proc" where
  "sweepIdle deps idleMs now = for_live (md_fuel deps) [] (sweep_one deps idleMs now) (VIds []) Return"

definition reap_candidate :: "manager_deps \<Rightarrow> int \<Rightarrow> int \<Rightarrow> manager \<Rightarrow> nat \<Rightarrow> bool" where
  "reap_candidate deps maxAgeMs now m r \<longleftrightarrow>
     e_parentId (m_objs m r) = None \<and> \<not> e_starred (m_objs m r) \<and> \<not> now - e_lastActivityAt (m_objs m r) < maxAgeMs
     \<and> \<not> hasLiveDescendant (md_fuel deps) m (e_id (m_objs m r)) \<and> \<not> is_busy m r"

primrec reap :: "manager_deps \<Rightarrow> nat list \<Rightarrow> mgr_value \<Rightarrow> mgr_proc" where
  "reap deps [] v = Return v"
| "reap deps (r # rs) v =
     bind (settle
         (bind (refresh_router_meta r) (\<lambda>_. obj r (\<lambda>e.
            if e_starred e then Return v else bind (mgr_end deps (e_id e)) (\<lambda>_. Return (add_id (e_id e) v)))))
         Return (\<lambda>_. Return v))
       (reap deps rs)"

definition sweepRetention :: "manager_deps \<Rightarrow> int \<Rightarrow> int \<Rightarrow> mgr_proc" where
  "sweepRetention deps maxAgeMs now = Read (\<lambda>m.
     reap deps (filter (reap_candidate deps maxAgeMs now m) (map snd (m_entries m))) (VIds []))"

subsection \<open>The manager as an event loop\<close>

datatype mgr_call =
    OpStart thread_id "string option" "string option" visibility
  | OpSpawnChild session_id thread_id child_args
  | OpRevive session_id
  | OpReviveFromMirror session_id int
  | OpReconcile session_id "int option"
  | OpRelinquish session_id
  | OpStopFenced session_id
  | OpEnsureReadable session_id
  | OpRefreshSandbox session_id
  | OpPrompt session_id prompt_args
  | OpPromptByThread thread_id prompt_args
  | OpEnqueue thread_id string "string option" "int option"
  | OpSwitchModel session_id string
  | OpPendingRestart session_id
  | OpRestart session_id
  | OpStopSandbox session_id
  | OpNoteResumed session_id
  | OpSuspend session_id
  | OpEnd session_id
  | OpTouch session_id
  | OpGetByShortId string
  | OpSetTitle session_id string bool
  | OpRefreshMeta session_id
  | OpSetVisibility session_id visibility
  | OpHydrate
  | OpResumeInterrupted int
  | OpSweepIdle int
  | OpSweepRetention int
  | OpClock int
  | OpAssignment session_id "assignment option"
  | OpBridge nat bridge_input
  | OpPosted

definition run_posted :: "manager_deps \<Rightarrow> mgr_proc" where
  "run_posted deps = Read (\<lambda>m.
     case m_posted m of
       [] \<Rightarrow> Return VUnit
     | p # ps \<Rightarrow>
         Write (\<lambda>m. m\<lparr>m_posted := ps\<rparr>)
           (case p of
              PostStop cid \<Rightarrow> stopLocalRun deps cid
            | PostDeferredStop r \<Rightarrow> finishDeferredStop deps r
            | PostRestartRunning root was \<Rightarrow> restart_running deps root was))"

definition bridge_moves :: "manager_deps \<Rightarrow> nat \<Rightarrow> bridge_input \<Rightarrow> mgr_proc" where
  "bridge_moves deps n i = with_bridge deps n (\<lambda>d b. case step d i b of Some b' \<Rightarrow> b' | None \<Rightarrow> b) (Return VUnit)"

primrec mgr_op :: "manager_deps \<Rightarrow> mgr_call \<Rightarrow> mgr_proc" where
  "mgr_op deps (OpStart th model owner vis) = mgr_start deps th model owner vis"
| "mgr_op deps (OpSpawnChild p th args) = spawnChild deps p th args"
| "mgr_op deps (OpRevive cid) = revive deps cid"
| "mgr_op deps (OpReviveFromMirror cid gen) = reviveFromMirror deps cid gen"
| "mgr_op deps (OpReconcile cid gen) = reconcileDanglingRun deps cid gen"
| "mgr_op deps (OpRelinquish cid) = relinquish deps cid"
| "mgr_op deps (OpStopFenced cid) = stopLocalRun deps cid"
| "mgr_op deps (OpEnsureReadable cid) = ensureReadable deps cid"
| "mgr_op deps (OpRefreshSandbox cid) = refreshSandbox cid"
| "mgr_op deps (OpPrompt cid a) = mgr_prompt deps cid a"
| "mgr_op deps (OpPromptByThread th a) = promptByThread deps th a"
| "mgr_op deps (OpEnqueue th t src p) = enqueueByThread deps th t src p"
| "mgr_op deps (OpSwitchModel cid model) = switchModelNow deps cid model"
| "mgr_op deps (OpPendingRestart cid) = pendingRestart cid"
| "mgr_op deps (OpRestart cid) = restartSandbox deps cid"
| "mgr_op deps (OpStopSandbox cid) = stopSandbox deps cid"
| "mgr_op deps (OpNoteResumed cid) = noteSandboxResumed cid"
| "mgr_op deps (OpSuspend cid) = mgr_suspend deps cid"
| "mgr_op deps (OpEnd cid) = mgr_end deps cid"
| "mgr_op deps (OpTouch cid) = touchById cid"
| "mgr_op deps (OpGetByShortId h) = getByShortId deps h"
| "mgr_op deps (OpSetTitle cid t forced) = setTitle cid t forced"
| "mgr_op deps (OpRefreshMeta cid) = refreshRouterMeta cid"
| "mgr_op deps (OpSetVisibility cid vis) = setVisibility cid vis"
| "mgr_op deps OpHydrate = hydrate deps"
| "mgr_op deps (OpResumeInterrupted c) = resumeInterrupted deps c"
| "mgr_op deps (OpSweepIdle ms) = clock (sweepIdle deps ms)"
| "mgr_op deps (OpSweepRetention ms) = clock (sweepRetention deps ms)"
| "mgr_op deps (OpClock now) = Write (\<lambda>m. m\<lparr>m_now := now\<rparr>) (Return VUnit)"
| "mgr_op deps (OpAssignment cid a) =
     Write (\<lambda>m. m\<lparr>m_guard := map_option (\<lambda>t. observe t cid a) (m_guard m)\<rparr>) (Return VUnit)"
| "mgr_op deps (OpBridge n i) = bridge_moves deps n i"
| "mgr_op deps OpPosted = run_posted deps"

definition mgr_run :: "manager_deps \<Rightarrow> (mgr_call, mgr_error, mgr_response) event list \<Rightarrow> mgr_loop \<Rightarrow> mgr_loop option" where
  "mgr_run deps = loop_run answer_fits (mgr_op deps)"

end
