(* ===== verification/Session_Safety.thy ===== *)
theory Session_Safety
  imports Session_Manager
begin

text \<open>
  Safety of the session manager under any interleaving of its operations. The state stays well
  formed (\<open>mgr_wf\<close>): an entry is in the map under its own id, the bridge of an entry was built for that
  conversation, and a bridge's events go to the entry of its conversation. And a conversation that
  was ended stays ended: it does not come back into the map, gets no new bridge and its metadata is
  not written again, by any operation that was running or starts later, other than its explicit
  creation or a boot. The relation \<open>mgr_le\<close> is the guarantee of every operation in the sense of
  \<^verbatim>\<open>Async\<close>.
\<close>

subsection \<open>Well-formed managers\<close>

definition entries_wf :: "manager \<Rightarrow> bool" where
  "entries_wf m \<longleftrightarrow> distinct (map fst (m_entries m))
     \<and> (\<forall>cid r. lookup m cid = Some r \<longrightarrow> r < m_nextObj m \<and> e_id (m_objs m r) = cid)"

definition bridges_wf :: "manager \<Rightarrow> bool" where
  "bridges_wf m \<longleftrightarrow>
     (\<forall>r < m_nextObj m. \<forall>n. e_bridge (m_objs m r) = Some n \<longrightarrow>
        n < m_nextBridge m \<and> ba_conversationId (bo_args (m_bridges m n)) = e_id (m_objs m r))"

definition handlers_wf :: "manager \<Rightarrow> bool" where
  "handlers_wf m \<longleftrightarrow>
     (\<forall>n < m_nextBridge m. \<forall>r. bo_entry (m_bridges m n) = Some r \<longrightarrow>
        r < m_nextObj m \<and> e_id (m_objs m r) = ba_conversationId (bo_args (m_bridges m n)))"

definition ended_wf :: "manager \<Rightarrow> bool" where
  "ended_wf m \<longleftrightarrow> distinct (m_ended m) \<and> set (m_ended m) \<subseteq> (\<lambda>r. e_id (m_objs m r)) ` {..<m_nextObj m}"

definition mgr_wf :: "manager \<Rightarrow> bool" where
  "mgr_wf m \<longleftrightarrow> entries_wf m \<and> bridges_wf m \<and> handlers_wf m \<and> ended_wf m"

lemma mgr_wf_create [simp]: "mgr_wf (createSessionManager guard)"
  by (simp add: mgr_wf_def entries_wf_def bridges_wf_def handlers_wf_def ended_wf_def createSessionManager_def lookup_def)

lemma mgr_wf_lookupD: "mgr_wf m \<Longrightarrow> lookup m cid = Some r \<Longrightarrow> r < m_nextObj m \<and> e_id (m_objs m r) = cid"
  by (simp add: mgr_wf_def entries_wf_def)

lemma ended_bound:
  assumes "mgr_wf m"
  shows "length (m_ended m) \<le> m_nextObj m"
proof -
  have "length (m_ended m) = card (set (m_ended m))"
    using assms by (simp add: mgr_wf_def ended_wf_def distinct_card)
  also have "\<dots> \<le> card ((\<lambda>r. e_id (m_objs m r)) ` {..<m_nextObj m})"
    using assms by (intro card_mono) (auto simp: mgr_wf_def ended_wf_def)
  also have "\<dots> \<le> m_nextObj m" using card_image_le [of "{..<m_nextObj m}"] by simp
  finally show ?thesis .
qed

subsection \<open>The guarantee\<close>

text \<open>
  What every operation does to the state, as far as conversation \<open>c\<close> is concerned, if any. A
  tombstone is forgotten only after \<^const>\<open>ENDED_TOMBSTONES\<close> others, so not in a process that has had
  fewer entries.
\<close>

definition stays_dead :: "session_id \<Rightarrow> manager \<Rightarrow> manager \<Rightarrow> bool" where
  "stays_dead c s s' \<longleftrightarrow>
     isEnded s' c \<and> (lookup s c = None \<longrightarrow> lookup s' c = None)
     \<and> (\<forall>n. m_nextBridge s \<le> n \<and> n < m_nextBridge s' \<longrightarrow> ba_conversationId (bo_args (m_bridges s' n)) \<noteq> c)"

definition mgr_le :: "session_id option \<Rightarrow> manager \<Rightarrow> manager \<Rightarrow> bool" where
  "mgr_le c s s' \<longleftrightarrow> mgr_wf s \<longrightarrow>
     mgr_wf s' \<and> m_nextObj s \<le> m_nextObj s' \<and> m_nextBridge s \<le> m_nextBridge s'
     \<and> (\<forall>r < m_nextObj s. e_id (m_objs s' r) = e_id (m_objs s r))
     \<and> (\<forall>n < m_nextBridge s. bo_args (m_bridges s' n) = bo_args (m_bridges s n))
     \<and> (\<forall>x. c = Some x \<and> isEnded s x \<and> m_nextObj s' < ENDED_TOMBSTONES \<longrightarrow> stays_dead x s s')"

definition mgr_req :: "manager \<Rightarrow> mgr_request \<Rightarrow> bool" where
  "mgr_req s q = (case q of QSaveMeta cm \<Rightarrow> \<not> isEnded s (cm_id cm) | _ \<Rightarrow> True)"

lemma mgr_le_refl: "mgr_le c s s"
  by (auto simp: mgr_le_def stays_dead_def)

lemma mgr_le_trans:
  assumes "mgr_le c s t" and "mgr_le c t u"
  shows "mgr_le c s u"
proof (unfold mgr_le_def, intro impI conjI allI)
  assume s: "mgr_wf s"
  then have t: "mgr_wf t" using assms(1) by (simp add: mgr_le_def)
  show "mgr_wf u" using t assms(2) by (simp add: mgr_le_def)
  show "m_nextObj s \<le> m_nextObj u" using s t assms by (auto simp: mgr_le_def)
  show "m_nextBridge s \<le> m_nextBridge u" using s t assms by (auto simp: mgr_le_def)
  show "e_id (m_objs u r) = e_id (m_objs s r)" if "r < m_nextObj s" for r
    using that s t assms by (auto simp: mgr_le_def)
  show "bo_args (m_bridges u n) = bo_args (m_bridges s n)" if "n < m_nextBridge s" for n
    using that s t assms by (auto simp: mgr_le_def)
  fix x
  assume d: "c = Some x \<and> isEnded s x \<and> m_nextObj u < ENDED_TOMBSTONES"
  then have "stays_dead x s t" using s t assms by (auto simp: mgr_le_def)
  moreover have "stays_dead x t u" using d s t assms calculation by (auto simp: mgr_le_def stays_dead_def)
  moreover have "\<forall>n < m_nextBridge t. bo_args (m_bridges u n) = bo_args (m_bridges t n)"
    using t assms(2) by (simp add: mgr_le_def)
  ultimately show "stays_dead x s u" unfolding stays_dead_def by (metis not_less)
qed

interpretation rg: guarantee "mgr_le c" mgr_req for c
  by unfold_locales (rule mgr_le_refl, rule mgr_le_trans)

lemma mgr_leD:
  assumes "mgr_le c s s'" and "mgr_wf s"
  shows "mgr_wf s'" and "m_nextObj s \<le> m_nextObj s'" and "r < m_nextObj s \<Longrightarrow> e_id (m_objs s' r) = e_id (m_objs s r)"
    and "r < m_nextObj s \<Longrightarrow> r < m_nextObj s'"
  using assms by (auto simp: mgr_le_def)

subsection \<open>What leaves the core alone\<close>

text \<open>The fields the guarantee is about.\<close>

definition same_core :: "manager \<Rightarrow> manager \<Rightarrow> bool" where
  "same_core s s' \<longleftrightarrow>
     m_entries s' = m_entries s \<and> m_nextObj s' = m_nextObj s \<and> m_ended s' = m_ended s \<and> m_nextBridge s' = m_nextBridge s
     \<and> (\<forall>r. e_id (m_objs s' r) = e_id (m_objs s r) \<and> e_bridge (m_objs s' r) \<in> {None, e_bridge (m_objs s r)})
     \<and> (\<forall>n. bo_args (m_bridges s' n) = bo_args (m_bridges s n) \<and> bo_entry (m_bridges s' n) = bo_entry (m_bridges s n))"

lemma mgr_wf_same_core:
  assumes "same_core s s'" and "mgr_wf s"
  shows "mgr_wf s'"
proof -
  have id: "e_id (m_objs s' r) = e_id (m_objs s r)" for r using assms(1) by (simp add: same_core_def)
  have br: "e_bridge (m_objs s r) = Some n" if "e_bridge (m_objs s' r) = Some n" for r n
    using assms(1) that unfolding same_core_def by (metis empty_iff insert_iff option.distinct(1))
  have "entries_wf s'" "handlers_wf s'" "ended_wf s'"
    using assms id by (auto simp: same_core_def mgr_wf_def entries_wf_def handlers_wf_def ended_wf_def lookup_def)
  moreover have "bridges_wf s'"
    using assms br by (auto simp: same_core_def mgr_wf_def bridges_wf_def)
  ultimately show ?thesis by (simp add: mgr_wf_def)
qed

lemma mgr_le_same_core: "same_core s s' \<Longrightarrow> mgr_le c s s'"
  using mgr_wf_same_core by (auto simp: mgr_le_def same_core_def stays_dead_def isEnded_def lookup_def)

named_theorems core_intros \<open>updates that leave the core alone\<close>

lemma same_core_upd_entry [core_intros]:
  "(\<And>e. e_id (f e) = e_id e \<and> e_bridge (f e) \<in> {None, e_bridge e}) \<Longrightarrow> same_core s (upd_entry r f s)"
  by (auto simp: same_core_def upd_entry_def)

lemma same_core_upd_bridge [core_intros]:
  "(\<And>o'. bo_args (f o') = bo_args o' \<and> bo_entry (f o') = bo_entry o') \<Longrightarrow> same_core s (upd_bridge n f s)"
  by (auto simp: same_core_def upd_bridge_def)

lemma same_core_fields [core_intros]:
  "same_core s s" "same_core s (s\<lparr>m_now := a\<rparr>)" "same_core s (s\<lparr>m_reviving := b\<rparr>)" "same_core s (s\<lparr>m_reconciling := x\<rparr>)"
  "same_core s (s\<lparr>m_drops := d\<rparr>)" "same_core s (s\<lparr>m_lastRefresh := e\<rparr>)" "same_core s (s\<lparr>m_guard := g\<rparr>)"
  "same_core s (s\<lparr>m_posted := i\<rparr>)" "same_core s (s\<lparr>m_completions := j\<rparr>)" "same_core s (s\<lparr>m_revived := k\<rparr>)"
  "same_core s (s\<lparr>m_cycled := l\<rparr>)" "same_core s (s\<lparr>m_resumeQueue := o'\<rparr>)" "same_core s (s\<lparr>m_resumed := p\<rparr>)"
  "same_core s (s\<lparr>m_resumeQueue := o', m_resumed := p\<rparr>)"
  by (simp_all add: same_core_def)

lemma same_core_post [core_intros]: "same_core s (post p s)"
  by (simp add: same_core_def post_def)

lemma same_core_guard [core_intros]: "same_core s (fst (guard_canWrite s cid))"
  by (auto simp: same_core_def guard_canWrite_def split: option.split prod.split)

lemma same_core_clear [core_intros]: "same_core s (clearDeferredStops root s)"
  by (simp add: same_core_def clearDeferredStops_def)

lemma same_core_if [core_intros]:
  "same_core s x \<Longrightarrow> same_core s y \<Longrightarrow> same_core s (if b then x else y)"
  "same_core s (f s) \<Longrightarrow> same_core s (g s) \<Longrightarrow> same_core s ((if b then f else g) s)"
  by simp_all

subsection \<open>Rules for programs\<close>

abbreviation fine :: "session_id option \<Rightarrow> mgr_proc \<Rightarrow> manager \<Rightarrow> bool" where
  "fine c p s \<equiv> ok (mgr_le c) mgr_req p s"

text \<open>
  \<open>under c P p\<close>: the program keeps the guarantee from every well-formed state in which \<open>P\<close>, a
  condition the others cannot invalidate.
\<close>

definition under :: "session_id option \<Rightarrow> (manager \<Rightarrow> bool) \<Rightarrow> mgr_proc \<Rightarrow> bool" where
  "under c P p \<longleftrightarrow> (\<forall>s. mgr_wf s \<and> P s \<longrightarrow> fine c p s)"

definition stable :: "session_id option \<Rightarrow> (manager \<Rightarrow> bool) \<Rightarrow> bool" where
  "stable c P \<longleftrightarrow> (\<forall>s s'. mgr_wf s \<and> P s \<and> mgr_le c s s' \<longrightarrow> P s')"

abbreviation always :: "session_id option \<Rightarrow> mgr_proc \<Rightarrow> bool" where
  "always c p \<equiv> under c (\<lambda>_. True) p"

text \<open>The object \<open>r\<close> is the entry of conversation \<open>cid\<close>, in the map or no longer.\<close>

definition own :: "nat \<Rightarrow> session_id \<Rightarrow> manager \<Rightarrow> bool" where
  "own r cid s \<longleftrightarrow> r < m_nextObj s \<and> e_id (m_objs s r) = cid"

named_theorems rg_intros \<open>rules for \<^const>\<open>under\<close>\<close>

lemma stable_True [rg_intros]: "stable c (\<lambda>_. True)"
  by (simp add: stable_def)

lemma stable_own [rg_intros]: "stable c (own r cid)"
  using mgr_leD(3,4) by (fastforce simp: stable_def own_def)

lemma stable_conj [rg_intros]: "stable c P \<Longrightarrow> stable c Q \<Longrightarrow> stable c (\<lambda>s. P s \<and> Q s)"
  unfolding stable_def by blast

lemma later: "stable c P \<Longrightarrow> under c P p \<Longrightarrow> mgr_wf s \<Longrightarrow> P s \<Longrightarrow> mgr_le c s s' \<Longrightarrow> fine c p s'"
  unfolding stable_def under_def using mgr_leD(1) by blast

lemma under_weaken: "under c P p \<Longrightarrow> (\<And>s. Q s \<Longrightarrow> P s) \<Longrightarrow> under c Q p"
  by (simp add: under_def)

lemma always_under: "always c p \<Longrightarrow> under c P p"
  by (simp add: under_def)

lemma under_leaf [rg_intros]: "under c P (Return v)" "under c P (Throw e)"
  by (simp_all add: under_def)

lemma under_Read [rg_intros]: "(\<And>s. mgr_wf s \<Longrightarrow> P s \<Longrightarrow> under c P (k s)) \<Longrightarrow> under c P (Read k)"
  by (simp add: under_def)

lemma under_Read_now: "(\<And>s. mgr_wf s \<Longrightarrow> P s \<Longrightarrow> fine c (k s) s) \<Longrightarrow> under c P (Read k)"
  by (simp add: under_def)

lemma fine_Write: "mgr_wf s \<Longrightarrow> P s \<Longrightarrow> stable c P \<Longrightarrow> mgr_le c s (f s) \<Longrightarrow> under c P k \<Longrightarrow> fine c (Write f k) s"
  by (simp add: later)

lemma under_Write: "stable c P \<Longrightarrow> (\<And>s. mgr_wf s \<Longrightarrow> P s \<Longrightarrow> mgr_le c s (f s)) \<Longrightarrow> under c P k \<Longrightarrow> under c P (Write f k)"
  by (auto simp: under_def intro: later [unfolded under_def])

lemma under_Write_core [rg_intros]: "stable c P \<Longrightarrow> (\<And>s. same_core s (f s)) \<Longrightarrow> under c P k \<Longrightarrow> under c P (Write f k)"
  by (rule under_Write) (simp_all add: mgr_le_same_core)

lemma under_Await: "stable c P \<Longrightarrow> (\<And>s. mgr_req s q) \<Longrightarrow> (\<And>r. under c P (k r)) \<Longrightarrow> under c P (Await q k)"
  by (auto simp: under_def intro: later [unfolded under_def])

lemma under_Spawn [rg_intros]: "stable c P \<Longrightarrow> under c P p \<Longrightarrow> (\<And>n. under c P (k n)) \<Longrightarrow> under c P (Spawn p k)"
  by (auto simp: under_def intro: later [unfolded under_def])

lemma under_Join [rg_intros]: "stable c P \<Longrightarrow> (\<And>r. under c P (k r)) \<Longrightarrow> under c P (Join n k)"
  by (auto simp: under_def intro: later [unfolded under_def])

lemma under_bind [rg_intros]: "stable c P \<Longrightarrow> under c P p \<Longrightarrow> (\<And>v. under c P (f v)) \<Longrightarrow> under c P (bind p f)"
  by (auto simp: under_def intro!: rg.ok_bind intro: later [unfolded under_def])

lemma under_settle [rg_intros]:
  "stable c P \<Longrightarrow> under c P p \<Longrightarrow> (\<And>v. under c P (f v)) \<Longrightarrow> (\<And>e. under c P (g e)) \<Longrightarrow> under c P (settle p f g)"
  by (auto simp: under_def intro!: rg.ok_settle intro: later [unfolded under_def])

lemma under_for_each [rg_intros]:
  "stable c P \<Longrightarrow> (\<And>x. x \<in> set xs \<Longrightarrow> under c P (f x)) \<Longrightarrow> under c P k \<Longrightarrow> under c P (for_each f xs k)"
  by (auto simp: under_def intro!: rg.ok_for_each intro: later [unfolded under_def])

text \<open>Branches.\<close>

lemma under_if [rg_intros]: "(b \<Longrightarrow> under c P p) \<Longrightarrow> (\<not> b \<Longrightarrow> under c P q) \<Longrightarrow> under c P (if b then p else q)"
  by simp

lemma under_case_option [rg_intros]:
  "(x = None \<Longrightarrow> under c P p) \<Longrightarrow> (\<And>y. x = Some y \<Longrightarrow> under c P (f y)) \<Longrightarrow> under c P (case x of None \<Rightarrow> p | Some y \<Rightarrow> f y)"
  by (cases x) simp_all

lemma under_case_sum [rg_intros]:
  "(\<And>y. x = Inl y \<Longrightarrow> under c P (f y)) \<Longrightarrow> (\<And>y. x = Inr y \<Longrightarrow> under c P (g y)) \<Longrightarrow> under c P (case x of Inl y \<Rightarrow> f y | Inr y \<Rightarrow> g y)"
  by (cases x) simp_all

lemma under_case_prod [rg_intros]: "(\<And>a b. x = (a, b) \<Longrightarrow> under c P (f a b)) \<Longrightarrow> under c P (case x of (a, b) \<Rightarrow> f a b)"
  by (cases x) simp

lemma under_case_list [rg_intros]:
  "(x = [] \<Longrightarrow> under c P p) \<Longrightarrow> (\<And>y ys. x = y # ys \<Longrightarrow> under c P (f y ys)) \<Longrightarrow> under c P (case x of [] \<Rightarrow> p | y # ys \<Rightarrow> f y ys)"
  by (cases x) simp_all

lemma under_Let [rg_intros]: "(\<And>y. y = x \<Longrightarrow> under c P (f y)) \<Longrightarrow> under c P (let y = x in f y)"
  by simp

text \<open>Requests other than a write of metadata are free.\<close>

definition free_request :: "mgr_request \<Rightarrow> bool" where
  "free_request q = (case q of QSaveMeta _ \<Rightarrow> False | _ \<Rightarrow> True)"

lemma free_requests [simp]: "free_request (if b then q else q') = (if b then free_request q else free_request q')"
  by simp

lemma mgr_req_free: "free_request q \<Longrightarrow> mgr_req s q"
  by (auto simp: mgr_req_def free_request_def split: mgr_request.splits)

lemma under_Await_free [rg_intros]: "stable c P \<Longrightarrow> free_request q \<Longrightarrow> (\<And>r. under c P (k r)) \<Longrightarrow> under c P (Await q k)"
  by (simp add: under_Await mgr_req_free)

lemma under_request [rg_intros]: "stable c P \<Longrightarrow> free_request q \<Longrightarrow> (\<And>r. under c P (k r)) \<Longrightarrow> under c P (request q k)"
  unfolding request_def by (intro rg_intros)

lemma under_attempt [rg_intros]: "stable c P \<Longrightarrow> free_request q \<Longrightarrow> under c P k \<Longrightarrow> under c P (attempt q k)"
  unfolding attempt_def by (intro rg_intros)

lemma under_tell [rg_intros]: "stable c P \<Longrightarrow> free_request q \<Longrightarrow> under c P k \<Longrightarrow> under c P (tell q k)"
  unfolding tell_def by (intro rg_intros)

lemma under_forget [rg_intros]: "stable c P \<Longrightarrow> under c P p \<Longrightarrow> under c P k \<Longrightarrow> under c P (forget p k)"
  unfolding forget_def by (intro rg_intros)

lemma under_obj [rg_intros]: "(\<And>e. under c P (k e)) \<Longrightarrow> under c P (obj r k)"
  unfolding obj_def by (intro rg_intros)

lemma under_clock [rg_intros]: "(\<And>n. under c P (k n)) \<Longrightarrow> under c P (clock k)"
  unfolding clock_def by (intro rg_intros)

lemma under_change [rg_intros]:
  "stable c P \<Longrightarrow> (\<And>e. e_id (f e) = e_id e \<and> e_bridge (f e) \<in> {None, e_bridge e}) \<Longrightarrow> under c P k \<Longrightarrow> under c P (change r f k)"
  unfolding change_def by (intro rg_intros core_intros)

lemma under_the_entry [rg_intros]: "(\<And>r. under c P (k r)) \<Longrightarrow> under c P (the_entry cid k)"
  unfolding the_entry_def by (intro rg_intros)

lemma under_can_write [rg_intros]: "stable c P \<Longrightarrow> (\<And>b. under c P (k b)) \<Longrightarrow> under c P (can_write cid k)"
  unfolding can_write_def by (intro rg_intros core_intros)

lemma under_saveMeta [rg_intros]:
  assumes "stable c P" and "under c P k"
  shows "under c P (saveMeta r k)"
proof -
  have "fine c (saveMeta r k) s" if s: "mgr_wf s" "P s" for s
  proof (cases "isEnded s (e_id (m_objs s r))")
    case True
    have "under c P (request QTick (\<lambda>_. k))"
      using assms by (intro rg_intros) (simp_all add: free_request_def)
    then show ?thesis using True s by (simp add: saveMeta_def under_def)
  next
    case False
    have "fine c (request (QSaveMeta (meta_of (m_objs s r))) (\<lambda>_. k)) s"
      using False s later [OF assms] by (intro rg.ok_request) (auto simp: mgr_req_def meta_of_def)
    with False show ?thesis by (simp add: saveMeta_def)
  qed
  then show ?thesis by (simp add: under_def)
qed

lemma under_touch [rg_intros]: "stable c P \<Longrightarrow> under c P k \<Longrightarrow> under c P (touch r k)"
  unfolding touch_def by (intro rg_intros) auto

end
