(* ===== verification/Session_Guarantee.thy ===== *)
theory Session_Guarantee
  imports Session_Safety
begin

text \<open>
  Every operation of the session manager keeps the guarantee of \<^verbatim>\<open>Session_Safety\<close>: one lemma per
  operation, from the rules for its steps.
\<close>

lemma under_case_response [rg_intros]:
  assumes "under c P f1" "\<And>x. under c P (f2 x)" "\<And>x. under c P (f3 x)" "\<And>x. under c P (f4 x)" "\<And>x. under c P (f5 x)"
    "\<And>x. under c P (f6 x)" "\<And>x. under c P (f7 x)" "\<And>x. under c P (f8 x)" "\<And>x. under c P (f9 x)" "\<And>x. under c P (f10 x)"
    "\<And>x. under c P (f11 x)" "\<And>x. under c P (f12 x)" "\<And>x. under c P (f13 x)"
  shows "under c P (case_mgr_response f1 f2 f3 f4 f5 f6 f7 f8 f9 f10 f11 f12 f13 y)"
  using assms by (cases y) simp_all

lemma under_case_value [rg_intros]:
  assumes "under c P f1" "\<And>x. under c P (f2 x)" "\<And>x. under c P (f3 x)" "\<And>x. under c P (f4 x)" "\<And>x. under c P (f5 x)"
    "\<And>x. under c P (f6 x)" "\<And>x. under c P (f7 x)" "\<And>x z. under c P (f8 x z)" "\<And>x. under c P (f9 x)"
  shows "under c P (case_mgr_value f1 f2 f3 f4 f5 f6 f7 f8 f9 y)"
  using assms by (cases y) simp_all

lemma free_intros [rg_intros]:
  "free_request QTick" "free_request (QSleep t)" "free_request (QSetVisibility i vis)" "free_request QListMetas"
  "free_request (QReadRouterMeta i)" "free_request (QTouchActivity i t)" "free_request (QReadLastActivity i)"
  "free_request (QRemoveConversation i)" "free_request (QAppend i e)" "free_request (QReadEvents i)"
  "free_request (QReadTail i k)" "free_request (QRegister i sp)" "free_request (QSetPhase i ph)"
  "free_request (QRemoveRow i)" "free_request (QGetRow i)" "free_request QListRows" "free_request (QCreate a th)"
  "free_request (QResume ref th)" "free_request (QSuspend ref)" "free_request (QDestroy ref)" "free_request QReconcile"
  "free_request (QPendingRestart ref)" "free_request (QRestart ref)" "free_request (QBridgeStart n)"
  "free_request (QBridgeStop n)" "free_request (QBridgeCancel n)" "free_request (QRunEnd n k)"
  "free_request (QConfirmOwns i)" "free_request (QBackgroundJob i)"
  by (simp_all add: free_request_def)

subsection \<open>Bridges\<close>

lemma under_on_persist [rg_intros]: "stable c P \<Longrightarrow> under c P k \<Longrightarrow> under c P (on_persist r event k)"
  unfolding on_persist_def by (intro rg_intros core_intros) (simp_all add: same_core_def)

lemma under_on_persist_all [rg_intros]: "stable c P \<Longrightarrow> under c P k \<Longrightarrow> under c P (on_persist_all r es k)"
  by (induction es) (simp_all add: under_on_persist)

lemma under_with_bridge [rg_intros]: "stable c P \<Longrightarrow> under c P k \<Longrightarrow> under c P (with_bridge deps n f k)"
  unfolding with_bridge_def Let_def by (intro rg_intros core_intros) simp_all

lemma under_say [rg_intros]: "stable c P \<Longrightarrow> (\<And>run. under c P (k run)) \<Longrightarrow> under c P (say_to deps r input pr pol k)"
  unfolding say_to_def by (intro rg_intros)

lemma under_await_run [rg_intros]: "stable c P \<Longrightarrow> under c P k \<Longrightarrow> under c P (await_run run k)"
  unfolding await_run_def by (intro rg_intros)

lemma under_stop_bridge [rg_intros]: "stable c P \<Longrightarrow> under c P k \<Longrightarrow> under c P (stop_bridge deps b k)"
  unfolding stop_bridge_def by (intro rg_intros)

lemma wf_wire:
  assumes "mgr_wf s" and "own r cid s" and "e_bridge (m_objs s r) = Some n"
  shows "mgr_le c s (upd_bridge n (\<lambda>o'. o'\<lparr>bo_entry := Some r\<rparr>) s)"
proof -
  have n: "n < m_nextBridge s" "ba_conversationId (bo_args (m_bridges s n)) = e_id (m_objs s r)"
    using assms by (auto simp: mgr_wf_def bridges_wf_def own_def)
  let ?s = "upd_bridge n (\<lambda>o'. o'\<lparr>bo_entry := Some r\<rparr>) s"
  have "entries_wf ?s" "ended_wf ?s"
    using assms(1) by (simp_all add: mgr_wf_def entries_wf_def ended_wf_def lookup_def upd_bridge_def)
  moreover have "bridges_wf ?s"
    using assms(1) by (auto simp: mgr_wf_def bridges_wf_def upd_bridge_def)
  moreover have "handlers_wf ?s"
    using assms n by (auto simp: mgr_wf_def handlers_wf_def upd_bridge_def own_def)
  ultimately have "mgr_wf ?s" by (simp add: mgr_wf_def)
  then show ?thesis by (auto simp: mgr_le_def stays_dead_def isEnded_def lookup_def upd_bridge_def)
qed

lemma under_wireEventLog:
  assumes "under c (own r cid) k"
  shows "under c (own r cid) (wireEventLog r k)"
proof -
  have "fine c (case e_bridge (m_objs s r) of None \<Rightarrow> k | Some n \<Rightarrow> Write (upd_bridge n (\<lambda>o'. o'\<lparr>bo_entry := Some r\<rparr>)) k) s"
    if "mgr_wf s" "own r cid s" for s
    using that assms wf_wire [OF that]
    by (auto simp: under_def split: option.split intro: later [OF stable_own, unfolded under_def])
  then show ?thesis unfolding wireEventLog_def obj_def by (intro under_Read_now) blast
qed

text \<open>A new bridge: not for a conversation that has ended.\<close>

lemma fine_build_bridge:
  assumes s: "mgr_wf s" "own r cid s" and live: "c = Some cid \<Longrightarrow> \<not> isEnded s cid" and k: "under c (own r cid) k"
  shows "fine c (build_bridge r w k) s"
proof -
  define args where "args = \<lparr>ba_conversationId = e_id (m_objs s r), ba_sandbox = e_sandbox (m_objs s r), ba_model = (case w of None \<Rightarrow> e_model (m_objs s r) | Some model \<Rightarrow> model),
      ba_pickedProvider = (if w = None then e_pickedProvider (m_objs s r) else None), ba_owner = e_owner (m_objs s r)\<rparr>"
  define s1 where "s1 = new_bridge args s"
  define s2 where "s2 = upd_entry r (\<lambda>e. e\<lparr>e_bridge := Some (m_nextBridge s)\<rparr>) s1"
  have cid: "ba_conversationId args = cid" using s(2) by (simp add: args_def own_def)
  have "mgr_wf s1"
    using s(1) by (auto simp: mgr_wf_def s1_def new_bridge_def entries_wf_def bridges_wf_def handlers_wf_def ended_wf_def
        lookup_def less_Suc_eq)
  then have le1: "mgr_le c s s1"
    using live cid by (auto simp: mgr_le_def s1_def new_bridge_def stays_dead_def isEnded_def lookup_def less_Suc_eq)
  have own1: "own r cid s1" using s(2) by (simp add: own_def s1_def new_bridge_def)
  have ids: "e_id (m_objs s2 x) = e_id (m_objs s1 x)" for x by (simp add: s2_def upd_entry_def)
  have new: "m_nextBridge s < m_nextBridge s1" "ba_conversationId (bo_args (m_bridges s1 (m_nextBridge s))) = cid"
    using cid by (simp_all add: s1_def new_bridge_def)
  have "entries_wf s2" "handlers_wf s2" "ended_wf s2"
    using \<open>mgr_wf s1\<close> ids
    by (simp_all add: mgr_wf_def s2_def upd_entry_def entries_wf_def handlers_wf_def ended_wf_def lookup_def)
  moreover have "bridges_wf s2"
    using \<open>mgr_wf s1\<close> own1 new by (auto simp: mgr_wf_def s2_def upd_entry_def bridges_wf_def own_def)
  ultimately have "mgr_wf s2" by (simp add: mgr_wf_def)
  then have le2: "mgr_le c s1 s2"
    by (auto simp: mgr_le_def s2_def upd_entry_def stays_dead_def isEnded_def lookup_def)
  have "fine c k s2"
    using later [OF stable_own k \<open>mgr_wf s1\<close> own1 le2] .
  with le1 le2 show ?thesis
    by (simp add: build_bridge_def change_def Let_def args_def [symmetric] s1_def [symmetric] s2_def [symmetric])
qed

subsection \<open>Stopping, closing, triggers\<close>

lemma under_await_revive [rg_intros]: "stable c P \<Longrightarrow> under c P k \<Longrightarrow> under c P (await_revive cid k)"
  unfolding await_revive_def by (intro rg_intros)

lemma under_stopLocalRun [rg_intros]: "stable c P \<Longrightarrow> under c P (stopLocalRun deps cid)"
  unfolding stopLocalRun_def by (intro rg_intros) simp_all

lemma under_relinquish: "stable c P \<Longrightarrow> under c P (relinquish deps cid)"
  unfolding relinquish_def by (intro rg_intros)

lemma under_closeIfSuspended [rg_intros]:
  "stable c P \<Longrightarrow> (\<And>b. under c P (k b)) \<Longrightarrow> under c P (closeIfSuspended cid run k)"
  unfolding closeIfSuspended_def by (intro rg_intros)

lemma under_inheritedHumanTrigger [rg_intros]:
  "stable c P \<Longrightarrow> (\<And>b. under c P (k b)) \<Longrightarrow> under c P (inheritedHumanTrigger r k)"
  unfolding inheritedHumanTrigger_def by (intro rg_intros)

lemma under_refresh_router_meta [rg_intros]: "stable c P \<Longrightarrow> under c P (refresh_router_meta r)"
  unfolding refresh_router_meta_def by (intro rg_intros) auto

lemma under_applyModelSwitch [rg_intros]:
  "stable c P \<Longrightarrow> under c P k \<Longrightarrow> under c P (applyModelSwitch deps r model provider by' k)"
  unfolding applyModelSwitch_def Let_def by (intro rg_intros) auto

subsection \<open>Reviving\<close>

lemma under_replay [rg_intros]: "stable c P \<Longrightarrow> under c P k \<Longrightarrow> under c P (replay deps r items k)"
  by (induction items) (simp_all add: rg_intros)

lemma under_revive_finish [rg_intros]: "stable c P \<Longrightarrow> under c P (revive_finish deps cid r pending)"
  unfolding revive_finish_def Let_def by (intro rg_intros) simp_all

lemma under_revive_requeue [rg_intros]: "stable c P \<Longrightarrow> under c P (revive_requeue deps cid r)"
  unfolding revive_requeue_def by (intro rg_intros)

lemma under_revive_started [rg_intros]: "stable c P \<Longrightarrow> under c P (revive_started deps cid r)"
  unfolding revive_started_def by (intro rg_intros core_intros)

lemma under_start_bridge [rg_intros]: "stable c P \<Longrightarrow> under c P k \<Longrightarrow> under c P (start_bridge deps n k)"
  unfolding start_bridge_def by (intro rg_intros core_intros) simp_all

lemma fine_revive_attach:
  assumes "mgr_wf s" and "own r cid s" and "c = Some cid \<Longrightarrow> \<not> isEnded s cid"
  shows "fine c (revive_attach deps cid r) s"
  unfolding revive_attach_def
  by (rule fine_build_bridge [OF assms]) (assumption | intro rg_intros under_wireEventLog | simp)+

lemma under_revive_check [rg_intros]: "under c (own r cid) (revive_check deps cid r)"
proof -
  have "fine c (if isEnded s cid
     then (if parent_of (m_objs s r) \<noteq> None then Throw (ConversationEnded cid)
           else attempt (QDestroy (e_sandbox (m_objs s r))) (Throw (ConversationEnded cid)))
     else revive_attach deps cid r) s" if s: "mgr_wf s" "own r cid s" for s
  proof (cases "isEnded s cid")
    case True
    have "under c (own r cid) (attempt (QDestroy (e_sandbox (m_objs s r))) (Throw (ConversationEnded cid)))"
      by (intro rg_intros)
    with True s show ?thesis by (simp add: under_def)
  next
    case False
    then have "fine c (revive_attach deps cid r) s" using s by (intro fine_revive_attach) auto
    with False show ?thesis by simp
  qed
  then show ?thesis unfolding revive_check_def by (intro under_Read_now) blast
qed

lemma under_the_entry_own:
  "(\<And>r. under c (own r cid) (k r)) \<Longrightarrow> under c P (the_entry cid k)"
  unfolding the_entry_def
  by (rule under_Read_now) (auto simp: under_def own_def dest: mgr_wf_lookupD split: option.split)

lemma under_revive_body [rg_intros]:
  assumes "\<And>root. always c (rr root)"
  shows "under c P (revive_body deps rr cid)"
  unfolding revive_body_def Let_def
  by (rule under_the_entry_own) (intro rg_intros always_under [OF assms] | simp add: free_intros)+

lemma under_single_flight [rg_intros]: "stable c P \<Longrightarrow> under c P body \<Longrightarrow> under c P (single_flight cid body)"
  unfolding single_flight_def by (intro rg_intros core_intros)

lemma under_revive_root [rg_intros]: "stable c P \<Longrightarrow> under c P (revive_root deps cid)"
  unfolding revive_root_def by (intro rg_intros)

lemma under_revive [rg_intros]: "stable c P \<Longrightarrow> under c P (revive deps cid)"
  unfolding revive_def by (intro rg_intros)

subsection \<open>Adoption and prompts\<close>

lemma under_mgr_prompt [rg_intros]: "stable c P \<Longrightarrow> under c P (mgr_prompt deps cid a)"
  unfolding mgr_prompt_def Let_def by (intro rg_intros)

lemma under_resume_dangling [rg_intros]: "stable c P \<Longrightarrow> under c P (resume_dangling deps cid self run)"
  unfolding resume_dangling_def Let_def by (intro rg_intros)

lemma under_settle_dangling [rg_intros]: "stable c P \<Longrightarrow> under c P (settle_dangling deps cid self dangling)"
  unfolding settle_dangling_def by (intro rg_intros)

lemma under_close_orphans [rg_intros]: "stable c P \<Longrightarrow> under c P k \<Longrightarrow> under c P (close_orphans cid os k)"
  by (induction os) (simp_all add: rg_intros)

lemma under_reconcile_body [rg_intros]: "stable c P \<Longrightarrow> under c P (reconcile_body deps cid gen)"
  unfolding reconcile_body_def Let_def by (intro rg_intros)

lemma under_reconcileDanglingRun [rg_intros]: "stable c P \<Longrightarrow> under c P (reconcileDanglingRun deps cid gen)"
  unfolding reconcileDanglingRun_def Let_def by (intro rg_intros core_intros)

text \<open>A new entry: not for a conversation that has ended.\<close>

lemma new_entry_le:
  assumes "mgr_wf s" and "e_bridge e = None"
  shows "mgr_le c s (new_entry e s)"
proof -
  have ids: "(\<lambda>r. e_id (m_objs s r)) ` {..<m_nextObj s} \<subseteq> (\<lambda>r. e_id (m_objs (new_entry e s) r)) ` {..<m_nextObj (new_entry e s)}"
    by (auto simp: new_entry_def image_iff) (metis less_SucI lessThan_iff less_not_refl2)
  have old: "m_objs (new_entry e s) r = m_objs s r" if "r < m_nextObj s" for r
    using that by (simp add: new_entry_def)
  have "entries_wf (new_entry e s)"
    using assms(1) by (fastforce simp: mgr_wf_def entries_wf_def new_entry_def lookup_def less_Suc_eq)
  moreover have "bridges_wf (new_entry e s)"
    using assms by (auto simp: mgr_wf_def bridges_wf_def new_entry_def less_Suc_eq)
  moreover have "handlers_wf (new_entry e s)"
    using assms(1) by (auto simp: mgr_wf_def handlers_wf_def new_entry_def less_Suc_eq)
  moreover have "ended_wf (new_entry e s)"
    using assms(1) ids by (auto simp: mgr_wf_def ended_wf_def new_entry_def)
  ultimately have "mgr_wf (new_entry e s)" by (simp add: mgr_wf_def)
  then show ?thesis
    using old by (auto simp: mgr_le_def new_entry_def stays_dead_def isEnded_def lookup_def)
qed

lemma set_entry_le:
  assumes "mgr_wf s" and "own r cid s" and "c = Some cid \<Longrightarrow> \<not> isEnded s cid"
  shows "mgr_le c s (set_entry cid r s)"
proof -
  have "entries_wf (set_entry cid r s)"
    using assms(1,2) by (auto simp: mgr_wf_def entries_wf_def set_entry_def lookup_def update_conv' own_def
      distinct_update split: if_splits)
  then have "mgr_wf (set_entry cid r s)"
    using assms(1) by (simp add: mgr_wf_def bridges_wf_def handlers_wf_def ended_wf_def set_entry_def)
  then show ?thesis
    using assms(3) by (auto simp: mgr_le_def set_entry_def stays_dead_def isEnded_def lookup_def update_conv')
qed

lemma fine_add:
  assumes s: "mgr_wf s" and e: "e_bridge e = None" "e_id e = cid" and live: "c = Some cid \<Longrightarrow> \<not> isEnded s cid"
    and k: "\<And>r. under c (own r cid) (k r)"
  shows "fine c (Write (new_entry e) (Write (set_entry cid (m_nextObj s)) (k (m_nextObj s)))) s"
proof -
  let ?r = "m_nextObj s"
  have le: "mgr_le c s (new_entry e s)" using s e(1) by (rule new_entry_le)
  then have wf: "mgr_wf (new_entry e s)" using s by (rule mgr_leD(1))
  have own: "own ?r cid (new_entry e s)" using e(2) by (simp add: own_def new_entry_def)
  have "c = Some cid \<Longrightarrow> \<not> isEnded (new_entry e s) cid" using live by (simp add: isEnded_def new_entry_def)
  then have le2: "mgr_le c (new_entry e s) (set_entry cid ?r (new_entry e s))"
    using set_entry_le [OF wf own] by blast
  have "fine c (k ?r) (set_entry cid ?r (new_entry e s))"
    using later [OF stable_own k wf own le2] .
  with le le2 show ?thesis by simp
qed

lemma fine_hydrateEntry:
  assumes "mgr_wf s" and "c = Some (cm_id cm) \<Longrightarrow> \<not> isEnded s (cm_id cm)" and "\<And>r. under c (own r (cm_id cm)) (k r)"
  shows "fine c (hydrateEntry cm onCluster name k) s"
  unfolding hydrateEntry_def
  using fine_add [OF assms(1), of "hydrated_entry cm onCluster name" "cm_id cm" c k] assms
  by (simp add: hydrated_entry_def)

lemma under_hydrate_adopt [rg_intros]:
  assumes "stable c P"
  shows "under c P (hydrate_adopt deps fromStore cm name onCluster)"
proof -
  have "under c (own r (cm_id cm)) (can_write (cm_id cm) (\<lambda>okay.
             if okay
             then forget (reconcileDanglingRun deps (cm_id cm) None)
                    (if fromStore then Return (VEntry (Some r))
                     else forget (saveMeta r (Return VUnit)) (Return (VEntry (Some r))))
             else Return (VEntry (Some r))))" for r
    by (intro rg_intros)
  then show ?thesis
    unfolding hydrate_adopt_def
    by (intro under_Read_now) (auto split: option.split intro!: fine_hydrateEntry)
qed

lemma under_hydrate_found [rg_intros]: "stable c P \<Longrightarrow> under c P (hydrate_found deps metas fromStore cm)"
  unfolding hydrate_found_def Let_def by (intro rg_intros)

lemma under_hydrateByThread [rg_intros]: "stable c P \<Longrightarrow> under c P (hydrateByThread deps th)"
  unfolding hydrateByThread_def Let_def by (intro rg_intros)

lemma under_ensureReadable: "stable c P \<Longrightarrow> under c P (ensureReadable deps cid)"
  unfolding ensureReadable_def by (intro rg_intros)

lemma under_reviveFromMirror: "stable c P \<Longrightarrow> under c P (reviveFromMirror deps cid gen)"
  unfolding reviveFromMirror_def Let_def by (intro rg_intros core_intros)

lemma under_queue_on [rg_intros]: "stable c P \<Longrightarrow> under c P (queue_on deps th a r)"
  unfolding queue_on_def Let_def by (intro rg_intros)

lemma under_queueByThread [rg_intros]: "stable c P \<Longrightarrow> under c P (queueByThread deps th a)"
  unfolding queueByThread_def by (intro rg_intros)

lemma under_promptByThread: "stable c P \<Longrightarrow> under c P (promptByThread deps th a)"
  unfolding promptByThread_def by (intro rg_intros)

lemma under_enqueueByThread: "stable c P \<Longrightarrow> under c P (enqueueByThread deps th t src pr)"
  unfolding enqueueByThread_def by (intro rg_intros)

lemma under_switchModelNow: "stable c P \<Longrightarrow> under c P (switchModelNow deps cid model)"
  unfolding switchModelNow_def Let_def by (intro rg_intros)

subsection \<open>Creation\<close>

lemma under_add_entry:
  assumes "e_bridge e = None" and "c \<noteq> Some (e_id e)" and "\<And>r. under c (own r (e_id e)) (k r)"
  shows "under c P (add_entry e k)"
  unfolding add_entry_def using fine_add [OF _ assms(1) refl _ assms(3)] assms(2) by (intro under_Read_now) auto

lemma under_build_bridge:
  "c \<noteq> Some cid \<Longrightarrow> under c (own r cid) k \<Longrightarrow> under c (own r cid) (build_bridge r w k)"
  unfolding under_def [of c "own r cid" "build_bridge r w k"] by (auto intro!: fine_build_bridge)

lemma under_mgr_start: "c \<noteq> Some th \<Longrightarrow> under c P (mgr_start deps th model owner vis)"
  unfolding mgr_start_def Let_def
  by (intro rg_intros under_add_entry under_build_bridge under_wireEventLog) (simp_all add: fresh_entry_def blank_entry_def)

lemma under_spawnChild: "c \<noteq> Some th \<Longrightarrow> under c P (spawnChild deps p th args)"
  unfolding spawnChild_def Let_def
  by (intro rg_intros under_add_entry under_build_bridge under_wireEventLog)
     (auto simp: child_entry_def blank_entry_def split: option.split intro: core_intros)

subsection \<open>Suspension and the end\<close>

lemma under_mgr_suspend [rg_intros]: "stable c P \<Longrightarrow> under c P (mgr_suspend deps cid)"
  unfolding mgr_suspend_def Let_def by (intro rg_intros) simp_all

lemma tombstone_le:
  assumes wf: "mgr_wf s" and r: "lookup s target = Some r"
  shows "mgr_le c s (tombstone target s)"
proof -
  let ?kept = "if length (m_ended s) \<ge> ENDED_TOMBSTONES then tl (m_ended s) else m_ended s"
  have sub: "set ?kept \<subseteq> set (m_ended s)" by (cases "m_ended s") auto
  have dist: "distinct (m_ended s)" using wf by (simp add: mgr_wf_def ended_wf_def)
  then have "distinct ?kept" by (simp add: distinct_tl)
  moreover have "target \<in> (\<lambda>r. e_id (m_objs s r)) ` {..<m_nextObj s}"
    using mgr_wf_lookupD [OF wf r] by force
  ultimately have "ended_wf (tombstone target s)"
    using wf sub by (auto simp: mgr_wf_def ended_wf_def tombstone_def Let_def)
  then have "mgr_wf (tombstone target s)"
    using wf by (simp add: mgr_wf_def entries_wf_def bridges_wf_def handlers_wf_def tombstone_def Let_def lookup_def)
  moreover have "isEnded (tombstone target s) x" if "isEnded s x" "m_nextObj s < ENDED_TOMBSTONES" for x
    using that ended_bound [OF wf] by (auto simp: isEnded_def tombstone_def Let_def)
  ultimately show ?thesis
    by (auto simp: mgr_le_def stays_dead_def tombstone_def Let_def lookup_def isEnded_def)
qed

lemma delete_entry_le:
  assumes "mgr_wf s"
  shows "mgr_le c s (delete_entry target s)"
proof -
  have "entries_wf (delete_entry target s)"
    using assms by (auto simp: mgr_wf_def entries_wf_def delete_entry_def lookup_def map_of_AList_delete
      distinct_delete split: if_splits)
  then have "mgr_wf (delete_entry target s)"
    using assms by (simp add: mgr_wf_def bridges_wf_def handlers_wf_def ended_wf_def delete_entry_def)
  then show ?thesis
    by (auto simp: mgr_le_def stays_dead_def delete_entry_def lookup_def isEnded_def map_of_AList_delete)
qed

lemma under_endSubtree: "stable c P \<Longrightarrow> under c P k \<Longrightarrow> under c P (endSubtree deps fuel target pod k)"
proof (induction fuel arbitrary: target pod k)
  case 0
  then show ?case by (simp add: under_leaf)
next
  case (Suc fuel)
  note IH = Suc.IH [OF Suc.prems(1)]
  have del: "under c P (Write (delete_entry target) p)" if "under c P p" for p
    using that delete_entry_le by (intro under_Write [OF Suc.prems(1)]) auto
  have rest: "under c P (Read (\<lambda>m.
           let children = map (\<lambda>c. e_id (m_objs m c))
                 (filter (\<lambda>c. e_parentId (m_objs m c) = Some target) (map snd (m_entries m)));
               drop =
                 change r (\<lambda>e. e\<lparr>e_bridge := None, e_status := StEnded\<rparr>)
                   (Write (delete_entry target) (request (QRemoveConversation target) (\<lambda>_. k)))
           in for_each (\<lambda>c. endSubtree deps fuel c False (Return VUnit)) children
                (attempt (QRemoveRow target)
                  (obj r (\<lambda>e. stop_bridge deps (e_bridge e)
                    (obj r (\<lambda>e. if pod then request (QDestroy (e_sandbox e)) (\<lambda>_. drop) else drop)))))))" for r
    unfolding Let_def by (intro rg_intros del IH Suc.prems) simp_all
  show ?case
  proof (unfold endSubtree.simps, rule under_Read_now, goal_cases)
    case (1 s)
    show ?case
    proof (cases "lookup s target")
      case None
      with 1 Suc.prems(2) show ?thesis by (simp add: under_def)
    next
      case (Some r)
      show ?thesis
        unfolding Some option.case by (rule fine_Write [where P = P and f = "tombstone target", OF 1 Suc.prems(1) tombstone_le [OF 1(1) Some] rest])
    qed
  qed
qed

lemma under_mgr_end [rg_intros]: "stable c P \<Longrightarrow> under c P (mgr_end deps cid)"
  unfolding mgr_end_def by (intro rg_intros under_endSubtree)

subsection \<open>Sandbox controls, titles, visibility\<close>

lemma under_refreshSandbox: "stable c P \<Longrightarrow> under c P (refreshSandbox cid)"
  unfolding refreshSandbox_def Let_def by (intro rg_intros core_intros) simp_all

lemma under_await_idle [rg_intros]: "stable c P \<Longrightarrow> under c P k \<Longrightarrow> under c P (await_idle n r k)"
  by (induction n) (simp_all add: rg_intros)

lemma under_finishDeferredStop [rg_intros]: "stable c P \<Longrightarrow> under c P (finishDeferredStop deps r)"
  unfolding finishDeferredStop_def by (intro rg_intros) simp_all

lemma under_pendingRestart: "stable c P \<Longrightarrow> under c P (pendingRestart cid)"
  unfolding pendingRestart_def by (intro rg_intros)

lemma under_live_entry [rg_intros]: "(\<And>r. under c P (k r)) \<Longrightarrow> under c P (live_entry cid k)"
  unfolding live_entry_def by (intro rg_intros)

lemma under_the_root [rg_intros]: "(\<And>r. under c P (k r)) \<Longrightarrow> under c P (the_root cid r k)"
  unfolding the_root_def by (intro rg_intros)

lemma under_unless_busy [rg_intros]: "under c P k \<Longrightarrow> under c P (unless_busy root cid k)"
  unfolding unless_busy_def by (intro rg_intros)

lemma under_cycled [rg_intros]: "stable c P \<Longrightarrow> under c P k \<Longrightarrow> under c P (cycled root k)"
  unfolding cycled_def by (intro rg_intros core_intros)

lemma under_restartSandbox: "stable c P \<Longrightarrow> under c P (restartSandbox deps cid)"
  unfolding restartSandbox_def by (intro rg_intros core_intros)

lemma under_restart_running [rg_intros]: "stable c P \<Longrightarrow> under c P (restart_running deps root was)"
  unfolding restart_running_def by (intro rg_intros)

lemma under_stopSandbox: "stable c P \<Longrightarrow> under c P (stopSandbox deps cid)"
  unfolding stopSandbox_def Let_def by (intro rg_intros) simp_all

lemma under_noteSandboxResumed: "stable c P \<Longrightarrow> under c P (noteSandboxResumed cid)"
  unfolding noteSandboxResumed_def by (intro rg_intros core_intros)

lemma under_touchById: "stable c P \<Longrightarrow> under c P (touchById cid)"
  unfolding touchById_def by (intro rg_intros) (auto split: option.split intro: core_intros)

lemma under_getByShortId: "stable c P \<Longrightarrow> under c P (getByShortId deps h)"
  unfolding getByShortId_def by (intro rg_intros)

lemma under_setTitle: "stable c P \<Longrightarrow> under c P (setTitle cid t forced)"
  unfolding setTitle_def Let_def by (intro rg_intros) simp_all

lemma under_refreshRouterMeta: "stable c P \<Longrightarrow> under c P (refreshRouterMeta cid)"
  unfolding refreshRouterMeta_def by (intro rg_intros)

lemma under_set_visibilities [rg_intros]: "stable c P \<Longrightarrow> under c P k \<Longrightarrow> under c P (set_visibilities vis ts k)"
proof (induction ts)
  case (Cons t ts)
  then show ?case unfolding set_visibilities.simps by (intro rg_intros) simp_all
qed simp

lemma under_setVisibility: "stable c P \<Longrightarrow> under c P (setVisibility cid vis)"
  unfolding setVisibility_def by (intro rg_intros)

subsection \<open>Boot and sweeps\<close>

lemma under_for_live [rg_intros]:
  "stable c P \<Longrightarrow> (\<And>r v. under c P (f r v)) \<Longrightarrow> (\<And>v. under c P (k v)) \<Longrightarrow> under c P (for_live n visited f v k)"
proof (induction n arbitrary: visited v)
  case (Suc n)
  then show ?case unfolding for_live.simps by (intro rg_intros) simp_all
qed simp

lemma under_interrupted_candidate [rg_intros]: "stable c P \<Longrightarrow> under c P (interrupted_candidate r v)"
  unfolding interrupted_candidate_def Let_def by (intro rg_intros)

lemma under_resume_worker [rg_intros]: "stable c P \<Longrightarrow> under c P (resume_worker deps n)"
proof (induction n)
  case (Suc n)
  then show ?case unfolding resume_worker.simps by (intro rg_intros core_intros)
qed (simp add: rg_intros)

lemma under_run_workers [rg_intros]: "stable c P \<Longrightarrow> under c P k \<Longrightarrow> under c P (run_workers deps len n k)"
proof (induction n arbitrary: k)
  case (Suc n)
  show ?case unfolding run_workers.simps by (intro rg_intros Suc.IH Suc.prems)
qed simp

lemma under_resumeInterrupted: "stable c P \<Longrightarrow> under c P (resumeInterrupted deps k)"
  unfolding resumeInterrupted_def by (intro rg_intros core_intros)

lemma under_idle_suspend [rg_intros]: "stable c P \<Longrightarrow> under c P (idle_suspend deps r v)"
  unfolding idle_suspend_def Let_def by (intro rg_intros)

lemma under_sweep_one [rg_intros]: "stable c P \<Longrightarrow> under c P (sweep_one deps ms now r v)"
  unfolding sweep_one_def Let_def
  by (intro rg_intros) (auto split: sum.split mgr_response.split option.split)

lemma under_sweepIdle [rg_intros]: "stable c P \<Longrightarrow> under c P (sweepIdle deps ms now)"
  unfolding sweepIdle_def by (intro rg_intros)

lemma under_reap [rg_intros]: "stable c P \<Longrightarrow> under c P (reap deps rs v)"
proof (induction rs arbitrary: v)
  case (Cons r rs)
  then show ?case unfolding reap.simps by (intro rg_intros)
qed (simp add: rg_intros)

lemma under_sweepRetention [rg_intros]: "stable c P \<Longrightarrow> under c P (sweepRetention deps ms now)"
  unfolding sweepRetention_def by (intro rg_intros)

lemma under_run_posted: "stable c P \<Longrightarrow> under c P (run_posted deps)"
  unfolding run_posted_def by (intro rg_intros core_intros) (auto split: posted.split intro!: rg_intros)

lemma under_bridge_moves: "stable c P \<Longrightarrow> under c P (bridge_moves deps n i)"
  unfolding bridge_moves_def by (intro rg_intros)

lemma fine_adopt_metas:
  assumes "mgr_wf s" and "\<And>s. mgr_wf s \<Longrightarrow> fine None k s"
  shows "fine None (adopt_metas lineage ss cms k) s"
  using assms(1)
proof (induction cms arbitrary: s)
  case Nil
  then show ?case using assms(2) by simp
next
  case (Cons cm cms)
  have rest: "always None (adopt_metas lineage ss cms k)" using Cons.IH by (simp add: under_def)
  have "under None (own r (cm_id cm)) (obj r (\<lambda>e.
            if e_status e = StSuspended
            then can_write (e_id e) (\<lambda>okay.
                   if okay then tell (QSetPhase (e_id e) PhaseSuspended) (adopt_metas lineage ss cms k)
                   else adopt_metas lineage ss cms k)
            else adopt_metas lineage ss cms k))" for r
    by (intro rg_intros always_under [OF rest])
  then show ?case
    using Cons by (auto simp: Let_def intro!: fine_hydrateEntry)
qed

lemma fine_adopt_records:
  assumes "mgr_wf s"
  shows "fine None (adopt_records metas lineage ss cs (Return v)) s"
  using assms
proof (induction cs arbitrary: s)
  case (Cons c cs)
  have rest: "always None (adopt_records metas lineage ss cs (Return v))" using Cons.IH by (simp add: under_def)
  have id: "cm_id (adopted_meta metas now c) = rc_id c" for now
    by (auto simp: adopted_meta_def meta_of_record_def Let_def find_Some_iff split: option.split)
  have "under None (own r (rc_id c)) (Write (set_entry (rc_id c) r) (adopt_records metas lineage ss cs (Return v)))" for r
    using set_entry_le by (intro under_Write [OF stable_own] always_under [OF rest]) auto
  then show ?case
    using Cons by (auto simp: Let_def id intro!: fine_hydrateEntry)
qed simp

lemma under_reconcile_retry:
  "(\<And>ss. always None (k ss)) \<Longrightarrow> always None (reconcile_retry n tried k)"
  by (induction n tried k rule: reconcile_retry.induct) (auto intro!: rg_intros)

lemma under_hydrate: "always None (hydrate deps)"
proof -
  have records: "always None (adopt_records metas lineage ss cs (Return v))" for metas lineage ss cs v
    using fine_adopt_records by (simp add: under_def)
  then have "always None (adopt_metas lineage ss cms (adopt_records metas lineage ss cs (Return v)))"
    for metas lineage ss cs v cms
    using fine_adopt_metas by (simp add: under_def)
  then show ?thesis
    unfolding hydrate_def Let_def by (intro rg_intros under_reconcile_retry)
qed

subsection \<open>Every operation\<close>

text \<open>The calls that may bring conversation \<open>c\<close> into being: its creation, and a boot.\<close>

definition creates :: "session_id \<Rightarrow> mgr_call \<Rightarrow> bool" where
  "creates c x = (case x of OpStart th _ _ _ \<Rightarrow> th = c | OpSpawnChild _ th _ \<Rightarrow> th = c | OpHydrate \<Rightarrow> True | _ \<Rightarrow> False)"

lemmas under_ops = under_mgr_start under_spawnChild under_revive under_reviveFromMirror under_reconcileDanglingRun
  under_relinquish under_stopLocalRun under_ensureReadable under_refreshSandbox under_mgr_prompt under_promptByThread
  under_enqueueByThread under_switchModelNow under_pendingRestart under_restartSandbox under_stopSandbox
  under_noteSandboxResumed under_mgr_suspend under_mgr_end under_touchById under_getByShortId under_setTitle
  under_refreshRouterMeta under_setVisibility under_resumeInterrupted under_sweepIdle under_sweepRetention
  under_run_posted under_bridge_moves under_clock

lemma always_mgr_op: "(\<And>cid. c = Some cid \<Longrightarrow> \<not> creates cid x) \<Longrightarrow> always c (mgr_op deps x)"
proof (cases x)
  case OpHydrate
  moreover assume "\<And>cid. c = Some cid \<Longrightarrow> \<not> creates cid x"
  ultimately show ?thesis by (cases c) (auto simp: creates_def under_hydrate)
qed (auto simp: creates_def intro!: under_ops stable_True under_Write_core under_leaf core_intros)

end
