(* ===== verification/Session_Histories.thy ===== *)
theory Session_Histories
  imports Session_Guarantee Bridge_Histories
begin

text \<open>
  The session manager's properties over whole histories: the state is always well formed and an ended
  conversation stays ended, whatever overlaps; and, by evaluation, histories in which operations that
  overlap go wrong.
\<close>

subsection \<open>Evaluating a history\<close>

text \<open>
  A host without optional parts, a Sandbox, and the congruences that keep the simplifier out of the
  continuations of a program until they run.
\<close>

definition host :: manager_deps where
  "host = \<lparr>md_selfPod = Some ''pod-0'', md_bridgeDeps = (\<lambda>_. plain_deps), md_handoffGraceMs = 0, md_jobProbe = False,
     md_canRestart = True, md_fuel = Suc (Suc 0)\<rparr>"

definition sb :: sandbox_ref where
  "sb = \<lparr>sr_name = ''conv-a'', sr_namespace = ''ns'', sr_podIP = None\<rparr>"

definition fresh_host :: mgr_loop where
  "fresh_host = new_loop (createSessionManager None)"

lemmas loop_defs = mgr_run_def fresh_host_def new_loop_def createSessionManager_def host_def sb_def continue_def request_def
  answer_fits_def lookup_def set_entry_def delete_entry_def upd_entry_def new_entry_def upd_bridge_def new_bridge_def
  the_entry_def obj_def change_def clock_def forget_def tell_def can_write_def guard_canWrite_def attempt_def saveMeta_def
  touch_def post_def isEnded_def tombstone_def ENDED_TOMBSTONES_def meta_of_def parent_of_def Conversation_Registry.truthy_def
  with_bridge_def wireEventLog_def build_bridge_def say_to_def await_run_def stop_bridge_def placeholder_ref_def
  entry_spec_def blank_entry_def blank_bridge_def on_persist_def

lemma lazy_congs:
  "Read k = Read k" "Write f p = Write f p" "Spawn p n = Spawn p n" "Join j jk = Join j jk"
  by (rule refl)+

lemma lazy_steps:
  "obj r k1 = obj r k1" "change r f p = change r f p" "clock k2 = clock k2" "forget p p2 = forget p p2" "tell q p = tell q p"
  "can_write i k3 = can_write i k3" "attempt q p = attempt q p" "saveMeta r p = saveMeta r p" "touch r p = touch r p"
  "the_entry i k4 = the_entry i k4" "request q k5 = request q k5" "with_bridge d n g p = with_bridge d n g p"
  "wireEventLog r p = wireEventLog r p" "build_bridge r b p = build_bridge r b p" "say_to d r inp a c k6 = say_to d r inp a c k6"
  "stop_bridge d nb p = stop_bridge d nb p" "single_flight i p = single_flight i p" "on_persist r e p = on_persist r e p"
  "start_bridge d n p = start_bridge d n p" "hydrateEntry cm oc nm k7 = hydrateEntry cm oc nm k7"
  "applyModelSwitch d r mo pr by' p = applyModelSwitch d r mo pr by' p" "await_run ru p = await_run ru p"
  "add_entry en k8 = add_entry en k8"
  by (rule refl)+

lemma replay_lazy: "items = items' \<Longrightarrow> replay d r items p = replay d r items' p" by simp
lemma close_orphans_lazy: "os = os' \<Longrightarrow> close_orphans i os p = close_orphans i os' p" by simp
lemma endSubtree_lazy: "fu = fu' \<Longrightarrow> endSubtree d fu i b p = endSubtree d fu' i b p" by simp
lemma Await_lazy: "q = q' \<Longrightarrow> Await q k = Await q' k" by simp
lemma bind_lazy: "p = p' \<Longrightarrow> bind p f = bind p' f" by simp
lemma settle_lazy: "p = p' \<Longrightarrow> settle p f g = settle p' f g" by simp
lemmas lazy = lazy_congs lazy_steps Await_lazy bind_lazy settle_lazy replay_lazy close_orphans_lazy endSubtree_lazy let_weak_cong

definition born :: "(mgr_call, mgr_error, mgr_response) event list" where
 "born = [Call (OpStart ''a'' None None Shared), Answer 0 (Inr ROk), Answer 0 (Inr ROk), Answer 0 (Inr (RRef sb)), Answer 0 (Inr ROk)]"

lemmas start_defs = born_def mgr_start_def fresh_entry_def add_entry_def
lemmas revive_defs = revive_def revive_root_def single_flight_def revive_body_def revive_check_def revive_attach_def start_bridge_def
  revive_started_def revive_requeue_def revive_finish_def loggedUserTexts_def
lemmas prompt_defs = mgr_prompt_def applyModelSwitch_def plain_prompt_def input_of_def
lemmas stop_defs = mgr_suspend_def drainQueue_def bridge_stop_def close_sessions_def

definition adopted :: "drained_item list \<Rightarrow> (mgr_call, mgr_error, mgr_response) event list" where
 "adopted q = [Call (OpEnsureReadable ''a''), Answer 0 (Inr (RMetas [(meta_of blank_entry)\<lparr>cm_id := ''a'', cm_threadId := ''a'', cm_pendingQueue := Some q\<rparr>])),
    Answer 0 (Inr (RSandboxes []))]"

lemmas adopt_defs = adopted_def ensureReadable_def hydrateByThread_def hydrate_found_def hydrate_adopt_def hydrateEntry_def hydrated_entry_def
  reconcileDanglingRun_def reconcile_body_def

definition queued_note :: drained_item where
 "queued_note = \<lparr>dr_text = ''please fix it'', dr_priority = 0, dr_source = None, dr_humanInitiated = None\<rparr>"

subsection \<open>Well-formed, whatever happens\<close>

lemma mgr_run_moves:
  assumes "mgr_run deps xs c = Some c'" and "loop_ok (mgr_le k) mgr_req c" and "mgr_wf (lp_state c)"
    and "\<And>cid x. k = Some cid \<Longrightarrow> Call x \<in> set xs \<Longrightarrow> \<not> creates cid x"
  shows "rg.moves k c c'"
proof (rule rg.loop_run_moves)
  show "loop_run answer_fits (mgr_op deps) xs c = Some c'" using assms(1) by (simp add: mgr_run_def)
  show "loop_ok (mgr_le k) mgr_req c" by (rule assms(2))
  show "fine k (mgr_op deps x) s" if "Call x \<in> set xs" "mgr_le k (lp_state c) s" for x s
    using always_mgr_op [of k x deps] that assms(3,4) mgr_leD(1) by (simp add: under_def)
qed

lemma mgr_run_wf:
  assumes "mgr_run deps xs (new_loop (createSessionManager guard)) = Some c"
  shows "mgr_wf (lp_state c)"
proof -
  have "rg.moves None (new_loop (createSessionManager guard)) c"
    using assms by (rule mgr_run_moves) (simp_all add: new_loop_def loop_ok_def)
  then show ?thesis by (simp add: rg.moves_def new_loop_def mgr_le_def)
qed

text \<open>
  C6 (type). Whatever is called, in whatever order the answers come, the manager's state is well
  formed: the map has one entry per id, each under its own id, the bridge an entry refers to was
  built for that conversation, a bridge's events are handled for an entry of its own conversation,
  and the tombstones are distinct ids of conversations that had an entry.
\<close>

theorem manager_well_formed:
  assumes "mgr_run deps xs (new_loop (createSessionManager guard)) = Some c"
  shows "entries_wf (lp_state c) \<and> bridges_wf (lp_state c) \<and> handlers_wf (lp_state c) \<and> ended_wf (lp_state c)"
  using mgr_run_wf [OF assms] by (simp add: mgr_wf_def)

lemma born_runs: "mgr_run host born fresh_host \<noteq> None"
  by (simp add: loop_defs start_defs Let_def cong: lazy)

theorem manager_well_formed_witness:
  "\<exists>c. mgr_run host born (new_loop (createSessionManager None)) = Some c
     \<and> entries_wf (lp_state c) \<and> bridges_wf (lp_state c) \<and> handlers_wf (lp_state c) \<and> ended_wf (lp_state c)"
proof -
  obtain c where "mgr_run host born (new_loop (createSessionManager None)) = Some c"
    using born_runs by (auto simp: fresh_host_def)
  with manager_well_formed [OF this] show ?thesis by blast
qed

subsection \<open>An ended conversation stays ended\<close>

definition saves :: "session_id \<Rightarrow> mgr_request \<Rightarrow> bool" where
  "saves cid q = (case q of QSaveMeta cm \<Rightarrow> cm_id cm = cid | _ \<Rightarrow> False)"

lemma no_saves_after_end:
  assumes "issues_ok (mgr_le (Some cid)) mgr_req c c'" and "mgr_wf (lp_state c)" and "isEnded (lp_state c) cid"
    and "m_nextObj (lp_state c') < ENDED_TOMBSTONES"
  shows "filter (saves cid) (lp_issued c') = filter (saves cid) (lp_issued c)"
proof -
  obtain qs where qs: "lp_issued c' = lp_issued c @ qs"
      "\<forall>q \<in> set qs. \<exists>s. mgr_le (Some cid) (lp_state c) s \<and> mgr_le (Some cid) s (lp_state c') \<and> mgr_req s q"
    using assms(1) by (auto simp: issues_ok_def)
  have "\<not> saves cid q" if q: "q \<in> set qs" for q
  proof -
    obtain s where s: "mgr_le (Some cid) (lp_state c) s" "mgr_le (Some cid) s (lp_state c')" "mgr_req s q"
      using qs(2) q by blast
    have "m_nextObj s < ENDED_TOMBSTONES"
      using mgr_leD(2) [OF s(2) mgr_leD(1) [OF s(1) assms(2)]] assms(4) by linarith
    then have "isEnded s cid" using s(1) assms(2,3) by (auto simp: mgr_le_def stays_dead_def)
    then show ?thesis using s(3) by (auto simp: saves_def mgr_req_def split: mgr_request.splits)
  qed
  then show ?thesis using qs(1) by simp
qed

text \<open>
  C5 (safety). A conversation that is not created since some moment at which nothing was in flight, by
  \<^verbatim>\<open>start\<close>, as a subagent or by a boot, and that is ended after it, stays ended in that process: whatever else is
  called, before the end or after it, and whatever was awaiting something when the end came, it does
  not come back into the map, no bridge is built for it and its metadata is not saved again, as long
  as the process has had fewer than \<^const>\<open>ENDED_TOMBSTONES\<close> entries. Without these conditions it is not so:
  an end that overtakes the creation of the conversation leaves it a bridge
  (\<^verbatim>\<open>end_during_start_leaks_sandbox\<close> below), and the oldest tombstones are forgotten beyond that number.
\<close>

theorem ended_stays_ended:
  assumes "mgr_run deps boot (new_loop (createSessionManager guard)) = Some c0" and "lp_tasks c0 = []"
    and "mgr_run deps xs c0 = Some c1" and "isEnded (lp_state c1) cid"
    and "mgr_run deps ys c1 = Some c2" and "m_nextObj (lp_state c2) < ENDED_TOMBSTONES"
    and "\<And>x. Call x \<in> set (xs @ ys) \<Longrightarrow> \<not> creates cid x"
  shows "isEnded (lp_state c2) cid \<and> (lookup (lp_state c1) cid = None \<longrightarrow> lookup (lp_state c2) cid = None)
    \<and> (\<forall>n. m_nextBridge (lp_state c1) \<le> n \<and> n < m_nextBridge (lp_state c2) \<longrightarrow>
          ba_conversationId (bo_args (m_bridges (lp_state c2) n)) \<noteq> cid)
    \<and> filter (saves cid) (lp_issued c2) = filter (saves cid) (lp_issued c1)"
proof -
  have wf0: "mgr_wf (lp_state c0)" by (rule mgr_run_wf [OF assms(1)])
  have m1: "rg.moves (Some cid) c0 c1"
    using assms(2,7) by (intro mgr_run_moves [OF assms(3) _ wf0]) (auto simp: loop_ok_def)
  then have wf1: "mgr_wf (lp_state c1)" using wf0 mgr_leD(1) by (auto simp: rg.moves_def)
  have m2: "rg.moves (Some cid) c1 c2"
    using m1 assms(7) by (intro mgr_run_moves [OF assms(5) _ wf1]) (auto simp: rg.moves_def)
  then have "stays_dead cid (lp_state c1) (lp_state c2)"
    using wf1 assms(4,6) by (auto simp: rg.moves_def mgr_le_def)
  moreover have "filter (saves cid) (lp_issued c2) = filter (saves cid) (lp_issued c1)"
    using m2 wf1 assms(4,6) by (intro no_saves_after_end) (auto simp: rg.moves_def)
  ultimately show ?thesis by (simp add: stays_dead_def)
qed

text \<open>A prompt is reviving the conversation, its Sandbox being created, when the conversation is ended.\<close>

definition ended_midway :: "(mgr_call, mgr_error, mgr_response) event list" where
  "ended_midway = adopted [] @ [Call (OpPrompt ''a'' (plain_prompt ''hello'' None)), Answer 2 (Inr ROk),
     Call (OpEnd ''a''), Answer 5 (Inr ROk), Answer 5 (Inr ROk), Answer 5 (Inr ROk), Answer 5 (Inr ROk)]"

definition sandbox_comes_up :: "(mgr_call, mgr_error, mgr_response) event list" where
  "sandbox_comes_up = [Answer 4 (Inr (RRef sb)), Answer 4 (Inr ROk), Deliver 2]"

lemmas end_defs = mgr_end_def bridge_stop_def close_sessions_def drainQueue_def

lemma ended_midway_runs:
  "\<exists>c1 c2. mgr_run host ended_midway fresh_host = Some c1 \<and> isEnded (lp_state c1) ''a'' \<and> lookup (lp_state c1) ''a'' = None
     \<and> mgr_run host sandbox_comes_up c1 = Some c2 \<and> m_nextObj (lp_state c2) < ENDED_TOMBSTONES"
  by (simp add: loop_defs ended_midway_def sandbox_comes_up_def adopt_defs prompt_defs revive_defs end_defs Let_def cong: lazy)

theorem ended_stays_ended_witness:
  "\<exists>c1 c2. mgr_run host ended_midway fresh_host = Some c1 \<and> isEnded (lp_state c1) ''a''
     \<and> mgr_run host sandbox_comes_up c1 = Some c2 \<and> isEnded (lp_state c2) ''a'' \<and> lookup (lp_state c2) ''a'' = None
     \<and> filter (saves ''a'') (lp_issued c2) = filter (saves ''a'') (lp_issued c1)"
proof -
  obtain c1 c2 where runs: "mgr_run host ended_midway fresh_host = Some c1" "isEnded (lp_state c1) ''a''"
      "lookup (lp_state c1) ''a'' = None" "mgr_run host sandbox_comes_up c1 = Some c2"
      "m_nextObj (lp_state c2) < ENDED_TOMBSTONES"
    using ended_midway_runs by blast
  have boot: "mgr_run host [] (new_loop (createSessionManager None)) = Some fresh_host"
    by (simp add: mgr_run_def fresh_host_def)
  have quiet: "lp_tasks fresh_host = []" by (simp add: fresh_host_def new_loop_def)
  have calls: "\<not> creates ''a'' x" if "Call x \<in> set (ended_midway @ sandbox_comes_up)" for x
    using that by (auto simp: ended_midway_def sandbox_comes_up_def adopted_def creates_def)
  show ?thesis
    using ended_stays_ended [OF boot quiet runs(1,2,4,5) calls] runs by blast
qed

subsection \<open>Overlaps that go wrong\<close>

text \<open>
  A conversation that is ended while \<^verbatim>\<open>start\<close> is creating its Sandbox: \<^verbatim>\<open>end\<close> deletes the placeholder,
  \<^verbatim>\<open>start\<close> then builds a bridge and returns, and the Sandbox that was created is never destroyed.
\<close>

definition ended_while_starting :: "(mgr_call, mgr_error, mgr_response) event list" where
  "ended_while_starting = [Call (OpStart ''a'' None None Shared), Answer 0 (Inr ROk), Answer 0 (Inr ROk),
     Call (OpEnd ''a''), Answer 1 (Inr ROk), Answer 1 (Inr ROk), Answer 1 (Inr ROk), Answer 1 (Inr ROk),
     Answer 0 (Inr (RRef sb)), Answer 0 (Inr ROk)]"

theorem end_during_start_leaks_sandbox:
  "\<exists>c. mgr_run host ended_while_starting fresh_host = Some c \<and> lp_tasks c = []
     \<and> isEnded (lp_state c) ''a'' \<and> lookup (lp_state c) ''a'' = None
     \<and> bo_args (m_bridges (lp_state c) 0) = \<lparr>ba_conversationId = ''a'', ba_sandbox = sb, ba_model = None,
          ba_pickedProvider = None, ba_owner = None\<rparr>
     \<and> \<not> b_closed (bo_bridge (m_bridges (lp_state c) 0)) \<and> QDestroy sb \<notin> set (lp_issued c)"
  by (simp add: loop_defs ended_while_starting_def start_defs end_defs Let_def createSessionBridge_def cong: lazy)

text \<open>
  A revive of a conversation that has a bridge, as the resume and compact endpoints ask for it: the
  entry gets a second bridge, the first is never stopped and its events still reach the entry's log.
\<close>

theorem revive_keeps_old_bridge:
  "\<exists>c. mgr_run host (born @ [Call (OpRevive ''a''), Answer 2 (Inr (RRef sb)), Answer 2 (Inr ROk)]) fresh_host = Some c
     \<and> e_bridge (m_objs (lp_state c) 0) = Some 1
     \<and> \<not> b_closed (bo_bridge (m_bridges (lp_state c) 0)) \<and> bo_entry (m_bridges (lp_state c) 0) = Some 0
     \<and> bo_entry (m_bridges (lp_state c) 1) = Some 0 \<and> QBridgeStop 0 \<notin> set (lp_issued c)"
  by (simp add: loop_defs start_defs revive_defs Let_def createSessionBridge_def cong: lazy)

text \<open>
  A conversation with a queued message is suspended while its revive is storing the emptied queue:
  the revive returns normally, with the message neither queued on a bridge, nor logged, nor kept for
  the next revive.
\<close>

definition suspended_while_reviving :: "(mgr_call, mgr_error, mgr_response) event list" where
  "suspended_while_reviving = adopted [queued_note] @ [Call (OpRevive ''a''), Answer 3 (Inr (RRef sb)), Answer 3 (Inr ROk),
     Answer 3 (Inr (RSession (plain_env 1))), Answer 3 (Inr (REvents [])), Call (OpSuspend ''a''),
     Answer 5 (Inr ROk), Answer 5 (Inr ROk), Answer 3 (Inr ROk), Deliver 2]"

theorem suspend_during_revive_loses_message:
  "\<exists>c e. mgr_run host suspended_while_reviving fresh_host = Some c
     \<and> e_bridge (m_objs (lp_state c) 0) = None \<and> e_pendingQueue (m_objs (lp_state c) 0) = Some []
     \<and> b_queue (bo_bridge (m_bridges (lp_state c) 0)) = [] \<and> b_batch (bo_bridge (m_bridges (lp_state c) 0)) = []
     \<and> b_log (bo_bridge (m_bridges (lp_state c) 0)) = [] \<and> map_of (lp_done c) 2 = Some (Inr (VConv e))"
  by (simp add: loop_defs suspended_while_reviving_def adopt_defs queued_note_def revive_defs stop_defs resolveForRun_def
      run_defs Let_def cong: lazy)

end
