(* ===== verification/Session_Names.thy ===== *)
theory Session_Names
  imports Session_Histories
begin

text \<open>
  The names of sandboxes and the trees of conversations: \<^verbatim>\<open>shortId\<close> is a safe label of at most six
  characters that tells apart exactly what its hash tells apart, and a change of visibility reaches
  exactly the conversation and its descendants.
\<close>

subsection \<open>Numbers in base 36\<close>

lemma digit36_inj: "d < 36 \<Longrightarrow> d' < 36 \<Longrightarrow> digit36 d = digit36 d' \<longleftrightarrow> d = d'"
  by (auto simp: digit36_def char_of_eq_iff take_bit_nat_eq_self split: if_splits)

lemma digit36_range:
  assumes "d < 36"
  shows "of_char (digit36 d) \<in> {48 ..< 58} \<union> {97 ..< (123 :: nat)}"
  using assms by (auto simp: digit36_def)

lemma toString36_small: "n < 36 \<Longrightarrow> toString36 n = [digit36 n]"
  by (simp add: toString36.simps)

lemma toString36_nonempty: "toString36 n \<noteq> []" "[] \<noteq> toString36 n"
  by (subst toString36.simps, simp)+

lemma toString36_large: "\<not> n < 36 \<Longrightarrow> toString36 n = toString36 (n div 36) @ [digit36 (n mod 36)]"
  by (subst toString36.simps) simp

lemma toString36_range: "c \<in> set (toString36 n) \<Longrightarrow> of_char c \<in> {48 ..< 58} \<union> {97 ..< (123 :: nat)}"
proof (induction n rule: toString36.induct)
  case (1 n)
  then show ?case
    using digit36_range [of n] digit36_range [of "n mod 36"]
    by (cases "n < 36") (auto simp: toString36_small toString36_large)
qed

lemma toString36_length: "n < 36 ^ Suc k \<Longrightarrow> length (toString36 n) \<le> Suc k"
proof (induction k arbitrary: n)
  case 0
  then show ?case by (simp add: toString36_small)
next
  case (Suc k)
  then have "n div 36 < 36 ^ Suc k" by (simp add: less_mult_imp_div_less mult.commute)
  with Suc.IH show ?case by (cases "n < 36") (auto simp: toString36_small toString36_large)
qed

lemma toString36_inj: "toString36 m = toString36 n \<longleftrightarrow> m = n"
proof (induction m arbitrary: n rule: toString36.induct)
  case (1 m)
  show ?case
  proof (cases "m < 36"; cases "n < 36")
    assume "\<not> m < 36" "\<not> n < 36"
    moreover have "m mod 36 < 36" "n mod 36 < 36" by simp_all
    ultimately have "toString36 m = toString36 n \<longleftrightarrow> m div 36 = n div 36 \<and> m mod 36 = n mod 36"
      using 1 digit36_inj by (simp add: toString36_large)
    then show ?thesis by (metis div_mult_mod_eq)
  qed (auto simp: toString36_small toString36_large digit36_inj toString36_nonempty)
qed

subsection \<open>Names of sandboxes\<close>

lemma abs_sint_32: "nat \<bar>sint (w :: 32 word)\<bar> \<le> 2 ^ 31"
  using sint_ge [of w] sint_lt [of w] by simp

text \<open>
  The short id of a thread is a DNS label: between one and six characters, digits and lower
  case letters only.
\<close>

theorem shortId_is_label:
  "1 \<le> length (shortId threadId) \<and> length (shortId threadId) \<le> 6
   \<and> list_all (\<lambda>c. of_char c \<in> {48 ..< 58} \<union> {97 ..< (123 :: nat)}) (shortId threadId)"
proof -
  let ?n = "nat \<bar>sint (short_hash threadId)\<bar>"
  have "?n \<le> 2 ^ 31" by (rule abs_sint_32)
  also have "(2 :: nat) ^ 31 < 36 ^ Suc 5" by simp
  finally have "length (toString36 ?n) \<le> Suc 5" by (rule toString36_length)
  moreover have "1 \<le> length (toString36 ?n)" using toString36_nonempty [of ?n] by (cases "toString36 ?n") simp_all
  moreover have "list_all (\<lambda>c. of_char c \<in> {48 ..< 58} \<union> {97 ..< (123 :: nat)}) (toString36 ?n)"
    using toString36_range by (auto simp: list_all_iff)
  ultimately show ?thesis by (simp add: shortId_def)
qed

lemma sint_32_eq_neg:
  fixes v w :: "32 word"
  shows "sint v = sint w \<or> sint v = - sint w \<longleftrightarrow> v = w \<or> v = - w"
proof
  assume "sint v = sint w \<or> sint v = - sint w"
  then show "v = w \<or> v = - w"
  proof
    assume "sint v = - sint w"
    then have "v = of_int (- sint w)" by (metis of_int_sint scast_id)
    then show ?thesis by simp
  qed (simp add: signed_word_eqI)
next
  assume "v = w \<or> v = - w"
  moreover have "sint (- w) = - sint w \<or> - w = w"
  proof (cases "sint w = - (2 ^ 31)")
    case True
    then have "w = of_int (- (2 ^ 31))" by (metis of_int_sint scast_id)
    then show ?thesis by simp
  next
    case False
    then have "- (2 ^ 31) \<le> - sint w \<and> - sint w < 2 ^ 31" using sint_ge [of w] sint_lt [of w] by simp
    then show ?thesis by (simp add: sint_word_ariths signed_take_bit_int_eq_self)
  qed
  ultimately show "sint v = sint w \<or> sint v = - sint w" by metis
qed

text \<open>
  Two threads get the same sandbox name exactly when their 32-bit hashes agree up to sign.
\<close>

theorem conv_name_collides_iff:
  "conv_name a = conv_name b \<longleftrightarrow> short_hash a = short_hash b \<or> short_hash a = - short_hash b"
proof -
  have "conv_name a = conv_name b \<longleftrightarrow> \<bar>sint (short_hash a)\<bar> = \<bar>sint (short_hash b)\<bar>"
    by (simp add: conv_name_def shortId_def toString36_inj nat_eq_iff)
  also have "\<dots> \<longleftrightarrow> sint (short_hash a) = sint (short_hash b) \<or> sint (short_hash a) = - sint (short_hash b)"
    by linarith
  also have "\<dots> \<longleftrightarrow> short_hash a = short_hash b \<or> short_hash a = - short_hash b"
    by (rule sint_32_eq_neg)
  finally show ?thesis .
qed

theorem uuids_share_sandbox:
  "conv_name ''2bf1717d-be67-46dc-8c7f-e8ace5ead5b2'' = conv_name ''01cc71d8-0e19-47a4-b1a9-f62c44a0b70c''"
proof -
  have "short_hash ''2bf1717d-be67-46dc-8c7f-e8ace5ead5b2'' = - 346848153"
    by (simp add: short_hash_def)
  moreover have "short_hash ''01cc71d8-0e19-47a4-b1a9-f62c44a0b70c'' = 346848153"
    by (simp add: short_hash_def)
  ultimately show ?thesis by (simp add: conv_name_collides_iff)
qed

subsection \<open>The tree of a conversation\<close>

text \<open>Parent and child, among entries given by their id and parent id; an empty parent id counts as none.\<close>

definition child_rel :: "(session_id \<times> session_id option) list \<Rightarrow> (session_id \<times> session_id) set" where
  "child_rel es = {(p, x). (x, Some p) \<in> set es \<and> p \<noteq> []}"

lemma descendants_mono: "A \<subseteq> r\<^sup>* `` B \<Longrightarrow> r\<^sup>* `` A \<subseteq> r\<^sup>* `` B"
  by (smt (verit) Image_iff rtrancl_trans subset_iff)

lemma grow_tree_child: "set (grow_tree tree e) \<subseteq> set tree \<union> child_rel [e] `` set tree"
  by (cases e) (auto simp: grow_tree_def child_rel_def Conversation_Registry.truthy_def
      split: option.splits if_splits list.splits)

lemma grow_pass_child: "set (foldl grow_tree tree es) \<subseteq> (child_rel es)\<^sup>* `` set tree"
proof (induction es arbitrary: tree)
  case (Cons e es)
  have r: "child_rel [e] \<subseteq> child_rel (e # es)" "child_rel es \<subseteq> child_rel (e # es)" by (auto simp: child_rel_def)
  have "set (grow_tree tree e) \<subseteq> (child_rel (e # es))\<^sup>* `` set tree"
    using grow_tree_child [of tree e] r(1) by blast
  then have "(child_rel (e # es))\<^sup>* `` set (grow_tree tree e) \<subseteq> (child_rel (e # es))\<^sup>* `` set tree"
    by (rule descendants_mono)
  moreover have "set (foldl grow_tree (grow_tree tree e) es) \<subseteq> (child_rel (e # es))\<^sup>* `` set (grow_tree tree e)"
    using Cons.IH [of "grow_tree tree e"] rtrancl_mono [OF r(2)] by blast
  ultimately show ?case by simp
qed auto

lemma grow_pass_fixed:
  assumes "foldl grow_tree tree es = tree" and "(p, x) \<in> child_rel es" and "p \<in> set tree"
  shows "x \<in> set tree"
  using assms
proof (induction es arbitrary: tree)
  case (Cons e es)
  have sub: "set tree \<subseteq> set (grow_tree tree e)" by (auto simp: grow_tree_def split: option.split)
  have "set (grow_tree tree e) \<subseteq> set tree"
    using Cons.prems(1) grow_pass_mono [of "grow_tree tree e" es] by simp
  then have same: "grow_tree tree e = tree" by (auto simp: grow_tree_def split: option.splits if_splits)
  then show ?case
  proof (cases "e = (x, Some p)")
    case True
    then show ?thesis
      using same Cons.prems(2,3)
      by (auto simp: grow_tree_def child_rel_def Conversation_Registry.truthy_def split: if_splits list.splits)
  next
    case False
    then show ?thesis using same Cons by (auto simp: child_rel_def)
  qed
qed (simp add: child_rel_def)

lemma conversation_tree_set: "set (conversation_tree es tree) = (child_rel es)\<^sup>* `` set tree"
proof (induction es tree rule: conversation_tree.induct)
  case (1 es tree)
  let ?t = "foldl grow_tree tree es"
  show ?case
  proof (cases "?t = tree")
    case True
    have "y \<in> set tree" if "(x, y) \<in> (child_rel es)\<^sup>*" "x \<in> set tree" for x y
      using that by (induction rule: rtrancl_induct) (auto intro: grow_pass_fixed [OF True])
    with True show ?thesis by (subst conversation_tree.simps) (auto simp: Let_def)
  next
    case False
    then have "set (conversation_tree es tree) = (child_rel es)\<^sup>* `` set ?t"
      using 1 by (subst conversation_tree.simps) (simp add: Let_def)
    moreover have "(child_rel es)\<^sup>* `` set tree \<subseteq> (child_rel es)\<^sup>* `` set ?t"
      by (intro Image_mono subset_refl grow_pass_mono)
    moreover have "(child_rel es)\<^sup>* `` set ?t \<subseteq> (child_rel es)\<^sup>* `` set tree"
      by (intro descendants_mono grow_pass_child)
    ultimately show ?thesis by simp
  qed
qed

lemma distinct_grow_pass: "distinct tree \<Longrightarrow> distinct (foldl grow_tree tree es)"
proof (induction es arbitrary: tree)
  case (Cons e es)
  then have "distinct (grow_tree tree e)" by (auto simp: grow_tree_def split: option.split)
  with Cons.IH show ?case by simp
qed simp

lemma distinct_conversation_tree: "distinct tree \<Longrightarrow> distinct (conversation_tree es tree)"
proof (induction es tree rule: conversation_tree.induct)
  case (1 es tree)
  then show ?case by (subst conversation_tree.simps) (simp add: Let_def distinct_grow_pass)
qed

text \<open>
  C28 (termination). The loop that collects a conversation's tree ends on every set of entries, with or
  without cycles and broken chains, and its result lists exactly the start and what can be reached
  from it by going to children, each once.
\<close>

theorem conversation_tree_descendants:
  "set (conversation_tree es [root]) = {x. (root, x) \<in> (child_rel es)\<^sup>*} \<and> distinct (conversation_tree es [root])"
  by (auto simp: conversation_tree_set distinct_conversation_tree)

subsection \<open>A change of visibility\<close>

definition lineage_of :: "manager \<Rightarrow> (session_id \<times> session_id option) list" where
  "lineage_of m = map (\<lambda>r. (e_id (m_objs m r), e_parentId (m_objs m r))) (map snd (m_entries m))"

lemma advance_saveMeta: "lp_state (snd (advance (saveMeta r (Return v)) c)) = lp_state c"
  by (simp add: saveMeta_def request_def)

definition shown_as :: "visibility \<Rightarrow> session_id set \<Rightarrow> manager \<Rightarrow> nat \<Rightarrow> entry" where
  "shown_as vis ts m r =
     (if \<exists>t \<in> ts. lookup m t = Some r then (m_objs m r)\<lparr>e_visibility := Some vis\<rparr> else m_objs m r)"

lemma advance_set_visibilities:
  "set ts \<subseteq> dom (lookup (lp_state c)) \<Longrightarrow>
    m_objs (lp_state (snd (advance (set_visibilities vis ts (Return VUnit)) c))) = shown_as vis (set ts) (lp_state c)"
proof (induction ts arbitrary: c)
  case (Cons t ts)
  obtain r where r: "lookup (lp_state c) t = Some r" using Cons.prems by auto
  define s where "s = upd_entry r (\<lambda>e. e\<lparr>e_visibility := Some vis\<rparr>) (lp_state c)"
  have look: "lookup s = lookup (lp_state c)" by (rule ext) (simp add: s_def lookup_def upd_entry_def)
  obtain c' where c': "snd (advance (set_visibilities vis (t # ts) (Return VUnit)) c) =
      snd (advance (set_visibilities vis ts (Return VUnit)) c')" "lp_state c' = s"
    using r by (simp add: change_def forget_def Let_def rg.park_simps advance_saveMeta s_def)
  have "m_objs (lp_state (snd (advance (set_visibilities vis (t # ts) (Return VUnit)) c))) = shown_as vis (set ts) s"
    using Cons c' look by simp
  also have "\<dots> = shown_as vis (set (t # ts)) (lp_state c)"
    using r look by (auto simp: shown_as_def s_def upd_entry_def fun_eq_iff)
  finally show ?case .
qed (simp add: shown_as_def fun_eq_iff)

lemma lineage_lookup:
  assumes "mgr_wf m"
  shows "fst ` set (lineage_of m) \<subseteq> dom (lookup m)"
proof
  fix x assume "x \<in> fst ` set (lineage_of m)"
  then obtain k r where kr: "(k, r) \<in> set (m_entries m)" "x = e_id (m_objs m r)" by (auto simp: lineage_of_def)
  then have "lookup m k = Some r" using assms by (simp add: mgr_wf_def entries_wf_def lookup_def)
  moreover from this have "x = k" using kr(2) mgr_wf_lookupD [OF assms] by simp
  ultimately show "x \<in> dom (lookup m)" by blast
qed

lemma tree_lookup:
  assumes "mgr_wf m" and "cid \<in> dom (lookup m)"
  shows "set (conversation_tree (lineage_of m) [cid]) \<subseteq> dom (lookup m)"
proof -
  have "y = cid \<or> y \<in> fst ` set (lineage_of m)" if "(cid, y) \<in> (child_rel (lineage_of m))\<^sup>*" for y
    using that by (induction rule: rtrancl_induct) (force simp: child_rel_def)+
  then have "set (conversation_tree (lineage_of m) [cid]) \<subseteq> insert cid (fst ` set (lineage_of m))"
    by (auto simp: conversation_tree_set)
  also have "\<dots> \<subseteq> dom (lookup m)" using assms(2) lineage_lookup [OF assms(1)] by simp
  finally show ?thesis .
qed

text \<open>
  A change of visibility that the store accepts reaches exactly the conversation and
  its descendants: their entries show it, and every other entry is as it was.
\<close>

theorem visibility_reaches_tree:
  assumes "mgr_wf (lp_state c)" and "map_of (lp_tasks c) (lp_next c) = None"
    and "lookup (lp_state c) cid = Some r" and "parent_of (m_objs (lp_state c) r) = None"
    and "vis = Private \<Longrightarrow> Conversation_Registry.truthy (e_owner (m_objs (lp_state c) r)) \<noteq> None"
  shows "\<exists>c'. mgr_run deps [Call (OpSetVisibility cid vis), Answer (lp_next c) (Inr ROk)] c = Some c'
    \<and> (\<forall>r'. m_objs (lp_state c') r' =
         (if \<exists>x. lookup (lp_state c) x = Some r' \<and> (cid, x) \<in> (child_rel (lineage_of (lp_state c)))\<^sup>*
          then (m_objs (lp_state c) r')\<lparr>e_visibility := Some vis\<rparr> else m_objs (lp_state c) r'))"
proof -
  let ?m = "lp_state c"
  let ?t = "conversation_tree (lineage_of ?m) [cid]"
  define rest where "rest = (\<lambda>x :: mgr_response. Read (\<lambda>m. set_visibilities vis (conversation_tree (lineage_of m) [cid]) (Return VUnit)))"
  have prog: "advance (setVisibility cid vis) (c\<lparr>lp_next := Suc (lp_next c)\<rparr>) =
      advance (request (QSetVisibility cid vis) rest) (c\<lparr>lp_next := Suc (lp_next c)\<rparr>)"
    using assms(3,4,5) by (auto simp: setVisibility_def the_entry_def obj_def rest_def lineage_of_def)
  define c0 where "c0 = c\<lparr>lp_next := Suc (lp_next c), lp_issued := lp_issued c @ [QSetVisibility cid vis],
      lp_tasks := lp_tasks c @ [(lp_next c, request (QSetVisibility cid vis) rest)]\<rparr>"
  define c1 where "c1 = c0\<lparr>lp_tasks := AList.delete (lp_next c) (lp_tasks c0)\<rparr>"
  have "loop_step answer_fits (mgr_op deps) (Call (OpSetVisibility cid vis)) c = Some c0"
    using prog by (simp add: continue_def Let_def request_def c0_def)
  moreover have "loop_step answer_fits (mgr_op deps) (Answer (lp_next c) (Inr ROk)) c0 = Some (continue (lp_next c) (rest ROk) c1)"
    using assms(2) by (simp add: c0_def c1_def request_def answer_fits_def map_add_def)
  ultimately have run: "mgr_run deps [Call (OpSetVisibility cid vis), Answer (lp_next c) (Inr ROk)] c =
      Some (continue (lp_next c) (rest ROk) c1)"
    by (simp add: mgr_run_def del: loop_step.simps)
  have "set ?t \<subseteq> dom (lookup ?m)" using tree_lookup assms(1,3) by blast
  then have "m_objs (lp_state (continue (lp_next c) (rest ROk) c1)) = shown_as vis (set ?t) ?m"
    using advance_set_visibilities [of ?t c1 vis]
    by (simp add: continue_def Let_def rg.park_simps rest_def c1_def c0_def)
  with run show ?thesis by (auto simp: shown_as_def conversation_tree_set)
qed

text \<open>A root with an owner, its subagent, and another conversation.\<close>

definition family :: manager where
  "family = (createSessionManager None)\<lparr>
     m_entries := [(''a'', 0), (''b'', 1), (''z'', 2)], m_nextObj := 3,
     m_objs := (\<lambda>_. blank_entry)(
       0 := blank_entry\<lparr>e_id := ''a'', e_owner := Some ''ann''\<rparr>,
       1 := blank_entry\<lparr>e_id := ''b'', e_parentId := Some ''a''\<rparr>,
       2 := blank_entry\<lparr>e_id := ''z''\<rparr>)\<rparr>"

lemma family_wf: "mgr_wf family"
  by (auto simp: mgr_wf_def entries_wf_def bridges_wf_def handlers_wf_def ended_wf_def family_def createSessionManager_def
      lookup_def blank_entry_def less_Suc_eq numeral_3_eq_3 split: if_splits)

lemma family_lineage: "lineage_of family = [(''a'', None), (''b'', Some ''a''), (''z'', None)]"
  by (simp add: lineage_of_def family_def blank_entry_def)

lemma family_tree: "(''a'', x) \<in> (child_rel (lineage_of family))\<^sup>* \<longleftrightarrow> x = ''a'' \<or> x = ''b''"
proof -
  have "child_rel (lineage_of family) = {(''a'', ''b'')}" by (auto simp: child_rel_def family_lineage)
  moreover have "{(''a'', ''b'')}\<^sup>* = insert (''a'', ''b'') Id" by (auto elim: rtranclE intro: rtrancl_into_rtrancl)
  ultimately show ?thesis by auto
qed

theorem visibility_reaches_tree_witness:
  "\<exists>c'. mgr_run host [Call (OpSetVisibility ''a'' Private), Answer 0 (Inr ROk)] (new_loop family) = Some c'
     \<and> e_visibility (m_objs (lp_state c') 1) = Some Private \<and> m_objs (lp_state c') 2 = m_objs family 2"
proof -
  have new: "lp_state (new_loop family) = family" "lp_tasks (new_loop family) = []" "lp_next (new_loop family) = 0"
    by (simp_all add: new_loop_def)
  have "lookup family ''a'' = Some 0" "parent_of (m_objs family 0) = None"
      "Conversation_Registry.truthy (e_owner (m_objs family 0)) \<noteq> None"
    by (simp_all add: family_def lookup_def blank_entry_def parent_of_def Conversation_Registry.truthy_def)
  then obtain c' where c': "mgr_run host [Call (OpSetVisibility ''a'' Private), Answer 0 (Inr ROk)] (new_loop family) = Some c'"
      "\<forall>r'. m_objs (lp_state c') r' =
         (if \<exists>x. lookup family x = Some r' \<and> (x = ''a'' \<or> x = ''b'')
          then (m_objs family r')\<lparr>e_visibility := Some Private\<rparr> else m_objs family r')"
    using visibility_reaches_tree [of "new_loop family" "''a''" 0 Private host, unfolded new family_tree] family_wf by auto
  moreover have "lookup family ''b'' = Some 1" "\<not> (\<exists>x. lookup family x = Some 2 \<and> (x = ''a'' \<or> x = ''b''))"
    by (auto simp: family_def lookup_def)
  ultimately show ?thesis by auto
qed

end
