(* ===== verification/Meta_Store.thy ===== *)
theory Meta_Store
  imports Session_Names "HOL-Library.While_Combinator"
begin

text \<open>
  The metadata of conversations in the table \<^verbatim>\<open>conversations\<close> (\<^verbatim>\<open>session/metaStore.ts\<close>): what a row and
  the manager's metadata have to do with each other, and the statements of the store. The table is
  shared with the conversation router, which creates the rows and owns the star and the user's title.
  \<open>okay\<close> says whether a best-effort statement goes through.
\<close>

record meta_row = conversation_row +
  mr_threadId :: thread_id
  mr_title :: string
  mr_createdAt :: int
  mr_lastActivityAt :: int
  mr_modelSetBy :: "string option"
  mr_userTitled :: "bool option"
  mr_starred :: "bool option"
  mr_pendingQueue :: "drained_item list option"
  mr_runStartedAt :: "int option"
  mr_lastReplyAt :: "int option"

type_synonym meta_rows = "meta_row list"

subsection \<open>Rows and metadata\<close>

definition set_by_text :: "model_set_by \<Rightarrow> string" where
  "set_by_text b = (case b of ByUser \<Rightarrow> ''user'' | ByAgent \<Rightarrow> ''agent'')"

definition set_by_of :: "string option \<Rightarrow> model_set_by option" where
  "set_by_of x = (if x = Some ''user'' then Some ByUser else if x = Some ''agent'' then Some ByAgent else None)"

text \<open>An absent flag reads as false, as every use of it takes it.\<close>

definition rowToMeta :: "meta_row \<Rightarrow> conversation_meta" where
  "rowToMeta r = \<lparr>cm_id = cr_id r, cm_threadId = mr_threadId r, cm_title = mr_title r, cm_createdAt = mr_createdAt r,
     cm_lastActivityAt = mr_lastActivityAt r, cm_model = cr_model r, cm_modelSetBy = set_by_of (mr_modelSetBy r),
     cm_owner = cr_owner r, cm_parentId = cr_parentId r, cm_userTitled = (mr_userTitled r = Some True),
     cm_starred = (mr_starred r = Some True), cm_visibility = (if cr_visibility r = ''private'' then Some Private else None),
     cm_pendingQueue = mr_pendingQueue r\<rparr>"

text \<open>The columns \<^verbatim>\<open>rowValues\<close> writes into a row.\<close>

definition rowValues :: "conversation_meta \<Rightarrow> meta_row \<Rightarrow> meta_row" where
  "rowValues m r = r\<lparr>cr_id := cm_id m, cr_model := cm_model m, cr_owner := cm_owner m, cr_parentId := cm_parentId m,
     mr_threadId := cm_threadId m, mr_title := cm_title m, mr_createdAt := cm_createdAt m,
     mr_lastActivityAt := cm_lastActivityAt m, mr_modelSetBy := map_option set_by_text (cm_modelSetBy m),
     mr_userTitled := Some (cm_userTitled m), mr_starred := Some (cm_starred m), mr_pendingQueue := cm_pendingQueue m\<rparr>"

text \<open>The defaults of the columns an insert leaves out.\<close>

definition default_row :: meta_row where
  "default_row = \<lparr>cr_id = [], cr_model = None, cr_owner = None, cr_parentId = None, cr_sandboxRef = None, cr_creatorPod = None,
     cr_phase = None, cr_hostPod = None, cr_hostGeneration = 0, cr_visibility = ''shared'', mr_threadId = [], mr_title = [],
     mr_createdAt = 0, mr_lastActivityAt = 0, mr_modelSetBy = None, mr_userTitled = None, mr_starred = None,
     mr_pendingQueue = None, mr_runStartedAt = None, mr_lastReplyAt = None\<rparr>"

subsection \<open>Statements\<close>

definition meta_row_of :: "meta_rows \<Rightarrow> session_id \<Rightarrow> meta_row option" where
  "meta_row_of rows cid = find (\<lambda>r. cr_id r = cid) rows"

definition update_meta :: "session_id \<Rightarrow> (meta_row \<Rightarrow> meta_row) \<Rightarrow> meta_rows \<Rightarrow> meta_rows" where
  "update_meta cid f rows = map (\<lambda>r. if cr_id r = cid then f r else r) rows"

definition store_saveMeta :: "bool \<Rightarrow> conversation_meta \<Rightarrow> meta_rows \<Rightarrow> meta_rows" where
  "store_saveMeta okay m rows =
     (if okay
      then update_meta (cm_id m) (\<lambda>r. (rowValues m r)\<lparr>mr_starred := mr_starred r, mr_userTitled := mr_userTitled r,
             mr_title := (if mr_userTitled r = Some True then mr_title r else cm_title m),
             mr_lastActivityAt := max (mr_lastActivityAt r) (cm_lastActivityAt m)\<rparr>) rows
      else rows)"

definition store_readRouterMeta :: "meta_rows \<Rightarrow> session_id \<Rightarrow> router_meta option" where
  "store_readRouterMeta rows cid =
     map_option (\<lambda>r. \<lparr>rm_title = mr_title r, rm_userTitled = (mr_userTitled r = Some True), rm_starred = (mr_starred r = Some True)\<rparr>)
       (meta_row_of rows cid)"

definition store_touchActivity :: "bool \<Rightarrow> session_id \<Rightarrow> int \<Rightarrow> meta_rows \<Rightarrow> meta_rows" where
  "store_touchActivity okay cid at rows =
     (if okay then update_meta cid (\<lambda>r. r\<lparr>mr_lastActivityAt := max (mr_lastActivityAt r) at\<rparr>) rows else rows)"

definition run_state_row :: "bool \<Rightarrow> int \<Rightarrow> meta_row \<Rightarrow> meta_row" where
  "run_state_row running at r =
     (if running
      then (if (case mr_lastReplyAt r of None \<Rightarrow> True | Some l \<Rightarrow> l < at) then r\<lparr>mr_runStartedAt := Some at\<rparr> else r)
      else r\<lparr>mr_runStartedAt := None,
             mr_lastReplyAt := Some (max (case mr_lastReplyAt r of None \<Rightarrow> 0 | Some l \<Rightarrow> l) at)\<rparr>)"

definition store_setRunState :: "bool \<Rightarrow> session_id \<Rightarrow> bool \<Rightarrow> int \<Rightarrow> meta_rows \<Rightarrow> meta_rows" where
  "store_setRunState okay cid running at rows = (if okay then update_meta cid (run_state_row running at) rows else rows)"

text \<open>The recursive query: the root and, again and again, the rows whose parent was found.\<close>

definition row_children :: "meta_rows \<Rightarrow> session_id \<Rightarrow> session_id list" where
  "row_children rows p = map cr_id (filter (\<lambda>r. cr_parentId r = Some p) rows)"

definition sql_tree :: "meta_rows \<Rightarrow> session_id \<Rightarrow> session_id set" where
  "sql_tree rows root = (case rtrancl_while (\<lambda>_. True) (row_children rows) root of Some (_, seen) \<Rightarrow> seen | None \<Rightarrow> {})"

definition visibility_text :: "visibility \<Rightarrow> string" where
  "visibility_text v = (case v of Shared \<Rightarrow> ''shared'' | Private \<Rightarrow> ''private'')"

definition store_setVisibility :: "session_id \<Rightarrow> visibility \<Rightarrow> meta_rows \<Rightarrow> meta_rows" where
  "store_setVisibility root v rows =
     map (\<lambda>r. if cr_id r \<in> sql_tree rows root then r\<lparr>cr_visibility := visibility_text v\<rparr> else r) rows"

definition store_readAccess :: "meta_rows \<Rightarrow> session_id \<Rightarrow> (string option \<times> visibility) option" where
  "store_readAccess rows cid =
     map_option (\<lambda>r. (cr_owner r, if cr_visibility r = ''private'' then Private else Shared)) (meta_row_of rows cid)"

definition store_readLastActivity :: "meta_rows \<Rightarrow> session_id \<Rightarrow> int option" where
  "store_readLastActivity rows cid = map_option mr_lastActivityAt (meta_row_of rows cid)"

text \<open>\<open>okays\<close> says how many inserts of the backfill go through.\<close>

fun meta_backfill :: "nat \<Rightarrow> conversation_meta list \<Rightarrow> meta_rows \<Rightarrow> meta_rows" where
  "meta_backfill okays [] rows = rows"
| "meta_backfill 0 (m # ms) rows = rows"
| "meta_backfill (Suc n) (m # ms) rows =
     meta_backfill n ms (if meta_row_of rows (cm_id m) \<noteq> None then rows else rows @ [rowValues m default_row])"

definition store_listConversations :: "nat \<Rightarrow> conversation_meta list option \<Rightarrow> meta_rows \<Rightarrow> conversation_meta list \<times> meta_rows" where
  "store_listConversations okays legacy rows =
     (let found = map rowToMeta (sort_key (\<lambda>r. - mr_lastActivityAt r) rows)
      in if found \<noteq> [] then (found, rows)
         else case legacy of
                None \<Rightarrow> (found, rows)
              | Some [] \<Rightarrow> (found, rows)
              | Some (m # ms) \<Rightarrow> (m # ms, meta_backfill okays (m # ms) rows))"

definition store_removeConversation :: "bool \<Rightarrow> session_id \<Rightarrow> meta_rows \<Rightarrow> meta_rows" where
  "store_removeConversation okay cid rows = (if okay then filter (\<lambda>r. cr_id r \<noteq> cid) rows else rows)"

subsection \<open>Rows stay apart\<close>

lemma update_meta_ids: "(\<And>r. cr_id (f r) = cr_id r) \<Longrightarrow> map cr_id (update_meta cid f rows) = map cr_id rows"
  by (simp add: update_meta_def)

lemma meta_row_of_update:
  assumes "\<And>r. cr_id r = cid \<Longrightarrow> cr_id (f r) = cid"
  shows "meta_row_of (update_meta cid f rows) x = (if x = cid then map_option f (meta_row_of rows cid) else meta_row_of rows x)"
  using assms by (induction rows) (auto simp: meta_row_of_def update_meta_def)

text \<open>
  What is saved of a conversation is what is read back, the queue of a suspended
  conversation and the parent of a subagent included; only the visibility has another writer.
\<close>

theorem meta_roundtrip:
  "rowToMeta (rowValues m r) = m\<lparr>cm_visibility := (if cr_visibility r = ''private'' then Some Private else None)\<rparr>"
  by (cases "cm_modelSetBy m") (simp_all add: rowToMeta_def rowValues_def set_by_of_def set_by_text_def split: model_set_by.split)

text \<open>
  Saving a conversation's metadata, however stale the copy, creates no row and touches no
  other one; it leaves the star, the visibility and the assignment to a pod as they are, keeps the
  title a user gave, and never moves the last activity back.
\<close>

theorem saveMeta_respects_other_writers:
  "map cr_id (store_saveMeta okay m rows) = map cr_id rows
   \<and> (\<forall>x. x = cm_id m \<or> meta_row_of (store_saveMeta okay m rows) x = meta_row_of rows x)
   \<and> (case meta_row_of rows (cm_id m) of
        None \<Rightarrow> store_saveMeta okay m rows = rows
      | Some r \<Rightarrow> (case meta_row_of (store_saveMeta okay m rows) (cm_id m) of
          None \<Rightarrow> False
        | Some r' \<Rightarrow>
            mr_starred r' = mr_starred r \<and> mr_userTitled r' = mr_userTitled r \<and> cr_visibility r' = cr_visibility r
            \<and> cr_hostPod r' = cr_hostPod r \<and> cr_hostGeneration r' = cr_hostGeneration r \<and> cr_phase r' = cr_phase r
            \<and> mr_title r' = (if okay \<and> mr_userTitled r \<noteq> Some True then cm_title m else mr_title r)
            \<and> mr_lastActivityAt r \<le> mr_lastActivityAt r'))"
proof -
  define f where "f = (\<lambda>r. (rowValues m r)\<lparr>mr_starred := mr_starred r, mr_userTitled := mr_userTitled r,
      mr_title := (if mr_userTitled r = Some True then mr_title r else cm_title m),
      mr_lastActivityAt := max (mr_lastActivityAt r) (cm_lastActivityAt m)\<rparr>)"
  have save: "store_saveMeta okay m rows = (if okay then update_meta (cm_id m) f rows else rows)"
    by (simp add: store_saveMeta_def f_def)
  have cid: "cr_id (f r) = cm_id m" for r by (simp add: f_def rowValues_def)
  have ids: "map cr_id (update_meta (cm_id m) f rows) = map cr_id rows" using cid by (auto simp: update_meta_def)
  have look: "meta_row_of (update_meta (cm_id m) f rows) x = (if x = cm_id m then map_option f (meta_row_of rows (cm_id m)) else meta_row_of rows x)" for x
    using cid by (intro meta_row_of_update)
  have none: "update_meta (cm_id m) f rows = rows" if "meta_row_of rows (cm_id m) = None"
    using that by (auto simp: update_meta_def meta_row_of_def find_None_iff intro!: map_idI)
  show ?thesis
    unfolding save using ids look none by (auto simp: f_def rowValues_def split: option.splits)
qed

subsection \<open>Writes that race\<close>

text \<open>
  The start and the end of one run may reach the table in either order: the row is the
  same, with no run in progress and the reply recorded.
\<close>

theorem run_state_order_irrelevant:
  assumes "started \<le> ended"
  shows "store_setRunState True cid True started (store_setRunState True cid False ended rows)
       = store_setRunState True cid False ended (store_setRunState True cid True started rows)
    \<and> (\<forall>r. meta_row_of (store_setRunState True cid False ended (store_setRunState True cid True started rows)) cid = Some r
         \<longrightarrow> mr_runStartedAt r = None \<and> (\<exists>l. mr_lastReplyAt r = Some l \<and> ended \<le> l))"
proof -
  have row: "run_state_row True started (run_state_row False ended r) = run_state_row False ended (run_state_row True started r)" for r
    using assms by (auto simp: run_state_row_def split: option.splits)
  have cid: "cr_id (run_state_row b at r) = cr_id r" for b at r by (simp add: run_state_row_def)
  have "store_setRunState True cid True started (store_setRunState True cid False ended rows)
      = store_setRunState True cid False ended (store_setRunState True cid True started rows)"
    using row cid by (auto simp: store_setRunState_def update_meta_def)
  moreover have "mr_runStartedAt r = None \<and> (\<exists>l. mr_lastReplyAt r = Some l \<and> ended \<le> l)"
    if "meta_row_of (store_setRunState True cid False ended (store_setRunState True cid True started rows)) cid = Some r" for r
    using that cid by (auto simp: store_setRunState_def meta_row_of_update run_state_row_def)
  ultimately show ?thesis by blast
qed

theorem run_state_order_irrelevant_witness:
  "(3 :: int) \<le> 5 \<and> store_setRunState True ''c'' True 3 (store_setRunState True ''c'' False 5 [default_row\<lparr>cr_id := ''c''\<rparr>])
     = store_setRunState True ''c'' False 5 (store_setRunState True ''c'' True 3 [default_row\<lparr>cr_id := ''c''\<rparr>])"
  using run_state_order_irrelevant [of 3 5 "''c''" "[default_row\<lparr>cr_id := ''c''\<rparr>]"] by simp

text \<open>
  The end of one run that reaches the table after the start of the next one clears that start: the
  sidebar shows no run while one is in progress.
\<close>

theorem late_end_clears_next_run:
  "map mr_runStartedAt (store_setRunState True ''c'' True 9 (store_setRunState True ''c'' False 5 [default_row\<lparr>cr_id := ''c''\<rparr>])) = [Some 9]
   \<and> map mr_runStartedAt (store_setRunState True ''c'' False 5 (store_setRunState True ''c'' True 9 [default_row\<lparr>cr_id := ''c''\<rparr>])) = [None]"
  by (simp add: store_setRunState_def update_meta_def run_state_row_def default_row_def)

subsection \<open>Visibility\<close>

definition row_rel :: "meta_rows \<Rightarrow> (session_id \<times> session_id) set" where
  "row_rel rows = {(p, x). x \<in> set (row_children rows p)}"

lemma sql_tree_closure: "sql_tree rows root = (row_rel rows)\<^sup>* `` {root}"
proof -
  have "(row_rel rows)\<^sup>* `` {root} \<subseteq> insert root (set (map cr_id rows))"
  proof
    fix x assume "x \<in> (row_rel rows)\<^sup>* `` {root}"
    then have "(root, x) \<in> (row_rel rows)\<^sup>*" by simp
    then show "x \<in> insert root (set (map cr_id rows))"
      by (induction rule: rtrancl_induct) (auto simp: row_rel_def row_children_def)
  qed
  then have fin: "finite ({(x, y). y \<in> set (row_children rows x)}\<^sup>* `` {root})"
    unfolding row_rel_def by (rule finite_subset) simp
  obtain ws seen where run: "rtrancl_while (\<lambda>_. True) (row_children rows) root = Some (ws, seen)"
    using rtrancl_while_finite_Some [OF fin] by fastforce
  have "seen = (row_rel rows)\<^sup>* `` {root}"
    using rtrancl_while_Some [OF run] by (simp add: row_rel_def split: if_splits)
  with run show ?thesis by (simp add: sql_tree_def)
qed

text \<open>
  C9 (refinement). The visibility a pod keeps in memory follows the table: when its entries have the
  parents the rows have, the conversations its own loop marks are those the store's one statement
  marks, the conversation and its descendants, and every other row keeps its visibility.
\<close>

theorem memory_tree_is_stored_tree:
  assumes "\<And>p x. (x, Some p) \<in> set (lineage_of m) \<longleftrightarrow> (\<exists>r \<in> set rows. cr_id r = x \<and> cr_parentId r = Some p)"
    and "\<And>r. r \<in> set rows \<Longrightarrow> cr_parentId r \<noteq> Some []"
  shows "set (conversation_tree (lineage_of m) [root]) = sql_tree rows root
    \<and> store_setVisibility root v rows =
        map (\<lambda>r. if cr_id r \<in> set (conversation_tree (lineage_of m) [root]) then r\<lparr>cr_visibility := visibility_text v\<rparr> else r) rows"
proof -
  have "child_rel (lineage_of m) = row_rel rows"
    using assms by (fastforce simp: child_rel_def row_rel_def row_children_def)
  then have "set (conversation_tree (lineage_of m) [root]) = sql_tree rows root"
    by (simp add: conversation_tree_set sql_tree_closure)
  then show ?thesis by (simp add: store_setVisibility_def)
qed

definition family_rows :: meta_rows where
  "family_rows = [default_row\<lparr>cr_id := ''a'', cr_owner := Some ''ann''\<rparr>,
     default_row\<lparr>cr_id := ''b'', cr_parentId := Some ''a''\<rparr>, default_row\<lparr>cr_id := ''z''\<rparr>]"

theorem memory_tree_is_stored_tree_witness:
  "set (conversation_tree (lineage_of family) [''a'']) = sql_tree family_rows ''a'' \<and> ''b'' \<in> sql_tree family_rows ''a''"
proof -
  have "(x, Some p) \<in> set (lineage_of family) \<longleftrightarrow> (\<exists>r \<in> set family_rows. cr_id r = x \<and> cr_parentId r = Some p)" for p x
    by (auto simp: family_lineage family_rows_def default_row_def)
  moreover have "cr_parentId r \<noteq> Some []" if "r \<in> set family_rows" for r
    using that by (auto simp: family_rows_def default_row_def)
  ultimately have "set (conversation_tree (lineage_of family) [''a'']) = sql_tree family_rows ''a''"
    using memory_tree_is_stored_tree [of family family_rows "''a''" Shared] by blast
  moreover have "''b'' \<in> set (conversation_tree (lineage_of family) [''a''])"
    by (simp add: conversation_tree_set family_tree)
  ultimately show ?thesis by simp
qed

end
