(* ===== verification/Job_Store.thy ===== *)
theory Job_Store
  imports Prelude
begin

text \<open>
  The registry of background jobs (\<^verbatim>\<open>session/jobStore.ts\<close>): the table \<^verbatim>\<open>conversation_jobs\<close>, its
  statements, and the operations of \<^verbatim>\<open>createPgJobStore\<close>, which read through to a file registry of
  an earlier release. The specification of a registry is the locale \<open>job_registry\<close>; the store
  implements it, as long as a conversation's old jobs have been copied before a new one is saved.

  \<open>fails n\<close> says whether the \<open>n\<close>-th statement of a call fails. \<open>legacy\<close> is the file registry, when
  one is configured; its read of a conversation is \<^const>\<open>None\<close> when it fails.
\<close>

record job_record =
  jb_jobId :: string
  jb_command :: string
  jb_startedAt :: int
  jb_notifiedAt :: "int option"

record job_row =
  jr_conversationId :: session_id
  jr_jobId :: string
  jr_command :: string
  jr_startedAt :: int
  jr_notifiedAt :: "int option"

type_synonym jobs_table = "job_row list"
type_synonym legacy_jobs = "session_id \<Rightarrow> job_record list option"

subsection \<open>Statements\<close>

definition toJob :: "job_row \<Rightarrow> job_record" where
  "toJob r = \<lparr>jb_jobId = jr_jobId r, jb_command = jr_command r, jb_startedAt = jr_startedAt r, jb_notifiedAt = jr_notifiedAt r\<rparr>"

definition job_values :: "session_id \<Rightarrow> job_record \<Rightarrow> job_row" where
  "job_values cid job = \<lparr>jr_conversationId = cid, jr_jobId = jb_jobId job, jr_command = jb_command job,
     jr_startedAt = jb_startedAt job, jr_notifiedAt = jb_notifiedAt job\<rparr>"

definition has_key :: "session_id \<Rightarrow> string \<Rightarrow> job_row \<Rightarrow> bool" where
  "has_key cid jobId r \<longleftrightarrow> jr_conversationId r = cid \<and> jr_jobId r = jobId"

definition update_job_rows :: "session_id \<Rightarrow> job_record \<Rightarrow> jobs_table \<Rightarrow> jobs_table" where
  "update_job_rows cid job t = map (\<lambda>r. if has_key cid (jb_jobId job) r
     then r\<lparr>jr_command := jb_command job, jr_startedAt := jb_startedAt job, jr_notifiedAt := jb_notifiedAt job\<rparr> else r) t"

definition upsert :: "session_id \<Rightarrow> job_record \<Rightarrow> jobs_table \<Rightarrow> jobs_table" where
  "upsert cid job t =
     (if list_ex (has_key cid (jb_jobId job)) t then update_job_rows cid job t else t @ [job_values cid job])"

definition insert_nothing :: "session_id \<Rightarrow> job_record \<Rightarrow> jobs_table \<Rightarrow> jobs_table" where
  "insert_nothing cid job t = (if list_ex (has_key cid (jb_jobId job)) t then t else t @ [job_values cid job])"

subsection \<open>Operations\<close>

text \<open>The result says whether every insert went through.\<close>

fun job_backfill :: "(nat \<Rightarrow> bool) \<Rightarrow> nat \<Rightarrow> session_id \<Rightarrow> job_record list \<Rightarrow> jobs_table \<Rightarrow> bool \<times> jobs_table" where
  "job_backfill fails n cid [] t = (True, t)"
| "job_backfill fails n cid (job # jobs) t =
     (if fails n then (False, t) else job_backfill fails (Suc n) cid jobs (insert_nothing cid job t))"

definition saveJob :: "(nat \<Rightarrow> bool) \<Rightarrow> session_id \<Rightarrow> job_record \<Rightarrow> jobs_table \<Rightarrow> jobs_table" where
  "saveJob fails cid job t = (if fails 0 then t else upsert cid job t)"

text \<open>The jobs of a conversation in the table, newest first.\<close>

definition selectJobs :: "session_id \<Rightarrow> jobs_table \<Rightarrow> job_record list" where
  "selectJobs cid t = map toJob (sort_key (\<lambda>r. - jr_startedAt r) (filter (\<lambda>r. jr_conversationId r = cid) t))"

definition listJobs ::
  "(nat \<Rightarrow> bool) \<Rightarrow> legacy_jobs option \<Rightarrow> session_id \<Rightarrow> jobs_table \<Rightarrow> job_record list \<times> jobs_table" where
  "listJobs fails legacy cid t =
     (let rows = (if fails 0 then [] else selectJobs cid t)
      in if rows \<noteq> [] then (rows, t)
         else case legacy of
                None \<Rightarrow> (rows, t)
              | Some files \<Rightarrow>
                  (case files cid of
                     None \<Rightarrow> (rows, t)
                   | Some [] \<Rightarrow> (rows, t)
                   | Some (j # js) \<Rightarrow> (j # js, snd (job_backfill fails 1 cid (j # js) t))))"

definition updateJob ::
  "(nat \<Rightarrow> bool) \<Rightarrow> legacy_jobs option \<Rightarrow> session_id \<Rightarrow> job_record \<Rightarrow> jobs_table \<Rightarrow> jobs_table" where
  "updateJob fails legacy cid job t =
     (if fails 0 then t
      else if list_ex (has_key cid (jb_jobId job)) t then update_job_rows cid job t
      else case legacy of
             None \<Rightarrow> t
           | Some files \<Rightarrow>
               let old = (case files cid of None \<Rightarrow> [] | Some js \<Rightarrow> js)
               in if list_ex (\<lambda>j. jb_jobId j = jb_jobId job) old
                  then case job_backfill fails 1 cid old t of
                         (False, t') \<Rightarrow> t'
                       | (True, t') \<Rightarrow> if fails (Suc (length old)) then t' else upsert cid job t'
                  else t)"

subsection \<open>The table\<close>

text \<open>The primary key.\<close>

definition job_keys_ok :: "jobs_table \<Rightarrow> bool" where
  "job_keys_ok t \<longleftrightarrow> distinct (map (\<lambda>r. (jr_conversationId r, jr_jobId r)) t)"

definition table_job :: "jobs_table \<Rightarrow> session_id \<Rightarrow> string \<Rightarrow> job_record option" where
  "table_job t cid jobId = map_option toJob (find (has_key cid jobId) t)"

lemma toJob_values [simp]: "toJob (job_values cid job) = job"
  by (simp add: toJob_def job_values_def)

lemma has_key_values [simp]: "has_key cid jobId (job_values cid' job) \<longleftrightarrow> cid' = cid \<and> jb_jobId job = jobId"
  by (simp add: has_key_def job_values_def)

lemma table_job_None: "table_job t cid jobId = None \<longleftrightarrow> \<not> list_ex (has_key cid jobId) t"
  by (auto simp: table_job_def find_None_iff list_ex_iff)

lemma find_append: "find P (xs @ ys) = (case find P xs of None \<Rightarrow> find P ys | Some x \<Rightarrow> Some x)"
  by (induction xs) simp_all

lemma table_job_snoc:
  "table_job (t @ [job_values cid job]) =
     (\<lambda>c i. if table_job t c i = None \<and> c = cid \<and> i = jb_jobId job then Some job else table_job t c i)"
  by (auto simp: table_job_def find_append fun_eq_iff split: option.splits)

lemma table_job_insert_nothing:
  "table_job (insert_nothing cid job t) =
     (table_job t)(cid := (\<lambda>i. if i = jb_jobId job \<and> table_job t cid i = None then Some job else table_job t cid i))"
  using table_job_None [of t cid "jb_jobId job"]
  by (auto simp: insert_nothing_def table_job_snoc fun_eq_iff)

lemma table_job_update_rows:
  "table_job (update_job_rows cid job t) =
     (table_job t)(cid := (\<lambda>i. if i = jb_jobId job \<and> table_job t cid i \<noteq> None then Some job else table_job t cid i))"
proof (rule ext, rule ext)
  fix c i
  let ?f = "\<lambda>r. if has_key cid (jb_jobId job) r
     then r\<lparr>jr_command := jb_command job, jr_startedAt := jb_startedAt job, jr_notifiedAt := jb_notifiedAt job\<rparr> else r"
  have key: "has_key c i (?f r) = has_key c i r" for r by (simp add: has_key_def)
  have "find (has_key c i) (map ?f t) = map_option ?f (find (has_key c i) t)"
    by (induction t) (simp_all only: list.map find.simps key, simp_all)
  moreover have "toJob (?f r) = (if c = cid \<and> i = jb_jobId job then job else toJob r)" if "find (has_key c i) t = Some r" for r
    using that by (auto simp: find_Some_iff has_key_def toJob_def)
  ultimately show "table_job (update_job_rows cid job t) c i =
     ((table_job t)(cid := (\<lambda>i. if i = jb_jobId job \<and> table_job t cid i \<noteq> None then Some job else table_job t cid i))) c i"
    by (cases "find (has_key c i) t") (auto simp: table_job_def update_job_rows_def)
qed

lemma table_job_upsert: "table_job (upsert cid job t) = (table_job t)(cid := (table_job t cid)(jb_jobId job \<mapsto> job))"
  using table_job_None [of t cid "jb_jobId job"]
  by (auto simp: upsert_def table_job_update_rows table_job_snoc fun_eq_iff)

lemma job_keys_ok_snoc: "job_keys_ok t \<Longrightarrow> \<not> list_ex (has_key cid (jb_jobId job)) t \<Longrightarrow> job_keys_ok (t @ [job_values cid job])"
  by (auto simp: job_keys_ok_def list_ex_iff has_key_def job_values_def)

lemma job_keys_ok_update_rows: "job_keys_ok t \<Longrightarrow> job_keys_ok (update_job_rows cid job t)"
proof -
  have "map (\<lambda>r. (jr_conversationId r, jr_jobId r)) (update_job_rows cid job t) = map (\<lambda>r. (jr_conversationId r, jr_jobId r)) t"
    by (simp add: update_job_rows_def)
  then show "job_keys_ok t \<Longrightarrow> ?thesis" by (simp only: job_keys_ok_def)
qed

lemma job_keys_ok_upsert: "job_keys_ok t \<Longrightarrow> job_keys_ok (upsert cid job t)"
  by (simp add: upsert_def job_keys_ok_snoc job_keys_ok_update_rows)

lemma job_keys_ok_insert_nothing: "job_keys_ok t \<Longrightarrow> job_keys_ok (insert_nothing cid job t)"
  by (simp add: insert_nothing_def job_keys_ok_snoc)

lemma job_keys_ok_backfill: "job_keys_ok t \<Longrightarrow> job_keys_ok (snd (job_backfill fails n cid jobs t))"
  by (induction fails n cid jobs t rule: job_backfill.induct) (simp_all add: job_keys_ok_insert_nothing)

subsection \<open>What a registry promises\<close>

text \<open>
  A registry holds for each conversation a map from job ids to jobs: saving sets an entry, updating
  changes one that is there, listing gives the entries and changes nothing.
\<close>

definition with_job :: "job_record \<Rightarrow> (string \<rightharpoonup> job_record) \<Rightarrow> string \<rightharpoonup> job_record" where
  "with_job job m = m(jb_jobId job \<mapsto> job)"

definition with_update :: "job_record \<Rightarrow> (string \<rightharpoonup> job_record) \<Rightarrow> string \<rightharpoonup> job_record" where
  "with_update job m = (if m (jb_jobId job) = None then m else m(jb_jobId job \<mapsto> job))"

definition lists_map :: "job_record list \<Rightarrow> (string \<rightharpoonup> job_record) \<Rightarrow> bool" where
  "lists_map js m \<longleftrightarrow> distinct (map jb_jobId js) \<and> (\<forall>i j. m i = Some j \<longleftrightarrow> j \<in> set js \<and> jb_jobId j = i)"

locale job_registry =
  fixes jobs :: "'s \<Rightarrow> session_id \<Rightarrow> string \<Rightarrow> job_record option"
    and save :: "session_id \<Rightarrow> job_record \<Rightarrow> 's \<Rightarrow> 's"
    and change :: "session_id \<Rightarrow> job_record \<Rightarrow> 's \<Rightarrow> 's"
    and listing :: "session_id \<Rightarrow> 's \<Rightarrow> job_record list \<times> 's"
    and good :: "'s \<Rightarrow> bool"
  assumes jobs_save: "good s \<Longrightarrow> jobs (save cid j s) = (jobs s)(cid := with_job j (jobs s cid))"
    and jobs_change: "good s \<Longrightarrow> jobs (change cid j s) = (jobs s)(cid := with_update j (jobs s cid))"
    and jobs_listing: "good s \<Longrightarrow> jobs (snd (listing cid s)) = jobs s"
    and listing_jobs: "good s \<Longrightarrow> lists_map (fst (listing cid s)) (jobs s cid)"
    and good_save: "good s \<Longrightarrow> good (save cid j s)"
    and good_change: "good s \<Longrightarrow> good (change cid j s)"
    and good_listing: "good s \<Longrightarrow> good (snd (listing cid s))"
begin

lemma listed_iff: "good s \<Longrightarrow> j \<in> set (fst (listing cid s)) \<longleftrightarrow> jobs s cid (jb_jobId j) = Some j"
  using listing_jobs [of s cid] by (simp add: lists_map_def)

text \<open>A job marked as notified is listed so, whatever is then done to other jobs.\<close>

lemma notified_listed:
  assumes "good s" and "jobs s cid (jb_jobId j) \<noteq> None" and "x \<in> set (fst (listing cid (change cid j s)))"
    and "jb_jobId x = jb_jobId j"
  shows "x = j"
  using assms listed_iff [OF good_change [OF assms(1)], where cid = cid] jobs_change [OF assms(1)]
  by (auto simp: with_update_def split: if_splits)

end

subsection \<open>The store keeps the promise\<close>

definition old_jobs :: "legacy_jobs option \<Rightarrow> session_id \<Rightarrow> job_record list" where
  "old_jobs legacy cid = (case legacy of None \<Rightarrow> [] | Some files \<Rightarrow> (case files cid of None \<Rightarrow> [] | Some js \<Rightarrow> js))"

definition old_map :: "job_record list \<Rightarrow> string \<rightharpoonup> job_record" where
  "old_map js = map_of (map (\<lambda>j. (jb_jobId j, j)) js)"

text \<open>What the registry holds: the table, or the files while the table has nothing of the conversation.\<close>

definition registry_of :: "legacy_jobs option \<Rightarrow> jobs_table \<Rightarrow> session_id \<Rightarrow> string \<rightharpoonup> job_record" where
  "registry_of legacy t cid = (if table_job t cid = Map.empty then old_map (old_jobs legacy cid) else table_job t cid)"

definition copied :: "legacy_jobs option \<Rightarrow> jobs_table \<Rightarrow> session_id \<Rightarrow> bool" where
  "copied legacy t cid \<longleftrightarrow> table_job t cid = Map.empty \<or> dom (old_map (old_jobs legacy cid)) \<subseteq> dom (table_job t cid)"

lemma lists_old_map: "distinct (map jb_jobId js) \<Longrightarrow> lists_map js (old_map js)"
  by (auto simp: lists_map_def old_map_def map_of_eq_Some_iff o_def)

lemma job_keys_inj:
  "job_keys_ok t \<Longrightarrow> r \<in> set t \<Longrightarrow> r' \<in> set t \<Longrightarrow> has_key cid i r \<Longrightarrow> has_key cid i r' \<Longrightarrow> r = r'"
  by (auto simp: job_keys_ok_def has_key_def distinct_map dest: inj_onD)

lemma table_job_Some: "job_keys_ok t \<Longrightarrow> table_job t cid i = Some j \<longleftrightarrow> (\<exists>r \<in> set t. has_key cid i r \<and> toJob r = j)"
proof
  assume "table_job t cid i = Some j"
  then show "\<exists>r \<in> set t. has_key cid i r \<and> toJob r = j"
    by (auto simp: table_job_def find_Some_iff)
next
  assume ok: "job_keys_ok t" and "\<exists>r \<in> set t. has_key cid i r \<and> toJob r = j"
  then obtain r where r: "r \<in> set t" "has_key cid i r" "toJob r = j" by blast
  then obtain r' where r': "find (has_key cid i) t = Some r'" by (cases "find (has_key cid i) t") (auto simp: find_None_iff)
  then have "r' \<in> set t" "has_key cid i r'" by (auto simp: find_Some_iff)
  with ok r have "r' = r" by (auto intro: job_keys_inj)
  with r r' show "table_job t cid i = Some j" by (simp add: table_job_def)
qed

lemma selectJobs_map:
  assumes "job_keys_ok t"
  shows "lists_map (selectJobs cid t) (table_job t cid)"
proof -
  let ?rs = "filter (\<lambda>r. jr_conversationId r = cid) t"
  have "distinct ?rs" using assms by (auto simp: job_keys_ok_def distinct_map)
  moreover have "inj_on jr_jobId (set ?rs)"
    using job_keys_inj [OF assms] by (auto simp: inj_on_def has_key_def)
  ultimately have "distinct (map jr_jobId ?rs)" by (simp add: distinct_map)
  then have "distinct (map jr_jobId (sort_key (\<lambda>r. - jr_startedAt r) ?rs))"
    by (metis distinct_map distinct_sort set_sort)
  then have "distinct (map jb_jobId (selectJobs cid t))"
    by (simp add: selectJobs_def toJob_def o_def)
  moreover have "j \<in> set (selectJobs cid t) \<and> jb_jobId j = i \<longleftrightarrow> (\<exists>r \<in> set t. has_key cid i r \<and> toJob r = j)" for i j
    by (auto simp: selectJobs_def has_key_def toJob_def)
  ultimately show ?thesis using table_job_Some [OF assms] by (simp add: lists_map_def)
qed

lemma lists_map_empty: "lists_map js m \<Longrightarrow> js = [] \<longleftrightarrow> m = Map.empty"
  by (cases js; cases "m = Map.empty") (auto simp: lists_map_def fun_eq_iff)

lemma table_job_backfill:
  "table_job (snd (job_backfill (\<lambda>_. False) n cid jobs t)) = (table_job t)(cid := old_map jobs ++ table_job t cid)
   \<and> fst (job_backfill (\<lambda>_. False) n cid jobs t)"
proof (induction jobs arbitrary: n t)
  case Nil
  then show ?case by (simp add: old_map_def)
next
  case (Cons j js)
  then show ?case
    by (auto simp: table_job_insert_nothing old_map_def map_add_def fun_eq_iff split: option.splits)
qed

interpretation table: job_registry table_job "saveJob (\<lambda>_. False)" "updateJob (\<lambda>_. False) None" "listJobs (\<lambda>_. False) None" job_keys_ok
proof (unfold_locales, goal_cases)
  case (1 t cid j)
  then show ?case by (simp add: saveJob_def table_job_upsert with_job_def)
next
  case (2 t cid j)
  then show ?case
    using table_job_None [of t cid "jb_jobId j"]
    by (auto simp: updateJob_def table_job_update_rows with_update_def fun_eq_iff)
next
  case (3 t cid)
  then show ?case by (simp add: listJobs_def Let_def)
next
  case (4 t cid)
  then show ?case using selectJobs_map [of t cid] by (auto simp: listJobs_def Let_def)
next
  case (5 t cid j)
  then show ?case by (simp add: saveJob_def job_keys_ok_upsert)
next
  case (6 t cid j)
  then show ?case by (simp add: updateJob_def job_keys_ok_update_rows)
next
  case (7 t cid)
  then show ?case by (simp add: listJobs_def Let_def)
qed

lemma selectJobs_empty: "job_keys_ok t \<Longrightarrow> selectJobs cid t = [] \<longleftrightarrow> table_job t cid = Map.empty"
  by (rule lists_map_empty [OF selectJobs_map])

lemma listJobs_ok:
  "listJobs (\<lambda>_. False) legacy cid t =
     (if selectJobs cid t \<noteq> [] then (selectJobs cid t, t)
      else (old_jobs legacy cid, snd (job_backfill (\<lambda>_. False) 1 cid (old_jobs legacy cid) t)))"
  by (simp add: listJobs_def old_jobs_def Let_def split: option.split list.split)

lemma updateJob_ok:
  "updateJob (\<lambda>_. False) legacy cid job t =
     (if table_job t cid (jb_jobId job) \<noteq> None then update_job_rows cid job t
      else if old_map (old_jobs legacy cid) (jb_jobId job) \<noteq> None
      then upsert cid job (snd (job_backfill (\<lambda>_. False) 1 cid (old_jobs legacy cid) t)) else t)"
proof -
  have "old_map js i = None \<longleftrightarrow> \<not> list_ex (\<lambda>j. jb_jobId j = i) js" for js i
    by (induction js) (auto simp: old_map_def)
  moreover have "fst (job_backfill (\<lambda>_. False) 1 cid js t)" for js using table_job_backfill by blast
  ultimately show ?thesis
    unfolding updateJob_def table_job_None
    by (auto simp: old_jobs_def Let_def split: option.splits prod.splits bool.splits) (metis fst_conv)+
qed

lemma registry_listing:
  assumes "job_keys_ok t"
  shows "registry_of legacy (snd (listJobs (\<lambda>_. False) legacy cid t)) = registry_of legacy t"
proof (cases "table_job t cid = Map.empty")
  case True
  then have "table_job (snd (listJobs (\<lambda>_. False) legacy cid t)) = (table_job t)(cid := old_map (old_jobs legacy cid))"
    using assms table_job_backfill by (simp add: listJobs_ok selectJobs_empty)
  with True show ?thesis by (auto simp: registry_of_def fun_eq_iff)
qed (use assms in \<open>simp add: listJobs_ok selectJobs_empty\<close>)

lemma registry_update:
  assumes "copied legacy t cid"
  shows "registry_of legacy (updateJob (\<lambda>_. False) legacy cid job t) cid = with_update job (registry_of legacy t cid)"
proof -
  let ?i = "jb_jobId job" and ?old = "old_map (old_jobs legacy cid)"
  consider "table_job t cid ?i \<noteq> None" | "table_job t cid = Map.empty" "?old ?i \<noteq> None"
    | "table_job t cid ?i = None" "?old ?i = None"
    using assms by (auto simp: copied_def)
  then show ?thesis
  proof cases
    case 1
    then have "table_job (update_job_rows cid job t) cid = (table_job t cid)(?i \<mapsto> job)"
      by (auto simp: table_job_update_rows)
    with 1 show ?thesis by (auto simp: updateJob_ok registry_of_def with_update_def)
  next
    case 2
    then have "table_job (updateJob (\<lambda>_. False) legacy cid job t) cid = ?old(?i \<mapsto> job)"
      using table_job_backfill [of 1 cid "old_jobs legacy cid" t] by (simp add: updateJob_ok table_job_upsert)
    with 2 show ?thesis by (auto simp: registry_of_def with_update_def)
  next
    case 3
    then show ?thesis by (simp add: updateJob_ok registry_of_def with_update_def)
  qed
qed

text \<open>
  C8 (refinement). While no statement fails, the files of the earlier release name each job once, and the
  conversation's old jobs are in the table or the table has nothing of it, the store with the file
  registry behind it behaves as one registry, whose content is the table, or the files while the table
  has nothing of the conversation: listing gives that content and keeps it, also where it copies the
  files; updating changes a job that is there, in the table or still only in a file. Saving adds the job
  to what the table has; so it adds to the registry when the old jobs are in the table or there are
  none, and otherwise, before the first listing or update, it hides the old jobs
  (\<^verbatim>\<open>save_hides_old_jobs\<close> below).
\<close>

theorem job_store_refines_registry:
  assumes "job_keys_ok t" and "copied legacy t cid" and "distinct (map jb_jobId (old_jobs legacy cid))"
  shows "lists_map (fst (listJobs (\<lambda>_. False) legacy cid t)) (registry_of legacy t cid)
    \<and> registry_of legacy (snd (listJobs (\<lambda>_. False) legacy cid t)) = registry_of legacy t
    \<and> registry_of legacy (updateJob (\<lambda>_. False) legacy cid job t) cid = with_update job (registry_of legacy t cid)
    \<and> registry_of legacy (saveJob (\<lambda>_. False) cid job t) cid = with_job job (table_job t cid)
    \<and> (table_job t cid \<noteq> Map.empty \<or> old_jobs legacy cid = [] \<longrightarrow>
         registry_of legacy (saveJob (\<lambda>_. False) cid job t) cid = with_job job (registry_of legacy t cid))"
proof (intro conjI impI)
  show "lists_map (fst (listJobs (\<lambda>_. False) legacy cid t)) (registry_of legacy t cid)"
    using assms lists_old_map selectJobs_map by (simp add: listJobs_ok registry_of_def selectJobs_empty)
  show "registry_of legacy (snd (listJobs (\<lambda>_. False) legacy cid t)) = registry_of legacy t"
    by (rule registry_listing [OF assms(1)])
  show "registry_of legacy (updateJob (\<lambda>_. False) legacy cid job t) cid = with_update job (registry_of legacy t cid)"
    by (rule registry_update [OF assms(2)])
  show "registry_of legacy (saveJob (\<lambda>_. False) cid job t) cid = with_job job (table_job t cid)"
    by (auto simp: saveJob_def registry_of_def table_job_upsert with_job_def)
  assume "table_job t cid \<noteq> Map.empty \<or> old_jobs legacy cid = []"
  then show "registry_of legacy (saveJob (\<lambda>_. False) cid job t) cid = with_job job (registry_of legacy t cid)"
    by (auto simp: saveJob_def registry_of_def table_job_upsert with_job_def old_map_def)
qed

definition old_job :: job_record where
  "old_job = \<lparr>jb_jobId = ''job-1'', jb_command = ''make'', jb_startedAt = 1, jb_notifiedAt = None\<rparr>"

definition new_job :: job_record where
  "new_job = \<lparr>jb_jobId = ''job-2'', jb_command = ''make test'', jb_startedAt = 2, jb_notifiedAt = None\<rparr>"

definition old_files :: legacy_jobs where
  "old_files cid = (if cid = ''c'' then Some [old_job] else Some [])"

theorem job_store_refines_registry_witness:
  "registry_of (Some old_files) (updateJob (\<lambda>_. False) (Some old_files) ''c'' (old_job\<lparr>jb_notifiedAt := Some 9\<rparr>) []) ''c'' ''job-1''
     = Some (old_job\<lparr>jb_notifiedAt := Some 9\<rparr>)"
proof -
  have "job_keys_ok []" "copied (Some old_files) [] ''c''" "distinct (map jb_jobId (old_jobs (Some old_files) ''c''))"
    by (simp_all add: job_keys_ok_def copied_def table_job_def fun_eq_iff old_jobs_def old_files_def)
  from job_store_refines_registry [OF this, of "old_job\<lparr>jb_notifiedAt := Some 9\<rparr>"] show ?thesis
    by (simp add: with_update_def registry_of_def table_job_def fun_eq_iff old_map_def old_jobs_def old_files_def old_job_def)
qed

text \<open>
  A job saved before the conversation's old jobs were copied hides them: they are in the files, but no
  listing shows them any more.
\<close>

theorem save_hides_old_jobs:
  "fst (listJobs (\<lambda>_. False) (Some old_files) ''c'' []) = [old_job]
   \<and> fst (listJobs (\<lambda>_. False) (Some old_files) ''c'' (saveJob (\<lambda>_. False) ''c'' new_job [])) = [new_job]"
  by (simp add: listJobs_ok saveJob_def upsert_def selectJobs_def old_jobs_def old_files_def)
    (simp add: job_values_def toJob_def)

end
