(* ===== verification/Job_Manager.thy ===== *)
theory Job_Manager
  imports Job_Store Session_State
begin

text \<open>
  Background jobs (\<^verbatim>\<open>session/jobManager.ts\<close>): how a command is quoted for the shell, how the state of
  a job is read back from the output of one probe, how its log is cleaned and cut, and the watcher
  that announces each job that has exited.

  The probe is a shell script; \<open>probe_output\<close> is what it prints for a job directory, with the
  POSIX meaning of the commands it runs. Text is ASCII where bytes are counted
  (\<^verbatim>\<open>Buffer.byteLength\<close>), and a JavaScript number that is not a number is \<^const>\<open>None\<close>.
\<close>

subsection \<open>Constants and names\<close>

definition JOBS_DIR :: string where "JOBS_DIR = ''/workspace/.scooter/jobs''"
definition DEFAULT_MAX_OUTPUT :: int where "DEFAULT_MAX_OUTPUT = 8 * 1024"
definition MAX_OUTPUT_CAP :: int where "MAX_OUTPUT_CAP = 12 * 1024"

definition newJobId :: "nat \<Rightarrow> string" where
  "newJobId now = ''job-'' @ toString36 now @ ''-'' @ show_nat (now mod 1000000)"

definition job_dir :: "string \<Rightarrow> string" where
  "job_dir jobId = JOBS_DIR @ ''/'' @ jobId"

subsection \<open>Quoting\<close>

definition quote_char :: char where "quote_char = CHR 0x27"
definition backslash :: char where "backslash = CHR 0x5C"

text \<open>\<^verbatim>\<open>s.replace(/'/g, ...)\<close> in single quotes.\<close>

definition shSingleQuote :: "string \<Rightarrow> string" where
  "shSingleQuote s = quote_char # concat (map (\<lambda>c. if c = quote_char then [quote_char, backslash, quote_char, quote_char] else [c]) s)
     @ [quote_char]"

text \<open>The script \<^verbatim>\<open>start\<close> runs in the sandbox.\<close>

definition start_script :: "string \<Rightarrow> string \<Rightarrow> string" where
  "start_script d command =
     ''mkdir -p '' @ d @ '' && '' @
     ''printf %s '' @ shSingleQuote command @ '' > '' @ d @ ''/cmd; '' @
     ''setsid sh -c '' @ shSingleQuote (command @ ''; printf %s \"$?\" > '' @ d @ ''/status'') @ '' '' @
     ''> '' @ d @ ''/log 2>&1 < /dev/null & '' @
     ''printf %s \"$!\" > '' @ d @ ''/pid''"

text \<open>
  How a POSIX shell reads a word: quoted text up to the closing quote, a backslash outside quotes
  escapes one character, a blank or the end ends the word. The result is the word and what follows.
\<close>

fun sh_word :: "bool \<Rightarrow> string \<Rightarrow> (string \<times> string) option" where
  "sh_word True [] = None"
| "sh_word False [] = Some ([], [])"
| "sh_word True (c # cs) =
     (if c = quote_char then sh_word False cs else map_option (\<lambda>(w, r). (c # w, r)) (sh_word True cs))"
| "sh_word False (c # cs) =
     (if c = quote_char then sh_word True cs
      else if c = CHR '' '' then Some ([], c # cs)
      else if c = backslash
      then (case cs of [] \<Rightarrow> None | d # ds \<Rightarrow> map_option (\<lambda>(w, r). (d # w, r)) (sh_word False ds))
      else map_option (\<lambda>(w, r). (c # w, r)) (sh_word False cs))"

subsection \<open>The log\<close>

text \<open>\<^verbatim>\<open>raw.split("\n")\<close>\<close>

fun split_at_char :: "char \<Rightarrow> string \<Rightarrow> string list" where
  "split_at_char sep [] = [[]]"
| "split_at_char sep (c # cs) =
     (if c = sep then [] # split_at_char sep cs
      else case split_at_char sep cs of [] \<Rightarrow> [[c]] | l # ls \<Rightarrow> (c # l) # ls)"

definition CR :: char where "CR = CHR 0x0D"
definition ESC :: char where "ESC = CHR 0x1B"

text \<open>The last frame of a line that was redrawn.\<close>

definition last_frame :: "string \<Rightarrow> string" where
  "last_frame l =
     (let t = (if l \<noteq> [] \<and> last l = CR then butlast l else l)
      in rev (takeWhile (\<lambda>c. c \<noteq> CR) (rev t)))"

definition ansi_param :: "char \<Rightarrow> bool" where
  "ansi_param c \<longleftrightarrow> of_char c \<in> {48 .. (57 :: nat)} \<or> c = CHR '';'' \<or> of_char c = (63 :: nat)"

definition is_letter :: "char \<Rightarrow> bool" where
  "is_letter c \<longleftrightarrow> of_char c \<in> {65 .. 90} \<union> {97 .. (122 :: nat)}"

function strip_ansi :: "string \<Rightarrow> string" where
  "strip_ansi [] = []"
| "strip_ansi (c # cs) =
     (if c = ESC \<and> starts_with cs ''['' \<and> dropWhile ansi_param (tl cs) \<noteq> [] \<and> is_letter (hd (dropWhile ansi_param (tl cs)))
      then strip_ansi (tl (dropWhile ansi_param (tl cs))) else c # strip_ansi cs)"
  by pat_completeness auto

termination
proof (relation "measure length")
  fix c :: char and cs :: string
  show "(tl (dropWhile ansi_param (tl cs)), c # cs) \<in> measure length"
    using length_dropWhile_le [of ansi_param "tl cs"] by simp
qed simp_all

definition control_char :: "char \<Rightarrow> bool" where
  "control_char c \<longleftrightarrow> of_char c \<in> {0 .. 8} \<union> {11 .. 31} \<union> {127 :: nat}"

definition binary_notice :: "nat \<Rightarrow> string" where
  "binary_notice n = ''[binary output, '' @ show_nat n @ '' bytes not shown]''"

definition cleanOutput :: "string \<Rightarrow> string" where
  "cleanOutput raw =
     (if raw = [] then raw
      else
        let t = strip_ansi (join newline (map last_frame (split_at_char CHR 0x0A raw)))
        in if length (filter control_char t) * 10 > length t then binary_notice (length raw)
           else filter (\<lambda>c. \<not> control_char c) t)"

definition noticeTail :: "string \<Rightarrow> nat \<Rightarrow> string \<times> bool" where
  "noticeTail output maxChars =
     (let t = trim_end output
      in if length t \<le> maxChars then (t, False)
         else
           let tail = (if maxChars = 0 then t else drop (length t - maxChars) t)
           in case indexOf tail newline of
                Some nl \<Rightarrow> if nl < length tail - 1 then (drop (nl + 1) tail, True) else (tail, True)
              | None \<Rightarrow> (tail, True))"

subsection \<open>Reading a job\<close>

datatype job_state = JobRunning | JobExited | JobUnknown

record job_status =
  js_jobId :: string
  js_command :: string
  js_state :: job_state
  js_exitCode :: "int option option"
  js_died :: bool
  js_output :: string
  js_truncated :: bool
  js_size :: "int option"
  js_start :: "int option"
  js_logPath :: string

definition digits :: "string \<Rightarrow> string" where
  "digits s = takeWhile (\<lambda>c. of_char c \<in> {48 .. (57 :: nat)}) s"

definition number_of :: "string \<Rightarrow> nat" where
  "number_of s = foldl (\<lambda>n c. 10 * n + (of_char c - 48)) 0 s"

text \<open>\<^verbatim>\<open>Number.parseInt(s, 10)\<close> of a trimmed string; \<^const>\<open>None\<close> is \<^verbatim>\<open>NaN\<close>.\<close>

definition parseInt :: "string \<Rightarrow> int option" where
  "parseInt s =
     (let neg = starts_with s ''-''; t = (if neg \<or> starts_with s ''+'' then tl s else s)
      in if digits t = [] then None else Some ((if neg then - 1 else 1) * int (number_of (digits t))))"

definition section_of :: "string \<Rightarrow> string \<Rightarrow> string option \<Rightarrow> string" where
  "section_of t start stop =
     (case indexOf t start of
        None \<Rightarrow> []
      | Some i \<Rightarrow>
          let after = drop (i + length start) t;
              rest = (if starts_with after newline then tl after else after)
          in case stop of
               None \<Rightarrow> rest
             | Some e \<Rightarrow> (case indexOf rest e of None \<Rightarrow> rest | Some j \<Rightarrow> take j rest))"

text \<open>The window asked for: its size and, unless it is the tail, its offset.\<close>

definition window_size :: "int option \<Rightarrow> int" where
  "window_size maxBytes = max 1 (min (case maxBytes of None \<Rightarrow> DEFAULT_MAX_OUTPUT | Some b \<Rightarrow> b) MAX_OUTPUT_CAP)"

definition window_offset :: "int option \<Rightarrow> int option" where
  "window_offset offset = map_option (max 0) offset"

text \<open>\<^verbatim>\<open>check\<close> after its exec: \<open>out\<close> is what the probe printed.\<close>

definition check_result :: "string \<Rightarrow> string \<Rightarrow> int \<Rightarrow> int option \<Rightarrow> string \<Rightarrow> job_status" where
  "check_result jobId command n offset out =
     (if str_includes out ''__MISSING__''
      then \<lparr>js_jobId = jobId, js_command = command, js_state = JobUnknown, js_exitCode = None, js_died = False, js_output = [],
             js_truncated = False, js_size = None, js_start = None, js_logPath = job_dir jobId @ ''/log''\<rparr>
      else
        let statusRaw = trim (section_of out ''__STATUS__'' (Some ''__ALIVE__''));
            aliveRaw = trim (section_of out ''__ALIVE__'' (Some ''__SIZE__''));
            sizeRaw = trim (section_of out ''__SIZE__'' (Some ''__LOG__''));
            log = section_of out ''__LOG__'' None;
            size = (case parseInt sizeRaw of None \<Rightarrow> 0 | Some k \<Rightarrow> k);
            readFrom = (case offset of None \<Rightarrow> max 0 (size - n) | Some o' \<Rightarrow> o');
            stop = min size (readFrom + n);
            cut = (case indexOf log newline of
                     Some nl \<Rightarrow> if offset = None \<and> readFrom > 0 \<and> nl < length log - 1 then nl + 1 else 0
                   | None \<Rightarrow> 0);
            start = readFrom + int cut;
            exited = statusRaw \<noteq> [];
            died = (\<not> exited \<and> aliveRaw = ''n'')
        in \<lparr>js_jobId = jobId, js_command = command, js_state = (if exited \<or> died then JobExited else JobRunning),
             js_exitCode = (if exited then Some (parseInt statusRaw) else if died then Some (Some 137) else None),
             js_died = died, js_output = cleanOutput (drop cut log), js_truncated = (start > 0 \<or> stop < size),
             js_size = Some size, js_start = Some start, js_logPath = job_dir jobId @ ''/log''\<rparr>)"

text \<open>A job's directory, and what the probe prints: the end of the log, or the part at an offset.\<close>

record job_files =
  jf_status :: "string option"
  jf_alive :: bool
  jf_log :: string

definition log_window :: "int \<Rightarrow> int option \<Rightarrow> string \<Rightarrow> string" where
  "log_window n offset log =
     (case offset of None \<Rightarrow> drop (length log - nat n) log | Some o' \<Rightarrow> take (nat n) (drop (nat o') log))"

definition probe_output :: "int \<Rightarrow> int option \<Rightarrow> job_files option \<Rightarrow> string" where
  "probe_output n offset dir =
     (case dir of
        None \<Rightarrow> ''__MISSING__'' @ newline
      | Some f \<Rightarrow>
          ''__STATUS__'' @ newline @ (case jf_status f of None \<Rightarrow> [] | Some s \<Rightarrow> s) @ newline
          @ ''__ALIVE__'' @ newline @ (if jf_alive f then ''y'' else ''n'') @ newline
          @ ''__SIZE__'' @ newline @ show_nat (length (jf_log f)) @ newline
          @ ''__LOG__'' @ newline @ log_window n offset (jf_log f))"

subsection \<open>The watcher\<close>

definition poll_pending :: "string list \<Rightarrow> job_record list \<Rightarrow> job_record list" where
  "poll_pending notified jobs = filter (\<lambda>j. jb_notifiedAt j \<in> {None, Some 0} \<and> jb_jobId j \<notin> set notified) jobs"

text \<open>
  One job of \<^verbatim>\<open>pollCompletions\<close>, when its check has answered, or failed (\<^const>\<open>None\<close>): the
  memory of announced jobs and the completions so far.
\<close>

definition poll_one :: "string list \<times> job_status list \<Rightarrow> job_record \<times> job_status option \<Rightarrow> string list \<times> job_status list" where
  "poll_one st x =
     (case x of
        (j, None) \<Rightarrow> st
      | (j, Some s) \<Rightarrow>
          if js_state s = JobRunning then st
          else (List.insert (jb_jobId j) (fst st), snd st @ (if js_state s = JobExited then [s] else [])))"

text \<open>\<open>probe\<close> gives what the exec of a job's check prints, if it succeeds.\<close>

definition check_job :: "(job_record \<Rightarrow> string option) \<Rightarrow> job_record \<Rightarrow> job_status option" where
  "check_job probe j = map_option (check_result (jb_jobId j) (jb_command j) (window_size None) None) (probe j)"

definition pollCompletions ::
  "(job_record \<Rightarrow> string option) \<Rightarrow> job_record list \<Rightarrow> string list \<Rightarrow> string list \<times> job_status list" where
  "pollCompletions probe jobs notified =
     foldl poll_one (notified, []) (map (\<lambda>j. (j, check_job probe j)) (poll_pending notified jobs))"

text \<open>\<^verbatim>\<open>markNotified\<close>: the memory, and the update it asks of the registry.\<close>

definition markNotified :: "int \<Rightarrow> string \<Rightarrow> job_record list \<Rightarrow> string list \<Rightarrow> string list \<times> job_record option" where
  "markNotified now jobId jobs notified =
     (if jobId \<in> set notified then (notified, None)
      else (jobId # notified,
            case find (\<lambda>j. jb_jobId j = jobId) jobs of
              Some j \<Rightarrow> if jb_notifiedAt j \<in> {None, Some 0} then Some (j\<lparr>jb_notifiedAt := Some now\<rparr>) else None
            | None \<Rightarrow> None))"

datatype kill_outcome = Killed | AlreadyExited | KillUnknown

definition kill_result :: "string option \<Rightarrow> kill_outcome" where
  "kill_result out =
     (let o' = (case out of None \<Rightarrow> [] | Some x \<Rightarrow> x)
      in if str_includes o' ''__UNKNOWN__'' then KillUnknown
         else if str_includes o' ''__EXITED__'' then AlreadyExited else Killed)"

text \<open>The watcher's life: polls, one after the other, and jobs marked as seen between them.\<close>

datatype watch_event = WatchPoll "job_record \<Rightarrow> string option" "job_record list" | WatchMark string "job_record list" int

fun watch_step :: "string list \<times> job_status list \<Rightarrow> watch_event \<Rightarrow> string list \<times> job_status list" where
  "watch_step (notified, told) (WatchPoll probe jobs) =
     (let r = pollCompletions probe jobs notified in (fst r, told @ snd r))"
| "watch_step (notified, told) (WatchMark jobId jobs now) = (fst (markNotified now jobId jobs notified), told)"

end
