(* ===== verification/Job_Laws.thy ===== *)
theory Job_Laws
  imports Job_Manager
begin

text \<open>
  What holds of background jobs: quoting protects the command, a probe's output is read as the state of
  the job it describes, what is shown of a log is free of control characters, and a job is announced
  once; and where overlapping polls and words in the log break this.
\<close>

subsection \<open>Quoting\<close>

lemma sh_word_quoted:
  "sh_word True (concat (map (\<lambda>c. if c = quote_char then [quote_char, backslash, quote_char, quote_char] else [c]) s)
      @ quote_char # rest) = map_option (\<lambda>(w, r). (s @ w, r)) (sh_word False rest)"
proof (induction s)
  case Nil
  then show ?case by (simp add: map_option_case split: option.split)
next
  case (Cons c s)
  then show ?case
    by (cases "c = quote_char") (auto simp: quote_char_def backslash_def map_option_case split: option.split)
qed

text \<open>
  C30 (roundtrip). A shell reads the quoted form of any text back as one word, the text itself, up to the
  blank that follows it: nothing in a command, quotes included, can end the word early.
\<close>

theorem shSingleQuote_roundtrip:
  assumes "rest = [] \<or> hd rest = CHR '' ''"
  shows "sh_word False (shSingleQuote s @ rest) = Some (s, rest)"
proof -
  have "sh_word False rest = Some ([], rest)"
    using assms by (cases rest) (simp_all add: quote_char_def)
  then show ?thesis using sh_word_quoted [of s rest] by (simp add: shSingleQuote_def)
qed

theorem shSingleQuote_roundtrip_witness:
  "sh_word False (shSingleQuote ''it'' @ '' > out'') = Some (''it'', '' > out'')"
  by (rule shSingleQuote_roundtrip) simp

subsection \<open>Cleaning\<close>

lemma show_nat_digits: "c \<in> set (show_nat n) \<Longrightarrow> of_char c \<in> {48 .. (57 :: nat)}"
proof (induction n rule: show_nat.induct)
  case (1 n)
  show ?case
  proof (cases "n < 10")
    case True
    with 1 show ?thesis by (auto simp: show_nat.simps [of n])
  next
    case False
    have "48 + n mod 10 < 256" by (rule less_le_trans [of _ 58]) simp_all
    with False 1 show ?thesis by (auto simp: show_nat.simps [of n] split: if_splits)
  qed
qed

text \<open>
  What a check shows of a log has no control character but tabs and line breaks, whatever
  the job printed.
\<close>

theorem cleanOutput_no_control: "list_all (\<lambda>c. \<not> control_char c) (cleanOutput raw)"
proof -
  have "\<not> control_char c" if "c \<in> set (show_nat n)" for c n
    using show_nat_digits [OF that] by (auto simp: control_char_def)
  then have "list_all (\<lambda>c. \<not> control_char c) (binary_notice n)" for n
    by (simp add: binary_notice_def list_all_iff) (simp add: control_char_def)
  then show ?thesis by (auto simp: cleanOutput_def Let_def list_all_iff)
qed

text \<open>
  A notice shows the end of the output, of at most the characters asked for, and says
  whether something is missing.
\<close>

theorem noticeTail_bounded:
  assumes "0 < maxChars" and "noticeTail output maxChars = (shown, shortened)"
  shows "length shown \<le> maxChars \<and> (\<exists>before. trim_end output = before @ shown \<and> (before = [] \<longleftrightarrow> \<not> shortened))"
proof (cases "length (trim_end output) \<le> maxChars")
  case True
  then show ?thesis using assms(2) by (auto simp: noticeTail_def)
next
  case False
  define t where "t = trim_end output"
  define tail where "tail = (if maxChars = 0 then t else drop (length t - maxChars) t)"
  have tail: "tail = drop (length t - maxChars) t" using assms(1) by (simp add: tail_def)
  have "(shown, shortened) = (case indexOf tail newline of
      Some nl \<Rightarrow> if nl < length tail - 1 then (drop (nl + 1) tail, True) else (tail, True) | None \<Rightarrow> (tail, True))"
    using assms False unfolding noticeTail_def Let_def t_def [symmetric] tail_def [symmetric] by simp
  then obtain k where k: "shown = drop k tail" "shortened"
    by (cases "indexOf tail newline") (auto split: if_splits intro: that [of 0])
  have "t = take (length t - maxChars + k) t @ shown" by (simp add: k tail add.commute)
  moreover have "take (length t - maxChars + k) t \<noteq> []" using False by (auto simp: t_def)
  moreover have "length shown \<le> maxChars" using False by (simp add: k tail t_def)
  ultimately show ?thesis using k(2) unfolding t_def by blast
qed

theorem noticeTail_bounded_witness:
  "noticeTail ''12345678'' 3 = (''678'', True) \<and> length ''678'' \<le> (3 :: nat)"
  using noticeTail_bounded [of 3 "''12345678''" "''678''" True]
  by (simp add: noticeTail_def trim_end_def js_space_def newline_def)

subsection \<open>Reading a probe\<close>

text \<open>
  A marker is found where it was printed when one of its characters does not occur before it, and what
  comes before it ends in a character that is not in the marker.
\<close>

lemma indexOf_first:
  "c \<in> set p \<Longrightarrow> c \<notin> set a \<Longrightarrow> a = [] \<or> last a \<notin> set p \<Longrightarrow> indexOf (a @ p @ b) p = Some (length a)"
proof (induction a)
  case Nil
  have "take (length p) (p @ b) = p" by simp
  with Nil show ?case by (cases "p @ b") (auto simp del: take_append)
next
  case (Cons x a)
  have "take (length p) (x # a @ p @ b) \<noteq> p"
  proof
    assume pre: "take (length p) (x # a @ p @ b) = p"
    show False
    proof (cases "length p \<le> length (x # a)")
      case True
      then have "p = take (length p) (x # a)" using pre take_append [of "length p" "x # a" "p @ b"] by simp
      then show False using Cons.prems(1,2) by (metis in_set_takeD)
    next
      case False
      then have "p = (x # a) @ take (length p - length (x # a)) (p @ b)"
        using pre take_append [of "length p" "x # a" "p @ b"] by simp
      then have "last (x # a) \<in> set p" by (metis Un_iff last_in_set list.distinct(1) set_append)
      then show False using Cons.prems(3) by simp
    qed
  qed
  moreover have "indexOf (a @ p @ b) p = Some (length a)"
    using Cons.prems by (intro Cons.IH) (auto split: if_splits)
  ultimately show ?case by simp
qed

text \<open>A text that starts with other material contains a marker only if the rest does.\<close>

lemma includes_after:
  assumes "c \<in> set p" and "c \<notin> set a" and "a = [] \<or> last a \<notin> set p" and "str_includes (a @ w) p"
  shows "str_includes w p"
proof -
  obtain u v where uv: "a @ w = u @ p @ v"
    using assms(4) by (auto simp: str_includes_def indexOf_None_iff)
  have "length a \<le> length u"
  proof (rule ccontr)
    assume short: "\<not> length a \<le> length u"
    then have eq: "drop (length u) a @ w = p @ v" using arg_cong [OF uv, of "drop (length u)"] by simp
    show False
    proof (cases "length p \<le> length (drop (length u) a)")
      case True
      then have "p = take (length p) (drop (length u) a)" using arg_cong [OF eq, of "take (length p)"] by simp
      then show False using assms(1,2) by (metis in_set_dropD in_set_takeD)
    next
      case False
      then have "\<exists>r. p = drop (length u) a @ r" using eq by (metis append_eq_append_conv_if append_take_drop_id nat_le_linear)
      then have "last a \<in> set p" using short by (metis Un_iff drop_eq_Nil last_drop last_in_set nle_le not_le set_append)
      then show False using assms(3) short by auto
    qed
  qed
  then have "w = drop (length a) u @ p @ v" using arg_cong [OF uv, of "drop (length a)"] by simp
  then show ?thesis by (auto simp: str_includes_def indexOf_None_iff)
qed

lemma section_between:
  assumes "c \<in> set start" and "c \<notin> set a" and "a = [] \<or> last a \<notin> set start"
    and "d \<in> set stop" and "d \<notin> set body" and "body = [] \<or> last body \<notin> set stop"
  shows "section_of (a @ start @ newline @ body @ stop @ b) start (Some stop) = body"
proof -
  have "indexOf (a @ start @ newline @ body @ stop @ b) start = Some (length a)"
    using assms(1-3) by (rule indexOf_first)
  moreover have "indexOf (body @ stop @ b) stop = Some (length body)" using assms(4-6) by (rule indexOf_first)
  ultimately show ?thesis by (simp add: section_of_def starts_with_def newline_def)
qed

lemma section_to_end:
  assumes "c \<in> set start" and "c \<notin> set a" and "a = [] \<or> last a \<notin> set start"
  shows "section_of (a @ start @ newline @ body) start None = body"
  using indexOf_first [OF assms] by (simp add: section_of_def starts_with_def newline_def)

lemma trim_line:
  assumes "\<And>c. c \<in> set s \<Longrightarrow> \<not> js_space c"
  shows "trim (s @ newline) = s"
proof -
  have nl: "js_space (CHR 0x0A)" by (simp add: js_space_def)
  show ?thesis
  proof (cases s)
    case Nil
    then show ?thesis using nl by (simp add: trim_def trim_end_def newline_def)
  next
    case (Cons c cs)
    then have "dropWhile js_space (s @ newline) = s @ newline" using assms by auto
    moreover have "dropWhile js_space (rev s) = rev s" using assms last_in_set [of s] by (auto simp: dropWhile_eq_self_iff hd_rev)
    ultimately show ?thesis using nl by (simp add: trim_def trim_end_def newline_def)
  qed
qed

lemma show_nat_nonempty: "show_nat n \<noteq> []"
  by (subst show_nat.simps) simp

lemma number_of_snoc: "number_of (s @ [c]) = 10 * number_of s + (of_char c - 48)"
  by (simp add: number_of_def)

lemma number_of_show_nat: "number_of (show_nat n) = n"
proof (induction n rule: show_nat.induct)
  case (1 n)
  show ?case
  proof (cases "n < 10")
    case True
    then show ?thesis by (simp add: show_nat.simps [of n] number_of_def)
  next
    case False
    have "48 + n mod 10 < 256" by (rule less_le_trans [of _ 58]) simp_all
    then have "(of_char (char_of (48 + n mod 10) :: char) :: nat) = 48 + n mod 10" by simp
    with False 1 show ?thesis by (simp add: show_nat.simps [of n] number_of_snoc)
  qed
qed

lemma parseInt_show_nat: "parseInt (show_nat n) = Some (int n)"
proof -
  have "digits (show_nat n) = show_nat n"
    using show_nat_digits by (auto simp: digits_def takeWhile_eq_all_conv)
  moreover have "\<not> starts_with (show_nat n) [c]" if "of_char c \<notin> {48 .. (57 :: nat)}" for c
    using that show_nat_digits [of c n] show_nat_nonempty [of n] by (cases "show_nat n") (auto simp: starts_with_def)
  ultimately show ?thesis
    using show_nat_nonempty [of n] number_of_show_nat [of n] by (simp add: parseInt_def)
qed

lemma show_nat_no_space: "c \<in> set (show_nat n) \<Longrightarrow> \<not> js_space c"
  using show_nat_digits [of c n] by (auto simp: js_space_def)

lemma last_newline: "last (xs @ newline) = CHR 0x0A" "xs @ newline \<noteq> []"
  by (simp_all add: newline_def)

text \<open>The four parts of a probe's output.\<close>

lemma probe_sections:
  fixes log :: string and bytes :: nat and alive :: char and status :: string
  assumes "list_all (\<lambda>c. of_char c \<in> {48 .. (57 :: nat)}) status"
  defines "out \<equiv> ''__STATUS__'' @ newline @ status @ newline @ ''__ALIVE__'' @ newline @ [alive] @ newline
      @ ''__SIZE__'' @ newline @ show_nat bytes @ newline @ ''__LOG__'' @ newline @ log"
  assumes "alive = CHR ''y'' \<or> alive = CHR ''n''"
  shows "section_of out ''__STATUS__'' (Some ''__ALIVE__'') = status @ newline"
    and "section_of out ''__ALIVE__'' (Some ''__SIZE__'') = [alive] @ newline"
    and "section_of out ''__SIZE__'' (Some ''__LOG__'') = show_nat bytes @ newline"
    and "section_of out ''__LOG__'' None = log"
    and "\<not> str_includes log ''__MISSING__'' \<Longrightarrow> \<not> str_includes out ''__MISSING__''"
proof -
  have dig: "c \<notin> set status" "c \<notin> set (show_nat bytes)" if "of_char c \<notin> {48 .. (57 :: nat)}" for c
    using that assms(1) show_nat_digits [of c bytes] by (auto simp: list_all_iff)
  have al: "c \<noteq> alive" if "c \<noteq> CHR ''y''" "c \<noteq> CHR ''n''" for c using that assms(3) by blast
  note [simp] = dig al last_newline newline_def
  show "section_of out ''__STATUS__'' (Some ''__ALIVE__'') = status @ newline"
    using section_between [of "CHR ''T''" "''__STATUS__''" "[]" "CHR ''L''" "''__ALIVE__''" "status @ newline"]
    by (simp add: out_def)
  show "section_of out ''__ALIVE__'' (Some ''__SIZE__'') = [alive] @ newline"
    using section_between [of "CHR ''L''" "''__ALIVE__''" "''__STATUS__'' @ newline @ status @ newline"
        "CHR ''Z''" "''__SIZE__''" "[alive] @ newline"]
    by (simp add: out_def)
  show "section_of out ''__SIZE__'' (Some ''__LOG__'') = show_nat bytes @ newline"
    using section_between [of "CHR ''Z''" "''__SIZE__''"
        "''__STATUS__'' @ newline @ status @ newline @ ''__ALIVE__'' @ newline @ [alive] @ newline"
        "CHR ''G''" "''__LOG__''" "show_nat bytes @ newline"]
    by (simp add: out_def)
  let ?a = "''__STATUS__'' @ newline @ status @ newline @ ''__ALIVE__'' @ newline @ [alive] @ newline
      @ ''__SIZE__'' @ newline @ show_nat bytes @ newline"
  show "section_of out ''__LOG__'' None = log"
    using section_to_end [of "CHR ''G''" "''__LOG__''" ?a log] by (simp add: out_def)
  show "\<not> str_includes out ''__MISSING__''" if "\<not> str_includes log ''__MISSING__''"
    using includes_after [of "CHR ''M''" "''__MISSING__''" "?a @ ''__LOG__'' @ newline" log] that by (auto simp: out_def)
qed

text \<open>How far a tail is moved to the next line.\<close>

definition line_cut :: "int option \<Rightarrow> int \<Rightarrow> string \<Rightarrow> nat" where
  "line_cut offset readFrom log =
     (case indexOf log newline of
        Some nl \<Rightarrow> if offset = None \<and> readFrom > 0 \<and> nl < length log - 1 then nl + 1 else 0
      | None \<Rightarrow> 0)"

definition shown_status :: "nat option \<Rightarrow> string" where
  "shown_status code = (case code of None \<Rightarrow> [] | Some k \<Rightarrow> show_nat k)"

lemma check_probe:
  fixes f :: job_files
  assumes "jf_status f = map_option show_nat code" and "\<not> str_includes (log_window n offset (jf_log f)) ''__MISSING__''"
  defines "w \<equiv> log_window n offset (jf_log f)" and "bytes \<equiv> int (length (jf_log f))"
  defines "readFrom \<equiv> (case offset of None \<Rightarrow> max 0 (bytes - n) | Some o' \<Rightarrow> o')"
  defines "start \<equiv> readFrom + int (line_cut offset readFrom w)"
  shows "check_result jobId command n offset (probe_output n offset (Some f)) =
    \<lparr>js_jobId = jobId, js_command = command, js_state = (if code = None \<and> jf_alive f then JobRunning else JobExited),
     js_exitCode = (case code of Some k \<Rightarrow> Some (Some (int k)) | None \<Rightarrow> if jf_alive f then None else Some (Some 137)),
     js_died = (code = None \<and> \<not> jf_alive f), js_output = cleanOutput (drop (line_cut offset readFrom w) w),
     js_truncated = (start > 0 \<or> min bytes (readFrom + n) < bytes), js_size = Some bytes, js_start = Some start,
     js_logPath = job_dir jobId @ ''/log''\<rparr>"
proof -
  let ?status = "shown_status code" and ?alive = "if jf_alive f then CHR ''y'' else CHR ''n''"
  let ?out = "''__STATUS__'' @ newline @ ?status @ newline @ ''__ALIVE__'' @ newline @ [?alive] @ newline
      @ ''__SIZE__'' @ newline @ show_nat (length (jf_log f)) @ newline @ ''__LOG__'' @ newline @ w"
  have out: "probe_output n offset (Some f) = ?out"
    using assms(1) by (auto simp: probe_output_def w_def shown_status_def split: option.split)
  have dig: "list_all (\<lambda>c. of_char c \<in> {48 .. (57 :: nat)}) ?status"
    using show_nat_digits by (auto simp: shown_status_def list_all_iff split: option.split)
  have alive: "?alive = CHR ''y'' \<or> ?alive = CHR ''n''" by simp
  note sections = probe_sections [OF dig alive, where bytes = "length (jf_log f)" and log = w]
  have "trim (?status @ newline) = ?status"
    using show_nat_no_space by (intro trim_line) (auto simp: shown_status_def split: option.splits)
  moreover have "trim ([?alive] @ newline) = [?alive]" by (intro trim_line) (auto simp: js_space_def split: if_splits)
  moreover have "trim (show_nat (length (jf_log f)) @ newline) = show_nat (length (jf_log f))"
    using show_nat_no_space by (intro trim_line) auto
  moreover have "\<not> str_includes ?out ''__MISSING__''" using sections(5) assms(2) by (simp add: w_def)
  moreover have "?status = [] \<longleftrightarrow> code = None" by (simp add: shown_status_def show_nat_nonempty split: option.split)
  moreover have "code \<noteq> None \<Longrightarrow> parseInt ?status = Some (int (the code))"
    by (auto simp: shown_status_def parseInt_show_nat)
  ultimately show ?thesis
    unfolding out check_result_def sections(1-4) Let_def line_cut_def [symmetric]
    by (cases code; cases offset) (simp_all add: parseInt_show_nat bytes_def readFrom_def start_def line_cut_def)
qed

lemma str_includes_part: "str_includes (take k (drop j s)) p \<Longrightarrow> str_includes s p"
proof -
  assume "str_includes (take k (drop j s)) p"
  then obtain a b where "take k (drop j s) = a @ p @ b" by (auto simp: str_includes_def indexOf_None_iff)
  then have "s = (take j s @ a) @ p @ (b @ drop k (drop j s))"
    by (metis append.assoc append_take_drop_id)
  then show ?thesis unfolding str_includes_def indexOf_None_iff by blast
qed

text \<open>
  A check reads a job as it is: exited with the code in its status file, or running, or,
  with neither a status nor a process, killed; and it shows a window of the log, from where it says,
  of at most the size asked for, and whether that is not all of it. The job's log must not contain the
  word the probe prints for a missing directory.
\<close>

theorem check_reads_job:
  fixes f :: job_files
  assumes "jf_status f = map_option show_nat code" and "\<not> str_includes (jf_log f) ''__MISSING__''"
    and "1 \<le> n" and "offset \<in> insert None (Some ` {0..})"
  shows "\<exists>start st. check_result jobId command n offset (probe_output n offset (Some f)) = st
    \<and> js_state st = (if code = None \<and> jf_alive f then JobRunning else JobExited)
    \<and> js_exitCode st = (case code of Some k \<Rightarrow> Some (Some (int k)) | None \<Rightarrow> if jf_alive f then None else Some (Some 137))
    \<and> js_size st = Some (int (length (jf_log f))) \<and> js_start st = Some (int start)
    \<and> js_output st = cleanOutput (take (nat n) (drop start (jf_log f)))
    \<and> (js_truncated st \<longleftrightarrow> 0 < start \<or> start + nat n < length (jf_log f))"
proof -
  let ?log = "jf_log f"
  have clean: "\<not> str_includes (log_window n offset ?log) ''__MISSING__''"
  proof
    assume w: "str_includes (log_window n offset ?log) ''__MISSING__''"
    have "log_window n offset ?log = take (length ?log) (drop (length ?log - nat n) ?log)" if "offset = None"
      using that by (simp add: log_window_def)
    then have "\<exists>k j. log_window n offset ?log = take k (drop j ?log)"
      by (cases offset) (blast, auto simp: log_window_def)
    with w show False using assms(2) str_includes_part by metis
  qed
  show ?thesis
  proof (cases offset)
    case None
    define m where "m = length ?log - nat n"
    define cut where "cut = line_cut None (int m) (log_window n None ?log)"
    have rf: "max 0 (int (length ?log) - n) = int m" using assms(3) by (simp add: m_def)
    have out: "drop cut (log_window n None ?log) = take (nat n) (drop (m + cut) ?log)"
      by (simp add: log_window_def m_def add.commute)
    have tr: "0 < int m + int cut \<or> min (int (length ?log)) (int m + n) < int (length ?log) \<longleftrightarrow>
        0 < m + cut \<or> m + cut + nat n < length ?log"
      using assms(3) by (auto simp: m_def)
    note probe = check_probe [OF assms(1) clean, of jobId command, unfolded None option.case rf, folded cut_def, unfolded out tr]
    show ?thesis by (intro exI [of _ "m + cut"]) (simp add: None probe)
  next
    case (Some o')
    have "line_cut (Some o') r w = 0" for r w by (simp add: line_cut_def split: option.split)
    then show ?thesis
      using check_probe [OF assms(1) clean, of jobId command] assms(3,4) Some
      by (intro exI [of _ "nat o'"]) (auto simp: log_window_def)
  qed
qed

definition finished_files :: job_files where
  "finished_files = \<lparr>jf_status = Some (show_nat 0), jf_alive = False, jf_log = ''done''\<rparr>"

theorem check_reads_job_witness:
  "\<exists>start st. check_result ''job-1'' ''make'' 100 None (probe_output 100 None (Some finished_files)) = st
     \<and> js_state st = JobExited \<and> js_exitCode st = Some (Some 0) \<and> js_start st = Some (int start)
     \<and> js_output st = cleanOutput (take 100 (drop start ''done''))"
proof -
  have "jf_status finished_files = map_option show_nat (Some 0)" "\<not> str_includes (jf_log finished_files) ''__MISSING__''"
    by (simp_all add: finished_files_def str_includes_def)
  from check_reads_job [OF this, of 100 None "''job-1''" "''make''"] show ?thesis
    by (auto simp: finished_files_def)
qed

text \<open>A job whose output contains the word is taken for one whose directory is gone, although it has exited.\<close>

theorem marker_in_log_hides_job:
  "js_state (check_result ''job-1'' ''make'' 100 None
     (probe_output 100 None (Some (finished_files\<lparr>jf_log := ''__MISSING__''\<rparr>)))) = JobUnknown"
  by (simp add: check_result_def probe_output_def finished_files_def log_window_def str_includes_def newline_def show_nat.simps)

subsection \<open>Announcing\<close>

lemma check_job_id: "check_job probe j = Some s \<Longrightarrow> js_jobId s = jb_jobId j"
  by (auto simp: check_job_def check_result_def Let_def)

lemma poll_fold:
  assumes "distinct (map jb_jobId js)"
  shows "set (fst (foldl poll_one (notified, told) (map (\<lambda>j. (j, check_job probe j)) js))) =
      set notified \<union> {jb_jobId j |j s. j \<in> set js \<and> check_job probe j = Some s \<and> js_state s \<noteq> JobRunning}
    \<and> snd (foldl poll_one (notified, told) (map (\<lambda>j. (j, check_job probe j)) js)) =
      told @ List.map_filter (\<lambda>j. case check_job probe j of Some s \<Rightarrow> if js_state s = JobExited then Some s else None | None \<Rightarrow> None) js"
  using assms
proof (induction js arbitrary: notified told)
  case (Cons j js)
  then show ?case
    by (cases "check_job probe j") (auto simp: poll_one_def map_filter_simps split: job_state.splits)
qed (simp add: map_filter_simps)

lemma mem_map_filter: "y \<in> set (List.map_filter f xs) \<longleftrightarrow> (\<exists>x \<in> set xs. f x = Some y)"
  by (induction xs) (auto simp: map_filter_simps split: option.splits)

lemma map_filter_ids:
  assumes "distinct (map jb_jobId js)" and "\<And>j s. f j = Some s \<Longrightarrow> js_jobId s = jb_jobId j"
  shows "distinct (map js_jobId (List.map_filter f js)) \<and> set (map js_jobId (List.map_filter f js)) \<subseteq> set (map jb_jobId js)"
  using assms(1)
proof (induction js)
  case (Cons j js)
  then show ?case using assms(2) [of j] by (cases "f j") (auto simp: map_filter_simps)
qed (simp add: map_filter_simps)

lemma pollCompletions_spec:
  fixes probe :: "job_record \<Rightarrow> string option" and notified :: "string list"
  assumes "distinct (map jb_jobId jobs)"
  defines "r \<equiv> pollCompletions probe jobs notified"
  shows "set notified \<subseteq> set (fst r)" and "distinct (map js_jobId (snd r))"
    and "set (map js_jobId (snd r)) \<inter> set notified = {}" and "set (map js_jobId (snd r)) \<subseteq> set (fst r)"
    and "s \<in> set (snd r) \<longleftrightarrow> js_state s = JobExited \<and> (\<exists>j \<in> set (poll_pending notified jobs). check_job probe j = Some s)"
proof -
  let ?js = "poll_pending notified jobs"
  let ?f = "\<lambda>j. case check_job probe j of Some s \<Rightarrow> if js_state s = JobExited then Some s else None | None \<Rightarrow> None"
  have d: "distinct (map jb_jobId ?js)" using assms(1) by (simp add: poll_pending_def distinct_map_filter)
  note fold = poll_fold [OF d, of notified "[]" probe]
  have r: "snd r = List.map_filter ?f ?js" using fold by (simp add: r_def pollCompletions_def)
  have ids: "js_jobId s = jb_jobId j" if "?f j = Some s" for j s
    using that check_job_id by (auto split: option.splits if_splits)
  show "set notified \<subseteq> set (fst r)" using fold by (auto simp: r_def pollCompletions_def)
  show "distinct (map js_jobId (snd r))" using map_filter_ids [OF d ids] by (simp add: r)
  have sub: "set (map js_jobId (snd r)) \<subseteq> set (map jb_jobId ?js)" using map_filter_ids [OF d ids] by (simp add: r)
  then show "set (map js_jobId (snd r)) \<inter> set notified = {}" by (auto simp: poll_pending_def)
  show mem: "s \<in> set (snd r) \<longleftrightarrow> js_state s = JobExited \<and> (\<exists>j \<in> set ?js. check_job probe j = Some s)" for s
    unfolding r mem_map_filter by (auto split: option.splits if_splits)
  show "set (map js_jobId (snd r)) \<subseteq> set (fst r)"
    using fold mem check_job_id by (fastforce simp: r_def pollCompletions_def)
qed

text \<open>
  C29 (safety). Polls that follow each other announce a job at most once in the life of a process, however
  the registry answers and even if no update of it gets through; and a poll announces exactly the jobs
  it finds exited among those it was told of and that were not announced or seen.
\<close>

theorem jobs_announced_once:
  assumes "\<And>probe jobs. WatchPoll probe jobs \<in> set xs \<Longrightarrow> distinct (map jb_jobId jobs)"
  shows "distinct (map js_jobId (snd (foldl watch_step ([], []) xs)))
    \<and> (distinct (map jb_jobId jobs) \<longrightarrow>
        (\<forall>s. s \<in> set (snd (pollCompletions probe jobs (fst (foldl watch_step ([], []) xs)))) \<longleftrightarrow>
          js_state s = JobExited
          \<and> (\<exists>j \<in> set (poll_pending (fst (foldl watch_step ([], []) xs)) jobs). check_job probe j = Some s)))"
proof -
  have "distinct (map js_jobId (snd (foldl watch_step st xs))) \<and> set (map js_jobId (snd (foldl watch_step st xs))) \<subseteq> set (fst (foldl watch_step st xs))"
    if "\<And>probe jobs. WatchPoll probe jobs \<in> set xs \<Longrightarrow> distinct (map jb_jobId jobs)"
      and "distinct (map js_jobId (snd st))" and "set (map js_jobId (snd st)) \<subseteq> set (fst st)" for st xs
    using that
  proof (induction xs arbitrary: st)
    case (Cons x xs)
    obtain notified told where st: "st = (notified, told)" by (cases st)
    have "distinct (map js_jobId (snd (watch_step st x))) \<and> set (map js_jobId (snd (watch_step st x))) \<subseteq> set (fst (watch_step st x))"
    proof (cases x)
      case (WatchPoll probe jobs)
      then have "distinct (map jb_jobId jobs)" using Cons.prems(1) [of probe jobs] by simp
      note poll = pollCompletions_spec(1-4) [OF this, where probe = probe and notified = notified]
      have "set (map js_jobId told) \<inter> set (map js_jobId (snd (pollCompletions probe jobs notified))) = {}"
        using poll(3) Cons.prems(3) by (simp add: st) blast
      then show ?thesis using poll Cons.prems(2,3) by (simp add: st WatchPoll Let_def)
    next
      case (WatchMark jobId jobs now)
      then show ?thesis using Cons.prems(2,3) st by (auto simp: markNotified_def)
    qed
    moreover have "distinct (map jb_jobId jobs)" if "WatchPoll probe jobs \<in> set xs" for probe jobs
      using that by (intro Cons.prems(1) [of probe]) simp
    ultimately show ?case using Cons.IH [of "watch_step st x"] by simp
  qed simp
  from this [of xs "([], [])"] show ?thesis using assms pollCompletions_spec(5) by simp
qed

definition finished_probe :: "job_record \<Rightarrow> string option" where
  "finished_probe j = Some (probe_output (window_size None) None (Some finished_files))"

lemma finished_check: "js_state (the (check_job finished_probe j)) = JobExited" "check_job finished_probe j \<noteq> None"
proof -
  have "jf_status finished_files = map_option show_nat (Some 0)" "\<not> str_includes (jf_log finished_files) ''__MISSING__''"
    by (simp_all add: finished_files_def str_includes_def)
  from check_reads_job [OF this, of "window_size None" None "jb_jobId j" "jb_command j"]
  show "js_state (the (check_job finished_probe j)) = JobExited"
    by (auto simp: check_job_def finished_probe_def window_size_def DEFAULT_MAX_OUTPUT_def MAX_OUTPUT_CAP_def)
  show "check_job finished_probe j \<noteq> None" by (simp add: check_job_def finished_probe_def)
qed

definition first_job :: job_record where
  "first_job = \<lparr>jb_jobId = ''job-1'', jb_command = ''make'', jb_startedAt = 1, jb_notifiedAt = None\<rparr>"

theorem jobs_announced_once_witness:
  "distinct (map js_jobId (snd (foldl watch_step ([], []) [WatchPoll finished_probe [first_job], WatchPoll finished_probe [first_job]])))
   \<and> the (check_job finished_probe first_job) \<in> set (snd (pollCompletions finished_probe [first_job] (fst (foldl watch_step ([], []) []))))"
proof -
  have "distinct (map js_jobId (snd (foldl watch_step ([], []) [WatchPoll finished_probe [first_job], WatchPoll finished_probe [first_job]])))"
    using jobs_announced_once [of "[WatchPoll finished_probe [first_job], WatchPoll finished_probe [first_job]]"] by simp
  moreover have "the (check_job finished_probe first_job) \<in> set (snd (pollCompletions finished_probe [first_job] (fst (foldl watch_step ([], []) []))))"
    using jobs_announced_once [of "[]" "[first_job]" finished_probe] finished_check [of first_job]
    by (auto simp: poll_pending_def first_job_def)
  ultimately show ?thesis by simp
qed

text \<open>
  Two polls of one conversation that overlap, the second begun before the first has checked the job,
  announce it both: the memory is not looked at again after the check.
\<close>

theorem overlapping_polls_announce_twice:
  "let pending = poll_pending [] [first_job];
       checked = map (\<lambda>j. (j, check_job finished_probe j)) pending;
       one = foldl poll_one ([], []) checked;
       two = foldl poll_one (fst one, []) checked
   in snd one = [the (check_job finished_probe first_job)] \<and> snd two = [the (check_job finished_probe first_job)]"
  using finished_check [of first_job] by (auto simp: poll_pending_def first_job_def poll_one_def Let_def)

end
