(* ===== verification/Sandbox_Resources.thy ===== *)
theory Sandbox_Resources
  imports Job_Laws
begin

text \<open>
  The size of a sandbox (\<^verbatim>\<open>session/resources.ts\<close>): validation of what a tool or the API is given, the
  Kubernetes form it is rendered to, and the way back. A GPU count is a JavaScript number: an integer,
  or some other number, of which only its rendering matters.
\<close>

datatype gpu_count = Whole int | NotWhole string

record quantities =
  q_cpu :: "string option"
  q_memory :: "string option"
  q_gpu :: "gpu_count option"

record sandbox_resources =
  sr_requests :: "quantities option"
  sr_limits :: "quantities option"

datatype resource_side = Requests | Limits
datatype resource_field = FieldCpu | FieldMemory | FieldGpu

text \<open>\<^verbatim>\<open>InvalidResourceError\<close>, by the field it names.\<close>

datatype resource_error = InvalidResource resource_side resource_field

subsection \<open>Validation\<close>

definition after_digits :: "string \<Rightarrow> string" where
  "after_digits s = drop (length (digits s)) s"

definition cpu_ok :: "string \<Rightarrow> bool" where
  "cpu_ok s \<longleftrightarrow> digits s \<noteq> [] \<and> after_digits s \<in> {[], ''m''}"

definition memory_ok :: "string \<Rightarrow> bool" where
  "memory_ok s \<longleftrightarrow> digits s \<noteq> []
     \<and> after_digits s \<in> set [[], ''Ki'', ''Mi'', ''Gi'', ''Ti'', ''Pi'', ''Ei'', ''K'', ''M'', ''G'', ''T'', ''P'', ''E'']"

definition gpu_ok :: "gpu_count \<Rightarrow> bool" where
  "gpu_ok g = (case g of Whole n \<Rightarrow> n \<ge> 0 | NotWhole _ \<Rightarrow> False)"

definition validate_side :: "resource_side \<Rightarrow> quantities option \<Rightarrow> resource_error option" where
  "validate_side side q =
     (case q of
        None \<Rightarrow> None
      | Some x \<Rightarrow>
          if (case q_cpu x of None \<Rightarrow> False | Some c \<Rightarrow> \<not> cpu_ok c) then Some (InvalidResource side FieldCpu)
          else if (case q_memory x of None \<Rightarrow> False | Some m \<Rightarrow> \<not> memory_ok m) then Some (InvalidResource side FieldMemory)
          else if (case q_gpu x of None \<Rightarrow> False | Some g \<Rightarrow> \<not> gpu_ok g) then Some (InvalidResource side FieldGpu)
          else None)"

definition validateResources :: "sandbox_resources \<Rightarrow> resource_error + sandbox_resources" where
  "validateResources r =
     (case validate_side Requests (sr_requests r) of
        Some e \<Rightarrow> Inl e
      | None \<Rightarrow> (case validate_side Limits (sr_limits r) of Some e \<Rightarrow> Inl e | None \<Rightarrow> Inr r))"

subsection \<open>Rendering\<close>

definition GPU_RESOURCE :: string where "GPU_RESOURCE = ''nvidia.com/gpu''"

record rendered_resources =
  rn_requests :: "(string \<rightharpoonup> string) option"
  rn_limits :: "(string \<rightharpoonup> string) option"

definition show_gpu :: "gpu_count \<Rightarrow> string" where
  "show_gpu g = (case g of Whole n \<Rightarrow> show_int n | NotWhole s \<Rightarrow> s)"

definition gpu_of :: "sandbox_resources \<Rightarrow> gpu_count option" where
  "gpu_of r = (case Option.bind (sr_requests r) q_gpu of Some g \<Rightarrow> Some g | None \<Rightarrow> Option.bind (sr_limits r) q_gpu)"

definition put :: "string \<Rightarrow> string option \<Rightarrow> (string \<rightharpoonup> string) \<Rightarrow> string \<rightharpoonup> string" where
  "put k v m = (case v of None \<Rightarrow> m | Some x \<Rightarrow> m(k \<mapsto> x))"

definition render_side :: "gpu_count option \<Rightarrow> quantities option \<Rightarrow> string \<rightharpoonup> string" where
  "render_side gpu q =
     put GPU_RESOURCE (map_option show_gpu gpu)
       (put ''memory'' (Option.bind q q_memory) (put ''cpu'' (Option.bind q q_cpu) Map.empty))"

definition nonempty :: "(string \<rightharpoonup> string) \<Rightarrow> (string \<rightharpoonup> string) option" where
  "nonempty m = (if m ''cpu'' = None \<and> m ''memory'' = None \<and> m GPU_RESOURCE = None then None else Some m)"

definition renderResources :: "sandbox_resources \<Rightarrow> rendered_resources" where
  "renderResources r = \<lparr>rn_requests = nonempty (render_side (gpu_of r) (sr_requests r)),
     rn_limits = nonempty (render_side (gpu_of r) (sr_limits r))\<rparr>"

text \<open>\<^verbatim>\<open>Number(s)\<close>: digits are read here, \<open>other\<close> reads any other string.\<close>

definition js_Number :: "(string \<Rightarrow> gpu_count) \<Rightarrow> string \<Rightarrow> gpu_count" where
  "js_Number other s = (if s \<noteq> [] \<and> digits s = s then Whole (int (number_of s)) else other s)"

definition unrender_side :: "(string \<Rightarrow> gpu_count) \<Rightarrow> (string \<rightharpoonup> string) option \<Rightarrow> quantities option" where
  "unrender_side other m =
     (case m of
        None \<Rightarrow> None
      | Some q \<Rightarrow>
          let gpu = (case q GPU_RESOURCE of
                       None \<Rightarrow> None
                     | Some s \<Rightarrow> if gpu_ok (js_Number other s) then Some (js_Number other s) else None);
              out = \<lparr>q_cpu = q ''cpu'', q_memory = q ''memory'', q_gpu = gpu\<rparr>
          in if q_cpu out = None \<and> q_memory out = None \<and> q_gpu out = None then None else Some out)"

definition unrenderResources :: "(string \<Rightarrow> gpu_count) \<Rightarrow> rendered_resources option \<Rightarrow> sandbox_resources" where
  "unrenderResources other block =
     \<lparr>sr_requests = unrender_side other (Option.bind block rn_requests),
      sr_limits = unrender_side other (Option.bind block rn_limits)\<rparr>"

subsection \<open>Presets\<close>

record size_preset =
  sp_cpu :: string
  sp_memory :: string
  sp_gpu :: "gpu_count option"

definition presetToResources :: "size_preset \<Rightarrow> resource_error + sandbox_resources" where
  "presetToResources p =
     (let side = \<lparr>q_cpu = Some (sp_cpu p), q_memory = Some (sp_memory p), q_gpu = sp_gpu p\<rparr>
      in validateResources \<lparr>sr_requests = Some side, sr_limits = Some side\<rparr>)"

definition PLATFORM_DEFAULT :: sandbox_resources where
  "PLATFORM_DEFAULT =
     (let side = \<lparr>q_cpu = Some ''2'', q_memory = Some ''4Gi'', q_gpu = None\<rparr>
      in \<lparr>sr_requests = Some side, sr_limits = Some side\<rparr>)"

subsection \<open>The way back\<close>

text \<open>What a size is after rendering: the GPU count on both sides, and no empty side.\<close>

definition settled_side :: "gpu_count option \<Rightarrow> quantities option \<Rightarrow> quantities option" where
  "settled_side gpu q =
     (let out = \<lparr>q_cpu = Option.bind q q_cpu, q_memory = Option.bind q q_memory, q_gpu = gpu\<rparr>
      in if q_cpu out = None \<and> q_memory out = None \<and> gpu = None then None else Some out)"

definition settled :: "sandbox_resources \<Rightarrow> sandbox_resources" where
  "settled r = \<lparr>sr_requests = settled_side (gpu_of r) (sr_requests r), sr_limits = settled_side (gpu_of r) (sr_limits r)\<rparr>"

lemma js_Number_show: "gpu_ok g \<Longrightarrow> js_Number other (show_gpu g) = g"
proof (cases g)
  case (Whole n)
  assume "gpu_ok g"
  then obtain k where n: "n = int k" using Whole by (auto simp: gpu_ok_def elim: nonneg_int_cases)
  have "digits (show_nat k) = show_nat k"
    using show_nat_digits by (auto simp: digits_def takeWhile_eq_all_conv)
  then show ?thesis
    by (simp add: Whole n show_gpu_def show_int_def js_Number_def show_nat_nonempty number_of_show_nat)
qed (simp add: gpu_ok_def)

lemma put_get: "put k v m x = (if x = k \<and> v \<noteq> None then v else m x)"
  by (simp add: put_def split: option.split)

lemma unrender_render_side:
  assumes "gpu = None \<or> gpu_ok (the gpu)"
  shows "unrender_side other (nonempty (render_side gpu q)) = settled_side gpu q"
proof -
  have keys: "''cpu'' \<noteq> GPU_RESOURCE" "''memory'' \<noteq> GPU_RESOURCE" "GPU_RESOURCE \<noteq> ''cpu''" "GPU_RESOURCE \<noteq> ''memory''"
    by (simp_all add: GPU_RESOURCE_def)
  have get: "render_side g q ''cpu'' = Option.bind q q_cpu" "render_side g q ''memory'' = Option.bind q q_memory"
      "render_side g q GPU_RESOURCE = map_option show_gpu g" for g
    using keys by (auto simp: render_side_def put_get)
  show ?thesis
    using assms js_Number_show [of "the gpu" other]
    by (cases gpu) (auto simp: nonempty_def unrender_side_def settled_side_def get Let_def)
qed

lemma validated_gpu: "validateResources r = Inr r' \<Longrightarrow> gpu_of r = None \<or> gpu_ok (the (gpu_of r))"
  by (auto simp: validateResources_def validate_side_def gpu_of_def split: option.splits if_splits)

lemma validateResources_same: "validateResources r = Inr r' \<Longrightarrow> r' = r"
  by (auto simp: validateResources_def split: option.splits)

lemma settled_preset: "presetToResources p = Inr r \<Longrightarrow> settled r = r"
proof -
  let ?side = "\<lparr>q_cpu = Some (sp_cpu p), q_memory = Some (sp_memory p), q_gpu = sp_gpu p\<rparr>"
  assume "presetToResources p = Inr r"
  then have "r = \<lparr>sr_requests = Some ?side, sr_limits = Some ?side\<rparr>"
    using validateResources_same by (simp add: presetToResources_def Let_def)
  then show ?thesis by (cases "sp_gpu p") (simp_all add: settled_def settled_side_def gpu_of_def)
qed

text \<open>
  C31 (roundtrip). Whatever size passes validation, reading back its Kubernetes form gives the same size,
  with its GPU count on both sides and empty sides left out; a size made from a preset comes back
  unchanged, so that the preset can be recognised by it.
\<close>

theorem resources_roundtrip:
  assumes "validateResources r = Inr r'"
  shows "r' = r \<and> unrenderResources other (Some (renderResources r)) = settled r
    \<and> (presetToResources p = Inr r \<longrightarrow> unrenderResources other (Some (renderResources r)) = r)"
proof -
  have "r' = r" by (rule validateResources_same [OF assms])
  moreover have again: "unrenderResources other (Some (renderResources r)) = settled r"
    using validated_gpu [OF assms]
    by (simp add: unrenderResources_def renderResources_def unrender_render_side settled_def)
  ultimately show ?thesis using settled_preset by simp
qed

theorem resources_roundtrip_witness:
  "validateResources PLATFORM_DEFAULT = Inr PLATFORM_DEFAULT
   \<and> unrenderResources NotWhole (Some (renderResources PLATFORM_DEFAULT)) = settled PLATFORM_DEFAULT"
proof -
  have "validateResources PLATFORM_DEFAULT = Inr PLATFORM_DEFAULT"
    by (simp add: PLATFORM_DEFAULT_def validateResources_def validate_side_def cpu_ok_def memory_ok_def after_digits_def
        digits_def Let_def)
  then show ?thesis using resources_roundtrip [of PLATFORM_DEFAULT PLATFORM_DEFAULT NotWhole] by simp
qed

end
