(* ===== verification/Json.thy ===== *)
theory Json
  imports Job_Laws
begin

text \<open>
  \<^verbatim>\<open>JSON.parse\<close>: a scanner for the tokens and a stack machine for the values, and that it reads back
  what \<^const>\<open>stringify\<close> writes. An integer a double represents exactly is a \<^const>\<open>JNum\<close>; \<open>dec\<close> reads
  every other number literal. Of two members with one name the later gives the value. A string of the
  model has code units below 256, so an escape for another one is outside of it and refused.
\<close>

subsection \<open>Tokens\<close>

datatype token = TOpenObj | TCloseObj | TOpenArr | TCloseArr | TComma | TColon | TVal json

definition json_space :: "char \<Rightarrow> bool" where
  "json_space c \<longleftrightarrow> c \<in> {CHR 0x20, CHR 0x09, CHR 0x0A, CHR 0x0D}"

definition hex_value :: "char \<Rightarrow> nat option" where
  "hex_value c =
     (let n = of_char c :: nat in
      if 48 \<le> n \<and> n \<le> 57 then Some (n - 48)
      else if 97 \<le> n \<and> n \<le> 102 then Some (n - 87)
      else if 65 \<le> n \<and> n \<le> 70 then Some (n - 55)
      else None)"

definition simple_escape :: "char \<Rightarrow> char option" where
  "simple_escape c =
     map_of [(CHR 0x22, CHR 0x22), (CHR 0x5C, CHR 0x5C), (CHR ''/'', CHR ''/''), (CHR ''b'', CHR 0x08),
             (CHR ''f'', CHR 0x0C), (CHR ''n'', CHR 0x0A), (CHR ''r'', CHR 0x0D), (CHR ''t'', CHR 0x09)] c"

definition unicode_escape :: "char \<Rightarrow> char \<Rightarrow> char \<Rightarrow> char \<Rightarrow> char option" where
  "unicode_escape a b c d =
     (case (hex_value a, hex_value b, hex_value c, hex_value d) of
        (Some 0, Some 0, Some m, Some n) \<Rightarrow> Some (char_of (16 * m + n))
      | _ \<Rightarrow> None)"

text \<open>The rest of a string literal after its opening quote, and what follows it.\<close>

fun scan_string :: "string \<Rightarrow> (string \<times> string) option" where
  "scan_string [] = None"
| "scan_string (c # cs) =
     (if c = CHR 0x22 then Some ([], cs)
      else if of_char c < (32 :: nat) then None
      else if c = CHR 0x5C
      then (case cs of
              [] \<Rightarrow> None
            | e # es \<Rightarrow>
                if e = CHR ''u''
                then (case es of
                        h1 # h2 # h3 # h4 # r \<Rightarrow>
                          (case unicode_escape h1 h2 h3 h4 of
                             None \<Rightarrow> None
                           | Some u \<Rightarrow> map_option (apfst ((#) u)) (scan_string r))
                      | _ \<Rightarrow> None)
                else (case simple_escape e of
                        None \<Rightarrow> None
                      | Some u \<Rightarrow> map_option (apfst ((#) u)) (scan_string es)))
      else map_option (apfst ((#) c)) (scan_string cs))"

definition number_char :: "char \<Rightarrow> bool" where
  "number_char c \<longleftrightarrow> of_char c \<in> {48 .. (57 :: nat)} \<or> c \<in> {CHR ''-'', CHR ''+'', CHR ''.'', CHR ''e'', CHR ''E''}"

text \<open>\<open>-?(0|[1-9][0-9]*)\<close>, within what a double holds exactly.\<close>

definition read_integer :: "string \<Rightarrow> int option" where
  "read_integer lit =
     (let neg = starts_with lit ''-''; t = (if neg then tl lit else lit); n = int (number_of t)
      in if t \<noteq> [] \<and> digits t = t \<and> (hd t = CHR ''0'' \<longrightarrow> t = ''0'') \<and> \<not> (neg \<and> n = 0) \<and> n \<le> 9007199254740992
         then Some (if neg then - n else n) else None)"

definition read_number :: "(string \<Rightarrow> json option) \<Rightarrow> string \<Rightarrow> json option" where
  "read_number dec lit = (case read_integer lit of Some i \<Rightarrow> Some (JNum i) | None \<Rightarrow> dec lit)"

lemma scan_string_shorter: "scan_string s = Some (t, r) \<Longrightarrow> length r < length s"
proof (induction s arbitrary: t r rule: scan_string.induct)
  case (2 c cs)
  then show ?case
    by (fastforce split: if_splits list.splits option.splits simp: apfst_def map_prod_def)
qed simp

function (sequential) tokens :: "(string \<Rightarrow> json option) \<Rightarrow> string \<Rightarrow> token list option" where
  "tokens dec [] = Some []"
| "tokens dec (c # cs) =
     (if json_space c then tokens dec cs
      else if c = CHR ''{'' then map_option ((#) TOpenObj) (tokens dec cs)
      else if c = CHR ''}'' then map_option ((#) TCloseObj) (tokens dec cs)
      else if c = CHR ''['' then map_option ((#) TOpenArr) (tokens dec cs)
      else if c = CHR '']'' then map_option ((#) TCloseArr) (tokens dec cs)
      else if c = CHR '','' then map_option ((#) TComma) (tokens dec cs)
      else if c = CHR '':'' then map_option ((#) TColon) (tokens dec cs)
      else if c = CHR 0x22
      then (case scan_string cs of
              None \<Rightarrow> None
            | Some (s, r) \<Rightarrow> map_option ((#) (TVal (JStr s))) (tokens dec r))
      else if starts_with (c # cs) ''null'' then map_option ((#) (TVal JNull)) (tokens dec (drop 3 cs))
      else if starts_with (c # cs) ''true'' then map_option ((#) (TVal (JBool True))) (tokens dec (drop 3 cs))
      else if starts_with (c # cs) ''false'' then map_option ((#) (TVal (JBool False))) (tokens dec (drop 4 cs))
      else if number_char c
      then (case read_number dec (c # takeWhile number_char cs) of
              None \<Rightarrow> None
            | Some v \<Rightarrow> map_option ((#) (TVal v)) (tokens dec (dropWhile number_char cs)))
      else None)"
  by pat_completeness auto
termination
  by (relation "measure (\<lambda>(_, s). length s)")
     (auto dest: scan_string_shorter simp: less_Suc_eq_le length_dropWhile_le)

subsection \<open>Values\<close>

text \<open>The containers around the value being read: an array's items so far, newest first, or an object's members and the key of this one.\<close>

datatype frame = InArr "json list" | InObj "(string \<times> json) list" string

datatype mode =
    Value                              \<comment> \<open>a value is due\<close>
  | FirstItem                          \<comment> \<open>a value or the end of the array\<close>
  | FirstKey                           \<comment> \<open>a key or the end of the object\<close>
  | Key "(string \<times> json) list"         \<comment> \<open>a key is due\<close>
  | Colon "(string \<times> json) list" string \<comment> \<open>the colon after a key\<close>
  | After json                         \<comment> \<open>a value was read\<close>

text \<open>The mode and the stack after one token.\<close>

definition start_value :: "frame list \<Rightarrow> token \<Rightarrow> (mode \<times> frame list) option" where
  "start_value st t =
     (case t of TVal v \<Rightarrow> Some (After v, st) | TOpenArr \<Rightarrow> Some (FirstItem, st) | TOpenObj \<Rightarrow> Some (FirstKey, st) | _ \<Rightarrow> None)"

definition start_key :: "(string \<times> json) list \<Rightarrow> frame list \<Rightarrow> token \<Rightarrow> (mode \<times> frame list) option" where
  "start_key kvs st t = (case t of TVal (JStr k) \<Rightarrow> Some (Colon kvs k, st) | _ \<Rightarrow> None)"

definition after_value :: "json \<Rightarrow> frame list \<Rightarrow> token \<Rightarrow> (mode \<times> frame list) option" where
  "after_value v st t =
     (case st of
        [] \<Rightarrow> None
      | InArr xs # st' \<Rightarrow>
          if t = TComma then Some (Value, InArr (v # xs) # st')
          else if t = TCloseArr then Some (After (JArr (rev (v # xs))), st') else None
      | InObj kvs k # st' \<Rightarrow>
          if t = TComma then Some (Key (AList.update k v kvs), st')
          else if t = TCloseObj then Some (After (JObj (AList.update k v kvs)), st') else None)"

definition parse_step :: "mode \<Rightarrow> frame list \<Rightarrow> token \<Rightarrow> (mode \<times> frame list) option" where
  "parse_step m st t =
     (case m of
        Value \<Rightarrow> start_value st t
      | FirstItem \<Rightarrow> if t = TCloseArr then Some (After (JArr []), st) else start_value (InArr [] # st) t
      | FirstKey \<Rightarrow> if t = TCloseObj then Some (After (JObj []), st) else start_key [] st t
      | Key kvs \<Rightarrow> start_key kvs st t
      | Colon kvs k \<Rightarrow> if t = TColon then Some (Value, InObj kvs k # st) else None
      | After v \<Rightarrow> after_value v st t)"

fun parse_tokens :: "mode \<Rightarrow> frame list \<Rightarrow> token list \<Rightarrow> json option" where
  "parse_tokens m st [] = (case m of After v \<Rightarrow> if st = [] then Some v else None | _ \<Rightarrow> None)"
| "parse_tokens m st (t # ts) = (case parse_step m st t of None \<Rightarrow> None | Some (m', st') \<Rightarrow> parse_tokens m' st' ts)"

definition json_parse :: "(string \<Rightarrow> json option) \<Rightarrow> string \<Rightarrow> json option" where
  "json_parse dec s = Option.bind (tokens dec s) (parse_tokens Value [])"

text \<open>\<^verbatim>\<open>v.k\<close>, or \<^verbatim>\<open>v?.k\<close>: \<^const>\<open>None\<close> is \<^verbatim>\<open>undefined\<close>.\<close>

fun member :: "string \<Rightarrow> json \<Rightarrow> json option" where
  "member k (JObj kvs) = map_of kvs k"
| "member k _ = None"

text \<open>\<^verbatim>\<open>{ ...v }\<close>\<close>

fun spread :: "json option \<Rightarrow> (string \<times> json) list" where
  "spread (Some (JObj kvs)) = kvs"
| "spread (Some (JArr xs)) = map (\<lambda>(i, x). (show_nat i, x)) (enumerate 0 xs)"
| "spread (Some (JStr s)) = map (\<lambda>(i, c). (show_nat i, JStr [c])) (enumerate 0 s)"
| "spread _ = []"

subsection \<open>Reading back\<close>

text \<open>
  JavaScript objects have distinct keys; the numbers are integers a double holds, or others whose text
  \<open>dec\<close> reads back.
\<close>

fun wf_json :: "json \<Rightarrow> bool" where
  "wf_json (JObj kvs) = (distinct (map fst kvs) \<and> (\<forall>kv \<in> set kvs. wf_json (snd kv)))"
| "wf_json (JArr its) = (\<forall>it \<in> set its. wf_json it)"
| "wf_json _ = True"

definition dec_literal :: "(string \<Rightarrow> json option) \<Rightarrow> string \<Rightarrow> bool" where
  "dec_literal dec s \<longleftrightarrow> s \<noteq> [] \<and> (\<forall>c \<in> set s. number_char c) \<and> read_number dec s = Some (JDec s)"

fun readable :: "(string \<Rightarrow> json option) \<Rightarrow> json \<Rightarrow> bool" where
  "readable dec (JObj kvs) = (distinct (map fst kvs) \<and> (\<forall>kv \<in> set kvs. readable dec (snd kv)))"
| "readable dec (JArr its) = (\<forall>it \<in> set its. readable dec it)"
| "readable dec (JNum i) = (\<bar>i\<bar> \<le> 9007199254740992)"
| "readable dec (JDec s) = dec_literal dec s"
| "readable dec _ = True"

fun json_tokens :: "json \<Rightarrow> token list" where
  "json_tokens (JArr its) = TOpenArr # join [TComma] (map json_tokens its) @ [TCloseArr]"
| "json_tokens (JObj kvs) =
     TOpenObj # join [TComma] (map (\<lambda>(k, v). [TVal (JStr k), TColon] @ json_tokens v) kvs) @ [TCloseObj]"
| "json_tokens v = [TVal v]"

lemma of_char_less: "of_char c < (256 :: nat)"
  using mod_less_divisor [of 256 "of_char c :: nat"] by simp

lemma char_code: "c = d \<longleftrightarrow> of_char c = (of_char d :: nat)"
  by simp

lemma hex_value_digit: "n < 16 \<Longrightarrow> hex_value (hex_digit n) = Some n"
  by (auto simp: hex_value_def hex_digit_def Let_def of_char_of)

lemma scan_escaped: "scan_string (json_escape c @ s) = map_option (apfst ((#) c)) (scan_string s)"
proof -
  have u: "unicode_escape CHR ''0'' CHR ''0'' (hex_digit (of_char c div 16)) (hex_digit (of_char c mod 16)) = Some c"
  proof -
    have "of_char c div 16 < (16 :: nat)" using of_char_less [of c] by (simp add: less_mult_imp_div_less)
    then show ?thesis using hex_value_digit [of "of_char c div 16"] hex_value_digit [of "of_char c mod 16"]
      by (simp add: unicode_escape_def hex_value_def [of "CHR ''0''"])
  qed
  have eq: "c = CHR 0x22 \<longleftrightarrow> of_char c = (34 :: nat)" "c = CHR 0x5C \<longleftrightarrow> of_char c = (92 :: nat)"
    "c = CHR 0x08 \<longleftrightarrow> of_char c = (8 :: nat)" "c = CHR 0x0C \<longleftrightarrow> of_char c = (12 :: nat)"
    "c = CHR 0x0A \<longleftrightarrow> of_char c = (10 :: nat)" "c = CHR 0x0D \<longleftrightarrow> of_char c = (13 :: nat)"
    "c = CHR 0x09 \<longleftrightarrow> of_char c = (9 :: nat)"
    by (simp_all only: char_code) (simp_all del: of_char_eq_iff)
  show ?thesis
    using u eq by (auto simp: json_escape_def Let_def simple_escape_def)
qed

lemma scan_quoted: "scan_string (concat (map json_escape s) @ CHR 0x22 # r) = Some (s, r)"
  by (induction s) (simp_all add: scan_escaped del: scan_string.simps(2) add: scan_string.simps(2) [of "CHR 0x22" r])

text \<open>A text that continues no number.\<close>

definition closed :: "string \<Rightarrow> bool" where
  "closed r = (case r of [] \<Rightarrow> True | c # _ \<Rightarrow> \<not> number_char c)"

lemma number_char_tests:
  assumes "number_char c"
  shows "\<not> json_space c" "c \<noteq> CHR ''{''" "c \<noteq> CHR ''}''" "c \<noteq> CHR ''[''" "c \<noteq> CHR '']''" "c \<noteq> CHR '',''"
    "c \<noteq> CHR '':''" "c \<noteq> CHR 0x22" "c \<noteq> CHR ''n''" "c \<noteq> CHR ''t''" "c \<noteq> CHR ''f''"
  using assms by (auto simp: number_char_def json_space_def)

lemma starts_with_hd: "starts_with (c # cs) (d # p) \<Longrightarrow> c = d"
  by (simp add: starts_with_def)

lemma tokens_number:
  assumes "lit \<noteq> []" "\<forall>c \<in> set lit. number_char c" "read_number dec lit = Some v" "closed r"
    and "tokens dec r = Some ts"
  shows "tokens dec (lit @ r) = Some (TVal v # ts)"
proof -
  obtain c cs where lit: "lit = c # cs" using assms(1) by (cases lit) auto
  have c: "number_char c" using assms(2) lit by simp
  have "takeWhile number_char (cs @ r) = cs" "dropWhile number_char (cs @ r) = r"
    using assms(2,4) lit by (auto simp: closed_def split: list.splits)
  moreover have "\<not> starts_with (c # cs @ r) ''null''" "\<not> starts_with (c # cs @ r) ''true''" "\<not> starts_with (c # cs @ r) ''false''"
    using number_char_tests(9-11) [OF c] starts_with_hd by blast+
  ultimately show ?thesis using number_char_tests [OF c] c lit assms(3,5) by simp
qed

lemma show_int_literal: "show_int i \<noteq> []" "c \<in> set (show_int i) \<Longrightarrow> number_char c"
  using show_nat_digits [of c] by (auto simp: show_int_def number_char_def show_nat_nonempty split: if_splits)

lemma digits_all: "(\<And>c. c \<in> set s \<Longrightarrow> of_char c \<in> {48 .. (57 :: nat)}) \<Longrightarrow> digits s = s"
  by (auto simp: digits_def takeWhile_eq_all_conv)

lemma hd_show_nat_zero: "hd (show_nat n) = CHR ''0'' \<Longrightarrow> n = 0"
proof (induction n rule: show_nat.induct)
  case (1 n)
  show ?case
  proof (cases "n < 10")
    case True
    then have "of_char (char_of (48 + n) :: char) = (48 :: nat)" using "1.prems" by (simp add: show_nat.simps [of n])
    then show ?thesis using True by (simp add: of_char_of)
  next
    case False
    then have "n div 10 = 0" using 1 show_nat_nonempty by (simp add: show_nat.simps [of n])
    then show ?thesis using False by simp
  qed
qed

lemma read_show_int: "\<bar>i\<bar> \<le> 9007199254740992 \<Longrightarrow> read_number dec (show_int i) = Some (JNum i)"
proof -
  assume i: "\<bar>i\<bar> \<le> 9007199254740992"
  define n where "n = nat \<bar>i\<bar>"
  have d: "digits (show_nat n) = show_nat n" by (rule digits_all) (rule show_nat_digits)
  have z: "hd (show_nat n) = CHR ''0'' \<longrightarrow> show_nat n = ''0''"
    using hd_show_nat_zero [of n] by (auto simp: show_nat.simps [of 0] char_of_def)
  have m: "\<not> starts_with (show_nat n) ''-''"
    using show_nat_digits [of "hd (show_nat n)" n] show_nat_nonempty [of n]
    by (cases "show_nat n") (auto simp: starts_with_def)
  show ?thesis
  proof (cases "i < 0")
    case True
    then have "show_int i = CHR ''-'' # show_nat n" "int n = - i" by (auto simp: show_int_def n_def)
    then show ?thesis using True i d z by (simp add: read_number_def read_integer_def Let_def starts_with_def show_nat_nonempty number_of_show_nat)
  next
    case False
    then have "show_int i = show_nat n" "int n = i" by (auto simp: show_int_def n_def)
    then show ?thesis using i d z m by (simp add: read_number_def read_integer_def Let_def show_nat_nonempty number_of_show_nat)
  qed
qed

lemma tokens_quoted: "tokens dec r = Some ts \<Longrightarrow> tokens dec (json_quote s @ r) = Some (TVal (JStr s) # ts)"
  by (simp add: json_quote_def json_space_def scan_quoted)

lemma closed_punct [simp]: "closed (CHR '','' # r)" "closed (CHR '']'' # r)" "closed (CHR ''}'' # r)" "closed []"
  by (simp_all add: closed_def number_char_def)

lemma tokens_punct:
  "tokens dec (CHR '','' # r) = map_option ((#) TComma) (tokens dec r)"
  "tokens dec (CHR '']'' # r) = map_option ((#) TCloseArr) (tokens dec r)"
  "tokens dec (CHR ''}'' # r) = map_option ((#) TCloseObj) (tokens dec r)"
  "tokens dec (CHR '':'' # r) = map_option ((#) TColon) (tokens dec r)"
  "tokens dec (CHR ''['' # r) = map_option ((#) TOpenArr) (tokens dec r)"
  "tokens dec (CHR ''{'' # r) = map_option ((#) TOpenObj) (tokens dec r)"
  by (simp_all add: json_space_def)

declare tokens.simps(2) [simp del]

text \<open>\<open>reads dec x ts\<close>: in front of any text that continues no number, \<open>x\<close> adds the tokens \<open>ts\<close>.\<close>

definition reads :: "(string \<Rightarrow> json option) \<Rightarrow> string \<Rightarrow> token list \<Rightarrow> bool" where
  "reads dec x ts \<longleftrightarrow> (\<forall>r us. closed r \<longrightarrow> tokens dec r = Some us \<longrightarrow> tokens dec (x @ r) = Some (ts @ us))"

lemma reads_join:
  "(\<And>x. x \<in> set xs \<Longrightarrow> reads dec (f x) (g x)) \<Longrightarrow> reads dec (join '','' (map f xs)) (join [TComma] (map g xs))"
proof (induction xs)
  case (Cons x xs)
  then have x: "reads dec (f x) (g x)" and xs: "reads dec (join '','' (map f xs)) (join [TComma] (map g xs))" by simp_all
  show ?case
  proof (cases xs)
    case Nil
    then show ?thesis using x by simp
  next
    case (Cons y ys)
    then have j: "join '','' (map f (x # xs)) = f x @ CHR '','' # join '','' (map f xs)"
      "join [TComma] (map g (x # xs)) = g x @ TComma # join [TComma] (map g xs)" by simp_all
    show ?thesis unfolding j using x xs by (simp add: reads_def tokens_punct)
  qed
qed (simp add: reads_def)

lemma reads_stringify: "readable dec j \<Longrightarrow> reads dec (stringify j) (json_tokens j)"
proof (induction j)
  case (JArr its)
  then have "reads dec (join '','' (map stringify its)) (join [TComma] (map json_tokens its))" by (intro reads_join) simp
  then show ?case by (simp add: reads_def tokens_punct)
next
  case (JObj kvs)
  let ?f = "\<lambda>(k, v). json_quote k @ '':'' @ stringify v" and ?g = "\<lambda>(k, v). [TVal (JStr k), TColon] @ json_tokens v"
  have "reads dec (?f kv) (?g kv)" if kv: "kv \<in> set kvs" for kv
  proof -
    obtain k v where [simp]: "kv = (k, v)" by (cases kv)
    have "reads dec (stringify v) (json_tokens v)" using JObj kv by force
    then show ?thesis by (simp add: reads_def tokens_quoted tokens_punct)
  qed
  then have "reads dec (join '','' (map ?f kvs)) (join [TComma] (map ?g kvs))" by (rule reads_join)
  then show ?case by (simp add: reads_def tokens_punct)
next
  case (JNum i)
  then show ?case using tokens_number [OF show_int_literal(1) _ read_show_int] show_int_literal(2)
    by (simp add: reads_def)
next
  case (JDec s)
  then show ?case using tokens_number [of s dec] by (simp add: reads_def dec_literal_def)
next
  case (JStr s)
  then show ?case by (simp add: reads_def tokens_quoted)
qed (simp_all add: reads_def tokens.simps(2) json_space_def starts_with_def)

text \<open>The stack machine on the tokens of a value.\<close>

lemma parse_tokens_list:
  assumes "\<And>x st ts. x \<in> set xs \<Longrightarrow> parse_tokens Value st (json_tokens x @ ts) = parse_tokens (After x) st ts" "xs \<noteq> []"
  shows "parse_tokens Value (InArr ys # st) (join [TComma] (map json_tokens xs) @ TCloseArr # ts)
       = parse_tokens (After (JArr (rev ys @ xs))) st ts"
  using assms
proof (induction xs arbitrary: ys)
  case (Cons x xs)
  show ?case
  proof (cases xs)
    case Nil
    then show ?thesis using Cons.prems by (simp add: parse_step_def after_value_def)
  next
    case (Cons y zs)
    then show ?thesis using Cons.prems Cons.IH [of "x # ys"]
      by (simp add: parse_step_def after_value_def)
  qed
qed simp

lemma parse_tokens_members:
  assumes "\<And>kv st ts. kv \<in> set kvs \<Longrightarrow> parse_tokens Value st (json_tokens (snd kv) @ ts) = parse_tokens (After (snd kv)) st ts"
    and "kvs \<noteq> []" "distinct (map fst (ps @ kvs))"
  shows "parse_tokens (Key ps) st (join [TComma] (map (\<lambda>(k, v). [TVal (JStr k), TColon] @ json_tokens v) kvs) @ TCloseObj # ts)
       = parse_tokens (After (JObj (ps @ kvs))) st ts"
  using assms
proof (induction kvs arbitrary: ps)
  case (Cons kv kvs)
  obtain k v where [simp]: "kv = (k, v)" by (cases kv)
  have v: "parse_tokens Value st (json_tokens v @ ts) = parse_tokens (After v) st ts" for st ts using Cons.prems(1) [of kv] by simp
  have "k \<notin> fst ` set ps" using Cons.prems(3) by auto
  then have new: "AList.update k v ps = ps @ [(k, v)]" by (induction ps) auto
  show ?case
  proof (cases kvs)
    case Nil
    then show ?thesis using v new by (simp add: parse_step_def start_key_def after_value_def)
  next
    case (Cons kv' kvs')
    then show ?thesis using Cons.prems(1,3) v new Cons.IH [of "ps @ [(k, v)]"]
      by (simp add: parse_step_def start_key_def after_value_def)
  qed
qed simp

lemma parse_tokens_value:
  "readable dec j \<Longrightarrow> parse_tokens Value st (json_tokens j @ ts) = parse_tokens (After j) st ts"
proof (induction j arbitrary: st ts)
  case (JArr its)
  show ?case
  proof (cases its)
    case (Cons x xs)
    have "parse_tokens Value st (json_tokens (JArr its) @ ts)
        = parse_tokens Value (InArr [] # st) (join [TComma] (map json_tokens its) @ TCloseArr # ts)"
      by (cases x; cases xs) (simp_all add: Cons parse_step_def start_value_def)
    also have "\<dots> = parse_tokens (After (JArr ([] @ its))) st ts"
      by (subst parse_tokens_list) (use JArr Cons in auto)
    finally show ?thesis by simp
  qed (simp add: parse_step_def start_value_def)
next
  case (JObj kvs)
  show ?case
  proof (cases kvs)
    case (Cons kv kvs')
    let ?g = "\<lambda>(k, v). [TVal (JStr k), TColon] @ json_tokens v"
    have "parse_tokens Value st (json_tokens (JObj kvs) @ ts)
        = parse_tokens (Key []) st (join [TComma] (map ?g kvs) @ TCloseObj # ts)"
      by (cases kv; cases kvs') (simp_all add: Cons parse_step_def start_value_def)
    also have "\<dots> = parse_tokens (After (JObj ([] @ kvs))) st ts"
    proof (rule parse_tokens_members)
      fix kv st ts assume kv: "kv \<in> set kvs"
      then show "parse_tokens Value st (json_tokens (snd kv) @ ts) = parse_tokens (After (snd kv)) st ts"
        using JObj.IH [OF kv, of "snd kv"] JObj.prems by (simp add: snds.simps [of _ kv])
    qed (use JObj.prems Cons in auto)
    finally show ?thesis by simp
  qed (simp add: parse_step_def start_value_def)
qed (simp_all add: parse_step_def start_value_def)

theorem json_roundtrip: "readable dec j \<Longrightarrow> json_parse dec (stringify j) = Some j"
  using reads_stringify [of dec j] parse_tokens_value [of dec j "[]" "[]"]
  by (simp add: reads_def json_parse_def) (metis append.right_neutral bind.bind_lunit closed_punct(4) tokens.simps(1))

lemma stringify_inject: "readable dec j \<Longrightarrow> readable dec k \<Longrightarrow> stringify j = stringify k \<longleftrightarrow> j = k"
  by (metis json_roundtrip option.inject)

end
