(* ===== verification/Sandbox_Overlay.thy ===== *)
theory Sandbox_Overlay
  imports Sandbox_Resources Json
begin

text \<open>
  The deployment's patch of a sandbox manifest (\<^verbatim>\<open>session/sandboxOverlay.ts\<close>): the recursive merge,
  the resolution of the paths Scooter owns, and the re-assertion of what the generated manifest has at
  them. Values are JSON values; the copies the source makes so that nothing is shared are the values
  themselves. An array that the source indexes by a property name gets a property no reader of the
  manifest sees, so it is left as it is. The YAML reader is a parameter.

  The main result is that whatever the patch says, every protected path the generated manifest has
  reads the same in the patched one, and that the merge adds no second item under a name a list
  already had.
\<close>

definition LIST_MERGE_KEY :: string where "LIST_MERGE_KEY = ''name''"

definition PROTECTED_PATHS :: "string list" where
  "PROTECTED_PATHS =
    [''apiVersion'', ''kind'', ''metadata.name'',
     ''spec.podTemplate.spec.serviceAccountName'',
     ''spec.podTemplate.spec.automountServiceAccountToken'',
     ''spec.podTemplate.spec.volumes[name=broker-token]'',
     ''spec.podTemplate.spec.containers[name=sandbox].volumeMounts[name=broker-token]'',
     ''spec.podTemplate.spec.containers[name=sandbox].volumeMounts[name=workspace]'',
     ''spec.volumeClaimTemplates'',
     ''spec.podTemplate.spec.containers[name=sandbox].env[name=CONVERSATION_ID]'',
     ''spec.podTemplate.spec.containers[name=sandbox].env[name=BROKER_URL]'',
     ''spec.podTemplate.spec.containers[name=sandbox].env[name=BROKER_TOKEN_PATH]'']"

datatype overlay_error = OverlayError string

fun isObject :: "json \<Rightarrow> bool" where
  "isObject (JObj _) = True"
| "isObject _ = False"

fun isArray :: "json \<Rightarrow> bool" where
  "isArray (JArr _) = True"
| "isArray _ = False"

text \<open>\<^verbatim>\<open>Array.isArray(v) ? "array" : typeof v\<close>\<close>

fun shape_name :: "json \<Rightarrow> string" where
  "shape_name (JArr _) = ''array''"
| "shape_name (JObj _) = ''object''"
| "shape_name JNull = ''object''"
| "shape_name (JBool _) = ''boolean''"
| "shape_name (JNum _) = ''number''"
| "shape_name (JDec _) = ''number''"
| "shape_name (JStr _) = ''string''"

text \<open>\<open>loadYaml\<close> gives the document or the message of its error; an empty document is \<^const>\<open>JNull\<close>.\<close>

definition parseOverlay :: "(string \<Rightarrow> string + json) \<Rightarrow> string option \<Rightarrow> overlay_error + (string \<times> json) list" where
  "parseOverlay loadYaml raw =
     (case raw of
        None \<Rightarrow> Inr []
      | Some s \<Rightarrow>
          if trim s = [] then Inr []
          else (case loadYaml s of
                  Inl m \<Rightarrow> Inl (OverlayError (''manifest overlay is not valid YAML/JSON: '' @ m))
                | Inr JNull \<Rightarrow> Inr []
                | Inr (JObj kvs) \<Rightarrow> Inr kvs
                | Inr v \<Rightarrow> Inl (OverlayError (''manifest overlay must be a mapping at the top level, got '' @ shape_name v))))"

subsection \<open>The merge\<close>

text \<open>
  The name a list item is merged under. A \<^verbatim>\<open>Map\<close> compares objects and arrays by identity, and those of
  the overlay are never those of the base, so only a scalar name can match.
\<close>

fun merge_key :: "json \<Rightarrow> json option" where
  "merge_key (JObj kvs) = map_of kvs LIST_MERGE_KEY"
| "merge_key _ = None"

definition scalar :: "json \<Rightarrow> bool" where
  "scalar v \<longleftrightarrow> \<not> isObject v \<and> \<not> isArray v"

text \<open>\<^verbatim>\<open>index.get(key)\<close>: the last item of the base with that name.\<close>

definition index_of_key :: "json list \<Rightarrow> json \<Rightarrow> nat option" where
  "index_of_key base key =
     (if scalar key
      then map_option (\<lambda>i. length base - 1 - i) (find_index (\<lambda>it. merge_key it = Some key) (rev base))
      else None)"

function (sequential) deepMerge :: "json \<Rightarrow> json \<Rightarrow> overlay_error + json"
  and merge_entries :: "(string \<times> json) list \<Rightarrow> (string \<times> json) list \<Rightarrow> (string \<times> json) list \<Rightarrow> overlay_error + (string \<times> json) list"
  and mergeLists :: "json list \<Rightarrow> json list \<Rightarrow> json list \<Rightarrow> overlay_error + json list" where
  "deepMerge (JObj base) (JObj overlay) =
     (case merge_entries base base overlay of Inl e \<Rightarrow> Inl e | Inr out \<Rightarrow> Inr (JObj out))"
| "deepMerge (JArr base) (JArr overlay) =
     (case mergeLists base base overlay of Inl e \<Rightarrow> Inl e | Inr out \<Rightarrow> Inr (JArr out))"
| "deepMerge base overlay =
     (if isObject base \<or> isArray base
      then Inl (OverlayError (''overlay type '' @ shape_name overlay @ '' cannot merge onto base type '' @ shape_name base))
      else Inr overlay)"
| "merge_entries base out [] = Inr out"
| "merge_entries base out ((k, ov) # rest) =
     (case map_of base k of
        None \<Rightarrow> merge_entries base (AList.update k ov out) rest
      | Some bv \<Rightarrow>
          (case deepMerge bv ov of Inl e \<Rightarrow> Inl e | Inr v \<Rightarrow> merge_entries base (AList.update k v out) rest))"
| "mergeLists base out [] = Inr out"
| "mergeLists base out (ov # rest) =
     (case Option.bind (merge_key ov) (index_of_key base) of
        Some i \<Rightarrow>
          (case deepMerge (out ! i) ov of Inl e \<Rightarrow> Inl e | Inr v \<Rightarrow> mergeLists base (out[i := v]) rest)
      | None \<Rightarrow> mergeLists base (out @ [ov]) rest)"
  by pat_completeness auto
termination
  by (relation "measure (\<lambda>x. case x of Inl (_, ov) \<Rightarrow> 2 * size ov
                                 | Inr (Inl (_, _, ovs)) \<Rightarrow> 2 * size_list (size_prod (\<lambda>_. 0) size) ovs + 1
                                 | Inr (Inr (_, _, ovs)) \<Rightarrow> 2 * size_list size ovs + 1)") auto

subsection \<open>Protected paths\<close>

datatype seg = Seg (seg_key: string) (seg_sel: "string option")

definition parse_seg :: "string \<Rightarrow> seg" where
  "parse_seg raw =
     (case indexOf raw ''[name='' of
        Some i \<Rightarrow>
          if ends_with raw '']''
          then (let rest = drop (i + 6) raw;
                    part = (case indexOf rest ''[name='' of None \<Rightarrow> rest | Some j \<Rightarrow> take j rest)
                in Seg (take i raw) (Some (butlast part)))
          else Seg raw None
      | None \<Rightarrow> Seg raw None)"

definition parsePath :: "string \<Rightarrow> seg list" where
  "parsePath path = map parse_seg (split_at_char CHR ''.'' path)"

definition named :: "string \<Rightarrow> json \<Rightarrow> bool" where
  "named x it \<longleftrightarrow> merge_key it = Some (JStr x)"

fun getPath :: "json \<Rightarrow> seg list \<Rightarrow> json option" where
  "getPath root [] = Some root"
| "getPath (JObj kvs) (Seg k None # rest) =
     (case map_of kvs k of None \<Rightarrow> None | Some v \<Rightarrow> getPath v rest)"
| "getPath (JObj kvs) (Seg k (Some x) # rest) =
     (case map_of kvs k of
        Some (JArr its) \<Rightarrow> (case List.find (named x) its of None \<Rightarrow> None | Some it \<Rightarrow> getPath it rest)
      | _ \<Rightarrow> None)"
| "getPath _ (_ # _) = None"

text \<open>\<open>update_first P f xs\<close> changes the first element with \<open>P\<close> in place.\<close>

fun update_first :: "('a \<Rightarrow> bool) \<Rightarrow> ('a \<Rightarrow> 'a) \<Rightarrow> 'a list \<Rightarrow> 'a list" where
  "update_first P f [] = []"
| "update_first P f (x # xs) = (if P x then f x # xs else x # update_first P f xs)"

text \<open>
  Setting along a path. A segment that is not the last goes into the object or array at its key, a new
  object when there is neither; a selected item that is not there is created and appended, or, when
  there is no array to append it to, created and lost.
\<close>

fun setPath :: "json \<Rightarrow> seg list \<Rightarrow> json \<Rightarrow> json" where
  "setPath (JObj kvs) [Seg k None] v = JObj (AList.update k v kvs)"
| "setPath (JObj kvs) [Seg k (Some x)] v =
     JObj (AList.update k
       (case map_of kvs k of
          Some (JArr its) \<Rightarrow>
            JArr (if list_ex (named x) its then update_first (named x) (\<lambda>_. v) its else its @ [v])
        | _ \<Rightarrow> JArr [v]) kvs)"
| "setPath (JObj kvs) (Seg k None # s # rest) v =
     (case map_of kvs k of
        Some (JArr its) \<Rightarrow> JObj kvs
      | Some (JObj inner) \<Rightarrow> JObj (AList.update k (setPath (JObj inner) (s # rest) v) kvs)
      | _ \<Rightarrow> JObj (AList.update k (setPath (JObj []) (s # rest) v) kvs))"
| "setPath (JObj kvs) (Seg k (Some x) # s # rest) v =
     (case map_of kvs k of
        Some (JArr its) \<Rightarrow>
          JObj (AList.update k
            (JArr (if list_ex (named x) its
                   then update_first (named x) (\<lambda>it. setPath it (s # rest) v) its
                   else its @ [setPath (JObj [(LIST_MERGE_KEY, JStr x)]) (s # rest) v])) kvs)
      | Some (JObj inner) \<Rightarrow> JObj kvs
      | _ \<Rightarrow> JObj (AList.update k (JObj []) kvs))"
| "setPath root _ v = root"

definition reassert :: "json \<Rightarrow> seg list \<Rightarrow> json \<Rightarrow> json" where
  "reassert base segs out = (case getPath base segs of None \<Rightarrow> out | Some v \<Rightarrow> setPath out segs v)"

definition reassertProtected :: "json \<Rightarrow> json \<Rightarrow> json" where
  "reassertProtected base merged = fold (\<lambda>p. reassert base (parsePath p)) PROTECTED_PATHS merged"

definition applyOverlay :: "json \<Rightarrow> (string \<times> json) list \<Rightarrow> overlay_error + json" where
  "applyOverlay base overlay =
     (if overlay = [] then Inr base
      else (case deepMerge base (JObj overlay) of Inl e \<Rightarrow> Inl e | Inr m \<Rightarrow> Inr (reassertProtected base m)))"

subsection \<open>Reading what was set\<close>

lemma named_update:
  "k \<noteq> LIST_MERGE_KEY \<Longrightarrow> named x (JObj (AList.update k v kvs)) \<longleftrightarrow> named x (JObj kvs)"
  by (simp add: named_def)

lemma named_unique: "named x it \<Longrightarrow> named y it \<Longrightarrow> x = y"
  by (simp add: named_def)

lemma find_some_list_ex: "List.find P xs = Some y \<Longrightarrow> list_ex P xs"
  by (induction xs) (auto split: if_splits)

lemma find_update_first_same:
  "List.find P xs = Some y \<Longrightarrow> P (f y) \<Longrightarrow> List.find P (update_first P f xs) = Some (f y)"
  by (induction xs) (auto split: if_splits)

lemma find_update_first_other:
  "(\<And>y. P y \<Longrightarrow> \<not> Q y) \<Longrightarrow> (\<And>y. P y \<Longrightarrow> \<not> Q (f y)) \<Longrightarrow>
   List.find Q (update_first P f xs) = List.find Q xs"
  by (induction xs) auto

text \<open>A path below a list item leaves the item its name when it does not start at it.\<close>

definition below_item :: "seg list \<Rightarrow> bool" where
  "below_item p = (case p of [] \<Rightarrow> True | Seg k _ # _ \<Rightarrow> k \<noteq> LIST_MERGE_KEY)"

lemma named_setPath:
  "below_item (s # p) \<Longrightarrow> named x (setPath it (s # p) v) \<longleftrightarrow> named x it"
  by (cases it; cases s; cases "seg_sel s"; cases p)
     (auto simp: below_item_def named_def split: option.splits json.splits)

text \<open>The last selector of a path names the value set there.\<close>

definition fits :: "seg list \<Rightarrow> json \<Rightarrow> bool" where
  "fits p v = (case p of [] \<Rightarrow> True | _ \<Rightarrow> (case seg_sel (last p) of None \<Rightarrow> True | Some x \<Rightarrow> named x v))"

fun items_kept :: "seg list \<Rightarrow> bool" where
  "items_kept [] = True"
| "items_kept (Seg k None # p) = items_kept p"
| "items_kept (Seg k (Some x) # p) = (below_item p \<and> items_kept p)"

lemma fits_step: "fits (s # t # p) v = fits (t # p) v"
  by (simp add: fits_def)

lemma get_after_set:
  "getPath m p = Some w \<Longrightarrow> p \<noteq> [] \<Longrightarrow> items_kept p \<Longrightarrow> fits p v \<Longrightarrow> getPath (setPath m p v) p = Some v"
proof (induction m p arbitrary: w rule: getPath.induct)
  case (2 kvs k rest)
  show ?case
  proof (cases rest)
    case (Cons s q)
    with 2 obtain u where u: "map_of kvs k = Some u" "getPath u (s # q) = Some w" by (auto split: option.splits)
    then obtain inner where inner: "u = JObj inner" by (cases u) auto
    with 2 u Cons show ?thesis by (simp add: fits_step)
  qed (use 2 in simp)
next
  case (3 kvs k x rest)
  then obtain its it where its: "map_of kvs k = Some (JArr its)" "List.find (named x) its = Some it"
    and it: "getPath it rest = Some w" by (auto split: option.splits json.splits)
  show ?case
  proof (cases rest)
    case Nil
    with 3 its show ?thesis
      by (simp add: fits_def find_some_list_ex find_update_first_same)
  next
    case (Cons s q)
    have n: "named x it" using its(2) by (metis find_Some_iff)
    with 3 its it Cons show ?thesis
      by (simp add: fits_step find_some_list_ex named_setPath
            find_update_first_same [where f = "\<lambda>it. setPath it (s # q) v"])
  qed
qed simp_all

text \<open>Two paths that part: at different keys, or at different items of one list.\<close>

fun apart :: "seg list \<Rightarrow> seg list \<Rightarrow> bool" where
  "apart (Seg k s # p) (Seg k' s' # q) =
     (k \<noteq> k' \<or>
      (case s of
         None \<Rightarrow> s' = None \<and> apart p q
       | Some x \<Rightarrow> (case s' of None \<Rightarrow> False | Some y \<Rightarrow> below_item p \<and> (x \<noteq> y \<or> apart p q))))"
| "apart _ _ = False"

lemma apart_nonempty: "apart p q \<Longrightarrow> p \<noteq> [] \<and> q \<noteq> []"
  by (cases "(p, q)" rule: apart.cases) auto

lemma get_after_set_apart:
  "apart p q \<Longrightarrow> getPath m p \<noteq> None \<Longrightarrow> fits p v \<Longrightarrow> getPath m q = Some w \<Longrightarrow> getPath (setPath m p v) q = Some w"
proof (induction p q arbitrary: m rule: apart.induct)
  case (1 k s p k' s' q)
  obtain kvs where m: "m = JObj kvs" using "1.prems"(4) by (cases m; cases s') auto
  show ?case
  proof (cases "k = k'")
    case False
    then show ?thesis using "1.prems"(2-4) m
      by (cases s; cases s'; cases p) (auto split: option.splits json.splits)
  next
    case k: True
    show ?thesis
    proof (cases s)
      case None
      with 1 k have s': "s' = None" "apart p q" by auto
      then obtain t p' where p: "p = t # p'" using apart_nonempty by (cases p) auto
      from "1.prems"(2) m None obtain u where u: "map_of kvs k = Some u" "getPath u p \<noteq> None" by (auto split: option.splits)
      then obtain inner where inner: "u = JObj inner" by (cases u; cases p) (auto simp: p)
      from 1 m u s' None k p inner show ?thesis by (simp add: fits_step)
    next
      case (Some x)
      with "1.prems"(1) k obtain y where y: "s' = Some y" "below_item p" "x \<noteq> y \<or> apart p q" by (auto split: option.splits)
      from "1.prems"(2) m Some obtain its it where its: "map_of kvs k = Some (JArr its)"
        "List.find (named x) its = Some it" "getPath it p \<noteq> None" by (auto split: option.splits json.splits)
      from "1.prems"(4) m y k its obtain it' where it': "List.find (named y) its = Some it'" "getPath it' q = Some w"
        by (auto split: option.splits)
      have n: "named x it" using its(2) by (metis find_Some_iff)
      show ?thesis
      proof (cases p)
        case Nil
        then have "x \<noteq> y" using y apart_nonempty by auto
        moreover from this have "named x z \<Longrightarrow> \<not> named y z" for z using named_unique by blast
        moreover have "named x v" using "1.prems"(3) Nil Some by (simp add: fits_def)
        ultimately show ?thesis using m k y Some its it' Nil
          by (simp add: find_some_list_ex find_update_first_other)
      next
        case (Cons t p')
        let ?f = "\<lambda>it. setPath it (t # p') v"
        have keep: "named z (?f i) = named z i" for z i using y(2) Cons by (simp add: named_setPath)
        show ?thesis
        proof (cases "x = y")
          case False
          then have "named x z \<Longrightarrow> \<not> named y z" for z using named_unique by blast
          then show ?thesis using m k y Some its it' Cons keep
            by (simp add: find_some_list_ex find_update_first_other)
        next
          case True
          then have ii: "it' = it" using its it' by simp
          have "getPath (?f it) q = Some w"
            using "1.IH"(2) [OF Some y(1), of it] y True its it' ii "1.prems"(3) Cons Some by (simp add: fits_step)
          then show ?thesis using m k y Some its True Cons keep n
            by (simp add: find_some_list_ex find_update_first_same [where f = ?f])
        qed
      qed
    qed
  qed
qed simp_all

subsection \<open>What the merge keeps\<close>

lemma find_index_at: "find_index P xs = Some i \<Longrightarrow> i < length xs \<and> P (xs ! i)"
  by (simp add: find_index_Some)

lemma index_of_key_Some:
  "index_of_key base key = Some i \<Longrightarrow> i < length base \<and> merge_key (base ! i) = Some key \<and> scalar key"
  by (auto simp: index_of_key_def rev_nth dest!: find_index_at split: if_splits)

lemma index_of_key_None:
  "scalar key \<Longrightarrow> index_of_key base key = None \<longleftrightarrow> (\<forall>it \<in> set base. merge_key it \<noteq> Some key)"
  by (auto simp: index_of_key_def)

text \<open>A merged item keeps its name, a merged container its kind.\<close>

lemma deepMerge_scalar: "scalar base \<Longrightarrow> deepMerge base ov = Inr ov"
  by (cases base; cases ov) (auto simp: scalar_def)

text \<open>No second item joins a list under a name it has.\<close>

definition no_twins :: "json \<Rightarrow> json \<Rightarrow> bool" where
  "no_twins u w \<longleftrightarrow>
     (\<forall>its. u = JArr its \<longrightarrow>
        (\<exists>its'. w = JArr its' \<and>
           (\<forall>x. list_ex (named x) its \<longrightarrow> length (filter (named x) its') = length (filter (named x) its))))"

lemma no_twins_refl [simp]: "no_twins u u"
  by (simp add: no_twins_def)

lemma list_ex_filter: "list_ex P xs \<longleftrightarrow> filter P xs \<noteq> []"
  by (auto simp: list_ex_iff filter_empty_conv)

lemma no_twins_trans:
  assumes "no_twins a b" "no_twins b c"
  shows "no_twins a c"
proof (cases a)
  case (JArr its)
  then obtain its' where b: "b = JArr its'" "\<forall>x. filter (named x) its \<noteq> [] \<longrightarrow> length (filter (named x) its') = length (filter (named x) its)"
    using assms(1) by (auto simp: no_twins_def list_ex_filter)
  then obtain its2 where "c = JArr its2" "\<forall>x. filter (named x) its' \<noteq> [] \<longrightarrow> length (filter (named x) its2) = length (filter (named x) its')"
    using assms(2) by (auto simp: no_twins_def list_ex_filter)
  then show ?thesis using JArr b by (simp add: no_twins_def list_ex_filter) (metis length_0_conv)
qed (simp_all add: no_twins_def)

definition same_paths :: "json \<Rightarrow> json \<Rightarrow> bool" where
  "same_paths b c \<longleftrightarrow> (\<forall>p u. getPath b p = Some u \<longrightarrow> (\<exists>w. getPath c p = Some w \<and> no_twins u w))"

definition keeps :: "json \<Rightarrow> json \<Rightarrow> bool" where
  "keeps b c \<longleftrightarrow> same_paths b c \<and>
     (\<forall>its x it. b = JArr its \<longrightarrow> List.find (named x) its = Some it \<longrightarrow>
        (\<exists>its' it'. c = JArr its' \<and> List.find (named x) its' = Some it' \<and> same_paths it it'))"

lemma same_paths_refl [simp]: "same_paths b b"
  by (simp add: same_paths_def)

lemma same_paths_trans: "same_paths a b \<Longrightarrow> same_paths b c \<Longrightarrow> same_paths a c"
  unfolding same_paths_def using no_twins_trans by blast

lemma same_paths_root: "same_paths b c \<Longrightarrow> no_twins b c"
  unfolding same_paths_def by (metis getPath.simps(1) option.inject)

lemma keeps_refl [simp]: "keeps b b"
  by (simp add: keeps_def)

lemma keeps_item:
  "keeps (JArr its) c \<Longrightarrow> List.find (named x) its = Some it \<Longrightarrow>
   \<exists>its' it'. c = JArr its' \<and> List.find (named x) its' = Some it' \<and> same_paths it it'"
  by (simp add: keeps_def)

lemma keeps_trans: "keeps a b \<Longrightarrow> keeps b c \<Longrightarrow> keeps a c"
proof (unfold keeps_def [of a c], intro conjI allI impI)
  assume ab: "keeps a b" and bc: "keeps b c"
  then show "same_paths a c" using same_paths_trans by (auto simp: keeps_def)
  fix its x it assume a: "a = JArr its" "List.find (named x) its = Some it"
  then obtain its' it' where b: "b = JArr its'" "List.find (named x) its' = Some it'" "same_paths it it'"
    using keeps_item ab by blast
  then obtain its2 it2 where "c = JArr its2" "List.find (named x) its2 = Some it2" "same_paths it' it2"
    using keeps_item bc by blast
  then show "\<exists>its' it'. c = JArr its' \<and> List.find (named x) its' = Some it' \<and> same_paths it it'"
    using b(3) same_paths_trans by blast
qed

lemma keeps_scalar: "scalar b \<Longrightarrow> keeps b c"
proof -
  assume b: "scalar b"
  have "getPath b p = Some u \<Longrightarrow> p = [] \<and> u = b" for p u using b by (cases b; cases p) (auto simp: scalar_def)
  moreover have "no_twins b c" using b by (auto simp: no_twins_def scalar_def)
  ultimately have "same_paths b c" unfolding same_paths_def by (metis getPath.simps(1))
  then show ?thesis using b by (auto simp: keeps_def scalar_def)
qed

definition entries_kept :: "(string \<times> json) list \<Rightarrow> (string \<times> json) list \<Rightarrow> bool" where
  "entries_kept base out \<longleftrightarrow> (\<forall>k b. map_of base k = Some b \<longrightarrow> (\<exists>c. map_of out k = Some c \<and> keeps b c))"

lemma entries_kept_refl [simp]: "entries_kept base base"
  by (simp add: entries_kept_def)

lemma keeps_JObj: "entries_kept base out \<Longrightarrow> keeps (JObj base) (JObj out)"
proof -
  assume e: "entries_kept base out"
  have "\<exists>w. getPath (JObj out) p = Some w \<and> no_twins u w" if g: "getPath (JObj base) p = Some u" for p u
  proof (cases p)
    case Nil
    then show ?thesis using g by (auto simp: no_twins_def)
  next
    case (Cons s rest)
    obtain k sel where s: "s = Seg k sel" by (cases s)
    obtain b where b: "map_of base k = Some b" using g Cons s by (cases sel) (auto split: option.splits)
    then obtain c where c: "map_of out k = Some c" "keeps b c" using e by (auto simp: entries_kept_def)
    show ?thesis
    proof (cases sel)
      case None
      with g Cons s b c show ?thesis by (simp add: keeps_def same_paths_def)
    next
      case (Some x)
      with g Cons s b obtain its it where its: "b = JArr its" "List.find (named x) its = Some it" "getPath it rest = Some u"
        by (auto split: option.splits json.splits)
      then obtain its' it' where "c = JArr its'" "List.find (named x) its' = Some it'" "same_paths it it'"
        using c(2) keeps_item by blast
      with its Cons s Some c show ?thesis by (simp add: same_paths_def)
    qed
  qed
  then show ?thesis by (simp add: keeps_def same_paths_def)
qed

definition items_like :: "json list \<Rightarrow> json list \<Rightarrow> bool" where
  "items_like base out \<longleftrightarrow> length base \<le> length out \<and>
     (\<forall>i < length base. keeps (base ! i) (out ! i) \<and> merge_key (out ! i) = merge_key (base ! i)) \<and>
     (\<forall>x. list_ex (named x) base \<longrightarrow> (\<forall>it \<in> set (drop (length base) out). \<not> named x it))"

lemma items_like_refl [simp]: "items_like base base"
  by (simp add: items_like_def)

lemma find_nth:
  "List.find P xs = Some y \<longleftrightarrow> (\<exists>i < length xs. xs ! i = y \<and> P y \<and> (\<forall>j < i. \<not> P (xs ! j)))"
  by (auto simp: find_Some_iff)

lemma length_filter_map: "length (filter P xs) = length (filter (\<lambda>b. b) (map P xs))"
  by (simp add: filter_map o_def)

lemma named_map_cong: "map merge_key xs = map merge_key ys \<Longrightarrow> map (named x) xs = map (named x) ys"
  unfolding named_def by (induction xs ys rule: list_induct2') auto

lemma items_like_no_twins: "items_like base out \<Longrightarrow> no_twins (JArr base) (JArr out)"
proof -
  assume l: "items_like base out"
  have "map merge_key (take (length base) out) = map merge_key base"
    using l by (auto simp: items_like_def list_eq_iff_nth_eq)
  then have eq: "map (named x) (take (length base) out) = map (named x) base" for x
    by (rule named_map_cong)
  have "length (filter (named x) (take (length base) out)) = length (filter (named x) base)" for x
    by (simp only: length_filter_map [of "named x"] eq)
  moreover have "filter (named x) out = filter (named x) (take (length base) out)" if "list_ex (named x) base" for x
    using l that append_take_drop_id [of "length base" out, symmetric]
    by (metis (no_types, lifting) append.right_neutral filter_False filter_append items_like_def)
  ultimately show ?thesis by (simp add: no_twins_def)
qed

lemma keeps_JArr: "items_like base out \<Longrightarrow> keeps (JArr base) (JArr out)"
proof -
  assume l: "items_like base out"
  have "\<exists>it'. List.find (named x) out = Some it' \<and> same_paths it it'" if "List.find (named x) base = Some it" for x it
  proof -
    from that obtain i where i: "i < length base" "base ! i = it" "named x it" "\<forall>j < i. \<not> named x (base ! j)"
      by (auto simp: find_nth)
    then have "named x (out ! i)" "\<forall>j < i. \<not> named x (out ! j)" "i < length out" "same_paths it (out ! i)"
      using l by (auto simp: items_like_def named_def keeps_def)
    then show ?thesis by (auto simp: find_nth)
  qed
  moreover have "getPath (JArr base) p = Some u \<Longrightarrow> p = [] \<and> u = JArr base" for p u by (cases p) auto
  then have "same_paths (JArr base) (JArr out)"
    unfolding same_paths_def using items_like_no_twins [OF l] by (metis getPath.simps(1))
  ultimately show ?thesis by (simp add: keeps_def)
qed

lemma merge_entries_other:
  "merge_entries base out ovs = Inr m \<Longrightarrow> k \<notin> fst ` set ovs \<Longrightarrow> map_of m k = map_of out k"
  by (induction ovs arbitrary: out) (auto split: option.splits sum.splits)

lemma merge_entries_scalar:
  "merge_entries base out ovs = Inr m \<Longrightarrow> distinct (map fst ovs) \<Longrightarrow> map_of base k = Some b \<Longrightarrow> scalar b \<Longrightarrow>
   map_of ovs k = Some v \<Longrightarrow> map_of m k = Some v"
proof (induction ovs arbitrary: out)
  case (Cons kv ovs)
  obtain k' ov where kv: "kv = (k', ov)" by (cases kv)
  show ?case
  proof (cases "k' = k")
    case True
    with Cons.prems kv have "merge_entries base (AList.update k v out) ovs = Inr m" "k \<notin> fst ` set ovs"
      by (auto simp: deepMerge_scalar)
    then show ?thesis using merge_entries_other [of base "AList.update k v out" ovs m k] by simp
  qed (use Cons kv in \<open>auto split: option.splits sum.splits\<close>)
qed simp

lemma deepMerge_name:
  assumes "deepMerge b ov = Inr c" "merge_key b = Some key" "merge_key ov = Some key" "scalar key" "wf_json ov"
  shows "merge_key c = Some key"
proof -
  obtain kvs ovs where bo: "b = JObj kvs" "ov = JObj ovs" using assms(2,3) by (cases b; cases ov) auto
  with assms obtain out where "merge_entries kvs kvs ovs = Inr out" "c = JObj out" by (auto split: sum.splits)
  then show ?thesis using bo assms merge_entries_scalar [of kvs kvs ovs out LIST_MERGE_KEY key key] by simp
qed

lemma merge_keeps:
  "deepMerge b ov = Inr m \<Longrightarrow> wf_json ov \<Longrightarrow> keeps b m"
  "merge_entries be out es = Inr mes \<Longrightarrow> (\<And>kv. kv \<in> set es \<Longrightarrow> wf_json (snd kv)) \<Longrightarrow> entries_kept be out \<Longrightarrow> entries_kept be mes"
  "mergeLists bl ol ls = Inr ml \<Longrightarrow> (\<And>l. l \<in> set ls \<Longrightarrow> wf_json l) \<Longrightarrow> items_like bl ol \<Longrightarrow> items_like bl ml"
proof (induction b ov and be out es and bl ol ls arbitrary: m and mes and ml
       rule: deepMerge_merge_entries_mergeLists.induct)
  case (5 base out k ov rest)
  show ?case
  proof (cases "map_of base k")
    case None
    then have "entries_kept base (AList.update k ov out)" using 5 by (auto simp: entries_kept_def)
    then show ?thesis using 5 None by simp
  next
    case (Some bv)
    with 5 obtain v where v: "deepMerge bv ov = Inr v" "merge_entries base (AList.update k v out) rest = Inr mes"
      by (auto split: sum.splits)
    moreover have "wf_json ov" using "5.prems"(2) [of "(k, ov)"] by simp
    ultimately have "keeps bv v" using "5.IH"(2) Some by blast
    then have "entries_kept base (AList.update k v out)" using "5.prems"(3) Some by (auto simp: entries_kept_def)
    then show ?thesis using 5 Some v by simp
  qed
next
  case (7 base out ov rest)
  show ?case
  proof (cases "Option.bind (merge_key ov) (index_of_key base)")
    case None
    then have "list_ex (named x) base \<longrightarrow> \<not> named x ov" for x
      using index_of_key_None [of "JStr x" base] by (auto simp: named_def scalar_def list_ex_iff)
    then have "items_like base (out @ [ov])" using "7.prems"(3) by (auto simp: items_like_def nth_append)
    then show ?thesis using 7 None by simp
  next
    case (Some i)
    then obtain key where key: "merge_key ov = Some key" "i < length base" "merge_key (base ! i) = Some key" "scalar key"
      by (auto simp: bind_eq_Some_conv dest: index_of_key_Some)
    with 7 Some obtain v where v: "deepMerge (out ! i) ov = Inr v" "mergeLists base (out[i := v]) rest = Inr ml"
      by (auto split: sum.splits)
    have like: "keeps (base ! i) (out ! i)" "merge_key (out ! i) = Some key" "i < length out"
      using "7.prems"(3) key by (auto simp: items_like_def)
    have "keeps (out ! i) v" using 7 Some v by simp
    then have "keeps (base ! i) v" using like keeps_trans by blast
    moreover have "merge_key v = Some key" using deepMerge_name v(1) like(2) key "7.prems"(2) by simp
    ultimately have "items_like base (out[i := v])"
      using "7.prems"(3) key by (auto simp: items_like_def nth_list_update drop_update_cancel)
    then show ?thesis using 7 Some v by simp
  qed
qed (auto simp: keeps_scalar scalar_def intro: keeps_JObj keeps_JArr split: sum.splits if_splits)

lemmas deepMerge_keeps = merge_keeps(1)

subsection \<open>Protected paths stay\<close>

definition protected_segs :: "seg list list" where
  "protected_segs = map parsePath PROTECTED_PATHS"

lemma protected_segs_code:
  "protected_segs =
    (let ps = [Seg ''spec'' None, Seg ''podTemplate'' None, Seg ''spec'' None]; c = ps @ [Seg ''containers'' (Some ''sandbox'')]
     in [[Seg ''apiVersion'' None], [Seg ''kind'' None], [Seg ''metadata'' None, Seg ''name'' None],
         ps @ [Seg ''serviceAccountName'' None], ps @ [Seg ''automountServiceAccountToken'' None],
         ps @ [Seg ''volumes'' (Some ''broker-token'')],
         c @ [Seg ''volumeMounts'' (Some ''broker-token'')], c @ [Seg ''volumeMounts'' (Some ''workspace'')],
         [Seg ''spec'' None, Seg ''volumeClaimTemplates'' None],
         c @ [Seg ''env'' (Some ''CONVERSATION_ID'')], c @ [Seg ''env'' (Some ''BROKER_URL'')],
         c @ [Seg ''env'' (Some ''BROKER_TOKEN_PATH'')]])"
  by code_simp

lemma protected_segs_apart: "sorted_wrt apart protected_segs" "sorted_wrt (\<lambda>p q. apart q p) protected_segs"
  unfolding protected_segs_code by code_simp+

lemma protected_segs_items: "\<forall>p \<in> set protected_segs. p \<noteq> [] \<and> items_kept p"
  unfolding protected_segs_code by code_simp

lemma getPath_fits: "getPath m p = Some v \<Longrightarrow> fits p v"
proof (induction m p rule: getPath.induct)
  case (2 kvs k rest)
  then show ?case by (cases rest) (auto simp: fits_def split: option.splits)
next
  case (3 kvs k x rest)
  then obtain its it where its: "map_of kvs k = Some (JArr its)" "List.find (named x) its = Some it" "getPath it rest = Some v"
    by (auto split: option.splits json.splits)
  show ?case
  proof (cases rest)
    case Nil
    then show ?thesis using its by (auto simp: fits_def find_Some_iff)
  next
    case (Cons s q)
    then show ?thesis using "3.IH" its by (simp add: fits_step)
  qed
qed (auto simp: fits_def)

definition found_in :: "json \<Rightarrow> json \<Rightarrow> seg list list \<Rightarrow> bool" where
  "found_in base m ps \<longleftrightarrow> (\<forall>p \<in> set ps. getPath base p \<noteq> None \<longrightarrow> getPath m p \<noteq> None)"

lemma reassert_apart:
  "apart p q \<Longrightarrow> found_in base m [p] \<Longrightarrow> getPath m q = Some w \<Longrightarrow> getPath (reassert base p m) q = Some w"
  by (auto simp: reassert_def found_in_def intro!: get_after_set_apart getPath_fits split: option.splits)

lemma reassert_found:
  "\<forall>q \<in> set ps. apart p q \<Longrightarrow> found_in base m (p # ps) \<Longrightarrow> found_in base (reassert base p m) ps"
  unfolding found_in_def using reassert_apart [of p _ base m]
  by (metis found_in_def list.set_intros(1) list.set_intros(2) not_None_eq empty_iff list.set(1) set_ConsD)

lemma reassert_same:
  "p \<noteq> [] \<Longrightarrow> items_kept p \<Longrightarrow> found_in base m [p] \<Longrightarrow> getPath base p = Some v \<Longrightarrow> getPath (reassert base p m) p = Some v"
  by (auto simp: reassert_def found_in_def intro!: get_after_set getPath_fits)

lemma reassert_fold_apart:
  "sorted_wrt apart ps \<Longrightarrow> \<forall>p \<in> set ps. apart p q \<Longrightarrow> found_in base m ps \<Longrightarrow> getPath m q = Some w \<Longrightarrow>
   getPath (fold (reassert base) ps m) q = Some w"
proof (induction ps arbitrary: m)
  case (Cons p ps)
  have "found_in base m [p]" using Cons.prems by (simp add: found_in_def)
  then show ?case using Cons reassert_apart [of p q base m w] reassert_found [of ps p base m] by simp
qed simp

lemma reassert_fold:
  "sorted_wrt apart ps \<Longrightarrow> sorted_wrt (\<lambda>p q. apart q p) ps \<Longrightarrow> \<forall>p \<in> set ps. p \<noteq> [] \<and> items_kept p \<Longrightarrow> found_in base m ps \<Longrightarrow>
   p \<in> set ps \<Longrightarrow> getPath base p = Some v \<Longrightarrow> getPath (fold (reassert base) ps m) p = Some v"
proof (induction ps arbitrary: m)
  case (Cons q ps)
  have f: "found_in base (reassert base q m) ps" using Cons.prems reassert_found by simp
  show ?case
  proof (cases "p \<in> set ps")
    case True
    then show ?thesis using Cons f by simp
  next
    case False
    then have "getPath (reassert base q m) p = Some v"
      using Cons.prems reassert_same [of q base m v] by (simp add: found_in_def)
    then show ?thesis using Cons.prems False f reassert_fold_apart [of ps p base _ v] by simp
  qed
qed simp

text \<open>
  A list on the way of a path, or beside it, keeps the number of items of each name when the path is set.
\<close>

fun beside :: "seg list \<Rightarrow> seg list \<Rightarrow> bool" where
  "beside (Seg k s # p) (Seg k' s' # q) =
     (k \<noteq> k' \<or>
      (case s of
         None \<Rightarrow> s' = None \<and> beside p q
       | Some x \<Rightarrow> (case s' of None \<Rightarrow> q = [] | Some y \<Rightarrow> below_item p \<and> (x \<noteq> y \<or> beside p q))))"
| "beside p [] = (p \<noteq> [])"
| "beside [] _ = False"

lemma length_filter_update_first:
  "(\<And>y. P y \<Longrightarrow> Q (f y) = Q y) \<Longrightarrow> length (filter Q (update_first P f xs)) = length (filter Q xs)"
  by (induction xs) auto

lemma beside_nonempty: "beside p q \<Longrightarrow> p \<noteq> []"
  by (cases "(p, q)" rule: beside.cases) auto

lemma setPath_no_twins:
  "beside p q \<Longrightarrow> getPath m p \<noteq> None \<Longrightarrow> items_kept p \<Longrightarrow> fits p v \<Longrightarrow> getPath m q = Some u \<Longrightarrow>
   \<exists>u'. getPath (setPath m p v) q = Some u' \<and> no_twins u u'"
proof (induction p q arbitrary: m rule: beside.induct)
  case (1 k s p k' s' q)
  obtain kvs where m: "m = JObj kvs" using "1.prems"(5) by (cases m; cases s') auto
  show ?case
  proof (cases "k = k'")
    case False
    then have "getPath (setPath m (Seg k s # p) v) (Seg k' s' # q) = Some u" using "1.prems"(2-5) m
      by (cases s; cases s'; cases p) (auto split: option.splits json.splits)
    then show ?thesis by auto
  next
    case k: True
    show ?thesis
    proof (cases s)
      case None
      with 1 k have s': "s' = None" "beside p q" by auto
      then obtain t p' where p: "p = t # p'" using beside_nonempty by (cases p) auto
      from "1.prems"(2) m None obtain w where w: "map_of kvs k = Some w" "getPath w p \<noteq> None" by (auto split: option.splits)
      then obtain inner where inner: "w = JObj inner" by (cases w; cases p) (auto simp: p)
      from 1 m w s' None k p inner show ?thesis by (simp add: fits_step)
    next
      case (Some x)
      from "1.prems"(2) m Some obtain its it where its: "map_of kvs k = Some (JArr its)"
        "List.find (named x) its = Some it" "getPath it p \<noteq> None" by (auto split: option.splits json.splits)
      have n: "named x it" using its(2) by (metis find_Some_iff)
      have bel: "below_item p" using "1.prems"(3) Some by simp
      define f where "f = (\<lambda>i. if p = [] then v else setPath i p v)"
      have set: "setPath m (Seg k s # p) v = JObj (AList.update k (JArr (update_first (named x) f its)) kvs)"
        using m Some its find_some_list_ex [OF its(2)] by (cases p) (simp_all add: f_def)
      have keep: "named z (f i) = named z i" if "named x i" for z i
      proof (cases p)
        case Nil
        then have "named x v" using "1.prems"(4) Some by (simp add: fits_def)
        then show ?thesis using that Nil named_unique by (auto simp: f_def named_def)
      qed (use bel in \<open>simp add: f_def named_setPath\<close>)
      show ?thesis
      proof (cases s')
        case None
        then have "q = []" using "1.prems"(1) k Some by simp
        then show ?thesis using "1.prems"(5) m None k its keep unfolding set
          by (auto simp: no_twins_def length_filter_update_first [where f = f])
      next
        case y: (Some y)
        from "1.prems"(5) m y k its obtain it' where it': "List.find (named y) its = Some it'" "getPath it' q = Some u"
          by (auto split: option.splits)
        show ?thesis
        proof (cases "x = y")
          case False
          then have "named x z \<Longrightarrow> \<not> named y z" for z using named_unique by blast
          then have "List.find (named y) (update_first (named x) f its) = Some it'"
            using it' keep by (simp add: find_update_first_other)
          then show ?thesis using it' y k unfolding set by simp
        next
          case True
          then have b: "beside p q" and ii: "it' = it" using "1.prems"(1) k Some y its it' by auto
          then obtain t p' where p: "p = t # p'" using beside_nonempty by (cases p) auto
          have "\<exists>u'. getPath (f it) q = Some u' \<and> no_twins u u'"
            using "1.IH"(2) [OF Some y b its(3)] "1.prems"(3,4) it' ii Some p by (simp add: fits_step f_def)
          moreover have "List.find (named y) (update_first (named x) f its) = Some (f it)"
            using its(2) True n keep by (simp add: find_update_first_same)
          ultimately show ?thesis using y k unfolding set by simp
        qed
      qed
    qed
  qed
next
  case (2 p)
  then obtain kvs s p' where "m = JObj kvs" "p = s # p'" by (cases m; cases p) auto
  then have "\<not> isArray m" by simp
  then show ?case using 2 by (auto simp: no_twins_def)
qed simp

lemma reassert_fold_no_twins:
  "sorted_wrt apart ps \<Longrightarrow> \<forall>p \<in> set ps. items_kept p \<and> beside p q \<Longrightarrow> found_in base m ps \<Longrightarrow> getPath m q = Some u \<Longrightarrow>
   \<exists>u'. getPath (fold (reassert base) ps m) q = Some u' \<and> no_twins u u'"
proof (induction ps arbitrary: m u)
  case (Cons p ps)
  have "\<exists>u'. getPath (reassert base p m) q = Some u' \<and> no_twins u u'"
  proof (cases "getPath base p")
    case (Some v)
    then show ?thesis using Cons.prems setPath_no_twins [of p q m v u] getPath_fits [OF Some]
      by (simp add: reassert_def found_in_def)
  qed (use Cons.prems in \<open>simp add: reassert_def\<close>)
  moreover have "found_in base (reassert base p m) ps" using Cons.prems reassert_found by simp
  ultimately show ?case using Cons no_twins_trans by fastforce
qed auto

subsection \<open>The patched manifest\<close>

lemma applyOverlay_steps:
  assumes "applyOverlay base overlay = Inr m" "wf_json (JObj overlay)"
  obtains "m = base"
  | merged where "m = fold (reassert base) protected_segs merged" "keeps base merged" "found_in base merged protected_segs"
proof (cases "overlay = []")
  case True
  then show ?thesis using assms that(1) by (simp add: applyOverlay_def)
next
  case False
  with assms(1) obtain merged where m: "deepMerge base (JObj overlay) = Inr merged" "m = reassertProtected base merged"
    by (auto simp: applyOverlay_def split: sum.splits)
  have k: "keeps base merged" using deepMerge_keeps m(1) assms(2) by blast
  then have "found_in base merged protected_segs" by (fastforce simp: found_in_def keeps_def same_paths_def)
  moreover have "m = fold (reassert base) protected_segs merged"
    unfolding m(2) reassertProtected_def protected_segs_def by (simp add: fold_map o_def)
  ultimately show ?thesis using that(2) k by blast
qed

lemma protected_value_kept:
  assumes "applyOverlay base overlay = Inr m" "wf_json (JObj overlay)"
    and "segs \<in> set protected_segs" "getPath base segs = Some v"
  shows "getPath m segs = Some v"
  using assms(1,2)
proof (cases rule: applyOverlay_steps)
  case (2 merged)
  then show ?thesis using reassert_fold [OF protected_segs_apart(1,2) protected_segs_items] assms(3,4) by simp
qed (use assms in simp)

definition item_lists :: "seg list list" where
  "item_lists =
    (let ps = [Seg ''spec'' None, Seg ''podTemplate'' None, Seg ''spec'' None]; c = ps @ [Seg ''containers'' (Some ''sandbox'')]
     in [ps @ [Seg ''containers'' None], ps @ [Seg ''volumes'' None], c @ [Seg ''volumeMounts'' None], c @ [Seg ''env'' None]])"

lemma protected_segs_beside: "\<forall>q \<in> set item_lists. \<forall>p \<in> set protected_segs. items_kept p \<and> beside p q"
  unfolding protected_segs_code item_lists_def by code_simp

lemma item_list_kept:
  assumes "applyOverlay base overlay = Inr m" "wf_json (JObj overlay)" "q \<in> set item_lists" "getPath base q = Some u"
  shows "\<exists>w. getPath m q = Some w \<and> no_twins u w"
  using assms(1,2)
proof (cases rule: applyOverlay_steps)
  case (2 merged)
  then obtain w where w: "getPath merged q = Some w" "no_twins u w" using assms(4) unfolding keeps_def same_paths_def by blast
  obtain w' where "getPath (fold (reassert base) protected_segs merged) q = Some w'" "no_twins w w'"
    using reassert_fold_no_twins [OF protected_segs_apart(1) _ 2(3) w(1)] protected_segs_beside assms(3) by blast
  then show ?thesis using 2(1) w(2) no_twins_trans by blast
qed (use assms in auto)

text \<open>
  C18 Whatever a deployment's overlay says, every path Scooter owns that the generated manifest has
  reads in the patched manifest what it reads in the generated one.
\<close>

theorem overlay_keeps_protected:
  assumes "applyOverlay base overlay = Inr m" "wf_json (JObj overlay)"
    and "path \<in> set PROTECTED_PATHS" "getPath base (parsePath path) = Some v"
  shows "getPath m (parsePath path) = Some v"
  using protected_value_kept [OF assms(1,2) _ assms(4)] assms(3) by (simp add: protected_segs_def)

lemma getPath_append_list:
  "getPath m (q @ [Seg k (Some x)]) = (case getPath m (q @ [Seg k None]) of Some (JArr its) \<Rightarrow> List.find (named x) its | _ \<Rightarrow> None)"
proof (induction m q rule: getPath.induct)
  case (1 root)
  then show ?case by (cases root) (auto split: option.splits json.splits)
qed (auto split: option.splits json.splits)

lemma find_filter: "List.find P xs = (case filter P xs of [] \<Rightarrow> None | y # _ \<Rightarrow> Some y)"
  by (induction xs) auto

lemma filter_single: "length (filter P xs) = 1 \<Longrightarrow> List.find P xs = Some y \<Longrightarrow> filter P xs = [y]"
  by (auto simp: find_filter length_Suc_conv)

lemma protected_item_single:
  assumes "applyOverlay base overlay = Inr m" "wf_json (JObj overlay)" "q @ [Seg k (Some x)] \<in> set protected_segs"
    and "getPath base (q @ [Seg k None]) = Some (JArr its)" "filter (named x) its = [it]"
  shows "\<exists>its'. getPath m (q @ [Seg k None]) = Some (JArr its') \<and> filter (named x) its' = [it]"
proof -
  have "q @ [Seg k None] \<in> set item_lists"
    using assms(3) unfolding protected_segs_code item_lists_def Let_def by (auto simp: append_eq_Cons_conv Cons_eq_append_conv)
  then obtain its' where its': "getPath m (q @ [Seg k None]) = Some (JArr its')" "no_twins (JArr its) (JArr its')"
    using item_list_kept [OF assms(1,2) _ assms(4)] by (auto simp: no_twins_def)
  have one: "length (filter (named x) its') = 1"
    using its'(2) assms(5) by (auto simp: no_twins_def list_ex_filter)
  have "List.find (named x) its = Some it" using assms(5) by (simp add: find_filter)
  then have "getPath base (q @ [Seg k (Some x)]) = Some it" using assms(4) by (simp add: getPath_append_list)
  then have "getPath m (q @ [Seg k (Some x)]) = Some it" by (rule protected_value_kept [OF assms(1-3)])
  then have "List.find (named x) its' = Some it" using its'(1) by (simp add: getPath_append_list)
  then show ?thesis using its'(1) filter_single [OF one] by simp
qed

text \<open>
  The overlay cannot shadow a protected item either: where the generated list has one item of a
  protected name, the patched list has exactly that item of that name. (Of two environment variables
  of a name Kubernetes takes the last.)
\<close>

theorem overlay_adds_no_twin:
  assumes "applyOverlay base overlay = Inr m" "wf_json (JObj overlay)"
    and "path \<in> set PROTECTED_PATHS" "parsePath path = q @ [Seg k (Some x)]"
    and "getPath base (q @ [Seg k None]) = Some (JArr its)" "filter (named x) its = [it]"
  shows "\<exists>its'. getPath m (q @ [Seg k None]) = Some (JArr its') \<and> filter (named x) its' = [it]"
proof -
  have "parsePath path \<in> set protected_segs" using assms(3) by (simp add: protected_segs_def)
  then show ?thesis using protected_item_single [OF assms(1,2) _ assms(5,6)] by (simp add: assms(4))
qed

definition sample_base :: json where
  "sample_base = JObj [(''kind'', JStr ''Sandbox''), (''metadata'', JObj [(''name'', JStr ''conv-1'')]),
     (''spec'', JObj [(''podTemplate'', JObj [(''spec'', JObj [(''volumes'',
        JArr [JObj [(''name'', JStr ''run'')], JObj [(''name'', JStr ''broker-token''), (''projected'', JStr ''token'')]])])])])]"

definition sample_overlay :: "(string \<times> json) list" where
  "sample_overlay = [(''metadata'', JObj [(''name'', JStr ''other''), (''labels'', JObj [])]),
     (''spec'', JObj [(''podTemplate'', JObj [(''spec'', JObj [(''volumes'',
        JArr [JObj [(''name'', JStr ''broker-token''), (''projected'', JNull)], JObj [(''name'', JStr ''cache'')]])])])])]"

theorem overlay_keeps_protected_witness:
  "\<exists>m. applyOverlay sample_base sample_overlay = Inr m
     \<and> getPath m (parsePath ''spec.podTemplate.spec.volumes[name=broker-token]'')
        = Some (JObj [(''name'', JStr ''broker-token''), (''projected'', JStr ''token'')])"
proof -
  have "\<not> isl (applyOverlay sample_base sample_overlay)" by code_simp
  then obtain m where m: "applyOverlay sample_base sample_overlay = Inr m" by (cases "applyOverlay sample_base sample_overlay") auto
  have "getPath m (parsePath ''spec.podTemplate.spec.volumes[name=broker-token]'')
        = Some (JObj [(''name'', JStr ''broker-token''), (''projected'', JStr ''token'')])"
  proof (rule overlay_keeps_protected [OF m])
    show "wf_json (JObj sample_overlay)" by code_simp
    show "''spec.podTemplate.spec.volumes[name=broker-token]'' \<in> set PROTECTED_PATHS" by code_simp
    show "getPath sample_base (parsePath ''spec.podTemplate.spec.volumes[name=broker-token]'')
        = Some (JObj [(''name'', JStr ''broker-token''), (''projected'', JStr ''token'')])" by code_simp
  qed
  with m show ?thesis by blast
qed

end
