(* ===== verification/Sandbox_Manifest.thy ===== *)
theory Sandbox_Manifest
  imports Sandbox_Overlay
begin

text \<open>
  The Sandbox object of a conversation (\<^verbatim>\<open>session/k8sProvisioner.ts\<close>): the manifest with the
  deployment's options and overlay, the environment that names the conversation, and how a stored pod
  template is compared with a fresh one. Also the origin of a conversation's services
  (\<^verbatim>\<open>proxy/sandboxOrigin.ts\<close>). SHA-256 is a parameter.
\<close>

subsection \<open>Service origins\<close>

record sandbox_origins =
  so_domain :: string
  so_scheme :: string

definition SANDBOX_LABEL_LENGTH :: nat where "SANDBOX_LABEL_LENGTH = 8"

definition hex_char :: "char \<Rightarrow> bool" where
  "hex_char c = (let n = of_char c :: nat in (48 \<le> n \<and> n \<le> 57) \<or> (97 \<le> n \<and> n \<le> 102))"

definition sandboxLabel :: "string \<Rightarrow> string option" where
  "sandboxLabel threadId =
     (let label = lower (take SANDBOX_LABEL_LENGTH threadId)
      in if length label = 8 \<and> list_all hex_char label then Some label else None)"

definition sandboxOrigin :: "string \<Rightarrow> sandbox_origins option \<Rightarrow> string option" where
  "sandboxOrigin threadId origins =
     (case origins of
        None \<Rightarrow> None
      | Some o' \<Rightarrow>
          map_option (\<lambda>label. so_scheme o' @ ''://'' @ label @ ''.'' @ so_domain o') (sandboxLabel threadId))"

definition servicePrefix :: "string \<Rightarrow> sandbox_origins option \<Rightarrow> string" where
  "servicePrefix threadId origins = (if sandboxOrigin threadId origins \<noteq> None then [] else ''/c/'' @ threadId)"

definition serviceUrl :: "string \<Rightarrow> string \<Rightarrow> sandbox_origins option \<Rightarrow> string" where
  "serviceUrl threadId service origins =
     (case sandboxOrigin threadId origins of
        Some origin \<Rightarrow> origin @ ''/'' @ encodeURIComponent service @ ''/''
      | None \<Rightarrow> ''/c/'' @ encodeURIComponent threadId @ ''/'' @ encodeURIComponent service @ ''/'')"

subsection \<open>The manifest\<close>

definition SANDBOX_NAME_LABEL :: string where "SANDBOX_NAME_LABEL = ''agents.x-k8s.io/sandbox-name''"

definition env_var :: "string \<Rightarrow> string \<Rightarrow> json" where
  "env_var n v = JObj [(''name'', JStr n), (''value'', JStr v)]"

record deploy_opts =
  d_scooterConfigMap :: "string option"
  d_configFilesConfigMap :: "string option"
  d_extraTokenAudiences :: "string list"
  d_extraEnv :: "(string \<times> string) list"
  d_overlayStore :: bool
  d_overlayStorage :: "string option"
  d_overlayStorageClass :: "string option"
  d_volumeClaims :: "(string, (string \<times> json) list \<times> json) js_map"
  d_pullPolicy :: "string option"
  d_sandboxRuntimeClass :: "string option"
  d_userNamespace :: bool
  d_resources :: "json option"
  d_overlay :: "(string \<times> json) list option"

definition present :: "bool \<Rightarrow> 'a list \<Rightarrow> 'a list" where
  "present b xs = (if b then xs else [])"

definition claim :: "deploy_opts \<Rightarrow> string \<Rightarrow> json \<Rightarrow> json" where
  "claim d name fallback =
     (case map_of (d_volumeClaims d) name of
        None \<Rightarrow> fallback
      | Some (metadata, spec) \<Rightarrow>
          JObj [(''metadata'', JObj (AList.update ''name'' (JStr name) metadata)), (''spec'', spec)])"

definition volume_mounts :: "bool \<Rightarrow> deploy_opts \<Rightarrow> json list" where
  "volume_mounts systemdImage d =
     (let mount = (\<lambda>n p. JObj [(''name'', JStr n), (''mountPath'', JStr p)]);
          mount_ro = (\<lambda>n p. JObj [(''name'', JStr n), (''mountPath'', JStr p), (''readOnly'', JBool True)])
      in [mount ''workspace'' ''/workspace'', mount_ro ''broker-token'' ''/var/run/secrets/broker'']
         @ present systemdImage [mount ''run'' ''/run'', mount ''tmp'' ''/tmp'']
         @ present (Bridge_Text.truthy (d_scooterConfigMap d)) [mount_ro ''scooter-tools'' ''/etc/agent-sandbox/scooter'']
         @ map (\<lambda>aud. mount_ro (''tok-'' @ aud) (''/var/run/secrets/'' @ aud)) (d_extraTokenAudiences d)
         @ present (d_overlayStore d) [mount ''scooter-rw'' ''/nix/.scooter-rw'']
         @ present (Bridge_Text.truthy (d_configFilesConfigMap d)) [mount_ro ''deploy-config'' ''/etc/agent-sandbox/config''])"

definition container_env :: "string \<Rightarrow> deploy_opts \<Rightarrow> json list" where
  "container_env namespace d =
     [env_var ''BROKER_URL'' (''http://agent-broker.'' @ namespace @ ''.svc.cluster.local:8080''),
      env_var ''BROKER_TOKEN_PATH'' ''/var/run/secrets/broker/token'',
      env_var ''HOME'' ''/workspace'']
     @ map (\<lambda>(n, v). env_var n v) (d_extraEnv d)"

definition token_volume :: "string \<Rightarrow> string \<Rightarrow> json" where
  "token_volume name audience =
     JObj [(''name'', JStr name),
           (''projected'', JObj [(''sources'', JArr [JObj [(''serviceAccountToken'',
              JObj [(''audience'', JStr audience), (''path'', JStr ''token'')])]])])]"

definition volumes :: "bool \<Rightarrow> string \<Rightarrow> deploy_opts \<Rightarrow> json list" where
  "volumes systemdImage audience d =
     (let tmpfs = (\<lambda>n. JObj [(''name'', JStr n), (''emptyDir'', JObj [(''medium'', JStr ''Memory'')])]);
          config = (\<lambda>n cm. JObj [(''name'', JStr n), (''configMap'', JObj [(''name'', JStr (the cm))])])
      in [token_volume ''broker-token'' audience]
         @ present systemdImage [tmpfs ''run'', tmpfs ''tmp'']
         @ present (Bridge_Text.truthy (d_scooterConfigMap d)) [config ''scooter-tools'' (d_scooterConfigMap d)]
         @ present (Bridge_Text.truthy (d_configFilesConfigMap d)) [config ''deploy-config'' (d_configFilesConfigMap d)]
         @ map (\<lambda>aud. token_volume (''tok-'' @ aud) aud) (d_extraTokenAudiences d))"

definition sandbox_container :: "string \<Rightarrow> string \<Rightarrow> bool \<Rightarrow> deploy_opts \<Rightarrow> json" where
  "sandbox_container img namespace systemdImage d =
     JObj ([(''name'', JStr ''sandbox''), (''image'', JStr img),
            (''imagePullPolicy'', JStr (case d_pullPolicy d of None \<Rightarrow> ''Always'' | Some p \<Rightarrow> p))]
       @ (case d_resources d of None \<Rightarrow> [] | Some r \<Rightarrow> [(''resources'', r)])
       @ present systemdImage
           [(''securityContext'',
             JObj ([(''capabilities'', JObj [(''add'', JArr [JStr ''SYS_ADMIN''])])]
               @ present (d_userNamespace d) [(''procMount'', JStr ''Unmasked'')]))]
       @ [(''volumeMounts'', JArr (volume_mounts systemdImage d)), (''env'', JArr (container_env namespace d))])"

definition claim_templates :: "string \<Rightarrow> deploy_opts \<Rightarrow> json list" where
  "claim_templates storage d =
     (let pvc = (\<lambda>name size extra. JObj [(''metadata'', JObj [(''name'', JStr name)]),
              (''spec'', JObj ([(''accessModes'', JArr [JStr ''ReadWriteOnce'']),
                 (''resources'', JObj [(''requests'', JObj [(''storage'', JStr size)])])] @ extra))])
      in [claim d ''workspace'' (pvc ''workspace'' storage [])]
         @ present (d_overlayStore d)
             [claim d ''scooter-rw'' (pvc ''scooter-rw'' (case d_overlayStorage d of None \<Rightarrow> ''20Gi'' | Some s \<Rightarrow> s)
                (present (Bridge_Text.truthy (d_overlayStorageClass d)) [(''storageClassName'', JStr (the (d_overlayStorageClass d)))]))])"

definition base_manifest :: "string \<Rightarrow> string \<Rightarrow> string \<Rightarrow> string \<Rightarrow> string \<Rightarrow> string \<Rightarrow> bool \<Rightarrow> deploy_opts \<Rightarrow> json" where
  "base_manifest name sa img namespace audience storage systemdImage d =
     JObj
      [(''apiVersion'', JStr ''agents.x-k8s.io/v1beta1''),
       (''kind'', JStr ''Sandbox''),
       (''metadata'', JObj [(''name'', JStr name), (''namespace'', JStr namespace),
          (''labels'', JObj [(SANDBOX_NAME_LABEL, JStr name)])]),
       (''spec'', JObj
         [(''operatingMode'', JStr ''Running''),
          (''podTemplate'', JObj
            [(''metadata'', JObj [(''labels'', JObj [(SANDBOX_NAME_LABEL, JStr name)])]),
             (''spec'', JObj
               ([(''serviceAccountName'', JStr sa), (''automountServiceAccountToken'', JBool False)]
                @ present (systemdImage \<and> Bridge_Text.truthy (d_sandboxRuntimeClass d))
                    [(''runtimeClassName'', JStr (the (d_sandboxRuntimeClass d)))]
                @ present (systemdImage \<and> d_userNamespace d) [(''hostUsers'', JBool False)]
                @ [(''containers'', JArr [sandbox_container img namespace systemdImage d]),
                   (''volumes'', JArr (volumes systemdImage audience d))]))]),
          (''volumeClaimTemplates'', JArr (claim_templates storage d))])]"

definition sandboxManifest :: "string \<Rightarrow> string \<Rightarrow> string \<Rightarrow> string \<Rightarrow> string \<Rightarrow> string \<Rightarrow> bool \<Rightarrow> deploy_opts \<Rightarrow> overlay_error + json" where
  "sandboxManifest name sa img namespace audience storage systemdImage d =
     (let base = base_manifest name sa img namespace audience storage systemdImage d
      in case d_overlay d of None \<Rightarrow> Inr base | Some ov \<Rightarrow> applyOverlay base ov)"

subsection \<open>The manifest of a conversation\<close>

record provisioner_opts =
  po_namespace :: string
  po_sandboxImage :: string
  po_brokerAudience :: "string option"
  po_workspaceStorage :: "string option"
  po_systemdImage :: bool
  po_publicUrl :: "string option"
  po_sandboxOrigins :: "sandbox_origins option"
  po_deploy :: deploy_opts  \<comment> \<open>the options passed on unchanged; \<open>d_extraEnv\<close> is the deployment's\<close>

definition sandboxName :: "string \<Rightarrow> string" where "sandboxName cid = ''conv-'' @ cid"

definition convIdOf :: "string \<Rightarrow> string" where
  "convIdOf name = (if starts_with name ''conv-'' then drop 5 name else name)"

definition saName :: "string \<Rightarrow> string" where "saName cid = ''sandbox-'' @ cid"

definition CONVERSATION_ENV :: "string list" where
  "CONVERSATION_ENV = [''CONVERSATION_URL'', ''CONVERSATION_ID'', ''SCOOTER_SERVICES_ORIGIN'']"

definition strip_slash :: "string \<Rightarrow> string" where
  "strip_slash s = (if s \<noteq> [] \<and> last s = CHR ''/'' then butlast s else s)"

definition conversationEnv :: "provisioner_opts \<Rightarrow> string \<Rightarrow> (string \<times> string) list" where
  "conversationEnv po urlThread =
     (case po_publicUrl po of
        None \<Rightarrow> []
      | Some url \<Rightarrow> present (url \<noteq> []) [(''CONVERSATION_URL'', strip_slash url @ ''/?thread='' @ encodeURIComponent urlThread)])
     @ [(''CONVERSATION_ID'', urlThread)]
     @ (case sandboxOrigin urlThread (po_sandboxOrigins po) of
          None \<Rightarrow> [] | Some origin \<Rightarrow> present (origin \<noteq> []) [(''SCOOTER_SERVICES_ORIGIN'', origin)])"

text \<open>\<^verbatim>\<open>[name, value ?? null]\<close> pairs of the variables the conversation owns, in the order \<^verbatim>\<open>sort()\<close> gives them.\<close>

definition env_key :: "(string \<times> string option) list \<Rightarrow> (string \<times> string option) list" where
  "env_key vs =
     sort_key (\<lambda>(n, v). n @ '','' @ (case v of None \<Rightarrow> [] | Some x \<Rightarrow> x))
       (filter (\<lambda>(n, _). n \<in> set CONVERSATION_ENV) vs)"

definition staleEnv :: "provisioner_opts \<Rightarrow> (string \<times> string option) list \<Rightarrow> (string \<times> string option) list option" where
  "staleEnv po env =
     (case List.find (\<lambda>(n, _). n = ''CONVERSATION_ID'') env of
        Some (_, Some thread) \<Rightarrow>
          if thread = [] then None
          else (let want = map (apsnd Some) (conversationEnv po thread)
                in if env_key env = env_key want then None
                   else Some (filter (\<lambda>(n, _). n \<notin> set CONVERSATION_ENV) env @ want))
      | _ \<Rightarrow> None)"

definition TEMPLATE_HASH_ANNOTATION :: string where "TEMPLATE_HASH_ANNOTATION = ''scooter.io/template-hash''"

fun canon :: "json \<Rightarrow> json" where
  "canon (JObj kvs) = JObj (sort_key fst (map (\<lambda>(k, v). (k, canon v)) kvs))"
| "canon (JArr xs) = JArr (map canon xs)"
| "canon v = v"

definition canonical :: "json \<Rightarrow> string" where
  "canonical v = stringify (canon v)"

fun del_resources :: "json \<Rightarrow> json" where
  "del_resources (JObj c) = JObj (AList.delete ''resources'' c)"
| "del_resources v = v"

definition platformPart :: "json option \<Rightarrow> json" where
  "platformPart pt =
     (case pt of
        None \<Rightarrow> JObj []
      | Some (JObj t) \<Rightarrow>
          (case map_of t ''spec'' of
             Some (JObj sp) \<Rightarrow>
               (case map_of sp ''containers'' of
                  Some (JArr cs) \<Rightarrow>
                    JObj (AList.update ''spec'' (JObj (AList.update ''containers'' (JArr (map del_resources cs)) sp)) t)
                | _ \<Rightarrow> JObj t)
           | _ \<Rightarrow> JObj t)
      | Some v \<Rightarrow> v)"

definition templateHash :: "(string \<Rightarrow> string) \<Rightarrow> json option \<Rightarrow> string" where
  "templateHash sha256 pt = take 16 (sha256 (canonical (platformPart pt)))"

definition set_member :: "string \<Rightarrow> json \<Rightarrow> json \<Rightarrow> json" where
  "set_member k v m = (case m of JObj kvs \<Rightarrow> JObj (AList.update k v kvs) | _ \<Rightarrow> m)"

definition sandboxResources_default :: json where
  "sandboxResources_default =
     (let side = JObj [(''cpu'', JStr ''2''), (''memory'', JStr ''4Gi'')] in JObj [(''requests'', side), (''limits'', side)])"

definition finish_manifest :: "(string \<Rightarrow> string) \<Rightarrow> string \<Rightarrow> json \<Rightarrow> json" where
  "finish_manifest sha256 operatingMode m =
     (let m1 = (if operatingMode = ''Running'' then m
                else set_member ''spec'' (set_member ''operatingMode'' (JStr operatingMode) (the (member ''spec'' m))) m);
          meta = the (member ''metadata'' m1);
          hash = templateHash sha256 (Option.bind (member ''spec'' m1) (member ''podTemplate''))
      in set_member ''metadata''
           (set_member ''annotations''
              (JObj (AList.update TEMPLATE_HASH_ANNOTATION (JStr hash) (spread (member ''annotations'' meta)))) meta) m1)"

definition conversation_deploy :: "provisioner_opts \<Rightarrow> string \<Rightarrow> json option \<Rightarrow> bool option \<Rightarrow> (string \<times> json) list option \<Rightarrow> deploy_opts" where
  "conversation_deploy po urlThread resources overlayStore overlay =
     (let d = po_deploy po
      in d\<lparr>d_extraEnv := conversationEnv po urlThread @ d_extraEnv d, d_resources := resources,
           d_overlayStore := (case overlayStore of None \<Rightarrow> d_overlayStore d | Some b \<Rightarrow> b), d_overlay := overlay\<rparr>)"

definition broker_audience :: "provisioner_opts \<Rightarrow> string" where
  "broker_audience po = (case po_brokerAudience po of None \<Rightarrow> ''agent-broker'' | Some a \<Rightarrow> a)"

definition manifestFor :: "(string \<Rightarrow> string) \<Rightarrow> provisioner_opts \<Rightarrow> string \<Rightarrow> string \<Rightarrow> json option \<Rightarrow> string \<Rightarrow> bool option \<Rightarrow>
    (string \<times> json) list option \<Rightarrow> overlay_error + json" where
  "manifestFor sha256 po cid urlThread resources operatingMode overlayStore overlay =
     (case sandboxManifest (sandboxName cid) (saName cid) (po_sandboxImage po) (po_namespace po) (broker_audience po)
           (case po_workspaceStorage po of None \<Rightarrow> ''10Gi'' | Some s \<Rightarrow> s) (po_systemdImage po)
           (conversation_deploy po urlThread resources overlayStore overlay) of
        Inl e \<Rightarrow> Inl e
      | Inr m \<Rightarrow> Inr (finish_manifest sha256 operatingMode m))"

subsection \<open>Comparing templates\<close>

definition differ :: "json option \<Rightarrow> json option \<Rightarrow> bool" where
  "differ x y \<longleftrightarrow> map_option canonical x \<noteq> map_option canonical y"

definition entries :: "json option \<Rightarrow> (string \<times> json) list" where
  "entries v = (case v of Some (JObj kvs) \<Rightarrow> kvs | _ \<Rightarrow> [])"

definition both_keys :: "(string \<times> json) list \<Rightarrow> (string \<times> json) list \<Rightarrow> string list" where
  "both_keys x y = sort (remdups (map fst x @ map fst y))"

definition container_list :: "json option \<Rightarrow> json list" where
  "container_list spec = (case Option.bind spec (member ''containers'') of Some (JArr cs) \<Rightarrow> cs | _ \<Rightarrow> [])"

definition first_of :: "'a list \<Rightarrow> 'a option" where
  "first_of xs = (case xs of [] \<Rightarrow> None | x # _ \<Rightarrow> Some x)"

definition templateDiff :: "json option \<Rightarrow> json option \<Rightarrow> string list" where
  "templateDiff have' want =
     (let a = platformPart have'; b = platformPart want;
          as = entries (member ''spec'' a); bs = entries (member ''spec'' b);
          ac = container_list (member ''spec'' a); bc = container_list (member ''spec'' b);
          a0 = entries (first_of ac); b0 = entries (first_of bc)
      in present (differ (member ''metadata'' a) (member ''metadata'' b)) [''metadata'']
         @ filter (\<lambda>k. k \<noteq> ''containers'' \<and> differ (map_of as k) (map_of bs k)) (both_keys as bs)
         @ map (\<lambda>k. ''container.'' @ k) (filter (\<lambda>k. differ (map_of a0 k) (map_of b0 k)) (both_keys a0 b0))
         @ present (differ (Some (JArr (drop 1 ac))) (Some (JArr (drop 1 bc)))) [''containers''])"

definition claimNames :: "json list option \<Rightarrow> string" where
  "claimNames vcts =
     join '','' (sort (map (\<lambda>v. case Option.bind (member ''metadata'' v) (member ''name'') of Some (JStr n) \<Rightarrow> n | _ \<Rightarrow> [])
       (case vcts of None \<Rightarrow> [] | Some vs \<Rightarrow> vs)))"

definition until_char :: "char \<Rightarrow> string \<Rightarrow> string" where
  "until_char c s = takeWhile (\<lambda>x. x \<noteq> c) s"

definition imageTagOf :: "string \<Rightarrow> string" where
  "imageTagOf imageRef =
     (let ref = until_char CHR ''@'' imageRef; tag = rev (until_char CHR '':'' (rev ref))
      in if CHR '':'' \<in> set ref \<and> CHR ''/'' \<notin> set tag then tag else [])"

subsection \<open>The identity of a sandbox\<close>

text \<open>The paths below the pod template, and the lists a conversation's identity is in.\<close>

abbreviation pod_spec :: "seg list" where
  "pod_spec \<equiv> [Seg ''spec'' None, Seg ''podTemplate'' None, Seg ''spec'' None]"

abbreviation env_path :: "seg list" where
  "env_path \<equiv> pod_spec @ [Seg ''containers'' (Some ''sandbox''), Seg ''env'' None]"

lemma getPath_set_member:
  "getPath m (Seg k None # q # r) = Some v \<Longrightarrow> seg_key q \<noteq> k' \<Longrightarrow>
   getPath (set_member k (set_member k' w (the (member k m))) m) (Seg k None # q # r) = Some v"
  by (cases m; cases q; cases "seg_sel q") (auto simp: set_member_def split: option.splits json.splits)

lemma getPath_set_member_other:
  "seg_key p \<noteq> k \<Longrightarrow> getPath (set_member k w m) (p # r) = getPath m (p # r)"
  by (cases m; cases p; cases "seg_sel p") (auto simp: set_member_def split: option.splits json.splits)

lemma finish_manifest_path:
  assumes "getPath m (Seg k None # q # r) = Some v" "k = ''spec'' \<and> seg_key q \<noteq> ''operatingMode'' \<or> k = ''metadata'' \<and> seg_key q \<noteq> ''annotations''"
  shows "getPath (finish_manifest sha mode m) (Seg k None # q # r) = Some v"
proof -
  define m1 where "m1 = (if mode = ''Running'' then m
    else set_member ''spec'' (set_member ''operatingMode'' (JStr mode) (the (member ''spec'' m))) m)"
  have "getPath m1 (Seg k None # q # r) = Some v"
    using assms by (auto simp: m1_def getPath_set_member getPath_set_member_other)
  then show ?thesis using assms(2)
    by (auto simp: finish_manifest_def m1_def [symmetric] Let_def getPath_set_member getPath_set_member_other)
qed

lemma protected_pod_segs:
  "pod_spec @ [Seg ''serviceAccountName'' None] \<in> set protected_segs"
  "pod_spec @ [Seg ''automountServiceAccountToken'' None] \<in> set protected_segs"
  "pod_spec @ [Seg ''volumes'' (Some ''broker-token'')] \<in> set protected_segs"
  "[Seg ''metadata'' None, Seg ''name'' None] \<in> set protected_segs"
  "env_path \<in> set item_lists"
  by (simp_all add: protected_segs_code item_lists_def)

lemma base_manifest_paths:
  "getPath (base_manifest name sa img ns aud storage sysd d) [Seg ''metadata'' None, Seg ''name'' None] = Some (JStr name)"
  "getPath (base_manifest name sa img ns aud storage sysd d) (pod_spec @ [Seg ''serviceAccountName'' None]) = Some (JStr sa)"
  "getPath (base_manifest name sa img ns aud storage sysd d) (pod_spec @ [Seg ''automountServiceAccountToken'' None]) = Some (JBool False)"
  "getPath (base_manifest name sa img ns aud storage sysd d) (pod_spec @ [Seg ''volumes'' (Some ''broker-token'')])
     = Some (token_volume ''broker-token'' aud)"
  "getPath (base_manifest name sa img ns aud storage sysd d) env_path = Some (JArr (container_env ns d))"
  by (simp_all add: base_manifest_def volumes_def sandbox_container_def token_volume_def named_def LIST_MERGE_KEY_def
        present_def map_of_append split: option.splits)

lemma named_env_var: "named x (env_var n v) \<longleftrightarrow> n = x"
  by (simp add: named_def env_var_def LIST_MERGE_KEY_def)

lemma filter_env_vars:
  "filter (named x) (map (\<lambda>(n, v). env_var n v) vs) = map (\<lambda>(n, v). env_var n v) (filter (\<lambda>(n, _). n = x) vs)"
  by (induction vs) (auto simp: named_env_var)

lemma conversationEnv_id: "filter (\<lambda>(n, _). n = ''CONVERSATION_ID'') (conversationEnv po t) = [(''CONVERSATION_ID'', t)]"
  by (auto simp: conversationEnv_def present_def split: option.splits)

lemma conversationEnv_names: "n \<in> fst ` set (conversationEnv po t) \<Longrightarrow> n \<in> set CONVERSATION_ENV"
  by (auto simp: conversationEnv_def present_def CONVERSATION_ENV_def split: option.splits if_splits)

lemma filter_no_name: "x \<notin> fst ` set vs \<Longrightarrow> filter (\<lambda>(n, _). n = x) vs = []"
  by (force simp: filter_empty_conv)

lemma identity_env:
  assumes "set [''CONVERSATION_ID'', ''BROKER_URL'', ''BROKER_TOKEN_PATH''] \<inter> fst ` set (d_extraEnv (po_deploy po)) = {}"
  shows "filter (named ''CONVERSATION_ID'') (container_env ns (conversation_deploy po t r os ov)) = [env_var ''CONVERSATION_ID'' t]"
    "filter (named ''BROKER_URL'') (container_env ns (conversation_deploy po t r os ov))
      = [env_var ''BROKER_URL'' (''http://agent-broker.'' @ ns @ ''.svc.cluster.local:8080'')]"
proof -
  have "filter (\<lambda>(n, _). n = ''BROKER_URL'') (conversationEnv po t) = []"
    using conversationEnv_names [of _ po t] by (intro filter_no_name) (auto simp: CONVERSATION_ENV_def)
  with assms show "filter (named ''CONVERSATION_ID'') (container_env ns (conversation_deploy po t r os ov)) = [env_var ''CONVERSATION_ID'' t]"
    "filter (named ''BROKER_URL'') (container_env ns (conversation_deploy po t r os ov))
      = [env_var ''BROKER_URL'' (''http://agent-broker.'' @ ns @ ''.svc.cluster.local:8080'')]"
    by (simp_all add: container_env_def conversation_deploy_def Let_def named_env_var filter_env_vars conversationEnv_id filter_no_name)
qed

lemma sandboxManifest_overlay:
  "sandboxManifest name sa img ns aud storage sysd (conversation_deploy po t r os overlay)
   = applyOverlay (base_manifest name sa img ns aud storage sysd (conversation_deploy po t r os overlay))
       (case overlay of None \<Rightarrow> [] | Some ov \<Rightarrow> ov)"
proof -
  have "d_overlay (conversation_deploy po t r os overlay) = overlay" by (simp add: conversation_deploy_def Let_def)
  then show ?thesis by (cases overlay) (simp_all add: sandboxManifest_def applyOverlay_def Let_def)
qed

text \<open>
  C26 Whatever the deployment's overlay says, and as long as the deployment's own extra environment does
  not set the broker's or the conversation's variables, the Sandbox of a conversation runs under the
  conversation's own service account, without that account's API token, with the broker's token for the
  broker's audience only, and its container sees exactly one \<^verbatim>\<open>CONVERSATION_ID\<close>, the thread's, and one
  \<^verbatim>\<open>BROKER_URL\<close>, the namespace's broker.
\<close>

theorem sandbox_identity_kept:
  assumes "manifestFor sha256 po cid thread resources mode store overlay = Inr m"
    and "case overlay of None \<Rightarrow> True | Some ov \<Rightarrow> wf_json (JObj ov)"
    and "set [''CONVERSATION_ID'', ''BROKER_URL'', ''BROKER_TOKEN_PATH''] \<inter> fst ` set (d_extraEnv (po_deploy po)) = {}"
  shows "getPath m (parsePath ''metadata.name'') = Some (JStr (sandboxName cid))
    \<and> getPath m (parsePath ''spec.podTemplate.spec.serviceAccountName'') = Some (JStr (saName cid))
    \<and> getPath m (parsePath ''spec.podTemplate.spec.automountServiceAccountToken'') = Some (JBool False)
    \<and> getPath m (parsePath ''spec.podTemplate.spec.volumes[name=broker-token]'')
        = Some (token_volume ''broker-token'' (broker_audience po))
    \<and> (\<exists>env. getPath m (parsePath ''spec.podTemplate.spec.containers[name=sandbox].env'') = Some (JArr env)
        \<and> filter (named ''CONVERSATION_ID'') env = [env_var ''CONVERSATION_ID'' thread]
        \<and> filter (named ''BROKER_URL'') env
            = [env_var ''BROKER_URL'' (''http://agent-broker.'' @ po_namespace po @ ''.svc.cluster.local:8080'')])"
proof -
  let ?d = "conversation_deploy po thread resources store overlay"
  define base where "base = base_manifest (sandboxName cid) (saName cid) (po_sandboxImage po) (po_namespace po) (broker_audience po)
    (case po_workspaceStorage po of None \<Rightarrow> ''10Gi'' | Some s \<Rightarrow> s) (po_systemdImage po) ?d"
  define ov where "ov = (case overlay of None \<Rightarrow> [] | Some ov \<Rightarrow> ov)"
  have "sandboxManifest (sandboxName cid) (saName cid) (po_sandboxImage po) (po_namespace po) (broker_audience po)
      (case po_workspaceStorage po of None \<Rightarrow> ''10Gi'' | Some s \<Rightarrow> s) (po_systemdImage po) ?d = applyOverlay base ov"
    by (simp add: sandboxManifest_overlay base_def ov_def)
  then obtain m0 where m0: "applyOverlay base ov = Inr m0" "m = finish_manifest sha256 mode m0"
    using assms(1) by (auto simp: manifestFor_def split: sum.splits)
  have wf: "wf_json (JObj ov)" using assms(2) by (cases overlay) (simp_all add: ov_def del: wf_json.simps(1), simp)
  note kept = protected_value_kept [OF m0(1) wf]
  have paths: "parsePath ''metadata.name'' = [Seg ''metadata'' None, Seg ''name'' None]"
    "parsePath ''spec.podTemplate.spec.serviceAccountName'' = pod_spec @ [Seg ''serviceAccountName'' None]"
    "parsePath ''spec.podTemplate.spec.automountServiceAccountToken'' = pod_spec @ [Seg ''automountServiceAccountToken'' None]"
    "parsePath ''spec.podTemplate.spec.volumes[name=broker-token]'' = pod_spec @ [Seg ''volumes'' (Some ''broker-token'')]"
    "parsePath ''spec.podTemplate.spec.containers[name=sandbox].env'' = env_path"
    by code_simp+
  have single: "\<exists>env. getPath m0 env_path = Some (JArr env) \<and> filter (named x) env = [it]"
    if "pod_spec @ [Seg ''containers'' (Some ''sandbox''), Seg ''env'' (Some x)] \<in> set protected_segs"
      "filter (named x) (container_env (po_namespace po) ?d) = [it]" for x it
    using protected_item_single [OF m0(1) wf, of "pod_spec @ [Seg ''containers'' (Some ''sandbox'')]" "''env''" x] that
      base_manifest_paths(5) by (simp add: base_def)
  have envs: "\<exists>env. getPath m0 env_path = Some (JArr env) \<and> filter (named ''CONVERSATION_ID'') env = [env_var ''CONVERSATION_ID'' thread]"
    "\<exists>env. getPath m0 env_path = Some (JArr env) \<and> filter (named ''BROKER_URL'') env
       = [env_var ''BROKER_URL'' (''http://agent-broker.'' @ po_namespace po @ ''.svc.cluster.local:8080'')]"
    using single identity_env [OF assms(3)] by (simp_all add: protected_segs_code)
  have "getPath m0 [Seg ''metadata'' None, Seg ''name'' None] = Some (JStr (sandboxName cid))"
    "getPath m0 (pod_spec @ [Seg ''serviceAccountName'' None]) = Some (JStr (saName cid))"
    "getPath m0 (pod_spec @ [Seg ''automountServiceAccountToken'' None]) = Some (JBool False)"
    "getPath m0 (pod_spec @ [Seg ''volumes'' (Some ''broker-token'')]) = Some (token_volume ''broker-token'' (broker_audience po))"
    using kept protected_pod_segs base_manifest_paths by (simp_all add: base_def)
  moreover note envs
  ultimately show ?thesis unfolding paths m0(2)
    by (auto intro!: finish_manifest_path)
qed

definition sample_opts :: provisioner_opts where
  "sample_opts = \<lparr>po_namespace = ''agents'', po_sandboxImage = ''reg/sandbox:v2'', po_brokerAudience = None,
     po_workspaceStorage = None, po_systemdImage = True, po_publicUrl = Some ''https://s.example/'', po_sandboxOrigins = None,
     po_deploy = \<lparr>d_scooterConfigMap = None, d_configFilesConfigMap = Some ''cfg'', d_extraTokenAudiences = [''git''],
       d_extraEnv = [(''TZ'', ''UTC'')], d_overlayStore = False, d_overlayStorage = None, d_overlayStorageClass = None,
       d_volumeClaims = [], d_pullPolicy = None, d_sandboxRuntimeClass = Some ''crun'', d_userNamespace = False,
       d_resources = None, d_overlay = None\<rparr>\<rparr>"

definition hostile_overlay :: "(string \<times> json) list" where
  "hostile_overlay = [(''spec'', JObj [(''podTemplate'', JObj [(''spec'', JObj [(''serviceAccountName'', JStr ''admin''),
     (''containers'', JArr [JObj [(''name'', JStr ''sandbox''),
        (''env'', JArr [env_var ''CONVERSATION_ID'' ''other'', env_var ''DEBUG'' ''1''])]])])])])]"

theorem sandbox_identity_kept_witness:
  "\<exists>m env. manifestFor (take 8) sample_opts ''k3x'' ''thread-1'' None ''Suspended'' None (Some hostile_overlay) = Inr m
     \<and> getPath m (parsePath ''spec.podTemplate.spec.serviceAccountName'') = Some (JStr ''sandbox-k3x'')
     \<and> getPath m (parsePath ''spec.podTemplate.spec.containers[name=sandbox].env'') = Some (JArr env)
     \<and> filter (named ''CONVERSATION_ID'') env = [env_var ''CONVERSATION_ID'' ''thread-1'']"
proof -
  let ?r = "manifestFor (take 8) sample_opts ''k3x'' ''thread-1'' None ''Suspended'' None (Some hostile_overlay)"
  have "\<not> isl ?r" by code_simp
  then obtain m where m: "?r = Inr m" by (cases ?r) auto
  have "wf_json (JObj hostile_overlay)" by code_simp
  then have "case Some hostile_overlay of None \<Rightarrow> True | Some ov \<Rightarrow> wf_json (JObj ov)" by (simp del: wf_json.simps)
  moreover have "set [''CONVERSATION_ID'', ''BROKER_URL'', ''BROKER_TOKEN_PATH''] \<inter> fst ` set (d_extraEnv (po_deploy sample_opts)) = {}"
    by (simp add: sample_opts_def)
  ultimately show ?thesis using sandbox_identity_kept [OF m] m by (auto simp: saName_def)
qed

text \<open>
  Bringing the environment of a stored sandbox up to date keeps its conversation and every variable that is not the
  conversation's own, and is done once: the result is up to date.
\<close>

lemma find_none_owned: "List.find (\<lambda>(n, _). n = ''CONVERSATION_ID'') (filter (\<lambda>(n, _). n \<notin> set CONVERSATION_ENV) env) = None"
  by (auto simp: find_None_iff CONVERSATION_ENV_def)

lemma find_append_None: "List.find P xs = None \<Longrightarrow> List.find P (xs @ ys) = List.find P ys"
  by (induction xs) (auto split: if_splits)

theorem staleEnv_settles:
  assumes "staleEnv po env = Some env'"
  shows "staleEnv po env' = None
    \<and> filter (\<lambda>(n, _). n \<notin> set CONVERSATION_ENV) env' = filter (\<lambda>(n, _). n \<notin> set CONVERSATION_ENV) env
    \<and> List.find (\<lambda>(n, _). n = ''CONVERSATION_ID'') env' = List.find (\<lambda>(n, _). n = ''CONVERSATION_ID'') env"
proof -
  obtain n thread where f: "List.find (\<lambda>(n, _). n = ''CONVERSATION_ID'') env = Some (n, Some thread)" and t: "thread \<noteq> []"
    and e: "env' = filter (\<lambda>(n, _). n \<notin> set CONVERSATION_ENV) env @ map (apsnd Some) (conversationEnv po thread)"
    using assms by (auto simp: staleEnv_def Let_def split: option.splits prod.splits if_splits)
  have n: "n = ''CONVERSATION_ID''" using f by (auto simp: find_Some_iff)
  have own: "filter (\<lambda>(n, _). n \<notin> set CONVERSATION_ENV) (map (apsnd Some) (conversationEnv po thread)) = []"
    using conversationEnv_names [of _ po thread] by (force simp: filter_empty_conv)
  have "List.find (\<lambda>(n, _). n = ''CONVERSATION_ID'') (map (apsnd Some) (conversationEnv po thread)) = Some (''CONVERSATION_ID'', Some thread)"
    by (auto simp: conversationEnv_def present_def split: option.splits)
  then have f': "List.find (\<lambda>(n, _). n = ''CONVERSATION_ID'') env' = Some (''CONVERSATION_ID'', Some thread)"
    unfolding e by (simp add: find_append_None [OF find_none_owned])
  have "filter (\<lambda>(n, _). n \<in> set CONVERSATION_ENV) (filter (\<lambda>(n, _). n \<notin> set CONVERSATION_ENV) env) = []"
    by (auto simp: filter_empty_conv)
  then have "env_key env' = env_key (map (apsnd Some) (conversationEnv po thread))"
    unfolding e env_key_def by simp
  then show ?thesis using f f' n t own by (simp add: staleEnv_def Let_def e)
qed

subsection \<open>What the comparison of templates finds\<close>

lemma map_of_canon: "map_of (map (\<lambda>(k, v). (k, canon v)) xs) k = map_option canon (map_of xs k)"
  by (induction xs) auto

lemma sort_key_map_of:
  assumes "distinct (map fst xs)" "distinct (map fst (ys :: (string \<times> 'a) list))"
  shows "sort_key fst xs = sort_key fst ys \<longleftrightarrow> map_of xs = map_of ys"
proof
  assume "sort_key fst xs = sort_key fst ys"
  then have "set xs = set ys" by (metis set_sort)
  then show "map_of xs = map_of ys" using assms map_of_inject_set by blast
next
  assume "map_of xs = map_of ys"
  then have "set xs = set ys" using assms map_of_inject_set by blast
  then show "sort_key fst xs = sort_key fst ys" using assms by (intro sort_key_perm_unique)
qed

lemma canon_obj_eq:
  assumes "distinct (map fst xs)" "distinct (map fst ys)"
  shows "canon (JObj xs) = canon (JObj ys) \<longleftrightarrow> (\<forall>k. map_option canon (map_of xs k) = map_option canon (map_of ys k))"
proof -
  let ?c = "map (\<lambda>(k, v). (k, canon v))"
  have "map fst (?c zs) = map fst zs" for zs by auto
  then have "distinct (map fst (?c xs))" "distinct (map fst (?c ys))" using assms by metis+
  then have "canon (JObj xs) = canon (JObj ys) \<longleftrightarrow> map_of (?c xs) = map_of (?c ys)"
    by (simp only: canon.simps json.inject sort_key_map_of)
  then show ?thesis by (simp add: fun_eq_iff map_of_canon)
qed

lemma readable_canon: "readable dec v \<Longrightarrow> readable dec (canon v)"
proof (induction v)
  case (JObj kvs)
  have "map fst (map (\<lambda>(k, v). (k, canon v)) kvs) = map fst kvs" by auto
  then have "distinct (map fst (sort_key fst (map (\<lambda>(k, v). (k, canon v)) kvs)))"
    using JObj.prems by (metis (no_types, lifting) distinct_map distinct_sort readable.simps(1) set_sort)
  then show ?case using JObj by (force simp: snds.simps)
qed auto

lemma canonical_eq: "readable dec v \<Longrightarrow> readable dec w \<Longrightarrow> canonical v = canonical w \<longleftrightarrow> canon v = canon w"
  unfolding canonical_def using stringify_inject readable_canon by blast

text \<open>A pod template as the cluster stores it: metadata, and a spec with at least one container.\<close>

definition pod_template :: "(string \<Rightarrow> json option) \<Rightarrow> json \<Rightarrow> bool" where
  "pod_template dec v \<longleftrightarrow> readable dec v \<and>
     (\<exists>t sp c cs. v = JObj t \<and> set (map fst t) = {''metadata'', ''spec''} \<and> map_of t ''spec'' = Some (JObj sp)
        \<and> map_of sp ''containers'' = Some (JArr (JObj c # cs)))"

lemma readable_member: "readable dec (JObj kvs) \<Longrightarrow> map_of kvs k = Some v \<Longrightarrow> readable dec v"
  by (auto dest!: map_of_SomeD)

lemma differ_iff:
  assumes "\<And>v. x = Some v \<Longrightarrow> readable dec v" "\<And>v. y = Some v \<Longrightarrow> readable dec v"
  shows "differ x y \<longleftrightarrow> map_option canon x \<noteq> map_option canon y"
  using assms by (cases x; cases y) (auto simp: differ_def canonical_eq [of dec])

lemma no_differing_key:
  assumes "readable dec (JObj xs)" "readable dec (JObj ys)"
  shows "filter (\<lambda>k. P k \<and> differ (map_of xs k) (map_of ys k)) (both_keys xs ys) = [] \<longleftrightarrow>
         (\<forall>k. P k \<longrightarrow> map_option canon (map_of xs k) = map_option canon (map_of ys k))"
proof -
  have d: "differ (map_of xs k) (map_of ys k) \<longleftrightarrow> map_option canon (map_of xs k) \<noteq> map_option canon (map_of ys k)" for k
    using assms readable_member by (intro differ_iff) blast+
  have "k \<in> set (both_keys xs ys) \<longleftrightarrow> map_of xs k \<noteq> None \<or> map_of ys k \<noteq> None" for k
    by (auto simp: both_keys_def map_of_eq_None_iff)
  then show ?thesis by (auto simp: filter_empty_conv d)
qed

lemma update_entry: "kv \<in> set (AList.update k v xs) \<Longrightarrow> kv = (k, v) \<or> kv \<in> set xs"
  by (induction xs) (auto split: if_splits)

lemma readable_update:
  "readable dec (JObj kvs) \<Longrightarrow> readable dec v \<Longrightarrow> readable dec (JObj (AList.update k v kvs))"
  by (auto simp: distinct_update dest!: update_entry)

lemma readable_del_resources: "readable dec c \<Longrightarrow> readable dec (del_resources c)"
  by (cases c) (auto simp: AList.delete_eq distinct_map_filter)

text \<open>The parts of a platform template.\<close>

lemma platform_parts:
  assumes "pod_template dec v"
  obtains t meta sp c cs where "platformPart (Some v) = JObj t" "set (map fst t) = {''metadata'', ''spec''}"
    "map_of t ''metadata'' = Some meta" "map_of t ''spec'' = Some (JObj sp)"
    "map_of sp ''containers'' = Some (JArr (JObj c # cs))" "readable dec (JObj t)"
proof -
  obtain t sp c cs where v: "v = JObj t" "set (map fst t) = {''metadata'', ''spec''}" "map_of t ''spec'' = Some (JObj sp)"
    "map_of sp ''containers'' = Some (JArr (JObj c # cs))" and r: "readable dec v"
    using assms by (auto simp: pod_template_def)
  have "''metadata'' \<in> fst ` set t" using v(2) by auto
  then obtain meta where meta: "map_of t ''metadata'' = Some meta" by (metis map_of_eq_None_iff option.exhaust)
  define sp' where "sp' = AList.update ''containers'' (JArr (map del_resources (JObj c # cs))) sp"
  define t' where "t' = AList.update ''spec'' (JObj sp') t"
  have rs1: "readable dec (JObj sp)" by (rule readable_member [OF r [unfolded v(1)] v(3)])
  have rs2: "readable dec (JArr (JObj c # cs))" by (rule readable_member [OF rs1 v(4)])
  have "readable dec (JArr (map del_resources (JObj c # cs)))"
    using rs2 readable_del_resources [of dec] by (auto simp del: del_resources.simps readable.simps(1))
  then have "readable dec (JObj t')"
    unfolding t'_def sp'_def using r v(1) rs1 by (intro readable_update) (simp_all del: readable.simps)
  moreover have "set (map fst t') = {''metadata'', ''spec''}" using v(2) by (simp add: t'_def update_keys)
  moreover have "platformPart (Some v) = JObj t'" using v by (simp add: platformPart_def t'_def sp'_def)
  ultimately show ?thesis using that [of t' meta sp' "AList.delete ''resources'' c" "map del_resources cs"] meta
    by (simp add: t'_def sp'_def)
qed

text \<open>
  The comparison that decides whether a stored sandbox takes a new pod template finds no difference
  exactly when the two templates, less the sizes of their containers, have the same canonical form, the
  text whose hash the sandbox is annotated with.
\<close>

theorem templateDiff_complete:
  assumes "pod_template dec a" "pod_template dec b"
  shows "templateDiff (Some a) (Some b) = [] \<longleftrightarrow> canonical (platformPart (Some a)) = canonical (platformPart (Some b))"
proof -
  obtain t meta sp c cs where A: "platformPart (Some a) = JObj t" "set (map fst t) = {''metadata'', ''spec''}"
    "map_of t ''metadata'' = Some meta" "map_of t ''spec'' = Some (JObj sp)"
    "map_of sp ''containers'' = Some (JArr (JObj c # cs))" "readable dec (JObj t)" by (rule platform_parts [OF assms(1)])
  obtain u meta' sp' c' cs' where B: "platformPart (Some b) = JObj u" "set (map fst u) = {''metadata'', ''spec''}"
    "map_of u ''metadata'' = Some meta'" "map_of u ''spec'' = Some (JObj sp')"
    "map_of sp' ''containers'' = Some (JArr (JObj c' # cs'))" "readable dec (JObj u)" by (rule platform_parts [OF assms(2)])
  have RA: "readable dec meta" "readable dec (JObj sp)" "readable dec (JArr (JObj c # cs))"
    using readable_member [OF A(6)] readable_member [of dec sp "''containers''"] A by (simp_all del: readable.simps)
  have RB: "readable dec meta'" "readable dec (JObj sp')" "readable dec (JArr (JObj c' # cs'))"
    using readable_member [OF B(6)] readable_member [of dec sp' "''containers''"] B by (simp_all del: readable.simps)
  have dc: "distinct (map fst c)" "distinct (map fst c')" using RA(3) RB(3) by simp_all
  have "templateDiff (Some a) (Some b) = [] \<longleftrightarrow>
      canon meta = canon meta'
      \<and> (\<forall>k. k \<noteq> ''containers'' \<longrightarrow> map_option canon (map_of sp k) = map_option canon (map_of sp' k))
      \<and> canon (JObj c) = canon (JObj c') \<and> map canon cs = map canon cs'"
    using no_differing_key [OF RA(2) RB(2), of "\<lambda>k. k \<noteq> ''containers''"]
      no_differing_key [of dec c c' "\<lambda>_. True"] RA RB canon_obj_eq [OF dc]
      differ_iff [of "Some meta" dec "Some meta'"] differ_iff [of "Some (JArr cs)" dec "Some (JArr cs')"]
    by (simp add: templateDiff_def A B entries_def container_list_def first_of_def present_def Let_def
          del: canon.simps(1) readable.simps(1))
  also have "\<dots> \<longleftrightarrow> canon meta = canon meta' \<and> canon (JObj sp) = canon (JObj sp')"
  proof -
    have "canon (JObj sp) = canon (JObj sp') \<longleftrightarrow> (\<forall>k. map_option canon (map_of sp k) = map_option canon (map_of sp' k))"
      using RA RB by (intro canon_obj_eq) simp_all
    also have "\<dots> \<longleftrightarrow> (\<forall>k. k \<noteq> ''containers'' \<longrightarrow> map_option canon (map_of sp k) = map_option canon (map_of sp' k))
        \<and> canon (JArr (JObj c # cs)) = canon (JArr (JObj c' # cs'))"
      using A(5) B(5) by (metis option.inject option.simps(9))
    finally show ?thesis by (simp del: canon.simps(1))
  qed
  also have "\<dots> \<longleftrightarrow> canon (JObj t) = canon (JObj u)"
  proof -
    have "canon (JObj t) = canon (JObj u) \<longleftrightarrow> (\<forall>k. map_option canon (map_of t k) = map_option canon (map_of u k))"
      using A B by (intro canon_obj_eq) simp_all
    also have "\<dots> \<longleftrightarrow> (\<forall>k \<in> {''metadata'', ''spec''}. map_option canon (map_of t k) = map_option canon (map_of u k))"
      using A(2) B(2) by (metis (no_types, lifting) map_of_eq_None_iff set_map)
    also have "\<dots> \<longleftrightarrow> canon meta = canon meta' \<and> canon (JObj sp) = canon (JObj sp')" using A B by (simp del: canon.simps(1))
    finally show ?thesis by simp
  qed
  finally show ?thesis using A B canonical_eq by (simp del: canon.simps readable.simps)
qed

definition sample_template :: "string \<Rightarrow> string \<Rightarrow> json" where
  "sample_template img cpu = JObj [(''metadata'', JObj []), (''spec'', JObj [(''serviceAccountName'', JStr ''sandbox-1''),
     (''containers'', JArr [JObj [(''name'', JStr ''sandbox''), (''image'', JStr img), (''resources'', JStr cpu)]])])]"

lemma sample_template_ok: "pod_template (\<lambda>_. None) (sample_template img cpu)"
  by (simp add: pod_template_def sample_template_def)

theorem templateDiff_complete_witness:
  "templateDiff (Some (sample_template ''v1'' ''2'')) (Some (sample_template ''v1'' ''4'')) = []
   \<and> canonical (platformPart (Some (sample_template ''v1'' ''2''))) = canonical (platformPart (Some (sample_template ''v1'' ''4'')))
   \<and> templateDiff (Some (sample_template ''v1'' ''2'')) (Some (sample_template ''v2'' ''2'')) \<noteq> []"
proof -
  have "templateDiff (Some (sample_template ''v1'' ''2'')) (Some (sample_template ''v1'' ''4'')) = []"
    "templateDiff (Some (sample_template ''v1'' ''2'')) (Some (sample_template ''v2'' ''2'')) \<noteq> []" by code_simp+
  then show ?thesis using templateDiff_complete [OF sample_template_ok sample_template_ok] by blast
qed

end
