(* ===== verification/Subagent_Manager.thy ===== *)
theory Subagent_Manager
  imports Prelude
begin

text \<open>
  Subagents (\<^verbatim>\<open>session/subagentManager.ts\<close>): which conversations a parent may act on, and the bounds on
  spawning. A spawn awaits the router, which mints the child's id, and then the session manager; what is
  in flight is counted, unnamed until it has an id and by its id after that, so that a parallel burst
  cannot pass the bounds. \<open>flights\<close> are the suspended calls of \<^verbatim>\<open>spawn\<close>; the conversations the session
  manager lists may change at every await.
\<close>

subsection \<open>Conversations\<close>

text \<open>A conversation as its parent sees it; the bridge by its queue state, running and queued.\<close>

record subagent_conversation =
  sc_id :: session_id
  sc_parentId :: "session_id option"
  sc_status :: string
  sc_bridge :: "(bool \<times> nat) option"

datatype subagent_status = SubEnded | SubRunning | SubIdle

definition subagentStatusOf :: "subagent_conversation \<Rightarrow> subagent_status" where
  "subagentStatusOf c =
     (if sc_status c = ''ended'' then SubEnded
      else case sc_bridge c of Some (True, _) \<Rightarrow> SubRunning | _ \<Rightarrow> SubIdle)"

definition subagentIsBusy :: "subagent_conversation \<Rightarrow> bool" where
  "subagentIsBusy c =
     (if sc_parentId c = None \<or> sc_status c \<noteq> ''running'' then False
      else case sc_bridge c of None \<Rightarrow> True | Some (running, queued) \<Rightarrow> running \<or> queued > 0)"

record subagent_limits =
  lm_maxDepth :: nat
  lm_maxRunningPerParent :: nat
  lm_maxRunningPerHost :: nat

definition DEFAULT_SUBAGENT_LIMITS :: subagent_limits where
  "DEFAULT_SUBAGENT_LIMITS = \<lparr>lm_maxDepth = 1, lm_maxRunningPerParent = 4, lm_maxRunningPerHost = 12\<rparr>"

type_synonym sessions_view = "subagent_conversation list"

definition session_get :: "sessions_view \<Rightarrow> session_id \<Rightarrow> subagent_conversation option" where
  "session_get cs cid = find (\<lambda>c. sc_id c = cid) cs"

definition ownChild :: "sessions_view \<Rightarrow> session_id \<Rightarrow> session_id \<Rightarrow> subagent_conversation option" where
  "ownChild cs parentId subagentId =
     (case session_get cs subagentId of Some c \<Rightarrow> if sc_parentId c = Some parentId then Some c else None | None \<Rightarrow> None)"

subsection \<open>Spawning\<close>

datatype flight = Naming session_id | Spawning session_id session_id

record subagent_state =
  sm_unnamed :: "(session_id, nat) js_map"
  sm_pending :: "(session_id, session_id) js_map"
  sm_flights :: "flight list"

definition createSubagentManager :: subagent_state where
  "createSubagentManager = \<lparr>sm_unnamed = [], sm_pending = [], sm_flights = []\<rparr>"

definition unnamed_of :: "(session_id, nat) js_map \<Rightarrow> session_id \<Rightarrow> nat" where
  "unnamed_of m p = (case map_of m p of None \<Rightarrow> 0 | Some n \<Rightarrow> n)"

text \<open>\<^verbatim>\<open>bump(parentId, 1)\<close> and \<^verbatim>\<open>bump(parentId, -1)\<close>\<close>

definition bump_up :: "session_id \<Rightarrow> (session_id, nat) js_map \<Rightarrow> (session_id, nat) js_map" where
  "bump_up p m = AList.update p (unnamed_of m p + 1) m"

definition bump_down :: "session_id \<Rightarrow> (session_id, nat) js_map \<Rightarrow> (session_id, nat) js_map" where
  "bump_down p m = (if unnamed_of m p > 1 then AList.update p (unnamed_of m p - 1) m else AList.delete p m)"

definition counts_for :: "session_id option \<Rightarrow> session_id \<Rightarrow> bool" where
  "counts_for parent p \<longleftrightarrow> parent = None \<or> parent = Some p"

definition inUse :: "subagent_state \<Rightarrow> sessions_view \<Rightarrow> session_id option \<Rightarrow> nat" where
  "inUse st cs parent =
     card (sc_id ` {c \<in> set cs. subagentIsBusy c \<and> (parent = None \<or> sc_parentId c = parent)}
           \<union> fst ` {x \<in> set (sm_pending st). counts_for parent (snd x)})
     + sum_list (map snd (filter (\<lambda>x. counts_for parent (fst x)) (sm_unnamed st)))"

text \<open>The nesting of a conversation, counted to just past the bound.\<close>

fun spawn_depth :: "nat \<Rightarrow> sessions_view \<Rightarrow> session_id \<Rightarrow> nat" where
  "spawn_depth 0 cs cid = 0"
| "spawn_depth (Suc n) cs cid =
     (case session_get cs cid of
        None \<Rightarrow> 0
      | Some c \<Rightarrow> (case sc_parentId c of Some (x # xs) \<Rightarrow> Suc (spawn_depth n cs (x # xs)) | _ \<Rightarrow> 0))"

datatype spawn_refusal = TooDeep | TooManyForParent nat | TooManyOnHost nat

definition spawn_check :: "subagent_limits \<Rightarrow> sessions_view \<Rightarrow> session_id \<Rightarrow> subagent_state \<Rightarrow> spawn_refusal option" where
  "spawn_check lim cs parentId st =
     (if spawn_depth (Suc (lm_maxDepth lim)) cs parentId \<ge> lm_maxDepth lim then Some TooDeep
      else if inUse st cs (Some parentId) \<ge> lm_maxRunningPerParent lim then Some (TooManyForParent (inUse st cs (Some parentId)))
      else if inUse st cs None \<ge> lm_maxRunningPerHost lim then Some (TooManyOnHost (inUse st cs None))
      else None)"

text \<open>\<^verbatim>\<open>spawn\<close> up to the call of the router.\<close>

definition spawn_begin :: "subagent_limits \<Rightarrow> sessions_view \<Rightarrow> session_id \<Rightarrow> subagent_state \<Rightarrow> spawn_refusal + subagent_state" where
  "spawn_begin lim cs parentId st =
     (case spawn_check lim cs parentId st of
        Some e \<Rightarrow> Inl e
      | None \<Rightarrow> Inr (st\<lparr>sm_unnamed := bump_up parentId (sm_unnamed st), sm_flights := sm_flights st @ [Naming parentId]\<rparr>))"

text \<open>The router has answered with an id, or failed.\<close>

definition spawn_named :: "session_id \<Rightarrow> session_id \<Rightarrow> subagent_state \<Rightarrow> subagent_state" where
  "spawn_named parentId child st =
     st\<lparr>sm_unnamed := bump_down parentId (sm_unnamed st), sm_pending := AList.update child parentId (sm_pending st),
        sm_flights := remove1 (Naming parentId) (sm_flights st) @ [Spawning parentId child]\<rparr>"

definition spawn_unnamed_failed :: "session_id \<Rightarrow> subagent_state \<Rightarrow> subagent_state" where
  "spawn_unnamed_failed parentId st =
     st\<lparr>sm_unnamed := bump_down parentId (sm_unnamed st), sm_flights := remove1 (Naming parentId) (sm_flights st)\<rparr>"

text \<open>The session manager has spawned the child, or failed to.\<close>

definition spawn_settled :: "session_id \<Rightarrow> session_id \<Rightarrow> subagent_state \<Rightarrow> subagent_state" where
  "spawn_settled parentId child st =
     st\<lparr>sm_pending := AList.delete child (sm_pending st), sm_flights := remove1 (Spawning parentId child) (sm_flights st)\<rparr>"

text \<open>The router mints a new id for every child.\<close>

inductive spawn_step :: "subagent_limits \<Rightarrow> subagent_state \<Rightarrow> subagent_state \<Rightarrow> bool" for lim :: subagent_limits where
  begins: "spawn_begin lim cs p st = Inr st' \<Longrightarrow> spawn_step lim st st'"
| named: "Naming p \<in> set (sm_flights st) \<Longrightarrow> child \<notin> fst ` set (sm_pending st) \<Longrightarrow> spawn_step lim st (spawn_named p child st)"
| unnamed_fails: "Naming p \<in> set (sm_flights st) \<Longrightarrow> spawn_step lim st (spawn_unnamed_failed p st)"
| settles: "Spawning p child \<in> set (sm_flights st) \<Longrightarrow> spawn_step lim st (spawn_settled p child st)"

subsection \<open>The other operations\<close>

datatype cancel_outcome = CancelUnknown | AlreadyIdle | Cancelled
datatype send_outcome = SendUnknown | NotRunning | Sent

definition sub_list :: "sessions_view \<Rightarrow> session_id \<Rightarrow> (session_id \<times> subagent_status) list" where
  "sub_list cs parentId = map (\<lambda>c. (sc_id c, subagentStatusOf c)) (filter (\<lambda>c. sc_parentId c = Some parentId) cs)"

definition sub_check :: "sessions_view \<Rightarrow> session_id \<Rightarrow> session_id \<Rightarrow> (session_id \<times> subagent_status) option" where
  "sub_check cs parentId subagentId = map_option (\<lambda>c. (sc_id c, subagentStatusOf c)) (ownChild cs parentId subagentId)"

text \<open>The outcome and, if the child's bridge or the session manager is called, for which conversation.\<close>

definition sub_cancel :: "sessions_view \<Rightarrow> session_id \<Rightarrow> session_id \<Rightarrow> cancel_outcome \<times> session_id option" where
  "sub_cancel cs parentId subagentId =
     (case ownChild cs parentId subagentId of
        None \<Rightarrow> (CancelUnknown, None)
      | Some c \<Rightarrow> (case sc_bridge c of None \<Rightarrow> (AlreadyIdle, None) | Some _ \<Rightarrow> (Cancelled, Some (sc_id c))))"

definition sub_send :: "sessions_view \<Rightarrow> session_id \<Rightarrow> session_id \<Rightarrow> send_outcome \<times> session_id option" where
  "sub_send cs parentId subagentId =
     (case ownChild cs parentId subagentId of
        None \<Rightarrow> (SendUnknown, None)
      | Some c \<Rightarrow> if subagentStatusOf c \<noteq> SubRunning then (NotRunning, None) else (Sent, Some subagentId))"

end
