(* ===== verification/Subagent_Limits.thy ===== *)
theory Subagent_Limits
  imports Subagent_Manager "HOL-Library.Multiset"
begin

text \<open>
  The bounds on spawning hold whatever the order in which the router and the session manager answer:
  the counters are exactly the calls in flight, nothing of them is left when all have ended, and a
  spawn is admitted only below the bounds.
\<close>

subsection \<open>Counting\<close>

definition count_in :: "(session_id \<Rightarrow> bool) \<Rightarrow> (session_id, nat) js_map \<Rightarrow> nat" where
  "count_in P m = sum_list (map snd (filter (\<lambda>x. P (fst x)) m))"

lemma count_in_Nil [simp]: "count_in P [] = 0"
  by (simp add: count_in_def)

lemma count_in_Cons [simp]: "count_in P (x # m) = (if P (fst x) then snd x else 0) + count_in P m"
  by (simp add: count_in_def)

lemma count_in_update: "count_in P (AList.update k v m) + (if P k then unnamed_of m k else 0) = count_in P m + (if P k then v else 0)"
  by (induction m) (auto simp: unnamed_of_def)

lemma count_in_delete:
  "distinct (map fst m) \<Longrightarrow> count_in P (AList.delete k m) + (if P k then unnamed_of m k else 0) = count_in P m"
proof (induction m)
  case (Cons x m)
  have "AList.delete k m = m" if "k \<notin> fst ` set m" using that by (induction m) auto
  with Cons show ?case by (auto simp: unnamed_of_def map_of_eq_None_iff split: option.split)
qed (simp add: unnamed_of_def)

lemma count_in_single: "distinct (map fst m) \<Longrightarrow> count_in (\<lambda>q. q = k) m = unnamed_of m k"
proof (induction m)
  case (Cons x m)
  have "count_in (\<lambda>q. q = k) m = 0" if "k \<notin> fst ` set m" using that by (induction m) auto
  with Cons show ?case by (auto simp: unnamed_of_def)
qed (simp add: unnamed_of_def)

lemma count_bump_up: "count_in P (bump_up p m) = count_in P m + (if P p then 1 else 0)"
  using count_in_update [of P p "unnamed_of m p + 1" m] by (simp add: bump_up_def split: if_splits)

lemma count_bump_down:
  "distinct (map fst m) \<Longrightarrow> unnamed_of m p > 0 \<Longrightarrow> count_in P (bump_down p m) + (if P p then 1 else 0) = count_in P m"
  using count_in_update [of P p "unnamed_of m p - 1" m] count_in_delete [of m P p]
  by (auto simp: bump_down_def split: if_splits)

lemma positive_update: "v > 0 \<Longrightarrow> \<forall>x \<in> set m. snd x > (0 :: nat) \<Longrightarrow> \<forall>x \<in> set (AList.update k v m). snd x > 0"
  by (induction m) auto

lemma positive_delete: "\<forall>x \<in> set m. snd x > (0 :: nat) \<Longrightarrow> \<forall>x \<in> set (AList.delete k m). snd x > 0"
  by (auto simp: AList.delete_eq)

lemma update_fresh: "k \<notin> fst ` set m \<Longrightarrow> AList.update k v m = m @ [(k, v)]"
  by (induction m) auto

lemma delete_one: "distinct (map fst m) \<Longrightarrow> (k, v) \<in> set m \<Longrightarrow> AList.delete k m = remove1 (k, v) m"
proof (induction m)
  case (Cons x m)
  have "AList.delete k m = m" if "k \<notin> fst ` set m" using that by (induction m) auto
  with Cons show ?case by (cases "fst x = k") (force simp: image_iff)+
qed simp

subsection \<open>What is in flight\<close>

fun naming :: "(session_id \<Rightarrow> bool) \<Rightarrow> flight \<Rightarrow> bool" where
  "naming P (Naming p) = P p"
| "naming P (Spawning p c) = False"

fun spawning :: "(session_id \<Rightarrow> bool) \<Rightarrow> flight \<Rightarrow> bool" where
  "spawning P (Naming p) = False"
| "spawning P (Spawning p c) = P p"

definition in_flight :: "session_id option \<Rightarrow> subagent_state \<Rightarrow> nat" where
  "in_flight parent st =
     length (filter (\<lambda>f. naming (counts_for parent) f \<or> spawning (counts_for parent) f) (sm_flights st))"

text \<open>The counters are the calls in flight.\<close>

definition accounted :: "subagent_state \<Rightarrow> bool" where
  "accounted st \<longleftrightarrow>
     distinct (map fst (sm_unnamed st)) \<and> (\<forall>x \<in> set (sm_unnamed st). snd x > 0)
     \<and> (\<forall>P. count_in P (sm_unnamed st) = length (filter (naming P) (sm_flights st)))
     \<and> distinct (map fst (sm_pending st))
     \<and> mset (map (\<lambda>x. Spawning (snd x) (fst x)) (sm_pending st)) = mset (filter (spawning (\<lambda>_. True)) (sm_flights st))"

lemma length_filter_remove1: "x \<in> set xs \<Longrightarrow> length (filter P (remove1 x xs)) + (if P x then 1 else 0) = length (filter P xs)"
  by (induction xs) auto

lemma accounted_unnamed:
  assumes "accounted st" and "Naming p \<in> set (sm_flights st)"
  shows "unnamed_of (sm_unnamed st) p > 0"
proof -
  have "unnamed_of (sm_unnamed st) p = length (filter (naming (\<lambda>q. q = p)) (sm_flights st))"
    using assms(1) count_in_single by (metis accounted_def)
  moreover have "Naming p \<in> set (filter (naming (\<lambda>q. q = p)) (sm_flights st))" using assms(2) by simp
  ultimately show ?thesis by (metis length_pos_if_in_set)
qed

lemma accounted_begin:
  assumes "accounted st" and "spawn_begin lim cs p st = Inr st'"
  shows "accounted st'"
proof -
  have st': "st' = st\<lparr>sm_unnamed := bump_up p (sm_unnamed st), sm_flights := sm_flights st @ [Naming p]\<rparr>"
    using assms(2) by (auto simp: spawn_begin_def split: option.splits)
  show ?thesis
    using assms(1) positive_update [of "unnamed_of (sm_unnamed st) p + 1" "sm_unnamed st" p]
    by (simp add: st' accounted_def count_bump_up distinct_update) (simp add: bump_up_def distinct_update)
qed

lemma unnamed_down:
  assumes "accounted st" and "Naming p \<in> set (sm_flights st)"
  shows "distinct (map fst (bump_down p (sm_unnamed st)))" and "\<forall>x \<in> set (bump_down p (sm_unnamed st)). snd x > 0"
    and "count_in P (bump_down p (sm_unnamed st)) = length (filter (naming P) (remove1 (Naming p) (sm_flights st)))"
proof -
  show "distinct (map fst (bump_down p (sm_unnamed st)))"
    using assms(1) by (simp add: accounted_def bump_down_def distinct_update distinct_delete)
  show "\<forall>x \<in> set (bump_down p (sm_unnamed st)). snd x > 0"
    using assms(1) positive_update [of "unnamed_of (sm_unnamed st) p - 1" "sm_unnamed st" p] positive_delete [of "sm_unnamed st" p]
    by (simp add: accounted_def bump_down_def)
  show "count_in P (bump_down p (sm_unnamed st)) = length (filter (naming P) (remove1 (Naming p) (sm_flights st)))"
    using count_bump_down [of "sm_unnamed st" p P] accounted_unnamed [OF assms] assms(1)
      length_filter_remove1 [OF assms(2), of "naming P"] by (simp add: accounted_def split: if_splits)
qed

lemma filter_remove1_other: "\<not> P x \<Longrightarrow> filter P (remove1 x xs) = filter P xs"
  by (induction xs) auto

lemma accounted_step: "spawn_step lim st st' \<Longrightarrow> accounted st \<Longrightarrow> accounted st'"
proof (induction rule: spawn_step.induct)
  case (begins cs p st st')
  then show ?case using accounted_begin by blast
next
  case (named p st child)
  then show ?case
    using unnamed_down [OF named(3,1)]
    by (auto simp: accounted_def spawn_named_def update_fresh filter_remove1_other)
next
  case (unnamed_fails p st)
  then show ?case
    using unnamed_down [OF unnamed_fails(2,1)] by (simp add: accounted_def spawn_unnamed_failed_def filter_remove1_other)
next
  case (settles p child st)
  let ?f = "\<lambda>x. Spawning (snd x) (fst x)"
  have m: "mset (map ?f (sm_pending st)) = mset (filter (spawning (\<lambda>_. True)) (sm_flights st))"
    and d: "distinct (map fst (sm_pending st))"
    using settles(2) by (simp_all add: accounted_def)
  have "Spawning p child \<in># mset (map ?f (sm_pending st))" using settles(1) unfolding m by simp
  then have "(child, p) \<in> set (sm_pending st)" by auto
  then have "mset (map ?f (AList.delete child (sm_pending st))) = mset (map ?f (sm_pending st)) - {#Spawning p child#}"
    using d by (simp add: delete_one image_mset_Diff)
  moreover have "mset (filter (spawning (\<lambda>_. True)) (remove1 (Spawning p child) (sm_flights st)))
      = mset (filter (spawning (\<lambda>_. True)) (sm_flights st)) - {#Spawning p child#}"
    by (simp add: filter_remove1)
  ultimately show ?case
    using settles(2) m by (simp add: accounted_def spawn_settled_def filter_remove1_other distinct_delete)
qed

lemma in_flight_count:
  assumes "accounted st"
  shows "in_flight parent st =
    card (fst ` {x \<in> set (sm_pending st). counts_for parent (snd x)}) + count_in (counts_for parent) (sm_unnamed st)"
proof -
  let ?f = "\<lambda>x. Spawning (snd x) (fst x)" and ?P = "counts_for parent"
  have "filter (spawning ?P) (sm_flights st) = filter (spawning ?P) (filter (spawning (\<lambda>_. True)) (sm_flights st))"
    by (simp add: conj_commute) (metis (no_types, lifting) filter_cong spawning.elims(2) spawning.simps(2))
  then have "length (filter (spawning ?P) (sm_flights st)) = size (filter_mset (spawning ?P) (mset (filter (spawning (\<lambda>_. True)) (sm_flights st))))"
    by (metis mset_filter size_mset)
  also have "\<dots> = size (filter_mset (spawning ?P) (mset (map ?f (sm_pending st))))"
    using assms by (simp add: accounted_def)
  also have "\<dots> = length (filter (\<lambda>x. ?P (snd x)) (sm_pending st))"
    by (simp flip: mset_filter mset_map add: filter_map o_def)
  also have "\<dots> = card (fst ` {x \<in> set (sm_pending st). ?P (snd x)})"
  proof -
    have "distinct (map fst (filter (\<lambda>x. ?P (snd x)) (sm_pending st)))" using assms by (simp add: accounted_def distinct_map_filter)
    from distinct_card [OF this] show ?thesis by simp
  qed
  finally have "length (filter (spawning ?P) (sm_flights st)) = card (fst ` {x \<in> set (sm_pending st). ?P (snd x)})" .
  moreover have "in_flight parent st = length (filter (spawning ?P) (sm_flights st)) + length (filter (naming ?P) (sm_flights st))"
  proof -
    have "length (filter (\<lambda>f. naming ?P f \<or> spawning ?P f) fs) = length (filter (spawning ?P) fs) + length (filter (naming ?P) fs)" for fs
    proof (induction fs)
      case (Cons f fs)
      then show ?case by (cases f) auto
    qed simp
    then show ?thesis by (simp add: in_flight_def)
  qed
  moreover have "length (filter (naming ?P) (sm_flights st)) = count_in ?P (sm_unnamed st)"
    using assms by (simp add: accounted_def)
  ultimately show ?thesis by simp
qed

lemma in_flight_in_use: "accounted st \<Longrightarrow> in_flight parent st \<le> inUse st cs parent"
  unfolding inUse_def count_in_def [symmetric] in_flight_count by (intro add_right_mono card_mono) auto

lemma inUse_begin:
  "inUse (st\<lparr>sm_unnamed := bump_up p (sm_unnamed st), sm_flights := fs\<rparr>) cs parent = inUse st cs parent + (if counts_for parent p then 1 else 0)"
  unfolding inUse_def count_in_def [symmetric] by (simp add: count_bump_up)

lemma in_flight_mono:
  assumes "spawn_step lim st st'"
  shows "in_flight parent st' \<le> in_flight parent st
    \<or> (\<exists>cs p. spawn_begin lim cs p st = Inr st' \<and> in_flight parent st' = in_flight parent st + (if counts_for parent p then 1 else 0))"
  using assms
proof cases
  case (begins cs p)
  then have "st' = st\<lparr>sm_unnamed := bump_up p (sm_unnamed st), sm_flights := sm_flights st @ [Naming p]\<rparr>"
    by (auto simp: spawn_begin_def split: option.splits)
  with begins show ?thesis by (auto simp: in_flight_def)
next
  case (named p child)
  then show ?thesis
    using length_filter_remove1 [of "Naming p" "sm_flights st" "\<lambda>f. naming (counts_for parent) f \<or> spawning (counts_for parent) f"]
    by (auto simp: in_flight_def spawn_named_def split: if_splits)
next
  case (unnamed_fails p)
  then show ?thesis
    using length_filter_remove1 [of "Naming p" "sm_flights st" "\<lambda>f. naming (counts_for parent) f \<or> spawning (counts_for parent) f"]
    by (auto simp: in_flight_def spawn_unnamed_failed_def split: if_splits)
next
  case (settles p child)
  then show ?thesis
    using length_filter_remove1 [of "Spawning p child" "sm_flights st" "\<lambda>f. naming (counts_for parent) f \<or> spawning (counts_for parent) f"]
    by (auto simp: in_flight_def spawn_settled_def split: if_splits)
qed

lemma spawn_admitted:
  assumes "spawn_begin lim cs p st = Inr st'"
  shows "inUse st' cs (Some p) \<le> lm_maxRunningPerParent lim" and "inUse st' cs None \<le> lm_maxRunningPerHost lim"
    and "spawn_depth (Suc (lm_maxDepth lim)) cs p < lm_maxDepth lim"
proof -
  have check: "spawn_check lim cs p st = None"
    and st': "st' = st\<lparr>sm_unnamed := bump_up p (sm_unnamed st), sm_flights := sm_flights st @ [Naming p]\<rparr>"
    using assms by (auto simp: spawn_begin_def split: option.splits)
  then show "inUse st' cs (Some p) \<le> lm_maxRunningPerParent lim" "inUse st' cs None \<le> lm_maxRunningPerHost lim"
      "spawn_depth (Suc (lm_maxDepth lim)) cs p < lm_maxDepth lim"
    unfolding st' inUse_begin by (auto simp: spawn_check_def counts_for_def split: if_splits)
qed

subsection \<open>The bounds\<close>

lemma in_flight_step:
  assumes "spawn_step lim st st'" and "accounted st"
  shows "in_flight (Some q) st \<le> lm_maxRunningPerParent lim \<Longrightarrow> in_flight (Some q) st' \<le> lm_maxRunningPerParent lim"
    and "in_flight None st \<le> lm_maxRunningPerHost lim \<Longrightarrow> in_flight None st' \<le> lm_maxRunningPerHost lim"
proof -
  have use: "in_flight parent st' \<le> inUse st' cs parent" for parent cs
    using accounted_step [OF assms] by (rule in_flight_in_use)
  show "in_flight (Some q) st' \<le> lm_maxRunningPerParent lim" if "in_flight (Some q) st \<le> lm_maxRunningPerParent lim"
    using in_flight_mono [OF assms(1), of "Some q"]
  proof
    assume "\<exists>cs p. spawn_begin lim cs p st = Inr st' \<and> in_flight (Some q) st' = in_flight (Some q) st + (if counts_for (Some q) p then 1 else 0)"
    then obtain cs p where b: "spawn_begin lim cs p st = Inr st'"
        "in_flight (Some q) st' = in_flight (Some q) st + (if counts_for (Some q) p then 1 else 0)" by blast
    show ?thesis
    proof (cases "q = p")
      case True
      with spawn_admitted(1) [OF b(1)] use [of "Some p" cs] show ?thesis by simp
    next
      case False
      with b(2) that show ?thesis by (simp add: counts_for_def)
    qed
  qed (use that in linarith)
  show "in_flight None st' \<le> lm_maxRunningPerHost lim" if "in_flight None st \<le> lm_maxRunningPerHost lim"
    using in_flight_mono [OF assms(1), of None]
  proof
    assume "\<exists>cs p. spawn_begin lim cs p st = Inr st' \<and> in_flight None st' = in_flight None st + (if counts_for None p then 1 else 0)"
    then obtain cs p where "spawn_begin lim cs p st = Inr st'" by blast
    with spawn_admitted(2) [OF this] use [of None cs] show ?thesis by linarith
  qed (use that in linarith)
qed

lemma accounted_reachable: "(spawn_step lim)\<^sup>*\<^sup>* createSubagentManager st \<Longrightarrow> accounted st"
proof (induction rule: rtranclp_induct)
  case base
  then show ?case by (simp add: accounted_def createSubagentManager_def count_in_def)
qed (blast intro: accounted_step)

lemma accounted_idle: "accounted st \<Longrightarrow> sm_flights st = [] \<Longrightarrow> sm_unnamed st = [] \<and> sm_pending st = []"
proof -
  assume a: "accounted st" "sm_flights st = []"
  have "count_in (\<lambda>_. True) (sm_unnamed st) = 0" using a by (simp add: accounted_def)
  then have "\<forall>x \<in> set (sm_unnamed st). snd x = 0" by (simp add: count_in_def)
  then have "sm_unnamed st = []" using a by (cases "sm_unnamed st") (auto simp: accounted_def)
  then show ?thesis using a by (simp add: accounted_def)
qed

text \<open>
  C7 (bounds). Whatever order the router and the session manager answer in and whatever fails, the spawns
  in flight of one conversation and of the host never exceed the bounds, and nothing stays counted once
  they have ended. A spawn is admitted only where, with it, the running and the coming subagents are
  within the bounds, and only to a conversation above the deepest level.
\<close>

theorem spawns_within_limits:
  assumes "(spawn_step lim)\<^sup>*\<^sup>* createSubagentManager st"
  shows "in_flight (Some q) st \<le> lm_maxRunningPerParent lim \<and> in_flight None st \<le> lm_maxRunningPerHost lim
    \<and> (sm_flights st = [] \<longrightarrow> sm_unnamed st = [] \<and> sm_pending st = [])
    \<and> (\<forall>cs p st'. spawn_begin lim cs p st = Inr st' \<longrightarrow>
         inUse st' cs (Some p) \<le> lm_maxRunningPerParent lim \<and> inUse st' cs None \<le> lm_maxRunningPerHost lim
         \<and> spawn_depth (Suc (lm_maxDepth lim)) cs p < lm_maxDepth lim)"
proof -
  have "in_flight (Some q) st \<le> lm_maxRunningPerParent lim \<and> in_flight None st \<le> lm_maxRunningPerHost lim"
    using assms
  proof (induction rule: rtranclp_induct)
    case base
    then show ?case by (simp add: in_flight_def createSubagentManager_def)
  next
    case (step st st')
    then show ?case using in_flight_step [OF step(2) accounted_reachable [OF step(1)]] by blast
  qed
  then show ?thesis using accounted_idle [OF accounted_reachable [OF assms]] spawn_admitted by blast
qed

theorem spawns_within_limits_witness:
  "\<exists>st. spawn_begin DEFAULT_SUBAGENT_LIMITS [] ''a'' createSubagentManager = Inr st
     \<and> in_flight (Some ''a'') st = 1 \<and> in_flight (Some ''a'') st \<le> lm_maxRunningPerParent DEFAULT_SUBAGENT_LIMITS"
proof -
  define st where "st = createSubagentManager\<lparr>sm_unnamed := bump_up ''a'' [], sm_flights := [Naming ''a'']\<rparr>"
  have b: "spawn_begin DEFAULT_SUBAGENT_LIMITS [] ''a'' createSubagentManager = Inr st"
    by (simp add: spawn_begin_def spawn_check_def DEFAULT_SUBAGENT_LIMITS_def createSubagentManager_def st_def inUse_def session_get_def)
  then have "(spawn_step DEFAULT_SUBAGENT_LIMITS)\<^sup>*\<^sup>* createSubagentManager st" by (blast intro: begins)
  from spawns_within_limits [OF this, of "''a''"] b show ?thesis
    by (auto simp: st_def in_flight_def counts_for_def)
qed

text \<open>
  A conversation sees, cancels and messages only its own subagents.
\<close>

theorem acts_on_own_children:
  "(\<forall>y. snd (sub_cancel cs p x) = Some y \<or> snd (sub_send cs p x) = Some y \<or> (\<exists>s. sub_check cs p x = Some (y, s)) \<longrightarrow>
      y = x \<and> (\<exists>c \<in> set cs. sc_id c = y \<and> sc_parentId c = Some p))
   \<and> (\<forall>(y, s) \<in> set (sub_list cs p). \<exists>c \<in> set cs. sc_id c = y \<and> sc_parentId c = Some p \<and> subagentStatusOf c = s)"
proof -
  have own: "c \<in> set cs \<and> sc_id c = x \<and> sc_parentId c = Some p" if "ownChild cs p x = Some c" for c
    using that by (auto simp: ownChild_def session_get_def find_Some_iff split: option.splits if_splits)
  show ?thesis
    using own
    by (auto simp: sub_cancel_def sub_send_def sub_check_def sub_list_def split: option.splits if_splits)
qed

theorem acts_on_own_children_witness:
  "snd (sub_cancel [\<lparr>sc_id = ''b'', sc_parentId = Some ''a'', sc_status = ''running'', sc_bridge = Some (True, 0)\<rparr>] ''a'' ''b'') = Some ''b''
   \<and> (\<exists>c \<in> set [\<lparr>sc_id = ''b'', sc_parentId = Some ''a'', sc_status = ''running'', sc_bridge = Some (True, 0)\<rparr>].
        sc_id c = ''b'' \<and> sc_parentId c = Some ''a'')"
proof -
  let ?cs = "[\<lparr>sc_id = ''b'', sc_parentId = Some ''a'', sc_status = ''running'', sc_bridge = Some (True, 0)\<rparr>]"
  have "snd (sub_cancel ?cs ''a'' ''b'') = Some ''b''" by (simp add: sub_cancel_def ownChild_def session_get_def)
  with acts_on_own_children [of ?cs "''a''" "''b''"] show ?thesis by blast
qed

end
