(* ===== verification/Base64.thy ===== *)
theory Base64
  imports Json
begin

text \<open>
  Base64 as Node's \<^verbatim>\<open>Buffer\<close> writes and reads it, and UTF-8. A byte string is a \<^typ>\<open>string\<close> with one
  \<^typ>\<open>char\<close> per byte. Reading takes both alphabets, ignores left-over bits and drops a last single
  character; \<open>lenient\<close> reads a text with other characters in it. The model's strings have code units
  below 256; \<open>other\<close> is the text of bytes that are not the UTF-8 form of such a string.
\<close>

definition b64_alphabet :: string where
  "b64_alphabet = ''ABCDEFGHIJKLMNOPQRSTUVWXYZabcdefghijklmnopqrstuvwxyz0123456789-_''"

definition b64_char :: "nat \<Rightarrow> char" where
  "b64_char n = b64_alphabet ! n"

definition b64_value :: "char \<Rightarrow> nat option" where
  "b64_value c =
     (if c = CHR ''+'' then Some 62 else if c = CHR ''/'' then Some 63
      else find_index (\<lambda>d. d = c) b64_alphabet)"

fun sextets :: "nat list \<Rightarrow> nat list" where
  "sextets (a # b # c # rest) = [a div 4, (a mod 4) * 16 + b div 16, (b mod 16) * 4 + c div 64, c mod 64] @ sextets rest"
| "sextets [a, b] = [a div 4, (a mod 4) * 16 + b div 16, (b mod 16) * 4]"
| "sextets [a] = [a div 4, (a mod 4) * 16]"
| "sextets [] = []"

fun octets :: "nat list \<Rightarrow> nat list" where
  "octets (s # t # u # v # rest) =
     [s * 4 + t div 16, (t mod 16) * 16 + u div 4, (u mod 4) * 64 + v] @ octets rest"
| "octets [s, t, u] = [s * 4 + t div 16, (t mod 16) * 16 + u div 4]"
| "octets [s, t] = [s * 4 + t div 16]"
| "octets _ = []"

text \<open>\<^verbatim>\<open>buf.toString("base64url")\<close>\<close>

definition b64url :: "string \<Rightarrow> string" where
  "b64url bytes = map b64_char (sextets (map of_char bytes))"

text \<open>\<^verbatim>\<open>buf.toString("base64")\<close>, padded.\<close>

definition b64 :: "string \<Rightarrow> string" where
  "b64 bytes =
     (let body = map (\<lambda>n. if n = 62 then CHR ''+'' else if n = 63 then CHR ''/'' else b64_char n) (sextets (map of_char bytes))
      in body @ replicate ((4 - length body mod 4) mod 4) CHR ''='')"

text \<open>\<^verbatim>\<open>Buffer.from(s, "base64url")\<close>, which reads as \<^verbatim>\<open>"base64"\<close> does.\<close>

definition fromB64url :: "(string \<Rightarrow> string) \<Rightarrow> string \<Rightarrow> string" where
  "fromB64url lenient s =
     (if list_all (\<lambda>c. b64_value c \<noteq> None) s
      then map char_of (octets (map (the \<circ> b64_value) s)) else lenient s)"

definition utf8_encode :: "string \<Rightarrow> string" where
  "utf8_encode s =
     concat (map (\<lambda>c. let n = of_char c :: nat in if n < 128 then [c] else [char_of (192 + n div 64), char_of (128 + n mod 64)]) s)"

fun utf8_latin :: "string \<Rightarrow> string option" where
  "utf8_latin [] = Some []"
| "utf8_latin (c # cs) =
     (if of_char c < (128 :: nat) then map_option ((#) c) (utf8_latin cs)
      else if of_char c \<in> {194, 195 :: nat}
      then (case cs of
              d # ds \<Rightarrow>
                if of_char d \<in> {128 ..< (192 :: nat)}
                then map_option ((#) (char_of ((of_char c - 192) * 64 + (of_char d - 128) :: nat))) (utf8_latin ds)
                else None
            | [] \<Rightarrow> None)
      else None)"

text \<open>\<^verbatim>\<open>buf.toString("utf8")\<close>\<close>

definition utf8_text :: "(string \<Rightarrow> string) \<Rightarrow> string \<Rightarrow> string" where
  "utf8_text other bytes = (case utf8_latin bytes of Some t \<Rightarrow> t | None \<Rightarrow> other bytes)"

subsection \<open>Reading back\<close>

lemma b64_value_char: "n < 64 \<Longrightarrow> b64_value (b64_char n) = Some n"
proof -
  have "list_all (\<lambda>n. b64_value (b64_char n) = Some n) [0..<64]" by code_simp
  then show "n < 64 \<Longrightarrow> ?thesis" by (simp add: list_all_iff)
qed

lemma split_bounds: "(a :: nat) < 256 \<Longrightarrow> a div 4 < 64" "(b :: nat) < 256 \<Longrightarrow> b div 16 < 16" "(c :: nat) < 256 \<Longrightarrow> c div 64 < 4"
  by (simp_all add: less_mult_imp_div_less)

lemma join_bounds: "x < 16 \<Longrightarrow> (a mod 4) * 16 + x < (64 :: nat)" "x < 4 \<Longrightarrow> (b mod 16) * 4 + x < (64 :: nat)"
  using mod_less_divisor [of 4 a] mod_less_divisor [of 16 b] by linarith+

lemma join_parts:
  "x < 16 \<Longrightarrow> (m * 16 + x) div 16 = (m :: nat)" "x < 16 \<Longrightarrow> (m * 16 + x) mod 16 = (x :: nat)"
  "x < 4 \<Longrightarrow> (m * 4 + x) div 4 = (m :: nat)" "x < 4 \<Longrightarrow> (m * 4 + x) mod 4 = (x :: nat)"
  by simp_all

lemma sextets_bound: "list_all (\<lambda>a. a < 256) as \<Longrightarrow> list_all (\<lambda>s. s < 64) (sextets as)"
proof (induction as rule: sextets.induct)
  case (1 a b c rest)
  then show ?case using join_bounds(1) [of "b div 16" a] join_bounds(2) [of "c div 64" b] by (simp add: split_bounds)
next
  case (2 a b)
  then show ?case using join_bounds(1) [of "b div 16" a] join_bounds(2) [of 0 b] by (simp add: split_bounds)
next
  case (3 a)
  then show ?case using join_bounds(1) [of 0 a] by (simp add: split_bounds)
qed simp

lemma octets_sextets: "list_all (\<lambda>a. a < 256) as \<Longrightarrow> octets (sextets as) = as"
proof (induction as rule: sextets.induct)
  case (1 a b c rest)
  then show ?case by (simp add: join_parts split_bounds)
next
  case (2 a b)
  then show ?case by (simp add: join_parts split_bounds)
qed simp_all

lemma b64url_read: "fromB64url lenient (b64url bytes) = bytes"
proof -
  let ?as = "map of_char bytes :: nat list"
  have b: "list_all (\<lambda>a. a < 256) ?as" by (simp add: list_all_iff of_char_less)
  have s: "list_all (\<lambda>s. s < 64) (sextets ?as)" by (rule sextets_bound [OF b])
  have v: "map (the \<circ> b64_value) (map b64_char xs) = xs" if "list_all (\<lambda>s. s < 64) xs" for xs
    using that by (induction xs) (auto simp: b64_value_char)
  have "list_all (\<lambda>c. b64_value c \<noteq> None) (b64url bytes)"
    using s by (auto simp: b64url_def list_all_iff b64_value_char)
  moreover have "map (the \<circ> b64_value) (b64url bytes) = sextets ?as" unfolding b64url_def by (rule v [OF s])
  ultimately show ?thesis by (simp add: fromB64url_def octets_sextets [OF b] o_def map_idI)
qed

lemma b64url_no_dot: "CHR ''.'' \<notin> set (b64url bytes)"
proof -
  have "list_all (\<lambda>n. b64_char n \<noteq> CHR ''.'') [0..<64]" by code_simp
  then have n: "b64_char n \<noteq> CHR ''.''" if "n < 64" for n using that by (simp add: list_all_iff)
  have "list_all (\<lambda>s. s < 64) (sextets (map of_char bytes))" by (rule sextets_bound) (simp add: list_all_iff of_char_less)
  then show ?thesis using n by (force simp: b64url_def list_all_iff)
qed

lemma utf8_read: "utf8_text other (utf8_encode s) = s"
proof -
  have "utf8_latin (utf8_encode s) = Some s"
  proof (induction s)
    case (Cons c s)
    let ?n = "of_char c :: nat"
    have n: "?n < 256" by (rule of_char_less)
    show ?case
    proof (cases "?n < 128")
      case False
      have "?n div 64 = 2 \<or> ?n div 64 = 3" using False n by linarith
      then have "192 + ?n div 64 \<in> {194, 195}" by auto
      moreover have "?n div 64 * 64 + ?n mod 64 = ?n" by simp
      moreover have "?n mod 64 < 64" by simp
      moreover define q r where "q = ?n div 64" and "r = ?n mod 64"
      ultimately have q: "q = 2 \<or> q = 3" "q * 64 + r = ?n" "r < 64" by auto
      have "utf8_encode (c # s) = char_of (192 + q) # char_of (128 + r) # utf8_encode s"
        using False by (simp add: utf8_encode_def Let_def q_def r_def)
      moreover have "of_char (char_of (192 + q) :: char) = 192 + q" "of_char (char_of (128 + r) :: char) = 128 + r" using q by auto
      ultimately show ?thesis using q(1,3) Cons by (simp add: q(2) del: of_char_of)
    qed (use Cons in \<open>simp add: utf8_encode_def Let_def\<close>)
  qed (simp add: utf8_encode_def)
  then show ?thesis by (simp add: utf8_text_def)
qed

end
