(* ===== verification/Remote_Protocol.thy ===== *)
theory Remote_Protocol
  imports Json
begin

text \<open>
  The frames between the cloud and a user's container (\<^verbatim>\<open>acp/remoteProtocol.ts\<close> and its copies in the
  controller and the container), and what JavaScript does with a value that came out of
  \<^verbatim>\<open>JSON.parse\<close> without a check: a frame is any JSON value, its members are read as they are, and a
  method called on a value that has none throws.
\<close>

datatype js_exn = TypeError

definition wire_frame :: "string \<Rightarrow> string \<Rightarrow> string option \<Rightarrow> json \<Rightarrow> json" where
  "wire_frame ch ty fid payload =
     JObj ([(''ch'', JStr ch), (''type'', JStr ty)] @ (case fid of None \<Rightarrow> [] | Some i \<Rightarrow> [(''id'', JStr i)]) @ [(''payload'', payload)])"

text \<open>\<^verbatim>\<open>!v\<close>\<close>

fun falsy :: "json option \<Rightarrow> bool" where
  "falsy None = True"
| "falsy (Some JNull) = True"
| "falsy (Some (JBool b)) = (\<not> b)"
| "falsy (Some (JNum i)) = (i = 0)"
| "falsy (Some (JStr s)) = (s = [])"
| "falsy (Some _) = False"

text \<open>\<^verbatim>\<open>v ?? d\<close>\<close>

definition nullish :: "json option \<Rightarrow> json option \<Rightarrow> json option" where
  "nullish v d = (case v of None \<Rightarrow> d | Some JNull \<Rightarrow> d | Some x \<Rightarrow> Some x)"

text \<open>\<^verbatim>\<open>v.k\<close>, which throws on \<^verbatim>\<open>undefined\<close> and \<^verbatim>\<open>null\<close>.\<close>

definition get :: "string \<Rightarrow> json option \<Rightarrow> js_exn + json option" where
  "get k v = (case v of None \<Rightarrow> Inl TypeError | Some JNull \<Rightarrow> Inl TypeError | Some x \<Rightarrow> Inr (member k x))"

text \<open>\<^verbatim>\<open>v.startsWith(p)\<close>, which only a string has.\<close>

definition call_startsWith :: "json option \<Rightarrow> string \<Rightarrow> js_exn + bool" where
  "call_startsWith v p = (case v of Some (JStr s) \<Rightarrow> Inr (starts_with s p) | _ \<Rightarrow> Inl TypeError)"

definition is_str :: "string \<Rightarrow> json option \<Rightarrow> bool" where
  "is_str s v \<longleftrightarrow> v = Some (JStr s)"

text \<open>The members of an object, as \<^verbatim>\<open>{ ...(v ?? {}) }\<close> copies them.\<close>

definition members :: "json option \<Rightarrow> (string \<times> json) list" where
  "members v = (case v of Some (JObj kvs) \<Rightarrow> kvs | _ \<Rightarrow> [])"

text \<open>A \<^verbatim>\<open>Map\<close> or \<^verbatim>\<open>Set\<close> holds an object as itself: no other frame's object is the same key.\<close>

definition by_value :: "json \<Rightarrow> bool" where
  "by_value k = (case k of JObj _ \<Rightarrow> False | JArr _ \<Rightarrow> False | _ \<Rightarrow> True)"

definition map_get :: "(json, 'v) js_map \<Rightarrow> json \<Rightarrow> 'v option" where
  "map_get m k = (if by_value k then map_of m k else None)"

lemma member_wire_frame [simp]:
  "member ''ch'' (wire_frame c t i p) = Some (JStr c)" "member ''type'' (wire_frame c t i p) = Some (JStr t)"
  "member ''id'' (wire_frame c t i p) = map_option JStr i" "member ''payload'' (wire_frame c t i p) = Some p"
  "member ''sid'' (wire_frame c t i p) = None"
  by (auto simp: wire_frame_def split: option.splits)

end
