(* ===== verification/Tunnel.thy ===== *)
theory Tunnel
  imports Base64 Remote_Protocol
begin

text \<open>
  MCP over the wire for a user's own container: which server a stream may name
  (\<^verbatim>\<open>acp/tunnelTargets.ts\<close>), the service that makes the container's requests on its behalf
  (\<^verbatim>\<open>acp/tunnelService.ts\<close>), and the filter and ordered sender in front of it
  (\<^verbatim>\<open>acp/tunnelClient.ts\<close>). A frame is whatever JSON value the container sent. The service runs one
  frame or one answer of the network at a time: a stream's request being assembled, its calls in flight
  and the frames sent are the state. A request's body is the bytes of its chunks; their conversion to
  text, the identity on UTF-8, is not modelled.
\<close>

subsection \<open>Targets\<close>

definition SCOOTER_ENV :: string where "SCOOTER_ENV = ''scooter-env''"
definition SCOOTER_BROKER :: string where "SCOOTER_BROKER = ''scooter-broker''"
definition SANDBOX_PREFIX :: string where "SANDBOX_PREFIX = ''sandbox:''"

record tunnel_deps =
  td_mcpUrlFor :: "(string \<Rightarrow> string) option"
  td_mcpHeadersFor :: "(string \<Rightarrow> (string \<times> string) list) option"
  td_brokerMcpUrlFor :: "string option"
  td_lenient :: "string \<Rightarrow> string"                 \<comment> \<open>Base64 text with other characters in it\<close>
  td_bytes :: "json \<Rightarrow> js_exn + string"            \<comment> \<open>\<open>Buffer.from\<close> of an array or object\<close>

record resolved_target =
  rt_url :: string
  rt_headers :: "(string \<times> string) list"

definition injected :: "tunnel_deps \<Rightarrow> string \<Rightarrow> (string \<times> string) list" where
  "injected d cid = (case td_mcpHeadersFor d of None \<Rightarrow> [] | Some f \<Rightarrow> f cid)"

definition resolveTunnelTarget :: "json \<Rightarrow> string \<Rightarrow> tunnel_deps \<Rightarrow> js_exn + string + resolved_target" where
  "resolveTunnelTarget target cid d =
     (if target = JStr SCOOTER_ENV
      then Inr (case td_mcpUrlFor d of
                  None \<Rightarrow> Inl ''scooter-env is not configured on this deployment''
                | Some f \<Rightarrow> Inr \<lparr>rt_url = f cid, rt_headers = injected d cid\<rparr>)
      else if target = JStr SCOOTER_BROKER
      then Inr (case td_brokerMcpUrlFor d of
                  None \<Rightarrow> Inl ''scooter-broker is not configured on this deployment''
                | Some url \<Rightarrow> Inr \<lparr>rt_url = url, rt_headers = injected d cid\<rparr>)
      else (case call_startsWith (Some target) SANDBOX_PREFIX of
              Inl e \<Rightarrow> Inl e
            | Inr True \<Rightarrow> Inr (Inl ''sandbox-declared MCP servers are not supported yet (the target name is reserved)'')
            | Inr False \<Rightarrow> Inr (Inl (''unknown target '' @ stringify target))))"

definition offeredTunnelServers :: "tunnel_deps \<Rightarrow> (string \<times> string) list" where
  "offeredTunnelServers d =
     (if td_mcpUrlFor d = None then []
      else [(SCOOTER_ENV, ''tunnel://'' @ SCOOTER_ENV)]
           @ (if td_brokerMcpUrlFor d = None then [] else [(SCOOTER_BROKER, ''tunnel://'' @ SCOOTER_BROKER)]))"

subsection \<open>The service\<close>

record stream_request =
  sr_url :: string
  sr_method :: json
  sr_headers :: "(string \<times> json) list"
  sr_body :: "string list"
  sr_conversationId :: string

datatype task_phase =
    Fetching                               \<comment> \<open>the response has not arrived\<close>
  | Reading "(string \<times> json) list"        \<comment> \<open>a streamed body; status and headers until they were sent\<close>
  | Texting "(string \<times> json) list"        \<comment> \<open>a body read as a whole\<close>

record tunnel_state =
  tu_pending :: "(json, stream_request) js_map"
  tu_tasks :: "(nat, json \<times> task_phase) js_map"
  tu_next :: nat
  tu_calls :: "stream_request list"
  tu_sent :: "(nat option \<times> json) list"   \<comment> \<open>frames sent, with the call they belong to\<close>

definition createTunnelService :: tunnel_state where
  "createTunnelService = \<lparr>tu_pending = [], tu_tasks = [], tu_next = 0, tu_calls = [], tu_sent = []\<rparr>"

definition tunnel_frame :: "string \<Rightarrow> json \<Rightarrow> json \<Rightarrow> json" where
  "tunnel_frame ty fid payload = JObj [(''ch'', JStr ''tunnel''), (''type'', JStr ty), (''id'', fid), (''payload'', payload)]"

definition tunnel_send :: "nat option \<Rightarrow> json \<Rightarrow> tunnel_state \<Rightarrow> tunnel_state" where
  "tunnel_send n f s = s\<lparr>tu_sent := tu_sent s @ [(n, f)]\<rparr>"

definition closeWithError :: "nat option \<Rightarrow> json \<Rightarrow> string \<Rightarrow> tunnel_state \<Rightarrow> tunnel_state" where
  "closeWithError n fid err s =
     tunnel_send n (tunnel_frame ''close'' fid (JObj [(''error'', JStr err)])) (s\<lparr>tu_pending := AList.delete fid (tu_pending s)\<rparr>)"

definition stream_headers :: "(string \<times> json) list \<Rightarrow> (string \<times> string) list \<Rightarrow> (string \<times> json) list" where
  "stream_headers given creds =
     foldl (\<lambda>hs (n, v). AList.update n (JStr v) hs)
       (filter (\<lambda>(k, _). \<not> list_ex (\<lambda>(n, _). lower k = lower n) creds)
          (AList.delete ''content-length'' (AList.delete ''host'' given))) creds"

definition open_stream :: "tunnel_deps \<Rightarrow> string \<Rightarrow> json \<Rightarrow> json \<Rightarrow> tunnel_state \<Rightarrow> js_exn + tunnel_state" where
  "open_stream d cid fid payload s =
     (case resolveTunnelTarget (case nullish (member ''target'' payload) None of None \<Rightarrow> JStr [] | Some t \<Rightarrow> t) cid d of
        Inl e \<Rightarrow> Inl e
      | Inr (Inl reason) \<Rightarrow> Inr (closeWithError None fid reason s)
      | Inr (Inr t) \<Rightarrow>
          Inr (s\<lparr>tu_pending := AList.update fid
            \<lparr>sr_url = rt_url t,
             sr_method = (case nullish (member ''method'' payload) None of None \<Rightarrow> JStr ''GET'' | Some m \<Rightarrow> m),
             sr_headers = stream_headers (spread (nullish (member ''headers'' payload) None)) (rt_headers t),
             sr_body = [], sr_conversationId = cid\<rparr> (tu_pending s)\<rparr>))"

definition buffer_from :: "tunnel_deps \<Rightarrow> json \<Rightarrow> js_exn + string" where
  "buffer_from d v =
     (case v of
        JStr t \<Rightarrow> Inr (fromB64url (td_lenient d) t)
      | JNum _ \<Rightarrow> Inl TypeError
      | JDec _ \<Rightarrow> Inl TypeError
      | JBool _ \<Rightarrow> Inl TypeError
      | _ \<Rightarrow> td_bytes d v)"

definition add_chunk :: "tunnel_deps \<Rightarrow> json \<Rightarrow> json \<Rightarrow> stream_request \<Rightarrow> tunnel_state \<Rightarrow> js_exn + tunnel_state" where
  "add_chunk d fid payload p s =
     (case member ''data'' payload of
        None \<Rightarrow> Inr s
      | Some v \<Rightarrow>
          if falsy (Some v) then Inr s
          else (case buffer_from d v of
                  Inl e \<Rightarrow> Inl e
                | Inr bytes \<Rightarrow> Inr (s\<lparr>tu_pending := AList.update fid (p\<lparr>sr_body := sr_body p @ [bytes]\<rparr>) (tu_pending s)\<rparr>)))"

definition start_call :: "json \<Rightarrow> stream_request \<Rightarrow> tunnel_state \<Rightarrow> tunnel_state" where
  "start_call fid p s =
     s\<lparr>tu_tasks := AList.update (tu_next s) (fid, Fetching) (tu_tasks s), tu_next := Suc (tu_next s), tu_calls := tu_calls s @ [p]\<rparr>"

definition tunnel_onFrame :: "tunnel_deps \<Rightarrow> string \<Rightarrow> json \<Rightarrow> tunnel_state \<Rightarrow> js_exn + tunnel_state" where
  "tunnel_onFrame d cid f s =
     (if \<not> is_str ''tunnel'' (member ''ch'' f) \<or> falsy (member ''id'' f) then Inr s
      else let fid = the (member ''id'' f); payload = (case nullish (member ''payload'' f) None of None \<Rightarrow> JObj [] | Some p \<Rightarrow> p);
               ty = member ''type'' f
           in if is_str ''open'' ty then open_stream d cid fid payload s
              else case map_get (tu_pending s) fid of
                None \<Rightarrow> Inr s
              | Some p \<Rightarrow>
                  if is_str ''chunk'' ty then add_chunk d fid payload p s
                  else if is_str ''end'' ty then Inr (start_call fid p s)
                  else if is_str ''close'' ty then Inr (s\<lparr>tu_pending := AList.delete fid (tu_pending s)\<rparr>)
                  else Inr s)"

subsection \<open>A call in flight\<close>

datatype answer =
    Responded int "(string \<times> json) list" bool   \<comment> \<open>status, headers, whether the body streams\<close>
  | ReadChunk string
  | ReadDone
  | GotText string
  | CallFailed string

definition finish_task :: "nat \<Rightarrow> json \<Rightarrow> tunnel_state \<Rightarrow> tunnel_state" where
  "finish_task n fid s = s\<lparr>tu_pending := AList.delete fid (tu_pending s), tu_tasks := AList.delete n (tu_tasks s)\<rparr>"

definition set_phase :: "nat \<Rightarrow> json \<Rightarrow> task_phase \<Rightarrow> tunnel_state \<Rightarrow> tunnel_state" where
  "set_phase n fid ph s = s\<lparr>tu_tasks := AList.update n (fid, ph) (tu_tasks s)\<rparr>"

definition chunk_frame :: "json \<Rightarrow> string \<Rightarrow> (string \<times> json) list \<Rightarrow> json" where
  "chunk_frame fid bytes opening = tunnel_frame ''chunk'' fid (JObj ((''data'', JStr (b64 bytes)) # opening))"

definition close_frame :: "json \<Rightarrow> json" where
  "close_frame fid = tunnel_frame ''close'' fid (JObj [])"

definition run_answer :: "nat \<Rightarrow> answer \<Rightarrow> tunnel_state \<Rightarrow> tunnel_state" where
  "run_answer n a s =
     (case map_of (tu_tasks s) n of
        None \<Rightarrow> s
      | Some (fid, ph) \<Rightarrow>
          (case (ph, a) of
             (Fetching, Responded status headers streamed) \<Rightarrow>
               (let opening = [(''status'', JNum status), (''headers'', JObj headers)]
                in set_phase n fid (if streamed then Reading opening else Texting opening) s)
           | (Reading opening, ReadChunk bytes) \<Rightarrow>
               set_phase n fid (Reading []) (tunnel_send (Some n) (chunk_frame fid bytes opening) s)
           | (Reading opening, ReadDone) \<Rightarrow> finish_task n fid (tunnel_send (Some n) (close_frame fid) s)
           | (Texting opening, GotText t) \<Rightarrow>
               finish_task n fid (tunnel_send (Some n) (close_frame fid) (tunnel_send (Some n) (chunk_frame fid (utf8_encode t) opening) s))
           | (_, CallFailed m) \<Rightarrow> finish_task n fid (closeWithError (Some n) fid m s)
           | _ \<Rightarrow> s))"

datatype tunnel_event = OnFrame json | OnAnswer nat answer

text \<open>A frame that throws leaves the state as it was; the exception is the rejection of the caller's promise.\<close>

definition tunnel_step :: "tunnel_deps \<Rightarrow> string \<Rightarrow> tunnel_event \<Rightarrow> tunnel_state \<Rightarrow> tunnel_state" where
  "tunnel_step d cid e s =
     (case e of
        OnFrame f \<Rightarrow> (case tunnel_onFrame d cid f s of Inl _ \<Rightarrow> s | Inr s' \<Rightarrow> s')
      | OnAnswer n a \<Rightarrow> run_answer n a s)"

definition tunnel_run :: "tunnel_deps \<Rightarrow> string \<Rightarrow> tunnel_event list \<Rightarrow> tunnel_state" where
  "tunnel_run d cid es = fold (tunnel_step d cid) es createTunnelService"

subsection \<open>The filter in front of the service\<close>

definition SERVED_MAX :: nat where "SERVED_MAX = 4096"

text \<open>The ids served, oldest first. A frame that is \<^verbatim>\<open>null\<close> throws, which the reader of the stream catches.\<close>

definition frame_open :: "json \<Rightarrow> bool" where
  "frame_open f \<longleftrightarrow> is_str ''open'' (member ''type'' f) \<and> \<not> falsy (member ''id'' f)"

definition tunnel_filter :: "(json \<Rightarrow> bool) option \<Rightarrow> json \<Rightarrow> json list \<Rightarrow> js_exn + bool \<times> json list" where
  "tunnel_filter ownsSession f served =
     (if f = JNull then Inl TypeError
      else if (case ownsSession of None \<Rightarrow> False
               | Some mine \<Rightarrow> falsy (member ''sid'' f) \<or> \<not> mine (the (member ''sid'' f))) then Inr (False, served)
      else if frame_open f
      then (let fid = the (member ''id'' f)
            in if by_value fid \<and> fid \<in> set served then Inr (False, served)
               else Inr (True, let added = served @ [fid] in if SERVED_MAX < length added then tl added else added))
      else Inr (True, served))"

definition follow_frame ::
  "(json \<Rightarrow> bool) option \<Rightarrow> tunnel_deps \<Rightarrow> string \<Rightarrow> json \<Rightarrow> json list \<times> tunnel_state \<Rightarrow> json list \<times> tunnel_state" where
  "follow_frame ownsSession d cid f cs =
     (case tunnel_filter ownsSession f (fst cs) of
        Inl _ \<Rightarrow> cs
      | Inr (False, served) \<Rightarrow> (served, snd cs)
      | Inr (True, served) \<Rightarrow> (served, tunnel_step d cid (OnFrame f) (snd cs)))"

definition admits :: "(json \<Rightarrow> bool) option \<Rightarrow> json \<Rightarrow> json list \<Rightarrow> bool" where
  "admits ownsSession f served \<longleftrightarrow> (\<exists>served'. tunnel_filter ownsSession f served = Inr (True, served'))"

definition served_after :: "(json \<Rightarrow> bool) option \<Rightarrow> json \<Rightarrow> json list \<Rightarrow> json list" where
  "served_after ownsSession f served = (case tunnel_filter ownsSession f served of Inl _ \<Rightarrow> served | Inr (_, x) \<Rightarrow> x)"

subsection \<open>The ordered sender\<close>

text \<open>
  The frames of a stream that are chained and not settled, the first of them being posted; and the
  frames posted. A stream's entry goes once the close at its end has settled.
\<close>

record ordered_sender =
  os_tails :: "(string, json list) js_map"
  os_posted :: "(string \<times> json) list"

definition tail_of :: "ordered_sender \<Rightarrow> string \<Rightarrow> json list" where
  "tail_of s sid = (case map_of (os_tails s) sid of None \<Rightarrow> [] | Some q \<Rightarrow> q)"

definition ordered_send :: "string option \<Rightarrow> json \<Rightarrow> ordered_sender \<Rightarrow> ordered_sender" where
  "ordered_send fid f s =
     (case fid of
        None \<Rightarrow> s
      | Some sid \<Rightarrow>
          if sid = [] then s
          else s\<lparr>os_tails := AList.update sid (tail_of s sid @ [f]) (os_tails s),
                 os_posted := os_posted s @ (if tail_of s sid = [] then [(sid, f)] else [])\<rparr>)"

definition post_settled :: "string \<Rightarrow> ordered_sender \<Rightarrow> ordered_sender" where
  "post_settled sid s =
     (case tail_of s sid of
        [] \<Rightarrow> s
      | f # rest \<Rightarrow>
          s\<lparr>os_tails := (if rest = [] \<and> is_str ''close'' (member ''type'' f) then AList.delete sid (os_tails s)
                         else AList.update sid rest (os_tails s)),
            os_posted := os_posted s @ map (Pair sid) (take 1 rest)\<rparr>)"

datatype sender_event = Send "string option" json | Settled string

definition sender_step :: "sender_event \<Rightarrow> ordered_sender \<Rightarrow> ordered_sender" where
  "sender_step e s = (case e of Send fid f \<Rightarrow> ordered_send fid f s | Settled sid \<Rightarrow> post_settled sid s)"

definition sender_run :: "sender_event list \<Rightarrow> ordered_sender" where
  "sender_run es = fold sender_step es \<lparr>os_tails = [], os_posted = []\<rparr>"

subsection \<open>Requests stay in their conversation\<close>

definition tunnel_urls :: "tunnel_deps \<Rightarrow> string \<Rightarrow> string set" where
  "tunnel_urls d cid = (case td_mcpUrlFor d of None \<Rightarrow> {} | Some f \<Rightarrow> {f cid}) \<union> set_option (td_brokerMcpUrlFor d)"

definition in_scope :: "tunnel_deps \<Rightarrow> string \<Rightarrow> stream_request \<Rightarrow> bool" where
  "in_scope d cid p \<longleftrightarrow>
     sr_url p \<in> tunnel_urls d cid \<and> sr_conversationId p = cid
     \<and> (\<forall>(k, v) \<in> set (sr_headers p).
          if \<exists>(n, _) \<in> set (injected d cid). lower k = lower n then (k, v) \<in> (\<lambda>(n, w). (n, JStr w)) ` set (injected d cid)
          else k \<notin> {''host'', ''content-length''})"

lemma updates_from:
  "kv \<in> set (foldl (\<lambda>hs (n, v). AList.update n (JStr v) hs) hs0 creds) \<Longrightarrow>
     kv \<in> set hs0 \<or> kv \<in> (\<lambda>(n, w). (n, JStr w)) ` set creds"
proof (induction creds arbitrary: hs0)
  case (Cons c cs)
  obtain n w where c: "c = (n, w)" by (cases c)
  have "x \<in> set (AList.update n (JStr w) hs0) \<Longrightarrow> x \<in> insert (n, JStr w) (set hs0)" for x
    by (induction hs0) (auto split: if_splits)
  then show ?case using Cons c by fastforce
qed simp

lemma delete_entry: "(k, v) \<in> set (AList.delete x m) \<longleftrightarrow> (k, v) \<in> set m \<and> k \<noteq> x"
  by (auto simp: AList.delete_eq)

lemma stream_headers_scoped:
  assumes "(k, v) \<in> set (stream_headers given creds)"
  shows "if \<exists>(n, _) \<in> set creds. lower k = lower n then (k, v) \<in> (\<lambda>(n, w). (n, JStr w)) ` set creds
         else k \<notin> {''host'', ''content-length''}"
  using updates_from [OF assms [unfolded stream_headers_def]]
  by (auto simp: list_ex_iff delete_entry split: prod.splits)

lemma resolved_in_scope:
  "resolveTunnelTarget t cid d = Inr (Inr r) \<Longrightarrow> rt_url r \<in> tunnel_urls d cid \<and> rt_headers r = injected d cid"
  by (auto simp: resolveTunnelTarget_def tunnel_urls_def split: if_splits option.splits sum.splits bool.splits)

definition all_scoped :: "tunnel_deps \<Rightarrow> string \<Rightarrow> tunnel_state \<Rightarrow> bool" where
  "all_scoped d cid s \<longleftrightarrow> list_all (\<lambda>kp. in_scope d cid (snd kp)) (tu_pending s) \<and> list_all (in_scope d cid) (tu_calls s)"

lemma update_all: "list_all (\<lambda>kp. P (snd kp)) m \<Longrightarrow> P v \<Longrightarrow> list_all (\<lambda>kp. P (snd kp)) (AList.update k v m)"
  by (induction m) auto

lemma delete_all: "list_all P m \<Longrightarrow> list_all P (AList.delete k m)"
  by (auto simp: AList.delete_eq list_all_iff)

lemma scoped_update:
  "all_scoped d cid s \<Longrightarrow> in_scope d cid p \<Longrightarrow> all_scoped d cid (s\<lparr>tu_pending := AList.update fid p (tu_pending s)\<rparr>)"
  by (simp add: all_scoped_def update_all)

lemma scoped_delete: "all_scoped d cid s \<Longrightarrow> all_scoped d cid (s\<lparr>tu_pending := AList.delete fid (tu_pending s)\<rparr>)"
  by (simp add: all_scoped_def delete_all)

lemma scoped_send [simp]: "all_scoped d cid (tunnel_send n f s) = all_scoped d cid s"
  by (simp add: all_scoped_def tunnel_send_def)

lemma scoped_tasks [simp]: "all_scoped d cid (s\<lparr>tu_tasks := x\<rparr>) = all_scoped d cid s"
  by (simp add: all_scoped_def)

lemma scoped_pending: "all_scoped d cid s \<Longrightarrow> map_get (tu_pending s) fid = Some p \<Longrightarrow> in_scope d cid p"
  by (auto simp: all_scoped_def map_get_def list_all_iff dest!: map_of_SomeD split: if_splits)

lemma in_scope_headers:
  "u \<in> tunnel_urls d cid \<Longrightarrow>
     in_scope d cid \<lparr>sr_url = u, sr_method = m, sr_headers = stream_headers hs (injected d cid), sr_body = b, sr_conversationId = cid\<rparr>"
  unfolding in_scope_def
  by (intro conjI ballI; clarify?) (simp, simp, rule stream_headers_scoped [where given = hs], simp)

lemma scoped_open:
  assumes "open_stream d cid fid payload s = Inr s'" "all_scoped d cid s"
  shows "all_scoped d cid s'"
  using assms
  by (auto simp: open_stream_def closeWithError_def intro!: scoped_update scoped_delete in_scope_headers
      dest!: resolved_in_scope split: sum.splits)

lemma scoped_frame:
  assumes "tunnel_onFrame d cid f s = Inr s'" "all_scoped d cid s"
  shows "all_scoped d cid s'"
proof (cases "is_str ''open'' (member ''type'' f)")
  case True
  then show ?thesis using assms scoped_open by (auto simp: tunnel_onFrame_def Let_def split: if_splits)
next
  case False
  have chunk: "in_scope d cid (p\<lparr>sr_body := b\<rparr>) = in_scope d cid p" for p b by (simp add: in_scope_def)
  have call: "in_scope d cid p \<Longrightarrow> all_scoped d cid (start_call fid p s)" for fid p
    using assms(2) by (auto simp: start_call_def all_scoped_def)
  show ?thesis using False assms scoped_pending [OF assms(2)]
    by (auto simp: tunnel_onFrame_def Let_def add_chunk_def chunk intro!: scoped_update scoped_delete call
          split: if_splits option.splits sum.splits)
qed

lemma scoped_answer: "all_scoped d cid s \<Longrightarrow> all_scoped d cid (run_answer n a s)"
  by (auto simp: run_answer_def set_phase_def finish_task_def closeWithError_def Let_def scoped_delete
      split: option.splits task_phase.splits answer.splits)

lemma scoped_run: "all_scoped d cid (tunnel_run d cid es)"
proof -
  have "all_scoped d cid s \<Longrightarrow> all_scoped d cid (fold (tunnel_step d cid) es s)" for s
    by (induction es arbitrary: s)
      (auto simp: tunnel_step_def scoped_answer scoped_frame split: tunnel_event.splits sum.splits)
  then show ?thesis by (simp add: tunnel_run_def createTunnelService_def all_scoped_def)
qed

text \<open>
  C17. Whatever frames a user's container sends and whatever the network answers, each request the agent
  host makes for it goes to the conversation's own MCP endpoint or to the broker's, and a header with the
  name of an injected credential, in any case, is the injected one; the container's \<^verbatim>\<open>Host\<close> and
  \<^verbatim>\<open>Content-Length\<close>, in lower case, are not passed on.
\<close>

theorem tunnel_stays_in_scope:
  assumes "c \<in> set (tu_calls (tunnel_run d cid es))"
  shows "sr_url c \<in> tunnel_urls d cid \<and> sr_conversationId c = cid
    \<and> (\<forall>(k, v) \<in> set (sr_headers c).
           if \<exists>(n, _) \<in> set (injected d cid). lower k = lower n then (k, v) \<in> (\<lambda>(n, w). (n, JStr w)) ` set (injected d cid)
           else k \<notin> {''host'', ''content-length''})"
  using scoped_run [of d cid es] assms by (simp_all add: all_scoped_def list_all_iff in_scope_def)

definition sample_deps :: tunnel_deps where
  "sample_deps = \<lparr>td_mcpUrlFor = Some (\<lambda>c. ''http://mcp/'' @ c), td_mcpHeadersFor = Some (\<lambda>c. [(''Authorization'', ''Bearer '' @ c)]),
     td_brokerMcpUrlFor = None, td_lenient = (\<lambda>s. []), td_bytes = (\<lambda>v. Inl TypeError)\<rparr>"

definition sample_open :: json where
  "sample_open = JObj [(''ch'', JStr ''tunnel''), (''type'', JStr ''open''), (''id'', JStr ''s1''),
     (''payload'', JObj [(''target'', JStr ''scooter-env''), (''headers'', JObj [(''authorization'', JStr ''mine''), (''accept'', JStr ''x'')])])]"

definition sample_end :: json where
  "sample_end = JObj [(''ch'', JStr ''tunnel''), (''type'', JStr ''end''), (''id'', JStr ''s1'')]"

definition sample_call :: stream_request where
  "sample_call = \<lparr>sr_url = ''http://mcp/c1'', sr_method = JStr ''GET'',
     sr_headers = [(''accept'', JStr ''x''), (''Authorization'', JStr ''Bearer c1'')], sr_body = [], sr_conversationId = ''c1''\<rparr>"

lemma sample_called: "tu_calls (tunnel_run sample_deps ''c1'' [OnFrame sample_open, OnFrame sample_end]) = [sample_call]"
  by code_simp

theorem tunnel_stays_in_scope_witness:
  "sr_url sample_call \<in> tunnel_urls sample_deps ''c1''"
  using tunnel_stays_in_scope [of sample_call sample_deps "''c1''" "[OnFrame sample_open, OnFrame sample_end]"]
  by (simp add: sample_called)

subsection \<open>Every call is closed, once\<close>

definition closes :: "nat \<Rightarrow> tunnel_state \<Rightarrow> nat" where
  "closes n s = length (filter (\<lambda>(t, f). t = Some n \<and> is_str ''close'' (member ''type'' f)) (tu_sent s))"

definition closed_ok :: "tunnel_state \<Rightarrow> bool" where
  "closed_ok s \<longleftrightarrow>
     (\<forall>n \<in> fst ` set (tu_tasks s). n < tu_next s)
     \<and> (\<forall>n. closes n s = (if n < tu_next s \<and> n \<notin> fst ` set (tu_tasks s) then 1 else 0))"

lemma closes_send:
  "closes n (tunnel_send t f s) = closes n s + (if t = Some n \<and> is_str ''close'' (member ''type'' f) then 1 else 0)"
  by (simp add: closes_def tunnel_send_def)

lemma type_frame [simp]:
  "member ''type'' (tunnel_frame ty fid p) = Some (JStr ty)" "member ''type'' (close_frame fid) = Some (JStr ''close'')"
  "member ''type'' (chunk_frame fid b kvs) = Some (JStr ''chunk'')"
  by (simp_all add: tunnel_frame_def close_frame_def chunk_frame_def)

lemma closes_more [simp]:
  "closes n (s\<lparr>tu_pending := x\<rparr>) = closes n s" "closes n (s\<lparr>tu_tasks := y\<rparr>) = closes n s"
  "closes n (s\<lparr>tu_next := k\<rparr>) = closes n s" "closes n (s\<lparr>tu_calls := c\<rparr>) = closes n s"
  by (simp_all add: closes_def)

lemma send_more [simp]:
  "tu_tasks (tunnel_send t f s) = tu_tasks s" "tu_next (tunnel_send t f s) = tu_next s" "tu_pending (tunnel_send t f s) = tu_pending s"
  by (simp_all add: tunnel_send_def)

lemma dom_delete: "fst ` set (AList.delete k m) = fst ` set m - {k}"
  by (simp add: delete_keys set_map [symmetric] del: set_map)

lemma closed_ok_start: "closed_ok s \<Longrightarrow> closed_ok (start_call fid p s)"
  by (auto simp: closed_ok_def start_call_def dom_update less_Suc_eq simp del: image_iff)

lemma closed_ok_same:
  "closed_ok s \<Longrightarrow> tu_tasks s' = tu_tasks s \<Longrightarrow> tu_next s' = tu_next s \<Longrightarrow> (\<And>n. closes n s' = closes n s) \<Longrightarrow> closed_ok s'"
  by (simp add: closed_ok_def)

lemma task_key: "map_of m n = Some x \<Longrightarrow> n \<in> fst ` set m"
  by (auto dest: map_of_SomeD intro: rev_image_eqI)

lemma closed_ok_phase:
  assumes "closed_ok s" "map_of (tu_tasks s) n = Some x"
  shows "closed_ok (set_phase n fid ph' s)"
  using assms(1) task_key [OF assms(2)] by (simp add: closed_ok_def set_phase_def dom_update insert_absorb)

lemma closed_ok_finish:
  assumes "closed_ok s" "map_of (tu_tasks s) n = Some x"
    and "tu_tasks t = tu_tasks s" "tu_next t = tu_next s" "\<And>m. closes m t = closes m s + (if m = n then 1 else 0)"
  shows "closed_ok (finish_task n fid t)"
  using assms(1,3-5) task_key [OF assms(2)] by (auto simp: closed_ok_def finish_task_def dom_delete)

lemma closed_ok_frame: "tunnel_onFrame d cid f s = Inr s' \<Longrightarrow> closed_ok s \<Longrightarrow> closed_ok s'"
  by (auto simp: tunnel_onFrame_def Let_def open_stream_def add_chunk_def closeWithError_def closes_send
      intro: closed_ok_start elim: closed_ok_same split: if_splits option.splits sum.splits)

lemma closed_ok_answer: "closed_ok s \<Longrightarrow> closed_ok (run_answer n a s)"
  by (auto simp: run_answer_def Let_def closeWithError_def closes_send is_str_def
      intro!: closed_ok_phase closed_ok_finish elim: closed_ok_same split: option.splits task_phase.splits answer.splits)

lemma closed_ok_run: "closed_ok (tunnel_run d cid es)"
proof -
  have "closed_ok s \<Longrightarrow> closed_ok (fold (tunnel_step d cid) es s)" for s
    by (induction es arbitrary: s)
      (auto simp: tunnel_step_def closed_ok_answer closed_ok_frame split: tunnel_event.splits sum.splits)
  then show ?thesis by (simp add: tunnel_run_def createTunnelService_def closed_ok_def closes_def)
qed

text \<open>
  C20. Every call the service makes for a container ends in exactly one close frame of that call, and a
  call still in flight has sent none: whatever the frames, the network's answers and their interleaving.
\<close>

theorem tunnel_closes_once:
  "closes n (tunnel_run d cid es) =
     (if n < tu_next (tunnel_run d cid es) \<and> n \<notin> fst ` set (tu_tasks (tunnel_run d cid es)) then 1 else 0)"
  using closed_ok_run [of d cid es] by (simp add: closed_ok_def)

text \<open>
  The frames of a container are not checked: a target that is not a string, or a chunk whose data is a
  number, rejects the promise of \<^verbatim>\<open>onFrame\<close>, which its caller does not handle; and an \<^verbatim>\<open>end\<close> that is
  repeated while its call runs makes the call again.
\<close>

lemma numeric_target_throws:
  "tunnel_onFrame d cid (JObj [(''ch'', JStr ''tunnel''), (''type'', JStr ''open''), (''id'', JStr sid), (''payload'', JObj [(''target'', JNum n)])]) s
     = (if sid = [] then Inr s else Inl TypeError)"
  by (cases sid) (simp_all add: tunnel_onFrame_def open_stream_def resolveTunnelTarget_def call_startsWith_def nullish_def is_str_def)

lemma end_repeats_call:
  "tu_calls (tunnel_run sample_deps ''c1'' [OnFrame sample_open, OnFrame sample_end, OnFrame sample_end]) = [sample_call, sample_call]"
  by code_simp

subsection \<open>An open is served once\<close>

lemma filter_grows:
  assumes "tunnel_filter own g served = Inr (b, served')"
  shows "served' = served \<or> b \<and> frame_open g \<and> (served' = served @ [the (member ''id'' g)] \<and> length served < SERVED_MAX
           \<or> served' = tl (served @ [the (member ''id'' g)]) \<and> SERVED_MAX \<le> length served)"
  using assms by (auto simp: tunnel_filter_def Let_def split: if_splits option.splits)

lemma admitted_last:
  assumes "tunnel_filter own f served = Inr (True, served')" "frame_open f"
  shows "\<exists>ks. served' = ks @ [the (member ''id'' f)]"
proof -
  have "served' = served @ [the (member ''id'' f)] \<or> served' = tl (served @ [the (member ''id'' f)]) \<and> served \<noteq> []"
    using assms by (auto simp: tunnel_filter_def Let_def SERVED_MAX_def split: if_splits option.splits)
  then show ?thesis by auto
qed

lemma filter_keeps:
  assumes "served = pre @ i # post" "length post + (if admits own g served \<and> frame_open g then 1 else 0) < SERVED_MAX" "length served \<le> SERVED_MAX"
  shows "\<exists>pre' post'. served_after own g served = pre' @ i # post'
           \<and> length post' \<le> length post + (if admits own g served \<and> frame_open g then 1 else 0)
           \<and> length (served_after own g served) \<le> SERVED_MAX"
proof (cases "tunnel_filter own g served")
  case (Inl e)
  then show ?thesis using assms by (intro exI [of _ pre] exI [of _ post]) (auto simp: served_after_def)
next
  case (Inr r)
  obtain b served' where r: "r = (b, served')" by (cases r)
  have after: "served_after own g served = served'" using Inr r by (simp add: served_after_def)
  have b: "admits own g served \<longleftrightarrow> b" using Inr r by (simp add: admits_def)
  consider "served' = served" | "b" "frame_open g" "served' = served @ [the (member ''id'' g)]" "length served < SERVED_MAX"
    | "b" "frame_open g" "served' = tl (served @ [the (member ''id'' g)])" "SERVED_MAX \<le> length served"
    using filter_grows Inr r by blast
  then show ?thesis
  proof cases
    case 1
    then show ?thesis using assms after by (intro exI [of _ pre] exI [of _ post]) auto
  next
    case 2
    then show ?thesis using assms after b by (intro exI [of _ pre] exI [of _ "post @ [the (member ''id'' g)]"]) auto
  next
    case 3
    then have "pre \<noteq> []" using assms b by auto
    then obtain x pre' where "pre = x # pre'" by (cases pre) auto
    then have "served' = pre' @ i # (post @ [the (member ''id'' g)])" using 3 assms(1) by simp
    moreover have "length served' \<le> SERVED_MAX" using calculation assms(1,3) \<open>pre = x # pre'\<close> by simp
    ultimately show ?thesis using after b 3 by (intro exI [of _ pre'] exI [of _ "post @ [the (member ''id'' g)]"]) auto
  qed
qed

primrec opens_admitted :: "(json \<Rightarrow> bool) option \<Rightarrow> json list \<Rightarrow> json list \<Rightarrow> nat" where
  "opens_admitted own [] served = 0"
| "opens_admitted own (g # gs) served =
     (if admits own g served \<and> frame_open g then 1 else 0) + opens_admitted own gs (served_after own g served)"

lemma filter_remembers:
  "served = pre @ i # post \<Longrightarrow> length post + opens_admitted own gs served < SERVED_MAX \<Longrightarrow> length served \<le> SERVED_MAX \<Longrightarrow>
     i \<in> set (fold (served_after own) gs served)"
proof (induction gs arbitrary: served pre post)
  case (Cons g gs)
  obtain pre' post' where "served_after own g served = pre' @ i # post'"
    and "length post' \<le> length post + (if admits own g served \<and> frame_open g then 1 else 0)"
    and "length (served_after own g served) \<le> SERVED_MAX"
    using filter_keeps [OF Cons.prems(1), of own g] Cons.prems(2,3) by auto
  then show ?case using Cons.IH [of "served_after own g served" pre' post'] Cons.prems(2) by simp
qed simp

lemma served_bounded: "length (fold (served_after own) fs []) \<le> SERVED_MAX"
proof -
  have "length served \<le> SERVED_MAX \<Longrightarrow> length (served_after own g served) \<le> SERVED_MAX" for served g
    by (auto simp: served_after_def dest!: filter_grows split: sum.splits)
  then have "length served \<le> SERVED_MAX \<Longrightarrow> length (fold (served_after own) fs served) \<le> SERVED_MAX" for served
    by (induction fs arbitrary: served) auto
  then show ?thesis by simp
qed

text \<open>
  Once the filter has let a stream's open through, it refuses the same open again, however often the
  controller replays it, as long as fewer than \<^const>\<open>SERVED_MAX\<close> other opens were let through since.
\<close>

theorem open_served_once:
  assumes "admits own f (fold (served_after own) fs [])" "frame_open f" "by_value (the (member ''id'' f))"
    and "opens_admitted own gs (fold (served_after own) (fs @ [f]) []) < SERVED_MAX"
  shows "\<not> admits own f (fold (served_after own) (fs @ f # gs) [])"
proof -
  let ?s = "fold (served_after own) fs []" and ?i = "the (member ''id'' f)"
  obtain s' where s': "tunnel_filter own f ?s = Inr (True, s')" using assms(1) by (auto simp: admits_def)
  then obtain ks where "s' = ks @ [?i]" using admitted_last assms(2) by blast
  moreover have "served_after own f ?s = s'" using s' by (simp add: served_after_def)
  moreover have "length s' \<le> SERVED_MAX" using served_bounded [of own "fs @ [f]"] calculation(2) by simp
  ultimately have "?i \<in> set (fold (served_after own) gs s')"
    using filter_remembers [of s' ks ?i "[]" own gs] assms(4) by simp
  then show ?thesis using assms(2,3) \<open>served_after own f ?s = s'\<close>
    by (auto simp: admits_def tunnel_filter_def split: if_splits)
qed

theorem open_served_once_witness:
  "\<not> admits None sample_open (fold (served_after None) [sample_open, sample_end] [])"
proof -
  have "admits None sample_open []" by (simp add: admits_def tunnel_filter_def sample_open_def frame_open_def is_str_def SERVED_MAX_def)
  moreover have "frame_open sample_open" "by_value (the (member ''id'' sample_open))" by code_simp+
  moreover have "opens_admitted None [sample_end] (fold (served_after None) ([] @ [sample_open]) []) < SERVED_MAX"
    by (simp add: frame_open_def sample_end_def is_str_def SERVED_MAX_def)
  ultimately show ?thesis using open_served_once [of None sample_open "[]" "[sample_end]"] by simp
qed

subsection \<open>Replies leave in order\<close>

definition sent_on :: "string \<Rightarrow> sender_event list \<Rightarrow> json list" where
  "sent_on sid es = concat (map (\<lambda>e. case e of Send (Some i) f \<Rightarrow> if i = sid then [f] else [] | _ \<Rightarrow> []) es)"

definition posted_on :: "string \<Rightarrow> ordered_sender \<Rightarrow> json list" where
  "posted_on sid s = map snd (filter (\<lambda>(i, _). i = sid) (os_posted s))"

lemma tail_of_tails:
  "os_tails t = AList.update i q (os_tails s) \<Longrightarrow> tail_of t sid = (if i = sid then q else tail_of s sid)"
  "os_tails t = AList.delete i (os_tails s) \<Longrightarrow> tail_of t sid = (if i = sid then [] else tail_of s sid)"
  by (simp_all add: tail_of_def update_conv' delete_conv')

lemma first_then_rest [simp]: "map (snd \<circ> Pair x) (take (Suc 0) q) @ tl q = q"
  by (cases q) simp_all

lemma sender_inv:
  assumes "sid \<noteq> []" "sent = posted_on sid s @ tl (tail_of s sid)"
  shows "posted_on sid (sender_step e s) @ tl (tail_of (sender_step e s) sid) = sent @ sent_on sid [e]"
  using assms
  by (cases "tail_of s sid")
    (auto simp: sender_step_def ordered_send_def post_settled_def sent_on_def posted_on_def tail_of_tails [where s = s]
      split: sender_event.splits option.splits list.splits if_splits)

text \<open>
  The replies of a stream are posted in the order the service sent them: those posted, with those
  that still wait behind the one in flight, are the ones sent, so none overtakes another and none is
  posted twice.
\<close>

theorem replies_in_order:
  assumes "sid \<noteq> []"
  shows "posted_on sid (sender_run es) @ tl (tail_of (sender_run es) sid) = sent_on sid es"
proof -
  have "sent = posted_on sid s @ tl (tail_of s sid) \<Longrightarrow>
     posted_on sid (fold sender_step es s) @ tl (tail_of (fold sender_step es s) sid) = sent @ sent_on sid es" for sent s
  proof (induction es arbitrary: s sent)
    case (Cons e es)
    then show ?case using sender_inv [OF assms Cons.prems, of e] by (simp add: sent_on_def)
  qed (simp add: sent_on_def)
  from this [of "[]" "\<lparr>os_tails = [], os_posted = []\<rparr>"] show ?thesis
    by (simp add: sender_run_def posted_on_def tail_of_def)
qed

theorem replies_in_order_witness:
  "posted_on ''s'' (sender_run [Send (Some ''s'') JNull, Send (Some ''s'') (JNum 1), Settled ''s'']) @ tl (tail_of (sender_run [Send (Some ''s'') JNull, Send (Some ''s'') (JNum 1), Settled ''s'']) ''s'')
     = [JNull, JNum 1]"
  using replies_in_order [of "''s''" "[Send (Some ''s'') JNull, Send (Some ''s'') (JNum 1), Settled ''s'']"] by (simp add: sent_on_def)

end
