(* ===== verification/Tokens.thy ===== *)
theory Tokens
  imports Base64 Remote_Protocol
begin

text \<open>
  The signed tokens of the platform: HS256 (\<^verbatim>\<open>auth/hs256.ts\<close>), conversation tokens
  (\<^verbatim>\<open>auth/convToken.ts\<close>), the join tokens the agent-host mints for a user's own agent
  (\<^verbatim>\<open>auth/remoteAgentToken.ts\<close>) and those of the controller that container connects to
  (\<^verbatim>\<open>byoc-controller/src/joinToken.ts\<close>). The keyed hash is a parameter, and so is what the model has no
  value for: a text with characters outside the Base64 alphabets, bytes that are no text of the model, a
  number that is not an integer.
\<close>

record crypto =
  hmac :: "string \<Rightarrow> string \<Rightarrow> string"         \<comment> \<open>key and data to digest\<close>
  lenient :: "string \<Rightarrow> string"
  other_text :: "string \<Rightarrow> string"
  dec_literals :: "string \<Rightarrow> json option"
  dec_le :: "string \<Rightarrow> int \<Rightarrow> bool"             \<comment> \<open>comparison of a fractional number with an integer\<close>

subsection \<open>HS256\<close>

definition HEADER :: string where
  "HEADER = b64url (utf8_encode (stringify (JObj [(''alg'', JStr ''HS256''), (''typ'', JStr ''JWT'')])))"

definition mac :: "crypto \<Rightarrow> string \<Rightarrow> string \<Rightarrow> string" where
  "mac c data secret = b64url (hmac c (utf8_encode secret) (utf8_encode data))"

definition signHs256 :: "crypto \<Rightarrow> json \<Rightarrow> string \<Rightarrow> string" where
  "signHs256 c claims secret =
     (let payload = b64url (utf8_encode (stringify claims))
      in HEADER @ ''.'' @ payload @ ''.'' @ mac c (HEADER @ ''.'' @ payload) secret)"

definition verifyHs256 :: "crypto \<Rightarrow> string \<Rightarrow> string \<Rightarrow> string + json" where
  "verifyHs256 c token secret =
     (case split_at_char CHR ''.'' token of
        [encHeader, encClaims, sig] \<Rightarrow>
          if fromB64url (lenient c) sig \<noteq> fromB64url (lenient c) (mac c (encHeader @ ''.'' @ encClaims) secret)
          then Inl ''bad signature''
          else (case json_parse (dec_literals c) (utf8_text (other_text c) (fromB64url (lenient c) encClaims)) of
                  None \<Rightarrow> Inl ''bad claims''
                | Some claims \<Rightarrow> Inr claims)
      | _ \<Rightarrow> Inl ''malformed token'')"

text \<open>\<^verbatim>\<open>typeof v !== "number" || v <= now\<close>\<close>

definition lapsed :: "crypto \<Rightarrow> json option \<Rightarrow> int \<Rightarrow> bool" where
  "lapsed c v now = (case v of Some (JNum e) \<Rightarrow> e \<le> now | Some (JDec d) \<Rightarrow> dec_le c d now | _ \<Rightarrow> True)"

text \<open>\<^verbatim>\<open>typeof v !== "string" || !v\<close>\<close>

definition no_string :: "json option \<Rightarrow> bool" where
  "no_string v = (case v of Some (JStr s) \<Rightarrow> s = [] | _ \<Rightarrow> True)"

subsection \<open>Conversation tokens\<close>

definition CONV_TOKEN_AUDIENCE :: string where "CONV_TOKEN_AUDIENCE = ''scooter-mcp''"
definition CONV_TOKEN_ISSUER :: string where "CONV_TOKEN_ISSUER = ''scooter-agent-host''"
definition DEFAULT_CONV_TOKEN_TTL_SECONDS :: int where "DEFAULT_CONV_TOKEN_TTL_SECONDS = 7 * 24 * 60 * 60"

definition conv_claims :: "string \<Rightarrow> string option \<Rightarrow> int option \<Rightarrow> int \<Rightarrow> json" where
  "conv_claims conversationId owner ttl now =
     JObj ([(''aud'', JStr CONV_TOKEN_AUDIENCE), (''iss'', JStr CONV_TOKEN_ISSUER), (''sub'', JStr conversationId),
            (''iat'', JNum now),
            (''exp'', JNum (now + (case ttl of None \<Rightarrow> DEFAULT_CONV_TOKEN_TTL_SECONDS | Some t \<Rightarrow> t)))]
           @ (case owner of Some (x # xs) \<Rightarrow> [(''owner'', JStr (x # xs))] | _ \<Rightarrow> []))"

definition mintConvToken :: "crypto \<Rightarrow> string \<Rightarrow> string \<Rightarrow> string option \<Rightarrow> int option \<Rightarrow> int \<Rightarrow> string + string" where
  "mintConvToken c conversationId secret owner ttl now =
     (if conversationId = [] then Inl ''mintConvToken: conversationId is required''
      else if secret = [] then Inl ''mintConvToken: secret is required''
      else Inr (signHs256 c (conv_claims conversationId owner ttl now) secret))"

text \<open>The outer error is the exception of reading a member of \<^verbatim>\<open>null\<close>, the inner one the refusal.\<close>

definition verifyConvToken :: "crypto \<Rightarrow> string \<Rightarrow> string \<Rightarrow> int \<Rightarrow> js_exn + string + string \<times> json option" where
  "verifyConvToken c token secret now =
     (if secret = [] then Inr (Inl ''no conversation-token secret configured'')
      else case verifyHs256 c token secret of
        Inl reason \<Rightarrow> Inr (Inl reason)
      | Inr cl \<Rightarrow>
          if cl = JNull then Inl TypeError
          else Inr (if \<not> is_str CONV_TOKEN_AUDIENCE (member ''aud'' cl) then Inl ''wrong audience''
               else if \<not> is_str CONV_TOKEN_ISSUER (member ''iss'' cl) then Inl ''wrong issuer''
               else (case member ''sub'' cl of
                       Some (JStr (x # xs)) \<Rightarrow>
                         if lapsed c (member ''exp'' cl) now then Inl ''expired''
                         else Inr (x # xs, if falsy (member ''owner'' cl) then None else member ''owner'' cl)
                     | _ \<Rightarrow> Inl ''no conversation'')))"

text \<open>\<open>/^bearer\s+(.+)$/i\<close> on the trimmed header; the token is the rest of the first line, trimmed.\<close>

definition bearerFrom :: "string option \<Rightarrow> string option" where
  "bearerFrom authorization =
     (case authorization of
        None \<Rightarrow> None
      | Some a \<Rightarrow>
          let s = trim a; rest = drop 6 s; tok = dropWhile js_space rest
          in if lower (take 6 s) = ''bearer'' \<and> rest \<noteq> [] \<and> js_space (hd rest) \<and> tok \<noteq> []
                \<and> list_all (\<lambda>x. x \<noteq> CHR 0x0A \<and> x \<noteq> CHR 0x0D) tok
             then Some (trim tok) else None)"

subsection \<open>Join tokens\<close>

definition REMOTE_AGENT :: string where "REMOTE_AGENT = ''remote-agent''"

definition join_claims :: "string \<Rightarrow> string \<Rightarrow> int option \<Rightarrow> int \<Rightarrow> string \<Rightarrow> json" where
  "join_claims aud owner ttl now nonce =
     JObj [(''owner'', JStr owner), (''iat'', JNum now), (''exp'', JNum (now + (case ttl of None \<Rightarrow> 600 | Some t \<Rightarrow> t))),
           (''nonce'', JStr nonce), (''aud'', JStr aud)]"

definition mintJoinToken :: "crypto \<Rightarrow> string \<Rightarrow> string \<Rightarrow> int option \<Rightarrow> int \<Rightarrow> string \<Rightarrow> string" where
  "mintJoinToken c owner secret ttl now nonce = signHs256 c (join_claims REMOTE_AGENT owner ttl now nonce) secret"

definition join_check :: "crypto \<Rightarrow> string list \<Rightarrow> string \<Rightarrow> string \<Rightarrow> int \<Rightarrow> js_exn + string + json" where
  "join_check c audiences token secret now =
     (case verifyHs256 c token secret of
        Inl reason \<Rightarrow> Inr (Inl reason)
      | Inr claims \<Rightarrow>
          if claims = JNull then Inl TypeError
          else Inr (if \<not> list_ex (\<lambda>a. is_str a (member ''aud'' claims)) audiences then Inl ''wrong audience''
               else if no_string (member ''owner'' claims) then Inl ''no owner''
               else if lapsed c (member ''exp'' claims) now then Inl ''expired''
               else Inr claims))"

definition verifyJoinToken :: "crypto \<Rightarrow> string \<Rightarrow> string \<Rightarrow> int \<Rightarrow> js_exn + string + json" where
  "verifyJoinToken c token secret now = join_check c [REMOTE_AGENT] token secret now"

text \<open>The controller's own tokens, signed in the same format.\<close>

definition BYOC_AUDIENCE :: string where "BYOC_AUDIENCE = ''byoc''"
definition ACCEPTED_AUDIENCES :: "string list" where "ACCEPTED_AUDIENCES = [BYOC_AUDIENCE, REMOTE_AGENT]"

definition byoc_mintJoinToken :: "crypto \<Rightarrow> string \<Rightarrow> string \<Rightarrow> int option \<Rightarrow> int \<Rightarrow> string \<Rightarrow> string" where
  "byoc_mintJoinToken c owner secret ttl now nonce = signHs256 c (join_claims BYOC_AUDIENCE owner ttl now nonce) secret"

definition byoc_verifyJoinToken :: "crypto \<Rightarrow> string \<Rightarrow> string \<Rightarrow> int \<Rightarrow> js_exn + string + json" where
  "byoc_verifyJoinToken c token secret now = join_check c ACCEPTED_AUDIENCES token secret now"

subsection \<open>What a verifier reads\<close>

lemma split_at_char_append:
  "sep \<notin> set a \<Longrightarrow> split_at_char sep (a @ sep # b) = a # split_at_char sep b"
  by (induction a) auto

lemma split_at_char_none: "sep \<notin> set a \<Longrightarrow> split_at_char sep a = [a]"
  by (induction a) auto

lemma verify_signed:
  assumes "readable (dec_literals c) claims"
  shows "verifyHs256 c (signHs256 c claims secret) secret = Inr claims"
proof -
  have "CHR ''.'' \<notin> set HEADER" by (simp add: HEADER_def b64url_no_dot)
  then have "split_at_char CHR ''.'' (signHs256 c claims secret)
      = [HEADER, b64url (utf8_encode (stringify claims)), mac c (HEADER @ ''.'' @ b64url (utf8_encode (stringify claims))) secret]"
    by (simp add: signHs256_def Let_def split_at_char_append split_at_char_none b64url_no_dot mac_def)
  then show ?thesis using assms by (simp add: verifyHs256_def b64url_read utf8_read json_roundtrip)
qed

text \<open>The times a double holds exactly.\<close>

definition safe_times :: "int \<Rightarrow> int \<Rightarrow> bool" where
  "safe_times now ttl \<longleftrightarrow> \<bar>now\<bar> \<le> 9007199254740992 \<and> \<bar>now + ttl\<bar> \<le> 9007199254740992"

lemma conv_claims_readable:
  "safe_times now (case ttl of None \<Rightarrow> DEFAULT_CONV_TOKEN_TTL_SECONDS | Some t \<Rightarrow> t) \<Longrightarrow> readable dec (conv_claims cid owner ttl now)"
  by (auto simp: conv_claims_def safe_times_def split: option.splits list.splits)

lemma join_claims_readable:
  "safe_times now (case ttl of None \<Rightarrow> 600 | Some t \<Rightarrow> t) \<Longrightarrow> readable dec (join_claims aud owner ttl now nonce)"
  by (simp add: join_claims_def safe_times_def)

lemma conv_claims_members:
  "member ''aud'' (conv_claims cid owner ttl now) = Some (JStr CONV_TOKEN_AUDIENCE)"
  "member ''iss'' (conv_claims cid owner ttl now) = Some (JStr CONV_TOKEN_ISSUER)"
  "member ''sub'' (conv_claims cid owner ttl now) = Some (JStr cid)"
  "member ''exp'' (conv_claims cid owner ttl now) = Some (JNum (now + (case ttl of None \<Rightarrow> DEFAULT_CONV_TOKEN_TTL_SECONDS | Some t \<Rightarrow> t)))"
  "member ''owner'' (conv_claims cid owner ttl now) = (case owner of Some (x # xs) \<Rightarrow> Some (JStr (x # xs)) | _ \<Rightarrow> None)"
  "conv_claims cid owner ttl now \<noteq> JNull"
  by (simp_all add: conv_claims_def split: option.splits list.splits)

lemma join_claims_members:
  "member ''aud'' (join_claims aud owner ttl now nonce) = Some (JStr aud)"
  "member ''owner'' (join_claims aud owner ttl now nonce) = Some (JStr owner)"
  "member ''exp'' (join_claims aud owner ttl now nonce) = Some (JNum (now + (case ttl of None \<Rightarrow> 600 | Some t \<Rightarrow> t)))"
  "join_claims aud owner ttl now nonce \<noteq> JNull"
  by (simp_all add: join_claims_def)

text \<open>
  A conversation token minted under a secret verifies under it, until it expires and not after, as
  the conversation and the owner it was minted for.
\<close>

theorem conv_token_roundtrip:
  assumes "mintConvToken c cid secret owner ttl now = Inr token"
    and "safe_times now (case ttl of None \<Rightarrow> DEFAULT_CONV_TOKEN_TTL_SECONDS | Some t \<Rightarrow> t)"
  shows "verifyConvToken c token secret later =
     Inr (if now + (case ttl of None \<Rightarrow> DEFAULT_CONV_TOKEN_TTL_SECONDS | Some t \<Rightarrow> t) \<le> later then Inl ''expired''
          else Inr (cid, case owner of Some (x # xs) \<Rightarrow> Some (JStr (x # xs)) | _ \<Rightarrow> None))"
proof -
  have t: "token = signHs256 c (conv_claims cid owner ttl now) secret" "cid \<noteq> []" "secret \<noteq> []"
    using assms(1) by (auto simp: mintConvToken_def split: if_splits)
  have v: "verifyHs256 c token secret = Inr (conv_claims cid owner ttl now)"
    unfolding t(1) by (rule verify_signed [OF conv_claims_readable [OF assms(2)]])
  obtain x xs where cid: "cid = x # xs" using t(2) by (cases cid) auto
  show ?thesis
    using t(3) by (auto simp: verifyConvToken_def v conv_claims_members is_str_def lapsed_def cid split: option.splits list.splits)
qed

definition demo_crypto :: crypto where
  "demo_crypto = \<lparr>hmac = (\<lambda>k d. take 4 (k @ d)), lenient = (\<lambda>s. s), other_text = (\<lambda>s. s), dec_literals = (\<lambda>_. None), dec_le = (\<lambda>_ _. True)\<rparr>"

theorem conv_token_roundtrip_witness:
  "\<exists>token. mintConvToken demo_crypto ''thread-1'' ''s3cret'' (Some ''ada'') None 1700000000 = Inr token
     \<and> verifyConvToken demo_crypto token ''s3cret'' 1700000500 = Inr (Inr (''thread-1'', Some (JStr ''ada'')))
     \<and> verifyConvToken demo_crypto token ''s3cret'' 1800000000 = Inr (Inl ''expired'')"
proof -
  obtain token where t: "mintConvToken demo_crypto ''thread-1'' ''s3cret'' (Some ''ada'') None 1700000000 = Inr token"
    by (simp add: mintConvToken_def)
  have "safe_times 1700000000 (case (None :: int option) of None \<Rightarrow> DEFAULT_CONV_TOKEN_TTL_SECONDS | Some t \<Rightarrow> t)"
    by (simp add: safe_times_def DEFAULT_CONV_TOKEN_TTL_SECONDS_def)
  then show ?thesis using conv_token_roundtrip [OF t] t by (simp add: DEFAULT_CONV_TOKEN_TTL_SECONDS_def)
qed

text \<open>How long a join token minted with a lifetime lasts.\<close>

definition join_lifetime :: "int option \<Rightarrow> int" where
  "join_lifetime ttl = (case ttl of None \<Rightarrow> 600 | Some t \<Rightarrow> t)"

text \<open>
  C21 No token stands in for another, though all are signed with the same function and may share a
  secret, and whatever lifetimes they were minted with: a conversation token is refused wherever a join
  token is checked, by the agent-host and by the controller, and a join token of either is refused as a
  conversation token. The controller accepts the join tokens of both, the agent-host only its own, each
  as the claims it was minted with, until it expires and not after.
\<close>

theorem tokens_not_interchangeable:
  assumes "safe_times now (join_lifetime ttl)"
    and "safe_times now (case cttl of None \<Rightarrow> DEFAULT_CONV_TOKEN_TTL_SECONDS | Some t \<Rightarrow> t)"
    and "user \<noteq> []" and "mintConvToken c cid secret owner cttl now = Inr conv"
  shows "verifyJoinToken c conv secret t = Inr (Inl ''wrong audience'')
    \<and> byoc_verifyJoinToken c conv secret t = Inr (Inl ''wrong audience'')
    \<and> verifyConvToken c (mintJoinToken c user secret ttl now nonce) secret t = Inr (Inl ''wrong audience'')
    \<and> verifyConvToken c (byoc_mintJoinToken c user secret ttl now nonce) secret t = Inr (Inl ''wrong audience'')
    \<and> verifyJoinToken c (byoc_mintJoinToken c user secret ttl now nonce) secret t = Inr (Inl ''wrong audience'')
    \<and> verifyJoinToken c (mintJoinToken c user secret ttl now nonce) secret t
        = Inr (if now + join_lifetime ttl \<le> t then Inl ''expired'' else Inr (join_claims REMOTE_AGENT user ttl now nonce))
    \<and> byoc_verifyJoinToken c (mintJoinToken c user secret ttl now nonce) secret t
        = Inr (if now + join_lifetime ttl \<le> t then Inl ''expired'' else Inr (join_claims REMOTE_AGENT user ttl now nonce))
    \<and> byoc_verifyJoinToken c (byoc_mintJoinToken c user secret ttl now nonce) secret t
        = Inr (if now + join_lifetime ttl \<le> t then Inl ''expired'' else Inr (join_claims BYOC_AUDIENCE user ttl now nonce))"
proof -
  have mint: "secret \<noteq> []" "conv = signHs256 c (conv_claims cid owner cttl now) secret"
    using assms(4) by (auto simp: mintConvToken_def split: if_splits)
  have conv: "verifyHs256 c conv secret = Inr (conv_claims cid owner cttl now)"
    unfolding mint(2) by (rule verify_signed [OF conv_claims_readable [OF assms(2)]])
  have join: "verifyHs256 c (signHs256 c (join_claims aud user ttl now nonce) secret) secret = Inr (join_claims aud user ttl now nonce)" for aud
    using verify_signed [OF join_claims_readable [of now ttl]] assms(1) by (simp add: join_lifetime_def)
  note aud = CONV_TOKEN_AUDIENCE_def REMOTE_AGENT_def BYOC_AUDIENCE_def ACCEPTED_AUDIENCES_def
  show ?thesis
    using mint(1) assms(3)
    by (auto simp: verifyJoinToken_def byoc_verifyJoinToken_def join_check_def conv verifyConvToken_def mintJoinToken_def
        byoc_mintJoinToken_def join conv_claims_members join_claims_members is_str_def aud no_string_def lapsed_def join_lifetime_def
        split: list.splits)
qed

theorem tokens_not_interchangeable_witness:
  "\<exists>conv. mintConvToken demo_crypto ''t1'' ''s'' None None 1700000000 = Inr conv
     \<and> byoc_verifyJoinToken demo_crypto conv ''s'' 1700000100 = Inr (Inl ''wrong audience'')
     \<and> byoc_verifyJoinToken demo_crypto (mintJoinToken demo_crypto ''ada'' ''s'' (Some 900) 1700000000 ''n'') ''s'' 1700000800
         = Inr (Inr (join_claims REMOTE_AGENT ''ada'' (Some 900) 1700000000 ''n''))"
proof -
  obtain conv where t: "mintConvToken demo_crypto ''t1'' ''s'' None None 1700000000 = Inr conv"
    by (simp add: mintConvToken_def)
  have s: "safe_times 1700000000 (join_lifetime (Some 900))"
    "safe_times 1700000000 (case (None :: int option) of None \<Rightarrow> DEFAULT_CONV_TOKEN_TTL_SECONDS | Some t \<Rightarrow> t)"
    by (simp_all add: safe_times_def DEFAULT_CONV_TOKEN_TTL_SECONDS_def join_lifetime_def)
  show ?thesis
    using tokens_not_interchangeable [OF s _ t, of "''ada''" 1700000100 "''n''"]
      tokens_not_interchangeable [OF s _ t, of "''ada''" 1700000800 "''n''"] t by (simp add: join_lifetime_def)
qed

end
