(* ===== verification/Byoc_Registry.thy ===== *)
theory Byoc_Registry
  imports Tokens
begin

text \<open>
  Who owns which container socket: the controller's session registry
  (\<^verbatim>\<open>byoc-controller/src/sessionRegistry.ts\<close>). A socket is a number, compared by identity as the code
  does. The fresh session id of an operation (\<^verbatim>\<open>randomUUID\<close>) is its argument, and the calls into the
  durable store and the closes of superseded sockets are recorded in order.
\<close>

subsection \<open>State\<close>

record reg_session =
  rs_owner :: string
  rs_socket :: "nat option"

datatype store_call = PutRow string string | SetStatus string bool

record registry =
  rg_sessions :: "(string, reg_session) js_map"
  rg_byOwner :: "(string, string) js_map"
  rg_store :: "store_call list"
  rg_closed :: "(nat \<times> int \<times> string) list"

definition CLOSE_SUPERSEDED :: int where "CLOSE_SUPERSEDED = 4002"

definition createSessionRegistry :: registry where
  "createSessionRegistry = \<lparr>rg_sessions = [], rg_byOwner = [], rg_store = [], rg_closed = []\<rparr>"

record resolved_session =
  vs_sessionId :: string
  vs_owner :: string
  vs_socket :: "nat option"
  vs_online :: bool

definition resolveBySession :: "registry \<Rightarrow> string \<Rightarrow> resolved_session option" where
  "resolveBySession r sid =
     map_option (\<lambda>s. \<lparr>vs_sessionId = sid, vs_owner = rs_owner s, vs_socket = rs_socket s, vs_online = (rs_socket s \<noteq> None)\<rparr>)
       (map_of (rg_sessions r) sid)"

definition resolveByOwner :: "registry \<Rightarrow> string \<Rightarrow> resolved_session option" where
  "resolveByOwner r user = (case map_of (rg_byOwner r) user of None \<Rightarrow> None | Some sid \<Rightarrow> if sid = [] then None else resolveBySession r sid)"

subsection \<open>Operations\<close>

definition registry_mint :: "string \<Rightarrow> string \<Rightarrow> registry \<Rightarrow> registry" where
  "registry_mint user uuid r =
     (let rest = (case map_of (rg_byOwner r) user of
                    None \<Rightarrow> rg_sessions r
                  | Some previous \<Rightarrow> if previous = [] then rg_sessions r else AList.delete previous (rg_sessions r))
      in r\<lparr>rg_sessions := AList.update uuid \<lparr>rs_owner = user, rs_socket = None\<rparr> rest,
           rg_byOwner := AList.update user uuid (rg_byOwner r),
           rg_store := rg_store r @ [PutRow user uuid]\<rparr>)"

text \<open>\<^verbatim>\<open>s.socket = socket\<close>, the previous one closed when it is another.\<close>

definition take_socket :: "string \<Rightarrow> reg_session \<Rightarrow> nat \<Rightarrow> registry \<Rightarrow> registry" where
  "take_socket sid s k r =
     r\<lparr>rg_sessions := AList.update sid (s\<lparr>rs_socket := Some k\<rparr>) (rg_sessions r),
       rg_closed := rg_closed r @ (case rs_socket s of
                                     Some old \<Rightarrow> if old = k then [] else [(old, CLOSE_SUPERSEDED, ''another container connected for this owner'')]
                                   | None \<Rightarrow> []),
       rg_store := rg_store r @ [SetStatus (rs_owner s) True]\<rparr>"

definition registry_attach :: "crypto \<Rightarrow> string \<Rightarrow> int \<Rightarrow> string \<Rightarrow> string \<Rightarrow> nat \<Rightarrow> registry \<Rightarrow> js_exn + (string + string) \<times> registry" where
  "registry_attach c secret now sid token k r =
     (case map_of (rg_sessions r) sid of
        None \<Rightarrow> Inr (Inl ''unknown session'', r)
      | Some s \<Rightarrow>
          (case byoc_verifyJoinToken c token secret now of
             Inl e \<Rightarrow> Inl e
           | Inr (Inl reason) \<Rightarrow> Inr (Inl reason, r)
           | Inr (Inr claims) \<Rightarrow>
               if \<not> is_str (rs_owner s) (member ''owner'' claims) then Inr (Inl ''owner mismatch'', r)
               else Inr (Inr sid, take_socket sid s k r)))"

definition registry_attachAuthenticated :: "string \<Rightarrow> string \<Rightarrow> nat \<Rightarrow> registry \<Rightarrow> (string \<times> registry) option" where
  "registry_attachAuthenticated user uuid k r =
     (let known = (case map_of (rg_byOwner r) user of None \<Rightarrow> [] | Some sid \<Rightarrow> sid);
          sid = (if known = [] then uuid else known);
          r' = (if known = []
                then r\<lparr>rg_sessions := AList.update uuid \<lparr>rs_owner = user, rs_socket = None\<rparr> (rg_sessions r),
                       rg_byOwner := AList.update user uuid (rg_byOwner r), rg_store := rg_store r @ [PutRow user uuid]\<rparr>
                else r)
      in case map_of (rg_sessions r') sid of
           None \<Rightarrow> None                                \<comment> \<open>\<^verbatim>\<open>sessions.get(sessionId)!\<close> is undefined: it throws\<close>
         | Some s \<Rightarrow> Some (sid, (take_socket sid s k r')\<lparr>rg_store := rg_store r' @ [SetStatus user True]\<rparr>))"

definition drop_socket :: "string \<Rightarrow> reg_session \<Rightarrow> registry \<Rightarrow> registry" where
  "drop_socket sid s r =
     r\<lparr>rg_sessions := AList.update sid (s\<lparr>rs_socket := None\<rparr>) (rg_sessions r), rg_store := rg_store r @ [SetStatus (rs_owner s) False]\<rparr>"

definition registry_detach :: "string \<Rightarrow> registry \<Rightarrow> registry" where
  "registry_detach sid r = (case map_of (rg_sessions r) sid of None \<Rightarrow> r | Some s \<Rightarrow> drop_socket sid s r)"

definition registry_detachIfCurrent :: "string \<Rightarrow> nat \<Rightarrow> registry \<Rightarrow> registry" where
  "registry_detachIfCurrent sid k r =
     (case map_of (rg_sessions r) sid of None \<Rightarrow> r | Some s \<Rightarrow> if rs_socket s \<noteq> Some k then r else drop_socket sid s r)"

subsection \<open>Histories\<close>

datatype registry_event =
    Mint string string
  | Attach int string string nat
  | AttachDevice string string nat
  | Detach string
  | DetachIf string nat

definition registry_step :: "crypto \<Rightarrow> string \<Rightarrow> registry_event \<Rightarrow> registry \<Rightarrow> registry" where
  "registry_step c secret e r =
     (case e of
        Mint user uuid \<Rightarrow> registry_mint user uuid r
      | Attach now sid token k \<Rightarrow> (case registry_attach c secret now sid token k r of Inl _ \<Rightarrow> r | Inr (_, r') \<Rightarrow> r')
      | AttachDevice user uuid k \<Rightarrow> (case registry_attachAuthenticated user uuid k r of None \<Rightarrow> r | Some (_, r') \<Rightarrow> r')
      | Detach sid \<Rightarrow> registry_detach sid r
      | DetachIf sid k \<Rightarrow> registry_detachIfCurrent sid k r)"

definition registry_run :: "crypto \<Rightarrow> string \<Rightarrow> registry_event list \<Rightarrow> registry" where
  "registry_run c secret es = fold (registry_step c secret) es createSessionRegistry"

text \<open>The ids drawn, which \<^verbatim>\<open>randomUUID\<close> never repeats.\<close>

primrec drawn :: "registry_event \<Rightarrow> string list" where
  "drawn (Mint user uuid) = [uuid]"
| "drawn (Attach now sid token k) = []"
| "drawn (AttachDevice user uuid k) = [uuid]"
| "drawn (Detach sid) = []"
| "drawn (DetachIf sid k) = []"

definition fresh_ids :: "registry_event list \<Rightarrow> bool" where
  "fresh_ids es \<longleftrightarrow> (let ids = concat (map drawn es) in distinct ids \<and> [] \<notin> set ids)"

text \<open>The socket \<open>k\<close> was presented with proof of being \<open>user\<close>'s container.\<close>

primrec proves :: "crypto \<Rightarrow> string \<Rightarrow> string \<Rightarrow> nat \<Rightarrow> registry_event \<Rightarrow> bool" where
  "proves c secret user k (Mint o1 uuid) = False"
| "proves c secret user k (Attach now sid token k1) \<longleftrightarrow>
     k1 = k \<and> (\<exists>claims. byoc_verifyJoinToken c token secret now = Inr (Inr claims) \<and> is_str user (member ''owner'' claims))"
| "proves c secret user k (AttachDevice o1 uuid k1) \<longleftrightarrow> k1 = k \<and> o1 = user"
| "proves c secret user k (Detach sid) = False"
| "proves c secret user k (DetachIf sid k1) = False"

subsection \<open>One session per owner, and only the owner's sockets\<close>

definition session_ok :: "crypto \<Rightarrow> string \<Rightarrow> registry_event list \<Rightarrow> (string \<Rightarrow> string option) \<Rightarrow> string \<Rightarrow> reg_session \<Rightarrow> bool" where
  "session_ok c secret es index sid s \<longleftrightarrow>
     index (rs_owner s) = Some sid \<and> sid \<in> set (concat (map drawn es))
     \<and> (\<forall>k. rs_socket s = Some k \<longrightarrow> (\<exists>e \<in> set es. proves c secret (rs_owner s) k e))"

definition owner_ok :: "registry_event list \<Rightarrow> (string \<Rightarrow> reg_session option) \<Rightarrow> string \<Rightarrow> string \<Rightarrow> bool" where
  "owner_ok es held user sid \<longleftrightarrow>
     sid \<noteq> [] \<and> sid \<in> set (concat (map drawn es)) \<and> (\<exists>s. held sid = Some s \<and> rs_owner s = user)"

definition registry_ok :: "crypto \<Rightarrow> string \<Rightarrow> registry_event list \<Rightarrow> registry \<Rightarrow> bool" where
  "registry_ok c secret es r \<longleftrightarrow>
     (\<forall>sid s. map_of (rg_sessions r) sid = Some s \<longrightarrow> session_ok c secret es (map_of (rg_byOwner r)) sid s)
     \<and> (\<forall>user sid. map_of (rg_byOwner r) user = Some sid \<longrightarrow> owner_ok es (map_of (rg_sessions r)) user sid)"

lemma registry_okE:
  assumes "registry_ok c secret es r"
  shows "map_of (rg_sessions r) sid = Some s \<Longrightarrow> session_ok c secret es (map_of (rg_byOwner r)) sid s"
    and "map_of (rg_byOwner r) user = Some sid \<Longrightarrow> owner_ok es (map_of (rg_sessions r)) user sid"
  using assms unfolding registry_ok_def by blast+

lemma registry_okD:
  assumes "registry_ok c secret es r"
  shows "map_of (rg_sessions r) sid = Some s \<Longrightarrow> map_of (rg_byOwner r) (rs_owner s) = Some sid"
    and "map_of (rg_sessions r) sid = Some s \<Longrightarrow> rs_socket s = Some k \<Longrightarrow> \<exists>e \<in> set es. proves c secret (rs_owner s) k e"
    and "map_of (rg_byOwner r) user = Some sid \<Longrightarrow> \<exists>s. map_of (rg_sessions r) sid = Some s \<and> rs_owner s = user"
    and "map_of (rg_byOwner r) user = Some sid \<Longrightarrow> sid \<noteq> []"
  using registry_okE [OF assms] unfolding session_ok_def owner_ok_def by blast+

lemma registry_ok_more: "registry_ok c secret es r \<Longrightarrow> registry_ok c secret (es @ [e]) r"
  unfolding registry_ok_def session_ok_def owner_ok_def by auto

lemma ok_new_session:
  assumes "registry_ok c secret es r" "uuid \<notin> set (concat (map drawn es))" "uuid \<noteq> []" "uuid \<in> set (drawn e)"
    and "map_of (rg_sessions r') = (map_of (rg_sessions r) |` {sid. map_of (rg_byOwner r) user \<noteq> Some sid})(uuid \<mapsto> \<lparr>rs_owner = user, rs_socket = None\<rparr>)"
    and "map_of (rg_byOwner r') = (map_of (rg_byOwner r))(user \<mapsto> uuid)"
  shows "registry_ok c secret (es @ [e]) r'"
proof -
  have one: "map_of (rg_byOwner r) u = Some sid \<Longrightarrow> map_of (rg_byOwner r) v = Some sid \<Longrightarrow> u = v" for u v sid
    using registry_okD(3) [OF assms(1), of u sid] registry_okD(3) [OF assms(1), of v sid] by auto
  have new: "map_of (rg_sessions r) uuid = None"
    using registry_okE(1) [OF assms(1)] assms(2) by (cases "map_of (rg_sessions r) uuid") (auto simp: session_ok_def)
  show ?thesis unfolding registry_ok_def
  proof (intro conjI allI impI)
    fix sid s assume "map_of (rg_sessions r') sid = Some s"
    then consider "sid = uuid" "s = \<lparr>rs_owner = user, rs_socket = None\<rparr>"
      | "sid \<noteq> uuid" "map_of (rg_sessions r) sid = Some s" "map_of (rg_byOwner r) user \<noteq> Some sid"
      by (auto simp: assms(5) restrict_map_def split: if_splits)
    then show "session_ok c secret (es @ [e]) (map_of (rg_byOwner r')) sid s"
      using assms(4,6) registry_okE(1) [OF assms(1)] by cases (auto simp: session_ok_def)
  next
    fix u sid assume "map_of (rg_byOwner r') u = Some sid"
    then consider "u = user" "sid = uuid" | "u \<noteq> user" "map_of (rg_byOwner r) u = Some sid" "sid \<noteq> uuid"
      using registry_okD(3) [OF assms(1), of u uuid] new by (auto simp: assms(6) split: if_splits)
    then show "owner_ok (es @ [e]) (map_of (rg_sessions r')) u sid"
      using assms(3-5) registry_okE(2) [OF assms(1)] one new by cases (auto simp: owner_ok_def restrict_map_def)
  qed
qed

lemma ok_socket:
  assumes "registry_ok c secret es r" "map_of (rg_sessions r) sid = Some s" "k = None \<or> (\<exists>e \<in> set es. proves c secret (rs_owner s) (the k) e)"
    and "map_of (rg_sessions r') = (map_of (rg_sessions r))(sid \<mapsto> s\<lparr>rs_socket := k\<rparr>)" "rg_byOwner r' = rg_byOwner r"
  shows "registry_ok c secret es r'"
proof -
  have "map_of (rg_byOwner r) user = Some sid \<Longrightarrow> rs_owner s = user" for user
    using registry_okD(3) [OF assms(1), of user sid] assms(2) by simp
  then show ?thesis using assms unfolding registry_ok_def session_ok_def owner_ok_def by auto
qed

lemma ok_take:
  assumes "registry_ok c secret (es @ [e]) r" "map_of (rg_sessions r) sid = Some s" "proves c secret (rs_owner s) k e"
  shows "registry_ok c secret (es @ [e]) (take_socket sid s k r)"
  using assms by (intro ok_socket [OF assms(1,2), of "Some k"]) (auto simp: take_socket_def update_conv')

lemma ok_drop:
  assumes "registry_ok c secret es r" "map_of (rg_sessions r) sid = Some s"
  shows "registry_ok c secret es (drop_socket sid s r)"
  using assms by (intro ok_socket [OF assms, of None]) (auto simp: drop_socket_def update_conv')

lemma ok_store [simp]: "registry_ok c secret es (r\<lparr>rg_store := x\<rparr>) = registry_ok c secret es r"
  by (simp add: registry_ok_def)

lemma ok_mint:
  assumes "registry_ok c secret es r" "uuid \<notin> set (concat (map drawn es))" "uuid \<noteq> []"
  shows "registry_ok c secret (es @ [Mint user uuid]) (registry_mint user uuid r)"
  using assms registry_okD(4) [OF assms(1), of user]
  by (intro ok_new_session [OF assms])
    (auto simp: registry_mint_def Let_def update_conv' delete_conv' restrict_map_def fun_eq_iff split: option.splits)

lemma ok_attach:
  assumes "registry_ok c secret es r" "registry_attach c secret now sid token k r = Inr (x, r')"
  shows "registry_ok c secret (es @ [Attach now sid token k]) r'"
  using assms registry_ok_more [OF assms(1), of "Attach now sid token k"]
  by (auto simp: registry_attach_def split: option.splits sum.splits if_splits intro!: ok_take)

lemma ok_attach_device:
  assumes "registry_ok c secret es r" "uuid \<notin> set (concat (map drawn es))" "uuid \<noteq> []"
    and "registry_attachAuthenticated user uuid k r = Some (sid, r')"
  shows "registry_ok c secret (es @ [AttachDevice user uuid k]) r'"
proof (cases "map_of (rg_byOwner r) user")
  case None
  let ?r = "r\<lparr>rg_sessions := AList.update uuid \<lparr>rs_owner = user, rs_socket = None\<rparr> (rg_sessions r),
              rg_byOwner := AList.update user uuid (rg_byOwner r), rg_store := rg_store r @ [PutRow user uuid]\<rparr>"
  have "registry_ok c secret (es @ [AttachDevice user uuid k]) ?r"
    using None by (intro ok_new_session [OF assms(1-3), where user = user]) (auto simp: update_conv' restrict_map_def fun_eq_iff)
  then show ?thesis using assms(3,4) None
    by (auto simp: registry_attachAuthenticated_def Let_def update_conv' intro!: ok_take)
next
  case (Some known)
  have "known \<noteq> []" using registry_okD(4) [OF assms(1) Some] .
  moreover have "\<And>s. map_of (rg_sessions r) known = Some s \<Longrightarrow> rs_owner s = user"
    using registry_okD(3) [OF assms(1) Some] by auto
  ultimately show ?thesis using assms(4) Some registry_ok_more [OF assms(1), of "AttachDevice user uuid k"]
    by (auto simp: registry_attachAuthenticated_def split: option.splits intro!: ok_take)
qed

lemma registry_ok_step:
  assumes "registry_ok c secret es r" "fresh_ids (es @ [e])"
  shows "registry_ok c secret (es @ [e]) (registry_step c secret e r)"
proof (cases e)
  case (Mint user uuid)
  then show ?thesis using assms ok_mint [OF assms(1), of uuid user] by (auto simp: registry_step_def fresh_ids_def)
next
  case (Attach now sid token k)
  then show ?thesis using assms registry_ok_more [OF assms(1), of e] ok_attach
    by (auto simp: registry_step_def split: sum.splits)
next
  case (AttachDevice user uuid k)
  then show ?thesis using assms registry_ok_more [OF assms(1), of e] ok_attach_device
    by (auto simp: registry_step_def fresh_ids_def split: option.splits)
next
  case (Detach sid)
  then show ?thesis using registry_ok_more [OF assms(1), of e] ok_drop
    by (auto simp: registry_step_def registry_detach_def split: option.splits)
next
  case (DetachIf sid k)
  then show ?thesis using registry_ok_more [OF assms(1), of e] ok_drop
    by (auto simp: registry_step_def registry_detachIfCurrent_def split: option.splits)
qed

lemma registry_ok_run: "fresh_ids es \<Longrightarrow> registry_ok c secret es (registry_run c secret es)"
proof (induction es rule: rev_induct)
  case Nil
  then show ?case by (simp add: registry_run_def createSessionRegistry_def registry_ok_def)
next
  case (snoc e es)
  have "fresh_ids es" using snoc.prems by (simp add: fresh_ids_def Let_def)
  then show ?case using registry_ok_step [OF snoc.IH snoc.prems] by (simp add: registry_run_def)
qed

text \<open>
  C15. In any history of the registry, an owner has at most one session and the two indexes agree, so a
  lookup by owner finds that owner's session and no other; and a session holds a socket only if that
  socket presented a join token that verified for the session's owner, or was attached as the owner a
  device signature proved.
\<close>

theorem registry_isolates_owners:
  assumes "fresh_ids es" "r = registry_run c secret es"
  shows "(\<forall>sid v. resolveBySession r sid = Some v \<longrightarrow> resolveByOwner r (vs_owner v) = Some v)
    \<and> (\<forall>user v. resolveByOwner r user = Some v \<longrightarrow> vs_owner v = user \<and> resolveBySession r (vs_sessionId v) = Some v)
    \<and> (\<forall>sid v k. resolveBySession r sid = Some v \<and> vs_socket v = Some k \<longrightarrow> (\<exists>e \<in> set es. proves c secret (vs_owner v) k e))"
proof -
  have ok: "registry_ok c secret es r" using registry_ok_run [OF assms(1)] assms(2) by simp
  note D = registry_okD [OF ok]
  show ?thesis
    using D(1) D(3) D(4)
    by (intro conjI allI impI)
      (fastforce simp: resolveBySession_def resolveByOwner_def dest: D(2) split: option.splits if_splits)+
qed

definition sample_registry_events :: "registry_event list" where
  "sample_registry_events = [Mint ''ada'' ''s1'', AttachDevice ''ada'' ''s2'' 7, Mint ''bob'' ''s3'']"

lemma sample_registry:
  "resolveByOwner (registry_run c x sample_registry_events) ''ada''
     = Some \<lparr>vs_sessionId = ''s1'', vs_owner = ''ada'', vs_socket = Some 7, vs_online = True\<rparr>"
  by (simp add: sample_registry_events_def registry_run_def registry_step_def createSessionRegistry_def registry_mint_def
      registry_attachAuthenticated_def take_socket_def Let_def resolveByOwner_def resolveBySession_def)

theorem registry_isolates_owners_witness:
  "\<exists>v. resolveByOwner (registry_run demo_crypto ''x'' sample_registry_events) ''ada'' = Some v
     \<and> resolveBySession (registry_run demo_crypto ''x'' sample_registry_events) (vs_sessionId v) = Some v"
proof -
  have "fresh_ids sample_registry_events" by (simp add: sample_registry_events_def fresh_ids_def)
  from registry_isolates_owners [OF this refl, of demo_crypto "''x''"] sample_registry show ?thesis by blast
qed

text \<open>
  Minting again replaces the owner's session but neither closes nor tells the container attached to it:
  that socket stays open, no session holds it, and the owner has no connected container.
\<close>

lemma remint_strands_socket:
  assumes "map_of (rg_byOwner r) user = Some old" "old \<noteq> []" "map_of (rg_sessions r) old = Some s" "rs_socket s = Some k" "uuid \<noteq> old" "uuid \<noteq> []"
  shows "rg_closed (registry_mint user uuid r) = rg_closed r \<and> resolveBySession (registry_mint user uuid r) old = None
    \<and> resolveByOwner (registry_mint user uuid r) user = Some \<lparr>vs_sessionId = uuid, vs_owner = user, vs_socket = None, vs_online = False\<rparr>"
  using assms by (simp add: registry_mint_def Let_def resolveBySession_def resolveByOwner_def update_conv' delete_conv')

end
