(* ===== verification/Byoc_Relay.thy ===== *)
theory Byoc_Relay
  imports Byoc_Registry
begin

text \<open>
  The controller's run relay (\<^verbatim>\<open>byoc-controller/src/runRelay.ts\<close>) and the two socket handlers that drive it
  (\<^verbatim>\<open>byoc-controller/src/shell.ts\<close>). A run object outlives its entry in the relay's table: the reader of its
  stream holds it. The table's entries are the runs that neither ended nor failed to be sent, in the
  order they were made. A container's message is its raw text, read with \<^verbatim>\<open>JSON.parse\<close>, and a send may
  throw.
\<close>

subsection \<open>State\<close>

record relay_run =
  rr_sessionId :: string
  rr_acpSessionId :: "json option"
  rr_callerId :: "json option"
  rr_queue :: "json list"
  rr_waiting :: bool          \<comment> \<open>a reader waits for the next frame\<close>
  rr_done :: bool
  rr_failure :: "string option"
  rr_yielded :: "json list"   \<comment> \<open>what the reader got\<close>
  rr_ended :: bool            \<comment> \<open>the reader's iteration is over\<close>

datatype awaited_kind = Permission | Exec

record relay =
  rl_runs :: "(string, relay_run) js_map"
  rl_awaiting :: "(json, string \<times> awaited_kind) js_map"
  rl_warnedLegacy :: "string set"
  rl_tunnel :: "(string \<times> json) list"   \<comment> \<open>calls of the tunnel subscriber\<close>
  rl_sent :: "(nat \<times> json) list"         \<comment> \<open>frames sent on a socket\<close>

definition createRunRelay :: relay where
  "createRunRelay = \<lparr>rl_runs = [], rl_awaiting = [], rl_warnedLegacy = {}, rl_tunnel = [], rl_sent = []\<rparr>"

definition in_table :: "relay_run \<Rightarrow> bool" where
  "in_table run \<longleftrightarrow> \<not> rr_done run \<and> rr_failure run = None"

subsection \<open>Runs\<close>

definition caller_frame :: "relay_run \<Rightarrow> json \<Rightarrow> json" where
  "caller_frame run f =
     (if \<not> falsy (rr_callerId run) \<and> is_str ''ack'' (member ''type'' f)
      then JObj (AList.update ''id'' (the (rr_callerId run)) (spread (Some f))) else f)"

definition push_frame :: "json \<Rightarrow> relay_run \<Rightarrow> relay_run" where
  "push_frame f run =
     (if rr_done run then run
      else let g = caller_frame run f
           in if rr_waiting run then run\<lparr>rr_waiting := False, rr_yielded := rr_yielded run @ [g]\<rparr>
              else run\<lparr>rr_queue := rr_queue run @ [g]\<rparr>)"

definition end_run :: "json \<Rightarrow> relay_run \<Rightarrow> relay_run" where
  "end_run terminal run =
     (let run' = (push_frame terminal run)\<lparr>rr_done := True\<rparr>
      in if rr_waiting run' then run'\<lparr>rr_waiting := False, rr_ended := True\<rparr> else run')"

definition finish :: "json \<Rightarrow> json \<Rightarrow> relay \<Rightarrow> relay" where
  "finish rid terminal s =
     s\<lparr>rl_runs := map (\<lambda>(i, run). (i, if JStr i = rid \<and> in_table run then end_run terminal run else run)) (rl_runs s)\<rparr>"

text \<open>The reader of a stream asks for its next frame.\<close>

definition read_run :: "relay_run \<Rightarrow> relay_run" where
  "read_run run =
     (if rr_ended run \<or> rr_waiting run then run
      else if rr_failure run \<noteq> None then run\<lparr>rr_ended := True\<rparr>
      else case rr_queue run of
        f # rest \<Rightarrow> run\<lparr>rr_queue := rest, rr_yielded := rr_yielded run @ [f]\<rparr>
      | [] \<Rightarrow> if rr_done run then run\<lparr>rr_ended := True\<rparr> else run\<lparr>rr_waiting := True\<rparr>)"

definition reader_next :: "string \<Rightarrow> relay \<Rightarrow> relay" where
  "reader_next rid s = s\<lparr>rl_runs := map (\<lambda>(i, run). (i, if i = rid then read_run run else run)) (rl_runs s)\<rparr>"

subsection \<open>Operations\<close>

text \<open>\<open>throws k\<close> is the error of \<^verbatim>\<open>send\<close> on socket \<open>k\<close>, if it throws.\<close>

definition replyToContainer ::
  "(nat \<Rightarrow> string option) \<Rightarrow> registry \<Rightarrow> string \<Rightarrow> string \<Rightarrow> awaited_kind \<Rightarrow> json \<Rightarrow> relay \<Rightarrow> (string + unit) \<times> relay" where
  "replyToContainer throws r sid rid kind f s =
     (if map_of (rl_awaiting s) (JStr rid) \<noteq> Some (sid, kind)
      then (Inl (''unknown '' @ (case kind of Permission \<Rightarrow> ''permission'' | Exec \<Rightarrow> ''exec'') @ '' '' @ rid), s)
      else case resolveBySession r sid of
        None \<Rightarrow> (Inl ''container not connected'', s)
      | Some v \<Rightarrow>
          (case vs_socket v of
             None \<Rightarrow> (Inl ''container not connected'', s)
           | Some k \<Rightarrow>
               let s' = s\<lparr>rl_awaiting := AList.delete (JStr rid) (rl_awaiting s)\<rparr>
               in case throws k of
                    Some e \<Rightarrow> (Inl (''send failed: '' @ e), s')
                  | None \<Rightarrow> (Inr (), s'\<lparr>rl_sent := rl_sent s' @ [(k, f)]\<rparr>)))"

text \<open>An answer that is \<^verbatim>\<open>undefined\<close> leaves no payload in the frame.\<close>

definition relay_answerPermission ::
  "(nat \<Rightarrow> string option) \<Rightarrow> registry \<Rightarrow> string \<Rightarrow> string \<Rightarrow> json option \<Rightarrow> relay \<Rightarrow> (string + unit) \<times> relay" where
  "relay_answerPermission throws r sid pid answer s =
     replyToContainer throws r sid pid Permission
       (case answer of Some a \<Rightarrow> wire_frame ''acp'' ''ack'' (Some pid) a
        | None \<Rightarrow> JObj [(''ch'', JStr ''acp''), (''type'', JStr ''ack''), (''id'', JStr pid)]) s"

definition answerExec ::
  "(nat \<Rightarrow> string option) \<Rightarrow> registry \<Rightarrow> string \<Rightarrow> string \<Rightarrow> json \<Rightarrow> relay \<Rightarrow> (string + unit) \<times> relay" where
  "answerExec throws r sid xid payload s =
     replyToContainer throws r sid xid Exec (wire_frame ''exec'' ''exec_result'' (Some xid) payload) s"

definition answerTunnel :: "(nat \<Rightarrow> string option) \<Rightarrow> registry \<Rightarrow> string \<Rightarrow> json \<Rightarrow> relay \<Rightarrow> (string + unit) \<times> relay" where
  "answerTunnel throws r sid f s =
     (case resolveBySession r sid of
        None \<Rightarrow> (Inl (''container not connected (session '' @ sid @ '')''), s)
      | Some v \<Rightarrow>
          (case vs_socket v of
             None \<Rightarrow> (Inl (''container not connected (session '' @ sid @ '')''), s)
           | Some k \<Rightarrow>
               (case throws k of
                  Some e \<Rightarrow> (Inl (''send failed: '' @ e), s)
                | None \<Rightarrow> (Inr (), s\<lparr>rl_sent := rl_sent s @ [(k, f)]\<rparr>))))"

definition new_run :: "string \<Rightarrow> json option \<Rightarrow> json option \<Rightarrow> string option \<Rightarrow> relay_run" where
  "new_run sid acp callerId failure =
     \<lparr>rr_sessionId = sid, rr_acpSessionId = acp, rr_callerId = callerId, rr_queue = [], rr_waiting = False,
      rr_done = False, rr_failure = failure, rr_yielded = [], rr_ended = False\<rparr>"

definition relay_request ::
  "(nat \<Rightarrow> string option) \<Rightarrow> registry \<Rightarrow> string \<Rightarrow> string \<Rightarrow> json \<Rightarrow> json \<Rightarrow> json option \<Rightarrow> relay \<Rightarrow> relay" where
  "relay_request throws r uuid sid ty payload callerId s =
     (let acp = (if ty = JStr ''prompt'' then member ''sessionId'' payload else None);
          (failure, sends) =
            (case resolveBySession r sid of
               None \<Rightarrow> (Some (''unknown session '' @ sid), [])
             | Some v \<Rightarrow>
                 (case vs_socket v of
                    None \<Rightarrow> (Some (''container not connected (session '' @ sid @ '' is offline)''), [])
                  | Some k \<Rightarrow>
                      (case throws k of
                         Some e \<Rightarrow> (Some (''send failed: '' @ e), [])
                       | None \<Rightarrow> (None, [(k, JObj [(''ch'', JStr ''acp''), (''type'', ty), (''id'', JStr uuid), (''payload'', payload)])]))))
      in s\<lparr>rl_runs := rl_runs s @ [(uuid, new_run sid acp callerId failure)], rl_sent := rl_sent s @ sends\<rparr>)"

text \<open>\<^verbatim>\<open>v?.k\<close>\<close>

definition opt_member :: "string \<Rightarrow> json option \<Rightarrow> json option" where
  "opt_member k v = (case v of None \<Rightarrow> None | Some x \<Rightarrow> member k x)"

definition route_key :: "json \<Rightarrow> json option" where
  "route_key f =
     (let payload = member ''payload'' f
      in nullish (member ''sid'' f) (nullish (opt_member ''sessionId'' payload) (opt_member ''sessionId'' (opt_member ''request'' payload))))"

definition matches :: "string \<Rightarrow> json \<Rightarrow> relay_run \<Rightarrow> bool" where
  "matches sid f run \<longleftrightarrow>
     in_table run \<and> rr_sessionId run = sid
     \<and> (falsy (route_key f) \<or> by_value (the (route_key f)) \<and> rr_acpSessionId run = route_key f)"

definition awaited :: "json \<Rightarrow> js_exn + awaited_kind option" where
  "awaited f =
     (if falsy (member ''id'' f) then Inr None
      else if is_str ''permission_request'' (member ''type'' f) then Inr (Some Permission)
      else case call_startsWith (member ''type'' f) ''exec_'' of
        Inl e \<Rightarrow> Inl e
      | Inr True \<Rightarrow> Inr (Some Exec)
      | Inr False \<Rightarrow> (case call_startsWith (member ''type'' f) ''fs_'' of Inl e \<Rightarrow> Inl e | Inr b \<Rightarrow> Inr (if b then Some Exec else None)))"

definition in_session :: "string \<Rightarrow> relay \<Rightarrow> relay_run list" where
  "in_session sid s = filter (\<lambda>run. in_table run \<and> rr_sessionId run = sid) (map snd (rl_runs s))"

definition container_frame :: "string \<Rightarrow> json \<Rightarrow> relay \<Rightarrow> js_exn + relay" where
  "container_frame sid f s =
     (if f = JNull then Inl TypeError
      else if is_str ''tunnel'' (member ''ch'' f) then Inr (s\<lparr>rl_tunnel := rl_tunnel s @ [(sid, f)]\<rparr>)
      else if is_str ''ack'' (member ''type'' f) \<and> \<not> falsy (member ''id'' f) then Inr (finish (the (member ''id'' f)) f s)
      else case awaited f of
        Inl e \<Rightarrow> Inl e
      | Inr k \<Rightarrow>
          Inr (s\<lparr>rl_awaiting := (case k of None \<Rightarrow> rl_awaiting s
                                 | Some kind \<Rightarrow> AList.update (the (member ''id'' f)) (sid, kind) (rl_awaiting s)),
                 rl_warnedLegacy := rl_warnedLegacy s \<union> (if falsy (route_key f) \<and> 1 < length (in_session sid s) then {sid} else {}),
                 rl_runs := map (\<lambda>(i, run). (i, if matches sid f run then push_frame f run else run)) (rl_runs s)\<rparr>))"

definition onContainerFrame :: "(string \<Rightarrow> json option) \<Rightarrow> string \<Rightarrow> string \<Rightarrow> relay \<Rightarrow> js_exn + relay" where
  "onContainerFrame dec sid raw s =
     (case json_parse dec raw of None \<Rightarrow> Inr s | Some f \<Rightarrow> container_frame sid f s)"

definition gone_ack :: "string \<Rightarrow> json" where
  "gone_ack rid = wire_frame ''acp'' ''ack'' (Some rid) (JObj [(''error'', JStr ''container disconnected mid-run'')])"

definition onContainerGone :: "string \<Rightarrow> relay \<Rightarrow> relay" where
  "onContainerGone sid s =
     s\<lparr>rl_awaiting := filter (\<lambda>(_, (owner, _)). owner \<noteq> sid) (rl_awaiting s),
       rl_runs := map (\<lambda>(i, run). (i, if in_table run \<and> rr_sessionId run = sid then end_run (gone_ack i) run else run)) (rl_runs s)\<rparr>"

subsection \<open>The sockets\<close>

record controller =
  ct_registry :: registry
  ct_relay :: relay

text \<open>\<^verbatim>\<open>ws.on("close")\<close>: end the session's runs, then release the socket.\<close>

definition on_socket_close :: "string \<Rightarrow> nat \<Rightarrow> controller \<Rightarrow> controller" where
  "on_socket_close sid k ct =
     ct\<lparr>ct_relay := onContainerGone sid (ct_relay ct), ct_registry := registry_detachIfCurrent sid k (ct_registry ct)\<rparr>"

text \<open>\<^verbatim>\<open>ws.on("message")\<close>: an exception is the process's.\<close>

definition on_socket_message :: "(string \<Rightarrow> json option) \<Rightarrow> string \<Rightarrow> string \<Rightarrow> controller \<Rightarrow> js_exn + controller" where
  "on_socket_message dec sid raw ct =
     (case onContainerFrame dec sid raw (ct_relay ct) of Inl e \<Rightarrow> Inl e | Inr s \<Rightarrow> Inr (ct\<lparr>ct_relay := s\<rparr>))"

subsection \<open>Steps\<close>

text \<open>One event of the controller; the registry and the sockets are whatever they are at that moment.\<close>

inductive relay_step :: "relay \<Rightarrow> relay \<Rightarrow> bool" where
  request: "uuid \<notin> fst ` set (rl_runs s) \<Longrightarrow> relay_step s (relay_request throws r uuid sid ty payload callerId s)"
| frame: "container_frame sid f s = Inr s' \<Longrightarrow> relay_step s s'"
| gone: "relay_step s (onContainerGone sid s)"
| reader: "relay_step s (reader_next rid s)"
| permission: "relay_step s (snd (relay_answerPermission throws r sid pid answer s))"
| exec: "relay_step s (snd (answerExec throws r sid xid payload s))"
| tunnel: "relay_step s (snd (answerTunnel throws r sid f s))"

inductive relay_reached :: "relay \<Rightarrow> bool" where
  start: "relay_reached createRunRelay"
| step: "relay_reached s \<Longrightarrow> relay_step s s' \<Longrightarrow> relay_reached s'"

definition given :: "relay_run \<Rightarrow> json list" where
  "given run = rr_yielded run @ rr_queue run"

definition run_ok :: "relay_run \<Rightarrow> bool" where
  "run_ok run \<longleftrightarrow>
     (rr_waiting run \<longrightarrow> rr_queue run = [] \<and> \<not> rr_done run \<and> \<not> rr_ended run)
     \<and> (rr_ended run \<longrightarrow> rr_failure run \<noteq> None \<or> rr_done run \<and> rr_queue run = [])
     \<and> (rr_done run \<longrightarrow> given run \<noteq> [] \<and> is_str ''ack'' (member ''type'' (last (given run))))"

lemma caller_frame_type [simp]: "is_str ''ack'' (member ''type'' (caller_frame run f)) = is_str ''ack'' (member ''type'' f)"
  by (cases f) (auto simp: caller_frame_def is_str_def update_conv')

lemma run_ok_push: "run_ok run \<Longrightarrow> run_ok (push_frame f run)"
  by (auto simp: run_ok_def push_frame_def Let_def given_def)

lemma run_ok_end: "run_ok run \<Longrightarrow> in_table run \<Longrightarrow> is_str ''ack'' (member ''type'' f) \<Longrightarrow> run_ok (end_run f run)"
  by (auto simp: run_ok_def push_frame_def Let_def given_def end_run_def in_table_def)

lemma gone_ack_type [simp]: "is_str ''ack'' (member ''type'' (gone_ack i))"
  by (simp add: gone_ack_def is_str_def)

definition all_runs :: "(relay_run \<Rightarrow> bool) \<Rightarrow> relay \<Rightarrow> bool" where
  "all_runs P s \<longleftrightarrow> (\<forall>(i, run) \<in> set (rl_runs s). P run)"

lemma all_runs_map:
  "all_runs P s \<Longrightarrow> (\<And>i run. P run \<Longrightarrow> P (g i run)) \<Longrightarrow> rl_runs s' = map (\<lambda>(i, run). (i, g i run)) (rl_runs s) \<Longrightarrow> all_runs P s'"
  by (auto simp: all_runs_def)

lemma all_runs_same: "all_runs P s \<Longrightarrow> rl_runs s' = rl_runs s \<Longrightarrow> all_runs P s'"
  by (simp add: all_runs_def)

lemma reply_runs [simp]: "rl_runs (snd (replyToContainer throws r sid rid kind f s)) = rl_runs s"
  by (auto simp: replyToContainer_def Let_def split: option.splits)

lemma tunnel_runs [simp]: "rl_runs (snd (answerTunnel throws r sid f s)) = rl_runs s"
  by (auto simp: answerTunnel_def split: option.splits)

lemma run_ok_frame: "all_runs run_ok s \<Longrightarrow> container_frame sid f s = Inr s' \<Longrightarrow> all_runs run_ok s'"
  by (auto simp: container_frame_def finish_def run_ok_push run_ok_end
      intro: all_runs_same all_runs_map [where g = "\<lambda>i run. if JStr i = the (member ''id'' f) \<and> in_table run then end_run f run else run"]
        all_runs_map [where g = "\<lambda>i run. if matches sid f run then push_frame f run else run"]
      split: if_splits sum.splits)

lemma run_ok_step:
  assumes "relay_step s s'" "all_runs run_ok s"
  shows "all_runs run_ok s'"
  using assms
proof cases
  case (request uuid throws r sid ty payload callerId)
  then show ?thesis using assms(2) by (auto simp: relay_request_def all_runs_def new_run_def run_ok_def Let_def split: prod.splits)
next
  case (frame sid f)
  then show ?thesis using assms(2) run_ok_frame by blast
next
  case (gone sid)
  then show ?thesis using assms(2)
    by (auto simp: onContainerGone_def run_ok_end
        intro: all_runs_map [where g = "\<lambda>i run. if in_table run \<and> rr_sessionId run = sid then end_run (gone_ack i) run else run"])
next
  case (reader rid)
  then show ?thesis using assms(2)
    by (auto simp: reader_next_def read_run_def all_runs_def run_ok_def given_def split: list.splits if_splits)
qed (simp_all add: relay_answerPermission_def answerExec_def all_runs_def)

lemma run_ok_reached: "relay_reached s \<Longrightarrow> all_runs run_ok s"
  by (induction rule: relay_reached.induct) (simp add: createRunRelay_def all_runs_def, blast intro: run_ok_step)

subsection \<open>Every stream ends\<close>

lemma map_of_runs: "map_of (map (\<lambda>(i, run). (i, g i run)) runs) rid = map_option (g rid) (map_of runs rid)"
  by (induction runs) auto

lemma reads_run: "map_of (rl_runs ((reader_next rid ^^ n) s)) rid = map_option (read_run ^^ n) (map_of (rl_runs s) rid)"
  by (induction n) (auto simp: reader_next_def map_of_runs option.map_comp o_def option.map_ident id_def)

lemma read_done:
  assumes "rr_done run" "rr_failure run = None" "\<not> rr_waiting run" "rr_ended run \<longrightarrow> rr_queue run = []" "length (rr_queue run) < n"
  shows "rr_ended ((read_run ^^ n) run) \<and> rr_yielded ((read_run ^^ n) run) = given run"
  using assms
proof (induction n arbitrary: run)
  case (Suc n)
  have step: "(read_run ^^ Suc n) run = (read_run ^^ n) (read_run run)" by (simp add: funpow_swap1)
  show ?case
  proof (cases "rr_queue run")
    case Nil
    have stay: "(read_run ^^ m) x = x" if "rr_ended x" for m x using that by (induction m) (auto simp: read_run_def)
    have "rr_ended (read_run run)" "rr_yielded (read_run run) = given run"
      using Suc.prems Nil by (auto simp: read_run_def given_def)
    then show ?thesis unfolding step by (simp add: stay)
  next
    case (Cons f rest)
    then have "read_run run = run\<lparr>rr_queue := rest, rr_yielded := rr_yielded run @ [f]\<rparr>" using Suc.prems by (auto simp: read_run_def)
    then show ?thesis unfolding step using Suc.IH [of "read_run run"] Suc.prems Cons by (simp add: given_def)
  qed
qed simp

lemma gone_done:
  assumes "run_ok run" "rr_failure run = None"
  shows "let run' = (if in_table run \<and> rr_sessionId run = rr_sessionId run then end_run (gone_ack i) run else run)
         in rr_done run' \<and> rr_failure run' = None \<and> \<not> rr_waiting run' \<and> (rr_ended run' \<longrightarrow> rr_queue run' = [])
            \<and> length (rr_queue run') \<le> Suc (length (rr_queue run)) \<and> run_ok run' \<and> (\<exists>more. given run' = given run @ more)"
  using assms run_ok_end [OF assms(1), of "gone_ack i"]
  by (auto simp: Let_def in_table_def end_run_def push_frame_def run_ok_def given_def)

text \<open>
  C16. When a container's connection ends, no stream of its session is left open: a reader of any run that
  was sent gets every frame the run was given, in order, then an ack, and after at most two more reads
  than there were frames waiting its iteration is over.
\<close>

theorem relay_streams_end:
  assumes "relay_reached s" "map_of (rl_runs s) rid = Some run" "rr_failure run = None"
  shows "\<exists>run'. map_of (rl_runs ((reader_next rid ^^ (length (rr_queue run) + 2)) (onContainerGone (rr_sessionId run) s))) rid = Some run'
    \<and> rr_ended run' \<and> (\<exists>more. rr_yielded run' = given run @ more) \<and> rr_yielded run' \<noteq> []
    \<and> is_str ''ack'' (member ''type'' (last (rr_yielded run')))"
proof -
  define run1 where "run1 = (if in_table run \<and> rr_sessionId run = rr_sessionId run then end_run (gone_ack rid) run else run)"
  have "run_ok run" using run_ok_reached [OF assms(1)] map_of_SomeD [OF assms(2)] by (auto simp: all_runs_def)
  note D = gone_done [OF this assms(3), of rid, unfolded Let_def, folded run1_def]
  have "map_of (rl_runs (onContainerGone (rr_sessionId run) s)) rid = Some run1"
    using assms(2) by (simp add: onContainerGone_def map_of_runs run1_def)
  moreover have "rr_ended ((read_run ^^ (length (rr_queue run) + 2)) run1)
      \<and> rr_yielded ((read_run ^^ (length (rr_queue run) + 2)) run1) = given run1"
    using D by (intro read_done) auto
  ultimately show ?thesis unfolding reads_run using D by (auto simp: run_ok_def simp del: funpow.simps)
qed

definition demo_registry :: registry where
  "demo_registry = registry_run demo_crypto ''x'' [Mint ''ada'' ''s1'', AttachDevice ''ada'' ''s2'' 7]"

definition demo_relay :: relay where
  "demo_relay = relay_request (\<lambda>_. None) demo_registry ''r1'' ''s1'' (JStr ''prompt'') (JObj [(''sessionId'', JStr ''a1'')]) (Some (JStr ''c1'')) createRunRelay"

lemma demo_resolves:
  "resolveBySession demo_registry ''s1'' = Some \<lparr>vs_sessionId = ''s1'', vs_owner = ''ada'', vs_socket = Some 7, vs_online = True\<rparr>"
  by (simp add: demo_registry_def registry_run_def registry_step_def createSessionRegistry_def registry_mint_def
      registry_attachAuthenticated_def take_socket_def Let_def resolveBySession_def)

lemma demo_runs: "rl_runs demo_relay = [(''r1'', new_run ''s1'' (Some (JStr ''a1'')) (Some (JStr ''c1'')) None)]"
  by (simp add: demo_relay_def relay_request_def Let_def demo_resolves createRunRelay_def)

lemma demo_reached: "relay_reached demo_relay"
  unfolding demo_relay_def by (rule relay_reached.step [OF relay_reached.start relay_step.request]) (simp add: createRunRelay_def)

theorem relay_streams_end_witness:
  "\<exists>run'. map_of (rl_runs ((reader_next ''r1'' ^^ 2) (onContainerGone ''s1'' demo_relay))) ''r1'' = Some run' \<and> rr_ended run'"
  using relay_streams_end [OF demo_reached, of "''r1''" "new_run ''s1'' (Some (JStr ''a1'')) (Some (JStr ''c1'')) None"]
  by (auto simp: demo_runs new_run_def numeral_2_eq_2)

subsection \<open>Frames and answers\<close>

text \<open>
  A frame that names a conversation reaches only the runs of that conversation on the container it
  came from: any other run, and any run of another container's session, is as it was, and no frame but
  an ack ends a run.
\<close>

theorem keyed_frames_stay_apart:
  assumes "container_frame sid f s = Inr s'" "\<not> is_str ''ack'' (member ''type'' f)" "map_of (rl_runs s) rid = Some run"
    and "rr_sessionId run \<noteq> sid \<or> route_key f = Some key \<and> \<not> falsy (Some key) \<and> rr_acpSessionId run \<noteq> Some key"
  shows "map_of (rl_runs s') rid = Some run
    \<and> (\<forall>i other. map_of (rl_runs s) i = Some other \<longrightarrow> (\<exists>other'. map_of (rl_runs s') i = Some other' \<and> rr_done other' = rr_done other))"
  using assms by (auto simp: container_frame_def matches_def map_of_runs push_frame_def Let_def split: if_splits sum.splits)

definition demo_update :: json where
  "demo_update = JObj [(''ch'', JStr ''acp''), (''type'', JStr ''session_update''), (''sid'', JStr ''a2'')]"

theorem keyed_frames_stay_apart_witness:
  "\<exists>s'. container_frame ''s1'' demo_update demo_relay = Inr s'
     \<and> map_of (rl_runs s') ''r1'' = Some (new_run ''s1'' (Some (JStr ''a1'')) (Some (JStr ''c1'')) None)"
proof -
  have "\<exists>s'. container_frame ''s1'' demo_update demo_relay = Inr s'"
    by (simp add: container_frame_def demo_update_def awaited_def is_str_def)
  then show ?thesis
    using keyed_frames_stay_apart [of "''s1''" demo_update demo_relay _ "''r1''" "new_run ''s1'' (Some (JStr ''a1'')) (Some (JStr ''c1'')) None" "JStr ''a2''"]
    by (auto simp: demo_runs demo_update_def is_str_def route_key_def nullish_def new_run_def)
qed

text \<open>
  C24. An answer to a container is sent only while the container waits for it: it was asked for by the same
  session with the same kind of request, it goes to the socket that now holds the session, and a second
  answer to the same request is refused, whoever sends it.
\<close>

theorem answered_once:
  assumes "replyToContainer throws r sid rid kind f s = (Inr (), s')"
  shows "map_of (rl_awaiting s) (JStr rid) = Some (sid, kind)
    \<and> (\<exists>v k. resolveBySession r sid = Some v \<and> vs_socket v = Some k \<and> rl_sent s' = rl_sent s @ [(k, f)])
    \<and> (\<forall>throws2 r2 sid2 kind2 f2. \<exists>reason. replyToContainer throws2 r2 sid2 rid kind2 f2 s' = (Inl reason, s'))"
  using assms by (auto simp: replyToContainer_def Let_def delete_conv' split: if_splits option.splits)

definition demo_asked :: relay where
  "demo_asked = demo_relay\<lparr>rl_awaiting := [(JStr ''p1'', (''s1'', Permission))]\<rparr>"

theorem answered_once_witness:
  "\<exists>s'. replyToContainer (\<lambda>_. None) demo_registry ''s1'' ''p1'' Permission JNull demo_asked = (Inr (), s')
     \<and> (\<exists>reason. replyToContainer (\<lambda>_. None) demo_registry ''s1'' ''p1'' Permission JNull s' = (Inl reason, s'))"
proof -
  obtain s' where "replyToContainer (\<lambda>_. None) demo_registry ''s1'' ''p1'' Permission JNull demo_asked = (Inr (), s')"
    by (simp add: replyToContainer_def demo_asked_def demo_resolves)
  then show ?thesis using answered_once by blast
qed

subsection \<open>What the handlers do not guard\<close>

text \<open>A message that is \<^verbatim>\<open>null\<close>, or has an id and no type, throws out of the socket's handler.\<close>

lemma untyped_frame_throws: "x \<noteq> [] \<Longrightarrow> container_frame sid (JObj [(''id'', JStr x)]) s = Inl TypeError"
  by (cases x) (simp_all add: container_frame_def awaited_def is_str_def call_startsWith_def)

lemma null_frame_throws: "container_frame sid JNull s = Inl TypeError"
  by (simp add: container_frame_def)

text \<open>
  The close of a socket that a new one replaced ends the runs of the session all the same, those started
  on the new socket too: the registry tells the two sockets apart, the relay does not.
\<close>

lemma superseded_close_ends_new_run:
  assumes "map_of (rl_runs (ct_relay ct)) rid = Some run" "in_table run" "rr_sessionId run = sid"
    and "resolveBySession (ct_registry ct) sid = Some v" "vs_socket v = Some new" "old \<noteq> new"
  shows "resolveBySession (ct_registry (on_socket_close sid old ct)) sid = Some v
    \<and> map_of (rl_runs (ct_relay (on_socket_close sid old ct))) rid = Some (end_run (gone_ack rid) run)"
  using assms
  by (auto simp: on_socket_close_def onContainerGone_def map_of_runs registry_detachIfCurrent_def resolveBySession_def split: option.splits)

end
