(* ===== verification/Byoc_Devices.thy ===== *)
theory Byoc_Devices
  imports Async Tokens "HOL-Library.Multiset"
begin

text \<open>
  Device keys of the controller (\<^verbatim>\<open>byoc-controller/src/deviceAuth.ts\<close>) and the two device stores, in
  memory and in Postgres (\<^verbatim>\<open>byoc-controller/src/sessionStore.ts\<close>). The operations are asynchronous programs over the pending
  challenges and the clock, and their requests are the calls of the store. What a store promises is a
  locale: the rows as a multiset, since SQL gives them in no order.

  The parameters are the join token's verification, the type of a public key (\<^verbatim>\<open>createPublicKey\<close>, none
  when it does not parse) and the check of a signature. The key and the label of a registration are
  whatever JSON values the request had; how the Postgres driver turns one that is no string into a text
  parameter is a parameter too.
\<close>

subsection \<open>Rows and the store's interface\<close>

definition MAX_DEVICES_PER_OWNER :: nat where "MAX_DEVICES_PER_OWNER = 3"
definition CHALLENGE_TTL_SECONDS :: int where "CHALLENGE_TTL_SECONDS = 120"

record device_row =
  dr_id :: string
  dr_owner :: string
  dr_publicKey :: json
  dr_label :: "json option"
  dr_lastSeen :: int

datatype device_query =
    AddDevice device_row
  | ListByOwner string
  | GetById string
  | RemoveDevice string
  | TouchDevice string int

datatype device_answer = Rows "device_row list" | Row "device_row option" | Done

record device_state =
  dv_pending :: "(string, int) js_map"   \<comment> \<open>issued, unconsumed challenges\<close>
  dv_now :: int

datatype device_result =
    Registered string
  | Verified string string
  | Challenge string int
  | Devices "(string \<times> json option \<times> int) list"
  | OwnerOf "string option"
  | Refused string
  | Finished

type_synonym device_proc = "(device_state, device_query, device_answer, string, device_result) proc"

record key_check =
  kc_crypto :: crypto
  kc_secret :: string
  kc_type :: "json \<Rightarrow> string option option"
  kc_verify :: "string \<Rightarrow> json \<Rightarrow> string \<Rightarrow> bool"   \<comment> \<open>nonce, public key, signature; an exception is \<^const>\<open>False\<close>\<close>

subsection \<open>Operations\<close>

definition sweep :: "device_state \<Rightarrow> device_state" where
  "sweep s = s\<lparr>dv_pending := filter (\<lambda>(_, expiry). \<not> expiry \<le> dv_now s) (dv_pending s)\<rparr>"

definition answer_rows :: "device_answer \<Rightarrow> device_row list" where
  "answer_rows a = (case a of Rows rs \<Rightarrow> rs | _ \<Rightarrow> [])"

definition answer_row :: "device_answer \<Rightarrow> device_row option" where
  "answer_row a = (case a of Row r \<Rightarrow> r | _ \<Rightarrow> None)"

definition evicted :: "device_row list \<Rightarrow> device_row list" where
  "evicted existing =
     (if MAX_DEVICES_PER_OWNER \<le> length existing
      then take (length existing - MAX_DEVICES_PER_OWNER + 1) (sort_key dr_lastSeen existing) else [])"

definition store_device :: "string \<Rightarrow> json \<Rightarrow> json option \<Rightarrow> string \<Rightarrow> device_proc" where
  "store_device user pem label uuid =
     request (ListByOwner user) (\<lambda>a.
       for_each (\<lambda>d. request (RemoveDevice (dr_id d)) (\<lambda>_. Return Finished)) (evicted (answer_rows a))
         (Read (\<lambda>s. request (AddDevice \<lparr>dr_id = uuid, dr_owner = user, dr_publicKey = pem, dr_label = label, dr_lastSeen = dv_now s\<rparr>)
            (\<lambda>_. Return (Registered uuid)))))"

definition device_register :: "key_check \<Rightarrow> string \<Rightarrow> json \<Rightarrow> json option \<Rightarrow> string \<Rightarrow> device_proc" where
  "device_register kc token pem label uuid =
     Read (\<lambda>s.
       case byoc_verifyJoinToken (kc_crypto kc) token (kc_secret kc) (dv_now s) of
         Inl _ \<Rightarrow> Throw ''TypeError''
       | Inr (Inl reason) \<Rightarrow> Return (Refused (''join token rejected: '' @ reason))
       | Inr (Inr claims) \<Rightarrow>
           let user = (case member ''owner'' claims of Some (JStr u) \<Rightarrow> u | _ \<Rightarrow> [])
           in case kc_type kc pem of
                None \<Rightarrow> Return (Refused ''unparseable public key'')
              | Some t \<Rightarrow>
                  if t \<noteq> Some ''ed25519''
                  then Return (Refused (''expected an ed25519 key, got '' @ (case t of None \<Rightarrow> ''unknown'' | Some x \<Rightarrow> x)))
                  else store_device user pem label uuid)"

definition device_challenge :: "string \<Rightarrow> device_proc" where
  "device_challenge uuid =
     Write sweep (Read (\<lambda>s.
       Write (\<lambda>s. s\<lparr>dv_pending := AList.update uuid (dv_now s + CHALLENGE_TTL_SECONDS) (dv_pending s)\<rparr>)
         (Return (Challenge uuid (dv_now s + CHALLENGE_TTL_SECONDS)))))"

definition consume :: "string \<Rightarrow> device_state \<Rightarrow> device_state" where
  "consume nonce s = s\<lparr>dv_pending := AList.delete nonce (dv_pending s)\<rparr>"

definition device_verify :: "key_check \<Rightarrow> string \<Rightarrow> string \<Rightarrow> string \<Rightarrow> device_proc" where
  "device_verify kc deviceId nonce signature =
     Write sweep (Read (\<lambda>s.
       case map_of (dv_pending s) nonce of
         None \<Rightarrow> Return (Refused ''unknown or already-used nonce'')
       | Some expiry \<Rightarrow>
           if expiry \<le> dv_now s then Write (consume nonce) (Return (Refused ''challenge expired''))
           else request (GetById deviceId) (\<lambda>a.
             case answer_row a of
               None \<Rightarrow> Return (Refused ''unknown device'')
             | Some row \<Rightarrow>
                 Write (consume nonce)
                   (if \<not> kc_verify kc nonce (dr_publicKey row) signature
                    then Return (Refused ''signature does not match the device key'')
                    else Read (\<lambda>s. request (TouchDevice deviceId (dv_now s)) (\<lambda>_. Return (Verified (dr_owner row) deviceId)))))))"

definition device_deregister :: "string \<Rightarrow> string \<Rightarrow> device_proc" where
  "device_deregister user deviceId =
     request (GetById deviceId) (\<lambda>a.
       case answer_row a of
         None \<Rightarrow> Return Finished
       | Some row \<Rightarrow> if dr_owner row \<noteq> user then Return Finished else request (RemoveDevice deviceId) (\<lambda>_. Return Finished))"

definition device_listDevices :: "string \<Rightarrow> device_proc" where
  "device_listDevices user =
     request (ListByOwner user) (\<lambda>a.
       Return (Devices (sort_key (\<lambda>(_, _, seen). - seen) (map (\<lambda>r. (dr_id r, dr_label r, dr_lastSeen r)) (answer_rows a)))))"

definition device_ownerOf :: "string \<Rightarrow> device_proc" where
  "device_ownerOf deviceId =
     Await (GetById deviceId) (\<lambda>r. Return (OwnerOf (case r of Inl _ \<Rightarrow> None | Inr a \<Rightarrow> map_option dr_owner (answer_row a))))"

subsection \<open>The stores\<close>

definition memory_device_store :: "device_query \<Rightarrow> (string, device_row) js_map \<Rightarrow> (string + device_answer) \<times> (string, device_row) js_map" where
  "memory_device_store q rows =
     (case q of
        AddDevice d \<Rightarrow> (Inr Done, AList.update (dr_id d) d rows)
      | ListByOwner user \<Rightarrow> (Inr (Rows (filter (\<lambda>r. dr_owner r = user) (map snd rows))), rows)
      | GetById i \<Rightarrow> (Inr (Row (map_of rows i)), rows)
      | RemoveDevice i \<Rightarrow> (Inr Done, AList.delete i rows)
      | TouchDevice i at \<Rightarrow>
          (Inr Done, case map_of rows i of None \<Rightarrow> rows | Some r \<Rightarrow> AList.update i (r\<lparr>dr_lastSeen := at\<rparr>) rows))"

text \<open>
  The table \<^verbatim>\<open>remote_agent_devices\<close>: texts, the label the only column that may be NULL, and the id the
  primary key. A statement that would break a constraint, or store a text with a zero byte, is an error
  and changes nothing.
\<close>

record device_record =
  dc_id :: string
  dc_owner :: string
  dc_publicKey :: string
  dc_label :: "string option"
  dc_lastSeen :: int

definition device_toRow :: "device_record \<Rightarrow> device_row" where
  "device_toRow r =
     \<lparr>dr_id = dc_id r, dr_owner = dc_owner r, dr_publicKey = JStr (dc_publicKey r),
      dr_label = map_option JStr (dc_label r), dr_lastSeen = dc_lastSeen r\<rparr>"

definition text_param :: "(json \<Rightarrow> string) \<Rightarrow> json \<Rightarrow> string option" where
  "text_param driver v = (case v of JNull \<Rightarrow> None | JStr t \<Rightarrow> Some t | _ \<Rightarrow> Some (driver v))"

definition device_insert :: "(json \<Rightarrow> string) \<Rightarrow> device_row \<Rightarrow> device_record list \<Rightarrow> string + device_record" where
  "device_insert driver d rows =
     (case text_param driver (dr_publicKey d) of
        None \<Rightarrow> Inl ''null value in column''
      | Some pem \<Rightarrow>
          let label = Option.bind (dr_label d) (text_param driver)
          in if CHR 0x00 \<in> set (dr_id d @ dr_owner d @ pem @ (case label of None \<Rightarrow> [] | Some l \<Rightarrow> l))
             then Inl ''invalid byte sequence''
             else if dr_id d \<in> dc_id ` set rows then Inl ''duplicate key value''
             else Inr \<lparr>dc_id = dr_id d, dc_owner = dr_owner d, dc_publicKey = pem, dc_label = label, dc_lastSeen = dr_lastSeen d\<rparr>)"

definition pg_device_store :: "(json \<Rightarrow> string) \<Rightarrow> device_query \<Rightarrow> device_record list \<Rightarrow> (string + device_answer) \<times> device_record list" where
  "pg_device_store driver q rows =
     (case q of
        AddDevice d \<Rightarrow>
          (case device_insert driver d rows of Inl e \<Rightarrow> (Inl e, rows) | Inr r \<Rightarrow> (Inr Done, rows @ [r]))
      | ListByOwner user \<Rightarrow> (Inr (Rows (map device_toRow (filter (\<lambda>r. dc_owner r = user) rows))), rows)
      | GetById i \<Rightarrow> (Inr (Row (map_option device_toRow (List.find (\<lambda>r. dc_id r = i) rows))), rows)
      | RemoveDevice i \<Rightarrow> (Inr Done, filter (\<lambda>r. dc_id r \<noteq> i) rows)
      | TouchDevice i at \<Rightarrow> (Inr Done, map (\<lambda>r. if dc_id r = i then r\<lparr>dc_lastSeen := at\<rparr> else r) rows))"

subsection \<open>An operation on its own\<close>

text \<open>
  A program run to its end with a store that answers every request, nothing else running. The operations
  neither spawn nor join.
\<close>

primrec alone :: "('q \<Rightarrow> 'm \<Rightarrow> ('e + 'r) \<times> 'm) \<Rightarrow> ('s, 'q, 'r, 'e, 'v) proc \<Rightarrow> 's \<Rightarrow> 'm \<Rightarrow> (('e + 'v) \<times> 's \<times> 'm) option" where
  "alone f (Return v) s m = Some (Inr v, s, m)"
| "alone f (Throw e) s m = Some (Inl e, s, m)"
| "alone f (Read k) s m = alone f (k s) s m"
| "alone f (Write g p) s m = alone f p (g s) m"
| "alone f (Await q k) s m = alone f (k (fst (f q m))) s (snd (f q m))"
| "alone f (Spawn p k) s m = None"
| "alone f (Join n k) s m = None"

lemma evicted_split:
  "\<exists>kept. mset existing = mset (evicted existing) + mset kept \<and> length kept \<le> MAX_DEVICES_PER_OWNER - 1
     \<and> (\<forall>d \<in> set (evicted existing). \<forall>k \<in> set kept. dr_lastSeen d \<le> dr_lastSeen k)"
proof -
  let ?xs = "sort_key dr_lastSeen existing"
  define n where "n = (if MAX_DEVICES_PER_OWNER \<le> length existing then length existing - MAX_DEVICES_PER_OWNER + 1 else 0)"
  have e: "evicted existing = take n ?xs" by (simp add: evicted_def n_def)
  have "mset existing = mset (take n ?xs) + mset (drop n ?xs)" by (metis append_take_drop_id mset_append mset_sort)
  moreover have "length (drop n ?xs) \<le> MAX_DEVICES_PER_OWNER - 1" by (auto simp: n_def MAX_DEVICES_PER_OWNER_def)
  moreover have "sorted (map dr_lastSeen (take n ?xs @ drop n ?xs))" by (simp del: map_append)
  then have "\<forall>d \<in> set (take n ?xs). \<forall>k \<in> set (drop n ?xs). dr_lastSeen d \<le> dr_lastSeen k"
    by (simp add: sorted_append del: append_take_drop_id)
  ultimately show ?thesis unfolding e by blast
qed

lemma alone_request:
  "alone f (request q k) s m =
     (case fst (f q m) of Inl e \<Rightarrow> Some (Inl e, s, snd (f q m)) | Inr x \<Rightarrow> alone f (k x) s (snd (f q m)))"
  by (simp add: request_def split: sum.split)

subsection \<open>What a store promises\<close>

locale device_store =
  fixes handle :: "device_query \<Rightarrow> 'm \<Rightarrow> (string + device_answer) \<times> 'm" and rows :: "'m \<Rightarrow> device_row multiset"
    and valid :: "'m \<Rightarrow> bool" and stored :: "device_row \<Rightarrow> device_row option"   \<comment> \<open>what a new row is read back as, if the store takes it\<close>
  assumes list_law: "valid m \<Longrightarrow> \<exists>rs. handle (ListByOwner user) m = (Inr (Rows rs), m) \<and> mset rs = filter_mset (\<lambda>r. dr_owner r = user) (rows m)"
    and get_law: "valid m \<Longrightarrow> \<exists>r. handle (GetById i) m = (Inr (Row r), m) \<and> (\<forall>d. r = Some d \<longleftrightarrow> d \<in># rows m \<and> dr_id d = i)"
    and add_law: "valid m \<Longrightarrow> dr_id d \<notin># image_mset dr_id (rows m) \<Longrightarrow> stored d = Some d' \<Longrightarrow>
        \<exists>m' a. handle (AddDevice d) m = (Inr a, m') \<and> valid m' \<and> rows m' = add_mset d' (rows m)"
    and refuse_law: "valid m \<Longrightarrow> stored d = None \<Longrightarrow> \<exists>e. handle (AddDevice d) m = (Inl e, m)"
    and stored_keeps: "stored d = Some d' \<Longrightarrow> dr_id d' = dr_id d \<and> dr_owner d' = dr_owner d \<and> dr_lastSeen d' = dr_lastSeen d"
    and remove_law: "valid m \<Longrightarrow>
        \<exists>m' a. handle (RemoveDevice i) m = (Inr a, m') \<and> valid m' \<and> rows m' = filter_mset (\<lambda>r. dr_id r \<noteq> i) (rows m)"
    and touch_law: "valid m \<Longrightarrow>
        \<exists>m' a. handle (TouchDevice i at) m = (Inr a, m') \<and> valid m'
        \<and> rows m' = image_mset (\<lambda>r. if dr_id r = i then r\<lparr>dr_lastSeen := at\<rparr> else r) (rows m)"
    and unique_law: "valid m \<Longrightarrow> count (image_mset dr_id (rows m)) i \<le> 1"
begin

lemma remove_all:
  assumes "valid m"
  shows "\<exists>m'. valid m' \<and> rows m' = filter_mset (\<lambda>r. dr_id r \<notin> dr_id ` set ds) (rows m)
      \<and> alone handle (for_each (\<lambda>d. request (RemoveDevice (dr_id d)) (\<lambda>_. Return Finished)) ds k) s m = alone handle k s m'"
  using assms
proof (induction ds arbitrary: m)
  case (Cons d ds)
  obtain m1 a where m1: "handle (RemoveDevice (dr_id d)) m = (Inr a, m1)" "valid m1"
    "rows m1 = filter_mset (\<lambda>r. dr_id r \<noteq> dr_id d) (rows m)" using remove_law [OF Cons.prems(1)] by blast
  have "filter_mset (\<lambda>r. dr_id r \<notin> dr_id ` set ds) (rows m1) = filter_mset (\<lambda>r. dr_id r \<notin> dr_id ` set (d # ds)) (rows m)"
    by (simp add: m1(3) filter_filter_mset conj_commute)
  then show ?case using Cons.IH [OF m1(2)] m1(1) by (auto simp: request_def)
qed auto

lemma alone_store:
  assumes "valid m" "uuid \<notin># image_mset dr_id (rows m)"
  shows "\<exists>existing m1. mset existing = filter_mset (\<lambda>r. dr_owner r = user) (rows m) \<and> valid m1
    \<and> rows m1 = filter_mset (\<lambda>r. dr_id r \<notin> dr_id ` set (evicted existing)) (rows m)
    \<and> (case stored \<lparr>dr_id = uuid, dr_owner = user, dr_publicKey = pem, dr_label = label, dr_lastSeen = dv_now s\<rparr> of
         None \<Rightarrow> \<exists>e. alone handle (store_device user pem label uuid) s m = Some (Inl e, s, m1)
       | Some d \<Rightarrow> \<exists>m'. alone handle (store_device user pem label uuid) s m = Some (Inr (Registered uuid), s, m')
                     \<and> valid m' \<and> rows m' = add_mset d (rows m1))"
proof -
  let ?d = "\<lparr>dr_id = uuid, dr_owner = user, dr_publicKey = pem, dr_label = label, dr_lastSeen = dv_now s\<rparr>"
  obtain existing where e: "handle (ListByOwner user) m = (Inr (Rows existing), m)" "mset existing = filter_mset (\<lambda>r. dr_owner r = user) (rows m)"
    using list_law [OF assms(1)] by blast
  obtain m1 where m1: "valid m1" "rows m1 = filter_mset (\<lambda>r. dr_id r \<notin> dr_id ` set (evicted existing)) (rows m)"
    and run: "alone handle (store_device user pem label uuid) s m
        = alone handle (request (AddDevice ?d) (\<lambda>_. Return (Registered uuid))) s m1"
    using remove_all [OF assms(1), where ds = "evicted existing" and s = s
        and k = "Read (\<lambda>s. request (AddDevice \<lparr>dr_id = uuid, dr_owner = user, dr_publicKey = pem, dr_label = label, dr_lastSeen = dv_now s\<rparr>) (\<lambda>_. Return (Registered uuid)))"]
    by (auto simp: store_device_def alone_request e(1) answer_rows_def)
  have "dr_id ?d \<notin># image_mset dr_id (rows m1)" using assms(2) by (auto simp: m1(2))
  then show ?thesis
    using run m1 e(2) add_law [OF m1(1), of ?d] refuse_law [OF m1(1), of ?d]
    by (intro exI [of _ existing] exI [of _ m1]) (auto simp: alone_request split: option.splits)
qed

lemma register_caps:
  assumes "valid m" "uuid \<notin># image_mset dr_id (rows m)"
    and "stored \<lparr>dr_id = uuid, dr_owner = user, dr_publicKey = pem, dr_label = label, dr_lastSeen = dv_now s\<rparr> = Some d"
  shows "\<exists>gone m'. alone handle (store_device user pem label uuid) s m = Some (Inr (Registered uuid), s, m')
    \<and> gone \<subseteq># filter_mset (\<lambda>r. dr_owner r = user) (rows m)
    \<and> rows m' = add_mset d (rows m - gone)
    \<and> size (filter_mset (\<lambda>r. dr_owner r = user) (rows m')) \<le> MAX_DEVICES_PER_OWNER
    \<and> (\<forall>d \<in># gone. \<forall>k \<in># filter_mset (\<lambda>r. dr_owner r = user) (rows m) - gone. dr_lastSeen d \<le> dr_lastSeen k)"
proof -
  obtain existing m1 m' where e: "mset existing = filter_mset (\<lambda>r. dr_owner r = user) (rows m)"
    and run: "alone handle (store_device user pem label uuid) s m = Some (Inr (Registered uuid), s, m')"
    and rows': "rows m' = add_mset d (filter_mset (\<lambda>r. dr_id r \<notin> dr_id ` set (evicted existing)) (rows m))"
    using alone_store [OF assms(1,2), of user pem label s] by (auto simp: assms(3))
  obtain kept where k: "mset existing = mset (evicted existing) + mset kept" "length kept \<le> MAX_DEVICES_PER_OWNER - 1"
    "\<forall>d \<in> set (evicted existing). \<forall>k \<in> set kept. dr_lastSeen d \<le> dr_lastSeen k" using evicted_split by blast
  define others where "others = filter_mset (\<lambda>r. dr_owner r \<noteq> user) (rows m)"
  have all: "rows m = mset (evicted existing) + (mset kept + others)"
  proof -
    have "rows m = mset existing + others" unfolding e others_def by (rule multiset_partition)
    then show ?thesis unfolding k(1) by (simp only: add.assoc)
  qed
  have apart: "dr_id r \<notin> dr_id ` set (evicted existing)" if "r \<in># mset kept + others" for r
  proof
    assume "dr_id r \<in> dr_id ` set (evicted existing)"
    then have "dr_id r \<in># image_mset dr_id (mset (evicted existing))" by auto
    moreover have "dr_id r \<in># image_mset dr_id (mset kept + others)" using that by (simp only: set_image_mset) blast
    ultimately have "2 \<le> count (image_mset dr_id (rows m)) (dr_id r)"
      unfolding all image_mset_union [of _ "mset (evicted existing)"] count_union [of "image_mset dr_id (mset (evicted existing))"]
      by (simp only: count_greater_zero_iff [symmetric])
    then show False using unique_law [OF assms(1), of "dr_id r"] by simp
  qed
  have left: "filter_mset (\<lambda>r. dr_id r \<notin> dr_id ` set (evicted existing)) (rows m) = mset kept + others"
  proof -
    have "filter_mset (\<lambda>r. dr_id r \<notin> dr_id ` set (evicted existing)) (mset (evicted existing)) = {#}"
      by (simp add: filter_eq_replicate_mset flip: mset_filter)
    moreover have "filter_mset (\<lambda>r. dr_id r \<notin> dr_id ` set (evicted existing)) (mset kept + others) = mset kept + others"
      using apart by (simp only: filter_mset_eq_conv) simp
    ultimately show ?thesis unfolding all filter_union_mset [of _ "mset (evicted existing)"] by simp
  qed
  have "rows m - mset (evicted existing) = mset kept + others" by (simp add: all)
  moreover have "filter_mset (\<lambda>r. dr_owner r = user) (mset kept) = mset kept"
  proof -
    have "set_mset (mset kept) \<subseteq> set_mset (mset existing)" by (simp add: k(1))
    then show ?thesis unfolding e by (auto simp: filter_mset_eq_conv)
  qed
  moreover have "size (filter_mset (\<lambda>r. dr_owner r = user) others) = 0" by (simp add: others_def filter_filter_mset)
  ultimately show ?thesis
    using run k e stored_keeps [OF assms(3)] by (intro exI [of _ "mset (evicted existing)"] exI [of _ m'])
      (auto simp: rows' left MAX_DEVICES_PER_OWNER_def simp del: size_eq_0_iff_empty)
qed

lemma deregister_alone:
  assumes "valid m"
  shows "\<exists>m'. alone handle (device_deregister user i) s m = Some (Inr Finished, s, m')
    \<and> rows m' = filter_mset (\<lambda>d. \<not> (dr_id d = i \<and> dr_owner d = user)) (rows m)"
proof -
  obtain r where r: "handle (GetById i) m = (Inr (Row r), m)" "\<forall>d. r = Some d \<longleftrightarrow> d \<in># rows m \<and> dr_id d = i"
    using get_law [OF assms] by blast
  show ?thesis
  proof (cases "\<exists>d. r = Some d \<and> dr_owner d = user")
    case True
    have "filter_mset (\<lambda>d. dr_id d \<noteq> i) (rows m) = filter_mset (\<lambda>d. \<not> (dr_id d = i \<and> dr_owner d = user)) (rows m)"
      using True r(2) by (intro filter_mset_cong refl) (metis option.inject)
    then show ?thesis using True r remove_law [OF assms, of i] by (auto simp: device_deregister_def alone_request answer_row_def)
  next
    case False
    have "filter_mset (\<lambda>d. \<not> (dr_id d = i \<and> dr_owner d = user)) (rows m) = rows m"
      using False r(2) by (simp add: filter_mset_eq_conv)
    then show ?thesis using False r by (auto simp: device_deregister_def alone_request answer_row_def split: option.splits)
  qed
qed

end


subsection \<open>The in-memory store keeps the promises\<close>

definition memory_rows :: "(string, device_row) js_map \<Rightarrow> device_row multiset" where
  "memory_rows m = mset (map snd m)"

definition memory_valid :: "(string, device_row) js_map \<Rightarrow> bool" where
  "memory_valid m \<longleftrightarrow> distinct (map fst m) \<and> (\<forall>(i, d) \<in> set m. dr_id d = i)"

lemma memory_ids: "memory_valid m \<Longrightarrow> map (dr_id \<circ> snd) m = map fst m"
  by (auto simp: memory_valid_def)

lemma memory_update_new: "k \<notin> fst ` set m \<Longrightarrow> AList.update k v m = m @ [(k, v)]"
  by (induction m) auto

lemma memory_update_old: "distinct (map fst m) \<Longrightarrow> map_of m k \<noteq> None \<Longrightarrow> AList.update k v m = map (\<lambda>(i, d). (i, if i = k then v else d)) m"
proof (induction m)
  case (Cons x m)
  have "map (\<lambda>(i, d). (i, if i = k then v else d)) m = m" if "k \<notin> fst ` set m"
    using that by (induction m) auto
  then show ?case using Cons by (cases x) (auto split: if_splits)
qed simp

lemma memory_delete_rows: "memory_valid m \<Longrightarrow> memory_rows (AList.delete i m) = filter_mset (\<lambda>r. dr_id r \<noteq> i) (memory_rows m)"
proof -
  assume v: "memory_valid m"
  have "map snd (AList.delete i m) = filter (\<lambda>d. dr_id d \<noteq> i) (map snd m)"
    using v by (induction m) (auto simp: memory_valid_def)
  then show ?thesis by (simp add: memory_rows_def mset_filter)
qed

lemma memory_touch_rows:
  assumes "memory_valid m" "map_of m i = Some d"
  shows "map snd (AList.update i (d\<lparr>dr_lastSeen := at\<rparr>) m) = map (\<lambda>r. if dr_id r = i then r\<lparr>dr_lastSeen := at\<rparr> else r) (map snd m)"
proof -
  have "distinct (map fst m)" using assms(1) by (simp add: memory_valid_def)
  moreover have "map snd (map (\<lambda>(j, r). (j, if j = i then d\<lparr>dr_lastSeen := at\<rparr> else r)) m)
      = map (\<lambda>r. if dr_id r = i then r\<lparr>dr_lastSeen := at\<rparr> else r) (map snd m)"
  proof -
    have "(case x of (j, r) \<Rightarrow> if j = i then d\<lparr>dr_lastSeen := at\<rparr> else r)
        = (if dr_id (snd x) = i then (snd x)\<lparr>dr_lastSeen := at\<rparr> else snd x)" if "x \<in> set m" for x
    proof -
      obtain j r where x: "x = (j, r)" by (cases x)
      have "dr_id r = j" using assms(1) that x by (auto simp: memory_valid_def)
      moreover have "j = i \<Longrightarrow> r = d" using that x assms(2) \<open>distinct (map fst m)\<close> by simp
      ultimately show ?thesis by (simp add: x)
    qed
    then show ?thesis by (auto simp: comp_def split_beta)
  qed
  ultimately show ?thesis using assms(2) memory_update_old [of m i "d\<lparr>dr_lastSeen := at\<rparr>"] by simp
qed

lemma memory_valid_update: "memory_valid m \<Longrightarrow> dr_id d = i \<Longrightarrow> memory_valid (AList.update i d m)"
proof -
  assume v: "memory_valid m" "dr_id d = i"
  have "\<forall>(j, r) \<in> set (AList.update i d m). dr_id r = j" using v by (induction m) (auto simp: memory_valid_def)
  then show ?thesis using v distinct_update [of m i d] by (simp add: memory_valid_def)
qed

interpretation mem: device_store memory_device_store memory_rows memory_valid Some
proof
  fix m user assume "memory_valid m"
  show "\<exists>rs. memory_device_store (ListByOwner user) m = (Inr (Rows rs), m) \<and> mset rs = filter_mset (\<lambda>r. dr_owner r = user) (memory_rows m)"
    by (simp add: memory_device_store_def memory_rows_def)
next
  fix m i assume v: "memory_valid m"
  have "(map_of m i = Some d) = (d \<in># memory_rows m \<and> dr_id d = i)" for d
    using v by (force simp: memory_rows_def memory_valid_def)
  then show "\<exists>r. memory_device_store (GetById i) m = (Inr (Row r), m) \<and> (\<forall>d. r = Some d \<longleftrightarrow> d \<in># memory_rows m \<and> dr_id d = i)"
    by (simp add: memory_device_store_def)
next
  fix m and d d' :: device_row assume v: "memory_valid m" "dr_id d \<notin># image_mset dr_id (memory_rows m)" and d: "Some d = Some d'"
  have "dr_id d \<notin> fst ` set m"
    using v(2) memory_ids [OF v(1)] by (simp add: memory_rows_def flip: set_map mset_map)
  then show "\<exists>m' a. memory_device_store (AddDevice d) m = (Inr a, m') \<and> memory_valid m' \<and> memory_rows m' = add_mset d' (memory_rows m)"
    using memory_valid_update [OF v(1) refl, of d] d by (simp add: memory_device_store_def memory_rows_def memory_update_new)
next
  fix m i assume v: "memory_valid m"
  have "memory_valid (AList.delete i m)" using v distinct_delete [of m i] by (auto simp: memory_valid_def AList.delete_eq simp del: distinct_map)
  then show "\<exists>m' a. memory_device_store (RemoveDevice i) m = (Inr a, m') \<and> memory_valid m' \<and> memory_rows m' = filter_mset (\<lambda>r. dr_id r \<noteq> i) (memory_rows m)"
    using memory_delete_rows [OF v] by (simp add: memory_device_store_def)
next
  fix m i at assume v: "memory_valid m"
  show "\<exists>m' a. memory_device_store (TouchDevice i at) m = (Inr a, m') \<and> memory_valid m'
      \<and> memory_rows m' = image_mset (\<lambda>r. if dr_id r = i then r\<lparr>dr_lastSeen := at\<rparr> else r) (memory_rows m)"
  proof (cases "map_of m i")
    case None
    moreover have "dr_id ` set (map snd m) = fst ` set m"
      using arg_cong [OF memory_ids [OF v], of set] by (simp only: set_map image_comp)
    ultimately have "i \<notin> dr_id ` set (map snd m)" by (simp only: map_of_eq_None_iff) simp
    then have "image_mset (\<lambda>r. if dr_id r = i then r\<lparr>dr_lastSeen := at\<rparr> else r) (memory_rows m) = memory_rows m"
      by (intro multiset.map_ident_strong) (auto simp: memory_rows_def)
    then show ?thesis using None v by (simp add: memory_device_store_def)
  next
    case (Some d)
    then have "dr_id d = i" using v by (auto simp: memory_valid_def dest: map_of_SomeD)
    then show ?thesis using Some memory_touch_rows [OF v Some, of at] memory_valid_update [OF v, of "d\<lparr>dr_lastSeen := at\<rparr>" i]
      by (simp add: memory_device_store_def memory_rows_def flip: mset_map)
  qed
next
  fix m i assume v: "memory_valid m"
  have "image_mset dr_id (memory_rows m) = mset (map fst m)"
    unfolding memory_rows_def mset_map [symmetric] map_map memory_ids [OF v] ..
  then show "count (image_mset dr_id (memory_rows m)) i \<le> 1"
    using v by (simp add: memory_valid_def distinct_count_atmost_1 del: distinct_map mset_map)
qed simp_all

subsection \<open>The Postgres store keeps the promises\<close>

definition pg_rows :: "device_record list \<Rightarrow> device_row multiset" where
  "pg_rows m = mset (map device_toRow m)"

text \<open>The primary key.\<close>

definition pg_valid :: "device_record list \<Rightarrow> bool" where
  "pg_valid m \<longleftrightarrow> distinct (map dc_id m)"

definition pg_stored :: "(json \<Rightarrow> string) \<Rightarrow> device_row \<Rightarrow> device_row option" where
  "pg_stored driver d = (case device_insert driver d [] of Inl _ \<Rightarrow> None | Inr r \<Rightarrow> Some (device_toRow r))"

lemma device_toRow_simps [simp]:
  "dr_id (device_toRow r) = dc_id r" "dr_owner (device_toRow r) = dc_owner r" "dr_lastSeen (device_toRow r) = dc_lastSeen r"
  by (simp_all add: device_toRow_def)

lemma device_toRow_touch: "device_toRow (r\<lparr>dc_lastSeen := at\<rparr>) = (device_toRow r)\<lparr>dr_lastSeen := at\<rparr>"
  by (simp add: device_toRow_def)

lemma pg_ids: "image_mset dr_id (pg_rows m) = mset (map dc_id m)"
  by (simp add: pg_rows_def multiset.map_comp comp_def)

lemma device_insert_new:
  "dr_id d \<notin> dc_id ` set rows \<Longrightarrow> device_insert driver d rows = device_insert driver d []"
  by (simp add: device_insert_def Let_def cong: option.case_cong if_cong)

lemma device_insert_refused: "device_insert driver d [] = Inl e \<Longrightarrow> \<exists>e'. device_insert driver d rows = Inl e'"
  by (auto simp: device_insert_def Let_def split: option.splits if_splits)

lemma device_insert_keeps:
  "device_insert driver d rows = Inr r \<Longrightarrow> dc_id r = dr_id d \<and> dc_owner r = dr_owner d \<and> dc_lastSeen r = dr_lastSeen d"
  by (auto simp: device_insert_def Let_def split: option.splits if_splits)

lemma pg_find:
  assumes "pg_valid m"
  shows "map_option device_toRow (List.find (\<lambda>r. dc_id r = i) m) = Some d \<longleftrightarrow> d \<in># pg_rows m \<and> dr_id d = i"
proof
  assume "map_option device_toRow (List.find (\<lambda>r. dc_id r = i) m) = Some d"
  then obtain r where r: "List.find (\<lambda>r. dc_id r = i) m = Some r" "d = device_toRow r" by auto
  then have "r \<in> set m" "dc_id r = i" by (auto simp: find_Some_iff)
  with r(2) show "d \<in># pg_rows m \<and> dr_id d = i" by (auto simp: pg_rows_def)
next
  assume "d \<in># pg_rows m \<and> dr_id d = i"
  then obtain r where r: "r \<in> set m" "dc_id r = i" "d = device_toRow r" by (auto simp: pg_rows_def)
  then have "List.find (\<lambda>r. dc_id r = i) m \<noteq> None" by (auto simp: find_None_iff)
  then obtain r' where r': "List.find (\<lambda>r. dc_id r = i) m = Some r'" by blast
  then have "r' \<in> set m" "dc_id r' = i" by (auto simp: find_Some_iff)
  with r assms have "r' = r" by (auto simp: pg_valid_def distinct_map dest: inj_onD)
  with r' r show "map_option device_toRow (List.find (\<lambda>r. dc_id r = i) m) = Some d" by simp
qed

interpretation pg: device_store "pg_device_store driver" pg_rows pg_valid "pg_stored driver" for driver
proof
  fix m user assume "pg_valid m"
  show "\<exists>rs. pg_device_store driver (ListByOwner user) m = (Inr (Rows rs), m) \<and> mset rs = filter_mset (\<lambda>r. dr_owner r = user) (pg_rows m)"
    by (simp add: pg_device_store_def pg_rows_def filter_mset_image_mset comp_def)
next
  fix m i assume "pg_valid m"
  then show "\<exists>r. pg_device_store driver (GetById i) m = (Inr (Row r), m) \<and> (\<forall>d. r = Some d \<longleftrightarrow> d \<in># pg_rows m \<and> dr_id d = i)"
    using pg_find by (simp add: pg_device_store_def)
next
  fix m and d d' :: device_row
  assume v: "pg_valid m" "dr_id d \<notin># image_mset dr_id (pg_rows m)" "pg_stored driver d = Some d'"
  then obtain r where r: "device_insert driver d [] = Inr r" "d' = device_toRow r" by (auto simp: pg_stored_def split: sum.splits)
  have fresh: "dr_id d \<notin> dc_id ` set m" using v(2) by (simp only: pg_ids set_mset_mset) simp
  have "device_insert driver d m = Inr r" using device_insert_new [OF fresh] r(1) by metis
  then have "pg_device_store driver (AddDevice d) m = (Inr Done, m @ [r])" by (simp add: pg_device_store_def)
  moreover have "pg_valid (m @ [r])" using v(1) fresh device_insert_keeps [OF r(1)] by (simp add: pg_valid_def)
  ultimately
  show "\<exists>m' a. pg_device_store driver (AddDevice d) m = (Inr a, m') \<and> pg_valid m' \<and> pg_rows m' = add_mset d' (pg_rows m)"
    by (simp add: pg_rows_def r(2))
next
  fix m d assume "pg_valid m" "pg_stored driver d = None"
  then show "\<exists>e. pg_device_store driver (AddDevice d) m = (Inl e, m)"
    using device_insert_refused [of driver d _ m] by (auto simp: pg_stored_def pg_device_store_def split: sum.splits)
next
  fix d d' assume "pg_stored driver d = Some d'"
  then show "dr_id d' = dr_id d \<and> dr_owner d' = dr_owner d \<and> dr_lastSeen d' = dr_lastSeen d"
    using device_insert_keeps by (auto simp: pg_stored_def split: sum.splits)
next
  fix m i assume "pg_valid m"
  then show "\<exists>m' a. pg_device_store driver (RemoveDevice i) m = (Inr a, m') \<and> pg_valid m' \<and> pg_rows m' = filter_mset (\<lambda>r. dr_id r \<noteq> i) (pg_rows m)"
    by (simp add: pg_device_store_def pg_rows_def pg_valid_def filter_mset_image_mset comp_def distinct_map_filter)
next
  fix m i at assume v: "pg_valid m"
  let ?f = "\<lambda>r. if dc_id r = i then r\<lparr>dc_lastSeen := at\<rparr> else r"
  have ids: "map dc_id (map ?f m) = map dc_id m" by simp
  have "map device_toRow (map ?f m) = map (\<lambda>r. if dr_id r = i then r\<lparr>dr_lastSeen := at\<rparr> else r) (map device_toRow m)"
    by (simp add: device_toRow_touch)
  then have "pg_rows (map ?f m) = image_mset (\<lambda>r. if dr_id r = i then r\<lparr>dr_lastSeen := at\<rparr> else r) (pg_rows m)"
    unfolding pg_rows_def by (simp only: mset_map)
  moreover have "pg_valid (map ?f m)" using v unfolding pg_valid_def ids .
  ultimately show "\<exists>m' a. pg_device_store driver (TouchDevice i at) m = (Inr a, m') \<and> pg_valid m'
      \<and> pg_rows m' = image_mset (\<lambda>r. if dr_id r = i then r\<lparr>dr_lastSeen := at\<rparr> else r) (pg_rows m)"
    by (simp add: pg_device_store_def)
next
  fix m i assume "pg_valid m"
  then show "count (image_mset dr_id (pg_rows m)) i \<le> 1"
    unfolding pg_ids pg_valid_def by (simp add: distinct_count_atmost_1 del: mset_map)
qed

subsection \<open>Registering\<close>

lemma register_cases:
  assumes "alone f (device_register kc token pem label uuid) s m = Some (Inr (Registered u), s', m')"
  shows "\<exists>claims user. byoc_verifyJoinToken (kc_crypto kc) token (kc_secret kc) (dv_now s) = Inr (Inr claims)
    \<and> member ''owner'' claims = Some (JStr user) \<and> user \<noteq> [] \<and> kc_type kc pem = Some (Some ''ed25519'')
    \<and> alone f (store_device user pem label uuid) s m = Some (Inr (Registered u), s', m')"
proof -
  obtain claims where v: "byoc_verifyJoinToken (kc_crypto kc) token (kc_secret kc) (dv_now s) = Inr (Inr claims)"
    using assms by (auto simp: device_register_def split: sum.splits)
  then obtain user where "member ''owner'' claims = Some (JStr user)" "user \<noteq> []"
    by (auto simp: byoc_verifyJoinToken_def join_check_def no_string_def split: sum.splits if_splits option.splits json.splits)
  then show ?thesis using assms v by (auto simp: device_register_def split: option.splits if_splits)
qed

lemma register_runs:
  assumes "byoc_verifyJoinToken (kc_crypto kc) token (kc_secret kc) (dv_now s) = Inr (Inr claims)"
    and "member ''owner'' claims = Some (JStr user)" and "kc_type kc pem = Some (Some ''ed25519'')"
  shows "alone f (device_register kc token pem label uuid) s m = alone f (store_device user pem label uuid) s m"
  using assms by (simp add: device_register_def)

text \<open>
  C22. With the Postgres store answering every statement and no other request of the controller meanwhile:
  a device is registered only under the owner a valid join token names, with an Ed25519 key. The owner
  then has at most \<^const>\<open>MAX_DEVICES_PER_OWNER\<close> devices, the new one, read back with that key, among them;
  those dropped to make room were the owner's own and seen no later than any that stays, and every other
  row of the table is kept. And a registration that has such a token and key, and whose texts a column can
  hold, does register. (Two at once can exceed the cap: \<^verbatim>\<open>concurrent_registrations_exceed_cap\<close> below.)
\<close>

theorem device_registration_caps:
  assumes "pg_valid m" "uuid \<notin># image_mset dr_id (pg_rows m)"
  shows "(\<forall>u s' m'. alone (pg_device_store driver) (device_register kc token pem label uuid) s m = Some (Inr (Registered u), s', m') \<longrightarrow>
      u = uuid \<and> s' = s
    \<and> (\<exists>claims user gone d. byoc_verifyJoinToken (kc_crypto kc) token (kc_secret kc) (dv_now s) = Inr (Inr claims)
        \<and> member ''owner'' claims = Some (JStr user) \<and> kc_type kc pem = Some (Some ''ed25519'')
        \<and> gone \<subseteq># filter_mset (\<lambda>r. dr_owner r = user) (pg_rows m)
        \<and> pg_rows m' = add_mset d (pg_rows m - gone)
        \<and> dr_id d = uuid \<and> dr_owner d = user \<and> dr_lastSeen d = dv_now s \<and> Some (dr_publicKey d) = map_option JStr (text_param driver pem)
        \<and> size (filter_mset (\<lambda>r. dr_owner r = user) (pg_rows m')) \<le> MAX_DEVICES_PER_OWNER
        \<and> (\<forall>e \<in># gone. \<forall>k \<in># filter_mset (\<lambda>r. dr_owner r = user) (pg_rows m) - gone. dr_lastSeen e \<le> dr_lastSeen k)))
    \<and> (\<forall>claims user key. byoc_verifyJoinToken (kc_crypto kc) token (kc_secret kc) (dv_now s) = Inr (Inr claims) \<longrightarrow>
        member ''owner'' claims = Some (JStr user) \<longrightarrow> kc_type kc pem = Some (Some ''ed25519'') \<longrightarrow> pem = JStr key \<longrightarrow>
        (case label of None \<Rightarrow> True | Some l \<Rightarrow> \<exists>t. l = JStr t \<and> CHR 0x00 \<notin> set t) \<longrightarrow> CHR 0x00 \<notin> set (uuid @ user @ key) \<longrightarrow>
        (\<exists>m'. alone (pg_device_store driver) (device_register kc token pem label uuid) s m = Some (Inr (Registered uuid), s, m')))"
proof (intro conjI allI impI)
  fix claims user key
  assume a: "byoc_verifyJoinToken (kc_crypto kc) token (kc_secret kc) (dv_now s) = Inr (Inr claims)"
    "member ''owner'' claims = Some (JStr user)" "kc_type kc pem = Some (Some ''ed25519'')"
    and t: "pem = JStr key" "case label of None \<Rightarrow> True | Some l \<Rightarrow> \<exists>t. l = JStr t \<and> CHR 0x00 \<notin> set t" "CHR 0x00 \<notin> set (uuid @ user @ key)"
  have "pg_stored driver \<lparr>dr_id = uuid, dr_owner = user, dr_publicKey = pem, dr_label = label, dr_lastSeen = dv_now s\<rparr> \<noteq> None"
    using t by (auto simp: pg_stored_def device_insert_def text_param_def split: option.splits)
  then obtain d where "pg_stored driver \<lparr>dr_id = uuid, dr_owner = user, dr_publicKey = pem, dr_label = label, dr_lastSeen = dv_now s\<rparr> = Some d"
    by blast
  then show "\<exists>m'. alone (pg_device_store driver) (device_register kc token pem label uuid) s m = Some (Inr (Registered uuid), s, m')"
    using pg.register_caps [OF assms] register_runs [where kc = kc, OF a] by metis
next
  fix u s' m'
  assume run: "alone (pg_device_store driver) (device_register kc token pem label uuid) s m = Some (Inr (Registered u), s', m')"
  obtain claims user where c: "byoc_verifyJoinToken (kc_crypto kc) token (kc_secret kc) (dv_now s) = Inr (Inr claims)"
    "member ''owner'' claims = Some (JStr user)" "kc_type kc pem = Some (Some ''ed25519'')"
    and store: "alone (pg_device_store driver) (store_device user pem label uuid) s m = Some (Inr (Registered u), s', m')"
    using register_cases [OF run] by blast
  let ?d = "\<lparr>dr_id = uuid, dr_owner = user, dr_publicKey = pem, dr_label = label, dr_lastSeen = dv_now s\<rparr>"
  obtain d where d: "pg_stored driver ?d = Some d"
    using pg.alone_store [OF assms, where driver = driver and user = user and pem = pem and label = label and s = s] store
    by (auto split: option.splits)
  have key: "Some (dr_publicKey d) = map_option JStr (text_param driver pem)"
    using d by (auto simp: pg_stored_def device_insert_def device_toRow_def Let_def split: option.splits if_splits sum.splits)
  obtain gone where "u = uuid" "s' = s" "gone \<subseteq># filter_mset (\<lambda>r. dr_owner r = user) (pg_rows m)" "pg_rows m' = add_mset d (pg_rows m - gone)"
      "size (filter_mset (\<lambda>r. dr_owner r = user) (pg_rows m')) \<le> MAX_DEVICES_PER_OWNER"
      "\<forall>e \<in># gone. \<forall>k \<in># filter_mset (\<lambda>r. dr_owner r = user) (pg_rows m) - gone. dr_lastSeen e \<le> dr_lastSeen k"
    using pg.register_caps [OF assms d] store by auto
  then show "u = uuid" "s' = s" and "\<exists>claims user gone d. byoc_verifyJoinToken (kc_crypto kc) token (kc_secret kc) (dv_now s) = Inr (Inr claims)
        \<and> member ''owner'' claims = Some (JStr user) \<and> kc_type kc pem = Some (Some ''ed25519'')
        \<and> gone \<subseteq># filter_mset (\<lambda>r. dr_owner r = user) (pg_rows m)
        \<and> pg_rows m' = add_mset d (pg_rows m - gone)
        \<and> dr_id d = uuid \<and> dr_owner d = user \<and> dr_lastSeen d = dv_now s \<and> Some (dr_publicKey d) = map_option JStr (text_param driver pem)
        \<and> size (filter_mset (\<lambda>r. dr_owner r = user) (pg_rows m')) \<le> MAX_DEVICES_PER_OWNER
        \<and> (\<forall>e \<in># gone. \<forall>k \<in># filter_mset (\<lambda>r. dr_owner r = user) (pg_rows m) - gone. dr_lastSeen e \<le> dr_lastSeen k)"
    using c key pg.stored_keeps [OF d] by (simp_all, blast)
qed

definition demo_keys :: key_check where
  "demo_keys = \<lparr>kc_crypto = demo_crypto, kc_secret = ''s'', kc_type = (\<lambda>_. Some (Some ''ed25519'')), kc_verify = (\<lambda>n k sg. k = JStr ''K'' \<and> sg = n @ ''K'')\<rparr>"

definition demo_device :: "string \<Rightarrow> int \<Rightarrow> device_row" where
  "demo_device i seen = \<lparr>dr_id = i, dr_owner = ''ada'', dr_publicKey = JStr ''K'', dr_label = None, dr_lastSeen = seen\<rparr>"

definition demo_table :: "device_record list" where
  "demo_table = map (\<lambda>(i, seen). \<lparr>dc_id = i, dc_owner = ''ada'', dc_publicKey = ''K'', dc_label = None, dc_lastSeen = seen\<rparr>)
     [(''d1'', 30), (''d2'', 10), (''d3'', 20)]"

definition demo_join :: string where
  "demo_join = byoc_mintJoinToken demo_crypto ''ada'' ''s'' None 1700000000 ''n''"

lemma demo_join_verifies:
  "byoc_verifyJoinToken demo_crypto demo_join ''s'' 1700000100 = Inr (Inr (join_claims BYOC_AUDIENCE ''ada'' None 1700000000 ''n''))"
proof -
  have "safe_times 1700000000 600" by (simp add: safe_times_def)
  then have "verifyHs256 demo_crypto demo_join ''s'' = Inr (join_claims BYOC_AUDIENCE ''ada'' None 1700000000 ''n'')"
    unfolding demo_join_def byoc_mintJoinToken_def by (intro verify_signed join_claims_readable) simp
  then show ?thesis
    by (simp add: byoc_verifyJoinToken_def join_check_def join_claims_members is_str_def ACCEPTED_AUDIENCES_def no_string_def lapsed_def)
qed

theorem device_registration_caps_witness:
  "\<exists>m'. alone (pg_device_store (\<lambda>_. [])) (device_register demo_keys demo_join (JStr ''K2'') None ''d4'') \<lparr>dv_pending = [], dv_now = 1700000100\<rparr> demo_table
      = Some (Inr (Registered ''d4''), \<lparr>dv_pending = [], dv_now = 1700000100\<rparr>, m')
    \<and> size (filter_mset (\<lambda>r. dr_owner r = ''ada'') (pg_rows m')) \<le> MAX_DEVICES_PER_OWNER"
proof -
  let ?s = "\<lparr>dv_pending = [], dv_now = 1700000100\<rparr>"
  have v: "pg_valid demo_table" "''d4'' \<notin># image_mset dr_id (pg_rows demo_table)"
    by (simp_all add: pg_valid_def demo_table_def pg_rows_def)
  have c: "byoc_verifyJoinToken (kc_crypto demo_keys) demo_join (kc_secret demo_keys) (dv_now ?s)
      = Inr (Inr (join_claims BYOC_AUDIENCE ''ada'' None 1700000000 ''n''))"
    "member ''owner'' (join_claims BYOC_AUDIENCE ''ada'' None 1700000000 ''n'') = Some (JStr ''ada'')"
    "kc_type demo_keys (JStr ''K2'') = Some (Some ''ed25519'')"
    by (simp_all add: demo_keys_def demo_join_verifies join_claims_members)
  note P = device_registration_caps [OF v, of "\<lambda>_. []" demo_keys demo_join "JStr ''K2''" None ?s]
  obtain m' where run: "alone (pg_device_store (\<lambda>_. [])) (device_register demo_keys demo_join (JStr ''K2'') None ''d4'') ?s demo_table
     = Some (Inr (Registered ''d4''), ?s, m')"
    using P [THEN conjunct2, rule_format, OF c] by auto
  obtain claims user where u: "byoc_verifyJoinToken (kc_crypto demo_keys) demo_join (kc_secret demo_keys) (dv_now ?s) = Inr (Inr claims)"
    "member ''owner'' claims = Some (JStr user)" "size (filter_mset (\<lambda>r. dr_owner r = user) (pg_rows m')) \<le> MAX_DEVICES_PER_OWNER"
    using P [THEN conjunct1, rule_format, OF run] by blast
  then have "user = ''ada''" using c by simp
  with u(3) run show ?thesis by blast
qed

text \<open>The room is made before the row is written: a registration the table refuses has dropped a device.\<close>

lemma refused_insert_evicts:
  "alone (pg_device_store (\<lambda>_. [])) (store_device ''ada'' (JStr ''K2'') (Some (JStr [CHR 0x00])) ''d4'') \<lparr>dv_pending = [], dv_now = 100\<rparr> demo_table
     = Some (Inl ''invalid byte sequence'', \<lparr>dv_pending = [], dv_now = 100\<rparr>, filter (\<lambda>r. dc_id r \<noteq> ''d2'') demo_table)"
  by (simp add: store_device_def request_def pg_device_store_def demo_table_def device_toRow_def evicted_def answer_rows_def
      MAX_DEVICES_PER_OWNER_def device_insert_def text_param_def)

subsection \<open>All requests at once\<close>

text \<open>
  The operations as calls of one event loop, with the ticks of the clock, and any answers of the store
  that fit their queries: a lookup gives a row of that id or none.
\<close>

datatype device_call =
    CRegister string json "json option" string
  | CChallenge string
  | CVerify string string string
  | CDeregister string string
  | CList string
  | COwner string
  | CTick int

definition device_op :: "key_check \<Rightarrow> device_call \<Rightarrow> device_proc" where
  "device_op kc x =
     (case x of
        CRegister token pem label uuid \<Rightarrow> device_register kc token pem label uuid
      | CChallenge uuid \<Rightarrow> device_challenge uuid
      | CVerify i nonce sg \<Rightarrow> device_verify kc i nonce sg
      | CDeregister user i \<Rightarrow> device_deregister user i
      | CList user \<Rightarrow> device_listDevices user
      | COwner i \<Rightarrow> device_ownerOf i
      | CTick t \<Rightarrow> Write (\<lambda>s. s\<lparr>dv_now := t\<rparr>) (Return Finished))"

definition device_fits :: "device_query \<Rightarrow> device_answer \<Rightarrow> bool" where
  "device_fits q a =
     (case q of
        GetById i \<Rightarrow> (case a of Row r \<Rightarrow> (\<forall>d. r = Some d \<longrightarrow> dr_id d = i) | _ \<Rightarrow> False)
      | ListByOwner user \<Rightarrow> (case a of Rows rs \<Rightarrow> (\<forall>r \<in> set rs. dr_owner r = user) | _ \<Rightarrow> False)
      | _ \<Rightarrow> a = Done)"

type_synonym device_history = "(device_call, string, device_answer) event list"
type_synonym device_loop = "(device_state, device_query, device_answer, string, device_result) loop"

abbreviation device_run :: "key_check \<Rightarrow> device_history \<Rightarrow> device_loop \<Rightarrow> device_loop option" where
  "device_run kc \<equiv> loop_run device_fits (device_op kc)"

definition calls :: "('c, 'e, 'r) event list \<Rightarrow> 'c list" where
  "calls xs = List.map_filter (\<lambda>x. case x of Call y \<Rightarrow> Some y | _ \<Rightarrow> None) xs"

definition challenges :: "device_history \<Rightarrow> string list" where
  "challenges xs = List.map_filter (\<lambda>x. case x of CChallenge u \<Rightarrow> Some u | _ \<Rightarrow> None) (calls xs)"

lemma calls_simps [simp]:
  "calls [] = []" "calls (Call x # xs) = x # calls xs" "calls (Answer n r # xs) = calls xs" "calls (Deliver n # xs) = calls xs"
  "calls (xs @ ys) = calls xs @ calls ys"
  by (simp_all add: calls_def map_filter_def)

lemma challenges_simps [simp]:
  "challenges [] = []" "challenges (xs @ ys) = challenges xs @ challenges ys"
  "challenges (Call x # xs) = (case x of CChallenge u \<Rightarrow> [u] | _ \<Rightarrow> []) @ challenges xs"
  "challenges (Answer n r # xs) = challenges xs" "challenges (Deliver n # xs) = challenges xs"
  by (simp_all add: challenges_def map_filter_def split: device_call.split)

definition nonces :: "device_state \<Rightarrow> string set" where
  "nonces s = fst ` set (dv_pending s)"

text \<open>
  What the others do while an operation waits: of the challenges known before, none becomes pending again.
\<close>

definition no_revival :: "string set \<Rightarrow> device_state \<Rightarrow> device_state \<Rightarrow> bool" where
  "no_revival N s s' \<longleftrightarrow> N \<inter> nonces s' \<subseteq> nonces s"

text \<open>
  \<open>follows N Q A p s\<close>: run from \<open>s\<close>, having had the answers \<open>A\<close>, \<open>p\<close> adds no challenge, and returns only
  what \<open>Q\<close> allows in the state it returns in, whatever fitting answers come and whatever the others do.
\<close>

primrec follows :: "string set \<Rightarrow> ((string + device_answer) set \<Rightarrow> device_result \<Rightarrow> device_state \<Rightarrow> bool)
    \<Rightarrow> (string + device_answer) set \<Rightarrow> device_proc \<Rightarrow> device_state \<Rightarrow> bool" where
  "follows N Q A (Return v) s = Q A v s"
| "follows N Q A (Throw e) s = True"
| "follows N Q A (Read k) s = follows N Q A (k s) s"
| "follows N Q A (Write f p) s = (nonces (f s) \<subseteq> nonces s \<and> follows N Q A p (f s))"
| "follows N Q A (Await q k) s =
     (\<forall>r s'. no_revival N s s' \<longrightarrow> (\<forall>x. r = Inr x \<longrightarrow> device_fits q x) \<longrightarrow> follows N Q (insert r A) (k r) s')"
| "follows N Q A (Spawn p k) s = False"
| "follows N Q A (Join n k) s = False"

fun parked :: "('s, 'q, 'r, 'e, 'v) proc \<Rightarrow> bool" where
  "parked (Return v) = True"
| "parked (Throw e) = True"
| "parked (Await q k) = True"
| "parked _ = False"

lemma no_revival_refl: "nonces s' \<subseteq> nonces s \<Longrightarrow> no_revival N s s'"
  by (auto simp: no_revival_def)

lemma no_revival_trans: "no_revival N s s' \<Longrightarrow> no_revival N s' s'' \<Longrightarrow> no_revival N s s''"
  by (auto simp: no_revival_def)

lemma follows_request:
  assumes "\<And>x s'. no_revival N s s' \<Longrightarrow> device_fits q x \<Longrightarrow> follows N Q (insert (Inr x) A) (k x) s'"
  shows "follows N Q A (request q k) s"
  using assms by (auto simp: request_def split: sum.split)

lemma follows_bind:
  assumes "\<And>A v s'. no_revival N s s' \<Longrightarrow> follows N Q A (f v) s'" and "follows N (\<lambda>_ _ _. True) A p s"
  shows "follows N Q A (bind p f) s"
  using assms
proof (induction p arbitrary: s A)
  case (Write g p)
  have "no_revival N s (g s)" using Write.prems(2) by (simp add: no_revival_refl)
  with Write show ?case by simp (meson no_revival_trans)
next
  case (Await q k)
  then show ?case by simp (meson no_revival_trans rangeI)
qed (simp_all add: no_revival_refl)

lemma follows_for_each:
  assumes "\<And>x s' A. x \<in> set xs \<Longrightarrow> follows N (\<lambda>_ _ _. True) A (f x) s'" and "\<And>A s'. no_revival N s s' \<Longrightarrow> follows N Q A k s'"
  shows "follows N Q A (for_each f xs k) s"
  using assms
proof (induction xs arbitrary: s A)
  case (Cons x xs)
  have "follows N Q B (for_each f xs k) s'" if "no_revival N s s'" for B s'
    using Cons.prems by (intro Cons.IH Cons.prems(2) no_revival_trans [OF that]) simp_all
  then show ?case using Cons.prems(1) by (auto intro: follows_bind)
qed (simp add: no_revival_refl)

subsection \<open>What the operations do in company\<close>

text \<open>
  What a device's success rests on, for the call \<open>x\<close> made in the state \<open>s1\<close> after the challenges \<open>N\<close> were
  issued: the challenge was issued and not expired, it is used up, and a row looked up for the device
  has its owner and a key the signature verifies with.
\<close>

definition let_in :: "key_check \<Rightarrow> device_call \<Rightarrow> string set \<Rightarrow> device_state \<Rightarrow> (string + device_answer) set \<Rightarrow> device_result \<Rightarrow> device_state \<Rightarrow> bool" where
  "let_in kc x N s1 A v s \<longleftrightarrow>
     (\<forall>user j. v = Verified user j \<longrightarrow>
       (\<exists>nonce sg row expiry. x = CVerify j nonce sg \<and> nonce \<in> N \<and> nonce \<notin> nonces s
          \<and> (nonce, expiry) \<in> set (dv_pending s1) \<and> dv_now s1 < expiry
          \<and> Inr (Row (Some row)) \<in> A \<and> dr_id row = j \<and> dr_owner row = user \<and> kc_verify kc nonce (dr_publicKey row) sg))"

lemma nonces_sweep: "nonces (sweep s) \<subseteq> nonces s"
  by (auto simp: nonces_def sweep_def)

lemma nonces_consume: "nonces (consume n s) = nonces s - {n}"
  by (auto simp: nonces_def consume_def AList.delete_eq image_iff)

lemma sweep_pending:
  assumes "map_of (dv_pending (sweep s)) n = Some t"
  shows "(n, t) \<in> set (dv_pending s)" "dv_now s < t" "n \<in> nonces s"
  using map_of_SomeD [OF assms] by (auto simp: sweep_def nonces_def image_iff intro: bexI [rotated])

lemma verify_follows:
  assumes "nonces s \<subseteq> N"
  shows "follows N (let_in kc (CVerify i nonce sg) N s) A (device_verify kc i nonce sg) s"
proof -
  have "follows N (let_in kc (CVerify i nonce sg) N s) A (device_verify kc i nonce sg) s"
    if "map_of (dv_pending (sweep s)) nonce = Some t" "\<not> t \<le> dv_now (sweep s)" for t
  proof -
    note P = sweep_pending [OF that(1)]
    have "follows N (let_in kc (CVerify i nonce sg) N s) (insert (Inr a) A)
        (case answer_row a of None \<Rightarrow> Return (Refused ''unknown device'')
         | Some row \<Rightarrow> Write (consume nonce)
             (if \<not> kc_verify kc nonce (dr_publicKey row) sg then Return (Refused ''signature does not match the device key'')
              else Read (\<lambda>s. request (TouchDevice i (dv_now s)) (\<lambda>_. Return (Verified (dr_owner row) i))))) s'"
      if "device_fits (GetById i) a" for a s'
    proof (cases "answer_row a")
      case (Some row)
      then have a: "a = Row (Some row)" "dr_id row = i"
        using that by (auto simp: answer_row_def device_fits_def split: device_answer.splits)
      have "follows N (let_in kc (CVerify i nonce sg) N s) (insert (Inr a) A)
          (request (TouchDevice i t2) (\<lambda>_. Return (Verified (dr_owner row) i))) (consume nonce s')"
        if "kc_verify kc nonce (dr_publicKey row) sg" for t2
      proof (rule follows_request)
        fix x s2 assume "no_revival N (consume nonce s') s2"
        then have "nonce \<notin> nonces s2" using P(3) assms by (auto simp: no_revival_def nonces_consume)
        then show "follows N (let_in kc (CVerify i nonce sg) N s) (insert (Inr x) (insert (Inr a) A)) (Return (Verified (dr_owner row) i)) s2"
          using P assms a that by (auto simp: let_in_def)
      qed
      then show ?thesis using Some by (simp add: nonces_consume let_in_def)
    qed (simp add: let_in_def)
    then show ?thesis using that nonces_sweep [of s] by (auto simp: device_verify_def intro!: follows_request)
  qed
  then show ?thesis
    using nonces_sweep by (auto simp: device_verify_def let_in_def nonces_consume split: option.splits)
qed

lemma other_follows:
  assumes "\<And>u. x \<noteq> CChallenge u" and "\<And>i n sg. x \<noteq> CVerify i n sg"
  shows "follows N (let_in kc x N s1) A (device_op kc x) s"
proof -
  have remove: "follows N (\<lambda>_ _ _. True) A (request (RemoveDevice i) (\<lambda>_. Return Finished)) s" for i A s
    by (rule follows_request) simp
  show ?thesis
  proof (cases x)
    case (CRegister token pem label uuid)
    have "follows N (let_in kc x N s1) A (store_device user pem label uuid) s" for user
      unfolding store_device_def by (intro follows_request follows_for_each remove) (auto intro!: follows_request simp: let_in_def)
    then show ?thesis using CRegister
      by (simp add: device_op_def device_register_def let_in_def Let_def split: sum.split option.split)
  next
    case (CDeregister user i)
    then show ?thesis
      by (auto simp: device_op_def device_deregister_def let_in_def intro!: follows_request split: option.split)
  next
    case (CList user)
    then show ?thesis by (auto simp: device_op_def device_listDevices_def let_in_def intro!: follows_request)
  next
    case (COwner i)
    then show ?thesis by (simp add: device_op_def device_ownerOf_def let_in_def)
  next
    case (CTick t)
    then show ?thesis by (simp add: device_op_def let_in_def nonces_def)
  qed (use assms in auto)
qed

lemma op_follows:
  assumes "nonces s \<subseteq> N" and "\<And>u. x \<noteq> CChallenge u"
  shows "follows N (let_in kc x N s) {} (device_op kc x) s"
proof (cases x)
  case (CVerify i nonce sg)
  with verify_follows [OF assms(1)] show ?thesis by (simp add: device_op_def)
qed (use assms in \<open>auto intro!: other_follows\<close>)

lemma let_in_later:
  "let_in kc x N s1 A v s \<Longrightarrow> A \<subseteq> B \<Longrightarrow> no_revival N s s' \<Longrightarrow> let_in kc x N s1 B v s'"
proof (unfold let_in_def, intro allI impI)
  fix user j
  assume l: "\<forall>user j. v = Verified user j \<longrightarrow>
       (\<exists>nonce sg row expiry. x = CVerify j nonce sg \<and> nonce \<in> N \<and> nonce \<notin> nonces s
          \<and> (nonce, expiry) \<in> set (dv_pending s1) \<and> dv_now s1 < expiry
          \<and> Inr (Row (Some row)) \<in> A \<and> dr_id row = j \<and> dr_owner row = user \<and> kc_verify kc nonce (dr_publicKey row) sg)"
    and m: "A \<subseteq> B" "no_revival N s s'" "v = Verified user j"
  from l m(3) obtain nonce sg row expiry where c: "x = CVerify j nonce sg" "nonce \<in> N" "nonce \<notin> nonces s"
      "(nonce, expiry) \<in> set (dv_pending s1)" "dv_now s1 < expiry" "Inr (Row (Some row)) \<in> A" "dr_id row = j" "dr_owner row = user"
      "kc_verify kc nonce (dr_publicKey row) sg" by blast
  have "nonce \<notin> nonces s'" using c(2,3) m(2) by (auto simp: no_revival_def)
  moreover have "Inr (Row (Some row)) \<in> B" using c(6) m(1) by (rule rev_subsetD)
  ultimately show "\<exists>nonce sg row expiry. x = CVerify j nonce sg \<and> nonce \<in> N \<and> nonce \<notin> nonces s'
          \<and> (nonce, expiry) \<in> set (dv_pending s1) \<and> dv_now s1 < expiry
          \<and> Inr (Row (Some row)) \<in> B \<and> dr_id row = j \<and> dr_owner row = user \<and> kc_verify kc nonce (dr_publicKey row) sg"
    using c by (intro exI conjI)
qed

lemma follows_more_answers:
  "follows N (let_in kc x N s1) A p s \<Longrightarrow> A \<subseteq> B \<Longrightarrow> follows N (let_in kc x N s1) B p s"
proof (induction p arbitrary: s A B)
  case (Return v)
  then show ?case using let_in_later [OF _ Return.prems(2) no_revival_refl [OF subset_refl]] by simp
next
  case (Await q k)
  then show ?case by simp (meson insert_mono rangeI)
qed auto

lemma follows_later:
  assumes "follows N (let_in kc x N s1) A p s" and "parked p" and "A \<subseteq> B" and "no_revival N s s'"
  shows "follows N (let_in kc x N s1) B p s'"
proof (cases p)
  case (Return v)
  with assms let_in_later show ?thesis by simp
next
  case (Await q k)
  with assms have "follows N (let_in kc x N s1) A p s'" by (auto intro: no_revival_trans)
  with assms(3) follows_more_answers show ?thesis by blast
qed (use assms in auto)

lemma advance_follows:
  assumes "follows N Q A p (lp_state c)"
  shows "parked (fst (advance p c)) \<and> follows N Q A (fst (advance p c)) (lp_state (snd (advance p c)))
    \<and> nonces (lp_state (snd (advance p c))) \<subseteq> nonces (lp_state c) \<and> lp_tasks (snd (advance p c)) = lp_tasks c
    \<and> lp_done (snd (advance p c)) = lp_done c \<and> lp_next (snd (advance p c)) = lp_next c"
  using assms
proof (induction p arbitrary: c)
  case (Write f p)
  then show ?case using Write.IH [of "c\<lparr>lp_state := f (lp_state c)\<rparr>"] by auto
qed auto

subsection \<open>Every history of requests\<close>

text \<open>A suspended operation and a finished one alike: the rest of it, under its number.\<close>

definition outcome :: "string + device_result \<Rightarrow> device_proc" where
  "outcome r = (case r of Inl e \<Rightarrow> Throw e | Inr v \<Rightarrow> Return v)"

definition entries :: "device_loop \<Rightarrow> (nat \<times> device_proc) set" where
  "entries c = set (lp_tasks c) \<union> (\<lambda>(n, r). (n, outcome r)) ` set (lp_done c)"

definition entry_ok :: "key_check \<Rightarrow> device_state \<Rightarrow> device_history \<Rightarrow> device_state \<Rightarrow> nat \<Rightarrow> device_proc \<Rightarrow> bool" where
  "entry_ok kc s0 xs s n p \<longleftrightarrow> parked p \<and>
     (\<exists>before x rest c1. xs = before @ Call x # rest \<and> n = length (calls before)
        \<and> device_run kc before (new_loop s0) = Some c1
        \<and> follows (set (challenges before)) (let_in kc x (set (challenges before)) (lp_state c1)) {r. Answer n r \<in> set rest} p s)"

definition device_inv :: "key_check \<Rightarrow> device_state \<Rightarrow> device_history \<Rightarrow> device_loop \<Rightarrow> bool" where
  "device_inv kc s0 xs c \<longleftrightarrow> device_run kc xs (new_loop s0) = Some c \<and> lp_next c = length (calls xs)
     \<and> nonces (lp_state c) \<subseteq> set (challenges xs) \<and> (\<forall>(n, p) \<in> entries c. entry_ok kc s0 xs (lp_state c) n p)"

lemma entries_continue:
  assumes "follows N Q A p (lp_state c)"
  shows "entries (continue n p c) = insert (n, fst (advance p c)) (entries c)"
    and "lp_state (continue n p c) = lp_state (snd (advance p c))" and "lp_next (continue n p c) = lp_next c"
  using advance_follows [OF assms]
  by (cases "fst (advance p c)"; auto simp: continue_def entries_def outcome_def Let_def)+

lemma entry_ok_later:
  assumes "entry_ok kc s0 xs s n p" and "no_revival (set (challenges xs)) s s'"
  shows "entry_ok kc s0 (xs @ [e]) s' n p"
proof -
  obtain before x rest c1 where o: "xs = before @ Call x # rest" "n = length (calls before)"
      "device_run kc before (new_loop s0) = Some c1" "parked p"
      "follows (set (challenges before)) (let_in kc x (set (challenges before)) (lp_state c1)) {r. Answer n r \<in> set rest} p s"
    using assms(1) unfolding entry_ok_def by blast
  have nr: "no_revival (set (challenges before)) s s'" using assms(2) by (auto simp: no_revival_def o(1))
  have "follows (set (challenges before)) (let_in kc x (set (challenges before)) (lp_state c1)) {r. Answer n r \<in> set (rest @ [e])} p s'"
    by (rule follows_later [OF o(5,4) _ nr]) auto
  moreover have "xs @ [e] = before @ Call x # (rest @ [e])" by (simp add: o(1))
  ultimately show ?thesis unfolding entry_ok_def using o(2,3,4) by blast
qed

text \<open>One more event: the operation it concerns goes on, the others are as they were.\<close>

lemma device_inv_continue:
  assumes inv: "device_inv kc s0 xs c" and run: "device_run kc (xs @ [e]) (new_loop s0) = Some (continue n p c')"
    and c': "lp_state c' = lp_state c" "entries c' \<subseteq> entries c" "lp_next c' = length (calls (xs @ [e]))"
    and o: "xs @ [e] = before @ Call x # rest" "n = length (calls before)" "device_run kc before (new_loop s0) = Some c1"
    and f: "follows (set (challenges before)) (let_in kc x (set (challenges before)) (lp_state c1)) {r. Answer n r \<in> set rest} p (lp_state c)"
  shows "device_inv kc s0 (xs @ [e]) (continue n p c')"
proof -
  have f': "follows (set (challenges before)) (let_in kc x (set (challenges before)) (lp_state c1)) {r. Answer n r \<in> set rest} p (lp_state c')"
    using f by (simp add: c'(1))
  note E = entries_continue [OF f', of n] advance_follows [OF f']
  have sub: "nonces (lp_state (continue n p c')) \<subseteq> nonces (lp_state c)" using E c'(1) by simp
  have "entry_ok kc s0 (xs @ [e]) (lp_state (continue n p c')) n (fst (advance p c'))"
    unfolding entry_ok_def using E o by auto
  moreover have "entry_ok kc s0 (xs @ [e]) (lp_state (continue n p c')) m q" if "(m, q) \<in> entries c'" for m q
    using that inv c'(2) sub by (intro entry_ok_later [of kc s0 xs "lp_state c"] no_revival_refl) (auto simp: device_inv_def)
  ultimately show ?thesis
    using run sub inv E c'(3) by (auto simp: device_inv_def)
qed

lemma device_inv_challenge:
  assumes inv: "device_inv kc s0 xs c" and new: "u \<notin> set (challenges xs)"
    and step: "loop_step device_fits (device_op kc) (Call (CChallenge u)) c = Some c'"
  shows "device_inv kc s0 (xs @ [Call (CChallenge u)]) c'"
proof -
  have run: "device_run kc xs (new_loop s0) = Some c" using inv by (simp add: device_inv_def)
  have c': "lp_state c' = (sweep (lp_state c))\<lparr>dv_pending := AList.update u (dv_now (lp_state c) + CHALLENGE_TTL_SECONDS) (dv_pending (sweep (lp_state c)))\<rparr>"
    "entries c' = insert (lp_next c, Return (Challenge u (dv_now (lp_state c) + CHALLENGE_TTL_SECONDS))) (entries c)" "lp_next c' = Suc (lp_next c)"
    using step by (auto simp: device_op_def device_challenge_def continue_def entries_def outcome_def Let_def sweep_def)
  have sub: "nonces (lp_state c') \<subseteq> insert u (nonces (lp_state c))"
    using nonces_sweep [of "lp_state c"] by (auto simp: c'(1) nonces_def dom_update)
  have "entry_ok kc s0 (xs @ [Call (CChallenge u)]) (lp_state c') (lp_next c) (Return (Challenge u t))" for t
    unfolding entry_ok_def using run inv by (auto simp: device_inv_def let_in_def)
  moreover have "no_revival (set (challenges xs)) (lp_state c) (lp_state c')"
    using sub new by (auto simp: no_revival_def)
  then have "entry_ok kc s0 (xs @ [Call (CChallenge u)]) (lp_state c') n p" if "(n, p) \<in> entries c" for n p
    using that inv by (auto simp: device_inv_def intro: entry_ok_later)
  ultimately show ?thesis
    using inv sub step run by (auto simp: device_inv_def c'(2,3) loop_run_append)
qed

lemma device_inv_step:
  assumes inv: "device_inv kc s0 xs c" and new: "distinct (challenges (xs @ [e]))"
    and step: "loop_step device_fits (device_op kc) e c = Some c'"
  shows "device_inv kc s0 (xs @ [e]) c'"
proof -
  have run: "device_run kc xs (new_loop s0) = Some c" "lp_next c = length (calls xs)" "nonces (lp_state c) \<subseteq> set (challenges xs)"
    using inv by (simp_all add: device_inv_def)
  have run': "device_run kc (xs @ [e]) (new_loop s0) = Some c'" using run(1) step by (simp add: loop_run_append)
  show ?thesis
  proof (cases e)
    case (Call x)
    show ?thesis
    proof (cases "\<exists>u. x = CChallenge u")
      case True
      then show ?thesis using device_inv_challenge [OF inv] new step Call by auto
    next
      case False
      let ?N = "set (challenges xs)"
      have "follows ?N (let_in kc x ?N (lp_state c)) {} (device_op kc x) (lp_state c)"
        using op_follows [OF run(3)] False by blast
      moreover have "c' = continue (lp_next c) (device_op kc x) (c\<lparr>lp_next := Suc (lp_next c)\<rparr>)" using step Call by simp
      ultimately show ?thesis
        using run run' Call
        by (auto intro!: device_inv_continue [OF inv, where before = xs and rest = "[]" and x = x] simp: entries_def)
    qed
  next
    case (Answer n r)
    then obtain q k where t: "map_of (lp_tasks c) n = Some (Await q k)" and fit: "\<And>a. r = Inr a \<Longrightarrow> device_fits q a"
      and c': "c' = continue n (k r) (c\<lparr>lp_tasks := AList.delete n (lp_tasks c)\<rparr>)"
      using step by (auto split: option.splits proc.splits if_splits sum.splits)
    have "(n, Await q k) \<in> entries c" using map_of_SomeD [OF t] by (simp add: entries_def)
    then have "entry_ok kc s0 xs (lp_state c) n (Await q k)" using inv by (auto simp: device_inv_def)
    then obtain before x rest c1 where o: "xs = before @ Call x # rest" "n = length (calls before)" "device_run kc before (new_loop s0) = Some c1"
      "follows (set (challenges before)) (let_in kc x (set (challenges before)) (lp_state c1)) {r. Answer n r \<in> set rest} (Await q k) (lp_state c)"
      unfolding entry_ok_def by blast
    have "follows (set (challenges before)) (let_in kc x (set (challenges before)) (lp_state c1)) (insert r {r. Answer n r \<in> set rest}) (k r) (lp_state c)"
      using o(4) fit no_revival_refl [OF subset_refl] by auto
    moreover have "insert r {r. Answer n r \<in> set rest} = {r. Answer n r \<in> set (rest @ [e])}" using Answer by auto
    ultimately show ?thesis
      unfolding c' using run(2) run' [unfolded c'] Answer o(1)
      by (intro device_inv_continue [OF inv, where before = before and x = x and rest = "rest @ [e]" and ?c1.0 = c1])
        (auto simp: entries_def AList.delete_eq o(2,3))
  next
    case (Deliver n)
    then obtain m k where "map_of (lp_tasks c) n = Some (Join m k)" using step by (auto split: option.splits proc.splits)
    then have "(n, Join m k) \<in> entries c" by (auto simp: entries_def dest: map_of_SomeD)
    then show ?thesis using inv by (auto simp: device_inv_def entry_ok_def)
  qed
qed

lemma device_inv_run:
  assumes "device_run kc xs (new_loop s0) = Some c" and "dv_pending s0 = []" and "distinct (challenges xs)"
  shows "device_inv kc s0 xs c"
  using assms
proof (induction xs arbitrary: c rule: rev_induct)
  case Nil
  then show ?case by (auto simp: device_inv_def entries_def new_loop_def nonces_def)
next
  case (snoc e xs)
  then obtain c1 where "device_run kc xs (new_loop s0) = Some c1" "loop_step device_fits (device_op kc) e c1 = Some c"
    by (auto simp: loop_run_append split: Option.bind_splits)
  then show ?case using snoc by (intro device_inv_step) simp_all
qed

lemma verified_evidence:
  assumes "device_inv kc s0 xs c" and "(n, Inr (Verified user i)) \<in> set (lp_done c)"
  shows "\<exists>before nonce sg rest c1 row expiry. xs = before @ Call (CVerify i nonce sg) # rest \<and> n = length (calls before)
    \<and> device_run kc before (new_loop s0) = Some c1 \<and> nonce \<in> set (challenges before)
    \<and> (nonce, expiry) \<in> set (dv_pending (lp_state c1)) \<and> dv_now (lp_state c1) < expiry
    \<and> Answer n (Inr (Row (Some row))) \<in> set rest \<and> dr_id row = i \<and> dr_owner row = user \<and> kc_verify kc nonce (dr_publicKey row) sg
    \<and> nonce \<notin> nonces (lp_state c)"
proof -
  have "(n, Return (Verified user i)) \<in> entries c"
    using assms(2) unfolding entries_def by (force simp: outcome_def image_iff)
  then have "entry_ok kc s0 xs (lp_state c) n (Return (Verified user i))" using assms(1) by (auto simp: device_inv_def)
  then obtain before x rest c1 where o: "xs = before @ Call x # rest" "n = length (calls before)" "device_run kc before (new_loop s0) = Some c1"
    "let_in kc x (set (challenges before)) (lp_state c1) {r. Answer n r \<in> set rest} (Verified user i) (lp_state c)"
    unfolding entry_ok_def by auto
  from o(4) obtain nonce sg row expiry where "x = CVerify i nonce sg" "nonce \<in> set (challenges before)" "nonce \<notin> nonces (lp_state c)"
      "(nonce, expiry) \<in> set (dv_pending (lp_state c1))" "dv_now (lp_state c1) < expiry" "Inr (Row (Some row)) \<in> {r. Answer n r \<in> set rest}"
      "dr_id row = i" "dr_owner row = user" "kc_verify kc nonce (dr_publicKey row) sg"
    unfolding let_in_def by blast
  with o show ?thesis
    by (intro exI [of _ before] exI [of _ nonce] exI [of _ sg] exI [of _ rest] exI [of _ c1] exI [of _ row] exI [of _ expiry]) simp
qed

lemma continue_shape:
  assumes "follows N Q A p (lp_state c)"
  shows "fst ` set (lp_tasks (continue n p c)) \<subseteq> insert n (fst ` set (lp_tasks c))"
    and "lp_done (continue n p c) = lp_done c \<or> (\<exists>r. lp_done (continue n p c) = (n, r) # lp_done c)"
  using advance_follows [OF assms] by (cases "fst (advance p c)"; auto simp: continue_def Let_def)+

text \<open>What a step does to the numbers: only the operation it starts or goes on with is concerned.\<close>

lemma step_shape:
  assumes inv: "device_inv kc s0 xs c" and step: "loop_step device_fits (device_op kc) e c = Some c'"
  shows "\<exists>n. (case e of Call _ \<Rightarrow> n = lp_next c | _ \<Rightarrow> n \<in> fst ` set (lp_tasks c))
    \<and> fst ` set (lp_tasks c') \<subseteq> insert n (fst ` set (lp_tasks c))
    \<and> (lp_done c' = lp_done c \<or> (\<exists>r. lp_done c' = (n, r) # lp_done c))"
proof (cases e)
  case (Call x)
  let ?c = "c\<lparr>lp_next := Suc (lp_next c)\<rparr>"
  have c': "c' = continue (lp_next c) (device_op kc x) ?c" using step Call by simp
  show ?thesis
  proof (cases "\<exists>u. x = CChallenge u")
    case True
    then show ?thesis unfolding c' Call by (auto simp: device_op_def device_challenge_def continue_def Let_def)
  next
    case False
    have "follows (set (challenges xs)) (let_in kc x (set (challenges xs)) (lp_state c)) {} (device_op kc x) (lp_state ?c)"
      using op_follows [of "lp_state c" "set (challenges xs)" x kc] inv False by (auto simp: device_inv_def)
    from continue_shape [OF this, of "lp_next c"] show ?thesis unfolding c' Call by (intro exI [of _ "lp_next c"]) simp
  qed
next
  case (Answer n r)
  let ?c = "c\<lparr>lp_tasks := AList.delete n (lp_tasks c)\<rparr>"
  obtain q k where t: "map_of (lp_tasks c) n = Some (Await q k)" and fit: "\<And>a. r = Inr a \<Longrightarrow> device_fits q a" and c': "c' = continue n (k r) ?c"
    using step Answer by (auto split: option.splits proc.splits if_splits sum.splits)
  have n: "n \<in> fst ` set (lp_tasks c)" using map_of_SomeD [OF t] by force
  have "(n, Await q k) \<in> entries c" using map_of_SomeD [OF t] by (simp add: entries_def)
  then have "entry_ok kc s0 xs (lp_state c) n (Await q k)" using inv by (auto simp: device_inv_def)
  then obtain N Q A where "follows N Q A (Await q k) (lp_state c)" unfolding entry_ok_def by blast
  then have "follows N Q (insert r A) (k r) (lp_state ?c)" using fit no_revival_refl [OF subset_refl] by auto
  from continue_shape [OF this, of n] n show ?thesis
    unfolding c' Answer by (intro exI [of _ n]) (auto simp: AList.delete_eq)
next
  case (Deliver n)
  then obtain m k where "map_of (lp_tasks c) n = Some (Join m k)" using step by (auto split: option.splits proc.splits)
  then have "(n, Join m k) \<in> entries c" by (auto simp: entries_def dest: map_of_SomeD)
  then show ?thesis using inv by (auto simp: device_inv_def entry_ok_def)
qed

lemma task_number: "device_inv kc s0 xs c \<Longrightarrow> n \<in> fst ` set (lp_tasks c) \<Longrightarrow> n < length (calls xs)"
  by (force simp: device_inv_def entries_def entry_ok_def)

text \<open>A used challenge: every attempt called from then on is refused as it is called.\<close>

definition spent :: "string \<Rightarrow> nat \<Rightarrow> device_call list \<Rightarrow> device_loop \<Rightarrow> bool" where
  "spent nonce n0 cs c \<longleftrightarrow>
     (\<forall>m i sg. n0 \<le> m \<longrightarrow> m < length cs \<longrightarrow> cs ! m = CVerify i nonce sg \<longrightarrow>
        m \<notin> fst ` set (lp_tasks c) \<and> map_of (lp_done c) m = Some (Inr (Refused ''unknown or already-used nonce'')))"

lemma spent_step:
  assumes inv: "device_inv kc s0 xs c" and step: "loop_step device_fits (device_op kc) e c = Some c'"
    and gone: "nonce \<notin> nonces (lp_state c)" and sp: "spent nonce n0 (calls xs) c"
  shows "spent nonce n0 (calls (xs @ [e])) c'"
proof -
  obtain n where n: "case e of Call _ \<Rightarrow> n = lp_next c | _ \<Rightarrow> n \<in> fst ` set (lp_tasks c)"
      "fst ` set (lp_tasks c') \<subseteq> insert n (fst ` set (lp_tasks c))" "lp_done c' = lp_done c \<or> (\<exists>r. lp_done c' = (n, r) # lp_done c)"
    using step_shape [OF inv step] by blast
  have next_n: "lp_next c = length (calls xs)" using inv by (simp add: device_inv_def)
  have old: "m \<notin> fst ` set (lp_tasks c') \<and> map_of (lp_done c') m = Some (Inr (Refused ''unknown or already-used nonce''))"
    if "n0 \<le> m" "m < length (calls xs)" "calls xs ! m = CVerify i nonce sg" for m i sg
  proof -
    have m: "m \<notin> fst ` set (lp_tasks c)" "map_of (lp_done c) m = Some (Inr (Refused ''unknown or already-used nonce''))"
      using sp that by (auto simp: spent_def)
    then have "m \<noteq> n" using n(1) that(2) next_n by (auto split: event.splits)
    with m n(2,3) show ?thesis by auto
  qed
  show ?thesis
  proof (cases e)
    case (Call x)
    have "lp_next c \<notin> fst ` set (lp_tasks c') \<and> map_of (lp_done c') (lp_next c) = Some (Inr (Refused ''unknown or already-used nonce''))"
      if "x = CVerify i nonce sg" for i sg
    proof -
      have "map_of (dv_pending (sweep (lp_state c))) nonce = None"
        using gone nonces_sweep [of "lp_state c"] by (auto simp: nonces_def map_of_eq_None_iff)
      moreover have "lp_next c \<notin> fst ` set (lp_tasks c)" using task_number [OF inv, of "lp_next c"] next_n by auto
      ultimately show ?thesis using step that Call by (auto simp: device_op_def device_verify_def continue_def Let_def)
    qed
    then show ?thesis using old next_n by (auto simp: spent_def Call nth_append less_Suc_eq)
  next
    case (Answer k r)
    with old show ?thesis by (simp add: spent_def)
  next
    case (Deliver k)
    with old show ?thesis by (simp add: spent_def)
  qed
qed

lemma spent_run:
  assumes inv: "device_inv kc s0 xs c" and v: "(n, Inr (Verified user i)) \<in> set (lp_done c)"
    and call: "n < length (calls xs)" "calls xs ! n = CVerify i nonce sg"
    and "dv_pending s0 = []" "device_run kc ys c = Some c2" "distinct (challenges (xs @ ys))"
  shows "spent nonce (length (calls xs)) (calls (xs @ ys)) c2 \<and> (n, Inr (Verified user i)) \<in> set (lp_done c2)"
  using assms(6,7)
proof (induction ys arbitrary: c2 rule: rev_induct)
  case Nil
  then show ?case using v by (simp add: spent_def)
next
  case (snoc e ys)
  then obtain c1 where c1: "device_run kc ys c = Some c1" "loop_step device_fits (device_op kc) e c1 = Some c2"
    by (auto simp: loop_run_append split: Option.bind_splits)
  have IH: "spent nonce (length (calls xs)) (calls (xs @ ys)) c1" "(n, Inr (Verified user i)) \<in> set (lp_done c1)"
    using snoc.IH [OF c1(1)] snoc.prems(2) by auto
  have run: "device_run kc (xs @ ys) (new_loop s0) = Some c1" using inv c1(1) by (simp add: device_inv_def loop_run_append)
  have inv1: "device_inv kc s0 (xs @ ys) c1" using snoc.prems(2) by (intro device_inv_run [OF run assms(5)]) auto
  obtain before nonce' sg' rest where e: "xs @ ys = before @ Call (CVerify i nonce' sg') # rest" "n = length (calls before)" "nonce' \<notin> nonces (lp_state c1)"
    using verified_evidence [OF inv1 IH(2)] by blast
  have "calls (xs @ ys) ! n = CVerify i nonce' sg'" by (simp add: e(1,2) nth_append)
  then have "nonce' = nonce" using call by (simp add: nth_append)
  then have "spent nonce (length (calls xs)) (calls ((xs @ ys) @ [e])) c2"
    using spent_step [OF inv1 c1(2) _ IH(1)] e(3) by blast
  moreover have "set (lp_done c1) \<subseteq> set (lp_done c2)" using step_shape [OF inv1 c1(2)] by auto
  ultimately show ?case using IH(2) by auto
qed

text \<open>
  C19. Whatever requests come and whatever the store answers, in any interleaving, from a start with no
  challenge pending, and challenge ids not repeating. A device is let in only
  by an attempt whose challenge had been issued and was pending and unexpired when the attempt was made,
  signed with the key that was looked up for that device, and as that row's owner. The challenge is then
  used up: every attempt with it that is made later, whatever the device and the signature, is refused
  as unknown or already used. (Attempts under way at the same time can both pass, see below.)
\<close>

theorem challenge_used_once:
  assumes "device_run kc xs (new_loop s0) = Some c" and "dv_pending s0 = []"
    and "(n, Inr (Verified user i)) \<in> set (lp_done c)"
    and "device_run kc ys c = Some c2" and "distinct (challenges (xs @ ys))"
  shows "\<exists>before nonce sg rest c1 row expiry. xs = before @ Call (CVerify i nonce sg) # rest \<and> n = length (calls before)
    \<and> device_run kc before (new_loop s0) = Some c1 \<and> nonce \<in> set (challenges before)
    \<and> (nonce, expiry) \<in> set (dv_pending (lp_state c1)) \<and> dv_now (lp_state c1) < expiry
    \<and> Answer n (Inr (Row (Some row))) \<in> set rest \<and> dr_id row = i \<and> dr_owner row = user \<and> kc_verify kc nonce (dr_publicKey row) sg
    \<and> (\<forall>m j sg2. length (calls xs) \<le> m \<longrightarrow> m < length (calls (xs @ ys)) \<longrightarrow> calls (xs @ ys) ! m = CVerify j nonce sg2 \<longrightarrow>
          map_of (lp_done c2) m = Some (Inr (Refused ''unknown or already-used nonce'')))"
proof -
  have inv: "device_inv kc s0 xs c" using assms(5) by (intro device_inv_run [OF assms(1,2)]) simp
  obtain before nonce sg rest c1 row expiry where e: "xs = before @ Call (CVerify i nonce sg) # rest" "n = length (calls before)"
      "device_run kc before (new_loop s0) = Some c1" "nonce \<in> set (challenges before)" "(nonce, expiry) \<in> set (dv_pending (lp_state c1))"
      "dv_now (lp_state c1) < expiry" "Answer n (Inr (Row (Some row))) \<in> set rest" "dr_id row = i" "dr_owner row = user"
      "kc_verify kc nonce (dr_publicKey row) sg"
    using verified_evidence [OF inv assms(3)] by blast
  have "n < length (calls xs)" "calls xs ! n = CVerify i nonce sg" by (simp_all add: e(1,2))
  then have "spent nonce (length (calls xs)) (calls (xs @ ys)) c2"
    using spent_run [OF inv assms(3) _ _ assms(2,4,5)] by blast
  then show ?thesis unfolding spent_def using e by blast
qed

definition demo_visit :: device_history where
  "demo_visit = [Call (CTick 100), Call (CChallenge ''n1''), Call (CVerify ''d1'' ''n1'' ''n1K''),
     Answer 2 (Inr (Row (Some (demo_device ''d1'' 30)))), Answer 2 (Inr Done)]"

lemmas demo_run_simps = device_op_def device_challenge_def device_verify_def sweep_def consume_def request_def answer_row_def
  demo_keys_def demo_device_def device_fits_def CHALLENGE_TTL_SECONDS_def continue_def new_loop_def Let_def

theorem challenge_used_once_witness:
  "\<exists>c c2. device_run demo_keys demo_visit (new_loop \<lparr>dv_pending = [], dv_now = 0\<rparr>) = Some c
    \<and> (2, Inr (Verified ''ada'' ''d1'')) \<in> set (lp_done c)
    \<and> device_run demo_keys [Call (CVerify ''d1'' ''n1'' ''n1K'')] c = Some c2
    \<and> map_of (lp_done c2) 3 = Some (Inr (Refused ''unknown or already-used nonce''))"
proof -
  let ?s = "\<lparr>dv_pending = [], dv_now = 0\<rparr>" and ?ys = "[Call (CVerify ''d1'' ''n1'' ''n1K'')] :: device_history"
  obtain c where c: "device_run demo_keys demo_visit (new_loop ?s) = Some c" "(2, Inr (Verified ''ada'' ''d1'')) \<in> set (lp_done c)"
    by (simp add: demo_visit_def demo_run_simps)
  obtain c2 where c2: "device_run demo_keys ?ys c = Some c2" by simp
  have d: "distinct (challenges (demo_visit @ ?ys))" by (simp add: demo_visit_def)
  obtain before nonce sg rest where e: "demo_visit = before @ Call (CVerify ''d1'' nonce sg) # rest" "2 = length (calls before)"
    and later: "\<And>m j sg2. length (calls demo_visit) \<le> m \<Longrightarrow> m < length (calls (demo_visit @ ?ys)) \<Longrightarrow>
        calls (demo_visit @ ?ys) ! m = CVerify j nonce sg2 \<Longrightarrow> map_of (lp_done c2) m = Some (Inr (Refused ''unknown or already-used nonce''))"
    using challenge_used_once [OF c(1) _ c(2) c2 d] by auto
  have "calls demo_visit ! 2 = CVerify ''d1'' nonce sg" unfolding e(1) by (simp add: e(2))
  then have "nonce = ''n1''" by (simp add: demo_visit_def)
  then have "map_of (lp_done c2) 3 = Some (Inr (Refused ''unknown or already-used nonce''))"
    by (intro later [of 3]) (simp_all add: demo_visit_def)
  with c c2 show ?thesis by blast
qed

text \<open>
  Two attempts at once both pass: the challenge is consumed after the device was looked up. An attempt
  with an unknown device leaves the challenge pending. And two registrations at once both count the
  owner's devices before either adds its own.
\<close>

lemma concurrent_attempts_both_pass:
  "map_option (\<lambda>c. filter (\<lambda>(n, _). 2 \<le> n) (lp_done c))
     (device_run demo_keys
       [Call (CTick 100), Call (CChallenge ''n1''), Call (CVerify ''d1'' ''n1'' ''n1K''), Call (CVerify ''d1'' ''n1'' ''n1K''),
        Answer 2 (Inr (Row (Some (demo_device ''d1'' 30)))), Answer 3 (Inr (Row (Some (demo_device ''d1'' 30)))),
        Answer 2 (Inr Done), Answer 3 (Inr Done)] (new_loop \<lparr>dv_pending = [], dv_now = 0\<rparr>))
   = Some [(3, Inr (Verified ''ada'' ''d1'')), (2, Inr (Verified ''ada'' ''d1''))]"
  by (simp add: demo_run_simps)

lemma unknown_device_keeps_challenge:
  "alone (pg_device_store driver) (device_verify demo_keys ''zz'' ''n1'' ''n1K'') \<lparr>dv_pending = [(''n1'', 220)], dv_now = 100\<rparr> demo_table
     = Some (Inr (Refused ''unknown device''), \<lparr>dv_pending = [(''n1'', 220)], dv_now = 100\<rparr>, demo_table)"
  by (simp add: device_verify_def sweep_def alone_request pg_device_store_def answer_row_def demo_table_def)

definition demo_register :: "string \<Rightarrow> device_proc" where
  "demo_register uuid = store_device ''ada'' (JStr ''K'') None uuid"

lemma concurrent_registrations_exceed_cap:
  "map_option (\<lambda>c. (lp_done c, lp_issued c)) (loop_run device_fits demo_register
      [Call ''d3'', Call ''d4'', Answer 0 (Inr (Rows [demo_device ''d1'' 1, demo_device ''d2'' 2])),
       Answer 1 (Inr (Rows [demo_device ''d1'' 1, demo_device ''d2'' 2])), Answer 0 (Inr Done), Answer 1 (Inr Done)]
      (new_loop \<lparr>dv_pending = [], dv_now = 100\<rparr>))
   = Some ([(1, Inr (Registered ''d4'')), (0, Inr (Registered ''d3''))],
           [ListByOwner ''ada'', ListByOwner ''ada'', AddDevice (demo_device ''d3'' 100), AddDevice (demo_device ''d4'' 100)])"
  by (simp add: demo_register_def store_device_def request_def answer_rows_def evicted_def MAX_DEVICES_PER_OWNER_def demo_device_def
      device_fits_def continue_def new_loop_def Let_def)

end
