(* ===== verification/Byoc_Server.thy ===== *)
theory Byoc_Server
  imports Byoc_Relay Byoc_Devices
begin

text \<open>
  The controller's HTTP surface (\<^verbatim>\<open>byoc-controller/src/server.ts\<close>): the routes, the gates of the socket
  upgrade, and the stream of frames a container opens, kept in a window of its last frames. A request is
  its method, its path with the query, its JSON body and the user the authenticated surface resolved.
  Strings are decoded from percent-escapes as \<^verbatim>\<open>decodeURIComponent\<close> does; \<open>other\<close> decodes escaped bytes
  whose text has code units above 255, or none if it throws.
\<close>

subsection \<open>Paths\<close>

text \<open>The escaped bytes at the front, and the rest.\<close>

fun escaped :: "string \<Rightarrow> string \<times> string" where
  "escaped (p # a # b # cs) =
     (if p \<noteq> CHR ''%'' then ([], p # a # b # cs)
      else case (hex_value a, hex_value b) of
        (Some x, Some y) \<Rightarrow> (let (bytes, rest) = escaped cs in (char_of (16 * x + y) # bytes, rest))
      | _ \<Rightarrow> ([], p # a # b # cs))"
| "escaped cs = ([], cs)"

lemma escaped_shorter: "length (snd (escaped cs)) + length (fst (escaped cs)) \<le> length cs"
proof (induction cs rule: escaped.induct)
  case (1 p a b cs)
  then have "p = CHR ''%'' \<Longrightarrow> hex_value a \<noteq> None \<Longrightarrow> hex_value b \<noteq> None \<Longrightarrow>
      length (snd (escaped cs)) + length (fst (escaped cs)) \<le> length cs" by auto
  then show ?case by (auto simp: split_beta Let_def split: option.splits)
qed auto

lemma escaped_length: "fst (escaped cs) \<noteq> [] \<Longrightarrow> length (snd (escaped cs)) < length cs"
  using escaped_shorter [of cs] by (cases "fst (escaped cs)") auto

definition escaped_text :: "(string \<Rightarrow> string option) \<Rightarrow> string \<Rightarrow> string option" where
  "escaped_text other bytes = (case utf8_latin bytes of Some t \<Rightarrow> Some t | None \<Rightarrow> other bytes)"

function decodeURIComponent :: "(string \<Rightarrow> string option) \<Rightarrow> string \<Rightarrow> string option" where
  "decodeURIComponent other cs =
     (case cs of
        [] \<Rightarrow> Some []
      | c # rest \<Rightarrow>
          if c \<noteq> CHR ''%'' then map_option ((#) c) (decodeURIComponent other rest)
          else if fst (escaped cs) = [] then None
          else (case (escaped_text other (fst (escaped cs)), decodeURIComponent other (snd (escaped cs))) of
                  (Some t, Some u) \<Rightarrow> Some (t @ u)
                | _ \<Rightarrow> None))"
  by auto
termination by (relation "measure (length \<circ> snd)") (auto dest: escaped_length)

text \<open>\<^verbatim>\<open>new URLSearchParams(query).get(k)\<close>: a plus is a space and a stray percent sign is kept.\<close>

function form_decode :: "(string \<Rightarrow> string option) \<Rightarrow> string \<Rightarrow> string" where
  "form_decode other cs =
     (case cs of
        [] \<Rightarrow> []
      | c # rest \<Rightarrow>
          if fst (escaped cs) = [] then (if c = CHR ''+'' then CHR '' '' else c) # form_decode other rest
          else (case escaped_text other (fst (escaped cs)) of None \<Rightarrow> [] | Some t \<Rightarrow> t) @ form_decode other (snd (escaped cs)))"
  by auto
termination by (relation "measure (length \<circ> snd)") (auto dest: escaped_length)

definition search_param :: "(string \<Rightarrow> string option) \<Rightarrow> string \<Rightarrow> string \<Rightarrow> string option" where
  "search_param other k query =
     map_of (map (\<lambda>pair. (form_decode other (takeWhile (\<lambda>c. c \<noteq> CHR ''='') pair),
                          form_decode other (drop 1 (dropWhile (\<lambda>c. c \<noteq> CHR ''='') pair))))
               (filter (\<lambda>p. p \<noteq> []) (split_at_char CHR ''&'' query))) k"

definition path_parts :: "(string \<Rightarrow> string option) \<Rightarrow> string \<Rightarrow> string list option" where
  "path_parts other pathname =
     those (map (decodeURIComponent other) (filter (\<lambda>p. p \<noteq> []) (split_at_char CHR ''/'' pathname)))"

subsection \<open>State\<close>

record server =
  sv_ct :: controller
  sv_authFailures :: "(json, string \<times> string) js_map"
  sv_tunnelQueues :: "(string, json list) js_map"
  sv_tunnelTrimmed :: "(string, nat) js_map"

record server_env =
  se_crypto :: crypto
  se_secret :: string
  se_now :: int
  se_uuid :: "nat \<Rightarrow> string"                  \<comment> \<open>the ids drawn while a request is handled\<close>
  se_throws :: "nat \<Rightarrow> string option"
  se_noData :: string                          \<comment> \<open>the error of sending \<^verbatim>\<open>undefined\<close>\<close>
  se_other :: "string \<Rightarrow> string option"
  se_devices :: "key_check option"

record byoc_request =
  br_method :: string
  br_path :: string
  br_body :: "json option"
  br_user :: "string option"

datatype byoc_outcome =
    Reply int "json option"
  | RunStream string
  | TunnelStream string
  | DeviceCall device_proc "device_result \<Rightarrow> int \<times> json option"

definition err :: "int \<Rightarrow> string \<Rightarrow> byoc_outcome" where
  "err status reason = Reply status (Some (JObj [(''error'', JStr reason)]))"

subsection \<open>The inbound tunnel stream\<close>

definition TUNNEL_QUEUE_MAX :: nat where "TUNNEL_QUEUE_MAX = 512"

definition tunnel_queue :: "server \<Rightarrow> string \<Rightarrow> json list" where
  "tunnel_queue sv sid = (case map_of (sv_tunnelQueues sv) sid of None \<Rightarrow> [] | Some q \<Rightarrow> q)"

definition tunnel_trimmed :: "server \<Rightarrow> string \<Rightarrow> nat" where
  "tunnel_trimmed sv sid = (case map_of (sv_tunnelTrimmed sv) sid of None \<Rightarrow> 0 | Some n \<Rightarrow> n)"

definition on_tunnel_frame :: "string \<Rightarrow> json \<Rightarrow> server \<Rightarrow> server" where
  "on_tunnel_frame sid f sv =
     (let q = tunnel_queue sv sid @ [f]; n = length q - TUNNEL_QUEUE_MAX
      in if TUNNEL_QUEUE_MAX < length q
         then sv\<lparr>sv_tunnelQueues := AList.update sid (drop n q) (sv_tunnelQueues sv),
                 sv_tunnelTrimmed := AList.update sid (tunnel_trimmed sv sid + n) (sv_tunnelTrimmed sv)\<rparr>
         else sv\<lparr>sv_tunnelQueues := AList.update sid q (sv_tunnelQueues sv)\<rparr>)"

text \<open>A reader with cursor \<open>seq\<close> asks for its next frame; none when it has to wait.\<close>

definition tunnel_read :: "server \<Rightarrow> string \<Rightarrow> nat \<Rightarrow> json option \<times> nat" where
  "tunnel_read sv sid seq =
     (let trimmed = tunnel_trimmed sv sid; at = (if seq < trimmed then trimmed else seq)
      in if at - trimmed < length (tunnel_queue sv sid) then (Some (tunnel_queue sv sid ! (at - trimmed)), at + 1) else (None, at))"

text \<open>A container's message, the tunnel frames in it handed on.\<close>

definition server_message :: "(string \<Rightarrow> json option) \<Rightarrow> string \<Rightarrow> string \<Rightarrow> server \<Rightarrow> js_exn + server" where
  "server_message dec sid raw sv =
     (case on_socket_message dec sid raw (sv_ct sv) of
        Inl e \<Rightarrow> Inl e
      | Inr ct \<Rightarrow>
          Inr (fold (\<lambda>(i, f). on_tunnel_frame i f) (drop (length (rl_tunnel (ct_relay (sv_ct sv)))) (rl_tunnel (ct_relay ct))) (sv\<lparr>sv_ct := ct\<rparr>)))"

subsection \<open>Routes\<close>

definition answer_reply :: "(string + unit) \<Rightarrow> int \<Rightarrow> json option \<Rightarrow> byoc_outcome" where
  "answer_reply res status body = (case res of Inr _ \<Rightarrow> Reply status body | Inl reason \<Rightarrow> err 409 reason)"

definition with_relay :: "server \<Rightarrow> relay \<Rightarrow> server" where
  "with_relay sv s = sv\<lparr>sv_ct := (sv_ct sv)\<lparr>ct_relay := s\<rparr>\<rparr>"

definition device_routes :: "server_env \<Rightarrow> byoc_request \<Rightarrow> string list \<Rightarrow> byoc_outcome option" where
  "device_routes se req parts =
     (if br_method req = ''POST'' \<and> parts = [''byoc'', ''devices'']
      then Some (case se_devices se of
         None \<Rightarrow> err 404 ''device auth not enabled''
       | Some kc \<Rightarrow>
           if falsy (opt_member ''joinToken'' (br_body req)) \<or> falsy (opt_member ''publicKey'' (br_body req))
           then err 400 ''joinToken and publicKey required''
           else (case opt_member ''joinToken'' (br_body req) of
                   Some (JStr token) \<Rightarrow>
                     DeviceCall (device_register kc token (the (opt_member ''publicKey'' (br_body req))) (opt_member ''label'' (br_body req)) (se_uuid se 0))
                       (\<lambda>res. case res of Registered i \<Rightarrow> (200, Some (JObj [(''deviceId'', JStr i)]))
                              | Refused reason \<Rightarrow> (401, Some (JObj [(''error'', JStr reason)]))
                              | _ \<Rightarrow> (500, None))
                 | _ \<Rightarrow> err 500 ''internal error''))
      else if br_method req = ''GET'' \<and> parts = [''byoc'', ''challenge'']
      then Some (case se_devices se of
         None \<Rightarrow> err 404 ''device auth not enabled''
       | Some kc \<Rightarrow>
           DeviceCall (device_challenge (se_uuid se 0))
             (\<lambda>res. case res of Challenge n t \<Rightarrow> (200, Some (JObj [(''nonce'', JStr n), (''expiresAt'', JNum t)])) | _ \<Rightarrow> (500, None)))
      else if br_method req = ''GET'' \<and> parts = [''byoc'', ''devices'']
      then Some (case (se_devices se, br_user req) of
         (None, _) \<Rightarrow> err 404 ''device auth not enabled''
       | (Some kc, Some (u # us)) \<Rightarrow>
           DeviceCall (device_listDevices (u # us))
             (\<lambda>res. case res of
                Devices ds \<Rightarrow> (200, Some (JArr (map (\<lambda>(i, label, seen).
                  JObj ([(''id'', JStr i)] @ (case label of None \<Rightarrow> [] | Some l \<Rightarrow> [(''label'', l)]) @ [(''lastSeen'', JNum seen)])) ds)))
              | _ \<Rightarrow> (500, None))
       | _ \<Rightarrow> err 401 ''authentication required'')
      else if br_method req = ''DELETE'' \<and> length parts = 3 \<and> parts ! 1 = ''devices''
      then Some (case (se_devices se, br_user req) of
         (None, _) \<Rightarrow> err 404 ''device auth not enabled''
       | (Some kc, Some (u # us)) \<Rightarrow> DeviceCall (device_deregister (u # us) (parts ! 2)) (\<lambda>_. (204, None))
       | _ \<Rightarrow> err 401 ''authentication required'')
      else None)"

definition failure_json :: "server \<Rightarrow> string \<Rightarrow> json" where
  "failure_json sv user =
     (case map_of (sv_authFailures sv) (JStr user) of
        None \<Rightarrow> JNull | Some (reason, at) \<Rightarrow> JObj [(''reason'', JStr reason), (''at'', JStr at)])"

definition status_route :: "server_env \<Rightarrow> byoc_request \<Rightarrow> string \<Rightarrow> server \<Rightarrow> byoc_outcome" where
  "status_route se req query sv =
     (let user = (case search_param (se_other se) ''owner'' query of Some u \<Rightarrow> u | None \<Rightarrow> (case br_user req of Some u \<Rightarrow> u | None \<Rightarrow> []))
      in if user = [] then err 400 ''owner required''
         else case resolveByOwner (ct_registry (sv_ct sv)) user of
           None \<Rightarrow> Reply 200 (Some (JObj [(''status'', JStr ''disconnected''), (''lastAuthFailure'', failure_json sv user)]))
         | Some v \<Rightarrow> Reply 200 (Some (JObj [(''sessionId'', JStr (vs_sessionId v)),
               (''status'', JStr (if vs_online v then ''connected'' else ''minted'')), (''lastAuthFailure'', failure_json sv user)])))"

definition session_routes :: "server_env \<Rightarrow> byoc_request \<Rightarrow> string list \<Rightarrow> server \<Rightarrow> byoc_outcome \<times> server" where
  "session_routes se req parts sv =
     (let sid = parts ! 1; verb = parts ! 2; r = ct_registry (sv_ct sv); s = ct_relay (sv_ct sv);
          payload = nullish (opt_member ''payload'' (br_body req)) (br_body req)
      in case resolveBySession r sid of
           None \<Rightarrow> (err 404 ''unknown session'', sv)
         | Some v \<Rightarrow>
             if br_method req = ''POST'' \<and> verb = ''prompt'' \<and> length parts = 3
             then (if \<not> vs_online v then (err 503 ''container not connected'', sv)
                   else (RunStream (se_uuid se 0),
                         with_relay sv (relay_request (se_throws se) r (se_uuid se 0) sid
                           (case nullish (opt_member ''type'' (br_body req)) None of None \<Rightarrow> JStr ''prompt'' | Some t \<Rightarrow> t)
                           (case nullish (opt_member ''payload'' (br_body req)) None of None \<Rightarrow> JObj [] | Some p \<Rightarrow> p)
                           (opt_member ''id'' (br_body req)) s)))
             else if br_method req = ''POST'' \<and> verb = ''permission'' \<and> length parts = 4
             then (let (res, s') = relay_answerPermission (se_throws se) r sid (parts ! 3) payload s
                   in (answer_reply res 204 None, with_relay sv s'))
             else if br_method req = ''POST'' \<and> verb = ''tunnel'' \<and> length parts = 4
             then (let (res, s') = (case br_body req of
                                      Some f \<Rightarrow> answerTunnel (se_throws se) r sid f s
                                    | None \<Rightarrow> answerTunnel (\<lambda>_. Some (se_noData se)) r sid JNull s)
                   in (answer_reply res 200 (Some (JObj [(''ok'', JBool True)])), with_relay sv s'))
             else if br_method req = ''POST'' \<and> verb = ''exec'' \<and> length parts = 4
             then (let (res, s') = answerExec (se_throws se) r sid (parts ! 3)
                                     (case nullish payload None of None \<Rightarrow> JObj [] | Some p \<Rightarrow> p) s
                   in (answer_reply res 204 None, with_relay sv s'))
             else (err 404 ''not found'', sv))"

definition byoc_handle :: "server_env \<Rightarrow> byoc_request \<Rightarrow> server \<Rightarrow> byoc_outcome \<times> server" where
  "byoc_handle se req sv =
     (let pieces = split_at_char CHR ''?'' (br_path req); query = (if length pieces < 2 then [] else pieces ! 1)
      in case path_parts (se_other se) (hd pieces) of
           None \<Rightarrow> (err 400 ''malformed path'', sv)
         | Some parts \<Rightarrow>
             if parts = [] \<or> hd parts \<noteq> ''byoc'' then (err 404 ''not found'', sv)
             else if br_method req = ''POST'' \<and> parts = [''byoc'', ''sessions'']
             then (case br_user req of
                     Some (u # us) \<Rightarrow>
                       (Reply 200 (Some (JObj [(''sessionId'', JStr (se_uuid se 0)),
                          (''token'', JStr (byoc_mintJoinToken (se_crypto se) (u # us) (se_secret se) None (se_now se) (se_uuid se 1)))])),
                        sv\<lparr>sv_ct := (sv_ct sv)\<lparr>ct_registry := registry_mint (u # us) (se_uuid se 0) (ct_registry (sv_ct sv))\<rparr>\<rparr>)
                   | _ \<Rightarrow> (err 401 ''authentication required to mint a BYOC session'', sv))
             else case device_routes se req parts of
               Some out \<Rightarrow> (out, sv)
             | None \<Rightarrow>
                 if br_method req = ''GET'' \<and> parts = [''byoc'', ''status''] then (status_route se req query sv, sv)
                 else if br_method req = ''GET'' \<and> length parts = 3 \<and> parts ! 2 = ''tunnel''
                 then (if resolveBySession (ct_registry (sv_ct sv)) (parts ! 1) = None then err 404 ''unknown session''
                       else TunnelStream (parts ! 1), sv)
                 else if 3 \<le> length parts then session_routes se req parts sv
                 else (err 404 ''not found'', sv))"

subsection \<open>The gates of an upgrade\<close>

definition authorizeUpgrade :: "server_env \<Rightarrow> string \<Rightarrow> string \<Rightarrow> server \<Rightarrow> js_exn + string + string" where
  "authorizeUpgrade se sid token sv =
     (case resolveBySession (ct_registry (sv_ct sv)) sid of
        None \<Rightarrow> Inr (Inl ''unknown session'')
      | Some v \<Rightarrow>
          (case byoc_verifyJoinToken (se_crypto se) token (se_secret se) (se_now se) of
             Inl e \<Rightarrow> Inl e
           | Inr (Inl reason) \<Rightarrow> Inr (Inl reason)
           | Inr (Inr claims) \<Rightarrow>
               if \<not> is_str (vs_owner v) (member ''owner'' claims) then Inr (Inl ''owner mismatch'') else Inr (Inr (vs_owner v))))"

definition decodeClaimsUnverified :: "crypto \<Rightarrow> string \<Rightarrow> json option" where
  "decodeClaimsUnverified c token =
     (let pieces = split_at_char CHR ''.'' token
      in if length pieces < 2 \<or> pieces ! 1 = [] then None
         else json_parse (dec_literals c) (utf8_text (other_text c) (fromB64url (lenient c) (pieces ! 1))))"

text \<open>\<open>deviceOwner\<close> is what \<^verbatim>\<open>ownerOf\<close> answered for a device's attempt.\<close>

definition noteAuthFailure :: "server_env \<Rightarrow> string option \<Rightarrow> string option \<Rightarrow> string \<Rightarrow> string \<Rightarrow> string \<Rightarrow> server \<Rightarrow> server" where
  "noteAuthFailure se deviceId deviceOwner token reason at sv =
     (let user = (if deviceId \<noteq> None \<and> deviceId \<noteq> Some []
                  then map_option JStr (if se_devices se = None then None else deviceOwner)
                  else opt_member ''owner'' (decodeClaimsUnverified (se_crypto se) token))
      in if falsy user then sv else sv\<lparr>sv_authFailures := AList.update (the user) (reason, at) (sv_authFailures sv)\<rparr>)"

subsection \<open>Properties\<close>

lemma session_routes_registry:
  assumes "session_routes se req parts sv = (out, sv')"
  shows "ct_registry (sv_ct sv') = ct_registry (sv_ct sv)"
proof -
  have "ct_registry (sv_ct (snd (session_routes se req parts sv))) = ct_registry (sv_ct sv)"
    by (simp add: session_routes_def Let_def with_relay_def split_beta split: option.split)
  then show ?thesis using assms by simp
qed

text \<open>
  No request changes who owns which session but the mint of the user the authenticated surface
  resolved, and that one gives a fresh session to that user and no other: whatever the method, path and
  body of a request without a user, the registry is as it was.
\<close>

theorem only_users_mint:
  assumes "byoc_handle se req sv = (out, sv')"
  shows "ct_registry (sv_ct sv') = ct_registry (sv_ct sv)
    \<or> (\<exists>user. br_user req = Some user \<and> user \<noteq> []
         \<and> ct_registry (sv_ct sv') = registry_mint user (se_uuid se 0) (ct_registry (sv_ct sv)))"
  using assms
  by (auto simp: byoc_handle_def Let_def dest!: session_routes_registry split: option.splits list.splits if_splits)

definition demo_server :: server where
  "demo_server = \<lparr>sv_ct = \<lparr>ct_registry = demo_registry, ct_relay = createRunRelay\<rparr>, sv_authFailures = [], sv_tunnelQueues = [], sv_tunnelTrimmed = []\<rparr>"

definition demo_env :: server_env where
  "demo_env = \<lparr>se_crypto = demo_crypto, se_secret = ''s'', se_now = 1700000000, se_uuid = (\<lambda>n. ''u'' @ show_nat n), se_throws = (\<lambda>_. None),
     se_noData = ''no data'', se_other = (\<lambda>_. None), se_devices = None\<rparr>"

theorem only_users_mint_witness:
  "\<exists>out sv'. byoc_handle demo_env \<lparr>br_method = ''POST'', br_path = ''/byoc/sessions'', br_body = None, br_user = None\<rparr> demo_server = (out, sv')
     \<and> ct_registry (sv_ct sv') = ct_registry (sv_ct demo_server)"
proof -
  obtain out sv' where h: "byoc_handle demo_env \<lparr>br_method = ''POST'', br_path = ''/byoc/sessions'', br_body = None, br_user = None\<rparr> demo_server = (out, sv')"
    by (cases "byoc_handle demo_env \<lparr>br_method = ''POST'', br_path = ''/byoc/sessions'', br_body = None, br_user = None\<rparr> demo_server")
  from only_users_mint [OF this] h show ?thesis by simp
qed

text \<open>
  The gate before an upgrade and the attach after it decide the same: a join token that the gate lets
  through attaches, as the owner the gate named, and one the gate refuses would be refused with the same
  reason.
\<close>

theorem upgrade_gate_agrees:
  "case authorizeUpgrade se sid token sv of
     Inl e \<Rightarrow> registry_attach (se_crypto se) (se_secret se) (se_now se) sid token k (ct_registry (sv_ct sv)) = Inl e
   | Inr (Inl reason) \<Rightarrow>
       registry_attach (se_crypto se) (se_secret se) (se_now se) sid token k (ct_registry (sv_ct sv)) = Inr (Inl reason, ct_registry (sv_ct sv))
   | Inr (Inr user) \<Rightarrow>
       \<exists>r'. registry_attach (se_crypto se) (se_secret se) (se_now se) sid token k (ct_registry (sv_ct sv)) = Inr (Inr sid, r')
          \<and> resolveBySession r' sid = Some \<lparr>vs_sessionId = sid, vs_owner = user, vs_socket = Some k, vs_online = True\<rparr>"
  by (auto simp: authorizeUpgrade_def registry_attach_def resolveBySession_def take_socket_def update_conv'
      split: sum.splits option.splits if_splits)

text \<open>The frames of one session, in the order they came.\<close>

definition frames_of :: "string \<Rightarrow> (string \<times> json) list \<Rightarrow> json list" where
  "frames_of sid fs = map snd (filter (\<lambda>(i, _). i = sid) fs)"

definition tunnel_feed :: "(string \<times> json) list \<Rightarrow> server \<Rightarrow> server" where
  "tunnel_feed fs sv = fold (\<lambda>(i, f). on_tunnel_frame i f) fs sv"

lemma window_step:
  assumes "tunnel_queue sv sid = drop n l" "tunnel_trimmed sv sid = n" "n = length l - TUNNEL_QUEUE_MAX"
  shows "tunnel_queue (on_tunnel_frame i f sv) sid = (if i = sid then drop (Suc (length l) - TUNNEL_QUEUE_MAX) (l @ [f]) else drop n l)
    \<and> tunnel_trimmed (on_tunnel_frame i f sv) sid = (if i = sid then Suc (length l) - TUNNEL_QUEUE_MAX else n)"
proof (cases "i = sid")
  case True
  then show ?thesis
    using assms
    by (auto simp: on_tunnel_frame_def Let_def tunnel_queue_def tunnel_trimmed_def update_conv' TUNNEL_QUEUE_MAX_def
        intro!: arg_cong2 [where f = drop] split: option.splits)
next
  case False
  then show ?thesis using assms
    by (auto simp: on_tunnel_frame_def Let_def tunnel_queue_def tunnel_trimmed_def update_conv' split: option.splits)
qed

lemma window:
  assumes "sv_tunnelQueues sv = []" "sv_tunnelTrimmed sv = []"
  shows "tunnel_queue (tunnel_feed fs sv) sid = drop (length (frames_of sid fs) - TUNNEL_QUEUE_MAX) (frames_of sid fs)
    \<and> tunnel_trimmed (tunnel_feed fs sv) sid = length (frames_of sid fs) - TUNNEL_QUEUE_MAX"
proof (induction fs rule: rev_induct)
  case Nil
  then show ?case using assms by (simp add: tunnel_feed_def frames_of_def tunnel_queue_def tunnel_trimmed_def)
next
  case (snoc x fs)
  obtain i f where x: "x = (i, f)" by (cases x)
  show ?case using window_step [OF conjunct1 [OF snoc] conjunct2 [OF snoc] refl, of i f]
    by (auto simp: x tunnel_feed_def frames_of_def)
qed

text \<open>
  C23. A reader of a container's tunnel stream sees the log of its session's frames: with its cursor at
  \<open>seq\<close> the next frame it gets is the log's frame \<open>seq\<close>, or the oldest of the last
  \<^const>\<open>TUNNEL_QUEUE_MAX\<close> if the cursor fell behind them, and the cursor moves past it. So a reader gets
  frames in order, none twice, and misses one only when it is more than the window behind.
\<close>

theorem tunnel_reader_follows_log:
  assumes "sv_tunnelQueues sv = []" "sv_tunnelTrimmed sv = []"
  shows "tunnel_read (tunnel_feed fs sv) sid seq =
     (let l = frames_of sid fs; at = max seq (length l - TUNNEL_QUEUE_MAX)
      in if at < length l then (Some (l ! at), at + 1) else (None, at))"
  using window [OF assms, of fs sid] by (auto simp: tunnel_read_def Let_def max_def)

theorem tunnel_reader_follows_log_witness:
  "tunnel_read (tunnel_feed [(''s1'', JNum 1), (''s2'', JNum 2), (''s1'', JNum 3)] demo_server) ''s1'' 1 = (Some (JNum 3), 2)"
  using tunnel_reader_follows_log [of demo_server "[(''s1'', JNum 1), (''s2'', JNum 2), (''s1'', JNum 3)]" "''s1''" 1]
  by (simp add: demo_server_def frames_of_def TUNNEL_QUEUE_MAX_def max_def)

end
