(* ===== verification/Ui_Sessions.thy ===== *)
theory Ui_Sessions
  imports Bridge_Run
begin

text \<open>
  The browser's list of conversations (\<^verbatim>\<open>services/ui/src/sessions.ts\<close>): the store behind the sidebar, which
  merges what the server says into what the user has open, holds the list still while a row is being
  renamed or is under the pointer, and replays what arrived meanwhile. Each operation is a function on the
  module's state; the clock and new ids are arguments. Notification of listeners is left out.
\<close>

subsection \<open>State\<close>

datatype sandbox_status = Running | Suspended | Failed | Ended

datatype row_visibility = RowShared | RowPrivate

record session_link =
  sl_source :: string
  sl_resourceType :: string
  sl_url :: "string option"
  sl_title :: "string option"

record session =
  ss_id :: string
  ss_serverId :: "string option"
  ss_title :: string
  ss_createdAt :: int
  ss_lastActivityAt :: int
  ss_model :: "string option"
  ss_pendingModel :: "string option"
  ss_sources :: "string list option"
  ss_links :: "session_link list option"
  ss_owner :: "string option"
  ss_serverCreated :: "bool option"
  ss_parentId :: "string option"
  ss_status :: "sandbox_status option"
  ss_userTitled :: "bool option"
  ss_starred :: "bool option"
  ss_visibility :: "row_visibility option"
  ss_runStartedAt :: "int option"
  ss_lastReplyAt :: "int option"
  ss_awaitingInputAt :: "int option"
  ss_lastSeenAt :: "int option"

record server_conversation =
  sc_id :: string
  sc_title :: "string option"
  sc_createdAt :: "int option"
  sc_lastActivityAt :: "int option"
  sc_model :: "string option"
  sc_sources :: "string list option"
  sc_links :: "session_link list option"
  sc_owner :: "string option"
  sc_status :: "sandbox_status option"
  sc_parentId :: "string option"
  sc_userTitled :: "bool option"
  sc_starred :: "bool option"
  sc_visibility :: "row_visibility option"
  sc_runStartedAt :: "int option"
  sc_lastReplyAt :: "int option"
  sc_awaitingInputAt :: "int option"

record merge_opts =
  mo_fullList :: "bool option"
  mo_sourcesAuthoritative :: "bool option"

datatype pending_frame = MergeFrame "server_conversation list" merge_opts | RemoveFrame string

datatype sidebar_scope = Mine | All

record store_state =
  us_sessions :: "session list"
  us_currentId :: string
  us_currentUser :: string
  us_currentUserEmail :: "string option"
  us_currentUserAnonymous :: bool
  us_scope :: sidebar_scope
  us_query :: string
  us_providerFilter :: "string list"
  us_labelMode :: string
  us_pendingSelect :: "string option"
  us_editingId :: "string option"
  us_hoverId :: "string option"
  us_pendingFrames :: "pending_frame list option"

text \<open>The module: its state, the pinned conversation, the last state saved and the keys whose create is in flight.\<close>

record ui_store =
  ui_state :: store_state
  ui_pinnedId :: "string option"
  ui_saved :: "store_state option"
  ui_creating :: "string set"

text \<open>\<^verbatim>\<open>a ?? b\<close>\<close>

definition else_opt :: "'a option \<Rightarrow> 'a option \<Rightarrow> 'a option" where
  "else_opt a b = (case a of None \<Rightarrow> b | Some x \<Rightarrow> Some x)"

definition else_val :: "'a option \<Rightarrow> 'a \<Rightarrow> 'a" where
  "else_val a b = (case a of None \<Rightarrow> b | Some x \<Rightarrow> x)"

definition DEFAULT_TITLE :: string where "DEFAULT_TITLE = ''New chat''"

definition isPristine :: "session \<Rightarrow> bool" where "isPristine s \<longleftrightarrow> ss_title s = DEFAULT_TITLE"

definition isServerBacked :: "session \<Rightarrow> bool" where
  "isServerBacked s \<longleftrightarrow> ss_serverId s \<noteq> None \<or> ss_serverCreated s = Some True"

definition serverKeyOf :: "session \<Rightarrow> string" where
  "serverKeyOf s = else_val (ss_serverId s) (ss_id s)"

definition sameSession :: "session \<Rightarrow> session \<Rightarrow> bool" where
  "sameSession a b \<longleftrightarrow>
     ss_id a = ss_id b \<and> ss_title a = ss_title b \<and> ss_userTitled a = ss_userTitled b \<and> ss_starred a = ss_starred b
     \<and> ss_visibility a = ss_visibility b \<and> ss_createdAt a = ss_createdAt b \<and> ss_lastActivityAt a = ss_lastActivityAt b
     \<and> ss_model a = ss_model b \<and> ss_pendingModel a = ss_pendingModel b \<and> ss_owner a = ss_owner b \<and> ss_status a = ss_status b
     \<and> ss_runStartedAt a = ss_runStartedAt b \<and> ss_lastReplyAt a = ss_lastReplyAt b \<and> ss_awaitingInputAt a = ss_awaitingInputAt b
     \<and> ss_lastSeenAt a = ss_lastSeenAt b \<and> ss_parentId a = ss_parentId b
     \<and> else_val (ss_sources a) [] = else_val (ss_sources b) []
     \<and> list_all2 (\<lambda>l m. sl_url l = sl_url m \<and> sl_title l = sl_title m \<and> sl_source l = sl_source m)
         (else_val (ss_links a) []) (else_val (ss_links b) [])"

text \<open>\<^verbatim>\<open>sessions.sort(byStarredThenRecent)\<close>, a stable sort.\<close>

definition by_starred_then_recent :: "session list \<Rightarrow> session list" where
  "by_starred_then_recent ss =
     sort_key (\<lambda>s. if ss_starred s = Some True then 0 else 1 :: nat) (sort_key (\<lambda>s. - ss_lastActivityAt s) ss)"

definition new_row :: "string \<Rightarrow> int \<Rightarrow> bool option \<Rightarrow> session" where
  "new_row uuid now created =
     \<lparr>ss_id = uuid, ss_serverId = None, ss_title = DEFAULT_TITLE, ss_createdAt = now, ss_lastActivityAt = now, ss_model = None,
      ss_pendingModel = None, ss_sources = None, ss_links = None, ss_owner = None, ss_serverCreated = created, ss_parentId = None,
      ss_status = None, ss_userTitled = None, ss_starred = None, ss_visibility = None, ss_runStartedAt = None, ss_lastReplyAt = None,
      ss_awaitingInputAt = None, ss_lastSeenAt = None\<rparr>"

definition freshState :: "string \<Rightarrow> int \<Rightarrow> store_state" where
  "freshState uuid now =
     \<lparr>us_sessions = [new_row uuid now None], us_currentId = uuid, us_currentUser = [], us_currentUserEmail = None,
      us_currentUserAnonymous = True, us_scope = Mine, us_query = [], us_providerFilter = [], us_labelMode = ''title'',
      us_pendingSelect = None, us_editingId = None, us_hoverId = None, us_pendingFrames = None\<rparr>"

text \<open>What a reload makes of the state it finds saved.\<close>

definition loadState :: "string \<Rightarrow> int \<Rightarrow> store_state option \<Rightarrow> store_state" where
  "loadState uuid now saved =
     (case saved of
        None \<Rightarrow> freshState uuid now
      | Some p \<Rightarrow>
          if us_sessions p = [] \<or> us_currentId p = [] then freshState uuid now
          else (freshState uuid now)\<lparr>us_sessions := us_sessions p,
                 us_currentId := (if list_ex (\<lambda>s. ss_id s = us_currentId p) (us_sessions p) then us_currentId p else ss_id (hd (us_sessions p))),
                 us_scope := us_scope p, us_labelMode := us_labelMode p\<rparr>)"

subsection \<open>Writing the state\<close>

definition listed :: "string \<Rightarrow> session list \<Rightarrow> bool" where
  "listed i ss \<longleftrightarrow> i \<in> ss_id ` set ss"

definition find_row :: "string \<Rightarrow> session list \<Rightarrow> session option" where
  "find_row i ss = List.find (\<lambda>s. ss_id s = i) ss"

fun map_first :: "('a \<Rightarrow> bool) \<Rightarrow> ('a \<Rightarrow> 'a) \<Rightarrow> 'a list \<Rightarrow> 'a list" where
  "map_first P f [] = []"
| "map_first P f (x # xs) = (if P x then f x # xs else x # map_first P f xs)"

definition markCurrentSeen :: "store_state \<Rightarrow> store_state" where
  "markCurrentSeen s =
     (case find_row (us_currentId s) (us_sessions s) of
        None \<Rightarrow> s
      | Some cur \<Rightarrow>
          (case ss_lastReplyAt cur of
             None \<Rightarrow> s
           | Some t \<Rightarrow>
               if t \<le> else_val (ss_lastSeenAt cur) 0 then s
               else s\<lparr>us_sessions := map_first (\<lambda>x. ss_id x = us_currentId s) (\<lambda>x. x\<lparr>ss_lastSeenAt := Some t\<rparr>) (us_sessions s)\<rparr>))"

definition setState :: "store_state \<Rightarrow> ui_store \<Rightarrow> ui_store" where
  "setState next u =
     (let next1 = (case ui_pinnedId u of
                     Some p \<Rightarrow> if us_currentId next \<noteq> p \<and> listed p (us_sessions next) then next\<lparr>us_currentId := p\<rparr> else next
                   | None \<Rightarrow> next);
          next2 = markCurrentSeen next1
      in u\<lparr>ui_state := next2, ui_saved := (if ui_pinnedId u = None then Some next2 else ui_saved u)\<rparr>)"

definition with_rows :: "session list \<Rightarrow> ui_store \<Rightarrow> ui_store" where
  "with_rows ss u = setState ((ui_state u)\<lparr>us_sessions := ss\<rparr>) u"

definition change_row :: "string \<Rightarrow> (session \<Rightarrow> session) \<Rightarrow> ui_store \<Rightarrow> ui_store" where
  "change_row i f u = with_rows (map (\<lambda>x. if ss_id x = i then f x else x) (us_sessions (ui_state u))) u"

definition adoptServerId :: "string \<Rightarrow> string \<Rightarrow> ui_store \<Rightarrow> ui_store" where
  "adoptServerId key serverId u =
     (if \<not> listed key (us_sessions (ui_state u)) then u
      else change_row key (\<lambda>s. s\<lparr>ss_serverCreated := Some True, ss_serverId := Some serverId\<rparr>) u)"

datatype turn_dot = Question | Active | Unread | UnreadIdle | Idle | FailedDot

definition turnDot :: "session \<Rightarrow> turn_dot option" where
  "turnDot s =
     (let live = (ss_status s = None \<or> ss_status s = Some Running)
      in if ss_status s = Some Failed then Some FailedDot
         else if ss_awaitingInputAt s \<noteq> None then Some Question
         else if ss_runStartedAt s \<noteq> None \<and> live then Some Active
         else if (case ss_lastReplyAt s of None \<Rightarrow> False | Some t \<Rightarrow> else_val (ss_lastSeenAt s) 0 < t)
         then Some (if live then Unread else UnreadIdle)
         else if ss_status s = Some Running then Some Idle else None)"

subsection \<open>What is shown\<close>

definition linkName :: "session_link \<Rightarrow> string" where
  "linkName l =
     (case sl_title l of
        Some (c # cs) \<Rightarrow> c # cs
      | _ \<Rightarrow> trim (sl_source l @ (if sl_resourceType l = [] then [] else '' '' @ map (\<lambda>c. if c = CHR ''_'' then CHR '' '' else c) (sl_resourceType l))))"

definition primaryLink :: "session \<Rightarrow> session_link option" where
  "primaryLink s = (case ss_links s of Some (l # _) \<Rightarrow> Some l | _ \<Rightarrow> None)"

definition linkForProvider :: "session \<Rightarrow> string \<Rightarrow> session_link option" where
  "linkForProvider s provider = List.find (\<lambda>l. sl_source l = provider) (else_val (ss_links s) [])"

definition sessionLabel :: "session \<Rightarrow> string \<Rightarrow> string" where
  "sessionLabel s mode =
     (if mode \<noteq> ''title'' then (case linkForProvider s mode of Some l \<Rightarrow> linkName l | None \<Rightarrow> ss_title s) else ss_title s)"

definition visibleSessions :: "store_state \<Rightarrow> session list" where
  "visibleSessions s =
     (if us_scope s = All \<or> \<not> (us_currentUser s \<noteq> [] \<and> \<not> us_currentUserAnonymous s) then us_sessions s
      else filter (\<lambda>x. ss_owner x = Some (us_currentUser s)) (us_sessions s))"

definition matchesProviders :: "session \<Rightarrow> string list \<Rightarrow> bool" where
  "matchesProviders s providers \<longleftrightarrow>
     providers = [] \<or> list_ex (\<lambda>p. p \<in> set (else_val (ss_sources s) []) \<union> sl_source ` set (else_val (ss_links s) [])) providers"

definition matchesQuery :: "session \<Rightarrow> string \<Rightarrow> bool" where
  "matchesQuery s q \<longleftrightarrow>
     (let needle = lower (trim q)
      in needle = [] \<or> str_includes (lower (ss_title s)) needle
         \<or> list_ex (\<lambda>l. str_includes (lower (linkName l)) needle \<or> str_includes (lower (else_val (sl_url l) [])) needle)
             (else_val (ss_links s) []))"

definition filteredSessions :: "store_state \<Rightarrow> session list" where
  "filteredSessions s = filter (\<lambda>x. matchesProviders x (us_providerFilter s) \<and> matchesQuery x (us_query s)) (visibleSessions s)"

subsection \<open>Frames held back\<close>

definition heldRowId :: "store_state \<Rightarrow> string option" where
  "heldRowId s = else_opt (us_editingId s) (us_hoverId s)"

definition frame_ids :: "pending_frame \<Rightarrow> string list" where
  "frame_ids f = (case f of RemoveFrame i \<Rightarrow> [i] | MergeFrame convs _ \<Rightarrow> map sc_id convs)"

definition queueFrame :: "pending_frame \<Rightarrow> ui_store \<Rightarrow> ui_store" where
  "queueFrame f u =
     (let queued = else_val (us_pendingFrames (ui_state u)) [];
          supersedesAll = (case f of MergeFrame _ o1 \<Rightarrow> else_val (mo_fullList o1) True | RemoveFrame _ \<Rightarrow> False);
          kept = (if supersedesAll then [] else filter (\<lambda>q. list_all (\<lambda>i. i \<notin> set (frame_ids f)) (frame_ids q)) queued)
      in setState ((ui_state u)\<lparr>us_pendingFrames := Some (kept @ [f])\<rparr>) u)"

subsection \<open>Merging\<close>

definition merged_title :: "server_conversation \<Rightarrow> session option \<Rightarrow> bool \<Rightarrow> string" where
  "merged_title c existing userTitled =
     (let serverTitle = (case sc_title c of Some t \<Rightarrow> if t \<noteq> [] \<and> t \<noteq> DEFAULT_TITLE then Some t else None | None \<Rightarrow> None);
          localTitle = (case existing of Some e \<Rightarrow> if ss_title e \<noteq> DEFAULT_TITLE then Some (ss_title e) else None | None \<Rightarrow> None)
      in if userTitled \<and> (case sc_title c of Some t \<Rightarrow> t \<noteq> [] | None \<Rightarrow> False) then the (sc_title c)
         else else_val (else_opt serverTitle (else_opt localTitle (else_opt (sc_title c) (map_option ss_title existing)))) DEFAULT_TITLE)"

definition merged_row :: "int \<Rightarrow> bool \<Rightarrow> bool \<Rightarrow> server_conversation \<Rightarrow> session option \<Rightarrow> session" where
  "merged_row now fullList authoritative c existing =
     (let userTitled = else_val (else_opt (sc_userTitled c) (Option.bind existing ss_userTitled)) False
      in \<lparr>ss_id = (case existing of None \<Rightarrow> sc_id c | Some e \<Rightarrow> ss_id e), ss_serverId = Some (sc_id c),
          ss_title = merged_title c existing userTitled,
          ss_createdAt = else_val (else_opt (sc_createdAt c) (map_option ss_createdAt existing)) now,
          ss_lastActivityAt = else_val (else_opt (sc_lastActivityAt c) (map_option ss_lastActivityAt existing)) now,
          ss_model = else_opt (Option.bind existing ss_pendingModel) (sc_model c), ss_pendingModel = Option.bind existing ss_pendingModel,
          ss_sources = (if authoritative then else_opt (sc_sources c) (Option.bind existing ss_sources) else Option.bind existing ss_sources),
          ss_links = (if authoritative then else_opt (sc_links c) (Option.bind existing ss_links) else Option.bind existing ss_links),
          ss_owner = else_opt (sc_owner c) (Option.bind existing ss_owner), ss_serverCreated = Some True,
          ss_parentId = else_opt (sc_parentId c) (Option.bind existing ss_parentId), ss_status = else_opt (sc_status c) (Option.bind existing ss_status),
          ss_userTitled = Some userTitled, ss_starred = else_opt (sc_starred c) (Option.bind existing ss_starred),
          ss_visibility = else_opt (sc_visibility c) (Option.bind existing ss_visibility), ss_runStartedAt = sc_runStartedAt c,
          ss_lastReplyAt = else_opt (sc_lastReplyAt c) (Option.bind existing ss_lastReplyAt), ss_awaitingInputAt = sc_awaitingInputAt c,
          ss_lastSeenAt = else_opt (Option.bind existing ss_lastSeenAt)
            (if fullList then else_opt (sc_lastReplyAt c) (Option.bind existing ss_lastReplyAt) else Some 0)\<rparr>)"

definition merge_one :: "int \<Rightarrow> bool \<Rightarrow> bool \<Rightarrow> server_conversation \<Rightarrow> (string, session) js_map \<Rightarrow> (string, session) js_map" where
  "merge_one now fullList authoritative c byId =
     (let existing = map_of byId (sc_id c); row = merged_row now fullList authoritative c existing
      in AList.update (sc_id c) (case existing of Some e \<Rightarrow> if sameSession e row then e else row | None \<Rightarrow> row) byId)"

definition index_rows :: "session list \<Rightarrow> (string, session) js_map" where
  "index_rows ss = fold (\<lambda>s. AList.update (serverKeyOf s) s) ss []"

definition row_stays :: "bool \<Rightarrow> string list \<Rightarrow> string \<Rightarrow> string set \<Rightarrow> session \<Rightarrow> bool" where
  "row_stays fullList serverIds currentId creating s \<longleftrightarrow>
     serverKeyOf s \<in> set serverIds \<or> \<not> fullList
     \<or> ((case ss_parentId s of Some (_ # _) \<Rightarrow> False | _ \<Rightarrow> True)
        \<and> (ss_id s = currentId \<or> ss_id s \<in> creating \<or> isServerBacked s \<and> \<not> isPristine s))"

definition merge_frame :: "int \<Rightarrow> server_conversation list \<Rightarrow> merge_opts \<Rightarrow> ui_store \<Rightarrow> ui_store" where
  "merge_frame now convs o1 u =
     (let s = ui_state u; fullList = else_val (mo_fullList o1) True; authoritative = else_val (mo_sourcesAuthoritative o1) True;
          byId = fold (merge_one now fullList authoritative) convs (index_rows (us_sessions s));
          kept = filter (row_stays fullList (map sc_id convs) (us_currentId s) (ui_creating u)) (map snd byId);
          sessions = by_starred_then_recent (if kept = [] then map snd byId else kept);
          repaired = (if listed (us_currentId s) sessions then us_currentId s
                      else case sessions of [] \<Rightarrow> us_currentId s | x # _ \<Rightarrow> ss_id x);
          (currentId, pendingSelect) =
            (case us_pendingSelect s of
               Some (c # cs) \<Rightarrow> if listed (c # cs) sessions then (c # cs, None) else (repaired, Some (c # cs))
             | ps \<Rightarrow> (repaired, ps))
      in if pendingSelect = us_pendingSelect s \<and> currentId = us_currentId s \<and> list_all2 (\<lambda>a b. a = b \<or> sameSession a b) sessions (us_sessions s)
         then u
         else setState (s\<lparr>us_sessions := sessions, us_currentId := currentId, us_pendingSelect := pendingSelect\<rparr>) u)"

definition deleteSession :: "string \<Rightarrow> int \<Rightarrow> string \<Rightarrow> ui_store \<Rightarrow> ui_store" where
  "deleteSession uuid now i u =
     (let s = ui_state u; remaining = filter (\<lambda>x. ss_id x \<noteq> i) (us_sessions s)
      in case remaining of
           [] \<Rightarrow> setState (s\<lparr>us_sessions := [new_row uuid now None], us_currentId := uuid\<rparr>) u
         | x # _ \<Rightarrow> setState (s\<lparr>us_sessions := remaining, us_currentId := (if us_currentId s = i then ss_id x else us_currentId s)\<rparr>) u)"

definition removeFromServer :: "string \<Rightarrow> int \<Rightarrow> string \<Rightarrow> ui_store \<Rightarrow> ui_store" where
  "removeFromServer uuid now serverId u =
     (if heldRowId (ui_state u) \<noteq> None then queueFrame (RemoveFrame serverId) u
      else case List.find (\<lambda>s. serverKeyOf s = serverId) (us_sessions (ui_state u)) of
        None \<Rightarrow> u
      | Some gone \<Rightarrow> deleteSession uuid now (ss_id gone) u)"

text \<open>
  One frame of the replay. The calls go through the public operations again; nothing is held at that
  point, so a merge is a merge and not queued once more. \<open>uuids k\<close> is the id drawn for frame \<open>k\<close>.
\<close>

definition replay_frame :: "(nat \<Rightarrow> string) \<Rightarrow> int \<Rightarrow> nat \<times> pending_frame \<Rightarrow> ui_store \<Rightarrow> ui_store" where
  "replay_frame uuids now kf u =
     (case snd kf of
        RemoveFrame i \<Rightarrow> removeFromServer (uuids (fst kf)) now i u
      | MergeFrame convs o1 \<Rightarrow>
          if convs = [] then u
          else if heldRowId (ui_state u) \<noteq> None then queueFrame (MergeFrame convs o1) u
          else merge_frame now convs o1 u)"

definition flushPendingFrames :: "(nat \<Rightarrow> string) \<Rightarrow> int \<Rightarrow> ui_store \<Rightarrow> ui_store" where
  "flushPendingFrames uuids now u =
     (case us_pendingFrames (ui_state u) of
        Some (q # qs) \<Rightarrow>
          fold (replay_frame uuids now) (enumerate 0 (q # qs)) (setState ((ui_state u)\<lparr>us_pendingFrames := None\<rparr>) u)
      | _ \<Rightarrow> u)"

definition mergeFromServer :: "(nat \<Rightarrow> string) \<Rightarrow> int \<Rightarrow> server_conversation list \<Rightarrow> merge_opts \<Rightarrow> ui_store \<Rightarrow> ui_store" where
  "mergeFromServer uuids now convs o1 u =
     (if convs = [] then u
      else if heldRowId (ui_state u) = None then merge_frame now convs o1 u
      else let s = ui_state u;
               live = (\<lambda>h. case h of Some i \<Rightarrow> if listed i (filteredSessions s) then Some i else None | None \<Rightarrow> None);
               editingId = live (us_editingId s); hoverId = live (us_hoverId s);
               u1 = (if editingId \<noteq> us_editingId s \<or> hoverId \<noteq> us_hoverId s
                     then setState (s\<lparr>us_editingId := editingId, us_hoverId := hoverId\<rparr>) u else u)
           in if heldRowId (ui_state u1) \<noteq> None then queueFrame (MergeFrame convs o1) u1
              else merge_frame now convs o1 (flushPendingFrames uuids now u1))"

subsection \<open>The other operations\<close>

definition newSession :: "string \<Rightarrow> int \<Rightarrow> ui_store \<Rightarrow> ui_store" where
  "newSession uuid now u =
     setState ((ui_state u)\<lparr>us_sessions := new_row uuid now (Some False) # us_sessions (ui_state u), us_currentId := uuid\<rparr>) u"

definition startFresh :: "string \<Rightarrow> int \<Rightarrow> ui_store \<Rightarrow> ui_store" where
  "startFresh uuid now u =
     (case List.find (\<lambda>s. isPristine s \<and> \<not> isServerBacked s \<and> ss_id s \<notin> ui_creating u) (us_sessions (ui_state u)) of
        None \<Rightarrow> newSession uuid now u
      | Some spare \<Rightarrow>
          if us_currentId (ui_state u) \<noteq> ss_id spare then setState ((ui_state u)\<lparr>us_currentId := ss_id spare\<rparr>) u else u)"

definition switchTo :: "string \<Rightarrow> ui_store \<Rightarrow> ui_store" where
  "switchTo i u = (if listed i (us_sessions (ui_state u)) then setState ((ui_state u)\<lparr>us_currentId := i\<rparr>) u else u)"

definition requestSelect :: "string \<Rightarrow> ui_store \<Rightarrow> ui_store" where
  "requestSelect i u =
     (if i = [] \<or> us_currentId (ui_state u) = i then u
      else if listed i (us_sessions (ui_state u)) then setState ((ui_state u)\<lparr>us_currentId := i, us_pendingSelect := None\<rparr>) u
      else setState ((ui_state u)\<lparr>us_pendingSelect := Some i\<rparr>) u)"

definition pin :: "string \<Rightarrow> int \<Rightarrow> string \<Rightarrow> ui_store \<Rightarrow> ui_store" where
  "pin uuid now i u = requestSelect i (u\<lparr>ui_pinnedId := Some i, ui_state := (freshState uuid now)\<lparr>us_scope := All\<rparr>\<rparr>)"

definition setTitle_row :: "string \<Rightarrow> string \<Rightarrow> ui_store \<Rightarrow> ui_store" where
  "setTitle_row i title u =
     (case find_row i (us_sessions (ui_state u)) of
        None \<Rightarrow> u
      | Some s \<Rightarrow> if ss_userTitled s = Some True \<or> ss_title s = title then u else change_row i (\<lambda>x. x\<lparr>ss_title := title\<rparr>) u)"

definition titleFromFirstMessage :: "string \<Rightarrow> string \<Rightarrow> ui_store \<Rightarrow> ui_store" where
  "titleFromFirstMessage i msg u =
     (case find_row i (us_sessions (ui_state u)) of
        None \<Rightarrow> u
      | Some s \<Rightarrow>
          if ss_title s \<noteq> DEFAULT_TITLE then u
          else let title = trim (take 60 msg) in if title = [] then u else setTitle_row i title u)"

definition setEditing :: "string \<Rightarrow> ui_store \<Rightarrow> ui_store" where
  "setEditing i u =
     (if us_editingId (ui_state u) = Some i then u else setState ((ui_state u)\<lparr>us_editingId := Some i, us_hoverId := None\<rparr>) u)"

definition clearEditing :: "(nat \<Rightarrow> string) \<Rightarrow> int \<Rightarrow> string option \<Rightarrow> ui_store \<Rightarrow> ui_store" where
  "clearEditing uuids now i u =
     (if us_editingId (ui_state u) = None then u
      else if i \<noteq> None \<and> us_editingId (ui_state u) \<noteq> i then u
      else let u1 = setState ((ui_state u)\<lparr>us_editingId := None\<rparr>) u
           in if us_hoverId (ui_state u1) = None then flushPendingFrames uuids now u1 else u1)"

definition setHover :: "string \<Rightarrow> ui_store \<Rightarrow> ui_store" where
  "setHover i u = (if us_hoverId (ui_state u) = Some i then u else setState ((ui_state u)\<lparr>us_hoverId := Some i\<rparr>) u)"

definition clearHover :: "(nat \<Rightarrow> string) \<Rightarrow> int \<Rightarrow> string option \<Rightarrow> ui_store \<Rightarrow> ui_store" where
  "clearHover uuids now i u =
     (if us_hoverId (ui_state u) = None then u
      else if i \<noteq> None \<and> us_hoverId (ui_state u) \<noteq> i then u
      else let u1 = setState ((ui_state u)\<lparr>us_hoverId := None\<rparr>) u
           in if us_editingId (ui_state u1) = None then flushPendingFrames uuids now u1 else u1)"

definition renameSession :: "string \<Rightarrow> string \<Rightarrow> ui_store \<Rightarrow> ui_store" where
  "renameSession i title u =
     (if \<not> listed i (us_sessions (ui_state u)) then u else change_row i (\<lambda>x. x\<lparr>ss_title := title, ss_userTitled := Some True\<rparr>) u)"

definition unstar_frame :: "string \<Rightarrow> pending_frame \<Rightarrow> pending_frame" where
  "unstar_frame key f =
     (case f of
        RemoveFrame i \<Rightarrow> RemoveFrame i
      | MergeFrame convs o1 \<Rightarrow> MergeFrame (map (\<lambda>c. if sc_id c = key then c\<lparr>sc_starred := None\<rparr> else c) convs) o1)"

definition setStarred :: "string \<Rightarrow> bool \<Rightarrow> ui_store \<Rightarrow> ui_store" where
  "setStarred i star u =
     (case find_row i (us_sessions (ui_state u)) of
        None \<Rightarrow> u
      | Some s \<Rightarrow>
          if ss_starred s = Some star then u
          else setState ((ui_state u)\<lparr>us_sessions := by_starred_then_recent
                   (map (\<lambda>x. if ss_id x = i then x\<lparr>ss_starred := Some star\<rparr> else x) (us_sessions (ui_state u))),
                 us_pendingFrames := map_option (map (unstar_frame (serverKeyOf s))) (us_pendingFrames (ui_state u))\<rparr>) u)"

definition setVisibility_row :: "string \<Rightarrow> row_visibility \<Rightarrow> ui_store \<Rightarrow> ui_store" where
  "setVisibility_row i v u =
     (case find_row i (us_sessions (ui_state u)) of
        None \<Rightarrow> u
      | Some s \<Rightarrow>
          if else_val (ss_visibility s) RowShared = v then u
          else with_rows (map (\<lambda>x. if ss_id x = i \<or> ss_parentId x = Some (serverKeyOf s) then x\<lparr>ss_visibility := Some v\<rparr> else x)
                 (us_sessions (ui_state u))) u)"

definition setModel :: "string \<Rightarrow> string \<Rightarrow> ui_store \<Rightarrow> ui_store" where
  "setModel i model u =
     (case find_row i (us_sessions (ui_state u)) of
        None \<Rightarrow> u
      | Some s \<Rightarrow> if ss_model s = Some model then u else change_row i (\<lambda>x. x\<lparr>ss_model := Some model, ss_pendingModel := Some model\<rparr>) u)"

definition modelSent :: "string \<Rightarrow> string \<Rightarrow> ui_store \<Rightarrow> ui_store" where
  "modelSent i model u =
     (case find_row i (us_sessions (ui_state u)) of
        None \<Rightarrow> u
      | Some s \<Rightarrow> if ss_pendingModel s \<noteq> Some model then u else change_row i (\<lambda>x. x\<lparr>ss_pendingModel := None\<rparr>) u)"

definition setCurrentUser :: "string \<Rightarrow> string option \<Rightarrow> bool option \<Rightarrow> ui_store \<Rightarrow> ui_store" where
  "setCurrentUser user email anonymous u =
     (let s = ui_state u; a = else_val anonymous False
      in if us_currentUser s = user \<and> us_currentUserEmail s = email \<and> us_currentUserAnonymous s = a then u
         else setState (s\<lparr>us_currentUser := user, us_currentUserEmail := email, us_currentUserAnonymous := a\<rparr>) u)"

definition setScope :: "sidebar_scope \<Rightarrow> ui_store \<Rightarrow> ui_store" where
  "setScope x u = (if us_scope (ui_state u) = x then u else setState ((ui_state u)\<lparr>us_scope := x\<rparr>) u)"

definition setQuery :: "string \<Rightarrow> ui_store \<Rightarrow> ui_store" where
  "setQuery q u = (if us_query (ui_state u) = q then u else setState ((ui_state u)\<lparr>us_query := q\<rparr>) u)"

definition toggleProvider :: "string \<Rightarrow> ui_store \<Rightarrow> ui_store" where
  "toggleProvider p u =
     (let ps = us_providerFilter (ui_state u)
      in setState ((ui_state u)\<lparr>us_providerFilter := (if p \<in> set ps then filter (\<lambda>q. q \<noteq> p) ps else ps @ [p])\<rparr>) u)"

definition clearProviders :: "ui_store \<Rightarrow> ui_store" where
  "clearProviders u = (if us_providerFilter (ui_state u) = [] then u else setState ((ui_state u)\<lparr>us_providerFilter := []\<rparr>) u)"

definition setLabelMode :: "string \<Rightarrow> ui_store \<Rightarrow> ui_store" where
  "setLabelMode m u = (if us_labelMode (ui_state u) = m then u else setState ((ui_state u)\<lparr>us_labelMode := m\<rparr>) u)"

subsection \<open>Histories\<close>

datatype store_event =
    PinTo string int string | NewSession string int | StartFresh string int | SwitchTo string | RequestSelect string
  | MergeFromServer "nat \<Rightarrow> string" int "server_conversation list" merge_opts
  | RemoveFromServer string int string | DeleteSession string int string
  | AdoptServerId string string | CreateBegins string | CreateEnds string
  | TitleFromFirstMessage string string | SetTitle string string | Rename string string
  | SetEditing string | ClearEditing "nat \<Rightarrow> string" int "string option"
  | SetHover string | ClearHover "nat \<Rightarrow> string" int "string option"
  | SetStarred string bool | SetVisibility string row_visibility | SetModel string string | ModelSent string string
  | SetUser string "string option" "bool option" | SetScope sidebar_scope | SetQuery string
  | ToggleProvider string | ClearProviders | SetLabelMode string

fun ui_step :: "store_event \<Rightarrow> ui_store \<Rightarrow> ui_store" where
  "ui_step (PinTo uuid now i) = pin uuid now i"
| "ui_step (NewSession i now) = newSession i now"
| "ui_step (StartFresh i now) = startFresh i now"
| "ui_step (SwitchTo i) = switchTo i"
| "ui_step (RequestSelect i) = requestSelect i"
| "ui_step (MergeFromServer uuids now convs o1) = mergeFromServer uuids now convs o1"
| "ui_step (RemoveFromServer uuid now i) = removeFromServer uuid now i"
| "ui_step (DeleteSession uuid now i) = deleteSession uuid now i"
| "ui_step (AdoptServerId key i) = adoptServerId key i"
| "ui_step (CreateBegins key) = (\<lambda>u. u\<lparr>ui_creating := insert key (ui_creating u)\<rparr>)"
| "ui_step (CreateEnds key) = (\<lambda>u. u\<lparr>ui_creating := ui_creating u - {key}\<rparr>)"
| "ui_step (TitleFromFirstMessage i msg) = titleFromFirstMessage i msg"
| "ui_step (SetTitle i t) = setTitle_row i t"
| "ui_step (Rename i t) = renameSession i t"
| "ui_step (SetEditing i) = setEditing i"
| "ui_step (ClearEditing uuids now i) = clearEditing uuids now i"
| "ui_step (SetHover i) = setHover i"
| "ui_step (ClearHover uuids now i) = clearHover uuids now i"
| "ui_step (SetStarred i b) = setStarred i b"
| "ui_step (SetVisibility i v) = setVisibility_row i v"
| "ui_step (SetModel i m) = setModel i m"
| "ui_step (ModelSent i m) = modelSent i m"
| "ui_step (SetUser i e a) = setCurrentUser i e a"
| "ui_step (SetScope x) = setScope x"
| "ui_step (SetQuery q) = setQuery q"
| "ui_step (ToggleProvider p) = toggleProvider p"
| "ui_step ClearProviders = clearProviders"
| "ui_step (SetLabelMode m) = setLabelMode m"

definition ui_run :: "ui_store \<Rightarrow> store_event list \<Rightarrow> ui_store" where
  "ui_run u es = fold ui_step es u"


subsection \<open>The selection\<close>

text \<open>A row whose last reply has been read, and a state whose selected row exists and has been read.\<close>

definition row_read :: "session \<Rightarrow> bool" where
  "row_read s \<longleftrightarrow> (case ss_lastReplyAt s of None \<Rightarrow> True | Some t \<Rightarrow> t \<le> else_val (ss_lastSeenAt s) 0)"

definition sel_ok :: "store_state \<Rightarrow> bool" where
  "sel_ok s \<longleftrightarrow> (\<exists>cur. find_row (us_currentId s) (us_sessions s) = Some cur \<and> row_read cur)"

lemma row_read_dot: "row_read s \<Longrightarrow> turnDot s \<notin> {Some Unread, Some UnreadIdle}"
  by (auto simp: turnDot_def row_read_def Let_def split: option.splits if_splits)

lemma find_row_listed: "(\<exists>cur. find_row i ss = Some cur) \<longleftrightarrow> listed i ss"
  by (induction ss) (auto simp: find_row_def listed_def)

lemma sel_ok_listed: "sel_ok s \<Longrightarrow> listed (us_currentId s) (us_sessions s)"
  using find_row_listed unfolding sel_ok_def by metis

lemma listed_nonempty: "listed i ss \<Longrightarrow> ss \<noteq> []"
  by (auto simp: listed_def)

lemma find_row_map_first:
  assumes "find_row i ss = Some cur" "ss_id (f cur) = i"
  shows "find_row i (map_first (\<lambda>x. ss_id x = i) f ss) = Some (f cur)"
  using assms by (induction ss) (auto simp: find_row_def)

lemma markCurrentSeen_current [simp]: "us_currentId (markCurrentSeen s) = us_currentId s"
  by (simp add: markCurrentSeen_def split: option.split)

lemma markCurrentSeen_sel:
  assumes "listed (us_currentId s) (us_sessions s)" shows "sel_ok (markCurrentSeen s)"
proof -
  obtain cur where cur: "find_row (us_currentId s) (us_sessions s) = Some cur" using assms find_row_listed by metis
  hence "ss_id cur = us_currentId s" by (auto simp: find_row_def find_Some_iff)
  with cur show ?thesis
    by (auto simp: markCurrentSeen_def sel_ok_def row_read_def else_val_def find_row_map_first split: option.split)
qed

lemma setState_sel:
  assumes "listed (us_currentId next) (us_sessions next)" shows "sel_ok (ui_state (setState next u))"
  using assms by (auto simp: setState_def Let_def intro!: markCurrentSeen_sel split: option.split)

lemma listed_map_same:
  assumes "\<And>x. ss_id (f x) = ss_id x" shows "listed i (map f ss) \<longleftrightarrow> listed i ss"
  using assms by (simp add: listed_def image_image)

lemma set_by_starred [simp]: "set (by_starred_then_recent ss) = set ss"
  by (simp add: by_starred_then_recent_def)

lemma listed_by_starred [simp]: "listed i (by_starred_then_recent ss) \<longleftrightarrow> listed i ss"
  by (simp add: listed_def)

lemma change_row_sel:
  assumes "sel_ok (ui_state u)" "\<And>x. ss_id (f x) = ss_id x" shows "sel_ok (ui_state (change_row i f u))"
  unfolding change_row_def with_rows_def using assms by (intro setState_sel) (simp add: listed_map_same sel_ok_listed)

lemma freshState_sel: "sel_ok (freshState uuid now)"
  by (simp add: freshState_def sel_ok_def find_row_def new_row_def row_read_def)

lemma update_nonempty: "AList.update k v m \<noteq> []"
  by (induction m) auto

lemma fold_merge_nonempty: "m \<noteq> [] \<Longrightarrow> fold (merge_one now fl au) cs m \<noteq> []"
  by (induction cs arbitrary: m) (simp_all add: merge_one_def Let_def update_nonempty)

lemma merge_rows_nonempty: "cs \<noteq> [] \<Longrightarrow> fold (merge_one now fl au) cs m \<noteq> []"
  by (cases cs) (simp_all add: fold_merge_nonempty merge_one_def Let_def update_nonempty)

lemma by_starred_empty [simp]: "by_starred_then_recent ss = [] \<longleftrightarrow> ss = []"
  by (metis set_by_starred set_empty)

lemma listed_hd: "ss \<noteq> [] \<Longrightarrow> listed (ss_id (hd ss)) ss"
  by (simp add: listed_def)

lemma merge_frame_sel:
  assumes "sel_ok (ui_state u)" "convs \<noteq> []" shows "sel_ok (ui_state (merge_frame now convs o1 u))"
proof -
  define byId where "byId = fold (merge_one now (else_val (mo_fullList o1) True) (else_val (mo_sourcesAuthoritative o1) True)) convs
     (index_rows (us_sessions (ui_state u)))"
  define kept where "kept = filter (row_stays (else_val (mo_fullList o1) True) (map sc_id convs) (us_currentId (ui_state u)) (ui_creating u)) (map snd byId)"
  define rows where "rows = by_starred_then_recent (if kept = [] then map snd byId else kept)"
  have "byId \<noteq> []" using assms(2) by (simp add: byId_def merge_rows_nonempty)
  hence ne: "rows \<noteq> []" by (simp add: rows_def)
  hence "listed (ss_id (hd rows)) rows" by (rule listed_hd)
  with ne obtain x xs where x: "rows = x # xs" "listed (ss_id x) rows" by (cases rows) auto
  show ?thesis
    unfolding merge_frame_def Let_def byId_def [symmetric] kept_def [symmetric] rows_def [symmetric]
    using assms(1) x by (auto split: option.splits list.splits if_splits prod.splits intro!: setState_sel)
qed

lemma listed_without: "listed j ss \<Longrightarrow> j \<noteq> i \<Longrightarrow> listed j (filter (\<lambda>x. ss_id x \<noteq> i) ss)"
  by (auto simp: listed_def)

lemma deleteSession_sel:
  assumes "sel_ok (ui_state u)" shows "sel_ok (ui_state (deleteSession uuid now i u))"
proof (cases "filter (\<lambda>x. ss_id x \<noteq> i) (us_sessions (ui_state u))")
  case Nil
  thus ?thesis by (auto simp: deleteSession_def Let_def listed_def new_row_def intro!: setState_sel)
next
  case (Cons x xs)
  have "us_currentId (ui_state u) \<noteq> i \<Longrightarrow> listed (us_currentId (ui_state u)) (x # xs)"
    using listed_without [OF sel_ok_listed [OF assms], of i] Cons by simp
  thus ?thesis by (auto simp: deleteSession_def Let_def Cons listed_def [of "ss_id x"] intro!: setState_sel)
qed

lemma queueFrame_sel: "sel_ok (ui_state u) \<Longrightarrow> sel_ok (ui_state (queueFrame f u))"
  by (simp add: queueFrame_def Let_def setState_sel sel_ok_listed)

lemma removeFromServer_sel: "sel_ok (ui_state u) \<Longrightarrow> sel_ok (ui_state (removeFromServer uuid now i u))"
  by (simp add: removeFromServer_def queueFrame_sel deleteSession_sel split: option.split)

lemma replay_frame_sel: "sel_ok (ui_state u) \<Longrightarrow> sel_ok (ui_state (replay_frame uuids now kf u))"
  by (simp add: replay_frame_def removeFromServer_sel queueFrame_sel merge_frame_sel split: pending_frame.split)

lemma fold_replay_sel: "sel_ok (ui_state u) \<Longrightarrow> sel_ok (ui_state (fold (replay_frame uuids now) kfs u))"
  by (induction kfs arbitrary: u) (simp_all add: replay_frame_sel)

lemma flush_sel: "sel_ok (ui_state u) \<Longrightarrow> sel_ok (ui_state (flushPendingFrames uuids now u))"
  unfolding flushPendingFrames_def
  by (simp del: enumerate_simps fold_simps add: fold_replay_sel setState_sel sel_ok_listed split: option.split list.split)

lemma mergeFromServer_sel: "sel_ok (ui_state u) \<Longrightarrow> sel_ok (ui_state (mergeFromServer uuids now convs o1 u))"
  unfolding mergeFromServer_def Let_def
  by (simp add: merge_frame_sel queueFrame_sel flush_sel setState_sel sel_ok_listed)


lemma requestSelect_sel: "sel_ok (ui_state u) \<Longrightarrow> sel_ok (ui_state (requestSelect i u))"
  by (simp add: requestSelect_def setState_sel sel_ok_listed)

lemma setTitle_sel: "sel_ok (ui_state u) \<Longrightarrow> sel_ok (ui_state (setTitle_row i t u))"
  by (simp add: setTitle_row_def change_row_sel split: option.split)

lemma newSession_sel: "sel_ok (ui_state (newSession i now u))"
  by (auto simp: newSession_def listed_def new_row_def intro!: setState_sel)

lemma startFresh_sel: "sel_ok (ui_state u) \<Longrightarrow> sel_ok (ui_state (startFresh i now u))"
  by (auto simp: startFresh_def newSession_sel listed_def find_Some_iff intro!: setState_sel split: option.split)

lemma setState_keep_sel:
  assumes "sel_ok (ui_state u)" "us_sessions next = us_sessions (ui_state u)" "us_currentId next = us_currentId (ui_state u)"
  shows "sel_ok (ui_state (setState next u))"
  using sel_ok_listed [OF assms(1)] assms(2,3) by (simp add: setState_sel)

lemma clearEditing_sel: "sel_ok (ui_state u) \<Longrightarrow> sel_ok (ui_state (clearEditing uuids now i u))"
  by (simp add: clearEditing_def Let_def flush_sel setState_keep_sel)

lemma clearHover_sel: "sel_ok (ui_state u) \<Longrightarrow> sel_ok (ui_state (clearHover uuids now i u))"
  by (simp add: clearHover_def Let_def flush_sel setState_keep_sel)

lemma setStarred_sel: "sel_ok (ui_state u) \<Longrightarrow> sel_ok (ui_state (setStarred i b u))"
  by (auto simp: setStarred_def listed_map_same sel_ok_listed intro!: setState_sel split: option.split)

lemma setVisibility_sel: "sel_ok (ui_state u) \<Longrightarrow> sel_ok (ui_state (setVisibility_row i v u))"
  by (auto simp: setVisibility_row_def with_rows_def listed_map_same sel_ok_listed intro!: setState_sel split: option.split)

lemma ui_step_sel:
  assumes "sel_ok (ui_state u)" shows "sel_ok (ui_state (ui_step e u))"
proof (cases e)
  case (PinTo uuid now i)
  have "sel_ok ((freshState uuid now)\<lparr>us_scope := All\<rparr>)" using freshState_sel [of uuid now] by (simp add: sel_ok_def)
  thus ?thesis by (simp add: PinTo pin_def requestSelect_sel)
next
  case (SwitchTo i)
  thus ?thesis using assms by (simp add: switchTo_def setState_sel)
next
  case (TitleFromFirstMessage i msg)
  thus ?thesis using assms by (simp add: titleFromFirstMessage_def setTitle_sel Let_def split: option.split)
qed (use assms in \<open>simp_all add: newSession_sel startFresh_sel requestSelect_sel mergeFromServer_sel removeFromServer_sel deleteSession_sel
       setTitle_sel clearEditing_sel clearHover_sel setStarred_sel setVisibility_sel adoptServerId_def renameSession_def
       setModel_def modelSent_def change_row_sel setEditing_def setHover_def setState_keep_sel setCurrentUser_def setScope_def
       setQuery_def toggleProvider_def clearProviders_def setLabelMode_def Let_def split: option.split\<close>)

lemma ui_run_sel: "sel_ok (ui_state u) \<Longrightarrow> sel_ok (ui_state (ui_run u es))"
  unfolding ui_run_def by (induction es arbitrary: u) (simp_all add: ui_step_sel)

text \<open>The module as it starts: the saved state, nothing pinned and nothing being created.\<close>

definition ui_start :: "string \<Rightarrow> int \<Rightarrow> store_state option \<Rightarrow> ui_store" where
  "ui_start uuid now saved = \<lparr>ui_state = loadState uuid now saved, ui_pinnedId = None, ui_saved = saved, ui_creating = {}\<rparr>"

text \<open>
  C27: over every history of the sidebar from a first visit (server snapshots, upserts and removals, the frames replayed
  after a rename or hover, deletes, pins, creates that finish) the list is never empty, the selected conversation is
  one of its rows, and that row is never shown as unread.
\<close>

theorem selection_listed_and_read:
  "let s = ui_state (ui_run (ui_start uuid now None) es)
   in us_sessions s \<noteq> []
      \<and> (\<exists>cur \<in> set (us_sessions s). find_row (us_currentId s) (us_sessions s) = Some cur \<and> ss_id cur = us_currentId s
           \<and> turnDot cur \<noteq> Some Unread \<and> turnDot cur \<noteq> Some UnreadIdle)"
proof -
  define s where "s = ui_state (ui_run (ui_start uuid now None) es)"
  have sel: "sel_ok s" unfolding s_def by (intro ui_run_sel) (simp add: ui_start_def loadState_def freshState_sel)
  then obtain cur where cur: "find_row (us_currentId s) (us_sessions s) = Some cur" "row_read cur" by (auto simp: sel_ok_def)
  hence "cur \<in> set (us_sessions s)" "ss_id cur = us_currentId s" by (auto simp: find_row_def find_Some_iff)
  with cur row_read_dot [OF cur(2)] listed_nonempty [OF sel_ok_listed [OF sel]] show ?thesis by (auto simp: s_def Let_def)
qed

end
