(* ===== verification/Ui_Rows.thy ===== *)
theory Ui_Rows
  imports Ui_Sessions
begin

text \<open>
  What the sidebar's rows are worth. A row is known by a stable local key, which for a conversation started here is a
  local uuid and for one the server listed is the server's id: the keys stay distinct over every history. While the
  pointer or a rename holds a row, no frame from the server moves the list. Then the two functions that order the list
  for display (\<^verbatim>\<open>nestSubagents\<close> and \<^verbatim>\<open>splitSections\<close>) and the object that creates a conversation on its first send
  (\<^verbatim>\<open>services/ui/src/conversation.ts\<close>).
\<close>

subsection \<open>Keys stay distinct\<close>

text \<open>\<open>L\<close> holds the local uuids; the server issues ids outside it.\<close>

definition row_id_ok :: "string set \<Rightarrow> session \<Rightarrow> bool" where
  "row_id_ok L s \<longleftrightarrow>
     (case ss_serverId s of None \<Rightarrow> ss_id s \<in> L | Some y \<Rightarrow> y \<notin> L \<and> (ss_id s = y \<or> ss_id s \<in> L))"

definition rows_ok :: "string set \<Rightarrow> session list \<Rightarrow> bool" where
  "rows_ok L ss \<longleftrightarrow> distinct (map ss_id ss) \<and> (\<forall>s \<in> set ss. row_id_ok L s)"

definition frame_ok :: "string set \<Rightarrow> pending_frame \<Rightarrow> bool" where
  "frame_ok L f \<longleftrightarrow> (case f of RemoveFrame _ \<Rightarrow> True | MergeFrame convs _ \<Rightarrow> sc_id ` set convs \<inter> L = {})"

definition keys_ok :: "string set \<Rightarrow> store_state \<Rightarrow> bool" where
  "keys_ok L s \<longleftrightarrow> rows_ok L (us_sessions s) \<and> (\<forall>f \<in> set (else_val (us_pendingFrames s) []). frame_ok L f)"

text \<open>The map a merge builds: keyed by server key, no two entries with one row key.\<close>

definition index_ok :: "string set \<Rightarrow> (string, session) js_map \<Rightarrow> bool" where
  "index_ok L m \<longleftrightarrow>
     distinct (map fst m)
     \<and> (\<forall>k r. map_of m k = Some r \<longrightarrow> serverKeyOf r = k \<and> row_id_ok L r)
     \<and> (\<forall>k k' r r'. map_of m k = Some r \<longrightarrow> map_of m k' = Some r' \<longrightarrow> ss_id r = ss_id r' \<longrightarrow> k = k')"

lemma index_ok_empty: "index_ok L []"
  by (simp add: index_ok_def)

lemma index_ok_update:
  assumes "index_ok L m" "serverKeyOf r = k" "row_id_ok L r"
    and "\<And>k' r'. map_of m k' = Some r' \<Longrightarrow> ss_id r' = ss_id r \<Longrightarrow> k' = k"
  shows "index_ok L (AList.update k r m)"
  using assms unfolding index_ok_def by (auto simp: distinct_update update_conv' split: if_splits)

lemma index_ok_rows:
  assumes "index_ok L m" shows "rows_ok L (map snd m)"
proof -
  have d: "distinct (map fst m)" using assms by (simp add: index_ok_def)
  have look: "map_of m k = Some r" if "(k, r) \<in> set m" for k r using d that by simp
  have "inj_on (\<lambda>p. ss_id (snd p)) (set m)"
  proof (rule inj_onI)
    fix p q assume p: "p \<in> set m" "q \<in> set m" "ss_id (snd p) = ss_id (snd q)"
    have "fst p = fst q" using assms p look [of "fst p" "snd p"] look [of "fst q" "snd q"] unfolding index_ok_def by (metis prod.collapse)
    thus "p = q" using d p(1,2) by (metis eq_key_imp_eq_value prod.collapse)
  qed
  moreover have "distinct m" using d by (simp add: distinct_map)
  moreover have "row_id_ok L r" if "(k, r) \<in> set m" for k r using assms look [OF that] by (simp add: index_ok_def)
  ultimately show ?thesis unfolding rows_ok_def map_map comp_def distinct_map by auto
qed

lemma index_rows_ok:
  assumes "rows_ok L ss" shows "index_ok L (index_rows ss)"
proof -
  have "index_ok L (fold (\<lambda>s. AList.update (serverKeyOf s) s) ss m)"
    if "rows_ok L ss" "index_ok L m" "\<And>k r. map_of m k = Some r \<Longrightarrow> ss_id r \<notin> ss_id ` set ss" for m
    using that
  proof (induction ss arbitrary: m)
    case (Cons s ss)
    have "index_ok L (AList.update (serverKeyOf s) s m)"
    proof (rule index_ok_update)
      show "row_id_ok L s" using Cons.prems(1) by (simp add: rows_ok_def)
      show "k' = serverKeyOf s" if "map_of m k' = Some r'" "ss_id r' = ss_id s" for k' r' using Cons.prems(3) [OF that(1)] that(2) by simp
    qed (simp_all add: Cons.prems)
    moreover have "rows_ok L ss" using Cons.prems by (simp add: rows_ok_def)
    moreover have "ss_id r \<notin> ss_id ` set ss" if "map_of (AList.update (serverKeyOf s) s m) k = Some r" for k r
      using that Cons.prems by (auto simp: update_conv' rows_ok_def split: if_splits)
    ultimately have "index_ok L (fold (\<lambda>s. AList.update (serverKeyOf s) s) ss (AList.update (serverKeyOf s) s m))" by (intro Cons.IH)
    thus ?case by simp
  qed simp
  from this [OF assms, of "[]"] show ?thesis unfolding index_rows_def by (simp add: index_ok_empty)
qed

lemma merged_row_id: "ss_id (merged_row now fl au c ex) = (case ex of None \<Rightarrow> sc_id c | Some e \<Rightarrow> ss_id e)"
  and merged_row_server: "ss_serverId (merged_row now fl au c ex) = Some (sc_id c)"
  by (simp_all add: merged_row_def Let_def)

lemma merge_one_ok:
  assumes ok: "index_ok L m" and c: "sc_id c \<notin> L" shows "index_ok L (merge_one now fl au c m)"
proof (cases "map_of m (sc_id c)")
  case None
  have "k' = sc_id c" if "map_of m k' = Some r'" "ss_id r' = sc_id c" for k' r'
    using ok c that unfolding index_ok_def row_id_ok_def serverKeyOf_def else_val_def by (fastforce split: option.splits)
  thus ?thesis using None ok c unfolding merge_one_def Let_def
    by (auto simp: merged_row_id merged_row_server row_id_ok_def serverKeyOf_def else_val_def intro!: index_ok_update)
next
  case (Some e)
  have e: "serverKeyOf e = sc_id c" "row_id_ok L e" using ok Some by (auto simp: index_ok_def)
  have other: "k' = sc_id c" if "map_of m k' = Some r'" "ss_id r' = ss_id e" for k' r'
    using ok Some that unfolding index_ok_def by blast
  have "row_id_ok L (merged_row now fl au c (Some e))"
    using e c by (auto simp: row_id_ok_def merged_row_id merged_row_server serverKeyOf_def else_val_def split: option.splits)
  hence "index_ok L (AList.update (sc_id c) (merged_row now fl au c (Some e)) m)"
    using ok other by (intro index_ok_update) (simp_all add: merged_row_id merged_row_server serverKeyOf_def else_val_def)
  moreover have "index_ok L (AList.update (sc_id c) e m)" using ok e other by (intro index_ok_update) simp_all
  ultimately show ?thesis by (simp add: merge_one_def Let_def Some)
qed

lemma merge_all_ok:
  assumes "index_ok L m" "sc_id ` set convs \<inter> L = {}" shows "index_ok L (fold (merge_one now fl au) convs m)"
  using assms by (induction convs arbitrary: m) (simp_all add: merge_one_ok)


lemma rows_ok_subset: "rows_ok L ss \<Longrightarrow> rows_ok L (filter P ss)"
  by (simp add: rows_ok_def distinct_map_filter)

lemma distinct_ids_sort: "distinct (map ss_id (sort_key f ss)) \<longleftrightarrow> distinct (map ss_id ss)"
  by (metis mset_sort mset_map mset_eq_imp_distinct_iff)

lemma rows_ok_sort [simp]: "rows_ok L (by_starred_then_recent ss) \<longleftrightarrow> rows_ok L ss"
  by (simp add: rows_ok_def by_starred_then_recent_def distinct_ids_sort)

lemma rows_ok_new: "rows_ok L ss \<Longrightarrow> i \<in> L \<Longrightarrow> \<not> listed i ss \<Longrightarrow> rows_ok L (new_row i now b # ss)"
  by (simp add: rows_ok_def new_row_def row_id_ok_def listed_def)

lemma rows_ok_single: "i \<in> L \<Longrightarrow> rows_ok L [new_row i now b]"
  by (simp add: rows_ok_def new_row_def row_id_ok_def)

lemma rows_ok_map:
  assumes "rows_ok L ss" "\<And>x. x \<in> set ss \<Longrightarrow> ss_id (f x) = ss_id x" "\<And>x. x \<in> set ss \<Longrightarrow> row_id_ok L x \<Longrightarrow> row_id_ok L (f x)"
  shows "rows_ok L (map f ss)"
proof -
  have "map ss_id (map f ss) = map ss_id ss" using assms(2) by simp
  thus ?thesis using assms unfolding rows_ok_def by (simp del: map_map) 
qed

lemma map_first_rows_ok:
  assumes "rows_ok L ss" "\<And>x. ss_id (f x) = ss_id x" "\<And>x. ss_serverId (f x) = ss_serverId x"
  shows "rows_ok L (map_first P f ss)"
proof -
  have i: "map ss_id (map_first P f ss) = map ss_id ss" using assms(2) by (induction ss) auto
  have same: "row_id_ok L (f x) = row_id_ok L x" for x by (simp only: row_id_ok_def assms(2,3))
  have "x \<in> set (map_first P f ss) \<Longrightarrow> row_id_ok L x" for x
    using assms(1) by (induction ss) (auto simp: rows_ok_def same split: if_splits)
  thus ?thesis using i assms(1) by (simp add: rows_ok_def)
qed

lemma setState_keys: "keys_ok L next \<Longrightarrow> keys_ok L (ui_state (setState next u))"
  by (auto simp: setState_def markCurrentSeen_def keys_ok_def Let_def intro!: map_first_rows_ok split: option.split)

lemma keys_okI:
  assumes "keys_ok L s" "us_pendingFrames t = us_pendingFrames s" "rows_ok L (us_sessions t)" shows "keys_ok L t"
  using assms by (simp add: keys_ok_def)

lemma keys_ok_rows: "keys_ok L s \<Longrightarrow> rows_ok L (us_sessions s)"
  by (simp add: keys_ok_def)

lemma setState_same_keys:
  assumes "keys_ok L (ui_state u)" "us_sessions next = us_sessions (ui_state u)" "us_pendingFrames next = us_pendingFrames (ui_state u)"
  shows "keys_ok L (ui_state (setState next u))"
  using assms by (intro setState_keys) (simp add: keys_ok_def)

lemma merge_frame_keys:
  assumes ok: "keys_ok L (ui_state u)" and c: "sc_id ` set convs \<inter> L = {}" shows "keys_ok L (ui_state (merge_frame now convs o1 u))"
proof -
  define byId where "byId = fold (merge_one now (else_val (mo_fullList o1) True) (else_val (mo_sourcesAuthoritative o1) True)) convs
     (index_rows (us_sessions (ui_state u)))"
  define kept where "kept = filter (row_stays (else_val (mo_fullList o1) True) (map sc_id convs) (us_currentId (ui_state u)) (ui_creating u)) (map snd byId)"
  define rows where "rows = by_starred_then_recent (if kept = [] then map snd byId else kept)"
  have "index_ok L byId" unfolding byId_def using ok c by (intro merge_all_ok index_rows_ok) (simp_all add: keys_ok_def)
  hence b: "rows_ok L (map snd byId)" by (rule index_ok_rows)
  hence "rows_ok L kept" unfolding kept_def by (rule rows_ok_subset)
  with b have "rows_ok L rows" by (simp add: rows_def)
  thus ?thesis
    unfolding merge_frame_def Let_def byId_def [symmetric] kept_def [symmetric] rows_def [symmetric]
    using ok by (auto split: option.splits list.splits if_splits prod.splits intro!: setState_keys intro: keys_okI)
qed

lemma deleteSession_keys:
  assumes "keys_ok L (ui_state u)" "uuid \<in> L" shows "keys_ok L (ui_state (deleteSession uuid now i u))"
  using assms rows_ok_subset [OF keys_ok_rows [OF assms(1)], of "\<lambda>x. ss_id x \<noteq> i"] unfolding deleteSession_def Let_def
  by (auto simp: rows_ok_single intro!: setState_keys intro: keys_okI [OF assms(1)] split: list.split)

lemma queueFrame_keys:
  assumes "keys_ok L (ui_state u)" "frame_ok L f" shows "keys_ok L (ui_state (queueFrame f u))"
  unfolding queueFrame_def Let_def using assms by (intro setState_keys) (auto simp: keys_ok_def else_val_def split: option.splits)

lemma removeFromServer_keys:
  assumes "keys_ok L (ui_state u)" "uuid \<in> L" shows "keys_ok L (ui_state (removeFromServer uuid now i u))"
  using assms by (simp add: removeFromServer_def deleteSession_keys queueFrame_keys frame_ok_def split: option.split)

lemma replay_frame_keys:
  assumes "keys_ok L (ui_state u)" "uuids (fst kf) \<in> L" "frame_ok L (snd kf)" shows "keys_ok L (ui_state (replay_frame uuids now kf u))"
  using assms by (auto simp: replay_frame_def removeFromServer_keys queueFrame_keys merge_frame_keys frame_ok_def split: pending_frame.splits)

lemma fold_replay_keys:
  assumes "keys_ok L (ui_state u)" "\<And>k. uuids k \<in> L" "\<forall>kf \<in> set kfs. frame_ok L (snd kf)"
  shows "keys_ok L (ui_state (fold (replay_frame uuids now) kfs u))"
  using assms by (induction kfs arbitrary: u) (simp_all add: replay_frame_keys)

lemma flush_keys:
  assumes ok: "keys_ok L (ui_state u)" and L: "\<And>k. uuids k \<in> L" shows "keys_ok L (ui_state (flushPendingFrames uuids now u))"
proof (cases "us_pendingFrames (ui_state u)")
  case (Some fs)
  have "frame_ok L (snd kf)" if "kf \<in> set (enumerate 0 fs)" for kf
    using that ok Some by (auto simp: keys_ok_def else_val_def in_set_enumerate_eq dest: nth_mem [of _ fs])
  moreover have "keys_ok L (ui_state (setState ((ui_state u)\<lparr>us_pendingFrames := None\<rparr>) u))"
    using ok by (intro setState_keys) (simp add: keys_ok_def else_val_def)
  ultimately show ?thesis using ok L unfolding flushPendingFrames_def Some
    by (simp del: enumerate_simps fold_simps add: fold_replay_keys split: list.split)
qed (simp add: flushPendingFrames_def ok)

lemma mergeFromServer_keys:
  assumes "keys_ok L (ui_state u)" "\<And>k. uuids k \<in> L" "sc_id ` set convs \<inter> L = {}"
  shows "keys_ok L (ui_state (mergeFromServer uuids now convs o1 u))"
  using assms unfolding mergeFromServer_def Let_def
  by (simp add: merge_frame_keys queueFrame_keys frame_ok_def flush_keys setState_same_keys)


text \<open>
  What an event brings: local uuids are local and not yet listed where a row is added, the server's ids are not local,
  and an id is recorded only on a row that was started here.
\<close>

fun event_ids_ok :: "string set \<Rightarrow> store_event \<Rightarrow> ui_store \<Rightarrow> bool" where
  "event_ids_ok L (PinTo uuid now i) u \<longleftrightarrow> uuid \<in> L"
| "event_ids_ok L (NewSession i now) u \<longleftrightarrow> i \<in> L \<and> \<not> listed i (us_sessions (ui_state u))"
| "event_ids_ok L (StartFresh i now) u \<longleftrightarrow> i \<in> L \<and> \<not> listed i (us_sessions (ui_state u))"
| "event_ids_ok L (MergeFromServer uuids now convs o1) u \<longleftrightarrow> (\<forall>k. uuids k \<in> L) \<and> sc_id ` set convs \<inter> L = {}"
| "event_ids_ok L (RemoveFromServer uuid now i) u \<longleftrightarrow> uuid \<in> L"
| "event_ids_ok L (DeleteSession uuid now i) u \<longleftrightarrow> uuid \<in> L"
| "event_ids_ok L (AdoptServerId key i) u \<longleftrightarrow> key \<in> L \<and> i \<notin> L"
| "event_ids_ok L (ClearEditing uuids now i) u \<longleftrightarrow> (\<forall>k. uuids k \<in> L)"
| "event_ids_ok L (ClearHover uuids now i) u \<longleftrightarrow> (\<forall>k. uuids k \<in> L)"
| "event_ids_ok L _ u \<longleftrightarrow> True"

fun history_ids_ok :: "string set \<Rightarrow> store_event list \<Rightarrow> ui_store \<Rightarrow> bool" where
  "history_ids_ok L [] u \<longleftrightarrow> True"
| "history_ids_ok L (e # es) u \<longleftrightarrow> event_ids_ok L e u \<and> history_ids_ok L es (ui_step e u)"

lemma change_row_keys:
  assumes ok: "keys_ok L (ui_state u)" and f: "\<And>x. ss_id (f x) = ss_id x"
    and r: "\<And>x. ss_id x = i \<Longrightarrow> row_id_ok L x \<Longrightarrow> row_id_ok L (f x)"
  shows "keys_ok L (ui_state (change_row i f u))"
proof -
  have "rows_ok L (map (\<lambda>x. if ss_id x = i then f x else x) (us_sessions (ui_state u)))"
    using keys_ok_rows [OF ok] f r by (intro rows_ok_map) auto
  thus ?thesis unfolding change_row_def with_rows_def using ok by (intro setState_keys) (auto intro: keys_okI)
qed

lemma same_ids_row_ok: "ss_id y = ss_id x \<Longrightarrow> ss_serverId y = ss_serverId x \<Longrightarrow> row_id_ok L x \<Longrightarrow> row_id_ok L y"
  by (simp only: row_id_ok_def)

lemma change_content_keys:
  assumes "keys_ok L (ui_state u)" "\<And>x. ss_id (f x) = ss_id x" "\<And>x. ss_serverId (f x) = ss_serverId x"
  shows "keys_ok L (ui_state (change_row i f u))"
  by (rule change_row_keys [OF assms(1,2)]) (rule same_ids_row_ok [OF assms(2,3)])

lemma setTitle_keys: "keys_ok L (ui_state u) \<Longrightarrow> keys_ok L (ui_state (setTitle_row i t u))"
  by (simp add: setTitle_row_def change_content_keys split: option.split)

lemma adoptServerId_keys:
  assumes "keys_ok L (ui_state u)" "key \<in> L" "i \<notin> L" shows "keys_ok L (ui_state (adoptServerId key i u))"
  using assms unfolding adoptServerId_def by (auto intro!: change_row_keys simp: row_id_ok_def)

lemma newSession_keys:
  assumes "keys_ok L (ui_state u)" "i \<in> L" "\<not> listed i (us_sessions (ui_state u))" shows "keys_ok L (ui_state (newSession i now u))"
  using rows_ok_new [OF keys_ok_rows [OF assms(1)] assms(2,3)] unfolding newSession_def
  by (intro setState_keys) (simp add: keys_okI [OF assms(1)])

lemma startFresh_keys:
  assumes "keys_ok L (ui_state u)" "i \<in> L" "\<not> listed i (us_sessions (ui_state u))" shows "keys_ok L (ui_state (startFresh i now u))"
  using assms by (simp add: startFresh_def newSession_keys setState_same_keys split: option.split)

lemma requestSelect_keys: "keys_ok L (ui_state u) \<Longrightarrow> keys_ok L (ui_state (requestSelect i u))"
  by (simp add: requestSelect_def setState_same_keys)

lemma clearEditing_keys:
  assumes "keys_ok L (ui_state u)" "\<And>k. uuids k \<in> L" shows "keys_ok L (ui_state (clearEditing uuids now i u))"
  using assms by (simp add: clearEditing_def Let_def flush_keys setState_same_keys)

lemma clearHover_keys:
  assumes "keys_ok L (ui_state u)" "\<And>k. uuids k \<in> L" shows "keys_ok L (ui_state (clearHover uuids now i u))"
  using assms by (simp add: clearHover_def Let_def flush_keys setState_same_keys)

lemma unstar_frame_ok: "frame_ok L f \<Longrightarrow> frame_ok L (unstar_frame key f)"
  by (auto simp: frame_ok_def unstar_frame_def split: pending_frame.splits)

lemma setStarred_keys:
  assumes "keys_ok L (ui_state u)" shows "keys_ok L (ui_state (setStarred i b u))"
proof -
  have "rows_ok L (map (\<lambda>x. if ss_id x = i then x\<lparr>ss_starred := Some b\<rparr> else x) (us_sessions (ui_state u)))"
    using keys_ok_rows [OF assms] by (intro rows_ok_map) (auto intro: same_ids_row_ok)
  hence "keys_ok L ((ui_state u)\<lparr>us_sessions := by_starred_then_recent
           (map (\<lambda>x. if ss_id x = i then x\<lparr>ss_starred := Some b\<rparr> else x) (us_sessions (ui_state u))),
         us_pendingFrames := map_option (map (unstar_frame key)) (us_pendingFrames (ui_state u))\<rparr>)" for key
    using assms by (auto simp: keys_ok_def else_val_def unstar_frame_ok split: option.splits)
  thus ?thesis using assms unfolding setStarred_def by (simp add: setState_keys split: option.split)
qed

lemma setVisibility_keys:
  assumes "keys_ok L (ui_state u)" shows "keys_ok L (ui_state (setVisibility_row i v u))"
proof -
  have "rows_ok L (map (\<lambda>x. if ss_id x = i \<or> ss_parentId x = Some p then x\<lparr>ss_visibility := Some v\<rparr> else x) (us_sessions (ui_state u)))" for p
    using keys_ok_rows [OF assms] by (intro rows_ok_map) (auto intro: same_ids_row_ok)
  thus ?thesis using assms unfolding setVisibility_row_def with_rows_def
    by (auto intro!: setState_keys intro: keys_okI split: option.split)
qed

lemma ui_step_keys:
  assumes ok: "keys_ok L (ui_state u)" and e: "event_ids_ok L e u" shows "keys_ok L (ui_state (ui_step e u))"
proof (cases e)
  case (PinTo uuid now i)
  have "keys_ok L ((freshState uuid now)\<lparr>us_scope := All\<rparr>)"
    using e PinTo by (simp add: keys_ok_def freshState_def rows_ok_single else_val_def)
  thus ?thesis by (simp add: PinTo pin_def requestSelect_keys)
next
  case (TitleFromFirstMessage i msg)
  thus ?thesis using ok by (simp add: titleFromFirstMessage_def setTitle_keys Let_def split: option.split)
next
  case (AdoptServerId key i)
  thus ?thesis using ok e by (simp add: adoptServerId_keys)
qed (use assms in \<open>simp_all add: newSession_keys startFresh_keys requestSelect_keys mergeFromServer_keys removeFromServer_keys deleteSession_keys
       setTitle_keys clearEditing_keys clearHover_keys setStarred_keys setVisibility_keys renameSession_def switchTo_def
       setModel_def modelSent_def change_content_keys setEditing_def setHover_def setState_same_keys setCurrentUser_def setScope_def
       setQuery_def toggleProvider_def clearProviders_def setLabelMode_def Let_def split: option.split\<close>)

lemma ui_run_keys: "keys_ok L (ui_state u) \<Longrightarrow> history_ids_ok L es u \<Longrightarrow> keys_ok L (ui_state (ui_run u es))"
  unfolding ui_run_def by (induction es arbitrary: u) (simp_all add: ui_step_keys)

text \<open>
  C38: whatever the server lists, removes or re-lists, and whatever the user starts, creates, renames and deletes
  meanwhile, no two rows of the sidebar share a key; and a row's key is either the local uuid it was started under or
  the server's own id, so the id adopted from the server never renames a row.
\<close>

theorem row_keys_distinct:
  assumes "uuid \<in> L" "history_ids_ok L es (ui_start uuid now None)"
  shows "let ss = us_sessions (ui_state (ui_run (ui_start uuid now None) es))
         in distinct (map ss_id ss) \<and> (\<forall>s \<in> set ss. ss_id s \<in> L \<or> ss_serverId s = Some (ss_id s))"
proof -
  have "keys_ok L (ui_state (ui_start uuid now None))"
    using assms(1) by (simp add: ui_start_def loadState_def keys_ok_def freshState_def rows_ok_single else_val_def)
  from keys_ok_rows [OF ui_run_keys [OF this assms(2)]] show ?thesis
    unfolding Let_def rows_ok_def row_id_ok_def by (auto split: option.splits)
qed


definition wit_row :: "string \<Rightarrow> string option \<Rightarrow> server_conversation" where
  "wit_row i p =
     \<lparr>sc_id = i, sc_title = Some ''t'', sc_createdAt = Some 1, sc_lastActivityAt = Some 1, sc_model = None, sc_sources = None,
      sc_links = None, sc_owner = None, sc_status = None, sc_parentId = p, sc_userTitled = None, sc_starred = None, sc_visibility = None,
      sc_runStartedAt = None, sc_lastReplyAt = None, sc_awaitingInputAt = None\<rparr>"

definition wit_snapshot :: merge_opts where "wit_snapshot = \<lparr>mo_fullList = None, mo_sourcesAuthoritative = None\<rparr>"

definition wit_upsert :: merge_opts where "wit_upsert = \<lparr>mo_fullList = Some False, mo_sourcesAuthoritative = None\<rparr>"

definition wit_history :: "store_event list" where
  "wit_history =
     [CreateBegins ''u1'', AdoptServerId ''u1'' ''a'', CreateEnds ''u1'',
      MergeFromServer (\<lambda>_. ''u2'') 5 [wit_row ''a'' None, wit_row ''b'' None] wit_snapshot, NewSession ''u3'' 6]"

theorem row_keys_distinct_witness:
  "let ss = us_sessions (ui_state (ui_run (ui_start ''u1'' 0 None) wit_history))
   in map ss_id ss = [''u3'', ''u1'', ''b''] \<and> distinct (map ss_id ss) \<and> (\<forall>s \<in> set ss. ss_id s \<in> {''u1'', ''u2'', ''u3''} \<or> ss_serverId s = Some (ss_id s))"
proof -
  have "history_ids_ok {''u1'', ''u2'', ''u3''} wit_history (ui_start ''u1'' 0 None)"
    unfolding wit_history_def history_ids_ok.simps event_ids_ok.simps by (intro conjI allI) (simp | code_simp)+
  from row_keys_distinct [OF _ this] have "let ss = us_sessions (ui_state (ui_run (ui_start ''u1'' 0 None) wit_history))
    in distinct (map ss_id ss) \<and> (\<forall>s \<in> set ss. ss_id s \<in> {''u1'', ''u2'', ''u3''} \<or> ss_serverId s = Some (ss_id s))" by simp
  moreover have "map ss_id (us_sessions (ui_state (ui_run (ui_start ''u1'' 0 None) wit_history))) = [''u3'', ''u1'', ''b'']" by code_simp
  ultimately show ?thesis unfolding Let_def by blast
qed

subsection \<open>A held list\<close>

definition held :: "string \<Rightarrow> ui_store \<Rightarrow> bool" where
  "held r u \<longleftrightarrow> (us_editingId (ui_state u) = Some r \<or> us_hoverId (ui_state u) = Some r) \<and> listed r (filteredSessions (ui_state u))"

fun server_event :: "store_event \<Rightarrow> bool" where
  "server_event (MergeFromServer uuids now convs o1) = True"
| "server_event (RemoveFromServer uuid now i) = True"
| "server_event _ = False"

lemma markCurrentSeen_read: "sel_ok s \<Longrightarrow> markCurrentSeen s = s"
  by (auto simp: sel_ok_def markCurrentSeen_def row_read_def split: option.split)

lemma setState_quiet:
  assumes "sel_ok (ui_state u)" "ui_pinnedId u = None" "us_sessions next = us_sessions (ui_state u)" "us_currentId next = us_currentId (ui_state u)"
  shows "setState next u = u\<lparr>ui_state := next, ui_saved := Some next\<rparr>"
proof -
  have "sel_ok next" using assms by (simp add: sel_ok_def)
  thus ?thesis using assms(2) by (simp add: setState_def markCurrentSeen_read)
qed

lemma filteredSessions_cong:
  assumes "us_sessions s = us_sessions t" "us_scope s = us_scope t" "us_currentUser s = us_currentUser t"
    "us_currentUserAnonymous s = us_currentUserAnonymous t" "us_query s = us_query t" "us_providerFilter s = us_providerFilter t"
  shows "filteredSessions s = filteredSessions t"
  using assms by (simp add: filteredSessions_def visibleSessions_def)

lemma queueFrame_queue: "\<exists>fs. queueFrame f u = setState ((ui_state u)\<lparr>us_pendingFrames := Some (fs @ [f])\<rparr>) u"
  unfolding queueFrame_def Let_def by (rule exI) (rule refl)

lemma queueFrame_holds:
  assumes "sel_ok (ui_state u)" "ui_pinnedId u = None"
  obtains fs where "queueFrame f u = u\<lparr>ui_state := (ui_state u)\<lparr>us_pendingFrames := Some (fs @ [f])\<rparr>,
    ui_saved := Some ((ui_state u)\<lparr>us_pendingFrames := Some (fs @ [f])\<rparr>)\<rparr>"
  using queueFrame_queue [of f u] setState_quiet [OF assms] by auto

lemma held_id: "held r u \<Longrightarrow> heldRowId (ui_state u) \<noteq> None"
  by (auto simp: held_def heldRowId_def else_opt_def split: option.splits)

lemma held_queue:
  assumes "held r u" "sel_ok (ui_state u)" "ui_pinnedId u = None"
  shows "held r (queueFrame f u) \<and> us_sessions (ui_state (queueFrame f u)) = us_sessions (ui_state u)
    \<and> us_currentId (ui_state (queueFrame f u)) = us_currentId (ui_state u) \<and> ui_pinnedId (queueFrame f u) = None
    \<and> (\<exists>fs. us_pendingFrames (ui_state (queueFrame f u)) = Some (fs @ [f]))"
proof -
  obtain fs where q: "queueFrame f u = u\<lparr>ui_state := (ui_state u)\<lparr>us_pendingFrames := Some (fs @ [f])\<rparr>,
    ui_saved := Some ((ui_state u)\<lparr>us_pendingFrames := Some (fs @ [f])\<rparr>)\<rparr>" by (rule queueFrame_holds [OF assms(2,3)])
  have "filteredSessions ((ui_state u)\<lparr>us_pendingFrames := Some (fs @ [f])\<rparr>) = filteredSessions (ui_state u)" by (rule filteredSessions_cong) simp_all
  hence "held r (queueFrame f u)" using assms(1) unfolding q held_def by simp
  thus ?thesis using assms(3) unfolding q by simp
qed


definition live_hold :: "store_state \<Rightarrow> string option \<Rightarrow> string option" where
  "live_hold s x = (case x of Some i \<Rightarrow> if listed i (filteredSessions s) then Some i else None | None \<Rightarrow> None)"

lemma live_hold_kept: "listed r (filteredSessions s) \<Longrightarrow> live_hold s (Some r) = Some r"
  by (simp add: live_hold_def)

text \<open>Forgetting the holds whose rows are gone.\<close>

definition drop_stale :: "ui_store \<Rightarrow> ui_store" where
  "drop_stale u =
     (let s = ui_state u
      in if live_hold s (us_editingId s) \<noteq> us_editingId s \<or> live_hold s (us_hoverId s) \<noteq> us_hoverId s
         then setState (s\<lparr>us_editingId := live_hold s (us_editingId s), us_hoverId := live_hold s (us_hoverId s)\<rparr>) u else u)"

lemma mergeFromServer_stale:
  "mergeFromServer uuids now convs o1 u =
     (if convs = [] then u
      else if heldRowId (ui_state u) = None then merge_frame now convs o1 u
      else if heldRowId (ui_state (drop_stale u)) \<noteq> None then queueFrame (MergeFrame convs o1) (drop_stale u)
      else merge_frame now convs o1 (flushPendingFrames uuids now (drop_stale u)))"
  unfolding mergeFromServer_def drop_stale_def Let_def live_hold_def by (rule refl)

lemma drop_stale_held:
  assumes "held r u" "sel_ok (ui_state u)" "ui_pinnedId u = None"
  shows "held r (drop_stale u) \<and> sel_ok (ui_state (drop_stale u)) \<and> ui_pinnedId (drop_stale u) = None
    \<and> us_sessions (ui_state (drop_stale u)) = us_sessions (ui_state u) \<and> us_currentId (ui_state (drop_stale u)) = us_currentId (ui_state u)"
proof -
  let ?s = "ui_state u"
  let ?t = "?s\<lparr>us_editingId := live_hold ?s (us_editingId ?s), us_hoverId := live_hold ?s (us_hoverId ?s)\<rparr>"
  have q: "setState ?t u = u\<lparr>ui_state := ?t, ui_saved := Some ?t\<rparr>" using assms(2,3) by (intro setState_quiet) simp_all
  have f: "filteredSessions ?t = filteredSessions ?s" by (rule filteredSessions_cong) simp_all
  have "held r (setState ?t u)" using assms(1) f unfolding q held_def by (auto simp: live_hold_kept)
  moreover have "sel_ok ?t" using assms(2) by (simp add: sel_ok_def)
  ultimately show ?thesis using assms q unfolding drop_stale_def Let_def by simp
qed

lemma held_step:
  assumes "held r u" "sel_ok (ui_state u)" "ui_pinnedId u = None" "server_event e"
  shows "held r (ui_step e u) \<and> ui_pinnedId (ui_step e u) = None
    \<and> us_sessions (ui_state (ui_step e u)) = us_sessions (ui_state u) \<and> us_currentId (ui_state (ui_step e u)) = us_currentId (ui_state u)"
proof (cases e)
  case (MergeFromServer uuids now convs o1)
  note d = drop_stale_held [OF assms(1-3)]
  have "heldRowId (ui_state u) \<noteq> None" "heldRowId (ui_state (drop_stale u)) \<noteq> None" using assms(1) d held_id by blast+
  hence step: "ui_step e u = (if convs = [] then u else queueFrame (MergeFrame convs o1) (drop_stale u))"
    by (auto simp: MergeFromServer mergeFromServer_stale)
  have "held r (drop_stale u)" "sel_ok (ui_state (drop_stale u))" "ui_pinnedId (drop_stale u) = None" using d by blast+
  from held_queue [OF this, of "MergeFrame convs o1"] d show ?thesis unfolding step using assms(1,3) by simp
next
  case (RemoveFromServer uuid now i)
  have "ui_step e u = queueFrame (RemoveFrame i) u" using held_id [OF assms(1)] by (simp add: RemoveFromServer removeFromServer_def)
  thus ?thesis using held_queue [OF assms(1-3)] by simp
qed (use assms(4) in simp_all)

text \<open>
  C39: while a rename is open on a row, or the pointer rests on its actions, and that row is among those shown, no sequence of
  snapshots, upserts and removals from the server changes a row, moves one or moves the selection, and the hold itself stands.
\<close>

theorem held_list_stands_still:
  assumes "u = ui_run (ui_start uuid now None) es" "ui_pinnedId u = None" "held r u" "list_all server_event fs"
  shows "us_sessions (ui_state (ui_run u fs)) = us_sessions (ui_state u) \<and> us_currentId (ui_state (ui_run u fs)) = us_currentId (ui_state u)
    \<and> held r (ui_run u fs)"
proof -
  have "sel_ok (ui_state (ui_start uuid now None))" by (simp add: ui_start_def loadState_def freshState_sel)
  hence "sel_ok (ui_state u)" unfolding assms(1) by (rule ui_run_sel)
  thus ?thesis using assms(2-4)
  proof (induction fs arbitrary: u)
    case (Cons e fs)
    have "held r (ui_step e u)" "ui_pinnedId (ui_step e u) = None" "us_sessions (ui_state (ui_step e u)) = us_sessions (ui_state u)"
      "us_currentId (ui_state (ui_step e u)) = us_currentId (ui_state u)" using held_step [OF Cons.prems(3,1,2)] Cons.prems(4) by simp_all
    thus ?case using Cons.IH [of "ui_step e u"] ui_step_sel [OF Cons.prems(1)] Cons.prems(4) by (simp add: ui_run_def)
  qed (simp add: ui_run_def)
qed

definition wit_held :: "store_event list" where
  "wit_held = [MergeFromServer (\<lambda>_. ''u2'') 5 [wit_row ''a'' None, wit_row ''b'' None] wit_snapshot, SetEditing ''a'']"

theorem held_list_stands_still_witness:
  "map ss_id (us_sessions (ui_state (ui_run (ui_run (ui_start ''u1'' 0 None) wit_held) [RemoveFromServer ''u4'' 6 ''b'']))) = [''a'', ''b'', ''u1'']"
proof -
  have 1: "us_sessions (ui_state (ui_run (ui_run (ui_start ''u1'' 0 None) wit_held) [RemoveFromServer ''u4'' 6 ''b'']))
     = us_sessions (ui_state (ui_run (ui_start ''u1'' 0 None) wit_held))"
    by (rule held_list_stands_still [OF refl, of _ _ _ "''a''", THEN conjunct1]) code_simp+
  have 2: "map ss_id (us_sessions (ui_state (ui_run (ui_start ''u1'' 0 None) wit_held))) = [''a'', ''b'', ''u1'']" by code_simp
  show ?thesis unfolding 1 by (rule 2)
qed

text \<open>
  A frame held back is dropped as a whole when a later frame names one of its conversations. A snapshot listing \<open>a\<close> and
  \<open>b\<close>, followed by an upsert of \<open>a\<close> alone, leaves nothing of what the snapshot said about \<open>b\<close>; the same frames with no hold
  list \<open>b\<close>.
\<close>

lemma held_snapshot_lost:
  "let frames = [MergeFromServer (\<lambda>_. ''u2'') 6 [wit_row ''a'' None, wit_row ''b'' None] wit_snapshot,
                 MergeFromServer (\<lambda>_. ''u2'') 7 [wit_row ''a'' None] wit_upsert];
       u = ui_run (ui_start ''u1'' 0 None) [MergeFromServer (\<lambda>_. ''u2'') 5 [wit_row ''a'' None] wit_snapshot];
       rows = (\<lambda>es. map ss_id (us_sessions (ui_state (ui_run u es))))
   in rows frames = [''a'', ''b'', ''u1''] \<and> rows (SetHover ''a'' # frames @ [ClearHover (\<lambda>_. ''u3'') 8 None]) = [''a'', ''u1'']"
  by code_simp

end
