(* ===== verification/Ui_Sidebar.thy ===== *)
theory Ui_Sidebar
  imports Ui_Rows
begin

text \<open>
  How the list is laid out and how a conversation comes to exist: \<^verbatim>\<open>nestSubagents\<close> and \<^verbatim>\<open>splitSections\<close> of
  \<^verbatim>\<open>services/ui/src/sessions.ts\<close>, which put subagents under their parents and starred conversations first, and the
  \<^verbatim>\<open>Conversation\<close> object of \<^verbatim>\<open>services/ui/src/conversation.ts\<close> with the map of them the store keeps, which asks the server for
  an id on the first send and shares that one request among all who wait for it.
\<close>

subsection \<open>Nesting\<close>

record sidebar_row =
  sb_session :: session
  sb_depth :: nat
  sb_childCount :: nat

text \<open>
  The rows by server key, the last of a key winning. \<^verbatim>\<open>parent !== s\<close> compares objects of the list, so a row is taken
  with its position.
\<close>

definition nest_index :: "session list \<Rightarrow> (string, nat \<times> session) js_map" where
  "nest_index ss = fold (\<lambda>(i, s). AList.update (serverKeyOf s) (i, s)) (enumerate 0 ss) []"

definition nest_parent :: "session list \<Rightarrow> nat \<times> session \<Rightarrow> session option" where
  "nest_parent ss e =
     (case ss_parentId (snd e) of
        Some (c # cs) \<Rightarrow>
          (case map_of (nest_index ss) (c # cs) of
             Some (j, p) \<Rightarrow> if j \<noteq> fst e then Some p else None
           | None \<Rightarrow> None)
      | _ \<Rightarrow> None)"

definition nest_children :: "session list \<Rightarrow> session \<Rightarrow> session list" where
  "nest_children ss t = map snd (filter (\<lambda>e. map_option ss_id (nest_parent ss e) = Some (ss_id t)) (enumerate 0 ss))"

definition nest_tops :: "session list \<Rightarrow> session list" where
  "nest_tops ss = map snd (filter (\<lambda>e. nest_parent ss e = None) (enumerate 0 ss))"

definition nest_branch :: "session list \<Rightarrow> string option \<Rightarrow> session \<Rightarrow> sidebar_row list" where
  "nest_branch ss activeId t =
     (let children = nest_children ss t;
          onActiveBranch = (case activeId of None \<Rightarrow> True | Some a \<Rightarrow> a = ss_id t \<or> list_ex (\<lambda>ch. ss_id ch = a) children);
          expand = (onActiveBranch \<or> children = [])
      in \<lparr>sb_session = t, sb_depth = 0, sb_childCount = (if expand then 0 else length children)\<rparr>
         # (if expand then map (\<lambda>ch. \<lparr>sb_session = ch, sb_depth = 1, sb_childCount = 0\<rparr>) children else []))"

definition nestSubagents :: "session list \<Rightarrow> string option \<Rightarrow> sidebar_row list" where
  "nestSubagents ss activeId = concat (map (nest_branch ss activeId) (nest_tops ss))"

subsection \<open>Sections\<close>

record sections =
  sec_starred :: "sidebar_row list"
  sec_recent :: "sidebar_row list"

datatype bucket = ToStarred | ToRecent | ToNone

definition row_key :: "sidebar_row \<Rightarrow> string" where "row_key r = serverKeyOf (sb_session r)"

definition starred_keys :: "sidebar_row list \<Rightarrow> string list" where
  "starred_keys rows = map row_key (filter (\<lambda>r. ss_starred (sb_session r) = Some True) rows)"

definition put_row :: "bucket \<Rightarrow> sidebar_row \<Rightarrow> sections \<Rightarrow> sections" where
  "put_row b r acc =
     (if b = ToStarred then acc\<lparr>sec_starred := sec_starred acc @ [r]\<rparr> else acc\<lparr>sec_recent := sec_recent acc @ [r]\<rparr>)"

definition bucket_of :: "string list \<Rightarrow> string list \<Rightarrow> bucket \<Rightarrow> sidebar_row \<Rightarrow> bucket" where
  "bucket_of stars seen b r =
     (if sb_depth r = 0 then (if row_key r \<in> set seen then ToNone else if row_key r \<in> set stars then ToStarred else ToRecent) else b)"

fun split_loop :: "string list \<Rightarrow> sidebar_row list \<Rightarrow> string list \<Rightarrow> bucket \<Rightarrow> sections \<Rightarrow> sections" where
  "split_loop stars [] seen b acc = acc"
| "split_loop stars (r # rs) seen b acc =
     (let b1 = bucket_of stars seen b r
      in if b1 = ToNone \<or> row_key r \<in> set seen then split_loop stars rs seen b1 acc
         else split_loop stars rs (row_key r # seen) b1 (put_row b1 r acc))"

definition splitSections :: "sidebar_row list \<Rightarrow> sections" where
  "splitSections rows = split_loop (starred_keys rows) rows [] ToRecent \<lparr>sec_starred = [], sec_recent = []\<rparr>"

definition shown :: "sections \<Rightarrow> sidebar_row list" where "shown s = sec_starred s @ sec_recent s"

lemma shown_put_row [simp]: "set (shown (put_row b r acc)) = insert r (set (shown acc))"
  by (auto simp: put_row_def shown_def)

lemma distinct_put_row [simp]:
  "distinct (map row_key (shown (put_row b r acc))) \<longleftrightarrow> row_key r \<notin> row_key ` set (shown acc) \<and> distinct (map row_key (shown acc))"
  by (auto simp: put_row_def shown_def)

lemma split_loop_grows: "set (shown acc) \<subseteq> set (shown (split_loop stars rs seen b acc))"
  by (induction stars rs seen b acc rule: split_loop.induct) (auto simp: Let_def)

lemma split_loop_rows: "set (shown (split_loop stars rs seen b acc)) \<subseteq> set (shown acc) \<union> set rs"
  by (induction stars rs seen b acc rule: split_loop.induct) (auto simp: Let_def split: if_splits)

lemma split_loop_distinct:
  "set seen = row_key ` set (shown acc) \<Longrightarrow> distinct (map row_key (shown acc))
   \<Longrightarrow> distinct (map row_key (shown (split_loop stars rs seen b acc)))"
  by (induction stars rs seen b acc rule: split_loop.induct) (simp_all add: Let_def)

lemma split_loop_complete:
  "set seen = row_key ` set (shown acc) \<Longrightarrow> r \<in> set rs \<Longrightarrow> sb_depth r = 0
   \<Longrightarrow> row_key r \<in> row_key ` set (shown (split_loop stars rs seen b acc))"
proof (induction stars rs seen b acc rule: split_loop.induct)
  case (2 stars q rs seen b acc)
  show ?case
  proof (cases "r \<in> set rs")
    case True
    thus ?thesis using 2 by (simp add: Let_def)
  next
    case False
    hence q: "q = r" using 2(4) by simp
    show ?thesis
    proof (cases "row_key r \<in> set seen")
      case True
      thus ?thesis using 2(3) split_loop_grows [of acc stars "q # rs" seen b] by (auto simp: image_iff)
    next
      case seen: False
      hence "r \<in> set (shown (split_loop stars rs (row_key r # seen) (bucket_of stars seen b r) (put_row (bucket_of stars seen b r) r acc)))"
        using split_loop_grows [of "put_row (bucket_of stars seen b r) r acc"] by auto
      thus ?thesis using seen 2(5) by (simp add: q Let_def bucket_of_def)
    qed
  qed
qed simp

text \<open>Top rows stand in the section their conversation's star says.\<close>

definition placed :: "string list \<Rightarrow> sections \<Rightarrow> bool" where
  "placed stars acc \<longleftrightarrow>
     (\<forall>q \<in> set (sec_starred acc). sb_depth q = 0 \<longrightarrow> row_key q \<in> set stars) \<and> (\<forall>q \<in> set (sec_recent acc). sb_depth q = 0 \<longrightarrow> row_key q \<notin> set stars)"

lemma placed_put_row:
  assumes "placed stars acc" "bucket_of stars seen b r \<noteq> ToNone" shows "placed stars (put_row (bucket_of stars seen b r) r acc)"
  using assms by (auto simp: placed_def put_row_def bucket_of_def split: if_splits)

lemma split_loop_placed: "placed stars acc \<Longrightarrow> placed stars (split_loop stars rs seen b acc)"
  by (induction stars rs seen b acc rule: split_loop.induct) (simp_all add: Let_def placed_put_row)

text \<open>
  The two sections of the sidebar show every conversation of the laid-out list that stands on its own, each conversation
  once however many rows of it are held, nothing that was not in the list; and a conversation stands among the starred
  exactly when one of its rows is starred.
\<close>

theorem sections_show_each_once:
  "let out = splitSections rows; all_rows = sec_starred out @ sec_recent out
   in distinct (map row_key all_rows) \<and> set all_rows \<subseteq> set rows
      \<and> row_key ` {r \<in> set rows. sb_depth r = 0} \<subseteq> row_key ` set all_rows
      \<and> {r \<in> set (sec_starred out). sb_depth r = 0}
          = {r \<in> set all_rows. sb_depth r = 0 \<and> row_key r \<in> row_key ` {q \<in> set rows. ss_starred (sb_session q) = Some True}}"
proof -
  define e :: sections where "e = \<lparr>sec_starred = [], sec_recent = []\<rparr>"
  have e: "shown e = []" "placed (starred_keys rows) e" by (simp_all add: e_def shown_def placed_def)
  have out: "splitSections rows = split_loop (starred_keys rows) rows [] ToRecent e" by (simp add: splitSections_def e_def)
  have stars: "set (starred_keys rows) = row_key ` {q \<in> set rows. ss_starred (sb_session q) = Some True}" by (auto simp: starred_keys_def)
  have 1: "distinct (map row_key (shown (splitSections rows)))" unfolding out by (rule split_loop_distinct) (simp_all add: e)
  have 2: "set (shown (splitSections rows)) \<subseteq> set rows"
    using split_loop_rows [of "starred_keys rows" rows "[]" ToRecent e] unfolding out by (simp add: e)
  have 3: "row_key ` {r \<in> set rows. sb_depth r = 0} \<subseteq> row_key ` set (shown (splitSections rows))"
    unfolding out by (auto intro!: split_loop_complete simp: e)
  have "placed (starred_keys rows) (splitSections rows)" unfolding out by (rule split_loop_placed) (rule e)
  hence 4: "{r \<in> set (sec_starred (splitSections rows)). sb_depth r = 0}
     = {r \<in> set (shown (splitSections rows)). sb_depth r = 0 \<and> row_key r \<in> set (starred_keys rows)}"
    unfolding placed_def shown_def by auto
  show ?thesis using 1 2 3 4 unfolding Let_def shown_def stars by simp
qed

subsection \<open>Which rows are laid out\<close>

lemma nest_rows_listed: "sb_session ` set (nestSubagents ss a) \<subseteq> set ss"
proof -
  have "sb_session r \<in> set ss" if "r \<in> set (nest_branch ss a t)" "t \<in> set (nest_tops ss)" for r t
    using that unfolding nest_branch_def nest_tops_def nest_children_def Let_def
    by (auto simp: in_set_enumerate_eq split: if_splits)
  thus ?thesis unfolding nestSubagents_def by auto
qed

lemma top_laid_out: "t \<in> set (nest_tops ss) \<Longrightarrow> t \<in> sb_session ` set (nestSubagents ss a)"
  unfolding nestSubagents_def nest_branch_def Let_def by force

lemma child_laid_out:
  assumes "e \<in> set (enumerate 0 ss)" "nest_parent ss e = Some p" "p \<in> set (nest_tops ss)"
  shows "snd e \<in> sb_session ` set (nestSubagents ss None)"
proof -
  have "snd e \<in> set (nest_children ss p)" using assms(1,2) unfolding nest_children_def by force
  hence "snd e \<in> sb_session ` set (nest_branch ss None p)" by (auto simp: nest_branch_def Let_def image_image)
  thus ?thesis using assms(3) unfolding nestSubagents_def by auto
qed

text \<open>
  With no conversation singled out, a list in which subagents have no subagents of their own is laid out whole: every row of the
  list has its line.
\<close>

theorem flat_nesting_complete:
  assumes "\<forall>e \<in> set (enumerate 0 ss). \<forall>p. nest_parent ss e = Some p \<longrightarrow> p \<in> set (nest_tops ss)"
  shows "sb_session ` set (nestSubagents ss None) = set ss"
proof
  show "set ss \<subseteq> sb_session ` set (nestSubagents ss None)"
  proof
    fix s assume "s \<in> set ss"
    then obtain i where "i < length ss" "ss ! i = s" by (auto simp: in_set_conv_nth)
    hence e: "(i, s) \<in> set (enumerate 0 ss)" by (simp add: in_set_enumerate_eq)
    show "s \<in> sb_session ` set (nestSubagents ss None)"
    proof (cases "nest_parent ss (i, s)")
      case None
      hence "s \<in> set (nest_tops ss)" using e unfolding nest_tops_def by force
      thus ?thesis by (rule top_laid_out)
    next
      case (Some p)
      thus ?thesis using child_laid_out [OF e Some] assms e by simp
    qed
  qed
qed (rule nest_rows_listed)

definition wit_session :: "string \<Rightarrow> string option \<Rightarrow> session" where
  "wit_session i p = (new_row i 0 (Some True))\<lparr>ss_serverId := Some i, ss_parentId := p\<rparr>"

theorem flat_nesting_complete_witness:
  "sb_session ` set (nestSubagents [wit_session ''a'' None, wit_session ''b'' (Some ''a'')] None) = {wit_session ''a'' None, wit_session ''b'' (Some ''a'')}"
proof -
  have "\<forall>e \<in> set (enumerate 0 [wit_session ''a'' None, wit_session ''b'' (Some ''a'')]).
    \<forall>p. nest_parent [wit_session ''a'' None, wit_session ''b'' (Some ''a'')] e = Some p
      \<longrightarrow> p \<in> set (nest_tops [wit_session ''a'' None, wit_session ''b'' (Some ''a'')])"
    by (simp add: nest_parent_def nest_index_def nest_tops_def wit_session_def new_row_def serverKeyOf_def else_val_def)
  from flat_nesting_complete [OF this] show ?thesis by simp
qed

text \<open>
  A subagent of a subagent has no line at all: it is filed under its parent, which is no top row, and the layout visits the
  children of top rows only. Subagents nest deeper than one level when \<^verbatim>\<open>SUBAGENT_MAX_DEPTH\<close> allows it.
\<close>

lemma grandchild_hidden:
  "map (ss_id \<circ> sb_session)
     (nestSubagents [wit_session ''a'' None, wit_session ''b'' (Some ''a''), wit_session ''c'' (Some ''b'')] (Some ''c'')) = [''a'']"
  by code_simp

subsection \<open>Creating a conversation\<close>

text \<open>
  A \<^verbatim>\<open>Conversation\<close>: its key, the server's id once there is one, and the callers that wait on the create in flight.
\<close>

record conversation =
  cv_key :: string
  cv_id :: "string option"
  cv_creating :: "nat option"

text \<open>\<^verbatim>\<open>serverIssued\<close> and \<^verbatim>\<open>hasId\<close>: a blank id is no id.\<close>

definition serverIssued :: "string option \<Rightarrow> string option" where
  "serverIssued i = (case i of Some s \<Rightarrow> if trim s \<noteq> [] then Some s else None | None \<Rightarrow> None)"

definition new_conversation :: "string \<Rightarrow> string option \<Rightarrow> conversation" where
  "new_conversation key i = \<lparr>cv_key = key, cv_id = serverIssued i, cv_creating = None\<rparr>"

datatype ensure_answer = Has string | Waits | Creates

definition ensureCreated :: "conversation \<Rightarrow> conversation \<times> ensure_answer" where
  "ensureCreated c =
     (case cv_id c of
        Some i \<Rightarrow> (c, Has i)
      | None \<Rightarrow>
          (case cv_creating c of
             Some n \<Rightarrow> (c\<lparr>cv_creating := Some (n + 1)\<rparr>, Waits)
           | None \<Rightarrow> (c\<lparr>cv_creating := Some 1\<rparr>, Creates)))"

text \<open>The create in flight ends: the minter answered, or threw. The id is recorded and announced before the waiters are answered.\<close>

datatype create_outcome = Minted "string option" | Threw

record create_end =
  ce_conv :: conversation
  ce_onCreated :: "(string \<times> string) option"
  ce_answers :: "(string option) option list"

definition create_settles :: "create_outcome \<Rightarrow> conversation \<Rightarrow> create_end" where
  "create_settles r c =
     (let n = else_val (cv_creating c) 0
      in case r of
           Threw \<Rightarrow> \<lparr>ce_conv = c\<lparr>cv_creating := None\<rparr>, ce_onCreated = None, ce_answers = replicate n None\<rparr>
         | Minted m \<Rightarrow>
             (case serverIssued m of
                Some i \<Rightarrow> \<lparr>ce_conv = c\<lparr>cv_id := Some i, cv_creating := None\<rparr>, ce_onCreated = Some (cv_key c, i), ce_answers = replicate n (Some (Some i))\<rparr>
              | None \<Rightarrow> \<lparr>ce_conv = c\<lparr>cv_creating := None\<rparr>, ce_onCreated = None, ce_answers = replicate n (Some None)\<rparr>))"

definition shareUrl :: "string \<Rightarrow> conversation \<Rightarrow> string option" where
  "shareUrl origin c = map_option (\<lambda>i. origin @ ''/?thread='' @ encodeURIComponent i) (cv_id c)"

definition conversation_url :: "string \<Rightarrow> string \<Rightarrow> conversation \<Rightarrow> string option" where
  "conversation_url baseUrl path c =
     map_option (\<lambda>i. (if baseUrl \<noteq> [] \<and> last baseUrl = CHR ''/'' then butlast baseUrl else baseUrl)
       @ ''/conversations/'' @ encodeURIComponent i @ path) (cv_id c)"

text \<open>\<^verbatim>\<open>conversationFor\<close>: the object kept for a row, rebuilt when the row's server id has moved on.\<close>

definition conversationFor :: "(string \<Rightarrow> conversation option) \<Rightarrow> session \<Rightarrow> (string \<Rightarrow> conversation option) \<times> conversation" where
  "conversationFor cs s =
     (let fresh_conv = new_conversation (ss_id s) (case ss_serverId s of Some (c # t) \<Rightarrow> Some (c # t) | _ \<Rightarrow> None)
      in case cs (ss_id s) of
           Some found \<Rightarrow> if cv_id found = ss_serverId s then (cs, found) else (cs(ss_id s \<mapsto> fresh_conv), fresh_conv)
         | None \<Rightarrow> (cs(ss_id s \<mapsto> fresh_conv), fresh_conv))"

text \<open>A history of one conversation: sends that need it, and creates that end. What was asked of the server and answered is counted.\<close>

datatype conv_event = Ensure | CreateSettles create_outcome

record conv_log =
  cl_conv :: conversation
  cl_calls :: nat
  cl_creates :: nat
  cl_settled :: nat
  cl_announced :: "(string \<times> string) list"
  cl_answered :: nat

definition conv_step :: "conv_log \<Rightarrow> conv_event \<Rightarrow> conv_log" where
  "conv_step l e =
     (case e of
        Ensure \<Rightarrow>
          (case ensureCreated (cl_conv l) of
             (c, Has i) \<Rightarrow> l\<lparr>cl_conv := c, cl_calls := cl_calls l + 1, cl_answered := cl_answered l + 1\<rparr>
           | (c, Waits) \<Rightarrow> l\<lparr>cl_conv := c, cl_calls := cl_calls l + 1\<rparr>
           | (c, Creates) \<Rightarrow> l\<lparr>cl_conv := c, cl_calls := cl_calls l + 1, cl_creates := cl_creates l + 1\<rparr>)
      | CreateSettles r \<Rightarrow>
          if cv_creating (cl_conv l) = None then l
          else let d = create_settles r (cl_conv l)
               in l\<lparr>cl_conv := ce_conv d, cl_settled := cl_settled l + 1,
                    cl_announced := cl_announced l @ (case ce_onCreated d of Some a \<Rightarrow> [a] | None \<Rightarrow> []),
                    cl_answered := cl_answered l + length (ce_answers d)\<rparr>)"

definition conv_start :: "string \<Rightarrow> conv_log" where
  "conv_start key = \<lparr>cl_conv = new_conversation key None, cl_calls = 0, cl_creates = 0, cl_settled = 0, cl_announced = [], cl_answered = 0\<rparr>"

definition conv_run :: "conv_log \<Rightarrow> conv_event list \<Rightarrow> conv_log" where
  "conv_run l es = fold (\<lambda>e l. conv_step l e) es l"

definition conv_ok :: "string \<Rightarrow> conv_log \<Rightarrow> bool" where
  "conv_ok key l \<longleftrightarrow>
     cv_key (cl_conv l) = key
     \<and> cl_creates l = cl_settled l + (if cv_creating (cl_conv l) = None then 0 else 1)
     \<and> cl_announced l = (case cv_id (cl_conv l) of Some i \<Rightarrow> [(key, i)] | None \<Rightarrow> [])
     \<and> cl_calls l = cl_answered l + else_val (cv_creating (cl_conv l)) 0
     \<and> (cv_id (cl_conv l) \<noteq> None \<longrightarrow> cv_creating (cl_conv l) = None)
     \<and> (case cv_id (cl_conv l) of Some i \<Rightarrow> trim i \<noteq> [] | None \<Rightarrow> True)"

lemma conv_step_ok: "conv_ok key l \<Longrightarrow> conv_ok key (conv_step l e)"
  by (auto simp: conv_ok_def conv_step_def ensureCreated_def create_settles_def serverIssued_def else_val_def Let_def
      split: conv_event.split option.splits create_outcome.split if_splits)

lemma conv_run_ok: "conv_ok key (conv_run (conv_start key) es)"
proof -
  have "conv_ok key m \<Longrightarrow> conv_ok key (conv_run m es)" for m
    unfolding conv_run_def by (induction es arbitrary: m) (simp_all add: conv_step_ok)
  moreover have "conv_ok key (conv_start key)" by (simp add: conv_ok_def conv_start_def new_conversation_def serverIssued_def else_val_def)
  ultimately show ?thesis by simp
qed

lemma created_step:
  assumes "cv_id (cl_conv l) = Some i" "cv_creating (cl_conv l) = None"
  shows "cl_conv (conv_step l e) = cl_conv l" "cl_creates (conv_step l e) = cl_creates l"
  using assms by (cases e; simp add: conv_step_def ensureCreated_def)+

lemma created_run:
  assumes "cv_id (cl_conv l) = Some i" "cv_creating (cl_conv l) = None"
  shows "cl_creates (conv_run l es) = cl_creates l \<and> cv_id (cl_conv (conv_run l es)) = Some i"
  using assms unfolding conv_run_def by (induction es arbitrary: l) (simp_all add: created_step)

text \<open>
  C25: however many sends need a conversation while it does not exist, and whether the server answers, answers a blank id or
  fails, at most one create is in flight at any time; the store is told an id at most once, it is not blank and it is the one the
  conversation holds from then on; once it holds one nothing more is created; the key never changes; and every caller has been
  answered except those waiting on the create in flight.
\<close>

theorem conversation_created_once:
  "let l = conv_run (conv_start key) es
   in cl_creates l - cl_settled l \<le> 1 \<and> cl_settled l \<le> cl_creates l
      \<and> cl_announced l = (case cv_id (cl_conv l) of Some i \<Rightarrow> [(key, i)] | None \<Rightarrow> [])
      \<and> (\<forall>i. cv_id (cl_conv l) = Some i \<longrightarrow> trim i \<noteq> []
           \<and> cl_creates (conv_run l later) = cl_creates l \<and> cv_id (cl_conv (conv_run l later)) = Some i)
      \<and> cv_key (cl_conv l) = key
      \<and> cl_calls l = cl_answered l + (case cv_creating (cl_conv l) of Some n \<Rightarrow> n | None \<Rightarrow> 0)"
proof -
  define l where "l = conv_run (conv_start key) es"
  have ok: "conv_ok key l" unfolding l_def by (rule conv_run_ok)
  have fin: "cv_creating (cl_conv l) = None" "trim i \<noteq> []" if "cv_id (cl_conv l) = Some i" for i using ok that by (auto simp: conv_ok_def)
  show ?thesis unfolding l_def [symmetric] Let_def
  proof (intro conjI allI impI)
    show "cl_creates l - cl_settled l \<le> 1" "cl_settled l \<le> cl_creates l" "cv_key (cl_conv l) = key"
      "cl_announced l = (case cv_id (cl_conv l) of Some i \<Rightarrow> [(key, i)] | None \<Rightarrow> [])" using ok by (auto simp: conv_ok_def)
    show "cl_calls l = cl_answered l + (case cv_creating (cl_conv l) of Some n \<Rightarrow> n | None \<Rightarrow> 0)"
      using ok by (auto simp: conv_ok_def else_val_def split: option.splits)
    fix i assume i: "cv_id (cl_conv l) = Some i"
    show "trim i \<noteq> []" by (rule fin(2) [OF i])
    show "cl_creates (conv_run l later) = cl_creates l" "cv_id (cl_conv (conv_run l later)) = Some i"
      using created_run [OF i fin(1) [OF i]] by simp_all
  qed
qed

definition wit_sends :: "conv_event list" where
  "wit_sends = [Ensure, Ensure, CreateSettles (Minted None), Ensure, CreateSettles (Minted (Some ''x''))]"

theorem conversation_created_once_witness:
  "cl_announced (conv_run (conv_start ''k'') wit_sends) = [(''k'', ''x'')]
   \<and> cl_creates (conv_run (conv_run (conv_start ''k'') wit_sends) [Ensure]) = 2"
proof -
  have 1: "cv_id (cl_conv (conv_run (conv_start ''k'') wit_sends)) = Some ''x''" "cl_creates (conv_run (conv_start ''k'') wit_sends) = 2"
    by code_simp+
  show ?thesis using conversation_created_once [of "''k''" wit_sends "[Ensure]"] 1 by (simp add: Let_def)
qed

end
