(* ===== verification/Spec2Isabelle.thy ===== *)
theory Spec2Isabelle
  imports Event_Log Compaction Ownership Conversation_Registry Integrity_Agent Bridge_Histories Meta_Store
    Sandbox_Manifest Subagent_Limits Tunnel Byoc_Server Ui_Sidebar
begin

text \<open>
  A verification library for the core of scooter, a platform on which people converse with coding agents
  that work in sandboxes. The program under verification is the agent host
  (\<^verbatim>\<open>services/agent-host/src\<close>), of which several pods run side by side on one Postgres database,
  the part of the browser (\<^verbatim>\<open>services/ui/src\<close>) that follows a conversation's event stream and keeps the list of
  conversations, and the
  controller (\<^verbatim>\<open>services/byoc-controller/src\<close>) that connects users' own containers.

  \<^bold>\<open>How the program works.\<close> A conversation is a row of the table \<^verbatim>\<open>conversations\<close>, a log of AG-UI
  events in \<^verbatim>\<open>conversation_events\<close>, and, while it is live, an entry of the session manager of the pod the row
  names. The entry has a bridge, which queues prompts, runs the agent one batch at a time, turns what
  the agent reports into events and persists them. An append is one SQL statement fenced by the row, so
  that a pod which has lost a conversation cannot write its log. Every event carries a checksum chained
  to its predecessor's, which a browser checks as it follows the stream. When a pod dies another one
  finds the interrupted run in the log and resumes it with a preamble made from the log.

  The agent works in a sandbox, a Kubernetes object rendered per conversation from the platform's manifest
  and a deployment's overlay. A user may instead run the agent in a container of their own: it dials the
  controller with a join token or a device key, the controller relays prompts and frames between it and
  whichever pod asks, and the container reaches the platform's MCP servers through a tunnel that the
  agent host serves under the conversation's own token.

  \<^bold>\<open>Theories and sources.\<close> Paths are below \<^verbatim>\<open>services/agent-host/src\<close> unless they say otherwise.

  \<^item> \<^verbatim>\<open>Prelude\<close>: JavaScript strings, arrays, maps and JSON, shared lemmas and collections.
  \<^item> \<^verbatim>\<open>Agui_Events\<close> (\<^verbatim>\<open>bridge.ts\<close>, \<^verbatim>\<open>agui/integrity.ts\<close>): the union of events, canonical JSON and the
    checksum chain; SHA-256 is a parameter. \<^verbatim>\<open>Pg_Schema\<close>: the tables as lists of rows.
  \<^item> \<^verbatim>\<open>Event_Store\<close>, \<^verbatim>\<open>Event_Store_Steps\<close>, \<^verbatim>\<open>Event_Log\<close> (\<^verbatim>\<open>session/eventStore.ts\<close>): reads, the fenced append with its retries
    and failures, removal, backfill; the same operations interleaved over pods as the step relation
    \<open>store_step\<close>, with the invariant that every log is gapless and one chain.
  \<^item> \<^verbatim>\<open>Event_Window\<close> (\<^verbatim>\<open>session/eventWindow.ts\<close>), \<^verbatim>\<open>Messages_Snapshot\<close> (\<^verbatim>\<open>agent/messagesSnapshot.ts\<close>): tails by runs, paging,
    and the fold of events into messages.
  \<^item> \<^verbatim>\<open>Dangling_Run\<close>, \<^verbatim>\<open>Transcript\<close>, \<^verbatim>\<open>Compaction\<close> (\<^verbatim>\<open>session/danglingRun.ts\<close>, \<^verbatim>\<open>agent/transcript.ts\<close>,
    \<^verbatim>\<open>session/compaction.ts\<close>): interrupted runs, the preamble of a revived session, summaries.
  \<^item> \<^verbatim>\<open>Ownership\<close> (\<^verbatim>\<open>session/ownershipGuard.ts\<close>, \<^verbatim>\<open>session/pgOwnershipGuard.ts\<close>): the cache of assignments fed by
    notifications and a queue of reads, each issued and answered in steps of their own, and its agreement with the fence.
  \<^item> \<^verbatim>\<open>Conversation_Registry\<close> (\<^verbatim>\<open>session/conversationRegistry.ts\<close>, \<^verbatim>\<open>session/pgConversationRegistry.ts\<close>, \<^verbatim>\<open>session/resumeGuard.ts\<close>,
    \<^verbatim>\<open>session/visibility.ts\<close>, \<^verbatim>\<open>session/access.ts\<close>).
  \<^item> \<^verbatim>\<open>Integrity_Stream\<close>, \<^verbatim>\<open>Integrity_Agent\<close> (\<^verbatim>\<open>api/management.ts\<close>, \<^verbatim>\<open>services/ui/src/integrityStream.ts\<close>,
    \<^verbatim>\<open>services/ui/src/integrityAgent.ts\<close>): the event stream and the browser's view of it.
  \<^item> \<^verbatim>\<open>Title_Marker\<close> (\<^verbatim>\<open>agent/titleMarker.ts\<close>), \<^verbatim>\<open>Providers\<close> (\<^verbatim>\<open>acp/provider.ts\<close>), \<^verbatim>\<open>Models\<close> (\<^verbatim>\<open>agent/models.ts\<close>).
  \<^item> \<^verbatim>\<open>Bridge_Text\<close>, \<^verbatim>\<open>Bridge_State\<close>, \<^verbatim>\<open>Bridge_Queue\<close>, \<^verbatim>\<open>Bridge_Updates\<close>, \<^verbatim>\<open>Bridge_Permissions\<close>, \<^verbatim>\<open>Bridge_Sessions\<close>, \<^verbatim>\<open>Bridge_Run\<close>
    (\<^verbatim>\<open>bridge.ts\<close>): the bridge's state and one function per operation; the pump with its awaits is the step
    function \<open>step\<close> over inputs (calls, answers of the agent, timers). \<^verbatim>\<open>Bridge_Steps\<close>, \<^verbatim>\<open>Bridge_Pump\<close> and \<^verbatim>\<open>Bridge_Histories\<close> prove
    its invariants over every history.
  \<^item> \<^verbatim>\<open>Async\<close>: async functions as programs of reads, writes, awaits, spawned calls and joins, the event
    loop that runs them in any interleaving, and rely-guarantee reasoning over it (locale \<open>guarantee\<close>).
  \<^item> \<^verbatim>\<open>Session_State\<close>, \<^verbatim>\<open>Session_Ops\<close>, \<^verbatim>\<open>Session_Api\<close>, \<^verbatim>\<open>Session_Lifecycle\<close>, \<^verbatim>\<open>Session_Manager\<close> (\<^verbatim>\<open>session/manager.ts\<close>): the session manager,
    one program per function, with the bridges of \<^verbatim>\<open>Bridge_State\<close> inside. \<^verbatim>\<open>Session_Safety\<close> and \<^verbatim>\<open>Session_Guarantee\<close> state and
    prove what each program guarantees; \<^verbatim>\<open>Session_Histories\<close> and \<^verbatim>\<open>Session_Names\<close> draw the consequences for histories,
    sandbox names and the trees of subagents.
  \<^item> \<^verbatim>\<open>Meta_Store\<close> (\<^verbatim>\<open>session/metaStore.ts\<close>), \<^verbatim>\<open>Job_Store\<close>, \<^verbatim>\<open>Job_Manager\<close>, \<^verbatim>\<open>Job_Laws\<close> (\<^verbatim>\<open>session/jobStore.ts\<close>,
    \<^verbatim>\<open>session/jobManager.ts\<close>), \<^verbatim>\<open>Sandbox_Resources\<close> (\<^verbatim>\<open>session/resources.ts\<close>), \<^verbatim>\<open>Subagent_Manager\<close>,
    \<^verbatim>\<open>Subagent_Limits\<close> (\<^verbatim>\<open>session/subagentManager.ts\<close>): metadata, background jobs, sandbox sizes and the bounds on subagents.
  \<^item> \<^verbatim>\<open>Json\<close>, \<^verbatim>\<open>Base64\<close>: \<^verbatim>\<open>JSON.parse\<close> as a scanner and a stack machine, inverse to the printer of \<^verbatim>\<open>Prelude\<close>; Node's
    Base64 and UTF-8. \<^verbatim>\<open>Sandbox_Overlay\<close>, \<^verbatim>\<open>Sandbox_Manifest\<close> (\<^verbatim>\<open>session/sandboxOverlay.ts\<close>,
    \<^verbatim>\<open>session/k8sProvisioner.ts\<close>, \<^verbatim>\<open>proxy/sandboxOrigin.ts\<close>): the sandbox's manifest, the overlay merged into it and the
    fields no overlay can change.
  \<^item> \<^verbatim>\<open>Tokens\<close> (\<^verbatim>\<open>auth/hs256.ts\<close>, \<^verbatim>\<open>auth/convToken.ts\<close>, \<^verbatim>\<open>auth/remoteAgentToken.ts\<close>, the controller's
    \<^verbatim>\<open>joinToken.ts\<close>): signed tokens; the keyed hash is a parameter.
  \<^item> \<^verbatim>\<open>Remote_Protocol\<close>, \<^verbatim>\<open>Tunnel\<close> (\<^verbatim>\<open>acp/remoteProtocol.ts\<close>, \<^verbatim>\<open>acp/tunnelTargets.ts\<close>, \<^verbatim>\<open>acp/tunnelService.ts\<close>,
    \<^verbatim>\<open>acp/tunnelClient.ts\<close>): frames as the JSON values they are, the tunnel with its calls in flight, its filter and its sender.
  \<^item> \<^verbatim>\<open>Byoc_Registry\<close>, \<^verbatim>\<open>Byoc_Relay\<close>, \<^verbatim>\<open>Byoc_Devices\<close>, \<^verbatim>\<open>Byoc_Server\<close> (\<^verbatim>\<open>services/byoc-controller/src\<close>): the sockets
    and their owners, the relay of runs as the step relation \<open>relay_step\<close>, device keys as programs of \<^verbatim>\<open>Async\<close> over a
    store with the laws of the locale \<open>device_store\<close>, which the Postgres store and the one in memory keep, and the routes.
  \<^item> \<^verbatim>\<open>Ui_Sessions\<close>, \<^verbatim>\<open>Ui_Rows\<close>, \<^verbatim>\<open>Ui_Sidebar\<close> (\<^verbatim>\<open>services/ui/src/sessions.ts\<close>, \<^verbatim>\<open>services/ui/src/conversation.ts\<close>): the browser's
    list of conversations with the frames the server sends merged into it or held back, the layout of the sidebar,
    and the creation of a conversation on its first send.

  \<^bold>\<open>Conventions.\<close> A function of the source keeps its name where HOL allows it. Time, random ids, the
  agent, the cluster and the outcome of each database statement are inputs, so that a theorem holds
  whatever they do. A thrown error is a value. An async function that another call may overtake is
  either a program of \<^verbatim>\<open>Async\<close> or cut at its awaits into functions (the bridge's pump, the spawn of a
  subagent, a poll of jobs); what runs between two awaits is atomic, as in JavaScript.

  \<^bold>\<open>Bounds.\<close> Walks to the root of a conversation take at most 32 steps, as in the source. The field
  \<open>md_fuel\<close> bounds the recursion over subagents and the loops over the live map of the session manager;
  running out is an error or the end of a sweep, and the safety theorems hold for every value. The
  other loops are total functions with termination proofs.

  \<^bold>\<open>What is shown.\<close> Logs are gapless chains under every interleaving of pods, and only the assigned pod
  extends one; listeners hear only of what is committed. Every run in a bridge's log ends once,
  with its contents between its start and its end, and every
  prompt is settled once. The callbacks of ownership alternate, and a notification is read. An ended conversation stays ended,
  unless its creation was under way, and the manager's state stays well formed. Streams, windows, pages, sizes,
  quoted commands and metadata come back as they were written. A subscriber gets every entry once. Two refinements relate the job store to
  the registry it implements, and the manager's tree to the store's. No overlay changes a sandbox's identity, no
  token stands in for another, a user's container gets no further than its conversation, its streams end
  and its answers arrive once. The browser's list always has its selection, its keys stay distinct, and it stands still under the
  pointer. Theorems without a claim record
  further laws and the histories in which the program fails what it promises.

  \<^bold>\<open>Coarser than the source.\<close> The awaits inside the set-up of a run are answered together: \<open>on_resolved\<close> is the
  choice of a provider with its session, \<open>on_prepared\<close> the reading of the history and the files, each one
  step of the bridge, between which and before which anything else may come. \<open>pod_fence\<close> is the fence of a
  pod that knows its name; a host started without one, as a single replica, appends unfenced, and the
  theorems on fencing are about the former. In \<^verbatim>\<open>Ui_Sidebar\<close> a settled creation is cleared in the step that
  settles it, where the source clears it a microtask later, and a callback that throws is not modelled. The
  histories of the browser's list begin with a first visit; \<open>loadState\<close> of a saved list is modelled on its own.

  \<^bold>\<open>Not modelled.\<close> Kubernetes, HTTP and websocket plumbing (the API calls of \<^verbatim>\<open>session/k8sProvisioner.ts\<close>,
  \<^verbatim>\<open>exec\<close>, \<^verbatim>\<open>proxy/webServiceProxy.ts\<close>, most of \<^verbatim>\<open>api/management.ts\<close>), the wiring in \<^verbatim>\<open>index.ts\<close>, tool descriptions,
  sign-in (\<^verbatim>\<open>auth/identity.ts\<close>), the container's own client, file stores, and the React components: they are
  I/O around the modelled logic, or rest on libraries that are not in the repository. Logging and metrics
  are left out everywhere.
\<close>

end
